(* ===== verification/Prelude.thy ===== *)
theory Prelude
  imports Main "HOL-Library.Word" "HOL-Library.Sublist"
begin

text \<open>
  The vocabulary every component shares: Rust's fixed-width integers as words with their checked
  and saturating arithmetic, strings as UTF-8 byte sequences (one \<^typ>\<open>char\<close> per byte),
  monotonic clock readings as natural numbers of nanoseconds, the combinators of Rust's
  \<open>Option\<close> and \<open>Iterator\<close> the sources use, and the interface locales the
  components are interpreted against: a machine with an invariant, a revision counter that never
  repeats, and a gate that lets an issued effect be acknowledged once.
\<close>

section \<open>Types\<close>

type_synonym u64 = "64 word"
type_synonym u32 = "32 word"
type_synonym u16 = "16 word"
type_synonym byte = char
type_synonym instant = nat  \<comment> \<open>nanoseconds of a monotonic clock\<close>

text \<open>Facts used by every component proof to open record updates and option combinators.\<close>

named_theorems rust_simps \<open>unfoldings of the combinators of the Rust standard library\<close>
named_theorems step_defs \<open>definitions of the operations of the component at hand\<close>
named_theorems inv_intros \<open>preservation of a component invariant, one rule per operation\<close>

section \<open>Checked and saturating arithmetic\<close>

definition checked_add :: "'a::len word \<Rightarrow> 'a word \<Rightarrow> 'a word option" where
  "checked_add a b = (if unat a + unat b < 2 ^ LENGTH('a) then Some (a + b) else None)"

definition checked_mul :: "'a::len word \<Rightarrow> 'a word \<Rightarrow> 'a word option" where
  "checked_mul a b = (if unat a * unat b < 2 ^ LENGTH('a) then Some (a * b) else None)"

definition saturating_add :: "'a::len word \<Rightarrow> 'a word \<Rightarrow> 'a word" where
  "saturating_add a b = (if unat a + unat b < 2 ^ LENGTH('a) then a + b else - 1)"

definition saturating_sub :: "'a::len word \<Rightarrow> 'a word \<Rightarrow> 'a word" where
  "saturating_sub a b = (if b \<le> a then a - b else 0)"

lemma unat_checked_add: "checked_add a b = Some c \<Longrightarrow> unat c = unat a + unat b"
  by (auto simp: checked_add_def unat_word_ariths split: if_splits)

lemma unat_checked_mul: "checked_mul a b = Some c \<Longrightarrow> unat c = unat a * unat b"
  by (auto simp: checked_mul_def unat_word_ariths split: if_splits)

lemma checked_add_None: "checked_add (a :: 'a::len word) b = None \<longleftrightarrow> 2 ^ LENGTH('a) \<le> unat a + unat b"
  by (auto simp: checked_add_def)

lemma checked_add_one_neq: "checked_add a 1 = Some b \<Longrightarrow> b \<noteq> a"
  by (auto simp: checked_add_def split: if_splits)

lemma checked_add_one_less: "checked_add a 1 = Some b \<Longrightarrow> a < b"
  by (auto simp: word_less_nat_alt unat_checked_add)

lemma saturating_sub_le: "saturating_sub a b \<le> (a :: 'a::len word)"
  by (auto simp: saturating_sub_def word_sub_le)

lemma unat_saturating_sub: "unat (saturating_sub a b) = unat a - unat b"
  by (auto simp: saturating_sub_def unat_sub word_le_nat_alt)

lemma saturating_add_mono: "a \<le> saturating_add a (b :: 'a::len word)"
proof (cases "unat a + unat b < 2 ^ LENGTH('a)")
  case True
  then show ?thesis by (simp add: saturating_add_def word_le_nat_alt unat_word_ariths)
next
  case False
  then show ?thesis by (simp add: saturating_add_def)
qed

section \<open>Options and sequences\<close>

definition is_some_and :: "('a \<Rightarrow> bool) \<Rightarrow> 'a option \<Rightarrow> bool" where
  "is_some_and p o1 = (case o1 of None \<Rightarrow> False | Some x \<Rightarrow> p x)"

definition is_none_or :: "('a \<Rightarrow> bool) \<Rightarrow> 'a option \<Rightarrow> bool" where
  "is_none_or p o1 = (case o1 of None \<Rightarrow> True | Some x \<Rightarrow> p x)"

definition opt_filter :: "('a \<Rightarrow> bool) \<Rightarrow> 'a option \<Rightarrow> 'a option" where
  "opt_filter p o1 = (case o1 of None \<Rightarrow> None | Some x \<Rightarrow> if p x then Some x else None)"

definition opt_or :: "'a option \<Rightarrow> 'a option \<Rightarrow> 'a option" where
  "opt_or a b = (case a of None \<Rightarrow> b | Some x \<Rightarrow> Some x)"

lemma is_some_and_simps [simp, rust_simps]:
  "is_some_and p None = False" "is_some_and p (Some x) = p x"
  by (simp_all add: is_some_and_def)

lemma is_none_or_simps [simp, rust_simps]:
  "is_none_or p None = True" "is_none_or p (Some x) = p x"
  by (simp_all add: is_none_or_def)

lemma opt_filter_simps [simp, rust_simps]:
  "opt_filter p None = None" "opt_filter p (Some x) = (if p x then Some x else None)"
  by (simp_all add: opt_filter_def)

lemma opt_or_simps [simp, rust_simps]: "opt_or None b = b" "opt_or (Some x) b = Some x"
  by (simp_all add: opt_or_def)

lemma is_some_and_iff: "is_some_and p o1 \<longleftrightarrow> (\<exists>x. o1 = Some x \<and> p x)"
  by (cases o1) auto

lemma opt_filter_Some_iff: "opt_filter p o1 = Some x \<longleftrightarrow> o1 = Some x \<and> p x"
  by (cases o1) auto

text \<open>\<open>Iterator::position\<close>: the index of the first element that satisfies the predicate.\<close>

fun position :: "('a \<Rightarrow> bool) \<Rightarrow> 'a list \<Rightarrow> nat option" where
  "position p [] = None"
| "position p (x # xs) = (if p x then Some 0 else map_option Suc (position p xs))"

lemma position_Some: "position p xs = Some i \<Longrightarrow> i < length xs \<and> p (xs ! i) \<and> (\<forall>j < i. \<not> p (xs ! j))"
  by (induction xs arbitrary: i) (auto simp: less_Suc_eq_0_disj split: if_splits)

lemma position_less: "position p xs = Some i \<Longrightarrow> i < length xs"
  by (simp add: position_Some)

lemma position_holds: "position p xs = Some i \<Longrightarrow> p (xs ! i)"
  by (simp add: position_Some)

lemma position_None: "position p xs = None \<longleftrightarrow> (\<forall>x \<in> set xs. \<not> p x)"
  by (induction xs) auto

lemma position_ex: "x \<in> set xs \<Longrightarrow> p x \<Longrightarrow> \<exists>i. position p xs = Some i"
  by (metis not_Some_eq position_None)

text \<open>Facts about updating a list at one index, used for records held in vectors.\<close>

lemma in_set_list_updateD: "x \<in> set (xs[i := y]) \<Longrightarrow> x = y \<or> x \<in> set xs"
  by (metis in_set_conv_nth length_list_update nth_list_update_eq nth_list_update_neq)

lemma nth_list_update_any: "j < length xs \<Longrightarrow> xs[i := y] ! j = (if i = j then y else xs ! j)"
  by (cases "i = j") auto

text \<open>\<open>slice::sort_by\<close>, a stable sort by a strict comparison.\<close>

fun insert_by :: "('a \<Rightarrow> 'a \<Rightarrow> bool) \<Rightarrow> 'a \<Rightarrow> 'a list \<Rightarrow> 'a list" where
  "insert_by lt x [] = [x]"
| "insert_by lt x (y # ys) = (if lt y x then y # insert_by lt x ys else x # y # ys)"

definition sort_by :: "('a \<Rightarrow> 'a \<Rightarrow> bool) \<Rightarrow> 'a list \<Rightarrow> 'a list" where
  "sort_by lt xs = foldr (insert_by lt) xs []"

lemma insert_by_set [simp]: "set (insert_by lt x ys) = insert x (set ys)"
  by (induction ys) auto

lemma sort_by_set [simp]: "set (sort_by lt xs) = set xs"
  by (induction xs) (simp_all add: sort_by_def)

section \<open>Results\<close>

text \<open>
  A Rust \<open>Result\<close> is a sum with the error on the left. A run of statements ending in \<open>?\<close> is the
  first error of the list of its checks; a loop of such calls threads a state and stops at the
  first error.
\<close>

fun first_error :: "('e + unit) list \<Rightarrow> 'e + unit" where
  "first_error [] = Inr ()"
| "first_error (Inl e # cs) = Inl e"
| "first_error (Inr u # cs) = first_error cs"

definition refuse_if :: "bool \<Rightarrow> 'e \<Rightarrow> 'e + unit" where
  "refuse_if b e = (if b then Inl e else Inr ())"

fun try_each :: "('a \<Rightarrow> 's \<Rightarrow> 'e + 's) \<Rightarrow> 'a list \<Rightarrow> 's \<Rightarrow> 'e + 's" where
  "try_each f [] s = Inr s"
| "try_each f (x # xs) s = (case f x s of Inl e \<Rightarrow> Inl e | Inr s1 \<Rightarrow> try_each f xs s1)"

definition and_then :: "'e + 'a \<Rightarrow> ('a \<Rightarrow> 'e + 'b) \<Rightarrow> 'e + 'b" where
  "and_then r f = (case r of Inl e \<Rightarrow> Inl e | Inr x \<Rightarrow> f x)"

lemma first_error_ok: "first_error cs = Inr u \<longleftrightarrow> (\<forall>c \<in> set cs. c = Inr ())"
  by (induction cs rule: first_error.induct) auto

lemma refuse_if_ok [simp]: "refuse_if b e = Inr u \<longleftrightarrow> \<not> b" "Inr u = refuse_if b e \<longleftrightarrow> \<not> b"
  by (auto simp: refuse_if_def)

lemma refuse_if_simps [simp, rust_simps]: "refuse_if True e = Inl e" "refuse_if False e = Inr ()"
  by (simp_all add: refuse_if_def)

lemma first_error_append:
  "first_error (as @ bs) = (case first_error as of Inl e \<Rightarrow> Inl e | Inr _ \<Rightarrow> first_error bs)"
  by (induction as rule: first_error.induct) auto

lemma and_then_ok: "and_then r f = Inr y \<longleftrightarrow> (\<exists>x. r = Inr x \<and> f x = Inr y)"
  by (cases r) (auto simp: and_then_def)

lemma and_then_simps [simp, rust_simps]: "and_then (Inl e) f = Inl e" "and_then (Inr x) f = f x"
  by (simp_all add: and_then_def)

section \<open>Strings\<close>

text \<open>
  A Rust \<open>str\<close> is a valid UTF-8 byte sequence and \<open>len()\<close> counts bytes. \<open>char::is_control\<close>
  is the general category Cc, that is U+0000 to U+001F and U+007F to U+009F; the second half of the
  range is encoded as the byte 0xC2 followed by a byte from 0x80 to 0x9F, and 0xC2 begins no other
  two-byte sequence whose second byte lies there.
\<close>

abbreviation byte_val :: "byte \<Rightarrow> nat" where
  "byte_val c \<equiv> of_char c"

fun has_control :: "string \<Rightarrow> bool" where
  "has_control [] = False"
| "has_control (c # cs) =
     (byte_val c < 32 \<or> byte_val c = 127 \<or>
      (byte_val c = 194 \<and> (case cs of [] \<Rightarrow> False | d # _ \<Rightarrow> 128 \<le> byte_val d \<and> byte_val d < 160)) \<or>
      has_control cs)"

text \<open>
  \<open>str::is_char_boundary\<close>: the ends of the string and every index whose byte is not a
  continuation byte; \<open>str::get(i..)\<close> is absent anywhere else.
\<close>

definition is_char_boundary :: "string \<Rightarrow> nat \<Rightarrow> bool" where
  "is_char_boundary s i \<longleftrightarrow>
     i = 0 \<or> i = length s \<or> (i < length s \<and> \<not> (128 \<le> byte_val (s ! i) \<and> byte_val (s ! i) < 192))"

definition get_from :: "string \<Rightarrow> nat \<Rightarrow> string option" where
  "get_from s i = (if is_char_boundary s i then Some (drop i s) else None)"

lemma get_from_suffix: "get_from s i = Some r \<Longrightarrow> suffix r s"
  by (auto simp: get_from_def suffix_drop split: if_splits)

section \<open>Interfaces\<close>

subsection \<open>A machine with an invariant\<close>

text \<open>
  A component whose operations are the inputs of one transition function. A component
  discharges the two laws for its own operations; the run lemmas below then hold for every
  sequence of operations in every order.
\<close>

locale machine =
  fixes init :: "'s \<Rightarrow> bool"
    and step :: "'i \<Rightarrow> 's \<Rightarrow> 's"
    and inv :: "'s \<Rightarrow> bool"
  assumes inv_init: "init s \<Longrightarrow> inv s"
    and inv_step: "inv s \<Longrightarrow> inv (step i s)"
begin

definition run :: "'i list \<Rightarrow> 's \<Rightarrow> 's" where
  "run is s = fold step is s"

lemma run_Nil [simp]: "run [] s = s"
  by (simp add: run_def)

lemma run_Cons [simp]: "run (i # is) s = run is (step i s)"
  by (simp add: run_def)

lemma run_append: "run (is @ js) s = run js (run is s)"
  by (simp add: run_def)

lemma run_inv: "inv s \<Longrightarrow> inv (run is s)"
  by (induction "is" arbitrary: s) (auto intro: inv_step)

lemma reachable_inv: "init s \<Longrightarrow> inv (run is s)"
  by (rule run_inv) (rule inv_init)

text \<open>A measure no step lowers does not go down over a run.\<close>

lemma run_mono:
  assumes "\<And>i s. inv s \<Longrightarrow> (m s :: 'n::preorder) \<le> m (step i s)" and "inv s"
  shows "m s \<le> m (run is s)"
  using assms(2)
proof (induction "is" arbitrary: s)
  case (Cons i "is")
  have "m s \<le> m (step i s)" using assms(1) Cons.prems by simp
  also have "\<dots> \<le> m (run is (step i s))" using Cons inv_step by simp
  finally show ?case by simp
qed simp

text \<open>A property kept by every step of a given kind holds at the end of a run of such steps.\<close>

lemma run_keeps:
  assumes "\<And>i s. inv s \<Longrightarrow> P s \<Longrightarrow> ok i \<Longrightarrow> P (step i s)"
    and "list_all ok is" and "inv s" and "P s"
  shows "P (run is s)"
  using assms(2-4)
  by (induction "is" arbitrary: s) (auto intro: inv_step assms(1))

end

subsection \<open>A machine with output\<close>

text \<open>
  A parser that reads one item at a time and may emit values. Its state part is a machine, and
  what it emits does not depend on how the input is cut into pieces.
\<close>

locale transducer =
  fixes start :: "'s \<Rightarrow> bool"
    and emit :: "'i \<Rightarrow> 's \<Rightarrow> 'o list \<times> 's"
    and tinv :: "'s \<Rightarrow> bool"
  assumes tinv_start: "start s \<Longrightarrow> tinv s"
    and tinv_emit: "tinv s \<Longrightarrow> tinv (snd (emit i s))"
begin

primrec emits :: "'i list \<Rightarrow> 's \<Rightarrow> 'o list \<times> 's" where
  "emits [] s = ([], s)"
| "emits (i # is) s = (fst (emit i s) @ fst (emits is (snd (emit i s))), snd (emits is (snd (emit i s))))"

lemma emits_append:
  "emits (is @ js) s = (fst (emits is s) @ fst (emits js (snd (emits is s))), snd (emits js (snd (emits is s))))"
  by (induction "is" arbitrary: s) simp_all

lemma emits_state: "snd (emits is s) = fold (\<lambda>i s. snd (emit i s)) is s"
  by (induction "is" arbitrary: s) simp_all

text \<open>
  What is emitted is justified by the input read so far, when each step keeps a relation between
  the input history and the state and justifies its own output.
\<close>

lemma emits_justified:
  assumes rel: "\<And>h i s. R h s \<Longrightarrow> R (h @ [i]) (snd (emit i s))"
    and out: "\<And>h i s x. R h s \<Longrightarrow> x \<in> set (fst (emit i s)) \<Longrightarrow> Q (h @ [i]) x"
    and mono: "\<And>h j x. Q h x \<Longrightarrow> Q (h @ j) x"
    and start: "R h s"
  shows "R (h @ is) (snd (emits is s)) \<and> (\<forall>x \<in> set (fst (emits is s)). Q (h @ is) x)"
  using start
proof (induction "is" arbitrary: h s)
  case (Cons i "is")
  have "R (h @ [i]) (snd (emit i s))" by (rule rel [OF Cons.prems])
  from Cons.IH [OF this] show ?case using out [OF Cons.prems] mono [of "h @ [i]" _ "is"] by auto
qed simp

end

sublocale transducer \<subseteq> machine start "\<lambda>i s. snd (emit i s)" tinv
  by unfold_locales (auto intro: tinv_start tinv_emit)

subsection \<open>A revision counter that never repeats\<close>

text \<open>
  Several components guard stale work with a 64-bit revision that is advanced by checked
  addition and becomes absent instead of wrapping round. The law is one equation; the lemmas say
  that a revision read before a bump is never read again.
\<close>

locale revision_counter =
  fixes bump :: "'s \<Rightarrow> 's"
    and rev_of :: "'s \<Rightarrow> u64 option"
  assumes rev_bump: "rev_of (bump s) = Option.bind (rev_of s) (\<lambda>r. checked_add r 1)"
begin

lemma rev_bump_None: "rev_of s = None \<Longrightarrow> rev_of (bump s) = None"
  by (simp add: rev_bump)

lemma rev_bump_Some: "rev_of (bump s) = Some r \<Longrightarrow> \<exists>q. rev_of s = Some q \<and> unat r = Suc (unat q)"
  by (cases "rev_of s") (auto simp: rev_bump dest: unat_checked_add)

lemma rev_bumps:
  "rev_of ((bump ^^ n) s) = Some r \<Longrightarrow> \<exists>q. rev_of s = Some q \<and> unat r = unat q + n"
proof (induction n arbitrary: r)
  case (Suc n)
  then obtain q where "rev_of ((bump ^^ n) s) = Some q" "unat r = Suc (unat q)"
    using rev_bump_Some by fastforce
  with Suc.IH show ?case by fastforce
qed simp

lemma rev_fresh: "rev_of s = Some q \<Longrightarrow> 0 < n \<Longrightarrow> rev_of ((bump ^^ n) s) \<noteq> Some q"
  using rev_bumps by fastforce

text \<open>Absent revisions rank above all others, so a bump never lowers the rank.\<close>

definition rank :: "'s \<Rightarrow> nat" where
  "rank s = (case rev_of s of None \<Rightarrow> 2 ^ 64 | Some r \<Rightarrow> unat r)"

lemma rank_less: "rev_of s = Some r \<Longrightarrow> rank s < 2 ^ 64"
  using unsigned_less [of r] by (simp add: rank_def)

lemma rank_bump_less: "rev_of s \<noteq> None \<Longrightarrow> rank s < rank (bump s)"
  using rev_bump_Some [of s] rank_less [of s] by (cases "rev_of (bump s)") (auto simp: rank_def)

lemma rank_bump_le: "rank s \<le> rank (bump s)"
  using rank_bump_less [of s] rev_bump_None [of s] by (cases "rev_of s") (auto simp: rank_def)

lemma rev_changes: "rev_of (bump s) = rev_of s \<Longrightarrow> rev_of s = None"
  using rev_bump_Some by (cases "rev_of s") fastforce+

end

subsection \<open>A comparator\<close>

text \<open>
  \<open>sort_by\<close> with a strict comparison that is a weak order. The sort is stable; its result is
  ordered and has the elements of its input.
\<close>

locale comparator =
  fixes lt :: "'a \<Rightarrow> 'a \<Rightarrow> bool"
  assumes lt_asym: "lt x y \<Longrightarrow> \<not> lt y x"
    and lt_weak: "\<not> lt y x \<Longrightarrow> \<not> lt z y \<Longrightarrow> \<not> lt z x"
begin

lemma insert_by_ordered:
  "sorted_wrt (\<lambda>a b. \<not> lt b a) ys \<Longrightarrow> sorted_wrt (\<lambda>a b. \<not> lt b a) (insert_by lt x ys)"
proof (induction ys)
  case (Cons y ys)
  have "\<not> lt b x" if "\<not> lt y x" "b \<in> set ys" for b
    using lt_weak [of y x b] Cons.prems that by simp
  moreover have "\<not> lt b y" if "b = x \<or> b \<in> set ys" "lt y x" for b
    using Cons.prems that lt_asym by auto
  ultimately show ?case using Cons by (auto simp: insert_by_set)
qed simp

lemma sort_by_ordered: "sorted_wrt (\<lambda>a b. \<not> lt b a) (sort_by lt xs)"
  by (induction xs) (simp_all add: sort_by_def insert_by_ordered)

end

subsection \<open>An effect gate\<close>

text \<open>
  A reducer hands out effects for its caller to persist; the caller may acknowledge only the
  effect the reducer still accepts, and an acknowledged effect is no longer accepted.
\<close>

locale effect_gate =
  fixes accepts :: "'s \<Rightarrow> 'e \<Rightarrow> bool"
    and ack :: "'e \<Rightarrow> 's \<Rightarrow> bool \<times> 's"
  assumes ack_accepts: "fst (ack e s) \<Longrightarrow> accepts s e"
    and ack_closes: "fst (ack e s) \<Longrightarrow> \<not> accepts (snd (ack e s)) e'"
    and ack_refused: "\<not> fst (ack e s) \<Longrightarrow> snd (ack e s) = s"
begin

lemma ack_once: "fst (ack e s) \<Longrightarrow> \<not> fst (ack e' (snd (ack e s)))"
  using ack_accepts ack_closes by blast

lemma ack_stale: "\<not> accepts s e \<Longrightarrow> ack e s = (False, s)"
  using ack_accepts ack_refused by (metis prod.collapse)

end

end
