(* ===== verification/Utf8.thy ===== *)
theory Utf8
  imports Prelude
begin

text \<open>
  UTF-8 validation as \<open>std::str::from_utf8\<close> performs it, with the error length the terminal parser
  branches on: a sequence that ends too early has no error length, a wrong byte has one. Also the
  byte-level string operations (\<open>strip_prefix\<close>, \<open>split\<close>, \<open>split_once\<close> on an ASCII
  separator) the sources apply to validated text.
\<close>

section \<open>Validation\<close>

datatype utf8_result = Utf8_Ok | Utf8_Err "nat option"

text \<open>The ranges of the continuation bytes that may follow a given first byte.\<close>

definition cont_ranges :: "byte \<Rightarrow> (nat \<times> nat) list option" where
  "cont_ranges c =
     (let b = byte_val c in
      if b < 128 then Some []
      else if 194 \<le> b \<and> b \<le> 223 then Some [(128, 191)]
      else if b = 224 then Some [(160, 191), (128, 191)]
      else if b = 237 then Some [(128, 159), (128, 191)]
      else if 225 \<le> b \<and> b \<le> 239 then Some [(128, 191), (128, 191)]
      else if b = 240 then Some [(144, 191), (128, 191), (128, 191)]
      else if b = 244 then Some [(128, 143), (128, 191), (128, 191)]
      else if 241 \<le> b \<and> b \<le> 243 then Some [(128, 191), (128, 191), (128, 191)]
      else None)"

fun scan_seq :: "(nat \<times> nat) list \<Rightarrow> nat \<Rightarrow> string \<Rightarrow> string + nat option" where
  "scan_seq [] k cs = Inl cs"
| "scan_seq (r # rs) k [] = Inr None"
| "scan_seq ((lo, hi) # rs) k (c # cs) =
     (if lo \<le> byte_val c \<and> byte_val c \<le> hi then scan_seq rs (Suc k) cs else Inr (Some k))"

lemma scan_seq_length: "scan_seq rs k cs = Inl rest \<Longrightarrow> length rest \<le> length cs"
  by (induction rs k cs rule: scan_seq.induct) (auto split: if_splits)

function from_utf8 :: "string \<Rightarrow> utf8_result" where
  "from_utf8 [] = Utf8_Ok"
| "from_utf8 (c # cs) =
     (case cont_ranges c of
        None \<Rightarrow> Utf8_Err (Some 1)
      | Some rs \<Rightarrow> (case scan_seq rs 1 cs of Inl rest \<Rightarrow> from_utf8 rest | Inr e \<Rightarrow> Utf8_Err e))"
  by pat_completeness auto

termination
  by (relation "measure length") (auto dest: scan_seq_length)

text \<open>The first scalar value of a valid text.\<close>

fun first_char :: "string \<Rightarrow> nat option" where
  "first_char [] = None"
| "first_char (c # cs) =
     (case cont_ranges c of
        None \<Rightarrow> None
      | Some rs \<Rightarrow>
          (let lead = byte_val c - (case length rs of 0 \<Rightarrow> 0 | Suc 0 \<Rightarrow> 192 | Suc (Suc 0) \<Rightarrow> 224 | _ \<Rightarrow> 240)
           in Some (foldl (\<lambda>v d. v * 64 + (byte_val d - 128)) lead (take (length rs) cs))))"

text \<open>Validity is kept by concatenation, and every ASCII text is valid.\<close>

lemma scan_seq_append:
  "scan_seq rs k cs = Inl rest \<Longrightarrow> scan_seq rs k (cs @ ds) = Inl (rest @ ds)"
  by (induction rs k cs rule: scan_seq.induct) (auto split: if_splits)

lemma from_utf8_append: "from_utf8 a = Utf8_Ok \<Longrightarrow> from_utf8 (a @ b) = from_utf8 b"
proof (induction a rule: from_utf8.induct)
  case (2 c cs)
  then obtain rs where rs: "cont_ranges c = Some rs" by (auto split: option.splits)
  then obtain rest where rest: "scan_seq rs 1 cs = Inl rest"
    using 2 by (auto split: sum.splits)
  with 2 rs show ?case by (auto simp: scan_seq_append)
qed simp

lemma cont_ranges_ascii [simp]: "byte_val c < 128 \<Longrightarrow> cont_ranges c = Some []"
  by (simp add: cont_ranges_def)

lemma from_utf8_ascii: "list_all (\<lambda>c. byte_val c < 128) s \<Longrightarrow> from_utf8 s = Utf8_Ok"
  by (induction s) simp_all

text \<open>
  A text that lacks only the end of its first character: the proper prefixes of one character are
  those on which validation ends with no error length.
\<close>

definition pending_char :: "string \<Rightarrow> bool" where
  "pending_char u \<longleftrightarrow> (\<exists>c cs rs. u = c # cs \<and> cont_ranges c = Some rs \<and> scan_seq rs 1 cs = Inr None)"

lemma scan_seq_prefix: "scan_seq rs k (cs @ ds) = Inr None \<Longrightarrow> scan_seq rs k cs = Inr None"
  by (induction rs k cs rule: scan_seq.induct) (auto split: if_splits)

lemma scan_seq_None_length: "scan_seq rs k cs = Inr None \<Longrightarrow> length cs < length rs"
  by (induction rs k cs rule: scan_seq.induct) (auto split: if_splits)

lemma cont_ranges_length: "cont_ranges c = Some rs \<Longrightarrow> length rs \<le> 3"
  by (auto simp: cont_ranges_def Let_def split: if_splits)

lemma pending_char_length: "pending_char u \<Longrightarrow> 0 < length u \<and> length u \<le> 3"
  unfolding pending_char_def
proof (elim exE conjE)
  fix c cs rs assume "u = c # cs" "cont_ranges c = Some rs" "scan_seq rs 1 cs = Inr None"
  then show ?thesis using scan_seq_None_length [of rs 1 cs] cont_ranges_length [of c rs] by simp
qed

lemma pending_char_prefix: "pending_char (u @ v) \<Longrightarrow> u \<noteq> [] \<Longrightarrow> pending_char u"
  by (cases u) (auto simp: pending_char_def dest: scan_seq_prefix)

lemma pending_char_err: "pending_char u \<Longrightarrow> from_utf8 u = Utf8_Err None"
  by (auto simp: pending_char_def)

lemma cont_ranges_lead: "194 \<le> byte_val c \<Longrightarrow> byte_val c \<le> 244 \<Longrightarrow> \<exists>r rs. cont_ranges c = Some (r # rs)"
  by (auto simp: cont_ranges_def Let_def)

lemma cont_ranges_lead_only:
  "cont_ranges c = Some (r # rs) \<Longrightarrow> 194 \<le> byte_val c \<and> byte_val c \<le> 244"
  by (auto simp: cont_ranges_def Let_def split: if_splits)

lemma pending_char_lead: "194 \<le> byte_val c \<Longrightarrow> byte_val c \<le> 244 \<Longrightarrow> pending_char [c]"
  using cont_ranges_lead [of c] by (auto simp: pending_char_def)

lemma pending_char_head: "pending_char (c # cs) \<Longrightarrow> 194 \<le> byte_val c \<and> byte_val c \<le> 244"
proof -
  assume "pending_char (c # cs)"
  then obtain rs where rs: "cont_ranges c = Some rs" "scan_seq rs 1 cs = Inr None"
    by (auto simp: pending_char_def)
  then show ?thesis using cont_ranges_lead_only by (cases rs) auto
qed

lemma scan_seq_complete:
  "scan_seq rs k cs = Inr None \<Longrightarrow> scan_seq rs k (cs @ [b]) = Inl rest \<Longrightarrow> rest = []"
proof (induction rs arbitrary: k cs)
  case (Cons r rs)
  obtain lo hi where r: "r = (lo, hi)" by (cases r)
  show ?case
  proof (cases cs)
    case Nil
    then show ?thesis using Cons.prems(2) r by (cases rs) (auto split: if_splits)
  next
    case (Cons c ds)
    then show ?thesis using Cons.IH [of "Suc k" ds] Cons.prems r by (auto split: if_splits)
  qed
qed simp

lemma pending_char_snoc:
  assumes "pending_char u" and "from_utf8 (u @ [b]) = Utf8_Err None"
  shows "pending_char (u @ [b])"
proof -
  obtain c cs rs where u: "u = c # cs" "cont_ranges c = Some rs" "scan_seq rs 1 cs = Inr None"
    using assms(1) by (auto simp: pending_char_def)
  then show ?thesis using assms(2) scan_seq_complete [OF u(3), of b]
    by (cases "scan_seq rs 1 (cs @ [b])") (auto simp: pending_char_def)
qed

section \<open>Splitting\<close>

fun strip_prefix :: "string \<Rightarrow> string \<Rightarrow> string option" where
  "strip_prefix [] s = Some s"
| "strip_prefix (p # ps) [] = None"
| "strip_prefix (p # ps) (c # cs) = (if p = c then strip_prefix ps cs else None)"

text \<open>\<open>str::split\<close>: the pieces between separators, always at least one.\<close>

fun split_on :: "byte \<Rightarrow> string \<Rightarrow> string list" where
  "split_on sep [] = [[]]"
| "split_on sep (c # cs) =
     (if c = sep then [] # split_on sep cs
      else case split_on sep cs of [] \<Rightarrow> [[c]] | p # ps \<Rightarrow> (c # p) # ps)"

fun split_once :: "byte \<Rightarrow> string \<Rightarrow> (string \<times> string) option" where
  "split_once sep [] = None"
| "split_once sep (c # cs) =
     (if c = sep then Some ([], cs) else map_option (\<lambda>(a, b). (c # a, b)) (split_once sep cs))"

fun join :: "byte \<Rightarrow> string list \<Rightarrow> string" where
  "join sep [] = []"
| "join sep [p] = p"
| "join sep (p # q # ps) = p @ sep # join sep (q # ps)"

lemma strip_prefix_Some: "strip_prefix p s = Some r \<longleftrightarrow> s = p @ r"
  by (induction p s rule: strip_prefix.induct) auto

lemma split_on_nonempty: "split_on sep s \<noteq> []"
  by (induction s) (auto split: list.split)

lemma join_split: "join sep (split_on sep s) = s"
proof (induction s)
  case (Cons c cs)
  obtain p ps where "split_on sep cs = p # ps" using split_on_nonempty by (metis neq_Nil_conv)
  with Cons show ?case by (cases ps) auto
qed simp

lemma split_on_piece: "sep \<notin> set p \<Longrightarrow> split_on sep p = [p]"
  by (induction p) auto

lemma split_on_piece_more: "sep \<notin> set p \<Longrightarrow> split_on sep (p @ sep # s) = p # split_on sep s"
  by (induction p) auto

lemma split_join: "ps \<noteq> [] \<Longrightarrow> list_all (\<lambda>p. sep \<notin> set p) ps \<Longrightarrow> split_on sep (join sep ps) = ps"
  by (induction sep ps rule: join.induct) (auto simp: split_on_piece split_on_piece_more)

lemma split_on_free: "p \<in> set (split_on sep s) \<Longrightarrow> sep \<notin> set p"
proof (induction s arbitrary: p)
  case (Cons c cs)
  obtain q qs where "split_on sep cs = q # qs" using split_on_nonempty by (metis neq_Nil_conv)
  with Cons show ?case by (auto split: if_splits)
qed simp

lemma split_once_Some: "split_once sep s = Some (a, b) \<longleftrightarrow> s = a @ sep # b \<and> sep \<notin> set a"
proof (induction s arbitrary: a)
  case (Cons c cs)
  then show ?case by (cases a) (auto split: if_splits)
qed simp

section \<open>Characters\<close>

definition continuation :: "byte \<Rightarrow> bool" where
  "continuation b \<longleftrightarrow> 128 \<le> byte_val b \<and> byte_val b < 192"

text \<open>The scalar values of a valid text, \<open>chars()\<close>.\<close>

fun code_points :: "string \<Rightarrow> nat list" where
  "code_points [] = []"
| "code_points (a # s) =
     (if byte_val a < 128 then byte_val a # code_points s
      else if byte_val a < 224 then
        (case s of b # r \<Rightarrow> ((byte_val a - 192) * 64 + (byte_val b - 128)) # code_points r | _ \<Rightarrow> [])
      else if byte_val a < 240 then
        (case s of b # c # r \<Rightarrow>
           ((byte_val a - 224) * 4096 + (byte_val b - 128) * 64 + (byte_val c - 128)) # code_points r | _ \<Rightarrow> [])
      else
        (case s of b # c # d # r \<Rightarrow>
           ((byte_val a - 240) * 262144 + (byte_val b - 128) * 4096 + (byte_val c - 128) * 64 + (byte_val d - 128))
             # code_points r | _ \<Rightarrow> []))"

text \<open>\<open>chars().count()\<close> of a valid text, and its first characters.\<close>

definition char_count :: "string \<Rightarrow> nat" where
  "char_count s = length (filter (\<lambda>b. \<not> continuation b) s)"

fun truncate_chars :: "string \<Rightarrow> nat \<Rightarrow> string" where
  "truncate_chars [] n = []"
| "truncate_chars (c # cs) n =
     (if continuation c then c # truncate_chars cs n
      else case n of 0 \<Rightarrow> [] | Suc m \<Rightarrow> c # truncate_chars cs m)"

lemma truncate_chars_count: "char_count (truncate_chars s n) \<le> n"
  by (induction s n rule: truncate_chars.induct) (auto simp: char_count_def split: nat.split)

lemma truncate_chars_short: "char_count s \<le> n \<Longrightarrow> truncate_chars s n = s"
  by (induction s n rule: truncate_chars.induct) (auto simp: char_count_def split: nat.split if_splits)

text \<open>
  \<open>trim().is_empty()\<close>: every character is white space, that is U+0009 to U+000D, U+0020, U+0085,
  U+00A0, U+1680, U+2000 to U+200A, U+2028, U+2029, U+202F, U+205F or U+3000, here in UTF-8.
\<close>

definition white1 :: "byte \<Rightarrow> bool" where
  "white1 c \<longleftrightarrow> (9 \<le> byte_val c \<and> byte_val c \<le> 13) \<or> byte_val c = 32"

definition white2 :: "string \<Rightarrow> bool" where
  "white2 s \<longleftrightarrow> map byte_val s \<in> {[0xC2, 0x85], [0xC2, 0xA0 :: nat]}"

definition white3 :: "string \<Rightarrow> bool" where
  "white3 s \<longleftrightarrow> map byte_val s \<in> {[0xE1, 0x9A, 0x80], [0xE2, 0x80, 0xA8], [0xE2, 0x80, 0xA9],
       [0xE2, 0x80, 0xAF], [0xE2, 0x81, 0x9F], [0xE3, 0x80, 0x80 :: nat]} \<or>
     (length s = 3 \<and> byte_val (s ! 0) = 0xE2 \<and> byte_val (s ! 1) = 0x80 \<and>
      0x80 \<le> byte_val (s ! 2) \<and> byte_val (s ! 2) \<le> 0x8A)"

fun all_white :: "string \<Rightarrow> bool" where
  "all_white [] = True"
| "all_white (c # cs) =
     (if white1 c then all_white cs
      else if white2 (c # take 1 cs) then all_white (drop 1 cs)
      else if white3 (c # take 2 cs) then all_white (drop 2 cs)
      else False)"

text \<open>
  \<open>trim()\<close>: white space is removed in front, then behind, where the encoding of a character is
  read backwards from its last byte; and \<open>contains(char::is_whitespace)\<close>.
\<close>

fun trim_start :: "string \<Rightarrow> string" where
  "trim_start [] = []"
| "trim_start (c # cs) =
     (if white1 c then trim_start cs
      else if white2 (c # take 1 cs) then trim_start (drop 1 cs)
      else if white3 (c # take 2 cs) then trim_start (drop 2 cs)
      else c # cs)"

fun trim_back :: "string \<Rightarrow> string" where
  "trim_back [] = []"
| "trim_back (c # cs) =
     (if white1 c then trim_back cs
      else if white2 (rev (c # take 1 cs)) then trim_back (drop 1 cs)
      else if white3 (rev (c # take 2 cs)) then trim_back (drop 2 cs)
      else c # cs)"

definition trim :: "string \<Rightarrow> string" where
  "trim s = rev (trim_back (rev (trim_start s)))"

fun has_white :: "string \<Rightarrow> bool" where
  "has_white [] = False"
| "has_white (c # cs) = (white1 c \<or> white2 (c # take 1 cs) \<or> white3 (c # take 2 cs) \<or> has_white cs)"

lemma trim_start_suffix: "suffix (trim_start s) s"
proof (induction s rule: trim_start.induct)
  case (2 c cs)
  have "suffix (drop n cs) (c # cs)" for n by (metis drop_Suc_Cons suffix_drop)
  then show ?case using 2 by (auto intro: suffix_ConsI suffix_order.trans)
qed simp

lemma trim_back_suffix: "suffix (trim_back s) s"
proof (induction s rule: trim_back.induct)
  case (2 c cs)
  have "suffix (drop n cs) (c # cs)" for n by (metis drop_Suc_Cons suffix_drop)
  then show ?case using 2 by (auto intro: suffix_ConsI suffix_order.trans)
qed simp

lemma trim_sublist: "sublist (trim s) s"
proof -
  have "prefix (trim s) (trim_start s)"
    using trim_back_suffix [of "rev (trim_start s)"] by (simp add: trim_def suffix_to_prefix)
  then show ?thesis using trim_start_suffix [of s] by (meson prefix_imp_sublist sublist_order.order.trans suffix_imp_sublist)
qed

text \<open>ASCII case folding and the substring test.\<close>

definition ascii_lower :: "byte \<Rightarrow> byte" where
  "ascii_lower c = (if 65 \<le> byte_val c \<and> byte_val c \<le> 90 then char_of (byte_val c + 32) else c)"

definition to_ascii_lowercase :: "string \<Rightarrow> string" where
  "to_ascii_lowercase s = map ascii_lower s"

definition ascii_upper :: "byte \<Rightarrow> byte" where
  "ascii_upper c = (if 97 \<le> byte_val c \<and> byte_val c \<le> 122 then char_of (byte_val c - 32) else c)"

fun starts_with :: "string \<Rightarrow> string \<Rightarrow> bool" where
  "starts_with s [] = True"
| "starts_with [] (p # ps) = False"
| "starts_with (c # cs) (p # ps) = (c = p \<and> starts_with cs ps)"

definition ends_with :: "string \<Rightarrow> string \<Rightarrow> bool" where
  "ends_with s p = starts_with (rev s) (rev p)"

fun contains :: "string \<Rightarrow> string \<Rightarrow> bool" where
  "contains [] p = starts_with [] p"
| "contains (c # cs) p = (starts_with (c # cs) p \<or> contains cs p)"

text \<open>The byte classes of \<open>u8::is_ascii_alphanumeric\<close> and \<open>u8::is_ascii_hexdigit\<close>.\<close>

definition ascii_alphanumeric :: "byte \<Rightarrow> bool" where
  "ascii_alphanumeric b \<longleftrightarrow> (48 \<le> byte_val b \<and> byte_val b \<le> 57) \<or>
     (65 \<le> byte_val b \<and> byte_val b \<le> 90) \<or> (97 \<le> byte_val b \<and> byte_val b \<le> 122)"

definition ascii_hexdigit :: "byte \<Rightarrow> bool" where
  "ascii_hexdigit b \<longleftrightarrow> (48 \<le> byte_val b \<and> byte_val b \<le> 57) \<or>
     (65 \<le> byte_val b \<and> byte_val b \<le> 70) \<or> (97 \<le> byte_val b \<and> byte_val b \<le> 102)"

end
