(* ===== verification/Codex_Approval.thy ===== *)
theory Codex_Approval
  imports Prelude
begin

text \<open>
  The approval reducer of \<^verbatim>\<open>crates/orkworksd/src/runtime/codex_approval.rs\<close>: a pure machine
  that correlates validated Codex hooks with native status observations and decides when the
  attention owner may show or clear a permission wait. The fields that exist only in test builds
  (\<open>permission_had_exact_tool\<close>, \<open>diagnostic_exact_posts\<close>) are left out. An operation whose
  source can index a vector out of range returns an option, \<^const>\<open>None\<close> standing for the panic.
\<close>

section \<open>Data\<close>

definition GRACE :: nat where "GRACE = 2000000000"

definition FRESHNESS :: nat where "FRESHNESS = 300000000"

definition MAX_RECORDS :: nat where "MAX_RECORDS = 64"

record fence =
  runtime_generation :: u64
  identity_revision :: u64
  turn_revision :: u64
  input_revision :: u64

datatype candidate_id = CandidateId u64

fun cid_val :: "candidate_id \<Rightarrow> nat" where
  "cid_val (CandidateId n) = unat n"

datatype hook_event = PreToolUse | PermissionRequest | PostToolUse | Stop | UserPromptSubmit

datatype native_status = Active | ApprovalPending | UserInputPending | Unavailable

datatype effect = ShowWait candidate_id fence | ClearWait candidate_id fence

record observation =
  ob_status :: native_status
  ob_started_at :: instant

record candidate =
  cand_id :: candidate_id
  eligible :: bool
  saw_pending_edge :: bool
  retired :: bool

record tool_record =
  tool_id :: "string option"
  has_pre :: bool
  completed :: bool
  candidate :: "candidate option"

record wait =
  wt_candidate :: candidate_id
  received_at :: instant
  shown :: bool

record approval_reducer =
  ar_fence :: fence
  ar_records :: "tool_record list"
  ar_latest_pre :: "nat option"
  ar_observation :: "observation option"
  ar_last_observation_start :: "instant option"
  ar_clock :: "instant option"
  ar_wait :: "wait option"
  ar_locked :: bool
  ar_next_candidate :: u64
  ar_exhausted :: bool
  ar_issued :: "effect option"
  ar_pending_clear :: "effect option"

definition new_reducer :: "fence \<Rightarrow> approval_reducer" where
  "new_reducer f =
     \<lparr>ar_fence = f, ar_records = [], ar_latest_pre = None, ar_observation = None,
      ar_last_observation_start = None, ar_clock = None, ar_wait = None, ar_locked = False,
      ar_next_candidate = 0, ar_exhausted = False, ar_issued = None, ar_pending_clear = None\<rparr>"

section \<open>Internal operations\<close>

definition reset :: "approval_reducer \<Rightarrow> approval_reducer" where
  "reset s = s\<lparr>ar_records := [], ar_latest_pre := None, ar_observation := None,
     ar_last_observation_start := None, ar_clock := None, ar_wait := None,
     ar_locked := ar_exhausted s, ar_issued := None, ar_pending_clear := None\<rparr>"

definition revoke_record :: "tool_record \<Rightarrow> tool_record" where
  "revoke_record r = r\<lparr>candidate := map_option (\<lambda>c. c\<lparr>eligible := False\<rparr>) (candidate r)\<rparr>"

definition lock :: "approval_reducer \<Rightarrow> approval_reducer" where
  "lock s = s\<lparr>ar_locked := True, ar_pending_clear := None,
     ar_records := map revoke_record (ar_records s)\<rparr>"

definition lock_if :: "bool \<Rightarrow> approval_reducer \<Rightarrow> approval_reducer" where
  "lock_if b s = (if b then lock s else s)"

definition advance_clock :: "instant \<Rightarrow> approval_reducer \<Rightarrow> bool \<times> approval_reducer" where
  "advance_clock now s =
     (if is_some_and (\<lambda>last. now < last) (ar_clock s)
      then (False, (lock s)\<lparr>ar_observation := None\<rparr>)
      else (True, s\<lparr>ar_clock := Some now\<rparr>))"

definition observation_is_fresh :: "instant \<Rightarrow> instant \<Rightarrow> bool" where
  "observation_is_fresh started_at now = (started_at \<le> now \<and> now - started_at \<le> FRESHNESS)"

definition has_fresh_observation :: "instant \<Rightarrow> approval_reducer \<Rightarrow> bool" where
  "has_fresh_observation now s =
     is_some_and (\<lambda>o1. observation_is_fresh (ob_started_at o1) now) (ar_observation s)"

definition has_fresh_active :: "instant \<Rightarrow> approval_reducer \<Rightarrow> bool" where
  "has_fresh_active now s =
     is_some_and (\<lambda>o1. ob_status o1 = Active \<and> observation_is_fresh (ob_started_at o1) now)
       (ar_observation s)"

definition find_tool :: "string \<Rightarrow> approval_reducer \<Rightarrow> nat option" where
  "find_tool tid s = position (\<lambda>r. tool_id r = Some tid) (ar_records s)"

definition add_record ::
  "string option \<Rightarrow> bool \<Rightarrow> bool \<Rightarrow> approval_reducer \<Rightarrow> nat option \<times> approval_reducer" where
  "add_record tid pre_seen done s =
     (if length (ar_records s) \<ge> MAX_RECORDS then (None, lock s)
      else (Some (length (ar_records s)),
            s\<lparr>ar_records := ar_records s @
               [\<lparr>tool_id = tid, has_pre = pre_seen, completed = done, candidate = None\<rparr>]\<rparr>))"

definition pre_tool :: "string option \<Rightarrow> approval_reducer \<Rightarrow> approval_reducer" where
  "pre_tool tid0 s =
     (let tid = opt_filter (\<lambda>i. i \<noteq> []) tid0 in
      if is_some_and (\<lambda>i. find_tool i s \<noteq> None) tid then s
      else
        (let s1 = lock_if (tid = None) s;
             s2 = lock_if (\<exists>r \<in> set (ar_records s1). \<not> completed r) s1;
             (idx, s3) = add_record tid True False s2
         in s3\<lparr>ar_latest_pre := idx\<rparr>))"

text \<open>
  The record a permission refers to. The anonymous branch reads \<open>self.records[i]\<close> at the
  remembered index, which panics when the index is out of range.
\<close>

definition anonymous_open :: "tool_record \<Rightarrow> bool" where
  "anonymous_open r = (tool_id r = None \<and> \<not> completed r \<and>
     is_some_and (\<lambda>c. \<not> retired c) (candidate r))"

definition permission_index ::
  "string option \<Rightarrow> approval_reducer \<Rightarrow> (nat option \<times> approval_reducer) option" where
  "permission_index tid s =
     (case tid of
        Some i \<Rightarrow>
          (if i \<noteq> [] then
             (case find_tool i s of
                Some idx \<Rightarrow> Some (Some idx, s)
              | None \<Rightarrow> Some (add_record (Some i) False False (lock s)))
           else Some (add_record None False False (lock s)))
      | None \<Rightarrow>
          (case ar_latest_pre s of
             Some i \<Rightarrow>
               (if i < length (ar_records s) then
                  (if \<not> completed (ar_records s ! i) \<and>
                      \<not> is_some_and retired (candidate (ar_records s ! i))
                   then Some (Some i, s)
                   else
                     (case position anonymous_open (ar_records s) of
                        Some j \<Rightarrow> Some (Some j, s)
                      | None \<Rightarrow> Some (add_record None False False (lock s))))
                else None)
           | None \<Rightarrow>
               (case position anonymous_open (ar_records s) of
                  Some j \<Rightarrow> Some (Some j, s)
                | None \<Rightarrow> Some (add_record None False False (lock s)))))"

definition set_candidate :: "nat \<Rightarrow> candidate option \<Rightarrow> approval_reducer \<Rightarrow> approval_reducer" where
  "set_candidate i c s =
     s\<lparr>ar_records := (ar_records s)[i := (ar_records s ! i)\<lparr>candidate := c\<rparr>]\<rparr>"

definition seen_before :: "nat option \<Rightarrow> approval_reducer \<Rightarrow> bool" where
  "seen_before idx s =
     is_some_and (\<lambda>i. completed (ar_records s ! i) \<or> candidate (ar_records s ! i) \<noteq> None) idx"

definition exact_chain :: "nat option \<Rightarrow> approval_reducer \<Rightarrow> bool" where
  "exact_chain idx s =
     is_some_and (\<lambda>i. has_pre (ar_records s ! i) \<and> tool_id (ar_records s ! i) \<noteq> None) idx"

definition open_candidate ::
  "nat option \<Rightarrow> instant \<Rightarrow> approval_reducer \<Rightarrow> approval_reducer" where
  "open_candidate idx now s =
     (case checked_add (ar_next_candidate s) 1 of
        None \<Rightarrow> lock (s\<lparr>ar_exhausted := True\<rparr>)
      | Some next \<Rightarrow>
          (let s1 = s\<lparr>ar_next_candidate := next\<rparr>;
               s2 = (case idx of
                       None \<Rightarrow> s1
                     | Some i \<Rightarrow> set_candidate i
                         (Some \<lparr>cand_id = CandidateId next, eligible = (\<not> ar_locked s1),
                                saw_pending_edge = False, retired = False\<rparr>) s1)
           in if ar_wait s2 = None
              then s2\<lparr>ar_wait := Some \<lparr>wt_candidate = CandidateId next, received_at = now,
                                       shown = False\<rparr>\<rparr>
              else s2))"

definition permission ::
  "string option \<Rightarrow> instant \<Rightarrow> approval_reducer \<Rightarrow> approval_reducer option" where
  "permission tid now s0 =
     (case permission_index tid s0 of
        None \<Rightarrow> None
      | Some (idx, s) \<Rightarrow>
          Some (if seen_before idx s then lock_if (tid = None) s
                else open_candidate idx now
                  (lock_if
                     (\<not> has_fresh_active now s \<or> \<not> exact_chain idx s \<or>
                      length (filter (\<lambda>r. \<not> completed r) (ar_records s)) \<noteq> 1 \<or>
                      ar_wait s \<noteq> None) s)))"

definition serial_candidate :: "approval_reducer \<Rightarrow> nat option" where
  "serial_candidate s =
     (if ar_locked s then None
      else position (\<lambda>r. is_some_and (\<lambda>c. eligible c \<and> \<not> retired c) (candidate r)) (ar_records s))"

definition retire :: "nat \<Rightarrow> approval_reducer \<Rightarrow> effect option \<times> approval_reducer" where
  "retire i s =
     (case candidate (ar_records s ! i) of
        None \<Rightarrow> (None, s)
      | Some c \<Rightarrow>
          (if retired c then (None, s)
           else
             (let s1 = set_candidate i (Some (c\<lparr>retired := True\<rparr>)) s in
              if ar_locked s \<or> \<not> eligible c then (None, s1)
              else
                (case ar_wait s of
                   None \<Rightarrow> (None, s1)
                 | Some w \<Rightarrow>
                     (if wt_candidate w \<noteq> cand_id c then (None, s1)
                      else if \<not> shown w then (None, s1\<lparr>ar_wait := None\<rparr>)
                      else (let e = ClearWait (wt_candidate w) (ar_fence s)
                            in (Some e, s1\<lparr>ar_pending_clear := Some e\<rparr>)))))))"

definition complete_record :: "nat \<Rightarrow> approval_reducer \<Rightarrow> approval_reducer" where
  "complete_record i s =
     s\<lparr>ar_records := (ar_records s)[i := (ar_records s ! i)\<lparr>completed := True\<rparr>]\<rparr>"

definition post_tool :: "string option \<Rightarrow> approval_reducer \<Rightarrow> effect option \<times> approval_reducer" where
  "post_tool tid s =
     (case opt_filter (\<lambda>i. i \<noteq> []) tid of
        None \<Rightarrow> (None, lock s)
      | Some i \<Rightarrow>
          (case find_tool i s of
             None \<Rightarrow> (None, snd (add_record (Some i) False True (lock s)))
           | Some idx \<Rightarrow>
               (if completed (ar_records s ! idx) then (None, s)
                else
                  (let s1 = complete_record idx s in
                   if candidate (ar_records s1 ! idx) = None then (None, s1)
                   else retire idx s1))))"

definition issue :: "effect \<Rightarrow> approval_reducer \<Rightarrow> effect list \<times> approval_reducer" where
  "issue e s = ([e], s\<lparr>ar_issued := Some e\<rparr>)"

definition display_due :: "instant \<Rightarrow> approval_reducer \<Rightarrow> effect list \<times> approval_reducer" where
  "display_due now s =
     (case ar_wait s of
        None \<Rightarrow> ([], s)
      | Some w \<Rightarrow>
          (if shown w \<or> \<not> (received_at w \<le> now \<and> now - received_at w \<ge> GRACE) then ([], s)
           else if \<not> ar_locked s \<and> has_fresh_active now s then ([], s)
           else issue (ShowWait (wt_candidate w) (ar_fence s)) s))"

section \<open>The interface of the reducer\<close>

definition hook_begin :: "approval_reducer \<Rightarrow> approval_reducer" where
  "hook_begin s = lock_if (ar_pending_clear s \<noteq> None) (s\<lparr>ar_issued := None\<rparr>)"

definition post_expire :: "instant \<Rightarrow> approval_reducer \<Rightarrow> approval_reducer" where
  "post_expire now s = lock_if (ar_wait s \<noteq> None \<and> \<not> has_fresh_observation now s) s"

definition hook ::
  "hook_event \<Rightarrow> string option \<Rightarrow> instant \<Rightarrow> approval_reducer \<Rightarrow>
   (effect list \<times> approval_reducer) option" where
  "hook event tid now s0 =
     (let s1 = hook_begin s0 in
      if event = Stop \<or> event = UserPromptSubmit then Some ([], reset s1)
      else
        (let s2 = snd (advance_clock now s1) in
         case event of
           PreToolUse \<Rightarrow> Some (display_due now (pre_tool tid s2))
         | PermissionRequest \<Rightarrow> map_option (display_due now) (permission tid now s2)
         | _ \<Rightarrow>
             (case post_tool tid (post_expire now s2) of
                (Some e, s3) \<Rightarrow> Some (issue e s3)
              | (None, s3) \<Rightarrow> Some (display_due now s3))))"

definition mark_pending_edge :: "nat \<Rightarrow> approval_reducer \<Rightarrow> approval_reducer" where
  "mark_pending_edge i s =
     set_candidate i
       (map_option (\<lambda>c. c\<lparr>saw_pending_edge := True\<rparr>) (candidate (ar_records s ! i))) s"

definition saw_edge_at :: "nat \<Rightarrow> approval_reducer \<Rightarrow> bool" where
  "saw_edge_at i s = is_some_and saw_pending_edge (candidate (ar_records s ! i))"

definition observe_pending ::
  "native_status option \<Rightarrow> instant \<Rightarrow> approval_reducer \<Rightarrow> approval_reducer" where
  "observe_pending previous started_at s =
     (if ar_locked s then s
      else
        (let can_attribute =
               is_some_and (\<lambda>w. started_at \<ge> received_at w) (ar_wait s) \<and> previous = Some Active
         in case serial_candidate s of
              None \<Rightarrow> lock s
            | Some i \<Rightarrow>
                (if can_attribute then mark_pending_edge i s
                 else if saw_edge_at i s then s
                 else lock s)))"

definition observe_active ::
  "native_status option \<Rightarrow> approval_reducer \<Rightarrow> effect option \<times> approval_reducer" where
  "observe_active previous s =
     (if \<not> ar_locked s \<and> previous = Some ApprovalPending then
        (case serial_candidate s of
           None \<Rightarrow> (None, s)
         | Some i \<Rightarrow> (if saw_edge_at i s then retire i s else (None, s)))
      else (None, s))"

definition observe_status ::
  "native_status \<Rightarrow> native_status option \<Rightarrow> instant \<Rightarrow> instant \<Rightarrow> approval_reducer \<Rightarrow>
   effect list \<times> approval_reducer" where
  "observe_status status previous started_at now s =
     (case status of
        ApprovalPending \<Rightarrow> display_due now (observe_pending previous started_at s)
      | Active \<Rightarrow>
          (case observe_active previous s of
             (Some e, s1) \<Rightarrow> issue e s1
           | (None, s1) \<Rightarrow> display_due now s1)
      | UserInputPending \<Rightarrow> display_due now (lock s)
      | Unavailable \<Rightarrow>
          display_due now ((lock_if (ar_wait s \<noteq> None) s)\<lparr>ar_observation := None\<rparr>))"

definition observe_valid ::
  "native_status \<Rightarrow> instant \<Rightarrow> instant \<Rightarrow> approval_reducer \<Rightarrow>
   effect list \<times> approval_reducer" where
  "observe_valid status started_at now s =
     (let previous = map_option ob_status (ar_observation s);
          s1 = s\<lparr>ar_last_observation_start := Some started_at,
                 ar_observation := Some \<lparr>ob_status = status, ob_started_at = started_at\<rparr>\<rparr>
      in case ar_pending_clear s1 of
           Some e \<Rightarrow>
             (if status = Active \<and> \<not> ar_locked s1 then issue e s1
              else observe_status status previous started_at now (lock s1))
         | None \<Rightarrow> observe_status status previous started_at now s1)"

definition observe ::
  "native_status \<Rightarrow> bool \<Rightarrow> instant \<Rightarrow> instant \<Rightarrow> approval_reducer \<Rightarrow>
   effect list \<times> approval_reducer" where
  "observe status complete_singleton_root started_at now s0 =
     (let (ordered_now, s) = advance_clock now (s0\<lparr>ar_issued := None\<rparr>);
          ordered_start = is_none_or (\<lambda>last. started_at > last \<or>
             (started_at = last \<and> is_some_and (\<lambda>o1. ob_status o1 = status) (ar_observation s)))
             (ar_last_observation_start s);
          fresh = observation_is_fresh started_at now
      in if \<not> ordered_now \<or> \<not> ordered_start \<or> \<not> fresh \<or> \<not> complete_singleton_root
         then display_due now ((lock s)\<lparr>ar_observation := None\<rparr>)
         else observe_valid status started_at now s)"

definition tick_expire :: "instant \<Rightarrow> approval_reducer \<Rightarrow> approval_reducer" where
  "tick_expire now s =
     (if ar_wait s \<noteq> None \<and> \<not> has_fresh_observation now s
      then lock (if ar_locked s then s else s\<lparr>ar_issued := None\<rparr>)
      else s)"

definition tick :: "instant \<Rightarrow> approval_reducer \<Rightarrow> effect list \<times> approval_reducer" where
  "tick now s0 =
     (let (ordered, s1) = advance_clock now s0;
          s2 = tick_expire now (if ordered then s1 else s1\<lparr>ar_issued := None\<rparr>)
      in case ar_pending_clear s2 of
           Some e \<Rightarrow> issue e s2
         | None \<Rightarrow> display_due now s2)"

definition invalidate :: "fence \<Rightarrow> approval_reducer \<Rightarrow> approval_reducer" where
  "invalidate f s = (reset s)\<lparr>ar_fence := f\<rparr>"

definition disconnected :: "approval_reducer \<Rightarrow> approval_reducer" where
  "disconnected s =
     (let s1 = s\<lparr>ar_issued := None, ar_observation := None, ar_last_observation_start := None\<rparr>
      in lock_if (ar_wait s1 \<noteq> None) s1)"

definition assistance_available :: "approval_reducer \<Rightarrow> bool" where
  "assistance_available s = (\<not> ar_exhausted s)"

definition accepts :: "approval_reducer \<Rightarrow> effect \<Rightarrow> bool" where
  "accepts s e = (ar_issued s = Some e)"

definition acknowledge_show :: "effect \<Rightarrow> approval_reducer \<Rightarrow> bool \<times> approval_reducer" where
  "acknowledge_show e s =
     (if \<not> accepts s e then (False, s)
      else
        (case e of
           ClearWait _ _ \<Rightarrow> (False, s)
         | ShowWait c f \<Rightarrow>
             (if f \<noteq> ar_fence s then (False, s)
              else
                (case opt_filter (\<lambda>w. wt_candidate w = c) (ar_wait s) of
                   None \<Rightarrow> (False, s)
                 | Some w \<Rightarrow> (True, s\<lparr>ar_wait := Some (w\<lparr>shown := True\<rparr>)\<rparr>)))))"

definition acknowledge_clear :: "effect \<Rightarrow> approval_reducer \<Rightarrow> bool \<times> approval_reducer" where
  "acknowledge_clear e s =
     (if \<not> accepts s e \<or> ar_pending_clear s \<noteq> Some e then (False, s)
      else (True, s\<lparr>ar_pending_clear := None, ar_wait := None, ar_issued := None\<rparr>))"

definition clear_observation_start :: "approval_reducer \<Rightarrow> instant option" where
  "clear_observation_start s = map_option ob_started_at (ar_observation s)"

definition clear_is_fresh :: "instant \<Rightarrow> approval_reducer \<Rightarrow> bool" where
  "clear_is_fresh now s = (\<not> ar_locked s \<and> has_fresh_observation now s)"

section \<open>The reducer as a machine\<close>

datatype ap_input =
    Hook hook_event "string option" instant
  | Observe native_status bool instant instant
  | Tick instant
  | Invalidate fence
  | Disconnected
  | AckShow effect
  | AckClear effect

fun ap_apply :: "ap_input \<Rightarrow> approval_reducer \<Rightarrow> (effect list \<times> approval_reducer) option" where
  "ap_apply (Hook ev tid now) s = hook ev tid now s"
| "ap_apply (Observe st root started now) s = Some (observe st root started now s)"
| "ap_apply (Tick now) s = Some (tick now s)"
| "ap_apply (Invalidate f) s = Some ([], invalidate f s)"
| "ap_apply Disconnected s = Some ([], disconnected s)"
| "ap_apply (AckShow e) s = Some ([], snd (acknowledge_show e s))"
| "ap_apply (AckClear e) s = Some ([], snd (acknowledge_clear e s))"

text \<open>A panic leaves no state; it is shown below that none occurs.\<close>

definition ap_next :: "ap_input \<Rightarrow> approval_reducer \<Rightarrow> approval_reducer" where
  "ap_next i s = (case ap_apply i s of None \<Rightarrow> s | Some (_, t) \<Rightarrow> t)"

definition ap_effects :: "ap_input \<Rightarrow> approval_reducer \<Rightarrow> effect list" where
  "ap_effects i s = (case ap_apply i s of None \<Rightarrow> [] | Some (es, _) \<Rightarrow> es)"

section \<open>The invariant\<close>

text \<open>Candidate identities in use, by record index.\<close>

definition cand_at :: "approval_reducer \<Rightarrow> nat \<Rightarrow> candidate option" where
  "cand_at s i = (if i < length (ar_records s) then candidate (ar_records s ! i) else None)"

definition ids_bounded :: "approval_reducer \<Rightarrow> bool" where
  "ids_bounded s \<longleftrightarrow>
     (\<forall>i c. cand_at s i = Some c \<longrightarrow> cid_val (cand_id c) \<le> unat (ar_next_candidate s)) \<and>
     (\<forall>w. ar_wait s = Some w \<longrightarrow> cid_val (wt_candidate w) \<le> unat (ar_next_candidate s))"

definition ids_distinct :: "approval_reducer \<Rightarrow> bool" where
  "ids_distinct s \<longleftrightarrow>
     (\<forall>i j c d. cand_at s i = Some c \<longrightarrow> cand_at s j = Some d \<longrightarrow> cand_id c = cand_id d \<longrightarrow> i = j)"

definition lock_revokes :: "approval_reducer \<Rightarrow> bool" where
  "lock_revokes s \<longleftrightarrow>
     (ar_locked s \<longrightarrow>
        ar_pending_clear s = None \<and> (\<forall>i c. cand_at s i = Some c \<longrightarrow> \<not> eligible c))"

definition open_is_waiting :: "approval_reducer \<Rightarrow> bool" where
  "open_is_waiting s \<longleftrightarrow>
     (\<forall>i c. cand_at s i = Some c \<longrightarrow> eligible c \<longrightarrow> \<not> retired c \<longrightarrow>
        (\<exists>w. ar_wait s = Some w \<and> wt_candidate w = cand_id c))"

definition clear_is_shown :: "approval_reducer \<Rightarrow> bool" where
  "clear_is_shown s \<longleftrightarrow>
     (\<forall>e. ar_pending_clear s = Some e \<longrightarrow>
        (\<exists>w. ar_wait s = Some w \<and> shown w \<and> e = ClearWait (wt_candidate w) (ar_fence s)) \<and>
        (\<forall>i c. cand_at s i = Some c \<longrightarrow> eligible c \<longrightarrow> retired c))"

definition indices_ok :: "approval_reducer \<Rightarrow> bool" where
  "indices_ok s \<longleftrightarrow>
     length (ar_records s) \<le> MAX_RECORDS \<and>
     (\<forall>i. ar_latest_pre s = Some i \<longrightarrow> i < length (ar_records s)) \<and>
     (ar_exhausted s \<longrightarrow> ar_locked s)"

definition ap_core :: "approval_reducer \<Rightarrow> bool" where
  "ap_core s \<longleftrightarrow> indices_ok s \<and> ids_bounded s \<and> ids_distinct s \<and> lock_revokes s \<and>
     open_is_waiting s \<and> clear_is_shown s"

text \<open>What the reducer still accepts agrees with its wait and its pending clear.\<close>

definition issued_ok :: "approval_reducer \<Rightarrow> bool" where
  "issued_ok s \<longleftrightarrow>
     (\<forall>c f. ar_issued s = Some (ShowWait c f) \<longrightarrow>
        f = ar_fence s \<and> (\<exists>w. ar_wait s = Some w \<and> wt_candidate w = c)) \<and>
     (\<forall>c f. ar_issued s = Some (ClearWait c f) \<longrightarrow> ar_pending_clear s = Some (ClearWait c f))"

definition ap_inv :: "approval_reducer \<Rightarrow> bool" where
  "ap_inv s \<longleftrightarrow> ap_core s \<and> issued_ok s"

lemmas core_defs =
  ap_core_def indices_ok_def ids_bounded_def ids_distinct_def lock_revokes_def
  open_is_waiting_def clear_is_shown_def

section \<open>How the operations read back\<close>

lemma lock_sel [simp]:
  "ar_fence (lock s) = ar_fence s" "ar_latest_pre (lock s) = ar_latest_pre s"
  "ar_observation (lock s) = ar_observation s" "ar_clock (lock s) = ar_clock s"
  "ar_last_observation_start (lock s) = ar_last_observation_start s"
  "ar_wait (lock s) = ar_wait s" "ar_locked (lock s)" "ar_exhausted (lock s) = ar_exhausted s"
  "ar_next_candidate (lock s) = ar_next_candidate s" "ar_issued (lock s) = ar_issued s"
  "ar_pending_clear (lock s) = None" "length (ar_records (lock s)) = length (ar_records s)"
  by (simp_all add: lock_def)

lemma cand_at_lock [simp]:
  "cand_at (lock s) i = map_option (\<lambda>c. c\<lparr>eligible := False\<rparr>) (cand_at s i)"
  by (simp add: cand_at_def lock_def revoke_record_def)

lemma cand_at_set_candidate [simp]:
  "cand_at (set_candidate i c s) j =
     (if j = i \<and> i < length (ar_records s) then c else cand_at s j)"
  by (auto simp: cand_at_def set_candidate_def nth_list_update)

lemma set_candidate_sel [simp]:
  "ar_fence (set_candidate i c s) = ar_fence s"
  "ar_latest_pre (set_candidate i c s) = ar_latest_pre s"
  "ar_observation (set_candidate i c s) = ar_observation s"
  "ar_wait (set_candidate i c s) = ar_wait s" "ar_locked (set_candidate i c s) = ar_locked s"
  "ar_exhausted (set_candidate i c s) = ar_exhausted s"
  "ar_next_candidate (set_candidate i c s) = ar_next_candidate s"
  "ar_issued (set_candidate i c s) = ar_issued s"
  "ar_pending_clear (set_candidate i c s) = ar_pending_clear s"
  "length (ar_records (set_candidate i c s)) = length (ar_records s)"
  by (simp_all add: set_candidate_def)

lemma cand_at_frame [simp]:
  "cand_at (s\<lparr>ar_observation := ob\<rparr>) = cand_at s" "cand_at (s\<lparr>ar_clock := ck\<rparr>) = cand_at s"
  "cand_at (s\<lparr>ar_issued := iss\<rparr>) = cand_at s" "cand_at (s\<lparr>ar_wait := w\<rparr>) = cand_at s"
  "cand_at (s\<lparr>ar_latest_pre := lp\<rparr>) = cand_at s"
  "cand_at (s\<lparr>ar_pending_clear := pc\<rparr>) = cand_at s"
  "cand_at (s\<lparr>ar_exhausted := ex\<rparr>) = cand_at s"
  "cand_at (s\<lparr>ar_next_candidate := nc\<rparr>) = cand_at s"
  "cand_at (s\<lparr>ar_last_observation_start := ls\<rparr>) = cand_at s"
  "cand_at (s\<lparr>ar_fence := f\<rparr>) = cand_at s"
  by (simp_all add: cand_at_def fun_eq_iff)

section \<open>The core invariant is kept by the internal operations\<close>

lemma core_new: "ap_core (new_reducer f)"
  by (simp add: core_defs new_reducer_def cand_at_def)

lemma core_reset: "ap_core (reset s)"
  by (auto simp: core_defs reset_def cand_at_def)

lemma core_lock: "ap_core s \<Longrightarrow> ap_core (lock s)"
  by (auto simp: core_defs)

lemma core_lock_if: "ap_core s \<Longrightarrow> ap_core (lock_if b s)"
  by (simp add: lock_if_def core_lock)

lemma core_frame:
  "ap_core (s\<lparr>ar_observation := ob\<rparr>) = ap_core s" "ap_core (s\<lparr>ar_clock := ck\<rparr>) = ap_core s"
  "ap_core (s\<lparr>ar_issued := iss\<rparr>) = ap_core s"
  "ap_core (s\<lparr>ar_last_observation_start := ls\<rparr>) = ap_core s"
  by (simp_all add: core_defs)

lemma core_advance_clock: "ap_core s \<Longrightarrow> ap_core (snd (advance_clock now s))"
  by (simp add: advance_clock_def core_frame core_lock)

lemma cand_at_add_record [simp]:
  "cand_at (s\<lparr>ar_records := ar_records s @ [\<lparr>tool_id = t, has_pre = p, completed = d, candidate = None\<rparr>]\<rparr>)
     = cand_at s"
  by (auto simp: cand_at_def fun_eq_iff nth_append)

lemma core_add_record: "ap_core s \<Longrightarrow> ap_core (snd (add_record t p d s))"
  by (cases "length (ar_records s) \<ge> MAX_RECORDS")
    (auto simp: add_record_def core_lock, auto simp: core_defs intro: less_SucI)

lemma add_record_index:
  "fst (add_record t p d s) = Some i \<Longrightarrow> i < length (ar_records (snd (add_record t p d s)))"
  by (auto simp: add_record_def split: if_splits)

lemma core_latest_pre:
  "ap_core s \<Longrightarrow> (\<And>i. lp = Some i \<Longrightarrow> i < length (ar_records s)) \<Longrightarrow> ap_core (s\<lparr>ar_latest_pre := lp\<rparr>)"
  by (auto simp: core_defs)

lemma core_pre_tool: "ap_core s \<Longrightarrow> ap_core (pre_tool t s)"
  by (auto simp: pre_tool_def Let_def split_beta
      intro!: core_latest_pre core_add_record core_lock_if add_record_index)

lemma core_complete_record: "ap_core s \<Longrightarrow> ap_core (complete_record i s)"
proof -
  have "cand_at (complete_record i s) = cand_at s"
    by (auto simp: fun_eq_iff cand_at_def complete_record_def nth_list_update_any)
  moreover assume "ap_core s"
  ultimately show ?thesis by (auto simp: core_defs complete_record_def)
qed

text \<open>A record's candidate may change its flags, but never regain eligibility or lose retirement.\<close>

lemma core_weaken_candidate:
  assumes "ap_core s" and "cand_at s i = Some c" and "cand_id d = cand_id c"
    and "eligible d \<longrightarrow> eligible c" and "retired c \<longrightarrow> retired d"
  shows "ap_core (set_candidate i (Some d) s)"
  using assms unfolding core_defs by (simp split: if_splits) metis

lemma permission_index_total: "ap_core s \<Longrightarrow> \<exists>idx t. permission_index tid s = Some (idx, t)"
  by (auto simp: permission_index_def core_defs add_record_def split: option.splits)

lemma permission_index_keeps:
  assumes "ap_core s" and "permission_index tid s = Some (idx, t)"
  shows "ap_core t \<and> (\<forall>i. idx = Some i \<longrightarrow> i < length (ar_records t))"
proof -
  have add: "ap_core u \<and> (\<forall>i. k = Some i \<longrightarrow> i < length (ar_records u))"
    if "(k, u) = add_record a b c (lock s)" for k u a b c
    using core_add_record [OF core_lock [OF assms(1)], of a b c] add_record_index [of a b c "lock s"]
    by (metis fst_conv snd_conv that)
  from assms(2) have "(t = s \<and> (\<forall>i. idx = Some i \<longrightarrow> i < length (ar_records s))) \<or>
      (\<exists>a b c. (idx, t) = add_record a b c (lock s))"
    by (auto simp: permission_index_def find_tool_def
        split: option.splits if_splits dest!: position_less sym [of _ "(idx, t)"])
  with assms(1) add show ?thesis by blast
qed

text \<open>
  Opening a candidate: the new identity exceeds every identity in use, and it is eligible only
  when nothing else is waiting.
\<close>

lemma open_candidate_reads:
  assumes "checked_add (ar_next_candidate s) 1 = Some nxt"
    and "\<And>i. idx = Some i \<Longrightarrow> i < length (ar_records s)"
    and "t = open_candidate idx now s"
  shows "cand_at t j = (if idx = Some j then Some \<lparr>cand_id = CandidateId nxt, eligible = (\<not> ar_locked s),
           saw_pending_edge = False, retired = False\<rparr> else cand_at s j)"
    and "ar_wait t = opt_or (ar_wait s)
           (Some \<lparr>wt_candidate = CandidateId nxt, received_at = now, shown = False\<rparr>)"
    and "ar_next_candidate t = nxt" and "ar_locked t = ar_locked s"
    and "ar_exhausted t = ar_exhausted s" and "ar_pending_clear t = ar_pending_clear s"
    and "ar_fence t = ar_fence s" and "ar_latest_pre t = ar_latest_pre s"
    and "length (ar_records t) = length (ar_records s)" and "ar_issued t = ar_issued s"
  using assms by (auto simp: open_candidate_def Let_def split: option.split)

lemma core_open_candidate:
  assumes core: "ap_core s" and bound: "\<And>i. idx = Some i \<Longrightarrow> i < length (ar_records s)"
    and quiet: "ar_locked s \<or> ar_wait s = None"
  shows "ap_core (open_candidate idx now s)"
proof (cases "checked_add (ar_next_candidate s) 1")
  case None
  with core show ?thesis by (auto simp: open_candidate_def core_defs)
next
  case (Some nxt)
  note reads = open_candidate_reads [OF Some bound refl, of idx now]
  have next_val: "unat nxt = Suc (unat (ar_next_candidate s))"
    using Some by (simp add: unat_checked_add)
  have fresh: "cid_val (cand_id c) < unat nxt" if "cand_at s i = Some c" for i c
    using core that next_val by (auto simp: ap_core_def ids_bounded_def less_Suc_eq_le)
  then have differs: "cand_id c \<noteq> CandidateId nxt" if "cand_at s i = Some c" for i c
    using that by (cases "cand_id c") force
  have none_open: "\<not> (eligible c \<and> \<not> retired c)" if "cand_at s i = Some c" for i c
    using core quiet that unfolding ap_core_def open_is_waiting_def lock_revokes_def by fastforce
  let ?t = "open_candidate idx now s"
  have "indices_ok ?t"
    using core by (simp add: reads ap_core_def indices_ok_def)
  moreover have "ids_bounded ?t"
    using core fresh next_val unfolding ap_core_def ids_bounded_def
    by (auto simp: reads less_imp_le opt_or_def split: option.splits if_splits dest: fresh)
  moreover have "ids_distinct ?t"
    using core differs unfolding ap_core_def ids_distinct_def
    by (simp add: reads split: if_splits) metis
  moreover have "lock_revokes ?t"
    using core unfolding ap_core_def lock_revokes_def by (auto simp: reads split: if_splits)
  moreover have "open_is_waiting ?t"
    using quiet none_open unfolding open_is_waiting_def by (auto simp: reads split: if_splits)
  moreover have "clear_is_shown ?t"
    using core quiet unfolding ap_core_def clear_is_shown_def lock_revokes_def
    by (auto simp: reads split: if_splits)
  ultimately show ?thesis by (simp add: ap_core_def)
qed

lemma permission_total: "ap_core s \<Longrightarrow> \<exists>t. permission tid now s = Some t"
  using permission_index_total [of s tid] by (auto simp: permission_def)

lemma core_permission:
  assumes "ap_core s" and "permission tid now s = Some t" shows "ap_core t"
proof -
  from assms obtain idx u where idx: "permission_index tid s = Some (idx, u)"
    using permission_index_total by blast
  with assms(1) have u: "ap_core u" "\<And>i. idx = Some i \<Longrightarrow> i < length (ar_records u)"
    using permission_index_keeps by blast+
  have "ap_core (open_candidate idx now (lock_if b u))" if "ar_wait u \<noteq> None \<longrightarrow> b" for b
    using that u by (intro core_open_candidate core_lock_if) (auto simp: lock_if_def)
  with idx assms(2) u show ?thesis
    by (auto simp: permission_def core_lock_if split: if_splits)
qed

text \<open>
  Dropping the wait is safe when nothing eligible is still open; recording a clear is safe when
  the wait it belongs to has been shown.
\<close>

lemma core_drop_wait:
  assumes "ap_core s" and "ar_pending_clear s = None"
    and "\<And>i c. cand_at s i = Some c \<Longrightarrow> eligible c \<Longrightarrow> retired c"
  shows "ap_core (s\<lparr>ar_wait := None\<rparr>)"
  using assms unfolding core_defs by simp

lemma core_record_clear:
  assumes "ap_core s" and "\<not> ar_locked s" and "ar_wait s = Some w" and "shown w"
    and "\<And>i c. cand_at s i = Some c \<Longrightarrow> eligible c \<Longrightarrow> retired c"
  shows "ap_core (s\<lparr>ar_pending_clear := Some (ClearWait (wt_candidate w) (ar_fence s))\<rparr>)"
  using assms unfolding core_defs by simp

lemma open_unique:
  assumes "ap_core s" and "cand_at s i = Some c" "eligible c" "\<not> retired c"
    and "cand_at s j = Some d" "eligible d" "\<not> retired d"
  shows "j = i"
  using assms unfolding ap_core_def open_is_waiting_def ids_distinct_def by (metis option.inject)

lemma core_retire:
  assumes core: "ap_core s" and bound: "i < length (ar_records s)"
  shows "ap_core (snd (retire i s))"
proof (cases "cand_at s i")
  case None
  with core bound show ?thesis by (simp add: retire_def cand_at_def)
next
  case (Some c)
  then have rec: "candidate (ar_records s ! i) = Some c" using bound by (simp add: cand_at_def)
  let ?s1 = "set_candidate i (Some (c\<lparr>retired := True\<rparr>)) s"
  have s1: "ap_core ?s1" using core Some by (rule core_weaken_candidate) auto
  show ?thesis
  proof (cases "retired c \<or> ar_locked s \<or> \<not> eligible c")
    case True
    with s1 core rec show ?thesis by (auto simp: retire_def Let_def)
  next
    case False
    then obtain w where w: "ar_wait s = Some w" "wt_candidate w = cand_id c"
      using core Some unfolding ap_core_def open_is_waiting_def by blast
    have "ar_pending_clear s = None" if "\<not> shown w"
      using core that w by (cases "ar_pending_clear s") (auto simp: ap_core_def clear_is_shown_def)
    moreover have closed: "retired d" if "cand_at ?s1 j = Some d" "eligible d" for j d
      using that False open_unique [OF core Some] bound by (auto split: if_splits)
    ultimately have dropped: "ap_core (?s1\<lparr>ar_wait := None\<rparr>)" if "\<not> shown w"
      using that by (intro core_drop_wait [OF s1]) auto
    have kept: "ap_core (?s1\<lparr>ar_pending_clear := Some (ClearWait (wt_candidate w) (ar_fence s))\<rparr>)" if "shown w"
      using core_record_clear [OF s1, of w] w that False closed by simp
    show ?thesis using False w dropped kept rec by (auto simp: retire_def Let_def)
  qed
qed

lemma core_post_tool:
  assumes "ap_core s" shows "ap_core (snd (post_tool tid s))"
proof -
  have "ap_core (snd (retire idx (complete_record idx s)))" if "find_tool i s = Some idx" for i idx
    using that assms position_less
    by (intro core_retire core_complete_record) (auto simp: find_tool_def complete_record_def)
  with assms show ?thesis
    by (simp add: post_tool_def Let_def core_lock core_add_record core_complete_record
        split: option.split)
qed

section \<open>What the internal operations leave alone\<close>

lemma issued_frame [simp]:
  "ar_issued (lock_if b s) = ar_issued s"
  "ar_issued (snd (advance_clock now s)) = ar_issued s"
  "ar_issued (snd (add_record t p d s)) = ar_issued s"
  "ar_issued (pre_tool t s) = ar_issued s"
  "ar_issued (open_candidate idx now s) = ar_issued s"
  "ar_issued (complete_record i s) = ar_issued s"
  "ar_issued (snd (retire i s)) = ar_issued s"
  by (simp_all add: lock_if_def advance_clock_def add_record_def pre_tool_def open_candidate_def
      complete_record_def retire_def Let_def split_beta split: option.split)

lemma issued_post_tool [simp]: "ar_issued (snd (post_tool t s)) = ar_issued s"
  by (simp add: post_tool_def Let_def split: option.split)

lemma issued_permission:
  "permission t now s = Some u \<Longrightarrow> ar_issued u = ar_issued s"
  by (auto simp: permission_def permission_index_def add_record_def
      split: option.splits if_splits prod.splits)

lemma fence_frame [simp]:
  "ar_fence (lock_if b s) = ar_fence s"
  "ar_fence (snd (advance_clock now s)) = ar_fence s"
  "ar_fence (complete_record i s) = ar_fence s"
  by (simp_all add: lock_if_def advance_clock_def complete_record_def)

text \<open>A clear proof comes from a shown wait of an unlocked reducer, and is remembered.\<close>

definition clear_proof :: "effect \<Rightarrow> approval_reducer \<Rightarrow> bool" where
  "clear_proof e s \<longleftrightarrow> \<not> ar_locked s \<and>
     (\<exists>w. ar_wait s = Some w \<and> shown w \<and> e = ClearWait (wt_candidate w) (ar_fence s))"

definition clears :: "effect \<Rightarrow> approval_reducer \<Rightarrow> approval_reducer \<Rightarrow> bool" where
  "clears e s t \<longleftrightarrow> clear_proof e s \<and> ar_pending_clear t = Some e \<and> \<not> ar_locked t \<and>
     ar_observation t = ar_observation s"

lemma retire_proof: "retire i s = (Some e, t) \<Longrightarrow> clears e s t"
  by (auto simp: retire_def clears_def clear_proof_def Let_def split: option.splits if_splits)

lemma post_tool_proof: "post_tool tid s = (Some e, t) \<Longrightarrow> clears e s t"
  by (auto simp: post_tool_def Let_def clears_def clear_proof_def complete_record_def
      split: option.splits if_splits dest!: retire_proof)

lemma observe_active_proof: "observe_active p s = (Some e, t) \<Longrightarrow> clears e s t"
  by (auto simp: observe_active_def split: option.splits if_splits dest!: retire_proof)

lemma clears_pending: "clears e s t \<Longrightarrow> ar_pending_clear t = Some e"
  by (simp add: clears_def)

section \<open>The interface keeps the invariant\<close>

lemma pending_clear_proof: "ap_core s \<Longrightarrow> ar_pending_clear s = Some e \<Longrightarrow> clear_proof e s"
  unfolding ap_core_def clear_is_shown_def lock_revokes_def clear_proof_def by fastforce

lemma inv_issue:
  assumes "ap_core s" and "ar_pending_clear s = Some e" shows "ap_inv (snd (issue e s))"
  using pending_clear_proof [OF assms] assms
  by (auto simp: ap_inv_def issue_def core_frame issued_ok_def clear_proof_def)

text \<open>When the wait is to be shown, and that a display is either nothing or exactly that.\<close>

definition show_due :: "instant \<Rightarrow> approval_reducer \<Rightarrow> wait \<Rightarrow> bool" where
  "show_due now s w \<longleftrightarrow> ar_wait s = Some w \<and> \<not> shown w \<and> received_at w + GRACE \<le> now \<and>
     (ar_locked s \<or> \<not> has_fresh_active now s)"

lemma display_due_cases:
  obtains (quiet) "display_due now s = ([], s)" "\<And>w. \<not> show_due now s w"
  | (show_wait) w where "show_due now s w"
      "display_due now s = issue (ShowWait (wt_candidate w) (ar_fence s)) s"
proof (cases "\<exists>w. show_due now s w")
  case True
  then obtain w where w: "show_due now s w" ..
  then have "display_due now s = issue (ShowWait (wt_candidate w) (ar_fence s)) s"
    by (auto simp: display_due_def show_due_def)
  with w show thesis by (rule show_wait)
next
  case False
  then have "display_due now s = ([], s)"
    by (auto simp: display_due_def show_due_def split: option.split)
  with False quiet show thesis by blast
qed

lemma inv_display_due:
  assumes "ap_inv s" shows "ap_inv (snd (display_due now s))"
proof (cases rule: display_due_cases [of now s])
  case quiet
  with assms show ?thesis by simp
next
  case (show_wait w)
  with assms show ?thesis
    by (simp add: ap_inv_def issue_def core_frame issued_ok_def show_due_def)
qed

lemma inv_unissued: "ap_core s \<Longrightarrow> ar_issued s = None \<Longrightarrow> ap_inv s"
  by (simp add: ap_inv_def issued_ok_def)

lemma ap_inv_core: "ap_inv s \<Longrightarrow> ap_core s"
  by (simp add: ap_inv_def)

lemma hook_cases:
  assumes "hook ev tid now s = Some (es, t)" and "ev \<noteq> Stop" and "ev \<noteq> UserPromptSubmit"
    and "s2 = snd (advance_clock now (hook_begin s))"
  obtains (pre) "(es, t) = display_due now (pre_tool tid s2)"
  | (permission) u where "permission tid now s2 = Some u" "(es, t) = display_due now u"
  | (post_quiet) u where "post_tool tid (post_expire now s2) = (None, u)" "(es, t) = display_due now u"
  | (post_clear) e u where "post_tool tid (post_expire now s2) = (Some e, u)" "(es, t) = issue e u"
proof -
  obtain e u where "post_tool tid (post_expire now s2) = (e, u)" by fastforce
  with assms that show thesis
    by (cases ev; cases e) (auto simp: hook_def Let_def split: option.splits)
qed

lemma hook_boundary: "ev = Stop \<or> ev = UserPromptSubmit \<Longrightarrow> hook ev tid now s = Some ([], reset (hook_begin s))"
  by (auto simp: hook_def Let_def)

lemma hook_total:
  assumes "ap_core (snd (advance_clock now (hook_begin s)))"
  shows "\<exists>es t. hook ev tid now s = Some (es, t)"
  using permission_total [OF assms, of tid now]
  by (cases ev) (auto simp: hook_def Let_def split: option.split prod.split)

lemma hook_begin_core: "ap_inv s \<Longrightarrow> ap_core (hook_begin s)" "ar_issued (hook_begin s) = None"
  by (simp_all add: hook_begin_def ap_inv_core core_lock_if core_frame)

lemma inv_hook:
  assumes "ap_inv s" and "hook ev tid now s = Some (es, t)"
  shows "ap_inv t"
proof (cases "ev = Stop \<or> ev = UserPromptSubmit")
  case True
  with assms(2) have "t = reset (hook_begin s)" by (simp add: hook_boundary)
  moreover have "ar_issued (reset (hook_begin s)) = None" by (simp add: reset_def)
  ultimately show ?thesis by (simp add: inv_unissued core_reset)
next
  case False
  let ?s2 = "snd (advance_clock now (hook_begin s))"
  have core: "ap_core ?s2" "ap_core (post_expire now ?s2)" "ar_issued ?s2 = None"
    "ar_issued (post_expire now ?s2) = None"
    using hook_begin_core [of s] assms(1)
    by (simp_all add: core_advance_clock core_lock_if post_expire_def)
  have unissued: "ap_inv u \<Longrightarrow> (es, t) = display_due now u \<Longrightarrow> ap_inv t" for u
    using inv_display_due by (metis snd_conv)
  from False have "ev \<noteq> Stop" "ev \<noteq> UserPromptSubmit" by auto
  from assms(2) this refl [of ?s2] show ?thesis
  proof (cases rule: hook_cases)
    case pre
    with core show ?thesis
      by (intro unissued [of "pre_tool tid ?s2"] inv_unissued core_pre_tool) simp_all
  next
    case (permission u)
    with core show ?thesis
      by (intro unissued [of u] inv_unissued) (auto dest: core_permission issued_permission)
  next
    case (post_quiet u)
    with core core_post_tool [OF core(2), of tid] issued_post_tool [of tid "post_expire now ?s2"]
    show ?thesis by (intro unissued [of u] inv_unissued) simp_all
  next
    case (post_clear e u)
    with core_post_tool [OF core(2), of tid] clears_pending [OF post_tool_proof [OF post_clear(1)]]
    show ?thesis using inv_issue [of u e] by (metis snd_conv)
  qed
qed

lemma core_mark_pending_edge:
  assumes "ap_core s" and "i < length (ar_records s)" shows "ap_core (mark_pending_edge i s)"
proof (cases "cand_at s i")
  case None
  with assms(2) have "candidate (ar_records s ! i) = None" by (simp add: cand_at_def)
  with None have "cand_at (mark_pending_edge i s) = cand_at s"
    by (simp add: mark_pending_edge_def fun_eq_iff)
  with assms show ?thesis by (simp add: core_defs) (simp add: mark_pending_edge_def)
next
  case (Some c)
  with assms show ?thesis
    by (auto simp: mark_pending_edge_def cand_at_def intro!: core_weaken_candidate)
qed

lemma serial_candidate_less: "serial_candidate s = Some i \<Longrightarrow> i < length (ar_records s)"
  by (auto simp: serial_candidate_def dest: position_less split: if_splits)

lemma core_observe_pending: "ap_core s \<Longrightarrow> ap_core (observe_pending p st s)"
  by (auto simp: observe_pending_def Let_def core_lock serial_candidate_less core_mark_pending_edge
      split: option.split)

lemma core_observe_active: "ap_core s \<Longrightarrow> ap_core (snd (observe_active p s))"
  by (auto simp: observe_active_def serial_candidate_less core_retire split: option.split)

lemma issued_observe [simp]:
  "ar_issued (observe_pending p st s) = ar_issued s"
  "ar_issued (snd (observe_active p s)) = ar_issued s"
  by (auto simp: observe_pending_def observe_active_def mark_pending_edge_def Let_def
      split: option.split)

lemma inv_observe_status:
  assumes "ap_core s" and "ar_issued s = None"
  shows "ap_inv (snd (observe_status st p started now s))"
proof (cases st)
  case Active
  have "ap_inv (snd (issue e t))" if "observe_active p s = (Some e, t)" for e t
    using that core_observe_active [OF assms(1), of p] clears_pending [OF observe_active_proof [OF that]]
    by (intro inv_issue) auto
  moreover have "ap_inv (snd (display_due now (snd (observe_active p s))))"
    using assms by (intro inv_display_due inv_unissued core_observe_active) simp_all
  ultimately show ?thesis using Active
    by (cases "observe_active p s") (auto simp: observe_status_def split: option.split)
qed (use assms in \<open>auto simp: observe_status_def core_frame
      intro!: inv_display_due inv_unissued core_observe_pending core_lock core_lock_if\<close>)

lemma inv_observe: assumes "ap_inv s" shows "ap_inv (snd (observe st root started now s))"
proof -
  let ?s1 = "snd (advance_clock now (s\<lparr>ar_issued := None\<rparr>))"
  let ?s2 = "?s1\<lparr>ar_last_observation_start := Some started,
                 ar_observation := Some \<lparr>ob_status = st, ob_started_at = started\<rparr>\<rparr>"
  have core: "ap_core ?s1" "ap_core ?s2" "ar_issued ?s1 = None"
    using assms by (simp_all add: ap_inv_core core_frame core_advance_clock)
  then have "ap_inv (snd (display_due now ((lock ?s1)\<lparr>ar_observation := None\<rparr>)))"
    by (intro inv_display_due inv_unissued) (simp_all add: core_frame core_lock)
  moreover have "ap_inv (snd (observe_valid st started now ?s1))"
    using core inv_issue [OF core(2)] inv_observe_status [OF core_lock [OF core(2)]]
      inv_observe_status [OF core(2)]
    by (auto simp: observe_valid_def Let_def split: option.split)
  ultimately show ?thesis
    by (auto simp: observe_def Let_def split_beta)
qed

lemma inv_advance_clock:
  assumes "ap_inv s" and "advance_clock now s = (ordered, t)"
  shows "ap_inv (if ordered then t else t\<lparr>ar_issued := None\<rparr>)"
  using assms core_advance_clock [of s now]
  by (auto simp: advance_clock_def ap_inv_def issued_ok_def core_frame split: if_splits)

lemma inv_tick_expire: assumes "ap_inv s" shows "ap_inv (tick_expire now s)"
proof -
  have "ar_locked s \<Longrightarrow> ar_pending_clear s = None"
    using assms by (simp add: ap_inv_def ap_core_def lock_revokes_def)
  with assms show ?thesis
    by (auto simp: tick_expire_def ap_inv_def core_lock core_frame issued_ok_def)
qed

lemma inv_tick: assumes "ap_inv s" shows "ap_inv (snd (tick now s))"
proof -
  obtain ordered t where "advance_clock now s = (ordered, t)" by fastforce
  with assms show ?thesis
    using inv_tick_expire [OF inv_advance_clock [OF assms], of now ordered t now]
    by (auto simp: tick_def Let_def inv_display_due inv_issue ap_inv_core split: option.split)
qed

lemma inv_invalidate: "ap_inv s \<Longrightarrow> ap_inv (invalidate f s)"
  by (auto simp: invalidate_def reset_def ap_inv_def issued_ok_def core_defs cand_at_def)

lemma inv_disconnected: "ap_inv s \<Longrightarrow> ap_inv (disconnected s)"
  by (auto simp: disconnected_def Let_def ap_inv_core core_frame intro!: inv_unissued core_lock_if)

lemma core_shown:
  "ap_core s \<Longrightarrow> ar_wait s = Some w \<Longrightarrow> ap_core (s\<lparr>ar_wait := Some (w\<lparr>shown := True\<rparr>)\<rparr>)"
  unfolding core_defs by auto

lemma inv_acknowledge_show: "ap_inv s \<Longrightarrow> ap_inv (snd (acknowledge_show e s))"
  by (auto simp: acknowledge_show_def accepts_def ap_inv_def issued_ok_def
      opt_filter_Some_iff core_shown split: effect.split option.split)

lemma inv_acknowledge_clear:
  assumes "ap_inv s" shows "ap_inv (snd (acknowledge_clear e s))"
proof (cases "accepts s e \<and> ar_pending_clear s = Some e")
  case True
  let ?s1 = "s\<lparr>ar_pending_clear := None\<rparr>"
  have core: "ap_core s" using assms by (rule ap_inv_core)
  then have "ap_core ?s1" by (simp add: core_defs)
  moreover have "retired c" if "cand_at ?s1 i = Some c" "eligible c" for i c
    using core True that unfolding ap_core_def clear_is_shown_def by simp
  ultimately have "ap_core (?s1\<lparr>ar_wait := None\<rparr>)" by (intro core_drop_wait) simp_all
  with True show ?thesis by (simp add: acknowledge_clear_def ap_inv_def core_frame issued_ok_def)
qed (use assms in \<open>auto simp: acknowledge_clear_def\<close>)

lemma ap_apply_total: "ap_inv s \<Longrightarrow> \<exists>es t. ap_apply i s = Some (es, t)"
  by (cases i) (auto intro: hook_total core_advance_clock hook_begin_core surjective_pairing)

lemma ap_next_inv: "ap_inv s \<Longrightarrow> ap_inv (ap_next i s)"
proof (cases i)
  case (Hook ev tid now)
  moreover assume "ap_inv s"
  ultimately show ?thesis
    using inv_hook [of s ev tid now] by (auto simp: ap_next_def split: option.split)
qed (auto simp: ap_next_def split_beta intro: inv_observe inv_tick inv_invalidate inv_disconnected
      inv_acknowledge_show inv_acknowledge_clear)

interpretation ap: machine "\<lambda>s. \<exists>f. s = new_reducer f" ap_next ap_inv
proof unfold_locales
  fix s assume "\<exists>f. s = new_reducer f"
  then obtain f where "s = new_reducer f" ..
  then show "ap_inv s"
    using core_new by (simp add: ap_inv_def issued_ok_def new_reducer_def)
qed (rule ap_next_inv)

interpretation clear_gate: effect_gate accepts acknowledge_clear
  by unfold_locales (auto simp: acknowledge_clear_def accepts_def split: if_splits)

section \<open>How identities and locks evolve\<close>

definition ids_grow :: "approval_reducer \<Rightarrow> approval_reducer \<Rightarrow> bool" where
  "ids_grow s t \<longleftrightarrow>
     unat (ar_next_candidate s) \<le> unat (ar_next_candidate t) \<and>
     (\<forall>w. ar_wait t = Some w \<longrightarrow>
        (\<exists>v. ar_wait s = Some v \<and> wt_candidate v = wt_candidate w) \<or>
        unat (ar_next_candidate s) < cid_val (wt_candidate w))"

definition evolves :: "approval_reducer \<Rightarrow> approval_reducer \<Rightarrow> bool" where
  "evolves s t \<longleftrightarrow> ids_grow s t \<and> ar_fence t = ar_fence s \<and> (ar_locked s \<longrightarrow> ar_locked t)"

lemma ids_grow_trans: "ids_grow s t \<Longrightarrow> ids_grow t u \<Longrightarrow> ids_grow s u"
  unfolding ids_grow_def by (metis le_trans order_le_less_trans)

lemma evolves_trans [trans]: "evolves s t \<Longrightarrow> evolves t u \<Longrightarrow> evolves s u"
  unfolding evolves_def using ids_grow_trans by metis

lemma evolves_same:
  "ar_wait t = ar_wait s \<or> ar_wait t = None \<Longrightarrow> ar_next_candidate t = ar_next_candidate s \<Longrightarrow>
   ar_fence t = ar_fence s \<Longrightarrow> ar_locked s \<longrightarrow> ar_locked t \<Longrightarrow> evolves s t"
  by (auto simp: evolves_def ids_grow_def)

lemma evolves_basic:
  "evolves s s" "evolves s (lock s)" "evolves s (lock_if b s)"
  "evolves s (snd (advance_clock now s))" "evolves s (snd (add_record t p d s))"
  "evolves s (complete_record i s)" "evolves s (snd (issue e s))" "evolves s (mark_pending_edge i s)"
  "evolves s (s\<lparr>ar_observation := ob\<rparr>)" "evolves s (s\<lparr>ar_issued := iss\<rparr>)"
  "evolves s (s\<lparr>ar_last_observation_start := ls, ar_observation := ob\<rparr>)"
  by (auto intro!: evolves_same simp: lock_if_def advance_clock_def add_record_def
      complete_record_def issue_def mark_pending_edge_def)

lemma evolves_display_due: "evolves s (snd (display_due now s))"
  by (cases rule: display_due_cases [of now s]) (simp_all add: evolves_basic)

lemma evolves_pre_tool: "evolves s (pre_tool t s)"
  by (rule evolves_same) (auto simp: pre_tool_def Let_def split_beta add_record_def lock_if_def)

lemma evolves_retire: "evolves s (snd (retire i s))"
  by (rule evolves_same) (auto simp: retire_def Let_def split: option.split)

lemma evolves_post_tool: "evolves s (snd (post_tool tid s))"
  by (auto simp: post_tool_def Let_def evolves_basic split: option.split
      intro: evolves_trans evolves_basic evolves_retire)

lemma evolves_observe_pending: "evolves s (observe_pending p st s)"
  by (auto simp: observe_pending_def Let_def evolves_basic split: option.split)

lemma evolves_observe_active: "evolves s (snd (observe_active p s))"
  by (auto simp: observe_active_def evolves_basic evolves_retire split: option.split)

lemma evolves_open_candidate: "evolves s (open_candidate idx now s)"
  by (auto simp: open_candidate_def Let_def evolves_def ids_grow_def dest: unat_checked_add
      split: option.split)

lemma evolves_permission:
  assumes "permission tid now s = Some t" shows "evolves s t"
proof -
  from assms obtain idx u where u: "permission_index tid s = Some (idx, u)"
    by (auto simp: permission_def split: option.splits)
  then have "evolves s u"
    by (auto simp: permission_index_def add_record_def evolves_basic
        split: option.splits if_splits intro!: evolves_same)
  also have "evolves u t" using assms u
    by (auto simp: permission_def evolves_basic split: if_splits
        intro: evolves_trans evolves_basic evolves_open_candidate)
  finally show ?thesis .
qed

text \<open>The inputs that open a new epoch of the reducer.\<close>

fun is_boundary :: "ap_input \<Rightarrow> bool" where
  "is_boundary (Hook ev _ _) = (ev = Stop \<or> ev = UserPromptSubmit)"
| "is_boundary (Invalidate _) = True"
| "is_boundary _ = False"

lemma evolves_hook:
  assumes "hook ev tid now s = Some (es, t)" and "ev \<noteq> Stop" "ev \<noteq> UserPromptSubmit"
  shows "evolves s t"
proof -
  let ?s2 = "snd (advance_clock now (hook_begin s))"
  have "evolves s (hook_begin s)"
    unfolding hook_begin_def by (rule evolves_trans [OF evolves_basic(10) evolves_basic(3)])
  also have "evolves \<dots> ?s2" by (rule evolves_basic)
  also have "evolves ?s2 t"
    using assms refl [of ?s2]
  proof (cases rule: hook_cases)
    case pre
    then show ?thesis
      using evolves_trans [OF evolves_pre_tool [of ?s2] evolves_display_due] by (metis snd_conv)
  next
    case (permission u)
    then show ?thesis
      using evolves_trans [OF evolves_permission evolves_display_due] by (metis snd_conv)
  next
    case (post_quiet u)
    then have "evolves (post_expire now ?s2) u" using evolves_post_tool by (metis snd_conv)
    with post_quiet(2) show ?thesis
      using evolves_trans [OF evolves_trans [OF evolves_basic(3)] evolves_display_due]
      by (metis post_expire_def snd_conv)
  next
    case (post_clear e u)
    then have "evolves (post_expire now ?s2) u" using evolves_post_tool by (metis snd_conv)
    with post_clear(2) show ?thesis
      using evolves_trans [OF evolves_trans [OF evolves_basic(3)] evolves_basic(7)]
      by (metis post_expire_def snd_conv)
  qed
  finally show ?thesis .
qed

lemma evolves_observe_status: "evolves s (snd (observe_status st p started now s))"
proof (cases st)
  case Active
  obtain e t where "observe_active p s = (e, t)" by fastforce
  moreover then have "evolves s t" using evolves_observe_active by (metis snd_conv)
  ultimately show ?thesis using Active
    by (auto simp: observe_status_def split: option.split
        intro: evolves_trans evolves_display_due evolves_basic)
qed (auto simp: observe_status_def intro!: evolves_trans [OF _ evolves_display_due]
      evolves_observe_pending evolves_basic evolves_trans [OF evolves_basic(3) evolves_basic(9)])

lemma evolves_observe_valid: "evolves s (snd (observe_valid st started now s))"
proof -
  let ?s1 = "s\<lparr>ar_last_observation_start := Some started,
               ar_observation := Some \<lparr>ob_status = st, ob_started_at = started\<rparr>\<rparr>"
  let ?go = "observe_status st (map_option ob_status (ar_observation s)) started now"
  have "evolves ?s1 (snd (?go ?s1))" "evolves ?s1 (snd (issue e ?s1))"
    "evolves ?s1 (snd (?go (lock ?s1)))" for e
    by (rule evolves_observe_status evolves_basic(7)
        evolves_trans [OF evolves_basic(2) evolves_observe_status])+
  then have "evolves ?s1 (snd (observe_valid st started now s))"
    by (auto simp: observe_valid_def Let_def split: option.split)
  with evolves_basic(11) show ?thesis by (rule evolves_trans)
qed

lemma evolves_observe: "evolves s (snd (observe st root started now s))"
proof -
  let ?s1 = "snd (advance_clock now (s\<lparr>ar_issued := None\<rparr>))"
  have "evolves s ?s1" by (rule evolves_trans [OF evolves_basic(10) evolves_basic(4)])
  moreover have "evolves ?s1 (snd (display_due now ((lock ?s1)\<lparr>ar_observation := None\<rparr>)))"
    by (rule evolves_trans [OF evolves_trans [OF evolves_basic(2) evolves_basic(9)] evolves_display_due])
  ultimately show ?thesis
    using evolves_observe_valid [of ?s1 st started now] evolves_trans
    by (auto simp: observe_def Let_def split_beta)
qed

lemma evolves_tick: "evolves s (snd (tick now s))"
proof -
  obtain ordered t where t: "advance_clock now s = (ordered, t)" by fastforce
  let ?s1 = "if ordered then t else t\<lparr>ar_issued := None\<rparr>"
  have "evolves s t" using evolves_basic(4) t by (metis snd_conv)
  also have "evolves t ?s1" by (auto intro: evolves_basic)
  also have "evolves \<dots> (tick_expire now ?s1)"
    by (rule evolves_same) (auto simp: tick_expire_def)
  also have "evolves \<dots> (snd (tick now s))"
    using t by (auto simp: tick_def Let_def evolves_display_due evolves_basic split: option.split)
  finally show ?thesis .
qed

lemma evolves_acks:
  "evolves s (snd (acknowledge_show e s))" "evolves s (snd (acknowledge_clear e s))"
  by (auto simp: acknowledge_show_def acknowledge_clear_def evolves_def ids_grow_def
      opt_filter_Some_iff split: effect.split option.split)

lemma evolves_disconnected: "evolves s (disconnected s)"
  by (rule evolves_same) (auto simp: disconnected_def Let_def lock_if_def)

lemma ap_next_evolves: "\<not> is_boundary i \<Longrightarrow> evolves s (ap_next i s)"
  by (cases i) (auto simp: ap_next_def split_beta evolves_observe evolves_tick evolves_acks
      evolves_disconnected evolves_basic split: option.split intro: evolves_hook)

lemma ids_grow_reset: "ids_grow s (reset t) = (unat (ar_next_candidate s) \<le> unat (ar_next_candidate t))"
  by (simp add: ids_grow_def reset_def)

lemma ap_next_ids_grow: "ids_grow s (ap_next i s)"
proof (cases "is_boundary i")
  case True
  then show ?thesis
    by (cases i) (auto simp: ap_next_def hook_boundary ids_grow_reset hook_begin_def lock_if_def
        invalidate_def ids_grow_def reset_def)
next
  case False
  then show ?thesis using ap_next_evolves by (simp add: evolves_def)
qed

section \<open>What an emitted effect means\<close>

fun input_time :: "ap_input \<Rightarrow> instant option" where
  "input_time (Hook _ _ now) = Some now"
| "input_time (Observe _ _ _ now) = Some now"
| "input_time (Tick now) = Some now"
| "input_time _ = None"

text \<open>
  The justification of every effect that leaves the reducer: a clear needs a shown wait of an
  unlocked reducer and a fresh observation; a display needs an unshown wait past its grace.
\<close>

fun justified :: "instant \<Rightarrow> approval_reducer \<Rightarrow> approval_reducer \<Rightarrow> effect \<Rightarrow> bool" where
  "justified now s t (ClearWait c f) \<longleftrightarrow> clear_proof (ClearWait c f) s \<and> clear_is_fresh now t"
| "justified now s t (ShowWait c f) \<longleftrightarrow>
     f = ar_fence t \<and> (\<exists>w. show_due now t w \<and> wt_candidate w = c)"

lemma display_due_justified:
  assumes "(es, t) = display_due now u" and "e \<in> set es" shows "justified now s t e"
  using assms
  by (cases rule: display_due_cases [of now u])
    (auto simp: issue_def show_due_def has_fresh_active_def)

lemma clear_proof_back: "evolves s t \<Longrightarrow> ar_wait t = ar_wait s \<Longrightarrow> clear_proof e t \<Longrightarrow> clear_proof e s"
  by (auto simp: evolves_def clear_proof_def)

lemma issue_justified:
  assumes "clears e u v" and "evolves s u" and "ar_wait u = ar_wait s"
    and "has_fresh_observation now u" and "(es, t) = issue e v" and "e' \<in> set es"
  shows "justified now s t e'"
proof -
  have "clear_proof e s" using assms(1-3) clear_proof_back by (auto simp: clears_def)
  moreover have "clear_is_fresh now t"
    using assms(1,4,5) by (auto simp: clear_is_fresh_def has_fresh_observation_def issue_def clears_def)
  moreover obtain c f where "e = ClearWait c f"
    using \<open>clear_proof e s\<close> by (auto simp: clear_proof_def)
  ultimately show ?thesis using assms(5,6) by (auto simp: issue_def)
qed

lemma wait_frame [simp]:
  "ar_wait (lock_if b s) = ar_wait s" "ar_wait (snd (advance_clock now s)) = ar_wait s"
  "ar_wait (hook_begin s) = ar_wait s" "ar_wait (post_expire now s) = ar_wait s"
  "ar_wait (tick_expire now s) = ar_wait s"
  by (simp_all add: lock_if_def advance_clock_def hook_begin_def post_expire_def tick_expire_def)

lemma evolves_hook_begin: "evolves s (snd (advance_clock now (hook_begin s)))"
  unfolding hook_begin_def
  by (rule evolves_trans [OF evolves_trans [OF evolves_basic(10) evolves_basic(3)] evolves_basic(4)])

lemma hook_justified:
  assumes "hook ev tid now s = Some (es, t)" and "e \<in> set es"
  shows "justified now s t e"
proof -
  let ?s2 = "snd (advance_clock now (hook_begin s))"
  have "ev \<noteq> Stop" "ev \<noteq> UserPromptSubmit" using assms hook_boundary by fastforce+
  from assms(1) this refl [of ?s2] show ?thesis
  proof (cases rule: hook_cases)
    case (post_clear e' u)
    then have cl: "clears e' (post_expire now ?s2) u" by (simp add: post_tool_proof)
    then have "has_fresh_observation now (post_expire now ?s2)"
      by (auto simp: clears_def clear_proof_def post_expire_def lock_if_def split: if_splits)
    moreover have "evolves s (post_expire now ?s2)"
      unfolding post_expire_def using evolves_trans [OF evolves_hook_begin evolves_basic(3)] .
    ultimately show ?thesis
      using issue_justified [OF cl _ _ _ post_clear(2) assms(2)] by simp
  qed (use assms(2) display_due_justified in blast)+
qed

lemma observe_status_justified:
  assumes "(es, t) = observe_status st p started now u" and "e \<in> set es"
    and "evolves s u" and "ar_wait u = ar_wait s" and "has_fresh_observation now u"
  shows "justified now s t e"
proof (cases "st = Active \<and> (\<exists>e' v. observe_active p u = (Some e', v))")
  case True
  then obtain e' v where "st = Active" and v: "observe_active p u = (Some e', v)" by blast
  with assms(1) have "(es, t) = issue e' v" by (simp add: observe_status_def)
  with observe_active_proof [OF v] assms(2-5) show ?thesis by (intro issue_justified)
next
  case False
  then have "\<exists>v. (es, t) = display_due now v"
    using assms(1) by (cases st; cases "observe_active p u"; cases "fst (observe_active p u)")
      (auto simp: observe_status_def)
  with assms(2) show ?thesis using display_due_justified by blast
qed

lemma observe_valid_justified:
  assumes "(es, t) = observe_valid st started now u" and "e \<in> set es"
    and "evolves s u" and "ar_wait u = ar_wait s" and "ap_core u"
    and fresh: "observation_is_fresh started now"
  shows "justified now s t e"
proof -
  let ?s1 = "u\<lparr>ar_last_observation_start := Some started,
               ar_observation := Some \<lparr>ob_status = st, ob_started_at = started\<rparr>\<rparr>"
  have s1: "evolves s ?s1" "has_fresh_observation now ?s1" "ap_core ?s1"
    using evolves_trans [OF assms(3) evolves_basic(11)] fresh assms(5)
    by (simp_all add: has_fresh_observation_def core_frame)
  have lk: "evolves s (lock ?s1)" "has_fresh_observation now (lock ?s1)"
    using evolves_trans [OF s1(1) evolves_basic(2)] s1(2) by (simp_all add: has_fresh_observation_def)
  consider (clear) e' where "ar_pending_clear ?s1 = Some e'" "(es, t) = issue e' ?s1"
    | (locks) "(es, t) = observe_status st (map_option ob_status (ar_observation u)) started now (lock ?s1)"
    | (plain) "(es, t) = observe_status st (map_option ob_status (ar_observation u)) started now ?s1"
    using assms(1) by (auto simp: observe_valid_def Let_def split: option.splits if_splits)
  then show ?thesis
  proof cases
    case (clear e')
    with pending_clear_proof [OF s1(3)] have "clears e' ?s1 ?s1"
      by (auto simp: clears_def clear_proof_def)
    with clear s1 assms(2,4) show ?thesis by (intro issue_justified) simp_all
  next
    case locks
    with lk assms(2,4) show ?thesis by (intro observe_status_justified) simp_all
  next
    case plain
    with s1 assms(2,4) show ?thesis by (intro observe_status_justified) simp_all
  qed
qed

lemma observe_justified:
  assumes "ap_inv s" and "(es, t) = observe st root started now s" and "e \<in> set es"
  shows "justified now s t e"
proof -
  let ?u = "snd (advance_clock now (s\<lparr>ar_issued := None\<rparr>))"
  have "evolves s ?u" by (rule evolves_trans [OF evolves_basic(10) evolves_basic(4)])
  moreover have "ap_core ?u" using assms(1) by (simp add: ap_inv_core core_frame core_advance_clock)
  moreover have "(\<exists>v. (es, t) = display_due now v) \<or>
      (observation_is_fresh started now \<and> (es, t) = observe_valid st started now ?u)"
    using assms(2) by (auto simp: observe_def Let_def split_beta split: if_splits)
  ultimately show ?thesis
    using assms(3) display_due_justified observe_valid_justified [of es t st started now ?u e s]
    by fastforce
qed

lemma tick_justified:
  assumes "ap_inv s" and "(es, t) = tick now s" and "e \<in> set es"
  shows "justified now s t e"
proof -
  obtain ordered v where v: "advance_clock now s = (ordered, v)" by fastforce
  let ?s1 = "if ordered then v else v\<lparr>ar_issued := None\<rparr>"
  let ?u = "tick_expire now ?s1"
  have "evolves s v" using evolves_basic(4) v by (metis snd_conv)
  moreover have "evolves v ?u" by (rule evolves_same) (auto simp: tick_expire_def)
  ultimately have "evolves s ?u" by (rule evolves_trans)
  have wait: "ar_wait ?u = ar_wait s" using v wait_frame(2) [of now s] by simp
  have core: "ap_core ?u"
    using inv_tick_expire [OF inv_advance_clock [OF assms(1) v]] by (simp add: ap_inv_core)
  show ?thesis
  proof (cases "ar_pending_clear ?u")
    case None
    with v assms(2) have "(es, t) = display_due now ?u" by (simp add: tick_def Let_def)
    then show ?thesis using assms(3) by (rule display_due_justified)
  next
    case (Some e')
    with core have proof': "clear_proof e' ?u" by (rule pending_clear_proof)
    then have "has_fresh_observation now ?u"
      by (auto simp: clear_proof_def tick_expire_def split: if_splits)
    moreover from Some proof' have "clears e' ?u ?u" by (simp add: clears_def clear_proof_def)
    moreover from Some v assms(2) have "(es, t) = issue e' ?u" by (simp add: tick_def Let_def)
    ultimately show ?thesis using \<open>evolves s ?u\<close> wait assms(3) by (intro issue_justified)
  qed
qed

lemma ap_effects_justified:
  assumes "ap_inv s" and "e \<in> set (ap_effects i s)"
  shows "\<exists>now. input_time i = Some now \<and> justified now s (ap_next i s) e"
proof (cases i)
  case (Hook ev tid now)
  with assms show ?thesis
    using hook_justified [of ev tid now s] by (auto simp: ap_effects_def ap_next_def split: option.splits)
next
  case (Observe st root started now)
  with assms show ?thesis
    using observe_justified [OF assms(1) surjective_pairing [symmetric]]
    by (auto simp: ap_effects_def ap_next_def split_beta)
next
  case (Tick now)
  with assms show ?thesis
    using tick_justified [OF assms(1) surjective_pairing [symmetric]]
    by (auto simp: ap_effects_def ap_next_def split_beta)
qed (use assms in \<open>auto simp: ap_effects_def\<close>)

section \<open>Properties\<close>

text \<open>
  C1: From any fence, after any sequence of hooks, observations, ticks, invalidations, disconnects
  and acknowledgements in any order, the reducer satisfies its invariant (at most 64 records, the
  remembered record index in range, candidate identities distinct and bounded by the counter, a
  locked reducer holding no clear proof and no eligible candidate, a pending clear belonging to a
  shown wait, an accepted effect agreeing with the wait) and no further input makes it panic.
\<close>

theorem approval_invariant_no_panic:
  "ap_inv (fold ap_next is (new_reducer f)) \<and> ap_apply i (fold ap_next is (new_reducer f)) \<noteq> None"
proof -
  have "ap_inv (fold ap_next is (new_reducer f))"
    using ap.reachable_inv [of "new_reducer f" "is"] by (auto simp: ap.run_def)
  then show ?thesis using ap_apply_total by fastforce
qed

text \<open>
  C5: A reachable reducer asks to clear a wait only when it is not locked, the wait it clears is
  the current one and has been acknowledged as shown, the effect carries the current fence, and
  at that moment the reducer holds an observation no older than the freshness bound.
\<close>

theorem clear_only_after_shown:
  assumes "s = fold ap_next is (new_reducer f0)" and "ClearWait c f \<in> set (ap_effects i s)"
  shows "\<exists>w now. ar_wait s = Some w \<and> shown w \<and> wt_candidate w = c \<and> f = ar_fence s \<and>
           \<not> ar_locked s \<and> input_time i = Some now \<and> clear_is_fresh now (ap_next i s)"
proof -
  have "ap_inv s" using ap.reachable_inv [of "new_reducer f0" "is"] assms(1) by (auto simp: ap.run_def)
  from ap_effects_justified [OF this assms(2)] show ?thesis by (auto simp: clear_proof_def)
qed

text \<open>
  A reachable reducer asks to show a wait only when that wait is open and unshown, its grace
  of two seconds has passed, and the reducer is locked or has no fresh observation that Codex is
  active; the effect carries the fence of the reducer.
\<close>

theorem show_only_after_grace:
  assumes "s = fold ap_next is (new_reducer f0)" and "ShowWait c f \<in> set (ap_effects i s)"
  shows "\<exists>w now. input_time i = Some now \<and> ar_wait (ap_next i s) = Some w \<and> wt_candidate w = c \<and>
           \<not> shown w \<and> received_at w + GRACE \<le> now \<and> f = ar_fence (ap_next i s) \<and>
           (ar_locked (ap_next i s) \<or> \<not> has_fresh_active now (ap_next i s))"
proof -
  have "ap_inv s" using ap.reachable_inv [of "new_reducer f0" "is"] assms(1) by (auto simp: ap.run_def)
  from ap_effects_justified [OF this assms(2)] show ?thesis by (auto simp: show_due_def)
qed

text \<open>
  Locking is final within an epoch: once the reducer is locked, no run without a stop, a new
  prompt or an invalidation unlocks it, and no input of such a run makes it ask to clear a wait.
\<close>

theorem locked_never_clears:
  assumes "ap_inv s" and "ar_locked s" and "list_all (\<lambda>i. \<not> is_boundary i) is"
  shows "ar_locked (fold ap_next is s) \<and> ClearWait c f \<notin> set (ap_effects i (fold ap_next is s))"
proof -
  have locked: "ar_locked (fold ap_next is s)"
    using ap.run_keeps [of ar_locked "\<lambda>i. \<not> is_boundary i", OF _ assms(3,1,2)] ap_next_evolves
    by (auto simp: ap.run_def evolves_def)
  have "ap_inv (fold ap_next is s)" using ap.run_inv [OF assms(1), of "is"] by (simp add: ap.run_def)
  then have "ClearWait c f \<notin> set (ap_effects i (fold ap_next is s))"
    using locked ap_effects_justified [of _ "ClearWait c f" i] by (auto simp: clear_proof_def)
  with locked show ?thesis by simp
qed

text \<open>
  C6: Candidate identities never repeat, resets included: once the reducer no longer waits for a
  candidate it has issued, no later state waits for that candidate again.
\<close>

theorem candidate_never_reused:
  assumes "ap_inv s" and "cid_val c \<le> unat (ar_next_candidate s)"
    and "map_option wt_candidate (ar_wait s) \<noteq> Some c"
  shows "map_option wt_candidate (ar_wait (fold ap_next is s)) \<noteq> Some c"
proof -
  let ?P = "\<lambda>t. cid_val c \<le> unat (ar_next_candidate t) \<and> map_option wt_candidate (ar_wait t) \<noteq> Some c"
  have step: "?P (ap_next i t)" if "?P t" for i t
    using that ap_next_ids_grow [of t i] unfolding ids_grow_def
    by (cases "ar_wait (ap_next i t)"; cases "ar_wait t") auto
  have "?P (ap.run is s)"
    by (rule ap.run_keeps [where ok = "\<lambda>_. True"]) (use assms step in \<open>simp_all add: list_all_iff\<close>)
  then show ?thesis by (simp add: ap.run_def)
qed

text \<open>
  A due display is not lost: when an unshown wait is past its grace and no fresh observation
  says Codex is active, a tick that does not go back in time asks to show exactly that wait and
  the reducer then accepts exactly that effect; acknowledging it marks the wait as shown.
\<close>

theorem tick_shows_due_wait:
  assumes "ap_inv s" and "ar_wait s = Some w" and "\<not> shown w" and "received_at w + GRACE \<le> now"
    and "\<not> has_fresh_active now s" and "is_none_or (\<lambda>t. t \<le> now) (ar_clock s)"
  shows "fst (tick now s) = [ShowWait (wt_candidate w) (ar_fence s)] \<and>
         accepts (snd (tick now s)) (ShowWait (wt_candidate w) (ar_fence s)) \<and>
         fst (acknowledge_show (ShowWait (wt_candidate w) (ar_fence s)) (snd (tick now s)))"
proof -
  have clock: "advance_clock now s = (True, s\<lparr>ar_clock := Some now\<rparr>)"
    using assms(6) by (cases "ar_clock s") (auto simp: advance_clock_def)
  let ?u = "tick_expire now (s\<lparr>ar_clock := Some now\<rparr>)"
  have reads: "ar_wait ?u = Some w" "ar_fence ?u = ar_fence s" "ar_observation ?u = ar_observation s"
    using assms(2) by (simp_all add: tick_expire_def)
  have "ap_core ?u"
    using inv_tick_expire [OF inv_advance_clock [OF assms(1) clock]] by (simp add: ap_inv_core)
  then have "ar_pending_clear ?u = None"
    using reads assms(3) by (cases "ar_pending_clear ?u") (auto simp: ap_core_def clear_is_shown_def)
  moreover have "show_due now ?u w"
    using reads assms by (simp add: show_due_def has_fresh_active_def)
  ultimately have "tick now s = issue (ShowWait (wt_candidate w) (ar_fence s)) ?u"
    using clock reads by (auto simp: tick_def Let_def show_due_def display_due_def)
  then show ?thesis
    using reads by (simp add: issue_def accepts_def acknowledge_show_def)
qed

text \<open>
  In a reachable state every clear the reducer accepts can be acknowledged, exactly once: the
  acknowledgement succeeds, ends the wait, and leaves nothing that could be acknowledged again.
\<close>

theorem accepted_clear_acknowledged_once:
  assumes "ap_inv s" and "accepts s (ClearWait c f)"
  shows "fst (acknowledge_clear (ClearWait c f) s) \<and>
         ar_wait (snd (acknowledge_clear (ClearWait c f) s)) = None \<and>
         \<not> fst (acknowledge_clear e (snd (acknowledge_clear (ClearWait c f) s)))"
proof -
  have "ar_pending_clear s = Some (ClearWait c f)"
    using assms by (simp add: ap_inv_def issued_ok_def accepts_def)
  with assms(2) have "fst (acknowledge_clear (ClearWait c f) s)"
      "ar_wait (snd (acknowledge_clear (ClearWait c f) s)) = None"
    by (simp_all add: acknowledge_clear_def)
  with clear_gate.ack_once show ?thesis by blast
qed

section \<open>A concrete session\<close>

text \<open>
  A serial approval seen end to end: an active baseline, a tool call that asks for permission, the
  native status turning to pending and staying so past the grace, the acknowledged display, and
  the status turning active again.
\<close>

definition demo_fence :: fence where
  "demo_fence = \<lparr>runtime_generation = 1, identity_revision = 0, turn_revision = 0, input_revision = 0\<rparr>"

definition demo_open :: "ap_input list" where
  "demo_open =
     [Observe Active True 0 0, Hook PreToolUse (Some ''t'') 0,
      Hook PermissionRequest (Some ''t'') 0, Observe ApprovalPending True 1 1]"

definition demo_shown :: "ap_input list" where
  "demo_shown = demo_open @
     [Observe ApprovalPending True 2000000000 2000000000,
      AckShow (ShowWait (CandidateId 1) demo_fence)]"

definition demo_clear :: ap_input where
  "demo_clear = Observe Active True 2000000001 2000000001"

lemmas approval_eval =
  demo_fence_def demo_open_def demo_shown_def demo_clear_def ap_effects_def ap_next_def
  new_reducer_def hook_begin_def hook_def post_expire_def lock_if_def lock_def reset_def
  revoke_record_def advance_clock_def observation_is_fresh_def has_fresh_observation_def
  has_fresh_active_def find_tool_def add_record_def pre_tool_def permission_index_def
  set_candidate_def seen_before_def exact_chain_def open_candidate_def permission_def
  serial_candidate_def retire_def post_tool_def complete_record_def issue_def display_due_def
  mark_pending_edge_def saw_edge_at_def observe_pending_def observe_active_def observe_status_def
  observe_valid_def observe_def tick_def tick_expire_def acknowledge_show_def accepts_def
  acknowledge_clear_def GRACE_def FRESHNESS_def MAX_RECORDS_def checked_add_def Let_def

lemma demo_reachable_inv: "ap_inv (fold ap_next is (new_reducer demo_fence))"
  using ap.reachable_inv [of "new_reducer demo_fence" "is"] by (auto simp: ap.run_def)

theorem clear_only_after_shown_witness:
  "\<exists>w now. ar_wait (fold ap_next demo_shown (new_reducer demo_fence)) = Some w \<and> shown w \<and>
     wt_candidate w = CandidateId 1 \<and>
     demo_fence = ar_fence (fold ap_next demo_shown (new_reducer demo_fence)) \<and>
     \<not> ar_locked (fold ap_next demo_shown (new_reducer demo_fence)) \<and>
     input_time demo_clear = Some now \<and>
     clear_is_fresh now (ap_next demo_clear (fold ap_next demo_shown (new_reducer demo_fence)))"
proof -
  have "ClearWait (CandidateId 1) demo_fence
      \<in> set (ap_effects demo_clear (fold ap_next demo_shown (new_reducer demo_fence)))"
    by (simp add: approval_eval)
  from clear_only_after_shown [OF refl this] show ?thesis .
qed

theorem show_only_after_grace_witness:
  "\<exists>w now. input_time (Observe ApprovalPending True 2000000000 2000000000) = Some now \<and>
     ar_wait (ap_next (Observe ApprovalPending True 2000000000 2000000000)
       (fold ap_next demo_open (new_reducer demo_fence))) = Some w \<and>
     wt_candidate w = CandidateId 1 \<and> \<not> shown w \<and> received_at w + GRACE \<le> now \<and>
     demo_fence = ar_fence (ap_next (Observe ApprovalPending True 2000000000 2000000000)
       (fold ap_next demo_open (new_reducer demo_fence))) \<and>
     (ar_locked (ap_next (Observe ApprovalPending True 2000000000 2000000000)
        (fold ap_next demo_open (new_reducer demo_fence))) \<or>
      \<not> has_fresh_active now (ap_next (Observe ApprovalPending True 2000000000 2000000000)
        (fold ap_next demo_open (new_reducer demo_fence))))"
proof -
  have "ShowWait (CandidateId 1) demo_fence
      \<in> set (ap_effects (Observe ApprovalPending True 2000000000 2000000000)
               (fold ap_next demo_open (new_reducer demo_fence)))"
    by (simp add: approval_eval)
  from show_only_after_grace [OF refl this] show ?thesis .
qed

theorem locked_never_clears_witness:
  "ar_locked (fold ap_next [Tick 5] (fold ap_next [Hook PreToolUse None 0] (new_reducer demo_fence))) \<and>
   ClearWait (CandidateId 1) demo_fence \<notin> set (ap_effects (Hook PostToolUse (Some ''t'') 6)
     (fold ap_next [Tick 5] (fold ap_next [Hook PreToolUse None 0] (new_reducer demo_fence))))"
proof -
  have "ar_locked (fold ap_next [Hook PreToolUse None 0] (new_reducer demo_fence))"
    by (simp add: approval_eval)
  from locked_never_clears [OF demo_reachable_inv this, of "[Tick 5]"] show ?thesis by simp
qed

theorem candidate_never_reused_witness:
  "map_option wt_candidate (ar_wait (fold ap_next demo_open
     (fold ap_next (demo_open @ [Hook Stop None 2]) (new_reducer demo_fence)))) \<noteq> Some (CandidateId 1)"
  by (rule candidate_never_reused [OF demo_reachable_inv]) (simp_all add: approval_eval)

theorem tick_shows_due_wait_witness:
  "fst (tick 2000000001 (fold ap_next demo_open (new_reducer demo_fence)))
     = [ShowWait (CandidateId 1) demo_fence]"
proof -
  let ?s = "fold ap_next demo_open (new_reducer demo_fence)"
  let ?w = "\<lparr>wt_candidate = CandidateId 1, received_at = 0, shown = False\<rparr>"
  have "ar_wait ?s = Some ?w" "\<not> shown ?w" "received_at ?w + GRACE \<le> 2000000001"
    "\<not> has_fresh_active 2000000001 ?s" "is_none_or (\<lambda>t. t \<le> 2000000001) (ar_clock ?s)"
    "ar_fence ?s = demo_fence"
    by (simp_all add: approval_eval)
  with tick_shows_due_wait [OF demo_reachable_inv, of demo_open ?w 2000000001] show ?thesis by simp
qed

theorem accepted_clear_acknowledged_once_witness:
  "fst (acknowledge_clear (ClearWait (CandidateId 1) demo_fence)
     (fold ap_next (demo_shown @ [demo_clear]) (new_reducer demo_fence)))"
proof -
  have "accepts (fold ap_next (demo_shown @ [demo_clear]) (new_reducer demo_fence))
      (ClearWait (CandidateId 1) demo_fence)"
    by (simp add: approval_eval)
  with accepted_clear_acknowledged_once [OF demo_reachable_inv] show ?thesis by blast
qed

end
