(* ===== verification/Codex_Completion.thy ===== *)
theory Codex_Completion
  imports Prelude
begin

text \<open>
  The serial completion tracker of \<^verbatim>\<open>crates/orkworksd/src/runtime/codex_completion.rs\<close>. It
  consumes one ordered hook stream and hands out two effects: bind the wait of a permission to an
  exact invocation, and clear that wait when the same invocation completes. The identity that
  \<open>Arc::ptr_eq\<close> compares is a number given to the constructor; two trackers get two numbers.
  Event times are only compared, so they are integers.
\<close>

section \<open>Data\<close>

datatype stream_hook = Submitted | Pre | Permission | Post | StopHook

record stream_event =
  ev_generation :: u64
  ev_root :: string
  ev_turn :: string
  ev_sequence :: u64
  ev_observed_micros :: int
  ev_hook :: stream_hook
  ev_tool :: "string option"
  ev_invocation :: "string option"

record tracker_candidate =
  tc_owner :: nat
  tc_epoch :: u64
  tc_invocation :: nat

datatype tracker_effect = BindWait tracker_candidate | ClearBound tracker_candidate

record invocation =
  inv_id :: string
  inv_tool :: string
  inv_completed :: bool

record tracker =
  tr_generation :: u64
  tr_identity :: nat
  tr_epoch :: "u64 option"
  tr_root :: string
  tr_turn :: string
  tr_cursor :: "(u64 \<times> int) option"
  tr_active :: bool
  tr_records :: "invocation list"
  tr_pending :: "tracker_candidate option"
  tr_bound :: bool
  tr_issued :: "tracker_effect option"

definition new_tracker :: "u64 \<Rightarrow> nat \<Rightarrow> tracker" where
  "new_tracker generation identity =
     \<lparr>tr_generation = generation, tr_identity = identity, tr_epoch = Some 0, tr_root = [],
      tr_turn = [], tr_cursor = None, tr_active = False, tr_records = [], tr_pending = None,
      tr_bound = False, tr_issued = None\<rparr>"

section \<open>Operations\<close>

definition bounded_id :: "string \<Rightarrow> bool" where
  "bounded_id v \<longleftrightarrow> v \<noteq> [] \<and> length v \<le> 128 \<and> \<not> has_control v"

definition tr_invalidate :: "tracker \<Rightarrow> tracker" where
  "tr_invalidate t = t\<lparr>tr_active := False, tr_pending := None, tr_bound := False, tr_issued := None,
     tr_epoch := Option.bind (tr_epoch t) (\<lambda>e. checked_add e 1)\<rparr>"

definition tr_accepts :: "tracker \<Rightarrow> tracker_effect \<Rightarrow> bool" where
  "tr_accepts t e \<longleftrightarrow> tr_active t \<and> tr_issued t = Some e"

definition has_baseline :: "tracker \<Rightarrow> bool" where
  "has_baseline t = tr_active t"

definition on_pre :: "string \<Rightarrow> string option \<Rightarrow> tracker \<Rightarrow> tracker_effect option \<times> tracker" where
  "on_pre tool invocation t =
     (case invocation of
        None \<Rightarrow> (None, tr_invalidate t)
      | Some i \<Rightarrow>
          (if length (tr_records t) \<ge> 64 \<or> tr_pending t \<noteq> None \<or>
              (\<exists>r \<in> set (tr_records t). \<not> inv_completed r \<or> inv_id r = i)
           then (None, tr_invalidate t)
           else (tr_issued t,
                 t\<lparr>tr_records := tr_records t @
                    [\<lparr>inv_id = i, inv_tool = tool, inv_completed = False\<rparr>]\<rparr>)))"

definition on_permission ::
  "string \<Rightarrow> string option \<Rightarrow> string option \<Rightarrow> tracker \<Rightarrow> tracker_effect option \<times> tracker" where
  "on_permission tool raw_invocation invocation t =
     (case position (\<lambda>r. \<not> inv_completed r) (tr_records t) of
        None \<Rightarrow> (None, tr_invalidate t)
      | Some i \<Rightarrow>
          (if tr_pending t \<noteq> None \<or> inv_tool (tr_records t ! i) \<noteq> tool \<or>
              (raw_invocation \<noteq> None \<and> invocation \<noteq> Some (inv_id (tr_records t ! i)))
           then (None, tr_invalidate t)
           else
             (case tr_epoch t of
                None \<Rightarrow> (None, t)
              | Some ep \<Rightarrow>
                  (let c = \<lparr>tc_owner = tr_identity t, tc_epoch = ep, tc_invocation = i\<rparr>
                   in (Some (BindWait c),
                       t\<lparr>tr_pending := Some c, tr_bound := False,
                         tr_issued := Some (BindWait c)\<rparr>)))))"

definition on_post :: "string \<Rightarrow> string option \<Rightarrow> tracker \<Rightarrow> tracker_effect option \<times> tracker" where
  "on_post tool invocation t =
     (case invocation of
        None \<Rightarrow> (None, tr_invalidate t)
      | Some iid \<Rightarrow>
          (case position (\<lambda>r. inv_id r = iid) (tr_records t) of
             None \<Rightarrow> (None, tr_invalidate t)
           | Some i \<Rightarrow>
               (if inv_completed (tr_records t ! i) \<or> inv_tool (tr_records t ! i) \<noteq> tool
                then (None, tr_invalidate t)
                else
                  (let t1 = t\<lparr>tr_records := (tr_records t)[i := (tr_records t ! i)\<lparr>inv_completed := True\<rparr>]\<rparr>
                   in case tr_pending t1 of
                        None \<Rightarrow> (tr_issued t1, t1)
                      | Some c \<Rightarrow>
                          (if tc_invocation c \<noteq> i \<or> \<not> tr_bound t1 then (None, tr_invalidate t1)
                           else (Some (ClearBound c), t1\<lparr>tr_issued := Some (ClearBound c)\<rparr>))))))"

definition event_admitted :: "stream_event \<Rightarrow> tracker \<Rightarrow> bool" where
  "event_admitted ev t \<longleftrightarrow>
     ev_generation ev = tr_generation t \<and> bounded_id (ev_root ev) \<and> bounded_id (ev_turn ev) \<and>
     is_none_or (\<lambda>(sq, time). ev_sequence ev > sq \<and> ev_observed_micros ev > time) (tr_cursor t)"

definition contiguous :: "stream_event \<Rightarrow> tracker \<Rightarrow> bool" where
  "contiguous ev t \<longleftrightarrow> is_some_and (\<lambda>(sq, _). checked_add sq 1 = Some (ev_sequence ev)) (tr_cursor t)"

definition begin_submission :: "stream_event \<Rightarrow> bool \<Rightarrow> tracker \<Rightarrow> tracker" where
  "begin_submission ev clean_submission t =
     (let t1 = tr_invalidate t in
      if clean_submission \<and> tr_epoch t1 \<noteq> None
      then t1\<lparr>tr_active := True, tr_root := ev_root ev, tr_turn := ev_turn ev, tr_records := []\<rparr>
      else t1)"

definition tool_event :: "stream_event \<Rightarrow> tracker \<Rightarrow> tracker_effect option \<times> tracker" where
  "tool_event ev t =
     (case opt_filter bounded_id (ev_tool ev) of
        None \<Rightarrow> (None, tr_invalidate t)
      | Some tool \<Rightarrow>
          (let invocation = opt_filter bounded_id (ev_invocation ev) in
           case ev_hook ev of
             Pre \<Rightarrow> on_pre tool invocation t
           | Permission \<Rightarrow> on_permission tool (ev_invocation ev) invocation t
           | _ \<Rightarrow> on_post tool invocation t))"

text \<open>
  The whole handler. An effect that was issued and not acknowledged is no usable baseline, so it
  is dropped first; the generation, the ordering and the contiguity guards come before the event
  is looked at, and only the cursor remembers a refused submission.
\<close>

definition settled :: "tracker \<Rightarrow> tracker" where
  "settled t = (if tr_issued t \<noteq> None then tr_invalidate t else t)"

definition event :: "stream_event \<Rightarrow> bool \<Rightarrow> tracker \<Rightarrow> tracker_effect option \<times> tracker" where
  "event ev clean_submission t0 =
     (let t = settled t0 in
      if \<not> event_admitted ev t then (None, tr_invalidate t)
      else
        (let contig = contiguous ev t;
             t1 = t\<lparr>tr_cursor := Some (ev_sequence ev, ev_observed_micros ev)\<rparr>
         in if ev_hook ev = Submitted then (None, begin_submission ev clean_submission t1)
            else if ev_hook ev = StopHook \<or> \<not> contig \<or> ev_root ev \<noteq> tr_root t1 \<or> ev_turn ev \<noteq> tr_turn t1
            then (None, tr_invalidate t1)
            else if \<not> tr_active t1 then (None, t1)
            else tool_event ev t1))"

definition acknowledge_wait :: "tracker_effect \<Rightarrow> tracker \<Rightarrow> bool \<times> tracker" where
  "acknowledge_wait e t =
     (case e of
        BindWait _ \<Rightarrow>
          (if tr_accepts t e then (True, t\<lparr>tr_bound := True, tr_issued := None\<rparr>) else (False, t))
      | ClearBound _ \<Rightarrow> (False, t))"

definition tr_acknowledge_clear :: "tracker_effect \<Rightarrow> tracker \<Rightarrow> bool \<times> tracker" where
  "tr_acknowledge_clear e t =
     (case e of
        ClearBound _ \<Rightarrow>
          (if tr_accepts t e then (True, t\<lparr>tr_pending := None, tr_bound := False, tr_issued := None\<rparr>)
           else (False, t))
      | BindWait _ \<Rightarrow> (False, t))"

datatype tr_input =
    Event stream_event bool
  | AckWait tracker_effect
  | AckBoundClear tracker_effect
  | InvalidateTracker

fun tr_next :: "tr_input \<Rightarrow> tracker \<Rightarrow> tracker" where
  "tr_next (Event ev clean) t = snd (event ev clean t)"
| "tr_next (AckWait e) t = snd (acknowledge_wait e t)"
| "tr_next (AckBoundClear e) t = snd (tr_acknowledge_clear e t)"
| "tr_next InvalidateTracker t = tr_invalidate t"

section \<open>The invariant\<close>

definition records_serial :: "invocation list \<Rightarrow> bool" where
  "records_serial rs \<longleftrightarrow> length rs \<le> 64 \<and> distinct (map inv_id rs) \<and>
     (\<forall>i < length rs. \<not> inv_completed (rs ! i) \<longrightarrow> Suc i = length rs)"

definition pending_ok :: "tracker \<Rightarrow> bool" where
  "pending_ok t \<longleftrightarrow>
     (\<forall>c. tr_pending t = Some c \<longrightarrow>
        tc_owner c = tr_identity t \<and> tr_epoch t = Some (tc_epoch c) \<and>
        tc_invocation c < length (tr_records t) \<and>
        (inv_completed (tr_records t ! tc_invocation c) \<longleftrightarrow> tr_issued t = Some (ClearBound c)))"

definition tr_issued_ok :: "tracker \<Rightarrow> bool" where
  "tr_issued_ok t \<longleftrightarrow>
     (\<forall>c. tr_issued t = Some (BindWait c) \<longrightarrow> tr_pending t = Some c \<and> \<not> tr_bound t) \<and>
     (\<forall>c. tr_issued t = Some (ClearBound c) \<longrightarrow> tr_pending t = Some c \<and> tr_bound t)"

definition tr_inv :: "tracker \<Rightarrow> bool" where
  "tr_inv t \<longleftrightarrow> records_serial (tr_records t) \<and> pending_ok t \<and> tr_issued_ok t \<and>
     (tr_active t \<longrightarrow> tr_epoch t \<noteq> None) \<and>
     (\<not> tr_active t \<longrightarrow> tr_pending t = None \<and> \<not> tr_bound t \<and> tr_issued t = None)"

lemmas tr_inv_defs = tr_inv_def pending_ok_def tr_issued_ok_def

lemma inv_tr_invalidate: "tr_inv t \<Longrightarrow> tr_inv (tr_invalidate t)"
  by (simp add: tr_inv_defs tr_invalidate_def)

lemma inv_cursor: "tr_inv (t\<lparr>tr_cursor := c\<rparr>) = tr_inv t"
  by (simp add: tr_inv_defs)

lemma records_serial_push:
  "records_serial rs \<Longrightarrow> length rs < 64 \<Longrightarrow> \<forall>r \<in> set rs. inv_completed r \<and> inv_id r \<noteq> i \<Longrightarrow>
   records_serial (rs @ [\<lparr>inv_id = i, inv_tool = tool, inv_completed = False\<rparr>])"
  by (auto simp: records_serial_def nth_append less_Suc_eq)

lemma records_serial_complete:
  assumes "records_serial rs" and "i < length rs"
  shows "records_serial (rs[i := (rs ! i)\<lparr>inv_completed := True\<rparr>])"
proof -
  have "map inv_id (rs[i := (rs ! i)\<lparr>inv_completed := True\<rparr>]) = map inv_id rs"
    using assms(2) by (simp add: map_update list_update_same_conv)
  with assms show ?thesis by (auto simp: records_serial_def nth_list_update_any)
qed

lemma inv_on_pre: "tr_inv t \<Longrightarrow> tr_active t \<Longrightarrow> tr_issued t = None \<Longrightarrow> tr_inv (snd (on_pre tool i t))"
  by (auto simp: on_pre_def inv_tr_invalidate split: option.split)
    (auto simp: tr_inv_defs intro: records_serial_push)

lemma inv_bind:
  assumes "tr_inv t" and "tr_active t" and "tr_epoch t = Some ep" and "k < length (tr_records t)"
    and "\<not> inv_completed (tr_records t ! k)"
    and "c = \<lparr>tc_owner = tr_identity t, tc_epoch = ep, tc_invocation = k\<rparr>"
  shows "tr_inv (t\<lparr>tr_pending := Some c, tr_bound := False, tr_issued := Some (BindWait c)\<rparr>)"
  using assms by (simp add: tr_inv_defs)

lemma inv_on_permission:
  assumes "tr_inv t" and "tr_active t" shows "tr_inv (snd (on_permission tool raw i t))"
proof (cases "position (\<lambda>r. \<not> inv_completed r) (tr_records t)")
  case None
  with assms show ?thesis by (simp add: on_permission_def inv_tr_invalidate)
next
  case (Some k)
  then have k: "k < length (tr_records t)" "\<not> inv_completed (tr_records t ! k)"
    using position_less [OF Some] position_holds [OF Some] by simp_all
  obtain ep where ep: "tr_epoch t = Some ep" using assms by (auto simp: tr_inv_def)
  from Some ep show ?thesis
    using inv_tr_invalidate [OF assms(1)] inv_bind [OF assms ep k refl]
    by (simp add: on_permission_def Let_def)
qed

lemma inv_on_post:
  assumes "tr_inv t" and "tr_active t" and "tr_issued t = None"
  shows "tr_inv (snd (on_post tool i t))"
proof -
  have complete: "tr_inv (t\<lparr>tr_records := (tr_records t)[k := (tr_records t ! k)\<lparr>inv_completed := True\<rparr>]\<rparr>)"
    if "k < length (tr_records t)" "tr_pending t = None" for k
    using assms that records_serial_complete [of "tr_records t" k] by (simp add: tr_inv_defs)
  have clear: "tr_inv (t\<lparr>tr_records := (tr_records t)[k := (tr_records t ! k)\<lparr>inv_completed := True\<rparr>],
                 tr_issued := Some (ClearBound c)\<rparr>)"
    if "k < length (tr_records t)" "tr_pending t = Some c" "tc_invocation c = k" "tr_bound t" for k c
    using assms that records_serial_complete [of "tr_records t" k] by (simp add: tr_inv_defs)
  have drop: "tr_inv (tr_invalidate (t\<lparr>tr_records := (tr_records t)[k := (tr_records t ! k)\<lparr>inv_completed := True\<rparr>]\<rparr>))"
    if "k < length (tr_records t)" for k
    using assms that records_serial_complete [of "tr_records t" k]
    by (simp add: tr_inv_defs tr_invalidate_def)
  show ?thesis
    using inv_tr_invalidate [OF assms(1)] complete clear drop
    by (auto simp: on_post_def Let_def dest: position_less split: option.split)
qed

lemma inv_begin_submission: "tr_inv t \<Longrightarrow> tr_inv (begin_submission ev clean t)"
  by (auto simp: begin_submission_def Let_def inv_tr_invalidate)
    (auto simp: tr_inv_defs tr_invalidate_def records_serial_def)

lemma inv_tool_event:
  "tr_inv t \<Longrightarrow> tr_active t \<Longrightarrow> tr_issued t = None \<Longrightarrow> tr_inv (snd (tool_event ev t))"
  by (auto simp: tool_event_def Let_def inv_tr_invalidate inv_on_pre inv_on_permission inv_on_post
      split: option.split stream_hook.split)

lemma inv_settled: "tr_inv t \<Longrightarrow> tr_inv (settled t)" "tr_issued (settled t) = None"
  by (auto simp: settled_def inv_tr_invalidate) (auto simp: tr_invalidate_def)

lemma event_cases:
  assumes "t1 = (settled t)\<lparr>tr_cursor := Some (ev_sequence ev, ev_observed_micros ev)\<rparr>"
  obtains (refused) "event ev clean t = (None, tr_invalidate (settled t))"
      "\<not> event_admitted ev (settled t)"
  | (submitted) "event ev clean t = (None, begin_submission ev clean t1)" "ev_hook ev = Submitted"
  | (broken) "event ev clean t = (None, tr_invalidate t1)" "ev_hook ev \<noteq> Submitted"
  | (idle) "event ev clean t = (None, t1)" "\<not> tr_active (settled t)" "ev_hook ev \<noteq> Submitted"
  | (tool) "event ev clean t = tool_event ev t1" "tr_active (settled t)" "contiguous ev (settled t)"
      "event_admitted ev (settled t)" "ev_root ev = tr_root t" "ev_turn ev = tr_turn t"
      "ev_hook ev \<in> {Pre, Permission, Post}"
proof (cases "event_admitted ev (settled t)")
  case False
  then show thesis by (intro refused) (simp_all add: event_def)
next
  case adm: True
  note unfolds = event_def Let_def adm assms
  show thesis
  proof (cases "ev_hook ev = Submitted")
    case True
    then show thesis by (intro submitted) (simp_all add: unfolds)
  next
    case not_sub: False
    show thesis
    proof (cases "ev_hook ev = StopHook \<or> \<not> contiguous ev (settled t) \<or>
        ev_root ev \<noteq> tr_root (settled t) \<or> ev_turn ev \<noteq> tr_turn (settled t)")
      case True
      with not_sub show thesis by (intro broken) (simp_all add: unfolds)
    next
      case ok: False
      have "tr_root (settled t) = tr_root t" "tr_turn (settled t) = tr_turn t"
        by (simp_all add: settled_def tr_invalidate_def)
      moreover have "ev_hook ev \<in> {Pre, Permission, Post}"
        using not_sub ok by (cases "ev_hook ev") auto
      ultimately show thesis using not_sub ok idle tool adm
        by (cases "tr_active (settled t)") (simp_all add: unfolds)
    qed
  qed
qed

lemma inv_event: assumes "tr_inv t" shows "tr_inv (snd (event ev clean t))"
  using refl
proof (cases rule: event_cases [where t = t and ev = ev and clean = clean])
  case tool
  then show ?thesis
    using inv_settled [of t] assms by (simp add: inv_tool_event inv_cursor)
qed (use inv_settled [of t] assms in \<open>simp_all add: inv_tr_invalidate inv_begin_submission inv_cursor\<close>)

lemma tr_inv_BindWait:
  assumes "tr_inv t" and "tr_issued t = Some (BindWait c)"
  shows "tr_pending t = Some c" "\<not> tr_bound t"
  using assms unfolding tr_inv_defs by blast+

lemma tr_inv_ClearBound:
  assumes "tr_inv t" and "tr_issued t = Some (ClearBound c)"
  shows "tr_pending t = Some c" "tr_bound t"
  using assms unfolding tr_inv_defs by blast+

lemma tr_inv_pending:
  assumes "tr_inv t" and "tr_pending t = Some c"
  shows "tc_owner c = tr_identity t" "tr_epoch t = Some (tc_epoch c)" "tr_active t"
    "tc_invocation c < length (tr_records t)"
    "inv_completed (tr_records t ! tc_invocation c) \<longleftrightarrow> tr_issued t = Some (ClearBound c)"
  using assms unfolding tr_inv_defs by (blast | (metis option.distinct(1)))+

lemma inv_acknowledge_wait:
  assumes "tr_inv t" shows "tr_inv (snd (acknowledge_wait e t))"
proof (cases "tr_active t \<and> tr_issued t = Some e \<and> (\<exists>c. e = BindWait c)")
  case True
  then obtain c where e: "e = BindWait c" "tr_active t" "tr_issued t = Some (BindWait c)" by blast
  note c = tr_inv_BindWait [OF assms e(3)]
  note pend = tr_inv_pending [OF assms c(1)]
  have "records_serial (tr_records t)" using assms by (simp add: tr_inv_def)
  with e c pend have "tr_inv (t\<lparr>tr_bound := True, tr_issued := None\<rparr>)"
    unfolding tr_inv_def pending_ok_def tr_issued_ok_def by simp
  with e show ?thesis by (simp add: acknowledge_wait_def tr_accepts_def)
next
  case False
  with assms show ?thesis
    by (auto simp: acknowledge_wait_def tr_accepts_def split: tracker_effect.split)
qed

lemma inv_tr_acknowledge_clear:
  assumes "tr_inv t" shows "tr_inv (snd (tr_acknowledge_clear e t))"
proof (cases "tr_active t \<and> tr_issued t = Some e \<and> (\<exists>c. e = ClearBound c)")
  case True
  have "tr_inv (t\<lparr>tr_pending := None, tr_bound := False, tr_issued := None\<rparr>)"
    using assms by (simp add: tr_inv_def pending_ok_def tr_issued_ok_def)
  with True show ?thesis by (auto simp: tr_acknowledge_clear_def tr_accepts_def)
next
  case False
  with assms show ?thesis
    by (auto simp: tr_acknowledge_clear_def tr_accepts_def split: tracker_effect.split)
qed

lemmas inv_acks = inv_acknowledge_wait inv_tr_acknowledge_clear

lemma tr_next_inv: "tr_inv t \<Longrightarrow> tr_inv (tr_next i t)"
  by (cases i) (simp_all add: inv_event inv_acks inv_tr_invalidate)

interpretation tr: machine "\<lambda>t. \<exists>g n. t = new_tracker g n" tr_next tr_inv
  by unfold_locales
    (auto simp: tr_next_inv, auto simp: new_tracker_def tr_inv_defs records_serial_def)

interpretation wait_gate: effect_gate tr_accepts acknowledge_wait
  by unfold_locales (auto simp: acknowledge_wait_def tr_accepts_def split: tracker_effect.splits if_splits)

interpretation bound_gate: effect_gate tr_accepts tr_acknowledge_clear
  by unfold_locales (auto simp: tr_acknowledge_clear_def tr_accepts_def split: tracker_effect.splits if_splits)

interpretation epoch: revision_counter tr_invalidate tr_epoch
  by unfold_locales (simp add: tr_invalidate_def)

section \<open>What an event can issue\<close>

lemma on_pre_quiet: "tr_issued t = None \<Longrightarrow> fst (on_pre tool i t) = None"
  by (auto simp: on_pre_def split: option.split)

lemma on_permission_issues:
  "fst (on_permission tool raw i t) = Some e \<Longrightarrow> \<exists>c. e = BindWait c"
  by (auto simp: on_permission_def Let_def split: option.splits if_splits)

lemma on_post_issues:
  assumes "on_post tool i t = (Some e, u)" and "tr_issued t = None"
  obtains c where "e = ClearBound c" "tr_pending t = Some c" "tr_bound t"
    "i = Some (inv_id (tr_records t ! tc_invocation c))"
    "tool = inv_tool (tr_records t ! tc_invocation c)"
    "tr_issued u = Some (ClearBound c)" "tr_active u = tr_active t"
proof -
  from assms obtain iid where iid: "i = Some iid" by (cases i) (auto simp: on_post_def)
  with assms obtain k where k: "position (\<lambda>r. inv_id r = iid) (tr_records t) = Some k"
    by (cases "position (\<lambda>r. inv_id r = iid) (tr_records t)") (auto simp: on_post_def)
  then have "inv_id (tr_records t ! k) = iid" by (rule position_holds)
  with assms iid k that show thesis
    by (auto simp: on_post_def Let_def split: if_splits option.splits)
qed

lemma event_issues:
  assumes "event ev clean t = (Some e, u)"
  shows "tr_active t" "tr_issued t = None" "contiguous ev t" "event_admitted ev t"
    "ev_root ev = tr_root t" "ev_turn ev = tr_turn t"
    "tool_event ev (t\<lparr>tr_cursor := Some (ev_sequence ev, ev_observed_micros ev)\<rparr>) = (Some e, u)"
proof -
  let ?t1 = "(settled t)\<lparr>tr_cursor := Some (ev_sequence ev, ev_observed_micros ev)\<rparr>"
  have act: "tr_active (settled t) \<Longrightarrow> settled t = t \<and> tr_issued t = None"
    by (auto simp: settled_def tr_invalidate_def split: if_splits)
  from refl [of ?t1] have "tr_active t \<and> tr_issued t = None \<and> contiguous ev t \<and> event_admitted ev t \<and>
      ev_root ev = tr_root t \<and> ev_turn ev = tr_turn t \<and>
      tool_event ev (t\<lparr>tr_cursor := Some (ev_sequence ev, ev_observed_micros ev)\<rparr>) = (Some e, u)"
    by (cases rule: event_cases [where t = t and ev = ev and clean = clean])
      (use assms act in auto)
  then show "tr_active t" "tr_issued t = None" "contiguous ev t" "event_admitted ev t"
    "ev_root ev = tr_root t" "ev_turn ev = tr_turn t"
    "tool_event ev (t\<lparr>tr_cursor := Some (ev_sequence ev, ev_observed_micros ev)\<rparr>) = (Some e, u)"
    by simp_all
qed

lemma tool_event_clears:
  assumes "tool_event ev t = (Some (ClearBound c), u)" and "tr_issued t = None"
    and "ev_hook ev \<in> {Pre, Permission, Post}"
  shows "ev_hook ev = Post" "tr_pending t = Some c" "tr_bound t"
    "ev_invocation ev = Some (inv_id (tr_records t ! tc_invocation c))"
    "ev_tool ev = Some (inv_tool (tr_records t ! tc_invocation c))"
    "tr_issued u = Some (ClearBound c)" "tr_active u = tr_active t"
proof -
  obtain tool where tool: "opt_filter bounded_id (ev_tool ev) = Some tool"
    using assms(1) by (cases "opt_filter bounded_id (ev_tool ev)") (auto simp: tool_event_def)
  let ?i = "opt_filter bounded_id (ev_invocation ev)"
  have hook: "ev_hook ev = Post"
    using assms tool on_pre_quiet [of t tool ?i]
      on_permission_issues [of tool "ev_invocation ev" ?i t "ClearBound c"]
    by (auto simp: tool_event_def Let_def)
  then have post: "on_post tool ?i t = (Some (ClearBound c), u)"
    using assms(1) tool by (simp add: tool_event_def Let_def)
  from on_post_issues [OF post assms(2)] hook tool
  show "ev_hook ev = Post" "tr_pending t = Some c" "tr_bound t"
    "ev_invocation ev = Some (inv_id (tr_records t ! tc_invocation c))"
    "ev_tool ev = Some (inv_tool (tr_records t ! tc_invocation c))"
    "tr_issued u = Some (ClearBound c)" "tr_active u = tr_active t"
    by (auto simp: opt_filter_Some_iff)
qed

section \<open>Epochs only grow\<close>

definition epoch_rank :: "tracker \<Rightarrow> nat" where
  "epoch_rank t = (case tr_epoch t of None \<Rightarrow> 2 ^ 64 | Some e \<Rightarrow> unat e)"

lemma epoch_rank_less: "tr_epoch t = Some e \<Longrightarrow> epoch_rank t < 2 ^ 64"
  using unsigned_less [of e] by (simp add: epoch_rank_def)

lemma epoch_rank_invalidate:
  "epoch_rank t \<le> epoch_rank (tr_invalidate t)"
  "tr_epoch t = Some e \<Longrightarrow> unat e < epoch_rank (tr_invalidate t)"
proof -
  have strict: "unat e < epoch_rank (tr_invalidate t)" if "tr_epoch t = Some e" for e
  proof (cases "tr_epoch (tr_invalidate t)")
    case None
    then show ?thesis using epoch_rank_less [OF that] that by (simp add: epoch_rank_def)
  next
    case (Some r)
    then show ?thesis using epoch.rev_bump_Some [OF Some] that by (auto simp: epoch_rank_def)
  qed
  then show "tr_epoch t = Some e \<Longrightarrow> unat e < epoch_rank (tr_invalidate t)" .
  show "epoch_rank t \<le> epoch_rank (tr_invalidate t)"
  proof (cases "tr_epoch t")
    case None
    with epoch.rev_bump_None show ?thesis by (simp add: epoch_rank_def)
  next
    case (Some e)
    with strict [OF Some] show ?thesis by (simp add: epoch_rank_def)
  qed
qed

lemma epoch_rank_frame:
  "epoch_rank (t\<lparr>tr_cursor := c\<rparr>) = epoch_rank t" "epoch_rank (t\<lparr>tr_records := rs\<rparr>) = epoch_rank t"
  by (simp_all add: epoch_rank_def)

lemma epoch_rank_same: "tr_epoch u = tr_epoch t \<Longrightarrow> epoch_rank t \<le> epoch_rank u"
  by (simp add: epoch_rank_def)

lemma epoch_rank_handlers:
  "epoch_rank t \<le> epoch_rank (snd (on_pre tool i t))"
  "epoch_rank t \<le> epoch_rank (snd (on_permission tool raw i t))"
  "epoch_rank t \<le> epoch_rank (snd (on_post tool i t))"
proof -
  have drop: "epoch_rank t \<le> epoch_rank (tr_invalidate (t\<lparr>tr_records := rs\<rparr>))" for rs
    using epoch_rank_invalidate(1) [of "t\<lparr>tr_records := rs\<rparr>"] by (simp add: epoch_rank_frame)
  have bind: "epoch_rank (t\<lparr>tr_pending := p, tr_bound := b, tr_issued := e\<rparr>) = epoch_rank t"
    "epoch_rank (t\<lparr>tr_records := rs, tr_issued := e\<rparr>) = epoch_rank t" for p b e rs
    by (simp_all add: epoch_rank_def)
  note simps = epoch_rank_invalidate(1) epoch_rank_frame bind drop Let_def
  show "epoch_rank t \<le> epoch_rank (snd (on_pre tool i t))"
    by (simp add: on_pre_def simps split: option.split)
  show "epoch_rank t \<le> epoch_rank (snd (on_permission tool raw i t))"
    by (simp add: on_permission_def simps split: option.split)
  show "epoch_rank t \<le> epoch_rank (snd (on_post tool i t))"
    by (simp add: on_post_def simps split: option.split)
qed

lemma epoch_rank_tool_event: "epoch_rank t \<le> epoch_rank (snd (tool_event ev t))"
  by (simp add: tool_event_def Let_def epoch_rank_handlers epoch_rank_invalidate(1)
      split: option.split stream_hook.split)

lemma epoch_rank_settled: "epoch_rank t \<le> epoch_rank (settled t)"
  by (simp add: settled_def epoch_rank_invalidate)

lemma epoch_rank_event: "epoch_rank t \<le> epoch_rank (snd (event ev clean t))"
proof -
  let ?t1 = "(settled t)\<lparr>tr_cursor := Some (ev_sequence ev, ev_observed_micros ev)\<rparr>"
  have t1: "epoch_rank t \<le> epoch_rank ?t1" by (simp add: epoch_rank_frame epoch_rank_settled)
  have sub: "epoch_rank ?t1 \<le> epoch_rank (begin_submission ev clean ?t1)"
    using epoch_rank_invalidate(1) [of ?t1]
    by (simp add: begin_submission_def Let_def) (simp add: epoch_rank_def)
  from refl [of ?t1] show ?thesis
    by (cases rule: event_cases [where t = t and ev = ev and clean = clean])
      (use t1 sub epoch_rank_settled [of t] epoch_rank_invalidate(1) [of "settled t"]
        epoch_rank_invalidate(1) [of ?t1] epoch_rank_tool_event [of ?t1 ev] in auto)
qed

lemma epoch_rank_next: "epoch_rank t \<le> epoch_rank (tr_next i t)"
proof (cases i)
  case (AckWait e)
  then show ?thesis by (cases e) (auto simp: acknowledge_wait_def epoch_rank_def)
next
  case (AckBoundClear e)
  then show ?thesis by (cases e) (auto simp: tr_acknowledge_clear_def epoch_rank_def)
qed (simp_all add: epoch_rank_event epoch_rank_invalidate)

lemma accepted_epoch:
  assumes "tr_inv t" and "tr_accepts t e" and "e = BindWait c \<or> e = ClearBound c"
  shows "tr_epoch t = Some (tc_epoch c)"
  using assms tr_inv_pending(2) [OF assms(1)] tr_inv_BindWait(1) [OF assms(1)]
    tr_inv_ClearBound(1) [OF assms(1)]
  by (auto simp: tr_accepts_def)

section \<open>The serial protocol\<close>

text \<open>The event a well-behaved stream delivers next.\<close>

definition next_event :: "stream_hook \<Rightarrow> string \<Rightarrow> string option \<Rightarrow> tracker \<Rightarrow> stream_event" where
  "next_event h tool i t =
     (let (sq, time) = (case tr_cursor t of None \<Rightarrow> (0, 0) | Some c \<Rightarrow> c) in
      \<lparr>ev_generation = tr_generation t, ev_root = tr_root t, ev_turn = tr_turn t,
       ev_sequence = sq + 1, ev_observed_micros = time + 1, ev_hook = h, ev_tool = Some tool,
       ev_invocation = i\<rparr>)"

text \<open>A tracker that can follow one more serial tool call, with room for \<open>n\<close> more events.\<close>

definition following :: "nat \<Rightarrow> tracker \<Rightarrow> bool" where
  "following n t \<longleftrightarrow> tr_active t \<and> tr_issued t = None \<and> bounded_id (tr_root t) \<and> bounded_id (tr_turn t) \<and>
     (\<exists>sq time. tr_cursor t = Some (sq, time) \<and> unat sq + n < 2 ^ 64)"

lemma next_event_followed:
  fixes i :: "string option"
  assumes "following (Suc n) t" and "h \<in> {Pre, Permission, Post}" and "bounded_id tool"
  defines "ev \<equiv> next_event h tool i t"
  defines "t1 \<equiv> t\<lparr>tr_cursor := Some (ev_sequence ev, ev_observed_micros ev)\<rparr>"
  shows "event ev clean t = tool_event ev t1" and "following n t1"
    and "opt_filter bounded_id (ev_tool ev) = Some tool" and "ev_hook ev = h" and "ev_invocation ev = i"
proof -
  from assms(1) obtain sq time where cur: "tr_cursor t = Some (sq, time)" "unat sq + Suc n < 2 ^ 64"
    by (auto simp: following_def)
  then have ca: "checked_add sq 1 = Some (sq + 1)" by (simp add: checked_add_def)
  have ev: "ev = \<lparr>ev_generation = tr_generation t, ev_root = tr_root t, ev_turn = tr_turn t,
       ev_sequence = sq + 1, ev_observed_micros = time + 1, ev_hook = h, ev_tool = Some tool,
       ev_invocation = i\<rparr>"
    using cur(1) by (simp add: ev_def next_event_def)
  show "opt_filter bounded_id (ev_tool ev) = Some tool" "ev_hook ev = h" "ev_invocation ev = i"
    using assms(3) by (simp_all add: ev)
  have settled: "settled t = t" using assms(1) by (simp add: settled_def following_def)
  have admitted: "event_admitted ev t"
    using assms(1) cur checked_add_one_less [OF ca] by (simp add: event_admitted_def ev following_def)
  have contig: "contiguous ev t" using cur ca by (simp add: contiguous_def ev)
  have hooks: "h \<noteq> Submitted" "h \<noteq> StopHook" using assms(2) by auto
  show "event ev clean t = tool_event ev t1"
    using settled admitted contig hooks assms(1)
    by (simp add: event_def Let_def t1_def ev following_def)
  show "following n t1"
    using assms(1) cur unat_checked_add [OF ca] by (simp add: following_def t1_def ev)
qed

lemma following_records: "following n (t\<lparr>tr_records := rs\<rparr>) = following n t"
  by (simp add: following_def)

lemma pre_event_followed:
  fixes clean :: bool
  assumes "following (Suc n) t" and "bounded_id tool" and "bounded_id i"
    and "tr_pending t = None" and "length (tr_records t) < 64"
    and "\<forall>r \<in> set (tr_records t). inv_completed r \<and> inv_id r \<noteq> i"
  defines "u \<equiv> snd (event (next_event Pre tool (Some i) t) clean t)"
  shows "following n u" "tr_pending u = None"
    "tr_records u = tr_records t @ [\<lparr>inv_id = i, inv_tool = tool, inv_completed = False\<rparr>]"
    "tr_epoch u = tr_epoch t" "tr_identity u = tr_identity t"
proof -
  note ev = next_event_followed [OF assms(1) _ assms(2), of Pre "Some i"]
  let ?t1 = "t\<lparr>tr_cursor := Some (ev_sequence (next_event Pre tool (Some i) t),
               ev_observed_micros (next_event Pre tool (Some i) t))\<rparr>"
  have "u = ?t1\<lparr>tr_records := tr_records t @ [\<lparr>inv_id = i, inv_tool = tool, inv_completed = False\<rparr>]\<rparr>"
    using ev assms(3-6) by (auto simp: u_def tool_event_def on_pre_def)
  with ev(2) assms(4) show "following n u" "tr_pending u = None"
    "tr_records u = tr_records t @ [\<lparr>inv_id = i, inv_tool = tool, inv_completed = False\<rparr>]"
    "tr_epoch u = tr_epoch t" "tr_identity u = tr_identity t"
    by (simp_all only: following_records) simp_all
qed

lemma position_last:
  "\<forall>x \<in> set xs. \<not> p x \<Longrightarrow> p y \<Longrightarrow> position p (xs @ [y]) = Some (length xs)"
  by (induction xs) auto

lemma permission_event_followed:
  fixes clean :: bool
  assumes "following (Suc n) t" and "bounded_id tool" and "tr_pending t = None"
    and "tr_records t = rs @ [\<lparr>inv_id = i, inv_tool = tool, inv_completed = False\<rparr>]"
    and "\<forall>r \<in> set rs. inv_completed r" and "tr_epoch t = Some ep"
  defines "c \<equiv> \<lparr>tc_owner = tr_identity t, tc_epoch = ep, tc_invocation = length rs\<rparr>"
  defines "r \<equiv> event (next_event Permission tool None t) clean t"
  shows "fst r = Some (BindWait c)" "fst (acknowledge_wait (BindWait c) (snd r))"
    "following n (snd (acknowledge_wait (BindWait c) (snd r)))"
    "tr_pending (snd (acknowledge_wait (BindWait c) (snd r))) = Some c"
    "tr_bound (snd (acknowledge_wait (BindWait c) (snd r)))"
    "tr_records (snd (acknowledge_wait (BindWait c) (snd r))) = tr_records t"
proof -
  note ev = next_event_followed [OF assms(1) _ assms(2), of Permission None]
  let ?t1 = "t\<lparr>tr_cursor := Some (ev_sequence (next_event Permission tool None t),
               ev_observed_micros (next_event Permission tool None t))\<rparr>"
  have "position (\<lambda>r. \<not> inv_completed r) (tr_records t) = Some (length rs)"
    using assms(5) by (simp add: assms(4) position_last)
  then have r: "r = (Some (BindWait c),
      ?t1\<lparr>tr_pending := Some c, tr_bound := False, tr_issued := Some (BindWait c)\<rparr>)"
    using ev assms(3,4,6) by (simp add: r_def c_def tool_event_def on_permission_def Let_def)
  have "tr_active t" using assms(1) by (simp add: following_def)
  with r have ack: "acknowledge_wait (BindWait c) (snd r) =
      (True, ?t1\<lparr>tr_pending := Some c, tr_bound := True, tr_issued := None\<rparr>)"
    by (simp add: acknowledge_wait_def tr_accepts_def)
  show "fst r = Some (BindWait c)" "fst (acknowledge_wait (BindWait c) (snd r))"
    "tr_pending (snd (acknowledge_wait (BindWait c) (snd r))) = Some c"
    "tr_bound (snd (acknowledge_wait (BindWait c) (snd r)))"
    "tr_records (snd (acknowledge_wait (BindWait c) (snd r))) = tr_records t"
    using r ack by simp_all
  show "following n (snd (acknowledge_wait (BindWait c) (snd r)))"
    using ev(2) ack by (simp add: following_def)
qed

lemma post_event_followed:
  fixes clean :: bool
  assumes "following (Suc n) t" and "bounded_id tool" and "bounded_id i"
    and "tr_pending t = Some c" and "tc_invocation c = length rs" and "tr_bound t"
    and "tr_records t = rs @ [\<lparr>inv_id = i, inv_tool = tool, inv_completed = False\<rparr>]"
    and "\<forall>r \<in> set rs. inv_id r \<noteq> i"
  defines "r \<equiv> event (next_event Post tool (Some i) t) clean t"
  shows "fst r = Some (ClearBound c)" "tr_accepts (snd r) (ClearBound c)"
    "tr_records (snd r) = rs @ [\<lparr>inv_id = i, inv_tool = tool, inv_completed = True\<rparr>]"
proof -
  note ev = next_event_followed [OF assms(1) _ assms(2), of Post "Some i"]
  have "position (\<lambda>r. inv_id r = i) (tr_records t) = Some (length rs)"
    using assms(8) by (simp add: assms(7) position_last)
  moreover have "tr_active t" using assms(1) by (simp add: following_def)
  ultimately show "fst r = Some (ClearBound c)" "tr_accepts (snd r) (ClearBound c)"
    "tr_records (snd r) = rs @ [\<lparr>inv_id = i, inv_tool = tool, inv_completed = True\<rparr>]"
    using ev assms(3-7) by (simp_all add: r_def tool_event_def on_post_def Let_def tr_accepts_def)
qed

section \<open>Properties\<close>

text \<open>
  C33: After any sequence of events, acknowledgements and invalidations the tracker satisfies its
  invariant: at most 64 invocations with distinct identifiers of which only the last can be open,
  a pending candidate owned by this tracker and its current epoch, an issued effect agreeing with
  it, and nothing pending or issued while the tracker has no baseline.
\<close>

theorem tracker_invariant: "tr_inv (fold tr_next is (new_tracker g n))"
  using tr.reachable_inv [of "new_tracker g n" "is"] by (auto simp: tr.run_def)

text \<open>
  C34: A tracker asks to clear a wait only on the completion event of exactly the invocation whose
  wait was bound and acknowledged, with the same tool, generation, root and turn, contiguous with
  the event before; the effect is the one it then accepts.
\<close>

theorem clear_only_for_bound_invocation:
  assumes "tr_inv t" and "event ev clean t = (Some (ClearBound c), u)"
  shows "ev_hook ev = Post \<and> tr_pending t = Some c \<and> tr_bound t \<and>
         tc_invocation c < length (tr_records t) \<and>
         ev_invocation ev = Some (inv_id (tr_records t ! tc_invocation c)) \<and>
         ev_tool ev = Some (inv_tool (tr_records t ! tc_invocation c)) \<and>
         ev_generation ev = tr_generation t \<and> ev_root ev = tr_root t \<and> ev_turn ev = tr_turn t \<and>
         contiguous ev t \<and> tr_accepts u (ClearBound c)"
proof -
  note ev = event_issues [OF assms(2)]
  let ?t1 = "t\<lparr>tr_cursor := Some (ev_sequence ev, ev_observed_micros ev)\<rparr>"
  have "ev_hook ev \<in> {Pre, Permission, Post}"
    using assms(2) by (cases "ev_hook ev") (auto simp: event_def Let_def split: if_splits)
  from tool_event_clears [OF ev(7) _ this] ev(1,2)
  have clears: "ev_hook ev = Post" "tr_pending t = Some c" "tr_bound t"
    "ev_invocation ev = Some (inv_id (tr_records t ! tc_invocation c))"
    "ev_tool ev = Some (inv_tool (tr_records t ! tc_invocation c))" "tr_accepts u (ClearBound c)"
    by (simp_all add: tr_accepts_def)
  with ev tr_inv_pending(4) [OF assms(1) clears(2)] show ?thesis
    by (simp add: event_admitted_def)
qed

text \<open>
  C35: Invalidation is final for everything issued before it: whatever happens afterwards, the
  tracker never again accepts a bind or a clear for a candidate it had accepted.
\<close>

theorem stale_effects_never_accepted:
  assumes "tr_inv t" and "tr_accepts t e" and "e = BindWait c \<or> e = ClearBound c"
  shows "\<not> tr_accepts (fold tr_next is (tr_invalidate t)) (BindWait c) \<and>
         \<not> tr_accepts (fold tr_next is (tr_invalidate t)) (ClearBound c)"
proof -
  let ?u = "fold tr_next is (tr_invalidate t)"
  have inv0: "tr_inv (tr_invalidate t)" using assms(1) by (rule inv_tr_invalidate)
  then have inv: "tr_inv ?u" using tr.run_inv [of _ "is"] by (simp add: tr.run_def)
  have "epoch_rank (tr_invalidate t) \<le> epoch_rank ?u"
    using tr.run_mono [of epoch_rank, OF epoch_rank_next inv0, of "is"] by (simp add: tr.run_def)
  moreover have "unat (tc_epoch c) < epoch_rank (tr_invalidate t)"
    using epoch_rank_invalidate(2) [OF accepted_epoch [OF assms]] .
  ultimately have "tr_epoch ?u \<noteq> Some (tc_epoch c)" by (auto simp: epoch_rank_def)
  then show ?thesis using accepted_epoch [OF inv] by blast
qed

text \<open>
  Without a baseline the tracker is inert: it issues nothing, accepts nothing, and only a
  clean submission gives it a baseline again.
\<close>

theorem inactive_until_clean_submission:
  assumes "tr_inv t" and "\<not> has_baseline t"
    and "list_all (\<lambda>i. \<forall>ev. i \<noteq> Event ev True) is"
  shows "\<not> has_baseline (fold tr_next is t) \<and> \<not> tr_accepts (fold tr_next is t) e \<and>
         fst (event ev clean (fold tr_next is t)) = None"
proof -
  have step: "\<not> tr_active (tr_next i u)" if "\<not> tr_active u" "\<forall>ev. i \<noteq> Event ev True" for i u
  proof (cases i)
    case (Event ev b)
    with that have "b = False" by auto
    let ?t1 = "(settled u)\<lparr>tr_cursor := Some (ev_sequence ev, ev_observed_micros ev)\<rparr>"
    have "\<not> tr_active (settled u)" using that by (simp add: settled_def tr_invalidate_def)
    with refl [of ?t1] \<open>b = False\<close> have "\<not> tr_active (snd (event ev b u))"
      by (cases rule: event_cases [where t = u and ev = ev and clean = b])
        (auto simp: begin_submission_def Let_def tr_invalidate_def)
    with Event show ?thesis by simp
  next
    case (AckWait e)
    with that show ?thesis by (cases e) (simp_all add: acknowledge_wait_def tr_accepts_def)
  next
    case (AckBoundClear e)
    with that show ?thesis by (cases e) (simp_all add: tr_acknowledge_clear_def tr_accepts_def)
  qed (simp add: tr_invalidate_def)
  have off: "\<not> tr_active (fold tr_next is t)"
    using tr.run_keeps [of "\<lambda>u. \<not> tr_active u" "\<lambda>i. \<forall>ev. i \<noteq> Event ev True" "is" t] step assms
    by (auto simp: tr.run_def has_baseline_def)
  moreover have "fst (event ev clean (fold tr_next is t)) = None"
  proof (cases "event ev clean (fold tr_next is t)")
    case (Pair r u)
    with off show ?thesis using event_issues(1) by (cases r) auto
  qed
  ultimately show ?thesis by (simp add: has_baseline_def tr_accepts_def)
qed

text \<open>
  The serial protocol succeeds: in an active tracker with all invocations completed, the
  events of one tool call (before use, permission, after use) bind the wait to that call, and
  after the bind is acknowledged clear it; acknowledging the clear leaves the tracker active with
  every invocation completed, ready for the next call.
\<close>

theorem serial_call_binds_and_clears:
  assumes "following 3 t" and "tr_pending t = None" and "tr_epoch t = Some ep"
    and "bounded_id tool" and "bounded_id i" and "length (tr_records t) < 64"
    and "\<forall>r \<in> set (tr_records t). inv_completed r \<and> inv_id r \<noteq> i"
    and t1: "t1 = snd (event (next_event Pre tool (Some i) t) False t)"
    and r2: "r2 = event (next_event Permission tool None t1) False t1"
    and t3: "t3 = snd (acknowledge_wait (the (fst r2)) (snd r2))"
    and r4: "r4 = event (next_event Post tool (Some i) t3) False t3"
    and t5: "t5 = snd (tr_acknowledge_clear (the (fst r4)) (snd r4))"
  shows "\<exists>c. fst r2 = Some (BindWait c) \<and> tc_invocation c = length (tr_records t) \<and>
           fst (acknowledge_wait (BindWait c) (snd r2)) \<and>
           fst r4 = Some (ClearBound c) \<and> fst (tr_acknowledge_clear (ClearBound c) (snd r4)) \<and>
           has_baseline t5 \<and> tr_pending t5 = None \<and> (\<forall>r \<in> set (tr_records t5). inv_completed r)"
proof -
  let ?c = "\<lparr>tc_owner = tr_identity t1, tc_epoch = ep, tc_invocation = length (tr_records t)\<rparr>"
  have n3: "following (Suc 2) t" using assms(1) by simp
  note s1 = pre_event_followed [OF n3 assms(4,5,2,6,7), of False, folded t1]
  have n2: "following (Suc 1) t1" using s1(1) by (simp add: numeral_2_eq_2)
  have comp: "\<forall>r \<in> set (tr_records t). inv_completed r" "\<forall>r \<in> set (tr_records t). inv_id r \<noteq> i"
    using assms(7) by auto
  have ep1: "tr_epoch t1 = Some ep" using s1(4) assms(3) by simp
  note s2 = permission_event_followed [OF n2 assms(4) s1(2,3) comp(1) ep1, of False, folded r2]
  have t3c: "t3 = snd (acknowledge_wait (BindWait ?c) (snd r2))" using s2(1) t3 by simp
  have n1: "following (Suc 0) t3" using s2(3) t3c by simp
  have recs: "tr_records t3 = tr_records t @ [\<lparr>inv_id = i, inv_tool = tool, inv_completed = False\<rparr>]"
    using s2(6) t3c s1(3) by simp
  have pend: "tr_pending t3 = Some ?c" "tr_bound t3" using s2(4,5) t3c by simp_all
  have s4: "fst r4 = Some (ClearBound ?c)" "tr_accepts (snd r4) (ClearBound ?c)"
    "tr_records (snd r4) = tr_records t @ [\<lparr>inv_id = i, inv_tool = tool, inv_completed = True\<rparr>]"
    using post_event_followed [OF n1 assms(4,5) pend(1) _ pend(2) recs comp(2), of False, folded r4]
    by simp_all
  have t5c: "t5 = (snd r4)\<lparr>tr_pending := None, tr_bound := False, tr_issued := None\<rparr>"
    and ack: "fst (tr_acknowledge_clear (ClearBound ?c) (snd r4))"
    using s4(1,2) t5 by (simp_all add: tr_acknowledge_clear_def)
  show ?thesis
    using s2(1,2) s4 t5c ack comp(1) by (intro exI [of _ ?c]) (simp add: has_baseline_def tr_accepts_def)
qed

section \<open>A concrete stream\<close>

definition demo_event :: "u64 \<Rightarrow> stream_hook \<Rightarrow> string option \<Rightarrow> stream_event" where
  "demo_event n h i = \<lparr>ev_generation = 1, ev_root = ''r'', ev_turn = ''t'', ev_sequence = n,
     ev_observed_micros = uint n, ev_hook = h, ev_tool = Some ''sh'', ev_invocation = i\<rparr>"

definition demo_candidate :: tracker_candidate where
  "demo_candidate = \<lparr>tc_owner = 0, tc_epoch = 1, tc_invocation = 0\<rparr>"

definition demo_active :: tracker where
  "demo_active = fold tr_next [Event (demo_event 1 Submitted None) True] (new_tracker 1 0)"

definition demo_asked :: tracker where
  "demo_asked = fold tr_next [Event (demo_event 1 Submitted None) True,
     Event (demo_event 2 Pre (Some ''a'')) False, Event (demo_event 3 Permission None) False]
     (new_tracker 1 0)"

definition demo_bound :: tracker where
  "demo_bound = tr_next (AckWait (BindWait demo_candidate)) demo_asked"

lemmas tracker_eval =
  demo_event_def demo_candidate_def demo_active_def demo_asked_def demo_bound_def new_tracker_def
  event_def settled_def event_admitted_def contiguous_def begin_submission_def tool_event_def
  on_pre_def on_permission_def on_post_def tr_invalidate_def bounded_id_def acknowledge_wait_def
  tr_accepts_def checked_add_def Let_def following_def has_baseline_def

lemma demo_inv: "tr_inv demo_active" "tr_inv demo_asked" "tr_inv demo_bound"
proof -
  have reach: "tr_inv (fold tr_next is (new_tracker 1 0))" for "is"
    using tr.reachable_inv [of "new_tracker 1 0" "is"] by (auto simp: tr.run_def)
  show "tr_inv demo_active" "tr_inv demo_asked" unfolding demo_active_def demo_asked_def by (rule reach)+
  then show "tr_inv demo_bound" unfolding demo_bound_def by (intro tr_next_inv)
qed

theorem clear_only_for_bound_invocation_witness:
  "tr_pending demo_bound = Some demo_candidate \<and> tr_bound demo_bound \<and>
   ev_invocation (demo_event 4 Post (Some ''a'')) = Some (inv_id (tr_records demo_bound ! 0))"
proof -
  obtain u where "event (demo_event 4 Post (Some ''a'')) False demo_bound = (Some (ClearBound demo_candidate), u)"
    by (simp add: tracker_eval)
  from clear_only_for_bound_invocation [OF demo_inv(3) this] show ?thesis
    by (simp add: demo_candidate_def)
qed

theorem stale_effects_never_accepted_witness:
  "\<not> tr_accepts (fold tr_next [Event (demo_event 4 Submitted None) True] (tr_invalidate demo_asked))
     (BindWait demo_candidate)"
proof -
  have "tr_accepts demo_asked (BindWait demo_candidate)" by (simp add: tracker_eval)
  from stale_effects_never_accepted [OF demo_inv(2) this] show ?thesis by blast
qed

theorem inactive_until_clean_submission_witness:
  "\<not> has_baseline (fold tr_next [Event (demo_event 1 Submitted None) False] (new_tracker 1 0))"
proof -
  have "tr_inv (new_tracker 1 0)" using tr.inv_init by blast
  moreover have "\<not> has_baseline (new_tracker 1 0)" by (simp add: tracker_eval)
  ultimately show ?thesis
    using inactive_until_clean_submission
      [of "new_tracker 1 0" "[Event (demo_event 1 Submitted None) False]"]
    by simp
qed

theorem serial_call_binds_and_clears_witness:
  "\<exists>c. fst (event (next_event Permission ''sh'' None
          (snd (event (next_event Pre ''sh'' (Some ''a'') demo_active) False demo_active))) False
          (snd (event (next_event Pre ''sh'' (Some ''a'') demo_active) False demo_active)))
        = Some (BindWait c)"
proof -
  have "following 3 demo_active" "tr_pending demo_active = None" "tr_epoch demo_active = Some 1"
    "bounded_id ''sh''" "bounded_id ''a''" "length (tr_records demo_active) < 64"
    "\<forall>r \<in> set (tr_records demo_active). inv_completed r \<and> inv_id r \<noteq> ''a''"
    by (simp_all add: tracker_eval)
  from serial_call_binds_and_clears [OF this refl refl refl refl refl] show ?thesis by blast
qed

end
