(* ===== verification/Capacity_State.thy ===== *)
theory Capacity_State
  imports Prelude
begin

text \<open>
  The per-session usage-limit machine of \<^verbatim>\<open>crates/orkworksd/src/capacity_state.rs\<close>. The scanner that
  reads terminal output for limit messages is the closure argument of the source, a function
  argument here. Counters are 64-bit; \<open>record_output\<close> adds without a check, so it wraps as a
  release build does. Line counts and buffer lengths are \<open>usize\<close> values of a 64-bit target.
\<close>

section \<open>Data\<close>

record capacity_state =
  at_usage_limit_latched :: bool
  analysis_revision :: u64
  analysis_exhausted :: bool
  capacity_check_pending :: bool
  output_lines_seen :: u64
  scan_bytes_seen :: u64
  resume_scan_origin :: "(u64 \<times> u64) option"
  pending_capacity_visible_once :: bool

record capacity_observation =
  at_usage_limit :: bool
  reset_hint :: "string option"
  origin_update :: "(u64 \<times> u64) option"
  clear_latch :: bool

definition default_capacity :: capacity_state where
  "default_capacity =
     \<lparr>at_usage_limit_latched = False, analysis_revision = 0, analysis_exhausted = False,
      capacity_check_pending = False, output_lines_seen = 0, scan_bytes_seen = 0,
      resume_scan_origin = None, pending_capacity_visible_once = False\<rparr>"

section \<open>Operations\<close>

definition control_revision :: "capacity_state \<Rightarrow> u64 option" where
  "control_revision s = (if analysis_exhausted s then None else Some (analysis_revision s))"

definition invalidate_analysis :: "capacity_state \<Rightarrow> capacity_state" where
  "invalidate_analysis s =
     (case checked_add (analysis_revision s) 1 of
        Some r \<Rightarrow> s\<lparr>analysis_revision := r\<rparr>
      | None \<Rightarrow> s\<lparr>analysis_exhausted := True\<rparr>)"

definition arm_recheck :: "capacity_state \<Rightarrow> bool \<times> capacity_state" where
  "arm_recheck s =
     (if \<not> at_usage_limit_latched s \<or> capacity_check_pending s \<or> resume_scan_origin s \<noteq> None
      then (False, s)
      else (True, invalidate_analysis
              (s\<lparr>resume_scan_origin := Some (output_lines_seen s, scan_bytes_seen s)\<rparr>)))"

definition accepted_input :: "capacity_state \<Rightarrow> capacity_state" where
  "accepted_input s = snd (arm_recheck (invalidate_analysis s))"

definition pending :: "bool \<Rightarrow> capacity_state" where
  "pending p = default_capacity\<lparr>capacity_check_pending := p,
     resume_scan_origin := (if p then Some (0, 0) else None)\<rparr>"

definition record_output :: "u64 \<Rightarrow> u64 \<Rightarrow> capacity_state \<Rightarrow> capacity_state" where
  "record_output lines bytes s =
     s\<lparr>output_lines_seen := output_lines_seen s + lines, scan_bytes_seen := scan_bytes_seen s + bytes\<rparr>"

definition clear_latch_and_rearm :: "capacity_state \<Rightarrow> capacity_state" where
  "clear_latch_and_rearm s =
     (let s1 = invalidate_analysis s in
      s1\<lparr>at_usage_limit_latched := False,
         resume_scan_origin := Some (output_lines_seen s1, scan_bytes_seen s1)\<rparr>)"

definition fresh_output_since_origin :: "capacity_state \<Rightarrow> bool" where
  "fresh_output_since_origin s =
     (case resume_scan_origin s of
        None \<Rightarrow> False
      | Some (line_count, scan_len) \<Rightarrow>
          output_lines_seen s > line_count \<or> scan_bytes_seen s > scan_len)"

definition stale_recheck :: "capacity_state \<Rightarrow> bool" where
  "stale_recheck s \<longleftrightarrow> at_usage_limit_latched s \<and> \<not> capacity_check_pending s \<and>
     resume_scan_origin s \<noteq> None \<and> fresh_output_since_origin s"

definition baseline :: "capacity_state \<Rightarrow> bool" where
  "baseline s \<longleftrightarrow> \<not> at_usage_limit_latched s \<and> \<not> capacity_check_pending s \<and>
     resume_scan_origin s \<noteq> None"

text \<open>The lines and the bytes of the retained buffer that lie after the armed origin.\<close>

definition scoped_range :: "(u64 \<times> u64) \<Rightarrow> u64 \<Rightarrow> string \<Rightarrow> capacity_state \<Rightarrow> (u64 \<times> u64) \<times> string" where
  "scoped_range origin line_count scan_buf s =
     (let (lines, bytes) = origin;
          line_start = saturating_sub lines (saturating_sub (output_lines_seen s) line_count);
          byte_start = saturating_sub bytes
                         (saturating_sub (scan_bytes_seen s) (of_nat (length scan_buf)))
      in ((min line_start line_count, line_count),
          (case get_from scan_buf (min (unat byte_start) (length scan_buf)) of
             Some r \<Rightarrow> r
           | None \<Rightarrow> [])))"

definition observe_with ::
  "u64 \<Rightarrow> string \<Rightarrow> (u64 \<times> u64 \<Rightarrow> string \<Rightarrow> bool \<times> string option) \<Rightarrow> capacity_state \<Rightarrow>
   capacity_observation" where
  "observe_with line_count scan_buf scan s =
     (let scoped = stale_recheck s \<or> baseline s;
          (range, raw) = (if scoped then scoped_range (the (resume_scan_origin s)) line_count scan_buf s
                          else ((0, line_count), scan_buf));
          (detected, hint) = scan range raw
      in \<lparr>at_usage_limit = (if scoped then detected else at_usage_limit_latched s \<or> detected),
          reset_hint = hint,
          origin_update = (if stale_recheck s \<or> (baseline s \<and> detected)
                           then Some (output_lines_seen s, scan_bytes_seen s) else None),
          clear_latch = (stale_recheck s \<and> \<not> detected)\<rparr>)"

definition apply_observation :: "capacity_observation \<Rightarrow> capacity_state \<Rightarrow> bool \<times> capacity_state" where
  "apply_observation ob s =
     (let newly_latched = at_usage_limit ob \<and> \<not> at_usage_limit_latched s;
          s1 = (if at_usage_limit ob then s\<lparr>at_usage_limit_latched := True\<rparr> else s);
          s2 = (case origin_update ob of
                  None \<Rightarrow> s1
                | Some origin \<Rightarrow>
                    (let s' = s1\<lparr>resume_scan_origin := Some origin\<rparr> in
                     if clear_latch ob then s'\<lparr>at_usage_limit_latched := False\<rparr> else s'));
          s3 = (if (at_usage_limit_latched s, resume_scan_origin s)
                   \<noteq> (at_usage_limit_latched s2, resume_scan_origin s2)
                then invalidate_analysis s2 else s2)
      in (newly_latched, s3))"

definition advance_pending_visibility ::
  "bool \<Rightarrow> capacity_state \<Rightarrow> bool option option \<times> capacity_state" where
  "advance_pending_visibility has_fresh_resume_output s =
     (if \<not> capacity_check_pending s then (None, s)
      else if pending_capacity_visible_once s then
        (Some None, (invalidate_analysis s)\<lparr>capacity_check_pending := False,
           resume_scan_origin := None, pending_capacity_visible_once := False\<rparr>)
      else if has_fresh_resume_output then
        (Some (Some True), (invalidate_analysis s)\<lparr>pending_capacity_visible_once := True,
           resume_scan_origin := None\<rparr>)
      else (Some (Some True), s))"

definition rendered_check_pending :: "capacity_state \<Rightarrow> bool option" where
  "rendered_check_pending s =
     (if capacity_check_pending s \<and> \<not> pending_capacity_visible_once s then Some True else None)"

section \<open>The machine\<close>

datatype cap_input =
    AcceptedInput
  | RecordOutput u64 u64
  | ArmRecheck
  | ClearLatchAndRearm
  | ApplyObservation capacity_observation
  | AdvancePendingVisibility bool

fun cap_next :: "cap_input \<Rightarrow> capacity_state \<Rightarrow> capacity_state" where
  "cap_next AcceptedInput s = accepted_input s"
| "cap_next (RecordOutput l b) s = record_output l b s"
| "cap_next ArmRecheck s = snd (arm_recheck s)"
| "cap_next ClearLatchAndRearm s = clear_latch_and_rearm s"
| "cap_next (ApplyObservation ob) s = snd (apply_observation ob s)"
| "cap_next (AdvancePendingVisibility f) s = snd (advance_pending_visibility f s)"

text \<open>
  The part of the state the transition rules branch on besides the output counters. A cached
  analysis is keyed by the control revision, so this part must not change under one revision.
\<close>

type_synonym control = "bool \<times> bool \<times> (u64 \<times> u64) option \<times> bool"

definition control_of :: "capacity_state \<Rightarrow> control" where
  "control_of s = (at_usage_limit_latched s, capacity_check_pending s, resume_scan_origin s,
     pending_capacity_visible_once s)"

text \<open>The visibility flag is only ever set while a check is pending.\<close>

definition cap_inv :: "capacity_state \<Rightarrow> bool" where
  "cap_inv s \<longleftrightarrow> (pending_capacity_visible_once s \<longrightarrow> capacity_check_pending s)"

lemma control_revision_bump:
  "control_revision (invalidate_analysis s) = Option.bind (control_revision s) (\<lambda>r. checked_add r 1)"
  by (auto simp: control_revision_def invalidate_analysis_def split: option.split)

interpretation control: revision_counter invalidate_analysis control_revision
  by unfold_locales (rule control_revision_bump)

lemma invalidate_sel [simp]:
  "at_usage_limit_latched (invalidate_analysis s) = at_usage_limit_latched s"
  "capacity_check_pending (invalidate_analysis s) = capacity_check_pending s"
  "output_lines_seen (invalidate_analysis s) = output_lines_seen s"
  "scan_bytes_seen (invalidate_analysis s) = scan_bytes_seen s"
  "resume_scan_origin (invalidate_analysis s) = resume_scan_origin s"
  "pending_capacity_visible_once (invalidate_analysis s) = pending_capacity_visible_once s"
  by (simp_all add: invalidate_analysis_def split: option.split)

lemma cap_next_inv: "cap_inv s \<Longrightarrow> cap_inv (cap_next i s)"
  by (cases i) (auto simp: cap_inv_def accepted_input_def record_output_def arm_recheck_def
      clear_latch_and_rearm_def apply_observation_def advance_pending_visibility_def Let_def
      split: option.splits)

interpretation cap: machine "\<lambda>s. \<exists>p. s = pending p" cap_next cap_inv
  by unfold_locales (auto simp: cap_next_inv, simp add: cap_inv_def pending_def default_capacity_def)

section \<open>Revisions\<close>

abbreviation control_rank :: "capacity_state \<Rightarrow> nat" where
  "control_rank \<equiv> control.rank"

text \<open>Either nothing the rules branch on moved, or the revision did.\<close>

definition tracked :: "capacity_state \<Rightarrow> capacity_state \<Rightarrow> bool" where
  "tracked s t \<longleftrightarrow> control_rank s \<le> control_rank t \<and>
     (control_revision s \<noteq> None \<longrightarrow> control_rank s = control_rank t \<longrightarrow> control_of t = control_of s)"

lemma control_rank_cong:
  "analysis_revision s = analysis_revision t \<Longrightarrow> analysis_exhausted s = analysis_exhausted t \<Longrightarrow>
   control_rank s = control_rank t"
  by (simp add: control.rank_def control_revision_def)

lemma tracked_refl: "tracked s s"
  by (simp add: tracked_def)

lemma tracked_bumped: "control_rank t = control_rank (invalidate_analysis s) \<Longrightarrow> tracked s t"
  using control.rank_bump_le [of s] control.rank_bump_less [of s] by (auto simp: tracked_def)

lemma tracked_trans: "tracked s t \<Longrightarrow> tracked t u \<Longrightarrow> tracked s u"
  unfolding tracked_def
  by (metis control.rank_def control.rank_less le_antisym le_trans linorder_not_le option.exhaust
      option.simps(4))

lemma control_rank_upd [simp]:
  "control_rank (s\<lparr>at_usage_limit_latched := b\<rparr>) = control_rank s"
  "control_rank (s\<lparr>capacity_check_pending := b\<rparr>) = control_rank s"
  "control_rank (s\<lparr>resume_scan_origin := x\<rparr>) = control_rank s"
  "control_rank (s\<lparr>pending_capacity_visible_once := b\<rparr>) = control_rank s"
  "control_rank (s\<lparr>output_lines_seen := n\<rparr>) = control_rank s"
  "control_rank (s\<lparr>scan_bytes_seen := n\<rparr>) = control_rank s"
  by (simp_all add: control.rank_def control_revision_def)

lemma invalidate_upd [simp]:
  "invalidate_analysis (s\<lparr>at_usage_limit_latched := b\<rparr>) = (invalidate_analysis s)\<lparr>at_usage_limit_latched := b\<rparr>"
  "invalidate_analysis (s\<lparr>resume_scan_origin := x\<rparr>) = (invalidate_analysis s)\<lparr>resume_scan_origin := x\<rparr>"
  by (simp_all add: invalidate_analysis_def split: option.split)

lemma tracked_same: "control_rank t = control_rank s \<Longrightarrow> control_of t = control_of s \<Longrightarrow> tracked s t"
  by (simp add: tracked_def)

lemma tracked_arm: "tracked s (snd (arm_recheck s))"
  by (auto simp: arm_recheck_def intro: tracked_refl tracked_bumped)

lemma tracked_accepted: "tracked s (accepted_input s)"
  unfolding accepted_input_def by (rule tracked_trans [OF tracked_bumped tracked_arm]) (rule refl)

lemma tracked_record: "tracked s (record_output l b s)"
  by (rule tracked_same) (simp_all add: record_output_def control_of_def)

lemma tracked_clear: "tracked s (clear_latch_and_rearm s)"
  by (rule tracked_bumped) (simp add: clear_latch_and_rearm_def Let_def)

lemma tracked_advance: "tracked s (snd (advance_pending_visibility f s))"
  by (auto simp: advance_pending_visibility_def intro: tracked_refl tracked_bumped)

lemma tracked_apply: "tracked s (snd (apply_observation ob s))"
proof -
  have eq: "snd (apply_observation ob s) = s \<or>
      control_rank (snd (apply_observation ob s)) = control_rank (invalidate_analysis s)"
    by (cases "origin_update ob") (auto simp: apply_observation_def Let_def)
  then show ?thesis by (auto intro: tracked_refl tracked_bumped)
qed

lemma tracked_next: "tracked s (cap_next i s)"
  by (cases i) (simp_all add: tracked_accepted tracked_record tracked_arm tracked_clear
      tracked_apply tracked_advance)

lemma tracked_run: "tracked s (cap.run is s)"
proof (induction "is" arbitrary: s)
  case (Cons i "is")
  then show ?case using tracked_trans [OF tracked_next Cons.IH] by simp
qed (simp add: tracked_refl)

section \<open>Observation and write-back\<close>

lemma latch_after_write_back:
  "at_usage_limit_latched (snd (apply_observation (observe_with lc buf scan s) s)) =
   at_usage_limit (observe_with lc buf scan s)"
  by (cases "stale_recheck s"; cases "baseline s")
    (auto simp: apply_observation_def observe_with_def Let_def stale_recheck_def baseline_def
      split: prod.splits)

lemma newly_latched_iff: "fst (apply_observation ob s) \<longleftrightarrow> at_usage_limit ob \<and> \<not> at_usage_limit_latched s"
  by (simp add: apply_observation_def Let_def)

lemma unscoped_keeps_latch:
  "at_usage_limit_latched s \<Longrightarrow> \<not> at_usage_limit (observe_with lc buf scan s) \<Longrightarrow> stale_recheck s"
  by (auto simp: observe_with_def Let_def baseline_def split: prod.splits if_splits)

text \<open>The tail of the retained buffer that was written after a byte position.\<close>

definition tail_after :: "u64 \<Rightarrow> u64 \<Rightarrow> string \<Rightarrow> string" where
  "tail_after seen origin buf =
     (let r = drop (length buf - min (length buf) (unat seen - unat origin)) buf in
      if is_char_boundary buf (length buf - length r) then r else [])"

lemma min_minus_sub: "(o1::nat) \<le> seen \<Longrightarrow> len \<le> seen \<Longrightarrow> min (o1 - (seen - len)) len = len - min len (seen - o1)"
  by linarith

lemma scoped_range_tail:
  assumes "ol \<le> output_lines_seen s" and "ob \<le> scan_bytes_seen s"
    and "lc \<le> output_lines_seen s" and "length buf \<le> unat (scan_bytes_seen s)"
  shows "scoped_range (ol, ob) lc buf s =
     ((of_nat (unat lc - min (unat lc) (unat (output_lines_seen s) - unat ol)), lc),
      tail_after (scan_bytes_seen s) ob buf)"
proof -
  have len: "unat (of_nat (length buf) :: u64) = length buf"
  proof -
    have "unat (scan_bytes_seen s) < 2 ^ LENGTH(64)" by (rule unsigned_less)
    then show ?thesis using assms(4) by (simp add: unat_of_nat)
  qed
  have lines: "unat (min (saturating_sub ol (saturating_sub (output_lines_seen s) lc)) lc) =
      unat lc - min (unat lc) (unat (output_lines_seen s) - unat ol)"
    using assms(1,3) min_minus_sub [of "unat ol" "unat (output_lines_seen s)" "unat lc"]
    by (simp add: min_def word_le_nat_alt unat_saturating_sub split: if_splits)
  have line_start: "min (saturating_sub ol (saturating_sub (output_lines_seen s) lc)) lc =
      of_nat (unat lc - min (unat lc) (unat (output_lines_seen s) - unat ol))"
    using arg_cong [OF lines, of "of_nat :: nat \<Rightarrow> u64"] by (simp only: of_nat_unat ucast_id)
  have bytes: "min (unat (saturating_sub ob (saturating_sub (scan_bytes_seen s) (of_nat (length buf)))))
      (length buf) = length buf - min (length buf) (unat (scan_bytes_seen s) - unat ob)"
    using assms(2,4) by (simp add: unat_saturating_sub len word_le_nat_alt)
  show ?thesis
    by (simp add: scoped_range_def Let_def line_start bytes tail_after_def get_from_def)
qed

lemma pending_not_restored: "\<not> capacity_check_pending s \<Longrightarrow> \<not> capacity_check_pending (cap_next i s)"
  by (cases i) (auto simp: accepted_input_def record_output_def arm_recheck_def
      clear_latch_and_rearm_def apply_observation_def advance_pending_visibility_def Let_def
      split: option.splits)

lemma pending_not_restored_run:
  "\<not> capacity_check_pending s \<Longrightarrow> \<not> capacity_check_pending (fold cap_next is s)"
  by (induction "is" arbitrary: s) (auto simp: pending_not_restored)

lemmas capacity_eval = pending_def default_capacity_def observe_with_def apply_observation_def
  invalidate_analysis_def arm_recheck_def accepted_input_def record_output_def stale_recheck_def
  baseline_def fresh_output_since_origin_def control_revision_def control_of_def
  advance_pending_visibility_def rendered_check_pending_def checked_add_def Let_def

section \<open>Properties\<close>

text \<open>
  A cached analysis is never reused across a change of the rules it was made under: over any
  sequence of operations, if the control revision at the end is the one at the start, then the
  latch, the pending flag, the armed origin and the visibility flag are those of the start.
\<close>

theorem same_revision_same_control:
  assumes "control_revision s = Some r" and "control_revision (fold cap_next is s) = Some r"
  shows "control_of (fold cap_next is s) = control_of s"
  using tracked_run [of s "is"] assms by (simp add: tracked_def control.rank_def cap.run_def)

theorem same_revision_same_control_witness:
  "control_of (fold cap_next [RecordOutput 4 120, ArmRecheck] (pending True)) = control_of (pending True)"
  by (rule same_revision_same_control [where r = 0]) (simp_all add: capacity_eval)

text \<open>
  A scoped recheck reads exactly the output that arrived after the armed origin, as far as it
  is still retained. When the origin and the retained lines and bytes lie within what has been
  seen, the scanner is called on as many of the last lines and last bytes as were seen since the
  origin (all retained ones when fewer are retained, and no bytes when the cut splits a
  character), and its verdict is the observation.
\<close>

theorem scoped_recheck_reads_fresh_output:
  assumes "stale_recheck s \<or> baseline s" and "resume_scan_origin s = Some (ol, ob)"
    and "ol \<le> output_lines_seen s" and "ob \<le> scan_bytes_seen s"
    and "lc \<le> output_lines_seen s" and "length buf \<le> unat (scan_bytes_seen s)"
  shows "(at_usage_limit (observe_with lc buf scan s), reset_hint (observe_with lc buf scan s)) =
     scan (of_nat (unat lc - min (unat lc) (unat (output_lines_seen s) - unat ol)), lc)
          (tail_after (scan_bytes_seen s) ob buf)"
  using assms(1,2) scoped_range_tail [OF assms(3-6)]
  by (auto simp: observe_with_def Let_def split: prod.split)

theorem scoped_recheck_reads_fresh_output_witness:
  "let s = record_output 2 3 (clear_latch_and_rearm (record_output 5 10 default_capacity));
       f = (\<lambda>rg raw. (rg = (2, 4) \<and> raw = ''cap'', None)) in
   (at_usage_limit (observe_with 4 ''xx cap'' f s), reset_hint (observe_with 4 ''xx cap'' f s)) =
   (True, None)"
  unfolding Let_def
  by (subst scoped_recheck_reads_fresh_output [where ol = 5 and ob = 10])
    (simp_all add: capacity_eval clear_latch_and_rearm_def tail_after_def is_char_boundary_def)

text \<open>
  What is shown is what is kept. Writing an observation back leaves the latch equal to the
  limit the observation reports, the call reports a new limit exactly when the latch rises, and
  the latch falls only in a recheck of a latched session with no pending check whose output has
  moved past the armed origin.
\<close>

theorem latch_follows_observation:
  fixes lc buf scan s
  defines "ob \<equiv> observe_with lc buf scan s"
  defines "t \<equiv> snd (apply_observation ob s)"
  shows "at_usage_limit_latched t = at_usage_limit ob \<and>
    (fst (apply_observation ob s) = (\<not> at_usage_limit_latched s \<and> at_usage_limit_latched t)) \<and>
    (at_usage_limit_latched s \<and> \<not> at_usage_limit_latched t \<longrightarrow>
       \<not> capacity_check_pending s \<and> fresh_output_since_origin s \<and>
       resume_scan_origin t = Some (output_lines_seen s, scan_bytes_seen s))"
proof (intro conjI impI)
  show latch: "at_usage_limit_latched t = at_usage_limit ob"
    unfolding t_def ob_def by (rule latch_after_write_back)
  show "fst (apply_observation ob s) = (\<not> at_usage_limit_latched s \<and> at_usage_limit_latched t)"
    using latch newly_latched_iff by auto
  assume fell: "at_usage_limit_latched s \<and> \<not> at_usage_limit_latched t"
  then have stale: "stale_recheck s"
    using latch unscoped_keeps_latch unfolding ob_def by blast
  then show "\<not> capacity_check_pending s" "fresh_output_since_origin s"
    by (simp_all add: stale_recheck_def)
  have "origin_update ob = Some (output_lines_seen s, scan_bytes_seen s)"
    using stale by (simp add: ob_def observe_with_def Let_def split: prod.split)
  then show "resume_scan_origin t = Some (output_lines_seen s, scan_bytes_seen s)"
    by (simp add: t_def apply_observation_def Let_def)
qed

theorem latch_follows_observation_witness:
  "let s = record_output 1 9 (accepted_input (pending False\<lparr>at_usage_limit_latched := True\<rparr>));
       ob = observe_with 1 ''all clear'' (\<lambda>_ _. (False, None)) s in
   at_usage_limit_latched s \<and> \<not> at_usage_limit_latched (snd (apply_observation ob s)) \<and>
   fresh_output_since_origin s \<and>
   resume_scan_origin (snd (apply_observation ob s)) = Some (1, 9)"
  using latch_follows_observation [of 1 "''all clear''" "\<lambda>_ _. (False, None)"
      "record_output 1 9 (accepted_input (pending False\<lparr>at_usage_limit_latched := True\<rparr>))"]
  by (simp add: capacity_eval scoped_range_def)

text \<open>
  The pending check after a resume is shown once and then gone for good. With a check pending
  and not yet shown, the first advance that sees fresh output keeps the field true and withdraws it
  from rendering, the next advance clears it whatever it sees, and after that no sequence of
  operations makes an advance report anything.
\<close>

theorem pending_check_shown_once:
  assumes "capacity_check_pending s" and "\<not> pending_capacity_visible_once s"
  shows "rendered_check_pending s = Some True \<and>
    (\<exists>s1 s2. advance_pending_visibility False s = (Some (Some True), s) \<and>
       advance_pending_visibility True s = (Some (Some True), s1) \<and>
       rendered_check_pending s1 = None \<and>
       (\<forall>f. advance_pending_visibility f s1 = (Some None, s2)) \<and>
       (\<forall>is f. advance_pending_visibility f (fold cap_next is s2) = (None, fold cap_next is s2)))"
proof -
  define s1 where "s1 = snd (advance_pending_visibility True s)"
  define s2 where "s2 = snd (advance_pending_visibility True s1)"
  have fst_step: "advance_pending_visibility True s = (Some (Some True), s1)"
    and second: "\<And>f. advance_pending_visibility f s1 = (Some None, s2)"
    and hidden: "rendered_check_pending s1 = None" and gone: "\<not> capacity_check_pending s2"
    using assms by (simp_all add: s1_def s2_def advance_pending_visibility_def rendered_check_pending_def)
  have "advance_pending_visibility f (fold cap_next is s2) = (None, fold cap_next is s2)" for f "is"
    using pending_not_restored_run [OF gone] by (simp add: advance_pending_visibility_def)
  moreover have "advance_pending_visibility False s = (Some (Some True), s)"
    "rendered_check_pending s = Some True"
    using assms by (simp_all add: advance_pending_visibility_def rendered_check_pending_def)
  ultimately show ?thesis using fst_step second hidden by blast
qed

theorem pending_check_shown_once_witness:
  "rendered_check_pending (pending True) = Some True \<and>
   (\<exists>s1 s2. advance_pending_visibility True (pending True) = (Some (Some True), s1) \<and>
      advance_pending_visibility False s1 = (Some None, s2))"
  using pending_check_shown_once [of "pending True"]
  by (fastforce simp: pending_def default_capacity_def)

end
