(* ===== verification/Prompt_Authority.thy ===== *)
theory Prompt_Authority
  imports Prelude
begin

text \<open>
  The process-local prompt authority of \<^verbatim>\<open>crates/orkworksd/src/runtime/prompt_authority.rs\<close>: one entry
  per session that ties a launched harness to the native session id prompts may be sent to, and the
  reset protocol (reserve, candidate, acknowledge, complete or cancel) that is the only way to move
  a bound id. Timestamps are integers; the identity of an \<open>Arc\<close> is the number of its allocation,
  drawn from a counter of the registry. Each operation runs under the registry mutex, so the
  operations are atomic steps.
\<close>

section \<open>Data\<close>

type_synonym datetime = int

datatype bind_result = Bound | Unchanged | Held | Rejected

record queued_wait =
  notification_type :: string
  observed_at :: "datetime option"
  receipt_sequence :: u64
  committed_input_sequence :: u64
  cwd :: "string option"

text \<open>
  A reservation nests the one it supersedes, so its other fields form a record and the nesting is a
  datatype around it.
\<close>

record reset_fields =
  acknowledged :: bool
  epoch_committed :: bool
  prompt_tuple_clear_applied :: bool
  candidate_native_session_id :: "string option"
  retired_native_session_id :: "string option"
  reset_submission_input_sequence :: "u64 option"
  created_at :: datetime
  queued_prompt_wait :: "queued_wait option"

datatype reset_reservation =
  ResetReservation (details: reset_fields) (superseded: "reset_reservation option")

record reset_commit =
  commit_native_session_id :: "string option"
  commit_queued_prompt_wait :: "queued_wait option"
  commit_reset_submission_input_sequence :: "u64 option"

record session_authority =
  authority_instance :: nat
  harness_id :: string
  generation :: string
  native_session_id :: "string option"
  revoked :: bool
  active :: bool
  epoch :: u64
  reset :: "reset_reservation option"
  reset_retry_scheduled :: bool
  reset_retry_requested :: bool

record authority_snapshot =
  snap_instance :: nat
  snap_epoch :: u64
  snap_native_session_id :: "string option"
  snap_revoked :: bool
  snap_active :: bool
  snap_reset_pending :: bool

record registry =
  sessions :: "string \<rightharpoonup> session_authority"
  allocations :: nat

definition superseded_by_committed_input :: "queued_wait \<Rightarrow> u64 \<Rightarrow> u64 option \<Rightarrow> bool" where
  "superseded_by_committed_input q current_sequence reset_sequence =
     (if current_sequence = committed_input_sequence q then False
      else \<not> is_some_and (\<lambda>r. r = current_sequence \<and>
                checked_add (committed_input_sequence q) 1 = Some r) reset_sequence)"

definition empty_registry :: registry where
  "empty_registry = \<lparr>sessions = Map.empty, allocations = 0\<rparr>"

abbreviation candidate :: "reset_reservation \<Rightarrow> string option" where
  "candidate r \<equiv> candidate_native_session_id (details r)"

abbreviation retired :: "reset_reservation \<Rightarrow> string option" where
  "retired r \<equiv> retired_native_session_id (details r)"

abbreviation acked :: "reset_reservation \<Rightarrow> bool" where
  "acked r \<equiv> acknowledged (details r)"

abbreviation committed :: "reset_reservation \<Rightarrow> bool" where
  "committed r \<equiv> epoch_committed (details r)"

abbreviation queued :: "reset_reservation \<Rightarrow> queued_wait option" where
  "queued r \<equiv> queued_prompt_wait (details r)"

definition edit :: "(reset_fields \<Rightarrow> reset_fields) \<Rightarrow> reset_reservation \<Rightarrow> reset_reservation" where
  "edit f r = ResetReservation (f (details r)) (superseded r)"

lemma edit_sel [simp]: "details (edit f r) = f (details r)" "superseded (edit f r) = superseded r"
  by (simp_all add: edit_def)

section \<open>Operations on one entry\<close>

definition entry_commit_pending :: "session_authority \<Rightarrow> reset_reservation \<Rightarrow> bool" where
  "entry_commit_pending e r \<longleftrightarrow> acked r \<and>
     (\<not> committed r \<or> queued r \<noteq> None \<or>
      is_some_and (\<lambda>c. native_session_id e \<noteq> Some c) (candidate r))"

text \<open>Copilot reports when it observed an id; one not newer than the reservation is stale.\<close>

definition stale_copilot :: "session_authority \<Rightarrow> datetime option \<Rightarrow> reset_reservation \<Rightarrow> bool" where
  "stale_copilot e obs r \<longleftrightarrow> harness_id e = ''copilot'' \<and> is_none_or (\<lambda>t. t \<le> created_at (details r)) obs"

definition set_candidate :: "string \<Rightarrow> reset_reservation \<Rightarrow> session_authority \<Rightarrow> session_authority" where
  "set_candidate n r e = e\<lparr>reset := Some (edit (\<lambda>f. f\<lparr>candidate_native_session_id := Some n\<rparr>) r)\<rparr>"

definition bind_unbound ::
  "string \<Rightarrow> bool \<Rightarrow> datetime option \<Rightarrow> session_authority \<Rightarrow> bind_result \<times> session_authority" where
  "bind_unbound n lifecycle obs e =
     (case reset e of
        None \<Rightarrow> (Bound, e\<lparr>native_session_id := Some n\<rparr>)
      | Some r \<Rightarrow>
          if retired r = Some n then (Rejected, e)
          else if candidate r = Some n then (Held, e)
          else if \<not> lifecycle \<or> stale_copilot e obs r then (Rejected, e)
          else (case candidate r of
                  Some c \<Rightarrow> if c \<noteq> n then (Rejected, e) else (Held, set_candidate n r e)
                | None \<Rightarrow> (Held, set_candidate n r e)))"

definition bind_bound ::
  "string \<Rightarrow> string \<Rightarrow> bool \<Rightarrow> datetime option \<Rightarrow> session_authority \<Rightarrow>
   bind_result \<times> session_authority" where
  "bind_bound current n lifecycle obs e =
     (if current = n \<and> reset e = None then (Unchanged, e)
      else if current = n \<and> is_some_and (\<lambda>r. committed r \<and> candidate r = Some n) (reset e)
      then (Unchanged, e)
      else if current = n then
        (if is_some_and (\<lambda>r. \<not> acked r \<and> candidate r = Some n) (reset e) then (Held, e)
         else (Rejected, e))
      else if is_some_and (\<lambda>r. candidate r = Some n) (reset e) then (Held, e)
      else if lifecycle then
        (case reset e of
           None \<Rightarrow> (Rejected, e)
         | Some r \<Rightarrow>
             if stale_copilot e obs r then (Rejected, e)
             else (case candidate r of
                     Some c \<Rightarrow> if c \<noteq> n then (Rejected, e) else (Held, e)
                   | None \<Rightarrow> (Held, set_candidate n r e)))
      else (Rejected, e))"

definition register_entry ::
  "string \<Rightarrow> string \<Rightarrow> string \<Rightarrow> bool \<Rightarrow> datetime option \<Rightarrow> session_authority \<Rightarrow>
   bind_result \<times> session_authority" where
  "register_entry h g n lifecycle obs e =
     (if revoked e \<or> harness_id e \<noteq> h \<or> generation e \<noteq> g \<or> n = [] then (Rejected, e)
      else case native_session_id e of
             None \<Rightarrow> bind_unbound n lifecycle obs e
           | Some current \<Rightarrow> bind_bound current n lifecycle obs e)"

definition accepted_command :: "string \<Rightarrow> string \<Rightarrow> bool" where
  "accepted_command h command =
     (if h = ''claude-code'' then command = ''/clear''
      else if h = ''copilot'' then command = ''/clear'' \<or> command = ''/new''
      else False)"

definition settled_reset :: "reset_reservation \<Rightarrow> bool" where
  "settled_reset r \<longleftrightarrow> acked r \<and> committed r \<and> candidate r = None"

definition new_reservation :: "datetime \<Rightarrow> string option \<Rightarrow> reset_reservation option \<Rightarrow> reset_reservation" where
  "new_reservation now retired_id previous =
     ResetReservation
       \<lparr>acknowledged = False, epoch_committed = False, prompt_tuple_clear_applied = False,
        candidate_native_session_id = None, retired_native_session_id = retired_id,
        reset_submission_input_sequence = None, created_at = now, queued_prompt_wait = None\<rparr>
       previous"

definition reserve_entry ::
  "datetime \<Rightarrow> string \<Rightarrow> string \<Rightarrow> session_authority \<Rightarrow> bool \<times> session_authority" where
  "reserve_entry now h command e =
     (let old = opt_filter settled_reset (reset e) in
      if revoked e \<or> harness_id e \<noteq> h \<or> (native_session_id e = None \<and> old = None) \<or>
         \<not> accepted_command h command \<or> is_some_and (\<lambda>r. \<not> settled_reset r) (reset e)
      then (False, e)
      else (True, e\<lparr>reset := Some (new_reservation now
              (opt_or (native_session_id e) (Option.bind old retired))
              (map_option (\<lambda>r. ResetReservation (details r) None) old))\<rparr>))"

definition acknowledge_entry :: "session_authority \<Rightarrow> string option option \<times> session_authority" where
  "acknowledge_entry e =
     (if revoked e then (None, e)
      else case reset e of
             None \<Rightarrow> (None, e)
           | Some r \<Rightarrow> (Some (candidate r),
                        e\<lparr>reset := Some (edit (\<lambda>f. f\<lparr>acknowledged := True\<rparr>) r)\<rparr>))"

definition commit_of ::
  "string option \<Rightarrow> queued_wait option \<Rightarrow> reset_reservation \<Rightarrow> reset_commit" where
  "commit_of n q r =
     \<lparr>commit_native_session_id = n, commit_queued_prompt_wait = q,
      commit_reset_submission_input_sequence = reset_submission_input_sequence (details r)\<rparr>"

definition mark_committed :: "reset_reservation \<Rightarrow> reset_reservation" where
  "mark_committed = edit (\<lambda>f. f\<lparr>epoch_committed := True\<rparr>)"

definition complete_entry :: "session_authority \<Rightarrow> reset_commit option \<times> session_authority" where
  "complete_entry e =
     (case reset e of
        None \<Rightarrow> (None, e)
      | Some r \<Rightarrow>
          if \<not> acked r then (None, e)
          else (case candidate r of
            None \<Rightarrow>
              (if committed r then (Some (commit_of None None r), e)
               else (Some (commit_of None None r),
                     e\<lparr>reset := Some (mark_committed r), epoch := saturating_add (epoch e) 1,
                       native_session_id := None, active := False\<rparr>))
          | Some c \<Rightarrow>
              (Some (commit_of (Some c) (queued r) r),
               e\<lparr>native_session_id := Some c,
                 epoch := (if committed r then epoch e else saturating_add (epoch e) 1),
                 reset := (if queued r = None then None else Some (mark_committed r)),
                 active := False\<rparr>)))"

definition mark_clear_applied_entry :: "session_authority \<Rightarrow> bool \<times> session_authority" where
  "mark_clear_applied_entry e =
     (case reset e of
        None \<Rightarrow> (False, e)
      | Some r \<Rightarrow> if \<not> acked r then (False, e)
                 else (True, e\<lparr>reset := Some (edit (\<lambda>f. f\<lparr>prompt_tuple_clear_applied := True\<rparr>) r)\<rparr>))"

definition note_sequence_entry :: "u64 \<Rightarrow> session_authority \<Rightarrow> unit \<times> session_authority" where
  "note_sequence_entry n e =
     ((), e\<lparr>reset := map_option (edit (\<lambda>f. f\<lparr>reset_submission_input_sequence := Some n\<rparr>)) (reset e)\<rparr>)"

definition deactivate_entry :: "session_authority \<Rightarrow> unit \<times> session_authority" where
  "deactivate_entry e = ((), if \<not> revoked e \<and> reset e \<noteq> None then e\<lparr>active := False\<rparr> else e)"

definition finish_queued_entry :: "u64 \<Rightarrow> session_authority \<Rightarrow> bool \<times> session_authority" where
  "finish_queued_entry n e =
     (case reset e of
        None \<Rightarrow> (False, e)
      | Some r \<Rightarrow>
          if \<not> committed r \<or> \<not> is_some_and (\<lambda>q. receipt_sequence q = n) (queued r) then (False, e)
          else (True, e\<lparr>reset := None\<rparr>))"

text \<open>A newer observation replaces a queued one; the receipt order decides ties.\<close>

definition queue_accepts :: "datetime option \<Rightarrow> u64 \<Rightarrow> queued_wait \<Rightarrow> bool" where
  "queue_accepts obs n previous =
     (case (observed_at previous, obs) of
        (Some p, Some c) \<Rightarrow> c > p \<or> (c = p \<and> n > receipt_sequence previous)
      | (None, None) \<Rightarrow> n > receipt_sequence previous
      | _ \<Rightarrow> False)"

definition queue_entry ::
  "string \<Rightarrow> string \<Rightarrow> string \<Rightarrow> string \<Rightarrow> datetime option \<Rightarrow> u64 \<Rightarrow> u64 \<Rightarrow> string option \<Rightarrow>
   session_authority \<Rightarrow> bool \<times> session_authority" where
  "queue_entry h g n kind obs rseq cseq dir e =
     (if revoked e \<or> harness_id e \<noteq> h \<or> generation e \<noteq> g then (False, e)
      else case reset e of
        None \<Rightarrow> (False, e)
      | Some r \<Rightarrow>
          if candidate r \<noteq> Some n then (False, e)
          else if is_some_and (\<lambda>p. \<not> queue_accepts obs rseq p) (queued r) then (False, e)
          else (True, e\<lparr>reset := Some (edit (\<lambda>f. f\<lparr>queued_prompt_wait := Some
                 \<lparr>notification_type = kind, observed_at = obs, receipt_sequence = rseq,
                  committed_input_sequence = cseq, cwd = opt_filter (\<lambda>d. d \<noteq> []) dir\<rparr>\<rparr>) r)\<rparr>))"

definition cancel_entry :: "session_authority \<Rightarrow> unit \<times> session_authority" where
  "cancel_entry e = ((), e\<lparr>reset := Option.bind (reset e) superseded\<rparr>)"

definition activate_entry :: "string \<Rightarrow> string \<Rightarrow> string \<Rightarrow> session_authority \<Rightarrow> bool \<times> session_authority" where
  "activate_entry h g n e =
     (if revoked e \<or> harness_id e \<noteq> h \<or> generation e \<noteq> g \<or> native_session_id e \<noteq> Some n then (False, e)
      else (True, e\<lparr>active := True\<rparr>))"

definition entry_pending :: "session_authority \<Rightarrow> bool" where
  "entry_pending e \<longleftrightarrow> is_some_and (entry_commit_pending e) (reset e)"

definition schedule_entry :: "session_authority \<Rightarrow> bool \<times> session_authority" where
  "schedule_entry e =
     (if \<not> entry_pending e then (False, e)
      else if reset_retry_scheduled e then (False, e\<lparr>reset_retry_requested := True\<rparr>)
      else (True, e\<lparr>reset_retry_scheduled := True\<rparr>))"

definition finish_retry_entry :: "session_authority \<Rightarrow> bool \<times> session_authority" where
  "finish_retry_entry e =
     (if entry_pending e \<and> reset_retry_requested e then (True, e\<lparr>reset_retry_requested := False\<rparr>)
      else (False, e\<lparr>reset_retry_scheduled := False, reset_retry_requested := False\<rparr>))"

definition revoke_entry :: "string \<Rightarrow> session_authority \<Rightarrow> unit \<times> session_authority" where
  "revoke_entry g e =
     ((), if generation e = g then e\<lparr>revoked := True, active := False, reset := None\<rparr> else e)"

section \<open>Operations of the registry\<close>

definition issue_with_native_id :: "string \<Rightarrow> string \<Rightarrow> string \<Rightarrow> string option \<Rightarrow> registry \<Rightarrow> registry" where
  "issue_with_native_id sid h g n reg =
     \<lparr>sessions = (sessions reg)(sid \<mapsto>
        \<lparr>authority_instance = allocations reg, harness_id = h, generation = g, native_session_id = n,
         revoked = False, active = False, epoch = 0, reset = None,
         reset_retry_scheduled = False, reset_retry_requested = False\<rparr>),
      allocations = Suc (allocations reg)\<rparr>"

text \<open>\<open>get_mut\<close> on the session map: an absent session gives the default result.\<close>

definition on_entry ::
  "'r \<Rightarrow> (session_authority \<Rightarrow> 'r \<times> session_authority) \<Rightarrow> string \<Rightarrow> registry \<Rightarrow> 'r \<times> registry" where
  "on_entry absent f sid reg =
     (case sessions reg sid of
        None \<Rightarrow> (absent, reg)
      | Some e \<Rightarrow> (fst (f e), reg\<lparr>sessions := (sessions reg)(sid \<mapsto> snd (f e))\<rparr>))"

definition register_native_id where
  "register_native_id sid h g n lifecycle obs = on_entry Rejected (register_entry h g n lifecycle obs) sid"

definition reserve_reset where
  "reserve_reset now sid h command = on_entry False (reserve_entry now h command) sid"

definition acknowledge_reset where
  "acknowledge_reset = on_entry None acknowledge_entry"

definition complete_reset where
  "complete_reset = on_entry None complete_entry"

definition mark_reset_prompt_tuple_clear_applied where
  "mark_reset_prompt_tuple_clear_applied = on_entry False mark_clear_applied_entry"

definition note_reset_submission_input_sequence where
  "note_reset_submission_input_sequence sid n = on_entry () (note_sequence_entry n) sid"

definition deactivate_for_reset where
  "deactivate_for_reset = on_entry () deactivate_entry"

definition finish_queued_prompt_wait where
  "finish_queued_prompt_wait sid n = on_entry False (finish_queued_entry n) sid"

definition queue_prompt_wait where
  "queue_prompt_wait sid h g n kind obs rseq cseq dir =
     on_entry False (queue_entry h g n kind obs rseq cseq dir) sid"

definition cancel_reset where
  "cancel_reset = on_entry () cancel_entry"

definition activate where
  "activate sid h g n = on_entry False (activate_entry h g n) sid"

definition schedule_reset_retry where
  "schedule_reset_retry = on_entry False schedule_entry"

definition finish_reset_retry where
  "finish_reset_retry = on_entry False finish_retry_entry"

definition revoke where
  "revoke sid g = on_entry () (revoke_entry g) sid"

definition remove :: "string \<Rightarrow> registry \<Rightarrow> registry" where
  "remove sid reg = reg\<lparr>sessions := (sessions reg)(sid := None)\<rparr>"

definition remove_if_generation :: "string \<Rightarrow> string \<Rightarrow> registry \<Rightarrow> registry" where
  "remove_if_generation sid g reg =
     (if is_some_and (\<lambda>e. generation e = g) (sessions reg sid) then remove sid reg else reg)"

section \<open>Queries\<close>

definition generation_matches :: "string \<Rightarrow> string \<Rightarrow> string \<Rightarrow> registry \<Rightarrow> bool" where
  "generation_matches sid h g reg =
     is_some_and (\<lambda>e. \<not> revoked e \<and> harness_id e = h \<and> generation e = g) (sessions reg sid)"

definition generation_for_launch :: "string \<Rightarrow> registry \<Rightarrow> (string \<times> string) option" where
  "generation_for_launch sid reg =
     Option.bind (sessions reg sid)
       (\<lambda>e. if \<not> revoked e then Some (harness_id e, generation e) else None)"

definition reset_prompt_tuple_clear_applied :: "string \<Rightarrow> registry \<Rightarrow> bool" where
  "reset_prompt_tuple_clear_applied sid reg =
     is_some_and (\<lambda>r. prompt_tuple_clear_applied (details r)) (Option.bind (sessions reg sid) reset)"

definition reset_acknowledged :: "string \<Rightarrow> registry \<Rightarrow> bool" where
  "reset_acknowledged sid reg = is_some_and (\<lambda>e. is_some_and acked (reset e)) (sessions reg sid)"

definition acknowledged_candidate_matches :: "string \<Rightarrow> string \<Rightarrow> string \<Rightarrow> string \<Rightarrow> registry \<Rightarrow> bool" where
  "acknowledged_candidate_matches sid h g n reg =
     is_some_and (\<lambda>e. \<not> revoked e \<and> harness_id e = h \<and> generation e = g \<and>
        is_some_and (\<lambda>r. acked r \<and> candidate r = Some n) (reset e)) (sessions reg sid)"

definition native_id_matches :: "string \<Rightarrow> string \<Rightarrow> string \<Rightarrow> string \<Rightarrow> registry \<Rightarrow> bool" where
  "native_id_matches sid h g n reg =
     is_some_and (\<lambda>e. \<not> revoked e \<and> harness_id e = h \<and> generation e = g \<and>
        (reset e = None \<or> is_some_and (\<lambda>r. committed r \<and> candidate r = Some n) (reset e)) \<and>
        native_session_id e = Some n) (sessions reg sid)"

definition snapshot :: "string \<Rightarrow> registry \<Rightarrow> authority_snapshot option" where
  "snapshot sid reg =
     map_option (\<lambda>e. \<lparr>snap_instance = authority_instance e, snap_epoch = epoch e,
        snap_native_session_id = native_session_id e, snap_revoked = revoked e,
        snap_active = active e, snap_reset_pending = (reset e \<noteq> None)\<rparr>) (sessions reg sid)"

definition with_snapshot :: "string \<Rightarrow> (authority_snapshot option \<Rightarrow> 'a) \<Rightarrow> registry \<Rightarrow> 'a" where
  "with_snapshot sid app reg = app (snapshot sid reg)"

definition is_active :: "string \<Rightarrow> registry \<Rightarrow> bool" where
  "is_active sid reg = is_some_and (\<lambda>e. active e \<and> \<not> revoked e) (sessions reg sid)"

definition identity_reset_pending :: "string \<Rightarrow> registry \<Rightarrow> bool" where
  "identity_reset_pending sid reg = is_some_and (\<lambda>e. reset e \<noteq> None) (sessions reg sid)"

definition reset_commit_pending :: "string \<Rightarrow> registry \<Rightarrow> bool" where
  "reset_commit_pending sid reg = is_some_and entry_pending (sessions reg sid)"

section \<open>The registry as a machine\<close>

datatype entry_op =
    Register string string string bool "datetime option"
  | Reserve datetime string string
  | Acknowledge
  | Complete
  | MarkClearApplied
  | NoteSequence u64
  | Deactivate
  | FinishQueued u64
  | QueueWait string string string string "datetime option" u64 u64 "string option"
  | Cancel
  | Activate string string string
  | ScheduleRetry
  | FinishRetry
  | Revoke string

datatype auth_op =
    Issue string string string "string option"
  | On string entry_op
  | Remove string
  | RemoveIfGeneration string string

fun entry_next :: "entry_op \<Rightarrow> session_authority \<Rightarrow> session_authority" where
  "entry_next (Register h g n l obs) e = snd (register_entry h g n l obs e)"
| "entry_next (Reserve now h c) e = snd (reserve_entry now h c e)"
| "entry_next Acknowledge e = snd (acknowledge_entry e)"
| "entry_next Complete e = snd (complete_entry e)"
| "entry_next MarkClearApplied e = snd (mark_clear_applied_entry e)"
| "entry_next (NoteSequence n) e = snd (note_sequence_entry n e)"
| "entry_next Deactivate e = snd (deactivate_entry e)"
| "entry_next (FinishQueued n) e = snd (finish_queued_entry n e)"
| "entry_next (QueueWait h g n k obs r c d) e = snd (queue_entry h g n k obs r c d e)"
| "entry_next Cancel e = snd (cancel_entry e)"
| "entry_next (Activate h g n) e = snd (activate_entry h g n e)"
| "entry_next ScheduleRetry e = snd (schedule_entry e)"
| "entry_next FinishRetry e = snd (finish_retry_entry e)"
| "entry_next (Revoke g) e = snd (revoke_entry g e)"

fun on_session :: "entry_op \<Rightarrow> string \<Rightarrow> registry \<Rightarrow> registry" where
  "on_session (Register h g n l obs) sid reg = snd (register_native_id sid h g n l obs reg)"
| "on_session (Reserve now h c) sid reg = snd (reserve_reset now sid h c reg)"
| "on_session Acknowledge sid reg = snd (acknowledge_reset sid reg)"
| "on_session Complete sid reg = snd (complete_reset sid reg)"
| "on_session MarkClearApplied sid reg = snd (mark_reset_prompt_tuple_clear_applied sid reg)"
| "on_session (NoteSequence n) sid reg = snd (note_reset_submission_input_sequence sid n reg)"
| "on_session Deactivate sid reg = snd (deactivate_for_reset sid reg)"
| "on_session (FinishQueued n) sid reg = snd (finish_queued_prompt_wait sid n reg)"
| "on_session (QueueWait h g n k obs r c d) sid reg = snd (queue_prompt_wait sid h g n k obs r c d reg)"
| "on_session Cancel sid reg = snd (cancel_reset sid reg)"
| "on_session (Activate h g n) sid reg = snd (activate sid h g n reg)"
| "on_session ScheduleRetry sid reg = snd (schedule_reset_retry sid reg)"
| "on_session FinishRetry sid reg = snd (finish_reset_retry sid reg)"
| "on_session (Revoke g) sid reg = snd (revoke sid g reg)"

fun auth_next :: "auth_op \<Rightarrow> registry \<Rightarrow> registry" where
  "auth_next (Issue sid h g n) reg = issue_with_native_id sid h g n reg"
| "auth_next (On sid eop) reg = on_session eop sid reg"
| "auth_next (Remove sid) reg = remove sid reg"
| "auth_next (RemoveIfGeneration sid g) reg = remove_if_generation sid g reg"

lemmas registry_ops = register_native_id_def reserve_reset_def acknowledge_reset_def
  complete_reset_def mark_reset_prompt_tuple_clear_applied_def
  note_reset_submission_input_sequence_def deactivate_for_reset_def finish_queued_prompt_wait_def
  queue_prompt_wait_def cancel_reset_def activate_def schedule_reset_retry_def
  finish_reset_retry_def revoke_def

lemmas entry_ops = register_entry_def bind_unbound_def bind_bound_def set_candidate_def
  reserve_entry_def acknowledge_entry_def complete_entry_def mark_clear_applied_entry_def
  note_sequence_entry_def deactivate_entry_def finish_queued_entry_def queue_entry_def
  cancel_entry_def activate_entry_def schedule_entry_def finish_retry_entry_def revoke_entry_def

lemma snd_on_entry:
  "snd (on_entry a f sid reg) =
   (case sessions reg sid of None \<Rightarrow> reg
    | Some e \<Rightarrow> reg\<lparr>sessions := (sessions reg)(sid \<mapsto> snd (f e))\<rparr>)"
  by (simp add: on_entry_def split: option.split)

lemma on_session_entry:
  "on_session eop sid reg =
   (case sessions reg sid of None \<Rightarrow> reg
    | Some e \<Rightarrow> reg\<lparr>sessions := (sessions reg)(sid \<mapsto> entry_next eop e)\<rparr>)"
  by (cases eop; cases "sessions reg sid") (simp_all add: registry_ops snd_on_entry)

lemma sessions_on_session:
  "sessions (on_session eop sid reg) x =
   (if x = sid then map_option (entry_next eop) (sessions reg sid) else sessions reg x)"
  by (simp add: on_session_entry split: option.split)

lemma allocations_on_session [simp]: "allocations (on_session eop sid reg) = allocations reg"
  by (simp add: on_session_entry split: option.split)

section \<open>Invariants\<close>

text \<open>
  A reservation is well formed when a committed epoch was acknowledged, a queued wait belongs to a
  candidate, a candidate is a proper id, and what it supersedes is settled and supersedes nothing.
\<close>

definition reset_wf :: "reset_reservation \<Rightarrow> bool" where
  "reset_wf r \<longleftrightarrow> (committed r \<longrightarrow> acked r) \<and> (queued r \<noteq> None \<longrightarrow> candidate r \<noteq> None) \<and>
     candidate r \<noteq> Some [] \<and>
     (\<forall>old. superseded r = Some old \<longrightarrow> settled_reset old \<and> superseded old = None \<and> queued old = None)"

definition entry_wf :: "session_authority \<Rightarrow> bool" where
  "entry_wf e \<longleftrightarrow> (revoked e \<longrightarrow> \<not> active e \<and> reset e = None) \<and>
     (active e \<longrightarrow> native_session_id e \<noteq> None) \<and>
     (reset_retry_requested e \<longrightarrow> reset_retry_scheduled e) \<and>
     (\<forall>r. reset e = Some r \<longrightarrow> reset_wf r)"

definition registry_wf :: "registry \<Rightarrow> bool" where
  "registry_wf reg \<longleftrightarrow>
     (\<forall>sid e. sessions reg sid = Some e \<longrightarrow> entry_wf e \<and> authority_instance e < allocations reg) \<and>
     (\<forall>s1 s2 e1 e2. sessions reg s1 = Some e1 \<longrightarrow> sessions reg s2 = Some e2 \<longrightarrow>
        authority_instance e1 = authority_instance e2 \<longrightarrow> s1 = s2)"

lemma entry_wf_reset: "entry_wf e \<Longrightarrow> reset e = Some r \<Longrightarrow> reset_wf r"
  by (simp add: entry_wf_def)

lemma reset_wf_edit:
  assumes "reset_wf r" and "details (edit f r) = d" and "epoch_committed d \<longrightarrow> acknowledged d"
    and "queued_prompt_wait d \<noteq> None \<longrightarrow> candidate_native_session_id d \<noteq> None"
    and "candidate_native_session_id d \<noteq> Some []"
  shows "reset_wf (edit f r)"
  using assms by (auto simp: reset_wf_def)

lemma reset_wf_new: "(\<forall>old. p = Some old \<longrightarrow> settled_reset old \<and> superseded old = None \<and> queued old = None) \<Longrightarrow>
    reset_wf (new_reservation now n p)"
  by (simp add: reset_wf_def new_reservation_def)

lemma wf_set_candidate:
  assumes "entry_wf e" and "reset e = Some r" and "n \<noteq> []"
  shows "entry_wf (set_candidate n r e)"
proof -
  have "reset_wf (edit (\<lambda>f. f\<lparr>candidate_native_session_id := Some n\<rparr>) r)"
    using entry_wf_reset [OF assms(1,2)] assms(3) by (auto simp: reset_wf_def)
  then show ?thesis using assms(1,2) by (simp add: set_candidate_def entry_wf_def)
qed

text \<open>What registration can do to an entry: nothing, bind an unbound id, or hold a candidate.\<close>

lemma register_cases:
  obtains (same) "snd (register_entry h g n l obs e) = e"
  | (bind) "native_session_id e = None" "reset e = None" "n \<noteq> []" "\<not> revoked e"
      "snd (register_entry h g n l obs e) = e\<lparr>native_session_id := Some n\<rparr>"
  | (hold) r where "reset e = Some r" "n \<noteq> []" "l" "\<not> revoked e" "\<not> stale_copilot e obs r"
      "candidate r = None" "native_session_id e \<noteq> Some n"
      "native_session_id e = None \<longrightarrow> retired r \<noteq> Some n"
      "snd (register_entry h g n l obs e) = set_candidate n r e"
proof (cases "revoked e \<or> harness_id e \<noteq> h \<or> generation e \<noteq> g \<or> n = []")
  case True
  then show ?thesis using same by (simp add: register_entry_def)
next
  case guard: False
  show ?thesis
  proof (cases "native_session_id e")
    case None
    show ?thesis
    proof (cases "reset e")
      case r: None
      then show ?thesis using guard bind None by (simp add: register_entry_def bind_unbound_def)
    next
      case r: (Some r)
      show ?thesis
      proof (cases "retired r \<noteq> Some n \<and> candidate r = None \<and> l \<and> \<not> stale_copilot e obs r")
        case True
        then show ?thesis using guard hold None r by (simp add: register_entry_def bind_unbound_def)
      next
        case False
        then show ?thesis using guard same None r
          by (cases "candidate r") (auto simp: register_entry_def bind_unbound_def)
      qed
    qed
  next
    case (Some current)
    show ?thesis
    proof (cases "reset e")
      case None
      then show ?thesis using guard same Some by (simp add: register_entry_def bind_bound_def)
    next
      case r: (Some r)
      show ?thesis
      proof (cases "current \<noteq> n \<and> candidate r = None \<and> l \<and> \<not> stale_copilot e obs r")
        case True
        then show ?thesis using guard hold Some r by (simp add: register_entry_def bind_bound_def)
      next
        case False
        then show ?thesis using guard same Some r
          by (cases "candidate r") (auto simp: register_entry_def bind_bound_def)
      qed
    qed
  qed
qed

lemma wf_register: "entry_wf e \<Longrightarrow> entry_wf (snd (register_entry h g n l obs e))"
  by (rule register_cases [of h g n l obs e]) (simp_all add: wf_set_candidate, simp add: entry_wf_def)

lemma wf_reserve: "entry_wf e \<Longrightarrow> entry_wf (snd (reserve_entry now h c e))"
  by (auto simp: reserve_entry_def entry_wf_def Let_def reset_wf_def new_reservation_def
      settled_reset_def opt_filter_Some_iff)

lemma wf_acknowledge: "entry_wf e \<Longrightarrow> entry_wf (snd (acknowledge_entry e))"
  by (auto simp: acknowledge_entry_def entry_wf_def reset_wf_def split: option.split)

lemma wf_complete: "entry_wf e \<Longrightarrow> entry_wf (snd (complete_entry e))"
  by (auto simp: complete_entry_def mark_committed_def entry_wf_def reset_wf_def split: option.split)

lemma wf_queue: "entry_wf e \<Longrightarrow> entry_wf (snd (queue_entry h g n k obs r c d e))"
  by (auto simp: queue_entry_def entry_wf_def reset_wf_def split: option.split)

lemma wf_cancel: "entry_wf e \<Longrightarrow> entry_wf (snd (cancel_entry e))"
  by (auto simp: cancel_entry_def entry_wf_def reset_wf_def settled_reset_def bind_eq_Some_conv)

lemma wf_small:
  assumes "entry_wf e"
  shows "entry_wf (snd (mark_clear_applied_entry e))" "entry_wf (snd (note_sequence_entry m e))"
    "entry_wf (snd (deactivate_entry e))" "entry_wf (snd (finish_queued_entry m e))"
    "entry_wf (snd (activate_entry h g n e))" "entry_wf (snd (schedule_entry e))"
    "entry_wf (snd (finish_retry_entry e))" "entry_wf (snd (revoke_entry g e))"
  using assms
  by (auto simp: mark_clear_applied_entry_def note_sequence_entry_def deactivate_entry_def
      finish_queued_entry_def activate_entry_def schedule_entry_def finish_retry_entry_def
      revoke_entry_def entry_wf_def reset_wf_def split: option.split)

lemma wf_entry_next: "entry_wf e \<Longrightarrow> entry_wf (entry_next eop e)"
  by (cases eop) (simp_all add: wf_register wf_reserve wf_acknowledge wf_complete wf_queue wf_cancel wf_small)

lemma instance_entry_next [simp]: "authority_instance (entry_next eop e) = authority_instance e"
  by (cases eop) (auto simp: entry_ops Let_def split: option.split)

lemma wf_on_session: "registry_wf reg \<Longrightarrow> registry_wf (on_session eop sid reg)"
  by (auto simp: registry_wf_def sessions_on_session wf_entry_next split: if_splits)

lemma wf_issue: "registry_wf reg \<Longrightarrow> registry_wf (issue_with_native_id sid h g n reg)"
  by (fastforce simp: registry_wf_def issue_with_native_id_def entry_wf_def split: if_splits)

lemma wf_remove: "registry_wf reg \<Longrightarrow> registry_wf (remove sid reg)"
  by (auto simp: registry_wf_def remove_def split: if_splits)

lemma wf_auth_next: "registry_wf reg \<Longrightarrow> registry_wf (auth_next i reg)"
  by (cases i) (simp_all add: wf_on_session wf_issue wf_remove remove_if_generation_def)

interpretation au: machine "\<lambda>reg. reg = empty_registry" auth_next registry_wf
  by unfold_locales (simp add: empty_registry_def registry_wf_def, rule wf_auth_next)

section \<open>Following one entry through a run\<close>

fun reissues :: "string \<Rightarrow> auth_op \<Rightarrow> bool" where
  "reissues sid (Issue s h g n) = (s = sid)"
| "reissues sid (On s eop) = False"
| "reissues sid (Remove s) = (s = sid)"
| "reissues sid (RemoveIfGeneration s g) = (s = sid)"

lemma sessions_auth_next:
  "\<not> reissues sid i \<Longrightarrow> sessions (auth_next i reg) sid =
   (case i of On s eop \<Rightarrow> if s = sid then map_option (entry_next eop) (sessions reg sid) else sessions reg sid
    | _ \<Rightarrow> sessions reg sid)"
  by (cases i) (auto simp: sessions_on_session issue_with_native_id_def remove_def remove_if_generation_def)

text \<open>The entry of one session, followed over a run that does not issue or remove it.\<close>

lemma entry_run:
  assumes "sessions reg sid = Some e" and "entry_wf e" and "P e"
    and "\<And>i. i \<in> set ops \<Longrightarrow> \<not> reissues sid i"
    and "\<And>eop e. On sid eop \<in> set ops \<Longrightarrow> entry_wf e \<Longrightarrow> P e \<Longrightarrow> P (entry_next eop e)"
  shows "\<exists>e'. sessions (fold auth_next ops reg) sid = Some e' \<and> entry_wf e' \<and> P e'"
  using assms
proof (induction ops arbitrary: reg e)
  case (Cons i ops)
  let ?e = "case i of On s eop \<Rightarrow> if s = sid then entry_next eop e else e | _ \<Rightarrow> e"
  have "sessions (auth_next i reg) sid = Some ?e"
    using Cons.prems(1) sessions_auth_next [OF Cons.prems(4) [of i]]
    by (auto split: auth_op.splits)
  moreover have "entry_wf ?e" using Cons.prems(2) wf_entry_next by (simp split: auth_op.split)
  moreover have "P ?e" using Cons.prems(2,3,5) by (auto split: auth_op.split)
  moreover have "\<not> reissues sid j" if "j \<in> set ops" for j using Cons.prems(4) that by simp
  moreover have "P (entry_next eop e)" if "On sid eop \<in> set ops" "entry_wf e" "P e" for eop e
    using Cons.prems(5) that by simp
  ultimately have "\<exists>e'. sessions (fold auth_next ops (auth_next i reg)) sid = Some e' \<and> entry_wf e' \<and> P e'"
    by (rule Cons.IH)
  then show ?case by simp
qed simp

lemma complete_unacked: "(\<And>r. reset e = Some r \<Longrightarrow> \<not> acked r) \<Longrightarrow> complete_entry e = (None, e)"
  by (cases "reset e") (simp_all add: complete_entry_def)

lemma native_entry_next:
  assumes "native_session_id e = Some n" and "eop \<noteq> Complete"
  shows "native_session_id (entry_next eop e) = Some n"
proof (cases eop)
  case (Register h g m l obs)
  then show ?thesis using assms(1)
    by (cases rule: register_cases [of h g m l obs e]) (simp_all add: set_candidate_def)
next
  case (QueueWait h g m k obs r c d)
  then show ?thesis using assms(1) by (simp add: queue_entry_def split: option.split)
qed (use assms in \<open>simp_all add: entry_ops Let_def split: option.split\<close>)

text \<open>Without a reservation, and with reservations that are never acknowledged, the id is fixed.\<close>

definition unmoved :: "string \<Rightarrow> session_authority \<Rightarrow> bool" where
  "unmoved n e \<longleftrightarrow> native_session_id e = Some n \<and>
     (\<forall>r. reset e = Some r \<longrightarrow> \<not> acked r \<and> superseded r = None)"

lemma unmoved_step:
  assumes "unmoved n e" and "eop \<noteq> Acknowledge"
  shows "unmoved n (entry_next eop e)"
proof (cases "eop = Complete")
  case True
  then show ?thesis using assms(1) by (simp add: complete_unacked unmoved_def)
next
  case False
  have native: "native_session_id (entry_next eop e) = Some n"
    using native_entry_next [OF _ False] assms(1) by (simp add: unmoved_def)
  have res: "\<forall>r. reset e = Some r \<longrightarrow> \<not> acked r \<and> superseded r = None"
    using assms(1) by (simp add: unmoved_def)
  have "\<forall>r. reset (entry_next eop e) = Some r \<longrightarrow> \<not> acked r \<and> superseded r = None"
  proof (cases eop)
    case (Register h g m l obs)
    then show ?thesis using res
      by (cases rule: register_cases [of h g m l obs e]) (simp_all add: set_candidate_def)
  next
    case (Reserve now h c)
    then show ?thesis using res
      by (cases "reset e") (auto simp: reserve_entry_def Let_def new_reservation_def settled_reset_def)
  next
    case (QueueWait h g m k obs r c d)
    then show ?thesis using res by (simp add: queue_entry_def split: option.split)
  qed (use res assms(2) False in \<open>auto simp: entry_ops bind_eq_Some_conv split: option.splits\<close>)
  with native show ?thesis by (simp add: unmoved_def)
qed

lemma no_reserve_step:
  assumes "native_session_id e = Some n \<and> reset e = None" and "\<And>now h c. eop \<noteq> Reserve now h c"
  shows "native_session_id (entry_next eop e) = Some n \<and> reset (entry_next eop e) = None"
proof (cases eop)
  case (Register h g m l obs)
  then show ?thesis using assms(1) by (cases rule: register_cases [of h g m l obs e]) simp_all
qed (use assms in \<open>simp_all add: entry_ops\<close>)

section \<open>Orderly use\<close>

text \<open>
  The session layer cancels a reservation only when submitting the reset command failed, that is
  before the reservation is acknowledged. These are the registries reached under that discipline.
\<close>

inductive orderly :: "registry \<Rightarrow> bool" where
  start: "orderly empty_registry"
| step: "orderly reg \<Longrightarrow> (\<And>sid. i = On sid Cancel \<Longrightarrow> \<not> reset_acknowledged sid reg) \<Longrightarrow>
    orderly (auth_next i reg)"

definition entry_orderly :: "session_authority \<Rightarrow> bool" where
  "entry_orderly e \<longleftrightarrow> (\<forall>r. reset e = Some r \<longrightarrow>
     (\<not> committed r \<longrightarrow> native_session_id e \<noteq> None \<longrightarrow>
        retired r = native_session_id e \<and> superseded r = None) \<and>
     (committed r \<longrightarrow> native_session_id e = None \<or> native_session_id e = candidate r) \<and>
     (candidate r \<noteq> None \<longrightarrow> candidate r \<noteq> retired r))"

lemma orderly_register: "entry_orderly e \<Longrightarrow> entry_orderly (snd (register_entry h g n l obs e))"
proof (cases rule: register_cases [of h g n l obs e])
  case (hold r)
  assume "entry_orderly e"
  then show ?thesis using hold by (cases "native_session_id e") (auto simp: entry_orderly_def set_candidate_def)
qed (simp_all add: entry_orderly_def)

lemma orderly_reserve:
  assumes "entry_orderly e"
  shows "entry_orderly (snd (reserve_entry now h c e))"
proof (cases "reset e")
  case None
  then show ?thesis using assms
    by (auto simp: entry_orderly_def reserve_entry_def Let_def new_reservation_def)
next
  case (Some r)
  then have "settled_reset r \<Longrightarrow> native_session_id e = None"
    using assms by (auto simp: entry_orderly_def settled_reset_def)
  then show ?thesis using assms Some
    by (auto simp: entry_orderly_def reserve_entry_def Let_def new_reservation_def)
qed

lemma orderly_complete: "entry_orderly e \<Longrightarrow> entry_orderly (snd (complete_entry e))"
  by (cases "reset e"; cases "candidate (the (reset e))")
    (auto simp: entry_orderly_def complete_entry_def mark_committed_def)

lemma orderly_cancel:
  assumes "entry_orderly e" and "entry_wf e" and "\<not> is_some_and acked (reset e)"
  shows "entry_orderly (snd (cancel_entry e))"
proof (cases "Option.bind (reset e) superseded")
  case None
  then show ?thesis by (simp add: entry_orderly_def cancel_entry_def)
next
  case (Some old)
  then obtain r where r: "reset e = Some r" "superseded r = Some old"
    by (auto simp: bind_eq_Some_conv)
  then have "settled_reset old" and "\<not> committed r"
    using assms(2,3) entry_wf_reset [OF assms(2)] by (auto simp: reset_wf_def)
  moreover from this have "native_session_id e = None"
    using assms(1) r by (simp add: entry_orderly_def)
  ultimately show ?thesis using Some
    by (simp add: entry_orderly_def cancel_entry_def settled_reset_def)
qed

lemma orderly_frame:
  "reset e' = reset e \<Longrightarrow> native_session_id e' = native_session_id e \<Longrightarrow> entry_orderly e \<Longrightarrow> entry_orderly e'"
  by (simp add: entry_orderly_def)

lemma orderly_no_reset: "reset e = None \<Longrightarrow> entry_orderly e"
  by (simp add: entry_orderly_def)

lemma orderly_acknowledge: "entry_orderly e \<Longrightarrow> entry_orderly (snd (acknowledge_entry e))"
  by (cases "reset e") (simp_all add: entry_orderly_def acknowledge_entry_def)

lemma orderly_mark_clear: "entry_orderly e \<Longrightarrow> entry_orderly (snd (mark_clear_applied_entry e))"
  by (cases "reset e") (simp_all add: entry_orderly_def mark_clear_applied_entry_def)

lemma orderly_note: "entry_orderly e \<Longrightarrow> entry_orderly (snd (note_sequence_entry m e))"
  by (cases "reset e") (simp_all add: entry_orderly_def note_sequence_entry_def)

lemma orderly_deactivate: "entry_orderly e \<Longrightarrow> entry_orderly (snd (deactivate_entry e))"
  by (cases "reset e") (simp_all add: entry_orderly_def deactivate_entry_def)

lemma orderly_finish_queued: "entry_orderly e \<Longrightarrow> entry_orderly (snd (finish_queued_entry m e))"
  by (cases "reset e") (simp_all add: entry_orderly_def finish_queued_entry_def)

lemma orderly_activate: "entry_orderly e \<Longrightarrow> entry_orderly (snd (activate_entry h g n e))"
  by (auto simp: activate_entry_def intro: orderly_no_reset elim!: orderly_frame [rotated 2])

lemma orderly_schedule: "entry_orderly e \<Longrightarrow> entry_orderly (snd (schedule_entry e))"
  by (auto simp: schedule_entry_def intro: orderly_no_reset elim!: orderly_frame [rotated 2])

lemma orderly_finish_retry: "entry_orderly e \<Longrightarrow> entry_orderly (snd (finish_retry_entry e))"
  by (auto simp: finish_retry_entry_def intro: orderly_no_reset elim!: orderly_frame [rotated 2])

lemma orderly_revoke: "entry_orderly e \<Longrightarrow> entry_orderly (snd (revoke_entry g e))"
  by (simp add: revoke_entry_def orderly_no_reset)

lemma orderly_queue: "entry_orderly e \<Longrightarrow> entry_orderly (snd (queue_entry h g n k obs rs c d e))"
  by (cases "reset e") (auto simp: entry_orderly_def queue_entry_def)

lemma orderly_entry_next:
  assumes "entry_orderly e" and "entry_wf e" and "eop = Cancel \<Longrightarrow> \<not> is_some_and acked (reset e)"
  shows "entry_orderly (entry_next eop e)"
proof (cases "eop = Cancel")
  case True
  then show ?thesis using orderly_cancel [OF assms(1,2)] assms(3) by simp
next
  case False
  then show ?thesis
    using assms(1)
    by (cases eop) (simp_all add: orderly_register orderly_reserve orderly_complete orderly_queue
        orderly_acknowledge orderly_mark_clear orderly_note orderly_deactivate orderly_finish_queued
        orderly_activate orderly_schedule orderly_finish_retry orderly_revoke)
qed

lemma orderly_wf: "orderly reg \<Longrightarrow> registry_wf reg"
  by (induction rule: orderly.induct) (auto intro: au.inv_init wf_auth_next)

lemma orderly_entries: "orderly reg \<Longrightarrow> sessions reg sid = Some e \<Longrightarrow> entry_orderly e"
proof (induction arbitrary: sid e rule: orderly.induct)
  case start
  then show ?case by (simp add: empty_registry_def)
next
  case (step reg i)
  show ?case
  proof (cases i)
    case (Issue s h g n)
    then show ?thesis using step by (auto simp: issue_with_native_id_def entry_orderly_def split: if_splits)
  next
    case (On s eop)
    have "entry_orderly (entry_next eop e0)" if "sessions reg s = Some e0" for e0
      using step.IH [OF that] orderly_wf [OF step.hyps(1)] step.hyps(2) [of s] that On
      by (auto intro!: orderly_entry_next simp: registry_wf_def reset_acknowledged_def)
    then show ?thesis using On step.prems step.IH
      by (auto simp: sessions_on_session split: if_splits)
  next
    case (Remove s)
    then show ?thesis using step by (auto simp: remove_def split: if_splits)
  next
    case (RemoveIfGeneration s g)
    then show ?thesis using step by (auto simp: remove_if_generation_def remove_def split: if_splits)
  qed
qed

section \<open>Revocation, epochs and snapshots\<close>

lemma revoked_entry_next: "revoked e \<Longrightarrow> revoked (entry_next eop e)"
proof (cases eop)
  case (Register h g m l obs)
  assume "revoked e"
  then show ?thesis using Register
    by (cases rule: register_cases [of h g m l obs e]) (simp_all add: set_candidate_def)
next
  case (QueueWait h g m k obs r c d)
  assume "revoked e"
  then show ?thesis using QueueWait by (simp add: queue_entry_def split: option.split)
qed (simp_all add: entry_ops Let_def split: option.split)

lemma epoch_entry_next: "epoch e \<le> epoch (entry_next eop e)"
proof (cases eop)
  case (Register h g m l obs)
  then show ?thesis by (cases rule: register_cases [of h g m l obs e]) (simp_all add: set_candidate_def)
next
  case (QueueWait h g m k obs r c d)
  then show ?thesis by (simp add: queue_entry_def split: option.split)
qed (simp_all add: entry_ops Let_def saturating_add_mono split: option.split)

text \<open>The later entry of a session is the same issue with an epoch at least as large, or a later issue.\<close>

definition follows :: "registry \<Rightarrow> session_authority \<Rightarrow> session_authority \<Rightarrow> bool" where
  "follows reg e e' \<longleftrightarrow>
     (authority_instance e' = authority_instance e \<and> epoch e \<le> epoch e') \<or>
     allocations reg \<le> authority_instance e'"

lemma allocations_mono: "allocations reg \<le> allocations (auth_next i reg)"
  by (cases i) (auto simp: issue_with_native_id_def remove_def remove_if_generation_def)

lemma fresh_run:
  "(\<forall>e. sessions reg sid = Some e \<longrightarrow> k \<le> authority_instance e) \<Longrightarrow> k \<le> allocations reg \<Longrightarrow>
   sessions (fold auth_next ops reg) sid = Some e' \<Longrightarrow> k \<le> authority_instance e'"
proof (induction ops arbitrary: reg)
  case (Cons i ops)
  have "\<forall>e. sessions (auth_next i reg) sid = Some e \<longrightarrow> k \<le> authority_instance e"
    using Cons.prems(1,2)
    by (cases i) (auto simp: sessions_on_session issue_with_native_id_def remove_def
        remove_if_generation_def split: if_splits)
  moreover have "k \<le> allocations (auth_next i reg)"
    using Cons.prems(2) allocations_mono order_trans by blast
  ultimately show ?case using Cons.IH Cons.prems(3) by simp
qed simp

lemma follows_run:
  assumes "sessions reg sid = Some e" and "sessions (fold auth_next ops reg) sid = Some e'"
  shows "follows reg e e'"
  using assms
proof (induction ops arbitrary: reg e)
  case Nil
  then show ?case by (simp add: follows_def)
next
  case (Cons i ops)
  let ?reg = "auth_next i reg"
  show ?case
  proof (cases "\<exists>e1. sessions ?reg sid = Some e1 \<and> authority_instance e1 = authority_instance e \<and> epoch e \<le> epoch e1")
    case True
    then obtain e1 where "sessions ?reg sid = Some e1" "authority_instance e1 = authority_instance e"
      "epoch e \<le> epoch e1" by auto
    then show ?thesis using Cons.IH [of ?reg e1] Cons.prems(2) allocations_mono [of reg i]
      by (auto simp: follows_def)
  next
    case False
    have "\<forall>e1. sessions ?reg sid = Some e1 \<longrightarrow> allocations reg \<le> authority_instance e1"
      using False Cons.prems(1) epoch_entry_next
      by (cases i) (auto simp: sessions_on_session issue_with_native_id_def remove_def
          remove_if_generation_def split: if_splits)
    then show ?thesis using fresh_run allocations_mono Cons.prems(2) by (fastforce simp: follows_def)
  qed
qed

lemma snapshot_SomeD:
  "snapshot sid reg = Some sn \<Longrightarrow> \<exists>e. sessions reg sid = Some e \<and>
     authority_instance e = snap_instance sn \<and> epoch e = snap_epoch sn"
  by (auto simp: snapshot_def)

lemma allocations_run: "allocations reg \<le> allocations (fold auth_next ops reg)"
  by (induction ops arbitrary: reg) (auto intro: order_trans [OF allocations_mono])

section \<open>Retries\<close>

lemma requested_step:
  assumes "eop \<noteq> FinishRetry"
  shows "reset_retry_scheduled e \<Longrightarrow> reset_retry_scheduled (entry_next eop e)"
    and "reset_retry_requested e \<Longrightarrow> reset_retry_requested (entry_next eop e)"
proof -
  have same: "reset_retry_scheduled (entry_next eop e) = reset_retry_scheduled e \<and>
      reset_retry_requested (entry_next eop e) = reset_retry_requested e" if "eop \<noteq> ScheduleRetry"
  proof (cases eop)
    case (Register h g m l obs)
    then show ?thesis by (cases rule: register_cases [of h g m l obs e]) (simp_all add: set_candidate_def)
  next
    case (QueueWait h g m k obs r c d)
    then show ?thesis by (simp add: queue_entry_def split: option.split)
  qed (use assms that in \<open>simp_all add: entry_ops Let_def split: option.split\<close>)
  show "reset_retry_scheduled e \<Longrightarrow> reset_retry_scheduled (entry_next eop e)"
    using same by (cases "eop = ScheduleRetry") (auto simp: schedule_entry_def)
  show "reset_retry_requested e \<Longrightarrow> reset_retry_requested (entry_next eop e)"
    using same by (cases "eop = ScheduleRetry") (auto simp: schedule_entry_def)
qed

section \<open>Properties\<close>

text \<open>
  After any sequence of operations the registry is well formed: a revoked entry is inactive
  and has no reset, an active entry has a native id, a retry is requested only while one is
  scheduled, every reservation is well formed with a chain of superseded reservations of length at
  most one, and no two sessions share an authority instance.
\<close>

theorem registry_invariant: "registry_wf (fold auth_next ops empty_registry)"
  using au.reachable_inv [of empty_registry ops] by (simp add: au.run_def)

text \<open>
  Revocation is final: from a registry where the session's entry is revoked or absent, after
  any sequence of operations that does not issue the session again, every registration is
  rejected, every activation and reservation refused, nothing is acknowledged or launched, and the
  session is not active.
\<close>

theorem revocation_is_final:
  assumes "registry_wf reg" and "is_none_or revoked (sessions reg sid)"
    and "\<forall>h g n. Issue sid h g n \<notin> set ops"
  shows "let reg' = fold auth_next ops reg in
    is_none_or revoked (sessions reg' sid) \<and>
    fst (register_native_id sid h g n l obs reg') = Rejected \<and>
    fst (activate sid h g n reg') = False \<and> fst (reserve_reset now sid h c reg') = False \<and>
    fst (acknowledge_reset sid reg') = None \<and> fst (complete_reset sid reg') = None \<and>
    generation_for_launch sid reg' = None \<and> \<not> is_active sid reg' \<and> \<not> native_id_matches sid h g n reg'"
proof -
  define reg' where "reg' = fold auth_next ops reg"
  have sealed: "is_none_or revoked (sessions reg' sid)"
    unfolding reg'_def using assms(2,3)
  proof (induction ops arbitrary: reg)
    case (Cons i ops)
    have "is_none_or revoked (sessions (auth_next i reg) sid)"
      using Cons.prems revoked_entry_next
      by (cases i; cases "sessions reg sid") (auto simp: sessions_on_session issue_with_native_id_def
          remove_def remove_if_generation_def)
    then show ?case using Cons by simp
  qed simp
  have wf: "registry_wf reg'" using au.run_inv [OF assms(1), of ops] by (simp add: reg'_def au.run_def)
  show ?thesis
  proof (cases "sessions reg' sid")
    case None
    then show ?thesis unfolding reg'_def [symmetric]
      by (simp add: registry_ops on_entry_def generation_for_launch_def is_active_def native_id_matches_def)
  next
    case (Some e)
    then have "revoked e" "reset e = None" using sealed wf by (auto simp: registry_wf_def entry_wf_def)
    then show ?thesis unfolding reg'_def [symmetric] using Some
      by (simp add: registry_ops on_entry_def generation_for_launch_def is_active_def
          native_id_matches_def register_entry_def activate_entry_def reserve_entry_def
          acknowledge_entry_def complete_entry_def Let_def)
  qed
qed

theorem revocation_is_final_witness:
  "let reg = fold auth_next [Issue ''s'' ''claude-code'' ''g'' (Some ''old''), On ''s'' (Revoke ''g'')] empty_registry;
       reg' = fold auth_next [On ''s'' (Activate ''claude-code'' ''g'' ''old'')] reg in
   sessions reg ''s'' \<noteq> None \<and>
   fst (register_native_id ''s'' ''claude-code'' ''g'' ''new'' True None reg') = Rejected"
  using revocation_is_final [of "fold auth_next [Issue ''s'' ''claude-code'' ''g'' (Some ''old''),
      On ''s'' (Revoke ''g'')] empty_registry" "''s''" "[On ''s'' (Activate ''claude-code'' ''g'' ''old'')]"
      "''claude-code''" "''g''" "''new''" True None]
    au.reachable_inv [of empty_registry "[Issue ''s'' ''claude-code'' ''g'' (Some ''old''), On ''s'' (Revoke ''g'')]"]
  by (simp add: Let_def empty_registry_def issue_with_native_id_def revoke_def on_entry_def revoke_entry_def)

text \<open>
  A bound native id moves only through the whole reset protocol: when the entry is bound and no
  reset is open, any run that neither issues nor removes the session and that lacks a reservation,
  or lacks an acknowledgement, or lacks a completion, leaves the session bound to the same id.
\<close>

theorem identity_moves_only_by_reset:
  assumes "registry_wf reg" and "sessions reg sid = Some e"
    and "native_session_id e = Some n" and "reset e = None"
    and "\<forall>i \<in> set ops. \<not> reissues sid i"
    and "(\<forall>now h c. On sid (Reserve now h c) \<notin> set ops) \<or> On sid Acknowledge \<notin> set ops \<or>
         On sid Complete \<notin> set ops"
  shows "\<exists>e'. sessions (fold auth_next ops reg) sid = Some e' \<and> native_session_id e' = Some n"
proof -
  have wf: "entry_wf e" using assms(1,2) by (auto simp: registry_wf_def)
  have quiet: "\<And>i. i \<in> set ops \<Longrightarrow> \<not> reissues sid i" using assms(5) by simp
  consider "\<forall>now h c. On sid (Reserve now h c) \<notin> set ops" | "On sid Acknowledge \<notin> set ops"
    | "On sid Complete \<notin> set ops" using assms(6) by blast
  then show ?thesis
  proof cases
    case 1
    have "\<exists>e'. sessions (fold auth_next ops reg) sid = Some e' \<and> entry_wf e' \<and>
        (native_session_id e' = Some n \<and> reset e' = None)"
    proof (rule entry_run [OF assms(2) wf _ quiet])
      show "native_session_id e = Some n \<and> reset e = None" using assms(3,4) by simp
      fix eop and e :: session_authority assume "On sid eop \<in> set ops" "native_session_id e = Some n \<and> reset e = None"
      then show "native_session_id (entry_next eop e) = Some n \<and> reset (entry_next eop e) = None"
        using no_reserve_step 1 by metis
    qed
    then show ?thesis by blast
  next
    case 2
    have "\<exists>e'. sessions (fold auth_next ops reg) sid = Some e' \<and> entry_wf e' \<and> unmoved n e'"
    proof (rule entry_run [OF assms(2) wf _ quiet])
      show "unmoved n e" using assms(3,4) by (simp add: unmoved_def)
      fix eop and e :: session_authority assume "On sid eop \<in> set ops" "unmoved n e"
      then show "unmoved n (entry_next eop e)" using unmoved_step 2 by metis
    qed
    then show ?thesis by (auto simp: unmoved_def)
  next
    case 3
    have "\<exists>e'. sessions (fold auth_next ops reg) sid = Some e' \<and> entry_wf e' \<and> native_session_id e' = Some n"
    proof (rule entry_run [OF assms(2) wf, where P = "\<lambda>e. native_session_id e = Some n", OF assms(3) quiet])
      fix eop and e :: session_authority assume "On sid eop \<in> set ops" "native_session_id e = Some n"
      then show "native_session_id (entry_next eop e) = Some n" using native_entry_next 3 by metis
    qed
    then show ?thesis by blast
  qed
qed

theorem identity_moves_only_by_reset_witness:
  "\<exists>e'. sessions (fold auth_next [On ''s'' (Reserve 5 ''claude-code'' ''/clear''),
       On ''s'' (Register ''claude-code'' ''g'' ''new'' True None), On ''s'' Complete]
     (issue_with_native_id ''s'' ''claude-code'' ''g'' (Some ''old'') empty_registry)) ''s'' = Some e' \<and>
   native_session_id e' = Some ''old''"
proof (rule identity_moves_only_by_reset)
  show "registry_wf (issue_with_native_id ''s'' ''claude-code'' ''g'' (Some ''old'') empty_registry)"
    by (rule wf_issue, rule au.inv_init, rule refl)
qed (simp add: issue_with_native_id_def, simp_all)

text \<open>
  C37: The reset protocol completes, in either order of its two asynchronous halves. For a bound,
  unrevoked session with no reset open and a candidate id that is new (and, for Copilot, observed
  after the reservation), reserving succeeds; then whether the candidate is reported before the
  acknowledgement or only after the reset was committed without one, completion hands out the
  candidate, both orders end in the same registry, the session is bound to the candidate, inactive
  and without a reset, and its epoch advanced by exactly one (staying at the maximum).
\<close>

theorem reset_completes_in_either_order:
  assumes "sessions reg sid = Some e" and "\<not> revoked e" and "native_session_id e = Some old"
    and "reset e = None" and "accepted_command (harness_id e) c"
    and "new \<noteq> []" and "new \<noteq> old" and "harness_id e = ''copilot'' \<Longrightarrow> \<exists>t. obs = Some t \<and> now < t"
  defines "register \<equiv> register_native_id sid (harness_id e) (generation e)"
    and "done_with \<equiv> \<lambda>n. Some \<lparr>commit_native_session_id = n, commit_queued_prompt_wait = None,
           commit_reset_submission_input_sequence = None\<rparr>"
    and "final \<equiv> reg\<lparr>sessions := (sessions reg)(sid \<mapsto> e\<lparr>native_session_id := Some new,
           epoch := saturating_add (epoch e) 1, reset := None, active := False\<rparr>)\<rparr>"
  shows "\<exists>r1 r2 r3 q2 q3 q4.
    reserve_reset now sid (harness_id e) c reg = (True, r1) \<and>
    register new True obs r1 = (Held, r2) \<and> acknowledge_reset sid r2 = (Some (Some new), r3) \<and>
    complete_reset sid r3 = (done_with (Some new), final) \<and>
    acknowledge_reset sid r1 = (Some None, q2) \<and> complete_reset sid q2 = (done_with None, q3) \<and>
    register old True obs q3 = (Rejected, q3) \<and> register new True obs q3 = (Held, q4) \<and>
    complete_reset sid q4 = (done_with (Some new), final)"
proof -
  have fresh: "\<not> stale_copilot e1 obs r"
    if "harness_id e1 = harness_id e" "created_at (details r) = now" for e1 r
    using assms(8) that by (auto simp: stale_copilot_def)
  show ?thesis
    using assms(1-7) fresh unfolding register_def done_with_def final_def
    by (simp add: registry_ops on_entry_def reserve_entry_def register_entry_def bind_unbound_def
        bind_bound_def acknowledge_entry_def complete_entry_def new_reservation_def set_candidate_def
        mark_committed_def commit_of_def edit_def Let_def fun_upd_twist)
qed

theorem reset_completes_in_either_order_witness:
  "\<exists>r1 r2. reserve_reset 5 ''s'' ''copilot'' ''/new''
      (issue_with_native_id ''s'' ''copilot'' ''g'' (Some ''old'') empty_registry) = (True, r1) \<and>
    register_native_id ''s'' ''copilot'' ''g'' ''new'' True (Some 6) r1 = (Held, r2)"
  using reset_completes_in_either_order
    [of "issue_with_native_id ''s'' ''copilot'' ''g'' (Some ''old'') empty_registry" "''s''"
      "the (sessions (issue_with_native_id ''s'' ''copilot'' ''g'' (Some ''old'') empty_registry) ''s'')"
      "''old''" "''/new''" "''new''" "Some 6" 5]
  by (fastforce simp: issue_with_native_id_def accepted_command_def)

text \<open>
  A retired id is never bound again by the reset that retired it. In every registry reached
  with reservations cancelled only before they are acknowledged, registering the id an open reset
  retires is rejected and changes nothing, and the id a completion installs is a proper id other
  than the retired one.
\<close>

theorem retired_id_not_rebound:
  assumes "orderly reg" and "sessions reg sid = Some e" and "reset e = Some r"
  shows "(\<forall>n h g l obs. retired r = Some n \<longrightarrow>
            register_native_id sid h g n l obs reg = (Rejected, reg)) \<and>
    (\<forall>k n. fst (complete_reset sid reg) = Some k \<longrightarrow> commit_native_session_id k = Some n \<longrightarrow>
       n \<noteq> [] \<and> retired r \<noteq> Some n \<and> candidate r = Some n \<and> acked r)"
proof -
  have ord: "entry_orderly e" by (rule orderly_entries [OF assms(1,2)])
  have wf: "reset_wf r" "entry_wf e"
    using orderly_wf [OF assms(1)] assms(2,3) by (auto simp: registry_wf_def entry_wf_def)
  have reject: "register_entry h g n l obs e = (Rejected, e)" if "retired r = Some n" for n h g l obs
  proof (cases "native_session_id e")
    case None
    then show ?thesis using that assms(3) by (simp add: register_entry_def bind_unbound_def)
  next
    case (Some current)
    have "candidate r \<noteq> Some n" using ord assms(3) that by (auto simp: entry_orderly_def)
    then show ?thesis using Some ord assms(3) that
      by (auto simp: register_entry_def bind_bound_def entry_orderly_def split: option.split)
  qed
  have "n \<noteq> [] \<and> retired r \<noteq> Some n \<and> candidate r = Some n \<and> acked r"
    if "fst (complete_reset sid reg) = Some k" "commit_native_session_id k = Some n" for k n
    using that assms(2,3) wf ord
    by (cases "candidate r") (auto simp: complete_reset_def on_entry_def complete_entry_def commit_of_def
        reset_wf_def entry_orderly_def split: if_splits)
  moreover have "register_native_id sid h g n l obs reg = (Rejected, reg)"
    if "retired r = Some n" for n h g l obs
    using reject [OF that] assms(2) by (simp add: register_native_id_def on_entry_def map_upd_triv)
  ultimately show ?thesis by blast
qed

theorem retired_id_not_rebound_witness:
  "let reg = fold auth_next [Issue ''s'' ''claude-code'' ''g'' (Some ''old''),
       On ''s'' (Reserve 5 ''claude-code'' ''/clear''),
       On ''s'' (Register ''claude-code'' ''g'' ''new'' True None), On ''s'' Acknowledge] empty_registry in
   register_native_id ''s'' ''claude-code'' ''g'' ''old'' True None reg = (Rejected, reg) \<and>
   fst (complete_reset ''s'' reg) \<noteq> None"
proof -
  define reg where "reg = fold auth_next [Issue ''s'' ''claude-code'' ''g'' (Some ''old''),
       On ''s'' (Reserve 5 ''claude-code'' ''/clear''),
       On ''s'' (Register ''claude-code'' ''g'' ''new'' True None), On ''s'' Acknowledge] empty_registry"
  have "orderly reg" unfolding reg_def fold_simps by (intro orderly.intros) simp_all
  moreover obtain e r where e: "sessions reg ''s'' = Some e" "reset e = Some r"
    and r: "retired r = Some ''old''" "acked r" "candidate r = Some ''new''"
    by (simp add: reg_def issue_with_native_id_def registry_ops on_entry_def reserve_entry_def
        accepted_command_def register_entry_def bind_bound_def new_reservation_def set_candidate_def
        stale_copilot_def acknowledge_entry_def)
  ultimately have "register_native_id ''s'' ''claude-code'' ''g'' ''old'' True None reg = (Rejected, reg)"
    using retired_id_not_rebound [of reg "''s''" e r] by blast
  then show ?thesis using e r unfolding Let_def reg_def [symmetric]
    by (simp add: complete_reset_def on_entry_def complete_entry_def)
qed

text \<open>
  Retries are coalesced and none is lost. While one retry is scheduled, whatever else happens
  to the session short of its end of attempt, no second one is started; and if a retry was asked
  for in between while a commit was pending, the end of the attempt goes round again exactly when
  a commit is still pending then.
\<close>

theorem retry_coalesced_not_lost:
  assumes "registry_wf reg" and "sessions reg sid = Some e" and "reset_retry_scheduled e"
    and "\<forall>i \<in> set (as @ bs). \<not> reissues sid i \<and> i \<noteq> On sid FinishRetry"
    and "reset_commit_pending sid (fold auth_next as reg)"
  defines "reg' \<equiv> fold auth_next (as @ On sid ScheduleRetry # bs) reg"
  shows "fst (schedule_reset_retry sid (fold auth_next as reg)) = False \<and>
    fst (schedule_reset_retry sid reg') = False \<and>
    fst (finish_reset_retry sid reg') = reset_commit_pending sid reg'"
proof -
  have "entry_wf e" using assms(1,2) by (auto simp: registry_wf_def)
  then obtain e1 where e1: "sessions (fold auth_next as reg) sid = Some e1" "entry_wf e1"
      "reset_retry_scheduled e1"
    using entry_run [OF assms(2), where P = reset_retry_scheduled and ops = as] assms(3,4)
      requested_step(1) by (metis UnCI set_append)
  have pend: "entry_pending e1" using assms(5) e1(1) by (simp add: reset_commit_pending_def)
  define e2 where "e2 = entry_next ScheduleRetry e1"
  have e2: "entry_wf e2" "reset_retry_requested e2"
    using wf_entry_next [OF e1(2)] pend e1(3) by (simp_all only: e2_def) (simp add: schedule_entry_def)
  have s2: "sessions (fold auth_next (as @ [On sid ScheduleRetry]) reg) sid = Some e2"
    using e1(1) by (simp add: sessions_on_session e2_def del: on_session.simps)
  obtain e3 where e3: "sessions reg' sid = Some e3" "entry_wf e3" "reset_retry_requested e3"
    using entry_run [OF s2 e2(1), where P = reset_retry_requested and ops = bs] e2(2) assms(4)
      requested_step(2) unfolding reg'_def by (metis UnCI set_append fold_append o_apply append.assoc append_Cons append_Nil)
  have "reset_retry_scheduled e3" using e3(2,3) by (simp add: entry_wf_def)
  then show ?thesis using e1 e3 pend
    by (simp add: schedule_reset_retry_def finish_reset_retry_def reset_commit_pending_def on_entry_def
        schedule_entry_def finish_retry_entry_def)
qed

theorem retry_coalesced_not_lost_witness:
  "let reg = fold auth_next [Issue ''s'' ''claude-code'' ''g'' (Some ''old''),
       On ''s'' (Reserve 5 ''claude-code'' ''/clear''), On ''s'' Acknowledge, On ''s'' ScheduleRetry] empty_registry;
     reg' = fold auth_next ([] @ On ''s'' ScheduleRetry # [On ''s'' Complete]) reg in
   fst (schedule_reset_retry ''s'' reg) = False \<and>
   fst (finish_reset_retry ''s'' reg') = reset_commit_pending ''s'' reg'"
proof -
  define reg where "reg = fold auth_next [Issue ''s'' ''claude-code'' ''g'' (Some ''old''),
       On ''s'' (Reserve 5 ''claude-code'' ''/clear''), On ''s'' Acknowledge, On ''s'' ScheduleRetry] empty_registry"
  have wf: "registry_wf reg" unfolding reg_def using au.reachable_inv by (simp only: au.run_def)
  obtain e where e: "sessions reg ''s'' = Some e" "reset_retry_scheduled e"
    and pend: "reset_commit_pending ''s'' (fold auth_next [] reg)"
    by (simp add: reg_def issue_with_native_id_def registry_ops on_entry_def reserve_entry_def
        accepted_command_def new_reservation_def acknowledge_entry_def schedule_entry_def
        entry_pending_def entry_commit_pending_def reset_commit_pending_def)
  show ?thesis unfolding Let_def reg_def [symmetric]
    using retry_coalesced_not_lost [OF wf e _ pend, where bs = "[On ''s'' Complete]"] by simp
qed

text \<open>
  A snapshot that still holds was never stale: if the snapshot of a session is the same before
  and after any sequence of operations, then in every state in between the session was present,
  under the same issued instance and at the same epoch. In particular a session that was removed
  and issued again never passes for the old one.
\<close>

theorem unchanged_snapshot_was_current:
  assumes "registry_wf reg" and "snapshot sid reg = Some sn"
    and "snapshot sid (fold auth_next (as @ bs) reg) = Some sn"
  shows "\<exists>e'. sessions (fold auth_next as reg) sid = Some e' \<and>
    authority_instance e' = snap_instance sn \<and> epoch e' = snap_epoch sn"
proof -
  obtain e where e: "sessions reg sid = Some e" "authority_instance e = snap_instance sn" "epoch e = snap_epoch sn"
    using snapshot_SomeD [OF assms(2)] by blast
  obtain e2 where e2: "sessions (fold auth_next bs (fold auth_next as reg)) sid = Some e2"
      "authority_instance e2 = snap_instance sn" "epoch e2 = snap_epoch sn"
    using snapshot_SomeD [OF assms(3)] by (auto simp only: fold_append o_apply)
  have old: "authority_instance e < allocations reg" using assms(1) e(1) by (auto simp: registry_wf_def)
  have allocs: "allocations reg \<le> allocations (fold auth_next as reg)"
    by (rule allocations_run)
  have present: "\<exists>e'. sessions (fold auth_next as reg) sid = Some e'"
  proof (rule ccontr)
    assume "\<nexists>e'. sessions (fold auth_next as reg) sid = Some e'"
    then have "allocations reg \<le> authority_instance e2"
      using fresh_run [OF _ _ e2(1), of "allocations reg"] allocs by simp
    then show False using old e(2) e2(2) by simp
  qed
  then obtain e' where e': "sessions (fold auth_next as reg) sid = Some e'" by blast
  have "follows reg e e'" by (rule follows_run [OF e(1) e'])
  moreover have "follows (fold auth_next as reg) e' e2" by (rule follows_run [OF e' e2(1)])
  ultimately show ?thesis using old e e2 e' allocs by (auto simp: follows_def)
qed

theorem unchanged_snapshot_was_current_witness:
  "let reg = issue_with_native_id ''s'' ''copilot'' ''g'' None empty_registry in
   \<exists>e'. sessions (fold auth_next [On ''s'' ScheduleRetry] reg) ''s'' = Some e' \<and>
     authority_instance e' = 0 \<and> epoch e' = 0"
proof -
  define reg where "reg = issue_with_native_id ''s'' ''copilot'' ''g'' None empty_registry"
  have wf: "registry_wf reg" unfolding reg_def by (rule wf_issue, rule au.inv_init, rule refl)
  obtain sn where sn: "snapshot ''s'' reg = Some sn" "snap_instance sn = 0" "snap_epoch sn = 0"
    by (simp add: reg_def snapshot_def issue_with_native_id_def empty_registry_def)
  have "snapshot ''s'' (fold auth_next ([On ''s'' ScheduleRetry] @ [Remove ''t'']) reg) = snapshot ''s'' reg"
    by (simp add: reg_def snapshot_def issue_with_native_id_def empty_registry_def registry_ops
        on_entry_def schedule_entry_def entry_pending_def remove_def)
  then show ?thesis unfolding Let_def reg_def [symmetric]
    using unchanged_snapshot_was_current [OF wf sn(1), of "[On ''s'' ScheduleRetry]" "[Remove ''t'']"] sn
    by simp
qed

end
