(* ===== verification/Terminal_Status.thy ===== *)
theory Terminal_Status
  imports Prelude Utf8
begin

text \<open>
  The reader of Codex status reports in live terminal output,
  \<^verbatim>\<open>crates/orkworksd/src/runtime/codex_terminal_status.rs\<close>: a byte-at-a-time scanner for operating
  system commands (OSC) with a bounded payload, and the classifier of one payload.
\<close>

section \<open>Data\<close>

datatype status = Working | Blocked | Idle | Failed | Unknown

datatype reader_mode = Text | Escape | Osc | Skip

record reader =
  mode :: reader_mode
  payload :: string
  escaped :: bool

definition default_reader :: reader where
  "default_reader = \<lparr>mode = Text, payload = [], escaped = False\<rparr>"

abbreviation ESC :: byte where "ESC \<equiv> CHR 0x1B"
abbreviation BEL :: byte where "BEL \<equiv> CHR 0x07"
abbreviation BSLASH :: byte where "BSLASH \<equiv> CHR 0x5C"

section \<open>Classification\<close>

type_synonym slots = "string option \<times> string option \<times> string option"

text \<open>One field: an unknown key or a key seen before refuses the whole payload.\<close>

definition put_field :: "slots \<Rightarrow> string \<Rightarrow> slots option" where
  "put_field slots field =
     (case split_once CHR ''='' field of
        None \<Rightarrow> None
      | Some (key, value) \<Rightarrow>
          (case slots of (state, app, kind) \<Rightarrow>
             if key = ''state'' then (if state \<noteq> None then None else Some (Some value, app, kind))
             else if key = ''app'' then (if app \<noteq> None then None else Some (state, Some value, kind))
             else if key = ''kind'' then (if kind \<noteq> None then None else Some (state, app, Some value))
             else None))"

fun put_fields :: "slots \<Rightarrow> string list \<Rightarrow> slots option" where
  "put_fields slots [] = Some slots"
| "put_fields slots (field # fs) = Option.bind (put_field slots field) (\<lambda>s. put_fields s fs)"

definition classify_slots :: "slots \<Rightarrow> status option" where
  "classify_slots slots =
     (case slots of (state, app, kind) \<Rightarrow>
        if app \<noteq> Some ''codex'' then None
        else if state = Some ''blocked'' then
          Some (if kind \<in> {Some ''permission'', Some ''question'', Some ''auth''} then Blocked else Unknown)
        else if kind \<noteq> None then None
        else map_option (\<lambda>st.
               if st = ''working'' then Working
               else if st = ''idle'' \<or> st = ''done'' then Idle
               else if st = ''error'' then Failed
               else Unknown) state)"

definition classify :: "string \<Rightarrow> status option" where
  "classify p =
     (if from_utf8 p \<noteq> Utf8_Ok then None
      else Option.bind (strip_prefix ''7501;'' p)
             (\<lambda>q. if q = ''state=clear'' then Some Unknown
                  else Option.bind (put_fields (None, None, None) (split_on CHR '':'' q)) classify_slots))"

section \<open>The reader\<close>

definition read_string :: "byte \<Rightarrow> reader \<Rightarrow> status list \<times> reader" where
  "read_string b r =
     (if b = BEL \<or> (escaped r \<and> b = BSLASH) then
        ((if mode r = Osc then (case classify (payload r) of Some st \<Rightarrow> [st] | None \<Rightarrow> []) else []),
         r\<lparr>mode := Text, escaped := False\<rparr>)
      else
        (let r1 = (if escaped r then r\<lparr>mode := Skip, escaped := False\<rparr> else r) in
         ([], if b = ESC then r1\<lparr>escaped := True\<rparr>
              else if mode r1 = Osc then
                (if length (payload r1) = 256 then r1\<lparr>mode := Skip, payload := []\<rparr>
                 else r1\<lparr>payload := payload r1 @ [b]\<rparr>)
              else r1)))"

definition read_byte :: "byte \<Rightarrow> reader \<Rightarrow> status list \<times> reader" where
  "read_byte b r =
     (case mode r of
        Text \<Rightarrow> ([], if b = ESC then r\<lparr>mode := Escape\<rparr> else r)
      | Escape \<Rightarrow>
          ([], if b = CHR '']'' then r\<lparr>mode := Osc, payload := [], escaped := False\<rparr>
               else if b \<in> {CHR ''P'', CHR ''X'', CHR ''^'', CHR ''_''} then r\<lparr>mode := Skip, escaped := False\<rparr>
               else if b = ESC then r\<lparr>mode := Escape\<rparr>
               else r\<lparr>mode := Text\<rparr>)
      | _ \<Rightarrow> read_string b r)"

fun feed :: "string \<Rightarrow> reader \<Rightarrow> status list \<times> reader" where
  "feed [] r = ([], r)"
| "feed (b # bs) r =
     (let (out, r1) = read_byte b r; (outs, r2) = feed bs r1 in (out @ outs, r2))"

section \<open>Invariant and history\<close>

definition reader_inv :: "reader \<Rightarrow> bool" where
  "reader_inv r \<longleftrightarrow> length (payload r) \<le> 256 \<and> (mode r \<in> {Text, Escape} \<longrightarrow> \<not> escaped r)"

lemma read_byte_inv: "reader_inv r \<Longrightarrow> reader_inv (snd (read_byte b r))"
  by (cases "mode r") (auto simp: reader_inv_def read_byte_def read_string_def Let_def)

interpretation rd: transducer "\<lambda>r. r = default_reader" read_byte reader_inv
  by unfold_locales (auto simp: read_byte_inv, simp add: reader_inv_def default_reader_def)

lemma feed_emits: "feed bs r = rd.emits bs r"
  by (induction bs arbitrary: r) (simp_all add: case_prod_beta Let_def)

lemma feed_append:
  "feed (as @ bs) r = (fst (feed as r) @ fst (feed bs (snd (feed as r))), snd (feed bs (snd (feed as r))))"
  by (simp add: feed_emits rd.emits_append)

definition osc_start :: "string \<Rightarrow> string" where
  "osc_start p = ESC # CHR '']'' # p"

text \<open>The terminators the reader takes: BEL, ESC backslash, and BEL right after an ESC.\<close>

definition terminators :: "string set" where
  "terminators = {[BEL], [ESC, BSLASH], [ESC, BEL]}"

text \<open>The bytes of a payload are neither BEL nor ESC.\<close>

abbreviation plain :: "string \<Rightarrow> bool" where
  "plain p \<equiv> BEL \<notin> set p \<and> ESC \<notin> set p"

definition reader_saw :: "string \<Rightarrow> reader \<Rightarrow> bool" where
  "reader_saw h r \<longleftrightarrow>
     (mode r = Escape \<longrightarrow> suffix [ESC] h) \<and>
     (mode r = Osc \<longrightarrow> length (payload r) \<le> 256 \<and> plain (payload r) \<and>
        suffix (osc_start (payload r) @ (if escaped r then [ESC] else [])) h)"

lemma reader_saw_step: "reader_saw h r \<Longrightarrow> reader_saw (h @ [b]) (snd (read_byte b r))"
  by (cases "mode r")
    (auto simp: reader_saw_def read_byte_def read_string_def Let_def osc_start_def suffix_def)

definition spelled :: "string \<Rightarrow> status \<Rightarrow> bool" where
  "spelled h st \<longleftrightarrow> (\<exists>p t. sublist (osc_start p @ t) h \<and> t \<in> terminators \<and>
     length p \<le> 256 \<and> plain p \<and> classify p = Some st)"

lemma spelled_step:
  assumes "reader_saw h r" and "st \<in> set (fst (read_byte b r))"
  shows "spelled (h @ [b]) st"
proof -
  have m: "mode r = Osc" and b: "b = BEL \<or> escaped r \<and> b = BSLASH" and c: "classify (payload r) = Some st"
    using assms(2) by (auto simp: read_byte_def read_string_def Let_def
        split: reader_mode.splits if_splits option.splits)
  let ?t = "(if escaped r then [ESC] else []) @ [b]"
  have "suffix (osc_start (payload r) @ ?t) (h @ [b])"
    using assms(1) m by (simp add: reader_saw_def suffix_def)
  then have "sublist (osc_start (payload r) @ ?t) (h @ [b])" by (rule suffix_imp_sublist)
  moreover have "?t \<in> terminators" using b by (auto simp: terminators_def)
  ultimately show ?thesis using assms(1) m c unfolding spelled_def reader_saw_def by blast
qed

lemma spelled_mono: "spelled h st \<Longrightarrow> spelled (h @ j) st"
  unfolding spelled_def sublist_def by (metis append.assoc)

section \<open>Reading one command\<close>

lemma feed_Cons: "feed (b # bs) r =
    (fst (read_byte b r) @ fst (feed bs (snd (read_byte b r))), snd (feed bs (snd (read_byte b r))))"
  by (simp add: case_prod_beta Let_def)

declare feed.simps(2) [simp del]

lemma feed_osc_short:
  "plain p \<Longrightarrow> mode r = Osc \<Longrightarrow> \<not> escaped r \<Longrightarrow> length (payload r) + length p \<le> 256 \<Longrightarrow>
   feed p r = ([], r\<lparr>payload := payload r @ p\<rparr>)"
proof (induction p arbitrary: r)
  case (Cons c cs)
  then have "read_byte c r = ([], r\<lparr>payload := payload r @ [c]\<rparr>)"
    by (auto simp: read_byte_def read_string_def)
  then show ?case using Cons by (simp add: feed_Cons)
qed simp

lemma feed_skip: "plain p \<Longrightarrow> mode r = Skip \<Longrightarrow> \<not> escaped r \<Longrightarrow> feed p r = ([], r)"
proof (induction p)
  case (Cons c cs)
  then have "read_byte c r = ([], r)" by (auto simp: read_byte_def read_string_def)
  then show ?case using Cons by (simp add: feed_Cons)
qed simp

lemma feed_osc_long:
  assumes "plain p" and "mode r = Osc" and "\<not> escaped r" and "payload r = []" and "256 < length p"
  shows "feed p r = ([], r\<lparr>mode := Skip, payload := []\<rparr>)"
proof -
  obtain c where p: "p = take 256 p @ c # drop 257 p" and c: "c \<in> set p"
    using assms(5) id_take_nth_drop [of 256 p] by (metis Suc_eq_plus1 nth_mem numeral_plus_one semiring_norm(5) semiring_norm(2) semiring_norm(8))
  let ?r = "r\<lparr>payload := take 256 p\<rparr>"
  have "plain (take 256 p)" using assms(1) in_set_takeD by metis
  then have "feed (take 256 p) r = ([], ?r)"
    using feed_osc_short [of "take 256 p" r] assms by simp
  moreover have "read_byte c ?r = ([], ?r\<lparr>mode := Skip, payload := []\<rparr>)"
    using assms c by (auto simp: read_byte_def read_string_def Let_def)
  moreover have "plain (drop 257 p)" using assms(1) in_set_dropD by metis
  ultimately show ?thesis using assms
    by (subst p) (simp add: feed_append feed_Cons feed_skip)
qed

lemma feed_terminator:
  assumes "t \<in> terminators" and "mode r \<in> {Osc, Skip}" and "\<not> escaped r"
  shows "fst (feed t r) = (if mode r = Osc then (case classify (payload r) of Some st \<Rightarrow> [st] | None \<Rightarrow> []) else [])"
    and "mode (snd (feed t r)) = Text \<and> \<not> escaped (snd (feed t r))"
  using assms by (auto simp: terminators_def feed_Cons read_byte_def read_string_def)

section \<open>Fields\<close>

definition render_field :: "string \<times> string \<Rightarrow> string" where
  "render_field kv = fst kv @ CHR ''='' # snd kv"

abbreviation known_keys :: "string set" where
  "known_keys \<equiv> {''state'', ''app'', ''kind''}"

lemma put_field_render:
  assumes "CHR ''='' \<notin> set k"
  shows "put_field (s, a, d) (render_field (k, v)) =
    (if k = ''state'' then (if s \<noteq> None then None else Some (Some v, a, d))
     else if k = ''app'' then (if a \<noteq> None then None else Some (s, Some v, d))
     else if k = ''kind'' then (if d \<noteq> None then None else Some (s, a, Some v))
     else None)"
proof -
  have "split_once CHR ''='' (k @ CHR ''='' # v) = Some (k, v)" using assms by (simp add: split_once_Some)
  then show ?thesis by (simp add: put_field_def render_field_def)
qed

lemma put_fields_render:
  "list_all (\<lambda>kv. CHR ''='' \<notin> set (fst kv)) kvs \<Longrightarrow>
   put_fields (s, a, d) (map render_field kvs) =
     (if distinct (map fst kvs) \<and> fst ` set kvs \<subseteq> known_keys \<and>
         (''state'' \<in> fst ` set kvs \<longrightarrow> s = None) \<and> (''app'' \<in> fst ` set kvs \<longrightarrow> a = None) \<and>
         (''kind'' \<in> fst ` set kvs \<longrightarrow> d = None)
      then Some (opt_or (map_of kvs ''state'') s, opt_or (map_of kvs ''app'') a, opt_or (map_of kvs ''kind'') d)
      else None)"
proof (induction kvs arbitrary: s a d)
  case (Cons kv kvs)
  obtain k v where kv: "kv = (k, v)" by (cases kv)
  then have k: "CHR ''='' \<notin> set k" and rest: "list_all (\<lambda>kv. CHR ''='' \<notin> set (fst kv)) kvs"
    using Cons.prems by simp_all
  consider "k = ''state''" | "k = ''app''" | "k = ''kind''" | "k \<notin> known_keys" by blast
  then show ?case
  proof cases
    case 4
    then show ?thesis using kv k by (simp add: put_field_render)
  qed (use kv k Cons.IH [OF rest] in \<open>auto simp: put_field_render map_of_eq_None_iff [symmetric] split: option.splits\<close>)
qed simp

section \<open>Properties\<close>

text \<open>
  No status is invented: every status the reader reports over a whole stream is the
  classification of a payload of at most 256 bytes, without BEL or ESC in it, that occurs
  contiguously in the stream between an OSC introducer and a terminator.
\<close>

theorem status_was_spelled:
  assumes "st \<in> set (fst (feed bs default_reader))"
  shows "\<exists>p t. sublist (ESC # CHR '']'' # p @ t) bs \<and> t \<in> terminators \<and> length p \<le> 256 \<and> plain p \<and>
    classify p = Some st"
proof -
  have start: "reader_saw [] default_reader" by (simp add: reader_saw_def default_reader_def)
  have "reader_saw ([] @ bs) (snd (rd.emits bs default_reader)) \<and>
      (\<forall>x \<in> set (fst (rd.emits bs default_reader)). spelled ([] @ bs) x)"
    by (rule rd.emits_justified [where R = reader_saw and Q = spelled,
        OF reader_saw_step spelled_step spelled_mono start])
  then have "spelled bs st" using assms by (simp add: feed_emits)
  then show ?thesis by (simp add: spelled_def osc_start_def)
qed

theorem status_was_spelled_witness:
  "\<exists>p t. sublist (ESC # CHR '']'' # p @ t) (ESC # ''ab'' @ ESC # '']7501;state=idle:app=codex'' @ [BEL]) \<and>
    t \<in> terminators \<and> length p \<le> 256 \<and> plain p \<and> classify p = Some Idle"
  by (rule status_was_spelled)
    (simp add: feed.simps(2) read_byte_def read_string_def default_reader_def classify_def
      classify_slots_def put_field_def from_utf8_ascii)

text \<open>
  A complete command is read whole, however the stream is cut: from text mode, an OSC with a
  payload free of BEL and ESC and any of the terminators reports exactly the classification of its
  payload when that has at most 256 bytes and nothing when it is longer, and leaves the reader in
  text mode.
\<close>

theorem command_is_read:
  assumes "mode r = Text" and "\<not> escaped r" and "plain p" and "t \<in> terminators"
    and "as @ bs = ESC # CHR '']'' # p @ t"
  shows "fst (feed as r) @ fst (feed bs (snd (feed as r))) =
      (if length p \<le> 256 then (case classify p of Some st \<Rightarrow> [st] | None \<Rightarrow> []) else []) \<and>
    mode (snd (feed bs (snd (feed as r)))) = Text \<and> \<not> escaped (snd (feed bs (snd (feed as r))))"
proof -
  define r1 where "r1 = r\<lparr>mode := Osc, payload := [], escaped := False\<rparr>"
  define r2 where "r2 = (if length p \<le> 256 then r1\<lparr>payload := p\<rparr> else r1\<lparr>mode := Skip, payload := []\<rparr>)"
  have "feed p r1 = ([], r2)"
    using feed_osc_short [of p r1] feed_osc_long [of p r1] assms(3) by (simp add: r1_def r2_def)
  then have "feed (as @ bs) r = feed t r2"
    using assms(1,2,5) by (simp add: feed_append feed_Cons read_byte_def r1_def)
  then have "fst (feed as r) @ fst (feed bs (snd (feed as r))) = fst (feed t r2)"
    and "snd (feed bs (snd (feed as r))) = snd (feed t r2)"
    unfolding feed_append by (metis fst_conv, metis snd_conv)
  moreover have "mode r2 \<in> {Osc, Skip}" "\<not> escaped r2" by (simp_all add: r1_def r2_def)
  note feed_terminator [OF assms(4) this]
  ultimately show ?thesis by (auto simp: r1_def r2_def)
qed

theorem command_is_read_witness:
  "fst (feed (ESC # '']7501;sta'') default_reader) @
     fst (feed (''te=working:app=codex'' @ [ESC, BSLASH]) (snd (feed (ESC # '']7501;sta'') default_reader))) =
   [Working]"
proof -
  have "fst (feed (ESC # '']7501;sta'') default_reader) @
     fst (feed (''te=working:app=codex'' @ [ESC, BSLASH]) (snd (feed (ESC # '']7501;sta'') default_reader))) =
     (case classify ''7501;state=working:app=codex'' of Some st \<Rightarrow> [st] | None \<Rightarrow> [])"
    using command_is_read [of default_reader "''7501;state=working:app=codex''" "[ESC, BSLASH]"
        "ESC # '']7501;sta''" "''te=working:app=codex'' @ [ESC, BSLASH]"]
    by (simp add: default_reader_def terminators_def)
  then show ?thesis by (simp add: classify_def classify_slots_def put_field_def from_utf8_ascii)
qed

text \<open>
  Classification depends only on the fields as a map. For a payload rendered from key-value
  pairs (keys without an equals sign, no colon anywhere): text that is not UTF-8 is refused, the lone
  field state=clear is unknown, an unknown or repeated key refuses the payload, and otherwise the
  status is decided by the values of state, app and kind, in whatever order they came.
\<close>

theorem classify_rendered_fields:
  assumes "kvs \<noteq> []" and "list_all (\<lambda>(k, v). CHR ''='' \<notin> set k \<and> CHR '':'' \<notin> set k \<union> set v) kvs"
  defines "p \<equiv> ''7501;'' @ join CHR '':'' (map render_field kvs)"
  shows "classify p =
    (if from_utf8 p \<noteq> Utf8_Ok then None
     else if kvs = [(''state'', ''clear'')] then Some Unknown
     else if distinct (map fst kvs) \<and> fst ` set kvs \<subseteq> known_keys
     then classify_slots (map_of kvs ''state'', map_of kvs ''app'', map_of kvs ''kind'')
     else None)"
proof -
  let ?q = "join CHR '':'' (map render_field kvs)"
  have keys: "list_all (\<lambda>kv. CHR ''='' \<notin> set (fst kv)) kvs"
    using assms(2) by (auto simp: list_all_iff)
  have split: "split_on CHR '':'' ?q = map render_field kvs"
    using assms(1,2) by (intro split_join) (auto simp: list_all_iff render_field_def)
  have clear: "?q = ''state=clear'' \<longleftrightarrow> kvs = [(''state'', ''clear'')]"
  proof
    assume "?q = ''state=clear''"
    then have "map render_field kvs = [''state=clear'']" using split by simp
    then obtain k v where "kvs = [(k, v)]" "k @ CHR ''='' # v = ''state=clear''"
      by (auto simp: render_field_def map_eq_Cons_conv)
    moreover from this have "split_once CHR ''='' ''state=clear'' = Some (k, v)"
      using keys by (simp only: split_once_Some) (simp add: eq_commute)
    ultimately show "kvs = [(''state'', ''clear'')]" by simp
  qed (simp add: render_field_def)
  show ?thesis
    using put_fields_render [OF keys, of None None None]
    by (simp add: classify_def p_def split clear)
      (auto simp: opt_or_def split: option.splits)
qed

theorem classify_rendered_fields_witness:
  "classify (''7501;'' @ join CHR '':'' (map render_field [(''app'', ''codex''), (''state'', ''blocked''), (''kind'', ''auth'')])) =
   Some Blocked"
  by (subst classify_rendered_fields)
    (simp_all add: classify_slots_def from_utf8_ascii render_field_def)

end
