(* ===== verification/Replay_Modes.thy ===== *)
theory Replay_Modes
  imports Prelude Utf8 Decimal
begin

text \<open>
  The interaction-mode checkpoint kept at the start of the bounded replay window,
  \<^verbatim>\<open>crates/orkworksd/src/runtime/terminal_replay_modes.rs\<close>: evicted bytes advance a small terminal
  parser, and its state is written back as a byte prefix when the window is replayed.
\<close>

section \<open>Data\<close>

datatype parser_state = Ground | Escape string | Csi string | IgnoreCsi | Str byte

definition MODES :: "u16 list" where
  "MODES = [1, 7, 25, 1004, 2004]"

definition DEFAULT_MODES :: "bool list" where
  "DEFAULT_MODES = [False, True, True, False, False]"

definition MAX_SEQUENCE_BYTES :: nat where
  "MAX_SEQUENCE_BYTES = 128"

record replay_modes =
  parser :: parser_state
  utf8 :: string
  modes :: "bool list"
  alternate :: bool
  mouse :: "u16 option"
  encoding :: "u16 option"
  application_keypad :: bool

definition default_modes :: replay_modes where
  "default_modes =
     \<lparr>parser = Ground, utf8 = [], modes = DEFAULT_MODES, alternate = False, mouse = None,
      encoding = None, application_keypad = False\<rparr>"

abbreviation ESC :: byte where "ESC \<equiv> CHR 0x1B"

abbreviation in_range :: "nat \<Rightarrow> nat \<Rightarrow> byte \<Rightarrow> bool" where
  "in_range lo hi b \<equiv> lo \<le> byte_val b \<and> byte_val b \<le> hi"

section \<open>Control sequences\<close>

text \<open>\<open>try_fold\<close> with checked 16-bit arithmetic: an overflowing number is no mode.\<close>

fun parse_mode :: "u16 \<Rightarrow> string \<Rightarrow> u16 option" where
  "parse_mode n [] = Some n"
| "parse_mode n (d # ds) =
     Option.bind (checked_mul n 10) (\<lambda>m.
       Option.bind (checked_add m (of_nat (byte_val d - 48))) (\<lambda>k. parse_mode k ds))"

definition set_mode :: "bool \<Rightarrow> u16 \<Rightarrow> replay_modes \<Rightarrow> replay_modes" where
  "set_mode enabled n s =
     (if n = 47 \<or> n = 1047 \<or> n = 1049 then s\<lparr>alternate := enabled\<rparr>
      else if n = 9 \<or> n = 1000 \<or> n = 1002 \<or> n = 1003 then s\<lparr>mouse := (if enabled then Some n else None)\<rparr>
      else if n = 1006 \<or> n = 1016 then s\<lparr>encoding := (if enabled then Some n else None)\<rparr>
      else if n = 66 then s\<lparr>application_keypad := enabled\<rparr>
      else case position (\<lambda>c. c = n) MODES of
             Some i \<Rightarrow> s\<lparr>modes := (modes s)[i := enabled]\<rparr>
           | None \<Rightarrow> s)"

definition apply_param :: "bool \<Rightarrow> string \<Rightarrow> replay_modes \<Rightarrow> replay_modes" where
  "apply_param enabled p s = (case parse_mode 0 p of None \<Rightarrow> s | Some n \<Rightarrow> set_mode enabled n s)"

definition csi :: "string \<Rightarrow> byte \<Rightarrow> replay_modes \<Rightarrow> replay_modes" where
  "csi params final s =
     (if params = ''!'' \<and> final = CHR ''p'' then s\<lparr>modes := DEFAULT_MODES, application_keypad := False\<rparr>
      else case params of
        [] \<Rightarrow> s
      | c # rest \<Rightarrow>
          if final \<notin> {CHR ''h'', CHR ''l''} \<or> c \<noteq> CHR ''?'' then s
          else if \<not> list_all (\<lambda>b. in_range 48 57 b \<or> b = CHR '';'') rest then s
          else fold (apply_param (final = CHR ''h'')) (split_on CHR '';'' rest) s)"

section \<open>The parser\<close>

definition string_kinds :: "byte set" where
  "string_kinds = {CHR '']'', CHR ''P'', CHR ''X'', CHR ''^'', CHR ''_''}"

definition c1_string_kind :: "nat \<Rightarrow> byte" where
  "c1_string_kind b =
     (if b = 0x90 then CHR ''P'' else if b = 0x98 then CHR ''X'' else if b = 0x9d then CHR '']''
      else if b = 0x9e then CHR ''^'' else CHR ''_'')"

text \<open>What the final byte of a two-byte escape does besides leaving the sequence.\<close>

definition escape_effect :: "byte \<Rightarrow> replay_modes \<Rightarrow> replay_modes" where
  "escape_effect b s =
     (if b = CHR ''c'' then default_modes
      else if b = CHR ''='' then s\<lparr>application_keypad := True\<rparr>
      else if b = CHR ''>'' then s\<lparr>application_keypad := False\<rparr>
      else s)"

definition escape_byte :: "string \<Rightarrow> byte \<Rightarrow> replay_modes \<Rightarrow> replay_modes" where
  "escape_byte ims b s =
     (if ims = [] \<and> b = CHR ''['' then s\<lparr>parser := Csi []\<rparr>
      else if ims = [] \<and> b \<in> string_kinds then s\<lparr>parser := Str b\<rparr>
      else
        (if ims = [] then escape_effect b s else s)
          \<lparr>parser := (if in_range 0x20 0x2f b \<and> length ims < MAX_SEQUENCE_BYTES then Escape (ims @ [b])
                     else if byte_val b < 0x20 then Escape ims
                     else Ground)\<rparr>)"

definition csi_byte :: "string \<Rightarrow> byte \<Rightarrow> replay_modes \<Rightarrow> replay_modes" where
  "csi_byte params b s =
     (if in_range 0x40 0x7e b then (csi params b s)\<lparr>parser := Ground\<rparr>
      else if byte_val b < 0x20 then s\<lparr>parser := Csi params\<rparr>
      else if length params < MAX_SEQUENCE_BYTES then s\<lparr>parser := Csi (params @ [b])\<rparr>
      else s\<lparr>parser := IgnoreCsi\<rparr>)"

definition control_state :: "byte \<Rightarrow> replay_modes \<Rightarrow> replay_modes" where
  "control_state b s =
     (case parser s of
        Ground \<Rightarrow> s
      | Escape ims \<Rightarrow> escape_byte ims b s
      | Csi params \<Rightarrow> csi_byte params b s
      | IgnoreCsi \<Rightarrow> (if in_range 0x40 0x7e b then s\<lparr>parser := Ground\<rparr> else s)
      | Str k \<Rightarrow> (if k = CHR '']'' \<and> byte_val b = 0x07 then s\<lparr>parser := Ground\<rparr> else s))"

definition control :: "byte \<Rightarrow> replay_modes \<Rightarrow> replay_modes" where
  "control b s =
     (if byte_val b = 0x9b then s\<lparr>parser := Csi []\<rparr>
      else if byte_val b \<in> {0x90, 0x98, 0x9d, 0x9e, 0x9f} then s\<lparr>parser := Str (c1_string_kind (byte_val b))\<rparr>
      else if byte_val b = 0x9c then s\<lparr>parser := Ground\<rparr>
      else if byte_val b = 0x7f \<or> in_range 0x80 0x9f b then s
      else if byte_val b = 0x18 \<or> byte_val b = 0x1a then s\<lparr>parser := Ground\<rparr>
      else if b = ESC then s\<lparr>parser := Escape []\<rparr>
      else control_state b s)"

text \<open>\<open>0xff\<close> stands for a decoded character that is no control.\<close>

abbreviation OTHER :: byte where "OTHER \<equiv> CHR 0xFF"

definition control_of_text :: "string \<Rightarrow> byte" where
  "control_of_text u =
     (case opt_filter (\<lambda>ch. 0x80 \<le> ch \<and> ch \<le> 0x9f) (first_char u) of
        None \<Rightarrow> OTHER
      | Some ch \<Rightarrow> char_of ch)"

definition advance_byte :: "byte \<Rightarrow> replay_modes \<Rightarrow> replay_modes" where
  "advance_byte b s =
     (if utf8 s = [] then
        (if byte_val b < 0x80 then control b s
         else if in_range 0xc2 0xf4 b then s\<lparr>utf8 := [b]\<rparr>
         else control OTHER s)
      else
        (let u = utf8 s @ [b] in
         case from_utf8 u of
           Utf8_Ok \<Rightarrow> control (control_of_text u) (s\<lparr>utf8 := []\<rparr>)
         | Utf8_Err None \<Rightarrow> s\<lparr>utf8 := u\<rparr>
         | Utf8_Err (Some _) \<Rightarrow>
             (let s1 = control OTHER (s\<lparr>utf8 := []\<rparr>) in
              if byte_val b < 0x80 then control b s1
              else if in_range 0xc2 0xf4 b then s1\<lparr>utf8 := utf8 s1 @ [b]\<rparr>
              else s1)))"

fun advance :: "string \<Rightarrow> replay_modes \<Rightarrow> replay_modes" where
  "advance [] s = s"
| "advance (b # bs) s = advance bs (advance_byte b s)"

section \<open>Writing the checkpoint\<close>

definition private_mode :: "u16 \<Rightarrow> byte \<Rightarrow> string" where
  "private_mode n action = ESC # ''[?'' @ show_nat (unat n) @ [action]"

definition mode_bytes :: "replay_modes \<Rightarrow> nat \<Rightarrow> string" where
  "mode_bytes s i =
     (if modes s ! i \<noteq> DEFAULT_MODES ! i
      then private_mode (MODES ! i) (if modes s ! i then CHR ''h'' else CHR ''l'') else [])"

definition parser_bytes :: "parser_state \<Rightarrow> string" where
  "parser_bytes p =
     (case p of
        Ground \<Rightarrow> []
      | Escape ims \<Rightarrow> ESC # ims
      | Csi params \<Rightarrow> ESC # CHR ''['' # params
      | IgnoreCsi \<Rightarrow> ESC # ''[0?''
      | Str kind \<Rightarrow> [ESC, kind])"

definition opt_mode_bytes :: "u16 option \<Rightarrow> string" where
  "opt_mode_bytes m = (case m of None \<Rightarrow> [] | Some n \<Rightarrow> private_mode n CHR ''h'')"

definition prefix_bytes :: "replay_modes \<Rightarrow> string" where
  "prefix_bytes s =
     (if alternate s then ESC # ''[?1049h'' else []) @
     (if application_keypad s then [ESC, CHR ''=''] else []) @
     concat (map opt_mode_bytes [mouse s, encoding s]) @
     concat (map (mode_bytes s) [0..<5]) @
     parser_bytes (parser s) @ utf8 s"

section \<open>Invariant\<close>

definition parser_ok :: "parser_state \<Rightarrow> bool" where
  "parser_ok p =
     (case p of
        Escape ims \<Rightarrow> length ims \<le> 128 \<and> list_all (in_range 0x20 0x2f) ims
      | Csi params \<Rightarrow> length params \<le> 128 \<and> list_all (\<lambda>b. in_range 0x20 0x3f b \<or> b = OTHER) params
      | Str k \<Rightarrow> k \<in> string_kinds
      | _ \<Rightarrow> True)"

definition fields_ok :: "replay_modes \<Rightarrow> bool" where
  "fields_ok s \<longleftrightarrow> length (modes s) = 5 \<and>
     mouse s \<in> {None, Some 9, Some 1000, Some 1002, Some 1003} \<and>
     encoding s \<in> {None, Some 1006, Some 1016}"

definition modes_inv :: "replay_modes \<Rightarrow> bool" where
  "modes_inv s \<longleftrightarrow> fields_ok s \<and> parser_ok (parser s) \<and> (utf8 s = [] \<or> pending_char (utf8 s))"

lemma set_mode_frame [simp]: "parser (set_mode e n s) = parser s" "utf8 (set_mode e n s) = utf8 s"
  by (simp_all add: set_mode_def split: option.split)

lemma apply_param_frame [simp]: "parser (apply_param e p s) = parser s" "utf8 (apply_param e p s) = utf8 s"
  by (simp_all add: apply_param_def split: option.split)

lemma apply_params_frame [simp]:
  "parser (fold (apply_param e) ps s) = parser s" "utf8 (fold (apply_param e) ps s) = utf8 s"
  by (induction ps arbitrary: s) simp_all

lemma csi_frame [simp]: "parser (csi ps f s) = parser s" "utf8 (csi ps f s) = utf8 s"
  by (auto simp: csi_def split: list.split)

lemma set_mode_ok: "fields_ok s \<Longrightarrow> fields_ok (set_mode e n s)"
  unfolding set_mode_def by (cases "position (\<lambda>c. c = n) MODES") (auto simp: fields_ok_def)

lemma apply_params_ok: "fields_ok s \<Longrightarrow> fields_ok (fold (apply_param e) ps s)"
  by (induction ps arbitrary: s) (auto simp: apply_param_def set_mode_ok split: option.split)

lemma csi_ok: "fields_ok s \<Longrightarrow> fields_ok (csi ps f s)"
proof -
  assume ok: "fields_ok s"
  then have "fields_ok (s\<lparr>modes := DEFAULT_MODES, application_keypad := False\<rparr>)"
    by (simp add: fields_ok_def DEFAULT_MODES_def)
  with ok show ?thesis by (simp add: csi_def apply_params_ok split: list.split)
qed

lemma fields_ok_parser [simp]: "fields_ok (s\<lparr>parser := p\<rparr>) = fields_ok s" "fields_ok (s\<lparr>utf8 := u\<rparr>) = fields_ok s"
  by (simp_all add: fields_ok_def)

lemma default_modes_ok: "fields_ok default_modes"
  by (simp add: fields_ok_def default_modes_def DEFAULT_MODES_def)

lemma escape_effect_ok: "fields_ok s \<Longrightarrow> fields_ok (escape_effect b s)"
  by (simp add: escape_effect_def default_modes_ok) (simp add: fields_ok_def)

lemma escape_byte_ok:
  assumes "fields_ok s" and "parser_ok (Escape ims)"
  shows "fields_ok (escape_byte ims b s) \<and> parser_ok (parser (escape_byte ims b s))"
  using assms escape_effect_ok [OF assms(1), of b]
  by (simp add: escape_byte_def parser_ok_def MAX_SEQUENCE_BYTES_def)

text \<open>The bytes that reach \<open>control\<close>.\<close>

abbreviation control_input :: "byte \<Rightarrow> bool" where
  "control_input b \<equiv> byte_val b < 0xa0 \<or> b = OTHER"

lemma csi_byte_ok:
  assumes "fields_ok s" and "parser_ok (Csi ps)" and "control_input b"
    and "byte_val b \<noteq> 0x7f" and "\<not> in_range 0x80 0x9f b"
  shows "fields_ok (csi_byte ps b s) \<and> parser_ok (parser (csi_byte ps b s))"
proof (cases "in_range 0x40 0x7e b \<or> byte_val b < 0x20")
  case True
  then show ?thesis using assms(1,2) by (auto simp: csi_byte_def csi_ok parser_ok_def)
next
  case False
  then have "in_range 0x20 0x3f b \<or> b = OTHER" using assms(3-5) by auto
  then show ?thesis using False assms(1,2) by (auto simp: csi_byte_def parser_ok_def MAX_SEQUENCE_BYTES_def)
qed

lemma control_state_ok:
  assumes "fields_ok s" and "parser_ok (parser s)" and "control_input b"
    and "byte_val b \<noteq> 0x7f" and "\<not> in_range 0x80 0x9f b"
  shows "fields_ok (control_state b s) \<and> parser_ok (parser (control_state b s))"
proof (cases "parser s")
  case (Escape ims)
  then show ?thesis using escape_byte_ok assms(1,2) by (simp add: control_state_def)
next
  case (Csi ps)
  then show ?thesis using csi_byte_ok assms by (simp add: control_state_def)
qed (use assms(1,2) in \<open>simp_all add: control_state_def parser_ok_def\<close>)

lemma control_ok:
  assumes "fields_ok s" and "parser_ok (parser s)" and "control_input b"
  shows "fields_ok (control b s) \<and> parser_ok (parser (control b s))"
proof (cases "b = ESC \<or> byte_val b = 0x7f \<or> in_range 0x80 0x9f b \<or> byte_val b = 0x18 \<or> byte_val b = 0x1a")
  case True
  then show ?thesis using assms(1,2)
    by (auto simp: control_def parser_ok_def c1_string_kind_def string_kinds_def)
next
  case False
  then have "control b s = control_state b s" by (auto simp: control_def)
  then show ?thesis using control_state_ok assms False by simp
qed

lemma control_state_utf8: "utf8 s = [] \<Longrightarrow> utf8 (control_state b s) = []"
  by (cases "parser s")
    (simp_all add: control_state_def escape_byte_def escape_effect_def csi_byte_def default_modes_def)

lemma control_utf8: "utf8 s = [] \<Longrightarrow> utf8 (control b s) = []"
  by (simp add: control_def control_state_utf8)

lemma control_of_text_input: "control_input (control_of_text u)"
  by (auto simp: control_of_text_def opt_filter_Some_iff split: option.split)

lemma control_inv: "modes_inv s \<Longrightarrow> utf8 s = [] \<Longrightarrow> control_input b \<Longrightarrow> modes_inv (control b s)"
  by (simp add: modes_inv_def control_ok control_utf8)

lemma modes_inv_utf8: "modes_inv s \<Longrightarrow> u = [] \<or> pending_char u \<Longrightarrow> modes_inv (s\<lparr>utf8 := u\<rparr>)"
  by (auto simp: modes_inv_def)

lemma advance_byte_inv:
  assumes "modes_inv s"
  shows "modes_inv (advance_byte b s)"
proof (cases "utf8 s = []")
  case True
  then show ?thesis using assms control_inv modes_inv_utf8 [of s "[b]"] pending_char_lead
    by (simp add: advance_byte_def)
next
  case False
  then have pend: "pending_char (utf8 s)" using assms by (simp add: modes_inv_def)
  let ?u = "utf8 s @ [b]"
  let ?s = "s\<lparr>utf8 := []\<rparr>"
  have clear: "modes_inv ?s" using assms by (simp add: modes_inv_utf8)
  have other: "modes_inv (control OTHER ?s)" "utf8 (control OTHER ?s) = []"
    using clear control_inv control_utf8 by simp_all
  consider "from_utf8 ?u = Utf8_Ok" | "from_utf8 ?u = Utf8_Err None" | k where "from_utf8 ?u = Utf8_Err (Some k)"
    by (metis not_Some_eq utf8_result.exhaust)
  then show ?thesis
  proof cases
    case 1
    then show ?thesis using False clear control_inv control_of_text_input by (simp add: advance_byte_def Let_def)
  next
    case 2
    then show ?thesis using False assms modes_inv_utf8 pending_char_snoc [OF pend 2]
      by (simp add: advance_byte_def Let_def)
  next
    case 3
    then show ?thesis using False other control_inv [OF other] modes_inv_utf8 [OF other(1), of "[b]"] pending_char_lead
      by (simp add: advance_byte_def Let_def)
  qed
qed

lemma modes_inv_default: "modes_inv default_modes"
  by (simp add: modes_inv_def default_modes_ok) (simp add: default_modes_def parser_ok_def)

interpretation rp: machine "\<lambda>s. s = default_modes" advance_byte modes_inv
  by unfold_locales (auto simp: modes_inv_default advance_byte_inv)

lemma advance_run: "advance bs s = rp.run bs s"
  by (induction bs arbitrary: s) simp_all

lemma advance_append: "advance (as @ bs) s = advance bs (advance as s)"
  by (simp add: advance_run rp.run_append)

lemma advance_inv: "modes_inv (advance bs default_modes)"
  by (simp add: advance_run rp.reachable_inv)

section \<open>Equivalence of checkpoints\<close>

text \<open>
  An overlong sequence is written back as one whose parameters begin with the digit zero. Such a
  sequence has no effect whatever follows, so the two parser states cannot be told apart.
\<close>

fun dead :: "parser_state \<Rightarrow> bool" where
  "dead IgnoreCsi = True"
| "dead (Csi (c # cs)) = (c = CHR ''0'')"
| "dead _ = False"

definition same_parser :: "parser_state \<Rightarrow> parser_state \<Rightarrow> bool" where
  "same_parser p q \<longleftrightarrow> p = q \<or> dead p \<and> dead q"

definition same_modes :: "replay_modes \<Rightarrow> replay_modes \<Rightarrow> bool" where
  "same_modes s t \<longleftrightarrow> same_parser (parser s) (parser t) \<and> utf8 t = utf8 s \<and> modes t = modes s \<and>
     alternate t = alternate s \<and> mouse t = mouse s \<and> encoding t = encoding s \<and>
     application_keypad t = application_keypad s"

lemma same_modes_refl: "same_modes s s"
  by (simp add: same_modes_def same_parser_def)

lemma control_state_dead:
  "dead (parser s) \<Longrightarrow> (if in_range 0x40 0x7e b then control_state b s = s\<lparr>parser := Ground\<rparr>
    else \<exists>p. dead p \<and> control_state b s = s\<lparr>parser := p\<rparr>)"
proof (cases "parser s" rule: dead.cases)
  case 1
  then show ?thesis by (auto simp: control_state_def intro!: exI [of _ IgnoreCsi])
next
  case (2 c cs)
  assume "dead (parser s)"
  with 2 have c: "c = CHR ''0''" by simp
  have "csi (c # cs) b s = s" using c by (simp add: csi_def)
  then show ?thesis using 2 c
    by (cases "length (c # cs) < MAX_SEQUENCE_BYTES"; cases "byte_val b < 0x20")
      (auto simp: control_state_def csi_byte_def intro: exI [of _ "Csi (c # cs @ [b])"]
        exI [of _ "Csi (c # cs)"] exI [of _ IgnoreCsi])
qed (simp_all)

lemma same_modes_set_parser: "same_modes s t \<Longrightarrow> same_parser p q \<Longrightarrow> same_modes (s\<lparr>parser := p\<rparr>) (t\<lparr>parser := q\<rparr>)"
  by (simp add: same_modes_def)

lemma same_modes_set_utf8: "same_modes s t \<Longrightarrow> same_modes (s\<lparr>utf8 := u\<rparr>) (t\<lparr>utf8 := u\<rparr>)"
  by (simp add: same_modes_def)

lemma same_parser_refl [simp]: "same_parser p p"
  by (simp add: same_parser_def)

lemma same_modes_control_state:
  assumes "same_modes s t"
  shows "same_modes (control_state b s) (control_state b t)"
proof (cases "parser s = parser t")
  case True
  then have "t = s" using assms by (simp add: same_modes_def)
  then show ?thesis by (simp add: same_modes_refl)
next
  case False
  then have d: "dead (parser s)" "dead (parser t)"
    using assms by (auto simp: same_modes_def same_parser_def)
  show ?thesis
  proof (cases "in_range 0x40 0x7e b")
    case True
    then show ?thesis
      using control_state_dead [OF d(1), of b] control_state_dead [OF d(2), of b] assms
      by (simp add: same_modes_set_parser)
  next
    case False
    then obtain p q where "dead p" "control_state b s = s\<lparr>parser := p\<rparr>" "dead q" "control_state b t = t\<lparr>parser := q\<rparr>"
      using control_state_dead [OF d(1), of b] control_state_dead [OF d(2), of b] by auto
    then show ?thesis using assms by (simp add: same_modes_set_parser same_parser_def)
  qed
qed

lemma same_modes_control: "same_modes s t \<Longrightarrow> same_modes (control b s) (control b t)"
  by (simp add: control_def same_modes_set_parser same_modes_control_state)

lemma same_modes_step:
  assumes "same_modes s t"
  shows "same_modes (advance_byte b s) (advance_byte b t)"
proof -
  have u: "utf8 t = utf8 s" using assms by (simp add: same_modes_def)
  have after: "same_modes (control c (s\<lparr>utf8 := []\<rparr>)) (control c (t\<lparr>utf8 := []\<rparr>))" for c
    by (intro same_modes_control same_modes_set_utf8 assms)
  have u2: "utf8 (control c (s\<lparr>utf8 := []\<rparr>)) = []" "utf8 (control c (t\<lparr>utf8 := []\<rparr>)) = []" for c
    by (simp_all add: control_utf8)
  show ?thesis unfolding advance_byte_def u Let_def
    by (cases "utf8 s = []"; cases "from_utf8 (utf8 s @ [b])")
      (auto simp: assms u2 intro: same_modes_control same_modes_set_utf8 after split: option.split)
qed

lemma same_modes_advance: "same_modes s t \<Longrightarrow> same_modes (advance bs s) (advance bs t)"
  by (induction bs arbitrary: s t) (simp_all add: same_modes_step)

section \<open>Replaying a checkpoint\<close>

lemma parse_mode_snoc:
  "parse_mode n (ds @ [d]) = Option.bind (parse_mode n ds)
     (\<lambda>m. Option.bind (checked_mul m 10) (\<lambda>k. checked_add k (of_nat (byte_val d - 48))))"
proof (induction ds arbitrary: n)
  case Nil
  show ?case by (cases "checked_mul n 10") (simp_all add: bind_eq_None_conv split: option.split)
next
  case (Cons c ds)
  show ?case
    by (cases "checked_mul n 10"; cases "checked_add (the (checked_mul n 10)) (of_nat (byte_val c - 48))")
      (simp_all add: Cons.IH)
qed

lemma parse_show_nat: "k < 65536 \<Longrightarrow> parse_mode 0 (show_nat k) = Some (of_nat k)"
proof (induction k rule: show_nat.induct)
  case (1 k)
  show ?case
  proof (cases "k < 10")
    case True
    then show ?thesis
      by (subst show_nat.simps) (simp add: checked_mul_def checked_add_def unat_of_nat)
  next
    case False
    then have ih: "parse_mode 0 (show_nat (k div 10)) = Some (of_nat (k div 10))" using 1 by simp
    have "unat (of_nat (k div 10) :: u16) = k div 10" using 1(2) by (simp add: unat_of_nat)
    then have mul: "checked_mul (of_nat (k div 10) :: u16) 10 = Some (of_nat (k div 10 * 10))"
      using 1(2) by (simp add: checked_mul_def)
    have val: "unat (of_nat (k div 10 * 10) :: u16) = k div 10 * 10" using 1(2) by (simp add: unat_of_nat del: of_nat_mult)
    have dig: "unat (of_nat (k mod 10) :: u16) = k mod 10" by (simp add: unat_of_nat)
    have k: "k div 10 * 10 + k mod 10 = k" by simp
    have "of_nat (k div 10 * 10) + of_nat (k mod 10) = (of_nat k :: u16)"
      unfolding of_nat_add [symmetric] k by (rule refl)
    then have add: "checked_add (of_nat (k div 10 * 10) :: u16) (of_nat (k mod 10)) = Some (of_nat k)"
      unfolding checked_add_def val dig k using 1(2) by simp
    show ?thesis using False ih mul add
      by (subst show_nat.simps) (simp add: parse_mode_snoc del: of_nat_mult)
  qed
qed

lemma show_nat_in_range: "list_all (in_range 48 57) (show_nat k)"
  using show_nat_digits [of k] by (auto simp: list_all_iff is_digit_def)

lemma show_nat_short: "k < 65536 \<Longrightarrow> length (show_nat k) \<le> 5"
  using show_nat_length [of k 5] by simp

definition ready :: "replay_modes \<Rightarrow> bool" where
  "ready t \<longleftrightarrow> parser t = Ground \<and> utf8 t = []"

lemma advance_control:
  "utf8 t = [] \<Longrightarrow> byte_val b < 0x80 \<or> b = OTHER \<Longrightarrow> advance_byte b t = control b t"
  by (auto simp: advance_byte_def)

lemma advance_escape: "utf8 t = [] \<Longrightarrow> advance (ESC # bs) t = advance bs (t\<lparr>parser := Escape []\<rparr>)"
  by (simp add: advance_control control_def)

lemma advance_csi_start: "utf8 t = [] \<Longrightarrow> advance (ESC # CHR ''['' # bs) t = advance bs (t\<lparr>parser := Csi []\<rparr>)"
  by (simp add: advance_escape) (simp add: advance_control control_def control_state_def escape_byte_def)

lemma advance_params:
  "parser t = Csi ps \<Longrightarrow> utf8 t = [] \<Longrightarrow> list_all (\<lambda>b. in_range 0x20 0x3f b \<or> b = OTHER) qs \<Longrightarrow>
   length ps + length qs \<le> 128 \<Longrightarrow> advance qs t = t\<lparr>parser := Csi (ps @ qs)\<rparr>"
proof (induction qs arbitrary: ps t)
  case (Cons q qs)
  have q: "in_range 0x20 0x3f q \<or> q = OTHER" using Cons.prems(3) by simp
  then have "advance_byte q t = control q t" using Cons.prems(2) by (intro advance_control) auto
  also have "control q t = t\<lparr>parser := Csi (ps @ [q])\<rparr>"
    using q Cons.prems(1,4) by (auto simp: control_def control_state_def csi_byte_def MAX_SEQUENCE_BYTES_def)
  finally show ?case using Cons by simp
qed simp

lemma advance_intermediates:
  "parser t = Escape ps \<Longrightarrow> utf8 t = [] \<Longrightarrow> list_all (in_range 0x20 0x2f) qs \<Longrightarrow>
   length ps + length qs \<le> 128 \<Longrightarrow> advance qs t = t\<lparr>parser := Escape (ps @ qs)\<rparr>"
proof (induction qs arbitrary: ps t)
  case (Cons q qs)
  have q: "in_range 0x20 0x2f q" using Cons.prems(3) by simp
  then have "advance_byte q t = control q t" using Cons.prems(2) by (intro advance_control) auto
  also have "control q t = t\<lparr>parser := Escape (ps @ [q])\<rparr>"
  proof -
    have "control q t = escape_byte ps q t"
      using q Cons.prems(1) by (auto simp: control_def control_state_def)
    moreover have "q \<noteq> CHR ''['' \<and> q \<notin> string_kinds" using q by (auto simp: string_kinds_def)
    moreover have "escape_effect q t = t" using q by (auto simp: escape_effect_def)
    ultimately show ?thesis using q Cons.prems(4) by (simp add: escape_byte_def MAX_SEQUENCE_BYTES_def)
  qed
  finally show ?case using Cons by simp
qed simp

lemma advance_private_mode:
  assumes "ready t" and "a \<in> {CHR ''h'', CHR ''l''}"
  shows "advance (private_mode n a) t = set_mode (a = CHR ''h'') n t"
proof -
  let ?ds = "show_nat (unat n)"
  have "unat n < 2 ^ LENGTH(16)" by (rule unsigned_less)
  then have n: "unat n < 65536" by simp
  have digits: "list_all (\<lambda>b. in_range 0x20 0x3f b \<or> b = OTHER) (CHR ''?'' # ?ds)"
    using show_nat_in_range [of "unat n"] by (auto simp: list_all_iff)
  have "advance (CHR ''?'' # ?ds) (t\<lparr>parser := Csi []\<rparr>) = t\<lparr>parser := Csi (CHR ''?'' # ?ds)\<rparr>"
    using advance_params [OF _ _ digits, of "t\<lparr>parser := Csi []\<rparr>" "[]"] assms(1) show_nat_short [OF n]
    by (simp add: ready_def)
  moreover have "private_mode n a = ESC # CHR ''['' # ((CHR ''?'' # ?ds) @ [a])"
    by (simp add: private_mode_def)
  ultimately have "advance (private_mode n a) t = advance [a] (t\<lparr>parser := Csi (CHR ''?'' # ?ds)\<rparr>)"
    using assms(1) advance_csi_start [of t "(CHR ''?'' # ?ds) @ [a]"] by (simp only: advance_append ready_def)
  also have "\<dots> = (csi (CHR ''?'' # ?ds) a (t\<lparr>parser := Csi (CHR ''?'' # ?ds)\<rparr>))\<lparr>parser := Ground\<rparr>"
    using assms by (auto simp: ready_def advance_control control_def control_state_def csi_byte_def)
  also have "\<dots> = set_mode (a = CHR ''h'') n t"
  proof -
    have "CHR '';'' \<notin> set ?ds" using show_nat_in_range [of "unat n"] by (auto simp: list_all_iff)
    then have "csi (CHR ''?'' # ?ds) a s1 = set_mode (a = CHR ''h'') n s1" for s1
      using assms(2) show_nat_in_range [of "unat n"] parse_show_nat [OF n]
      by (auto simp: csi_def split_on_piece apply_param_def list_all_iff)
    then show ?thesis using assms(1) by (auto simp: set_mode_def ready_def split: option.split)
  qed
  finally show ?thesis .
qed

lemma ready_upd [simp]:
  "ready (t\<lparr>alternate := x\<rparr>) = ready t" "ready (t\<lparr>application_keypad := x\<rparr>) = ready t"
  "ready (t\<lparr>mouse := y\<rparr>) = ready t" "ready (t\<lparr>encoding := y\<rparr>) = ready t" "ready (t\<lparr>modes := z\<rparr>) = ready t"
  by (simp_all add: ready_def)

lemma replay_alternate:
  assumes "ready t" and "\<not> alternate t"
  shows "advance (if x then ESC # ''[?1049h'' else []) t = t\<lparr>alternate := x\<rparr>"
proof -
  have "private_mode 1049 CHR ''h'' = ESC # ''[?1049h''"
    by (simp add: private_mode_def show_nat.simps char_of_eq_iff)
  then show ?thesis using advance_private_mode [OF assms(1), of "CHR ''h''" 1049] assms(2)
    by (simp add: set_mode_def)
qed

lemma replay_keypad:
  assumes "ready t" and "\<not> application_keypad t"
  shows "advance (if x then [ESC, CHR ''='']  else []) t = t\<lparr>application_keypad := x\<rparr>"
  using assms
  by (simp add: ready_def advance_control control_def control_state_def escape_byte_def
      escape_effect_def string_kinds_def)

lemma replay_mouse:
  assumes "ready t" and "mouse t = None" and "m \<in> {None, Some 9, Some 1000, Some 1002, Some 1003}"
  shows "advance (opt_mode_bytes m) t = t\<lparr>mouse := m\<rparr>"
  using assms advance_private_mode [OF assms(1), of "CHR ''h''"]
  by (auto simp: opt_mode_bytes_def set_mode_def)

lemma replay_encoding:
  assumes "ready t" and "encoding t = None" and "m \<in> {None, Some 1006, Some 1016}"
  shows "advance (opt_mode_bytes m) t = t\<lparr>encoding := m\<rparr>"
  using assms advance_private_mode [OF assms(1), of "CHR ''h''"]
  by (auto simp: opt_mode_bytes_def set_mode_def)

lemma set_mode_MODES:
  assumes "i < 5"
  shows "set_mode e (MODES ! i) t = t\<lparr>modes := (modes t)[i := e]\<rparr>"
proof -
  have "i = 0 \<or> i = Suc 0 \<or> i = Suc (Suc 0) \<or> i = Suc (Suc (Suc 0)) \<or> i = Suc (Suc (Suc (Suc 0)))"
    using assms by linarith
  then show ?thesis by (elim disjE) (simp_all add: set_mode_def MODES_def)
qed

lemma replay_mode:
  assumes "ready t" and "i < 5" and "modes t ! i = DEFAULT_MODES ! i"
  shows "advance (mode_bytes s i) t = t\<lparr>modes := (modes t)[i := modes s ! i]\<rparr>"
proof (cases "modes s ! i = DEFAULT_MODES ! i")
  case True
  then have "modes s ! i = modes t ! i" using assms(3) by simp
  then show ?thesis using True by (simp add: mode_bytes_def)
next
  case False
  then show ?thesis using advance_private_mode [OF assms(1)] set_mode_MODES [OF assms(2)]
    by (simp add: mode_bytes_def)
qed

lemma replay_mode_list:
  assumes "ready t" and "modes t = DEFAULT_MODES" and "length (modes s) = 5"
  shows "advance (concat (map (mode_bytes s) [0..<5])) t = t\<lparr>modes := modes s\<rparr>"
proof -
  have five: "[0..<5] = [0, 1, 2, 3, 4::nat]" by (simp add: upt_rec)
  obtain a b c d e where m: "modes s = [a, b, c, d, e]" using assms(3)
    by (auto simp: numeral_eq_Suc length_Suc_conv)
  have step: "advance (mode_bytes s i) (t\<lparr>modes := ms\<rparr>) = t\<lparr>modes := ms[i := modes s ! i]\<rparr>"
    if "i < 5" "ms ! i = DEFAULT_MODES ! i" for i ms
    using replay_mode [of "t\<lparr>modes := ms\<rparr>" i] assms(1) that by simp
  have t: "t = t\<lparr>modes := DEFAULT_MODES\<rparr>" using assms(2) by simp
  show ?thesis
    by (subst t) (simp add: five advance_append step DEFAULT_MODES_def m)
qed

lemma replay_utf8: "utf8 t = [] \<Longrightarrow> u = [] \<or> pending_char u \<Longrightarrow> advance u t = t\<lparr>utf8 := u\<rparr>"
proof (induction u rule: rev_induct)
  case (snoc b u)
  show ?case
  proof (cases "u = []")
    case True
    then show ?thesis using snoc.prems pending_char_head [of b "[]"] by (auto simp: advance_byte_def)
  next
    case False
    have "pending_char (u @ [b])" using snoc.prems(2) by simp
    then have "pending_char u" "from_utf8 (u @ [b]) = Utf8_Err None"
      using pending_char_prefix False pending_char_err by blast+
    then show ?thesis using snoc False by (simp add: advance_append advance_byte_def Let_def)
  qed
qed simp

lemma replay_parser:
  assumes "ready t" and "parser_ok p"
  shows "same_modes (t\<lparr>parser := p\<rparr>) (advance (parser_bytes p) t)"
proof (cases p)
  case Ground
  then show ?thesis using assms(1) by (simp add: parser_bytes_def ready_def same_modes_def)
next
  case (Escape ims)
  then have "advance (ESC # ims) t = t\<lparr>parser := Escape ims\<rparr>"
    using assms advance_intermediates [of "t\<lparr>parser := Escape []\<rparr>" "[]" ims] advance_escape [of t ims]
    by (simp add: ready_def parser_ok_def del: advance.simps)
  then show ?thesis using Escape by (simp add: parser_bytes_def same_modes_refl del: advance.simps)
next
  case (Csi ps)
  then have "advance (ESC # CHR ''['' # ps) t = t\<lparr>parser := Csi ps\<rparr>"
    using assms advance_params [of "t\<lparr>parser := Csi []\<rparr>" "[]" ps] advance_csi_start [of t ps]
    by (simp add: ready_def parser_ok_def del: advance.simps)
  then show ?thesis using Csi by (simp add: parser_bytes_def same_modes_refl del: advance.simps)
next
  case IgnoreCsi
  have "advance (ESC # CHR ''['' # ''0?'') t = t\<lparr>parser := Csi ''0?''\<rparr>"
    using assms(1) advance_params [of "t\<lparr>parser := Csi []\<rparr>" "[]" "''0?''"] advance_csi_start [of t "''0?''"]
    by (simp add: ready_def del: advance.simps)
  then show ?thesis using IgnoreCsi
    by (simp add: parser_bytes_def same_modes_def same_parser_def del: advance.simps)
next
  case (Str k)
  then have "k \<in> string_kinds" using assms(2) by (simp add: parser_ok_def)
  then have "advance [ESC, k] t = t\<lparr>parser := Str k\<rparr>"
    using assms(1) by (auto simp: ready_def advance_control control_def control_state_def
        escape_byte_def string_kinds_def)
  then show ?thesis using Str by (simp add: parser_bytes_def same_modes_refl del: advance.simps)
qed

lemma replay_prefix:
  assumes "modes_inv s"
  shows "same_modes s (advance (prefix_bytes s) default_modes)"
proof -
  have ok: "fields_ok s" "parser_ok (parser s)" "utf8 s = [] \<or> pending_char (utf8 s)"
    using assms by (simp_all add: modes_inv_def)
  define t where "t = default_modes\<lparr>alternate := alternate s, application_keypad := application_keypad s,
      mouse := mouse s, encoding := encoding s, modes := modes s\<rparr>"
  have fresh: "ready default_modes" by (simp add: ready_def default_modes_def)
  let ?t1 = "default_modes\<lparr>alternate := alternate s\<rparr>"
  let ?t2 = "?t1\<lparr>application_keypad := application_keypad s\<rparr>"
  let ?t3 = "?t2\<lparr>mouse := mouse s\<rparr>"
  let ?t4 = "?t3\<lparr>encoding := encoding s\<rparr>"
  have 1: "advance (if alternate s then ESC # ''[?1049h'' else []) default_modes = ?t1"
    using fresh by (rule replay_alternate) (simp add: default_modes_def)
  have 2: "advance (if application_keypad s then [ESC, CHR ''=''] else []) ?t1 = ?t2"
    using fresh by (intro replay_keypad) (simp_all, simp add: default_modes_def)
  have 3: "advance (opt_mode_bytes (mouse s)) ?t2 = ?t3"
    using fresh ok(1) by (intro replay_mouse) (simp_all add: fields_ok_def, simp add: default_modes_def)
  have 4: "advance (opt_mode_bytes (encoding s)) ?t3 = ?t4"
    using fresh ok(1) by (intro replay_encoding) (simp_all add: fields_ok_def, simp add: default_modes_def)
  have 5: "advance (concat (map (mode_bytes s) [0..<5])) ?t4 = t"
    unfolding t_def using fresh ok(1)
    by (intro replay_mode_list) (simp_all add: fields_ok_def, simp add: default_modes_def)
  have "advance (prefix_bytes s) default_modes =
      advance (utf8 s) (advance (parser_bytes (parser s)) t)"
    by (simp only: prefix_bytes_def advance_append list.map concat.simps append_Nil2 1 2 3 4 5)
  moreover have ready: "ready t" using fresh by (simp add: t_def)
  have same: "same_modes (t\<lparr>parser := parser s\<rparr>) (advance (parser_bytes (parser s)) t)"
    by (rule replay_parser [OF ready ok(2)])
  then have "utf8 (advance (parser_bytes (parser s)) t) = []"
    using ready by (simp add: same_modes_def ready_def)
  then have "advance (utf8 s) (advance (parser_bytes (parser s)) t) =
      (advance (parser_bytes (parser s)) t)\<lparr>utf8 := utf8 s\<rparr>"
    by (rule replay_utf8 [OF _ ok(3)])
  moreover have "t\<lparr>parser := parser s, utf8 := utf8 s\<rparr> = s" by (simp add: t_def)
  ultimately show ?thesis using same_modes_set_utf8 [OF same, of "utf8 s"] by simp
qed

lemma prefix_parts_length:
  "length (opt_mode_bytes m) \<le> 9" "length (mode_bytes s i) \<le> 9"
  "parser_ok p \<Longrightarrow> length (parser_bytes p) \<le> 130"
proof -
  have "length (private_mode n a) \<le> 9" for n a
  proof -
    have "unat n < 2 ^ LENGTH(16)" by (rule unsigned_less)
    then show ?thesis using show_nat_short [of "unat n"] by (simp add: private_mode_def)
  qed
  then show "length (opt_mode_bytes m) \<le> 9" "length (mode_bytes s i) \<le> 9"
    by (auto simp: opt_mode_bytes_def mode_bytes_def split: option.split)
  show "parser_ok p \<Longrightarrow> length (parser_bytes p) \<le> 130"
    by (cases p) (simp_all add: parser_bytes_def parser_ok_def)
qed

section \<open>Properties\<close>

text \<open>
  C38: The checkpoint is faithful. Split any byte stream into an evicted part and a retained part;
  replaying the prefix written from the checkpoint of the evicted part and then the retained part
  ends with the same modes, screen buffer, mouse tracking, mouse encoding, keypad and partial
  character as the whole stream, and in the same parser state, or both in a sequence that can have
  no effect.
\<close>

theorem checkpoint_replay:
  "let s = advance evicted default_modes;
       t = advance retained (advance (prefix_bytes s) default_modes);
       u = advance (evicted @ retained) default_modes in
   modes t = modes u \<and> alternate t = alternate u \<and> mouse t = mouse u \<and> encoding t = encoding u \<and>
   application_keypad t = application_keypad u \<and> utf8 t = utf8 u \<and>
   (parser t = parser u \<or> dead (parser t) \<and> dead (parser u))"
proof -
  have "same_modes (advance retained (advance evicted default_modes))
      (advance retained (advance (prefix_bytes (advance evicted default_modes)) default_modes))"
    by (rule same_modes_advance [OF replay_prefix [OF advance_inv]])
  then show ?thesis unfolding Let_def advance_append
    by (auto simp: same_modes_def same_parser_def)
qed

text \<open>
  The checkpoint is bounded: after any input the written prefix is at most 206 bytes, an
  unfinished sequence keeps at most 128 bytes and an unfinished character at most three.
\<close>

theorem checkpoint_bounded:
  "let s = advance bs default_modes in
   length (prefix_bytes s) \<le> 206 \<and> length (utf8 s) \<le> 3 \<and>
   (\<forall>ps. parser s = Csi ps \<or> parser s = Escape ps \<longrightarrow> length ps \<le> 128)"
proof -
  define s where "s = advance bs default_modes"
  have inv: "modes_inv s" unfolding s_def by (rule advance_inv)
  then have ok: "parser_ok (parser s)" by (simp add: modes_inv_def)
  have u: "length (utf8 s) \<le> 3"
    using inv pending_char_length by (auto simp: modes_inv_def)
  have five: "[0..<5] = [0, 1, 2, 3, 4::nat]" by (simp add: upt_rec)
  have "length (concat (map (mode_bytes s) [0..<5])) \<le> 45"
    using prefix_parts_length(2) [of s 0] prefix_parts_length(2) [of s 1] prefix_parts_length(2) [of s 2]
      prefix_parts_length(2) [of s 3] prefix_parts_length(2) [of s 4] by (simp add: five)
  moreover have "length (concat (map opt_mode_bytes [mouse s, encoding s])) \<le> 18"
    using prefix_parts_length(1) [of "mouse s"] prefix_parts_length(1) [of "encoding s"] by simp
  ultimately have "length (prefix_bytes s) \<le> 206"
    using prefix_parts_length(3) [OF ok] u by (simp add: prefix_bytes_def)
  moreover have "\<forall>ps. parser s = Csi ps \<or> parser s = Escape ps \<longrightarrow> length ps \<le> 128"
    using ok by (auto simp: parser_ok_def)
  ultimately show ?thesis using u unfolding Let_def s_def [symmetric] by blast
qed

theorem checkpoint_bounded_witness:
  "length (prefix_bytes (advance (ESC # ''[?1004h'' @ ESC # ''[?25'') default_modes)) \<le> 206"
  using checkpoint_bounded [of "ESC # ''[?1004h'' @ ESC # ''[?25''"] unfolding Let_def by (rule conjunct1)

text \<open>
  Text inside a control string never becomes a mode: while the parser is inside an OSC, DCS,
  SOS, PM or APC string, ASCII bytes other than CAN, SUB and ESC (and, for an OSC, BEL) leave the
  whole checkpoint unchanged.
\<close>

theorem string_payload_inert:
  assumes "parser s = Str k" and "utf8 s = []"
    and "list_all (\<lambda>b. byte_val b < 0x80 \<and> byte_val b \<notin> {0x18, 0x1a, 0x1b} \<and> (k = CHR '']'' \<longrightarrow> byte_val b \<noteq> 0x07)) bs"
  shows "advance bs s = s"
  using assms(3)
proof (induction bs)
  case (Cons b bs)
  then have "advance_byte b s = s"
    using assms(1,2) by (auto simp: advance_byte_def control_def control_state_def)
  then show ?case using Cons by simp
qed simp

theorem string_payload_inert_witness:
  "advance ''0;[?1049h'' (advance (ESC # '']'') default_modes) = advance (ESC # '']'') default_modes"
  by (rule string_payload_inert [where k = "CHR '']''"])
    (simp_all add: advance_byte_def control_def control_state_def escape_byte_def string_kinds_def default_modes_def)

end
