(* ===== verification/Plan_Graph.thy ===== *)
theory Plan_Graph
  imports Prelude
begin

text \<open>
  The cycle check of a plan, the local function \<open>visit\<close> of \<open>PlanRevision::validate\<close> in
  \<^verbatim>\<open>crates/orkworksd/src/taskmaster/coordinator.rs\<close>: a depth-first search that threads the two mutable
  sets of the source. The recursion is bounded by fuel; running out of fuel and indexing a missing
  node (a panic in Rust) are outcomes of the model, and both are shown not to occur.
\<close>

section \<open>The search\<close>

type_synonym 'n graph = "('n \<times> 'n list) list"

datatype visit_error = GraphCycle | MissingNode | OutOfFuel

record 'n dfs =
  visiting :: "'n set"
  visited :: "'n set"

fun visit :: "nat \<Rightarrow> 'n graph \<Rightarrow> 'n \<Rightarrow> 'n dfs \<Rightarrow> visit_error + 'n dfs" where
  "visit 0 g name st = Inl OutOfFuel"
| "visit (Suc n) g name st =
     (if name \<in> visited st then Inr st
      else if name \<in> visiting st then Inl GraphCycle
      else case map_of g name of
             None \<Rightarrow> Inl MissingNode
           | Some succs \<Rightarrow>
               (case try_each (visit n g) succs (st\<lparr>visiting := insert name (visiting st)\<rparr>) of
                  Inl e \<Rightarrow> Inl e
                | Inr st1 \<Rightarrow> Inr \<lparr>visiting = visiting st1 - {name}, visited = insert name (visited st1)\<rparr>))"

definition check_dag :: "'n graph \<Rightarrow> visit_error + 'n dfs" where
  "check_dag g = try_each (visit (Suc (length g)) g) (map fst g) \<lparr>visiting = {}, visited = {}\<rparr>"

section \<open>Correctness\<close>

definition edges :: "'n graph \<Rightarrow> ('n \<times> 'n) set" where
  "edges g = {(a, b). \<exists>succs. map_of g a = Some succs \<and> b \<in> set succs}"

definition closed_graph :: "'n graph \<Rightarrow> bool" where
  "closed_graph g \<longleftrightarrow> (\<forall>(a, succs) \<in> set g. set succs \<subseteq> fst ` set g)"

text \<open>
  Between calls: the finished nodes are known, disjoint from the path, closed under edges and on no
  cycle.
\<close>

definition dfs_inv :: "'n graph \<Rightarrow> 'n dfs \<Rightarrow> bool" where
  "dfs_inv g st \<longleftrightarrow> visiting st \<subseteq> fst ` set g \<and> visited st \<subseteq> fst ` set g \<and>
     visiting st \<inter> visited st = {} \<and>
     (\<forall>a b. a \<in> visited st \<longrightarrow> (a, b) \<in> edges g \<longrightarrow> b \<in> visited st) \<and>
     (\<forall>a \<in> visited st. (a, a) \<notin> (edges g)\<^sup>+)"

text \<open>What one call, or a run of calls from the same path, promises.\<close>

definition dfs_post :: "'n graph \<Rightarrow> 'n set \<Rightarrow> 'n dfs \<Rightarrow> visit_error + 'n dfs \<Rightarrow> bool" where
  "dfs_post g names st res \<longleftrightarrow>
     (case res of
        Inl e \<Rightarrow> e = GraphCycle \<and> (\<exists>x. (x, x) \<in> (edges g)\<^sup>+)
      | Inr st1 \<Rightarrow> dfs_inv g st1 \<and> visiting st1 = visiting st \<and> visited st \<subseteq> visited st1 \<and> names \<subseteq> visited st1)"

lemma edges_closed: "closed_graph g \<Longrightarrow> (a, b) \<in> edges g \<Longrightarrow> b \<in> fst ` set g"
  by (fastforce simp: edges_def closed_graph_def dest: map_of_SomeD)

lemma visited_closed:
  assumes "dfs_inv g st" and "a \<in> visited st" and "(a, b) \<in> (edges g)\<^sup>*"
  shows "b \<in> visited st"
  using assms(3) by (induction rule: rtrancl_induct) (use assms(1,2) in \<open>auto simp: dfs_inv_def\<close>)

lemma try_each_post:
  assumes "\<And>x st. x \<in> set xs \<Longrightarrow> dfs_inv g st \<Longrightarrow> visiting st = V \<Longrightarrow> dfs_post g {x} st (f x st)"
    and "dfs_inv g st" and "visiting st = V"
  shows "dfs_post g (set xs) st (try_each f xs st)"
  using assms
proof (induction xs arbitrary: st)
  case Nil
  then show ?case by (simp add: dfs_post_def)
next
  case (Cons x xs)
  have hd: "dfs_post g {x} st (f x st)" using Cons.prems by simp
  show ?case
  proof (cases "f x st")
    case (Inl e)
    then show ?thesis using hd by (simp add: dfs_post_def)
  next
    case (Inr st1)
    then have "dfs_inv g st1" "visiting st1 = V" and grow: "visited st \<subseteq> visited st1" "x \<in> visited st1"
      using hd Cons.prems(3) by (auto simp: dfs_post_def)
    then have "dfs_post g (set xs) st1 (try_each f xs st1)" using Cons by simp
    then show ?thesis using Inr grow \<open>visiting st1 = V\<close> Cons.prems(3)
      by (auto simp: dfs_post_def split: sum.splits)
  qed
qed

lemma finish_node:
  assumes "dfs_inv g st" and "map_of g name = Some succs" and "name \<notin> visiting st" and "name \<notin> visited st"
    and "dfs_post g (set succs) (st\<lparr>visiting := insert name (visiting st)\<rparr>) (Inr st1)"
  shows "dfs_post g {name} st (Inr \<lparr>visiting = visiting st1 - {name}, visited = insert name (visited st1)\<rparr>)"
proof -
  have inv1: "dfs_inv g st1" and vis: "visiting st1 = insert name (visiting st)"
    and grow: "visited st \<subseteq> visited st1" and succs: "set succs \<subseteq> visited st1"
    using assms(5) by (simp_all add: dfs_post_def)
  have new: "name \<notin> visited st1" using inv1 vis by (auto simp: dfs_inv_def)
  have out: "(name, b) \<in> edges g \<Longrightarrow> b \<in> visited st1" for b
    using assms(2) succs by (auto simp: edges_def)
  have "(name, name) \<notin> (edges g)\<^sup>+"
  proof
    assume "(name, name) \<in> (edges g)\<^sup>+"
    then obtain c where "(name, c) \<in> edges g" "(c, name) \<in> (edges g)\<^sup>*" by (meson tranclD)
    then have "name \<in> visited st1" using out visited_closed [OF inv1] by blast
    with new show False ..
  qed
  moreover have "name \<in> fst ` set g" using map_of_SomeD [OF assms(2)] by force
  moreover have "visiting st1 - {name} = visiting st" using vis assms(3) by auto
  ultimately show ?thesis using inv1 vis grow out assms(1,3) by (auto simp: dfs_post_def dfs_inv_def)
qed

lemma visit_post:
  assumes "closed_graph g" and "dfs_inv g st" and "name \<in> fst ` set g"
    and "\<forall>v \<in> visiting st. (v, name) \<in> (edges g)\<^sup>+"
    and "card (fst ` set g - visiting st) < n"
  shows "dfs_post g {name} st (visit n g name st)"
  using assms(2-)
proof (induction n arbitrary: name st)
  case (Suc n)
  consider "name \<in> visited st" | "name \<notin> visited st" "name \<in> visiting st"
    | "name \<notin> visited st" "name \<notin> visiting st" by blast
  then show ?case
  proof cases
    case 1
    then show ?thesis using Suc.prems by (simp add: dfs_post_def)
  next
    case 2
    then show ?thesis using Suc.prems(3) by (auto simp: dfs_post_def)
  next
    case 3
    obtain succs where succs: "map_of g name = Some succs"
      using Suc.prems(2) by (metis domD dom_map_of_conv_image_fst)
    define st0 where "st0 = st\<lparr>visiting := insert name (visiting st)\<rparr>"
    have inv0: "dfs_inv g st0" using Suc.prems(1,2) 3 by (auto simp: st0_def dfs_inv_def)
    have less: "card (fst ` set g - visiting st0) < n"
      using Suc.prems(2,4) 3(2) card_Diff1_less [of "fst ` set g - visiting st" name]
      by (simp add: st0_def Diff_insert [symmetric])
    have "dfs_post g (set succs) st0 (try_each (visit n g) succs st0)"
    proof (rule try_each_post [OF _ inv0, where V = "visiting st0"])
      fix x and st' :: "'a dfs" assume x: "x \<in> set succs" and inv: "dfs_inv g st'" and vis: "visiting st' = visiting st0"
      have e: "(name, x) \<in> edges g" using succs x by (auto simp: edges_def)
      then have "\<forall>v \<in> visiting st'. (v, x) \<in> (edges g)\<^sup>+"
        using Suc.prems(3) vis by (auto simp: st0_def intro: trancl.trancl_into_trancl)
      then show "dfs_post g {x} st' (visit n g x st')"
        using Suc.IH [OF inv edges_closed [OF assms(1) e]] less vis by simp
    qed simp
    then show ?thesis using 3 succs finish_node [OF Suc.prems(1) succs 3(2,1)] unfolding st0_def
      by (auto simp: dfs_post_def split: sum.splits)
  qed
qed simp

lemma check_dag_post:
  assumes "closed_graph g"
  shows "dfs_post g (fst ` set g) \<lparr>visiting = {}, visited = {}\<rparr> (check_dag g)"
proof -
  have "card (fst ` set g) \<le> length g" by (metis card_length length_map set_map)
  then have "dfs_post g {x} st (visit (Suc (length g)) g x st)"
    if "x \<in> set (map fst g)" "dfs_inv g st" "visiting st = {}" for x st
    using visit_post [OF assms that(2), of x "Suc (length g)"] that by (simp del: visit.simps)
  moreover have "dfs_inv g \<lparr>visiting = {}, visited = {}\<rparr>" by (simp add: dfs_inv_def)
  ultimately show ?thesis unfolding check_dag_def
    using try_each_post [of "map fst g" g "{}"] by fastforce
qed

lemma edges_source: "(a, b) \<in> (edges g)\<^sup>+ \<Longrightarrow> a \<in> fst ` set g"
  by (induction rule: converse_trancl_induct) (force simp: edges_def dest: map_of_SomeD)+

lemma check_dag_acyclic:
  assumes "closed_graph g"
  shows "(\<exists>st. check_dag g = Inr st) \<longleftrightarrow> acyclic (edges g)"
    and "\<not> acyclic (edges g) \<Longrightarrow> check_dag g = Inl GraphCycle"
proof -
  have post: "dfs_post g (fst ` set g) \<lparr>visiting = {}, visited = {}\<rparr> (check_dag g)"
    by (rule check_dag_post [OF assms])
  show "(\<exists>st. check_dag g = Inr st) \<longleftrightarrow> acyclic (edges g)"
  proof
    assume "\<exists>st. check_dag g = Inr st"
    then obtain st where "dfs_inv g st" "fst ` set g \<subseteq> visited st" using post by (auto simp: dfs_post_def)
    then show "acyclic (edges g)" using edges_source by (fastforce simp: acyclic_def dfs_inv_def)
  next
    assume "acyclic (edges g)"
    then show "\<exists>st. check_dag g = Inr st" using post by (auto simp: dfs_post_def acyclic_def split: sum.splits)
  qed
  then show "\<not> acyclic (edges g) \<Longrightarrow> check_dag g = Inl GraphCycle"
    using post by (auto simp: dfs_post_def split: sum.splits)
qed

end
