(* ===== verification/Coordinator.thy ===== *)
theory Coordinator
  imports Prelude Utf8 Plan_Graph "HOL-Library.List_Lexorder" "HOL-Library.Char_ord"
begin

text \<open>
  The bounded coordinator records of \<^verbatim>\<open>crates/orkworksd/src/taskmaster/coordinator.rs\<close>: field
  validators, canonical JSON, plan nodes and revisions with their graph, budget and digest checks,
  approvals, activation, the plan status machine and capability requests. Hashing (\<open>sha2\<close>), the
  derived serialization (\<open>serde\<close>, \<open>serde_json\<close>) and RFC 3339 parsing (\<open>chrono\<close>) are other crates;
  they are the fields of \<open>codec\<close>, an argument of every definition that uses them.
\<close>

section \<open>Errors and data\<close>

datatype capability_kind =
    ReadFile | WriteFile | RunBoundedCommand | GitRead | GitMutation | Credentials
  | PermissionChange | DestructiveCommand | MergeApproval | ProviderSubstitution
  | ScopeExpansion | BudgetExpansion | RetryExpansion | ConcurrencyExpansion

text \<open>The last two outcomes belong to the model: a panic, and fuel that was too small.\<close>

datatype coordinator_error =
    Invalid string
  | HardDenied capability_kind
  | Serialization string
  | Panicked
  | FuelExhausted

type_synonym 'a outcome = "coordinator_error + 'a"

datatype attribution = Conclusive | Inconclusive

record workspace_change_subject =
  subject_workspace_id :: string
  repository_revision :: string
  dirty_paths :: "string list"
  subject_attribution :: attribution

record plan_evidence =
  evidence_version :: u32
  evidence_subject :: string
  evidence_references :: "string list"

datatype role = Implementation | Verification | Review | Remediation | Custom string

record plan_node =
  node_id :: string
  parent_id :: "string option"
  task :: string
  success_criteria :: "string list"
  prompt_context :: string
  prompt_context_digest :: string
  output_contract :: string
  node_scope :: "string list"
  node_role :: role
  allowed_tools :: "string list"
  provider_allowlist :: "string list"
  dependencies :: "string list"
  budget_units :: u64
  retry_limit :: u32
  concurrency_class :: string

text \<open>A revision, and the shape it is stored in, is a proposal with its two digests.\<close>

record plan_proposal =
  plan_version :: u32
  instance_id :: string
  workspace_id :: string
  plan_id :: string
  revision :: u64
  revocation_generation :: u64
  supersedes :: "string option"
  subject :: workspace_change_subject
  evidence :: plan_evidence
  nodes :: "plan_node list"
  total_budget_units :: u64
  max_concurrency :: u32

record plan_revision = plan_proposal +
  plan_digest :: string
  evidence_digest :: string

datatype json =
    JNull
  | JBool bool
  | JNumber string
  | JString string
  | JArray "json list"
  | JObject "(string \<times> json) list"

type_synonym datetime = int

text \<open>What the other crates provide.\<close>

record codec =
  sha256_hex :: "string \<Rightarrow> string"
  material_value :: "plan_proposal \<Rightarrow> string + json"
  evidence_value :: "u32 \<times> workspace_change_subject \<times> plan_evidence \<Rightarrow> string + json"
  scalar_bytes :: "json \<Rightarrow> string + string"
  serialized_len :: "plan_revision \<Rightarrow> string + nat"
  decode_persisted :: "string \<Rightarrow> string + plan_revision"
  show_error :: "coordinator_error \<Rightarrow> string"
  parse_time :: "string \<Rightarrow> datetime option"

definition ser :: "string + 'a \<Rightarrow> 'a outcome" where
  "ser r = (case r of Inl e \<Rightarrow> Inl (Serialization e) | Inr x \<Rightarrow> Inr x)"

definition MAX_ID :: nat where "MAX_ID = 128"
definition MAX_TEXT :: nat where "MAX_TEXT = 16 * 1024"
definition MAX_ITEMS :: nat where "MAX_ITEMS = 256"
definition MAX_NODES :: nat where "MAX_NODES = 128"
definition MAX_PERSISTED_REVISION_BYTES :: nat where "MAX_PERSISTED_REVISION_BYTES = 2 * 1024 * 1024"

section \<open>Field validators\<close>

definition bounded :: "string \<Rightarrow> nat \<Rightarrow> string \<Rightarrow> unit outcome" where
  "bounded v limit field = refuse_if (v = [] \<or> length v > limit \<or> has_control v) (Invalid field)"

text \<open>A control character other than newline, carriage return and tab.\<close>

fun has_odd_control :: "string \<Rightarrow> bool" where
  "has_odd_control [] = False"
| "has_odd_control (c # cs) =
     ((byte_val c < 32 \<and> byte_val c \<notin> {9, 10, 13}) \<or> byte_val c = 127 \<or>
      (byte_val c = 194 \<and> (case cs of [] \<Rightarrow> False | d # _ \<Rightarrow> 128 \<le> byte_val d \<and> byte_val d < 160)) \<or>
      has_odd_control cs)"

definition prose :: "string \<Rightarrow> nat \<Rightarrow> string \<Rightarrow> unit outcome" where
  "prose v limit field = refuse_if (v = [] \<or> length v > limit \<or> has_odd_control v) (Invalid field)"

definition prose_list :: "string list \<Rightarrow> string \<Rightarrow> unit outcome" where
  "prose_list vs field = first_error
     (refuse_if (length vs > MAX_ITEMS) (Invalid field) # map (\<lambda>v. prose v MAX_TEXT field) vs)"

definition ident :: "string \<Rightarrow> string \<Rightarrow> unit outcome" where
  "ident v field = first_error
     [bounded v MAX_ID field,
      refuse_if (\<not> list_all (\<lambda>b. ascii_alphanumeric b \<or> b \<in> set ''._-'') v) (Invalid field)]"

definition opt_ident :: "string option \<Rightarrow> string \<Rightarrow> unit outcome" where
  "opt_ident v field = (case v of None \<Rightarrow> Inr () | Some x \<Rightarrow> ident x field)"

definition strings :: "string list \<Rightarrow> nat \<Rightarrow> string \<Rightarrow> unit outcome" where
  "strings vs limit field = first_error
     (refuse_if (length vs > MAX_ITEMS) (Invalid field) # map (\<lambda>v. bounded v limit field) vs)"

definition digest :: "string \<Rightarrow> string \<Rightarrow> unit outcome" where
  "digest v field = refuse_if (length v \<noteq> 64 \<or> \<not> list_all ascii_hexdigit v) (Invalid field)"

definition noncanonical_path :: "string \<Rightarrow> bool" where
  "noncanonical_path path \<longleftrightarrow>
     take 1 path = ''/'' \<or> (1 < length path \<and> path ! 1 = CHR '':'') \<or> CHR 0x5C \<in> set path \<or>
     list_ex (\<lambda>part. part = [] \<or> part = ''.'' \<or> part = ''..'') (split_on CHR ''/'' path)"

definition scopes :: "string list \<Rightarrow> unit outcome" where
  "scopes vs = first_error
     (strings vs MAX_TEXT ''scope'' #
      map (\<lambda>path. refuse_if (noncanonical_path path) (Invalid ''noncanonical scope'')) vs)"

definition known_tool :: "string \<Rightarrow> unit outcome" where
  "known_tool tool = first_error
     [ident tool ''tool id'',
      refuse_if (tool \<notin> {''read_file'', ''write_file'', ''run_bounded_command'', ''git_read''})
        (Invalid ''unknown tool'')]"

section \<open>Canonical JSON\<close>

fun sequence_ok :: "'a outcome list \<Rightarrow> 'a list outcome" where
  "sequence_ok [] = Inr []"
| "sequence_ok (r # rs) = and_then r (\<lambda>x. and_then (sequence_ok rs) (\<lambda>xs. Inr (x # xs)))"

definition bracketed :: "byte \<Rightarrow> byte \<Rightarrow> string outcome list \<Rightarrow> string outcome" where
  "bracketed l r items = and_then (sequence_ok items) (\<lambda>xs. Inr (l # join CHR '','' xs @ [r]))"

definition member_bytes :: "codec \<Rightarrow> string \<times> string outcome \<Rightarrow> string outcome" where
  "member_bytes c kv =
     and_then (ser (scalar_bytes c (JString (fst kv)))) (\<lambda>k.
       and_then (snd kv) (\<lambda>v. Inr (k @ CHR '':'' # v)))"

lemma json_member_size: "kv \<in> set kvs \<Longrightarrow> size (snd kv) < Suc (size_list (size_prod (\<lambda>_. 0) size) kvs)"
proof (induction kvs)
  case (Cons a kvs)
  then show ?case by (cases "kv = a") (auto simp: size_prod_simp)
qed simp

function canonical_value :: "codec \<Rightarrow> json \<Rightarrow> string outcome" where
  "canonical_value c (JObject kvs) =
     bracketed CHR ''{'' CHR ''}'' (map (member_bytes c)
       (sort_key fst (map (\<lambda>kv. (fst kv, canonical_value c (snd kv))) kvs)))"
| "canonical_value c (JArray items) = bracketed CHR ''['' CHR '']'' (map (canonical_value c) items)"
| "canonical_value c JNull = ser (scalar_bytes c JNull)"
| "canonical_value c (JBool b) = ser (scalar_bytes c (JBool b))"
| "canonical_value c (JNumber n) = ser (scalar_bytes c (JNumber n))"
| "canonical_value c (JString s) = ser (scalar_bytes c (JString s))"
  by pat_completeness auto

termination
  by (relation "measure (\<lambda>(c, v). size v)") (auto simp: json_member_size less_Suc_eq_le size_list_estimation')

definition canonical_json_bytes :: "codec \<Rightarrow> string + json \<Rightarrow> string outcome" where
  "canonical_json_bytes c value = and_then (ser value) (canonical_value c)"

section \<open>Nodes and revisions\<close>

definition validate_node :: "codec \<Rightarrow> plan_node \<Rightarrow> unit outcome" where
  "validate_node c n = first_error
     ([ident (node_id n) ''node id'',
       opt_ident (parent_id n) ''parent id'',
       prose (task n) MAX_TEXT ''task'',
       refuse_if (success_criteria n = []) (Invalid ''success criteria''),
       prose_list (success_criteria n) ''success criteria'',
       prose (prompt_context n) MAX_TEXT ''prompt context'',
       digest (prompt_context_digest n) ''prompt digest'',
       refuse_if (prompt_context_digest n \<noteq> sha256_hex c (prompt_context n)) (Invalid ''prompt digest''),
       prose (output_contract n) MAX_TEXT ''output contract'',
       refuse_if (node_scope n = []) (Invalid ''scope''),
       scopes (node_scope n),
       refuse_if (allowed_tools n = []) (Invalid ''allowed tools''),
       strings (allowed_tools n) MAX_ID ''allowed tools''] @
      map known_tool (allowed_tools n) @
      [refuse_if (provider_allowlist n = []) (Invalid ''provider allowlist''),
       strings (provider_allowlist n) MAX_ID ''provider allowlist''] @
      map (\<lambda>p. ident p ''provider'') (provider_allowlist n) @
      [strings (dependencies n) MAX_ID ''dependencies''] @
      map (\<lambda>d. ident d ''dependency'') (dependencies n) @
      [bounded (concurrency_class n) MAX_ID ''concurrency class'',
       refuse_if (budget_units n = 0) (Invalid ''budget units''),
       (case node_role n of Custom name \<Rightarrow> ident name ''role'' | _ \<Rightarrow> Inr ())])"

text \<open>The loop that validates each node and collects the ids.\<close>

definition add_node :: "codec \<Rightarrow> plan_node \<Rightarrow> string set \<Rightarrow> (string set) outcome" where
  "add_node c n ids =
     and_then (validate_node c n) (\<lambda>_.
       if node_id n \<in> ids then Inl (Invalid ''duplicate node'') else Inr (insert (node_id n) ids))"

definition dangling :: "string set \<Rightarrow> plan_node \<Rightarrow> bool" where
  "dangling ids n \<longleftrightarrow> is_some_and (\<lambda>p. p \<notin> ids) (parent_id n) \<or> list_ex (\<lambda>d. d \<notin> ids) (dependencies n)"

definition plan_graph :: "plan_node list \<Rightarrow> string graph" where
  "plan_graph ns = map (\<lambda>n. (node_id n,
     (case parent_id n of None \<Rightarrow> [] | Some p \<Rightarrow> [p]) @ dependencies n)) ns"

definition acyclic_check :: "plan_node list \<Rightarrow> unit outcome" where
  "acyclic_check ns =
     (case check_dag (plan_graph ns) of
        Inr _ \<Rightarrow> Inr ()
      | Inl GraphCycle \<Rightarrow> Inl (Invalid ''graph cycle'')
      | Inl MissingNode \<Rightarrow> Inl Panicked
      | Inl OutOfFuel \<Rightarrow> Inl FuelExhausted)"

fun reserved_budget :: "u64 \<Rightarrow> plan_node list \<Rightarrow> u64 option" where
  "reserved_budget acc [] = Some acc"
| "reserved_budget acc (n # ns) =
     Option.bind (checked_add acc (budget_units n)) (\<lambda>s. reserved_budget s ns)"

definition budget_check :: "plan_node list \<Rightarrow> u64 \<Rightarrow> unit outcome" where
  "budget_check ns units =
     (case reserved_budget 0 ns of
        None \<Rightarrow> Inl (Invalid ''budget overflow'')
      | Some r \<Rightarrow> refuse_if (r > units) (Invalid ''budget''))"

definition compute_plan_digest :: "codec \<Rightarrow> plan_revision \<Rightarrow> string outcome" where
  "compute_plan_digest c p =
     and_then (canonical_json_bytes c (material_value c (plan_proposal.truncate p)))
       (\<lambda>b. Inr (sha256_hex c b))"

definition compute_evidence_digest :: "codec \<Rightarrow> plan_revision \<Rightarrow> string outcome" where
  "compute_evidence_digest c p =
     and_then (canonical_json_bytes c (evidence_value c (evidence_version (evidence p), subject p, evidence p)))
       (\<lambda>b. Inr (sha256_hex c b))"

definition ascii_uppercase :: "byte \<Rightarrow> bool" where
  "ascii_uppercase b \<longleftrightarrow> 65 \<le> byte_val b \<and> byte_val b \<le> 90"

definition nodes_check :: "codec \<Rightarrow> plan_node list \<Rightarrow> unit outcome" where
  "nodes_check c ns =
     and_then (try_each (add_node c) ns {}) (\<lambda>ids. first_error
       (map (\<lambda>n. refuse_if (dangling ids n) (Invalid ''graph reference'')) ns @ [acyclic_check ns]))"

definition validate_plan :: "codec \<Rightarrow> plan_revision \<Rightarrow> unit outcome" where
  "validate_plan c p = first_error
     [refuse_if (plan_version p \<noteq> 1 \<or> evidence_version (evidence p) \<noteq> 1) (Invalid ''version''),
      ident (instance_id p) ''instance id'',
      ident (workspace_id p) ''workspace id'',
      ident (plan_id p) ''plan id'',
      refuse_if (list_ex ascii_uppercase (plan_id p)) (Invalid ''plan id''),
      refuse_if (revision p = 0) (Invalid ''revision''),
      opt_ident (supersedes p) ''supersedes'',
      refuse_if (subject_workspace_id (subject p) \<noteq> workspace_id p \<or>
                 subject_attribution (subject p) \<noteq> Conclusive) (Invalid ''workspace change subject''),
      bounded (repository_revision (subject p)) MAX_ID ''repository revision'',
      strings (dirty_paths (subject p)) MAX_TEXT ''dirty paths'',
      prose (evidence_subject (evidence p)) MAX_TEXT ''evidence subject'',
      prose_list (evidence_references (evidence p)) ''evidence references'',
      refuse_if (nodes p = [] \<or> length (nodes p) > MAX_NODES) (Invalid ''nodes''),
      nodes_check c (nodes p),
      refuse_if (total_budget_units p = 0 \<or> max_concurrency p = 0) (Invalid ''limits''),
      budget_check (nodes p) (total_budget_units p),
      and_then (compute_plan_digest c p) (\<lambda>d. refuse_if (plan_digest p \<noteq> d) (Invalid ''plan digest'')),
      and_then (compute_evidence_digest c p)
        (\<lambda>d. refuse_if (evidence_digest p \<noteq> d) (Invalid ''evidence digest''))]"

definition from_proposal :: "codec \<Rightarrow> plan_proposal \<Rightarrow> plan_revision outcome" where
  "from_proposal c input =
     (let plan = plan_proposal.extend input (plan_revision.fields [] []) in
      and_then (compute_plan_digest c plan) (\<lambda>d.
        let plan = plan\<lparr>plan_digest := d\<rparr> in
        and_then (compute_evidence_digest c plan) (\<lambda>e.
          let plan = plan\<lparr>evidence_digest := e\<rparr> in
          and_then (validate_plan c plan) (\<lambda>_.
            and_then (ser (serialized_len c plan)) (\<lambda>len.
              if len > MAX_PERSISTED_REVISION_BYTES then Inl (Invalid ''persisted revision size'')
              else Inr plan)))))"

definition from_persisted :: "codec \<Rightarrow> plan_revision \<Rightarrow> plan_revision outcome" where
  "from_persisted c stored =
     and_then (from_proposal c (plan_proposal.truncate stored)) (\<lambda>plan.
       if plan_digest stored \<noteq> plan_digest plan \<or> evidence_digest stored \<noteq> evidence_digest plan
       then Inl (Invalid ''persisted digest'') else Inr plan)"

definition from_persisted_bytes :: "codec \<Rightarrow> string \<Rightarrow> plan_revision outcome" where
  "from_persisted_bytes c bytes =
     (if length bytes > MAX_PERSISTED_REVISION_BYTES then Inl (Invalid ''persisted revision size'')
      else and_then (ser (decode_persisted c bytes)) (\<lambda>stored.
        case from_persisted c stored of
          Inl e \<Rightarrow> Inl (Serialization (show_error c e))
        | Inr plan \<Rightarrow> Inr plan))"

section \<open>Approvals and activation\<close>

record plan_approval =
  approval_version :: u32
  approval_id :: string
  user_id :: string
  approval_instance_id :: string
  approval_workspace_id :: string
  approval_plan_id :: string
  approval_revision :: u64
  approval_plan_digest :: string
  approval_evidence_digest :: string
  approved_at :: string
  expires_at :: string
  approval_revocation_generation :: u64
  approval_supersedes :: "string option"

definition timestamp :: "codec \<Rightarrow> string \<Rightarrow> string \<Rightarrow> datetime outcome" where
  "timestamp c text field = (case parse_time c text of None \<Rightarrow> Inl (Invalid field) | Some t \<Rightarrow> Inr t)"

text \<open>The disjunction is evaluated left to right, so a failing digest computation is an error.\<close>

definition binding_check :: "codec \<Rightarrow> plan_approval \<Rightarrow> plan_revision \<Rightarrow> unit outcome" where
  "binding_check c a p =
     (let e = Invalid ''approval binding'' in first_error
       [refuse_if (approval_instance_id a \<noteq> instance_id p \<or> approval_workspace_id a \<noteq> workspace_id p \<or>
          approval_plan_id a \<noteq> plan_id p \<or> approval_revision a \<noteq> revision p) e,
        and_then (compute_plan_digest c p) (\<lambda>d. refuse_if (approval_plan_digest a \<noteq> d) e),
        and_then (compute_evidence_digest c p) (\<lambda>d. refuse_if (approval_evidence_digest a \<noteq> d) e),
        refuse_if (approval_revocation_generation a \<noteq> revocation_generation p \<or>
          approval_supersedes a \<noteq> supersedes p) e])"

definition validate_against_at :: "codec \<Rightarrow> datetime \<Rightarrow> plan_approval \<Rightarrow> plan_revision \<Rightarrow> unit outcome" where
  "validate_against_at c now a p = first_error
     [validate_plan c p,
      refuse_if (approval_version a \<noteq> 1) (Invalid ''approval version''),
      ident (approval_id a) ''approval id'',
      ident (user_id a) ''user id'',
      and_then (timestamp c (approved_at a) ''approved at'') (\<lambda>approved.
        and_then (timestamp c (expires_at a) ''expires at'') (\<lambda>expires.
          refuse_if (approved > now \<or> expires \<le> approved \<or> expires \<le> now) (Invalid ''approval expired''))),
      binding_check c a p]"

definition validate_historical_against ::
  "codec \<Rightarrow> datetime \<Rightarrow> plan_approval \<Rightarrow> plan_revision \<Rightarrow> unit outcome" where
  "validate_historical_against c now a p =
     and_then (timestamp c (approved_at a) ''approved at'') (\<lambda>approved.
       if approved > now then Inl (Invalid ''approved at'') else validate_against_at c approved a p)"

datatype plan_status =
    Draft | Proposed | Active | ReadyForUserReview | Paused | RecoveryRequired | Completed | Failed
  | Cancelled | Expired | Revoked

definition can_activate_at ::
  "codec \<Rightarrow> datetime \<Rightarrow> plan_status \<Rightarrow> plan_approval \<Rightarrow> plan_revision \<Rightarrow> u64 \<Rightarrow> unit outcome" where
  "can_activate_at c now st a p generation =
     (if st \<noteq> Proposed \<or> approval_revocation_generation a \<noteq> generation
      then Inl (Invalid ''activation state'') else validate_against_at c now a p)"

definition can_resume_at ::
  "codec \<Rightarrow> datetime \<Rightarrow> plan_status \<Rightarrow> plan_approval \<Rightarrow> plan_revision \<Rightarrow> u64 \<Rightarrow> unit outcome" where
  "can_resume_at c now st a p generation =
     (if st \<noteq> Paused \<or> approval_revocation_generation a \<noteq> generation
      then Inl (Invalid ''resume state'') else validate_against_at c now a p)"

fun allows_transition :: "plan_status \<Rightarrow> plan_status \<Rightarrow> bool" where
  "allows_transition Draft t = (t = Proposed)"
| "allows_transition Proposed t = (t \<in> {Paused, RecoveryRequired})"
| "allows_transition Active t =
     (t \<in> {ReadyForUserReview, Paused, RecoveryRequired, Completed, Failed, Cancelled, Expired, Revoked})"
| "allows_transition ReadyForUserReview t = (t \<in> {Failed, Cancelled, Expired, Revoked})"
| "allows_transition Paused t = (t \<in> {Cancelled, Expired, Revoked})"
| "allows_transition _ t = False"

definition can_launch :: "plan_status \<Rightarrow> bool" where
  "can_launch st \<longleftrightarrow> st = Active"

definition is_terminal_success :: "plan_status \<Rightarrow> bool" where
  "is_terminal_success st \<longleftrightarrow> st = Completed"

record approved_plan_revision =
  approved_plan :: plan_revision
  approved_approval :: plan_approval
  approved_digest :: string

definition activate ::
  "codec \<Rightarrow> datetime \<Rightarrow> plan_revision \<Rightarrow> plan_approval \<Rightarrow> u64 \<Rightarrow> approved_plan_revision outcome" where
  "activate c now p a generation =
     and_then (can_activate_at c now Proposed a p generation) (\<lambda>_.
       and_then (compute_plan_digest c p) (\<lambda>d.
         Inr \<lparr>approved_plan = p, approved_approval = a, approved_digest = d\<rparr>))"

definition propose_revision :: "approved_plan_revision \<Rightarrow> plan_proposal outcome" where
  "propose_revision ap =
     (case checked_add (revision (approved_plan ap)) 1 of
        None \<Rightarrow> Inl (Invalid ''revision overflow'')
      | Some r \<Rightarrow> Inr ((plan_proposal.truncate (approved_plan ap))
          \<lparr>revision := r, supersedes := Some (approval_id (approved_approval ap))\<rparr>))"

section \<open>Capability requests\<close>

definition is_hard_denied :: "capability_kind \<Rightarrow> bool" where
  "is_hard_denied k \<longleftrightarrow> k \<notin> {ReadFile, WriteFile, RunBoundedCommand, GitRead}"

record capability_request =
  request_version :: u32
  request_node_id :: string
  contract_reference :: string
  current_capability_digest :: string
  request_kind :: capability_kind
  request_scope :: "string list"
  tool_id :: string
  expected_cost :: u64
  reason :: string
  request_evidence :: "string list"

definition validate_request :: "capability_request \<Rightarrow> unit outcome" where
  "validate_request r = first_error
     [refuse_if (request_version r \<noteq> 1) (Invalid ''request version''),
      ident (request_node_id r) ''node id'',
      ident (contract_reference r) ''contract reference'',
      digest (current_capability_digest r) ''capability digest'',
      refuse_if (request_scope r = []) (Invalid ''scope''),
      scopes (request_scope r),
      known_tool (tool_id r),
      refuse_if (expected_cost r = 0) (Invalid ''expected cost''),
      prose (reason r) MAX_TEXT ''reason'',
      prose_list (request_evidence r) ''evidence'',
      refuse_if (is_hard_denied (request_kind r)) (HardDenied (request_kind r)),
      refuse_if ((request_kind r, tool_id r) \<notin>
          {(ReadFile, ''read_file''), (WriteFile, ''write_file''),
           (RunBoundedCommand, ''run_bounded_command''), (GitRead, ''git_read'')})
        (Invalid ''capability tool mismatch'')]"

datatype capability_decision = RequiresParentReview

definition decision_direct :: "capability_kind \<Rightarrow> role \<Rightarrow> capability_decision outcome" where
  "decision_direct k r = (if is_hard_denied k then Inl (HardDenied k) else Inr RequiresParentReview)"

definition decision_from_request :: "capability_request \<Rightarrow> capability_decision outcome" where
  "decision_from_request r = and_then (validate_request r) (\<lambda>_. Inr RequiresParentReview)"

section \<open>Graph and budget\<close>

lemma add_nodes_ok:
  "try_each (add_node c) ns ids = Inr ids' \<longleftrightarrow>
   (\<forall>n \<in> set ns. validate_node c n = Inr ()) \<and> distinct (map node_id ns) \<and>
   node_id ` set ns \<inter> ids = {} \<and> ids' = ids \<union> node_id ` set ns"
proof (induction ns arbitrary: ids)
  case (Cons n ns)
  show ?case
  proof (cases "validate_node c n")
    case (Inr u)
    then show ?thesis using Cons.IH [of "insert (node_id n) ids"] by (auto simp: add_node_def)
  qed (simp add: add_node_def)
qed auto

lemma plan_graph_ids: "fst ` set (plan_graph ns) = node_id ` set ns"
  by (force simp: plan_graph_def)

lemma plan_graph_closed:
  assumes "\<forall>n \<in> set ns. \<not> dangling (node_id ` set ns) n"
  shows "closed_graph (plan_graph ns)"
proof -
  have "\<forall>n \<in> set ns. set (case parent_id n of None \<Rightarrow> [] | Some p \<Rightarrow> [p]) \<union> set (dependencies n) \<subseteq> node_id ` set ns"
    using assms by (auto simp: dangling_def list_ex_iff is_some_and_iff split: option.splits)
  then show ?thesis unfolding closed_graph_def plan_graph_ids by (auto simp: plan_graph_def)
qed

lemma acyclic_check_closed:
  assumes "closed_graph (plan_graph ns)"
  shows "acyclic_check ns = (if acyclic (edges (plan_graph ns)) then Inr () else Inl (Invalid ''graph cycle''))"
  using check_dag_acyclic [OF assms] by (auto simp: acyclic_check_def)

lemma nodes_check_ids:
  assumes "try_each (add_node c) ns {} = Inr ids" and "\<forall>n \<in> set ns. \<not> dangling ids n"
  shows "nodes_check c ns = (if acyclic (edges (plan_graph ns)) then Inr () else Inl (Invalid ''graph cycle''))"
proof -
  have ids: "ids = node_id ` set ns" using assms(1) by (simp add: add_nodes_ok)
  have refs: "first_error (map (\<lambda>n. refuse_if (dangling ids n) (Invalid ''graph reference'')) ns) = Inr ()"
    using assms(2) by (simp add: first_error_ok)
  have "acyclic_check ns = (if acyclic (edges (plan_graph ns)) then Inr () else Inl (Invalid ''graph cycle''))"
    using assms(2) ids plan_graph_closed acyclic_check_closed by blast
  then show ?thesis by (simp add: nodes_check_def assms(1) first_error_append refs)
qed

lemma nodes_check_refs:
  assumes "try_each (add_node c) ns {} = Inr ids" and "\<not> (\<forall>n \<in> set ns. \<not> dangling ids n)"
  shows "nodes_check c ns = Inl (Invalid ''graph reference'')"
proof -
  have "first_error (map (\<lambda>n. refuse_if (dangling ids n) (Invalid ''graph reference'')) ms) =
      (if \<exists>n \<in> set ms. dangling ids n then Inl (Invalid ''graph reference'') else Inr ())" for ms
    by (induction ms) (auto simp: refuse_if_def)
  then show ?thesis using assms(2) by (auto simp: nodes_check_def assms(1) first_error_append)
qed

lemma reserved_budget_sum:
  "reserved_budget acc ns = (let t = unat acc + sum_list (map (\<lambda>n. unat (budget_units n)) ns) in
     if t < 2 ^ 64 then Some (of_nat t) else None)"
proof (induction ns arbitrary: acc)
  case Nil
  have "unat acc < 2 ^ LENGTH(64)" by (rule unsigned_less)
  then show ?case by (simp add: Let_def)
next
  case (Cons n ns)
  show ?case
  proof (cases "checked_add acc (budget_units n)")
    case None
    then have "2 ^ 64 \<le> unat acc + unat (budget_units n)" by (simp add: checked_add_None)
    then show ?thesis using None by (simp add: Let_def)
  next
    case (Some k)
    then show ?thesis using Cons.IH [of k] unat_checked_add [OF Some] by (simp add: Let_def add.assoc)
  qed
qed

lemma budget_check_sum:
  "budget_check ns units = Inr () \<longleftrightarrow> sum_list (map (\<lambda>n. unat (budget_units n)) ns) \<le> unat units"
proof -
  let ?t = "sum_list (map (\<lambda>n. unat (budget_units n)) ns)"
  have units: "unat units < 2 ^ LENGTH(64)" by (rule unsigned_less)
  show ?thesis
  proof (cases "?t < 2 ^ 64")
    case True
    moreover from this have "unat (of_nat ?t :: u64) = ?t" by (simp add: unat_of_nat)
    ultimately show ?thesis
      by (simp add: budget_check_def reserved_budget_sum Let_def word_less_nat_alt not_less)
  next
    case False
    then show ?thesis using units by (simp add: budget_check_def reserved_budget_sum Let_def)
  qed
qed

text \<open>The two outcomes of the model that the source cannot produce.\<close>

abbreviation model_only :: "coordinator_error \<Rightarrow> bool" where
  "model_only e \<equiv> e = Panicked \<or> e = FuelExhausted"

definition clean :: "'a outcome \<Rightarrow> bool" where
  "clean r \<longleftrightarrow> (\<forall>e. r = Inl e \<longrightarrow> \<not> model_only e)"

named_theorems clean_intros \<open>which computations never give a model-only outcome\<close>

lemma clean_Inr [clean_intros]: "clean (Inr x)"
  by (simp add: clean_def)

lemma clean_refuse [clean_intros]: "\<not> model_only e \<Longrightarrow> clean (refuse_if b e)"
  by (auto simp: clean_def refuse_if_def)

lemma clean_first_error: "\<forall>r \<in> set rs. clean r \<Longrightarrow> clean (first_error rs)"
  by (induction rs rule: first_error.induct) (auto simp: clean_def)

lemma clean_ser [clean_intros]: "clean (ser r)"
  by (auto simp: clean_def ser_def split: sum.splits)

lemma clean_and_then [clean_intros]: "clean r \<Longrightarrow> (\<And>x. clean (f x)) \<Longrightarrow> clean (and_then r f)"
  by (cases r) (auto simp: clean_def)

lemma clean_sequence: "\<forall>r \<in> set rs. clean r \<Longrightarrow> clean (sequence_ok rs)"
  by (induction rs) (auto intro!: clean_intros)

lemma clean_canonical [clean_intros]: "clean (canonical_value c v)"
proof (induction c v rule: canonical_value.induct)
  case (1 c kvs)
  have "clean (member_bytes c (k, r))" if "clean r" for k r
    using that by (auto simp: member_bytes_def intro!: clean_intros)
  then show ?case using 1 by (auto simp: bracketed_def intro!: clean_intros clean_sequence)
next
  case (2 c items)
  then show ?case by (auto simp: bracketed_def intro!: clean_intros clean_sequence)
qed (auto intro: clean_intros)

lemma clean_digests [clean_intros]:
  "clean (compute_plan_digest c p)" "clean (compute_evidence_digest c p)"
  by (auto simp: compute_plan_digest_def compute_evidence_digest_def canonical_json_bytes_def intro!: clean_intros)

lemma clean_fields [clean_intros]:
  "clean (bounded v l f)" "clean (prose v l f)" "clean (prose_list vs f)" "clean (ident v f)"
  "clean (opt_ident w f)" "clean (strings vs l f)" "clean (digest v f)" "clean (scopes vs)" "clean (known_tool v)"
  by (auto simp: bounded_def prose_def prose_list_def ident_def opt_ident_def strings_def digest_def scopes_def
      known_tool_def split: option.split intro!: clean_intros clean_first_error)

lemma clean_node [clean_intros]: "clean (validate_node c n)"
  unfolding validate_node_def
  by (rule clean_first_error) (auto intro!: clean_intros split: role.split)

lemma clean_add_nodes: "clean (try_each (add_node c) ns ids)"
proof (induction ns arbitrary: ids)
  case (Cons n ns)
  have "clean (add_node c n ids)" 
    unfolding add_node_def by (intro clean_and_then clean_node) (simp add: clean_def)
  then show ?case using Cons by (cases "add_node c n ids") (auto simp: clean_def)
qed (simp add: clean_intros)

lemma clean_nodes_check [clean_intros]: "clean (nodes_check c ns)"
proof (cases "try_each (add_node c) ns {}")
  case (Inl e)
  then show ?thesis using clean_add_nodes [of c ns "{}"] by (simp add: nodes_check_def clean_def)
next
  case (Inr ids)
  show ?thesis
  proof (cases "\<forall>n \<in> set ns. \<not> dangling ids n")
    case True
    then show ?thesis by (simp add: nodes_check_ids [OF Inr] clean_def)
  next
    case False
    then show ?thesis by (simp add: nodes_check_refs [OF Inr] clean_def)
  qed
qed

lemma clean_budget [clean_intros]: "clean (budget_check ns units)"
  by (auto simp: budget_check_def clean_def refuse_if_def split: option.split)

section \<open>Scopes\<close>

text \<open>How a relative path is followed from a directory: a dot stays, two dots go up.\<close>

definition follow :: "string list \<Rightarrow> string \<Rightarrow> string list" where
  "follow root path = foldl (\<lambda>dir part. if part = [] \<or> part = ''.'' then dir
     else if part = ''..'' then butlast dir else dir @ [part]) root (split_on CHR ''/'' path)"

lemma follow_parts:
  "list_all (\<lambda>part. part \<noteq> [] \<and> part \<noteq> ''.'' \<and> part \<noteq> ''..'') parts \<Longrightarrow>
   foldl (\<lambda>dir part. if part = [] \<or> part = ''.'' then dir
     else if part = ''..'' then butlast dir else dir @ [part]) root parts = root @ parts"
  by (induction parts arbitrary: root) simp_all

lemma follow_canonical:
  assumes "\<not> noncanonical_path path"
  shows "follow root path = root @ split_on CHR ''/'' path"
  unfolding follow_def
  by (rule follow_parts) (use assms in \<open>auto simp: noncanonical_path_def list_all_iff list_ex_iff\<close>)

lemma scopes_canonical: "scopes vs = Inr () \<Longrightarrow> path \<in> set vs \<Longrightarrow> \<not> noncanonical_path path"
  by (auto simp: scopes_def first_error_ok)

section \<open>Digests\<close>

lemma compute_digest_frame [simp]:
  "compute_plan_digest c (p\<lparr>plan_digest := x\<rparr>) = compute_plan_digest c p"
  "compute_plan_digest c (p\<lparr>evidence_digest := x\<rparr>) = compute_plan_digest c p"
  "compute_evidence_digest c (p\<lparr>plan_digest := x\<rparr>) = compute_evidence_digest c p"
  "compute_evidence_digest c (p\<lparr>evidence_digest := x\<rparr>) = compute_evidence_digest c p"
  by (simp_all add: compute_plan_digest_def compute_evidence_digest_def plan_proposal.truncate_def)

lemma truncate_extend: "plan_proposal.truncate (plan_proposal.extend i (plan_revision.fields a b)) = i"
  by (simp add: plan_proposal.defs)

lemma extend_truncate:
  "plan_proposal.extend (plan_proposal.truncate p) (plan_revision.fields (plan_digest p) (evidence_digest p)) = p"
  by (simp add: plan_proposal.defs plan_revision.defs)

lemma truncate_digests [simp]:
  "plan_proposal.truncate (p\<lparr>plan_digest := x\<rparr>) = plan_proposal.truncate p"
  "plan_proposal.truncate (p\<lparr>evidence_digest := y\<rparr>) = plan_proposal.truncate p"
  by (simp_all add: plan_proposal.defs)

lemma from_proposal_ok:
  "from_proposal c i = Inr p \<Longrightarrow>
   plan_proposal.truncate p = i \<and> validate_plan c p = Inr () \<and>
   compute_plan_digest c p = Inr (plan_digest p) \<and> compute_evidence_digest c p = Inr (evidence_digest p)"
  by (auto simp: from_proposal_def and_then_ok Let_def truncate_extend split: if_splits)

lemma truncate_eq: "plan_proposal.truncate p = plan_proposal.truncate q \<Longrightarrow> plan_digest p = plan_digest q \<Longrightarrow>
    evidence_digest p = evidence_digest q \<Longrightarrow> p = (q :: plan_revision)"
  using extend_truncate by metis

lemma validate_plan_digests:
  "validate_plan c p = Inr () \<Longrightarrow>
   compute_plan_digest c p = Inr (plan_digest p) \<and> compute_evidence_digest c p = Inr (evidence_digest p)"
  by (auto simp: validate_plan_def first_error_ok and_then_ok)

lemma activate_ok:
  assumes "activate c now p a g = Inr ap"
  shows "validate_plan c p = Inr ()" "approval_revocation_generation a = g" "binding_check c a p = Inr ()"
    "\<exists>t e. parse_time c (approved_at a) = Some t \<and> parse_time c (expires_at a) = Some e \<and> t \<le> now \<and> now < e"
    "ap = \<lparr>approved_plan = p, approved_approval = a, approved_digest = plan_digest p\<rparr>"
proof -
  obtain d where v: "validate_against_at c now a p = Inr ()" and d: "compute_plan_digest c p = Inr d"
    and ap: "ap = \<lparr>approved_plan = p, approved_approval = a, approved_digest = d\<rparr>"
    and g: "approval_revocation_generation a = g"
    using assms by (auto simp: activate_def and_then_ok can_activate_at_def split: if_splits)
  show valid: "validate_plan c p = Inr ()" and "binding_check c a p = Inr ()"
    using v by (simp_all add: validate_against_at_def first_error_ok)
  show "approval_revocation_generation a = g" by (rule g)
  show "\<exists>t e. parse_time c (approved_at a) = Some t \<and> parse_time c (expires_at a) = Some e \<and> t \<le> now \<and> now < e"
    using v by (auto simp: validate_against_at_def first_error_ok and_then_ok timestamp_def not_less not_le
        split: option.splits)
  show "ap = \<lparr>approved_plan = p, approved_approval = a, approved_digest = plan_digest p\<rparr>"
    using ap d validate_plan_digests [OF valid] by simp
qed

section \<open>A concrete plan\<close>

text \<open>An instance of the parameters and a plan that passes every check, for the witnesses below.\<close>

definition sample_codec :: codec where
  "sample_codec =
     \<lparr>sha256_hex = (\<lambda>_. replicate 64 CHR ''0''), material_value = (\<lambda>_. Inr JNull),
      evidence_value = (\<lambda>_. Inr JNull), scalar_bytes = (\<lambda>_. Inr ''null''), serialized_len = (\<lambda>_. Inr 5),
      decode_persisted = (\<lambda>_. Inl ''absent''), show_error = (\<lambda>_. ''error''),
      parse_time = (\<lambda>t. if t = ''t3'' then Some 3 else if t = ''t9'' then Some 9 else None)\<rparr>"

definition sample_node :: "string \<Rightarrow> string list \<Rightarrow> u64 \<Rightarrow> plan_node" where
  "sample_node name deps units =
     \<lparr>node_id = name, parent_id = None, task = ''t'', success_criteria = [''c''], prompt_context = ''p'',
      prompt_context_digest = replicate 64 CHR ''0'', output_contract = ''o'', node_scope = [''src/a''],
      node_role = Review, allowed_tools = [''git_read''], provider_allowlist = [''x''], dependencies = deps,
      budget_units = units, retry_limit = 0, concurrency_class = ''k''\<rparr>"

definition sample_proposal :: plan_proposal where
  "sample_proposal =
     \<lparr>plan_version = 1, instance_id = ''i'', workspace_id = ''w'', plan_id = ''p'', revision = 4,
      revocation_generation = 2, supersedes = None,
      subject = \<lparr>subject_workspace_id = ''w'', repository_revision = ''r'', dirty_paths = [],
        subject_attribution = Conclusive\<rparr>,
      evidence = \<lparr>evidence_version = 1, evidence_subject = ''s'', evidence_references = []\<rparr>,
      nodes = [sample_node ''a'' [''b''] 2, sample_node ''b'' [] 3], total_budget_units = 5, max_concurrency = 1\<rparr>"

definition sample_plan :: plan_revision where
  "sample_plan = plan_proposal.extend sample_proposal
     (plan_revision.fields (replicate 64 CHR ''0'') (replicate 64 CHR ''0''))"

definition sample_approval :: plan_approval where
  "sample_approval =
     \<lparr>approval_version = 1, approval_id = ''ap'', user_id = ''u'', approval_instance_id = ''i'',
      approval_workspace_id = ''w'', approval_plan_id = ''p'', approval_revision = 4,
      approval_plan_digest = replicate 64 CHR ''0'', approval_evidence_digest = replicate 64 CHR ''0'',
      approved_at = ''t3'', expires_at = ''t9'', approval_revocation_generation = 2, approval_supersedes = None\<rparr>"

lemmas field_eval = bounded_def prose_def prose_list_def ident_def opt_ident_def strings_def digest_def
  scopes_def known_tool_def noncanonical_path_def ascii_alphanumeric_def ascii_hexdigit_def
  MAX_ID_def MAX_TEXT_def MAX_ITEMS_def MAX_NODES_def

lemma sample_node_ok: "validate_node sample_codec (sample_node name deps units) = Inr ()"
  if "ident name ''node id'' = Inr ()" "strings deps MAX_ID ''dependencies'' = Inr ()"
    "\<forall>d \<in> set deps. ident d ''dependency'' = Inr ()" "units \<noteq> 0"
  using that unfolding validate_node_def first_error_ok
  by (auto simp: sample_node_def sample_codec_def) (simp_all add: field_eval list_all_iff)

lemma sample_nodes_check: "nodes_check sample_codec (nodes sample_proposal) = Inr ()"
proof -
  have ids: "try_each (add_node sample_codec) (nodes sample_proposal) {} = Inr {''a'', ''b''}"
    unfolding add_nodes_ok
    by (auto simp: sample_proposal_def intro!: sample_node_ok) (auto simp: field_eval sample_node_def)
  have "check_dag (plan_graph (nodes sample_proposal)) = Inr \<lparr>visiting = {}, visited = {''a'', ''b''}\<rparr>"
    by (simp add: check_dag_def plan_graph_def sample_proposal_def sample_node_def insert_commute)
  then have "acyclic_check (nodes sample_proposal) = Inr ()" by (simp add: acyclic_check_def)
  then show ?thesis using ids
    by (simp add: nodes_check_def first_error_append)
      (simp add: sample_proposal_def sample_node_def dangling_def)
qed

lemma sample_digests:
  "compute_plan_digest sample_codec p = Inr (replicate 64 CHR ''0'')"
  "compute_evidence_digest sample_codec p = Inr (replicate 64 CHR ''0'')"
  by (simp_all add: compute_plan_digest_def compute_evidence_digest_def canonical_json_bytes_def
      sample_codec_def ser_def)

lemma sample_plan_sel:
  "plan_digest sample_plan = replicate 64 CHR ''0''" "evidence_digest sample_plan = replicate 64 CHR ''0''"
  "nodes sample_plan = nodes sample_proposal" "revision sample_plan = 4" "total_budget_units sample_plan = 5"
  "revocation_generation sample_plan = 2" "supersedes sample_plan = None"
  "instance_id sample_plan = ''i''" "workspace_id sample_plan = ''w''" "plan_id sample_plan = ''p''"
  "plan_version sample_plan = 1" "max_concurrency sample_plan = 1"
  "subject sample_plan = subject sample_proposal" "evidence sample_plan = evidence sample_proposal"
  by (simp_all add: sample_plan_def plan_proposal.defs plan_revision.defs sample_proposal_def)

lemma sample_budget: "budget_check (nodes sample_proposal) 5 = Inr ()"
  by (simp add: budget_check_sum) (simp add: sample_proposal_def sample_node_def)

lemma sample_plan_valid: "validate_plan sample_codec sample_plan = Inr ()"
  unfolding validate_plan_def sample_plan_sel
  by (simp add: sample_nodes_check sample_digests sample_budget)
    (simp add: sample_proposal_def field_eval ascii_uppercase_def sample_node_def)

lemma sample_from_proposal: "from_proposal sample_codec sample_proposal = Inr sample_plan"
proof -
  have "(plan_proposal.extend sample_proposal (plan_revision.fields [] []))
      \<lparr>plan_digest := replicate 64 CHR ''0'', evidence_digest := replicate 64 CHR ''0''\<rparr> = sample_plan"
    by (simp add: sample_plan_def plan_proposal.defs plan_revision.defs)
  then show ?thesis unfolding from_proposal_def Let_def sample_digests and_then_simps
    by (simp add: sample_plan_valid) (simp add: sample_codec_def ser_def MAX_PERSISTED_REVISION_BYTES_def)
qed

lemma sample_activate:
  "activate sample_codec 5 sample_plan sample_approval 2 =
   Inr \<lparr>approved_plan = sample_plan, approved_approval = sample_approval, approved_digest = replicate 64 CHR ''0''\<rparr>"
proof -
  have "binding_check sample_codec sample_approval sample_plan = Inr ()"
    by (simp add: binding_check_def Let_def sample_digests sample_plan_sel) (simp add: sample_approval_def)
  then have "validate_against_at sample_codec 5 sample_approval sample_plan = Inr ()"
    by (simp add: validate_against_at_def sample_plan_valid)
      (simp add: sample_approval_def timestamp_def field_eval sample_codec_def)
  then show ?thesis
    by (simp add: activate_def can_activate_at_def sample_digests) (simp add: sample_approval_def)
qed

section \<open>Properties\<close>

text \<open>
  An accepted plan is sound: when a revision validates, it has between 1 and 128 nodes with
  distinct ids, every parent and dependency names a node of the plan, the graph of parent and
  dependency edges together has no cycle, the budgets of the nodes, summed without wrap-around, fit
  in the total, and the two digests are the recomputed ones.
\<close>

theorem accepted_plan_sound:
  assumes "validate_plan c p = Inr ()"
  shows "0 < length (nodes p) \<and> length (nodes p) \<le> 128 \<and> distinct (map node_id (nodes p)) \<and>
    (\<forall>n \<in> set (nodes p). set_option (parent_id n) \<union> set (dependencies n) \<subseteq> node_id ` set (nodes p)) \<and>
    acyclic (edges (plan_graph (nodes p))) \<and>
    sum_list (map (\<lambda>n. unat (budget_units n)) (nodes p)) \<le> unat (total_budget_units p) \<and>
    compute_plan_digest c p = Inr (plan_digest p) \<and> compute_evidence_digest c p = Inr (evidence_digest p)"
proof -
  have len: "0 < length (nodes p)" "length (nodes p) \<le> 128" and check: "nodes_check c (nodes p) = Inr ()"
    and budget: "budget_check (nodes p) (total_budget_units p) = Inr ()"
    using assms by (simp_all add: validate_plan_def first_error_ok MAX_NODES_def)
  obtain ids where ids: "try_each (add_node c) (nodes p) {} = Inr ids"
    using check by (auto simp: nodes_check_def and_then_ok)
  then have distinct: "distinct (map node_id (nodes p))" and eq: "ids = node_id ` set (nodes p)"
    by (simp_all add: add_nodes_ok)
  have refs: "\<forall>n \<in> set (nodes p). \<not> dangling ids n"
    using check nodes_check_refs [OF ids] by auto
  then have "acyclic (edges (plan_graph (nodes p)))"
    using check nodes_check_ids [OF ids] by (auto split: if_splits)
  moreover have "\<forall>n \<in> set (nodes p). set_option (parent_id n) \<union> set (dependencies n) \<subseteq> ids"
    using refs by (auto simp: dangling_def list_ex_iff is_some_and_iff)
  ultimately show ?thesis
    using len distinct eq budget validate_plan_digests [OF assms] by (simp add: budget_check_sum)
qed

theorem accepted_plan_sound_witness:
  "acyclic (edges (plan_graph (nodes sample_plan))) \<and> distinct (map node_id (nodes sample_plan))"
  using accepted_plan_sound [OF sample_plan_valid] by simp

text \<open>
  The graph check is exact: a list of nodes passes if and only if every node validates, the
  ids are distinct, no parent or dependency dangles, and the combined graph is acyclic; and when only
  the last condition fails, the error is the cycle error.
\<close>

theorem nodes_check_exact:
  fixes c ns
  defines "fine \<equiv> (\<forall>n \<in> set ns. validate_node c n = Inr ()) \<and> distinct (map node_id ns) \<and>
    (\<forall>n \<in> set ns. \<not> dangling (node_id ` set ns) n)"
  shows "(nodes_check c ns = Inr () \<longleftrightarrow> fine \<and> acyclic (edges (plan_graph ns))) \<and>
    (fine \<and> \<not> acyclic (edges (plan_graph ns)) \<longrightarrow> nodes_check c ns = Inl (Invalid ''graph cycle''))"
proof (cases "\<exists>ids. try_each (add_node c) ns {} = Inr ids")
  case True
  then obtain ids where ids: "try_each (add_node c) ns {} = Inr ids" by blast
  then have eq: "ids = node_id ` set ns" and fine: "fine \<longleftrightarrow> (\<forall>n \<in> set ns. \<not> dangling ids n)"
    by (auto simp: add_nodes_ok fine_def)
  show ?thesis
  proof (cases "\<forall>n \<in> set ns. \<not> dangling ids n")
    case True
    then show ?thesis using fine nodes_check_ids [OF ids] by simp
  next
    case False
    then show ?thesis using fine nodes_check_refs [OF ids] by simp
  qed
next
  case False
  then have "\<not> fine" by (auto simp: add_nodes_ok fine_def)
  moreover have "nodes_check c ns \<noteq> Inr ()" using False by (auto simp: nodes_check_def and_then_ok)
  ultimately show ?thesis by simp
qed

theorem nodes_check_exact_witness:
  "nodes_check sample_codec [sample_node ''a'' [''a''] 1] = Inl (Invalid ''graph cycle'')"
proof -
  let ?n = "sample_node ''a'' [''a''] 1"
  have "validate_node sample_codec ?n = Inr ()"
    by (rule sample_node_ok) (simp_all add: field_eval)
  moreover have "(''a'', ''a'') \<in> edges (plan_graph [?n])"
    by (simp add: edges_def plan_graph_def sample_node_def)
  then have "\<not> acyclic (edges (plan_graph [?n]))" by (auto simp: acyclic_def)
  moreover have "\<not> dangling (node_id ` set [?n]) ?n" by (simp add: dangling_def sample_node_def)
  ultimately show ?thesis using nodes_check_exact [of sample_codec "[?n]"] by auto
qed

text \<open>
  C40: Validation always returns a result of the source: on every plan and for every behaviour of
  the hashing and serialization libraries it neither indexes a missing node nor runs out of the
  recursion bound, so the depth-first search terminates on every input, cyclic ones included.
\<close>

theorem validation_never_panics:
  "validate_plan c p \<noteq> Inl Panicked \<and> validate_plan c p \<noteq> Inl FuelExhausted"
proof -
  have "clean (validate_plan c p)"
    unfolding validate_plan_def by (rule clean_first_error) (simp, intro conjI clean_intros, simp_all)
  then show ?thesis by (auto simp: clean_def)
qed

text \<open>
  Persistence is faithful and tamper-evident: a plan built from a proposal carries exactly the
  proposal's fields and validates, loading it back gives the same plan, and no stored record other
  than the plan itself loads to it.
\<close>

theorem persisted_plan_round_trip:
  assumes "from_proposal c i = Inr p"
  shows "plan_proposal.truncate p = i \<and> validate_plan c p = Inr () \<and> from_persisted c p = Inr p \<and>
    (\<forall>stored. from_persisted c stored = Inr p \<longrightarrow> stored = p)"
proof -
  have ok: "plan_proposal.truncate p = i" "validate_plan c p = Inr ()" using from_proposal_ok [OF assms] by simp_all
  then have reload: "from_persisted c p = Inr p" using assms by (simp add: from_persisted_def)
  have "stored = p" if stored: "from_persisted c stored = Inr p" for stored
  proof -
    have built: "from_proposal c (plan_proposal.truncate stored) = Inr p"
      and d: "plan_digest stored = plan_digest p" "evidence_digest stored = evidence_digest p"
      using stored by (auto simp: from_persisted_def and_then_ok split: if_splits)
    have "plan_proposal.truncate stored = plan_proposal.truncate p"
      using from_proposal_ok [OF built] by simp
    then show ?thesis using d by (rule truncate_eq)
  qed
  with ok reload show ?thesis by blast
qed

theorem persisted_plan_round_trip_witness:
  "from_persisted sample_codec sample_plan = Inr sample_plan"
  using persisted_plan_round_trip [OF sample_from_proposal] by blast

text \<open>
  An approval activates exactly what it approved, once. Activation succeeds only for a valid
  plan, at the current revocation generation, between approval and expiry, with every bound field
  and both digests equal; and the approval that activated a plan activates no revision proposed from
  it, which has the next revision number and supersedes that approval.
\<close>

theorem approval_binds_one_revision:
  assumes "activate c now p a g = Inr ap"
  shows "validate_plan c p = Inr () \<and> approval_revocation_generation a = g \<and>
    (\<exists>t e. parse_time c (approved_at a) = Some t \<and> parse_time c (expires_at a) = Some e \<and> t \<le> now \<and> now < e) \<and>
    approval_instance_id a = instance_id p \<and> approval_workspace_id a = workspace_id p \<and>
    approval_plan_id a = plan_id p \<and> approval_revision a = revision p \<and>
    approval_plan_digest a = plan_digest p \<and> approval_evidence_digest a = evidence_digest p \<and>
    approval_supersedes a = supersedes p \<and> approved_digest ap = plan_digest p \<and>
    (\<forall>i p2 now2 g2. propose_revision ap = Inr i \<longrightarrow> from_proposal c i = Inr p2 \<longrightarrow>
       unat (revision p2) = Suc (unat (revision p)) \<and> supersedes p2 = Some (approval_id a) \<and>
       (\<exists>err. activate c now2 p2 a g2 = Inl err))"
proof -
  note ok = activate_ok [OF assms]
  have digests: "compute_plan_digest c p = Inr (plan_digest p)" "compute_evidence_digest c p = Inr (evidence_digest p)"
    using validate_plan_digests [OF ok(1)] by simp_all
  have bound: "approval_instance_id a = instance_id p" "approval_workspace_id a = workspace_id p"
    "approval_plan_id a = plan_id p" "approval_revision a = revision p"
    "approval_plan_digest a = plan_digest p" "approval_evidence_digest a = evidence_digest p"
    "approval_supersedes a = supersedes p"
    using ok(3) digests by (simp_all add: binding_check_def Let_def first_error_ok)
  have later: "unat (revision p2) = Suc (unat (revision p)) \<and> supersedes p2 = Some (approval_id a) \<and>
      (\<exists>err. activate c now2 p2 a g2 = Inl err)"
    if proposed: "propose_revision ap = Inr i" and built: "from_proposal c i = Inr p2" for i p2 now2 g2
  proof -
    obtain r where r: "checked_add (revision p) 1 = Some r"
      and i: "i = (plan_proposal.truncate p)\<lparr>revision := r, supersedes := Some (approval_id a)\<rparr>"
      using proposed by (auto simp: ok(5) propose_revision_def split: option.splits)
    have "plan_proposal.truncate p2 = i" using from_proposal_ok [OF built] by simp
    then have rev: "revision p2 = r" and sup: "supersedes p2 = Some (approval_id a)"
      using i by (auto simp: plan_proposal.defs)
    have "activate c now2 p2 a g2 \<noteq> Inr ap2" for ap2
    proof
      assume "activate c now2 p2 a g2 = Inr ap2"
      from activate_ok(3) [OF this] have "approval_revision a = revision p2"
        by (simp add: binding_check_def Let_def first_error_ok)
      then show False using bound(4) rev checked_add_one_neq [OF r] by simp
    qed
    then have "\<exists>err. activate c now2 p2 a g2 = Inl err" by (cases "activate c now2 p2 a g2") auto
    then show ?thesis using rev sup unat_checked_add [OF r] by simp
  qed
  show ?thesis using ok(1,2,4,5) bound later by simp
qed

theorem approval_binds_one_revision_witness:
  "validate_plan sample_codec sample_plan = Inr () \<and> approval_revision sample_approval = revision sample_plan"
  using approval_binds_one_revision [OF sample_activate] by blast

text \<open>
  An accepted capability request is harmless in kind and confined in scope: its kind is not
  hard denied and is the one its tool provides, and every path of its scope, followed from any
  directory, stays below that directory: the result is the directory with the path's own parts
  appended.
\<close>

theorem accepted_request_confined:
  assumes "decision_from_request r = Inr d"
  shows "\<not> is_hard_denied (request_kind r) \<and> decision_direct (request_kind r) ro = Inr d \<and>
    (request_kind r, tool_id r) \<in> {(ReadFile, ''read_file''), (WriteFile, ''write_file''),
       (RunBoundedCommand, ''run_bounded_command''), (GitRead, ''git_read'')} \<and>
    request_scope r \<noteq> [] \<and>
    (\<forall>path \<in> set (request_scope r). \<forall>root.
       follow root path = root @ split_on CHR ''/'' path \<and> [] \<notin> set (split_on CHR ''/'' path))"
proof -
  have ok: "validate_request r = Inr ()" using assms by (simp add: decision_from_request_def and_then_ok)
  then have kind: "\<not> is_hard_denied (request_kind r)"
    "(request_kind r, tool_id r) \<in> {(ReadFile, ''read_file''), (WriteFile, ''write_file''),
       (RunBoundedCommand, ''run_bounded_command''), (GitRead, ''git_read'')}"
    and ne: "request_scope r \<noteq> []" and sc: "scopes (request_scope r) = Inr ()"
    unfolding validate_request_def first_error_ok by simp_all
  have "follow root path = root @ split_on CHR ''/'' path \<and> [] \<notin> set (split_on CHR ''/'' path)"
    if "path \<in> set (request_scope r)" for path root
    using scopes_canonical [OF sc that] follow_canonical
    by (auto simp: noncanonical_path_def list_ex_iff)
  moreover have "decision_direct (request_kind r) ro = Inr d"
    using kind(1) by (cases d) (simp add: decision_direct_def)
  ultimately show ?thesis using kind ne by blast
qed

theorem accepted_request_confined_witness:
  "\<not> is_hard_denied (request_kind \<lparr>request_version = 1, request_node_id = ''n'', contract_reference = ''k'',
     current_capability_digest = replicate 64 CHR ''f'', request_kind = GitRead, request_scope = [''src/x''],
     tool_id = ''git_read'', expected_cost = 1, reason = ''why'', request_evidence = []\<rparr>)"
proof -
  have "decision_from_request \<lparr>request_version = 1, request_node_id = ''n'', contract_reference = ''k'',
     current_capability_digest = replicate 64 CHR ''f'', request_kind = GitRead, request_scope = [''src/x''],
     tool_id = ''git_read'', expected_cost = 1, reason = ''why'', request_evidence = []\<rparr> = Inr RequiresParentReview"
    by (simp add: decision_from_request_def validate_request_def field_eval is_hard_denied_def list_all_iff)
  from accepted_request_confined [OF this] show ?thesis by blast
qed

text \<open>
  The status machine launches only through an approval: no chain of ordinary transitions enters
  the active status from another one, the outcomes and the recovery state have no way out, and an
  activation or a resumption that succeeds starts from the proposed or the paused status with an
  approval valid for the plan at that time.
\<close>

theorem active_only_by_approval:
  "(allows_transition\<^sup>*\<^sup>* s Active \<longleftrightarrow> s = Active) \<and>
   (s \<in> {Completed, Failed, Cancelled, Expired, Revoked, RecoveryRequired} \<longrightarrow>
      (\<forall>t. allows_transition\<^sup>*\<^sup>* s t \<longleftrightarrow> t = s)) \<and>
   (can_activate_at c now s a p g = Inr () \<longleftrightarrow>
      s = Proposed \<and> approval_revocation_generation a = g \<and> validate_against_at c now a p = Inr ()) \<and>
   (can_resume_at c now s a p g = Inr () \<longleftrightarrow>
      s = Paused \<and> approval_revocation_generation a = g \<and> validate_against_at c now a p = Inr ())"
proof (intro conjI impI)
  have into: "\<not> allows_transition u Active" for u by (cases u) simp_all
  show "allows_transition\<^sup>*\<^sup>* s Active \<longleftrightarrow> s = Active"
  proof
    assume "allows_transition\<^sup>*\<^sup>* s Active"
    then show "s = Active" by (cases rule: rtranclp.cases) (use into in auto)
  qed simp
  show "\<forall>t. allows_transition\<^sup>*\<^sup>* s t \<longleftrightarrow> t = s"
    if "s \<in> {Completed, Failed, Cancelled, Expired, Revoked, RecoveryRequired}"
  proof (intro allI iffI)
    fix t assume "allows_transition\<^sup>*\<^sup>* s t"
    then show "t = s" by (cases rule: converse_rtranclpE) (use that in auto)
  qed simp
qed (auto simp: can_activate_at_def can_resume_at_def)

theorem active_only_by_approval_witness:
  "\<not> allows_transition\<^sup>*\<^sup>* Paused Active \<and> \<not> allows_transition\<^sup>*\<^sup>* Revoked Proposed"
  using active_only_by_approval [of Paused] active_only_by_approval [of Revoked] by blast

end
