(* ===== verification/Observed_Status.thy ===== *)
theory Observed_Status
  imports Prelude
begin

text \<open>
  The writers of observed status and attention, \<^verbatim>\<open>crates/orkworksd/src/runtime/observed_status.rs\<close>, with
  \<open>canonical_attention\<close> of \<^verbatim>\<open>crates/orkworksd/src/metadata.rs\<close>. Of the session information and the
  persisted metadata only the fields these writers read or write are modelled. A confidence is the
  bit pattern of its 64-bit float, which is stored and never computed with; the identity of an
  \<open>Arc\<close> is a number; the clock text is an argument.
\<close>

section \<open>Data\<close>

record attention_owner =
  identity :: nat
  revision :: "u64 option"

record attention_write_token =
  token_identity :: nat
  token_revision :: u64

record attention_provenance =
  attention_source :: "string option"
  attention_confidence :: "u64 option"
  attention_origin :: "string option"
  attention_updated_at :: "string option"

record session_info =
  lifecycle :: string
  observed_status :: "string option"
  attention :: "string option"
  summary :: "string option"
  metadata_source :: "string option"
  needs_user_input :: "bool option"
  detected_question :: "string option"
  suggested_options :: "string list option"
  provenance :: attention_provenance

datatype process_transition = CommittedWorking | IdleTimeout

record process_transition_fields =
  fields_observed_status :: string
  clear_question_fields :: bool

text \<open>The bit pattern of 1.0.\<close>

definition float_one :: u64 where
  "float_one = 0x3FF0000000000000"

section \<open>Operations\<close>

definition new_owner :: "nat \<Rightarrow> attention_owner" where
  "new_owner i = \<lparr>identity = i, revision = Some 0\<rparr>"

definition owner_snapshot :: "attention_owner \<Rightarrow> attention_write_token option" where
  "owner_snapshot w = map_option (\<lambda>r. \<lparr>token_identity = identity w, token_revision = r\<rparr>) (revision w)"

definition accepted_write :: "attention_owner \<Rightarrow> attention_write_token option \<times> attention_owner" where
  "accepted_write w =
     (let w1 = w\<lparr>revision := Option.bind (revision w) (\<lambda>r. checked_add r 1)\<rparr> in
      (map_option (\<lambda>r. \<lparr>token_identity = identity w1, token_revision = r\<rparr>) (revision w1), w1))"

definition owns :: "attention_owner \<Rightarrow> attention_write_token \<Rightarrow> bool" where
  "owns w t \<longleftrightarrow> identity w = token_identity t \<and> revision w = Some (token_revision t)"

definition canonical_attention :: "string option \<Rightarrow> string option" where
  "canonical_attention raw =
     (if raw = Some ''waiting_for_input'' then Some ''needs_you''
      else if raw = Some ''stale'' \<or> raw = Some ''done'' then Some ''idle''
      else if raw \<in> {Some ''working'', Some ''idle'', Some ''blocked'', Some ''failed'', Some ''capped''} then raw
      else None)"

definition attention_origin_of :: "string \<Rightarrow> string" where
  "attention_origin_of source =
     (if source = ''codex_hook'' then ''harness_hook''
      else if source = ''agent'' then ''direct_agent''
      else if source = ''user'' then ''user''
      else if source = ''peon'' then ''peon''
      else if source = ''process'' then ''process''
      else if source = ''debug'' then ''debug''
      else ''backend_inference'')"

definition apply_live_attention_fields ::
  "string \<Rightarrow> string \<Rightarrow> string option \<Rightarrow> string \<Rightarrow> u64 \<Rightarrow> session_info \<times> attention_owner \<Rightarrow>
   session_info \<times> attention_owner" where
  "apply_live_attention_fields now status message source confidence s =
     (case s of (info, w) \<Rightarrow>
        (let info1 = info\<lparr>observed_status := Some status\<rparr>;
             info2 = (if lifecycle info1 = ''alive''
                      then info1\<lparr>attention := canonical_attention (Some status)\<rparr> else info1);
             info3 = (case message of None \<Rightarrow> info2 | Some msg \<Rightarrow> info2\<lparr>summary := Some msg\<rparr>)
         in (info3\<lparr>provenance :=
               \<lparr>attention_source = Some (if source = ''codex_hook'' then ''agent'' else source),
                attention_confidence = Some confidence,
                attention_origin = Some (attention_origin_of source),
                attention_updated_at = Some now\<rparr>\<rparr>,
             snd (accepted_write w))))"

fun transition_fields :: "process_transition \<Rightarrow> process_transition_fields" where
  "transition_fields CommittedWorking =
     \<lparr>fields_observed_status = ''working'', clear_question_fields = True\<rparr>"
| "transition_fields IdleTimeout =
     \<lparr>fields_observed_status = ''idle'', clear_question_fields = False\<rparr>"

definition clear_questions :: "session_info \<Rightarrow> session_info" where
  "clear_questions info =
     info\<lparr>needs_user_input := None, detected_question := None, suggested_options := None\<rparr>"

definition user_held :: "session_info \<Rightarrow> bool" where
  "user_held info \<longleftrightarrow> opt_or (attention_source (provenance info)) (metadata_source info) = Some ''user''"

definition apply_process_transition_to_handle ::
  "string \<Rightarrow> process_transition_fields \<Rightarrow> session_info \<times> attention_owner \<Rightarrow> session_info \<times> attention_owner" where
  "apply_process_transition_to_handle now f s =
     (case s of (info, w) \<Rightarrow>
        if user_held info then (info, w)
        else
          (let info1 = info\<lparr>observed_status := Some (fields_observed_status f),
                 attention := Some (fields_observed_status f),
                 provenance := \<lparr>attention_source = Some ''process'', attention_confidence = Some float_one,
                   attention_origin = Some ''process'', attention_updated_at = Some now\<rparr>\<rparr>
           in (if clear_question_fields f then clear_questions info1 else info1, snd (accepted_write w))))"

text \<open>The persisted metadata has the same fields; its timestamp is left to the caller.\<close>

definition apply_process_transition_to_meta ::
  "process_transition_fields \<Rightarrow> session_info \<Rightarrow> session_info" where
  "apply_process_transition_to_meta f meta =
     (let meta1 = meta\<lparr>observed_status := Some (fields_observed_status f),
            attention := Some (fields_observed_status f),
            provenance := (provenance meta)\<lparr>attention_source := Some ''process'',
              attention_confidence := Some float_one, attention_origin := Some ''process''\<rparr>\<rparr>
      in if clear_question_fields f then clear_questions meta1 else meta1)"

section \<open>The writers as a machine\<close>

datatype status_write =
    Live string string "string option" string u64
  | Process string process_transition

fun write_next :: "status_write \<Rightarrow> session_info \<times> attention_owner \<Rightarrow> session_info \<times> attention_owner" where
  "write_next (Live now status message source conf) s = apply_live_attention_fields now status message source conf s"
| "write_next (Process now k) s = apply_process_transition_to_handle now (transition_fields k) s"

interpretation writes: revision_counter "\<lambda>w. snd (accepted_write w)" revision
  by unfold_locales (simp add: accepted_write_def Let_def)

lemma accepted_write_identity [simp]: "identity (snd (accepted_write w)) = identity w"
  by (simp add: accepted_write_def Let_def)

text \<open>Either the write was refused and nothing changed, or the owner was bumped.\<close>

lemma write_next_cases: "write_next i s = s \<or> snd (write_next i s) = snd (accepted_write (snd s))"
  by (cases i; cases s) (auto simp: apply_live_attention_fields_def apply_process_transition_to_handle_def Let_def)

lemma rank_write_next: "writes.rank (snd s) \<le> writes.rank (snd (write_next i s))"
  using write_next_cases [of i s] writes.rank_bump_le [of "snd s"] by auto

lemma rank_run: "writes.rank (snd s) \<le> writes.rank (snd (fold write_next is s))"
proof (induction "is" arbitrary: s)
  case (Cons i "is")
  show ?case using order_trans [OF rank_write_next Cons.IH] by simp
qed simp

lemma unchanged_rank:
  assumes "revision (snd s) \<noteq> None" and "writes.rank (snd (fold write_next is s)) = writes.rank (snd s)"
  shows "fold write_next is s = s"
  using assms
proof (induction "is" arbitrary: s)
  case (Cons i "is")
  have le: "writes.rank (snd (write_next i s)) \<le> writes.rank (snd s)"
    using rank_run [of "write_next i s" "is"] Cons.prems(2) by simp
  then have "write_next i s = s"
    using write_next_cases [of i s] writes.rank_bump_less [OF Cons.prems(1)] by auto
  then show ?case using Cons by simp
qed simp

section \<open>Property\<close>

text \<open>
  A write token that is still owned proves that nothing was written. Take a token from the
  owner; after any sequence of live reports and process transitions on the session, if the owner
  still owns the token then every one of them was refused and the session information is unchanged.
  Process transitions are refused exactly while the user holds the status, and any other write,
  even one that repeats the same values, revokes the token.
\<close>

theorem owned_token_means_unwritten:
  assumes "owner_snapshot w = Some tok" and "owns (snd (fold write_next is (info, w))) tok"
  shows "fold write_next is (info, w) = (info, w) \<and>
    (\<forall>now status msg src conf. Live now status msg src conf \<notin> set is) \<and>
    (\<forall>now k. Process now k \<in> set is \<longrightarrow> user_held info)"
proof -
  obtain r where r: "revision w = Some r" "token_revision tok = r"
    using assms(1) by (auto simp: owner_snapshot_def)
  have same: "fold write_next is (info, w) = (info, w)"
    using unchanged_rank [of "(info, w)" "is"] r assms(2) by (simp add: owns_def writes.rank_def)
  have "write_next i (info, w) = (info, w)" if member: "i \<in> set is" for i
  proof -
    obtain as bs where split: "is = as @ i # bs" using split_list [OF member] by blast
    have pre: "fold write_next as (info, w) = (info, w)"
    proof (rule unchanged_rank)
      show "writes.rank (snd (fold write_next as (info, w))) = writes.rank (snd (info, w))"
        using rank_run [of "(info, w)" as] rank_run [of "fold write_next as (info, w)" "i # bs"] same split
        by simp
    qed (simp add: r)
    have "writes.rank (snd (write_next i (info, w))) \<le> writes.rank w"
      using rank_run [of "write_next i (info, w)" bs] same split pre by simp
    then show ?thesis
      using write_next_cases [of i "(info, w)"] writes.rank_bump_less [of w] r by auto
  qed
  note idle = this
  have bump: "snd (accepted_write w) \<noteq> w" using writes.rank_bump_less [of w] r by fastforce
  have "Live now status msg src conf \<notin> set is" for now status msg src conf
    using idle [of "Live now status msg src conf"] bump
    by (auto simp: apply_live_attention_fields_def Let_def)
  moreover have "user_held info" if "Process now k \<in> set is" for now k
    using idle [OF that] bump by (auto simp: apply_process_transition_to_handle_def Let_def split: if_splits)
  ultimately show ?thesis using same by blast
qed

theorem owned_token_means_unwritten_witness:
  "let info = \<lparr>lifecycle = ''alive'', observed_status = Some ''blocked'', attention = Some ''blocked'', summary = None,
       metadata_source = None, needs_user_input = None, detected_question = None, suggested_options = None,
       provenance = \<lparr>attention_source = Some ''user'', attention_confidence = None, attention_origin = None,
         attention_updated_at = None\<rparr>\<rparr> in
   fold write_next [Process ''t'' IdleTimeout, Process ''u'' CommittedWorking] (info, new_owner 3) = (info, new_owner 3)"
  unfolding Let_def
  by (rule owned_token_means_unwritten [where tok = "\<lparr>token_identity = 3, token_revision = 0\<rparr>", THEN conjunct1])
    (simp_all add: owner_snapshot_def new_owner_def owns_def apply_process_transition_to_handle_def user_held_def)

end
