(* ===== verification/Proposed_Change.thy ===== *)
theory Proposed_Change
  imports Prelude Utf8
begin

text \<open>
  The sidecar's validation of a change a model proposes, the pure part of
  \<^verbatim>\<open>crates/orkworksd/src/taskmaster/proposed_change.rs\<close>: text bounds, path syntax, the scope and
  sensitivity rules, and the validation itself. Full Unicode lower-casing, used only to detect
  duplicate paths, and the length of the serialized change are function arguments. The checks
  against the file system are not modelled.
\<close>

section \<open>Data\<close>

definition MAX_SUMMARY_CHARS :: nat where "MAX_SUMMARY_CHARS = 200"
definition MAX_INSTRUCTION_CHARS :: nat where "MAX_INSTRUCTION_CHARS = 160"
definition MAX_VERIFICATION_CHARS :: nat where "MAX_VERIFICATION_CHARS = 200"
definition MAX_TARGETS :: nat where "MAX_TARGETS = 3"
definition MAX_PATH_BYTES :: nat where "MAX_PATH_BYTES = 260"
definition MAX_SERIALIZED_BYTES :: nat where "MAX_SERIALIZED_BYTES = 1536"

datatype target_action = Edit | Create

record model_change_target =
  model_path :: string
  model_action :: target_action
  model_instruction :: string

record model_proposed_change =
  model_summary :: string
  model_targets :: "model_change_target list"
  model_verification :: string

record change_target =
  path :: string
  target_action :: target_action
  instruction :: string
  sensitive :: bool

record proposed_change =
  change_summary :: string
  targets :: "change_target list"
  verification :: string

datatype change_validation_error =
    TextOutOfBounds | TargetCountOutOfBounds | PathInvalid | PathOutOfScope | DuplicatePath
  | SerializedTooLarge | WorkspaceUnavailable | EditTargetMissing | EditTargetNotRegularFile
  | EditTargetHardLinked | EscapesWorkspace | CreateTargetExists | CreateParentInvalid
  | CanonicalDestinationRejected

fun change_error_code :: "change_validation_error \<Rightarrow> string" where
  "change_error_code TextOutOfBounds = ''proposed_change_text''"
| "change_error_code TargetCountOutOfBounds = ''proposed_change_targets''"
| "change_error_code PathInvalid = ''proposed_change_path''"
| "change_error_code DuplicatePath = ''proposed_change_path''"
| "change_error_code PathOutOfScope = ''proposed_change_scope''"
| "change_error_code SerializedTooLarge = ''proposed_change_size''"
| "change_error_code _ = ''proposed_change_filesystem''"

section \<open>Scope and sensitivity\<close>

definition SENSITIVE_PREFIXES :: "string list" where
  "SENSITIVE_PREFIXES =
     [''.claude/'', ''.codex/'', ''.opencode/'', ''.agents/'', ''.cursor/'', ''.vscode/'',
      ''.devcontainer/'', ''.husky/'', ''.githooks/'', ''.github/'', ''.cargo/'', ''scripts/'']"

definition SENSITIVE_FILE_NAMES :: "string list" where
  "SENSITIVE_FILE_NAMES =
     [''.mcp.json'', ''.gitattributes'', ''.gitmodules'', ''opencode.json'', ''apm.yml'',
      ''package.json'', ''cargo.toml'', ''build.rs'', ''makefile'', ''justfile'', ''dockerfile'']"

definition SKILL_PREFIXES :: "string list" where
  "SKILL_PREFIXES = [''skills/'', ''.claude/skills/'', ''.agents/skills/'', ''.codex/skills/'']"

definition is_sensitive_path :: "string \<Rightarrow> bool" where
  "is_sensitive_path p =
     (let lower = to_ascii_lowercase p;
          file_name = last (split_on CHR ''/'' lower);
          in_skills = list_ex (starts_with lower) SKILL_PREFIXES
      in if in_skills \<and> ends_with lower ''.md'' then False
         else list_ex (starts_with lower) SENSITIVE_PREFIXES \<or> file_name \<in> set SENSITIVE_FILE_NAMES)"

definition is_test_file_name :: "string \<Rightarrow> bool" where
  "is_test_file_name file \<longleftrightarrow> starts_with file ''test_'' \<or>
     list_ex (contains file) [''_test.'', ''_tests.'', ''.test.'', ''.spec.'']"

definition TOOLING_PREFIXES :: "string list" where
  "TOOLING_PREFIXES =
     [''scripts/'', ''.github/'', ''.husky/'', ''.githooks/'', ''.devcontainer/'', ''.vscode/'',
      ''.cargo/'', ''.claude/'', ''.codex/'', ''.opencode/'', ''.agents/'', ''.cursor/'']"

definition is_in_scope :: "string \<Rightarrow> bool" where
  "is_in_scope p =
     (let lower = to_ascii_lowercase p;
          segments = split_on CHR ''/'' lower;
          file = last segments;
          dirs = butlast segments
      in if file \<in> {''agents.md'', ''claude.md'', ''gemini.md'', ''.cursorrules''} \<or>
            lower = ''.github/copilot-instructions.md'' then True
         else if list_ex (starts_with lower) SKILL_PREFIXES then True
         else if starts_with lower ''docs/'' \<or> starts_with lower ''specs/'' \<or>
                 list_ex (ends_with file) [''.md'', ''.mdx'', ''.rst'', ''.txt''] then True
         else if list_ex (\<lambda>d. d \<in> {''tests'', ''test'', ''__tests__'', ''spec''}) dirs \<or>
                 is_test_file_name file then True
         else if list_ex (starts_with lower) TOOLING_PREFIXES \<or>
                 file \<in> {''makefile'', ''justfile'', ''dockerfile''} \<or>
                 file \<in> set SENSITIVE_FILE_NAMES then True
         else dirs = [] \<and> list_ex (ends_with file) [''.json'', ''.yml'', ''.yaml'', ''.toml''])"

section \<open>Validation\<close>

definition validate_text :: "string \<Rightarrow> nat \<Rightarrow> change_validation_error + unit" where
  "validate_text v limit =
     refuse_if (all_white v \<or> char_count v > limit \<or> has_control v \<or> CHR ''<'' \<in> set v \<or> CHR ''>'' \<in> set v)
       TextOutOfBounds"

definition is_reserved_device_name :: "string \<Rightarrow> bool" where
  "is_reserved_device_name segment =
     (let stem = map ascii_upper (hd (split_on CHR ''.'' segment)) in
      stem \<in> {''CON'', ''PRN'', ''AUX'', ''NUL''} \<or>
      (length stem = 4 \<and> (starts_with stem ''COM'' \<or> starts_with stem ''LPT'') \<and>
       49 \<le> byte_val (stem ! 3) \<and> byte_val (stem ! 3) \<le> 57))"

definition bad_segment :: "string \<Rightarrow> bool" where
  "bad_segment segment \<longleftrightarrow>
     segment = [] \<or> segment = ''.'' \<or> segment = ''..'' \<or> ends_with segment ''.'' \<or>
     ends_with segment '' '' \<or> to_ascii_lowercase segment = ''.git'' \<or> is_reserved_device_name segment"

definition validate_path_syntax :: "string \<Rightarrow> change_validation_error + unit" where
  "validate_path_syntax p = first_error
     (refuse_if (p = [] \<or> length p > MAX_PATH_BYTES \<or> starts_with p ''/'') PathInvalid #
      refuse_if (has_control p \<or> list_ex (\<lambda>c. c \<in> {CHR 0x5C, CHR '':'', CHR ''<'', CHR ''>''}) p) PathInvalid #
      map (\<lambda>segment. refuse_if (bad_segment segment) PathInvalid) (split_on CHR ''/'' p))"

definition checked_target :: "model_change_target \<Rightarrow> change_target" where
  "checked_target t =
     \<lparr>path = model_path t, target_action = model_action t, instruction = model_instruction t,
      sensitive = is_sensitive_path (model_path t)\<rparr>"

text \<open>One turn of the loop over the targets: the lower-cased paths seen and the targets kept.\<close>

definition add_target ::
  "(string \<Rightarrow> string) \<Rightarrow> model_change_target \<Rightarrow> string set \<times> change_target list \<Rightarrow>
   change_validation_error + (string set \<times> change_target list)" where
  "add_target lower t acc =
     (case acc of (seen, kept) \<Rightarrow>
        and_then (first_error
          [validate_text (model_instruction t) MAX_INSTRUCTION_CHARS,
           validate_path_syntax (model_path t),
           refuse_if (\<not> is_in_scope (model_path t)) PathOutOfScope,
           refuse_if (lower (model_path t) \<in> seen) DuplicatePath])
          (\<lambda>_. Inr (insert (lower (model_path t)) seen, kept @ [checked_target t])))"

definition validate_proposed_change ::
  "(string \<Rightarrow> string) \<Rightarrow> (proposed_change \<Rightarrow> nat) \<Rightarrow> model_proposed_change \<Rightarrow>
   change_validation_error + proposed_change" where
  "validate_proposed_change lower size_of model =
     and_then (first_error
       [validate_text (model_summary model) MAX_SUMMARY_CHARS,
        validate_text (model_verification model) MAX_VERIFICATION_CHARS,
        refuse_if (model_targets model = [] \<or> length (model_targets model) > MAX_TARGETS)
          TargetCountOutOfBounds])
       (\<lambda>_. and_then (try_each (add_target lower) (model_targets model) ({}, [])) (\<lambda>acc.
          let change = \<lparr>change_summary = model_summary model, targets = snd acc,
                verification = model_verification model\<rparr> in
          if size_of change > MAX_SERIALIZED_BYTES then Inl SerializedTooLarge else Inr change))"

section \<open>What an accepted change looks like\<close>

lemma add_targets_ok:
  "try_each (add_target lower) ts (seen, kept) = Inr acc \<Longrightarrow>
   snd acc = kept @ map checked_target ts \<and>
   distinct (map (\<lambda>t. lower (model_path t)) ts) \<and> (\<lambda>t. lower (model_path t)) ` set ts \<inter> seen = {} \<and>
   (\<forall>t \<in> set ts. validate_path_syntax (model_path t) = Inr () \<and> is_in_scope (model_path t))"
proof (induction ts arbitrary: seen kept)
  case (Cons t ts)
  obtain acc1 where step: "add_target lower t (seen, kept) = Inr acc1"
    and rest: "try_each (add_target lower) ts acc1 = Inr acc"
    using Cons.prems by (auto split: sum.splits)
  have "acc1 = (insert (lower (model_path t)) seen, kept @ [checked_target t])"
    and t: "validate_path_syntax (model_path t) = Inr ()" "is_in_scope (model_path t)" "lower (model_path t) \<notin> seen"
    using step by (auto simp: add_target_def and_then_ok first_error_ok)
  with Cons.IH rest t show ?case by fastforce
qed auto

lemma path_syntax_ok:
  assumes "validate_path_syntax p = Inr ()"
  shows "p \<noteq> []" "length p \<le> 260" "\<not> starts_with p ''/''" "CHR 0x5C \<notin> set p" "CHR '':'' \<notin> set p"
    "segment \<in> set (split_on CHR ''/'' p) \<Longrightarrow> \<not> bad_segment segment"
  using assms by (auto simp: validate_path_syntax_def first_error_ok MAX_PATH_BYTES_def list_ex_iff)

text \<open>A path that stays inside the directory it is taken from, and outside any .git directory.\<close>

definition confined_path :: "string \<Rightarrow> bool" where
  "confined_path p \<longleftrightarrow> length p \<le> 260 \<and> \<not> starts_with p ''/'' \<and> CHR 0x5C \<notin> set p \<and> CHR '':'' \<notin> set p \<and>
     (\<forall>segment \<in> set (split_on CHR ''/'' p).
        segment \<notin> {[], ''.'', ''..''} \<and> to_ascii_lowercase segment \<noteq> ''.git'')"

lemma path_syntax_confined:
  assumes "validate_path_syntax p = Inr ()"
  shows "confined_path p"
  unfolding confined_path_def
proof (intro conjI ballI)
  fix segment assume "segment \<in> set (split_on CHR ''/'' p)"
  then have "\<not> bad_segment segment" by (rule path_syntax_ok(6) [OF assms])
  then show "segment \<notin> {[], ''.'', ''..''}" "to_ascii_lowercase segment \<noteq> ''.git''"
    by (simp_all add: bad_segment_def)
qed (rule path_syntax_ok(2-5) [OF assms])+

lemma validate_change_steps:
  assumes "validate_proposed_change lower size_of model = Inr ch"
  obtains acc where "try_each (add_target lower) (model_targets model) ({}, []) = Inr acc"
    and "model_targets model \<noteq> []" and "length (model_targets model) \<le> 3" and "size_of ch \<le> 1536"
    and "ch = \<lparr>change_summary = model_summary model, targets = snd acc, verification = model_verification model\<rparr>"
proof -
  define pre where "pre = first_error
       [validate_text (model_summary model) MAX_SUMMARY_CHARS,
        validate_text (model_verification model) MAX_VERIFICATION_CHARS,
        refuse_if (model_targets model = [] \<or> length (model_targets model) > MAX_TARGETS)
          TargetCountOutOfBounds]"
  obtain acc where "pre = Inr ()" and loop: "try_each (add_target lower) (model_targets model) ({}, []) = Inr acc"
    and fin: "(let change = \<lparr>change_summary = model_summary model, targets = snd acc,
          verification = model_verification model\<rparr> in
        if size_of change > MAX_SERIALIZED_BYTES then Inl SerializedTooLarge else Inr change) = Inr ch"
    using assms unfolding validate_proposed_change_def pre_def [symmetric] and_then_ok by auto
  then have "model_targets model \<noteq> []" "length (model_targets model) \<le> 3"
    by (simp_all add: pre_def first_error_ok MAX_TARGETS_def)
  moreover have "ch = \<lparr>change_summary = model_summary model, targets = snd acc, verification = model_verification model\<rparr>"
    "size_of ch \<le> 1536"
    using fin by (simp_all add: Let_def MAX_SERIALIZED_BYTES_def not_less split: if_splits)
  ultimately show thesis using that loop by blast
qed

section \<open>A concrete change\<close>

definition sample_change :: model_proposed_change where
  "sample_change =
     \<lparr>model_summary = ''s'', model_targets = [\<lparr>model_path = ''Docs/a.md'', model_action = Edit,
        model_instruction = ''i''\<rparr>], model_verification = ''v''\<rparr>"

lemma sample_scope: "is_in_scope ''Docs/a.md''" "\<not> is_in_scope ''src/main.rs''"
  by (simp_all add: is_in_scope_def Let_def to_ascii_lowercase_def ascii_lower_def ends_with_def
      SKILL_PREFIXES_def TOOLING_PREFIXES_def SENSITIVE_FILE_NAMES_def is_test_file_name_def char_of_eq_iff)

lemma sample_change_accepted:
  "\<exists>ch. validate_proposed_change to_ascii_lowercase (\<lambda>_. 90) sample_change = Inr ch"
proof -
  have syn: "validate_path_syntax ''Docs/a.md'' = Inr ()"
    by (simp add: validate_path_syntax_def MAX_PATH_BYTES_def bad_segment_def ends_with_def
        is_reserved_device_name_def Let_def to_ascii_lowercase_def ascii_lower_def ascii_upper_def char_of_eq_iff)
  have texts: "validate_text ''s'' n = Inr ()" "validate_text ''v'' n = Inr ()" "validate_text ''i'' n = Inr ()"
    if "0 < n" for n
    using that by (simp_all add: validate_text_def white1_def white2_def white3_def char_count_def continuation_def)
  show ?thesis
    by (simp add: sample_change_def validate_proposed_change_def add_target_def texts syn sample_scope(1)
        MAX_SUMMARY_CHARS_def MAX_VERIFICATION_CHARS_def MAX_INSTRUCTION_CHARS_def MAX_TARGETS_def
        MAX_SERIALIZED_BYTES_def Let_def)
qed

section \<open>Property\<close>

text \<open>
  An accepted change is confined. When validation succeeds, the change keeps the model's texts,
  actions and paths in order, has one to three targets with distinct lower-cased paths and fits in
  1536 bytes; every path is in scope, at most 260 bytes, relative, free of backslashes and colons,
  with no empty, dot or dot-dot segment and no segment that is a .git directory in any letter case;
  and the sensitive flag is the sidecar's own verdict on the path.
\<close>

theorem accepted_change_confined:
  assumes "validate_proposed_change lower size_of model = Inr ch"
  shows "change_summary ch = model_summary model \<and> verification ch = model_verification model \<and>
    map (\<lambda>t. (path t, target_action t, instruction t)) (targets ch) =
      map (\<lambda>t. (model_path t, model_action t, model_instruction t)) (model_targets model) \<and>
    0 < length (targets ch) \<and> length (targets ch) \<le> 3 \<and> size_of ch \<le> 1536 \<and>
    distinct (map (\<lambda>t. lower (path t)) (targets ch)) \<and>
    (\<forall>t \<in> set (targets ch). is_in_scope (path t) \<and> sensitive t = is_sensitive_path (path t) \<and>
       confined_path (path t))"
proof -
  obtain acc where loop: "try_each (add_target lower) (model_targets model) ({}, []) = Inr acc"
    and count: "model_targets model \<noteq> []" "length (model_targets model) \<le> 3" and size: "size_of ch \<le> 1536"
    and ch: "ch = \<lparr>change_summary = model_summary model, targets = snd acc, verification = model_verification model\<rparr>"
    using validate_change_steps [OF assms] by blast
  note ok = add_targets_ok [OF loop]
  then have ts: "targets ch = map checked_target (model_targets model)" using ch by simp
  have "is_in_scope (path t) \<and> sensitive t = is_sensitive_path (path t) \<and> confined_path (path t)"
    if member: "t \<in> set (targets ch)" for t
  proof -
    obtain mt where mt: "mt \<in> set (model_targets model)" "t = checked_target mt" using member ts by auto
    then show ?thesis using ok path_syntax_confined by (simp add: checked_target_def)
  qed
  moreover have "distinct (map (\<lambda>t. lower (path t)) (targets ch))"
    using ok ts by (simp add: checked_target_def comp_def)
  moreover have "map (\<lambda>t. (path t, target_action t, instruction t)) (targets ch) =
      map (\<lambda>t. (model_path t, model_action t, model_instruction t)) (model_targets model)"
    using ts by (simp add: checked_target_def)
  moreover have "0 < length (targets ch)" "length (targets ch) \<le> 3" using count ts by simp_all
  ultimately show ?thesis using size ch by simp
qed

theorem accepted_change_confined_witness:
  "\<exists>ch. validate_proposed_change to_ascii_lowercase (\<lambda>_. 90) sample_change = Inr ch \<and>
    (\<forall>t \<in> set (targets ch). is_in_scope (path t) \<and> confined_path (path t)) \<and> \<not> is_in_scope ''src/main.rs''"
proof -
  obtain ch where ch: "validate_proposed_change to_ascii_lowercase (\<lambda>_. 90) sample_change = Inr ch"
    using sample_change_accepted by blast
  from accepted_change_confined [OF ch] ch sample_scope(2) show ?thesis by blast
qed

end
