(* ===== verification/Rollup.thy ===== *)
theory Rollup
  imports Prelude Utf8 Proposed_Change "HOL-Library.List_Lexorder" "HOL-Library.Char_ord"
    "HOL-Library.Multiset"
begin

text \<open>
  Rollups of workflow recommendations, \<^verbatim>\<open>crates/orkworksd/src/taskmaster/rollup.rs\<close>: the validation of
  the clusters a model returns for a batch of families, and the bounded projection of evidence onto
  a rollup parent. The size of serialized values and the two arguments of change validation are
  function arguments; SHA-256 is one too. Building the batch from stored recommendations is not
  modelled.
\<close>

section \<open>Data\<close>

definition MAX_ROLLUP_FAMILIES :: nat where "MAX_ROLLUP_FAMILIES = 32"
definition MAX_ROLLUP_OBSERVATIONS :: nat where "MAX_ROLLUP_OBSERVATIONS = 96"
definition MAX_ROLLUP_INPUT_BYTES :: nat where "MAX_ROLLUP_INPUT_BYTES = 128 * 1024"
definition MAX_ROLLUP_RESPONSE_BYTES :: nat where "MAX_ROLLUP_RESPONSE_BYTES = 64 * 1024"
definition MAX_ROLLUP_CLUSTERS :: nat where "MAX_ROLLUP_CLUSTERS = 8"
definition MIN_ROLLUP_MEMBERS :: nat where "MIN_ROLLUP_MEMBERS = 2"
definition MAX_ROLLUP_MEMBERS :: nat where "MAX_ROLLUP_MEMBERS = 8"
definition MAX_ROLLUP_TITLE_CHARS :: nat where "MAX_ROLLUP_TITLE_CHARS = 240"
definition MAX_ROLLUP_SUMMARY_CHARS :: nat where "MAX_ROLLUP_SUMMARY_CHARS = 1000"
definition MAX_PARENT_EVIDENCE_ENTRIES :: nat where "MAX_PARENT_EVIDENCE_ENTRIES = 64"
definition MAX_PARENT_EVIDENCE_BYTES :: nat where "MAX_PARENT_EVIDENCE_BYTES = 128 * 1024"
definition MAX_SNAPSHOT_PROBLEM_AREA_CHARS :: nat where "MAX_SNAPSHOT_PROBLEM_AREA_CHARS = 120"
definition MAX_EVIDENCE_ID_CHARS :: nat where "MAX_EVIDENCE_ID_CHARS = 256"
definition MAX_EVIDENCE_SESSION_ID_CHARS :: nat where "MAX_EVIDENCE_SESSION_ID_CHARS = 256"
definition MAX_EVIDENCE_DESCRIPTION_CHARS :: nat where "MAX_EVIDENCE_DESCRIPTION_CHARS = 500"
definition MAX_EVIDENCE_TEXT_CHARS :: nat where "MAX_EVIDENCE_TEXT_CHARS = 2000"
definition MAX_EVIDENCE_TIMESTAMP_CHARS :: nat where "MAX_EVIDENCE_TIMESTAMP_CHARS = 64"

datatype target_surface = Instructions | Skill | Test | Tooling | Documentation

datatype observation_kind =
  Repetition | Obstacle | MissingContext | Assumption | Correction | Workaround | VerificationGap

datatype observation_source = AgentSource | PeonSource

datatype impact = Low | Medium | High

text \<open>The derived order of the source: the order of the constructors.\<close>

fun impact_rank :: "impact \<Rightarrow> nat" where
  "impact_rank Low = 0"
| "impact_rank Medium = 1"
| "impact_rank High = 2"

instantiation impact :: linorder
begin

definition less_eq_impact :: "impact \<Rightarrow> impact \<Rightarrow> bool" where
  "less_eq_impact a b \<longleftrightarrow> impact_rank a \<le> impact_rank b"

definition less_impact :: "impact \<Rightarrow> impact \<Rightarrow> bool" where
  "less_impact a b \<longleftrightarrow> impact_rank a < impact_rank b"

instance
proof
  fix a b :: impact
  assume "a \<le> b" "b \<le> a"
  then show "a = b" by (cases a; cases b) (simp_all add: less_eq_impact_def)
qed (auto simp: less_eq_impact_def less_impact_def)

end

record workflow_evidence =
  observation_id :: string
  evidence_sequence :: u64
  session_id :: string
  kind :: observation_kind
  description :: string
  evidence_text :: string
  problem_area :: "string option"
  reported_impact :: impact
  source :: observation_source
  confidence :: u64  \<comment> \<open>bit pattern of the float\<close>
  observed_at :: string

record family_snapshot =
  recommendation_id :: string
  dedupe_key :: string
  snapshot_surface :: target_surface
  snapshot_problem_area :: "string option"
  snapshot_title :: string
  snapshot_summary :: string
  representative_evidence :: "workflow_evidence list"
  source_session_ids :: "string list"
  active_parent_id :: "string option"
  active_parent_member_ids :: "string list"
  evidence_snapshot_hash :: string

record model_rollup_cluster =
  model_member_ids :: "string list"
  model_surface :: target_surface
  model_title :: string
  model_cluster_summary :: string
  model_change :: model_proposed_change

record rollup_cluster =
  member_recommendation_ids :: "string list"
  cluster_surface :: target_surface
  cluster_title :: string
  cluster_summary :: string
  cluster_change :: proposed_change

datatype rollup_error =
    TooManyFamilies | TooManyObservations | InputTooLarge | ResponseTooLarge
  | UnknownMemberId string | EmptyCluster | DuplicateCluster | DuplicateMemberId string
  | TooFewMembers | TooManyMembers | TooManyClusters | OverlappingMember string
  | MismatchedTargetSurface | NotProposed string | GeneratedTextOutOfBounds string nat
  | InvalidProposedChange change_validation_error

fun rollup_error_code :: "rollup_error \<Rightarrow> string" where
  "rollup_error_code TooManyFamilies = ''rollup_input_out_of_bounds''"
| "rollup_error_code TooManyObservations = ''rollup_input_out_of_bounds''"
| "rollup_error_code InputTooLarge = ''rollup_input_out_of_bounds''"
| "rollup_error_code ResponseTooLarge = ''rollup_response_out_of_bounds''"
| "rollup_error_code TooManyClusters = ''rollup_response_out_of_bounds''"
| "rollup_error_code (InvalidProposedChange e) = change_error_code e"
| "rollup_error_code _ = ''rollup_cluster_invalid''"

text \<open>What serialization and Unicode lower-casing provide.\<close>

record rollup_codec =
  snapshots_size :: "family_snapshot list \<Rightarrow> nat"
  clusters_size :: "model_rollup_cluster list \<Rightarrow> nat"
  evidence_size :: "workflow_evidence list \<Rightarrow> nat"
  change_size :: "proposed_change \<Rightarrow> nat"
  lower_case :: "string \<Rightarrow> string"
  sha256_lower_hex :: "string \<Rightarrow> string"

section \<open>Clusters\<close>

definition validate_generated_text :: "string \<Rightarrow> string \<Rightarrow> nat \<Rightarrow> rollup_error + unit" where
  "validate_generated_text field v limit =
     refuse_if (all_white v \<or> char_count v > limit \<or> has_control v) (GeneratedTextOutOfBounds field limit)"

fun first_repeat :: "string list \<Rightarrow> string option" where
  "first_repeat (x # y # ys) = (if x = y then Some x else first_repeat (y # ys))"
| "first_repeat _ = None"

definition add_member ::
  "(string \<rightharpoonup> family_snapshot) \<Rightarrow> target_surface \<Rightarrow> string \<Rightarrow> string set \<Rightarrow> rollup_error + string set" where
  "add_member by_id surface m seen =
     (case by_id m of
        None \<Rightarrow> Inl (UnknownMemberId m)
      | Some s \<Rightarrow>
          if snapshot_surface s \<noteq> surface then Inl MismatchedTargetSurface
          else if m \<in> seen then Inl (OverlappingMember m)
          else Inr (insert m seen))"

record rollup_progress =
  seen_members :: "string set"
  seen_clusters :: "string set set"
  normalized :: "rollup_cluster list"

definition cluster_shape :: "model_rollup_cluster \<Rightarrow> rollup_error + unit" where
  "cluster_shape cl = first_error
     [refuse_if (model_member_ids cl = []) EmptyCluster,
      refuse_if (length (model_member_ids cl) < MIN_ROLLUP_MEMBERS) TooFewMembers,
      refuse_if (length (model_member_ids cl) > MAX_ROLLUP_MEMBERS) TooManyMembers,
      (case first_repeat (sort (model_member_ids cl)) of
         None \<Rightarrow> Inr ()
       | Some m \<Rightarrow> Inl (DuplicateMemberId m))]"

definition lift_change :: "change_validation_error + 'a \<Rightarrow> rollup_error + 'a" where
  "lift_change r = (case r of Inl e \<Rightarrow> Inl (InvalidProposedChange e) | Inr x \<Rightarrow> Inr x)"

definition add_cluster ::
  "rollup_codec \<Rightarrow> (string \<rightharpoonup> family_snapshot) \<Rightarrow> model_rollup_cluster \<Rightarrow> rollup_progress \<Rightarrow>
   rollup_error + rollup_progress" where
  "add_cluster c by_id cl st =
     and_then (first_error
       [validate_generated_text ''title'' (model_title cl) MAX_ROLLUP_TITLE_CHARS,
        validate_generated_text ''summary'' (model_cluster_summary cl) MAX_ROLLUP_SUMMARY_CHARS]) (\<lambda>_.
     and_then (lift_change (validate_proposed_change (lower_case c) (change_size c) (model_change cl))) (\<lambda>change.
     and_then (cluster_shape cl) (\<lambda>_.
       let member_ids = sort (model_member_ids cl) in
       if set member_ids \<in> seen_clusters st then Inl DuplicateCluster
       else and_then (try_each (add_member by_id (model_surface cl)) member_ids (seen_members st)) (\<lambda>seen.
         Inr \<lparr>seen_members = seen, seen_clusters = insert (set member_ids) (seen_clusters st),
              normalized = normalized st @
                [\<lparr>member_recommendation_ids = member_ids, cluster_surface = model_surface cl,
                  cluster_title = model_title cl, cluster_summary = model_cluster_summary cl,
                  cluster_change = change\<rparr>]\<rparr>))))"

definition index_snapshots :: "family_snapshot list \<Rightarrow> string \<rightharpoonup> family_snapshot" where
  "index_snapshots snaps = map_of (rev (map (\<lambda>s. (recommendation_id s, s)) snaps))"

definition validate_rollup_clusters ::
  "rollup_codec \<Rightarrow> family_snapshot list \<Rightarrow> model_rollup_cluster list \<Rightarrow> rollup_error + rollup_cluster list" where
  "validate_rollup_clusters c snaps clusters =
     and_then (first_error
       [refuse_if (length snaps > MAX_ROLLUP_FAMILIES) TooManyFamilies,
        refuse_if (sum_list (map (\<lambda>s. length (representative_evidence s)) snaps) > MAX_ROLLUP_OBSERVATIONS)
          TooManyObservations,
        refuse_if (snapshots_size c snaps > MAX_ROLLUP_INPUT_BYTES) InputTooLarge,
        refuse_if (length clusters > MAX_ROLLUP_CLUSTERS) TooManyClusters,
        refuse_if (clusters_size c clusters > MAX_ROLLUP_RESPONSE_BYTES) ResponseTooLarge]) (\<lambda>_.
     and_then (try_each (add_cluster c (index_snapshots snaps)) clusters
         \<lparr>seen_members = {}, seen_clusters = {}, normalized = []\<rparr>) (\<lambda>st.
       Inr (sort_by (\<lambda>a b. member_recommendation_ids a < member_recommendation_ids b) (normalized st))))"

definition stable_rollup_id :: "rollup_codec \<Rightarrow> string list \<Rightarrow> string" where
  "stable_rollup_id c ids =
     ''rollup:'' @ sha256_lower_hex c (concat (map (\<lambda>m. m @ [CHR 0x00]) (sort ids)))"

section \<open>Evidence\<close>

definition bounded_evidence :: "workflow_evidence \<Rightarrow> workflow_evidence" where
  "bounded_evidence e =
     e\<lparr>observation_id := truncate_chars (observation_id e) MAX_EVIDENCE_ID_CHARS,
       session_id := truncate_chars (session_id e) MAX_EVIDENCE_SESSION_ID_CHARS,
       description := truncate_chars (description e) MAX_EVIDENCE_DESCRIPTION_CHARS,
       evidence_text := truncate_chars (evidence_text e) MAX_EVIDENCE_TEXT_CHARS,
       problem_area := map_option (\<lambda>v. truncate_chars v MAX_SNAPSHOT_PROBLEM_AREA_CHARS) (problem_area e),
       observed_at := truncate_chars (observed_at e) MAX_EVIDENCE_TIMESTAMP_CHARS\<rparr>"

text \<open>\<open>evidence_order(l, r).is_lt()\<close>: higher impact first, then later sequence, then smaller id.\<close>

definition evidence_lt :: "workflow_evidence \<Rightarrow> workflow_evidence \<Rightarrow> bool" where
  "evidence_lt l r \<longleftrightarrow>
     reported_impact r < reported_impact l \<or>
     (reported_impact r = reported_impact l \<and>
       (evidence_sequence r < evidence_sequence l \<or>
        (evidence_sequence r = evidence_sequence l \<and> observation_id l < observation_id r)))"

text \<open>\<open>BTreeMap::entry\<close>: the association list is kept in key order.\<close>

fun upsert :: "string \<Rightarrow> workflow_evidence \<Rightarrow> (string \<times> workflow_evidence) list \<Rightarrow>
  (string \<times> workflow_evidence) list" where
  "upsert k new [] = [(k, new)]"
| "upsert k new ((k', old) # rest) =
     (if k = k' then (k', if evidence_lt new old then new else old) # rest
      else if k < k' then (k, new) # (k', old) # rest
      else (k', old) # upsert k new rest)"

definition unique_evidence :: "workflow_evidence list \<Rightarrow> (string \<times> workflow_evidence) list" where
  "unique_evidence es =
     fold (\<lambda>e m. upsert (observation_id (bounded_evidence e)) (bounded_evidence e) m) es []"

fun fit_evidence :: "(workflow_evidence list \<Rightarrow> nat) \<Rightarrow> workflow_evidence list \<Rightarrow> workflow_evidence list \<Rightarrow>
  workflow_evidence list" where
  "fit_evidence sz proj [] = proj"
| "fit_evidence sz proj (e # es) =
     (if length proj = MAX_PARENT_EVIDENCE_ENTRIES then proj
      else if sz (proj @ [e]) > MAX_PARENT_EVIDENCE_BYTES then fit_evidence sz proj es
      else fit_evidence sz (proj @ [e]) es)"

definition project_parent_evidence :: "rollup_codec \<Rightarrow> workflow_evidence list \<Rightarrow> workflow_evidence list" where
  "project_parent_evidence c es =
     fit_evidence (evidence_size c) [] (sort_by evidence_lt (map snd (unique_evidence es)))"

section \<open>Sorting\<close>

lemma insert_by_mset: "mset (insert_by lt x ys) = add_mset x (mset ys)"
  by (induction ys) auto

lemma sort_by_mset: "mset (sort_by lt xs) = mset xs"
  by (induction xs) (simp_all add: sort_by_def insert_by_mset)

interpretation members: comparator "\<lambda>a b. member_recommendation_ids a < member_recommendation_ids b"
  by unfold_locales auto

interpretation evidence: comparator evidence_lt
  by unfold_locales (auto simp: evidence_lt_def not_less)

text \<open>The rollup id does not depend on the order of the members.\<close>

lemma stable_rollup_id_order: "mset ids = mset ids' \<Longrightarrow> stable_rollup_id c ids = stable_rollup_id c ids'"
proof -
  assume "mset ids = mset ids'"
  then have "sort ids = sort ids'" by (intro properties_for_sort) simp_all
  then show ?thesis by (simp add: stable_rollup_id_def)
qed

section \<open>What accepted clusters look like\<close>

lemma first_repeat_None: "sorted xs \<Longrightarrow> first_repeat xs = None \<longleftrightarrow> distinct xs"
proof (induction xs rule: first_repeat.induct)
  case (1 x y ys)
  then show ?case by (cases "x = y") force+
qed simp_all

lemma add_members_ok:
  "try_each (add_member by_id surface) ms seen = Inr seen' \<Longrightarrow>
   seen' = seen \<union> set ms \<and> set ms \<inter> seen = {} \<and>
   (\<forall>m \<in> set ms. \<exists>s. by_id m = Some s \<and> snapshot_surface s = surface)"
proof (induction ms arbitrary: seen)
  case (Cons m ms)
  then obtain seen1 where "add_member by_id surface m seen = Inr seen1"
    and rest: "try_each (add_member by_id surface) ms seen1 = Inr seen'"
    by (auto split: sum.splits)
  then have "seen1 = insert m seen" "m \<notin> seen" "\<exists>s. by_id m = Some s \<and> snapshot_surface s = surface"
    by (auto simp: add_member_def split: option.splits if_splits)
  then show ?case using Cons.IH [OF rest] by auto
qed simp

definition cluster_ok :: "rollup_codec \<Rightarrow> (string \<rightharpoonup> family_snapshot) \<Rightarrow> model_rollup_cluster \<Rightarrow> rollup_cluster \<Rightarrow> bool" where
  "cluster_ok c by_id cl out \<longleftrightarrow>
     member_recommendation_ids out = sort (model_member_ids cl) \<and> cluster_surface out = model_surface cl \<and>
     cluster_title out = model_title cl \<and> cluster_summary out = model_cluster_summary cl \<and>
     validate_proposed_change (lower_case c) (change_size c) (model_change cl) = Inr (cluster_change out) \<and>
     2 \<le> length (member_recommendation_ids out) \<and> length (member_recommendation_ids out) \<le> 8 \<and>
     distinct (member_recommendation_ids out) \<and>
     (\<forall>m \<in> set (member_recommendation_ids out). \<exists>s. by_id m = Some s \<and> snapshot_surface s = cluster_surface out)"

lemma add_cluster_ok:
  assumes "add_cluster c by_id cl st = Inr st'"
  shows "\<exists>out. normalized st' = normalized st @ [out] \<and> cluster_ok c by_id cl out \<and>
    set (member_recommendation_ids out) \<inter> seen_members st = {} \<and>
    seen_members st' = seen_members st \<union> set (member_recommendation_ids out)"
proof -
  let ?ids = "sort (model_member_ids cl)"
  obtain change seen where change: "validate_proposed_change (lower_case c) (change_size c) (model_change cl) = Inr change"
    and shape: "cluster_shape cl = Inr ()"
    and loop: "try_each (add_member by_id (model_surface cl)) ?ids (seen_members st) = Inr seen"
    and st': "st' = \<lparr>seen_members = seen, seen_clusters = insert (set ?ids) (seen_clusters st),
        normalized = normalized st @ [\<lparr>member_recommendation_ids = ?ids, cluster_surface = model_surface cl,
          cluster_title = model_title cl, cluster_summary = model_cluster_summary cl, cluster_change = change\<rparr>]\<rparr>"
    using assms by (auto simp: add_cluster_def and_then_ok lift_change_def Let_def split: sum.splits if_splits)
  have len: "2 \<le> length ?ids" "length ?ids \<le> 8" and rep: "first_repeat ?ids = None"
    using shape by (auto simp: cluster_shape_def first_error_ok MIN_ROLLUP_MEMBERS_def MAX_ROLLUP_MEMBERS_def
        split: option.splits)
  have "distinct ?ids" using rep first_repeat_None [OF sorted_sort] by blast
  then show ?thesis using add_members_ok [OF loop] len change st' by (simp add: cluster_ok_def)
qed

lemma add_clusters_ok:
  "try_each (add_cluster c by_id) cls st = Inr st' \<Longrightarrow>
   \<exists>outs. normalized st' = normalized st @ outs \<and> list_all2 (cluster_ok c by_id) cls outs \<and>
     distinct (concat (map member_recommendation_ids outs)) \<and>
     set (concat (map member_recommendation_ids outs)) \<inter> seen_members st = {}"
proof (induction cls arbitrary: st)
  case (Cons cl cls)
  then obtain st1 where step: "add_cluster c by_id cl st = Inr st1"
    and rest: "try_each (add_cluster c by_id) cls st1 = Inr st'" by (auto split: sum.splits)
  obtain out where out: "normalized st1 = normalized st @ [out]" "cluster_ok c by_id cl out"
      "set (member_recommendation_ids out) \<inter> seen_members st = {}"
      "seen_members st1 = seen_members st \<union> set (member_recommendation_ids out)"
    using add_cluster_ok [OF step] by blast
  obtain outs where outs: "normalized st' = normalized st1 @ outs" "list_all2 (cluster_ok c by_id) cls outs"
      "distinct (concat (map member_recommendation_ids outs))"
      "set (concat (map member_recommendation_ids outs)) \<inter> seen_members st1 = {}"
    using Cons.IH [OF rest] by blast
  have "distinct (member_recommendation_ids out)" using out(2) unfolding cluster_ok_def by blast
  then have "distinct (concat (map member_recommendation_ids (out # outs)))"
    using outs(3,4) out(4) by auto
  moreover have "set (concat (map member_recommendation_ids (out # outs))) \<inter> seen_members st = {}"
    using out(3,4) outs(4) by auto
  ultimately show ?case using out(1,2) outs(1,2) by (intro exI [of _ "out # outs"]) simp
qed simp

lemma index_snapshots_Some: "index_snapshots snaps m = Some s \<Longrightarrow> s \<in> set snaps \<and> recommendation_id s = m"
  by (auto simp: index_snapshots_def dest: map_of_SomeD)

lemma distinct_concat_mset: "mset xs = mset ys \<Longrightarrow> distinct (concat (map f xs)) = distinct (concat (map f ys))"
proof -
  assume "mset xs = mset ys"
  then have "mset (concat (map f xs)) = mset (concat (map f ys))"
    by (metis mset_concat mset_map sum_mset_sum_list)
  then show ?thesis by (metis mset_eq_imp_distinct_iff)
qed

section \<open>What projected evidence looks like\<close>

lemma upsert_keys: "fst ` set (upsert k e m) = insert k (fst ` set m)"
  by (induction k e m rule: upsert.induct) auto

lemma upsert_sorted: "sorted_wrt (<) (map fst m) \<Longrightarrow> sorted_wrt (<) (map fst (upsert k e m))"
proof (induction k e m rule: upsert.induct)
  case (2 k e k' old rest)
  have "fst ` set (upsert k e rest) = insert k (fst ` set rest)" by (rule upsert_keys)
  then show ?case using 2 by auto
qed simp

lemma upsert_lookup:
  "sorted_wrt (<) (map fst m) \<Longrightarrow>
   map_of (upsert k e m) k' =
     (if k' = k then Some (case map_of m k of None \<Rightarrow> e | Some old \<Rightarrow> if evidence_lt e old then e else old)
      else map_of m k')"
proof (induction k e m rule: upsert.induct)
  case (2 k e k0 old rest)
  have "map_of rest k = None" if "k < k0"
    using 2(2) that by (force simp: map_of_eq_None_iff)
  then show ?case using 2 by auto
qed simp

text \<open>The map holds, for every id, a bounded input with that id that no other one precedes.\<close>

definition best_of :: "workflow_evidence list \<Rightarrow> (string \<times> workflow_evidence) list \<Rightarrow> bool" where
  "best_of es m \<longleftrightarrow> sorted_wrt (<) (map fst m) \<and>
     (\<forall>k v. map_of m k = Some v \<longrightarrow> k = observation_id v \<and> v \<in> bounded_evidence ` set es \<and>
        (\<forall>e \<in> set es. observation_id (bounded_evidence e) = k \<longrightarrow> \<not> evidence_lt (bounded_evidence e) v))"

lemma best_of_step:
  assumes "best_of es m" and "\<forall>e \<in> set es. map_of m (observation_id (bounded_evidence e)) \<noteq> None"
  shows "best_of (es @ [e]) (upsert (observation_id (bounded_evidence e)) (bounded_evidence e) m)"
proof -
  let ?b = "bounded_evidence e"
  have sorted: "sorted_wrt (<) (map fst m)" using assms(1) by (simp add: best_of_def)
  have irrefl: "\<not> evidence_lt x x" for x using evidence.lt_asym by blast
  have "k = observation_id v \<and> v \<in> bounded_evidence ` set (es @ [e]) \<and>
      (\<forall>x \<in> set (es @ [e]). observation_id (bounded_evidence x) = k \<longrightarrow> \<not> evidence_lt (bounded_evidence x) v)"
    if look: "map_of (upsert (observation_id ?b) ?b m) k = Some v" for k v
  proof (cases "k = observation_id ?b")
    case False
    then show ?thesis using look assms(1) by (auto simp: upsert_lookup [OF sorted] best_of_def)
  next
    case True
    show ?thesis
    proof (cases "map_of m k")
      case None
      then have "v = ?b" using look True by (simp add: upsert_lookup [OF sorted])
      then show ?thesis using None True assms(2) irrefl by auto
    next
      case (Some old)
      have old: "k = observation_id old" "old \<in> bounded_evidence ` set es"
        "\<forall>x \<in> set es. observation_id (bounded_evidence x) = k \<longrightarrow> \<not> evidence_lt (bounded_evidence x) old"
        using assms(1) Some by (auto simp: best_of_def)
      have v: "v = (if evidence_lt ?b old then ?b else old)"
        using look True Some by (simp add: upsert_lookup [OF sorted])
      have "\<not> evidence_lt (bounded_evidence x) ?b" if "evidence_lt ?b old" "x \<in> set es"
        "observation_id (bounded_evidence x) = k" for x
        using evidence.lt_weak [of old ?b "bounded_evidence x"] evidence.lt_asym that old(3) by blast
      then show ?thesis using v old True irrefl by auto
    qed
  qed
  then show ?thesis using upsert_sorted [OF sorted] unfolding best_of_def by blast
qed

lemma unique_evidence_best:
  "best_of es (unique_evidence es) \<and>
   (\<forall>e \<in> set es. map_of (unique_evidence es) (observation_id (bounded_evidence e)) \<noteq> None)"
proof (induction es rule: rev_induct)
  case Nil
  then show ?case by (simp add: best_of_def unique_evidence_def)
next
  case (snoc e es)
  have sorted: "sorted_wrt (<) (map fst (unique_evidence es))" using snoc by (simp add: best_of_def)
  have eq: "unique_evidence (es @ [e]) =
      upsert (observation_id (bounded_evidence e)) (bounded_evidence e) (unique_evidence es)"
    by (simp add: unique_evidence_def)
  show ?case using best_of_step [of es _ e] snoc unfolding eq
    by (auto simp: upsert_lookup [OF sorted])
qed

lemma sorted_wrt_less_distinct: "sorted_wrt (<) (xs :: string list) \<Longrightarrow> distinct xs"
  by (simp add: strict_sorted_iff)

lemma unique_evidence_values:
  assumes "v \<in> set (map snd (unique_evidence es))"
  shows "v \<in> bounded_evidence ` set es"
    and "e \<in> set es \<Longrightarrow> observation_id (bounded_evidence e) = observation_id v \<Longrightarrow> \<not> evidence_lt (bounded_evidence e) v"
proof -
  have best: "best_of es (unique_evidence es)" using unique_evidence_best by blast
  obtain k where "(k, v) \<in> set (unique_evidence es)" using assms by auto
  then have look: "map_of (unique_evidence es) k = Some v"
    using best sorted_wrt_less_distinct by (simp add: best_of_def)
  show "v \<in> bounded_evidence ` set es" using best look by (simp add: best_of_def)
  show "\<not> evidence_lt (bounded_evidence e) v"
    if "e \<in> set es" "observation_id (bounded_evidence e) = observation_id v"
    using best look that by (auto simp: best_of_def)
qed

lemma unique_evidence_ids: "distinct (map observation_id (map snd (unique_evidence es)))"
proof -
  have best: "best_of es (unique_evidence es)" using unique_evidence_best by blast
  then have d: "distinct (map fst (unique_evidence es))"
    using sorted_wrt_less_distinct by (simp add: best_of_def)
  have "\<forall>kv \<in> set (unique_evidence es). fst kv = observation_id (snd kv)"
    using best d by (auto simp: best_of_def)
  then have "map observation_id (map snd (unique_evidence es)) = map fst (unique_evidence es)" by simp
  then show ?thesis using d by (simp only:)
qed

lemma fit_evidence_subseq: "\<exists>zs. fit_evidence sz proj es = proj @ zs \<and> subseq zs es"
proof (induction sz proj es rule: fit_evidence.induct)
  case (2 sz proj e es)
  then show ?case by (auto intro: subseq_Cons')
qed simp

lemma fit_evidence_bounds:
  "length proj \<le> 64 \<Longrightarrow> proj = [] \<or> sz proj \<le> MAX_PARENT_EVIDENCE_BYTES \<Longrightarrow>
   length (fit_evidence sz proj es) \<le> 64 \<and>
   (fit_evidence sz proj es = [] \<or> sz (fit_evidence sz proj es) \<le> MAX_PARENT_EVIDENCE_BYTES)"
  by (induction sz proj es rule: fit_evidence.induct) (auto simp: MAX_PARENT_EVIDENCE_ENTRIES_def)

lemma sorted_wrt_subseq: "subseq zs es \<Longrightarrow> sorted_wrt P es \<Longrightarrow> sorted_wrt P zs"
  by (induction rule: list_emb.induct) (auto dest: list_emb_set)

lemma distinct_map_wrt: "distinct (map f xs) \<longleftrightarrow> sorted_wrt (\<lambda>a b. f a \<noteq> f b) xs"
  by (induction xs) auto

section \<open>Concrete values\<close>

definition sample_rollup_codec :: rollup_codec where
  "sample_rollup_codec = \<lparr>snapshots_size = (\<lambda>_. 0), clusters_size = (\<lambda>_. 0), evidence_size = length,
     change_size = (\<lambda>_. 90), lower_case = to_ascii_lowercase, sha256_lower_hex = id\<rparr>"

definition sample_family :: "string \<Rightarrow> family_snapshot" where
  "sample_family i = \<lparr>recommendation_id = i, dedupe_key = [], snapshot_surface = Skill,
     snapshot_problem_area = None, snapshot_title = [], snapshot_summary = [], representative_evidence = [],
     source_session_ids = [], active_parent_id = None, active_parent_member_ids = [], evidence_snapshot_hash = []\<rparr>"

definition sample_cluster :: model_rollup_cluster where
  "sample_cluster = \<lparr>model_member_ids = [''b'', ''a''], model_surface = Skill, model_title = ''t'',
     model_cluster_summary = ''s'', model_change = sample_change\<rparr>"

definition sample_evidence :: "impact \<Rightarrow> u64 \<Rightarrow> workflow_evidence" where
  "sample_evidence i n = \<lparr>observation_id = ''o'', evidence_sequence = n, session_id = [], kind = Obstacle,
     description = [], evidence_text = [], problem_area = None, reported_impact = i, source = PeonSource,
     confidence = 0, observed_at = []\<rparr>"

lemma sample_evidence_bounded: "bounded_evidence (sample_evidence i n) = sample_evidence i n"
  by (simp add: bounded_evidence_def sample_evidence_def truncate_chars_short char_count_def continuation_def
      MAX_EVIDENCE_ID_CHARS_def)

lemma sample_clusters_accepted:
  "\<exists>out. validate_rollup_clusters sample_rollup_codec [sample_family ''b'', sample_family ''a''] [sample_cluster] = Inr out"
proof -
  obtain ch where "validate_proposed_change to_ascii_lowercase (\<lambda>_. 90) sample_change = Inr ch"
    using sample_change_accepted by blast
  then have change: "lift_change (validate_proposed_change (lower_case sample_rollup_codec)
      (change_size sample_rollup_codec) (model_change sample_cluster)) = Inr ch"
    by (simp add: lift_change_def sample_rollup_codec_def sample_cluster_def)
  have ids: "sort (model_member_ids sample_cluster) = [''a'', ''b'']"
    by (simp add: sample_cluster_def less_eq_char_def)
  have shape: "cluster_shape sample_cluster = Inr ()"
    by (simp add: cluster_shape_def ids MIN_ROLLUP_MEMBERS_def MAX_ROLLUP_MEMBERS_def) (simp add: sample_cluster_def)
  have texts: "validate_generated_text f (model_title sample_cluster) MAX_ROLLUP_TITLE_CHARS = Inr ()"
    "validate_generated_text f (model_cluster_summary sample_cluster) MAX_ROLLUP_SUMMARY_CHARS = Inr ()" for f
    by (simp_all add: validate_generated_text_def sample_cluster_def white1_def white2_def white3_def
        char_count_def continuation_def MAX_ROLLUP_TITLE_CHARS_def MAX_ROLLUP_SUMMARY_CHARS_def)
  have members: "\<exists>seen. try_each (add_member (index_snapshots [sample_family ''b'', sample_family ''a''])
      (model_surface sample_cluster)) [''a'', ''b''] {} = Inr seen"
    by (simp add: add_member_def index_snapshots_def sample_family_def sample_cluster_def)
  then show ?thesis
    by (auto simp: validate_rollup_clusters_def add_cluster_def change shape texts ids Let_def
        MAX_ROLLUP_FAMILIES_def MAX_ROLLUP_CLUSTERS_def MAX_ROLLUP_OBSERVATIONS_def)
      (simp_all add: sample_rollup_codec_def sample_family_def)
qed

section \<open>Properties\<close>

text \<open>
  Accepted clusters partition known families. When validation succeeds, the output has one
  cluster per model cluster with its title, summary, surface and sorted members, ordered by members
  and at most eight; each has between two and eight distinct members, every member is a supplied
  family of the cluster's own surface, no family is in two clusters, and each change passed change
  validation.
\<close>

theorem accepted_clusters_partition:
  assumes "validate_rollup_clusters c snaps clusters = Inr out"
  shows "length out \<le> 8 \<and> length snaps \<le> 32 \<and>
    mset (map (\<lambda>cl. (member_recommendation_ids cl, cluster_surface cl, cluster_title cl, cluster_summary cl)) out) =
      mset (map (\<lambda>m. (sort (model_member_ids m), model_surface m, model_title m, model_cluster_summary m)) clusters) \<and>
    sorted_wrt (\<lambda>a b. \<not> member_recommendation_ids b < member_recommendation_ids a) out \<and>
    distinct (concat (map member_recommendation_ids out)) \<and>
    (\<forall>cl \<in> set out. 2 \<le> length (member_recommendation_ids cl) \<and> length (member_recommendation_ids cl) \<le> 8 \<and>
       (\<exists>m \<in> set clusters. validate_proposed_change (lower_case c) (change_size c) (model_change m) = Inr (cluster_change cl)) \<and>
       (\<forall>i \<in> set (member_recommendation_ids cl). \<exists>s \<in> set snaps. recommendation_id s = i \<and>
          snapshot_surface s = cluster_surface cl))"
proof -
  define pre where "pre = first_error
       [refuse_if (length snaps > MAX_ROLLUP_FAMILIES) TooManyFamilies,
        refuse_if (sum_list (map (\<lambda>s. length (representative_evidence s)) snaps) > MAX_ROLLUP_OBSERVATIONS)
          TooManyObservations,
        refuse_if (snapshots_size c snaps > MAX_ROLLUP_INPUT_BYTES) InputTooLarge,
        refuse_if (length clusters > MAX_ROLLUP_CLUSTERS) TooManyClusters,
        refuse_if (clusters_size c clusters > MAX_ROLLUP_RESPONSE_BYTES) ResponseTooLarge]"
  obtain st where "pre = Inr ()"
    and loop: "try_each (add_cluster c (index_snapshots snaps)) clusters
         \<lparr>seen_members = {}, seen_clusters = {}, normalized = []\<rparr> = Inr st"
    and out: "out = sort_by (\<lambda>a b. member_recommendation_ids a < member_recommendation_ids b) (normalized st)"
    using assms unfolding validate_rollup_clusters_def pre_def [symmetric] and_then_ok by auto
  then have count: "length snaps \<le> 32" "length clusters \<le> 8"
    by (simp_all add: pre_def first_error_ok MAX_ROLLUP_FAMILIES_def MAX_ROLLUP_CLUSTERS_def)
  obtain outs where outs: "normalized st = outs" "list_all2 (cluster_ok c (index_snapshots snaps)) clusters outs"
      "distinct (concat (map member_recommendation_ids outs))"
    using add_clusters_ok [OF loop] by auto
  have perm: "mset out = mset outs" using out outs(1) by (simp add: sort_by_mset)
  have fields: "map (\<lambda>cl. (member_recommendation_ids cl, cluster_surface cl, cluster_title cl, cluster_summary cl)) outs =
      map (\<lambda>m. (sort (model_member_ids m), model_surface m, model_title m, model_cluster_summary m)) clusters"
    using outs(2) by (induction rule: list_all2_induct) (simp_all add: cluster_ok_def)
  have "2 \<le> length (member_recommendation_ids cl) \<and> length (member_recommendation_ids cl) \<le> 8 \<and>
      (\<exists>m \<in> set clusters. validate_proposed_change (lower_case c) (change_size c) (model_change m) = Inr (cluster_change cl)) \<and>
      (\<forall>i \<in> set (member_recommendation_ids cl). \<exists>s \<in> set snaps. recommendation_id s = i \<and>
          snapshot_surface s = cluster_surface cl)" if "cl \<in> set out" for cl
  proof -
    have "cl \<in> set outs" using that perm by (metis set_mset_mset)
    then obtain m where m: "m \<in> set clusters" "cluster_ok c (index_snapshots snaps) m cl"
      using outs(2) by (metis in_set_conv_nth list_all2_conv_all_nth)
    then show ?thesis using index_snapshots_Some unfolding cluster_ok_def by fastforce
  qed
  moreover have "length out \<le> 8"
    using count perm outs(2) by (metis list_all2_lengthD mset_eq_length)
  moreover have "distinct (concat (map member_recommendation_ids out))"
    using outs(3) distinct_concat_mset [OF perm] by blast
  moreover have "mset (map (\<lambda>cl. (member_recommendation_ids cl, cluster_surface cl, cluster_title cl, cluster_summary cl)) out) =
      mset (map (\<lambda>m. (sort (model_member_ids m), model_surface m, model_title m, model_cluster_summary m)) clusters)"
    unfolding fields [symmetric] mset_map perm by (rule refl)
  moreover have "sorted_wrt (\<lambda>a b. \<not> member_recommendation_ids b < member_recommendation_ids a) out"
    unfolding out by (rule members.sort_by_ordered)
  ultimately show ?thesis using count(1) by blast
qed

theorem accepted_clusters_partition_witness:
  "\<exists>out. validate_rollup_clusters sample_rollup_codec [sample_family ''b'', sample_family ''a''] [sample_cluster] = Inr out \<and>
    distinct (concat (map member_recommendation_ids out)) \<and> length out \<le> 8"
proof -
  obtain out where out: "validate_rollup_clusters sample_rollup_codec [sample_family ''b'', sample_family ''a'']
      [sample_cluster] = Inr out" using sample_clusters_accepted by blast
  from accepted_clusters_partition [OF out] out show ?thesis by blast
qed

text \<open>
  The evidence projected onto a rollup parent is bounded, ordered and the best available: at
  most 64 entries within the byte budget (or none), in evidence order with distinct observation ids,
  each entry the bounded form of a given observation, and no given observation with the same bounded
  id would come before it.
\<close>

theorem projected_evidence_best:
  fixes c es
  defines "res \<equiv> project_parent_evidence c es"
  shows "length res \<le> 64 \<and> (res = [] \<or> evidence_size c res \<le> 128 * 1024) \<and>
    sorted_wrt (\<lambda>a b. \<not> evidence_lt b a) res \<and> distinct (map observation_id res) \<and>
    set res \<subseteq> bounded_evidence ` set es \<and>
    (\<forall>r \<in> set res. \<forall>e \<in> set es. observation_id (bounded_evidence e) = observation_id r \<longrightarrow>
       \<not> evidence_lt (bounded_evidence e) r)"
proof -
  let ?vs = "map snd (unique_evidence es)"
  have sub: "subseq res (sort_by evidence_lt ?vs)"
    using fit_evidence_subseq [of "evidence_size c" "[]" "sort_by evidence_lt ?vs"]
    by (auto simp: res_def project_parent_evidence_def)
  have bounds: "length res \<le> 64" "res = [] \<or> evidence_size c res \<le> 128 * 1024"
    using fit_evidence_bounds [of "[]" "evidence_size c" "sort_by evidence_lt ?vs"]
    by (simp_all add: res_def project_parent_evidence_def MAX_PARENT_EVIDENCE_BYTES_def)
  have member: "r \<in> set ?vs" if "r \<in> set res" for r
    using list_emb_set [OF sub that] by auto
  have "mset (map observation_id (sort_by evidence_lt ?vs)) = mset (map observation_id ?vs)"
    by (simp only: mset_map sort_by_mset)
  then have "distinct (map observation_id (sort_by evidence_lt ?vs))"
    using unique_evidence_ids mset_eq_imp_distinct_iff by blast
  then have "distinct (map observation_id res)"
    using sub sorted_wrt_subseq unfolding distinct_map_wrt by blast
  moreover have "sorted_wrt (\<lambda>a b. \<not> evidence_lt b a) res"
    by (rule sorted_wrt_subseq [OF sub evidence.sort_by_ordered])
  moreover have "set res \<subseteq> bounded_evidence ` set es"
    using member unique_evidence_values(1) by blast
  moreover have "\<not> evidence_lt (bounded_evidence e) r"
    if "r \<in> set res" "e \<in> set es" "observation_id (bounded_evidence e) = observation_id r" for r e
    using unique_evidence_values(2) [OF member [OF that(1)]] that(2,3) by blast
  ultimately show ?thesis using bounds by blast
qed

theorem projected_evidence_best_witness:
  "let res = project_parent_evidence sample_rollup_codec [sample_evidence Low 7, sample_evidence High 2] in
   res = [sample_evidence High 2] \<and> length res \<le> 64 \<and> distinct (map observation_id res) \<and>
   \<not> evidence_lt (bounded_evidence (sample_evidence High 2)) (sample_evidence High 2)"
proof -
  have res: "project_parent_evidence sample_rollup_codec [sample_evidence Low 7, sample_evidence High 2] =
      [sample_evidence High 2]"
    unfolding project_parent_evidence_def unique_evidence_def
    by (simp add: sample_evidence_bounded)
      (simp add: sample_evidence_def evidence_lt_def less_impact_def sort_by_def sample_rollup_codec_def
        MAX_PARENT_EVIDENCE_ENTRIES_def MAX_PARENT_EVIDENCE_BYTES_def)
  show ?thesis
    using projected_evidence_best [of sample_rollup_codec "[sample_evidence Low 7, sample_evidence High 2]"]
    unfolding Let_def res by (simp add: sample_evidence_bounded)
qed

end
