(* ===== verification/Float64.thy ===== *)
theory Float64
  imports Prelude
begin

text \<open>
  The 64-bit floats the sources store, compare and bound. A float is its bit pattern: the sign is the
  highest bit, and the remaining 63 bits order the magnitudes of all values that are not NaN, so the
  comparisons of IEEE 754 are comparisons of integers. The sources never compute with a float beyond
  \<open>f64::min\<close>.
\<close>

unbundle bit_operations_syntax

type_synonym f64 = u64

definition f64_magnitude :: "f64 \<Rightarrow> u64" where
  "f64_magnitude x = x AND 0x7FFFFFFFFFFFFFFF"

definition is_nan :: "f64 \<Rightarrow> bool" where
  "is_nan x \<longleftrightarrow> f64_magnitude x > 0x7FF0000000000000"

definition is_finite :: "f64 \<Rightarrow> bool" where
  "is_finite x \<longleftrightarrow> f64_magnitude x < 0x7FF0000000000000"

definition f64_key :: "f64 \<Rightarrow> int" where
  "f64_key x = (if x < 0x8000000000000000 then uint (f64_magnitude x) else - uint (f64_magnitude x))"

definition f64_eq :: "f64 \<Rightarrow> f64 \<Rightarrow> bool" where
  "f64_eq x y \<longleftrightarrow> \<not> is_nan x \<and> \<not> is_nan y \<and> f64_key x = f64_key y"

definition f64_lt :: "f64 \<Rightarrow> f64 \<Rightarrow> bool" where
  "f64_lt x y \<longleftrightarrow> \<not> is_nan x \<and> \<not> is_nan y \<and> f64_key x < f64_key y"

definition f64_le :: "f64 \<Rightarrow> f64 \<Rightarrow> bool" where
  "f64_le x y \<longleftrightarrow> \<not> is_nan x \<and> \<not> is_nan y \<and> f64_key x \<le> f64_key y"

definition f64_min :: "f64 \<Rightarrow> f64 \<Rightarrow> f64" where
  "f64_min x y = (if is_nan x then y else if is_nan y then x else if f64_lt y x then y else x)"

text \<open>\<open>Option\<close>'s equality compares the payloads as floats.\<close>

definition opt_f64_eq :: "f64 option \<Rightarrow> f64 option \<Rightarrow> bool" where
  "opt_f64_eq a b = (case (a, b) of (None, None) \<Rightarrow> True | (Some x, Some y) \<Rightarrow> f64_eq x y | _ \<Rightarrow> False)"

text \<open>The literals of the sources: 0.0, 0.5, 1.0 and -1.0.\<close>

definition f_zero :: f64 where "f_zero = 0"
definition f_half :: f64 where "f_half = 0x3FE0000000000000"
definition f_one :: f64 where "f_one = 0x3FF0000000000000"
definition f_minus_one :: f64 where "f_minus_one = 0xBFF0000000000000"

lemmas f64_defs = f64_magnitude_def is_nan_def is_finite_def f64_key_def f64_eq_def f64_lt_def f64_le_def

lemma f_literals [simp]:
  "\<not> is_nan f_zero" "\<not> is_nan f_half" "\<not> is_nan f_one" "\<not> is_nan f_minus_one"
  "is_finite f_zero" "is_finite f_half" "is_finite f_one" "is_finite f_minus_one"
  "f64_key f_zero = 0" "f64_key f_half = 0x3FE0000000000000" "f64_key f_one = 0x3FF0000000000000"
  "f64_key f_minus_one = - 0x3FF0000000000000"
  by (simp_all add: f64_defs f_zero_def f_half_def f_one_def f_minus_one_def)

lemma f64_eq_refl [simp]: "f64_eq x x \<longleftrightarrow> \<not> is_nan x"
  by (simp add: f64_eq_def)

lemma f64_lt_irrefl [simp]: "\<not> f64_lt x x"
  by (simp add: f64_lt_def)

lemma f64_lt_trans: "f64_lt x y \<Longrightarrow> f64_lt y z \<Longrightarrow> f64_lt x z"
  by (auto simp: f64_lt_def)

lemma f64_le_iff: "f64_le x y \<longleftrightarrow> f64_lt x y \<or> f64_eq x y"
  by (auto simp: f64_lt_def f64_eq_def f64_le_def)

lemma f64_total: "\<not> is_nan x \<Longrightarrow> \<not> is_nan y \<Longrightarrow> f64_lt x y \<or> f64_eq x y \<or> f64_lt y x"
  by (auto simp: f64_lt_def f64_eq_def)

lemma finite_not_nan: "is_finite x \<Longrightarrow> \<not> is_nan x"
  by (auto simp: is_finite_def is_nan_def)

end
