(* ===== verification/Session_Metadata.thy ===== *)
theory Session_Metadata
  imports Utf8 Float64 Observed_Status
begin

text \<open>
  The persisted record of a session, \<^verbatim>\<open>crates/orkworksd/src/metadata.rs\<close> with
  \<^verbatim>\<open>metadata/provenance.rs\<close>: its fields, the source-priority ladder every writer is gated by,
  the normalization of what is read from disk, the completion of sessions orphaned by a previous
  run of the daemon, and the resume options offered for a session. Parsing and formatting of times
  belongs to chrono and is a parameter, as is the reading of the clock; JSON belongs to serde.
\<close>

section \<open>Data\<close>

datatype startup_failure_code =
    CodexHelpFailed | CodexHelpTimeout | CodexHelpOversized | PtyOpenFailed | ProcessSpawnFailed
  | TerminalIoFailed | InstructionSetupFailed | NativeStartupFailed | StartupInternalFailed

datatype startup_operation = Launch | Resume

record startup_failure =
  failure_code :: startup_failure_code
  failure_operation :: startup_operation
  occurred_at :: string

record worktree_binding =
  binding_root :: string
  common_dir :: string

datatype plan_source =
    PlanLegacy | UserSelected | AgentReported | HookReported | TerminalFallback | GitHistory | GitWorktree

record plan_reference =
  worktree_root :: "string option"
  relative_path :: string
  plan_source :: plan_source

datatype resume_state = Available | Unavailable

datatype resume_strategy = Exact | LatestCwd | LatestRepo | NoStrategy

record resume_memory =
  resume_state :: resume_state
  preferred_strategy :: resume_strategy
  harness_session_id :: "string option"
  latest_fallback :: bool
  last_seen_at :: "string option"

record resume_option =
  option_strategy :: resume_strategy
  option_label :: string
  option_available :: bool
  option_preferred :: bool
  option_reason :: "string option"

datatype label_source = Placeholder | InitialPrompt | TerminalInput | PeonLabel | CodexLabelled | UserLabel | LegacyLabel

record observed_status_snapshot =
  snapshot_origin :: "string option"
  snapshot_value :: "string option"
  snapshot_source :: string
  snapshot_confidence :: "f64 option"
  snapshot_observed_at :: "string option"

record metadata_provenance =
  attention_source :: "string option"
  attention_confidence :: "f64 option"
  attention_origin :: "string option"
  attention_updated_at :: "string option"
  work_metadata_updated_at :: "string option"
  summary_source :: "string option"
  summary_confidence :: "f64 option"
  summary_observed_at :: "string option"

record session_metadata =
  provenance :: metadata_provenance
  sid :: string
  label :: string
  label_source :: label_source
  label_from_initial_prompt :: bool
  label_context_refined :: bool
  workspace :: string
  task :: string
  harness :: string
  model :: string
  cwd :: string
  worktree_binding :: "worktree_binding option"
  status :: string
  work_phase :: string
  lifecycle_phase :: string
  lifecycle :: string
  attention :: "string option"
  plan_path :: "plan_reference option"
  connectivity :: string
  terminal_outcome :: "string option"
  startup_failure :: "startup_failure option"
  pending_terminal_status :: "string option"
  observed_status :: "string option"
  ending_observed_status_snapshot :: "observed_status_snapshot option"
  final_observed_status_snapshot :: "observed_status_snapshot option"
  summary :: "string option"
  next_action :: "string option"
  needs_user_input :: "bool option"
  detected_question :: "string option"
  suggested_options :: "string list option"
  blocker_description :: "string option"
  failed_command :: "string option"
  failed_test :: "string option"
  capacity_hints :: "string list option"
  peon_last_inference :: "string option"
  provider_id :: "string option"
  provider_label :: "string option"
  provider_model :: "string option"
  provider_state :: "string option"
  created_at :: string
  last_activity :: string
  last_output_at :: "string option"
  metadata_source :: string
  metadata_confidence :: f64
  repo_root :: "string option"
  branch :: "string option"
  dirty :: "bool option"
  changed_files :: "u64 option"
  is_worktree :: "bool option"
  resume :: "resume_memory option"
  resume_options :: "resume_option list"
  harness_session_id_source :: "string option"
  harness_session_id_confidence :: "f64 option"
  harness_session_id_captured_at :: "string option"
  resumed_from :: "string option"
  last_user_input :: "string option"

text \<open>
  What the code takes from chrono: RFC 3339 texts to nanoseconds since the epoch and back, the
  current time and its text.
\<close>

record clock =
  parse_rfc3339 :: "string \<Rightarrow> int option"
  to_rfc3339 :: "int \<Rightarrow> string"
  utc_now :: int
  iso_now :: string


section \<open>Provenance\<close>

text \<open>The age in whole seconds, rounded towards zero; a time in the future has no age.\<close>

definition age_secs :: "clock \<Rightarrow> string option \<Rightarrow> nat option" where
  "age_secs c v =
     Option.bind v (\<lambda>text. Option.bind (parse_rfc3339 c text) (\<lambda>t.
       let d = utc_now c - t;
           secs = (if 0 \<le> d then d div 1000000000 else - ((- d) div 1000000000))
       in if 0 \<le> secs then Some (nat secs) else None))"

definition attention_source_or :: "metadata_provenance \<Rightarrow> string \<Rightarrow> string" where
  "attention_source_or p legacy = (case attention_source p of None \<Rightarrow> legacy | Some s \<Rightarrow> s)"

definition hydrate_legacy ::
  "clock \<Rightarrow> string \<Rightarrow> f64 \<Rightarrow> int option \<Rightarrow> metadata_provenance \<Rightarrow> metadata_provenance" where
  "hydrate_legacy c legacy_source legacy_confidence modified p =
     (let stamp = map_option (to_rfc3339 c) modified;
          p1 = (if attention_source p = None \<and> attention_origin p = None
                then p\<lparr>attention_source := Some (if legacy_source = ''codex_hook'' then ''agent'' else legacy_source),
                       attention_confidence := Some legacy_confidence,
                       attention_origin := Some ''legacy_unknown''\<rparr>
                else p);
          p2 = (if attention_updated_at p1 = None \<and> attention_origin p1 = Some ''legacy_unknown''
                then p1\<lparr>attention_updated_at := stamp\<rparr> else p1)
      in if work_metadata_updated_at p2 = None then p2\<lparr>work_metadata_updated_at := stamp\<rparr> else p2)"

definition meta_attention_source :: "session_metadata \<Rightarrow> string" where
  "meta_attention_source m = attention_source_or (provenance m) (metadata_source m)"

definition meta_attention_confidence :: "session_metadata \<Rightarrow> f64" where
  "meta_attention_confidence m =
     (case attention_confidence (provenance m) of None \<Rightarrow> metadata_confidence m | Some c \<Rightarrow> c)"

definition meta_attention_origin :: "session_metadata \<Rightarrow> string" where
  "meta_attention_origin m =
     (case attention_origin (provenance m) of None \<Rightarrow> ''legacy_unknown'' | Some r \<Rightarrow> r)"

definition is_automatic :: "label_source \<Rightarrow> bool" where
  "is_automatic l \<longleftrightarrow> l \<in> {Placeholder, InitialPrompt, TerminalInput, PeonLabel, CodexLabelled}"

definition accepts_peon :: "label_source \<Rightarrow> bool" where
  "accepts_peon l \<longleftrightarrow> l \<in> {Placeholder, InitialPrompt, TerminalInput, PeonLabel, LegacyLabel}"

section \<open>The source-priority ladder\<close>

definition PEON_AGENT_OVERWRITE_SECS :: nat where
  "PEON_AGENT_OVERWRITE_SECS = 15"

definition source_rank :: "string \<Rightarrow> nat" where
  "source_rank source =
     (if source = ''user'' then 7
      else if source = ''agent'' \<or> source = ''codex_hook'' then 6
      else if source = ''peon'' then 5
      else if source = ''backend_inference'' then 4
      else if source = ''process'' then 3
      else if source = ''debug'' then 1
      else 2)"

definition can_overwrite :: "string \<Rightarrow> string \<Rightarrow> nat option \<Rightarrow> bool" where
  "can_overwrite incoming existing age =
     (if incoming = ''debug'' then existing \<notin> {''user'', ''agent'', ''codex_hook''}
      else if incoming = ''peon'' \<and> existing \<in> {''agent'', ''codex_hook''}
      then is_some_and (\<lambda>a. a > PEON_AGENT_OVERWRITE_SECS) age
      else \<not> source_rank incoming < source_rank existing)"

section \<open>Normalization\<close>

definition normalize_work_phase :: "string \<Rightarrow> string" where
  "normalize_work_phase raw =
     (if raw \<in> {''ideation'', ''implementation'', ''review'', ''debugging'', ''unknown''} then raw
      else ''unknown'')"

definition default_lifecycle_phase_for_status :: "string \<Rightarrow> string" where
  "default_lifecycle_phase_for_status st =
     (if st = ''creating'' then ''creating''
      else if st = ''running'' then ''active''
      else if st \<in> {''ended'', ''killed'', ''error''} then ''ended''
      else ''active'')"

definition snapshot_from_legacy_observed_status :: "session_metadata \<Rightarrow> observed_status_snapshot option" where
  "snapshot_from_legacy_observed_status m =
     map_option (\<lambda>st. \<lparr>snapshot_origin = Some (meta_attention_origin m), snapshot_value = Some st,
         snapshot_source = (if meta_attention_source m = [] then ''recovery'' else meta_attention_source m),
         snapshot_confidence = Some (meta_attention_confidence m),
         snapshot_observed_at = Some (last_activity m)\<rparr>) (observed_status m)"

definition canonical_null_snapshot :: "string \<Rightarrow> string option \<Rightarrow> observed_status_snapshot" where
  "canonical_null_snapshot source at =
     \<lparr>snapshot_origin = None, snapshot_value = None, snapshot_source = source,
      snapshot_confidence = None, snapshot_observed_at = at\<rparr>"

definition is_terminal_status :: "string \<Rightarrow> bool" where
  "is_terminal_status st \<longleftrightarrow> st \<in> {''ended'', ''killed'', ''error''}"

text \<open>
  The statements of \<open>normalize_session_metadata\<close> in their order, one definition each.
\<close>

definition norm_phase :: "session_metadata \<Rightarrow> session_metadata" where
  "norm_phase m =
     (let m1 = m\<lparr>work_phase := normalize_work_phase (work_phase m)\<rparr>
      in if lifecycle_phase m1 = [] then m1\<lparr>lifecycle_phase := default_lifecycle_phase_for_status (status m1)\<rparr>
         else m1)"

definition norm_lifecycle :: "session_metadata \<Rightarrow> session_metadata" where
  "norm_lifecycle m =
     (if lifecycle m = ''alive''
      then m\<lparr>lifecycle := (if lifecycle_phase m = ''creating'' then ''creating''
                           else if lifecycle_phase m = ''ending'' then ''stopping''
                           else if lifecycle_phase m = ''ended'' then ''dead''
                           else ''alive'')\<rparr>
      else m)"

definition norm_attention :: "session_metadata \<Rightarrow> session_metadata" where
  "norm_attention m =
     (if attention m = None \<and> lifecycle m = ''alive''
      then m\<lparr>attention :=
         (if observed_status m \<in> {Some ''stale'', Some ''done''} then Some ''idle''
          else if observed_status m = Some ''waiting_for_input'' then Some ''needs_you''
          else if observed_status m \<in> {Some ''working'', Some ''idle'', Some ''blocked'', Some ''failed'', Some ''capped''}
          then observed_status m
          else None)\<rparr>
      else m)"

definition norm_ending_status :: "session_metadata \<Rightarrow> session_metadata" where
  "norm_ending_status m =
     (if lifecycle_phase m = ''ending'' \<and> status m \<noteq> ''running'' then m\<lparr>status := ''running''\<rparr> else m)"

definition norm_outcome :: "session_metadata \<Rightarrow> session_metadata" where
  "norm_outcome m =
     (let m1 = (if is_terminal_status (status m) \<and> terminal_outcome m = None
                then m\<lparr>terminal_outcome := Some (status m)\<rparr> else m)
      in if is_terminal_status (status m) \<and> connectivity m1 = ''online''
         then m1\<lparr>connectivity := ''offline''\<rparr> else m1)"

definition norm_pending :: "session_metadata \<Rightarrow> session_metadata" where
  "norm_pending m =
     (if lifecycle_phase m \<noteq> ''ending''
      then m\<lparr>pending_terminal_status := None, ending_observed_status_snapshot := None\<rparr> else m)"

definition norm_invalid_ending :: "session_metadata \<Rightarrow> session_metadata" where
  "norm_invalid_ending m =
     (if lifecycle_phase m = ''ending'' \<and> pending_terminal_status m = None
      then m\<lparr>lifecycle_phase := ''ended'', status := ''error'', terminal_outcome := Some ''error'',
             connectivity := ''offline''\<rparr>
      else m)"

definition norm_final_snapshot :: "session_metadata \<Rightarrow> session_metadata" where
  "norm_final_snapshot m =
     (if lifecycle_phase m = ''ended'' \<and> final_observed_status_snapshot m = None
      then m\<lparr>final_observed_status_snapshot :=
         Some (case opt_or (ending_observed_status_snapshot m) (snapshot_from_legacy_observed_status m) of
                 None \<Rightarrow> canonical_null_snapshot ''recovery'' None | Some x \<Rightarrow> x)\<rparr>
      else m)"

definition norm_observed :: "session_metadata \<Rightarrow> session_metadata" where
  "norm_observed m =
     (if lifecycle_phase m \<in> {''creating'', ''ending'', ''ended''} then m\<lparr>observed_status := None\<rparr> else m)"

definition norm_attention_off :: "session_metadata \<Rightarrow> session_metadata" where
  "norm_attention_off m = (if lifecycle m \<noteq> ''alive'' then m\<lparr>attention := None\<rparr> else m)"

definition norm_terminal :: "session_metadata \<Rightarrow> session_metadata" where
  "norm_terminal m =
     (if is_terminal_status (status m)
      then (let m1 = m\<lparr>lifecycle_phase := ''ended''\<rparr>;
                m2 = (if final_observed_status_snapshot m1 = None
                      then m1\<lparr>final_observed_status_snapshot :=
                         Some (case snapshot_from_legacy_observed_status m1 of
                                 None \<Rightarrow> canonical_null_snapshot ''recovery'' None | Some x \<Rightarrow> x)\<rparr>
                      else m1)
            in m2\<lparr>pending_terminal_status := None, ending_observed_status_snapshot := None,
                  observed_status := None\<rparr>)
      else m)"

definition normalize_session_metadata :: "session_metadata \<Rightarrow> session_metadata" where
  "normalize_session_metadata m =
     norm_terminal (norm_attention_off (norm_observed (norm_final_snapshot (norm_invalid_ending
       (norm_pending (norm_outcome (norm_ending_status (norm_attention (norm_lifecycle (norm_phase m))))))))))"

section \<open>Orphaned sessions\<close>

definition reconcile_orphaned_session :: "string \<Rightarrow> session_metadata \<Rightarrow> session_metadata" where
  "reconcile_orphaned_session now m0 =
     (let ending = lifecycle_phase m0 = ''ending'';
          final_status = (if ending then (case pending_terminal_status m0 of None \<Rightarrow> ''error'' | Some st \<Rightarrow> st)
                          else ''ended'');
          m = (if ending then m0\<lparr>pending_terminal_status := None\<rparr> else m0);
          m1 = (if final_observed_status_snapshot m = None
                then m\<lparr>final_observed_status_snapshot :=
                   Some (case opt_or (ending_observed_status_snapshot m) (snapshot_from_legacy_observed_status m) of
                           None \<Rightarrow> canonical_null_snapshot ''recovery'' (Some now) | Some x \<Rightarrow> x)\<rparr>
                else m)
      in m1\<lparr>lifecycle_phase := ''ended'', lifecycle := ''dead'', attention := None,
            terminal_outcome := Some final_status, status := final_status, connectivity := ''offline'',
            pending_terminal_status := None, ending_observed_status_snapshot := None,
            observed_status := None, last_activity := now\<rparr>)"

section \<open>Resume options\<close>

definition new_resume_option :: "resume_strategy \<Rightarrow> string \<Rightarrow> string option \<Rightarrow> resume_option" where
  "new_resume_option strategy text reason =
     \<lparr>option_strategy = strategy, option_label = text, option_available = (reason = None),
      option_preferred = False, option_reason = reason\<rparr>"

definition derive_resume_options ::
  "resume_strategy \<Rightarrow> resume_memory option \<Rightarrow> bool \<Rightarrow> bool \<Rightarrow> bool \<Rightarrow> resume_option list" where
  "derive_resume_options preferred memory supports_exact supports_latest_cwd supports_latest_repo =
     (let resume_available = is_some_and (\<lambda>r. resume_state r = Available) memory;
          fallback = is_some_and latest_fallback memory;
          none_exists = Some ''No compatible remembered session exists'';
          exact_reason =
            (if \<not> supports_exact then Some ''Harness does not support exact resume''
             else if \<not> resume_available then none_exists
             else if Option.bind memory harness_session_id = None then Some ''No harness session id was captured''
             else None);
          latest_reason =
            (if \<not> supports_latest_cwd then Some ''Harness does not support folder-scoped resume''
             else if \<not> resume_available \<or> \<not> fallback then none_exists else None);
          latest_repo_reason =
            (if \<not> supports_latest_repo then Some ''Harness does not support repo-scoped resume''
             else if \<not> resume_available \<or> \<not> fallback then none_exists else None)
      in map (\<lambda>x. x\<lparr>option_preferred := (option_strategy x = preferred)\<rparr>)
           [new_resume_option Exact ''Resume exact session'' exact_reason,
            new_resume_option LatestCwd ''Resume latest in folder'' latest_reason,
            new_resume_option LatestRepo ''Resume latest in repo'' latest_repo_reason])"

section \<open>Harness session reports\<close>

record harness_session_report =
  report_session_id :: string
  report_source :: string
  report_confidence :: f64

definition valid_harness_session_id :: "string \<Rightarrow> bool" where
  "valid_harness_session_id i \<longleftrightarrow> i \<noteq> [] \<and> length i \<ge> 3 \<and> length i \<le> 512 \<and> \<not> has_white i"

definition valid_harness_session_report :: "harness_session_report \<Rightarrow> bool" where
  "valid_harness_session_report r \<longleftrightarrow>
     valid_harness_session_id (report_session_id r) \<and> \<not> all_white (report_source r) \<and>
     f64_le f_zero (report_confidence r) \<and> f64_le (report_confidence r) f_one"

definition valid_harness_session_report_context ::
  "harness_session_report \<Rightarrow> string option \<Rightarrow> string option \<Rightarrow> bool" where
  "valid_harness_session_report_context r start_source start_event =
     (if \<not> valid_harness_session_report r \<or> (start_source \<noteq> None) \<noteq> (start_event \<noteq> None) then False
      else if start_source = None then True
      else if report_source r = ''codex_hook''
      then start_event = Some ''SessionStart'' \<and>
           start_source \<in> {Some ''startup'', Some ''resume'', Some ''clear'', Some ''compact''}
      else if report_source r = ''claude_hook''
      then start_event = Some ''SessionStart'' \<and> start_source = Some ''clear''
      else if report_source r = ''copilot_hook''
      then start_event = Some ''sessionStart'' \<and> start_source = Some ''new''
      else False)"

definition valid_hook_fingerprint :: "string \<Rightarrow> bool" where
  "valid_hook_fingerprint f \<longleftrightarrow> length f = 64 \<and>
     list_all (\<lambda>b. (48 \<le> byte_val b \<and> byte_val b \<le> 57) \<or> (65 \<le> byte_val b \<and> byte_val b \<le> 70) \<or>
                   (97 \<le> byte_val b \<and> byte_val b \<le> 102)) f"

section \<open>How the stages read back\<close>

lemma norm_phase_sel [simp]:
  "lifecycle (norm_phase m) = lifecycle m" "attention (norm_phase m) = attention m"
  "status (norm_phase m) = status m" "terminal_outcome (norm_phase m) = terminal_outcome m"
  "connectivity (norm_phase m) = connectivity m"
  "pending_terminal_status (norm_phase m) = pending_terminal_status m"
  "ending_observed_status_snapshot (norm_phase m) = ending_observed_status_snapshot m"
  "final_observed_status_snapshot (norm_phase m) = final_observed_status_snapshot m"
  "observed_status (norm_phase m) = observed_status m"
  by (simp_all add: norm_phase_def Let_def)

lemma norm_lifecycle_sel [simp]:
  "work_phase (norm_lifecycle m) = work_phase m" "lifecycle_phase (norm_lifecycle m) = lifecycle_phase m"
  "attention (norm_lifecycle m) = attention m" "status (norm_lifecycle m) = status m"
  "terminal_outcome (norm_lifecycle m) = terminal_outcome m"
  "connectivity (norm_lifecycle m) = connectivity m"
  "pending_terminal_status (norm_lifecycle m) = pending_terminal_status m"
  "ending_observed_status_snapshot (norm_lifecycle m) = ending_observed_status_snapshot m"
  "final_observed_status_snapshot (norm_lifecycle m) = final_observed_status_snapshot m"
  "observed_status (norm_lifecycle m) = observed_status m"
  by (simp_all add: norm_lifecycle_def Let_def)

lemma norm_attention_sel [simp]:
  "work_phase (norm_attention m) = work_phase m" "lifecycle_phase (norm_attention m) = lifecycle_phase m"
  "lifecycle (norm_attention m) = lifecycle m" "status (norm_attention m) = status m"
  "terminal_outcome (norm_attention m) = terminal_outcome m"
  "connectivity (norm_attention m) = connectivity m"
  "pending_terminal_status (norm_attention m) = pending_terminal_status m"
  "ending_observed_status_snapshot (norm_attention m) = ending_observed_status_snapshot m"
  "final_observed_status_snapshot (norm_attention m) = final_observed_status_snapshot m"
  "observed_status (norm_attention m) = observed_status m"
  by (simp_all add: norm_attention_def Let_def)

lemma norm_ending_status_sel [simp]:
  "work_phase (norm_ending_status m) = work_phase m"
  "lifecycle_phase (norm_ending_status m) = lifecycle_phase m"
  "lifecycle (norm_ending_status m) = lifecycle m" "attention (norm_ending_status m) = attention m"
  "terminal_outcome (norm_ending_status m) = terminal_outcome m"
  "connectivity (norm_ending_status m) = connectivity m"
  "pending_terminal_status (norm_ending_status m) = pending_terminal_status m"
  "ending_observed_status_snapshot (norm_ending_status m) = ending_observed_status_snapshot m"
  "final_observed_status_snapshot (norm_ending_status m) = final_observed_status_snapshot m"
  "observed_status (norm_ending_status m) = observed_status m"
  by (simp_all add: norm_ending_status_def Let_def)

lemma norm_outcome_sel [simp]:
  "work_phase (norm_outcome m) = work_phase m" "lifecycle_phase (norm_outcome m) = lifecycle_phase m"
  "lifecycle (norm_outcome m) = lifecycle m" "attention (norm_outcome m) = attention m"
  "status (norm_outcome m) = status m"
  "pending_terminal_status (norm_outcome m) = pending_terminal_status m"
  "ending_observed_status_snapshot (norm_outcome m) = ending_observed_status_snapshot m"
  "final_observed_status_snapshot (norm_outcome m) = final_observed_status_snapshot m"
  "observed_status (norm_outcome m) = observed_status m"
  by (simp_all add: norm_outcome_def Let_def)

lemma norm_pending_sel [simp]:
  "work_phase (norm_pending m) = work_phase m" "lifecycle_phase (norm_pending m) = lifecycle_phase m"
  "lifecycle (norm_pending m) = lifecycle m" "attention (norm_pending m) = attention m"
  "status (norm_pending m) = status m" "terminal_outcome (norm_pending m) = terminal_outcome m"
  "connectivity (norm_pending m) = connectivity m"
  "final_observed_status_snapshot (norm_pending m) = final_observed_status_snapshot m"
  "observed_status (norm_pending m) = observed_status m"
  by (simp_all add: norm_pending_def Let_def)

lemma norm_invalid_ending_sel [simp]:
  "work_phase (norm_invalid_ending m) = work_phase m" "lifecycle (norm_invalid_ending m) = lifecycle m"
  "attention (norm_invalid_ending m) = attention m"
  "pending_terminal_status (norm_invalid_ending m) = pending_terminal_status m"
  "ending_observed_status_snapshot (norm_invalid_ending m) = ending_observed_status_snapshot m"
  "final_observed_status_snapshot (norm_invalid_ending m) = final_observed_status_snapshot m"
  "observed_status (norm_invalid_ending m) = observed_status m"
  by (simp_all add: norm_invalid_ending_def Let_def)

lemma norm_final_snapshot_sel [simp]:
  "work_phase (norm_final_snapshot m) = work_phase m"
  "lifecycle_phase (norm_final_snapshot m) = lifecycle_phase m"
  "lifecycle (norm_final_snapshot m) = lifecycle m" "attention (norm_final_snapshot m) = attention m"
  "status (norm_final_snapshot m) = status m"
  "terminal_outcome (norm_final_snapshot m) = terminal_outcome m"
  "connectivity (norm_final_snapshot m) = connectivity m"
  "pending_terminal_status (norm_final_snapshot m) = pending_terminal_status m"
  "ending_observed_status_snapshot (norm_final_snapshot m) = ending_observed_status_snapshot m"
  "observed_status (norm_final_snapshot m) = observed_status m"
  by (simp_all add: norm_final_snapshot_def Let_def)

lemma norm_observed_sel [simp]:
  "work_phase (norm_observed m) = work_phase m" "lifecycle_phase (norm_observed m) = lifecycle_phase m"
  "lifecycle (norm_observed m) = lifecycle m" "attention (norm_observed m) = attention m"
  "status (norm_observed m) = status m" "terminal_outcome (norm_observed m) = terminal_outcome m"
  "connectivity (norm_observed m) = connectivity m"
  "pending_terminal_status (norm_observed m) = pending_terminal_status m"
  "ending_observed_status_snapshot (norm_observed m) = ending_observed_status_snapshot m"
  "final_observed_status_snapshot (norm_observed m) = final_observed_status_snapshot m"
  by (simp_all add: norm_observed_def Let_def)

lemma norm_attention_off_sel [simp]:
  "work_phase (norm_attention_off m) = work_phase m"
  "lifecycle_phase (norm_attention_off m) = lifecycle_phase m"
  "lifecycle (norm_attention_off m) = lifecycle m" "status (norm_attention_off m) = status m"
  "terminal_outcome (norm_attention_off m) = terminal_outcome m"
  "connectivity (norm_attention_off m) = connectivity m"
  "pending_terminal_status (norm_attention_off m) = pending_terminal_status m"
  "ending_observed_status_snapshot (norm_attention_off m) = ending_observed_status_snapshot m"
  "final_observed_status_snapshot (norm_attention_off m) = final_observed_status_snapshot m"
  "observed_status (norm_attention_off m) = observed_status m"
  by (simp_all add: norm_attention_off_def Let_def)

lemma norm_terminal_sel [simp]:
  "work_phase (norm_terminal m) = work_phase m" "lifecycle (norm_terminal m) = lifecycle m"
  "attention (norm_terminal m) = attention m" "status (norm_terminal m) = status m"
  "terminal_outcome (norm_terminal m) = terminal_outcome m"
  "connectivity (norm_terminal m) = connectivity m"
  by (simp_all add: norm_terminal_def Let_def)


text \<open>What a record is after it has been read from disk.\<close>

definition known_work_phase :: "string \<Rightarrow> bool" where
  "known_work_phase p \<longleftrightarrow> p \<in> {''ideation'', ''implementation'', ''review'', ''debugging'', ''unknown''}"

definition ending_wf :: "session_metadata \<Rightarrow> bool" where
  "ending_wf m \<longleftrightarrow>
     (lifecycle_phase m = ''ending'' \<longrightarrow> status m = ''running'' \<and> pending_terminal_status m \<noteq> None) \<and>
     (pending_terminal_status m \<noteq> None \<or> ending_observed_status_snapshot m \<noteq> None \<longrightarrow> lifecycle_phase m = ''ending'')"

definition ended_wf :: "session_metadata \<Rightarrow> bool" where
  "ended_wf m \<longleftrightarrow>
     (lifecycle_phase m = ''ended'' \<longrightarrow> final_observed_status_snapshot m \<noteq> None) \<and>
     (is_terminal_status (status m) \<longrightarrow>
        lifecycle_phase m = ''ended'' \<and> terminal_outcome m \<noteq> None \<and> connectivity m \<noteq> ''online'')"

definition observed_wf :: "session_metadata \<Rightarrow> bool" where
  "observed_wf m \<longleftrightarrow>
     (lifecycle_phase m \<in> {''creating'', ''ending'', ''ended''} \<longrightarrow> observed_status m = None) \<and>
     (lifecycle m \<noteq> ''alive'' \<longrightarrow> attention m = None)"

definition meta_wf :: "session_metadata \<Rightarrow> bool" where
  "meta_wf m \<longleftrightarrow> known_work_phase (work_phase m) \<and> lifecycle_phase m \<noteq> [] \<and> ending_wf m \<and> ended_wf m \<and> observed_wf m"

lemmas meta_wf_defs = meta_wf_def ending_wf_def ended_wf_def observed_wf_def

lemma default_phase_cases [simp]:
  "default_lifecycle_phase_for_status st \<noteq> []" "default_lifecycle_phase_for_status st \<noteq> ''ending''"
  by (simp_all add: default_lifecycle_phase_for_status_def)

lemma norm_phase_fields:
  "known_work_phase (work_phase (norm_phase m))" "lifecycle_phase (norm_phase m) \<noteq> []"
  by (simp_all add: norm_phase_def normalize_work_phase_def known_work_phase_def Let_def)

text \<open>
  The first half of the normalization, up to the outcome, and the second half, which repairs the
  phase and drops what the phase does not allow.
\<close>

lemma norm_ending_running:
  "lifecycle_phase m = ''ending'' \<Longrightarrow> status (norm_ending_status m) = ''running''"
  by (simp add: norm_ending_status_def)

lemma norm_outcome_terminal:
  "is_terminal_status (status m) \<Longrightarrow> terminal_outcome (norm_outcome m) \<noteq> None \<and> connectivity (norm_outcome m) \<noteq> ''online''"
  by (simp add: norm_outcome_def Let_def)

lemma norm_pending_only_ending:
  "pending_terminal_status (norm_pending m) \<noteq> None \<or> ending_observed_status_snapshot (norm_pending m) \<noteq> None \<Longrightarrow>
   lifecycle_phase m = ''ending''"
  by (simp add: norm_pending_def split: if_splits)

lemma terminal_not_running [simp]: "\<not> is_terminal_status ''running''" "is_terminal_status ''error''"
  by (simp_all add: is_terminal_status_def)

lemma norm_invalid_ending_fields:
  "lifecycle_phase (norm_invalid_ending m) =
     (if lifecycle_phase m = ''ending'' \<and> pending_terminal_status m = None then ''ended'' else lifecycle_phase m)"
  "status (norm_invalid_ending m) =
     (if lifecycle_phase m = ''ending'' \<and> pending_terminal_status m = None then ''error'' else status m)"
  "terminal_outcome (norm_invalid_ending m) =
     (if lifecycle_phase m = ''ending'' \<and> pending_terminal_status m = None then Some ''error'' else terminal_outcome m)"
  "connectivity (norm_invalid_ending m) =
     (if lifecycle_phase m = ''ending'' \<and> pending_terminal_status m = None then ''offline'' else connectivity m)"
  by (simp_all add: norm_invalid_ending_def)

lemma norm_terminal_fields:
  "lifecycle_phase (norm_terminal m) = (if is_terminal_status (status m) then ''ended'' else lifecycle_phase m)"
  "pending_terminal_status (norm_terminal m) = (if is_terminal_status (status m) then None else pending_terminal_status m)"
  "ending_observed_status_snapshot (norm_terminal m) =
     (if is_terminal_status (status m) then None else ending_observed_status_snapshot m)"
  "observed_status (norm_terminal m) = (if is_terminal_status (status m) then None else observed_status m)"
  "is_terminal_status (status m) \<Longrightarrow> final_observed_status_snapshot (norm_terminal m) \<noteq> None"
  "\<not> is_terminal_status (status m) \<Longrightarrow> final_observed_status_snapshot (norm_terminal m) = final_observed_status_snapshot m"
  by (simp_all add: norm_terminal_def Let_def)

lemma norm_small_fields:
  "observed_status (norm_observed m) =
     (if lifecycle_phase m \<in> {''creating'', ''ending'', ''ended''} then None else observed_status m)"
  "attention (norm_attention_off m) = (if lifecycle m \<noteq> ''alive'' then None else attention m)"
  "lifecycle_phase m = ''ended'' \<Longrightarrow> final_observed_status_snapshot (norm_final_snapshot m) \<noteq> None"
  by (simp_all add: norm_observed_def norm_attention_off_def norm_final_snapshot_def)

lemma second_half_wf:
  assumes "known_work_phase (work_phase h)" "lifecycle_phase h \<noteq> []"
    "lifecycle_phase h = ''ending'' \<Longrightarrow> status h = ''running''"
    "pending_terminal_status h \<noteq> None \<or> ending_observed_status_snapshot h \<noteq> None \<longrightarrow> lifecycle_phase h = ''ending''"
    "is_terminal_status (status h) \<Longrightarrow> terminal_outcome h \<noteq> None \<and> connectivity h \<noteq> ''online''"
  shows "meta_wf (norm_terminal (norm_attention_off (norm_observed (norm_final_snapshot (norm_invalid_ending h)))))"
proof -
  let ?a = "norm_invalid_ending h"
  let ?m = "norm_terminal (norm_attention_off (norm_observed (norm_final_snapshot ?a)))"
  have "known_work_phase (work_phase ?m)" "lifecycle_phase ?m \<noteq> []"
    using assms(1,2) by (simp_all add: norm_terminal_fields norm_invalid_ending_fields)
  moreover have "ending_wf ?m"
    using assms(3,4) by (auto simp: ending_wf_def norm_terminal_fields norm_invalid_ending_fields)
  moreover have "ended_wf ?m"
    using assms(5) norm_small_fields(3) [of ?a]
    by (cases "is_terminal_status (status ?a)")
       (auto simp: ended_wf_def norm_terminal_fields norm_invalid_ending_fields)
  moreover have "observed_wf ?m"
    by (auto simp: observed_wf_def norm_terminal_fields norm_small_fields)
  ultimately show ?thesis by (simp add: meta_wf_def)
qed

lemma normalize_wf: "meta_wf (normalize_session_metadata m)"
proof -
  let ?b = "norm_attention (norm_lifecycle (norm_phase m))"
  let ?h = "norm_pending (norm_outcome (norm_ending_status ?b))"
  have "known_work_phase (work_phase ?h)" "lifecycle_phase ?h \<noteq> []"
    using norm_phase_fields by simp_all
  moreover have "status ?h = ''running''" if "lifecycle_phase ?h = ''ending''"
    using that norm_ending_running [of ?b] by simp
  moreover have "pending_terminal_status ?h \<noteq> None \<or> ending_observed_status_snapshot ?h \<noteq> None \<longrightarrow>
      lifecycle_phase ?h = ''ending''"
    using norm_pending_only_ending [of "norm_outcome (norm_ending_status ?b)"] by simp
  moreover have "terminal_outcome ?h \<noteq> None \<and> connectivity ?h \<noteq> ''online''"
    if "is_terminal_status (status ?h)"
    using that norm_outcome_terminal [of "norm_ending_status ?b"] by simp
  ultimately show ?thesis unfolding normalize_session_metadata_def by (rule second_half_wf)
qed


text \<open>A record that normalization leaves as it is.\<close>

definition derived_attention :: "session_metadata \<Rightarrow> string option" where
  "derived_attention m = attention (norm_attention m)"

definition settled :: "session_metadata \<Rightarrow> bool" where
  "settled m \<longleftrightarrow> meta_wf m \<and> lifecycle (norm_lifecycle m) = lifecycle m \<and> derived_attention m = attention m"

lemma same_fields:
  "work_phase m = p \<Longrightarrow> m\<lparr>work_phase := p\<rparr> = m"
  "lifecycle m = l \<Longrightarrow> m\<lparr>lifecycle := l\<rparr> = m"
  "attention m = x \<Longrightarrow> m\<lparr>attention := x\<rparr> = m"
  "observed_status m = x \<Longrightarrow> m\<lparr>observed_status := x\<rparr> = m"
  "lifecycle_phase m = p \<Longrightarrow> m\<lparr>lifecycle_phase := p\<rparr> = m"
  "pending_terminal_status m = x \<Longrightarrow> m\<lparr>pending_terminal_status := x\<rparr> = m"
  "ending_observed_status_snapshot m = y \<Longrightarrow> m\<lparr>ending_observed_status_snapshot := y\<rparr> = m"
  by auto

lemma norm_phase_id: "known_work_phase (work_phase m) \<Longrightarrow> lifecycle_phase m \<noteq> [] \<Longrightarrow> norm_phase m = m"
  by (simp add: norm_phase_def normalize_work_phase_def known_work_phase_def same_fields)

lemma ending_stage_ids:
  assumes "ending_wf m"
  shows "norm_ending_status m = m" "norm_pending m = m" "norm_invalid_ending m = m"
proof -
  show "norm_ending_status m = m" "norm_invalid_ending m = m"
    using assms by (auto simp only: ending_wf_def norm_ending_status_def norm_invalid_ending_def split: if_split)
  have "m\<lparr>pending_terminal_status := None, ending_observed_status_snapshot := None\<rparr> = m"
    if "lifecycle_phase m \<noteq> ''ending''"
    using assms that by (simp add: ending_wf_def same_fields)
  then show "norm_pending m = m" by (simp only: norm_pending_def split: if_split) blast
qed

lemma ended_stage_ids:
  assumes "ended_wf m"
  shows "norm_outcome m = m" "norm_final_snapshot m = m"
  using assms unfolding ended_wf_def norm_outcome_def norm_final_snapshot_def Let_def by presburger+

lemma observed_stage_ids:
  assumes "observed_wf m"
  shows "norm_observed m = m" "norm_attention_off m = m"
  using assms unfolding observed_wf_def norm_observed_def norm_attention_off_def
  by (auto simp: same_fields split: if_split)

lemmas stage_ids = norm_phase_id ending_stage_ids ended_stage_ids observed_stage_ids

lemma norm_terminal_id:
  assumes "meta_wf m"
  shows "norm_terminal m = m"
proof (cases "is_terminal_status (status m)")
  case True
  then have "lifecycle_phase m = ''ended''" "pending_terminal_status m = None"
    "ending_observed_status_snapshot m = None" "observed_status m = None" "final_observed_status_snapshot m \<noteq> None"
    using assms by (auto simp: meta_wf_defs)
  with True show ?thesis by (simp add: norm_terminal_def same_fields)
qed (simp add: norm_terminal_def)

lemma wf_lifecycle_attention:
  "ending_wf (norm_attention (norm_lifecycle m)) = ending_wf m"
  "ended_wf (norm_attention (norm_lifecycle m)) = ended_wf m"
  by (simp_all add: ending_wf_def ended_wf_def)

lemma normalize_of_wf:
  assumes "meta_wf m"
  shows "normalize_session_metadata m = norm_terminal (norm_attention_off (norm_observed (norm_attention (norm_lifecycle m))))"
proof -
  have wf: "known_work_phase (work_phase m)" "lifecycle_phase m \<noteq> []" "ending_wf m" "ended_wf m"
    using assms by (simp_all add: meta_wf_def)
  show ?thesis
    unfolding normalize_session_metadata_def
    using wf by (simp add: stage_ids wf_lifecycle_attention)
qed

lemma settled_fixed:
  assumes "settled m"
  shows "normalize_session_metadata m = m"
proof -
  have "norm_lifecycle m = m"
    using assms unfolding settled_def norm_lifecycle_def by (cases "lifecycle m = ''alive''") auto
  moreover have "norm_attention m = m"
    using assms unfolding settled_def derived_attention_def norm_attention_def
    by (cases "attention m = None \<and> lifecycle m = ''alive''") auto
  ultimately show ?thesis
    using assms by (simp add: settled_def normalize_of_wf stage_ids norm_terminal_id meta_wf_def)
qed

text \<open>
  A stored record whose status has already ended while its phase still names a live state: its
  lifecycle is derived from the phase before the status repairs the phase.
\<close>

definition stale_lifecycle :: "session_metadata \<Rightarrow> bool" where
  "stale_lifecycle m \<longleftrightarrow> lifecycle m = ''alive'' \<and> is_terminal_status (status m) \<and>
     lifecycle_phase m \<notin> {[], ''creating'', ''ending'', ''ended''}"

lemma normalize_lifecycle: "lifecycle (normalize_session_metadata m) = lifecycle (norm_lifecycle (norm_phase m))"
  by (simp add: normalize_session_metadata_def)

lemma phase_after:
  "lifecycle_phase (normalize_session_metadata m) =
     (let b = norm_pending (norm_outcome (norm_ending_status (norm_attention (norm_lifecycle (norm_phase m)))));
          a = norm_invalid_ending b
      in if is_terminal_status (status a) then ''ended'' else lifecycle_phase a)"
  by (simp add: normalize_session_metadata_def norm_terminal_fields Let_def)

text \<open>A live lifecycle survives one pass with a phase that contradicts it only in that case.\<close>

lemma alive_phase_after:
  assumes "lifecycle (normalize_session_metadata m) = ''alive''"
  shows "lifecycle_phase (normalize_session_metadata m) \<in> {''creating'', ''ending'', ''ended''} \<longleftrightarrow> stale_lifecycle m"
proof -
  have alive: "lifecycle m = ''alive''" "lifecycle_phase (norm_phase m) \<notin> {''creating'', ''ending'', ''ended''}"
    using assms by (auto simp: normalize_lifecycle norm_lifecycle_def split: if_splits)
  let ?p = "norm_attention (norm_lifecycle (norm_phase m))"
  have st: "status (norm_ending_status ?p) = status m"
    using alive by (simp add: norm_ending_status_def)
  have same: "status (norm_invalid_ending (norm_pending (norm_outcome (norm_ending_status ?p)))) = status m"
    "lifecycle_phase (norm_invalid_ending (norm_pending (norm_outcome (norm_ending_status ?p)))) = lifecycle_phase (norm_phase m)"
    using alive st by (simp_all add: norm_invalid_ending_fields)
  have phase: "lifecycle_phase (norm_phase m) =
      (if lifecycle_phase m = [] then default_lifecycle_phase_for_status (status m) else lifecycle_phase m)"
    by (simp add: norm_phase_def Let_def)
  have "is_terminal_status (status m) \<Longrightarrow> lifecycle_phase m \<noteq> []"
    using alive(2) phase by (auto simp: default_lifecycle_phase_for_status_def is_terminal_status_def split: if_splits)
  then show ?thesis
    using alive phase unfolding phase_after Let_def same stale_lifecycle_def by auto
qed

lemma attention_after:
  assumes "lifecycle (normalize_session_metadata m) = ''alive''"
    and "attention (normalize_session_metadata m) = None"
  shows "derived_attention (normalize_session_metadata m) = None"
proof -
  let ?l = "norm_lifecycle (norm_phase m)"
  have alive: "lifecycle ?l = ''alive''" using assms(1) by (simp add: normalize_lifecycle)
  have "attention (norm_attention ?l) = None"
    using assms(2) alive by (simp add: normalize_session_metadata_def norm_small_fields)
  then have "attention ?l = None" "observed_status ?l \<notin> {Some ''stale'', Some ''done'', Some ''waiting_for_input'',
      Some ''working'', Some ''idle'', Some ''blocked'', Some ''failed'', Some ''capped''}"
    using alive by (auto simp: norm_attention_def split: if_splits)
  moreover have "observed_status (normalize_session_metadata m) \<in> {None, observed_status ?l}"
    by (simp add: normalize_session_metadata_def norm_terminal_fields norm_small_fields)
  ultimately show ?thesis using assms(2) by (auto simp: derived_attention_def norm_attention_def)
qed

lemma settled_normalize: "settled (normalize_session_metadata m) \<longleftrightarrow> \<not> stale_lifecycle m"
proof -
  let ?n = "normalize_session_metadata m"
  have "derived_attention ?n = attention ?n"
    using attention_after [of m] by (cases "attention ?n = None \<and> lifecycle ?n = ''alive''")
      (auto simp: derived_attention_def norm_attention_def)
  moreover have "lifecycle (norm_lifecycle ?n) = lifecycle ?n \<longleftrightarrow> \<not> stale_lifecycle m"
  proof (cases "lifecycle ?n = ''alive''")
    case True
    then show ?thesis using alive_phase_after [OF True] by (auto simp: norm_lifecycle_def)
  next
    case False
    then have "\<not> stale_lifecycle m"
      by (auto simp: normalize_lifecycle norm_lifecycle_def stale_lifecycle_def norm_phase_def Let_def split: if_splits)
    then show ?thesis using False by (simp add: norm_lifecycle_def)
  qed
  ultimately show ?thesis by (simp add: settled_def normalize_wf)
qed

lemma wf_not_stale_phase:
  assumes "meta_wf m"
  shows "\<not> stale_lifecycle m"
  using assms by (auto simp: meta_wf_def ended_wf_def stale_lifecycle_def)

section \<open>Properties\<close>

text \<open>
  Whatever was stored, a record read from disk is well formed: its work phase is one of
  the five known ones and its lifecycle phase is not empty; an ending session is running and knows
  the status it will end with, and only an ending session carries a pending status or an ending
  snapshot; an ended session has its final snapshot; a terminal status means an ended phase, a
  terminal outcome and no online connectivity; a session being created, ending or ended has no
  observed status, and one that is not alive has no attention.
\<close>

theorem normalize_wellformed: "meta_wf (normalize_session_metadata m)"
  by (rule normalize_wf)

text \<open>
  Reading a record twice changes nothing more than reading it once, except for exactly
  the records that are stored as alive with a terminal status under a phase that is neither empty
  nor creating, ending or ended: their lifecycle becomes dead only at the second reading. After two
  readings every record is stable.
\<close>

theorem normalize_stabilises:
  "(normalize_session_metadata (normalize_session_metadata m) = normalize_session_metadata m \<longleftrightarrow> \<not> stale_lifecycle m) \<and>
   normalize_session_metadata (normalize_session_metadata (normalize_session_metadata m)) =
     normalize_session_metadata (normalize_session_metadata m)"
proof
  let ?n = "normalize_session_metadata m"
  show "normalize_session_metadata ?n = ?n \<longleftrightarrow> \<not> stale_lifecycle m"
  proof
    assume fixed: "normalize_session_metadata ?n = ?n"
    have "norm_phase ?n = ?n" using normalize_wf [of m] by (simp add: meta_wf_def norm_phase_id)
    then have "lifecycle (norm_lifecycle ?n) = lifecycle ?n"
      using normalize_lifecycle [of ?n] fixed by simp
    then show "\<not> stale_lifecycle m"
      using alive_phase_after [of m] by (auto simp: norm_lifecycle_def normalize_lifecycle norm_phase_def
        stale_lifecycle_def Let_def split: if_splits)
  next
    assume "\<not> stale_lifecycle m"
    then show "normalize_session_metadata ?n = ?n" using settled_fixed settled_normalize by blast
  qed
  show "normalize_session_metadata (normalize_session_metadata ?n) = normalize_session_metadata ?n"
    using settled_fixed settled_normalize wf_not_stale_phase [OF normalize_wf] by blast
qed

lemma can_overwrite_user [simp]: "can_overwrite incoming ''user'' age \<longleftrightarrow> incoming = ''user''"
  by (auto simp: can_overwrite_def source_rank_def)

lemma user_overwrites [simp]: "can_overwrite ''user'' existing age"
  by (simp add: can_overwrite_def source_rank_def)

text \<open>Apart from Peon against a live agent, age plays no role.\<close>

lemma can_overwrite_age:
  "\<not> (incoming = ''peon'' \<and> existing \<in> {''agent'', ''codex_hook''}) \<Longrightarrow>
   can_overwrite incoming existing a = can_overwrite incoming existing b"
  by (auto simp: can_overwrite_def)

lemma peon_waits_for_agent:
  "existing \<in> {''agent'', ''codex_hook''} \<Longrightarrow> can_overwrite ''peon'' existing age \<longleftrightarrow> (\<exists>a > 15. age = Some a)"
  by (auto simp: can_overwrite_def PEON_AGENT_OVERWRITE_SECS_def is_some_and_iff)

text \<open>Exactly one reason or availability per strategy, in a fixed order.\<close>

lemma derive_resume_options_spec:
  "map option_strategy (derive_resume_options p r e c g) = [Exact, LatestCwd, LatestRepo]"
  "x \<in> set (derive_resume_options p r e c g) \<Longrightarrow>
     option_available x = (option_reason x = None) \<and> option_preferred x = (option_strategy x = p)"
  "option_available (derive_resume_options p r e c g ! 0) \<longleftrightarrow>
     e \<and> (\<exists>mem i. r = Some mem \<and> resume_state mem = Available \<and> harness_session_id mem = Some i)"
  by (auto simp: derive_resume_options_def new_resume_option_def Let_def is_some_and_iff)

lemma reconciled_fields [simp]:
  "lifecycle_phase (reconcile_orphaned_session now m) = ''ended''"
  "lifecycle (reconcile_orphaned_session now m) = ''dead''"
  "attention (reconcile_orphaned_session now m) = None"
  "observed_status (reconcile_orphaned_session now m) = None"
  "pending_terminal_status (reconcile_orphaned_session now m) = None"
  "ending_observed_status_snapshot (reconcile_orphaned_session now m) = None"
  "connectivity (reconcile_orphaned_session now m) = ''offline''"
  "work_phase (reconcile_orphaned_session now m) = work_phase m"
  "final_observed_status_snapshot (reconcile_orphaned_session now m) \<noteq> None"
  by (simp_all add: reconcile_orphaned_session_def Let_def)

lemma reconciled_status:
  "status (reconcile_orphaned_session now m) =
     (if lifecycle_phase m = ''ending'' then (case pending_terminal_status m of None \<Rightarrow> ''error'' | Some st \<Rightarrow> st)
      else ''ended'')"
  "terminal_outcome (reconcile_orphaned_session now m) = Some (status (reconcile_orphaned_session now m))"
  by (simp_all add: reconcile_orphaned_session_def Let_def)

text \<open>
  A session orphaned by a previous run of the daemon ends for good. When its record was
  read from disk and the status it was ending with, if any, is a terminal one, the reconciled
  record has that status (error when an ending session lost it, ended when the session was not
  ending) with the same outcome, its final snapshot is the first of the one it had, the ending one,
  the one made from its observed status, and an empty one, and writing and reading it again
  returns it unchanged.
\<close>

theorem reconcile_survives_reading:
  assumes "meta_wf m" and "is_none_or is_terminal_status (pending_terminal_status m)"
  shows "let r = reconcile_orphaned_session now m in
     normalize_session_metadata r = r \<and>
     status r = (case pending_terminal_status m of None \<Rightarrow> ''ended'' | Some st \<Rightarrow> st) \<and>
     terminal_outcome r = Some (status r) \<and>
     final_observed_status_snapshot r =
       opt_or (final_observed_status_snapshot m) (opt_or (ending_observed_status_snapshot m)
         (opt_or (snapshot_from_legacy_observed_status m) (Some (canonical_null_snapshot ''recovery'' (Some now)))))"
proof -
  let ?r = "reconcile_orphaned_session now m"
  have wf: "known_work_phase (work_phase m)"
    "lifecycle_phase m = ''ending'' \<longleftrightarrow> pending_terminal_status m \<noteq> None"
    using assms(1) by (auto simp: meta_wf_def ending_wf_def)
  have st: "status ?r = (case pending_terminal_status m of None \<Rightarrow> ''ended'' | Some st \<Rightarrow> st)"
    using wf(2) by (auto simp: reconciled_status(1) split: option.split)
  then have "is_terminal_status (status ?r)"
    using assms(2) by (cases "pending_terminal_status m") (auto simp: is_terminal_status_def)
  then have "settled ?r"
    using wf(1) by (simp add: settled_def meta_wf_defs norm_lifecycle_def derived_attention_def norm_attention_def
      reconciled_status(2))
  moreover have "final_observed_status_snapshot ?r =
       opt_or (final_observed_status_snapshot m) (opt_or (ending_observed_status_snapshot m)
         (opt_or (snapshot_from_legacy_observed_status m) (Some (canonical_null_snapshot ''recovery'' (Some now)))))"
    by (cases "final_observed_status_snapshot m"; cases "ending_observed_status_snapshot m";
        cases "observed_status m")
       (simp_all add: reconcile_orphaned_session_def Let_def snapshot_from_legacy_observed_status_def
          meta_attention_source_def meta_attention_origin_def meta_attention_confidence_def split: option.split)
  ultimately show ?thesis using st by (simp add: settled_fixed reconciled_status(2) Let_def)
qed

text \<open>A record with every optional field absent, the starting point of the concrete runs.\<close>

definition blank_provenance :: metadata_provenance where
  "blank_provenance = \<lparr>attention_source = None, attention_confidence = None, attention_origin = None,
     attention_updated_at = None, work_metadata_updated_at = None, summary_source = None,
     summary_confidence = None, summary_observed_at = None\<rparr>"

definition blank_metadata :: session_metadata where
  "blank_metadata = \<lparr>provenance = blank_provenance, sid = ''s1'', label = ''Session s1'',
     label_source = Placeholder, label_from_initial_prompt = False, label_context_refined = False,
     workspace = ''/w'', task = [], harness = ''codex'', model = [], cwd = ''/w'', worktree_binding = None,
     status = ''running'', work_phase = ''unknown'', lifecycle_phase = ''active'', lifecycle = ''alive'',
     attention = None, plan_path = None, connectivity = ''online'', terminal_outcome = None,
     startup_failure = None, pending_terminal_status = None, observed_status = None,
     ending_observed_status_snapshot = None, final_observed_status_snapshot = None, summary = None,
     next_action = None, needs_user_input = None, detected_question = None, suggested_options = None,
     blocker_description = None, failed_command = None, failed_test = None, capacity_hints = None,
     peon_last_inference = None, provider_id = None, provider_label = None, provider_model = None,
     provider_state = None, created_at = ''t0'', last_activity = ''t0'', last_output_at = None,
     metadata_source = ''process'', metadata_confidence = f_one, repo_root = None, branch = None, dirty = None,
     changed_files = None, is_worktree = None, resume = None, resume_options = [],
     harness_session_id_source = None, harness_session_id_confidence = None,
     harness_session_id_captured_at = None, resumed_from = None, last_user_input = None\<rparr>"

lemma blank_wf: "meta_wf blank_metadata"
  by (simp add: blank_metadata_def meta_wf_defs known_work_phase_def is_terminal_status_def)

definition interrupted_ending :: session_metadata where
  "interrupted_ending = blank_metadata\<lparr>lifecycle_phase := ''ending'', lifecycle := ''stopping'',
     pending_terminal_status := Some ''killed''\<rparr>"

theorem reconcile_survives_reading_witness:
  "normalize_session_metadata (reconcile_orphaned_session ''t9'' interrupted_ending) =
     reconcile_orphaned_session ''t9'' interrupted_ending \<and>
   status (reconcile_orphaned_session ''t9'' interrupted_ending) = ''killed''"
proof -
  have "meta_wf interrupted_ending"
    by (simp add: interrupted_ending_def blank_metadata_def meta_wf_defs known_work_phase_def is_terminal_status_def)
  moreover have "pending_terminal_status interrupted_ending = Some ''killed''"
    by (simp add: interrupted_ending_def)
  ultimately show ?thesis
    using reconcile_survives_reading [of interrupted_ending "''t9''"] by (simp add: Let_def is_terminal_status_def)
qed

text \<open>
  An ending record that lost the status it was ending with is repaired to an ended error, but its
  lifecycle stays the one of a session that is still stopping, however often it is read.
\<close>

lemma lost_ending_stays_stopping:
  "let m = normalize_session_metadata (blank_metadata\<lparr>lifecycle_phase := ''ending''\<rparr>) in
   lifecycle_phase m = ''ended'' \<and> status m = ''error'' \<and> lifecycle m = ''stopping'' \<and>
   normalize_session_metadata m = m"
  unfolding Let_def
proof (intro conjI)
  let ?m = "blank_metadata\<lparr>lifecycle_phase := ''ending''\<rparr>"
  have stages: "norm_phase ?m = ?m" "norm_lifecycle ?m = ?m\<lparr>lifecycle := ''stopping''\<rparr>"
    by (simp_all add: norm_phase_def normalize_work_phase_def norm_lifecycle_def blank_metadata_def)
  have blank: "pending_terminal_status blank_metadata = None" "status blank_metadata = ''running''"
    by (simp_all add: blank_metadata_def)
  show "lifecycle (normalize_session_metadata ?m) = ''stopping''"
    by (simp add: normalize_lifecycle stages)
  show "lifecycle_phase (normalize_session_metadata ?m) = ''ended''"
    by (simp add: phase_after stages norm_invalid_ending_fields norm_pending_def norm_ending_status_def
      blank Let_def)
  show "status (normalize_session_metadata ?m) = ''error''"
    by (simp add: normalize_session_metadata_def stages norm_invalid_ending_fields norm_pending_def blank)
  show "normalize_session_metadata (normalize_session_metadata ?m) = normalize_session_metadata ?m"
    by (rule settled_fixed) (simp add: settled_normalize stale_lifecycle_def)
qed

end
