(* ===== verification/Metadata_Mutations.thy ===== *)
theory Metadata_Mutations
  imports Session_Metadata Codex_Approval
begin

text \<open>
  The internal writers of a session record, \<^verbatim>\<open>metadata/internal_mutations.rs\<close> and
  \<^verbatim>\<open>metadata/lifecycle_mutations.rs\<close>: each mutation is a pure function of the record that says
  which provenance scopes it wrote. Of the modules they call, the predicates of \<^verbatim>\<open>peon.rs\<close>, the
  status tables of \<^verbatim>\<open>session_view.rs\<close> and \<open>placeholder_label\<close> of \<^verbatim>\<open>session_types.rs\<close> are here
  too. Which characters are alphabetic is a parameter, a predicate on scalar values.
\<close>

section \<open>Data\<close>

record write_scope =
  scope_attention :: bool
  scope_work :: bool

definition SCOPE_ALL :: write_scope where "SCOPE_ALL = \<lparr>scope_attention = True, scope_work = True\<rparr>"
definition SCOPE_ATTENTION :: write_scope where "SCOPE_ATTENTION = \<lparr>scope_attention = True, scope_work = False\<rparr>"
definition SCOPE_NONE :: write_scope where "SCOPE_NONE = \<lparr>scope_attention = False, scope_work = False\<rparr>"

text \<open>
  The kinds of \<open>io::Error\<close> the sources make, the typed error that an agent patch wraps in one, and a
  panic of the standard library.
\<close>

datatype patch_semantic_error = PatchConflict | PatchBadRequest | PatchUnauthorized

datatype io_error =
    InvalidInput string | InvalidData string | NotFound string | OtherIo string
  | Semantic patch_semantic_error | Panicked

datatype harness_session_merge_result =
    Accepted | IgnoredLowerConfidence | IgnoredIdentityChange | IgnoredUnchanged | MergeNotFound | MergeInvalid | PersistFailed

datatype disposition =
    Applied | NativeLabel bool | PeonSkipped bool | HarnessReported harness_session_merge_result

record decision =
  decided_scope :: "write_scope option"
  decided_disposition :: disposition

record provider_observation =
  observed_provider_id :: string
  observed_provider_label :: string
  observed_provider_model :: "string option"
  observed_provider_state :: string

text \<open>The fields of an inference that a merge reads.\<close>

record peon_inference =
  inf_observed_status :: "string option"
  inf_phase :: "string option"
  inf_next_action :: "string option"
  inf_needs_user_input :: "bool option"
  inf_detected_question :: "string option"
  inf_suggested_options :: "string list option"
  inf_blocker_description :: "string option"
  inf_failed_command :: "string option"
  inf_failed_test :: "string option"
  inf_capacity_hints :: "string list option"
  inf_confidence :: f64
  inf_detected_harness :: "string option"
  inf_detected_model :: "string option"
  inf_harness_session_id :: "string option"

datatype peon_policy = Infer | NonPrompt | PreserveAttention | PreserveHook string f64 string

datatype hook_transition = Activate | HookStop | HookUserPromptSubmit | FallbackPermission

datatype lifecycle_mutation =
    Transition (t_status: string) (t_had_live_handle: bool) (t_already_ending: bool) (t_live_phase: "string option")
      (t_resume: "resume_memory option") (t_resumed_from: "string option") (t_timestamp: string)
  | Finalize observed_status_snapshot string string

datatype internal_mutation =
    Lifecycle lifecycle_mutation
  | NativeShowWait string
  | NativeClearWait string instant
  | HookTransition string hook_transition string
  | HookCompletion string bool string
  | Peon peon_inference string "provider_observation option" "string option" peon_policy
  | HarnessReport harness_session_report string bool
  | CodexLabel string string
  | ProviderContext provider_observation
  | EndingProviderContext provider_observation
  | UserTitle "string option"

section \<open>Tables and predicates of other modules\<close>

definition is_terminal_observed_status :: "string option \<Rightarrow> bool" where
  "is_terminal_observed_status observed \<longleftrightarrow>
     observed \<in> {Some ''idle'', Some ''stale'', Some ''done'', Some ''waiting_for_input'', Some ''blocked'', Some ''failed''}"

definition is_descriptive_input :: "(nat \<Rightarrow> bool) \<Rightarrow> string \<Rightarrow> bool" where
  "is_descriptive_input alpha line \<longleftrightarrow>
     (let t = trim line in
      char_count t \<ge> 4 \<and> (case t of [] \<Rightarrow> True | c # _ \<Rightarrow> c \<notin> set ''/!:#'') \<and> list_ex alpha (code_points t))"

definition connectivity_for_status :: "string \<Rightarrow> string" where
  "connectivity_for_status st = (if st = ''creating'' \<or> st = ''running'' then ''online'' else ''offline'')"

definition terminal_outcome_for_status :: "string \<Rightarrow> string option" where
  "terminal_outcome_for_status st = (if st \<in> {''ended'', ''killed'', ''error''} then Some st else None)"

text \<open>Slicing a string inside a character panics.\<close>

definition placeholder_label :: "string \<Rightarrow> io_error + string" where
  "placeholder_label i =
     (if is_char_boundary i (min (length i) 8) then Inr (''Session '' @ take (min (length i) 8) i) else Inl Panicked)"

section \<open>Lifecycle mutations\<close>

fun lifecycle_valid :: "lifecycle_mutation \<Rightarrow> bool" where
  "lifecycle_valid (Transition st _ _ _ _ _ _) \<longleftrightarrow> st \<in> {''creating'', ''running'', ''killed'', ''ended'', ''error''}"
| "lifecycle_valid (Finalize snap fallback _) \<longleftrightarrow>
     fallback \<in> {''killed'', ''ended'', ''error''} \<and> is_none_or is_finite (snapshot_confidence snap)"

definition transition_refused :: "string \<Rightarrow> bool \<Rightarrow> bool \<Rightarrow> string option \<Rightarrow> session_metadata \<Rightarrow> bool" where
  "transition_refused st had_live_handle already_ending live_phase m \<longleftrightarrow>
     (let is_terminal = st \<in> {''killed'', ''ended'', ''error''} in
      (is_terminal \<and> already_ending \<and> lifecycle_phase m \<in> {''ending'', ''ended''}) \<or>
      (is_terminal \<and> lifecycle_phase m = ''ended'' \<and>
         (\<not> had_live_handle \<or> live_phase = Some ''ended'' \<or>
          (live_phase = Some ''ending'' \<and> status m \<in> {''killed'', ''ended'', ''error''}))) \<or>
      (\<not> is_terminal \<and> live_phase \<in> {Some ''ending'', Some ''ended''}) \<or>
      (\<not> had_live_handle \<and> lifecycle_phase m \<in> {''ending'', ''ended''}))"

definition begin_ending :: "string \<Rightarrow> string \<Rightarrow> session_metadata \<Rightarrow> session_metadata" where
  "begin_ending st timestamp m =
     m\<lparr>status := ''running'', lifecycle_phase := ''ending'', lifecycle := ''stopping'', attention := None,
       connectivity := connectivity_for_status ''running'', terminal_outcome := None,
       pending_terminal_status := Some st,
       ending_observed_status_snapshot := Some
         \<lparr>snapshot_origin = Some (meta_attention_origin m), snapshot_value = observed_status m,
          snapshot_source = meta_attention_source m,
          snapshot_confidence = Some (meta_attention_confidence m),
          snapshot_observed_at = Some timestamp\<rparr>,
       observed_status := None\<rparr>"

definition enter_status :: "string \<Rightarrow> session_metadata \<Rightarrow> session_metadata" where
  "enter_status st m =
     m\<lparr>status := st,
       lifecycle_phase := (if st = ''creating'' then ''creating'' else ''active''),
       lifecycle := (if st = ''creating'' then ''creating'' else ''alive''),
       connectivity := connectivity_for_status st,
       terminal_outcome := terminal_outcome_for_status st\<rparr>"

definition finish_transition ::
  "string \<Rightarrow> resume_memory option \<Rightarrow> string option \<Rightarrow> session_metadata \<Rightarrow> session_metadata" where
  "finish_transition timestamp res from_id m =
     (let m1 = m\<lparr>last_activity := timestamp\<rparr>;
          m2 = (if res \<noteq> None then m1\<lparr>resume := res\<rparr> else m1)
      in if from_id \<noteq> None then m2\<lparr>resumed_from := from_id\<rparr> else m2)"

definition finalize :: "observed_status_snapshot \<Rightarrow> string \<Rightarrow> string \<Rightarrow> session_metadata \<Rightarrow> session_metadata" where
  "finalize snap fallback timestamp m =
     (let pending = (case pending_terminal_status m of None \<Rightarrow> fallback | Some st \<Rightarrow> st)
      in m\<lparr>status := pending, lifecycle_phase := ''ended'', lifecycle := ''dead'', attention := None,
           connectivity := connectivity_for_status pending,
           terminal_outcome := terminal_outcome_for_status pending,
           pending_terminal_status := None, ending_observed_status_snapshot := None,
           final_observed_status_snapshot := Some snap, observed_status := None,
           last_activity := timestamp\<rparr>)"

fun lifecycle_apply :: "lifecycle_mutation \<Rightarrow> session_metadata \<Rightarrow> write_scope option \<times> session_metadata" where
  "lifecycle_apply (Transition st had_live_handle already_ending live_phase res from_id timestamp) m =
     (if transition_refused st had_live_handle already_ending live_phase m then (None, m)
      else if st \<in> {''killed'', ''ended'', ''error''}
      then (Some SCOPE_ATTENTION, finish_transition timestamp res from_id (begin_ending st timestamp m))
      else (Some SCOPE_NONE, finish_transition timestamp res from_id (enter_status st m)))"
| "lifecycle_apply (Finalize snap fallback timestamp) m =
     (if lifecycle_phase m = ''ended'' then (None, m)
      else (Some SCOPE_ATTENTION, finalize snap fallback timestamp m))"

section \<open>Attention writers\<close>

definition native_id :: "session_metadata \<Rightarrow> string option" where
  "native_id m = Option.bind (resume m) harness_session_id"

definition own_attention :: "string \<Rightarrow> session_metadata \<Rightarrow> session_metadata" where
  "own_attention origin m =
     m\<lparr>provenance := (provenance m)\<lparr>attention_source := Some ''agent'', attention_confidence := Some f_one,
        attention_origin := Some origin\<rparr>\<rparr>"

definition no_prompt :: "session_metadata \<Rightarrow> session_metadata" where
  "no_prompt m = m\<lparr>needs_user_input := None, detected_question := None, suggested_options := None\<rparr>"

definition hook_tuple_matches :: "string \<Rightarrow> string \<Rightarrow> session_metadata \<Rightarrow> bool" where
  "hook_tuple_matches root st m \<longleftrightarrow>
     lifecycle m = ''alive'' \<and> lifecycle_phase m = ''active'' \<and> status m = ''running'' \<and> harness m = ''codex'' \<and>
     native_id m = Some root \<and> observed_status m = Some st \<and> attention m = canonical_attention (Some st) \<and>
     meta_attention_source m = ''agent'' \<and> meta_attention_origin m = ''harness_hook'' \<and>
     f64_eq (meta_attention_confidence m) f_one \<and>
     needs_user_input m = None \<and> detected_question m = None \<and> suggested_options m = None"

definition apply_hook_completion ::
  "string \<Rightarrow> bool \<Rightarrow> string \<Rightarrow> session_metadata \<Rightarrow> bool \<times> session_metadata" where
  "apply_hook_completion root waiting timestamp m =
     (let (previous, nxt) = (if waiting then (''working'', ''waiting_for_input'') else (''waiting_for_input'', ''working''))
      in if \<not> hook_tuple_matches root previous m then (False, m)
         else (True, no_prompt (m\<lparr>observed_status := Some nxt, attention := canonical_attention (Some nxt),
                 last_activity := timestamp\<rparr>)))"

definition apply_native_show_wait :: "string \<Rightarrow> session_metadata \<Rightarrow> bool \<times> session_metadata" where
  "apply_native_show_wait timestamp m =
     (if lifecycle m \<noteq> ''alive'' \<or> meta_attention_source m = ''user'' \<or> attention m = Some ''needs_you'' \<or>
         needs_user_input m = Some True \<or> detected_question m \<noteq> None \<or> suggested_options m \<noteq> None
      then (False, m)
      else (True, own_attention ''native_codex''
              (m\<lparr>observed_status := Some ''waiting_for_input'', attention := Some ''needs_you'', last_activity := timestamp\<rparr>)))"

definition apply_native_clear_wait :: "string \<Rightarrow> session_metadata \<Rightarrow> bool \<times> session_metadata" where
  "apply_native_clear_wait timestamp m =
     (if lifecycle m \<noteq> ''alive'' \<or> observed_status m \<noteq> Some ''waiting_for_input'' \<or> attention m \<noteq> Some ''needs_you'' \<or>
         meta_attention_source m \<noteq> ''agent'' \<or> meta_attention_origin m \<noteq> ''native_codex'' \<or>
         \<not> f64_eq (meta_attention_confidence m) f_one \<or>
         needs_user_input m \<noteq> None \<or> detected_question m \<noteq> None \<or> suggested_options m \<noteq> None
      then (False, m)
      else (True, m\<lparr>observed_status := Some ''working'', attention := Some ''working'', last_activity := timestamp\<rparr>))"

fun hook_status :: "hook_transition \<Rightarrow> string option" where
  "hook_status Activate = None"
| "hook_status HookStop = Some ''idle''"
| "hook_status HookUserPromptSubmit = Some ''working''"
| "hook_status FallbackPermission = None"

definition apply_hook_transition ::
  "string \<Rightarrow> hook_transition \<Rightarrow> string \<Rightarrow> session_metadata \<Rightarrow> bool \<times> session_metadata" where
  "apply_hook_transition root tr timestamp m =
     (if lifecycle m \<noteq> ''alive'' \<or> lifecycle_phase m \<noteq> ''active'' \<or> harness m \<noteq> ''codex'' \<or>
         harness_session_id_source m \<noteq> Some ''codex_hook'' \<or> native_id m \<noteq> Some root \<or>
         meta_attention_source m = ''user''
      then (False, m)
      else if tr = FallbackPermission
      then (if needs_user_input m = Some True \<or> detected_question m \<noteq> None then (False, m)
            else (True, own_attention ''harness_hook''
                    (m\<lparr>observed_status := Some ''waiting_for_input'', attention := Some ''needs_you''\<rparr>)))
      else (True, own_attention ''harness_hook'' (no_prompt
              (m\<lparr>observed_status := hook_status tr, attention := hook_status tr, last_activity := timestamp\<rparr>))))"

section \<open>Titles, providers and identity reports\<close>

definition apply_provider :: "provider_observation \<Rightarrow> session_metadata \<Rightarrow> session_metadata" where
  "apply_provider p m =
     m\<lparr>provider_id := Some (observed_provider_id p), provider_label := Some (observed_provider_label p),
       provider_model := observed_provider_model p, provider_state := Some (observed_provider_state p)\<rparr>"

definition normalize_user_title :: "string \<Rightarrow> io_error + string" where
  "normalize_user_title title =
     (if has_control title \<or> trim title = [] \<or> char_count (trim title) > 100
      then Inl (InvalidInput ''invalid session title'')
      else Inr (trim title))"

definition title_of :: "(nat \<Rightarrow> bool) \<Rightarrow> string option \<Rightarrow> session_metadata \<Rightarrow> io_error + string \<times> label_source" where
  "title_of alpha title m =
     (case title of
        Some t \<Rightarrow> and_then (normalize_user_title t) (\<lambda>l. Inr (l, UserLabel))
      | None \<Rightarrow>
          (case opt_filter (is_descriptive_input alpha) (last_user_input m) of
             Some inp \<Rightarrow> Inr (truncate_chars inp 100, TerminalInput)
           | None \<Rightarrow> and_then (placeholder_label (sid m)) (\<lambda>l. Inr (l, Placeholder))))"

definition apply_user_title ::
  "(nat \<Rightarrow> bool) \<Rightarrow> string option \<Rightarrow> session_metadata \<Rightarrow> (io_error + decision) \<times> session_metadata" where
  "apply_user_title alpha title m =
     (case title_of alpha title m of
        Inl e \<Rightarrow> (Inl e, m)
      | Inr (l, src) \<Rightarrow>
          (Inr \<lparr>decided_scope = Some SCOPE_NONE, decided_disposition = Applied\<rparr>,
           m\<lparr>label := l, label_source := src, label_from_initial_prompt := False, label_context_refined := False\<rparr>))"

definition no_resume_memory :: resume_memory where
  "no_resume_memory = \<lparr>resume_state = Available, preferred_strategy = NoStrategy, harness_session_id = None,
     latest_fallback = True, last_seen_at = None\<rparr>"

definition remember_report :: "harness_session_report \<Rightarrow> string \<Rightarrow> session_metadata \<Rightarrow> session_metadata" where
  "remember_report r timestamp m =
     (let mem = (case resume m of None \<Rightarrow> no_resume_memory | Some x \<Rightarrow> x);
          mem1 = mem\<lparr>resume_state := Available, harness_session_id := Some (report_session_id r),
                     last_seen_at := Some timestamp\<rparr>;
          mem2 = (if preferred_strategy mem1 = NoStrategy then mem1\<lparr>preferred_strategy := Exact\<rparr> else mem1)
      in m\<lparr>resume := Some mem2, harness_session_id_source := Some (report_source r),
           harness_session_id_confidence := Some (report_confidence r),
           harness_session_id_captured_at := Some timestamp\<rparr>)"

definition merge_report ::
  "harness_session_report \<Rightarrow> string \<Rightarrow> bool \<Rightarrow> session_metadata \<Rightarrow>
   harness_session_merge_result \<times> bool \<times> session_metadata" where
  "merge_report r timestamp allow_replacement m =
     (let existing_confidence = (case harness_session_id_confidence m of None \<Rightarrow> f_minus_one | Some c \<Rightarrow> c);
          existing_id = native_id m
      in if existing_id \<noteq> None \<and> f64_lt (report_confidence r) existing_confidence
         then (IgnoredLowerConfidence, False, m)
         else if harness m = ''codex'' \<and> is_some_and (\<lambda>i. i \<noteq> report_session_id r) existing_id \<and> \<not> allow_replacement
         then (IgnoredIdentityChange, False, m)
         else if existing_id = Some (report_session_id r) \<and> harness_session_id_source m = Some (report_source r) \<and>
                 opt_f64_eq (harness_session_id_confidence m) (Some (report_confidence r))
         then (case resume m of
                 None \<Rightarrow> (IgnoredUnchanged, False, m)
               | Some mem \<Rightarrow> (IgnoredUnchanged, True, m\<lparr>resume := Some (mem\<lparr>last_seen_at := Some timestamp\<rparr>)\<rparr>))
         else (Accepted, True, remember_report r timestamp m))"

definition apply_harness_report ::
  "harness_session_report \<Rightarrow> string \<Rightarrow> bool \<Rightarrow> session_metadata \<Rightarrow> (io_error + decision) \<times> session_metadata" where
  "apply_harness_report r timestamp allow_replacement m =
     (if \<not> valid_harness_session_report r then (Inl (InvalidInput ''invalid harness identity report''), m)
      else (case merge_report r timestamp allow_replacement m of (res, changed, m1) \<Rightarrow>
              (Inr \<lparr>decided_scope = (if changed then Some SCOPE_NONE else None),
                    decided_disposition = HarnessReported res\<rparr>, m1)))"

definition apply_codex_label ::
  "string \<Rightarrow> string \<Rightarrow> session_metadata \<Rightarrow> (io_error + decision) \<times> session_metadata" where
  "apply_codex_label root text m =
     (if all_white text \<or> has_control text \<or> char_count text > 100
      then (Inl (InvalidInput ''invalid native title''), m)
      else
        (let accepted = (harness m = ''codex'' \<and> lifecycle m = ''alive'' \<and> lifecycle_phase m = ''active'' \<and>
                         is_automatic (label_source m) \<and> native_id m = Some root);
             changed = (accepted \<and> (label m \<noteq> text \<or> label_source m \<noteq> CodexLabelled))
         in (Inr \<lparr>decided_scope = (if changed then Some SCOPE_NONE else None),
                  decided_disposition = NativeLabel accepted\<rparr>,
             if changed then m\<lparr>label := text, label_source := CodexLabelled, label_from_initial_prompt := False\<rparr> else m)))"

section \<open>Peon inferences\<close>

definition protected_hook_matches :: "peon_policy \<Rightarrow> session_metadata \<Rightarrow> bool" where
  "protected_hook_matches policy m =
     (case policy of
        PreserveHook st conf source \<Rightarrow>
          (let src = (if source = ''codex_hook'' then ''agent'' else source);
               origin = meta_attention_origin m;
               validated_origin = (origin \<in> {''harness_hook'', ''native_codex''} \<or>
                 (origin = ''legacy_unknown'' \<and> src \<in> {''claude_hook'', ''copilot_hook''}) \<or>
                 (origin = ''process'' \<and> src = ''process''))
           in observed_status m = Some st \<and> meta_attention_source m = src \<and>
              f64_eq (meta_attention_confidence m) conf \<and> validated_origin)
      | _ \<Rightarrow> False)"

definition infers_attention :: "peon_policy \<Rightarrow> bool" where
  "infers_attention policy \<longleftrightarrow> policy \<noteq> NonPrompt \<and> policy \<noteq> PreserveAttention"

text \<open>An inference that would only resume a settled observed status to working.\<close>

definition resumes_terminal :: "peon_inference \<Rightarrow> peon_policy \<Rightarrow> session_metadata \<Rightarrow> bool" where
  "resumes_terminal inference policy m \<longleftrightarrow>
     infers_attention policy \<and> inf_observed_status inference = Some ''working'' \<and>
     is_terminal_observed_status (observed_status m)"

definition no_diagnostics :: "peon_inference \<Rightarrow> bool" where
  "no_diagnostics inference \<longleftrightarrow> inf_next_action inference = None \<and> inf_blocker_description inference = None \<and>
     inf_failed_command inference = None \<and> inf_failed_test inference = None \<and> inf_capacity_hints inference = None"

definition work_allowed :: "clock \<Rightarrow> session_metadata \<Rightarrow> bool" where
  "work_allowed c m =
     can_overwrite ''peon'' (metadata_source m) (age_secs c (work_metadata_updated_at (provenance m)))"

definition attention_allowed :: "clock \<Rightarrow> peon_inference \<Rightarrow> peon_policy \<Rightarrow> session_metadata \<Rightarrow> bool" where
  "attention_allowed c inference policy m \<longleftrightarrow>
     policy \<noteq> PreserveAttention \<and> \<not> protected_hook_matches policy m \<and>
     can_overwrite ''peon'' (meta_attention_source m) (age_secs c (attention_updated_at (provenance m))) \<and>
     \<not> resumes_terminal inference policy m"

definition summary_allowed :: "string option \<Rightarrow> session_metadata \<Rightarrow> bool" where
  "summary_allowed history_summary m \<longleftrightarrow>
     history_summary \<noteq> None \<and> metadata_source m \<noteq> ''user'' \<and>
     summary_source (provenance m) \<notin> {Some ''agent'', Some ''user''}"

definition permanent_hold :: "session_metadata \<Rightarrow> bool" where
  "permanent_hold m \<longleftrightarrow> metadata_source m = ''user'' \<and> meta_attention_source m = ''user''"

definition prompt_fields :: "session_metadata \<Rightarrow> string option \<times> string option \<times> bool option \<times> string option \<times> string list option" where
  "prompt_fields m = (observed_status m, attention m, needs_user_input m, detected_question m, suggested_options m)"

text \<open>The statements of \<open>apply_peon\<close> that change the record, in their order.\<close>

definition reconcile_prompt :: "bool \<Rightarrow> peon_policy \<Rightarrow> string \<Rightarrow> session_metadata \<Rightarrow> session_metadata" where
  "reconcile_prompt allowed policy timestamp m =
     (if allowed \<and> policy = NonPrompt \<and> meta_attention_source m \<notin> {''user'', ''agent'', ''codex_hook''}
      then (let m1 = (if observed_status m = Some ''waiting_for_input'' then m\<lparr>observed_status := None\<rparr> else m);
                m2 = (if lifecycle m1 = ''alive'' then m1\<lparr>attention := canonical_attention (observed_status m1)\<rparr> else m1);
                m3 = no_prompt m2
            in if prompt_fields m3 \<noteq> prompt_fields m then m3\<lparr>last_activity := timestamp\<rparr> else m3)
      else m)"

definition infer_status :: "bool \<Rightarrow> peon_inference \<Rightarrow> peon_policy \<Rightarrow> session_metadata \<Rightarrow> session_metadata" where
  "infer_status allowed inference policy m =
     (if allowed \<and> policy \<noteq> PreserveAttention
      then (let m1 = (if policy \<noteq> NonPrompt \<or>
                         (inf_observed_status inference \<noteq> Some ''waiting_for_input'' \<and>
                          \<not> (inf_observed_status inference = Some ''working'' \<and> is_terminal_observed_status (observed_status m)))
                      then m\<lparr>observed_status := opt_or (inf_observed_status inference) (observed_status m)\<rparr> else m)
            in if lifecycle m1 = ''alive'' then m1\<lparr>attention := canonical_attention (observed_status m1)\<rparr> else m1)
      else m)"

definition infer_work :: "bool \<Rightarrow> peon_inference \<Rightarrow> session_metadata \<Rightarrow> session_metadata" where
  "infer_work allowed inference m =
     (if allowed
      then m\<lparr>work_phase := (case inf_phase inference of None \<Rightarrow> work_phase m | Some p \<Rightarrow> normalize_work_phase p),
             next_action := opt_or (inf_next_action inference) (next_action m)\<rparr>
      else m)"

definition infer_prompt :: "bool \<Rightarrow> peon_inference \<Rightarrow> session_metadata \<Rightarrow> session_metadata" where
  "infer_prompt allowed inference m =
     (if allowed
      then (let m1 = m\<lparr>needs_user_input := opt_or (inf_needs_user_input inference) (needs_user_input m)\<rparr>;
                incoming_q = opt_filter (\<lambda>q. q \<noteq> []) (inf_detected_question inference);
                m2 = (if incoming_q \<noteq> None \<and> incoming_q \<noteq> detected_question m1 then m1\<lparr>suggested_options := None\<rparr> else m1)
            in m2\<lparr>detected_question := opt_or incoming_q (detected_question m2),
                  suggested_options := opt_or (inf_suggested_options inference) (suggested_options m2)\<rparr>)
      else m)"

definition infer_diagnostics ::
  "bool \<Rightarrow> peon_inference \<Rightarrow> provider_observation option \<Rightarrow> session_metadata \<Rightarrow> session_metadata" where
  "infer_diagnostics allowed inference provider m =
     (if allowed
      then m\<lparr>blocker_description := opt_or (inf_blocker_description inference) (blocker_description m),
             failed_command := opt_or (inf_failed_command inference) (failed_command m),
             failed_test := opt_or (inf_failed_test inference) (failed_test m),
             capacity_hints := opt_or (inf_capacity_hints inference) (capacity_hints m),
             harness := (case inf_detected_harness inference of None \<Rightarrow> harness m
                         | Some h \<Rightarrow> if harness m = [] then h else harness m),
             model := (case inf_detected_model inference of None \<Rightarrow> model m
                       | Some d \<Rightarrow>
                           if model m = [] \<and> Option.bind provider observed_provider_model \<noteq> Some d then d else model m)\<rparr>
      else m)"

definition infer_summary :: "bool \<Rightarrow> string option \<Rightarrow> session_metadata \<Rightarrow> session_metadata" where
  "infer_summary allowed history_summary m =
     (case opt_filter (\<lambda>_. allowed) history_summary of None \<Rightarrow> m | Some x \<Rightarrow> m\<lparr>summary := Some x\<rparr>)"

definition situation ::
  "session_metadata \<Rightarrow> string option \<times> string \<times> string option \<times> string option \<times> string option \<times> string option \<times>
     string list option \<times> string option \<times> string option" where
  "situation m = (observed_status m, work_phase m, summary m, next_action m, detected_question m,
     blocker_description m, suggested_options m, failed_command m, failed_test m)"

definition stamp_inference ::
  "bool \<Rightarrow> bool \<Rightarrow> bool \<Rightarrow> peon_inference \<Rightarrow> string \<Rightarrow> provider_observation option \<Rightarrow> session_metadata \<Rightarrow> session_metadata" where
  "stamp_inference work attn summ inference timestamp provider m =
     (let m1 = m\<lparr>peon_last_inference := Some timestamp\<rparr>;
          m2 = (if work then m1\<lparr>metadata_source := ''peon'', metadata_confidence := inf_confidence inference\<rparr> else m1);
          m3 = (if attn then m2\<lparr>provenance := (provenance m2)\<lparr>attention_source := Some ''peon'',
                     attention_confidence := Some (inf_confidence inference), attention_origin := Some ''peon''\<rparr>\<rparr> else m2);
          m4 = (if summ then m3\<lparr>provenance := (provenance m3)\<lparr>summary_source := Some ''peon'',
                     summary_confidence := Some (inf_confidence inference), summary_observed_at := Some timestamp\<rparr>\<rparr> else m3)
      in case provider of None \<Rightarrow> m4 | Some p \<Rightarrow> if work then apply_provider p m4 else m4)"

definition merge_inference ::
  "bool \<Rightarrow> bool \<Rightarrow> bool \<Rightarrow> peon_inference \<Rightarrow> string \<Rightarrow> provider_observation option \<Rightarrow> string option \<Rightarrow> peon_policy \<Rightarrow>
   session_metadata \<Rightarrow> session_metadata" where
  "merge_inference work attn summ inference timestamp provider history_summary policy m =
     (let m0 = reconcile_prompt attn policy timestamp m;
          m1 = infer_summary summ history_summary (infer_diagnostics work inference provider
                 (infer_prompt (attn \<and> infers_attention policy) inference (infer_work work inference (infer_status attn inference policy m0))));
          m2 = (if situation m1 \<noteq> situation m0 then m1\<lparr>last_activity := timestamp\<rparr> else m1)
      in stamp_inference work attn summ inference timestamp provider m2)"

definition peon_skips :: "clock \<Rightarrow> peon_inference \<Rightarrow> string option \<Rightarrow> peon_policy \<Rightarrow> session_metadata \<Rightarrow> bool" where
  "peon_skips c inference history_summary policy m \<longleftrightarrow>
     (\<not> work_allowed c m \<and> \<not> attention_allowed c inference policy m \<and> \<not> summary_allowed history_summary m)"

definition apply_peon ::
  "clock \<Rightarrow> peon_inference \<Rightarrow> string \<Rightarrow> provider_observation option \<Rightarrow> string option \<Rightarrow> peon_policy \<Rightarrow>
   session_metadata \<Rightarrow> decision \<times> session_metadata" where
  "apply_peon c inference timestamp provider history_summary policy m =
     (if resumes_terminal inference policy m \<and> no_diagnostics inference
      then (\<lparr>decided_scope = None, decided_disposition = PeonSkipped False\<rparr>, m)
      else if peon_skips c inference history_summary policy m
      then (\<lparr>decided_scope = None, decided_disposition = PeonSkipped (permanent_hold m)\<rparr>, m)
      else (\<lparr>decided_scope = Some \<lparr>scope_attention = attention_allowed c inference policy m, scope_work = work_allowed c m\<rparr>,
             decided_disposition = Applied\<rparr>,
            merge_inference (work_allowed c m) (attention_allowed c inference policy m) (summary_allowed history_summary m)
              inference timestamp provider history_summary policy m))"

section \<open>Dispatch\<close>

fun ready_at :: "internal_mutation \<Rightarrow> instant \<Rightarrow> bool" where
  "ready_at (NativeClearWait _ started) now = observation_is_fresh started now"
| "ready_at _ now = True"

definition flagged :: "bool \<times> session_metadata \<Rightarrow> (io_error + decision) \<times> session_metadata" where
  "flagged r = (case r of (accepted, m) \<Rightarrow>
     (Inr \<lparr>decided_scope = (if accepted then Some SCOPE_ATTENTION else None), decided_disposition = Applied\<rparr>, m))"

definition policy_finite :: "peon_policy \<Rightarrow> bool" where
  "policy_finite policy = (case policy of PreserveHook _ conf _ \<Rightarrow> is_finite conf | _ \<Rightarrow> True)"

fun apply_mutation ::
  "clock \<Rightarrow> (nat \<Rightarrow> bool) \<Rightarrow> internal_mutation \<Rightarrow> session_metadata \<Rightarrow> (io_error + decision) \<times> session_metadata" where
  "apply_mutation c alpha (Lifecycle intent) m =
     (if \<not> lifecycle_valid intent then (Inl (InvalidInput ''invalid lifecycle intent''), m)
      else (case lifecycle_apply intent m of (sc, m1) \<Rightarrow>
              (Inr \<lparr>decided_scope = sc, decided_disposition = Applied\<rparr>, m1)))"
| "apply_mutation c alpha (NativeShowWait timestamp) m = flagged (apply_native_show_wait timestamp m)"
| "apply_mutation c alpha (NativeClearWait timestamp _) m = flagged (apply_native_clear_wait timestamp m)"
| "apply_mutation c alpha (HookTransition root tr timestamp) m = flagged (apply_hook_transition root tr timestamp m)"
| "apply_mutation c alpha (HookCompletion root waiting timestamp) m = flagged (apply_hook_completion root waiting timestamp m)"
| "apply_mutation c alpha (Peon inference timestamp provider history_summary policy) m =
     (if \<not> is_finite (inf_confidence inference) \<or> \<not> policy_finite policy
      then (Inl (InvalidInput ''non-finite metadata confidence''), m)
      else (case apply_peon c inference timestamp provider history_summary policy m of (d, m1) \<Rightarrow> (Inr d, m1)))"
| "apply_mutation c alpha (HarnessReport r timestamp allow_replacement) m =
     apply_harness_report r timestamp allow_replacement m"
| "apply_mutation c alpha (CodexLabel root text) m = apply_codex_label root text m"
| "apply_mutation c alpha (EndingProviderContext p) m =
     (if lifecycle_phase m = ''ending''
      then (Inr \<lparr>decided_scope = Some SCOPE_NONE, decided_disposition = Applied\<rparr>, apply_provider p m)
      else (Inr \<lparr>decided_scope = None, decided_disposition = Applied\<rparr>, m))"
| "apply_mutation c alpha (ProviderContext p) m =
     (Inr \<lparr>decided_scope = Some SCOPE_NONE, decided_disposition = Applied\<rparr>, apply_provider p m)"
| "apply_mutation c alpha (UserTitle title) m = apply_user_title alpha title m"

section \<open>What each mutation leaves alone\<close>

definition attention_part ::
  "session_metadata \<Rightarrow> (string option \<times> string option \<times> bool option \<times> string option \<times> string list option) \<times>
     string option \<times> f64 option \<times> string option \<times> string option" where
  "attention_part m = (prompt_fields m, attention_source (provenance m), attention_confidence (provenance m),
     attention_origin (provenance m), attention_updated_at (provenance m))"

definition work_part ::
  "session_metadata \<Rightarrow> (string \<times> string \<times> string option \<times> string option \<times> string option \<times> string option \<times> string list option) \<times>
     string \<times> string \<times> string \<times> f64 \<times> string option" where
  "work_part m = ((work_phase m, task m, next_action m, blocker_description m, failed_command m, failed_test m, capacity_hints m),
     harness m, model m, metadata_source m, metadata_confidence m, work_metadata_updated_at (provenance m))"

definition origin_part ::
  "session_metadata \<Rightarrow> string \<times> string \<times> string \<times> string \<times> plan_reference option \<times> worktree_binding option" where
  "origin_part m = (sid m, created_at m, workspace m, cwd m, plan_path m, worktree_binding m)"

lemmas part_defs = attention_part_def prompt_fields_def work_part_def origin_part_def

lemma peon_stage_parts [simp]:
  "attention_part (infer_work b x m) = attention_part m"
  "attention_part (infer_diagnostics b x p m) = attention_part m"
  "attention_part (infer_summary b h m) = attention_part m"
  "attention_part (m\<lparr>last_activity := t\<rparr>) = attention_part m"
  "work_part (reconcile_prompt b pol t m) = work_part m"
  "work_part (infer_status b x pol m) = work_part m"
  "work_part (infer_prompt b x m) = work_part m"
  "work_part (infer_summary b h m) = work_part m"
  "work_part (m\<lparr>last_activity := t\<rparr>) = work_part m"
  by (auto simp: part_defs infer_work_def infer_diagnostics_def infer_summary_def reconcile_prompt_def
      infer_status_def infer_prompt_def no_prompt_def Let_def split: option.split)

lemma peon_stage_origin [simp]:
  "origin_part (reconcile_prompt b pol t m) = origin_part m"
  "origin_part (infer_status b x pol m) = origin_part m"
  "origin_part (infer_work b x m) = origin_part m"
  "origin_part (infer_prompt b x m) = origin_part m"
  "origin_part (infer_diagnostics b x p m) = origin_part m"
  "origin_part (infer_summary b h m) = origin_part m"
  "origin_part (m\<lparr>last_activity := t\<rparr>) = origin_part m"
  "origin_part (stamp_inference w a s x t p m) = origin_part m"
  by (auto simp: origin_part_def infer_work_def infer_diagnostics_def infer_summary_def reconcile_prompt_def
      infer_status_def infer_prompt_def no_prompt_def stamp_inference_def apply_provider_def Let_def split: option.split)

lemma peon_stage_off [simp]:
  "reconcile_prompt False pol t m = m" "infer_status False x pol m = m" "infer_prompt False x m = m"
  "infer_work False x m = m" "infer_diagnostics False x p m = m"
  by (simp_all add: reconcile_prompt_def infer_status_def infer_prompt_def infer_work_def infer_diagnostics_def)

lemma stamp_parts [simp]:
  "attention_part (stamp_inference w False s x t p m) = attention_part m"
  "work_part (stamp_inference False a s x t p m) = work_part m"
  by (auto simp: part_defs stamp_inference_def apply_provider_def Let_def split: option.split)

lemma merge_inference_parts:
  "attention_part (merge_inference w False s x t p h pol m) = attention_part m"
  "work_part (merge_inference False a s x t p h pol m) = work_part m"
  "origin_part (merge_inference w a s x t p h pol m) = origin_part m"
  by (simp_all add: merge_inference_def Let_def)

lemma lifecycle_parts:
  assumes "lifecycle_apply i m = (sc, m1)"
  shows "case sc of None \<Rightarrow> m1 = m
         | Some s \<Rightarrow> (scope_attention s \<or> attention_part m1 = attention_part m) \<and> \<not> scope_work s \<and>
             work_part m1 = work_part m \<and> origin_part m1 = origin_part m"
  using assms
  by (cases i) (auto simp: part_defs finish_transition_def begin_ending_def enter_status_def finalize_def
      SCOPE_ATTENTION_def SCOPE_NONE_def Let_def split: if_splits)

lemma writer_parts:
  "work_part (snd (apply_hook_completion r w t m)) = work_part m"
  "work_part (snd (apply_native_show_wait t m)) = work_part m"
  "work_part (snd (apply_native_clear_wait t m)) = work_part m"
  "work_part (snd (apply_hook_transition r tr t m)) = work_part m"
  "origin_part (snd (apply_hook_completion r w t m)) = origin_part m"
  "origin_part (snd (apply_native_show_wait t m)) = origin_part m"
  "origin_part (snd (apply_native_clear_wait t m)) = origin_part m"
  "origin_part (snd (apply_hook_transition r tr t m)) = origin_part m"
  by (auto simp: part_defs apply_hook_completion_def apply_native_show_wait_def apply_native_clear_wait_def
      apply_hook_transition_def own_attention_def no_prompt_def Let_def)

lemma refusal:
  "\<not> fst (if b then (False, m) else (True, n)) \<Longrightarrow> snd (if b then (False, m) else (True, n)) = m"
  "\<not> fst (if b then (False, m) else if d then (if e then (False, m) else (True, n)) else (True, k)) \<Longrightarrow>
   snd (if b then (False, m) else if d then (if e then (False, m) else (True, n)) else (True, k)) = m"
  by (cases b; cases d; cases e; simp)+

lemma writer_refused:
  "\<not> fst (apply_hook_completion r w t m) \<Longrightarrow> snd (apply_hook_completion r w t m) = m"
  "\<not> fst (apply_native_show_wait t m) \<Longrightarrow> snd (apply_native_show_wait t m) = m"
  "\<not> fst (apply_native_clear_wait t m) \<Longrightarrow> snd (apply_native_clear_wait t m) = m"
  "\<not> fst (apply_hook_transition r tr t m) \<Longrightarrow> snd (apply_hook_transition r tr t m) = m"
  unfolding apply_hook_completion_def apply_native_show_wait_def apply_native_clear_wait_def
    apply_hook_transition_def Let_def case_prod_beta
  by (erule refusal)+

text \<open>What a decision promises about the record it came with.\<close>

definition keeps_promise :: "(io_error + decision) \<times> session_metadata \<Rightarrow> session_metadata \<Rightarrow> bool" where
  "keeps_promise r m =
     (case r of
        (Inl e, m1) \<Rightarrow> m1 = m
      | (Inr d, m1) \<Rightarrow>
          (case decided_scope d of
             None \<Rightarrow> m1 = m
           | Some sc \<Rightarrow> (scope_attention sc \<or> attention_part m1 = attention_part m) \<and>
                        (scope_work sc \<or> work_part m1 = work_part m) \<and> origin_part m1 = origin_part m))"

lemma flagged_promise:
  assumes "\<not> fst r \<Longrightarrow> snd r = m" and "work_part (snd r) = work_part m" and "origin_part (snd r) = origin_part m"
  shows "keeps_promise (flagged r) m"
  using assms by (cases r) (auto simp: keeps_promise_def flagged_def SCOPE_ATTENTION_def)

lemma harness_report_promise: "keeps_promise (apply_harness_report r t a m) m"
  by (auto simp: keeps_promise_def apply_harness_report_def merge_report_def remember_report_def part_defs
      Let_def split: option.splits prod.split if_splits)

lemma label_promise:
  "keeps_promise (apply_codex_label root text m) m" "keeps_promise (apply_user_title alpha title m) m"
  by (auto simp: keeps_promise_def apply_codex_label_def apply_user_title_def part_defs Let_def
      split: sum.split prod.split)

lemma peon_promise:
  "keeps_promise (case apply_peon c x t p h pol m of (d, m1) \<Rightarrow> (Inr d, m1)) m"
  by (cases "attention_allowed c x pol m"; cases "work_allowed c m")
     (auto simp: keeps_promise_def apply_peon_def merge_inference_parts)

lemma provider_promise: "keeps_promise (Inr \<lparr>decided_scope = Some SCOPE_NONE, decided_disposition = d\<rparr>, apply_provider p m) m"
  by (simp add: keeps_promise_def apply_provider_def part_defs)

lemma skip_promise:
  "keeps_promise (Inr \<lparr>decided_scope = None, decided_disposition = d\<rparr>, m) m" "keeps_promise (Inl e, m) m"
  by (simp_all add: keeps_promise_def)

lemma mutation_promise: "keeps_promise (apply_mutation c alpha i m) m"
proof (cases i)
  case (Lifecycle l)
  obtain sc m1 where "lifecycle_apply l m = (sc, m1)" by (cases "lifecycle_apply l m")
  with lifecycle_parts [OF this] Lifecycle show ?thesis
    by (auto simp: keeps_promise_def split: option.splits)
next
  case (Peon x t p h pol)
  then show ?thesis using peon_promise [of c x t p h pol m] by (simp add: keeps_promise_def)
qed (simp_all add: flagged_promise writer_parts writer_refused harness_report_promise label_promise
       provider_promise skip_promise)

section \<open>The mutations as a machine\<close>

fun mut_next :: "(nat \<Rightarrow> bool) \<Rightarrow> clock \<times> internal_mutation \<Rightarrow> session_metadata \<Rightarrow> session_metadata" where
  "mut_next alpha (c, i) m = snd (apply_mutation c alpha i m)"

text \<open>The bounds every writer respects.\<close>

definition mut_inv :: "session_metadata \<Rightarrow> bool" where
  "mut_inv m \<longleftrightarrow> known_work_phase (work_phase m) \<and> char_count (label m) \<le> 100 \<and> is_finite (metadata_confidence m) \<and>
     is_none_or (\<lambda>x. f64_le f_zero x \<and> f64_le x f_one) (harness_session_id_confidence m)"

definition bound_fields :: "session_metadata \<Rightarrow> string \<times> string \<times> f64 \<times> f64 option" where
  "bound_fields m = (work_phase m, label m, metadata_confidence m, harness_session_id_confidence m)"

lemma mut_inv_bound_fields: "bound_fields m = bound_fields n \<Longrightarrow> mut_inv m = mut_inv n"
  by (simp add: bound_fields_def mut_inv_def)

lemma writer_bound_fields:
  "bound_fields (snd (apply_hook_completion r w t m)) = bound_fields m"
  "bound_fields (snd (apply_native_show_wait t m)) = bound_fields m"
  "bound_fields (snd (apply_native_clear_wait t m)) = bound_fields m"
  "bound_fields (snd (apply_hook_transition r tr t m)) = bound_fields m"
  "bound_fields (snd (lifecycle_apply l m)) = bound_fields m"
  "bound_fields (apply_provider p m) = bound_fields m"
  by (auto simp: bound_fields_def apply_hook_completion_def apply_native_show_wait_def apply_native_clear_wait_def
      apply_hook_transition_def own_attention_def no_prompt_def apply_provider_def Let_def)
     (cases l; simp add: finish_transition_def begin_ending_def enter_status_def finalize_def Let_def)+

lemma snd_flagged [simp]: "snd (flagged r) = snd r"
  by (simp add: flagged_def case_prod_beta)

lemma known_normalized [simp]: "known_work_phase (normalize_work_phase p)"
  by (simp add: known_work_phase_def normalize_work_phase_def)

lemma peon_stage_bounds [simp]:
  "bound_fields (reconcile_prompt b pol t m) = bound_fields m"
  "bound_fields (infer_status b x pol m) = bound_fields m"
  "bound_fields (infer_prompt b x m) = bound_fields m"
  "bound_fields (infer_diagnostics b x p m) = bound_fields m"
  "bound_fields (infer_summary b h m) = bound_fields m"
  "bound_fields (m\<lparr>last_activity := t\<rparr>) = bound_fields m"
  by (auto simp: bound_fields_def reconcile_prompt_def infer_status_def infer_prompt_def infer_diagnostics_def
      infer_summary_def no_prompt_def Let_def split: option.split)

lemma mut_inv_infer_work: "mut_inv m \<Longrightarrow> mut_inv (infer_work b x m)"
  by (auto simp: mut_inv_def infer_work_def split: option.split)

lemma mut_inv_stamp: "mut_inv m \<Longrightarrow> is_finite (inf_confidence x) \<Longrightarrow> mut_inv (stamp_inference w a s x t p m)"
  by (auto simp: mut_inv_def stamp_inference_def apply_provider_def Let_def split: option.split)

lemma mut_inv_merge_inference:
  assumes "mut_inv m" and "is_finite (inf_confidence x)"
  shows "mut_inv (merge_inference w a s x t p h pol m)"
proof -
  let ?m0 = "reconcile_prompt a pol t m"
  let ?m1 = "infer_summary s h (infer_diagnostics w x p (infer_prompt (a \<and> infers_attention pol) x
    (infer_work w x (infer_status a x pol ?m0))))"
  have "mut_inv ?m0" using assms(1) mut_inv_bound_fields [OF peon_stage_bounds(1)] by blast
  then have "mut_inv (infer_status a x pol ?m0)" using mut_inv_bound_fields [OF peon_stage_bounds(2)] by blast
  from mut_inv_infer_work [OF this] have "mut_inv ?m1"
    by (simp add: mut_inv_bound_fields [OF peon_stage_bounds(3)] mut_inv_bound_fields [OF peon_stage_bounds(4)]
      mut_inv_bound_fields [OF peon_stage_bounds(5)])
  then have "mut_inv (?m1\<lparr>last_activity := t\<rparr>)" using mut_inv_bound_fields [OF peon_stage_bounds(6)] by blast
  with \<open>mut_inv ?m1\<close> show ?thesis
    using mut_inv_stamp [OF _ assms(2)] unfolding merge_inference_def Let_def by (simp only: split: if_split) blast
qed

lemma char_count_append [simp]: "char_count (xs @ ys) = char_count xs + char_count ys"
  by (simp add: char_count_def)

lemma char_count_le_length: "char_count s \<le> length s"
  by (simp add: char_count_def)

lemma title_of_bounded:
  assumes "title_of alpha title m = Inr (l, src)"
  shows "char_count l \<le> 100"
proof -
  have "length (''Session '' @ take (min n 8) i) \<le> 100" for n :: nat and i by simp
  from order_trans [OF char_count_le_length this]
  have "char_count (''Session '' @ take (min n 8) i) \<le> 100" for n i .
  then show ?thesis
    using assms
    by (auto simp: title_of_def placeholder_label_def normalize_user_title_def and_then_def
        intro: truncate_chars_count split: option.splits sum.splits if_splits)
qed

text \<open>A report leaves the record alone, notes when the same identity was last seen, or is remembered.\<close>

lemma merge_report_cases:
  assumes "merge_report r t a m = (res, changed, m1)"
  obtains "m1 = m" "\<not> changed"
  | mem where "resume m = Some mem" "changed" "m1 = m\<lparr>resume := Some (mem\<lparr>last_seen_at := Some t\<rparr>)\<rparr>"
  | "changed" "m1 = remember_report r t m"
      "native_id m = None \<or> \<not> f64_lt (report_confidence r)
         (case harness_session_id_confidence m of None \<Rightarrow> f_minus_one | Some c \<Rightarrow> c)"
      "a \<or> harness m \<noteq> ''codex'' \<or> is_none_or (\<lambda>i. i = report_session_id r) (native_id m)"
proof -
  let ?old = "case harness_session_id_confidence m of None \<Rightarrow> f_minus_one | Some c \<Rightarrow> c"
  let ?lower = "native_id m \<noteq> None \<and> f64_lt (report_confidence r) ?old"
  let ?other = "harness m = ''codex'' \<and> is_some_and (\<lambda>i. i \<noteq> report_session_id r) (native_id m) \<and> \<not> a"
  let ?same = "native_id m = Some (report_session_id r) \<and> harness_session_id_source m = Some (report_source r) \<and>
    opt_f64_eq (harness_session_id_confidence m) (Some (report_confidence r))"
  consider "?lower \<or> ?other" | "\<not> ?lower" "\<not> ?other" "?same" | "\<not> ?lower" "\<not> ?other" "\<not> ?same" by argo
  then show thesis
  proof cases
    case 1
    then have "merge_report r t a m = (if ?lower then IgnoredLowerConfidence else IgnoredIdentityChange, False, m)"
      unfolding merge_report_def Let_def by presburger
    then show thesis using assms that(1) by simp
  next
    case 2
    have "merge_report r t a m = (case resume m of
        None \<Rightarrow> (IgnoredUnchanged, False, m)
      | Some mem \<Rightarrow> (IgnoredUnchanged, True, m\<lparr>resume := Some (mem\<lparr>last_seen_at := Some t\<rparr>)\<rparr>))"
      unfolding merge_report_def Let_def if_not_P [OF 2(1)] if_not_P [OF 2(2)] if_P [OF 2(3)] by (rule refl)
    then show thesis using assms that(1,2) by (cases "resume m") auto
  next
    case 3
    have "merge_report r t a m = (Accepted, True, remember_report r t m)"
      unfolding merge_report_def Let_def if_not_P [OF 3(1)] if_not_P [OF 3(2)] if_not_P [OF 3(3)] by (rule refl)
    moreover have "a \<or> harness m \<noteq> ''codex'' \<or> is_none_or (\<lambda>i. i = report_session_id r) (native_id m)"
      using 3(2) by (cases "native_id m") auto
    ultimately show thesis using assms that(3) 3(1) by auto
  qed
qed

lemma mut_inv_harness_report:
  assumes "mut_inv m"
  shows "mut_inv (snd (apply_harness_report r t a m))"
proof (cases "valid_harness_session_report r")
  case True
  obtain res changed m1 where mr: "merge_report r t a m = (res, changed, m1)" by (metis prod_cases3)
  from mr have "mut_inv m1"
  proof (cases rule: merge_report_cases)
    case 3
    then show ?thesis using assms True
      by (simp add: mut_inv_def remember_report_def valid_harness_session_report_def Let_def)
  qed (use assms in \<open>simp_all add: mut_inv_def\<close>)
  then show ?thesis using mr True by (simp add: apply_harness_report_def)
qed (use assms in \<open>simp add: apply_harness_report_def\<close>)

lemma mut_inv_label: "mut_inv m \<Longrightarrow> mut_inv (snd (apply_codex_label root title m))"
  by (simp add: apply_codex_label_def mut_inv_def Let_def)

lemma mut_inv_title: "mut_inv m \<Longrightarrow> mut_inv (snd (apply_user_title alpha title m))"
  using title_of_bounded [of alpha title m]
  by (cases "title_of alpha title m") (auto simp: apply_user_title_def mut_inv_def)

lemma mut_inv_peon:
  "mut_inv m \<Longrightarrow> is_finite (inf_confidence x) \<Longrightarrow> mut_inv (snd (apply_peon c x t p h pol m))"
  by (simp add: apply_peon_def mut_inv_merge_inference)

lemma mut_inv_apply:
  assumes "mut_inv m"
  shows "mut_inv (snd (apply_mutation c alpha j m))"
proof (cases j)
  case (Lifecycle l)
  then show ?thesis
    using assms by (simp add: case_prod_beta mut_inv_bound_fields [OF writer_bound_fields(5)])
next
  case (Peon x t p h pol)
  then show ?thesis using assms by (simp add: case_prod_beta mut_inv_peon)
qed (use assms in \<open>simp_all add: mut_inv_harness_report mut_inv_label mut_inv_title
      mut_inv_bound_fields [OF writer_bound_fields(1)] mut_inv_bound_fields [OF writer_bound_fields(2)]
      mut_inv_bound_fields [OF writer_bound_fields(3)] mut_inv_bound_fields [OF writer_bound_fields(4)]
      mut_inv_bound_fields [OF writer_bound_fields(6)]\<close>)

lemma mut_inv_next: "mut_inv m \<Longrightarrow> mut_inv (mut_next alpha i m)"
  by (cases i) (simp add: mut_inv_apply)

interpretation mu: machine mut_inv "mut_next alpha" mut_inv for alpha
  by unfold_locales (auto intro: mut_inv_next)

section \<open>Who owns attention\<close>

definition wrote_attention :: "(io_error + decision) \<times> session_metadata \<Rightarrow> bool" where
  "wrote_attention r =
     (case fst r of Inl _ \<Rightarrow> False | Inr d \<Rightarrow> is_some_and scope_attention (decided_scope d))"

definition wrote_work :: "(io_error + decision) \<times> session_metadata \<Rightarrow> bool" where
  "wrote_work r = (case fst r of Inl _ \<Rightarrow> False | Inr d \<Rightarrow> is_some_and scope_work (decided_scope d))"

fun ends_session :: "internal_mutation \<Rightarrow> bool" where
  "ends_session (Lifecycle (Finalize _ _ _)) = True"
| "ends_session (Lifecycle (Transition st _ _ _ _ _ _)) = (st \<in> {''killed'', ''ended'', ''error''})"
| "ends_session _ = False"

lemma unwritten_attention:
  assumes "\<not> wrote_attention (apply_mutation c alpha i m)"
  shows "attention_part (snd (apply_mutation c alpha i m)) = attention_part m"
  using mutation_promise [of c alpha i m] assms
  by (auto simp: keeps_promise_def wrote_attention_def split: prod.splits sum.splits option.splits)

lemma unwritten_work:
  assumes "\<not> wrote_work (apply_mutation c alpha i m)"
  shows "work_part (snd (apply_mutation c alpha i m)) = work_part m"
  using mutation_promise [of c alpha i m] assms
  by (auto simp: keeps_promise_def wrote_work_def split: prod.splits sum.splits option.splits)

lemma wrote_flagged [simp]: "wrote_attention (flagged r) = fst r" "\<not> wrote_work (flagged r)"
  by (simp_all add: wrote_attention_def wrote_work_def flagged_def SCOPE_ATTENTION_def case_prod_beta)

lemma wrote_plain [simp]:
  "\<not> wrote_attention (Inl e, m)" "\<not> wrote_work (Inl e, m)"
  "\<not> wrote_attention (Inr \<lparr>decided_scope = None, decided_disposition = d\<rparr>, m)"
  "\<not> wrote_work (Inr \<lparr>decided_scope = None, decided_disposition = d\<rparr>, m)"
  "\<not> wrote_attention (Inr \<lparr>decided_scope = Some SCOPE_NONE, decided_disposition = d\<rparr>, m)"
  "\<not> wrote_work (Inr \<lparr>decided_scope = Some SCOPE_NONE, decided_disposition = d\<rparr>, m)"
  by (simp_all add: wrote_attention_def wrote_work_def SCOPE_NONE_def)

lemma wrote_rest [simp]:
  "\<not> wrote_attention (apply_harness_report r t a m)" "\<not> wrote_work (apply_harness_report r t a m)"
  "\<not> wrote_attention (apply_codex_label root title m)" "\<not> wrote_work (apply_codex_label root title m)"
  "\<not> wrote_attention (apply_user_title alpha name m)" "\<not> wrote_work (apply_user_title alpha name m)"
  by (simp_all add: apply_harness_report_def apply_codex_label_def apply_user_title_def Let_def
      split: sum.split prod.split)

lemma wrote_work_lifecycle [simp]: "\<not> wrote_work (apply_mutation c alpha (Lifecycle l) m)"
  using lifecycle_parts [of l m "fst (lifecycle_apply l m)" "snd (lifecycle_apply l m)"]
  by (auto simp: wrote_work_def case_prod_beta is_some_and_iff)

lemma wrote_peon:
  "wrote_attention (case apply_peon c x t p h pol m of (d, m1) \<Rightarrow> (Inr d, m1)) \<Longrightarrow> attention_allowed c x pol m"
  by (auto simp: wrote_attention_def apply_peon_def split: if_split_asm)

text \<open>While the user owns attention, only the end of the session writes it.\<close>

lemma user_refuses:
  assumes "meta_attention_source m = ''user''"
  shows "\<not> fst (apply_hook_completion r w t m)" "\<not> fst (apply_native_show_wait t m)"
    "\<not> fst (apply_native_clear_wait t m)" "\<not> fst (apply_hook_transition r tr t m)"
    "\<not> attention_allowed c x pol m"
  using assms
  by (simp_all add: apply_hook_completion_def apply_native_show_wait_def apply_native_clear_wait_def
      apply_hook_transition_def hook_tuple_matches_def attention_allowed_def Let_def)

lemma user_unwritten:
  assumes "meta_attention_source m = ''user''" and "\<not> ends_session i"
  shows "\<not> wrote_attention (apply_mutation c alpha i m)"
proof (cases i)
  case (Lifecycle l)
  then show ?thesis using assms(2)
    by (cases l) (auto simp: wrote_attention_def SCOPE_NONE_def SCOPE_ATTENTION_def)
next
  case (Peon x t p h pol)
  then show ?thesis using wrote_peon [of c x t p h pol m] user_refuses(5) [OF assms(1)]
    by auto
qed (simp_all add: user_refuses [OF assms(1)])

lemma wrote_work_peon:
  "wrote_work (case apply_peon c x t p h pol m of (d, m1) \<Rightarrow> (Inr d, m1)) \<Longrightarrow> work_allowed c m"
  by (auto simp: wrote_work_def apply_peon_def split: if_split_asm)

lemma metadata_source_next:
  "metadata_source (snd (apply_mutation c alpha i m)) = metadata_source m \<or> metadata_source m \<noteq> ''user''"
proof (cases "wrote_work (apply_mutation c alpha i m)")
  case True
  have "work_allowed c m"
  proof (cases i)
    case (Peon x t p h pol)
    then show ?thesis using True wrote_work_peon [of c x t p h pol m] by (auto split: if_split_asm)
  next
    case (Lifecycle l)
    then show ?thesis using True wrote_work_lifecycle by blast
  qed (use True in \<open>simp_all split: if_split_asm\<close>)
  then show ?thesis by (auto simp: work_allowed_def)
next
  case False
  then show ?thesis using unwritten_work [OF False] by (simp add: work_part_def)
qed

lemma user_keeps:
  assumes "meta_attention_source m = ''user''" and "\<not> ends_session i"
  shows "attention_part (snd (apply_mutation c alpha i m)) = attention_part m \<and>
         meta_attention_source (snd (apply_mutation c alpha i m)) = ''user''"
proof
  show part: "attention_part (snd (apply_mutation c alpha i m)) = attention_part m"
    using unwritten_attention [OF user_unwritten [OF assms]] .
  show "meta_attention_source (snd (apply_mutation c alpha i m)) = ''user''"
    using assms(1) part metadata_source_next [of c alpha i m]
    by (auto simp: meta_attention_source_def attention_source_or_def attention_part_def split: option.splits)
qed

text \<open>Whoever wrote attention last decides whether a native wait can be cleared.\<close>

lemma acceptance:
  "fst (if b then (False, m) else (True, n)) \<Longrightarrow> snd (if b then (False, m) else (True, n)) = n \<and> \<not> b"
  "fst (if b then (False, m) else if d then (if e then (False, m) else (True, n)) else (True, k)) \<Longrightarrow>
   snd (if b then (False, m) else if d then (if e then (False, m) else (True, n)) else (True, k)) \<in> {n, k}"
  by (cases b; cases d; cases e; simp)+

lemma clear_needs_native:
  assumes "fst (apply_native_clear_wait t m)"
  shows "observed_status m = Some ''waiting_for_input'' \<and> meta_attention_origin m = ''native_codex''"
    "observed_status (snd (apply_native_clear_wait t m)) = Some ''working''"
  using acceptance(1) [OF assms [unfolded apply_native_clear_wait_def]] unfolding apply_native_clear_wait_def
  by simp_all

lemma hook_writes_origin:
  "fst (apply_hook_transition root tr t m) \<Longrightarrow>
     meta_attention_origin (snd (apply_hook_transition root tr t m)) = ''harness_hook''"
  "fst (apply_hook_completion root w t m) \<Longrightarrow>
     meta_attention_origin (snd (apply_hook_completion root w t m)) = ''harness_hook''"
proof -
  have own: "meta_attention_origin (own_attention x n) = x" for x n
    by (simp add: own_attention_def meta_attention_origin_def)
  assume "fst (apply_hook_transition root tr t m)"
  from acceptance(2) [OF this [unfolded apply_hook_transition_def]]
  show "meta_attention_origin (snd (apply_hook_transition root tr t m)) = ''harness_hook''"
    unfolding apply_hook_transition_def by (auto simp only: insert_iff empty_iff own)
next
  assume "fst (apply_hook_completion root w t m)"
  from acceptance(1) [OF this [unfolded apply_hook_completion_def Let_def case_prod_beta]]
  show "meta_attention_origin (snd (apply_hook_completion root w t m)) = ''harness_hook''"
    unfolding apply_hook_completion_def Let_def case_prod_beta
    by (simp add: hook_tuple_matches_def no_prompt_def meta_attention_origin_def)
qed

lemma ending_unobserved:
  assumes "wrote_attention (apply_mutation c alpha (Lifecycle l) m)"
  shows "observed_status (snd (apply_mutation c alpha (Lifecycle l) m)) = None"
proof -
  have [simp]: "observed_status (finish_transition t r f n) = observed_status n" for t r f n
    by (simp add: finish_transition_def Let_def)
  have [simp]: "observed_status (begin_ending st t n) = None" "observed_status (finalize s f t n) = None" for st s f t n
    by (simp_all add: begin_ending_def finalize_def Let_def)
  have valid: "lifecycle_valid l" using assms by (simp split: if_split_asm)
  show ?thesis
  proof (cases l)
    case (Transition st h a ph r f t)
    have "\<not> transition_refused st h a ph m \<and> st \<in> {''killed'', ''ended'', ''error''}"
      using assms valid unfolding Transition apply_mutation.simps lifecycle_apply.simps
      by (simp only: if_True if_False not_not prod.case wrote_plain split: if_split_asm) simp_all
    then have "lifecycle_apply l m = (Some SCOPE_ATTENTION, finish_transition t r f (begin_ending st t m))"
      unfolding Transition lifecycle_apply.simps by (simp only: if_False if_True simp_thms)
    then show ?thesis using valid by simp
  next
    case (Finalize s f t)
    then show ?thesis using assms valid by (simp split: if_split_asm)
  qed
qed

lemma stamp_origin [simp]: "meta_attention_origin (stamp_inference w True s x t p m) = ''peon''"
  by (cases p) (simp_all add: stamp_inference_def meta_attention_origin_def apply_provider_def Let_def)

lemma not_native_after:
  assumes "wrote_attention (apply_mutation c alpha i m)" and "\<forall>t. i \<noteq> NativeShowWait t"
  shows "\<not> (observed_status (snd (apply_mutation c alpha i m)) = Some ''waiting_for_input'' \<and>
            meta_attention_origin (snd (apply_mutation c alpha i m)) = ''native_codex'')"
proof (cases i)
  case (Lifecycle l)
  then show ?thesis using assms(1) ending_unobserved by auto
next
  case (NativeClearWait t st)
  then show ?thesis using assms(1) clear_needs_native(2) [of t m] by simp
next
  case (HookTransition root tr t)
  then show ?thesis using assms(1) hook_writes_origin(1) [of root tr t m] by simp
next
  case (HookCompletion root w t)
  then show ?thesis using assms(1) hook_writes_origin(2) [of root w t m] by simp
next
  case (Peon x t p h pol)
  then have *: "snd (apply_mutation c alpha i m) = merge_inference (work_allowed c m) True (summary_allowed h m) x t p h pol m"
    using assms(1) by (auto simp: wrote_attention_def apply_peon_def split: if_split_asm)
  show ?thesis unfolding * by (simp add: merge_inference_def Let_def)
qed (use assms in \<open>simp_all split: if_split_asm\<close>)

section \<open>Lifecycle and identity\<close>

definition lifecycle_part ::
  "session_metadata \<Rightarrow> string \<times> string \<times> string \<times> string \<times> string option \<times> string option \<times>
     observed_status_snapshot option \<times> observed_status_snapshot option" where
  "lifecycle_part m = (status m, lifecycle_phase m, lifecycle m, connectivity m, terminal_outcome m,
     pending_terminal_status m, ending_observed_status_snapshot m, final_observed_status_snapshot m)"

definition identity_part :: "session_metadata \<Rightarrow> resume_memory option \<times> string option \<times> f64 option" where
  "identity_part m = (resume m, harness_session_id_source m, harness_session_id_confidence m)"


lemma writer_identity:
  "identity_part (snd (apply_hook_completion r w t m)) = identity_part m"
  "identity_part (snd (apply_native_show_wait t m)) = identity_part m"
  "identity_part (snd (apply_native_clear_wait t m)) = identity_part m"
  "identity_part (snd (apply_hook_transition r tr t m)) = identity_part m"
  "identity_part (apply_provider p m) = identity_part m"
  "identity_part (snd (apply_codex_label root title m)) = identity_part m"
  "identity_part (snd (apply_user_title alpha name m)) = identity_part m"
  by (auto simp: identity_part_def apply_hook_completion_def apply_native_show_wait_def apply_native_clear_wait_def
      apply_hook_transition_def own_attention_def no_prompt_def apply_provider_def apply_codex_label_def
      apply_user_title_def Let_def split: sum.split)

lemma peon_stage_lifecycle [simp]:
  "lifecycle_part (reconcile_prompt b pol t m) = lifecycle_part m"
  "lifecycle_part (infer_status b x pol m) = lifecycle_part m"
  "lifecycle_part (infer_work b x m) = lifecycle_part m"
  "lifecycle_part (infer_prompt b x m) = lifecycle_part m"
  "lifecycle_part (infer_diagnostics b x p m) = lifecycle_part m"
  "lifecycle_part (infer_summary b h m) = lifecycle_part m"
  "lifecycle_part (m\<lparr>last_activity := t\<rparr>) = lifecycle_part m"
  "lifecycle_part (stamp_inference w a s x t p m) = lifecycle_part m"
  by (auto simp: lifecycle_part_def infer_work_def infer_diagnostics_def infer_summary_def reconcile_prompt_def
      infer_status_def infer_prompt_def no_prompt_def stamp_inference_def apply_provider_def Let_def split: option.split)

lemma peon_stage_identity [simp]:
  "identity_part (reconcile_prompt b pol t m) = identity_part m"
  "identity_part (infer_status b x pol m) = identity_part m"
  "identity_part (infer_work b x m) = identity_part m"
  "identity_part (infer_prompt b x m) = identity_part m"
  "identity_part (infer_diagnostics b x p m) = identity_part m"
  "identity_part (infer_summary b h m) = identity_part m"
  "identity_part (m\<lparr>last_activity := t\<rparr>) = identity_part m"
  "identity_part (stamp_inference w a s x t p m) = identity_part m"
  by (auto simp: identity_part_def infer_work_def infer_diagnostics_def infer_summary_def reconcile_prompt_def
      infer_status_def infer_prompt_def no_prompt_def stamp_inference_def apply_provider_def Let_def split: option.split)

lemma peon_frames:
  "lifecycle_part (snd (apply_peon c x t p h pol m)) = lifecycle_part m"
  "identity_part (snd (apply_peon c x t p h pol m)) = identity_part m"
  by (simp_all add: apply_peon_def merge_inference_def Let_def)




text \<open>A mutation that says nothing new about who the native session is.\<close>

fun keeps_identity :: "internal_mutation \<Rightarrow> bool" where
  "keeps_identity (Lifecycle (Transition _ _ _ _ res _ _)) = (res = None)"
| "keeps_identity (HarnessReport _ _ allow) = (\<not> allow)"
| "keeps_identity _ = True"

lemma lifecycle_identity:
  "keeps_identity (Lifecycle l) \<Longrightarrow> identity_part (snd (lifecycle_apply l m)) = identity_part m"
  by (cases l) (simp_all add: identity_part_def finish_transition_def begin_ending_def enter_status_def finalize_def Let_def)

lemma harness_next:
  "harness m \<noteq> [] \<Longrightarrow> harness (snd (apply_mutation c alpha i m)) = harness m"
proof (cases "wrote_work (apply_mutation c alpha i m)")
  case True
  assume "harness m \<noteq> []"
  show ?thesis
  proof (cases i)
    case (Peon x t p h pol)
    have stages [simp]: "harness (reconcile_prompt b pol t n) = harness n" "harness (infer_status b x pol n) = harness n"
      "harness (infer_work b x n) = harness n" "harness (infer_prompt b x n) = harness n"
      "harness (infer_summary b h n) = harness n" "harness (stamp_inference w a b x t p n) = harness n" for b w a n
      by (auto simp: infer_work_def infer_summary_def reconcile_prompt_def infer_status_def infer_prompt_def no_prompt_def
          stamp_inference_def apply_provider_def Let_def split: option.split)
    have diag: "harness (infer_diagnostics b x p n) = harness n" if "harness n \<noteq> []" for b n
      using that by (simp add: infer_diagnostics_def split: option.split)
    show ?thesis
      using \<open>harness m \<noteq> []\<close> Peon by (simp add: case_prod_beta apply_peon_def merge_inference_def Let_def diag)
  next
    case (Lifecycle l)
    then show ?thesis using True wrote_work_lifecycle by blast
  qed (use True in \<open>simp_all split: if_split_asm\<close>)
next
  case False
  then show ?thesis using unwritten_work [OF False] by (simp add: work_part_def)
qed

definition codex_bound :: "string \<Rightarrow> f64 \<Rightarrow> session_metadata \<Rightarrow> bool" where
  "codex_bound root conf m \<longleftrightarrow> harness m = ''codex'' \<and> native_id m = Some root \<and>
     (\<exists>x. harness_session_id_confidence m = Some x \<and> f64_le conf x)"

lemma codex_bound_identity:
  "identity_part n = identity_part m \<Longrightarrow> harness n = harness m \<Longrightarrow> codex_bound root conf n = codex_bound root conf m"
  by (simp add: identity_part_def codex_bound_def native_id_def)

lemma codex_bound_report:
  assumes "codex_bound root conf m"
  shows "codex_bound root conf (snd (apply_harness_report r t False m))"
proof (cases "valid_harness_session_report r")
  case True
  obtain x where x: "harness_session_id_confidence m = Some x" "f64_le conf x"
    and bound: "harness m = ''codex''" "native_id m = Some root"
    using assms by (auto simp: codex_bound_def)
  obtain res changed m1 where mr: "merge_report r t False m = (res, changed, m1)" by (metis prod_cases3)
  from mr have "codex_bound root conf m1"
  proof (cases rule: merge_report_cases)
    case 1
    then show ?thesis using assms by simp
  next
    case (2 mem)
    then show ?thesis using assms by (simp add: codex_bound_def native_id_def)
  next
    case 3
    have "report_session_id r = root" using 3(4) bound by simp
    moreover have "f64_le conf (report_confidence r)"
      using 3(3) x bound True by (auto simp: valid_harness_session_report_def f64_le_def f64_lt_def)
    ultimately show ?thesis
      using 3(2) bound by (simp add: codex_bound_def native_id_def remember_report_def Let_def)
  qed
  then show ?thesis using mr True by (simp add: apply_harness_report_def)
qed (use assms in \<open>simp add: apply_harness_report_def\<close>)

lemma codex_bound_next:
  assumes "codex_bound root conf m" and "keeps_identity i"
  shows "codex_bound root conf (snd (apply_mutation c alpha i m))"
proof -
  have h: "harness (snd (apply_mutation c alpha i m)) = harness m"
    using assms(1) by (intro harness_next) (simp add: codex_bound_def)
  show ?thesis
  proof (cases i)
    case (HarnessReport r t a)
    then show ?thesis using assms codex_bound_report by simp
  next
    case (Lifecycle l)
    then have "identity_part (snd (apply_mutation c alpha i m)) = identity_part m"
      using assms(2) lifecycle_identity by (simp add: case_prod_beta)
    then show ?thesis using assms(1) h codex_bound_identity by blast
  qed (use assms(1) codex_bound_identity [OF _ h] in
      \<open>simp_all add: writer_identity peon_frames case_prod_beta\<close>)
qed

section \<open>Properties\<close>

text \<open>Concrete records and a clock that reads nothing, for the concrete runs.\<close>

definition sample_clock :: clock where
  "sample_clock = \<lparr>parse_rfc3339 = (\<lambda>_. None), to_rfc3339 = (\<lambda>_. ''t''), utc_now = 0, iso_now = ''t''\<rparr>"

definition user_blocked :: session_metadata where
  "user_blocked = blank_metadata\<lparr>observed_status := Some ''blocked'', attention := Some ''blocked'',
     provenance := blank_provenance\<lparr>attention_source := Some ''user''\<rparr>\<rparr>"

definition bound_codex :: session_metadata where
  "bound_codex = blank_metadata\<lparr>resume := Some (no_resume_memory\<lparr>harness_session_id := Some ''root''\<rparr>),
     harness_session_id_confidence := Some f_half\<rparr>"

text \<open>The mutation that wrote attention last in a run.\<close>

fun last_writer ::
  "(nat \<Rightarrow> bool) \<Rightarrow> (clock \<times> internal_mutation) list \<Rightarrow> session_metadata \<Rightarrow> internal_mutation option \<Rightarrow>
   internal_mutation option" where
  "last_writer alpha [] m w = w"
| "last_writer alpha ((c, i) # is) m w =
     last_writer alpha is (mut_next alpha (c, i) m)
       (if wrote_attention (apply_mutation c alpha i m) then Some i else w)"

lemma last_writer_snoc:
  "last_writer alpha (is @ [(c, i)]) m w =
     (if wrote_attention (apply_mutation c alpha i (fold (mut_next alpha) is m)) then Some i
      else last_writer alpha is m w)"
proof (induction "is" arbitrary: m w)
  case (Cons x "is")
  then show ?case by (cases x) simp
qed simp

lemma last_writer_native:
  assumes "observed_status (fold (mut_next alpha) is m) = Some ''waiting_for_input''"
    and "meta_attention_origin (fold (mut_next alpha) is m) = ''native_codex''"
  shows "case last_writer alpha is m None of
           None \<Rightarrow> attention_part (fold (mut_next alpha) is m) = attention_part m
         | Some i \<Rightarrow> \<exists>t. i = NativeShowWait t"
  using assms
proof (induction "is" rule: rev_induct)
  case (snoc x "is")
  obtain c i where x: "x = (c, i)" by (cases x)
  let ?n = "fold (mut_next alpha) is m"
  show ?case
  proof (cases "wrote_attention (apply_mutation c alpha i ?n)")
    case True
    then have "\<exists>t. i = NativeShowWait t" using not_native_after [OF True] snoc.prems x by auto
    then show ?thesis using True x by (simp add: last_writer_snoc)
  next
    case False
    have part: "attention_part (mut_next alpha x ?n) = attention_part ?n"
      using unwritten_attention [OF False] x by simp
    then have "observed_status ?n = Some ''waiting_for_input''" "meta_attention_origin ?n = ''native_codex''"
      using snoc.prems by (simp_all add: attention_part_def prompt_fields_def meta_attention_origin_def)
    from snoc.IH [OF this] part show ?thesis using False x by (simp add: last_writer_snoc split: option.splits)
  qed
qed simp

text \<open>
  C28: A mutation changes only what it reports. When it fails, or decides not to write, the
  record is unchanged to the last field; otherwise the attention tuple with its provenance changes
  only under the attention scope, the work fields with theirs only under the work scope, and the
  identity, creation time, workspace, directory, plan and worktree of the session never.
\<close>

theorem mutation_respects_scope:
  "case apply_mutation c alpha i m of
     (Inl e, m') \<Rightarrow> m' = m
   | (Inr d, m') \<Rightarrow>
       (case decided_scope d of
          None \<Rightarrow> m' = m
        | Some sc \<Rightarrow> (scope_attention sc \<or> attention_part m' = attention_part m) \<and>
                     (scope_work sc \<or> work_part m' = work_part m) \<and> origin_part m' = origin_part m)"
  using mutation_promise [of c alpha i m] by (simp add: keeps_promise_def)

text \<open>
  C27: Attention set by the user is not overridden. Over any run of internal mutations, at
  whatever times, none of which ends the session, the attention tuple and its provenance stay as
  the user left them and the user stays their source.
\<close>

theorem user_attention_final:
  assumes "meta_attention_source m = ''user''" and "list_all (\<lambda>(c, i). \<not> ends_session i) is"
  shows "attention_part (fold (mut_next alpha) is m) = attention_part m \<and>
         meta_attention_source (fold (mut_next alpha) is m) = ''user''"
  using assms
proof (induction "is" arbitrary: m)
  case (Cons x "is")
  obtain c i where x: "x = (c, i)" by (cases x)
  have step: "attention_part (mut_next alpha x m) = attention_part m \<and>
      meta_attention_source (mut_next alpha x m) = ''user''"
    using Cons.prems user_keeps [of m i c alpha] x by simp
  from Cons.IH [of "mut_next alpha x m"] step Cons.prems show ?case by simp
qed simp

theorem user_attention_final_witness:
  "meta_attention_source (fold (mut_next (\<lambda>_. True))
     [(sample_clock, NativeShowWait ''t1''), (sample_clock, HookTransition ''r'' HookStop ''t2'')] user_blocked) = ''user''"
  by (rule user_attention_final [THEN conjunct2]) (simp_all add: user_blocked_def meta_attention_source_def attention_source_or_def)

text \<open>
  A native clear undoes only a native wait. If, after any run of internal mutations, a
  native clear is accepted, then the last mutation of the run that wrote attention was a native
  show, or none wrote it and the attention tuple is still the one from before the run.
\<close>

theorem native_clear_undoes_native_show:
  assumes "fst (apply_native_clear_wait t (fold (mut_next alpha) is m))"
  shows "case last_writer alpha is m None of
           None \<Rightarrow> attention_part (fold (mut_next alpha) is m) = attention_part m
         | Some i \<Rightarrow> \<exists>at. i = NativeShowWait at"
  using last_writer_native clear_needs_native(1) [OF assms] by blast

theorem native_clear_undoes_native_show_witness:
  "fst (apply_native_clear_wait ''t2'' (fold (mut_next (\<lambda>_. True)) [(sample_clock, NativeShowWait ''t1'')] blank_metadata)) \<and>
   (case last_writer (\<lambda>_. True) [(sample_clock, NativeShowWait ''t1'')] blank_metadata None of
      None \<Rightarrow> False | Some i \<Rightarrow> \<exists>at. i = NativeShowWait at)"
proof -
  have shown: "fst (apply_native_show_wait ''t1'' blank_metadata)"
    by (simp add: apply_native_show_wait_def blank_metadata_def blank_provenance_def meta_attention_source_def
      attention_source_or_def)
  have clear: "fst (apply_native_clear_wait ''t2'' (fold (mut_next (\<lambda>_. True)) [(sample_clock, NativeShowWait ''t1'')] blank_metadata))"
    by (simp add: apply_native_clear_wait_def apply_native_show_wait_def own_attention_def blank_metadata_def
      blank_provenance_def meta_attention_source_def meta_attention_origin_def meta_attention_confidence_def
      attention_source_or_def)
  from native_clear_undoes_native_show [OF this] shown clear show ?thesis by (simp split: option.splits)
qed

text \<open>
  The native identity of a Codex session is stable. Over any run of internal mutations
  whose reports carry no permission to replace it and whose transitions bring no new resume memory,
  the recorded identity stays and its recorded confidence never falls.
\<close>

theorem codex_identity_stable:
  assumes "codex_bound root conf m" and "list_all (\<lambda>(c, i). keeps_identity i) is"
  shows "codex_bound root conf (fold (mut_next alpha) is m)"
  using assms
proof (induction "is" arbitrary: m)
  case (Cons x "is")
  obtain c i where x: "x = (c, i)" by (cases x)
  have "codex_bound root conf (mut_next alpha x m)"
    using Cons.prems codex_bound_next [of root conf m i c alpha] x by simp
  from Cons.IH [OF this] Cons.prems show ?case by simp
qed simp

theorem codex_identity_stable_witness:
  "codex_bound ''root'' f_half (fold (mut_next (\<lambda>_. True))
     [(sample_clock, HarnessReport \<lparr>report_session_id = ''other'', report_source = ''peon'', report_confidence = f_one\<rparr> ''t1'' False),
      (sample_clock, UserTitle (Some ''title''))] bound_codex)"
  by (rule codex_identity_stable) (simp_all add: bound_codex_def codex_bound_def native_id_def f64_le_def blank_metadata_def)



text \<open>What holds of the end of a session at any time: the status it has or will have is one that was named.\<close>

definition end_inv :: "string set \<Rightarrow> session_metadata \<Rightarrow> bool" where
  "end_inv names m \<longleftrightarrow>
     (\<forall>p. pending_terminal_status m = Some p \<longrightarrow> p \<in> names) \<and>
     (lifecycle_phase m = ''ended'' \<longrightarrow>
        status m \<in> names \<and> lifecycle m = ''dead'' \<and> connectivity m = ''offline'' \<and> terminal_outcome m = Some (status m) \<and>
        pending_terminal_status m = None)"

definition ends_with :: "string \<Rightarrow> session_metadata \<Rightarrow> bool" where
  "ends_with st m \<longleftrightarrow>
     (lifecycle_phase m = ''ending'' \<and> pending_terminal_status m = Some st) \<or> (lifecycle_phase m = ''ended'' \<and> status m = st)"


lemma finish_end [simp]:
  "end_inv names (finish_transition t r f m) = end_inv names m" "ends_with st (finish_transition t r f m) = ends_with st m"
  by (simp_all add: finish_transition_def end_inv_def ends_with_def Let_def)










text \<open>
  Whatever internal mutations arrive, a record within its bounds stays within them: the
  work phase is a known one, the label has at most a hundred characters, the metadata confidence is
  finite and the confidence of the native identity lies between zero and one.
\<close>

theorem record_stays_bounded: "mut_inv m \<Longrightarrow> mut_inv (fold (mut_next alpha) is m)"
  using mu.run_inv [of m alpha "is"] by (simp add: mu.run_def)

theorem record_stays_bounded_witness:
  "mut_inv (fold (mut_next (\<lambda>_. True)) [(sample_clock, UserTitle (Some ''a title'')), (sample_clock, NativeShowWait ''t'')] blank_metadata)"
  by (rule record_stays_bounded)
    (simp add: mut_inv_def blank_metadata_def known_work_phase_def char_count_def)

end
