(* ===== verification/Metadata_Store.thy ===== *)
theory Metadata_Store
  imports Metadata_Mutations Decimal
begin

text \<open>
  The durable store of session records: revisions and transactions of
  \<^verbatim>\<open>metadata/session_transactions.rs\<close> and the owned writes of \<^verbatim>\<open>metadata.rs\<close>. A record is a file
  whose bytes are replaced as a whole by a rename of a staged file; every operation runs under the
  write lock of its session, so it is one step. What the file system answers to each call is an
  argument of the operation, so that every failure is a behaviour of the model; the JSON codec of
  serde and the clock are parameters.
\<close>

section \<open>Data\<close>

text \<open>A revision travels as canonical decimal text.\<close>

definition revision_text :: "u64 \<Rightarrow> string" where
  "revision_text r = show_nat (unat r)"

definition revision_of_text :: "string \<Rightarrow> u64 option" where
  "revision_of_text v =
     (case parse_uint (2 ^ 64) v of
        None \<Rightarrow> None
      | Some n \<Rightarrow> if show_nat n \<noteq> v then None else Some (of_nat n))"

definition next_revision :: "u64 \<Rightarrow> io_error + u64" where
  "next_revision r = (case checked_add r 1 of None \<Rightarrow> Inl (InvalidData ''metadata revision exhausted'') | Some n \<Rightarrow> Inr n)"

record revisioned_session =
  rec_metadata :: session_metadata
  rec_revision :: u64

datatype tx_error = Conflict | Io io_error

record session_write_token =
  token_session :: string
  token_write :: attention_write_token

text \<open>
  The files of the sessions directory by session, the staged replacements beside them, the
  quarantined ones, and the owners kept in memory; an owner is allocated when a session is first
  written.
\<close>

record store =
  records :: "string \<rightharpoonup> string"
  stages :: "string \<rightharpoonup> string"
  corrupt :: "string \<rightharpoonup> string"
  session_writes :: "string \<rightharpoonup> attention_owner"
  owner_allocations :: nat

text \<open>What the file system answers during one operation; \<open>torn\<close> is what a failed write leaves.\<close>

record disk =
  read_error :: "io_error option"
  create_dir_error :: "io_error option"
  write_error :: "io_error option"
  rename_error :: "io_error option"
  remove_error :: "io_error option"
  remove_corrupt_error :: "io_error option"
  torn :: string
  modified :: "int option"

record record_codec =
  to_json :: "revisioned_session \<Rightarrow> string option"
  from_json :: "string \<Rightarrow> revisioned_session option"

section \<open>Reading\<close>

definition hydrated :: "clock \<Rightarrow> int option \<Rightarrow> session_metadata \<Rightarrow> session_metadata" where
  "hydrated clk modified_at m =
     m\<lparr>provenance := hydrate_legacy clk (metadata_source m) (metadata_confidence m) modified_at (provenance m)\<rparr>"

definition read_view :: "clock \<Rightarrow> int option \<Rightarrow> session_metadata \<Rightarrow> session_metadata" where
  "read_view clk modified_at m = hydrated clk modified_at (normalize_session_metadata m)"

definition try_read_revisioned_session ::
  "record_codec \<Rightarrow> clock \<Rightarrow> disk \<Rightarrow> string \<Rightarrow> store \<Rightarrow> io_error + revisioned_session option" where
  "try_read_revisioned_session c clk d i st =
     (case read_error d of
        Some (NotFound _) \<Rightarrow> Inr None
      | Some e \<Rightarrow> Inl e
      | None \<Rightarrow>
          (case records st i of
             None \<Rightarrow> Inr None
           | Some bytes \<Rightarrow>
               (case from_json c bytes of
                  None \<Rightarrow> Inl (InvalidData ''malformed session record'')
                | Some r \<Rightarrow>
                    (if sid (rec_metadata r) \<noteq> i then Inl (InvalidData ''session identity mismatch'')
                     else Inr (Some (r\<lparr>rec_metadata := read_view clk (modified d) (rec_metadata r)\<rparr>))))))"

definition require_record ::
  "record_codec \<Rightarrow> clock \<Rightarrow> disk \<Rightarrow> string \<Rightarrow> store \<Rightarrow> io_error + revisioned_session" where
  "require_record c clk d i st =
     and_then (try_read_revisioned_session c clk d i st)
       (\<lambda>r. case r of None \<Rightarrow> Inl (NotFound ''session record missing'') | Some x \<Rightarrow> Inr x)"

section \<open>Committing\<close>

definition accept_session_write :: "string \<Rightarrow> store \<Rightarrow> session_write_token option \<times> store" where
  "accept_session_write i st =
     (let (owner, n) = (case session_writes st i of
                          None \<Rightarrow> (new_owner (owner_allocations st), Suc (owner_allocations st))
                        | Some w \<Rightarrow> (w, owner_allocations st));
          (token, owner1) = accepted_write owner
      in (map_option (\<lambda>t. \<lparr>token_session = i, token_write = t\<rparr>) token,
          st\<lparr>session_writes := (session_writes st)(i \<mapsto> owner1), owner_allocations := n\<rparr>))"

definition stamp_scope :: "clock \<Rightarrow> write_scope \<Rightarrow> session_metadata \<Rightarrow> session_metadata" where
  "stamp_scope clk sc m =
     (let m1 = (if scope_attention sc
                then m\<lparr>provenance := (provenance m)\<lparr>attention_updated_at := Some (iso_now clk)\<rparr>\<rparr> else m)
      in if scope_work sc
         then m1\<lparr>provenance := (provenance m1)\<lparr>work_metadata_updated_at := Some (iso_now clk)\<rparr>\<rparr> else m1)"

text \<open>\<open>fs::write\<close> of the staged file.\<close>

definition write_stage :: "disk \<Rightarrow> string \<Rightarrow> string \<Rightarrow> store \<Rightarrow> (io_error + unit) \<times> store" where
  "write_stage d i json st =
     (case write_error d of
        Some e \<Rightarrow> (Inl e, st\<lparr>stages := (stages st)(i \<mapsto> torn d)\<rparr>)
      | None \<Rightarrow> (Inr (), st\<lparr>stages := (stages st)(i \<mapsto> json)\<rparr>))"

definition remove_stage :: "disk \<Rightarrow> string \<Rightarrow> store \<Rightarrow> store" where
  "remove_stage d i st = (if remove_error d = None then st\<lparr>stages := (stages st)(i := None)\<rparr> else st)"

text \<open>\<open>fs::rename\<close> of the staged file over the record.\<close>

definition rename_stage :: "disk \<Rightarrow> string \<Rightarrow> string \<Rightarrow> store \<Rightarrow> (io_error + unit) \<times> store" where
  "rename_stage d i json st =
     (case rename_error d of
        Some e \<Rightarrow> (Inl e, st)
      | None \<Rightarrow> (Inr (), st\<lparr>records := (records st)(i \<mapsto> json), stages := (stages st)(i := None)\<rparr>))"

definition commit_before_replace ::
  "record_codec \<Rightarrow> clock \<Rightarrow> disk \<Rightarrow> string \<Rightarrow> revisioned_session \<Rightarrow> write_scope \<Rightarrow> u64 \<Rightarrow>
   (session_metadata \<Rightarrow> io_error + unit) \<Rightarrow> store \<Rightarrow> (io_error + revisioned_session) \<times> store" where
  "commit_before_replace c clk d i r sc nxt before_replace st =
     (if sid (rec_metadata r) \<noteq> i then (Inl (InvalidInput ''session identity changed''), st)
      else
        (let r1 = \<lparr>rec_metadata = stamp_scope clk sc (rec_metadata r), rec_revision = nxt\<rparr> in
         case to_json c r1 of
           None \<Rightarrow> (Inl (InvalidData ''session record does not serialize''), st)
         | Some json \<Rightarrow>
             (case write_stage d i json st of
                (Inl e, st1) \<Rightarrow> (Inl e, st1)
              | (Inr _, st1) \<Rightarrow>
                  (case before_replace (rec_metadata r1) of
                     Inl e \<Rightarrow> (Inl e, remove_stage d i st1)
                   | Inr _ \<Rightarrow>
                       (case rename_stage d i json st1 of
                          (Inl e, st2) \<Rightarrow> (Inl e, st2)
                        | (Inr _, st2) \<Rightarrow>
                            (Inr r1, if scope_attention sc then snd (accept_session_write i st2) else st2))))))"

definition commit_with_revision ::
  "record_codec \<Rightarrow> clock \<Rightarrow> disk \<Rightarrow> string \<Rightarrow> revisioned_session \<Rightarrow> write_scope \<Rightarrow> u64 \<Rightarrow> store \<Rightarrow>
   (io_error + revisioned_session) \<times> store" where
  "commit_with_revision c clk d i r sc nxt st = commit_before_replace c clk d i r sc nxt (\<lambda>_. Inr ()) st"

definition commit_session_record ::
  "record_codec \<Rightarrow> clock \<Rightarrow> disk \<Rightarrow> string \<Rightarrow> revisioned_session \<Rightarrow> write_scope \<Rightarrow> store \<Rightarrow>
   (io_error + revisioned_session) \<times> store" where
  "commit_session_record c clk d i r sc st =
     (case next_revision (rec_revision r) of
        Inl e \<Rightarrow> (Inl e, st)
      | Inr nxt \<Rightarrow> commit_with_revision c clk d i r sc nxt st)"

section \<open>Transactions\<close>

type_synonym 'a mutate = "session_metadata \<Rightarrow> (io_error + 'a) \<times> session_metadata"

definition lift_io :: "(io_error + 'a) \<times> store \<Rightarrow> (tx_error + 'a) \<times> store" where
  "lift_io r = (case r of (Inl e, st) \<Rightarrow> (Inl (Io e), st) | (Inr x, st) \<Rightarrow> (Inr x, st))"

definition update_session_locked ::
  "record_codec \<Rightarrow> clock \<Rightarrow> disk \<Rightarrow> string \<Rightarrow> u64 option \<Rightarrow> write_scope \<Rightarrow> unit mutate \<Rightarrow> store \<Rightarrow>
   (tx_error + revisioned_session) \<times> store" where
  "update_session_locked c clk d i expected sc mutate st =
     (case require_record c clk d i st of
        Inl e \<Rightarrow> (Inl (Io e), st)
      | Inr r \<Rightarrow>
          (if is_some_and (\<lambda>x. rec_revision r \<noteq> x) expected then (Inl Conflict, st)
           else
             (case next_revision (rec_revision r) of
                Inl e \<Rightarrow> (Inl (Io e), st)
              | Inr nxt \<Rightarrow>
                  (case mutate (rec_metadata r) of
                     (Inl e, _) \<Rightarrow> (Inl (Io e), st)
                   | (Inr _, m) \<Rightarrow>
                       (if sid m \<noteq> i then (Inl (Io (InvalidInput ''session identity changed'')), st)
                        else lift_io (commit_with_revision c clk d i (r\<lparr>rec_metadata := m\<rparr>) sc nxt st))))))"

definition try_update_session_scoped ::
  "record_codec \<Rightarrow> clock \<Rightarrow> disk \<Rightarrow> string \<Rightarrow> u64 \<Rightarrow> write_scope \<Rightarrow> unit mutate \<Rightarrow> store \<Rightarrow>
   (tx_error + revisioned_session) \<times> store" where
  "try_update_session_scoped c clk d i expected sc mutate st =
     update_session_locked c clk d i (Some expected) sc mutate st"

definition try_update_session ::
  "record_codec \<Rightarrow> clock \<Rightarrow> disk \<Rightarrow> string \<Rightarrow> u64 \<Rightarrow> unit mutate \<Rightarrow> store \<Rightarrow>
   (tx_error + revisioned_session) \<times> store" where
  "try_update_session c clk d i expected mutate st =
     try_update_session_scoped c clk d i expected SCOPE_ALL mutate st"

definition mutate_session ::
  "record_codec \<Rightarrow> clock \<Rightarrow> disk \<Rightarrow> string \<Rightarrow> write_scope \<Rightarrow> unit mutate \<Rightarrow> store \<Rightarrow>
   (tx_error + revisioned_session) \<times> store" where
  "mutate_session c clk d i sc mutate st = update_session_locked c clk d i None sc mutate st"

text \<open>The three conditional forms share the read, the decision and the commit.\<close>

definition mutate_session_decided ::
  "record_codec \<Rightarrow> clock \<Rightarrow> disk \<Rightarrow> string \<Rightarrow> write_scope option mutate \<Rightarrow> store \<Rightarrow>
   (tx_error + revisioned_session option) \<times> store" where
  "mutate_session_decided c clk d i mutate st =
     (case require_record c clk d i st of
        Inl e \<Rightarrow> (Inl (Io e), st)
      | Inr r \<Rightarrow>
          (case mutate (rec_metadata r) of
             (Inl e, _) \<Rightarrow> (Inl (Io e), st)
           | (Inr None, _) \<Rightarrow> (Inr None, st)
           | (Inr (Some sc), m) \<Rightarrow>
               (case lift_io (commit_session_record c clk d i (r\<lparr>rec_metadata := m\<rparr>) sc st) of
                  (Inl e, st1) \<Rightarrow> (Inl e, st1)
                | (Inr x, st1) \<Rightarrow> (Inr (Some x), st1))))"

definition mutate_session_optional ::
  "record_codec \<Rightarrow> clock \<Rightarrow> disk \<Rightarrow> string \<Rightarrow> write_scope \<Rightarrow> bool mutate \<Rightarrow> store \<Rightarrow>
   (tx_error + revisioned_session option) \<times> store" where
  "mutate_session_optional c clk d i sc mutate st =
     (case require_record c clk d i st of
        Inl e \<Rightarrow> (Inl (Io e), st)
      | Inr r \<Rightarrow>
          (case mutate (rec_metadata r) of
             (Inl e, _) \<Rightarrow> (Inl (Io e), st)
           | (Inr accepted, m) \<Rightarrow>
               (if \<not> accepted then (Inr None, st)
                else (case lift_io (commit_session_record c clk d i (r\<lparr>rec_metadata := m\<rparr>) sc st) of
                        (Inl e, st1) \<Rightarrow> (Inl e, st1)
                      | (Inr x, st1) \<Rightarrow> (Inr (Some x), st1)))))"

definition mutate_session_optional_before_replace ::
  "record_codec \<Rightarrow> clock \<Rightarrow> disk \<Rightarrow> string \<Rightarrow> write_scope \<Rightarrow> bool mutate \<Rightarrow>
   (session_metadata \<Rightarrow> io_error + unit) \<Rightarrow> store \<Rightarrow> (tx_error + revisioned_session option) \<times> store" where
  "mutate_session_optional_before_replace c clk d i sc mutate before_replace st =
     (case require_record c clk d i st of
        Inl e \<Rightarrow> (Inl (Io e), st)
      | Inr r \<Rightarrow>
          (case mutate (rec_metadata r) of
             (Inl e, _) \<Rightarrow> (Inl (Io e), st)
           | (Inr accepted, m) \<Rightarrow>
               (if \<not> accepted then (Inr None, st)
                else
                  (case next_revision (rec_revision r) of
                     Inl e \<Rightarrow> (Inl (Io e), st)
                   | Inr nxt \<Rightarrow>
                       (case lift_io (commit_before_replace c clk d i (r\<lparr>rec_metadata := m\<rparr>) sc nxt before_replace st) of
                          (Inl e, st1) \<Rightarrow> (Inl e, st1)
                        | (Inr x, st1) \<Rightarrow> (Inr (Some x), st1))))))"

section \<open>Owned writes\<close>

text \<open>\<open>write_atomic\<close>: stage, then rename.\<close>

definition write_atomic :: "disk \<Rightarrow> string \<Rightarrow> string \<Rightarrow> store \<Rightarrow> (io_error + unit) \<times> store" where
  "write_atomic d i json st =
     (case write_stage d i json st of (Inl e, st1) \<Rightarrow> (Inl e, st1) | (Inr _, st1) \<Rightarrow> rename_stage d i json st1)"

definition token_owned :: "string \<Rightarrow> session_write_token \<Rightarrow> store \<Rightarrow> bool" where
  "token_owned i token st \<longleftrightarrow> token_session token = i \<and> is_some_and (\<lambda>w. owns w (token_write token)) (session_writes st i)"

definition read_owned_attention ::
  "record_codec \<Rightarrow> clock \<Rightarrow> disk \<Rightarrow> string \<Rightarrow> store \<Rightarrow> io_error + (session_metadata \<times> session_write_token) option" where
  "read_owned_attention c clk d i st =
     and_then (try_read_revisioned_session c clk d i st) (\<lambda>r. Inr (case r of
        None \<Rightarrow> None
      | Some x \<Rightarrow> map_option (\<lambda>t. (rec_metadata x, \<lparr>token_session = i, token_write = t\<rparr>))
                    (Option.bind (session_writes st i) owner_snapshot)))"

definition attention_stamped :: "clock \<Rightarrow> session_metadata \<Rightarrow> session_metadata" where
  "attention_stamped clk m = m\<lparr>provenance := (provenance m)\<lparr>attention_updated_at := Some (iso_now clk)\<rparr>\<rparr>"

definition mutate_owned_attention_inner ::
  "record_codec \<Rightarrow> clock \<Rightarrow> disk \<Rightarrow> string \<Rightarrow> session_write_token option \<Rightarrow> bool mutate \<Rightarrow> store \<Rightarrow>
   (io_error + (session_metadata \<times> session_write_token option) option) \<times> store" where
  "mutate_owned_attention_inner c clk d i expected mutate st =
     (if is_some_and (\<lambda>t. \<not> token_owned i t st) expected then (Inr None, st)
      else
        (case require_record c clk d i st of
           Inl e \<Rightarrow> (Inl e, st)
         | Inr r \<Rightarrow>
             (case mutate (rec_metadata r) of
                (Inl e, _) \<Rightarrow> (Inl e, st)
              | (Inr accepted, m) \<Rightarrow>
                  (if \<not> accepted then (Inr None, st)
                   else if sid m \<noteq> i then (Inl (InvalidInput ''session identity changed''), st)
                   else
                     (case next_revision (rec_revision r) of
                        Inl e \<Rightarrow> (Inl e, st)
                      | Inr nxt \<Rightarrow>
                          (let latest = \<lparr>rec_metadata = attention_stamped clk m, rec_revision = nxt\<rparr> in
                           case to_json c latest of
                             None \<Rightarrow> (Inl (InvalidData ''session record does not serialize''), st)
                           | Some json \<Rightarrow>
                               (case write_atomic d i json st of
                                  (Inl e, st1) \<Rightarrow> (Inl e, st1)
                                | (Inr _, st1) \<Rightarrow>
                                    (let (token, st2) = accept_session_write i st1
                                     in (Inr (Some (rec_metadata latest, token)), st2)))))))))"

definition try_mutate_session_owned ::
  "record_codec \<Rightarrow> clock \<Rightarrow> disk \<Rightarrow> string \<Rightarrow> bool mutate \<Rightarrow> store \<Rightarrow>
   (io_error + session_write_token option) \<times> store" where
  "try_mutate_session_owned c clk d i mutate st =
     (case mutate_owned_attention_inner c clk d i None mutate st of
        (Inl e, st1) \<Rightarrow> (Inl e, st1)
      | (Inr r, st1) \<Rightarrow> (Inr (Option.bind r snd), st1))"

definition mutate_owned_attention ::
  "record_codec \<Rightarrow> clock \<Rightarrow> disk \<Rightarrow> string \<Rightarrow> session_write_token \<Rightarrow> bool mutate \<Rightarrow> store \<Rightarrow>
   (io_error + (session_metadata \<times> session_write_token option) option) \<times> store" where
  "mutate_owned_attention c clk d i expected mutate st =
     mutate_owned_attention_inner c clk d i (Some expected) mutate st"

definition stale_snapshot :: "session_metadata \<Rightarrow> session_metadata \<Rightarrow> bool" where
  "stale_snapshot m latest \<longleftrightarrow>
     is_some_and (\<lambda>x. attention_source (provenance latest) \<noteq> Some x) (attention_source (provenance m)) \<or>
     is_some_and (\<lambda>x. attention_origin (provenance latest) \<noteq> Some x) (attention_origin (provenance m)) \<or>
     is_some_and (\<lambda>x. \<not> opt_f64_eq (attention_confidence (provenance latest)) (Some x)) (attention_confidence (provenance m)) \<or>
     (meta_attention_origin m = ''native_codex'' \<and> lifecycle latest \<noteq> ''alive'')"

definition copy_attention :: "clock \<Rightarrow> session_metadata \<Rightarrow> session_metadata \<Rightarrow> session_metadata" where
  "copy_attention clk m latest = attention_stamped clk
     (latest\<lparr>observed_status := observed_status m, attention := attention m, needs_user_input := needs_user_input m,
        detected_question := detected_question m, suggested_options := suggested_options m,
        last_activity := last_activity m\<rparr>)"

definition try_write_session_if_owned_when ::
  "record_codec \<Rightarrow> clock \<Rightarrow> disk \<Rightarrow> session_metadata \<Rightarrow> session_write_token \<Rightarrow> bool \<Rightarrow> store \<Rightarrow>
   (io_error + bool) \<times> store" where
  "try_write_session_if_owned_when c clk d m token ready st =
     (let i = sid m in
      if \<not> token_owned i token st then (Inr False, st)
      else
        (case try_read_revisioned_session c clk d i st of
           Inl e \<Rightarrow> (Inl e, st)
         | Inr None \<Rightarrow> (Inr False, st)
         | Inr (Some latest) \<Rightarrow>
             (if stale_snapshot m (rec_metadata latest) then (Inr False, st)
              else
                (case next_revision (rec_revision latest) of
                   Inl e \<Rightarrow> (Inl e, st)
                 | Inr nxt \<Rightarrow>
                     (case to_json c \<lparr>rec_metadata = copy_attention clk m (rec_metadata latest), rec_revision = nxt\<rparr> of
                        None \<Rightarrow> (Inl (InvalidData ''session record does not serialize''), st)
                      | Some json \<Rightarrow>
                          (case write_stage d i json st of
                             (Inl e, st1) \<Rightarrow> (Inl e, st1)
                           | (Inr _, st1) \<Rightarrow>
                               (if \<not> ready
                                then (case remove_error d of
                                        Some e \<Rightarrow> (Inl e, st1)
                                      | None \<Rightarrow> (Inr False, remove_stage d i st1))
                                else
                                  (case rename_stage d i json st1 of
                                     (Inl e, st2) \<Rightarrow> (Inl e, st2)
                                   | (Inr _, st2) \<Rightarrow> (Inr True, snd (accept_session_write i st2))))))))))"

section \<open>Whole-record writes and deletion\<close>

definition prepare_session_replacement ::
  "record_codec \<Rightarrow> clock \<Rightarrow> disk \<Rightarrow> session_metadata \<Rightarrow> store \<Rightarrow> io_error + string" where
  "prepare_session_replacement c clk d m st =
     and_then (try_read_revisioned_session c clk d (sid m) st) (\<lambda>current.
       let replacement = (case current of
                            None \<Rightarrow> m
                          | Some r \<Rightarrow> m\<lparr>worktree_binding := worktree_binding (rec_metadata r)\<rparr>)
       in and_then (next_revision (case current of None \<Rightarrow> 0 | Some r \<Rightarrow> rec_revision r)) (\<lambda>nxt.
            case to_json c \<lparr>rec_metadata = replacement, rec_revision = nxt\<rparr> of
              None \<Rightarrow> Inl (InvalidData ''session record does not serialize'')
            | Some json \<Rightarrow> Inr json))"

definition write_session_file ::
  "record_codec \<Rightarrow> clock \<Rightarrow> disk \<Rightarrow> session_metadata \<Rightarrow> store \<Rightarrow> (io_error + unit) \<times> store" where
  "write_session_file c clk d m st =
     (case create_dir_error d of
        Some e \<Rightarrow> (Inl e, st)
      | None \<Rightarrow>
          (case prepare_session_replacement c clk d m st of
             Inl e \<Rightarrow> (Inl e, st)
           | Inr json \<Rightarrow> write_atomic d (sid m) json st))"

definition try_write_session_owned ::
  "record_codec \<Rightarrow> clock \<Rightarrow> disk \<Rightarrow> session_metadata \<Rightarrow> store \<Rightarrow> (io_error + session_write_token option) \<times> store" where
  "try_write_session_owned c clk d m st =
     (case write_session_file c clk d m st of
        (Inl e, st1) \<Rightarrow> (Inl e, st1)
      | (Inr _, st1) \<Rightarrow> (let (token, st2) = accept_session_write (sid m) st1 in (Inr token, st2)))"

definition try_write_session ::
  "record_codec \<Rightarrow> clock \<Rightarrow> disk \<Rightarrow> session_metadata \<Rightarrow> store \<Rightarrow> (io_error + unit) \<times> store" where
  "try_write_session c clk d m st =
     (case try_write_session_owned c clk d m st of (Inl e, st1) \<Rightarrow> (Inl e, st1) | (Inr _, st1) \<Rightarrow> (Inr (), st1))"

fun removal_error :: "io_error option \<Rightarrow> io_error option" where
  "removal_error (Some (NotFound _)) = None"
| "removal_error r = r"

definition delete_session :: "disk \<Rightarrow> string \<Rightarrow> store \<Rightarrow> (io_error + unit) \<times> store" where
  "delete_session d i st =
     (let st1 = (case session_writes st i of
                   None \<Rightarrow> st
                 | Some w \<Rightarrow> st\<lparr>session_writes := (session_writes st)(i \<mapsto> snd (accepted_write w))\<rparr>)
      in case removal_error (remove_error d) of
           Some e \<Rightarrow> (Inl e, st1)
         | None \<Rightarrow>
             (let st2 = st1\<lparr>records := (records st1)(i := None)\<rparr> in
              case removal_error (remove_corrupt_error d) of
                Some e \<Rightarrow> (Inl e, st2)
              | None \<Rightarrow> (Inr (), st2\<lparr>corrupt := (corrupt st2)(i := None),
                                    session_writes := (session_writes st2)(i := None)\<rparr>)))"

section \<open>Writers built on the transactions\<close>

datatype attention_merge_result = SignalAccepted | SignalIgnored | SignalNotFound | SignalPersistFailed

definition persist_provider_context ::
  "record_codec \<Rightarrow> clock \<Rightarrow> disk \<Rightarrow> string \<Rightarrow> provider_observation \<Rightarrow> store \<Rightarrow> store" where
  "persist_provider_context c clk d i p st =
     snd (mutate_session c clk d i SCOPE_NONE (\<lambda>m. (Inr (), apply_provider p m)) st)"

definition prompt_status :: "string \<Rightarrow> bool mutate" where
  "prompt_status st m =
     (if meta_attention_source m = ''user'' then (Inr False, m)
      else
        (let m1 = m\<lparr>observed_status := Some st\<rparr>;
             m2 = (if lifecycle m1 = ''alive'' then m1\<lparr>attention := canonical_attention (Some st)\<rparr> else m1)
         in (Inr True, (no_prompt m2)\<lparr>provenance := (provenance m2)\<lparr>attention_source := Some ''process'',
               attention_confidence := Some f_one, attention_origin := Some ''process''\<rparr>\<rparr>)))"

definition merge_prompt_authority_status_record ::
  "record_codec \<Rightarrow> clock \<Rightarrow> disk \<Rightarrow> string \<Rightarrow> string \<Rightarrow> store \<Rightarrow>
   (attention_merge_result + revisioned_session option) \<times> store" where
  "merge_prompt_authority_status_record c clk d i st s =
     (case mutate_session_optional c clk d i SCOPE_ATTENTION (prompt_status st) s of
        (Inr r, s1) \<Rightarrow> (Inr r, s1)
      | (Inl (Io (NotFound _)), s1) \<Rightarrow> (Inl SignalNotFound, s1)
      | (Inl _, s1) \<Rightarrow> (Inl SignalPersistFailed, s1))"

definition clear_prompt_tuple :: "bool mutate" where
  "clear_prompt_tuple m =
     (if meta_attention_source m = ''user'' then (Inr False, m)
      else (Inr True, (no_prompt (m\<lparr>observed_status := None, attention := None\<rparr>))
              \<lparr>provenance := (provenance m)\<lparr>attention_source := Some ''unknown'', attention_confidence := None,
                 attention_origin := Some ''process''\<rparr>\<rparr>))"

definition clear_prompt_authority_tuple ::
  "record_codec \<Rightarrow> clock \<Rightarrow> disk \<Rightarrow> string \<Rightarrow> store \<Rightarrow> attention_merge_result \<times> store" where
  "clear_prompt_authority_tuple c clk d i st =
     (case mutate_session_optional c clk d i SCOPE_ATTENTION clear_prompt_tuple st of
        (Inr _, st1) \<Rightarrow> (SignalAccepted, st1)
      | (Inl (Io (NotFound _)), st1) \<Rightarrow> (SignalNotFound, st1)
      | (Inl _, st1) \<Rightarrow> (SignalPersistFailed, st1))"

definition retire_native_id :: "bool mutate" where
  "retire_native_id m =
     (case resume m of
        None \<Rightarrow> (Inr False, m)
      | Some mem \<Rightarrow>
          (if harness_session_id mem = None then (Inr False, m)
           else (Inr True, m\<lparr>resume := Some (mem\<lparr>harness_session_id := None\<rparr>)\<rparr>)))"

definition retire_prompt_authority_native_id ::
  "record_codec \<Rightarrow> clock \<Rightarrow> disk \<Rightarrow> string \<Rightarrow> store \<Rightarrow> attention_merge_result \<times> store" where
  "retire_prompt_authority_native_id c clk d i st =
     (case mutate_session_optional c clk d i SCOPE_NONE retire_native_id st of
        (Inr (Some _), st1) \<Rightarrow> (SignalAccepted, st1)
      | (Inr None, st1) \<Rightarrow> (SignalIgnored, st1)
      | (Inl (Io (NotFound _)), st1) \<Rightarrow> (SignalNotFound, st1)
      | (Inl _, st1) \<Rightarrow> (SignalPersistFailed, st1))"

section \<open>Revision text\<close>

text \<open>
  Revisions travel as text without loss: what is printed for a revision parses back to it,
  and a text that parses is exactly the printed form of its revision, so that two different texts
  never denote one revision; a revision that cannot be advanced is an error, never a wrap-around.
\<close>

theorem revision_text_round_trip:
  "revision_of_text (revision_text r) = Some r \<and>
   (revision_of_text v = Some r \<longleftrightarrow> v = revision_text r) \<and>
   (case next_revision r of
      Inl e \<Rightarrow> e = InvalidData ''metadata revision exhausted'' \<and> unat r = 2 ^ 64 - 1
    | Inr n \<Rightarrow> unat n = unat r + 1)"
proof -
  have fits: "unat r < 2 ^ 64" using unsigned_less [of r] by simp
  then have prints: "revision_of_text (revision_text r) = Some r"
    by (simp add: revision_of_text_def revision_text_def parse_show)
  have "v = revision_text r" if parsed: "revision_of_text v = Some r"
  proof -
    obtain n where n: "parse_uint (2 ^ 64) v = Some n" "show_nat n = v" "of_nat n = r"
      using parsed by (auto simp: revision_of_text_def split: option.splits if_splits)
    then have "unat r = n" using parse_uint_bound [OF n(1)] by (auto simp: unat_of_nat)
    then show ?thesis using n(2) by (simp add: revision_text_def)
  qed
  moreover have "case next_revision r of
      Inl e \<Rightarrow> e = InvalidData ''metadata revision exhausted'' \<and> unat r = 2 ^ 64 - 1 | Inr n \<Rightarrow> unat n = unat r + 1"
  proof (cases "checked_add r 1")
    case None
    then have "2 ^ 64 \<le> unat r + 1" using checked_add_None [of r 1] by simp
    then show ?thesis using fits None by (simp add: next_revision_def)
  next
    case (Some n)
    then show ?thesis using unat_checked_add [OF Some] by (simp add: next_revision_def)
  qed
  ultimately show ?thesis using prints by auto
qed

end
