(* ===== verification/Store_Laws.thy ===== *)
theory Store_Laws
  imports Metadata_Store
begin

text \<open>
  The laws of the session store of \<^verbatim>\<open>Metadata_Store\<close>: what a failure leaves behind, how revisions
  move, what a write token proves, and the abstract register the store implements.
\<close>

section \<open>What a step does to the durable state\<close>

definition same_durable :: "store \<Rightarrow> store \<Rightarrow> bool" where
  "same_durable st st' \<longleftrightarrow> records st' = records st \<and> corrupt st' = corrupt st \<and>
     session_writes st' = session_writes st \<and> owner_allocations st' = owner_allocations st"

definition owners_after :: "string \<Rightarrow> bool \<Rightarrow> store \<Rightarrow> store" where
  "owners_after i att st = (if att then snd (accept_session_write i st) else st)"

text \<open>One record was replaced by the serialization of \<open>r\<close>; attention writes moved the owner.\<close>

definition publishes :: "record_codec \<Rightarrow> string \<Rightarrow> revisioned_session \<Rightarrow> bool \<Rightarrow> store \<Rightarrow> store \<Rightarrow> bool" where
  "publishes c i r att st st' \<longleftrightarrow>
     (\<exists>j. to_json c r = Some j \<and> records st' = (records st)(i \<mapsto> j)) \<and> corrupt st' = corrupt st \<and>
     session_writes st' = session_writes (owners_after i att st) \<and>
     owner_allocations st' = owner_allocations (owners_after i att st)"

lemma same_durable_refl [simp]: "same_durable st st"
  by (simp add: same_durable_def)

lemma accept_session_write_files [simp]:
  "records (snd (accept_session_write i st)) = records st"
  "stages (snd (accept_session_write i st)) = stages st"
  "corrupt (snd (accept_session_write i st)) = corrupt st"
  by (simp_all add: accept_session_write_def Let_def case_prod_beta split: option.split)

lemma owner_of_accepted:
  "session_writes (snd (accept_session_write i st)) = (session_writes st)(i \<mapsto>
     snd (accepted_write (case session_writes st i of None \<Rightarrow> new_owner (owner_allocations st) | Some w \<Rightarrow> w)))"
  by (simp add: accept_session_write_def Let_def case_prod_beta split: option.split)

lemma owner_allocations_accepted:
  "owner_allocations (snd (accept_session_write i st)) =
     (if session_writes st i = None then Suc (owner_allocations st) else owner_allocations st)"
  by (simp add: accept_session_write_def Let_def case_prod_beta split: option.split)

lemma write_stage_durable: "write_stage d i j st = (res, st') \<Longrightarrow> same_durable st st'"
  by (auto simp: write_stage_def same_durable_def split: option.splits)

lemma remove_stage_durable [simp]: "same_durable st (remove_stage d i st')  = same_durable st st'"
  by (simp add: remove_stage_def same_durable_def)

lemma rename_stage_cases:
  "rename_stage d i j st = (res, st') \<Longrightarrow>
     (\<exists>e. res = Inl e \<and> st' = st) \<or>
     (res = Inr () \<and> st' = st\<lparr>records := (records st)(i \<mapsto> j), stages := (stages st)(i := None)\<rparr>)"
  by (auto simp: rename_stage_def split: option.splits)

text \<open>Writing the stage and renaming it either leaves the durable state or replaces one record.\<close>

lemma write_atomic_cases:
  assumes "write_atomic d i j st = (res, st')"
  shows "(\<exists>e. res = Inl e \<and> same_durable st st') \<or>
         (res = Inr () \<and> records st' = (records st)(i \<mapsto> j) \<and> corrupt st' = corrupt st \<and>
          session_writes st' = session_writes st \<and> owner_allocations st' = owner_allocations st)"
  using assms
  by (auto simp: write_atomic_def write_stage_def rename_stage_def same_durable_def split: option.splits)

lemma owners_after_cong:
  "session_writes st1 = session_writes st \<Longrightarrow> owner_allocations st1 = owner_allocations st \<Longrightarrow>
   session_writes (owners_after i att st1) = session_writes (owners_after i att st) \<and>
   owner_allocations (owners_after i att st1) = owner_allocations (owners_after i att st)"
  by (simp add: owners_after_def owner_of_accepted owner_allocations_accepted split: option.split)

lemma publishesI:
  assumes "to_json c r = Some j" and "records st1 = (records st)(i \<mapsto> j)" and "corrupt st1 = corrupt st"
    and "session_writes st1 = session_writes st" and "owner_allocations st1 = owner_allocations st"
    and "st' = owners_after i att st1"
  shows "publishes c i r att st st'"
  using assms owners_after_cong [OF assms(4,5)] by (auto simp: publishes_def owners_after_def)

lemma commit_before_replace_cases:
  assumes "commit_before_replace c clk d i r sc nxt before st = (res, st')"
  shows "(\<exists>e. res = Inl e \<and> same_durable st st') \<or>
         (\<exists>r1. res = Inr r1 \<and> r1 = \<lparr>rec_metadata = stamp_scope clk sc (rec_metadata r), rec_revision = nxt\<rparr> \<and>
            sid (rec_metadata r) = i \<and> publishes c i r1 (scope_attention sc) st st')"
proof (cases "sid (rec_metadata r) = i")
  case False
  then show ?thesis using assms by (auto simp: commit_before_replace_def)
next
  case True
  define r1 where "r1 = \<lparr>rec_metadata = stamp_scope clk sc (rec_metadata r), rec_revision = nxt\<rparr>"
  show ?thesis
  proof (cases "to_json c r1")
    case None
    then show ?thesis using assms True by (auto simp: commit_before_replace_def r1_def)
  next
    case (Some j)
    obtain w st1 where w: "write_stage d i j st = (w, st1)" by fastforce
    obtain n st2 where n: "rename_stage d i j st1 = (n, st2)" by fastforce
    have s1: "same_durable st st1" by (rule write_stage_durable [OF w])
    have go: "(res, st') = (case w of Inl e \<Rightarrow> (Inl e, st1) | Inr _ \<Rightarrow>
        (case before (rec_metadata r1) of Inl e \<Rightarrow> (Inl e, remove_stage d i st1)
         | Inr _ \<Rightarrow> (case n of Inl e \<Rightarrow> (Inl e, st2) | Inr _ \<Rightarrow> (Inr r1, owners_after i (scope_attention sc) st2))))"
      using assms [symmetric] True Some w n
      by (cases w; cases "before (rec_metadata r1)"; cases n)
         (simp_all add: commit_before_replace_def r1_def owners_after_def Let_def)
    show ?thesis
    proof (cases "\<exists>u. w = Inr u \<and> (\<exists>v. before (rec_metadata r1) = Inr v) \<and> (\<exists>x. n = Inr x)")
      case False
      moreover have "same_durable st st2" if "\<exists>e. n = Inl e"
        using rename_stage_cases [OF n] s1 that by auto
      ultimately show ?thesis using go s1 by (auto split: sum.splits)
    next
      case ok: True
      have st2: "st2 = st1\<lparr>records := (records st1)(i \<mapsto> j), stages := (stages st1)(i := None)\<rparr>"
        using rename_stage_cases [OF n] ok by auto
      have "publishes c i r1 (scope_attention sc) st st'"
        by (rule publishesI [of c r1 j st2])
           (use Some s1 st2 go ok in \<open>auto simp: same_durable_def\<close>)
      then show ?thesis using go ok True r1_def by auto
    qed
  qed
qed


section \<open>Operations as steps\<close>

text \<open>
  Every writer of the store, each under its session's lock, hence one step. The answer is an error,
  \<open>False\<close> for a decision not to write, and \<open>True\<close> for a write (or a deletion) that took effect.
\<close>

datatype store_op =
    Update string "u64 option" write_scope "unit mutate"
  | Optional string write_scope "bool mutate" "session_metadata \<Rightarrow> io_error + unit"
  | Decided string "write_scope option mutate"
  | Owned string "session_write_token option" "bool mutate"
  | OwnedWrite session_metadata session_write_token bool
  | Replace session_metadata
  | Delete string

fun target :: "store_op \<Rightarrow> string" where
  "target (Update i _ _ _) = i"
| "target (Optional i _ _ _) = i"
| "target (Decided i _) = i"
| "target (Owned i _ _) = i"
| "target (OwnedWrite m _ _) = sid m"
| "target (Replace m) = sid m"
| "target (Delete i) = i"

fun is_delete :: "store_op \<Rightarrow> bool" where
  "is_delete (Delete _) = True"
| "is_delete _ = False"

definition answer :: "('e \<Rightarrow> tx_error) \<Rightarrow> ('a \<Rightarrow> bool) \<Rightarrow> ('e + 'a) \<times> store \<Rightarrow> (tx_error + bool) \<times> store" where
  "answer err yes r = (case r of (Inl e, st) \<Rightarrow> (Inl (err e), st) | (Inr x, st) \<Rightarrow> (Inr (yes x), st))"

fun store_step :: "record_codec \<Rightarrow> clock \<Rightarrow> disk \<Rightarrow> store_op \<Rightarrow> store \<Rightarrow> (tx_error + bool) \<times> store" where
  "store_step c clk d (Update i expected sc f) st =
     answer (\<lambda>e. e) (\<lambda>_. True) (update_session_locked c clk d i expected sc f st)"
| "store_step c clk d (Optional i sc f before) st =
     answer (\<lambda>e. e) (\<lambda>r. r \<noteq> None) (mutate_session_optional_before_replace c clk d i sc f before st)"
| "store_step c clk d (Decided i f) st =
     answer (\<lambda>e. e) (\<lambda>r. r \<noteq> None) (mutate_session_decided c clk d i f st)"
| "store_step c clk d (Owned i token f) st =
     answer Io (\<lambda>r. r \<noteq> None) (mutate_owned_attention_inner c clk d i token f st)"
| "store_step c clk d (OwnedWrite m token ready) st =
     answer Io (\<lambda>b. b) (try_write_session_if_owned_when c clk d m token ready st)"
| "store_step c clk d (Replace m) st = answer Io (\<lambda>_. True) (try_write_session c clk d m st)"
| "store_step c clk d (Delete i) st = answer Io (\<lambda>_. True) (delete_session d i st)"

lemma lift_io_simps [simp]: "lift_io (Inl e, st) = (Inl (Io e), st)" "lift_io (Inr x, st) = (Inr x, st)"
  by (simp_all add: lift_io_def)

text \<open>\<open>mutate_session_optional\<close> is the form whose side effect always succeeds.\<close>

lemma optional_before_replace:
  "mutate_session_optional c clk d i sc f st =
   mutate_session_optional_before_replace c clk d i sc f (\<lambda>_. Inr ()) st"
proof (cases "require_record c clk d i st")
  case (Inr r)
  have commit: "lift_io (commit_session_record c clk d i (r\<lparr>rec_metadata := m\<rparr>) sc st) =
      (case next_revision (rec_revision r) of Inl e \<Rightarrow> (Inl (Io e), st)
       | Inr nxt \<Rightarrow> lift_io (commit_before_replace c clk d i (r\<lparr>rec_metadata := m\<rparr>) sc nxt (\<lambda>_. Inr ()) st))" for m
    by (cases "next_revision (rec_revision r)")
       (simp_all add: commit_session_record_def commit_with_revision_def lift_io_simps)
  obtain a m where f: "f (rec_metadata r) = (a, m)" by (cases "f (rec_metadata r)")
  show ?thesis
    unfolding mutate_session_optional_def mutate_session_optional_before_replace_def Inr sum.case f prod.case commit
    by (cases a; cases "next_revision (rec_revision r)") simp_all
qed (simp add: mutate_session_optional_def mutate_session_optional_before_replace_def)

text \<open>The revision a write is based on: the one it read, or zero when nothing is stored.\<close>

definition base_revision :: "record_codec \<Rightarrow> clock \<Rightarrow> disk \<Rightarrow> string \<Rightarrow> store \<Rightarrow> u64 option" where
  "base_revision c clk d i st =
     (case try_read_revisioned_session c clk d i st of
        Inl _ \<Rightarrow> None
      | Inr r \<Rightarrow> Some (case r of None \<Rightarrow> 0 | Some x \<Rightarrow> rec_revision x))"

definition advances :: "record_codec \<Rightarrow> clock \<Rightarrow> disk \<Rightarrow> string \<Rightarrow> bool \<Rightarrow> store \<Rightarrow> store \<Rightarrow> bool" where
  "advances c clk d i att st st' \<longleftrightarrow>
     (\<exists>r b. base_revision c clk d i st = Some b \<and> checked_add b 1 = Some (rec_revision r) \<and>
        sid (rec_metadata r) = i \<and> publishes c i r att st st')"

definition step_shape :: "record_codec \<Rightarrow> clock \<Rightarrow> disk \<Rightarrow> string \<Rightarrow> bool \<Rightarrow> store \<Rightarrow> (tx_error + bool) \<times> store \<Rightarrow> bool" where
  "step_shape c clk d i att st out \<longleftrightarrow>
     (if fst out = Inr True then advances c clk d i att st (snd out) else same_durable st (snd out))"

text \<open>Whether a write of the operation takes over attention.\<close>

definition decided_attention :: "record_codec \<Rightarrow> clock \<Rightarrow> disk \<Rightarrow> string \<Rightarrow> write_scope option mutate \<Rightarrow> store \<Rightarrow> bool" where
  "decided_attention c clk d i f st =
     (case require_record c clk d i st of
        Inl _ \<Rightarrow> False
      | Inr r \<Rightarrow> (case f (rec_metadata r) of (Inr (Some sc), _) \<Rightarrow> scope_attention sc | _ \<Rightarrow> False))"

fun claims_attention :: "record_codec \<Rightarrow> clock \<Rightarrow> disk \<Rightarrow> store_op \<Rightarrow> store \<Rightarrow> bool" where
  "claims_attention c clk d (Update i ex sc f) st = scope_attention sc"
| "claims_attention c clk d (Optional i sc f before) st = scope_attention sc"
| "claims_attention c clk d (Decided i f) st = decided_attention c clk d i f st"
| "claims_attention c clk d _ st = True"

lemma step_shape_simps [simp]:
  "step_shape c clk d i att st (Inl e, st') = same_durable st st'"
  "step_shape c clk d i att st (Inr False, st') = same_durable st st'"
  "step_shape c clk d i att st (Inr True, st') = advances c clk d i att st st'"
  by (simp_all add: step_shape_def)

lemma answer_simps [simp]:
  "answer err yes (Inl e, st) = (Inl (err e), st)"
  "answer err yes (Inr x, st) = (Inr (yes x), st)"
  by (simp_all add: answer_def)

lemma next_revision_ok: "next_revision b = Inr n \<longleftrightarrow> checked_add b 1 = Some n"
  by (auto simp: next_revision_def split: option.splits)

lemma stamp_scope_sid [simp]: "sid (stamp_scope clk sc m) = sid m"
  by (simp add: stamp_scope_def Let_def)

lemma require_base:
  "require_record c clk d i st = Inr r \<Longrightarrow> base_revision c clk d i st = Some (rec_revision r)"
  by (cases "try_read_revisioned_session c clk d i st")
     (simp_all add: require_record_def base_revision_def split: option.split_asm)

lemma commit_step_shape:
  assumes "base_revision c clk d i st = Some (rec_revision r)" and "next_revision (rec_revision r) = Inr nxt"
    and "commit_before_replace c clk d i (r\<lparr>rec_metadata := m\<rparr>) sc nxt before st = (res, st')"
  shows "case res of Inl e \<Rightarrow> same_durable st st' | Inr x \<Rightarrow> advances c clk d i (scope_attention sc) st st'"
  using commit_before_replace_cases [OF assms(3)]
proof (elim disjE exE conjE)
  fix r1
  assume r1: "r1 = \<lparr>rec_metadata = stamp_scope clk sc (rec_metadata (r\<lparr>rec_metadata := m\<rparr>)), rec_revision = nxt\<rparr>"
    and "sid (rec_metadata (r\<lparr>rec_metadata := m\<rparr>)) = i" and "publishes c i r1 (scope_attention sc) st st'"
    and "res = Inr r1"
  then have "sid (rec_metadata r1) = i \<and> checked_add (rec_revision r) 1 = Some (rec_revision r1)"
    using assms(2) by (simp add: next_revision_ok)
  then show ?thesis
    using \<open>res = Inr r1\<close> \<open>publishes _ _ r1 _ _ _\<close> assms(1) by (auto simp: advances_def)
qed simp


lemma update_shape: "step_shape c clk d i (scope_attention sc) st (answer (\<lambda>e. e) (\<lambda>_. True) (update_session_locked c clk d i expected sc f st))"
proof (cases "require_record c clk d i st")
  case (Inr r)
  obtain a m where f: "f (rec_metadata r) = (a, m)" by (cases "f (rec_metadata r)")
  show ?thesis
  proof (cases "next_revision (rec_revision r)")
    case (Inr nxt)
    obtain res st' where go: "commit_before_replace c clk d i (r\<lparr>rec_metadata := m\<rparr>) sc nxt (\<lambda>_. Inr ()) st = (res, st')"
      by (cases "commit_before_replace c clk d i (r\<lparr>rec_metadata := m\<rparr>) sc nxt (\<lambda>_. Inr ()) st")
    show ?thesis
      using commit_step_shape [OF require_base [OF \<open>require_record c clk d i st = Inr r\<close>] Inr go]
      unfolding update_session_locked_def \<open>require_record c clk d i st = Inr r\<close> sum.case Inr f prod.case
        commit_with_revision_def go
      by (cases res; cases a) simp_all
  qed (use Inr in \<open>simp add: update_session_locked_def\<close>)
qed (simp add: update_session_locked_def)

lemma optional_shape:
  "step_shape c clk d i (scope_attention sc) st (answer (\<lambda>e. e) (\<lambda>r. r \<noteq> None) (mutate_session_optional_before_replace c clk d i sc f before st))"
proof (cases "require_record c clk d i st")
  case (Inr r)
  obtain a m where f: "f (rec_metadata r) = (a, m)" by (cases "f (rec_metadata r)")
  show ?thesis
  proof (cases "next_revision (rec_revision r)")
    case (Inr nxt)
    obtain res st' where go: "commit_before_replace c clk d i (r\<lparr>rec_metadata := m\<rparr>) sc nxt before st = (res, st')"
      by (cases "commit_before_replace c clk d i (r\<lparr>rec_metadata := m\<rparr>) sc nxt before st")
    show ?thesis
      using commit_step_shape [OF require_base [OF \<open>require_record c clk d i st = Inr r\<close>] Inr go]
      unfolding mutate_session_optional_before_replace_def \<open>require_record c clk d i st = Inr r\<close> sum.case Inr f
        prod.case go
      by (cases res; cases a) simp_all
  next
    case (Inl e)
    then show ?thesis
      unfolding mutate_session_optional_before_replace_def Inr sum.case f prod.case
      by (cases a) simp_all
  qed
qed (simp add: mutate_session_optional_before_replace_def)

lemma commit_record_shape:
  assumes "require_record c clk d i st = Inr r"
    and "commit_session_record c clk d i (r\<lparr>rec_metadata := m\<rparr>) sc st = (res, st')"
  shows "case res of Inl e \<Rightarrow> same_durable st st' | Inr x \<Rightarrow> advances c clk d i (scope_attention sc) st st'"
proof (cases "next_revision (rec_revision r)")
  case (Inr nxt)
  then have "commit_before_replace c clk d i (r\<lparr>rec_metadata := m\<rparr>) sc nxt (\<lambda>_. Inr ()) st = (res, st')"
    using assms(2) by (simp add: commit_session_record_def commit_with_revision_def)
  from commit_step_shape [OF require_base [OF assms(1)] Inr this] show ?thesis .
qed (use assms(2) in \<open>auto simp: commit_session_record_def\<close>)

lemma decided_shape:
  "step_shape c clk d i (decided_attention c clk d i f st) st (answer (\<lambda>e. e) (\<lambda>r. r \<noteq> None) (mutate_session_decided c clk d i f st))"
proof (cases "require_record c clk d i st")
  case (Inr r)
  obtain a m where f: "f (rec_metadata r) = (a, m)" by (cases "f (rec_metadata r)")
  show ?thesis
  proof (cases a)
    case decided: (Inr o1)
    show ?thesis
    proof (cases o1)
      case (Some sc)
      obtain res st' where go: "commit_session_record c clk d i (r\<lparr>rec_metadata := m\<rparr>) sc st = (res, st')"
        by (cases "commit_session_record c clk d i (r\<lparr>rec_metadata := m\<rparr>) sc st")
      show ?thesis
        using commit_record_shape [OF Inr go]
        unfolding decided_attention_def mutate_session_decided_def Inr sum.case f prod.case decided Some option.case go
        by (cases res) simp_all
    qed (simp add: mutate_session_decided_def Inr f decided)
  qed (simp add: mutate_session_decided_def Inr f)
qed (simp add: mutate_session_decided_def)

lemma write_atomic_shape:
  assumes "base_revision c clk d i st = Some b" and "next_revision b = Inr (rec_revision r)"
    and "to_json c r = Some j" and "sid (rec_metadata r) = i" and "write_atomic d i j st = (res, st1)"
  shows "case res of Inl e \<Rightarrow> same_durable st st1 | Inr x \<Rightarrow> advances c clk d i att st (owners_after i att st1)"
proof (cases res)
  case (Inr x)
  then have "publishes c i r att st (owners_after i att st1)"
    using write_atomic_cases [OF assms(5)] assms(3) by (intro publishesI) auto
  then show ?thesis using assms(1,2,4) Inr by (auto simp: advances_def next_revision_ok)
qed (use write_atomic_cases [OF assms(5)] in auto)

lemma owners_after_True [simp]: "snd (accept_session_write i st) = owners_after i True st"
  by (simp add: owners_after_def)

lemma sid_attention_stamped [simp]: "sid (attention_stamped clk m) = sid m"
  by (simp add: attention_stamped_def)

lemma sid_copy_attention [simp]: "sid (copy_attention clk m x) = sid x"
  by (simp add: copy_attention_def)

lemma owned_shape:
  "step_shape c clk d i True st (answer Io (\<lambda>r. r \<noteq> None) (mutate_owned_attention_inner c clk d i expected f st))"
proof (cases "is_some_and (\<lambda>t. \<not> token_owned i t st) expected")
  case False
  show ?thesis
  proof (cases "require_record c clk d i st")
    case (Inr r)
    obtain a m where f: "f (rec_metadata r) = (a, m)" by (cases "f (rec_metadata r)")
    show ?thesis
    proof (cases "a = Inr True \<and> sid m = i \<and> (\<exists>nxt j. next_revision (rec_revision r) = Inr nxt \<and>
               to_json c \<lparr>rec_metadata = attention_stamped clk m, rec_revision = nxt\<rparr> = Some j)")
      case True
      then obtain nxt j where ok: "a = Inr True" "sid m = i" "next_revision (rec_revision r) = Inr nxt"
        "to_json c \<lparr>rec_metadata = attention_stamped clk m, rec_revision = nxt\<rparr> = Some j" by blast
      obtain res st1 where go: "write_atomic d i j st = (res, st1)" by (cases "write_atomic d i j st")
      have "case res of Inl e \<Rightarrow> same_durable st st1 | Inr x \<Rightarrow> advances c clk d i True st (owners_after i True st1)"
        by (rule write_atomic_shape [OF require_base [OF Inr] _ ok(4) _ go]) (use ok in simp_all)
      then show ?thesis
        using False Inr f ok go
        by (cases res) (simp_all add: mutate_owned_attention_inner_def case_prod_beta Let_def)
    next
      case bad: False
      show ?thesis
      proof (cases a)
        case (Inr b)
        show ?thesis
          using False \<open>require_record c clk d i st = Inr r\<close> f bad Inr
          by (cases b; cases "sid m = i"; cases "next_revision (rec_revision r)")
             (simp_all add: mutate_owned_attention_inner_def Let_def)
      qed (use False Inr f in \<open>simp add: mutate_owned_attention_inner_def\<close>)
    qed
  qed (use False in \<open>simp add: mutate_owned_attention_inner_def\<close>)
qed (simp add: mutate_owned_attention_inner_def)

lemma read_base: "try_read_revisioned_session c clk d i st = Inr (Some r) \<Longrightarrow> base_revision c clk d i st = Some (rec_revision r)"
  by (simp add: base_revision_def)

lemma sid_norm:
  "sid (norm_phase m) = sid m" "sid (norm_lifecycle m) = sid m" "sid (norm_attention m) = sid m"
  "sid (norm_ending_status m) = sid m" "sid (norm_outcome m) = sid m" "sid (norm_pending m) = sid m"
  "sid (norm_invalid_ending m) = sid m" "sid (norm_final_snapshot m) = sid m" "sid (norm_observed m) = sid m"
  "sid (norm_attention_off m) = sid m" "sid (norm_terminal m) = sid m"
  by (simp_all add: norm_phase_def norm_lifecycle_def norm_attention_def norm_ending_status_def norm_outcome_def
      norm_pending_def norm_invalid_ending_def norm_final_snapshot_def norm_observed_def norm_attention_off_def
      norm_terminal_def Let_def)

lemma read_view_sid [simp]: "sid (read_view clk t m) = sid m"
  by (simp add: read_view_def hydrated_def normalize_session_metadata_def sid_norm)

lemma stored_id:
  assumes "try_read_revisioned_session c clk d i st = Inr (Some r)"
  shows "sid (rec_metadata r) = i"
  using assms by (auto simp: try_read_revisioned_session_def
      split: option.split_asm io_error.split_asm if_split_asm)

lemma owned_write_shape:
  "step_shape c clk d (sid m) True st (answer Io (\<lambda>b. b) (try_write_session_if_owned_when c clk d m token ready st))"
proof -
  let ?i = "sid m"
  show ?thesis
  proof (cases "token_owned ?i token st \<and> (\<exists>r. try_read_revisioned_session c clk d ?i st = Inr (Some r) \<and>
       \<not> stale_snapshot m (rec_metadata r) \<and> (\<exists>nxt j. next_revision (rec_revision r) = Inr nxt \<and>
         to_json c \<lparr>rec_metadata = copy_attention clk m (rec_metadata r), rec_revision = nxt\<rparr> = Some j))")
    case True
    then obtain r nxt j where ok: "token_owned ?i token st" "try_read_revisioned_session c clk d ?i st = Inr (Some r)"
      "\<not> stale_snapshot m (rec_metadata r)" "next_revision (rec_revision r) = Inr nxt"
      and j: "to_json c \<lparr>rec_metadata = copy_attention clk m (rec_metadata r), rec_revision = nxt\<rparr> = Some j" by blast
    obtain w st1 where w: "write_stage d ?i j st = (w, st1)" by (cases "write_stage d ?i j st")
    obtain n st2 where n: "rename_stage d ?i j st1 = (n, st2)" by (cases "rename_stage d ?i j st1")
    have s1: "same_durable st st1" by (rule write_stage_durable [OF w])
    show ?thesis
    proof (cases "\<exists>u v. w = Inr u \<and> ready \<and> n = Inr v")
      case True
      then have atomic: "write_atomic d ?i j st = (Inr (), st2)" using w n by (auto simp: write_atomic_def)
      have "advances c clk d ?i True st (owners_after ?i True st2)"
        using write_atomic_shape [OF read_base [OF ok(2)] _ j _ atomic, of True] ok(4) stored_id [OF ok(2)] by simp
      then show ?thesis using True ok j w n by (auto simp: try_write_session_if_owned_when_def)
    next
      case False
      moreover have "same_durable st st2" if "\<exists>e. n = Inl e" using rename_stage_cases [OF n] s1 that by auto
      ultimately show ?thesis
        using ok j w n s1 by (cases w; cases n) (auto simp: try_write_session_if_owned_when_def Let_def split: option.split)
    qed
  next
    case False
    then show ?thesis
      by (auto simp: try_write_session_if_owned_when_def Let_def split: sum.split option.split)
  qed
qed

lemma replacement_base:
  "prepare_session_replacement c clk d m st = Inr j \<Longrightarrow>
   \<exists>r b. base_revision c clk d (sid m) st = Some b \<and> next_revision b = Inr (rec_revision r) \<and>
     to_json c r = Some j \<and> sid (rec_metadata r) = sid m"
  by (force simp: prepare_session_replacement_def base_revision_def and_then_ok Let_def split: option.split_asm option.split)

lemma replace_shape: "step_shape c clk d (sid m) True st (answer Io (\<lambda>_. True) (try_write_session c clk d m st))"
proof (cases "create_dir_error d")
  case None
  show ?thesis
  proof (cases "prepare_session_replacement c clk d m st")
    case (Inr j)
    obtain res st1 where go: "write_atomic d (sid m) j st = (res, st1)" by (cases "write_atomic d (sid m) j st")
    from replacement_base [OF Inr] go
    have "case res of Inl e \<Rightarrow> same_durable st st1 | Inr x \<Rightarrow> advances c clk d (sid m) True st (owners_after (sid m) True st1)"
      using write_atomic_shape by blast
    then show ?thesis
      using None Inr go
      by (cases res) (simp_all add: try_write_session_def try_write_session_owned_def write_session_file_def case_prod_beta Let_def)
  qed (simp add: try_write_session_def try_write_session_owned_def write_session_file_def None)
qed (simp add: try_write_session_def try_write_session_owned_def write_session_file_def)

lemma store_step_shape: "\<not> is_delete op \<Longrightarrow> step_shape c clk d (target op) (claims_attention c clk d op st) st (store_step c clk d op st)"
  by (cases op) (simp_all only: store_step.simps target.simps claims_attention.simps is_delete.simps not_True_eq_False simp_thms
      update_shape optional_shape decided_shape owned_shape owned_write_shape replace_shape)

section \<open>Failure\<close>

lemma delete_failure:
  assumes "store_step c clk d (Delete i) st = (Inl e, st')"
  shows "corrupt st' = corrupt st \<and> (records st' = records st \<or> records st' = (records st)(i := None)) \<and>
    session_writes st' = (case session_writes st i of None \<Rightarrow> session_writes st
                          | Some w \<Rightarrow> (session_writes st)(i \<mapsto> snd (accepted_write w)))"
  using assms by (auto simp: delete_session_def Let_def split: option.splits)

text \<open>
  C25: Whatever the file system does, and whatever the caller's mutation answers, an operation of the store
  other than a deletion that does not report a write leaves every record, every quarantined file
  and every attention owner as it was; only its staging file may remain. One that reports a write
  replaced exactly the record of its session, with a record of that session whose revision follows
  the one it read.
\<close>

theorem refused_write_leaves_no_trace:
  assumes "\<not> is_delete op" and "store_step c clk d op st = (res, st')"
  shows "(res \<noteq> Inr True \<longrightarrow>
            records st' = records st \<and> corrupt st' = corrupt st \<and> session_writes st' = session_writes st \<and>
            owner_allocations st' = owner_allocations st) \<and>
         (res = Inr True \<longrightarrow>
            (\<exists>b r j. base_revision c clk d (target op) st = Some b \<and> checked_add b 1 = Some (rec_revision r) \<and>
               sid (rec_metadata r) = target op \<and> to_json c r = Some j \<and>
               records st' = (records st)(target op \<mapsto> j) \<and> corrupt st' = corrupt st))"
  using store_step_shape [OF assms(1), of c clk d st] assms(2)
  by (simp add: step_shape_def same_durable_def advances_def publishes_def split: if_split_asm) blast

section \<open>Revisions\<close>

text \<open>
  What is relied on of the codec: a serialized record parses, to a record with the same id and the
  same revision. serde keeps this for records whose confidences are numbers, the only ones its
  parser produces.
\<close>

definition reliable :: "record_codec \<Rightarrow> bool" where
  "reliable c \<longleftrightarrow>
     (\<forall>r j. to_json c r = Some j \<longrightarrow>
        (\<exists>r'. from_json c j = Some r' \<and> rec_revision r' = rec_revision r \<and> sid (rec_metadata r') = sid (rec_metadata r)))"

definition stored_record :: "record_codec \<Rightarrow> string \<Rightarrow> store \<Rightarrow> revisioned_session option" where
  "stored_record c i st = Option.bind (records st i) (from_json c)"

definition readable :: "record_codec \<Rightarrow> string \<Rightarrow> store \<Rightarrow> bool" where
  "readable c i st \<longleftrightarrow>
     (case records st i of None \<Rightarrow> True | Some b \<Rightarrow> is_some_and (\<lambda>r. sid (rec_metadata r) = i) (from_json c b))"

definition version :: "record_codec \<Rightarrow> string \<Rightarrow> store \<Rightarrow> u64" where
  "version c i st = (case stored_record c i st of None \<Rightarrow> 0 | Some r \<Rightarrow> rec_revision r)"

text \<open>A disk does not deny a file that exists; other read failures are allowed.\<close>

definition honest :: "disk \<Rightarrow> bool" where
  "honest d \<longleftrightarrow> (case read_error d of Some (NotFound _) \<Rightarrow> False | _ \<Rightarrow> True)"

type_synonym timed_op = "clock \<times> disk \<times> store_op"

definition run_op :: "record_codec \<Rightarrow> timed_op \<Rightarrow> store \<Rightarrow> store" where
  "run_op c o1 st = (case o1 of (clk, d, op) \<Rightarrow> snd (store_step c clk d op st))"

definition keeps :: "string \<Rightarrow> timed_op \<Rightarrow> bool" where
  "keeps i o1 \<longleftrightarrow> (case o1 of (clk, d, op) \<Rightarrow> honest d \<and> \<not> (is_delete op \<and> target op = i))"

lemma version_read:
  assumes "honest d" and "readable c i st" and "base_revision c clk d i st = Some b"
  shows "b = version c i st"
  using assms
  by (auto simp: honest_def readable_def version_def stored_record_def base_revision_def try_read_revisioned_session_def
      split: option.split_asm io_error.split_asm if_split_asm)

lemma publish_other:
  assumes "publishes c k r att st st'" and "k \<noteq> i"
  shows "records st' i = records st i"
  using assms by (auto simp: publishes_def)

lemma publish_version:
  assumes "reliable c" and "publishes c i r att st st'" and "sid (rec_metadata r) = i"
  shows "readable c i st' \<and> version c i st' = rec_revision r"
proof -
  obtain j where "to_json c r = Some j" and j: "records st' = (records st)(i \<mapsto> j)"
    using assms(2) by (auto simp: publishes_def)
  then obtain r' where "from_json c j = Some r'" "rec_revision r' = rec_revision r" "sid (rec_metadata r') = i"
    using assms(1,3) unfolding reliable_def by blast
  then show ?thesis using j by (simp add: readable_def version_def stored_record_def)
qed

lemma delete_other: "k \<noteq> i \<Longrightarrow> records (snd (store_step c clk d (Delete k) st)) i = records st i"
  by (simp add: delete_session_def Let_def split: option.split)

lemma same_record:
  "records st' i = records st i \<Longrightarrow> readable c i st' = readable c i st \<and> version c i st' = version c i st"
  by (simp add: readable_def version_def stored_record_def)

lemma store_step_version:
  assumes "reliable c" and "readable c i st" and "honest d" and "\<not> (is_delete op \<and> target op = i)"
  shows "readable c i (snd (store_step c clk d op st)) \<and>
    (records (snd (store_step c clk d op st)) i = records st i \<or>
     unat (version c i st) < unat (version c i (snd (store_step c clk d op st))))"
proof (cases "is_delete op")
  case True
  then have "records (snd (store_step c clk d op st)) i = records st i"
    using assms(4) delete_other by (cases op) (simp_all only: is_delete.simps target.simps simp_thms)
  then show ?thesis using assms(2) same_record by blast
next
  case False
  let ?out = "store_step c clk d op st"
  consider "same_durable st (snd ?out)" | "advances c clk d (target op) (claims_attention c clk d op st) st (snd ?out)"
    using store_step_shape [OF False, of c clk d st] by (simp only: step_shape_def split: if_split_asm)
  then show ?thesis
  proof cases
    case 1
    then have "records (snd ?out) i = records st i" by (simp only: same_durable_def)
    then show ?thesis using assms(2) same_record by blast
  next
    case 2
    then obtain r b where r: "base_revision c clk d (target op) st = Some b" "checked_add b 1 = Some (rec_revision r)"
      "sid (rec_metadata r) = target op" "publishes c (target op) r (claims_attention c clk d op st) st (snd ?out)"
      by (auto simp: advances_def)
    show ?thesis
    proof (cases "target op = i")
      case True
      then have "b = version c i st" using version_read [OF assms(3,2)] r(1) by simp
      moreover have "readable c i (snd ?out) \<and> version c i (snd ?out) = rec_revision r"
        using publish_version [OF assms(1) r(4,3)] True by (simp only:)
      ultimately show ?thesis using unat_checked_add [OF r(2)] by (simp only: unat_1) simp
    next
      case False
      then have "records (snd ?out) i = records st i" by (rule publish_other [OF r(4)])
      then show ?thesis using assms(2) same_record by blast
    qed
  qed
qed

text \<open>
  The interface a compare-and-set client relies on: every permitted step keeps the content or moves
  the version up.
\<close>

locale versioned_cell =
  fixes act :: "'i \<Rightarrow> 's \<Rightarrow> 's"
    and permitted :: "'i \<Rightarrow> bool"
    and sound :: "'s \<Rightarrow> bool"
    and rank_of :: "'s \<Rightarrow> nat"
    and content :: "'s \<Rightarrow> 'c"
  assumes act_sound: "sound s \<Longrightarrow> permitted i \<Longrightarrow> sound (act i s)"
    and act_moves: "sound s \<Longrightarrow> permitted i \<Longrightarrow> content (act i s) \<noteq> content s \<Longrightarrow> rank_of s < rank_of (act i s)"
    and act_rank: "sound s \<Longrightarrow> permitted i \<Longrightarrow> rank_of s \<le> rank_of (act i s)"
begin

lemma run_sound: "sound s \<Longrightarrow> list_all permitted is \<Longrightarrow> sound (fold act is s)"
  by (induction "is" arbitrary: s) (simp_all add: act_sound)

lemma run_rank: "sound s \<Longrightarrow> list_all permitted is \<Longrightarrow> rank_of s \<le> rank_of (fold act is s)"
proof (induction "is" arbitrary: s)
  case (Cons i rest)
  then show ?case using act_rank [of s i] act_sound [of s i] by fastforce
qed simp

lemma run_moves:
  "sound s \<Longrightarrow> list_all permitted is \<Longrightarrow> content (fold act is s) \<noteq> content s \<Longrightarrow> rank_of s < rank_of (fold act is s)"
proof (induction "is" arbitrary: s)
  case (Cons i rest)
  show ?case
  proof (cases "content (act i s) = content s")
    case True
    then show ?thesis using Cons act_rank [of s i] act_sound [of s i] by fastforce
  next
    case False
    then show ?thesis
      using Cons.prems act_moves [of s i] act_sound [of s i] run_rank [of "act i s" rest] by fastforce
  qed
qed simp

text \<open>An unchanged version after a run means that no state in between had other content.\<close>

lemma unmoved_throughout:
  assumes "sound s" and "list_all permitted (is @ js)" and "rank_of (fold act (is @ js) s) = rank_of s"
  shows "content (fold act is s) = content s"
proof (rule ccontr)
  assume "content (fold act is s) \<noteq> content s"
  then have "rank_of s < rank_of (fold act is s)" using run_moves assms(1,2) by simp
  also have "\<dots> \<le> rank_of (fold act (is @ js) s)"
    using run_rank [of "fold act is s" js] run_sound assms(1,2) by simp
  finally show False using assms(3) by simp
qed

end

interpretation cell: versioned_cell "run_op c" "keeps i" "\<lambda>st. reliable c \<and> readable c i st"
  "\<lambda>st. unat (version c i st)" "\<lambda>st. records st i" for c i
proof unfold_locales
  fix st o1
  assume "reliable c \<and> readable c i st" and "keeps i o1"
  then have "readable c i (run_op c o1 st) \<and>
      (records (run_op c o1 st) i = records st i \<or> unat (version c i st) < unat (version c i (run_op c o1 st)))"
    unfolding run_op_def keeps_def by (cases o1) (use store_step_version in simp)
  then show "reliable c \<and> readable c i (run_op c o1 st)"
    and "unat (version c i st) \<le> unat (version c i (run_op c o1 st))"
    and "records (run_op c o1 st) i \<noteq> records st i \<Longrightarrow> unat (version c i st) < unat (version c i (run_op c o1 st))"
    using \<open>reliable c \<and> readable c i st\<close> same_record [of "run_op c o1 st" i st c] by auto
qed

lemma stale_conflict:
  assumes "readable c i st" and "read_error d = None" and "records st i \<noteq> None" and "v \<noteq> version c i st"
  shows "update_session_locked c clk d i (Some v) sc f st = (Inl Conflict, st)"
proof -
  obtain r where "require_record c clk d i st = Inr r" "rec_revision r = version c i st"
    using assms(1-3)
    by (auto simp: readable_def version_def stored_record_def require_record_def try_read_revisioned_session_def is_some_and_iff)
  then show ?thesis using assms(4) by (simp add: update_session_locked_def)
qed

text \<open>
  C24: Over any sequence of operations by any writers, with any disk failures, that does not
  delete the session: as long as the stored revision is the one a client once read, the stored
  bytes were the same throughout; and once they have differed, a write conditional on that
  revision reports a conflict and changes nothing, however much later it comes.
\<close>

theorem revision_names_content:
  assumes "reliable c" and "readable c i st" and "list_all (keeps i) (is @ js)"
  defines "mid \<equiv> fold (run_op c) is st" and "final \<equiv> fold (run_op c) (is @ js) st"
  shows "(version c i final = version c i st \<longrightarrow> records mid i = records st i) \<and>
         (records mid i \<noteq> records st i \<longrightarrow> read_error d = None \<longrightarrow> records final i \<noteq> None \<longrightarrow>
            update_session_locked c clk d i (Some (version c i st)) sc f final = (Inl Conflict, final))"
proof -
  have "readable c i final" using cell.run_sound assms by blast
  moreover have "version c i final = version c i st \<longrightarrow> records mid i = records st i"
    using cell.unmoved_throughout [of c i st "is" js] assms by simp
  ultimately show ?thesis using stale_conflict by metis
qed

section \<open>A concrete store\<close>

definition two_records :: "revisioned_session \<Rightarrow> revisioned_session \<Rightarrow> record_codec" where
  "two_records a b =
     \<lparr>to_json = (\<lambda>r. if r = a then Some ''a'' else if r = b then Some ''b'' else None),
      from_json = (\<lambda>s. if s = ''a'' then Some a else if s = ''b'' then Some b else None)\<rparr>"

definition stored_blank :: revisioned_session where
  "stored_blank = \<lparr>rec_metadata = blank_metadata, rec_revision = 0\<rparr>"

definition relabelled :: revisioned_session where
  "relabelled = \<lparr>rec_metadata = (read_view sample_clock None blank_metadata)\<lparr>label := ''new''\<rparr>, rec_revision = 1\<rparr>"

definition relabel :: "unit mutate" where
  "relabel m = (Inr (), m\<lparr>label := ''new''\<rparr>)"

definition sample_codec :: record_codec where
  "sample_codec = two_records stored_blank relabelled"

lemma stored_blank_sel [simp]: "rec_metadata stored_blank = blank_metadata" "rec_revision stored_blank = 0"
  by (simp_all add: stored_blank_def)

definition sample_store :: store where
  "sample_store = \<lparr>records = [''s1'' \<mapsto> ''a''], stages = Map.empty, corrupt = Map.empty, session_writes = Map.empty,
     owner_allocations = 0\<rparr>"

definition sound_disk :: disk where
  "sound_disk = \<lparr>read_error = None, create_dir_error = None, write_error = None, rename_error = None, remove_error = None,
     remove_corrupt_error = None, torn = [], modified = None\<rparr>"

lemma blank_id [simp]: "sid blank_metadata = ''s1''"
  by (simp add: blank_metadata_def)

lemma sample_reliable: "reliable sample_codec"
  by (simp add: reliable_def two_records_def sample_codec_def)

lemma sample_contents: "stored_record sample_codec ''s1'' sample_store = Some stored_blank"
  by (simp add: stored_record_def sample_codec_def two_records_def sample_store_def)

lemma sample_readable: "readable sample_codec ''s1'' sample_store"
  by (simp add: readable_def sample_codec_def two_records_def sample_store_def)

lemma sample_sel [simp]: "read_error sound_disk = None" "records sample_store = [''s1'' \<mapsto> ''a'']"
  by (simp_all add: sound_disk_def sample_store_def)

lemma sound_disk_honest: "honest sound_disk"
  by (simp add: honest_def sound_disk_def)

lemma relabelled_differs: "relabelled \<noteq> stored_blank"
  by (simp add: relabelled_def stored_blank_def)

lemma sample_update:
  "update_session_locked sample_codec sample_clock sound_disk ''s1'' (Some 0) SCOPE_NONE relabel sample_store =
     (Inr relabelled, sample_store\<lparr>records := [''s1'' \<mapsto> ''b'']\<rparr>)"
proof -
  have "require_record sample_codec sample_clock sound_disk ''s1'' sample_store =
      Inr \<lparr>rec_metadata = read_view sample_clock None blank_metadata, rec_revision = 0\<rparr>"
    by (simp add: require_record_def try_read_revisioned_session_def sound_disk_def sample_store_def sample_codec_def two_records_def)
  moreover have "next_revision 0 = Inr 1" by (simp add: next_revision_def checked_add_def)
  moreover have "sid (rec_metadata relabelled) = ''s1''" by (simp add: relabelled_def)
  moreover have "to_json sample_codec relabelled = Some ''b''" using relabelled_differs by (simp add: sample_codec_def two_records_def)
  ultimately show ?thesis
    by (simp add: update_session_locked_def relabel_def commit_with_revision_def commit_before_replace_def
        stamp_scope_def SCOPE_NONE_def relabelled_def write_stage_def rename_stage_def sound_disk_def sample_store_def)
qed

text \<open>The two properties at this store.\<close>

theorem refused_write_leaves_no_trace_witness:
  "records (snd (store_step sample_codec sample_clock sound_disk (Update ''s1'' (Some 7) SCOPE_ALL relabel) sample_store)) =
     records sample_store"
proof -
  let ?op = "Update ''s1'' (Some 7) SCOPE_ALL relabel"
  have "store_step sample_codec sample_clock sound_disk ?op sample_store = (Inl Conflict, sample_store)"
    using stale_conflict [OF sample_readable, of sound_disk 7] sample_contents
    by (simp add: sound_disk_def sample_store_def version_def)
  then show ?thesis
    using refused_write_leaves_no_trace [of ?op sample_codec sample_clock sound_disk sample_store "Inl Conflict" sample_store]
    by simp
qed

theorem revision_names_content_witness:
  "let after = fold (run_op sample_codec) [(sample_clock, sound_disk, Update ''s1'' (Some 0) SCOPE_NONE relabel)] sample_store
   in update_session_locked sample_codec sample_clock sound_disk ''s1'' (Some 0) SCOPE_ALL relabel after = (Inl Conflict, after)"
proof -
  let ?ops = "[(sample_clock, sound_disk, Update ''s1'' (Some 0) SCOPE_NONE relabel)]"
  have after: "run_op sample_codec (hd ?ops) sample_store = sample_store\<lparr>records := [''s1'' \<mapsto> ''b'']\<rparr>"
    by (simp add: run_op_def sample_update)
  have "version sample_codec ''s1'' sample_store = 0"
    by (simp add: version_def sample_contents)
  moreover have "list_all (keeps ''s1'') (?ops @ [])" by (simp add: keeps_def sound_disk_honest)
  ultimately show ?thesis
    using revision_names_content [OF sample_reliable sample_readable, of ?ops "[]" sound_disk sample_clock SCOPE_ALL relabel]
    using after by simp
qed

end
