(* ===== verification/Session_Register.thy ===== *)
theory Session_Register
  imports Store_Laws
begin

text \<open>
  The abstract register the session store implements: one cell for each session that holds a record
  and its revision, replaced as a whole. An operation attempts a replacement, may be stopped by a
  last guard, and otherwise publishes it. The refinement theorem relates every operation of
  \<^verbatim>\<open>Metadata_Store\<close> to this register; files, staging and serialization are gone from it.
\<close>

section \<open>The register\<close>

type_synonym cells = "string \<rightharpoonup> revisioned_session"

definition seen :: "clock \<Rightarrow> int option \<Rightarrow> revisioned_session \<Rightarrow> session_metadata" where
  "seen clk t r = read_view clk t (rec_metadata r)"

text \<open>What a read-modify-write wants to publish, given what it decided from the record it saw.\<close>

definition proposal ::
  "clock \<Rightarrow> string \<Rightarrow> revisioned_session \<Rightarrow> tx_error + (write_scope \<times> session_metadata) option \<Rightarrow>
   tx_error + revisioned_session option" where
  "proposal clk i r decision =
     and_then decision (\<lambda>w. case w of
        None \<Rightarrow> Inr None
      | Some (sc, m) \<Rightarrow>
          (case next_revision (rec_revision r) of
             Inl e \<Rightarrow> Inl (Io e)
           | Inr nxt \<Rightarrow>
               (if sid m \<noteq> i then Inl (Io (InvalidInput ''session identity changed''))
                else Inr (Some \<lparr>rec_metadata = stamp_scope clk sc m, rec_revision = nxt\<rparr>))))"

definition decide :: "('a \<Rightarrow> write_scope option) \<Rightarrow> 'a mutate \<Rightarrow> session_metadata \<Rightarrow>
    tx_error + (write_scope \<times> session_metadata) option" where
  "decide scope f m =
     (case f m of (Inl e, _) \<Rightarrow> Inl (Io e) | (Inr a, m') \<Rightarrow> Inr (map_option (\<lambda>sc. (sc, m')) (scope a)))"

fun attempt ::
  "(string \<Rightarrow> session_write_token \<Rightarrow> bool) \<Rightarrow> clock \<Rightarrow> int option \<Rightarrow> store_op \<Rightarrow> cells \<Rightarrow>
   tx_error + revisioned_session option" where
  "attempt own clk t (Update i expected sc f) reg =
     (case reg i of
        None \<Rightarrow> Inl (Io (NotFound ''session record missing''))
      | Some r \<Rightarrow>
          (if is_some_and (\<lambda>x. rec_revision r \<noteq> x) expected then Inl Conflict
           else (case next_revision (rec_revision r) of
                   Inl e \<Rightarrow> Inl (Io e)
                 | Inr _ \<Rightarrow> proposal clk i r (decide (\<lambda>_. Some sc) f (seen clk t r)))))"
| "attempt own clk t (Optional i sc f before) reg =
     (case reg i of
        None \<Rightarrow> Inl (Io (NotFound ''session record missing''))
      | Some r \<Rightarrow> proposal clk i r (decide (\<lambda>b. if b then Some sc else None) f (seen clk t r)))"
| "attempt own clk t (Decided i f) reg =
     (case reg i of
        None \<Rightarrow> Inl (Io (NotFound ''session record missing''))
      | Some r \<Rightarrow> proposal clk i r (decide (\<lambda>sc. sc) f (seen clk t r)))"
| "attempt own clk t (Owned i token f) reg =
     (if is_some_and (\<lambda>x. \<not> own i x) token then Inr None
      else (case reg i of
              None \<Rightarrow> Inl (Io (NotFound ''session record missing''))
            | Some r \<Rightarrow>
                (case decide (\<lambda>b. if b then Some SCOPE_ATTENTION else None) f (seen clk t r) of
                   Inr (Some (sc, m)) \<Rightarrow>
                     (if sid m \<noteq> i then Inl (Io (InvalidInput ''session identity changed''))
                      else proposal clk i r (Inr (Some (sc, m))))
                 | x \<Rightarrow> proposal clk i r x)))"
| "attempt own clk t (OwnedWrite m token ready) reg =
     (if \<not> own (sid m) token then Inr None
      else (case reg (sid m) of
              None \<Rightarrow> Inr None
            | Some r \<Rightarrow>
                (if stale_snapshot m (seen clk t r) then Inr None
                 else proposal clk (sid m) r (Inr (Some (SCOPE_ATTENTION, copy_attention clk m (seen clk t r)))))))"
| "attempt own clk t (Replace m) reg =
     (case next_revision (case reg (sid m) of None \<Rightarrow> 0 | Some r \<Rightarrow> rec_revision r) of
        Inl e \<Rightarrow> Inl (Io e)
      | Inr nxt \<Rightarrow>
          Inr (Some \<lparr>rec_metadata = (case reg (sid m) of
                        None \<Rightarrow> m
                      | Some r \<Rightarrow> m\<lparr>worktree_binding := worktree_binding (seen clk t r)\<rparr>),
                     rec_revision = nxt\<rparr>))"
| "attempt own clk t (Delete i) reg = Inr None"

fun last_guard :: "store_op \<Rightarrow> session_metadata \<Rightarrow> io_error + bool" where
  "last_guard (Optional i sc f before) m = (case before m of Inl e \<Rightarrow> Inl e | Inr _ \<Rightarrow> Inr True)"
| "last_guard (OwnedWrite _ _ ready) m = Inr ready"
| "last_guard _ m = Inr True"

definition register_step ::
  "(string \<Rightarrow> session_write_token \<Rightarrow> bool) \<Rightarrow> clock \<Rightarrow> int option \<Rightarrow> store_op \<Rightarrow> cells \<Rightarrow> (tx_error + bool) \<times> cells" where
  "register_step own clk t op reg =
     (if is_delete op then (Inr True, reg(target op := None))
      else
        (case attempt own clk t op reg of
           Inl e \<Rightarrow> (Inl e, reg)
         | Inr None \<Rightarrow> (Inr False, reg)
         | Inr (Some r) \<Rightarrow>
             (case last_guard op (rec_metadata r) of
                Inl e \<Rightarrow> (Inl (Io e), reg)
              | Inr go \<Rightarrow> if go then (Inr True, reg(target op \<mapsto> r)) else (Inr False, reg))))"

section \<open>The refinement\<close>

definition contents :: "record_codec \<Rightarrow> store \<Rightarrow> cells" where
  "contents c st i = stored_record c i st"

definition healthy :: "disk \<Rightarrow> bool" where
  "healthy d \<longleftrightarrow> read_error d = None \<and> create_dir_error d = None \<and> write_error d = None \<and> rename_error d = None \<and>
     remove_error d = None \<and> remove_corrupt_error d = None"

definition lossless :: "record_codec \<Rightarrow> revisioned_session \<Rightarrow> bool" where
  "lossless c r \<longleftrightarrow> (case to_json c r of None \<Rightarrow> False | Some j \<Rightarrow> from_json c j = Some r)"

text \<open>An operation agrees with the register, or the disk failed, it says so, and nothing moved.\<close>

definition agrees :: "record_codec \<Rightarrow> disk \<Rightarrow> store \<Rightarrow> (tx_error + bool) \<times> store \<Rightarrow> (tx_error + bool) \<times> cells \<Rightarrow> bool" where
  "agrees c d st out spec \<longleftrightarrow>
     (fst out, contents c (snd out)) = spec \<or>
     (\<not> healthy d \<and> (\<exists>e. fst out = Inl (Io e)) \<and> contents c (snd out) = contents c st)"

lemma contents_upd: "records st' = (records st)(i \<mapsto> j) \<Longrightarrow> from_json c j = Some r \<Longrightarrow>
    contents c st' = (contents c st)(i \<mapsto> r)"
  by (auto simp: contents_def stored_record_def)

lemma contents_same: "records st' = records st \<Longrightarrow> contents c st' = contents c st"
  by (auto simp: contents_def stored_record_def)

lemma require_contents:
  assumes "readable c i st" and "honest d"
  shows "require_record c clk d i st =
     (case read_error d of
        Some e \<Rightarrow> Inl e
      | None \<Rightarrow> (case contents c st i of
                  None \<Rightarrow> Inl (NotFound ''session record missing'')
                | Some r \<Rightarrow> Inr (r\<lparr>rec_metadata := seen clk (modified d) r\<rparr>)))"
  using assms
  by (auto simp: require_record_def try_read_revisioned_session_def contents_def stored_record_def readable_def
      honest_def seen_def is_some_and_iff split: option.split io_error.split)

lemma try_read_contents:
  assumes "readable c i st" and "honest d"
  shows "try_read_revisioned_session c clk d i st =
     (case read_error d of
        Some e \<Rightarrow> Inl e
      | None \<Rightarrow> Inr (map_option (\<lambda>r. r\<lparr>rec_metadata := seen clk (modified d) r\<rparr>) (contents c st i)))"
  using assms
  by (auto simp: try_read_revisioned_session_def contents_def stored_record_def readable_def
      honest_def seen_def is_some_and_iff split: option.split io_error.split)

text \<open>Committing a record the codec keeps.\<close>

lemma commit_agrees:
  assumes "lossless c r1" and "r1 = \<lparr>rec_metadata = stamp_scope clk sc (rec_metadata r), rec_revision = nxt\<rparr>"
    and "sid (rec_metadata r) = i" and "commit_before_replace c clk d i r sc nxt before st = (res, st')"
  shows "(case before (rec_metadata r1) of
            Inl e \<Rightarrow> res = Inl e \<and> contents c st' = contents c st
          | Inr _ \<Rightarrow> res = Inr r1 \<and> contents c st' = (contents c st)(i \<mapsto> r1)) \<or>
         (\<not> healthy d \<and> (\<exists>e. res = Inl e) \<and> contents c st' = contents c st)"
proof -
  obtain j where j: "to_json c r1 = Some j" "from_json c j = Some r1"
    using assms(1) by (auto simp: lossless_def split: option.splits)
  have run: "commit_before_replace c clk d i r sc nxt before st =
      (case write_stage d i j st of
         (Inl e, st1) \<Rightarrow> (Inl e, st1)
       | (Inr _, st1) \<Rightarrow>
           (case before (rec_metadata r1) of
              Inl e \<Rightarrow> (Inl e, remove_stage d i st1)
            | Inr _ \<Rightarrow>
                (case rename_stage d i j st1 of
                   (Inl e, st2) \<Rightarrow> (Inl e, st2)
                 | (Inr _, st2) \<Rightarrow> (Inr r1, if scope_attention sc then snd (accept_session_write i st2) else st2))))"
    using assms(3) j(1) unfolding commit_before_replace_def Let_def assms(2) [symmetric] by simp
  have commits: "\<exists>v. before (rec_metadata r1) = Inr v" if "res = Inr x" for x
    using assms(4) that unfolding run
    by (cases "before (rec_metadata r1)"; cases "write_error d") (simp_all add: write_stage_def)
  have stops: "\<not> healthy d \<or> before (rec_metadata r1) = Inl e" if "res = Inl e" for e
    using assms(4) that unfolding run
    by (cases "before (rec_metadata r1)"; cases "write_error d"; cases "rename_error d")
       (simp_all add: write_stage_def rename_stage_def healthy_def)
  from commit_before_replace_cases [OF assms(4)] show ?thesis
  proof (elim disjE exE conjE)
    fix e assume "res = Inl e" "same_durable st st'"
    moreover from this have "contents c st' = contents c st" by (intro contents_same) (simp add: same_durable_def)
    ultimately show ?thesis using stops [of e] by auto
  next
    fix r' assume r': "res = Inr r'" "r' = \<lparr>rec_metadata = stamp_scope clk sc (rec_metadata r), rec_revision = nxt\<rparr>"
      and "publishes c i r' (scope_attention sc) st st'"
    then have "contents c st' = (contents c st)(i \<mapsto> r1)"
      using contents_upd j assms(2) by (auto simp: publishes_def)
    then show ?thesis using commits [OF r'(1)] r' assms(2) by auto
  qed
qed

lemma agrees_fault:
  "\<not> healthy d \<Longrightarrow> contents c st' = contents c st \<Longrightarrow> agrees c d st (Inl (Io e), st') spec"
  by (simp add: agrees_def)

lemma agrees_exact: "contents c st' = reg \<Longrightarrow> agrees c d st (x, st') (x, reg)"
  by (simp add: agrees_def)

lemma read_fault: "read_error d = Some e \<Longrightarrow> \<not> healthy d"
  by (simp add: healthy_def)

text \<open>The common tail of the transactions: the record was read, the mutation decided on \<open>m\<close>.\<close>

lemma commit_refines:
  assumes "lossless c r1" and "r1 = \<lparr>rec_metadata = stamp_scope clk sc m, rec_revision = nxt\<rparr>" and "sid m = i"
    and go: "commit_before_replace c clk d i (r\<lparr>rec_metadata := m\<rparr>) sc nxt before st = (res, st')"
  shows "agrees c d st (case res of Inl e \<Rightarrow> Inl (Io e) | Inr _ \<Rightarrow> Inr True, st')
     (case before (rec_metadata r1) of
        Inl e \<Rightarrow> (Inl (Io e), contents c st) | Inr _ \<Rightarrow> (Inr True, (contents c st)(i \<mapsto> r1)))"
proof -
  have "r1 = \<lparr>rec_metadata = stamp_scope clk sc (rec_metadata (r\<lparr>rec_metadata := m\<rparr>)), rec_revision = nxt\<rparr>"
    and "sid (rec_metadata (r\<lparr>rec_metadata := m\<rparr>)) = i"
    using assms(2,3) by simp_all
  from commit_agrees [OF assms(1) this go] show ?thesis
    by (cases res; cases "before (rec_metadata r1)") (auto simp: agrees_def)
qed

text \<open>Reading first: a read failure or a missing record ends every transaction.\<close>

lemma read_first:
  assumes "readable c i st" and "honest d"
    and fail: "\<And>e. require_record c clk d i st = Inl e \<Longrightarrow> out = (Inl (Io e), st)"
    and missing: "contents c st i = None \<Longrightarrow> spec = (Inl (Io (NotFound ''session record missing'')), contents c st)"
    and found: "\<And>r. contents c st i = Some r \<Longrightarrow>
                  require_record c clk d i st = Inr (r\<lparr>rec_metadata := seen clk (modified d) r\<rparr>) \<Longrightarrow> agrees c d st out spec"
  shows "agrees c d st out spec"
proof (cases "read_error d")
  case None
  show ?thesis
  proof (cases "contents c st i")
    case missing_cell: None
    then have "require_record c clk d i st = Inl (NotFound ''session record missing'')"
      using require_contents [OF assms(1,2)] None by simp
    then show ?thesis using fail missing [OF missing_cell] by (simp add: agrees_def)
  next
    case (Some r)
    then show ?thesis using found require_contents [OF assms(1,2)] None by simp
  qed
next
  case (Some e)
  then have "out = (Inl (Io e), st)" using fail require_contents [OF assms(1,2)] by simp
  then show ?thesis using Some by (simp add: agrees_def healthy_def)
qed

definition kept :: "record_codec \<Rightarrow> (string \<Rightarrow> session_write_token \<Rightarrow> bool) \<Rightarrow> clock \<Rightarrow> disk \<Rightarrow> store_op \<Rightarrow> store \<Rightarrow> bool" where
  "kept c own clk d op st \<longleftrightarrow>
     (case attempt own clk (modified d) op (contents c st) of Inr (Some r) \<Rightarrow> lossless c r | _ \<Rightarrow> True)"

lemma update_refines:
  assumes "readable c i st" and "honest d" and "kept c own clk d (Update i ex sc f) st"
  shows "agrees c d st (store_step c clk d (Update i ex sc f) st)
     (register_step own clk (modified d) (Update i ex sc f) (contents c st))"
proof (rule read_first [OF assms(1,2)])
  fix r
  assume r: "contents c st i = Some r" and req: "require_record c clk d i st = Inr (r\<lparr>rec_metadata := seen clk (modified d) r\<rparr>)"
  obtain a m where f: "f (seen clk (modified d) r) = (a, m)" by (cases "f (seen clk (modified d) r)")
  show "agrees c d st (store_step c clk d (Update i ex sc f) st)
     (register_step own clk (modified d) (Update i ex sc f) (contents c st))"
  proof (cases "\<exists>u nxt. a = Inr u \<and> \<not> is_some_and (\<lambda>x. rec_revision r \<noteq> x) ex \<and> next_revision (rec_revision r) = Inr nxt \<and> sid m = i")
    case True
    then obtain u nxt where ok: "a = Inr u" "\<not> is_some_and (\<lambda>x. rec_revision r \<noteq> x) ex"
      "next_revision (rec_revision r) = Inr nxt" "sid m = i" by blast
    let ?r1 = "\<lparr>rec_metadata = stamp_scope clk sc m, rec_revision = nxt\<rparr>"
    have att: "attempt own clk (modified d) (Update i ex sc f) (contents c st) = Inr (Some ?r1)"
      using r f ok by (simp add: proposal_def decide_def)
    then have "lossless c ?r1" using assms(3) by (simp add: kept_def)
    moreover obtain res st' where go: "commit_before_replace c clk d i (r\<lparr>rec_metadata := m\<rparr>) sc nxt (\<lambda>_. Inr ()) st = (res, st')"
      by (cases "commit_before_replace c clk d i (r\<lparr>rec_metadata := m\<rparr>) sc nxt (\<lambda>_. Inr ()) st")
    ultimately have "agrees c d st (case res of Inl e \<Rightarrow> Inl (Io e) | Inr _ \<Rightarrow> Inr True, st')
        (Inr True, (contents c st)(i \<mapsto> ?r1))"
      using commit_refines [OF _ refl ok(4) go] by simp
    then show ?thesis
      unfolding register_step_def att
      by (cases res) (simp_all add: update_session_locked_def req f ok go commit_with_revision_def)
  next
    case False
    then show ?thesis
      using r f by (cases a; cases "next_revision (rec_revision r)")
        (auto simp: agrees_def register_step_def update_session_locked_def req proposal_def decide_def)
  qed
qed (simp_all add: update_session_locked_def register_step_def)

lemma optional_refines:
  assumes "readable c i st" and "honest d" and "kept c own clk d (Optional i sc f before) st"
  shows "agrees c d st (store_step c clk d (Optional i sc f before) st)
     (register_step own clk (modified d) (Optional i sc f before) (contents c st))"
proof (rule read_first [OF assms(1,2)])
  fix r
  assume r: "contents c st i = Some r" and req: "require_record c clk d i st = Inr (r\<lparr>rec_metadata := seen clk (modified d) r\<rparr>)"
  obtain a m where f: "f (seen clk (modified d) r) = (a, m)" by (cases "f (seen clk (modified d) r)")
  show "agrees c d st (store_step c clk d (Optional i sc f before) st)
     (register_step own clk (modified d) (Optional i sc f before) (contents c st))"
  proof (cases "\<exists>nxt. a = Inr True \<and> next_revision (rec_revision r) = Inr nxt \<and> sid m = i")
    case True
    then obtain nxt where ok: "a = Inr True" "next_revision (rec_revision r) = Inr nxt" "sid m = i" by blast
    let ?r1 = "\<lparr>rec_metadata = stamp_scope clk sc m, rec_revision = nxt\<rparr>"
    have att: "attempt own clk (modified d) (Optional i sc f before) (contents c st) = Inr (Some ?r1)"
      using r f ok by (simp add: proposal_def decide_def)
    then have keep: "lossless c ?r1" using assms(3) by (simp add: kept_def)
    obtain res st' where go: "commit_before_replace c clk d i (r\<lparr>rec_metadata := m\<rparr>) sc nxt before st = (res, st')"
      by (cases "commit_before_replace c clk d i (r\<lparr>rec_metadata := m\<rparr>) sc nxt before st")
    from commit_refines [OF keep refl ok(3) go] show ?thesis
      unfolding register_step_def att
      by (cases res; cases "before (rec_metadata ?r1)")
         (simp_all add: mutate_session_optional_before_replace_def req f ok go)
  next
    case False
    then show ?thesis
      using r f by (cases a; cases "next_revision (rec_revision r)")
        (auto simp: agrees_def register_step_def mutate_session_optional_before_replace_def req proposal_def decide_def
          commit_before_replace_def)
  qed
qed (simp_all add: mutate_session_optional_before_replace_def register_step_def)

lemma decided_refines:
  assumes "readable c i st" and "honest d" and "kept c own clk d (Decided i f) st"
  shows "agrees c d st (store_step c clk d (Decided i f) st)
     (register_step own clk (modified d) (Decided i f) (contents c st))"
proof (rule read_first [OF assms(1,2)])
  fix r
  assume r: "contents c st i = Some r" and req: "require_record c clk d i st = Inr (r\<lparr>rec_metadata := seen clk (modified d) r\<rparr>)"
  obtain a m where f: "f (seen clk (modified d) r) = (a, m)" by (cases "f (seen clk (modified d) r)")
  show "agrees c d st (store_step c clk d (Decided i f) st)
     (register_step own clk (modified d) (Decided i f) (contents c st))"
  proof (cases "\<exists>sc nxt. a = Inr (Some sc) \<and> next_revision (rec_revision r) = Inr nxt \<and> sid m = i")
    case True
    then obtain sc nxt where ok: "a = Inr (Some sc)" "next_revision (rec_revision r) = Inr nxt" "sid m = i" by blast
    let ?r1 = "\<lparr>rec_metadata = stamp_scope clk sc m, rec_revision = nxt\<rparr>"
    have att: "attempt own clk (modified d) (Decided i f) (contents c st) = Inr (Some ?r1)"
      using r f ok by (simp add: proposal_def decide_def)
    then have keep: "lossless c ?r1" using assms(3) by (simp add: kept_def)
    obtain res st' where go: "commit_before_replace c clk d i (r\<lparr>rec_metadata := m\<rparr>) sc nxt (\<lambda>_. Inr ()) st = (res, st')"
      by (cases "commit_before_replace c clk d i (r\<lparr>rec_metadata := m\<rparr>) sc nxt (\<lambda>_. Inr ()) st")
    from commit_refines [OF keep refl ok(3) go] show ?thesis
      unfolding register_step_def att
      by (cases res)
         (simp_all add: mutate_session_decided_def commit_session_record_def commit_with_revision_def req f ok go)
  next
    case False
    then show ?thesis
      using r f by (cases a; cases "next_revision (rec_revision r)")
        (auto simp: agrees_def register_step_def mutate_session_decided_def commit_session_record_def
          commit_with_revision_def req proposal_def decide_def commit_before_replace_def split: option.split)
  qed
qed (simp_all add: mutate_session_decided_def register_step_def)

lemma atomic_refines:
  assumes "lossless c r1" and "to_json c r1 = Some j" and "write_atomic d i j st = (res, st1)"
  shows "agrees c d st (case res of Inl e \<Rightarrow> (Inl (Io e), st1) | Inr _ \<Rightarrow> (Inr True, owners_after i True st1))
     (Inr True, (contents c st)(i \<mapsto> r1))"
proof (cases res)
  case (Inl e)
  then have "\<not> healthy d"
    using assms(3)
    by (cases "write_error d"; cases "rename_error d")
       (simp_all add: write_atomic_def write_stage_def rename_stage_def healthy_def)
  moreover have "contents c st1 = contents c st"
    using write_atomic_cases [OF assms(3)] Inl by (intro contents_same) (auto simp: same_durable_def)
  ultimately show ?thesis using Inl by (simp add: agrees_def)
next
  case (Inr x)
  then have "records st1 = (records st)(i \<mapsto> j)" using write_atomic_cases [OF assms(3)] by auto
  moreover have "from_json c j = Some r1" using assms(1,2) by (simp add: lossless_def)
  ultimately have "contents c st1 = (contents c st)(i \<mapsto> r1)" by (rule contents_upd)
  moreover have "contents c (owners_after i True st1) = contents c st1"
    by (intro contents_same) (simp add: owners_after_def del: owners_after_True)
  ultimately show ?thesis using Inr by (simp add: agrees_def)
qed

lemma stamp_attention [simp]: "stamp_scope clk SCOPE_ATTENTION m = attention_stamped clk m"
  by (simp add: stamp_scope_def attention_stamped_def SCOPE_ATTENTION_def)

lemma attention_stamped_copy [simp]: "attention_stamped clk (copy_attention clk m x) = copy_attention clk m x"
  by (simp add: attention_stamped_def copy_attention_def)

lemma lossless_json: "lossless c r \<Longrightarrow> \<exists>j. to_json c r = Some j"
  by (auto simp: lossless_def split: option.splits)

lemma owned_refines:
  assumes "readable c i st" and "honest d" and "kept c (\<lambda>i t. token_owned i t st) clk d (Owned i tok f) st"
  shows "agrees c d st (store_step c clk d (Owned i tok f) st)
     (register_step (\<lambda>i t. token_owned i t st) clk (modified d) (Owned i tok f) (contents c st))"
proof (cases "is_some_and (\<lambda>t. \<not> token_owned i t st) tok")
  case owned: False
  show ?thesis
  proof (rule read_first [OF assms(1,2)])
    fix r
    assume r: "contents c st i = Some r" and req: "require_record c clk d i st = Inr (r\<lparr>rec_metadata := seen clk (modified d) r\<rparr>)"
    obtain a m where f: "f (seen clk (modified d) r) = (a, m)" by (cases "f (seen clk (modified d) r)")
    show "agrees c d st (store_step c clk d (Owned i tok f) st)
       (register_step (\<lambda>i t. token_owned i t st) clk (modified d) (Owned i tok f) (contents c st))"
    proof (cases "\<exists>nxt. a = Inr True \<and> next_revision (rec_revision r) = Inr nxt \<and> sid m = i")
      case True
      then obtain nxt where ok: "a = Inr True" "next_revision (rec_revision r) = Inr nxt" "sid m = i" by blast
      let ?r1 = "\<lparr>rec_metadata = attention_stamped clk m, rec_revision = nxt\<rparr>"
      have att: "attempt (\<lambda>i t. token_owned i t st) clk (modified d) (Owned i tok f) (contents c st) = Inr (Some ?r1)"
        using r f ok owned by (simp add: proposal_def decide_def)
      then have keep: "lossless c ?r1" using assms(3) by (simp add: kept_def)
      then obtain j where j: "to_json c ?r1 = Some j" using lossless_json by blast
      obtain res st1 where go: "write_atomic d i j st = (res, st1)" by (cases "write_atomic d i j st")
      from atomic_refines [OF keep j go] show ?thesis
        unfolding register_step_def att
        by (cases res) (simp_all add: mutate_owned_attention_inner_def owned req f ok j go Let_def case_prod_beta)
    next
      case False
      then show ?thesis
        using r f owned by (cases a; cases "next_revision (rec_revision r)")
          (auto simp: agrees_def register_step_def mutate_owned_attention_inner_def req proposal_def decide_def)
    qed
  qed (simp_all add: mutate_owned_attention_inner_def register_step_def owned)
qed (simp add: mutate_owned_attention_inner_def register_step_def agrees_def)

lemma owned_write_refines:
  assumes "readable c (sid m) st" and "honest d" and "kept c (\<lambda>i t. token_owned i t st) clk d (OwnedWrite m tok ready) st"
  shows "agrees c d st (store_step c clk d (OwnedWrite m tok ready) st)
     (register_step (\<lambda>i t. token_owned i t st) clk (modified d) (OwnedWrite m tok ready) (contents c st))"
proof -
  let ?i = "sid m" and ?op = "OwnedWrite m tok ready"
  let ?spec = "register_step (\<lambda>i t. token_owned i t st) clk (modified d) ?op (contents c st)"
  note read = try_read_contents [OF assms(1,2), of clk]
  show ?thesis
  proof (cases "token_owned ?i tok st \<and> read_error d = None \<and> (\<exists>r nxt. contents c st ?i = Some r \<and>
      \<not> stale_snapshot m (seen clk (modified d) r) \<and> next_revision (rec_revision r) = Inr nxt)")
    case True
    then obtain r nxt where ok: "token_owned ?i tok st" "read_error d = None" "contents c st ?i = Some r"
      "\<not> stale_snapshot m (seen clk (modified d) r)" "next_revision (rec_revision r) = Inr nxt" by blast
    have id: "sid (seen clk (modified d) r) = ?i"
      using assms(1) ok(3) by (auto simp: seen_def contents_def stored_record_def readable_def is_some_and_iff split: option.splits)
    let ?r1 = "\<lparr>rec_metadata = copy_attention clk m (seen clk (modified d) r), rec_revision = nxt\<rparr>"
    have att: "attempt (\<lambda>i t. token_owned i t st) clk (modified d) ?op (contents c st) = Inr (Some ?r1)"
      using ok id by (simp add: proposal_def)
    then have keep: "lossless c ?r1" using assms(3) by (simp add: kept_def)
    then obtain j where j: "to_json c ?r1 = Some j" using lossless_json by blast
    show ?thesis
    proof (cases ready)
      case True
      obtain res st1 where go: "write_atomic d ?i j st = (res, st1)" by (cases "write_atomic d ?i j st")
      have "store_step c clk d ?op st = (case res of Inl e \<Rightarrow> (Inl (Io e), st1) | Inr _ \<Rightarrow> (Inr True, owners_after ?i True st1))"
        using go ok read j True
        by (cases "write_error d"; cases "rename_error d")
           (auto simp: try_write_session_if_owned_when_def write_atomic_def write_stage_def rename_stage_def Let_def)
      then show ?thesis
        using atomic_refines [OF keep j go] True unfolding register_step_def att by simp
    next
      case False
      then show ?thesis
        unfolding register_step_def att using ok read j
        by (cases "write_error d"; cases "remove_error d")
           (auto simp: try_write_session_if_owned_when_def write_stage_def agrees_def healthy_def Let_def
             contents_def stored_record_def remove_stage_def)
    qed
  next
    case False
    then show ?thesis
      using read
      by (auto simp: register_step_def agrees_def try_write_session_if_owned_when_def healthy_def proposal_def Let_def
          split: option.split sum.split)
  qed
qed

lemma replace_refines:
  assumes "readable c (sid m) st" and "honest d" and "kept c own clk d (Replace m) st"
  shows "agrees c d st (store_step c clk d (Replace m) st)
     (register_step own clk (modified d) (Replace m) (contents c st))"
proof (cases "create_dir_error d = None \<and> read_error d = None")
  case True
  let ?i = "sid m" and ?base = "case contents c st (sid m) of None \<Rightarrow> 0 | Some r \<Rightarrow> rec_revision r"
  have read: "try_read_revisioned_session c clk d ?i st =
      Inr (map_option (\<lambda>r. r\<lparr>rec_metadata := seen clk (modified d) r\<rparr>) (contents c st ?i))"
    using try_read_contents [OF assms(1,2), of clk] True by simp
  show ?thesis
  proof (cases "next_revision ?base")
    case (Inl e)
    then show ?thesis
      using read True
      by (cases "contents c st ?i")
         (simp_all add: agrees_def register_step_def try_write_session_def try_write_session_owned_def
           write_session_file_def prepare_session_replacement_def)
  next
    case (Inr nxt)
    let ?r1 = "\<lparr>rec_metadata = (case contents c st ?i of None \<Rightarrow> m
        | Some r \<Rightarrow> m\<lparr>worktree_binding := worktree_binding (seen clk (modified d) r)\<rparr>), rec_revision = nxt\<rparr>"
    have att: "attempt own clk (modified d) (Replace m) (contents c st) = Inr (Some ?r1)" using Inr by simp
    then have keep: "lossless c ?r1" using assms(3) by (simp add: kept_def)
    then obtain j where j: "to_json c ?r1 = Some j" using lossless_json by blast
    obtain res st1 where go: "write_atomic d ?i j st = (res, st1)" by (cases "write_atomic d ?i j st")
    have "prepare_session_replacement c clk d m st = Inr j"
      using read Inr j by (cases "contents c st ?i") (simp_all add: prepare_session_replacement_def)
    then have "store_step c clk d (Replace m) st =
        (case res of Inl e \<Rightarrow> (Inl (Io e), st1) | Inr _ \<Rightarrow> (Inr True, owners_after ?i True st1))"
      using go True
      by (cases res) (simp_all add: try_write_session_def try_write_session_owned_def write_session_file_def
          case_prod_beta Let_def)
    then show ?thesis
      using atomic_refines [OF keep j go] unfolding register_step_def att by simp
  qed
next
  case False
  then have "\<not> healthy d" by (auto simp: healthy_def)
  moreover have "\<exists>e. store_step c clk d (Replace m) st = (Inl (Io e), st)"
    using False try_read_contents [OF assms(1,2), of clk]
    by (cases "create_dir_error d")
       (auto simp: try_write_session_def try_write_session_owned_def write_session_file_def prepare_session_replacement_def)
  ultimately show ?thesis by (auto simp: agrees_def simp del: store_step.simps)
qed

lemma delete_refines:
  fixes c :: record_codec and clk :: clock and d :: disk and i :: string and st :: store
  defines "out \<equiv> store_step c clk d (Delete i) st"
  shows "(fst out, contents c (snd out)) = (Inr True, (contents c st)(i := None)) \<or>
    (\<not> healthy d \<and> (\<exists>e. fst out = Inl (Io e)) \<and>
     (contents c (snd out) = contents c st \<or> contents c (snd out) = (contents c st)(i := None)))"
  unfolding out_def
  by (cases "removal_error (remove_error d)"; cases "removal_error (remove_corrupt_error d)")
     (auto simp: delete_session_def contents_def stored_record_def healthy_def Let_def split: option.split)

text \<open>
  C3: Each operation of the store implements one step of the register, where the disk is honest about
  which files exist and the codec keeps the record the operation wants to publish. The answer and
  the stored records are those of the register; only when the disk fails may the operation answer
  with an I/O error instead, and then no record has changed, except that a deletion may already
  have removed its record.
\<close>

theorem store_refines_register:
  assumes "readable c (target op) st" and "honest d"
    and "kept c (\<lambda>i t. token_owned i t st) clk d op st"
  defines "out \<equiv> store_step c clk d op st"
    and "spec \<equiv> register_step (\<lambda>i t. token_owned i t st) clk (modified d) op (contents c st)"
  shows "(fst out, contents c (snd out)) = spec \<or>
    (\<not> healthy d \<and> (\<exists>e. fst out = Inl (Io e)) \<and>
     (contents c (snd out) = contents c st \<or> is_delete op \<and> contents c (snd out) = snd spec))"
proof (cases "is_delete op")
  case True
  then obtain i where i: "op = Delete i" by (cases op) simp_all
  then have "spec = (Inr True, (contents c st)(i := None))" by (simp add: spec_def register_step_def)
  then show ?thesis using delete_refines [of c clk d i st] True unfolding out_def i by simp
next
  case False
  then have "agrees c d st out spec"
    using assms(1-3) unfolding out_def spec_def
    by (cases op) (simp_all only: target.simps is_delete.simps update_refines optional_refines decided_refines
        owned_refines owned_write_refines replace_refines not_True_eq_False)
  then show ?thesis by (auto simp: agrees_def)
qed

theorem store_refines_register_witness:
  "let st' = snd (store_step sample_codec sample_clock sound_disk (Update ''s1'' (Some 0) SCOPE_NONE relabel) sample_store)
   in contents sample_codec st' = (contents sample_codec sample_store)(''s1'' \<mapsto> relabelled)"
proof -
  let ?op = "Update ''s1'' (Some 0) SCOPE_NONE relabel"
  have attempt: "attempt own sample_clock (modified sound_disk) ?op (contents sample_codec sample_store) = Inr (Some relabelled)" for own
    by (simp add: contents_def sample_contents proposal_def decide_def relabel_def seen_def next_revision_def
        checked_add_def stamp_scope_def SCOPE_NONE_def relabelled_def sound_disk_def)
  moreover have "lossless sample_codec relabelled"
    using relabelled_differs by (simp add: lossless_def sample_codec_def two_records_def)
  ultimately have "kept sample_codec own sample_clock sound_disk ?op sample_store" for own
    by (simp only: kept_def sum.case option.case)
  moreover have "healthy sound_disk" by (simp add: healthy_def sound_disk_def)
  ultimately show ?thesis
    using store_refines_register [of sample_codec ?op sample_store sound_disk sample_clock] sample_readable sound_disk_honest
    by (simp add: register_step_def attempt del: store_step.simps attempt.simps)
qed

end
