(* ===== verification/Write_Tokens.thy ===== *)
theory Write_Tokens
  imports Store_Laws
begin

text \<open>
  What a write token of the session store proves. Tokens are handed out by accepted attention
  writes and by \<open>read_owned_attention\<close>; a writer that still owns its token knows that nobody else has
  written attention since, even across a deletion and a new creation of the session.
\<close>

section \<open>How owners move\<close>

text \<open>Owners are allocated with identities never used before.\<close>

definition owners_allocated :: "store \<Rightarrow> bool" where
  "owners_allocated st \<longleftrightarrow> (\<forall>i w. session_writes st i = Some w \<longrightarrow> identity w < owner_allocations st)"

definition owner_moves :: "string \<Rightarrow> store \<Rightarrow> store \<Rightarrow> bool" where
  "owner_moves i st st' \<longleftrightarrow> owner_allocations st \<le> owner_allocations st' \<and>
     (session_writes st' i = session_writes st i \<or>
      session_writes st' i = None \<or>
      (session_writes st i = None \<and> owner_allocations st < owner_allocations st' \<and>
       session_writes st' i = Some (snd (accepted_write (new_owner (owner_allocations st))))) \<or>
      (\<exists>w. session_writes st i = Some w \<and> session_writes st' i = Some (snd (accepted_write w))))"

lemma same_durable_moves: "same_durable st st' \<Longrightarrow> owner_moves i st st'"
  by (simp add: same_durable_def owner_moves_def)

lemma publishes_moves:
  assumes "publishes c k r att st st'"
  shows "owner_moves i st st'"
proof -
  have "session_writes st' = session_writes (owners_after k att st)"
    "owner_allocations st' = owner_allocations (owners_after k att st)"
    using assms by (simp_all add: publishes_def)
  then show ?thesis
    by (cases "session_writes st k"; cases "k = i")
       (auto simp: owner_moves_def owners_after_def owner_of_accepted owner_allocations_accepted simp del: owners_after_True)
qed

lemma delete_moves: "owner_moves i st (snd (store_step c clk d (Delete k) st))"
  by (cases "session_writes st k"; cases "k = i")
     (auto simp: owner_moves_def delete_session_def Let_def split: option.split)

lemma store_step_moves: "owner_moves i st (snd (store_step c clk d op st))"
proof (cases "is_delete op")
  case True
  then show ?thesis using delete_moves by (cases op) (simp_all only: is_delete.simps simp_thms)
next
  case False
  let ?out = "store_step c clk d op st"
  consider "same_durable st (snd ?out)" | "advances c clk d (target op) (claims_attention c clk d op st) st (snd ?out)"
    using store_step_shape [OF False, of c clk d st] by (simp only: step_shape_def split: if_split_asm)
  then show ?thesis
  proof cases
    case 2
    then show ?thesis using publishes_moves unfolding advances_def by blast
  qed (rule same_durable_moves)
qed

lemma publishes_allocated: "owners_allocated st \<Longrightarrow> (\<And>i. owner_moves i st st') \<Longrightarrow> owners_allocated st'"
  unfolding owners_allocated_def owner_moves_def
  by (metis accepted_write_identity attention_owner.select_convs(1) new_owner_def option.discI option.inject order_less_le_trans)

interpretation owners: machine owners_allocated "run_op c" owners_allocated for c
proof unfold_locales
  fix st o1 assume "owners_allocated st"
  then show "owners_allocated (run_op c o1 st)"
    by (rule publishes_allocated) (cases o1, simp only: run_op_def prod.case store_step_moves)
qed

section \<open>Spent tokens\<close>

text \<open>A token whose owner has moved on, or is gone, and can never come back.\<close>

definition spent :: "string \<Rightarrow> attention_write_token \<Rightarrow> store \<Rightarrow> bool" where
  "spent i t st \<longleftrightarrow> token_identity t < owner_allocations st \<and>
     (\<forall>w q. session_writes st i = Some w \<longrightarrow> identity w = token_identity t \<longrightarrow> revision w = Some q \<longrightarrow>
        unat (token_revision t) < unat q)"

lemma spent_not_owned: "spent i (token_write t) st \<Longrightarrow> \<not> token_owned i t st"
  by (auto simp: spent_def token_owned_def owns_def is_some_and_iff)

lemma accepted_revision:
  "revision (snd (accepted_write w)) = Some q \<Longrightarrow> \<exists>p. revision w = Some p \<and> unat q = Suc (unat p)"
  using writes.rev_bump_Some by blast

lemma spent_moves:
  assumes "spent i t st" and "owner_moves i st st'"
  shows "spent i t st'"
proof -
  have "unat (token_revision t) < unat q"
    if w: "session_writes st' i = Some w" "identity w = token_identity t" "revision w = Some q" for w q
  proof -
    consider "session_writes st' i = session_writes st i"
      | "w = snd (accepted_write (new_owner (owner_allocations st)))"
      | v where "session_writes st i = Some v" "w = snd (accepted_write v)"
      using assms(2) w(1) by (auto simp: owner_moves_def)
    then show ?thesis
    proof cases
      case 1
      then have "session_writes st i = Some w" using w(1) by (simp only:)
      then show ?thesis using assms(1) w(2,3) by (simp add: spent_def)
    next
      case 2
      then show ?thesis using assms(1) w(2) by (simp add: spent_def new_owner_def)
    next
      case 3
      then show ?thesis using assms(1) w accepted_revision [of v q] by (fastforce simp: spent_def)
    qed
  qed
  then show ?thesis using assms by (auto simp: spent_def owner_moves_def)
qed

lemma spent_run: "spent i t st \<Longrightarrow> spent i t (fold (run_op c) steps st)"
proof (induction steps arbitrary: st)
  case (Cons o1 steps)
  have "spent i t (run_op c o1 st)"
    by (rule spent_moves [OF Cons.prems]) (cases o1, simp only: run_op_def prod.case store_step_moves)
  then show ?case using Cons.IH by simp
qed simp

lemma moved_owner_spends:
  assumes "owners_allocated st" and "token_owned i t st" and "owner_moves i st st'"
    and "session_writes st' i \<noteq> session_writes st i"
  shows "spent i (token_write t) st'"
proof -
  obtain w where w: "session_writes st i = Some w" "identity w = token_identity (token_write t)"
    "revision w = Some (token_revision (token_write t))"
    using assms(2) by (auto simp: token_owned_def owns_def is_some_and_iff)
  have "session_writes st' i = None \<or> session_writes st' i = Some (snd (accepted_write w))"
    using assms(3,4) w(1) by (auto simp: owner_moves_def)
  moreover have "token_identity (token_write t) < owner_allocations st'"
    using assms(1,3) w by (fastforce simp: owners_allocated_def owner_moves_def)
  ultimately show ?thesis
    using w accepted_revision [of w] by (fastforce simp: spent_def)
qed

text \<open>A write that takes over attention moves the owner, as long as its counter is not exhausted.\<close>

lemma attention_write_moves:
  assumes "fst (store_step c clk d op st) = Inr True" and "target op = i" and "claims_attention c clk d op st"
    and "token_owned i t st"
  shows "session_writes (snd (store_step c clk d op st)) i \<noteq> session_writes st i"
proof -
  obtain w where w: "session_writes st i = Some w" "revision w = Some (token_revision (token_write t))"
    using assms(4) by (auto simp: token_owned_def owns_def is_some_and_iff)
  then have moved: "snd (accepted_write w) \<noteq> w" using writes.rank_bump_less [of w] by fastforce
  show ?thesis
  proof (cases "is_delete op")
    case True
    then obtain k where "op = Delete k" by (cases op) simp_all
    then show ?thesis
      using assms(1,2) w by (auto simp: delete_session_def Let_def split: option.splits)
  next
    case False
    then have "advances c clk d i True st (snd (store_step c clk d op st))"
      using store_step_shape [OF False, of c clk d st] assms(1-3) by (simp only: step_shape_def if_True)
    then have "session_writes (snd (store_step c clk d op st)) = session_writes (owners_after i True st)"
      by (auto simp: advances_def publishes_def)
    then show ?thesis
      using w moved by (simp add: owners_after_def owner_of_accepted del: owners_after_True)
  qed
qed

section \<open>Property\<close>

text \<open>
  C26: A write token that a writer still owns after any sequence of operations of the store, by any
  writers and under any disk failures, proves that its owner was never replaced in between, and
  that no operation of that sequence which takes over attention, and no deletion, took effect on
  the session. A token that lost its ownership once never owns again.
\<close>

theorem owned_token_excludes_writers:
  assumes "owners_allocated st" and "token_owned i t st"
    and "token_owned i t (fold (run_op c) (before @ (clk, d, op) # after) st)"
  defines "mid \<equiv> fold (run_op c) before st"
  shows "session_writes mid i = session_writes st i \<and>
         (target op = i \<longrightarrow> fst (store_step c clk d op mid) = Inr True \<longrightarrow> \<not> claims_attention c clk d op mid)"
proof -
  let ?final = "fold (run_op c) (before @ (clk, d, op) # after) st"
  have kept: "session_writes (fold (run_op c) ops st) i = session_writes st i"
    if "before @ (clk, d, op) # after = ops @ rest" for ops rest
    using that
  proof (induction ops arbitrary: rest rule: rev_induct)
    case (snoc o1 ops)
    let ?s = "fold (run_op c) ops st"
    have same: "session_writes ?s i = session_writes st i" using snoc by simp
    have "owner_moves i ?s (run_op c o1 ?s)" by (cases o1) (simp only: run_op_def prod.case store_step_moves)
    moreover have "token_owned i t ?s" using assms(2) same by (simp add: token_owned_def)
    moreover have "owners_allocated ?s" using owners.run_inv [OF assms(1)] by (simp add: owners.run_def)
    ultimately have "session_writes (run_op c o1 ?s) i = session_writes ?s i \<or> spent i (token_write t) (run_op c o1 ?s)"
      using moved_owner_spends by blast
    moreover have "\<not> spent i (token_write t) (run_op c o1 ?s)"
      using spent_run [of i "token_write t" "run_op c o1 ?s" c rest] spent_not_owned assms(3) snoc.prems by fastforce
    ultimately show ?case using same by simp
  qed simp
  have mid: "session_writes mid i = session_writes st i" using kept [of before "(clk, d, op) # after"] by (simp add: mid_def)
  moreover have "session_writes (snd (store_step c clk d op mid)) i = session_writes st i"
    using kept [of "before @ [(clk, d, op)]" after] by (simp add: mid_def run_op_def)
  moreover have "token_owned i t mid" using assms(2) mid by (simp add: token_owned_def)
  ultimately show ?thesis using attention_write_moves by fastforce
qed

theorem owned_token_excludes_writers_witness:
  "let st = snd (accept_session_write ''s1'' sample_store);
       tok = \<lparr>token_session = ''s1'', token_write = \<lparr>token_identity = 0, token_revision = 1\<rparr>\<rparr>;
       ops = [(sample_clock, sound_disk, Update ''s1'' (Some 0) SCOPE_NONE relabel)]
   in token_owned ''s1'' tok (fold (run_op sample_codec) ops st) \<and>
      session_writes (fold (run_op sample_codec) [] st) ''s1'' = session_writes st ''s1''"
proof -
  define st where "st = snd (accept_session_write ''s1'' sample_store)"
  let ?tok = "\<lparr>token_session = ''s1'', token_write = \<lparr>token_identity = 0, token_revision = 1\<rparr>\<rparr>"
  let ?op = "Update ''s1'' (Some 0) SCOPE_NONE relabel"
  have writes: "session_writes st = [''s1'' \<mapsto> \<lparr>identity = 0, revision = Some 1\<rparr>]" "owner_allocations st = 1"
    by (simp_all add: st_def owner_of_accepted owner_allocations_accepted accepted_write_def new_owner_def checked_add_def
        sample_store_def del: owners_after_True)
  have owned: "token_owned ''s1'' ?tok st" by (simp add: token_owned_def owns_def writes)
  have "\<not> claims_attention sample_codec sample_clock sound_disk ?op st" by (simp add: SCOPE_NONE_def)
  then have "session_writes (run_op sample_codec (sample_clock, sound_disk, ?op) st) = session_writes st"
    using store_step_shape [of ?op sample_codec sample_clock sound_disk st]
    by (auto simp: run_op_def step_shape_def advances_def publishes_def owners_after_def same_durable_def
        simp del: store_step.simps claims_attention.simps split: if_split_asm)
  then have still: "token_owned ''s1'' ?tok (fold (run_op sample_codec) ([] @ (sample_clock, sound_disk, ?op) # []) st)"
    using owned by (simp add: token_owned_def)
  moreover have "owners_allocated st" by (simp add: owners_allocated_def writes)
  ultimately show ?thesis
    using owned_token_excludes_writers [OF _ owned still] unfolding st_def [symmetric] Let_def by simp
qed

end
