(* ===== verification/Agent_Patch.thy ===== *)
theory Agent_Patch
  imports Write_Tokens Session_Register
begin

text \<open>
  The agent's field-scoped patches of its session record: \<^verbatim>\<open>metadata/agent_patch.rs\<close>, and the worktree
  binding of \<^verbatim>\<open>session_location.rs\<close>. A patch is validated when it is decoded, checked against the
  current record under the session lock, and applied through the revisioned transaction of
  \<^verbatim>\<open>Metadata_Store\<close>. Git, the file system and the store of branch documents are parameters. Paths are
  those of Unix.
\<close>

section \<open>Data\<close>

datatype 'a field_update = Omitted | Clear | Set 'a

record attention_state =
  at_observed_status :: "string option"
  at_needs_user_input :: "bool option"
  at_detected_question :: "string option"
  at_suggested_options :: "string list option"

record work_fields =
  wk_task :: string
  wk_next_action :: "string option"
  wk_work_phase :: string
  wk_blocker_description :: "string option"
  wk_failed_command :: "string option"
  wk_failed_test :: "string option"

record agent_metadata =
  am_work_fields :: "work_fields option"
  am_summary :: "string field_update"
  am_plan_path :: "string field_update"
  am_worktree_path :: "string field_update"

record agent_patch =
  attention_state :: "attention_state option"
  agent_metadata :: "agent_metadata option"

record agent_patch_envelope =
  envelope_revision :: u64
  envelope_patch :: agent_patch

datatype agent_patch_error = PConflict | PBadRequest | PUnauthorized | PIo io_error

text \<open>What the code asks Git and the file system.\<close>

record git_repository =
  workdir :: "string option"
  commondir :: string
  is_bare :: bool

datatype document_kind = Design | Implementation

record branch_document =
  doc_kind :: document_kind
  doc_pinned :: bool

record git_view =
  is_dir :: "string \<Rightarrow> bool"
  discover :: "string \<Rightarrow> git_repository option"
  open_repository :: "string \<Rightarrow> git_repository option"
  canonical_git_path :: "string \<Rightarrow> string option"
  canonicalize :: "string \<Rightarrow> string option"
  resolve_printed_plan_path :: "string \<Rightarrow> string \<Rightarrow> (string \<times> string) option"
  kind_for_path :: "string \<Rightarrow> document_kind option"
  branch_identity :: "string \<Rightarrow> string option"

type_synonym branch_store = "string \<Rightarrow> string + branch_document list"

section \<open>Worktree bindings\<close>

definition is_absolute :: "string \<Rightarrow> bool" where
  "is_absolute p \<longleftrightarrow> p \<noteq> [] \<and> hd p = CHR ''/''"

definition binding_resolve :: "git_view \<Rightarrow> string \<Rightarrow> string \<Rightarrow> string + worktree_binding" where
  "binding_resolve g launch path =
     (if length path > 4096 \<or> has_control path \<or> \<not> is_absolute path \<or> \<not> is_dir g path
      then Inl ''invalid worktree path''
      else case discover g launch of
        None \<Rightarrow> Inl ''launch repository unavailable''
      | Some home \<Rightarrow>
          (case discover g path of
             None \<Rightarrow> Inl ''worktree unavailable''
           | Some repo \<Rightarrow>
               (case workdir repo of
                  None \<Rightarrow> Inl ''bare repository''
                | Some w \<Rightarrow>
                    (case canonical_git_path g w of
                       None \<Rightarrow> Inl ''directory unavailable''
                     | Some root \<Rightarrow>
                         (case canonical_git_path g (commondir repo) of
                            None \<Rightarrow> Inl ''directory unavailable''
                          | Some common \<Rightarrow>
                              if is_bare home \<or> canonical_git_path g (commondir home) \<noteq> Some common
                              then Inl ''worktree belongs to another repository''
                              else Inr \<lparr>binding_root = root, common_dir = common\<rparr>)))))"

definition binding_validate :: "git_view \<Rightarrow> worktree_binding \<Rightarrow> string + string" where
  "binding_validate g b =
     (case canonical_git_path g (binding_root b) of
        None \<Rightarrow> Inl ''Reported task worktree unavailable.''
      | Some root \<Rightarrow>
          (case open_repository g root of
             None \<Rightarrow> Inl ''Reported task worktree unavailable.''
           | Some repo \<Rightarrow>
               (if Option.bind (workdir repo) (canonical_git_path g) \<noteq> Some root \<or>
                   canonical_git_path g (commondir repo) \<noteq> Some (common_dir b)
                then Inl ''Reported task worktree unavailable; repository changed.''
                else (case canonicalize g root of
                        None \<Rightarrow> Inl ''Reported task worktree unavailable.'' | Some p \<Rightarrow> Inr p))))"

section \<open>Validation\<close>

definition valid_text :: "string \<Rightarrow> bool" where
  "valid_text v \<longleftrightarrow> trim v \<noteq> [] \<and> \<not> has_control v"

definition attention_validate :: "attention_state \<Rightarrow> string + unit" where
  "attention_validate a =
     (let st = at_observed_status a;
          input = (at_needs_user_input a = Some True)
      in if is_some_and (\<lambda>s. s \<notin> {''waiting_for_input'', ''blocked'', ''failed'', ''capped'', ''working'', ''idle'',
                                  ''stale'', ''done''}) st
         then Inl ''invalid observed status''
         else if st = Some ''waiting_for_input'' \<and> \<not> input then Inl ''waiting status requires user input''
         else if input \<and> st \<notin> {Some ''waiting_for_input'', Some ''blocked'', Some ''failed'', Some ''capped''}
         then Inl ''status cannot require user input''
         else if is_some_and (\<lambda>q. \<not> valid_text q \<or> \<not> input) (at_detected_question a)
         then Inl ''question requires user input''
         else if is_some_and (list_ex (\<lambda>o1. \<not> valid_text o1)) (at_suggested_options a)
         then Inl ''invalid suggested option''
         else if is_some_and (\<lambda>os. os \<noteq> [] \<and> at_detected_question a = None) (at_suggested_options a)
         then Inl ''options require a question''
         else if \<not> input \<and> (at_detected_question a \<noteq> None \<or> is_some_and (\<lambda>os. os \<noteq> []) (at_suggested_options a))
         then Inl ''prompt fields require user input''
         else Inr ())"

definition work_validate :: "work_fields \<Rightarrow> string + unit" where
  "work_validate w =
     (if \<not> valid_text (wk_task w) \<or>
         wk_work_phase w \<notin> {''ideation'', ''implementation'', ''review'', ''debugging'', ''unknown''}
      then Inl ''invalid work fields''
      else if list_ex (is_some_and (\<lambda>v. \<not> valid_text v))
                [wk_next_action w, wk_blocker_description w, wk_failed_command w, wk_failed_test w]
      then Inl ''invalid work field text''
      else Inr ())"

definition agent_metadata_validate :: "agent_metadata \<Rightarrow> string + unit" where
  "agent_metadata_validate a =
     (if am_work_fields a = None \<and> am_summary a = Omitted \<and> am_plan_path a = Omitted \<and> am_worktree_path a = Omitted
      then Inl ''empty agent metadata''
      else if (case am_summary a of Set s \<Rightarrow> \<not> valid_text s | _ \<Rightarrow> False) then Inl ''invalid summary''
      else if (case am_plan_path a of
                 Set p \<Rightarrow> \<not> valid_text p \<or> is_absolute p \<or> (p \<noteq> [] \<and> hd p = CHR ''~'') | _ \<Rightarrow> False)
      then Inl ''invalid plan path''
      else (case am_work_fields a of None \<Rightarrow> Inr () | Some w \<Rightarrow> work_validate w))"

definition patch_validate :: "agent_patch \<Rightarrow> string + unit" where
  "patch_validate p =
     (if attention_state p = None \<and> agent_metadata p = None then Inl ''empty patch''
      else first_error
        [case attention_state p of None \<Rightarrow> Inr () | Some a \<Rightarrow> attention_validate a,
         case agent_metadata p of None \<Rightarrow> Inr () | Some a \<Rightarrow> agent_metadata_validate a])"

definition decode_envelope :: "agent_patch_envelope \<Rightarrow> string + agent_patch_envelope" where
  "decode_envelope raw = and_then (patch_validate (envelope_patch raw)) (\<lambda>_. Inr raw)"

definition patch_scope :: "agent_patch \<Rightarrow> write_scope" where
  "patch_scope p =
     \<lparr>scope_attention = (attention_state p \<noteq> None),
      scope_work = is_some_and (\<lambda>a. am_work_fields a \<noteq> None) (agent_metadata p)\<rparr>"

definition updates_summary :: "agent_patch \<Rightarrow> bool" where
  "updates_summary p \<longleftrightarrow> is_some_and (\<lambda>a. am_summary a \<noteq> Omitted) (agent_metadata p)"

definition require_live :: "session_metadata \<Rightarrow> io_error + unit" where
  "require_live m =
     (if lifecycle m = ''alive'' \<and> lifecycle_phase m = ''active'' \<and> status m = ''running'' then Inr ()
      else Inl (Semantic PatchUnauthorized))"

section \<open>Against the current record\<close>

definition user_pinned :: "session_metadata \<Rightarrow> bool" where
  "user_pinned m \<longleftrightarrow> is_some_and (\<lambda>p. plan_source p = UserSelected) (plan_path m)"

definition bad_request :: "string + 'a \<Rightarrow> io_error + 'a" where
  "bad_request r = (case r of Inl _ \<Rightarrow> Inl (Semantic PatchBadRequest) | Inr x \<Rightarrow> Inr x)"

text \<open>The three source checks.\<close>

definition source_conflict :: "agent_patch \<Rightarrow> session_metadata \<Rightarrow> bool" where
  "source_conflict p m \<longleftrightarrow> attention_state p \<noteq> None \<and> \<not> can_overwrite ''agent'' (meta_attention_source m) None"

definition metadata_conflict :: "agent_metadata \<Rightarrow> session_metadata \<Rightarrow> bool" where
  "metadata_conflict a m \<longleftrightarrow>
     (am_work_fields a \<noteq> None \<and> \<not> can_overwrite ''agent'' (metadata_source m) None) \<or>
     (am_summary a \<noteq> Omitted \<and>
      \<not> can_overwrite ''agent'' (case summary_source (provenance m) of None \<Rightarrow> ''unknown'' | Some s \<Rightarrow> s) None)"

text \<open>Whether a plan pinned by the user forbids the reported one.\<close>

definition pin_forbids ::
  "git_view \<Rightarrow> branch_store option \<Rightarrow> plan_reference \<Rightarrow> string \<Rightarrow> string \<Rightarrow> io_error + bool" where
  "pin_forbids g docs pin root rel =
     (let independent = (case (kind_for_path g (relative_path pin), kind_for_path g rel) of
                           (Some pinned, Some reported) \<Rightarrow> pinned \<noteq> reported | _ \<Rightarrow> False)
      in if worktree_root pin \<noteq> None \<and> kind_for_path g (relative_path pin) \<noteq> None
         then (case (docs, branch_identity g root, kind_for_path g rel) of
                 (Some load, Some i, Some kind) \<Rightarrow>
                   (case load i of
                      Inl e \<Rightarrow> Inl (OtherIo e)
                    | Inr ds \<Rightarrow> Inr (list_ex (\<lambda>doc. doc_kind doc = kind \<and> doc_pinned doc) ds))
               | _ \<Rightarrow> Inr (\<not> independent))
         else Inr (\<not> independent))"

definition effective_binding :: "git_view \<Rightarrow> agent_metadata \<Rightarrow> session_metadata \<Rightarrow> io_error + worktree_binding option" where
  "effective_binding g a m =
     (case am_worktree_path a of
        Set root \<Rightarrow> and_then (bad_request (binding_resolve g (cwd m) root)) (\<lambda>b. Inr (Some b))
      | Clear \<Rightarrow> Inr None
      | Omitted \<Rightarrow> Inr (worktree_binding m))"

text \<open>The reported plan, resolved in the worktree it belongs to.\<close>

definition reported_plan ::
  "git_view \<Rightarrow> branch_store option \<Rightarrow> agent_metadata \<Rightarrow> string \<Rightarrow> session_metadata \<Rightarrow> io_error + plan_reference option" where
  "reported_plan g docs a path m =
     and_then (effective_binding g a m) (\<lambda>binding.
     and_then (case binding of None \<Rightarrow> Inr (cwd m) | Some b \<Rightarrow> bad_request (binding_validate g b)) (\<lambda>launch.
     case resolve_printed_plan_path g launch path of
       None \<Rightarrow> Inl (Semantic PatchBadRequest)
     | Some (root, rel) \<Rightarrow>
         (if binding \<noteq> None \<and> root \<noteq> launch then Inl (Semantic PatchBadRequest)
          else and_then
                 (case plan_path m of
                    Some pin \<Rightarrow> if plan_source pin = UserSelected then pin_forbids g docs pin root rel else Inr False
                  | None \<Rightarrow> Inr False)
                 (\<lambda>forbidden.
                    if forbidden then Inl (Semantic PatchConflict)
                    else Inr (Some \<lparr>worktree_root = Some root, relative_path = rel, plan_source = AgentReported\<rparr>)))))"

definition validate_current ::
  "git_view \<Rightarrow> branch_store option \<Rightarrow> agent_patch \<Rightarrow> bool \<Rightarrow> session_metadata \<Rightarrow> io_error + plan_reference option" where
  "validate_current g docs p check_source m =
     (if check_source \<and> source_conflict p m then Inl (Semantic PatchConflict)
      else case agent_metadata p of
        None \<Rightarrow> Inr None
      | Some a \<Rightarrow>
          (if check_source \<and> metadata_conflict a m then Inl (Semantic PatchConflict)
           else and_then
             (case am_worktree_path a of
                Set path \<Rightarrow> and_then (bad_request (binding_resolve g (cwd m) path)) (\<lambda>_. Inr ()) | _ \<Rightarrow> Inr ())
             (\<lambda>_. case am_plan_path a of
                Omitted \<Rightarrow> Inr None
              | Clear \<Rightarrow> if user_pinned m then Inl (Semantic PatchConflict) else Inr None
              | Set path \<Rightarrow> reported_plan g docs a path m)))"

section \<open>Application\<close>

definition apply_attention :: "attention_state \<Rightarrow> session_metadata \<Rightarrow> session_metadata" where
  "apply_attention a m =
     (let cleared = (at_observed_status a = None) in
      m\<lparr>observed_status := at_observed_status a, needs_user_input := at_needs_user_input a,
        detected_question := at_detected_question a, suggested_options := at_suggested_options a,
        attention := canonical_attention (at_observed_status a),
        provenance := (provenance m)\<lparr>attention_source := Some (if cleared then ''unknown'' else ''agent''),
          attention_confidence := Some (if cleared then f_zero else f_one),
          attention_origin := Some ''direct_agent''\<rparr>\<rparr>)"

definition apply_work :: "work_fields \<Rightarrow> session_metadata \<Rightarrow> session_metadata" where
  "apply_work w m =
     m\<lparr>task := wk_task w, next_action := wk_next_action w, work_phase := wk_work_phase w,
       blocker_description := wk_blocker_description w, failed_command := wk_failed_command w,
       failed_test := wk_failed_test w, metadata_source := ''agent'', metadata_confidence := f_one\<rparr>"

definition apply_summary :: "clock \<Rightarrow> string field_update \<Rightarrow> session_metadata \<Rightarrow> session_metadata" where
  "apply_summary clk u m =
     (case u of
        Omitted \<Rightarrow> m
      | Clear \<Rightarrow> m\<lparr>summary := None, provenance := (provenance m)\<lparr>summary_source := None, summary_confidence := None,
                   summary_observed_at := None\<rparr>\<rparr>
      | Set v \<Rightarrow> m\<lparr>summary := Some v, provenance := (provenance m)\<lparr>summary_source := Some ''agent'',
                   summary_confidence := Some f_one, summary_observed_at := Some (iso_now clk)\<rparr>\<rparr>)"

definition apply_plan :: "plan_reference option \<Rightarrow> string field_update \<Rightarrow> session_metadata \<Rightarrow> session_metadata" where
  "apply_plan plan u m =
     (case u of
        Omitted \<Rightarrow> m
      | Clear \<Rightarrow> m\<lparr>plan_path := None\<rparr>
      | Set _ \<Rightarrow> if user_pinned m then m else m\<lparr>plan_path := plan\<rparr>)"

definition apply_agent ::
  "clock \<Rightarrow> agent_metadata \<Rightarrow> worktree_binding option \<Rightarrow> plan_reference option \<Rightarrow> session_metadata \<Rightarrow> session_metadata" where
  "apply_agent clk a binding plan m =
     (let m1 = (if am_worktree_path a = Omitted then m else m\<lparr>worktree_binding := binding\<rparr>);
          m2 = (case am_work_fields a of None \<Rightarrow> m1 | Some w \<Rightarrow> apply_work w m1)
      in apply_plan plan (am_plan_path a) (apply_summary clk (am_summary a) m2))"

definition apply_fields ::
  "clock \<Rightarrow> agent_patch \<Rightarrow> worktree_binding option \<Rightarrow> plan_reference option \<Rightarrow> session_metadata \<Rightarrow> session_metadata" where
  "apply_fields clk p binding plan m =
     (let m1 = (case attention_state p of None \<Rightarrow> m | Some a \<Rightarrow> apply_attention a m);
          m2 = (case agent_metadata p of None \<Rightarrow> m1 | Some a \<Rightarrow> apply_agent clk a binding plan m1)
      in m2\<lparr>last_activity := iso_now clk\<rparr>)"

text \<open>\<open>AgentPatch::apply\<close>: the record is written only once nothing can fail any more.\<close>

definition patch_apply ::
  "clock \<Rightarrow> git_view \<Rightarrow> branch_store option \<Rightarrow> agent_patch \<Rightarrow> plan_reference option mutate" where
  "patch_apply clk g docs p m =
     (case and_then (require_live m) (\<lambda>_. validate_current g docs p True m) of
        Inl e \<Rightarrow> (Inl e, m)
      | Inr plan \<Rightarrow>
          (case (case map_option am_worktree_path (agent_metadata p) of
                   Some (Set path) \<Rightarrow> and_then (bad_request (binding_resolve g (cwd m) path)) (\<lambda>b. Inr (Some b))
                 | _ \<Rightarrow> Inr None) of
             Inl e \<Rightarrow> (Inl e, m)
           | Inr binding \<Rightarrow> (Inr plan, apply_fields clk p binding plan m)))"

fun map_error :: "tx_error \<Rightarrow> agent_patch_error" where
  "map_error Conflict = PConflict"
| "map_error (Io (Semantic PatchConflict)) = PConflict"
| "map_error (Io (Semantic PatchBadRequest)) = PBadRequest"
| "map_error (Io (Semantic PatchUnauthorized)) = PUnauthorized"
| "map_error (Io e) = PIo e"

definition map_left :: "('a \<Rightarrow> 'b) \<Rightarrow> 'a + 'c \<Rightarrow> 'b + 'c" where
  "map_left f r = (case r of Inl e \<Rightarrow> Inl (f e) | Inr x \<Rightarrow> Inr x)"

definition apply_checked :: "clock \<Rightarrow> git_view \<Rightarrow> agent_patch \<Rightarrow> session_metadata \<Rightarrow> (agent_patch_error + unit) \<times> session_metadata" where
  "apply_checked clk g p m =
     (let (r, m1) = patch_apply clk g None p m
      in (map_left (\<lambda>e. map_error (Io e)) (and_then r (\<lambda>_. Inr ())), m1))"

definition validate_agent_patch ::
  "record_codec \<Rightarrow> clock \<Rightarrow> disk \<Rightarrow> git_view \<Rightarrow> branch_store \<Rightarrow> string \<Rightarrow> u64 \<Rightarrow> agent_patch \<Rightarrow> store \<Rightarrow>
   agent_patch_error + u64" where
  "validate_agent_patch c clk d g docs i expected p st =
     (case require_record c clk d i st of
        Inl e \<Rightarrow> Inl (PIo e)
      | Inr r \<Rightarrow>
          (if rec_revision r \<noteq> expected then Inl PConflict
           else map_left (\<lambda>e. map_error (Io e))
             (and_then (require_live (rec_metadata r)) (\<lambda>_.
              and_then (validate_current g (Some docs) p False (rec_metadata r)) (\<lambda>_. Inr (rec_revision r))))))"

definition apply_mutate :: "clock \<Rightarrow> git_view \<Rightarrow> branch_store \<Rightarrow> agent_patch \<Rightarrow> unit mutate" where
  "apply_mutate clk g docs p m =
     (let (r, m1) = patch_apply clk g (Some docs) p m in (and_then r (\<lambda>_. Inr ()), m1))"

text \<open>
  The publication of the branch document after the commit is a supplementary write to another
  store, whose failure is only logged; it is not part of the record.
\<close>

definition apply_agent_patch ::
  "record_codec \<Rightarrow> clock \<Rightarrow> disk \<Rightarrow> git_view \<Rightarrow> branch_store \<Rightarrow> string \<Rightarrow> u64 \<Rightarrow> agent_patch \<Rightarrow> store \<Rightarrow>
   (agent_patch_error + revisioned_session) \<times> store" where
  "apply_agent_patch c clk d g docs i expected p st =
     (case try_update_session_scoped c clk d i expected (patch_scope p) (apply_mutate clk g docs p) st of
        (Inl e, st1) \<Rightarrow> (Inl (map_error e), st1)
      | (Inr r, st1) \<Rightarrow> (Inr r, st1))"

section \<open>What a patch can change\<close>

lemmas apply_defs = apply_attention_def apply_work_def apply_summary_def apply_plan_def apply_agent_def apply_fields_def

lemma validated_attention:
  assumes "attention_validate a = Inr ()"
  shows "(at_observed_status a = Some ''waiting_for_input'' \<longrightarrow> at_needs_user_input a = Some True) \<and>
    (at_needs_user_input a = Some True \<longrightarrow>
       canonical_attention (at_observed_status a) \<in> {Some ''needs_you'', Some ''blocked'', Some ''failed'', Some ''capped''}) \<and>
    (at_detected_question a \<noteq> None \<longrightarrow> at_needs_user_input a = Some True) \<and>
    (at_suggested_options a \<notin> {None, Some []} \<longrightarrow> at_detected_question a \<noteq> None)"
  using assms
  by (auto simp: attention_validate_def Let_def is_some_and_iff canonical_attention_def split: if_split_asm)

definition summary_part :: "session_metadata \<Rightarrow> string option \<times> string option \<times> f64 option \<times> string option" where
  "summary_part m = (summary m, summary_source (provenance m), summary_confidence (provenance m),
     summary_observed_at (provenance m))"

definition home_part :: "session_metadata \<Rightarrow> string \<times> string \<times> string \<times> string \<times> string \<times> label_source \<times> string" where
  "home_part m = (sid m, created_at m, workspace m, cwd m, label m, label_source m, harness m)"

lemmas patch_part_defs = part_defs summary_part_def home_part_def lifecycle_part_def identity_part_def user_pinned_def

lemma apply_summary_parts [simp]:
  "attention_part (apply_summary clk u m) = attention_part m" "work_part (apply_summary clk u m) = work_part m"
  "home_part (apply_summary clk u m) = home_part m" "lifecycle_part (apply_summary clk u m) = lifecycle_part m"
  "identity_part (apply_summary clk u m) = identity_part m" "plan_path (apply_summary clk u m) = plan_path m"
  "u = Omitted \<Longrightarrow> summary_part (apply_summary clk u m) = summary_part m"
  by (cases u; simp add: apply_summary_def patch_part_defs)+

lemma apply_work_parts [simp]:
  "attention_part (apply_work w m) = attention_part m" "summary_part (apply_work w m) = summary_part m"
  "home_part (apply_work w m) = home_part m" "lifecycle_part (apply_work w m) = lifecycle_part m"
  "identity_part (apply_work w m) = identity_part m" "plan_path (apply_work w m) = plan_path m"
  by (simp_all add: apply_work_def patch_part_defs)

lemma apply_attention_parts [simp]:
  "work_part (apply_attention a m) = work_part m" "summary_part (apply_attention a m) = summary_part m"
  "home_part (apply_attention a m) = home_part m" "lifecycle_part (apply_attention a m) = lifecycle_part m"
  "identity_part (apply_attention a m) = identity_part m" "plan_path (apply_attention a m) = plan_path m"
  by (simp_all add: apply_attention_def patch_part_defs Let_def)

lemma apply_plan_parts [simp]:
  "attention_part (apply_plan pl u m) = attention_part m" "work_part (apply_plan pl u m) = work_part m"
  "summary_part (apply_plan pl u m) = summary_part m" "home_part (apply_plan pl u m) = home_part m"
  "lifecycle_part (apply_plan pl u m) = lifecycle_part m" "identity_part (apply_plan pl u m) = identity_part m"
  by (cases u; simp add: apply_plan_def patch_part_defs)+

lemma rebind_parts [simp]:
  "attention_part (m\<lparr>worktree_binding := b\<rparr>) = attention_part m" "work_part (m\<lparr>worktree_binding := b\<rparr>) = work_part m"
  "summary_part (m\<lparr>worktree_binding := b\<rparr>) = summary_part m" "home_part (m\<lparr>worktree_binding := b\<rparr>) = home_part m"
  "lifecycle_part (m\<lparr>worktree_binding := b\<rparr>) = lifecycle_part m"
  "identity_part (m\<lparr>worktree_binding := b\<rparr>) = identity_part m"
  by (simp_all add: patch_part_defs)

lemma touch_parts [simp]:
  "attention_part (m\<lparr>last_activity := t\<rparr>) = attention_part m" "work_part (m\<lparr>last_activity := t\<rparr>) = work_part m"
  "summary_part (m\<lparr>last_activity := t\<rparr>) = summary_part m" "home_part (m\<lparr>last_activity := t\<rparr>) = home_part m"
  "lifecycle_part (m\<lparr>last_activity := t\<rparr>) = lifecycle_part m" "identity_part (m\<lparr>last_activity := t\<rparr>) = identity_part m"
  by (simp_all add: patch_part_defs)

lemma apply_agent_parts:
  "attention_part (apply_agent clk a b pl m) = attention_part m"
  "home_part (apply_agent clk a b pl m) = home_part m"
  "lifecycle_part (apply_agent clk a b pl m) = lifecycle_part m"
  "identity_part (apply_agent clk a b pl m) = identity_part m"
  "am_work_fields a = None \<Longrightarrow> work_part (apply_agent clk a b pl m) = work_part m"
  "am_summary a = Omitted \<Longrightarrow> summary_part (apply_agent clk a b pl m) = summary_part m"
  by (cases "am_work_fields a"; simp add: apply_agent_def Let_def)+

lemma apply_fields_parts:
  "home_part (apply_fields clk p b pl m) = home_part m"
  "lifecycle_part (apply_fields clk p b pl m) = lifecycle_part m"
  "identity_part (apply_fields clk p b pl m) = identity_part m"
  "\<not> scope_attention (patch_scope p) \<Longrightarrow> attention_part (apply_fields clk p b pl m) = attention_part m"
  "\<not> scope_work (patch_scope p) \<Longrightarrow> work_part (apply_fields clk p b pl m) = work_part m"
  "\<not> updates_summary p \<Longrightarrow> summary_part (apply_fields clk p b pl m) = summary_part m"
  by (cases "attention_state p"; cases "agent_metadata p";
      simp add: apply_fields_def apply_agent_parts Let_def patch_scope_def updates_summary_def)+

text \<open>What a patch says of the worktree and of the plan.\<close>

definition named_worktree :: "agent_patch \<Rightarrow> string field_update" where
  "named_worktree p = (case agent_metadata p of None \<Rightarrow> Omitted | Some a \<Rightarrow> am_worktree_path a)"


text \<open>The record without the fields that some patch can name and without the time of the last activity.\<close>

definition beyond_patches :: "session_metadata \<Rightarrow> session_metadata" where
  "beyond_patches m = m\<lparr>observed_status := None, needs_user_input := None, detected_question := None, suggested_options := None,
     attention := None, task := [], next_action := None, work_phase := [], blocker_description := None, failed_command := None,
     failed_test := None, metadata_source := [], metadata_confidence := f_zero, summary := None, worktree_binding := None,
     plan_path := None, last_activity := [],
     provenance := (provenance m)\<lparr>attention_source := None, attention_confidence := None, attention_origin := None,
       summary_source := None, summary_confidence := None, summary_observed_at := None\<rparr>\<rparr>"

lemma beyond_steps [simp]:
  "beyond_patches (apply_attention a m) = beyond_patches m" "beyond_patches (apply_work w m) = beyond_patches m"
  "beyond_patches (apply_summary clk u m) = beyond_patches m" "beyond_patches (apply_plan pl v m) = beyond_patches m"
  "beyond_patches (m\<lparr>worktree_binding := b\<rparr>) = beyond_patches m" "beyond_patches (m\<lparr>last_activity := t\<rparr>) = beyond_patches m"
  by (simp_all add: beyond_patches_def apply_attention_def apply_work_def apply_summary_def apply_plan_def Let_def
      split: field_update.split)

lemma worktree_steps [simp]:
  "worktree_binding (apply_attention a m) = worktree_binding m" "worktree_binding (apply_work w m) = worktree_binding m"
  "worktree_binding (apply_summary clk u m) = worktree_binding m" "worktree_binding (apply_plan pl v m) = worktree_binding m"
  by (simp_all add: apply_attention_def apply_work_def apply_summary_def apply_plan_def Let_def split: field_update.split)




lemma accepted_patch:
  assumes "patch_apply clk g docs p m = (Inr plan, m')"
  obtains b where "require_live m = Inr ()" and "validate_current g docs p True m = Inr plan" and "m' = apply_fields clk p b plan m"
    and "case named_worktree p of Set path \<Rightarrow> (\<exists>w. binding_resolve g (cwd m) path = Inr w \<and> b = Some w) | _ \<Rightarrow> b = None"
  using assms
  by (auto simp: patch_apply_def and_then_ok named_worktree_def bad_request_def split: sum.splits option.splits field_update.splits)


section \<open>Properties\<close>


definition attention_consistent :: "session_metadata \<Rightarrow> bool" where
  "attention_consistent m \<longleftrightarrow>
     attention m = canonical_attention (observed_status m) \<and>
     (observed_status m = Some ''waiting_for_input'' \<longrightarrow> needs_user_input m = Some True) \<and>
     (needs_user_input m = Some True \<longrightarrow>
        attention m \<in> {Some ''needs_you'', Some ''blocked'', Some ''failed'', Some ''capped''}) \<and>
     (detected_question m \<noteq> None \<longrightarrow> needs_user_input m = Some True) \<and>
     (suggested_options m \<notin> {None, Some []} \<longrightarrow> detected_question m \<noteq> None)"

lemma apply_attention_consistent: "attention_validate a = Inr () \<Longrightarrow> attention_consistent (apply_attention a m)"
  using validated_attention [of a] by (simp add: attention_consistent_def apply_attention_def Let_def)

lemma attention_consistent_part:
  "attention_part m' = attention_part m \<Longrightarrow> attention_consistent m' = attention_consistent m"
  by (simp add: attention_consistent_def attention_part_def prompt_fields_def)

text \<open>
  A decoded patch keeps the attention fields of a record consistent: after it is applied, whatever it
  names, the attention shown is the one that follows from the observed status, a session that waits
  for input says that it needs the user, one that needs the user shows a state that asks for
  attention, a question is present only then, and options only with a question; provided the record
  was consistent before or the patch replaces the tuple. The work phase stays one of the known ones.
\<close>

theorem patched_attention_consistent:
  assumes "decode_envelope raw = Inr env" and "patch_apply clk g docs (envelope_patch env) m = (Inr plan, m')"
    and "attention_consistent m \<or> attention_state (envelope_patch env) \<noteq> None"
    and "known_work_phase (work_phase m)"
  shows "attention_consistent m' \<and> known_work_phase (work_phase m')"
proof -
  let ?p = "envelope_patch env"
  have ok: "patch_validate ?p = Inr ()" using assms(1) by (auto simp: decode_envelope_def and_then_ok)
  obtain b where m': "m' = apply_fields clk ?p b plan m" by (rule accepted_patch [OF assms(2)])
  define m1 where "m1 = (case attention_state ?p of None \<Rightarrow> m | Some a \<Rightarrow> apply_attention a m)"
  have "attention_consistent m1"
    using assms(3) ok apply_attention_consistent
    by (cases "attention_state ?p") (auto simp: m1_def patch_validate_def first_error_ok split: if_split_asm)
  moreover have same: "attention_part m' = attention_part m1"
    unfolding m' m1_def
    by (cases "attention_state ?p"; cases "agent_metadata ?p") (simp_all add: apply_fields_def apply_agent_parts Let_def)
  ultimately have "attention_consistent m'" using attention_consistent_part by blast
  moreover have "known_work_phase (work_phase m')"
  proof (cases "scope_work (patch_scope ?p)")
    case False
    then have "work_part m' = work_part m" unfolding m' by (rule apply_fields_parts(5))
    then show ?thesis using assms(4) by (simp add: work_part_def)
  next
    case True
    then obtain a w where aw: "agent_metadata ?p = Some a" "am_work_fields a = Some w"
      by (auto simp: patch_scope_def is_some_and_iff)
    then have "agent_metadata_validate a = Inr ()"
      using ok by (auto simp: patch_validate_def first_error_ok split: if_split_asm)
    then have "work_validate w = Inr ()"
      using aw by (auto simp: agent_metadata_validate_def split: if_split_asm)
    then have "known_work_phase (wk_work_phase w)"
      by (auto simp: work_validate_def known_work_phase_def split: if_split_asm)
    moreover have "work_phase m' = wk_work_phase w"
      using aw unfolding m'
      by (cases "am_summary a"; cases "am_plan_path a")
         (simp_all add: apply_fields_def apply_agent_def apply_work_def apply_summary_def apply_plan_def Let_def)
    ultimately show ?thesis by simp
  qed
  ultimately show ?thesis by blast
qed

section \<open>Patches through the store\<close>

lemma patch_apply_sid:
  assumes "patch_apply clk g docs p m = (Inr plan, m')"
  shows "sid m' = sid m"
proof -
  obtain b where "m' = apply_fields clk p b plan m" by (rule accepted_patch [OF assms])
  then have "home_part m' = home_part m" by (simp add: apply_fields_parts)
  then show ?thesis by (simp add: home_part_def)
qed

text \<open>
  C31: A patch sent with the revision it was based on either commits as a whole or does nothing. When it
  answers with any error, no record and no attention owner has changed, whatever the disk did. When
  it answers with a record, the stored revision was the expected one, the session was live, and what
  was stored is that record: the patched one with the clocks of the patched scopes moved, under the
  next revision.
\<close>

theorem agent_patch_all_or_nothing:
  assumes "apply_agent_patch c clk d g docs i expected p st = (res, st')"
  shows "(case res of
     Inl e \<Rightarrow> records st' = records st \<and> corrupt st' = corrupt st \<and> session_writes st' = session_writes st
   | Inr r \<Rightarrow> \<exists>cur plan m j.
       require_record c clk d i st = Inr cur \<and> rec_revision cur = expected \<and>
       patch_apply clk g (Some docs) p (rec_metadata cur) = (Inr plan, m) \<and>
       rec_metadata r = stamp_scope clk (patch_scope p) m \<and> checked_add expected 1 = Some (rec_revision r) \<and>
       to_json c r = Some j \<and> records st' = (records st)(i \<mapsto> j))"
proof -
  let ?f = "apply_mutate clk g docs p"
  obtain r0 where go: "update_session_locked c clk d i (Some expected) (patch_scope p) ?f st = (r0, st')"
    and res: "res = map_left map_error r0"
    using assms
    by (cases "update_session_locked c clk d i (Some expected) (patch_scope p) ?f st"; cases "fst (update_session_locked c clk d i (Some expected) (patch_scope p) ?f st)")
       (auto simp: apply_agent_patch_def try_update_session_scoped_def map_left_def)
  show ?thesis
  proof (cases r0)
    case (Inl e)
    then have "store_step c clk d (Update i (Some expected) (patch_scope p) ?f) st = (Inl e, st')" using go by simp
    then have "same_durable st st'"
      using store_step_shape [of "Update i (Some expected) (patch_scope p) ?f" c clk d st]
      by (simp del: store_step.simps)
    then show ?thesis using Inl res by (simp add: same_durable_def map_left_def)
  next
    case (Inr r)
    obtain cur where cur: "require_record c clk d i st = Inr cur"
      using go Inr by (cases "require_record c clk d i st") (simp_all add: update_session_locked_def)
    obtain a m where f: "patch_apply clk g (Some docs) p (rec_metadata cur) = (a, m)"
      by (cases "patch_apply clk g (Some docs) p (rec_metadata cur)")
    have ok: "rec_revision cur = expected"
      using go Inr cur by (simp add: update_session_locked_def split: if_split_asm)
    obtain nxt where nxt: "next_revision expected = Inr nxt"
      using go Inr cur ok by (cases "next_revision expected") (simp_all add: update_session_locked_def)
    obtain plan where plan: "a = Inr plan"
      using go Inr cur ok nxt f by (cases a) (simp_all add: update_session_locked_def apply_mutate_def)
    have "lift_io (commit_before_replace c clk d i (cur\<lparr>rec_metadata := m\<rparr>) (patch_scope p) nxt (\<lambda>_. Inr ()) st) = (Inr r, st')"
      using go Inr cur ok nxt f plan
      by (simp add: update_session_locked_def apply_mutate_def commit_with_revision_def split: if_split_asm)
    then have "commit_before_replace c clk d i (cur\<lparr>rec_metadata := m\<rparr>) (patch_scope p) nxt (\<lambda>_. Inr ()) st = (Inr r, st')"
      by (simp add: lift_io_def split: prod.split_asm sum.split_asm)
    from commit_before_replace_cases [OF this] show ?thesis
      using Inr res cur ok nxt f plan by (auto simp: map_left_def next_revision_ok publishes_def)
  qed
qed

text \<open>Checking the sources is the only difference between validating and applying.\<close>

definition patch_conflict :: "agent_patch \<Rightarrow> session_metadata \<Rightarrow> bool" where
  "patch_conflict p m \<longleftrightarrow> source_conflict p m \<or> is_some_and (\<lambda>a. metadata_conflict a m) (agent_metadata p)"

lemma validate_current_sources:
  assumes "validate_current g docs p False m = Inr plan"
  shows "validate_current g docs p True m = (if patch_conflict p m then Inl (Semantic PatchConflict) else Inr plan)"
  using assms unfolding validate_current_def patch_conflict_def
  by (cases "source_conflict p m"; cases "agent_metadata p";
      cases "is_some_and (\<lambda>a. metadata_conflict a m) (agent_metadata p)") (simp_all split del: if_split)

lemma validated_binding:
  assumes "validate_current g docs p False m = Inr plan"
  shows "\<exists>b. (case map_option am_worktree_path (agent_metadata p) of
            Some (Set path) \<Rightarrow> and_then (bad_request (binding_resolve g (cwd m) path)) (\<lambda>b. Inr (Some b))
          | _ \<Rightarrow> Inr None) = Inr b"
  using assms
  by (auto simp: validate_current_def and_then_ok split: option.split field_update.split option.split_asm field_update.split_asm)

lemma validated_apply:
  assumes "require_live m = Inr ()" and "validate_current g docs p False m = Inr plan"
  shows "if patch_conflict p m then patch_apply clk g docs p m = (Inl (Semantic PatchConflict), m)
         else \<exists>b. patch_apply clk g docs p m = (Inr plan, apply_fields clk p b plan m)"
proof (cases "patch_conflict p m")
  case True
  then show ?thesis using assms(1) validate_current_sources [OF assms(2)] by (simp add: patch_apply_def)
next
  case False
  obtain b where "(case map_option am_worktree_path (agent_metadata p) of
      Some (Set path) \<Rightarrow> and_then (bad_request (binding_resolve g (cwd m) path)) (\<lambda>b. Inr (Some b)) | _ \<Rightarrow> Inr None) = Inr b"
    using validated_binding [OF assms(2)] by blast
  then show ?thesis
    using False assms(1) validate_current_sources [OF assms(2)] unfolding patch_apply_def by auto
qed

text \<open>
  Validation is a promise. If a patch validates against a revision and nothing has been written in
  between, then applying it against that revision cannot fail in any way but one: the record belongs
  to a source that an agent may not override, which is reported as a conflict and changes nothing.
  This holds with a disk that works, a record that serializes and a revision that can advance.
\<close>

theorem validated_patch_applies:
  assumes "validate_agent_patch c clk d g docs i expected p st = Inr v"
    and "healthy d" and "\<And>r. to_json c r \<noteq> None" and "checked_add expected 1 \<noteq> None"
  shows "\<exists>cur. require_record c clk d i st = Inr cur \<and> v = expected \<and>
    (if patch_conflict p (rec_metadata cur)
     then apply_agent_patch c clk d g docs i expected p st = (Inl PConflict, st)
     else \<exists>r st'. apply_agent_patch c clk d g docs i expected p st = (Inr r, st'))"
proof -
  obtain cur where cur: "require_record c clk d i st = Inr cur" "rec_revision cur = expected" "v = expected"
    and live: "require_live (rec_metadata cur) = Inr ()"
    and val: "\<exists>plan. validate_current g (Some docs) p False (rec_metadata cur) = Inr plan"
    using assms(1)
    by (auto simp: validate_agent_patch_def map_left_def and_then_ok split: sum.split_asm if_split_asm)
  obtain plan where plan: "validate_current g (Some docs) p False (rec_metadata cur) = Inr plan" using val ..
  obtain nxt where nxt: "next_revision expected = Inr nxt" using assms(4) by (auto simp: next_revision_def)
  note applied = validated_apply [OF live plan, of clk]
  show ?thesis
  proof (cases "patch_conflict p (rec_metadata cur)")
    case True
    then have "apply_agent_patch c clk d g docs i expected p st = (Inl PConflict, st)"
      using applied cur nxt
      by (simp add: apply_agent_patch_def try_update_session_scoped_def update_session_locked_def apply_mutate_def)
    then show ?thesis using True cur by simp
  next
    case False
    then obtain b where b: "patch_apply clk g (Some docs) p (rec_metadata cur) = (Inr plan, apply_fields clk p b plan (rec_metadata cur))"
      using applied by auto
    let ?m = "apply_fields clk p b plan (rec_metadata cur)"
    have "sid (rec_metadata cur) = i"
      using cur(1) stored_id [of c clk d i st cur]
      by (auto simp: require_record_def and_then_ok split: option.split_asm)
    then have id: "sid ?m = i" using patch_apply_sid [OF b] by simp
    obtain j where j: "to_json c \<lparr>rec_metadata = stamp_scope clk (patch_scope p) ?m, rec_revision = nxt\<rparr> = Some j"
      using assms(3) by blast
    have "\<exists>r st'. update_session_locked c clk d i (Some expected) (patch_scope p) (apply_mutate clk g docs p) st = (Inr r, st')"
      using cur nxt b id j assms(2)
      by (simp add: update_session_locked_def apply_mutate_def commit_with_revision_def commit_before_replace_def
          write_stage_def rename_stage_def healthy_def)
    then show ?thesis using cur False by (auto simp: apply_agent_patch_def try_update_session_scoped_def)
  qed
qed

section \<open>Concrete patches\<close>

definition no_git :: git_view where
  "no_git = \<lparr>is_dir = (\<lambda>_. False), discover = (\<lambda>_. None), open_repository = (\<lambda>_. None),
     canonical_git_path = (\<lambda>_. None), canonicalize = (\<lambda>_. None), resolve_printed_plan_path = (\<lambda>_ _. None),
     kind_for_path = (\<lambda>_. None), branch_identity = (\<lambda>_. None)\<rparr>"

definition no_documents :: branch_store where
  "no_documents _ = Inr []"

definition ask_patch :: agent_patch where
  "ask_patch = \<lparr>attention_state = Some \<lparr>at_observed_status = Some ''waiting_for_input'', at_needs_user_input = Some True,
     at_detected_question = Some ''Go?'', at_suggested_options = Some [''yes'', ''no'']\<rparr>, agent_metadata = None\<rparr>"


definition one_record :: record_codec where
  "one_record = \<lparr>to_json = (\<lambda>_. Some ''b''), from_json = (\<lambda>_. Some stored_blank)\<rparr>"

lemma blank_live: "require_live blank_metadata = Inr ()"
  by (simp add: require_live_def blank_metadata_def)

lemma ask_accepted:
  "patch_apply sample_clock no_git docs ask_patch blank_metadata =
     (Inr None, apply_fields sample_clock ask_patch None None blank_metadata)"
  using blank_live
  by (simp add: patch_apply_def validate_current_def source_conflict_def ask_patch_def)
     (simp add: blank_metadata_def blank_provenance_def meta_attention_source_def attention_source_or_def can_overwrite_def
       source_rank_def)

theorem patched_attention_consistent_witness:
  "attention_consistent (snd (patch_apply sample_clock no_git None ask_patch blank_metadata)) \<and>
   known_work_phase (work_phase (snd (patch_apply sample_clock no_git None ask_patch blank_metadata)))"
proof -
  let ?env = "\<lparr>envelope_revision = 0, envelope_patch = ask_patch\<rparr>"
  have "decode_envelope ?env = Inr ?env"
    by (simp add: decode_envelope_def patch_validate_def ask_patch_def attention_validate_def valid_text_def) code_simp
  moreover have "known_work_phase (work_phase blank_metadata)" by (simp add: blank_metadata_def known_work_phase_def)
  ultimately show ?thesis
    using patched_attention_consistent [of ?env ?env sample_clock no_git None blank_metadata] ask_accepted [of None]
    by (simp add: ask_patch_def)
qed


theorem agent_patch_all_or_nothing_witness:
  "records (snd (apply_agent_patch sample_codec sample_clock sound_disk no_git no_documents ''s1'' 7 ask_patch sample_store)) =
     records sample_store"
proof -
  have "update_session_locked sample_codec sample_clock sound_disk ''s1'' (Some 7) sc f sample_store = (Inl Conflict, sample_store)"
    for sc f
    using stale_conflict [OF sample_readable, of sound_disk 7] sample_contents by (simp add: version_def)
  then have "fst (apply_agent_patch sample_codec sample_clock sound_disk no_git no_documents ''s1'' 7 ask_patch sample_store) =
      Inl PConflict"
    by (simp add: apply_agent_patch_def try_update_session_scoped_def)
  then show ?thesis
    using agent_patch_all_or_nothing [OF surjective_pairing,
        of sample_codec sample_clock sound_disk no_git no_documents "''s1''" 7 ask_patch sample_store]
    by simp
qed

theorem validated_patch_applies_witness:
  "\<exists>r st'. apply_agent_patch one_record sample_clock sound_disk no_git no_documents ''s1'' 0 ask_patch sample_store = (Inr r, st')"
proof -
  have fixed: "normalize_session_metadata blank_metadata = blank_metadata"
    by (rule settled_fixed) (simp add: settled_def blank_wf, simp add: blank_metadata_def derived_attention_def norm_lifecycle_def norm_attention_def)
  have req: "require_record one_record sample_clock sound_disk ''s1'' sample_store =
      Inr \<lparr>rec_metadata = read_view sample_clock None blank_metadata, rec_revision = 0\<rparr>"
    by (simp add: require_record_def try_read_revisioned_session_def sound_disk_def sample_store_def one_record_def)
  have "lifecycle (read_view sample_clock None blank_metadata) = ''alive''"
    "lifecycle_phase (read_view sample_clock None blank_metadata) = ''active''"
    "status (read_view sample_clock None blank_metadata) = ''running''"
    "meta_attention_source (read_view sample_clock None blank_metadata) = ''process''"
    by (simp_all add: read_view_def hydrated_def fixed)
       (simp_all add: blank_metadata_def hydrate_legacy_def blank_provenance_def meta_attention_source_def attention_source_or_def Let_def)
  then have "validate_agent_patch one_record sample_clock sound_disk no_git no_documents ''s1'' 0 ask_patch sample_store = Inr 0"
    and "\<not> patch_conflict ask_patch (read_view sample_clock None blank_metadata)"
    by (simp_all add: validate_agent_patch_def req require_live_def validate_current_def ask_patch_def map_left_def
        patch_conflict_def source_conflict_def can_overwrite_def source_rank_def)
  moreover have "healthy sound_disk" by (simp add: healthy_def sound_disk_def)
  moreover have "to_json one_record r \<noteq> None" for r by (simp add: one_record_def)
  moreover have "checked_add (0 :: u64) 1 \<noteq> None" by (simp add: checked_add_def)
  ultimately show ?thesis
    using validated_patch_applies [of one_record sample_clock sound_disk no_git no_documents "''s1''" 0 ask_patch sample_store 0] req
    by simp
qed

end
