(* ===== verification/Terminal_Output.thy ===== *)
theory Terminal_Output
  imports Utf8 Decimal
begin

text \<open>
  The replay history of a terminal: the \<^verbatim>\<open>.terminal\<close> file of \<^verbatim>\<open>metadata.rs\<close>, a bounded sequence of
  records one per line, and the \<^verbatim>\<open>.terminal-size\<close> file beside it. A file is its bytes, or absent; what
  the file system answers to each call is an input. The JSON of one record is a parameter.
\<close>

section \<open>Data\<close>

definition TERMINAL_OUTPUT_MAX_LINES :: nat where
  "TERMINAL_OUTPUT_MAX_LINES = 1000"

definition TERMINAL_OUTPUT_MAX_BYTES :: nat where
  "TERMINAL_OUTPUT_MAX_BYTES = 1 * 1024 * 1024"

definition TERMINAL_OUTPUT_TRIM_TARGET_BYTES :: nat where
  "TERMINAL_OUTPUT_TRIM_TARGET_BYTES = TERMINAL_OUTPUT_MAX_BYTES * 3 div 4"

definition TERMINAL_OUTPUT_TRIM_TARGET_LINES :: nat where
  "TERMINAL_OUTPUT_TRIM_TARGET_LINES = TERMINAL_OUTPUT_MAX_LINES * 3 div 4"

definition RECORD_PREFIX :: byte where
  "RECORD_PREFIX = CHR 0x1E"

definition NL :: byte where
  "NL = CHR 0x0A"

definition FILE_MARKER :: string where
  "FILE_MARKER = RECORD_PREFIX # ''orkworks-terminal-v1''"

definition marker_line :: string where
  "marker_line = FILE_MARKER @ [NL]"

datatype terminal_output_record = Legacy string | Raw (raw_text: string) (raw_delimiter: string)

fun record_text :: "terminal_output_record \<Rightarrow> string" where
  "record_text (Legacy t) = t"
| "record_text (Raw t d) = t"

text \<open>serde's text of \<open>{v, text, delimiter}\<close> and its parse.\<close>

record line_codec =
  json_of :: "string \<Rightarrow> string \<Rightarrow> string"
  json_parse :: "string \<Rightarrow> (nat \<times> string \<times> string) option"

fun encode_terminal_output_record :: "line_codec \<Rightarrow> terminal_output_record \<Rightarrow> string" where
  "encode_terminal_output_record c (Legacy t) = RECORD_PREFIX # json_of c t []"
| "encode_terminal_output_record c (Raw t d) = RECORD_PREFIX # json_of c t d"

definition decode_terminal_output_record :: "line_codec \<Rightarrow> string \<Rightarrow> terminal_output_record" where
  "decode_terminal_output_record c line =
     (case strip_prefix [RECORD_PREFIX] line of
        None \<Rightarrow> Legacy line
      | Some json \<Rightarrow>
          (case json_parse c json of
             Some (v, t, d) \<Rightarrow>
               (if v = 1 \<and> d \<in> {[], [NL], [CHR 0x0D, NL]} then Raw t d else Legacy line)
           | None \<Rightarrow> Legacy line))"

section \<open>Reading a file line by line\<close>

text \<open>\<open>BufRead::read_until\<close>: the next line with its newline, and the rest.\<close>

fun read_until :: "string \<Rightarrow> string \<times> string" where
  "read_until [] = ([], [])"
| "read_until (c # cs) = (if c = NL then ([c], cs) else (let (l, r) = read_until cs in (c # l, r)))"

lemma read_until_append: "fst (read_until s) @ snd (read_until s) = s"
  by (induction s) (simp_all add: case_prod_beta Let_def)

lemma read_until_length: "s \<noteq> [] \<Longrightarrow> length (snd (read_until s)) < length s"
proof (induction s)
  case (Cons c cs)
  then show ?case by (cases "cs = []") (simp_all add: case_prod_beta Let_def)
qed simp

function physical_lines :: "string \<Rightarrow> string list" where
  "physical_lines s = (if s = [] then [] else fst (read_until s) # physical_lines (snd (read_until s)))"
  by pat_completeness auto

termination
  by (relation "measure length") (simp_all add: read_until_length)

declare physical_lines.simps [simp del]

text \<open>\<open>String::from_utf8_lossy\<close>: every maximal invalid sequence becomes U+FFFD.\<close>

definition REPLACEMENT :: string where
  "REPLACEMENT = [CHR 0xEF, CHR 0xBF, CHR 0xBD]"

function lossy :: "string \<Rightarrow> string" where
  "lossy [] = []"
| "lossy (c # cs) =
     (case cont_ranges c of
        None \<Rightarrow> REPLACEMENT @ lossy cs
      | Some rs \<Rightarrow>
          (case scan_seq rs 1 cs of
             Inl rest \<Rightarrow> (c # take (length rs) cs) @ lossy rest
           | Inr (Some k) \<Rightarrow> REPLACEMENT @ lossy (drop (k - 1) cs)
           | Inr None \<Rightarrow> REPLACEMENT))"
  by pat_completeness auto

termination
  by (relation "measure length") (auto dest: scan_seq_length)

definition strip_nl :: "string \<Rightarrow> string" where
  "strip_nl l = (if l \<noteq> [] \<and> last l = NL then butlast l else l)"

record terminal_output_tail =
  tail_lines :: "string list"
  tail_physical :: "string list"
  tail_marker :: "string option"
  tail_versioned :: bool
  tail_discarded :: bool

text \<open>The state of the reading loop: retained lines, their bytes, and whether one was dropped.\<close>

record tail_state =
  ts_lines :: "string list"
  ts_physical :: "string list"
  ts_bytes :: nat
  ts_discarded :: bool

definition keep_line :: "nat \<Rightarrow> string \<Rightarrow> tail_state \<Rightarrow> tail_state" where
  "keep_line max_lines bytes s =
     (if max_lines = 0 then s\<lparr>ts_discarded := True\<rparr>
      else
        (let s1 = (if length (ts_lines s) = max_lines
                   then \<lparr>ts_lines = tl (ts_lines s), ts_physical = tl (ts_physical s),
                         ts_bytes = ts_bytes s - length (hd (ts_physical s)), ts_discarded = True\<rparr>
                   else s)
         in s1\<lparr>ts_lines := ts_lines s1 @ [lossy (strip_nl bytes)], ts_physical := ts_physical s1 @ [bytes],
               ts_bytes := ts_bytes s1 + length bytes\<rparr>))"

fun drop_excess :: "nat \<Rightarrow> string list \<Rightarrow> string list \<Rightarrow> nat \<Rightarrow> bool \<Rightarrow> tail_state" where
  "drop_excess max_bytes (l # ls) (p # ps) n discarded =
     (if n > max_bytes then drop_excess max_bytes ls ps (n - length p) True
      else \<lparr>ts_lines = l # ls, ts_physical = p # ps, ts_bytes = n, ts_discarded = discarded\<rparr>)"
| "drop_excess max_bytes ls ps n discarded =
     \<lparr>ts_lines = ls, ts_physical = ps, ts_bytes = n, ts_discarded = discarded\<rparr>"

definition read_terminal_output_tail :: "string \<Rightarrow> nat \<Rightarrow> nat \<Rightarrow> terminal_output_tail" where
  "read_terminal_output_tail content max_lines max_bytes =
     (let ls = physical_lines content;
          versioned = (ls \<noteq> [] \<and> hd ls = marker_line);
          s = fold (keep_line max_lines) (if versioned then tl ls else ls)
                \<lparr>ts_lines = [], ts_physical = [], ts_bytes = 0, ts_discarded = False\<rparr>;
          s1 = drop_excess max_bytes (ts_lines s) (ts_physical s) (ts_bytes s) (ts_discarded s)
      in \<lparr>tail_lines = ts_lines s1, tail_physical = ts_physical s1,
          tail_marker = (if versioned then Some (hd ls) else None), tail_versioned = versioned,
          tail_discarded = ts_discarded s1\<rparr>)"

definition terminal_output_is_versioned :: "string \<Rightarrow> bool" where
  "terminal_output_is_versioned content \<longleftrightarrow> fst (read_until content) = marker_line"

text \<open>\<open>skip_until\<close> in a loop: whether that many further lines can be skipped.\<close>

fun skip_lines :: "nat \<Rightarrow> string \<Rightarrow> bool" where
  "skip_lines 0 s = True"
| "skip_lines (Suc n) s = (if s = [] then False else skip_lines n (snd (read_until s)))"

definition terminal_output_exceeds_line_limit :: "string \<Rightarrow> nat \<Rightarrow> bool" where
  "terminal_output_exceeds_line_limit content max_lines =
     (if content = [] then False
      else (let (l, rest) = read_until content;
                count = (if l = marker_line then 0 else 1)
            in skip_lines (Suc max_lines - count) rest))"

section \<open>The history file\<close>

text \<open>
  What the file system answers during one append: whether each call succeeds, and how many of the
  appended bytes reached the file when writing failed.
\<close>

record output_disk =
  dir_ok :: bool
  stat_ok :: bool
  probe_ok :: bool
  open_ok :: bool
  written :: "nat option"
  length_ok :: bool
  count_ok :: bool
  tail_ok :: bool
  replace_ok :: bool

definition trim_terminal_output :: "output_disk \<Rightarrow> nat \<Rightarrow> string option \<Rightarrow> string option" where
  "trim_terminal_output d max_lines file =
     (case (if tail_ok d then file else None) of
        None \<Rightarrow> file
      | Some content \<Rightarrow>
          (let tail = read_terminal_output_tail content max_lines TERMINAL_OUTPUT_TRIM_TARGET_BYTES in
           if \<not> tail_discarded tail then file
           else if replace_ok d
           then Some ((case tail_marker tail of None \<Rightarrow> [] | Some mk \<Rightarrow> mk) @ concat (tail_physical tail))
           else file))"

definition appended_bytes :: "line_codec \<Rightarrow> bool \<Rightarrow> bool \<Rightarrow> terminal_output_record list \<Rightarrow> string" where
  "appended_bytes c fresh versioned rs =
     (if fresh then marker_line else []) @
     concat (map (\<lambda>r. (if versioned \<or> fresh then encode_terminal_output_record c r else record_text r) @ [NL]) rs)"

definition append_terminal_output_records ::
  "line_codec \<Rightarrow> output_disk \<Rightarrow> terminal_output_record list \<Rightarrow> string option \<Rightarrow> string option" where
  "append_terminal_output_records c d rs file =
     (if rs = [] \<or> \<not> dir_ok d then file
      else
        (let content = (case file of None \<Rightarrow> [] | Some x \<Rightarrow> x);
             existing_len = (if stat_ok d then length content else 0);
             versioned = (existing_len > 0 \<and> probe_ok d \<and> terminal_output_is_versioned content)
         in if \<not> open_ok d then file
            else
              (let more = appended_bytes c (existing_len = 0) versioned rs
               in case written d of
                    Some n \<Rightarrow> Some (content @ take n more)
                  | None \<Rightarrow>
                      (let content1 = content @ more;
                           len_hint = (if length_ok d then length content1 else 0);
                           content_len_hint = (if versioned \<or> existing_len = 0 then len_hint - length marker_line else len_hint)
                       in if content_len_hint > TERMINAL_OUTPUT_MAX_BYTES \<or>
                             (count_ok d \<and> terminal_output_exceeds_line_limit content1 TERMINAL_OUTPUT_MAX_LINES)
                          then trim_terminal_output d TERMINAL_OUTPUT_TRIM_TARGET_LINES (Some content1)
                          else Some content1))))"

definition read_terminal_output :: "line_codec \<Rightarrow> output_disk \<Rightarrow> nat \<Rightarrow> string option \<Rightarrow> terminal_output_record list" where
  "read_terminal_output c d max_lines file =
     (case (if tail_ok d then file else None) of
        None \<Rightarrow> []
      | Some content \<Rightarrow>
          (let tail = read_terminal_output_tail content max_lines TERMINAL_OUTPUT_MAX_BYTES in
           map (\<lambda>l. if tail_versioned tail then decode_terminal_output_record c l else Legacy l) (tail_lines tail)))"

section \<open>The size file\<close>

definition size_text :: "16 word \<Rightarrow> 16 word \<Rightarrow> string" where
  "size_text cols rows = show_nat (unat cols) @ CHR ''x'' # show_nat (unat rows)"

text \<open>A write that fails leaves the file as \<open>failed\<close> says: as it was, empty, or torn.\<close>

definition try_write_terminal_size :: "string option option \<Rightarrow> 16 word \<Rightarrow> 16 word \<Rightarrow> bool \<times> string option" where
  "try_write_terminal_size failed cols rows =
     (case failed of Some left \<Rightarrow> (False, left) | None \<Rightarrow> (True, Some (size_text cols rows)))"

definition read_terminal_size :: "string option \<Rightarrow> (16 word \<times> 16 word) option" where
  "read_terminal_size file =
     Option.bind file (\<lambda>content.
       if from_utf8 content \<noteq> Utf8_Ok then None
       else Option.bind (split_once (CHR ''x'') (trim content)) (\<lambda>(a, b).
              Option.bind (parse_uint (2 ^ 16) a) (\<lambda>cols.
              Option.bind (parse_uint (2 ^ 16) b) (\<lambda>rows.
                if cols = 0 \<or> rows = 0 then None else Some (of_nat cols, of_nat rows)))))"

definition clear_terminal_size :: "bool \<Rightarrow> string option \<Rightarrow> string option" where
  "clear_terminal_size can_remove file = (if can_remove then None else file)"

section \<open>Lines\<close>

lemma physical_lines_Nil [simp]: "physical_lines [] = []"
  by (simp add: physical_lines.simps)

lemma physical_lines_step: "s \<noteq> [] \<Longrightarrow> physical_lines s = fst (read_until s) # physical_lines (snd (read_until s))"
  by (subst physical_lines.simps) simp

lemma physical_lines_concat: "concat (physical_lines s) = s"
proof (induction s rule: physical_lines.induct)
  case (1 s)
  then show ?case using read_until_append [of s] by (cases "s = []") (simp_all add: physical_lines_step)
qed

lemma read_until_line: "NL \<notin> set l \<Longrightarrow> read_until (l @ NL # r) = (l @ [NL], r)"
  by (induction l) auto

lemma physical_lines_of:
  "list_all (\<lambda>l. NL \<notin> set l) ls \<Longrightarrow> physical_lines (concat (map (\<lambda>l. l @ [NL]) ls)) = map (\<lambda>l. l @ [NL]) ls"
proof (induction ls)
  case (Cons l ls)
  then show ?case by (subst physical_lines_step) (simp_all add: read_until_line)
qed simp

definition content_lines :: "string \<Rightarrow> string list" where
  "content_lines content =
     (let ls = physical_lines content in if ls \<noteq> [] \<and> hd ls = marker_line then tl ls else ls)"

lemma skip_lines_iff: "skip_lines n s \<longleftrightarrow> n \<le> length (physical_lines s)"
proof (induction n arbitrary: s)
  case (Suc n)
  then show ?case by (cases "s = []") (simp_all add: physical_lines_step)
qed simp

lemma exceeds_iff: "terminal_output_exceeds_line_limit content n \<longleftrightarrow> n < length (content_lines content)"
proof (cases "content = []")
  case False
  obtain l r where lr: "read_until content = (l, r)" by fastforce
  then have "physical_lines content = l # physical_lines r" using physical_lines_step [OF False] by simp
  then show ?thesis
    using False lr by (auto simp: terminal_output_exceeds_line_limit_def content_lines_def skip_lines_iff Let_def)
qed (simp add: terminal_output_exceeds_line_limit_def content_lines_def)

text \<open>
  The bounded scan that decides whether a history is too long gives the exact answer: it is true
  just when the file holds more content lines than the limit, with a last line that lacks its
  newline counted and the version marker not counted.
\<close>

theorem line_limit_exact: "terminal_output_exceeds_line_limit content n \<longleftrightarrow> n < length (content_lines content)"
  by (rule exceeds_iff)

section \<open>The tail\<close>

abbreviation total_length :: "string list \<Rightarrow> nat" where
  "total_length ps \<equiv> sum_list (map length ps)"

definition last_lines :: "nat \<Rightarrow> 'a list \<Rightarrow> 'a list" where
  "last_lines n xs = drop (length xs - n) xs"

definition decoded :: "string \<Rightarrow> string" where
  "decoded l = lossy (strip_nl l)"

definition tail_ok_state :: "nat \<Rightarrow> string list \<Rightarrow> tail_state \<Rightarrow> bool" where
  "tail_ok_state n xs s \<longleftrightarrow> ts_physical s = last_lines n xs \<and> ts_lines s = map decoded (ts_physical s) \<and>
     ts_bytes s = total_length (ts_physical s) \<and> ts_discarded s = (n < length xs)"

lemma last_lines_zero [simp]: "last_lines 0 xs = []"
  by (simp add: last_lines_def)

lemma last_lines_snoc:
  "last_lines n (xs @ [x]) = (if n = 0 then [] else if length xs \<ge> n then tl (last_lines n xs) @ [x] else last_lines n xs @ [x])"
proof (cases "n = 0 \<or> length xs < n")
  case False
  then have "length xs + 1 - n = Suc (length xs - n)" "length xs - n < length xs" by auto
  then show ?thesis using False by (simp add: last_lines_def drop_Suc tl_drop)
qed (auto simp: last_lines_def)

lemma keep_line_state:
  assumes "tail_ok_state n xs s"
  shows "tail_ok_state n (xs @ [x]) (keep_line n x s)"
proof -
  have len: "length (ts_lines s) = min n (length xs)" using assms by (simp add: tail_ok_state_def last_lines_def)
  show ?thesis
  proof (cases "n = 0")
    case True
    then show ?thesis using assms by (simp add: tail_ok_state_def keep_line_def last_lines_snoc)
  next
    case False
    show ?thesis
    proof (cases "n \<le> length xs")
      case True
      then obtain p ps where "last_lines n xs = p # ps"
        using len False assms by (cases "last_lines n xs") (auto simp: tail_ok_state_def)
      then show ?thesis
        using assms False True len
        by (auto simp: tail_ok_state_def keep_line_def last_lines_snoc decoded_def Let_def)
    next
      case short: False
      then show ?thesis
        using assms False len by (auto simp: tail_ok_state_def keep_line_def last_lines_snoc decoded_def Let_def)
    qed
  qed
qed

lemma keep_lines_state:
  "tail_ok_state n xs (fold (keep_line n) xs \<lparr>ts_lines = [], ts_physical = [], ts_bytes = 0, ts_discarded = False\<rparr>)"
proof (induction xs rule: rev_induct)
  case (snoc x xs)
  then show ?case using keep_line_state by simp
qed (simp add: tail_ok_state_def last_lines_def)

text \<open>The longest suffix that fits a number of bytes.\<close>

fun fitting :: "nat \<Rightarrow> string list \<Rightarrow> string list" where
  "fitting n [] = []"
| "fitting n (p # ps) = (if total_length (p # ps) \<le> n then p # ps else fitting n ps)"

lemma drop_excess_fitting:
  "drop_excess n (map f ps) ps (total_length ps) b =
     \<lparr>ts_lines = map f (fitting n ps), ts_physical = fitting n ps, ts_bytes = total_length (fitting n ps),
      ts_discarded = (b \<or> fitting n ps \<noteq> ps)\<rparr>"
proof (induction ps arbitrary: b)
  case (Cons p ps)
  have "length (fitting n qs) \<le> length qs" for qs by (induction qs) auto
  then have "fitting n ps \<noteq> p # ps" by (metis impossible_Cons)
  then show ?case using Cons.IH by (simp add: not_le)
qed simp

lemma fitting_suffix: "suffix (fitting n ps) ps"
  by (induction ps) (auto intro: suffix_ConsI)

lemma fitting_total: "total_length (fitting n ps) \<le> n"
  by (induction ps) auto

lemma total_suffix: "suffix qs ps \<Longrightarrow> total_length qs \<le> total_length ps"
  by (auto simp: suffix_def)

lemma fitting_longest: "suffix qs ps \<Longrightarrow> total_length qs \<le> n \<Longrightarrow> suffix qs (fitting n ps)"
  by (induction ps) (auto simp: suffix_Cons dest: total_suffix)

lemma last_lines_longest: "suffix qs ps \<Longrightarrow> length qs \<le> n \<Longrightarrow> suffix qs (last_lines n ps)"
proof -
  assume "suffix qs ps" "length qs \<le> n"
  then obtain as where "ps = as @ qs" by (auto simp: suffix_def)
  moreover have "length as + length qs - n - length as = 0" using \<open>length qs \<le> n\<close> by simp
  ultimately show ?thesis by (simp add: last_lines_def suffix_def)
qed

lemma tail_physical_eq:
  "tail_physical (read_terminal_output_tail content n b) = fitting b (last_lines n (content_lines content))"
  "tail_lines (read_terminal_output_tail content n b) = map decoded (fitting b (last_lines n (content_lines content)))"
  "tail_discarded (read_terminal_output_tail content n b) \<longleftrightarrow>
     fitting b (last_lines n (content_lines content)) \<noteq> content_lines content"
  "tail_marker (read_terminal_output_tail content n b) =
     (if tail_versioned (read_terminal_output_tail content n b) then Some marker_line else None)"
  "tail_versioned (read_terminal_output_tail content n b) \<longleftrightarrow>
     physical_lines content \<noteq> [] \<and> hd (physical_lines content) = marker_line"
proof -
  let ?xs = "content_lines content"
  let ?s = "fold (keep_line n) ?xs \<lparr>ts_lines = [], ts_physical = [], ts_bytes = 0, ts_discarded = False\<rparr>"
  let ?p = "last_lines n ?xs"
  have ok: "tail_ok_state n ?xs ?s" by (rule keep_lines_state)
  have run: "drop_excess b (ts_lines ?s) (ts_physical ?s) (ts_bytes ?s) (ts_discarded ?s) =
      \<lparr>ts_lines = map decoded (fitting b ?p), ts_physical = fitting b ?p, ts_bytes = total_length (fitting b ?p),
       ts_discarded = (n < length ?xs \<or> fitting b ?p \<noteq> ?p)\<rparr>"
    using ok drop_excess_fitting [of b decoded ?p] by (simp add: tail_ok_state_def)
  have "length (fitting b ?p) \<le> length ?p" using fitting_suffix suffix_length_le by blast
  then have disc: "(n < length ?xs \<or> fitting b ?p \<noteq> ?p) \<longleftrightarrow> fitting b ?p \<noteq> ?xs"
    by (auto simp: last_lines_def)
  have xs: "(if physical_lines content \<noteq> [] \<and> hd (physical_lines content) = marker_line
             then tl (physical_lines content) else physical_lines content) = ?xs"
    by (simp add: content_lines_def Let_def)
  show "tail_physical (read_terminal_output_tail content n b) = fitting b ?p"
    "tail_lines (read_terminal_output_tail content n b) = map decoded (fitting b ?p)"
    "tail_discarded (read_terminal_output_tail content n b) \<longleftrightarrow> fitting b ?p \<noteq> ?xs"
    unfolding read_terminal_output_tail_def Let_def xs run using disc by simp_all
  show "tail_marker (read_terminal_output_tail content n b) =
      (if tail_versioned (read_terminal_output_tail content n b) then Some marker_line else None)"
    "tail_versioned (read_terminal_output_tail content n b) \<longleftrightarrow>
      physical_lines content \<noteq> [] \<and> hd (physical_lines content) = marker_line"
    by (simp_all add: read_terminal_output_tail_def Let_def)
qed

lemma tail_longest:
  "suffix (tail_physical (read_terminal_output_tail content n b)) (content_lines content)"
  "length (tail_physical (read_terminal_output_tail content n b)) \<le> n"
  "total_length (tail_physical (read_terminal_output_tail content n b)) \<le> b"
  "tail_discarded (read_terminal_output_tail content n b) \<longleftrightarrow>
     tail_physical (read_terminal_output_tail content n b) \<noteq> content_lines content"
proof -
  let ?last = "last_lines n (content_lines content)"
  have "suffix ?last (content_lines content)" by (simp add: last_lines_def suffix_drop)
  then show "suffix (tail_physical (read_terminal_output_tail content n b)) (content_lines content)"
    unfolding tail_physical_eq using fitting_suffix suffix_order.trans by blast
  show "length (tail_physical (read_terminal_output_tail content n b)) \<le> n"
    unfolding tail_physical_eq using suffix_length_le [OF fitting_suffix, of b ?last] by (auto simp: last_lines_def)
  show "total_length (tail_physical (read_terminal_output_tail content n b)) \<le> b"
    unfolding tail_physical_eq by (rule fitting_total)
  show "tail_discarded (read_terminal_output_tail content n b) \<longleftrightarrow>
      tail_physical (read_terminal_output_tail content n b) \<noteq> content_lines content"
    by (simp add: tail_physical_eq)
qed

text \<open>
  One pass over a history keeps the longest tail that fits. What is retained is a suffix of the
  content lines within the limits on lines and on bytes, every suffix within both limits is part of
  it, the decoded lines are those of the retained bytes one for one, and the pass reports a loss
  just when a line is missing.
\<close>

theorem tail_longest_fitting:
  "let tail = read_terminal_output_tail content n b; kept = tail_physical tail; all = content_lines content in
   suffix kept all \<and> length kept \<le> n \<and> sum_list (map length kept) \<le> b \<and>
   {qs. suffix qs all \<and> length qs \<le> n \<and> sum_list (map length qs) \<le> b} = {qs. suffix qs kept} \<and>
   tail_lines tail = map (\<lambda>l. lossy (strip_nl l)) kept \<and> (tail_discarded tail \<longleftrightarrow> kept \<noteq> all)"
proof -
  let ?all = "content_lines content" and ?kept = "tail_physical (read_terminal_output_tail content n b)"
  note kept = tail_longest [of content n b]
  have "{qs. suffix qs ?all \<and> length qs \<le> n \<and> total_length qs \<le> b} = {qs. suffix qs ?kept}"
  proof (intro set_eqI iffI; simp)
    fix qs assume "suffix qs ?all \<and> length qs \<le> n \<and> total_length qs \<le> b"
    then show "suffix qs ?kept" unfolding tail_physical_eq using fitting_longest last_lines_longest by blast
  next
    fix qs assume q: "suffix qs ?kept"
    then have "suffix qs ?all" using kept(1) suffix_order.trans by blast
    moreover have "length qs \<le> n" using suffix_length_le [OF q] kept(2) by simp
    moreover have "total_length qs \<le> b" using total_suffix [OF q] kept(3) le_trans by blast
    ultimately show "suffix qs ?all \<and> length qs \<le> n \<and> total_length qs \<le> b" by simp
  qed
  moreover have "tail_lines (read_terminal_output_tail content n b) = map (\<lambda>l. lossy (strip_nl l)) ?kept"
    unfolding tail_physical_eq by (simp add: decoded_def)
  ultimately show ?thesis unfolding Let_def using kept by simp
qed

section \<open>Histories written by this code\<close>

definition line_codec_ok :: "line_codec \<Rightarrow> bool" where
  "line_codec_ok c \<longleftrightarrow>
     (\<forall>t d. from_utf8 t = Utf8_Ok \<longrightarrow> from_utf8 d = Utf8_Ok \<longrightarrow>
        NL \<notin> set (json_of c t d) \<and> from_utf8 (json_of c t d) = Utf8_Ok \<and> json_parse c (json_of c t d) = Some (1, t, d))"

fun valid_record :: "terminal_output_record \<Rightarrow> bool" where
  "valid_record (Legacy t) = (from_utf8 t = Utf8_Ok)"
| "valid_record (Raw t d) = (from_utf8 t = Utf8_Ok \<and> d \<in> {[], [NL], [CHR 0x0D, NL]})"

fun replayed :: "terminal_output_record \<Rightarrow> terminal_output_record" where
  "replayed (Legacy t) = Raw t []"
| "replayed (Raw t d) = Raw t d"

definition record_line :: "line_codec \<Rightarrow> terminal_output_record \<Rightarrow> string" where
  "record_line c r = encode_terminal_output_record c r @ [NL]"

definition history :: "line_codec \<Rightarrow> terminal_output_record list \<Rightarrow> string" where
  "history c rs = marker_line @ concat (map (record_line c) rs)"

lemma scan_seq_take: "scan_seq rs k cs = Inl rest \<Longrightarrow> cs = take (length rs) cs @ rest"
  by (induction rs k cs rule: scan_seq.induct) (auto split: if_splits)

lemma lossy_valid: "from_utf8 s = Utf8_Ok \<Longrightarrow> lossy s = s"
proof (induction s rule: from_utf8.induct)
  case (2 c cs)
  then obtain rs where rs: "cont_ranges c = Some rs" by (cases "cont_ranges c") simp_all
  then obtain rest where rest: "scan_seq rs 1 cs = Inl rest" using 2 by (cases "scan_seq rs 1 cs") simp_all
  then have "lossy rest = rest" using 2 rs by simp
  then show ?case using rs rest scan_seq_take [OF rest] by simp
qed simp

lemma ascii_delimiters: "d \<in> {[], [NL], [CHR 0x0D, NL]} \<Longrightarrow> from_utf8 d = Utf8_Ok"
  by (auto simp: NL_def intro!: from_utf8_ascii)

lemma encoded_line:
  assumes "line_codec_ok c" and "valid_record r"
  shows "NL \<notin> set (encode_terminal_output_record c r)"
    and "decode_terminal_output_record c (decoded (record_line c r)) = replayed r"
proof -
  obtain t d where enc: "encode_terminal_output_record c r = RECORD_PREFIX # json_of c t d"
    and ok: "from_utf8 t = Utf8_Ok" "d \<in> {[], [NL], [CHR 0x0D, NL]}" "replayed r = Raw t d"
    using assms(2) by (cases r) auto
  have j: "NL \<notin> set (json_of c t d)" "from_utf8 (json_of c t d) = Utf8_Ok" "json_parse c (json_of c t d) = Some (1, t, d)"
    using assms(1) ok(1) ascii_delimiters [OF ok(2)] unfolding line_codec_ok_def by blast+
  have "cont_ranges RECORD_PREFIX = Some []" by (simp add: RECORD_PREFIX_def)
  then have "from_utf8 (RECORD_PREFIX # json_of c t d) = Utf8_Ok" using j(2) by simp
  then have "decoded (record_line c r) = RECORD_PREFIX # json_of c t d"
    using lossy_valid [of "RECORD_PREFIX # json_of c t d"]
    by (simp add: decoded_def strip_nl_def record_line_def enc del: lossy.simps from_utf8.simps)
  then show "decode_terminal_output_record c (decoded (record_line c r)) = replayed r"
    using j(3) ok by (simp add: decode_terminal_output_record_def)
  show "NL \<notin> set (encode_terminal_output_record c r)"
    using j(1) by (simp add: enc RECORD_PREFIX_def NL_def)
qed

lemma marker_no_nl: "NL \<notin> set FILE_MARKER"
  by (simp add: FILE_MARKER_def RECORD_PREFIX_def NL_def)

lemma history_lines:
  assumes "line_codec_ok c" and "list_all valid_record rs"
  shows "physical_lines (history c rs) = marker_line # map (record_line c) rs"
    and "content_lines (history c rs) = map (record_line c) rs"
proof -
  let ?ls = "FILE_MARKER # map (encode_terminal_output_record c) rs"
  have "list_all (\<lambda>l. NL \<notin> set l) ?ls"
    using assms encoded_line(1) marker_no_nl by (auto simp: list_all_iff)
  moreover have "history c rs = concat (map (\<lambda>l. l @ [NL]) ?ls)"
    by (simp add: history_def marker_line_def record_line_def [abs_def] comp_def)
  ultimately show "physical_lines (history c rs) = marker_line # map (record_line c) rs"
    using physical_lines_of [of ?ls] by (simp add: marker_line_def record_line_def [abs_def] comp_def)
  then show "content_lines (history c rs) = map (record_line c) rs" by (simp add: content_lines_def)
qed

lemma history_versioned: "terminal_output_is_versioned (history c rs)"
  using read_until_line [OF marker_no_nl] by (simp add: terminal_output_is_versioned_def history_def marker_line_def)

lemma history_append: "history c rs @ appended_bytes c False True xs = history c (rs @ xs)"
  by (simp add: history_def appended_bytes_def record_line_def [abs_def])

lemma history_fresh: "appended_bytes c True v xs = history c xs"
  by (simp add: history_def appended_bytes_def record_line_def [abs_def])

definition working_disk :: "output_disk \<Rightarrow> bool" where
  "working_disk d \<longleftrightarrow> dir_ok d \<and> stat_ok d \<and> probe_ok d \<and> open_ok d \<and> written d = None \<and> length_ok d \<and> count_ok d \<and>
     tail_ok d \<and> replace_ok d"

definition within_budget :: "line_codec \<Rightarrow> terminal_output_record list \<Rightarrow> bool" where
  "within_budget c rs \<longleftrightarrow> length rs \<le> TERMINAL_OUTPUT_MAX_LINES \<and>
     sum_list (map (\<lambda>r. length (record_line c r)) rs) \<le> TERMINAL_OUTPUT_MAX_BYTES"

lemma suffix_map_ex: "suffix ys (map f xs) \<Longrightarrow> \<exists>zs. suffix zs xs \<and> ys = map f zs"
  by (metis map_eq_append_conv suffix_def)

lemma trimmed_history:
  assumes "line_codec_ok c" and "list_all valid_record rs" and "tail_ok d" and "replace_ok d"
    and "n \<le> TERMINAL_OUTPUT_MAX_LINES"
  shows "\<exists>ks. suffix ks rs \<and> within_budget c ks \<and> trim_terminal_output d n (Some (history c rs)) = Some (history c ks) \<or>
              trim_terminal_output d n (Some (history c rs)) = Some (history c rs) \<and> within_budget c rs"
proof -
  let ?b = TERMINAL_OUTPUT_TRIM_TARGET_BYTES
  let ?tail = "read_terminal_output_tail (history c rs) n ?b"
  let ?ls = "map (record_line c) rs"
  have lines: "content_lines (history c rs) = ?ls" "physical_lines (history c rs) = marker_line # ?ls"
    using history_lines [OF assms(1,2)] by simp_all
  have small: "suffix (tail_physical ?tail) ?ls" "length (tail_physical ?tail) \<le> n"
    "total_length (tail_physical ?tail) \<le> ?b" "tail_discarded ?tail \<longleftrightarrow> tail_physical ?tail \<noteq> ?ls"
    using tail_longest [of "history c rs" n ?b] unfolding lines by simp_all
  have target: "?b \<le> TERMINAL_OUTPUT_MAX_BYTES"
    by (simp add: TERMINAL_OUTPUT_TRIM_TARGET_BYTES_def)
  obtain ks where ks: "suffix ks rs" "tail_physical ?tail = map (record_line c) ks"
    using suffix_map_ex [OF small(1)] by blast
  have budget: "within_budget c ks"
    using small(2,3) target assms(5) by (simp add: within_budget_def ks comp_def)
  show ?thesis
  proof (cases "tail_discarded ?tail")
    case True
    have "tail_marker ?tail = Some marker_line" by (simp add: tail_physical_eq lines)
    then have "trim_terminal_output d n (Some (history c rs)) = Some (history c ks)"
      using True assms(3,4) ks(2) by (simp add: trim_terminal_output_def history_def Let_def)
    then show ?thesis using ks(1) budget by blast
  next
    case False
    then have "length ks = length rs" using small(4) ks(2) by (metis length_map)
    then have "ks = rs" using ks(1) by (auto simp: suffix_def)
    then show ?thesis using False assms(3) budget by (auto simp: trim_terminal_output_def Let_def)
  qed
qed

text \<open>The file after records were written: absent before the first, then a history.\<close>

definition history_file :: "line_codec \<Rightarrow> terminal_output_record list \<Rightarrow> string option" where
  "history_file c rs = (if rs = [] then None else Some (history c rs))"

lemma history_length:
  "length (history c rs) = length marker_line + sum_list (map (\<lambda>r. length (record_line c r)) rs)"
  by (simp add: history_def length_concat comp_def)

lemma marker_nonempty [simp]: "marker_line \<noteq> []"
  by (simp add: marker_line_def)

text \<open>One append to a history, or to no file, on a disk that works.\<close>

lemma append_working:
  assumes "working_disk d" and "rs \<noteq> []" and "line_codec_ok c" and "list_all valid_record (old @ rs)"
    and "old = [] \<and> f0 = None \<or> f0 = Some (history c old)"
  shows "append_terminal_output_records c d rs f0 =
    (if within_budget c (old @ rs) then Some (history c (old @ rs))
     else trim_terminal_output d TERMINAL_OUTPUT_TRIM_TARGET_LINES (Some (history c (old @ rs))))"
proof -
  let ?h = "history c (old @ rs)"
  have long: "terminal_output_exceeds_line_limit ?h TERMINAL_OUTPUT_MAX_LINES \<longleftrightarrow>
      TERMINAL_OUTPUT_MAX_LINES < length (old @ rs)"
    using history_lines(2) [OF assms(3,4)] by (simp add: exceeds_iff)
  have big: "TERMINAL_OUTPUT_MAX_BYTES < length ?h - length marker_line \<longleftrightarrow>
      TERMINAL_OUTPUT_MAX_BYTES < sum_list (map (\<lambda>r. length (record_line c r)) (old @ rs))"
    by (simp only: history_length add_diff_cancel_left')
  have disk: "dir_ok d" "stat_ok d" "probe_ok d" "open_ok d" "written d = None" "length_ok d" "count_ok d"
    using assms(1) by (simp_all add: working_disk_def)
  show ?thesis
  proof (cases "f0 = None")
    case True
    then have "old = []" using assms(5) by simp
    then show ?thesis
      using True assms(2) disk long big
      by (auto simp: append_terminal_output_records_def history_fresh within_budget_def Let_def not_le)
  next
    case False
    then have fl: "f0 = Some (history c old)" using assms(5) by blast
    have "history c old \<noteq> []" by (simp add: history_def)
    then show ?thesis
      using fl assms(2) disk long big history_versioned [of c old] history_append [of c old rs]
      by (auto simp: append_terminal_output_records_def within_budget_def Let_def not_le)
  qed
qed

lemma append_step:
  assumes "working_disk d" and "line_codec_ok c" and "list_all valid_record (old @ rs)" and "within_budget c old"
    and "old = [] \<and> f0 = None \<or> f0 = Some (history c old)"
  shows "\<exists>ks. suffix ks (old @ rs) \<and> within_budget c ks \<and> (within_budget c (old @ rs) \<longrightarrow> ks = old @ rs) \<and>
     (ks = [] \<and> append_terminal_output_records c d rs f0 = None \<or>
      append_terminal_output_records c d rs f0 = Some (history c ks))"
proof (cases "rs = []")
  case True
  then show ?thesis
    using assms by (intro exI [of _ old]) (auto simp: append_terminal_output_records_def)
next
  case False
  have lines: "TERMINAL_OUTPUT_TRIM_TARGET_LINES \<le> TERMINAL_OUTPUT_MAX_LINES"
    by (simp add: TERMINAL_OUTPUT_TRIM_TARGET_LINES_def)
  have "tail_ok d" "replace_ok d" using assms(1) by (simp_all add: working_disk_def)
  from trimmed_history [OF assms(2,3) this lines] append_working [OF assms(1) False assms(2,3,5)] show ?thesis
    by (cases "within_budget c (old @ rs)") auto
qed

definition append_all ::
  "line_codec \<Rightarrow> (output_disk \<times> terminal_output_record list) list \<Rightarrow> string option \<Rightarrow> string option" where
  "append_all c batches f0 = fold (\<lambda>(d, rs) f. append_terminal_output_records c d rs f) batches f0"

lemma within_budget_prefix: "within_budget c (as @ bs) \<Longrightarrow> within_budget c as"
  by (simp add: within_budget_def)

lemma append_all_history:
  assumes "line_codec_ok c" and "list_all (\<lambda>(d, rs). working_disk d \<and> list_all valid_record rs) batches"
    and "list_all valid_record old" and "within_budget c old" and "old = [] \<and> f0 = None \<or> f0 = Some (history c old)"
  shows "\<exists>ks. suffix ks (old @ concat (map snd batches)) \<and> within_budget c ks \<and> list_all valid_record ks \<and>
     (within_budget c (old @ concat (map snd batches)) \<longrightarrow> ks = old @ concat (map snd batches)) \<and>
     (ks = [] \<and> append_all c batches f0 = None \<or> append_all c batches f0 = Some (history c ks))"
  using assms(2-5)
proof (induction batches arbitrary: old f0)
  case (Cons b batches)
  obtain d rs where b: "b = (d, rs)" by fastforce
  have ok: "working_disk d" "list_all valid_record (old @ rs)" using Cons.prems b by simp_all
  obtain k1 where k1: "suffix k1 (old @ rs)" "within_budget c k1" "within_budget c (old @ rs) \<longrightarrow> k1 = old @ rs"
    and f1: "k1 = [] \<and> append_terminal_output_records c d rs f0 = None \<or>
      append_terminal_output_records c d rs f0 = Some (history c k1)"
    using append_step [OF ok(1) assms(1) ok(2) Cons.prems(3,4)] by blast
  have v1: "list_all valid_record k1" using ok(2) k1(1) unfolding suffix_def by (metis list_all_append)
  let ?rest = "concat (map snd batches)"
  obtain ks where ks: "suffix ks (k1 @ ?rest)" "within_budget c ks" "list_all valid_record ks"
    "within_budget c (k1 @ ?rest) \<longrightarrow> ks = k1 @ ?rest"
    "ks = [] \<and> append_all c batches (append_terminal_output_records c d rs f0) = None \<or>
     append_all c batches (append_terminal_output_records c d rs f0) = Some (history c ks)"
    using Cons.IH [OF _ v1 k1(2) f1] Cons.prems(1) by auto
  have "suffix (k1 @ ?rest) (old @ rs @ ?rest)" using k1(1) by (auto simp: suffix_def)
  then have "suffix ks (old @ rs @ ?rest)" using ks(1) suffix_order.trans by blast
  moreover have "within_budget c (old @ rs @ ?rest) \<longrightarrow> ks = old @ rs @ ?rest"
    using k1(3) ks(4) within_budget_prefix [of c "old @ rs" ?rest] by auto
  ultimately show ?case using ks b by (intro exI [of _ ks]) (simp add: append_all_def)
qed (auto simp: append_all_def)

lemma read_history:
  assumes "line_codec_ok c" and "list_all valid_record ks" and "within_budget c ks" and "tail_ok d"
  shows "read_terminal_output c d TERMINAL_OUTPUT_MAX_LINES (Some (history c ks)) = map replayed ks"
proof -
  let ?tail = "read_terminal_output_tail (history c ks) TERMINAL_OUTPUT_MAX_LINES TERMINAL_OUTPUT_MAX_BYTES"
  have lines: "content_lines (history c ks) = map (record_line c) ks"
    "physical_lines (history c ks) = marker_line # map (record_line c) ks"
    using history_lines [OF assms(1,2)] by simp_all
  have fit: "fitting TERMINAL_OUTPUT_MAX_BYTES ls = ls" if "total_length ls \<le> TERMINAL_OUTPUT_MAX_BYTES" for ls
    using that by (cases ls) simp_all
  have "last_lines TERMINAL_OUTPUT_MAX_LINES (map (record_line c) ks) = map (record_line c) ks"
    using assms(3) by (simp add: last_lines_def within_budget_def)
  moreover have "total_length (map (record_line c) ks) \<le> TERMINAL_OUTPUT_MAX_BYTES"
    using assms(3) by (simp add: within_budget_def comp_def)
  ultimately have "tail_lines ?tail = map (\<lambda>r. decoded (record_line c r)) ks"
    unfolding tail_physical_eq lines using fit by simp
  moreover have "tail_versioned ?tail" by (simp add: tail_physical_eq lines)
  moreover have "map (\<lambda>r. decode_terminal_output_record c (decoded (record_line c r))) ks = map replayed ks"
    using assms(1,2) encoded_line(2) by (simp add: list_all_iff)
  ultimately show ?thesis using assms(4) by (simp add: read_terminal_output_def comp_def Let_def)
qed

text \<open>
  C39: A terminal history replays what was appended to it. After any batches of valid records have been
  appended to a new history, reading it returns the most recent of them, in order and unaltered
  (plain text becomes a record without delimiter); the file never holds more than 1000 records or
  more than a mebibyte of them, and as long as everything appended fits these limits, nothing is
  missing. This holds for a JSON codec that prints a record on one line and parses it back.
\<close>

theorem history_replays_latest:
  assumes "line_codec_ok c" and "list_all (\<lambda>(d, rs). working_disk d \<and> list_all valid_record rs) batches" and "tail_ok d"
  defines "final \<equiv> append_all c batches None" and "written_records \<equiv> concat (map snd batches)"
  shows "\<exists>ks. suffix ks written_records \<and>
     read_terminal_output c d TERMINAL_OUTPUT_MAX_LINES final = map replayed ks \<and>
     length ks \<le> 1000 \<and> (\<forall>content. final = Some content \<longrightarrow> length content \<le> length marker_line + 1024 * 1024) \<and>
     (within_budget c written_records \<longrightarrow> ks = written_records)"
proof -
  have "within_budget c []" by (simp add: within_budget_def)
  then obtain ks where ks: "suffix ks written_records" "within_budget c ks" "list_all valid_record ks"
    "within_budget c written_records \<longrightarrow> ks = written_records"
    and final: "ks = [] \<and> final = None \<or> final = Some (history c ks)"
    using append_all_history [OF assms(1,2), of "[]" None] unfolding final_def written_records_def by auto
  have "read_terminal_output c d TERMINAL_OUTPUT_MAX_LINES final = map replayed ks"
    using final read_history [OF assms(1) ks(3,2) assms(3)] by (auto simp: read_terminal_output_def)
  moreover have "length content \<le> length marker_line + 1024 * 1024" if "final = Some content" for content
    using final that ks(2) by (auto simp: history_length within_budget_def TERMINAL_OUTPUT_MAX_BYTES_def)
  moreover have "length ks \<le> 1000" using ks(2) by (simp add: within_budget_def TERMINAL_OUTPUT_MAX_LINES_def)
  ultimately show ?thesis using ks by blast
qed

section \<open>Size files\<close>

lemma digit_not_white: "is_digit c \<Longrightarrow> \<not> white1 c \<and> \<not> white2 (c # xs) \<and> \<not> white3 (c # ys)"
  by (auto simp: is_digit_def white1_def white2_def white3_def)

lemma digit_not_white_back: "is_digit c \<Longrightarrow> \<not> white2 (xs @ [c]) \<and> \<not> white3 (xs @ [c])"
proof -
  assume d: "is_digit c"
  have "byte_val c \<in> set (map byte_val (xs @ [c]))" by simp
  moreover have "\<not> (length (xs @ [c]) = 3 \<and> 0x80 \<le> byte_val ((xs @ [c]) ! 2))"
    using d by (auto simp: is_digit_def nth_append)
  moreover have "last (map byte_val (xs @ [c])) = byte_val c" by (simp add: last_map)
  ultimately show ?thesis using d unfolding white2_def white3_def is_digit_def by (auto simp: last_ConsL last_ConsR)
qed

lemma trim_digits: "s \<noteq> [] \<Longrightarrow> is_digit (hd s) \<Longrightarrow> is_digit (last s) \<Longrightarrow> trim s = s"
proof -
  assume s: "s \<noteq> []" "is_digit (hd s)" "is_digit (last s)"
  then obtain c cs where "s = c # cs" by (cases s) auto
  then have "trim_start s = s" using s digit_not_white by simp
  moreover obtain x xs where x: "rev s = x # xs" "is_digit x" using s by (metis hd_rev list.collapse rev_is_Nil_conv)
  then have "trim_back (rev s) = rev s" using digit_not_white [of x] digit_not_white_back [of x] by simp
  ultimately show ?thesis by (simp add: trim_def)
qed

lemma split_digits: "list_all is_digit a \<Longrightarrow> split_once (CHR ''x'') (a @ CHR ''x'' # b) = Some (a, b)"
  by (induction a) (auto simp: is_digit_def)

lemma size_text_trim: "trim (size_text cols rows) = size_text cols rows"
proof (rule trim_digits)
  show "is_digit (hd (size_text cols rows))"
    using show_nat_digits [of "unat cols"] show_nat_ne [of "unat cols"]
    by (cases "show_nat (unat cols)") (simp_all add: size_text_def)
  show "is_digit (last (size_text cols rows))"
    using show_nat_digits [of "unat rows"] by (simp add: size_text_def list_all_iff last_in_set)
qed (simp add: size_text_def)

lemma size_text_utf8: "from_utf8 (size_text cols rows) = Utf8_Ok"
  using show_nat_digits [of "unat cols"] show_nat_digits [of "unat rows"]
  by (intro from_utf8_ascii) (fastforce simp: size_text_def list_all_iff is_digit_def)

text \<open>
  The last terminal size survives a restart: what was written reads back as the same columns and
  rows, unless one of them is zero, which reads back as unknown; and whatever the file holds, the
  size that is read has neither dimension zero.
\<close>

theorem terminal_size_round_trip:
  "read_terminal_size (snd (try_write_terminal_size None cols rows)) =
     (if cols = 0 \<or> rows = 0 then None else Some (cols, rows)) \<and>
   (case read_terminal_size content of None \<Rightarrow> True | Some (c, r) \<Rightarrow> c \<noteq> 0 \<and> r \<noteq> 0)"
proof
  have bound: "unat w < 2 ^ 16" for w :: "16 word" using unsigned_less [of w] by simp
  have parse: "parse_uint (2 ^ 16) (show_nat (unat w)) = Some (unat w)" for w :: "16 word"
    by (rule parse_show [OF bound])
  have zero: "unat w = 0 \<longleftrightarrow> w = 0" for w :: "16 word" by (simp add: unat_eq_0)
  have split: "split_once (CHR ''x'') (size_text cols rows) = Some (show_nat (unat cols), show_nat (unat rows))"
    unfolding size_text_def by (rule split_digits [OF show_nat_digits])
  show "read_terminal_size (snd (try_write_terminal_size None cols rows)) =
     (if cols = 0 \<or> rows = 0 then None else Some (cols, rows))"
    using parse zero
    by (simp add: try_write_terminal_size_def read_terminal_size_def size_text_trim size_text_utf8 split)
  show "case read_terminal_size content of None \<Rightarrow> True | Some (c, r) \<Rightarrow> c \<noteq> 0 \<and> r \<noteq> 0"
  proof -
    have "of_nat n \<noteq> (0 :: 16 word)" if "parse_uint (2 ^ 16) s = Some n" "n \<noteq> 0" for n s
    proof -
      have "unat (of_nat n :: 16 word) = n" using parse_uint_bound [OF that(1)] by (simp add: unat_of_nat)
      then show ?thesis using that(2) by (metis unat_0)
    qed
    then show ?thesis
      by (auto simp: read_terminal_size_def split: option.splits if_splits prod.splits bind_splits)
  qed
qed

section \<open>A concrete codec\<close>

definition nibble :: "nat \<Rightarrow> byte" where
  "nibble n = char_of (97 + n)"

definition letters :: "string \<Rightarrow> string" where
  "letters s = concat (map (\<lambda>b. [nibble (byte_val b div 16), nibble (byte_val b mod 16)]) s)"

fun unletters :: "string \<Rightarrow> string" where
  "unletters (a # b # r) = char_of ((byte_val a - 97) * 16 + (byte_val b - 97)) # unletters r"
| "unletters r = []"

definition sample_lines :: line_codec where
  "sample_lines = \<lparr>json_of = (\<lambda>t d. letters t @ CHR ''x'' # letters d),
     json_parse = (\<lambda>s. map_option (\<lambda>(a, b). (1, unletters a, unletters b)) (split_once (CHR ''x'') s))\<rparr>"

lemma byte_val_nibble: "n < 16 \<Longrightarrow> byte_val (nibble n) = 97 + n"
  by (simp add: nibble_def of_char_of)

lemma nibbles: "byte_val (b :: char) div 16 < 16" "byte_val b mod 16 < 16"
  using less_mult_imp_div_less [of "byte_val b" 16 16] by simp_all

lemma unletters_letters: "unletters (letters s) = s"
proof (induction s)
  case (Cons b s)
  show ?case using Cons nibbles [of b] by (simp add: letters_def byte_val_nibble)
qed (simp add: letters_def)

lemma letters_range: "c \<in> set (letters s) \<Longrightarrow> 97 \<le> byte_val c \<and> byte_val c < 113"
proof -
  assume "c \<in> set (letters s)"
  then obtain b where "c = nibble (byte_val b div 16) \<or> c = nibble (byte_val b mod 16)"
    by (auto simp: letters_def)
  then show ?thesis using nibbles [of b] by (auto simp: byte_val_nibble)
qed

lemma split_letters: "split_once (CHR ''x'') (letters t @ CHR ''x'' # r) = Some (letters t, r)"
proof -
  have "CHR ''x'' \<notin> set a \<Longrightarrow> split_once (CHR ''x'') (a @ CHR ''x'' # r) = Some (a, r)" for a
    by (induction a) auto
  moreover have "CHR ''x'' \<notin> set (letters t)" using letters_range by fastforce
  ultimately show ?thesis by blast
qed

lemma sample_lines_ok: "line_codec_ok sample_lines"
proof -
  have "NL \<notin> set (letters t @ CHR ''x'' # letters d)" for t d
    using letters_range [of NL] by (auto simp: NL_def)
  moreover have "from_utf8 (letters t @ CHR ''x'' # letters d) = Utf8_Ok" for t d
    using letters_range by (intro from_utf8_ascii) (fastforce simp: list_all_iff)
  ultimately show ?thesis
    by (simp add: line_codec_ok_def sample_lines_def split_letters unletters_letters)
qed

definition good_disk :: output_disk where
  "good_disk = \<lparr>dir_ok = True, stat_ok = True, probe_ok = True, open_ok = True, written = None, length_ok = True,
     count_ok = True, tail_ok = True, replace_ok = True\<rparr>"

theorem history_replays_latest_witness:
  "read_terminal_output sample_lines good_disk TERMINAL_OUTPUT_MAX_LINES
     (append_all sample_lines [(good_disk, [Raw ''a'' [NL]]), (good_disk, [Legacy ''b''])] None) =
   [Raw ''a'' [NL], Raw ''b'' []]"
proof -
  let ?batches = "[(good_disk, [Raw ''a'' [NL]]), (good_disk, [Legacy ''b''])]"
  have "list_all (\<lambda>(d, rs). working_disk d \<and> list_all valid_record rs) ?batches"
    by (simp add: working_disk_def good_disk_def)
  moreover have "tail_ok good_disk" by (simp add: good_disk_def)
  moreover have "within_budget sample_lines (concat (map snd ?batches))"
    by (simp add: within_budget_def record_line_def sample_lines_def letters_def TERMINAL_OUTPUT_MAX_LINES_def
        TERMINAL_OUTPUT_MAX_BYTES_def)
  ultimately obtain ks where "ks = [Raw ''a'' [NL], Legacy ''b'']"
    "read_terminal_output sample_lines good_disk TERMINAL_OUTPUT_MAX_LINES (append_all sample_lines ?batches None) = map replayed ks"
    using history_replays_latest [OF sample_lines_ok, of ?batches good_disk] by auto
  then show ?thesis by simp
qed

end
