(* ===== verification/Completion_Queue.thy ===== *)
theory Completion_Queue
  imports Codex_Completion Utf8
begin

text \<open>
  The source-ordered queue that carries hook events to the completion tracker:
  \<^verbatim>\<open>runtime/codex_hook_report_relay/completion.rs\<close>. Hook processes append records to a file in a private
  directory; the daemon polls it, delivers the records to a callback and acknowledges them by
  replacing the file. Between any two of its looks at the directory the content may have changed in
  any way, so a poll takes what it would see at each look as a function of the number of the look.
  The JSON codec and the size of a serialized record are parameters.
\<close>

section \<open>Data\<close>

definition QUEUE_MAX_BYTES :: nat where
  "QUEUE_MAX_BYTES = 1024 * 1024"

definition QUEUE_MAX_RECORDS :: nat where
  "QUEUE_MAX_RECORDS = 256"

datatype queue_kind = UserPromptSubmit | PreToolUse | PermissionRequest | PostToolUse | KindStop

record queue_record =
  qr_version :: u64
  qr_sequence :: u64
  qr_observed_micros :: int
  qr_hook_fingerprint :: string
  qr_root_id :: string
  qr_turn_id :: "string option"
  qr_event :: queue_kind
  qr_tool_name :: "string option"
  qr_tool_use_id :: "string option"

record queue_state =
  qs_version :: u64
  qs_stream_id :: string
  qs_generation :: u64
  qs_hook_fingerprint :: string
  qs_next_sequence :: u64
  qs_acknowledged_sequence :: u64
  qs_records :: "queue_record list"

record queue_snapshot =
  snap_state :: queue_state
  snap_bytes :: string
  snap_identity :: nat

datatype poll = Busy | Consumed nat

record completion_queue =
  cq_stream_id :: string
  cq_generation :: u64
  cq_fingerprint :: string
  cq_accepted :: u64
  cq_failed :: bool

text \<open>
  One look at the directory: whether it and the lock file are still the retained ones, the entries
  by name (absent for a name that is not UTF-8) with whether each opens as a private file, and the
  bytes and the identity of the queue file, when it opens as one.
\<close>

record mailbox =
  mb_identity :: bool
  mb_entries :: "(string option \<times> bool) list option"
  mb_queue :: "(string \<times> nat) option"

record queue_codec =
  state_json :: "queue_state \<Rightarrow> string option"
  state_parse :: "string \<Rightarrow> queue_state option"
  record_size :: "queue_record \<Rightarrow> nat option"

section \<open>Checks\<close>

definition lower_hex :: "byte \<Rightarrow> bool" where
  "lower_hex b \<longleftrightarrow> (48 \<le> byte_val b \<and> byte_val b \<le> 57) \<or> (97 \<le> byte_val b \<and> byte_val b \<le> 102)"

definition hex_id :: "string \<Rightarrow> nat \<Rightarrow> bool" where
  "hex_id v n \<longleftrightarrow> length v = n \<and> list_all lower_hex v"

definition queue_id :: "string \<Rightarrow> bool" where
  "queue_id v \<longleftrightarrow> v \<noteq> [] \<and> length v \<le> 128 \<and>
     list_all (\<lambda>b. (48 \<le> byte_val b \<and> byte_val b \<le> 57) \<or> (65 \<le> byte_val b \<and> byte_val b \<le> 90) \<or>
                   (97 \<le> byte_val b \<and> byte_val b \<le> 122) \<or> b = CHR ''_'' \<or> b = CHR ''-'') v"

definition create_queue :: "string \<Rightarrow> u64 \<Rightarrow> string \<Rightarrow> (completion_queue \<times> queue_state) option" where
  "create_queue stream generation fingerprint =
     (if \<not> hex_id fingerprint 64 then None
      else Some (\<lparr>cq_stream_id = stream, cq_generation = generation, cq_fingerprint = fingerprint, cq_accepted = 0,
                  cq_failed = False\<rparr>,
                 \<lparr>qs_version = 1, qs_stream_id = stream, qs_generation = generation,
                  qs_hook_fingerprint = fingerprint, qs_next_sequence = 1, qs_acknowledged_sequence = 0,
                  qs_records = []\<rparr>))"

text \<open>\<open>unfinished\<close>: an error, or whether a hook process is still writing.\<close>

fun scan_entries :: "(string option \<times> bool) list \<Rightarrow> nat \<Rightarrow> nat option" where
  "scan_entries [] inflights = Some inflights"
| "scan_entries ((name, private_file) # es) inflights =
     (case name of
        None \<Rightarrow> None
      | Some t \<Rightarrow>
          (if \<not> private_file then None
           else if t = ''poison'' then None
           else if t = ''queue.json'' \<or> t = ''queue.lock'' then scan_entries es inflights
           else if is_some_and (\<lambda>i. hex_id i 32) (strip_prefix ''inflight-'' t) then scan_entries es (Suc inflights)
           else None))"

definition unfinished :: "mailbox \<Rightarrow> bool option" where
  "unfinished mb =
     (case mb_entries mb of
        None \<Rightarrow> None
      | Some es \<Rightarrow>
          (if length es > 512 then None
           else (case scan_entries es 0 of
                   None \<Rightarrow> None
                 | Some n \<Rightarrow> if n > 256 then None else Some (n > 0))))"

definition valid_tool :: "string \<Rightarrow> bool" where
  "valid_tool s \<longleftrightarrow> s \<noteq> [] \<and> length s \<le> 128 \<and> list_all (\<lambda>b. 33 \<le> byte_val b \<and> byte_val b \<le> 126) s"

definition record_valid :: "queue_codec \<Rightarrow> completion_queue \<Rightarrow> string \<Rightarrow> nat \<Rightarrow> queue_record \<Rightarrow> bool" where
  "record_valid c q root offset r \<longleftrightarrow>
     qr_version r = 1 \<and> checked_add (cq_accepted q) (of_nat offset + 1) = Some (qr_sequence r) \<and>
     qr_observed_micros r > 0 \<and> qr_hook_fingerprint r = cq_fingerprint q \<and> qr_root_id r = root \<and>
     queue_id (qr_root_id r) \<and> is_none_or queue_id (qr_turn_id r) \<and> is_none_or queue_id (qr_tool_use_id r) \<and>
     is_none_or valid_tool (qr_tool_name r) \<and> is_some_and (\<lambda>n. n \<le> 4096) (record_size c r)"

definition state_valid :: "completion_queue \<Rightarrow> string \<Rightarrow> queue_state \<Rightarrow> bool" where
  "state_valid q root s \<longleftrightarrow>
     qs_next_sequence s \<noteq> 0xFFFFFFFFFFFFFFFF \<and> qs_version s = 1 \<and> qs_stream_id s = cq_stream_id q \<and>
     qs_generation s = cq_generation q \<and> qs_hook_fingerprint s = cq_fingerprint q \<and>
     qs_acknowledged_sequence s = cq_accepted q \<and>
     qs_acknowledged_sequence s < qs_next_sequence s \<and>
     unat (qs_next_sequence s) - unat (qs_acknowledged_sequence s) - 1 = length (qs_records s) \<and>
     length (qs_records s) \<le> QUEUE_MAX_RECORDS \<and> queue_id root"

definition read_queue :: "queue_codec \<Rightarrow> completion_queue \<Rightarrow> string \<Rightarrow> mailbox \<Rightarrow> queue_snapshot option" where
  "read_queue c q root mb =
     (case mb_queue mb of
        None \<Rightarrow> None
      | Some (bytes, i) \<Rightarrow>
          (if length bytes > QUEUE_MAX_BYTES then None
           else (case state_parse c bytes of
                   None \<Rightarrow> None
                 | Some s \<Rightarrow>
                     (if state_valid q root s \<and>
                         (\<forall>k < length (qs_records s). record_valid c q root k (qs_records s ! k))
                      then Some \<lparr>snap_state = s, snap_bytes = bytes, snap_identity = i\<rparr>
                      else None))))"

definition verify_snapshot :: "queue_snapshot \<Rightarrow> mailbox \<Rightarrow> bool" where
  "verify_snapshot snap mb =
     (case mb_queue mb of
        None \<Rightarrow> False
      | Some (bytes, i) \<Rightarrow> i = snap_identity snap \<and> take (QUEUE_MAX_BYTES + 1) bytes = snap_bytes snap)"

section \<open>Consuming\<close>

fun hook_of :: "queue_kind \<Rightarrow> stream_hook" where
  "hook_of UserPromptSubmit = Submitted"
| "hook_of PreToolUse = Pre"
| "hook_of PermissionRequest = Permission"
| "hook_of PostToolUse = Post"
| "hook_of KindStop = StopHook"

definition as_event :: "u64 \<Rightarrow> queue_record \<Rightarrow> stream_event" where
  "as_event generation r =
     \<lparr>ev_generation = generation, ev_root = qr_root_id r,
      ev_turn = (case qr_turn_id r of None \<Rightarrow> [] | Some t \<Rightarrow> t), ev_sequence = qr_sequence r,
      ev_observed_micros = qr_observed_micros r, ev_hook = hook_of (qr_event r), ev_tool = qr_tool_name r,
      ev_invocation = qr_tool_use_id r\<rparr>"

text \<open>
  The delivery loop: the look before each record, then the callback, which answers and keeps a state
  of its own. The events handed to the callback are returned, and the number of the next look when
  all went well.
\<close>

fun deliver ::
  "u64 \<Rightarrow> (nat \<Rightarrow> mailbox) \<Rightarrow> ('s \<Rightarrow> stream_event \<Rightarrow> bool \<times> 's) \<Rightarrow> queue_snapshot \<Rightarrow> nat \<Rightarrow> queue_record list \<Rightarrow>
   u64 \<Rightarrow> 's \<Rightarrow> stream_event list \<times> nat option \<times> u64 \<times> 's" where
  "deliver gen look cb snap k [] accepted s = ([], Some k, accepted, s)"
| "deliver gen look cb snap k (r # rs) accepted s =
     (if \<not> verify_snapshot snap (look k) \<or> unfinished (look (k + 1)) \<noteq> Some False then ([], None, accepted, s)
      else
        (let ev = as_event gen r; (ok, s1) = cb s ev in
         if \<not> ok then ([ev], None, qr_sequence r, s1)
         else
           (let (evs, k1, acc, s2) = deliver gen look cb snap (k + 2) rs (qr_sequence r) s1
            in (ev # evs, k1, acc, s2))))"

record poll_env =
  look_at :: "nat \<Rightarrow> mailbox"
  lock_taken :: bool
  replaced :: bool
  synced :: bool
  unlocked :: bool

text \<open>What a poll did: its answer, absent for an error, the events it delivered and the file it published.\<close>

record poll_report =
  answer_of :: "poll option"
  delivered :: "stream_event list"
  published :: "queue_state option"

text \<open>A replacement that was renamed into place is published, even when the directory is not synced after it.\<close>

definition replace_queue :: "queue_codec \<Rightarrow> poll_env \<Rightarrow> queue_state \<Rightarrow> bool \<times> queue_state option" where
  "replace_queue c env s =
     (if replaced env \<and> is_some_and (\<lambda>bytes. length bytes \<le> QUEUE_MAX_BYTES) (state_json c s) then (synced env, Some s)
      else (False, None))"

definition finish ::
  "queue_codec \<Rightarrow> poll_env \<Rightarrow> queue_snapshot \<Rightarrow> nat \<Rightarrow> u64 \<Rightarrow> bool \<times> queue_state option" where
  "finish c env snap k accepted =
     (let s = (snap_state snap)\<lparr>qs_acknowledged_sequence := accepted, qs_records := []\<rparr> in
      if \<not> mb_identity (look_at env k) \<or> unfinished (look_at env (k + 1)) \<noteq> Some False \<or>
         \<not> verify_snapshot snap (look_at env (k + 2))
      then (False, None)
      else (case replace_queue c env s of (ok, file) \<Rightarrow> (ok \<and> mb_identity (look_at env (k + 3)) \<and> unlocked env, file)))"

definition poisoned :: "completion_queue \<Rightarrow> completion_queue" where
  "poisoned q = q\<lparr>cq_failed := True\<rparr>"

definition failed_poll :: poll_report where
  "failed_poll = \<lparr>answer_of = None, delivered = [], published = None\<rparr>"

definition consume ::
  "queue_codec \<Rightarrow> poll_env \<Rightarrow> ('s \<Rightarrow> stream_event \<Rightarrow> bool \<times> 's) \<Rightarrow> string \<Rightarrow> completion_queue \<Rightarrow> 's \<Rightarrow>
   poll_report \<times> completion_queue \<times> 's" where
  "consume c env cb root q s =
     (if cq_failed q then (failed_poll, q, s)
      else if \<not> mb_identity (look_at env 0) \<or> \<not> lock_taken env \<or> \<not> mb_identity (look_at env 1)
      then (failed_poll, poisoned q, s)
      else (case unfinished (look_at env 2) of
        None \<Rightarrow> (failed_poll, poisoned q, s)
      | Some True \<Rightarrow> (\<lparr>answer_of = Some Busy, delivered = [], published = None\<rparr>, q, s)
      | Some False \<Rightarrow>
          (case read_queue c q root (look_at env 3) of
             None \<Rightarrow> (failed_poll, poisoned q, s)
           | Some snap \<Rightarrow>
               (let rs = qs_records (snap_state snap) in
                if rs = [] then (\<lparr>answer_of = Some (Consumed 0), delivered = [], published = None\<rparr>, q, s)
                else
                  (let (evs, k, acc, s1) = deliver (cq_generation q) (look_at env) cb snap 4 rs (cq_accepted q) s;
                       q1 = q\<lparr>cq_accepted := acc\<rparr>
                   in case k of
                        None \<Rightarrow> (\<lparr>answer_of = None, delivered = evs, published = None\<rparr>, poisoned q1, s1)
                      | Some k1 \<Rightarrow>
                          (let (ok, file) = finish c env snap k1 acc in
                           if ok then (\<lparr>answer_of = Some (Consumed (length rs)), delivered = evs, published = file\<rparr>, q1, s1)
                           else (\<lparr>answer_of = None, delivered = evs, published = file\<rparr>, poisoned q1, s1)))))))"

section \<open>What a poll delivers\<close>

definition sequences :: "stream_event list \<Rightarrow> nat list" where
  "sequences evs = map (\<lambda>ev. unat (ev_sequence ev)) evs"

lemma as_event_sel [simp]:
  "ev_sequence (as_event g r) = qr_sequence r" "ev_generation (as_event g r) = g" "ev_root (as_event g r) = qr_root_id r"
  by (simp_all add: as_event_def)

text \<open>The loop delivers a prefix of the records and remembers the last delivered sequence.\<close>

lemma deliver_prefix:
  assumes "deliver gen look cb snap k rs acc s = (evs, k1, acc1, s1)"
  shows "evs = map (as_event gen) (take (length evs) rs) \<and> length evs \<le> length rs \<and>
    acc1 = (if evs = [] then acc else ev_sequence (last evs)) \<and> (k1 \<noteq> None \<longrightarrow> length evs = length rs)"
  using assms
proof (induction rs arbitrary: k acc s evs k1 acc1 s1)
  case (Cons r rs)
  show ?case
  proof (cases "verify_snapshot snap (look k) \<and> unfinished (look (k + 1)) = Some False \<and> fst (cb s (as_event gen r))")
    case True
    obtain evs2 k2 acc2 s2 where rest: "deliver gen look cb snap (k + 2) rs (qr_sequence r) (snd (cb s (as_event gen r))) = (evs2, k2, acc2, s2)"
      by (metis prod_cases4)
    then have "evs = as_event gen r # evs2" "k1 = k2" "acc1 = acc2"
      using Cons.prems True by (simp_all add: Let_def case_prod_beta)
    then show ?thesis using Cons.IH [OF rest] by (auto simp: last_ConsL last_ConsR)
  next
    case False
    then show ?thesis using Cons.prems by (auto simp: Let_def case_prod_beta split: if_split_asm)
  qed
qed simp

lemma read_records:
  assumes "read_queue c q root mb = Some snap" and "k < length (qs_records (snap_state snap))"
  shows "record_valid c q root k (qs_records (snap_state snap) ! k)"
    and "unat (qr_sequence (qs_records (snap_state snap) ! k)) = unat (cq_accepted q) + k + 1"
proof -
  show valid: "record_valid c q root k (qs_records (snap_state snap) ! k)"
    using assms by (auto simp: read_queue_def split: option.split_asm if_split_asm)
  have "length (qs_records (snap_state snap)) \<le> 256"
    using assms(1) by (auto simp: read_queue_def state_valid_def QUEUE_MAX_RECORDS_def split: option.split_asm if_split_asm)
  then have "k + 1 < 2 ^ 64" using assms(2) by simp
  moreover have "(of_nat k + 1 :: u64) = of_nat (k + 1)" by simp
  ultimately have "unat (of_nat k + 1 :: u64) = k + 1" by (simp only: unat_of_nat) simp
  then show "unat (qr_sequence (qs_records (snap_state snap) ! k)) = unat (cq_accepted q) + k + 1"
    using valid unat_checked_add by (fastforce simp: record_valid_def)
qed

lemma map_seq_upt:
  assumes "\<And>k. k < length xs \<Longrightarrow> f (xs ! k) = a + k + 1"
  shows "map f xs = [a + 1 ..< a + length xs + 1]"
  using assms by (intro nth_equalityI) (simp_all del: upt_Suc)

text \<open>One poll delivers the sequence numbers that follow the accepted one, and accepts them.\<close>

lemma consume_sequences:
  assumes "consume c env cb root q s = (rep, q1, s1)"
  shows "sequences (delivered rep) = [unat (cq_accepted q) + 1 ..< unat (cq_accepted q1) + 1] \<and>
    unat (cq_accepted q) \<le> unat (cq_accepted q1) \<and> cq_generation q1 = cq_generation q \<and>
    (\<forall>ev \<in> set (delivered rep). ev_generation ev = cq_generation q \<and> ev_root ev = root \<and> queue_id root) \<and>
    (answer_of rep = None \<longrightarrow> cq_failed q1) \<and> (cq_failed q \<longrightarrow> delivered rep = [] \<and> answer_of rep = None \<and> q1 = q) \<and>
    (case answer_of rep of Some (Consumed n) \<Rightarrow> length (delivered rep) = n | _ \<Rightarrow> True)"
proof -
  have quiet: ?thesis if "delivered rep = []" "cq_accepted q1 = cq_accepted q" "cq_generation q1 = cq_generation q"
    "answer_of rep = None \<longrightarrow> cq_failed q1" "cq_failed q \<longrightarrow> answer_of rep = None \<and> q1 = q"
    "answer_of rep \<in> {None, Some Busy, Some (Consumed 0)}"
    using that by (auto simp: sequences_def)
  show ?thesis
  proof (cases "\<not> cq_failed q \<and> mb_identity (look_at env 0) \<and> lock_taken env \<and> mb_identity (look_at env 1) \<and>
      unfinished (look_at env 2) = Some False \<and>
      (\<exists>snap. read_queue c q root (look_at env 3) = Some snap \<and> qs_records (snap_state snap) \<noteq> [])")
    case False
    then show ?thesis
      using assms
      by (intro quiet)
         (auto simp: consume_def failed_poll_def poisoned_def Let_def split: if_split_asm option.split_asm bool.split_asm)
  next
    case True
    then obtain snap where snap: "read_queue c q root (look_at env 3) = Some snap" "qs_records (snap_state snap) \<noteq> []"
      by blast
    let ?rs = "qs_records (snap_state snap)"
    obtain evs k acc s2 where del: "deliver (cq_generation q) (look_at env) cb snap 4 ?rs (cq_accepted q) s = (evs, k, acc, s2)"
      by (metis prod_cases4)
    note pre = deliver_prefix [OF del]
    have rep: "delivered rep = evs" "cq_accepted q1 = acc" "cq_generation q1 = cq_generation q"
      "answer_of rep = None \<longrightarrow> cq_failed q1" "answer_of rep \<noteq> None \<longrightarrow> answer_of rep = Some (Consumed (length ?rs)) \<and> k \<noteq> None"
      using assms True snap del
      by (auto simp: consume_def poisoned_def Let_def case_prod_beta split: option.split_asm if_split_asm)
    let ?a = "unat (cq_accepted q)"
    have at: "unat (ev_sequence (evs ! i)) = ?a + i + 1" "ev_generation (evs ! i) = cq_generation q" "ev_root (evs ! i) = root"
      "queue_id root" if "i < length evs" for i
    proof -
      have "evs ! i = as_event (cq_generation q) (?rs ! i)" "i < length ?rs"
        using pre that by (metis nth_map nth_take length_map, linarith)
      then show "unat (ev_sequence (evs ! i)) = ?a + i + 1" "ev_generation (evs ! i) = cq_generation q" "ev_root (evs ! i) = root"
        "queue_id root"
        using read_records [OF snap(1), of i] by (auto simp: record_valid_def)
    qed
    have seqs: "sequences evs = [?a + 1 ..< ?a + length evs + 1]"
      unfolding sequences_def using at(1) by (intro map_seq_upt) simp
    have acc: "unat acc = ?a + length evs"
      using pre at(1) [of "length evs - 1"] by (cases "evs = []") (auto simp: last_conv_nth)
    have "\<forall>ev \<in> set evs. ev_generation ev = cq_generation q \<and> ev_root ev = root \<and> queue_id root"
      using at by (metis in_set_conv_nth)
    then show ?thesis
      using seqs acc rep pre True by (auto split: option.split poll.split)
  qed
qed

section \<open>Runs of polls\<close>

fun polls ::
  "queue_codec \<Rightarrow> ('s \<Rightarrow> stream_event \<Rightarrow> bool \<times> 's) \<Rightarrow> (poll_env \<times> string) list \<Rightarrow> completion_queue \<Rightarrow> 's \<Rightarrow>
   stream_event list \<times> completion_queue \<times> 's" where
  "polls c cb [] q s = ([], q, s)"
| "polls c cb ((env, root) # ps) q s =
     (let (rep, q1, s1) = consume c env cb root q s; (evs, q2, s2) = polls c cb ps q1 s1
      in (delivered rep @ evs, q2, s2))"

lemma upt_join: "a \<le> b \<Longrightarrow> b \<le> d \<Longrightarrow> [a ..< b] @ [b ..< d] = [a ..< d]"
  by (metis le_add_diff_inverse upt_add_eq_append)

lemma polls_generation: "polls c cb ps q s = (evs, q1, s1) \<Longrightarrow> cq_generation q1 = cq_generation q"
proof (induction ps arbitrary: q s evs q1 s1)
  case (Cons p ps)
  obtain env root where p: "p = (env, root)" by fastforce
  obtain rep q2 s2 where con: "consume c env cb root q s = (rep, q2, s2)" by (metis prod_cases3)
  obtain evs2 q3 s3 where rest: "polls c cb ps q2 s2 = (evs2, q3, s3)" by (metis prod_cases3)
  show ?case using Cons.prems Cons.IH [OF rest] consume_sequences [OF con] p con rest by simp
qed simp

lemma polls_sequences:
  assumes "polls c cb ps q s = (evs, q1, s1)"
  shows "sequences evs = [unat (cq_accepted q) + 1 ..< unat (cq_accepted q1) + 1] \<and>
    unat (cq_accepted q) \<le> unat (cq_accepted q1) \<and>
    (\<forall>ev \<in> set evs. ev_generation ev = cq_generation q \<and> queue_id (ev_root ev)) \<and> (cq_failed q \<longrightarrow> evs = [] \<and> q1 = q)"
  using assms
proof (induction ps arbitrary: q s evs q1 s1)
  case (Cons p ps)
  obtain env root where p: "p = (env, root)" by fastforce
  obtain rep q2 s2 where con: "consume c env cb root q s = (rep, q2, s2)" by (metis prod_cases3)
  obtain evs2 q3 s3 where rest: "polls c cb ps q2 s2 = (evs2, q3, s3)" by (metis prod_cases3)
  have eq: "evs = delivered rep @ evs2" "q1 = q3" using Cons.prems p con rest by simp_all
  note one = consume_sequences [OF con] and more = Cons.IH [OF rest]
  have "sequences evs = [unat (cq_accepted q) + 1 ..< unat (cq_accepted q1) + 1]"
    using one more upt_join unfolding eq by (simp add: sequences_def del: upt_Suc)
  then show ?case using one more eq by auto
qed (simp add: sequences_def)

text \<open>
  C36: Hook events reach the tracker exactly once and in order. Over any sequence of polls of a new queue,
  whatever the directory shows at each look, whichever records are stored there and however the
  callback answers: the delivered events carry the sequence numbers one, two, three and so on
  without a gap or a repetition, up to the accepted one, all under the generation of the queue; and
  after the first poll that fails, nothing is delivered any more.
\<close>

theorem queue_delivers_exactly_once:
  assumes "create_queue stream gen fp = Some (q0, file)"
    and "polls c cb before q0 s0 = (evs1, q1, s1)" and "consume c env cb root q1 s1 = (rep, q2, s2)"
    and "polls c cb after q2 s2 = (evs2, q3, s3)"
  shows "sequences (evs1 @ delivered rep @ evs2) = [1 ..< unat (cq_accepted q3) + 1] \<and>
    (\<forall>ev \<in> set (evs1 @ delivered rep @ evs2). ev_generation ev = gen) \<and>
    (answer_of rep = None \<longrightarrow> evs2 = [] \<and> cq_failed q3)"
proof -
  have q0: "cq_accepted q0 = 0" "cq_generation q0 = gen"
    using assms(1) by (auto simp: create_queue_def split: if_split_asm)
  note one = polls_sequences [OF assms(2)] and two = consume_sequences [OF assms(3)] and three = polls_sequences [OF assms(4)]
  have gen: "cq_generation q1 = gen" using polls_generation [OF assms(2)] q0 by simp
  have "[1 ..< unat (cq_accepted q1) + 1] @ [unat (cq_accepted q1) + 1 ..< unat (cq_accepted q2) + 1] @
      [unat (cq_accepted q2) + 1 ..< unat (cq_accepted q3) + 1] = [1 ..< unat (cq_accepted q3) + 1]"
    using two three by (simp add: upt_join del: upt_Suc)
  then have "sequences (evs1 @ delivered rep @ evs2) = [1 ..< unat (cq_accepted q3) + 1]"
    using one two three q0 by (simp add: sequences_def del: upt_Suc)
  moreover have "\<forall>ev \<in> set (evs1 @ delivered rep @ evs2). ev_generation ev = gen"
    using one two three gen q0 by auto
  ultimately show ?thesis using two three by auto
qed

section \<open>The tracker behind the queue\<close>

text \<open>The events among the inputs of the tracker; acknowledgements may come between them.\<close>

fun events_of :: "tr_input list \<Rightarrow> stream_event list" where
  "events_of [] = []"
| "events_of (Event ev clean # is) = ev # events_of is"
| "events_of (_ # is) = events_of is"

lemma events_of_append: "events_of (is @ js) = events_of is @ events_of js"
  by (induction "is" rule: events_of.induct) simp_all

lemma cursor_frame:
  "tr_cursor (tr_invalidate t) = tr_cursor t" "tr_generation (tr_invalidate t) = tr_generation t"
  "tr_cursor (settled t) = tr_cursor t" "tr_generation (settled t) = tr_generation t"
  "tr_cursor (begin_submission ev clean t) = tr_cursor t" "tr_generation (begin_submission ev clean t) = tr_generation t"
  "tr_cursor (snd (acknowledge_wait e t)) = tr_cursor t" "tr_generation (snd (acknowledge_wait e t)) = tr_generation t"
  "tr_cursor (snd (tr_acknowledge_clear e t)) = tr_cursor t" "tr_generation (snd (tr_acknowledge_clear e t)) = tr_generation t"
  by (simp_all add: tr_invalidate_def settled_def begin_submission_def Let_def acknowledge_wait_def
      tr_acknowledge_clear_def split: tracker_effect.split)

lemma handler_cursor:
  "tr_cursor (snd (on_pre tool i t)) = tr_cursor t" "tr_generation (snd (on_pre tool i t)) = tr_generation t"
  "tr_cursor (snd (on_permission tool raw i t)) = tr_cursor t" "tr_generation (snd (on_permission tool raw i t)) = tr_generation t"
  "tr_cursor (snd (on_post tool i t)) = tr_cursor t" "tr_generation (snd (on_post tool i t)) = tr_generation t"
  by (auto simp: on_pre_def on_permission_def on_post_def Let_def cursor_frame split: option.split)

lemma tool_event_cursor:
  "tr_cursor (snd (tool_event ev t)) = tr_cursor t \<and> tr_generation (snd (tool_event ev t)) = tr_generation t"
  by (cases "opt_filter bounded_id (ev_tool ev)"; cases "ev_hook ev")
     (simp_all add: tool_event_def Let_def cursor_frame handler_cursor)

lemma event_cursor:
  "tr_generation (snd (event ev clean t)) = tr_generation t \<and>
   (tr_cursor (snd (event ev clean t)) = tr_cursor t \<or>
    tr_cursor (snd (event ev clean t)) = Some (ev_sequence ev, ev_observed_micros ev))"
  by (simp add: event_def Let_def cursor_frame tool_event_cursor)

lemma cursor_of_run:
  "tr_generation (fold tr_next is (new_tracker gen n)) = gen \<and>
   (\<forall>sq time. tr_cursor (fold tr_next is (new_tracker gen n)) = Some (sq, time) \<longrightarrow>
      unat sq \<in> set (sequences (events_of is)))"
proof (induction "is" rule: rev_induct)
  case Nil
  show ?case by (simp add: new_tracker_def)
next
  case (snoc i js)
  let ?t = "fold tr_next js (new_tracker gen n)"
  show ?case
  proof (cases i)
    case (Event ev clean)
    then show ?thesis
      using snoc.IH event_cursor [of ev clean ?t] by (auto simp: events_of_append sequences_def)
  qed (use snoc.IH in \<open>auto simp: events_of_append cursor_frame\<close>)
qed

lemma queue_id_bounded: "queue_id v \<Longrightarrow> bounded_id v"
proof -
  have "\<not> has_control v" if "list_all (\<lambda>b. 32 \<le> byte_val b \<and> byte_val b < 127) v" for v
    using that by (induction v) auto
  moreover assume "queue_id v"
  moreover from this have "list_all (\<lambda>b. 32 \<le> byte_val b \<and> byte_val b < 127) v"
    by (auto simp: queue_id_def list_all_iff)
  ultimately show ?thesis by (simp add: queue_id_def bounded_id_def)
qed

text \<open>
  The queue supplies what the tracker insists on. Whatever acknowledgements and invalidations come
  between them, when the events a queue delivers are handed in their order to a tracker of the same
  generation, none is ever refused for its generation, its root or its place in the stream: the
  tracker admits the next one exactly when its turn is a bounded identifier and its time is later
  than that of the last admitted event.
\<close>

theorem delivered_events_admitted:
  assumes "create_queue stream gen fp = Some (q0, file)" and "polls c cb ps q0 s0 = (evs, q1, s1)"
    and "evs = events_of is @ ev # later" and t_def: "t = fold tr_next is (new_tracker gen n)"
  shows "event_admitted ev (settled t) \<longleftrightarrow>
    bounded_id (ev_turn ev) \<and> is_none_or (\<lambda>(sq, time). ev_observed_micros ev > time) (tr_cursor t)"
proof -
  have q0: "cq_accepted q0 = 0" "cq_generation q0 = gen"
    using assms(1) by (auto simp: create_queue_def split: if_split_asm)
  note run = polls_sequences [OF assms(2)]
  have "ev_generation ev = gen" "bounded_id (ev_root ev)"
    using run q0 assms(3) queue_id_bounded by auto
  moreover have "sorted_wrt (<) (sequences evs)" using run by (simp del: upt_Suc)
  then have "\<forall>k \<in> set (sequences (events_of is)). k < unat (ev_sequence ev)"
    unfolding assms(3) by (auto simp: sequences_def sorted_wrt_append)
  then have "tr_cursor t = Some (sq, time) \<Longrightarrow> sq < ev_sequence ev" for sq time
    using cursor_of_run [of "is" gen n] unfolding t_def word_less_nat_alt by blast
  moreover have "tr_generation t = gen" using cursor_of_run unfolding t_def by blast
  ultimately show ?thesis
    by (cases "tr_cursor t") (auto simp: event_admitted_def cursor_frame)
qed

section \<open>A queue with one record\<close>

definition sample_print :: string where
  "sample_print = replicate 64 CHR ''a''"

definition sample_record :: queue_record where
  "sample_record = \<lparr>qr_version = 1, qr_sequence = 1, qr_observed_micros = 5, qr_hook_fingerprint = sample_print,
     qr_root_id = ''r'', qr_turn_id = Some ''t'', qr_event = UserPromptSubmit, qr_tool_name = None, qr_tool_use_id = None\<rparr>"

definition sample_file :: queue_state where
  "sample_file = \<lparr>qs_version = 1, qs_stream_id = ''s'', qs_generation = 1, qs_hook_fingerprint = sample_print,
     qs_next_sequence = 2, qs_acknowledged_sequence = 0, qs_records = [sample_record]\<rparr>"

definition sample_queue :: completion_queue where
  "sample_queue = \<lparr>cq_stream_id = ''s'', cq_generation = 1, cq_fingerprint = sample_print, cq_accepted = 0, cq_failed = False\<rparr>"

definition sample_queue_codec :: queue_codec where
  "sample_queue_codec = \<lparr>state_json = (\<lambda>s. Some ''{}''), state_parse = (\<lambda>b. Some sample_file), record_size = (\<lambda>r. Some 200)\<rparr>"

definition quiet_mailbox :: mailbox where
  "quiet_mailbox = \<lparr>mb_identity = True, mb_entries = Some [(Some ''queue.json'', True), (Some ''queue.lock'', True)],
     mb_queue = Some (''{}'', 7)\<rparr>"

definition quiet_env :: poll_env where
  "quiet_env = \<lparr>look_at = (\<lambda>k. quiet_mailbox), lock_taken = True, replaced = True, synced = True, unlocked = True\<rparr>"

definition yes :: "unit \<Rightarrow> stream_event \<Rightarrow> bool \<times> unit" where
  "yes s ev = (True, ())"

definition sample_delivery :: stream_event where
  "sample_delivery = as_event 1 sample_record"

definition sample_read :: queue_snapshot where
  "sample_read = \<lparr>snap_state = sample_file, snap_bytes = ''{}'', snap_identity = 7\<rparr>"

lemma sample_created: "\<exists>file. create_queue ''s'' 1 sample_print = Some (sample_queue, file)"
  by (simp add: create_queue_def hex_id_def sample_queue_def sample_print_def list_all_iff lower_hex_def)

lemma quiet_unfinished: "unfinished quiet_mailbox = Some False"
  by (simp add: unfinished_def quiet_mailbox_def)

lemma sample_reads: "read_queue sample_queue_codec sample_queue ''r'' quiet_mailbox = Some sample_read"
  by (simp add: read_queue_def sample_queue_codec_def sample_queue_def quiet_mailbox_def sample_read_def state_valid_def
      record_valid_def sample_file_def sample_record_def QUEUE_MAX_BYTES_def QUEUE_MAX_RECORDS_def queue_id_def
      checked_add_def)

lemma sample_verified: "verify_snapshot sample_read quiet_mailbox"
  by (simp add: verify_snapshot_def sample_read_def quiet_mailbox_def QUEUE_MAX_BYTES_def)

lemma sample_consumed:
  "consume sample_queue_codec quiet_env yes ''r'' sample_queue () =
     (\<lparr>answer_of = Some (Consumed 1), delivered = [sample_delivery],
       published = Some (sample_file\<lparr>qs_acknowledged_sequence := 1, qs_records := []\<rparr>)\<rparr>,
      sample_queue\<lparr>cq_accepted := 1\<rparr>, ())"
proof -
  have "qs_records (snap_state sample_read) = [sample_record]" "snap_state sample_read = sample_file"
    by (simp_all add: sample_read_def sample_file_def)
  moreover have "qr_sequence sample_record = 1" by (simp add: sample_record_def)
  moreover have written: "replace_queue sample_queue_codec quiet_env s = (True, Some s)" for s
    by (simp add: replace_queue_def sample_queue_codec_def quiet_env_def QUEUE_MAX_BYTES_def)
  moreover have "mb_identity quiet_mailbox" by (simp add: quiet_mailbox_def)
  moreover have "\<not> cq_failed sample_queue" "cq_generation sample_queue = 1" by (simp_all add: sample_queue_def)
  ultimately show ?thesis
    by (simp add: consume_def quiet_env_def quiet_unfinished sample_reads sample_verified finish_def yes_def sample_delivery_def
        written [unfolded quiet_env_def])
qed

theorem queue_delivers_exactly_once_witness:
  "delivered (fst (consume sample_queue_codec quiet_env yes ''r'' sample_queue ())) = [sample_delivery] \<and>
   sequences [sample_delivery] = [1]"
proof -
  obtain f where f: "create_queue ''s'' 1 sample_print = Some (sample_queue, f)" using sample_created by blast
  have "polls sample_queue_codec yes [] sample_queue () = ([], sample_queue, ())"
    "polls sample_queue_codec yes [] (sample_queue\<lparr>cq_accepted := 1\<rparr>) () = ([], sample_queue\<lparr>cq_accepted := 1\<rparr>, ())" by simp_all
  from queue_delivers_exactly_once [OF f this(1) sample_consumed this(2)] show ?thesis
    by (simp add: sample_consumed)
qed

theorem delivered_events_admitted_witness:
  "event_admitted sample_delivery (settled (new_tracker 1 0)) \<longleftrightarrow> bounded_id ''t''"
proof -
  obtain f where f: "create_queue ''s'' 1 sample_print = Some (sample_queue, f)" using sample_created by blast
  have "polls sample_queue_codec yes [(quiet_env, ''r'')] sample_queue () =
      ([sample_delivery], sample_queue\<lparr>cq_accepted := 1\<rparr>, ())"
    by (simp add: sample_consumed)
  from delivered_events_admitted [OF f this, of "[]" sample_delivery "[]" "new_tracker 1 0" 0] show ?thesis
    by (simp add: new_tracker_def sample_delivery_def as_event_def sample_record_def)
qed

end
