(* ===== verification/Completion_Packet.thy ===== *)
theory Completion_Packet
  imports Rollup
begin

text \<open>
  Completion packets, \<^verbatim>\<open>taskmaster/completion.rs\<close>: the evidence that a piece of work is done, the readiness
  derived from it, the approval bound to it and the lineage of the packets it replaced; and the
  validation of a packet whose evidence was redacted, from \<^verbatim>\<open>taskmaster/assessment_access.rs\<close>. The JSON of
  the evidence and of the action and the hexadecimal SHA-256 are function arguments.
\<close>

section \<open>Data\<close>

definition COMPLETION_PACKET_SCHEMA_VERSION :: u32 where "COMPLETION_PACKET_SCHEMA_VERSION = 1"
definition COMPLETION_EVIDENCE_VERSION :: u32 where "COMPLETION_EVIDENCE_VERSION = 1"
definition MAX_PACKET_ID_CHARS :: nat where "MAX_PACKET_ID_CHARS = 128"
definition MAX_SCOPE_CHARS :: nat where "MAX_SCOPE_CHARS = 512"
definition MAX_PATHS :: nat where "MAX_PATHS = 512"
definition MAX_LINEAGE :: nat where "MAX_LINEAGE = 16"

datatype packet_attribution = Unambiguous | Inconclusive
datatype packet_readiness = VerificationNeeded | ReviewReady | FindingsNeedFix | ReadyForUserReview
datatype verification_result = Passed | VerificationFailed | NotRun
datatype review_outcome = NoFindings | Findings
datatype action_role = ReviewRole | VerificationRole | FixRole | UserReviewRole
datatype issue_kind = MissingIssue | ConflictIssue

record evidence_provenance =
  pv_source_session_id :: string
  pv_workspace_id :: string
  pv_workspace_snapshot_id :: string
  pv_observed_at :: string

record change_subject =
  sj_workspace_id :: string
  sj_scope :: string
  sj_snapshot_id :: string
  sj_attribution :: packet_attribution
  sj_changed_paths :: "string list"

record completion_verification =
  vf_command :: string
  vf_result :: verification_result
  vf_applicable_revision :: string
  vf_observed_at :: string

record completion_review =
  rw_reviewer_session_id :: string
  rw_reviewer_identity :: string
  rw_independent :: bool
  rw_outcome :: review_outcome
  rw_applicable_revision :: string
  rw_observed_at :: string

record evidence_issue =
  is_kind :: issue_kind
  is_detail :: string

record completion_action =
  ac_prompt :: string
  ac_model :: "string option"
  ac_scope :: string
  ac_role :: action_role

record completion_approval =
  ap_approved_at :: string
  ap_approver :: string
  ap_revision :: u64
  ap_evidence_fingerprint :: string
  ap_action_fingerprint :: string
  ap_idempotency_key :: string

record packet_lineage =
  ln_packet_id :: string
  ln_revision :: u64
  ln_evidence_fingerprint :: string
  ln_superseded_at :: string

record completion_packet =
  cp_schema_version :: u32
  cp_evidence_version :: u32
  cp_packet_id :: string
  cp_source_session_id :: string
  cp_observed_at :: string
  cp_provenance :: evidence_provenance
  cp_subject :: change_subject
  cp_verification :: "completion_verification option"
  cp_review :: "completion_review option"
  cp_missing_evidence :: "evidence_issue list"
  cp_conflicting_evidence :: "evidence_issue list"
  cp_action :: completion_action
  cp_readiness :: packet_readiness
  cp_revision :: u64
  cp_evidence_fingerprint :: string
  cp_approval :: "completion_approval option"
  cp_supersedes :: "string option"
  cp_lineage :: "packet_lineage list"
  cp_completion_key :: "string option"

text \<open>What the evidence fingerprint is computed from, in the order of serialization.\<close>

record packet_evidence =
  pe_evidence_version :: u32
  pe_source_session_id :: string
  pe_observed_at :: string
  pe_provenance :: evidence_provenance
  pe_subject :: change_subject
  pe_verification :: "completion_verification option"
  pe_review :: "completion_review option"
  pe_missing_evidence :: "evidence_issue list"
  pe_conflicting_evidence :: "evidence_issue list"

record packet_codec =
  evidence_json :: "packet_evidence \<Rightarrow> string"
  action_json :: "completion_action \<Rightarrow> string"
  sha256_hex :: "string \<Rightarrow> string"

datatype packet_error =
    UnsupportedSchema | UnsupportedEvidence | InvalidField string | InvalidModel | ProvenanceMismatch
  | WrongWorkspaceSnapshot | InvalidPaths | InvalidFingerprint | ReadinessNotDerived
  | InvalidVerification | InvalidReview | InvalidSupersession | LineageTooLong | InvalidLineage
  | InvalidSupersessionLineage | StaleApproval | InvalidCompletionKey | InvalidMutation
  | InvalidRedactedHistory

section \<open>Fingerprints and readiness\<close>

definition valid_packet_text :: "string \<Rightarrow> nat \<Rightarrow> bool" where
  "valid_packet_text v limit \<longleftrightarrow> v \<noteq> [] \<and> char_count v \<le> limit \<and> \<not> has_control v"

definition valid_fingerprint :: "string \<Rightarrow> bool" where
  "valid_fingerprint v \<longleftrightarrow> length v = 64 \<and> list_all ascii_hexdigit v"

definition evidence_of :: "completion_packet \<Rightarrow> packet_evidence" where
  "evidence_of p =
     \<lparr>pe_evidence_version = cp_evidence_version p, pe_source_session_id = cp_source_session_id p,
      pe_observed_at = cp_observed_at p, pe_provenance = cp_provenance p, pe_subject = cp_subject p,
      pe_verification = cp_verification p, pe_review = cp_review p,
      pe_missing_evidence = cp_missing_evidence p, pe_conflicting_evidence = cp_conflicting_evidence p\<rparr>"

definition computed_evidence_fingerprint :: "packet_codec \<Rightarrow> completion_packet \<Rightarrow> string" where
  "computed_evidence_fingerprint c p = sha256_hex c (evidence_json c (evidence_of p))"

definition action_fingerprint :: "packet_codec \<Rightarrow> completion_packet \<Rightarrow> string" where
  "action_fingerprint c p = sha256_hex c (action_json c (cp_action p))"

definition verified_at_snapshot :: "completion_packet \<Rightarrow> bool" where
  "verified_at_snapshot p =
     is_some_and (\<lambda>v. vf_result v = Passed \<and> vf_applicable_revision v = sj_snapshot_id (cp_subject p)) (cp_verification p)"

definition derived_readiness :: "completion_packet \<Rightarrow> packet_readiness" where
  "derived_readiness p =
     (if sj_attribution (cp_subject p) = Inconclusive \<or> cp_missing_evidence p \<noteq> [] \<or>
         cp_conflicting_evidence p \<noteq> [] \<or> \<not> verified_at_snapshot p
      then VerificationNeeded
      else (case cp_review p of
              None \<Rightarrow> ReviewReady
            | Some r \<Rightarrow>
                (if rw_outcome r = Findings \<and> rw_applicable_revision r = sj_snapshot_id (cp_subject p)
                 then FindingsNeedFix
                 else if rw_outcome r = NoFindings \<and> rw_independent r \<and>
                         rw_reviewer_session_id r \<noteq> cp_source_session_id p \<and>
                         rw_applicable_revision r = sj_snapshot_id (cp_subject p)
                 then ReadyForUserReview
                 else VerificationNeeded)))"

section \<open>Validation\<close>

definition packet_fields :: "completion_packet \<Rightarrow> (string \<times> string \<times> nat) list" where
  "packet_fields p =
     [(''packet_id'', cp_packet_id p, MAX_PACKET_ID_CHARS),
      (''source_session_id'', cp_source_session_id p, 256),
      (''observed_at'', cp_observed_at p, 128),
      (''provenance.source_session_id'', pv_source_session_id (cp_provenance p), 256),
      (''provenance.workspace_id'', pv_workspace_id (cp_provenance p), 256),
      (''provenance.workspace_snapshot_id'', pv_workspace_snapshot_id (cp_provenance p), 256),
      (''provenance.observed_at'', pv_observed_at (cp_provenance p), 128),
      (''subject.workspace_id'', sj_workspace_id (cp_subject p), 256),
      (''subject.scope'', sj_scope (cp_subject p), MAX_SCOPE_CHARS),
      (''subject.snapshot_id'', sj_snapshot_id (cp_subject p), 256),
      (''action.prompt'', ac_prompt (cp_action p), 8192),
      (''action.scope'', ac_scope (cp_action p), MAX_SCOPE_CHARS)]"

definition check_field :: "string \<times> string \<times> nat \<Rightarrow> packet_error + unit" where
  "check_field f = (let (name, v, limit) = f in refuse_if (\<not> valid_packet_text v limit) (InvalidField name))"

definition verification_ok :: "completion_packet \<Rightarrow> bool" where
  "verification_ok p =
     is_none_or (\<lambda>v. valid_packet_text (vf_command v) 4096 \<and> vf_applicable_revision v = sj_snapshot_id (cp_subject p) \<and>
       valid_packet_text (vf_observed_at v) 128) (cp_verification p)"

definition review_ok :: "completion_packet \<Rightarrow> bool" where
  "review_ok p =
     is_none_or (\<lambda>r. valid_packet_text (rw_reviewer_session_id r) 256 \<and> valid_packet_text (rw_reviewer_identity r) 256 \<and>
       rw_applicable_revision r = sj_snapshot_id (cp_subject p) \<and> valid_packet_text (rw_observed_at r) 128) (cp_review p)"

fun lineage_ok :: "u64 \<Rightarrow> packet_lineage list \<Rightarrow> bool" where
  "lineage_ok previous [] = True"
| "lineage_ok previous (e # es) \<longleftrightarrow>
     valid_packet_text (ln_packet_id e) MAX_PACKET_ID_CHARS \<and> ln_revision e \<noteq> 0 \<and> ln_revision e > previous \<and>
     valid_fingerprint (ln_evidence_fingerprint e) \<and> valid_packet_text (ln_superseded_at e) 128 \<and>
     lineage_ok (ln_revision e) es"

definition approval_ok :: "packet_codec \<Rightarrow> completion_packet \<Rightarrow> bool" where
  "approval_ok c p =
     is_none_or (\<lambda>a. ap_revision a = cp_revision p \<and> ap_evidence_fingerprint a = cp_evidence_fingerprint p \<and>
       ap_action_fingerprint a = action_fingerprint c p \<and> ap_approved_at a \<noteq> [] \<and>
       valid_packet_text (ap_approved_at a) 128 \<and> valid_packet_text (ap_approver a) 256 \<and>
       valid_packet_text (ap_idempotency_key a) 128 \<and> \<not> has_white (ap_idempotency_key a)) (cp_approval p)"

definition validate_packet :: "packet_codec \<Rightarrow> string \<Rightarrow> completion_packet \<Rightarrow> packet_error + unit" where
  "validate_packet c workspace p =
     first_error
       ([refuse_if (cp_schema_version p \<noteq> COMPLETION_PACKET_SCHEMA_VERSION) UnsupportedSchema,
         refuse_if (cp_evidence_version p \<noteq> COMPLETION_EVIDENCE_VERSION) UnsupportedEvidence] @
        map check_field (packet_fields p) @
        [refuse_if (is_some_and (\<lambda>md. \<not> valid_packet_text md 256) (ac_model (cp_action p))) InvalidModel,
         refuse_if (cp_source_session_id p \<noteq> pv_source_session_id (cp_provenance p)) ProvenanceMismatch,
         refuse_if (pv_workspace_id (cp_provenance p) \<noteq> workspace \<or> sj_workspace_id (cp_subject p) \<noteq> workspace \<or>
           pv_workspace_snapshot_id (cp_provenance p) \<noteq> sj_snapshot_id (cp_subject p)) WrongWorkspaceSnapshot,
         refuse_if (length (sj_changed_paths (cp_subject p)) > MAX_PATHS \<or>
           list_ex (\<lambda>path. \<not> valid_packet_text path 1024) (sj_changed_paths (cp_subject p))) InvalidPaths,
         refuse_if (cp_revision p = 0 \<or> cp_evidence_fingerprint p \<noteq> computed_evidence_fingerprint c p) InvalidFingerprint,
         refuse_if (cp_readiness p \<noteq> derived_readiness p) ReadinessNotDerived,
         refuse_if (\<not> verification_ok p) InvalidVerification,
         refuse_if (\<not> review_ok p) InvalidReview,
         refuse_if (is_some_and (\<lambda>i. \<not> valid_packet_text i MAX_PACKET_ID_CHARS \<or> i = cp_packet_id p) (cp_supersedes p))
           InvalidSupersession,
         refuse_if (length (cp_lineage p) > MAX_LINEAGE) LineageTooLong,
         refuse_if (\<not> lineage_ok 0 (cp_lineage p)) InvalidLineage,
         refuse_if ((cp_lineage p \<noteq> [] \<and> ln_revision (last (cp_lineage p)) \<ge> cp_revision p) \<or>
           (cp_supersedes p \<noteq> None) \<noteq> (cp_lineage p \<noteq> [])) InvalidSupersessionLineage,
         refuse_if (\<not> approval_ok c p) StaleApproval,
         refuse_if (is_some_and (\<lambda>k. \<not> valid_packet_text k 128 \<or> has_white k) (cp_completion_key p)) InvalidCompletionKey])"

record mutation_request =
  mq_packet_revision :: u64
  mq_evidence_fingerprint :: string
  mq_idempotency_key :: string

definition validate_request :: "mutation_request \<Rightarrow> packet_error + unit" where
  "validate_request r =
     refuse_if (mq_packet_revision r = 0 \<or> \<not> valid_fingerprint (mq_evidence_fingerprint r) \<or>
       \<not> valid_packet_text (mq_idempotency_key r) 128 \<or> has_white (mq_idempotency_key r)) InvalidMutation"

subsection \<open>Redacted packets\<close>

definition REDACTED_SUMMARY :: string where
  "REDACTED_SUMMARY = ''Assessment evidence was redacted after context access changed.''"

definition redacted_shape :: "completion_packet \<Rightarrow> bool" where
  "redacted_shape p \<longleftrightarrow>
     ac_prompt (cp_action p) = REDACTED_SUMMARY \<and> ac_scope (cp_action p) = REDACTED_SUMMARY \<and>
     sj_scope (cp_subject p) = REDACTED_SUMMARY \<and>
     is_none_or (\<lambda>v. vf_command v = REDACTED_SUMMARY) (cp_verification p) \<and>
     list_all (\<lambda>i. is_detail i = REDACTED_SUMMARY) (cp_missing_evidence p @ cp_conflicting_evidence p) \<and>
     valid_fingerprint (cp_evidence_fingerprint p) \<and>
     is_none_or (\<lambda>a. ap_evidence_fingerprint a = cp_evidence_fingerprint p \<and> valid_fingerprint (ap_action_fingerprint a))
       (cp_approval p)"

text \<open>The packet with its fingerprints recomputed, of which only the structure is checked.\<close>

definition structural :: "packet_codec \<Rightarrow> completion_packet \<Rightarrow> completion_packet" where
  "structural c p =
     (let fp = computed_evidence_fingerprint c p in
      p\<lparr>cp_evidence_fingerprint := fp,
        cp_approval := map_option (\<lambda>a. a\<lparr>ap_evidence_fingerprint := fp, ap_action_fingerprint := action_fingerprint c p\<rparr>)
          (cp_approval p)\<rparr>)"

definition validate_redacted_packet :: "packet_codec \<Rightarrow> string \<Rightarrow> completion_packet \<Rightarrow> packet_error + unit" where
  "validate_redacted_packet c workspace p =
     (if \<not> redacted_shape p then Inl InvalidRedactedHistory else validate_packet c workspace (structural c p))"

section \<open>What validation guarantees\<close>

lemma validate_packet_ok:
  "validate_packet c workspace p = Inr () \<longleftrightarrow>
     cp_schema_version p = COMPLETION_PACKET_SCHEMA_VERSION \<and> cp_evidence_version p = COMPLETION_EVIDENCE_VERSION \<and>
     (\<forall>(n, v, limit) \<in> set (packet_fields p). valid_packet_text v limit) \<and>
     is_none_or (\<lambda>md. valid_packet_text md 256) (ac_model (cp_action p)) \<and>
     cp_source_session_id p = pv_source_session_id (cp_provenance p) \<and>
     pv_workspace_id (cp_provenance p) = workspace \<and> sj_workspace_id (cp_subject p) = workspace \<and>
     pv_workspace_snapshot_id (cp_provenance p) = sj_snapshot_id (cp_subject p) \<and>
     length (sj_changed_paths (cp_subject p)) \<le> MAX_PATHS \<and>
     list_all (\<lambda>path. valid_packet_text path 1024) (sj_changed_paths (cp_subject p)) \<and>
     cp_revision p \<noteq> 0 \<and> cp_evidence_fingerprint p = computed_evidence_fingerprint c p \<and>
     cp_readiness p = derived_readiness p \<and> verification_ok p \<and> review_ok p \<and>
     is_none_or (\<lambda>i. valid_packet_text i MAX_PACKET_ID_CHARS \<and> i \<noteq> cp_packet_id p) (cp_supersedes p) \<and>
     length (cp_lineage p) \<le> MAX_LINEAGE \<and> lineage_ok 0 (cp_lineage p) \<and>
     (cp_lineage p = [] \<or> ln_revision (last (cp_lineage p)) < cp_revision p) \<and>
     (cp_supersedes p = None \<longleftrightarrow> cp_lineage p = []) \<and> approval_ok c p \<and>
     is_none_or (\<lambda>k. valid_packet_text k 128 \<and> \<not> has_white k) (cp_completion_key p)"
proof -
  have fields: "(\<forall>ch \<in> set (map check_field (packet_fields p)). ch = Inr ()) \<longleftrightarrow>
      (\<forall>(n, v, limit) \<in> set (packet_fields p). valid_packet_text v limit)"
    by (auto simp: check_field_def)
  have options: "\<not> is_some_and P o1 \<longleftrightarrow> is_none_or (\<lambda>x. \<not> P x) o1" for P and o1 :: "'x option"
    by (cases o1) simp_all
  have lists: "\<not> list_ex P xs \<longleftrightarrow> list_all (\<lambda>x. \<not> P x) xs" for P and xs :: "'x list"
    by (auto simp: list_ex_iff list_all_iff)
  show ?thesis
    unfolding validate_packet_def first_error_ok set_append ball_Un fields
    by (simp add: options lists not_le not_less del: set_map cong: conj_cong) (cases "cp_supersedes p"; simp; blast)
qed

lemma lineage_increasing:
  "lineage_ok previous es \<Longrightarrow>
     sorted_wrt (<) (map ln_revision es) \<and> (\<forall>e \<in> set es. previous < ln_revision e \<and> ln_revision e \<le> ln_revision (last es))"
proof (induction es arbitrary: previous)
  case (Cons e es)
  then have "lineage_ok (ln_revision e) es" "previous < ln_revision e" by simp_all
  then show ?case using Cons.IH [of "ln_revision e"] by (cases es) (auto intro: less_trans order.strict_implies_order)
qed simp

text \<open>The evidence decides; approval, lineage and completion key do not enter it.\<close>

lemma evidence_frame [simp]:
  "evidence_of (p\<lparr>cp_approval := a\<rparr>) = evidence_of p" "evidence_of (p\<lparr>cp_completion_key := k\<rparr>) = evidence_of p"
  "evidence_of (p\<lparr>cp_supersedes := i\<rparr>) = evidence_of p" "evidence_of (p\<lparr>cp_lineage := l\<rparr>) = evidence_of p"
  "evidence_of (p\<lparr>cp_evidence_fingerprint := f\<rparr>) = evidence_of p"
  by (simp_all add: evidence_of_def)

lemma evidence_parts:
  assumes "evidence_of p = evidence_of q"
  shows "cp_subject p = cp_subject q" "cp_missing_evidence p = cp_missing_evidence q"
    "cp_conflicting_evidence p = cp_conflicting_evidence q" "cp_verification p = cp_verification q"
    "cp_review p = cp_review q" "cp_source_session_id p = cp_source_session_id q"
  using assms by (simp_all add: evidence_of_def)

lemma evidence_determines:
  assumes "evidence_of p = evidence_of q"
  shows "derived_readiness p = derived_readiness q" "verification_ok p = verification_ok q" "review_ok p = review_ok q"
    "computed_evidence_fingerprint c p = computed_evidence_fingerprint c q"
  unfolding derived_readiness_def verified_at_snapshot_def verification_ok_def review_ok_def
    computed_evidence_fingerprint_def evidence_parts [OF assms] assms by (rule refl)+

lemma validate_approval:
  "validate_packet c w (p\<lparr>cp_approval := a, cp_completion_key := k\<rparr>) = Inr () \<longleftrightarrow>
     validate_packet c w (p\<lparr>cp_approval := None, cp_completion_key := None\<rparr>) = Inr () \<and>
     approval_ok c (p\<lparr>cp_approval := a\<rparr>) \<and> is_none_or (\<lambda>k. valid_packet_text k 128 \<and> \<not> has_white k) k"
proof -
  let ?q = "p\<lparr>cp_approval := a, cp_completion_key := k\<rparr>" and ?n = "p\<lparr>cp_approval := None, cp_completion_key := None\<rparr>"
  have "evidence_of ?q = evidence_of ?n" by simp
  note same = evidence_determines [OF this]
  moreover have "packet_fields ?q = packet_fields ?n" "approval_ok c ?q = approval_ok c (p\<lparr>cp_approval := a\<rparr>)" "approval_ok c ?n"
    by (simp_all add: packet_fields_def approval_ok_def action_fingerprint_def)
  ultimately show ?thesis unfolding validate_packet_ok same by simp
qed

text \<open>
  C23: A packet that validates offers its work for the user's review exactly when the change is
  attributed without doubt, nothing is missing or in conflict, the verification passed and a review
  by somebody other than the author found nothing, both for the very snapshot the packet is about.
\<close>

theorem ready_packet_reviewed:
  assumes "validate_packet c workspace p = Inr ()"
  shows "cp_readiness p = ReadyForUserReview \<longleftrightarrow>
    sj_attribution (cp_subject p) = Unambiguous \<and> cp_missing_evidence p = [] \<and> cp_conflicting_evidence p = [] \<and>
    (\<exists>v. cp_verification p = Some v \<and> vf_result v = Passed \<and> vf_applicable_revision v = pv_workspace_snapshot_id (cp_provenance p)) \<and>
    (\<exists>r. cp_review p = Some r \<and> rw_outcome r = NoFindings \<and> rw_independent r \<and>
       rw_reviewer_session_id r \<noteq> pv_source_session_id (cp_provenance p) \<and>
       rw_applicable_revision r = pv_workspace_snapshot_id (cp_provenance p))"
proof -
  have "cp_readiness p = derived_readiness p" "cp_source_session_id p = pv_source_session_id (cp_provenance p)"
    "pv_workspace_snapshot_id (cp_provenance p) = sj_snapshot_id (cp_subject p)"
    using assms by (simp_all add: validate_packet_ok)
  moreover have "sj_attribution (cp_subject p) \<noteq> Inconclusive \<longleftrightarrow> sj_attribution (cp_subject p) = Unambiguous"
    by (cases "sj_attribution (cp_subject p)") simp_all
  ultimately show ?thesis
    by (cases "cp_review p") (auto simp: derived_readiness_def verified_at_snapshot_def is_some_and_iff)
qed

text \<open>
  An approval is good for one packet only. When two packets that validate carry the same
  approval, they agree on the revision, on all of the evidence and on the action that was approved,
  as long as the fingerprints of their evidence and of their actions do not collide.
\<close>

theorem approval_covers_one_packet:
  assumes p: "validate_packet c workspace p = Inr ()" "cp_approval p = Some a"
    and q: "validate_packet c workspace' q = Inr ()" "cp_approval q = Some a"
    and "inj_on (\<lambda>e. sha256_hex c (evidence_json c e)) {evidence_of p, evidence_of q}"
    and "inj_on (\<lambda>e. sha256_hex c (action_json c e)) {cp_action p, cp_action q}"
  shows "cp_revision p = cp_revision q \<and> evidence_of p = evidence_of q \<and> cp_action p = cp_action q \<and>
    workspace = workspace' \<and> cp_readiness p = cp_readiness q"
proof -
  note vp = p(1) [unfolded validate_packet_ok] and vq = q(1) [unfolded validate_packet_ok]
  have ap: "ap_revision a = cp_revision p" "ap_evidence_fingerprint a = computed_evidence_fingerprint c p"
    "ap_action_fingerprint a = action_fingerprint c p"
    using vp p(2) by (auto simp: approval_ok_def)
  have aq: "ap_revision a = cp_revision q" "ap_evidence_fingerprint a = computed_evidence_fingerprint c q"
    "ap_action_fingerprint a = action_fingerprint c q"
    using vq q(2) by (auto simp: approval_ok_def)
  have same: "evidence_of p = evidence_of q"
    using inj_onD [OF assms(5), of "evidence_of p" "evidence_of q"] ap(2) aq(2)
    by (simp add: computed_evidence_fingerprint_def)
  have "cp_action p = cp_action q"
    using inj_onD [OF assms(6), of "cp_action p" "cp_action q"] ap(3) aq(3) by (simp add: action_fingerprint_def)
  moreover note evidence_determines(1) [OF same] evidence_parts(1) [OF same]
  moreover have "cp_readiness p = derived_readiness p" "cp_readiness q = derived_readiness q"
    "sj_workspace_id (cp_subject p) = workspace" "sj_workspace_id (cp_subject q) = workspace'"
    using vp vq by blast+
  ultimately show ?thesis using same ap(1) aq(1) by simp
qed

section \<open>A concrete packet\<close>

definition plain_codec :: packet_codec where
  "plain_codec = \<lparr>evidence_json = (\<lambda>e. pe_observed_at e), action_json = (\<lambda>a. ac_prompt a),
     sha256_hex = (\<lambda>s. replicate 64 CHR ''a'')\<rparr>"

definition sample_subject :: change_subject where
  "sample_subject = \<lparr>sj_workspace_id = ''w'', sj_scope = ''c'', sj_snapshot_id = ''g'', sj_attribution = Unambiguous,
     sj_changed_paths = []\<rparr>"

definition sample_packet :: "string \<Rightarrow> completion_packet" where
  "sample_packet i =
     \<lparr>cp_schema_version = 1, cp_evidence_version = 1, cp_packet_id = i, cp_source_session_id = ''s'', cp_observed_at = ''t'',
      cp_provenance = \<lparr>pv_source_session_id = ''s'', pv_workspace_id = ''w'', pv_workspace_snapshot_id = ''g'', pv_observed_at = ''t''\<rparr>,
      cp_subject = sample_subject,
      cp_verification = Some \<lparr>vf_command = ''m'', vf_result = Passed, vf_applicable_revision = ''g'', vf_observed_at = ''t''\<rparr>,
      cp_review = Some \<lparr>rw_reviewer_session_id = ''r'', rw_reviewer_identity = ''r'', rw_independent = True,
        rw_outcome = NoFindings, rw_applicable_revision = ''g'', rw_observed_at = ''t''\<rparr>,
      cp_missing_evidence = [], cp_conflicting_evidence = [],
      cp_action = \<lparr>ac_prompt = ''p'', ac_model = None, ac_scope = ''c'', ac_role = UserReviewRole\<rparr>,
      cp_readiness = ReadyForUserReview, cp_revision = 1, cp_evidence_fingerprint = replicate 64 CHR ''a'', cp_approval = None,
      cp_supersedes = None, cp_lineage = [], cp_completion_key = None\<rparr>"

definition sample_approval :: completion_approval where
  "sample_approval = \<lparr>ap_approved_at = ''t'', ap_approver = ''u'', ap_revision = 1, ap_evidence_fingerprint = replicate 64 CHR ''a'',
     ap_action_fingerprint = replicate 64 CHR ''a'', ap_idempotency_key = ''k''\<rparr>"

lemma short_text: "valid_packet_text [ch] n" if "0 < n" "32 \<le> byte_val ch" "byte_val ch < 127"
  using that by (simp add: valid_packet_text_def char_count_def continuation_def)

lemma sample_derived: "derived_readiness (sample_packet i) = ReadyForUserReview"
  by (simp add: derived_readiness_def verified_at_snapshot_def sample_packet_def sample_subject_def)

lemma sample_packet_valid: "i \<in> {''x'', ''y''} \<Longrightarrow> validate_packet plain_codec ''w'' (sample_packet i) = Inr ()"
  unfolding validate_packet_ok sample_derived
  by (auto simp: packet_fields_def short_text verification_ok_def review_ok_def approval_ok_def sample_packet_def
      sample_subject_def computed_evidence_fingerprint_def plain_codec_def COMPLETION_PACKET_SCHEMA_VERSION_def
      COMPLETION_EVIDENCE_VERSION_def MAX_PACKET_ID_CHARS_def MAX_SCOPE_CHARS_def)

lemma sample_approved_valid:
  assumes "i \<in> {''x'', ''y''}"
  shows "validate_packet plain_codec ''w'' (sample_packet i\<lparr>cp_approval := Some sample_approval\<rparr>) = Inr ()"
proof -
  have eta: "sample_packet i = sample_packet i\<lparr>cp_approval := None, cp_completion_key := None\<rparr>"
    "sample_packet i\<lparr>cp_approval := Some sample_approval\<rparr> =
       sample_packet i\<lparr>cp_approval := Some sample_approval, cp_completion_key := None\<rparr>"
    by (simp_all add: sample_packet_def)
  have "approval_ok plain_codec (sample_packet i\<lparr>cp_approval := Some sample_approval\<rparr>)"
    by (simp add: approval_ok_def sample_approval_def sample_packet_def action_fingerprint_def plain_codec_def short_text
        white1_def white2_def white3_def)
  moreover have "validate_packet plain_codec ''w'' (sample_packet i\<lparr>cp_approval := None, cp_completion_key := None\<rparr>) = Inr ()"
    using sample_packet_valid [OF assms] eta(1) by simp
  ultimately have "validate_packet plain_codec ''w'' (sample_packet i\<lparr>cp_approval := Some sample_approval, cp_completion_key := None\<rparr>) = Inr ()"
    by (subst validate_approval) simp
  then show ?thesis using eta(2) by simp
qed

theorem ready_packet_reviewed_witness:
  "validate_packet plain_codec ''w'' (sample_packet ''x'') = Inr () \<and> cp_readiness (sample_packet ''x'') = ReadyForUserReview \<and>
   (\<exists>r. cp_review (sample_packet ''x'') = Some r \<and> rw_independent r)"
proof -
  have ok: "validate_packet plain_codec ''w'' (sample_packet ''x'') = Inr ()" using sample_packet_valid by blast
  moreover have "cp_readiness (sample_packet ''x'') = ReadyForUserReview" by (simp add: sample_packet_def)
  ultimately show ?thesis using ready_packet_reviewed [OF ok] by blast
qed

theorem approval_covers_one_packet_witness:
  "evidence_of (sample_packet ''x''\<lparr>cp_approval := Some sample_approval\<rparr>) =
   evidence_of (sample_packet ''y''\<lparr>cp_approval := Some sample_approval\<rparr>) \<and> sample_packet ''x'' \<noteq> sample_packet ''y''"
proof -
  let ?p = "\<lambda>i. sample_packet i\<lparr>cp_approval := Some sample_approval\<rparr>"
  have same: "evidence_of (?p ''x'') = evidence_of (?p ''y'')" "cp_action (?p ''x'') = cp_action (?p ''y'')"
    by (simp_all add: evidence_of_def sample_packet_def)
  have "inj_on (\<lambda>e. sha256_hex plain_codec (evidence_json plain_codec e)) {evidence_of (?p ''x''), evidence_of (?p ''y'')}"
    "inj_on (\<lambda>e. sha256_hex plain_codec (action_json plain_codec e)) {cp_action (?p ''x''), cp_action (?p ''y'')}"
    unfolding same by simp_all
  then have "evidence_of (?p ''x'') = evidence_of (?p ''y'')"
    using approval_covers_one_packet [of plain_codec "''w''" "?p ''x''" sample_approval "''w''" "?p ''y''",
        OF sample_approved_valid _ sample_approved_valid] by simp
  moreover have "cp_packet_id (sample_packet ''x'') \<noteq> cp_packet_id (sample_packet ''y'')" by (simp add: sample_packet_def)
  ultimately show ?thesis by metis
qed

end
