(* ===== verification/Recommendation.thy ===== *)
theory Recommendation
  imports Completion_Packet
begin

text \<open>
  Recommendations of the taskmaster and the graph they form: the record of \<^verbatim>\<open>taskmaster/mod.rs\<close>, its
  validation, its lifecycle and the validation of the graph of rollup parents and members, from
  \<^verbatim>\<open>taskmaster/store.rs\<close>. Each operation of the store that changes one record is here as a function of
  the record it read; the store itself is in the theories that follow. The UUID parser is a function
  argument.
\<close>

section \<open>Data\<close>

datatype recommendation_type = ImproveWorkflow | CleanupCard

datatype recommendation_status =
  Proposed | Accepted | Executing | Completed | Dismissed | RolledUp | Superseded | Expired | FailedStatus

datatype recommendation_confidence = LowConfidence | MediumConfidence | HighConfidence

datatype audit_criterion = UnderEligible | Noise | Duplicate | StaleCard

datatype context_level = SessionObservations | WorkflowContext | SourceCode

record audit_cleanup_entry =
  ae_id :: string
  ae_title :: string
  ae_criteria :: "audit_criterion list"

record audit_cleanup =
  au_entries :: "audit_cleanup_entry list"
  au_scanned :: nat
  au_healthy :: nat
  au_stale_after_days :: u32

record dismissal_watermark =
  dw_dismissed_at :: string
  dw_through_sequence :: u64
  dw_observation_ids :: "string list"
  dw_qualifying_count :: nat
  dw_highest_impact :: impact
  dw_affected_session_ids :: "string list"
  dw_reason :: "string option"

record repository_evidence =
  re_path :: string
  re_sha256 :: string
  re_excerpt :: string
  re_observed_at :: string

record knowledge_evidence =
  ke_page_id :: string
  ke_title :: string
  ke_status :: string
  ke_bundle_version :: string
  ke_sha256 :: string
  ke_excerpt :: string

record readiness_reference =
  rr_snapshot_id :: string
  rr_rubric_digest :: string
  rr_concept_ids :: "string list"

record assessment_provenance =
  as_readiness_reference :: "readiness_reference option"
  as_access_redacted :: bool
  as_id :: string
  as_input_fingerprint :: string
  as_context_level :: context_level
  as_excluded_paths :: "string list"

record workflow_improvement =
  wi_proposed_improvement :: string
  wi_target_surface :: target_surface
  wi_observation_ids :: "string list"
  wi_recurrence_count :: nat
  wi_affected_session_ids :: "string list"
  wi_impact :: impact
  wi_expected_benefit :: string
  wi_supersedes :: "string option"
  wi_watermark :: "dismissal_watermark option"

record recommendation =
  rc_assessment :: "assessment_provenance option"
  rc_id :: string
  rc_workspace_id :: string
  rc_chain_id :: string
  rc_chain_depth :: u32
  rc_type :: recommendation_type
  rc_status :: recommendation_status
  rc_priority :: impact
  rc_title :: string
  rc_summary :: string
  rc_reason :: "string list"
  rc_evidence :: "workflow_evidence list"
  rc_repository_evidence :: "repository_evidence list"
  rc_knowledge_evidence :: "knowledge_evidence list"
  rc_source_session_ids :: "string list"
  rc_target_session_id :: "string option"
  rc_suggested_harness_id :: "string option"
  rc_suggested_model :: "string option"
  rc_suggested_directory :: "string option"
  rc_suggested_prompt :: "string option"
  rc_confidence :: recommendation_confidence
  rc_requires_approval :: bool
  rc_dedupe_key :: string
  rc_created_at :: string
  rc_updated_at :: string
  rc_expires_at :: "string option"
  rc_improvement :: workflow_improvement
  rc_packet :: "completion_packet option"
  rc_audit :: "audit_cleanup option"
  rc_member_ids :: "string list"
  rc_member_keys :: "string list"
  rc_generation :: "u64 option"
  rc_rolled_up_by :: "string option"
  rc_proposed_change :: "proposed_change option"

datatype graph_error =
    DuplicateIds | MismatchedLists string | RepeatedMember string string | MissingMember string string
  | UnstableParentId string | MemberKeysDiffer string | UnexpectedParent string | NoParent string
  | ActiveNotOwner string string | TwoActiveParents string string string | MissingParent string string
  | NotListedOnce string string | UnsafeId | CannotRemove | DuplicateGraphIds | ReferenceInvalid
  | PacketInvalid packet_error | SourceSessionMismatch | LifecycleMismatch

datatype store_error =
    StoreBusy | IoFailed | JsonInvalid | InvalidTransition | StaleExpectedHash string | StalePacket string
  | GraphInvariant graph_error | Recovery

record rec_codec =
  packet_part :: packet_codec
  rollup_part :: rollup_codec
  uuid_ok :: "string \<Rightarrow> bool"

section \<open>Validation of one record\<close>

definition CONCEPT_IDS :: "string list" where
  "CONCEPT_IDS =
     [''context-discovery'', ''progressive-disclosure'', ''instruction-scoping'', ''architecture-awareness'',
      ''domain-knowledge'', ''environment-reproducibility'', ''tool-accessibility'', ''task-decomposition'',
      ''verification'', ''observability'', ''change-safety'', ''feedback-loops'', ''durable-memory'', ''human-oversight'']"

definition lower_hexdigit :: "byte \<Rightarrow> bool" where
  "lower_hexdigit b \<longleftrightarrow> (48 \<le> byte_val b \<and> byte_val b \<le> 57) \<or> (97 \<le> byte_val b \<and> byte_val b \<le> 102)"

definition reference_source_ok :: "rec_codec \<Rightarrow> readiness_reference \<Rightarrow> bool" where
  "reference_source_ok c r \<longleftrightarrow> uuid_ok c (rr_snapshot_id r) \<and> length (rr_rubric_digest r) = 64 \<and>
     list_all lower_hexdigit (rr_rubric_digest r)"

definition reference_ok :: "rec_codec \<Rightarrow> readiness_reference \<Rightarrow> bool" where
  "reference_ok c r \<longleftrightarrow> reference_source_ok c r \<and> rr_concept_ids r \<noteq> [] \<and> length (rr_concept_ids r) \<le> 3 \<and>
     list_all (\<lambda>i. i \<in> set CONCEPT_IDS) (rr_concept_ids r) \<and> distinct (rr_concept_ids r)"

definition redacted :: "recommendation \<Rightarrow> bool" where
  "redacted r = is_some_and as_access_redacted (rc_assessment r)"

definition ensure_mutable :: "recommendation \<Rightarrow> store_error + unit" where
  "ensure_mutable r = refuse_if (redacted r) InvalidTransition"

definition approval_required :: "recommendation_status \<Rightarrow> bool" where
  "approval_required s \<longleftrightarrow> s \<in> {Executing, Accepted, Completed}"

definition packet_valid :: "rec_codec \<Rightarrow> recommendation \<Rightarrow> completion_packet \<Rightarrow> packet_error + unit" where
  "packet_valid c r p =
     (if redacted r then validate_redacted_packet (packet_part c) (rc_workspace_id r) p
      else validate_packet (packet_part c) (rc_workspace_id r) p)"

definition check_packet :: "rec_codec \<Rightarrow> recommendation \<Rightarrow> completion_packet \<Rightarrow> graph_error + unit" where
  "check_packet c r p =
     first_error
       [(case packet_valid c r p of Inl e \<Rightarrow> Inl (PacketInvalid e) | Inr _ \<Rightarrow> Inr ()),
        refuse_if (rc_source_session_ids r \<noteq> [cp_source_session_id p]) SourceSessionMismatch,
        refuse_if ((cp_approval p \<noteq> None) \<noteq> approval_required (rc_status r) \<or>
          (cp_completion_key p \<noteq> None) \<noteq> (rc_status r = Completed)) LifecycleMismatch]"

definition validate_recommendation :: "rec_codec \<Rightarrow> recommendation \<Rightarrow> store_error + unit" where
  "validate_recommendation c r =
     first_error
       [refuse_if (is_some_and (\<lambda>a. is_some_and (\<lambda>f. \<not> reference_ok c f) (as_readiness_reference a)) (rc_assessment r))
          (GraphInvariant ReferenceInvalid),
        (case rc_packet r of
           None \<Rightarrow> Inr ()
         | Some p \<Rightarrow> (case check_packet c r p of Inl e \<Rightarrow> Inl (GraphInvariant e) | Inr _ \<Rightarrow> Inr ()))]"

section \<open>The lifecycle of one record\<close>

definition clear_approval :: "recommendation \<Rightarrow> recommendation" where
  "clear_approval r = r\<lparr>rc_packet := map_option (\<lambda>p. p\<lparr>cp_approval := None, cp_completion_key := None\<rparr>) (rc_packet r)\<rparr>"

definition dismissed_record :: "string \<Rightarrow> string option \<Rightarrow> recommendation \<Rightarrow> recommendation" where
  "dismissed_record at reason r =
     (let watermark =
        \<lparr>dw_dismissed_at = at, dw_through_sequence = fold max (map evidence_sequence (rc_evidence r)) 0,
         dw_observation_ids = map observation_id (rc_evidence r),
         dw_qualifying_count = wi_recurrence_count (rc_improvement r), dw_highest_impact = rc_priority r,
         dw_affected_session_ids = wi_affected_session_ids (rc_improvement r), dw_reason = reason\<rparr>
      in clear_approval (r\<lparr>rc_status := Dismissed, rc_updated_at := at,
           rc_improvement := (rc_improvement r)\<lparr>wi_watermark := Some watermark\<rparr>\<rparr>))"

definition dismiss_step :: "string \<Rightarrow> string option \<Rightarrow> recommendation \<Rightarrow> store_error + recommendation" where
  "dismiss_step at reason r =
     and_then (ensure_mutable r) (\<lambda>_.
       if rc_status r \<notin> {Proposed, Executing} then Inl InvalidTransition else Inr (dismissed_record at reason r))"

definition reserve :: "string \<Rightarrow> string \<Rightarrow> recommendation \<Rightarrow> recommendation" where
  "reserve target at r = r\<lparr>rc_status := Executing, rc_target_session_id := Some target, rc_updated_at := at\<rparr>"

definition begin_step :: "string \<Rightarrow> string \<Rightarrow> recommendation \<Rightarrow> store_error + recommendation" where
  "begin_step target at r =
     and_then (ensure_mutable r) (\<lambda>_.
       if rc_type r \<noteq> ImproveWorkflow \<or> rc_status r \<noteq> Proposed then Inl InvalidTransition
       else Inr (reserve target at r))"

definition request_current :: "mutation_request \<Rightarrow> completion_packet \<Rightarrow> bool" where
  "request_current q p \<longleftrightarrow> cp_revision p = mq_packet_revision q \<and> cp_evidence_fingerprint p = mq_evidence_fingerprint q"

definition approval_for :: "rec_codec \<Rightarrow> string \<Rightarrow> string \<Rightarrow> mutation_request \<Rightarrow> completion_packet \<Rightarrow> completion_approval" where
  "approval_for c at approver q p =
     \<lparr>ap_approved_at = at, ap_approver = approver, ap_revision = cp_revision p,
      ap_evidence_fingerprint = cp_evidence_fingerprint p,
      ap_action_fingerprint = action_fingerprint (packet_part c) p,
      ap_idempotency_key = mq_idempotency_key q\<rparr>"

definition begin_checked_step ::
  "rec_codec \<Rightarrow> string \<Rightarrow> string \<Rightarrow> string \<Rightarrow> mutation_request \<Rightarrow> string \<Rightarrow> recommendation \<Rightarrow> store_error + recommendation" where
  "begin_checked_step c i target at q approver r =
     and_then (ensure_mutable r) (\<lambda>_.
       if rc_type r \<noteq> ImproveWorkflow \<or> rc_status r \<noteq> Proposed then Inl InvalidTransition
       else (case rc_packet r of
               None \<Rightarrow> Inl InvalidTransition
             | Some p \<Rightarrow>
                 (if \<not> request_current q p then Inl (StalePacket i)
                  else
                    Inr (reserve target at
                      (r\<lparr>rc_packet := Some (p\<lparr>cp_approval := Some (approval_for c at approver q p),
                           cp_completion_key := None\<rparr>)\<rparr>)))))"

definition complete_execution_step :: "string \<Rightarrow> recommendation \<Rightarrow> store_error + recommendation" where
  "complete_execution_step at r =
     (if rc_type r \<noteq> ImproveWorkflow \<or> rc_status r \<noteq> Executing then Inl InvalidTransition
      else Inr (r\<lparr>rc_status := Accepted, rc_updated_at := at\<rparr>))"

definition complete_accepted_step :: "string \<Rightarrow> recommendation \<Rightarrow> store_error + recommendation" where
  "complete_accepted_step at r =
     (let redacted_delivered = redacted r \<and> rc_status r = Accepted \<and> rc_target_session_id r \<noteq> None in
      and_then (if redacted_delivered then Inr () else ensure_mutable r) (\<lambda>_.
        if rc_type r \<noteq> ImproveWorkflow \<or> rc_status r \<noteq> Accepted then Inl InvalidTransition
        else Inr (r\<lparr>rc_status := Completed, rc_updated_at := at\<rparr>)))"

text \<open>A completion that repeats an earlier one answers the record and writes nothing.\<close>

datatype completion = AlreadyDone | Complete recommendation

definition complete_checked_step ::
  "string \<Rightarrow> string \<Rightarrow> mutation_request \<Rightarrow> recommendation \<Rightarrow> store_error + completion" where
  "complete_checked_step i at q r =
     (let redacted_delivered = redacted r \<and> rc_status r \<in> {Accepted, Completed} \<and> rc_target_session_id r \<noteq> None in
      and_then (if redacted_delivered then Inr () else ensure_mutable r) (\<lambda>_.
        case rc_packet r of
          None \<Rightarrow> Inl InvalidTransition
        | Some p \<Rightarrow>
            (if \<not> request_current q p then Inl (StalePacket i)
             else if rc_status r = Completed
             then (if cp_completion_key p = Some (mq_idempotency_key q) then Inr AlreadyDone else Inl (StalePacket i))
             else if is_none_or (\<lambda>a. ap_idempotency_key a \<noteq> mq_idempotency_key q) (cp_approval p)
             then Inl (StalePacket i)
             else if rc_type r \<noteq> ImproveWorkflow \<or> rc_status r \<noteq> Accepted \<or> cp_approval p = None
             then Inl InvalidTransition
             else Inr (Complete (r\<lparr>rc_packet := Some (p\<lparr>cp_completion_key := Some (mq_idempotency_key q)\<rparr>),
                    rc_status := Completed, rc_updated_at := at\<rparr>)))))"

text \<open>A cancelled reservation goes back to proposed; a redacted one is then superseded by a second write.\<close>

definition cancel_step :: "string \<Rightarrow> recommendation \<Rightarrow> store_error + recommendation" where
  "cancel_step at r =
     (if rc_type r \<noteq> ImproveWorkflow \<or> rc_status r \<noteq> Executing then Inl InvalidTransition
      else Inr (clear_approval (r\<lparr>rc_status := Proposed, rc_target_session_id := None\<rparr>)\<lparr>rc_updated_at := at\<rparr>))"

definition supersede :: "recommendation \<Rightarrow> recommendation" where
  "supersede r = r\<lparr>rc_status := Superseded\<rparr>"

definition replaced_packet :: "string \<Rightarrow> completion_packet \<Rightarrow> completion_packet \<Rightarrow> completion_packet" where
  "replaced_packet at old new =
     new\<lparr>cp_supersedes := Some (cp_packet_id old),
         cp_lineage := cp_lineage old @ [\<lparr>ln_packet_id = cp_packet_id old, ln_revision = cp_revision old,
           ln_evidence_fingerprint = cp_evidence_fingerprint old, ln_superseded_at = at\<rparr>],
         cp_approval := None, cp_completion_key := None\<rparr>"

definition replace_step ::
  "rec_codec \<Rightarrow> string \<Rightarrow> u64 \<Rightarrow> completion_packet \<Rightarrow> string \<Rightarrow> recommendation \<Rightarrow> store_error + recommendation" where
  "replace_step c i expected new at r =
     and_then (ensure_mutable r) (\<lambda>_.
       if rc_type r \<noteq> ImproveWorkflow \<or> rc_status r \<notin> {Proposed, Executing, Accepted} then Inl InvalidTransition
       else (case rc_packet r of
               None \<Rightarrow> Inl InvalidTransition
             | Some old \<Rightarrow>
                 (if cp_revision old \<noteq> expected \<or> cp_revision new \<noteq> saturating_add (cp_revision old) 1 \<or>
                     cp_packet_id new = cp_packet_id old
                  then Inl (StalePacket i)
                  else
                    (let r1 = r\<lparr>rc_status := Proposed, rc_target_session_id := None, rc_updated_at := at,
                               rc_packet := Some (replaced_packet at old new)\<rparr>
                     in and_then (validate_recommendation c r1) (\<lambda>_. Inr r1)))))"

definition orphaned :: "string set \<Rightarrow> string set \<Rightarrow> recommendation \<Rightarrow> bool" where
  "orphaned live protected r \<longleftrightarrow>
     is_some_and (\<lambda>target. rc_status r \<in> {Executing, Accepted} \<and> target \<notin> live \<and> rc_id r \<notin> protected)
       (rc_target_session_id r)"

definition recovered_record :: "string \<Rightarrow> recommendation \<Rightarrow> recommendation" where
  "recovered_record at r =
     clear_approval (r\<lparr>rc_status := Proposed, rc_target_session_id := None, rc_updated_at := at\<rparr>)"

section \<open>The graph\<close>

definition lookup_id :: "recommendation list \<Rightarrow> string \<Rightarrow> recommendation option" where
  "lookup_id rs i = find (\<lambda>r. rc_id r = i) rs"

fun check_members :: "recommendation list \<Rightarrow> string \<Rightarrow> string list \<Rightarrow> string set \<Rightarrow> graph_error + unit" where
  "check_members rs parent [] seen = Inr ()"
| "check_members rs parent (m # ms) seen =
     (if m \<in> seen then Inl (RepeatedMember parent m)
      else if lookup_id rs m = None then Inl (MissingMember parent m)
      else check_members rs parent ms (insert m seen))"

definition member_keys :: "recommendation list \<Rightarrow> string list \<Rightarrow> string list" where
  "member_keys rs ms = map (\<lambda>m. rc_dedupe_key (the (lookup_id rs m))) ms"

definition active_parent :: "recommendation \<Rightarrow> bool" where
  "active_parent r \<longleftrightarrow> rc_status r \<in> {Proposed, Executing}"

fun claim_members ::
  "recommendation list \<Rightarrow> string \<Rightarrow> string list \<Rightarrow> (string \<rightharpoonup> string) \<Rightarrow> graph_error + (string \<rightharpoonup> string)" where
  "claim_members rs parent [] owners = Inr owners"
| "claim_members rs parent (m # ms) owners =
     (let member = the (lookup_id rs m) in
      if rc_status member \<noteq> RolledUp \<or> rc_rolled_up_by member \<noteq> Some parent then Inl (ActiveNotOwner parent m)
      else (case owners m of
              Some previous \<Rightarrow> Inl (TwoActiveParents m previous parent)
            | None \<Rightarrow> claim_members rs parent ms (owners(m \<mapsto> parent))))"

definition check_record ::
  "rec_codec \<Rightarrow> recommendation list \<Rightarrow> recommendation \<Rightarrow> (string \<rightharpoonup> string) \<Rightarrow> graph_error + (string \<rightharpoonup> string)" where
  "check_record c rs r owners =
     and_then (first_error
       [refuse_if (length (rc_member_ids r) \<noteq> length (rc_member_keys r)) (MismatchedLists (rc_id r)),
        check_members rs (rc_id r) (rc_member_ids r) {}]) (\<lambda>_.
     and_then (first_error
       [refuse_if (rc_member_ids r \<noteq> [] \<and> rc_id r \<noteq> stable_rollup_id (rollup_part c) (rc_member_ids r)) (UnstableParentId (rc_id r)),
        refuse_if (sort (rc_member_keys r) \<noteq> sort (member_keys rs (rc_member_ids r))) (MemberKeysDiffer (rc_id r)),
        refuse_if (rc_rolled_up_by r \<noteq> None \<and> rc_status r \<noteq> RolledUp) (UnexpectedParent (rc_id r)),
        refuse_if (rc_status r = RolledUp \<and> rc_rolled_up_by r = None) (NoParent (rc_id r))]) (\<lambda>_.
     if active_parent r \<and> rc_member_ids r \<noteq> [] then claim_members rs (rc_id r) (rc_member_ids r) owners else Inr owners))"

definition check_rolled :: "recommendation list \<Rightarrow> recommendation \<Rightarrow> graph_error + unit" where
  "check_rolled rs r =
     (if rc_status r \<noteq> RolledUp then Inr ()
      else (let parent_id = the (rc_rolled_up_by r) in
            case lookup_id rs parent_id of
              None \<Rightarrow> Inl (MissingParent (rc_id r) parent_id)
            | Some parent \<Rightarrow>
                refuse_if (length (filter (\<lambda>m. m = rc_id r) (rc_member_ids parent)) \<noteq> 1) (NotListedOnce parent_id (rc_id r))))"

definition validate_graph_records :: "rec_codec \<Rightarrow> recommendation list \<Rightarrow> graph_error + unit" where
  "validate_graph_records c rs =
     and_then (refuse_if (\<not> distinct (map rc_id rs)) DuplicateIds) (\<lambda>_.
     and_then (try_each (check_record c rs) rs Map.empty) (\<lambda>_.
       first_error (map (check_rolled rs) rs)))"

section \<open>Deletion\<close>

definition references_session :: "recommendation \<Rightarrow> string \<Rightarrow> bool" where
  "references_session r s \<longleftrightarrow>
     s \<in> set (rc_source_session_ids r) \<or> list_ex (\<lambda>e. session_id e = s) (rc_evidence r) \<or>
     s \<in> set (wi_affected_session_ids (rc_improvement r)) \<or>
     is_some_and (\<lambda>w. s \<in> set (dw_affected_session_ids w)) (wi_watermark (rc_improvement r))"

definition referenced_sessions :: "recommendation \<Rightarrow> string list" where
  "referenced_sessions r =
     rc_source_session_ids r @ wi_affected_session_ids (rc_improvement r) @
     (case wi_watermark (rc_improvement r) of None \<Rightarrow> [] | Some w \<Rightarrow> dw_affected_session_ids w) @
     map session_id (rc_evidence r)"

definition linked :: "recommendation \<Rightarrow> string list" where
  "linked r = (case rc_rolled_up_by r of None \<Rightarrow> [] | Some p \<Rightarrow> [p]) @ rc_member_ids r"

definition add_linked :: "recommendation list \<Rightarrow> string \<Rightarrow> string set \<Rightarrow> string set" where
  "add_linked rs i ids = (case lookup_id rs i of None \<Rightarrow> ids | Some r \<Rightarrow> ids \<union> set (linked r))"

definition add_parent :: "recommendation \<Rightarrow> string set \<Rightarrow> string set" where
  "add_parent r ids = (if list_ex (\<lambda>m. m \<in> ids) (rc_member_ids r) then insert (rc_id r) ids else ids)"

definition deletion_round :: "recommendation list \<Rightarrow> string set \<Rightarrow> string set" where
  "deletion_round rs ids = fold add_parent rs (fold (add_linked rs) (sorted_list_of_set ids) ids)"

definition universe :: "recommendation list \<Rightarrow> string set" where
  "universe rs = set (map rc_id rs) \<union> set (concat (map linked rs))"

lemma lookup_id_Some: "lookup_id rs i = Some r \<Longrightarrow> r \<in> set rs \<and> rc_id r = i"
  by (auto simp: lookup_id_def find_Some_iff)

lemma add_linked_bounds: "ids \<subseteq> add_linked rs i ids \<and> add_linked rs i ids \<subseteq> ids \<union> universe rs"
  using lookup_id_Some [of rs i] by (auto simp: add_linked_def universe_def split: option.split)

lemma add_linkeds_bounds: "ids \<subseteq> fold (add_linked rs) is ids \<and> fold (add_linked rs) is ids \<subseteq> ids \<union> universe rs"
proof (induction "is" arbitrary: ids)
  case (Cons i js)
  show ?case using Cons.IH [of "add_linked rs i ids"] add_linked_bounds [of ids rs i] by auto
qed simp

lemma add_parents_bounds: "ids \<subseteq> fold add_parent rs ids \<and> fold add_parent rs ids \<subseteq> ids \<union> set (map rc_id rs)"
proof (induction rs arbitrary: ids)
  case (Cons r rs)
  show ?case using Cons.IH [of "add_parent r ids"] by (auto simp: add_parent_def split: if_split_asm)
qed simp

lemma deletion_round_bounds: "ids \<subseteq> deletion_round rs ids" "deletion_round rs ids \<subseteq> ids \<union> universe rs"
  using add_linkeds_bounds [of ids rs "sorted_list_of_set ids"]
    add_parents_bounds [of "fold (add_linked rs) (sorted_list_of_set ids) ids" rs]
  by (auto simp: deletion_round_def universe_def)

function deletion_graph_ids :: "recommendation list \<Rightarrow> string set \<Rightarrow> string set" where
  "deletion_graph_ids rs ids =
     (let ids1 = deletion_round rs ids in if ids1 = ids then ids else deletion_graph_ids rs ids1)"
  by pat_completeness auto

termination
proof (relation "measure (\<lambda>(rs, ids). card (universe rs - ids))")
  fix rs :: "recommendation list" and ids ids1
  assume "ids1 = deletion_round rs ids" "ids1 \<noteq> ids"
  then have "universe rs - ids1 \<subset> universe rs - ids"
    using deletion_round_bounds [where ids = ids and rs = rs] by blast
  then show "((rs, ids1), rs, ids) \<in> measure (\<lambda>(rs, ids). card (universe rs - ids))"
    by (simp add: psubset_card_mono universe_def)
qed simp

declare deletion_graph_ids.simps [simp del]

section \<open>What graph validation accepts\<close>

definition record_ok :: "rec_codec \<Rightarrow> recommendation list \<Rightarrow> recommendation \<Rightarrow> bool" where
  "record_ok c rs r \<longleftrightarrow>
     distinct (rc_member_ids r) \<and> (\<forall>m \<in> set (rc_member_ids r). lookup_id rs m \<noteq> None) \<and>
     (rc_member_ids r \<noteq> [] \<longrightarrow> rc_id r = stable_rollup_id (rollup_part c) (rc_member_ids r)) \<and>
     mset (rc_member_keys r) = mset (member_keys rs (rc_member_ids r)) \<and>
     (rc_rolled_up_by r \<noteq> None \<longleftrightarrow> rc_status r = RolledUp) \<and>
     (active_parent r \<longrightarrow> (\<forall>m \<in> set (rc_member_ids r). rc_rolled_up_by (the (lookup_id rs m)) = Some (rc_id r))) \<and>
     (\<forall>p. rc_rolled_up_by r = Some p \<longrightarrow> (\<exists>parent. lookup_id rs p = Some parent \<and> rc_id r \<in> set (rc_member_ids parent)))"

definition graph_ok :: "rec_codec \<Rightarrow> recommendation list \<Rightarrow> bool" where
  "graph_ok c rs \<longleftrightarrow> distinct (map rc_id rs) \<and> (\<forall>r \<in> set rs. record_ok c rs r)"

lemma check_members_ok:
  "check_members rs parent ms seen = Inr () \<longleftrightarrow>
     distinct ms \<and> set ms \<inter> seen = {} \<and> (\<forall>m \<in> set ms. lookup_id rs m \<noteq> None)"
  by (induction ms arbitrary: seen) auto

lemma claim_members_ok:
  assumes "distinct ms"
  shows "claim_members rs parent ms owners = Inr owners1 \<longleftrightarrow>
    (\<forall>m \<in> set ms. rc_status (the (lookup_id rs m)) = RolledUp \<and> rc_rolled_up_by (the (lookup_id rs m)) = Some parent \<and>
       owners m = None) \<and>
    owners1 = (\<lambda>m. if m \<in> set ms then Some parent else owners m)"
  using assms
proof (induction ms arbitrary: owners)
  case (Cons m ms)
  have "(\<lambda>x. if x \<in> set ms then Some parent else (owners(m \<mapsto> parent)) x) =
      (\<lambda>x. if x \<in> set (m # ms) then Some parent else owners x)"
    by auto
  then show ?case
    using Cons by (cases "owners m") (auto simp: Let_def)
qed auto

lemma sort_eq_mset: "sort xs = sort ys \<longleftrightarrow> mset xs = mset (ys :: 'a::linorder list)"
  by (metis mset_sort properties_for_sort sorted_sort)

definition check_shape :: "rec_codec \<Rightarrow> recommendation list \<Rightarrow> recommendation \<Rightarrow> bool" where
  "check_shape c rs r \<longleftrightarrow>
     distinct (rc_member_ids r) \<and> (\<forall>m \<in> set (rc_member_ids r). lookup_id rs m \<noteq> None) \<and>
     (rc_member_ids r \<noteq> [] \<longrightarrow> rc_id r = stable_rollup_id (rollup_part c) (rc_member_ids r)) \<and>
     mset (rc_member_keys r) = mset (member_keys rs (rc_member_ids r)) \<and>
     (rc_rolled_up_by r \<noteq> None \<longleftrightarrow> rc_status r = RolledUp)"

lemma record_ok_shape:
  "record_ok c rs r \<longleftrightarrow> check_shape c rs r \<and>
     (active_parent r \<longrightarrow> (\<forall>m \<in> set (rc_member_ids r). rc_rolled_up_by (the (lookup_id rs m)) = Some (rc_id r))) \<and>
     (\<forall>p. rc_rolled_up_by r = Some p \<longrightarrow> (\<exists>parent. lookup_id rs p = Some parent \<and> rc_id r \<in> set (rc_member_ids parent)))"
  unfolding record_ok_def check_shape_def conj_assoc by (rule refl)

lemma check_record_ok:
  "check_record c rs r owners = Inr owners1 \<longleftrightarrow>
     check_shape c rs r \<and>
     (if active_parent r \<and> rc_member_ids r \<noteq> [] then claim_members rs (rc_id r) (rc_member_ids r) owners = Inr owners1
      else owners1 = owners)"
proof -
  have "mset (rc_member_keys r) = mset (member_keys rs (rc_member_ids r)) \<Longrightarrow> length (rc_member_ids r) = length (rc_member_keys r)"
    by (metis length_map member_keys_def size_mset)
  then show ?thesis
    by (auto simp: check_record_def and_then_ok first_error_ok check_members_ok sort_eq_mset check_shape_def)
qed

lemma check_records_ok:
  assumes "distinct (map rc_id (done @ rs1))"
    and "\<And>m p. owners m = Some p \<Longrightarrow> p \<in> rc_id ` set done \<and> rc_rolled_up_by (the (lookup_id rs m)) = Some p"
  shows "(\<exists>owners1. try_each (check_record c rs) rs1 owners = Inr owners1) \<longleftrightarrow>
    (\<forall>r \<in> set rs1. check_shape c rs r \<and>
       (active_parent r \<longrightarrow> (\<forall>m \<in> set (rc_member_ids r). rc_status (the (lookup_id rs m)) = RolledUp \<and>
          rc_rolled_up_by (the (lookup_id rs m)) = Some (rc_id r))))"
  using assms
proof (induction rs1 arbitrary: "done" owners)
  case (Cons r rs1)
  let ?owns = "\<lambda>r. active_parent r \<longrightarrow> (\<forall>m \<in> set (rc_member_ids r). rc_status (the (lookup_id rs m)) = RolledUp \<and>
          rc_rolled_up_by (the (lookup_id rs m)) = Some (rc_id r))"
  let ?next = "\<lambda>m. if active_parent r \<and> m \<in> set (rc_member_ids r) then Some (rc_id r) else owners m"
  have free: "owners m = None" if "rc_rolled_up_by (the (lookup_id rs m)) = Some (rc_id r)" for m
  proof (rule ccontr)
    assume "owners m \<noteq> None"
    then have "rc_id r \<in> rc_id ` set done" using Cons.prems(2) [of m] that by auto
    then show False using Cons.prems(1) by auto
  qed
  have step: "check_record c rs r owners = Inr owners1 \<longleftrightarrow> check_shape c rs r \<and> ?owns r \<and> owners1 = ?next" for owners1
  proof (cases "active_parent r \<and> rc_member_ids r \<noteq> []")
    case True
    show ?thesis
    proof (cases "check_shape c rs r")
      case shape: True
      then have "distinct (rc_member_ids r)" by (simp add: check_shape_def)
      from claim_members_ok [OF this, of rs "rc_id r" owners owners1] show ?thesis
        unfolding check_record_ok using True shape free by auto
    qed (simp add: check_record_ok)
  qed (auto simp: check_record_ok)
  show ?case
  proof (cases "check_shape c rs r \<and> ?owns r")
    case True
    have "distinct (map rc_id ((done @ [r]) @ rs1))" using Cons.prems(1) by simp
    moreover have "p \<in> rc_id ` set (done @ [r]) \<and> rc_rolled_up_by (the (lookup_id rs m)) = Some p" if "?next m = Some p" for m p
      using that True Cons.prems(2) [of m p] by (auto split: if_split_asm)
    ultimately show ?thesis
      using Cons.IH [of "done @ [r]" ?next] True step [of ?next] by simp
  next
    case False
    then show ?thesis using step by (auto split: sum.split)
  qed
qed simp

lemma check_rolled_ok:
  assumes "rc_rolled_up_by r \<noteq> None \<longleftrightarrow> rc_status r = RolledUp" and "\<forall>p \<in> set rs. distinct (rc_member_ids p)"
  shows "check_rolled rs r = Inr () \<longleftrightarrow>
    (\<forall>p. rc_rolled_up_by r = Some p \<longrightarrow> (\<exists>parent. lookup_id rs p = Some parent \<and> rc_id r \<in> set (rc_member_ids parent)))"
proof -
  have one: "length (filter (\<lambda>m. m = i) xs) = 1 \<longleftrightarrow> i \<in> set xs" if "distinct xs" for i :: string and xs
    using that by (induction xs) (auto simp: filter_empty_conv)
  show ?thesis
    using assms lookup_id_Some [of rs] one
    by (cases "rc_rolled_up_by r") (auto simp: check_rolled_def Let_def split: option.split)
qed

lemma validate_graph_ok: "validate_graph_records c rs = Inr () \<longleftrightarrow> graph_ok c rs"
proof (cases "distinct (map rc_id rs)")
  case True
  let ?owns = "\<lambda>r. active_parent r \<longrightarrow> (\<forall>m \<in> set (rc_member_ids r). rc_status (the (lookup_id rs m)) = RolledUp \<and>
          rc_rolled_up_by (the (lookup_id rs m)) = Some (rc_id r))"
  have first: "(\<exists>ow. try_each (check_record c rs) rs Map.empty = Inr ow) \<longleftrightarrow> (\<forall>r \<in> set rs. check_shape c rs r \<and> ?owns r)"
    using check_records_ok [of "[]" rs Map.empty rs c] True by simp
  have owns: "?owns r \<longleftrightarrow> (active_parent r \<longrightarrow> (\<forall>m \<in> set (rc_member_ids r). rc_rolled_up_by (the (lookup_id rs m)) = Some (rc_id r)))"
    if all: "\<forall>r \<in> set rs. check_shape c rs r" and r: "r \<in> set rs" for r
  proof -
    have "rc_status (the (lookup_id rs m)) = RolledUp"
      if m: "m \<in> set (rc_member_ids r)" and up: "rc_rolled_up_by (the (lookup_id rs m)) = Some (rc_id r)" for m
    proof (cases "lookup_id rs m")
      case None
      moreover have "lookup_id rs m \<noteq> None"
        using all r m unfolding check_shape_def by blast
      ultimately show ?thesis by simp
    next
      case (Some x)
      then have "check_shape c rs x" using all lookup_id_Some by blast
      then show ?thesis using Some up by (simp add: check_shape_def)
    qed
    then show ?thesis by blast
  qed
  have rolled: "check_rolled rs r = Inr () \<longleftrightarrow>
      (\<forall>p. rc_rolled_up_by r = Some p \<longrightarrow> (\<exists>parent. lookup_id rs p = Some parent \<and> rc_id r \<in> set (rc_member_ids parent)))"
    if "\<forall>r \<in> set rs. check_shape c rs r" "r \<in> set rs" for r
    using check_rolled_ok [of r rs] that by (auto simp: check_shape_def)
  have "validate_graph_records c rs = Inr () \<longleftrightarrow>
      (\<forall>r \<in> set rs. check_shape c rs r \<and> ?owns r) \<and> (\<forall>r \<in> set rs. check_rolled rs r = Inr ())"
    using True first by (auto simp: validate_graph_records_def and_then_ok first_error_ok)
  also have "\<dots> \<longleftrightarrow> (\<forall>r \<in> set rs. record_ok c rs r)"
  proof (cases "\<forall>r \<in> set rs. check_shape c rs r")
    case True
    then show ?thesis using owns [OF True] rolled [OF True] by (simp add: record_ok_shape) blast
  qed (auto simp: record_ok_shape)
  finally show ?thesis using True by (simp add: graph_ok_def)
qed (simp add: validate_graph_records_def graph_ok_def)

section \<open>Deleting part of the graph\<close>

definition closed_under_links :: "recommendation list \<Rightarrow> string set \<Rightarrow> bool" where
  "closed_under_links rs ids \<longleftrightarrow>
     (\<forall>i r. i \<in> ids \<longrightarrow> lookup_id rs i = Some r \<longrightarrow> set (linked r) \<subseteq> ids) \<and>
     (\<forall>r \<in> set rs. set (rc_member_ids r) \<inter> ids \<noteq> {} \<longrightarrow> rc_id r \<in> ids)"

lemma closed_links: "closed_under_links rs ds \<Longrightarrow> i \<in> ds \<Longrightarrow> lookup_id rs i = Some r \<Longrightarrow> set (linked r) \<subseteq> ds"
  unfolding closed_under_links_def by blast

lemma closed_members: "closed_under_links rs ds \<Longrightarrow> r \<in> set rs \<Longrightarrow> m \<in> set (rc_member_ids r) \<Longrightarrow> m \<in> ds \<Longrightarrow> rc_id r \<in> ds"
  unfolding closed_under_links_def by blast

lemma add_linkeds_mem:
  assumes "i \<in> set is" "lookup_id rs i = Some r"
  shows "set (linked r) \<subseteq> fold (add_linked rs) is ids"
  using assms
proof (induction "is" arbitrary: ids)
  case (Cons j js)
  show ?case
  proof (cases "i = j")
    case True
    then have "set (linked r) \<subseteq> add_linked rs j ids" using Cons.prems by (simp add: add_linked_def)
    then show ?thesis using add_linkeds_bounds [of "add_linked rs j ids" rs js] by auto
  qed (use Cons in simp)
qed simp

lemma add_parents_mem:
  assumes "r \<in> set rs" "set (rc_member_ids r) \<inter> ids \<noteq> {}"
  shows "rc_id r \<in> fold add_parent rs ids"
  using assms
proof (induction rs arbitrary: ids)
  case (Cons x rs)
  have "ids \<subseteq> add_parent x ids" by (auto simp: add_parent_def)
  show ?case
  proof (cases "r = x")
    case True
    then have "rc_id r \<in> add_parent x ids" using Cons.prems by (auto simp: add_parent_def list_ex_iff)
    then show ?thesis using add_parents_bounds [of "add_parent x ids" rs] by auto
  next
    case False
    then show ?thesis using Cons.IH [of "add_parent x ids"] Cons.prems \<open>ids \<subseteq> add_parent x ids\<close> by auto
  qed
qed simp

lemma deletion_fixpoint:
  assumes "deletion_round rs ids = ids" "finite ids"
  shows "closed_under_links rs ids"
proof -
  have one: "fold (add_linked rs) (sorted_list_of_set ids) ids \<subseteq> ids"
    using assms(1) add_parents_bounds [of "fold (add_linked rs) (sorted_list_of_set ids) ids" rs]
    by (auto simp: deletion_round_def)
  then have same: "fold (add_linked rs) (sorted_list_of_set ids) ids = ids" using add_linkeds_bounds [of ids rs] by blast
  then have "fold add_parent rs ids = ids" using assms(1) by (simp add: deletion_round_def)
  moreover have "set (linked r) \<subseteq> ids" if "i \<in> ids" "lookup_id rs i = Some r" for i r
    using add_linkeds_mem [of i "sorted_list_of_set ids" rs r ids] that assms(2) same by simp
  ultimately show ?thesis
    using add_parents_mem [of _ rs ids] by (auto simp: closed_under_links_def)
qed

lemma deletion_round_finite: "finite ids \<Longrightarrow> finite (deletion_round rs ids)"
  by (rule finite_subset [OF deletion_round_bounds(2)]) (simp add: universe_def)

lemma deletion_closed: "finite ids \<Longrightarrow> closed_under_links rs (deletion_graph_ids rs ids) \<and> ids \<subseteq> deletion_graph_ids rs ids"
proof (induction rs ids rule: deletion_graph_ids.induct)
  case (1 rs ids)
  note fin = deletion_round_finite [OF "1.prems", of rs]
  show ?case
  proof (cases "deletion_round rs ids = ids")
    case True
    then show ?thesis using deletion_fixpoint "1.prems" by (simp add: deletion_graph_ids.simps [of rs ids])
  next
    case False
    then show ?thesis
      using "1.IH" [OF refl False fin] deletion_round_bounds(1) [of ids rs]
      by (auto simp: deletion_graph_ids.simps [of rs ids] Let_def)
  qed
qed

lemma closed_add_linkeds:
  "closed_under_links rs ds \<Longrightarrow> set is \<subseteq> ds \<Longrightarrow> ids \<subseteq> ds \<Longrightarrow> fold (add_linked rs) is ids \<subseteq> ds"
proof (induction "is" arbitrary: ids)
  case (Cons i js)
  then have "add_linked rs i ids \<subseteq> ds"
    using closed_links [of rs ds i] by (cases "lookup_id rs i") (simp_all add: add_linked_def)
  then show ?case using Cons by simp
qed simp

lemma closed_add_parents:
  "closed_under_links rs ds \<Longrightarrow> set rs1 \<subseteq> set rs \<Longrightarrow> ids \<subseteq> ds \<Longrightarrow> fold add_parent rs1 ids \<subseteq> ds"
proof (induction rs1 arbitrary: ids)
  case (Cons r rs1)
  have "add_parent r ids \<subseteq> ds"
    using Cons.prems closed_members [of rs ds r] by (auto simp: add_parent_def list_ex_iff)
  then show ?case using Cons by simp
qed simp

lemma deletion_least:
  "finite ids \<Longrightarrow> closed_under_links rs ds \<Longrightarrow> ids \<subseteq> ds \<Longrightarrow> deletion_graph_ids rs ids \<subseteq> ds"
proof (induction rs ids rule: deletion_graph_ids.induct)
  case (1 rs ids)
  have "deletion_round rs ids \<subseteq> ds"
    unfolding deletion_round_def using "1.prems"
    by (intro closed_add_parents closed_add_linkeds) auto
  moreover note deletion_round_finite [OF "1.prems"(1), of rs]
  ultimately show ?case
    using "1.IH" [OF refl] "1.prems" by (auto simp: deletion_graph_ids.simps [of rs ids] Let_def)
qed

lemma lookup_filter: "i \<notin> ds \<Longrightarrow> lookup_id (filter (\<lambda>r. rc_id r \<notin> ds) rs) i = lookup_id rs i"
  unfolding lookup_id_def by (induction rs) auto

lemma lookup_in: "distinct (map rc_id rs) \<Longrightarrow> r \<in> set rs \<Longrightarrow> lookup_id rs (rc_id r) = Some r"
  unfolding lookup_id_def by (induction rs) (auto simp: rev_image_eqI)

lemma graph_without_closed:
  assumes "graph_ok c rs" and "closed_under_links rs ds"
  shows "graph_ok c (filter (\<lambda>r. rc_id r \<notin> ds) rs)"
proof -
  let ?rs = "filter (\<lambda>r. rc_id r \<notin> ds) rs"
  have ids: "distinct (map rc_id rs)" using assms(1) by (simp add: graph_ok_def)
  have "record_ok c ?rs r" if r: "r \<in> set rs" "rc_id r \<notin> ds" for r
  proof -
    have ok: "record_ok c rs r" using assms(1) r(1) by (simp add: graph_ok_def)
    have out: "m \<notin> ds" if "m \<in> set (rc_member_ids r)" for m
      using assms(2) r that by (auto simp: closed_under_links_def)
    then have look: "lookup_id ?rs m = lookup_id rs m" if "m \<in> set (rc_member_ids r)" for m
      using that lookup_filter by blast
    then have keys: "member_keys ?rs (rc_member_ids r) = member_keys rs (rc_member_ids r)"
      by (simp add: member_keys_def)
    have up: "lookup_id ?rs p = lookup_id rs p" if p: "rc_rolled_up_by r = Some p" for p
    proof (rule lookup_filter, rule notI)
      assume "p \<in> ds"
      obtain parent where "lookup_id rs p = Some parent" "rc_id r \<in> set (rc_member_ids parent)"
        using ok p by (auto simp: record_ok_def)
      then have "rc_id r \<in> ds" using assms(2) \<open>p \<in> ds\<close> by (auto simp: closed_under_links_def linked_def)
      then show False using r(2) by contradiction
    qed
    show ?thesis using ok look up unfolding record_ok_def keys by auto
  qed
  then show ?thesis using ids by (auto simp: graph_ok_def distinct_map inj_on_def)
qed

text \<open>
  C22: Deleting recommendations takes along exactly what has to go. The ids computed for a deletion
  contain the ones asked for and are the smallest set that follows every link from a member to its
  parent and from a parent to its members; and when the graph was valid, what is left of it after
  the deletion is valid again.
\<close>

theorem deletion_keeps_graph_valid:
  assumes "validate_graph_records c rs = Inr ()" and "finite ids"
  shows "validate_graph_records c (filter (\<lambda>r. rc_id r \<notin> deletion_graph_ids rs ids) rs) = Inr () \<and>
    ids \<subseteq> deletion_graph_ids rs ids \<and> closed_under_links rs (deletion_graph_ids rs ids) \<and>
    (\<forall>ds. ids \<subseteq> ds \<and> closed_under_links rs ds \<longrightarrow> deletion_graph_ids rs ids \<subseteq> ds)"
  using assms deletion_closed [of ids rs] deletion_least [of ids rs] graph_without_closed [of c rs]
  unfolding validate_graph_ok by blast

section \<open>Changing records of the graph\<close>

definition same_links :: "recommendation \<Rightarrow> recommendation \<Rightarrow> bool" where
  "same_links r r1 \<longleftrightarrow> rc_id r1 = rc_id r \<and> rc_member_ids r1 = rc_member_ids r \<and> rc_member_keys r1 = rc_member_keys r \<and>
     rc_dedupe_key r1 = rc_dedupe_key r \<and> rc_rolled_up_by r1 = rc_rolled_up_by r \<and>
     (rc_status r1 = RolledUp \<longleftrightarrow> rc_status r = RolledUp) \<and> (active_parent r1 \<longrightarrow> active_parent r)"

lemma lookup_map:
  assumes "\<forall>r \<in> set rs. rc_id (f r) = rc_id r"
  shows "lookup_id (map f rs) i = map_option f (lookup_id rs i)"
  using assms unfolding lookup_id_def by (induction rs) auto

lemma graph_with_same_links:
  assumes "graph_ok c rs" and "\<forall>r \<in> set rs. same_links r (f r)"
  shows "graph_ok c (map f rs)"
proof -
  have ids: "\<forall>r \<in> set rs. rc_id (f r) = rc_id r" using assms(2) by (simp add: same_links_def)
  note look = lookup_map [OF ids]
  have "record_ok c (map f rs) (f r)" if r: "r \<in> set rs" for r
  proof -
    have ok: "record_ok c rs r" and same: "same_links r (f r)" using assms r by (simp_all add: graph_ok_def)
    have found: "\<exists>x. lookup_id rs m = Some x \<and> same_links x (f x)" if "m \<in> set (rc_member_ids r)" for m
      using ok that assms(2) lookup_id_Some [of rs m] by (fastforce simp: record_ok_def)
    have keys: "member_keys (map f rs) (rc_member_ids r) = member_keys rs (rc_member_ids r)"
    proof -
      have "rc_dedupe_key (the (lookup_id (map f rs) m)) = rc_dedupe_key (the (lookup_id rs m))"
        if "m \<in> set (rc_member_ids r)" for m
        using found [OF that] by (auto simp: look same_links_def)
      then show ?thesis by (simp add: member_keys_def)
    qed
    have owner: "rc_rolled_up_by (the (lookup_id (map f rs) m)) = rc_rolled_up_by (the (lookup_id rs m))"
      if "m \<in> set (rc_member_ids r)" for m
      using found [OF that] by (auto simp: look same_links_def)
    have parent: "\<exists>q. lookup_id (map f rs) p = Some q \<and> rc_id r \<in> set (rc_member_ids q)" if up: "rc_rolled_up_by r = Some p" for p
    proof -
      obtain q where q: "lookup_id rs p = Some q" "rc_id r \<in> set (rc_member_ids q)"
        using ok up unfolding record_ok_def by blast
      then have "same_links q (f q)" using assms(2) lookup_id_Some by blast
      then show ?thesis using q by (simp add: look same_links_def)
    qed
    show ?thesis
      using ok same owner parent found unfolding record_ok_def
      by (auto simp: same_links_def keys look)
  qed
  moreover have "distinct (map rc_id (map f rs))"
    using assms(1) ids by (simp add: graph_ok_def cong: map_cong)
  ultimately show ?thesis by (auto simp: graph_ok_def)
qed

section \<open>A concrete graph\<close>

definition sample_rec_codec :: rec_codec where
  "sample_rec_codec = \<lparr>packet_part = plain_codec, rollup_part = sample_rollup_codec\<lparr>sha256_lower_hex := (\<lambda>s. ''h'')\<rparr>,
     uuid_ok = (\<lambda>s. True)\<rparr>"

definition sample_recommendation :: "string \<Rightarrow> recommendation" where
  "sample_recommendation i =
     \<lparr>rc_assessment = None, rc_id = i, rc_workspace_id = ''w'', rc_chain_id = [], rc_chain_depth = 0,
      rc_type = ImproveWorkflow, rc_status = Proposed, rc_priority = Low, rc_title = [], rc_summary = [], rc_reason = [],
      rc_evidence = [], rc_repository_evidence = [], rc_knowledge_evidence = [], rc_source_session_ids = [''s''],
      rc_target_session_id = None, rc_suggested_harness_id = None, rc_suggested_model = None, rc_suggested_directory = None,
      rc_suggested_prompt = None, rc_confidence = LowConfidence, rc_requires_approval = True, rc_dedupe_key = i,
      rc_created_at = [], rc_updated_at = [], rc_expires_at = None,
      rc_improvement = \<lparr>wi_proposed_improvement = [], wi_target_surface = Tooling, wi_observation_ids = [],
        wi_recurrence_count = 0, wi_affected_session_ids = [], wi_impact = Low, wi_expected_benefit = [], wi_supersedes = None,
        wi_watermark = None\<rparr>,
      rc_packet = None, rc_audit = None, rc_member_ids = [], rc_member_keys = [], rc_generation = None,
      rc_rolled_up_by = None, rc_proposed_change = None\<rparr>"

lemma sample_recommendation_sel [simp]:
  "rc_id (sample_recommendation i) = i" "rc_member_ids (sample_recommendation i) = []" "rc_member_keys (sample_recommendation i) = []"
  "rc_dedupe_key (sample_recommendation i) = i" "rc_rolled_up_by (sample_recommendation i) = None"
  "rc_status (sample_recommendation i) = Proposed" "rc_packet (sample_recommendation i) = None"
  "rc_type (sample_recommendation i) = ImproveWorkflow" "rc_assessment (sample_recommendation i) = None"
  "rc_workspace_id (sample_recommendation i) = ''w''" "rc_source_session_ids (sample_recommendation i) = [''s'']"
  "rc_target_session_id (sample_recommendation i) = None"
  by (simp_all add: sample_recommendation_def)

definition sample_member :: "string \<Rightarrow> recommendation" where
  "sample_member i = sample_recommendation i\<lparr>rc_status := RolledUp, rc_rolled_up_by := Some ''rollup:h''\<rparr>"

definition sample_graph :: "recommendation list" where
  "sample_graph =
     [sample_member ''a'', sample_member ''b'',
      sample_recommendation ''rollup:h''\<lparr>rc_member_ids := [''a'', ''b''], rc_member_keys := [''a'', ''b'']\<rparr>,
      sample_recommendation ''z'']"

lemma sample_lookup:
  "lookup_id sample_graph ''a'' = Some (sample_member ''a'')" "lookup_id sample_graph ''b'' = Some (sample_member ''b'')"
  "lookup_id sample_graph ''rollup:h'' =
     Some (sample_recommendation ''rollup:h''\<lparr>rc_member_ids := [''a'', ''b''], rc_member_keys := [''a'', ''b'']\<rparr>)"
  by (simp_all add: lookup_id_def sample_graph_def sample_member_def)

lemma sample_graph_valid: "validate_graph_records sample_rec_codec sample_graph = Inr ()"
proof -
  have parent: "stable_rollup_id (rollup_part sample_rec_codec) [''a'', ''b''] = ''rollup:h''"
    by (simp add: stable_rollup_id_def sample_rec_codec_def)
  have "record_ok sample_rec_codec sample_graph r" if "r \<in> set sample_graph" for r
  proof -
    from that consider "r = sample_member ''a''" | "r = sample_member ''b''" | "r = sample_recommendation ''z''"
      | "r = sample_recommendation ''rollup:h''\<lparr>rc_member_ids := [''a'', ''b''], rc_member_keys := [''a'', ''b'']\<rparr>"
      by (auto simp: sample_graph_def)
    then show ?thesis
      by cases (simp_all add: record_ok_def sample_lookup member_keys_def sample_member_def active_parent_def parent)
  qed
  moreover have "distinct (map rc_id sample_graph)" by (simp add: sample_graph_def sample_member_def)
  ultimately show ?thesis by (simp add: validate_graph_ok graph_ok_def)
qed

theorem deletion_keeps_graph_valid_witness:
  "validate_graph_records sample_rec_codec (filter (\<lambda>r. rc_id r \<notin> deletion_graph_ids sample_graph {''a''}) sample_graph) = Inr () \<and>
   {''a'', ''rollup:h'', ''b''} \<subseteq> deletion_graph_ids sample_graph {''a''}"
proof -
  let ?gone = "deletion_graph_ids sample_graph {''a''}"
  note facts = deletion_keeps_graph_valid [OF sample_graph_valid, of "{''a''}"]
  then have closed: "closed_under_links sample_graph ?gone" and a: "''a'' \<in> ?gone" by simp_all
  have "''rollup:h'' \<in> ?gone"
    using closed_links [OF closed a sample_lookup(1)] by (simp add: linked_def sample_member_def)
  moreover from closed_links [OF closed this sample_lookup(3)] have "''b'' \<in> ?gone" by (simp add: linked_def)
  ultimately show ?thesis using facts a by simp
qed

end
