(* ===== verification/Recommendation_Lifecycle.thy ===== *)
theory Recommendation_Lifecycle
  imports Recommendation
begin

text \<open>
  The life of one recommendation under the calls of \<^verbatim>\<open>taskmaster/store.rs\<close>: which calls are accepted in
  which state, which changes of the whole record open a reservation again, what an approval is bound
  to, and that the calls keep the graph valid.
\<close>

section \<open>Runs of one record\<close>

text \<open>
  The calls that change one record. A call reads the record, computes the new one, and writes it when
  it validates; otherwise the record stays. A request is checked before the record is read.
\<close>

datatype lifecycle_op =
    OpDismiss string "string option"
  | OpBegin string string
  | OpBeginChecked string string mutation_request string
  | OpDelivered string
  | OpComplete string
  | OpCompleteChecked string mutation_request
  | OpCancel string
  | OpReplace u64 completion_packet string
  | OpRecover "string set" "string set" string

definition written :: "rec_codec \<Rightarrow> recommendation \<Rightarrow> store_error + recommendation" where
  "written c r = and_then (validate_recommendation c r) (\<lambda>_. Inr r)"

definition checked_request :: "mutation_request \<Rightarrow> store_error + unit" where
  "checked_request q = (case validate_request q of Inl e \<Rightarrow> Inl (GraphInvariant (PacketInvalid e)) | Inr _ \<Rightarrow> Inr ())"

fun lifecycle_call :: "rec_codec \<Rightarrow> lifecycle_op \<Rightarrow> recommendation \<Rightarrow> store_error + recommendation" where
  "lifecycle_call c (OpDismiss at reason) r = and_then (dismiss_step at reason r) (written c)"
| "lifecycle_call c (OpBegin target at) r = and_then (begin_step target at r) (written c)"
| "lifecycle_call c (OpBeginChecked target at q approver) r =
     and_then (checked_request q) (\<lambda>_. and_then (begin_checked_step c (rc_id r) target at q approver r) (written c))"
| "lifecycle_call c (OpDelivered at) r = and_then (complete_execution_step at r) (written c)"
| "lifecycle_call c (OpComplete at) r = and_then (complete_accepted_step at r) (written c)"
| "lifecycle_call c (OpCompleteChecked at q) r =
     and_then (checked_request q) (\<lambda>_. and_then (complete_checked_step (rc_id r) at q r)
       (\<lambda>o1. case o1 of AlreadyDone \<Rightarrow> Inr r | Complete r1 \<Rightarrow> written c r1))"
| "lifecycle_call c (OpCancel at) r =
     and_then (cancel_step at r) (\<lambda>r1. and_then (written c r1) (\<lambda>_. if redacted r then written c (supersede r1) else Inr r1))"
| "lifecycle_call c (OpReplace expected new at) r = and_then (replace_step c (rc_id r) expected new at r) (written c)"
| "lifecycle_call c (OpRecover live protected at) r =
     (if orphaned live protected r then written c (recovered_record at r) else Inr r)"

definition lifecycle_next :: "rec_codec \<Rightarrow> lifecycle_op \<Rightarrow> recommendation \<Rightarrow> recommendation" where
  "lifecycle_next c op r = (case lifecycle_call c op r of Inl _ \<Rightarrow> r | Inr r1 \<Rightarrow> r1)"

fun releases :: "lifecycle_op \<Rightarrow> bool" where
  "releases (OpCancel at) = True"
| "releases (OpReplace expected new at) = True"
| "releases (OpRecover live protected at) = True"
| "releases _ = False"

lemmas step_defs = dismiss_step_def begin_step_def begin_checked_step_def complete_execution_step_def
  complete_accepted_step_def complete_checked_step_def cancel_step_def ensure_mutable_def

lemma written_ok: "written c r = Inr r1 \<longleftrightarrow> r1 = r \<and> validate_recommendation c r = Inr ()"
  by (auto simp: written_def and_then_ok)

lemma clear_approval_sel [simp]:
  "rc_status (clear_approval r) = rc_status r" "rc_target_session_id (clear_approval r) = rc_target_session_id r"
  "rc_id (clear_approval r) = rc_id r" "rc_member_ids (clear_approval r) = rc_member_ids r"
  "rc_member_keys (clear_approval r) = rc_member_keys r" "rc_dedupe_key (clear_approval r) = rc_dedupe_key r"
  "rc_rolled_up_by (clear_approval r) = rc_rolled_up_by r" "rc_type (clear_approval r) = rc_type r"
  "rc_packet (clear_approval r) = map_option (\<lambda>p. p\<lparr>cp_approval := None, cp_completion_key := None\<rparr>) (rc_packet r)"
  by (simp_all add: clear_approval_def)

lemma call_checked:
  "lifecycle_call c (OpCompleteChecked at q) r = Inr r1 \<longleftrightarrow> checked_request q = Inr () \<and>
     (complete_checked_step (rc_id r) at q r = Inr AlreadyDone \<and> r1 = r \<or>
      complete_checked_step (rc_id r) at q r = Inr (Complete r1) \<and> validate_recommendation c r1 = Inr ())"
proof (cases "complete_checked_step (rc_id r) at q r")
  case (Inr o1)
  then show ?thesis by (cases o1) (auto simp: and_then_ok written_ok)
qed (auto simp: and_then_ok)

text \<open>When the function of each operation succeeds, and with what.\<close>

lemma dismiss_ok: "dismiss_step at reason r = Inr r1 \<longleftrightarrow>
    \<not> redacted r \<and> rc_status r \<in> {Proposed, Executing} \<and> r1 = dismissed_record at reason r"
  by (auto simp: dismiss_step_def ensure_mutable_def and_then_ok)

lemma begin_ok: "begin_step target at r = Inr r1 \<longleftrightarrow>
    \<not> redacted r \<and> rc_type r = ImproveWorkflow \<and> rc_status r = Proposed \<and> r1 = reserve target at r"
  by (auto simp: begin_step_def ensure_mutable_def and_then_ok)

lemma begin_checked_ok: "begin_checked_step c i target at q approver r = Inr r1 \<longleftrightarrow>
    \<not> redacted r \<and> rc_type r = ImproveWorkflow \<and> rc_status r = Proposed \<and>
    (\<exists>p. rc_packet r = Some p \<and> request_current q p \<and>
       r1 = reserve target at (r\<lparr>rc_packet := Some (p\<lparr>cp_approval := Some (approval_for c at approver q p),
         cp_completion_key := None\<rparr>)\<rparr>))"
  by (cases "rc_packet r") (auto simp: begin_checked_step_def ensure_mutable_def and_then_ok)

lemma delivered_ok: "complete_execution_step at r = Inr r1 \<longleftrightarrow>
    rc_type r = ImproveWorkflow \<and> rc_status r = Executing \<and> r1 = r\<lparr>rc_status := Accepted, rc_updated_at := at\<rparr>"
  by (auto simp: complete_execution_step_def)

lemma complete_ok: "complete_accepted_step at r = Inr r1 \<longleftrightarrow>
    (redacted r \<longrightarrow> rc_target_session_id r \<noteq> None) \<and> rc_type r = ImproveWorkflow \<and> rc_status r = Accepted \<and>
    r1 = r\<lparr>rc_status := Completed, rc_updated_at := at\<rparr>"
  by (auto simp: complete_accepted_step_def ensure_mutable_def and_then_ok Let_def)

lemma complete_again_ok: "complete_checked_step i at q r = Inr AlreadyDone \<Longrightarrow>
    rc_status r = Completed \<and> (\<exists>p. rc_packet r = Some p \<and> request_current q p \<and> cp_completion_key p = Some (mq_idempotency_key q))"
  by (cases "rc_packet r") (auto simp: complete_checked_step_def and_then_ok Let_def split: if_split_asm)

lemma complete_checked_ok:
  assumes "complete_checked_step i at q r = Inr (Complete r1)"
  shows "rc_status r = Accepted \<and> (\<exists>p a. rc_packet r = Some p \<and> request_current q p \<and> cp_approval p = Some a \<and>
    ap_idempotency_key a = mq_idempotency_key q \<and>
    r1 = r\<lparr>rc_packet := Some (p\<lparr>cp_completion_key := Some (mq_idempotency_key q)\<rparr>), rc_status := Completed, rc_updated_at := at\<rparr>)"
proof -
  obtain p where p: "rc_packet r = Some p"
    using assms by (cases "rc_packet r") (auto simp: complete_checked_step_def and_then_ok Let_def)
  obtain a where a: "cp_approval p = Some a"
    using assms p by (cases "cp_approval p") (auto simp: complete_checked_step_def and_then_ok Let_def split: if_split_asm)
  show ?thesis
    using assms p a by (auto simp: complete_checked_step_def and_then_ok Let_def split: if_split_asm)
qed

lemma cancel_ok: "cancel_step at r = Inr r1 \<longleftrightarrow> rc_type r = ImproveWorkflow \<and> rc_status r = Executing \<and>
    r1 = clear_approval (r\<lparr>rc_status := Proposed, rc_target_session_id := None\<rparr>)\<lparr>rc_updated_at := at\<rparr>"
  by (auto simp: cancel_step_def)

lemma replace_ok:
  assumes "replace_step c i expected new at r = Inr r1"
  shows "rc_status r \<in> {Proposed, Executing, Accepted} \<and>
    (\<exists>old. rc_packet r = Some old \<and> cp_revision old = expected \<and> cp_revision new = saturating_add (cp_revision old) 1 \<and>
       r1 = r\<lparr>rc_status := Proposed, rc_target_session_id := None, rc_updated_at := at,
              rc_packet := Some (replaced_packet at old new)\<rparr> \<and> validate_recommendation c r1 = Inr ())"
proof -
  obtain old where "rc_packet r = Some old"
    using assms by (cases "rc_packet r") (auto simp: replace_step_def and_then_ok split: if_split_asm)
  then show ?thesis
    using assms by (auto simp: replace_step_def and_then_ok Let_def split: if_split_asm)
qed

lemmas step_ok = dismiss_ok begin_ok begin_checked_ok delivered_ok complete_ok cancel_ok

lemma call_validates:
  assumes "lifecycle_call c op r = Inr r1"
  shows "r1 = r \<or> validate_recommendation c r1 = Inr ()"
proof (cases op)
  case (OpCompleteChecked at q)
  then show ?thesis using assms call_checked by metis
qed (use assms in \<open>auto simp: and_then_ok written_ok split: if_split_asm\<close>)

section \<open>Reservations\<close>

lemma not_proposed_kept:
  assumes "lifecycle_call c op r = Inr r1" and "rc_status r \<noteq> Proposed" and "\<not> releases op"
  shows "rc_status r1 \<noteq> Proposed \<and> rc_target_session_id r1 = rc_target_session_id r"
proof (cases op)
  case (OpCompleteChecked at q)
  then consider "r1 = r" | "complete_checked_step (rc_id r) at q r = Inr (Complete r1)" using assms(1) call_checked by metis
  then show ?thesis
  proof cases
    case 2
    from complete_checked_ok [OF this] show ?thesis by auto
  qed (use assms(2) in simp)
qed (use assms in \<open>auto simp: and_then_ok written_ok step_ok dismissed_record_def Let_def\<close>)

lemma not_proposed_run:
  assumes "rc_status r \<noteq> Proposed" and "\<forall>op \<in> set ops. \<not> releases op"
  shows "rc_status (fold (lifecycle_next c) ops r) \<noteq> Proposed \<and>
    rc_target_session_id (fold (lifecycle_next c) ops r) = rc_target_session_id r"
  using assms
proof (induction ops arbitrary: r)
  case (Cons op ops)
  have "rc_status (lifecycle_next c op r) \<noteq> Proposed \<and> rc_target_session_id (lifecycle_next c op r) = rc_target_session_id r"
    using Cons.prems not_proposed_kept [of c op r] by (auto simp: lifecycle_next_def split: sum.split)
  then show ?case using Cons.IH [of "lifecycle_next c op r"] Cons.prems(2) by simp
qed simp

text \<open>
  Other calls write or remove the record as a whole: \<open>put\<close> takes any valid record; a graph transaction
  that passes its checks writes the record it was given for the id, but not over one that is settled
  and different; a deletion takes the record away. The state of a record is then the record or nothing.
\<close>

definition settled_status :: "recommendation_status \<Rightarrow> bool" where
  "settled_status s \<longleftrightarrow> s \<in> {Accepted, Completed, Dismissed, Superseded, Expired, FailedStatus}"

datatype record_change =
    Lifecycle lifecycle_op
  | PutRecord recommendation
  | GraphRecord recommendation
  | DeleteRecord

definition graph_step :: "recommendation \<Rightarrow> recommendation option \<Rightarrow> store_error + recommendation" where
  "graph_step new stored =
     (if is_some_and (\<lambda>old. settled_status (rc_status old) \<and> new \<noteq> old) stored then Inl InvalidTransition else Inr new)"

fun record_call :: "rec_codec \<Rightarrow> record_change \<Rightarrow> recommendation option \<Rightarrow> store_error + recommendation option" where
  "record_call c (Lifecycle op) stored =
     (case stored of None \<Rightarrow> Inr None | Some r \<Rightarrow> and_then (lifecycle_call c op r) (\<lambda>r1. Inr (Some r1)))"
| "record_call c (PutRecord new) stored = and_then (written c new) (\<lambda>r1. Inr (Some r1))"
| "record_call c (GraphRecord new) stored = and_then (graph_step new stored) (\<lambda>r1. Inr (Some r1))"
| "record_call c DeleteRecord stored = Inr None"

definition record_next :: "rec_codec \<Rightarrow> record_change \<Rightarrow> recommendation option \<Rightarrow> recommendation option" where
  "record_next c ch stored = (case record_call c ch stored of Inl _ \<Rightarrow> stored | Inr r \<Rightarrow> r)"

definition open_for_work :: "recommendation option \<Rightarrow> bool" where
  "open_for_work stored = is_some_and (\<lambda>r. rc_status r = Proposed) stored"

text \<open>
  The changes that may open a reserved record again: a cancellation, the replacement of its packet, the
  recovery of a reservation whose session is gone, a record written as proposed; by a graph
  transaction only while the record is not settled.
\<close>

fun may_reopen :: "record_change \<Rightarrow> recommendation option \<Rightarrow> bool" where
  "may_reopen (Lifecycle (OpCancel at)) stored \<longleftrightarrow> is_some_and (\<lambda>r. rc_status r = Executing) stored"
| "may_reopen (Lifecycle (OpReplace expected new at)) stored \<longleftrightarrow> is_some_and (\<lambda>r. rc_status r \<in> {Executing, Accepted}) stored"
| "may_reopen (Lifecycle (OpRecover live protected at)) stored \<longleftrightarrow> is_some_and (orphaned live protected) stored"
| "may_reopen (Lifecycle op) stored \<longleftrightarrow> False"
| "may_reopen (PutRecord new) stored \<longleftrightarrow> rc_status new = Proposed"
| "may_reopen (GraphRecord new) stored \<longleftrightarrow> rc_status new = Proposed \<and> \<not> is_some_and (\<lambda>r. settled_status (rc_status r)) stored"
| "may_reopen DeleteRecord stored \<longleftrightarrow> False"

fun reopened :: "rec_codec \<Rightarrow> record_change list \<Rightarrow> recommendation option \<Rightarrow> bool" where
  "reopened c [] stored \<longleftrightarrow> False"
| "reopened c (ch # chs) stored \<longleftrightarrow>
     (may_reopen ch stored \<and> open_for_work (record_next c ch stored)) \<or> reopened c chs (record_next c ch stored)"

lemma reopening_change:
  assumes "\<not> open_for_work stored" "open_for_work (record_next c ch stored)"
  shows "may_reopen ch stored"
proof (cases ch)
  case (Lifecycle op)
  then obtain r r1 where r: "stored = Some r" "rc_status r \<noteq> Proposed" and r1: "lifecycle_call c op r = Inr r1" "rc_status r1 = Proposed"
    using assms by (auto simp: open_for_work_def record_next_def and_then_def split: option.splits sum.splits)
  then have "releases op" using not_proposed_kept by blast
  then show ?thesis using r r1 Lifecycle
    by (cases op) (auto simp: and_then_ok cancel_ok dest: replace_ok split: if_split_asm)
next
  case (GraphRecord new)
  then show ?thesis using assms
    by (cases stored) (auto simp: open_for_work_def record_next_def graph_step_def settled_status_def split: if_split_asm)
qed (use assms in \<open>auto simp: open_for_work_def record_next_def and_then_def written_def split: sum.splits\<close>)

lemma closed_run: "\<not> open_for_work stored \<Longrightarrow> \<not> reopened c chs stored \<Longrightarrow> \<not> open_for_work (fold (record_next c) chs stored)"
proof (induction chs arbitrary: stored)
  case (Cons ch chs)
  then show ?case using reopening_change [of stored c ch] by auto
qed simp

lemma quiet_run: "fold (record_next c) (map Lifecycle ops) (Some r) = Some (fold (lifecycle_next c) ops r)"
  by (induction ops arbitrary: r) (auto simp: record_next_def lifecycle_next_def and_then_def split: sum.splits)

text \<open>
  C20: A recommendation is handed to one session at a time. Once it is reserved for a session, every
  further attempt to reserve it is refused as an invalid transition, or finds no record, whatever
  changes of the record come in between: calls of the lifecycle, whole records put or written by a
  graph transaction, deletions. The exception is that one of them opened it again before: it
  cancelled the reservation, replaced the packet, recovered a reservation whose session was gone, or
  wrote the record as proposed, which a graph transaction cannot do once the record is accepted or
  closed. As long as only calls of the lifecycle that do not release it come in between, it stays with
  its session.
\<close>

theorem reservation_exclusive:
  assumes "record_call c (Lifecycle (OpBegin target at)) stored = Inr (Some r1) \<or>
      record_call c (Lifecycle (OpBeginChecked target at q approver)) stored = Inr (Some r1)"
    and "\<not> reopened c chs (Some r1)" and "s = fold (record_next c) chs (Some r1)" and "checked_request q' = Inr ()"
  shows "record_call c (Lifecycle (OpBegin target' at')) s = (if s = None then Inr None else Inl InvalidTransition) \<and>
    record_call c (Lifecycle (OpBeginChecked target' at' q' approver')) s = (if s = None then Inr None else Inl InvalidTransition) \<and>
    (\<forall>ops. chs = map Lifecycle ops \<and> list_all (\<lambda>op. \<not> releases op) ops \<longrightarrow> map_option rc_target_session_id s = Some (Some target))"
proof -
  have r1: "rc_status r1 = Executing" "rc_target_session_id r1 = Some target"
    using assms(1) by (auto simp: and_then_ok written_ok step_ok reserve_def split: option.splits)
  then have "\<not> open_for_work s" using closed_run [OF _ assms(2)] assms(3) by (simp add: open_for_work_def)
  moreover have "map_option rc_target_session_id s = Some (Some target)"
    if "chs = map Lifecycle ops" "list_all (\<lambda>op. \<not> releases op) ops" for ops
    using not_proposed_run [of r1 ops c] r1 that assms(3) by (simp add: quiet_run list_all_iff)
  ultimately show ?thesis using assms(4)
    by (auto simp: open_for_work_def begin_step_def begin_checked_step_def ensure_mutable_def refuse_if_def and_then_def)
qed

section \<open>Approvals\<close>

definition approved_by :: "lifecycle_op list \<Rightarrow> completion_approval \<Rightarrow> bool" where
  "approved_by ops a \<longleftrightarrow>
     (\<exists>target at q approver. OpBeginChecked target at q approver \<in> set ops \<and> ap_revision a = mq_packet_revision q \<and>
        ap_evidence_fingerprint a = mq_evidence_fingerprint q \<and> ap_idempotency_key a = mq_idempotency_key q \<and>
        ap_approver a = approver \<and> ap_approved_at a = at)"

definition approval_trail :: "lifecycle_op list \<Rightarrow> recommendation \<Rightarrow> bool" where
  "approval_trail ops r \<longleftrightarrow>
     (\<forall>p. rc_packet r = Some p \<longrightarrow>
        (\<forall>a. cp_approval p = Some a \<longrightarrow> approved_by ops a) \<and>
        (\<forall>k. cp_completion_key p = Some k \<longrightarrow> is_some_and (\<lambda>a. ap_idempotency_key a = k) (cp_approval p)))"

lemma validated_packet:
  assumes "validate_recommendation c r = Inr ()" and "rc_packet r = Some p"
  shows "(cp_approval p \<noteq> None) = approval_required (rc_status r)" "(cp_completion_key p \<noteq> None) = (rc_status r = Completed)"
    "packet_valid c r p = Inr ()"
  using assms by (auto simp: validate_recommendation_def check_packet_def first_error_ok split: sum.split_asm)

lemma approved_by_mono: "approved_by ops a \<Longrightarrow> approved_by (ops @ ops1) a"
  by (auto simp: approved_by_def)

lemma approval_trail_mono: "approval_trail ops r \<Longrightarrow> approval_trail (ops @ ops1) r"
  by (auto simp: approval_trail_def intro: approved_by_mono)

lemma approval_trail_packet:
  assumes "approval_trail ops r" and "rc_packet r1 = rc_packet r"
  shows "approval_trail ops r1"
  using assms by (simp add: approval_trail_def)

lemma approval_trail_cleared:
  assumes "\<And>p. rc_packet r1 = Some p \<Longrightarrow> cp_approval p = None \<and> cp_completion_key p = None"
  shows "approval_trail ops r1"
  using assms by (auto simp: approval_trail_def)

lemma approval_trail_step:
  assumes "approval_trail ops r" and "lifecycle_call c op r = Inr r1"
  shows "approval_trail (ops @ [op]) r1"
proof -
  note old = approval_trail_mono [OF assms(1), of "[op]"]
  show ?thesis
  proof (cases op)
    case (OpBeginChecked target at q approver)
    then obtain p where p: "rc_packet r1 = Some (p\<lparr>cp_approval := Some (approval_for c at approver q p), cp_completion_key := None\<rparr>)"
      "request_current q p"
      using assms(2) by (auto simp: and_then_ok written_ok begin_checked_ok reserve_def)
    then have "approved_by (ops @ [op]) (approval_for c at approver q p)"
      using OpBeginChecked by (auto simp: approved_by_def approval_for_def request_current_def)
    then show ?thesis using p by (simp add: approval_trail_def)
  next
    case (OpCompleteChecked at q)
    then consider "r1 = r" | "complete_checked_step (rc_id r) at q r = Inr (Complete r1)" using assms(2) call_checked by metis
    then show ?thesis
    proof cases
      case 2
      from complete_checked_ok [OF this] old show ?thesis by (auto simp: approval_trail_def)
    qed (use old in simp)
  next
    case (OpReplace expected new at)
    then have "replace_step c (rc_id r) expected new at r = Inr r1" using assms(2) by (auto simp: and_then_ok written_ok)
    from replace_ok [OF this] show ?thesis by (intro approval_trail_cleared) (auto simp: replaced_packet_def)
  next
    case (OpCancel at)
    then show ?thesis using assms(2)
      by (intro approval_trail_cleared) (auto simp: and_then_ok written_ok cancel_ok supersede_def split: if_split_asm)
  next
    case (OpRecover live protected at)
    show ?thesis
    proof (cases "orphaned live protected r")
      case True
      then have "r1 = recovered_record at r" using assms(2) OpRecover by (simp add: written_ok)
      then show ?thesis by (intro approval_trail_cleared) (auto simp: recovered_record_def)
    qed (use assms(2) old OpRecover in simp)
  next
    case (OpDismiss at reason)
    then show ?thesis using assms(2)
      by (intro approval_trail_cleared) (auto simp: and_then_ok written_ok dismiss_ok dismissed_record_def Let_def)
  next
    case (OpBegin target at)
    then show ?thesis using assms(2)
      by (intro approval_trail_packet [OF old]) (auto simp: and_then_ok written_ok begin_ok reserve_def)
  next
    case (OpDelivered at)
    then show ?thesis using assms(2)
      by (intro approval_trail_packet [OF old]) (auto simp: and_then_ok written_ok delivered_ok)
  next
    case (OpComplete at)
    then show ?thesis using assms(2)
      by (intro approval_trail_packet [OF old]) (auto simp: and_then_ok written_ok complete_ok)
  qed
qed

lemma lifecycle_run:
  assumes "validate_recommendation c r = Inr ()" and "approval_trail [] r"
  shows "validate_recommendation c (fold (lifecycle_next c) ops r) = Inr () \<and> approval_trail ops (fold (lifecycle_next c) ops r)"
proof (induction ops rule: rev_induct)
  case (snoc op ops)
  let ?r = "fold (lifecycle_next c) ops r"
  show ?case
  proof (cases "lifecycle_call c op ?r")
    case (Inl e)
    then have "lifecycle_next c op ?r = ?r" by (simp add: lifecycle_next_def)
    then show ?thesis using snoc approval_trail_mono by simp
  next
    case (Inr r1)
    then have "lifecycle_next c op ?r = r1" by (simp add: lifecycle_next_def)
    then show ?thesis using snoc approval_trail_step [OF _ Inr] call_validates [OF Inr] by auto
  qed
qed (use assms in simp)

text \<open>
  C4: Work that comes with a completion packet is executed only as approved. Over any sequence of
  calls on a valid proposed recommendation: while it is executing, accepted or completed, its packet
  carries an approval that one of the calls gave, with the approver, the time and the idempotency key
  of that call; the approval names the revision and the evidence of the packet and the fingerprint of
  its action, unless access was redacted; and a completed one was completed under the same key.
\<close>

theorem packet_runs_only_as_approved:
  assumes "validate_recommendation c r = Inr ()" and "rc_status r = Proposed"
    and "rc_packet (fold (lifecycle_next c) ops r) = Some p"
    and "rc_status (fold (lifecycle_next c) ops r) \<in> {Executing, Accepted, Completed}"
  shows "\<exists>a. cp_approval p = Some a \<and> approved_by ops a \<and>
    (\<not> redacted (fold (lifecycle_next c) ops r) \<longrightarrow> ap_revision a = cp_revision p \<and>
       ap_evidence_fingerprint a = computed_evidence_fingerprint (packet_part c) p \<and>
       ap_action_fingerprint a = action_fingerprint (packet_part c) p) \<and>
    (rc_status (fold (lifecycle_next c) ops r) = Completed \<longrightarrow> cp_completion_key p = Some (ap_idempotency_key a))"
proof -
  let ?r = "fold (lifecycle_next c) ops r"
  have "approval_trail [] r"
    using validated_packet(1,2) [OF assms(1)] assms(2)
    by (intro approval_trail_cleared) (auto simp: approval_required_def)
  then have valid: "validate_recommendation c ?r = Inr ()" and trail: "approval_trail ops ?r"
    using lifecycle_run [OF assms(1)] by blast+
  note facts = validated_packet [OF valid assms(3)]
  obtain a where a: "cp_approval p = Some a" using facts(1) assms(4) by (auto simp: approval_required_def)
  have "ap_revision a = cp_revision p \<and> ap_evidence_fingerprint a = computed_evidence_fingerprint (packet_part c) p \<and>
      ap_action_fingerprint a = action_fingerprint (packet_part c) p" if "\<not> redacted ?r"
  proof -
    have "validate_packet (packet_part c) (rc_workspace_id ?r) p = Inr ()" using facts(3) that by (simp add: packet_valid_def)
    then have "approval_ok (packet_part c) p" "cp_evidence_fingerprint p = computed_evidence_fingerprint (packet_part c) p"
      unfolding validate_packet_ok by blast+
    then show ?thesis using a by (simp add: approval_ok_def)
  qed
  moreover have "cp_completion_key p = Some (ap_idempotency_key a)" if "rc_status ?r = Completed"
    using facts(2) that trail a assms(3) by (auto simp: approval_trail_def)
  moreover have "approved_by ops a" using trail a assms(3) by (simp add: approval_trail_def)
  ultimately show ?thesis using a by blast
qed

section \<open>The graph around one record\<close>

fun rechecks_graph :: "lifecycle_op \<Rightarrow> bool" where
  "rechecks_graph (OpReplace expected new at) = True"
| "rechecks_graph (OpRecover live protected at) = True"
| "rechecks_graph _ = False"

lemma call_same_links:
  assumes "lifecycle_call c op r = Inr r1" and "\<not> rechecks_graph op"
  shows "same_links r r1"
proof (cases op)
  case (OpCompleteChecked at q)
  then consider "r1 = r" | "complete_checked_step (rc_id r) at q r = Inr (Complete r1)" using assms(1) call_checked by metis
  then show ?thesis
  proof cases
    case 2
    from complete_checked_ok [OF this] show ?thesis by (auto simp: same_links_def active_parent_def)
  qed (simp add: same_links_def)
next
  case (OpCancel at)
  then obtain r2 where "cancel_step at r = Inr r2" "r1 = r2 \<or> r1 = supersede r2"
    using assms(1) by (auto simp: and_then_ok written_ok split: if_split_asm)
  then show ?thesis by (auto simp: cancel_ok supersede_def same_links_def active_parent_def)
next
  case (OpBeginChecked target at q approver)
  then obtain x where "rc_status r = Proposed" "r1 = reserve target at (r\<lparr>rc_packet := x\<rparr>)"
    using assms(1) by (auto simp: and_then_ok written_ok begin_checked_ok)
  then show ?thesis by (simp add: reserve_def same_links_def active_parent_def)
next
  case (OpDismiss at reason)
  then have "rc_status r \<in> {Proposed, Executing}" "r1 = dismissed_record at reason r"
    using assms(1) by (simp_all add: and_then_ok written_ok dismiss_ok)
  then show ?thesis by (auto simp: dismissed_record_def same_links_def active_parent_def Let_def)
qed (use assms in \<open>auto simp: and_then_ok written_ok step_ok same_links_def active_parent_def reserve_def\<close>)

text \<open>
  The calls that write one record need not look at the graph again. When the graph is valid and
  such a call succeeds on one of its records, the graph with the new record in place of the old one
  is valid; replacing a packet and recovering orphans, which can make a parent active again, are the
  two that check the graph themselves.
\<close>

theorem lifecycle_keeps_graph_valid:
  assumes "validate_graph_records c rs = Inr ()" and "r \<in> set rs" and "lifecycle_call c op r = Inr r1"
    and "\<not> rechecks_graph op"
  shows "validate_graph_records c (map (\<lambda>x. if rc_id x = rc_id r then r1 else x) rs) = Inr ()"
proof -
  have ok: "graph_ok c rs" using assms(1) by (simp add: validate_graph_ok)
  have "same_links x (if rc_id x = rc_id r then r1 else x)" if "x \<in> set rs" for x
  proof (cases "rc_id x = rc_id r")
    case True
    moreover have "inj_on rc_id (set rs)" using ok by (simp add: graph_ok_def distinct_map)
    ultimately have "x = r" using assms(2) that by (blast dest: inj_onD)
    then show ?thesis using call_same_links [OF assms(3,4)] True by simp
  qed (simp add: same_links_def)
  then have "graph_ok c (map (\<lambda>x. if rc_id x = rc_id r then r1 else x) rs)"
    by (intro graph_with_same_links [OF ok] ballI)
  then show ?thesis unfolding validate_graph_ok .
qed

section \<open>A concrete life\<close>

definition packed :: recommendation where
  "packed = sample_recommendation ''r''\<lparr>rc_packet := Some (sample_packet ''x'')\<rparr>"

definition sample_request :: mutation_request where
  "sample_request = \<lparr>mq_packet_revision = 1, mq_evidence_fingerprint = replicate 64 CHR ''a'', mq_idempotency_key = ''k''\<rparr>"

definition running :: recommendation where
  "running = reserve ''t'' ''t'' (packed\<lparr>rc_packet := Some (sample_packet ''x''\<lparr>cp_approval := Some sample_approval\<rparr>)\<rparr>)"

lemma packed_sel [simp]:
  "rc_id packed = ''r''" "rc_status packed = Proposed" "rc_packet packed = Some (sample_packet ''x'')" "\<not> redacted packed"
  "rc_type packed = ImproveWorkflow" "rc_assessment packed = None" "rc_workspace_id packed = ''w''"
  "rc_source_session_ids packed = [''s'']"
  by (simp_all add: packed_def redacted_def)

lemma sample_packet_sel [simp]:
  "cp_revision (sample_packet i) = 1" "cp_evidence_fingerprint (sample_packet i) = replicate 64 CHR ''a''"
  "cp_source_session_id (sample_packet i) = ''s''" "cp_approval (sample_packet i) = None" "cp_completion_key (sample_packet i) = None"
  by (simp_all add: sample_packet_def)

lemma packed_valid: "validate_recommendation sample_rec_codec packed = Inr ()"
  using sample_packet_valid [of "''x''"]
  by (simp add: validate_recommendation_def check_packet_def packet_valid_def sample_rec_codec_def approval_required_def)

lemma sample_request_ok: "checked_request sample_request = Inr ()"
  by (simp add: checked_request_def validate_request_def sample_request_def valid_fingerprint_def list_all_iff ascii_hexdigit_def
      short_text white1_def white2_def white3_def)

lemma packed_begins:
  "lifecycle_call sample_rec_codec (OpBeginChecked ''t'' ''t'' sample_request ''u'') packed = Inr running"
proof -
  have approval: "approval_for sample_rec_codec ''t'' ''u'' sample_request (sample_packet ''x'') = sample_approval"
    by (simp add: approval_for_def sample_approval_def sample_request_def action_fingerprint_def sample_rec_codec_def plain_codec_def)
  have key: "sample_packet ''x''\<lparr>cp_approval := a, cp_completion_key := None\<rparr> = sample_packet ''x''\<lparr>cp_approval := a\<rparr>" for a
    by (simp add: sample_packet_def)
  have "request_current sample_request (sample_packet ''x'')" by (simp add: request_current_def sample_request_def)
  then have "begin_checked_step sample_rec_codec ''r'' ''t'' ''t'' sample_request ''u'' packed = Inr running"
    by (simp add: begin_checked_ok approval key running_def)
  moreover have "validate_recommendation sample_rec_codec running = Inr ()"
    using sample_approved_valid [of "''x''"]
    by (simp add: validate_recommendation_def check_packet_def packet_valid_def sample_rec_codec_def approval_required_def
        running_def reserve_def redacted_def)
  ultimately show ?thesis by (simp add: sample_request_ok written_def)
qed

theorem reservation_exclusive_witness:
  "record_call sample_rec_codec (Lifecycle (OpBegin ''v'' ''t''))
     (fold (record_next sample_rec_codec) [GraphRecord running, Lifecycle (OpDelivered ''t''), GraphRecord packed] (Some running)) =
   Inl InvalidTransition"
proof -
  let ?chs = "[GraphRecord running, Lifecycle (OpDelivered ''t''), GraphRecord packed]"
  let ?done = "running\<lparr>rc_status := Accepted, rc_updated_at := ''t''\<rparr>"
  have "lifecycle_call sample_rec_codec (OpDelivered ''t'') running = Inr ?done"
    using sample_approved_valid [of "''x''"]
    by (simp add: complete_execution_step_def written_def validate_recommendation_def check_packet_def packet_valid_def sample_rec_codec_def
        approval_required_def running_def reserve_def redacted_def)
  then have steps: "record_next sample_rec_codec (GraphRecord running) (Some running) = Some running"
    "record_next sample_rec_codec (Lifecycle (OpDelivered ''t'')) (Some running) = Some ?done"
    "record_next sample_rec_codec (GraphRecord packed) (Some ?done) = Some ?done"
    by (simp_all add: record_next_def graph_step_def settled_status_def del: lifecycle_call.simps)
  then have "\<not> reopened sample_rec_codec ?chs (Some running)"
    by (simp add: running_def reserve_def settled_status_def)
  from reservation_exclusive [OF _ this refl sample_request_ok, of "''t''" "''t''" "Some packed" sample_request "''u''" "''v''" "''t''"]
    packed_begins steps show ?thesis by (simp del: lifecycle_call.simps)
qed

theorem packet_runs_only_as_approved_witness:
  "\<exists>a p. rc_packet running = Some p \<and> cp_approval p = Some a \<and> ap_revision a = cp_revision p"
proof -
  have run: "fold (lifecycle_next sample_rec_codec) [OpBeginChecked ''t'' ''t'' sample_request ''u''] packed = running"
    by (simp add: lifecycle_next_def packed_begins del: lifecycle_call.simps)
  have "rc_status running = Executing" "\<not> redacted running"
    and p: "rc_packet running = Some (sample_packet ''x''\<lparr>cp_approval := Some sample_approval\<rparr>)"
    by (simp_all add: running_def reserve_def redacted_def)
  then show ?thesis
    using packet_runs_only_as_approved [of sample_rec_codec packed "[OpBeginChecked ''t'' ''t'' sample_request ''u'']"
        "sample_packet ''x''\<lparr>cp_approval := Some sample_approval\<rparr>"] packed_valid
    unfolding run by auto
qed

theorem lifecycle_keeps_graph_valid_witness: "validate_graph_records sample_rec_codec [running] = Inr ()"
proof -
  have "graph_ok sample_rec_codec [packed]"
    by (simp add: graph_ok_def record_ok_def member_keys_def packed_def)
  then show ?thesis
    using lifecycle_keeps_graph_valid [of sample_rec_codec "[packed]" packed, OF _ _ packed_begins]
    by (simp add: validate_graph_ok)
qed

end
