(* ===== verification/Recommendation_Journal.thy ===== *)
theory Recommendation_Journal
  imports Recommendation Utf8 "HOL-Library.AList"
begin

text \<open>
  The journal of the recommendation store, \<^verbatim>\<open>taskmaster/store.rs\<close>: how a set of record files is replaced
  as one transaction, and how a transaction that was interrupted is finished or undone. A call of the
  file system may fail at any point, which covers an I/O error and a crash; a write that fails may
  leave torn content, a removal may leave part of a directory. What the file system does is an
  environment that answers by the number of the call. SHA-256 and the JSON of records and manifests
  are function arguments. A directory is listed in the order of its names.
\<close>

section \<open>File names\<close>

definition safe_byte :: "byte \<Rightarrow> bool" where
  "safe_byte b \<longleftrightarrow> ascii_alphanumeric b \<or> b = CHR ''-'' \<or> b = CHR ''_''"

definition upper_hex :: "nat \<Rightarrow> byte" where
  "upper_hex k = char_of (if k < 10 then 48 + k else 55 + k)"

definition encoded_byte :: "byte \<Rightarrow> string" where
  "encoded_byte b = (if safe_byte b then [b] else [CHR ''%'', upper_hex (byte_val b div 16), upper_hex (byte_val b mod 16)])"

definition filename_component :: "string \<Rightarrow> string" where
  "filename_component i = concat (map encoded_byte i)"

definition recommendation_filename :: "string \<Rightarrow> string" where
  "recommendation_filename i = filename_component i @ ''.json''"

definition transaction_staged_path :: "string \<Rightarrow> string" where
  "transaction_staged_path i = ''staged/'' @ filename_component i @ ''.json''"

definition transaction_backup_path :: "string \<Rightarrow> string" where
  "transaction_backup_path i = ''backups/'' @ filename_component i @ ''.json''"

definition transaction_restore_path :: "string \<Rightarrow> string" where
  "transaction_restore_path i = ''restore-'' @ filename_component i @ ''.json''"

definition valid_id :: "string \<Rightarrow> bool" where
  "valid_id i \<longleftrightarrow> (i \<noteq> [] \<and> list_all safe_byte i) \<or>
     is_some_and (\<lambda>d. length d = 64 \<and> list_all ascii_hexdigit d) (strip_prefix ''rollup:'' i)"

section \<open>Data\<close>

definition ROLLUP_TRANSACTION_VERSION :: u32 where "ROLLUP_TRANSACTION_VERSION = 2"
definition LEGACY_ROLLUP_TRANSACTION_VERSION :: u32 where "LEGACY_ROLLUP_TRANSACTION_VERSION = 1"
definition ROLLUP_TRANSACTION_MANIFEST :: string where "ROLLUP_TRANSACTION_MANIFEST = ''manifest.json''"

record tx_entry =
  en_id :: string
  en_target :: string
  en_staged :: "string option"
  en_backup :: "string option"
  en_old_sha256 :: "string option"
  en_old_exists :: bool
  en_new_sha256 :: "string option"
  en_new_exists :: bool

record tx_manifest =
  mf_version :: u32
  mf_committed :: bool
  mf_entries :: "tx_entry list"

text \<open>A replacement of one file: its record id, the old content and the new one, absent for no file.\<close>

record replacement =
  rp_id :: string
  rp_old :: "string option"
  rp_new :: "string option"

record store_codec =
  rec_part :: rec_codec
  rec_json :: "recommendation \<Rightarrow> string"
  rec_parse :: "string \<Rightarrow> recommendation option"
  manifest_json :: "tx_manifest \<Rightarrow> string"
  manifest_parse :: "string \<Rightarrow> tx_manifest option"
  hash_bytes :: "string \<Rightarrow> string"

text \<open>
  The directory: the files of the records, and the transaction directory when it exists, with its
  transactions. Each has its manifest and its other files.
\<close>

record tx_dir =
  txd_manifest :: "string option"
  txd_files :: "(string \<times> string) list"

record rec_disk =
  rd_files :: "(string \<times> string) list"
  rd_txs :: "(string \<times> tx_dir) list option"

record rec_world =
  w_disk :: rec_disk
  w_step :: nat

record rec_env =
  fault :: "nat \<Rightarrow> bool"
  stat_fault :: "nat \<Rightarrow> bool"
  torn :: "nat \<Rightarrow> string option"
  kept :: "nat \<Rightarrow> string \<Rightarrow> bool"
  fresh :: "nat \<Rightarrow> string"

section \<open>Calls of the file system\<close>

type_synonym 'a io = "rec_world \<Rightarrow> (store_error + 'a) \<times> rec_world"

definition io_return :: "'a \<Rightarrow> 'a io" where
  "io_return x w = (Inr x, w)"

definition io_fail :: "store_error \<Rightarrow> 'a io" where
  "io_fail e w = (Inl e, w)"

definition io_lift :: "store_error + 'a \<Rightarrow> 'a io" where
  "io_lift r w = (r, w)"

definition io_bind :: "'a io \<Rightarrow> ('a \<Rightarrow> 'b io) \<Rightarrow> 'b io" where
  "io_bind m f w = (case m w of (Inl e, w1) \<Rightarrow> (Inl e, w1) | (Inr x, w1) \<Rightarrow> f x w1)"

definition io_then :: "'a io \<Rightarrow> 'b io \<Rightarrow> 'b io" where
  "io_then m k = io_bind m (\<lambda>_. k)"

text \<open>The outcome of an action as a value, for the places that look at it.\<close>

definition io_attempt :: "'a io \<Rightarrow> (store_error + 'a) io" where
  "io_attempt m w = (let (r, w1) = m w in (Inr r, w1))"

fun io_each :: "('a \<Rightarrow> unit io) \<Rightarrow> 'a list \<Rightarrow> unit io" where
  "io_each f [] = io_return ()"
| "io_each f (x # xs) = io_then (f x) (io_each f xs)"

fun io_map :: "('a \<Rightarrow> 'b io) \<Rightarrow> 'a list \<Rightarrow> 'b list io" where
  "io_map f [] = io_return []"
| "io_map f (x # xs) = io_bind (f x) (\<lambda>y. io_bind (io_map f xs) (\<lambda>ys. io_return (y # ys)))"

definition fs_call ::
  "rec_env \<Rightarrow> (nat \<Rightarrow> rec_disk \<Rightarrow> rec_disk) \<Rightarrow> (rec_disk \<Rightarrow> (store_error + 'a) \<times> rec_disk) \<Rightarrow> 'a io" where
  "fs_call e broken act w =
     (let n = w_step w in
      if fault e n then (Inl IoFailed, \<lparr>w_disk = broken n (w_disk w), w_step = Suc n\<rparr>)
      else (let (r, d) = act (w_disk w) in (r, \<lparr>w_disk = d, w_step = Suc n\<rparr>)))"

definition unharmed :: "nat \<Rightarrow> rec_disk \<Rightarrow> rec_disk" where
  "unharmed n d = d"

text \<open>\<open>Path::exists\<close> answers false when it cannot tell.\<close>

definition fs_exists :: "rec_env \<Rightarrow> (rec_disk \<Rightarrow> bool) \<Rightarrow> bool io" where
  "fs_exists e p w = (Inr (p (w_disk w) \<and> \<not> stat_fault e (w_step w)), w\<lparr>w_step := Suc (w_step w)\<rparr>)"

abbreviation files :: "rec_disk \<Rightarrow> string \<rightharpoonup> string" where
  "files d \<equiv> map_of (rd_files d)"

definition txs :: "rec_disk \<Rightarrow> (string \<times> tx_dir) list" where
  "txs d = (case rd_txs d of None \<Rightarrow> [] | Some l \<Rightarrow> l)"

definition tx_of :: "rec_disk \<Rightarrow> string \<Rightarrow> tx_dir" where
  "tx_of d t = (case map_of (txs d) t of None \<Rightarrow> \<lparr>txd_manifest = None, txd_files = []\<rparr> | Some x \<Rightarrow> x)"

definition on_tx :: "string \<Rightarrow> (tx_dir \<Rightarrow> tx_dir) \<Rightarrow> rec_disk \<Rightarrow> rec_disk" where
  "on_tx t g d = d\<lparr>rd_txs := map_option (map (\<lambda>(n, x). if n = t then (n, g x) else (n, x))) (rd_txs d)\<rparr>"

definition add_tx :: "string \<Rightarrow> rec_disk \<Rightarrow> rec_disk" where
  "add_tx t d = (if t \<in> fst ` set (txs d) then d else d\<lparr>rd_txs := Some (txs d @ [(t, \<lparr>txd_manifest = None, txd_files = []\<rparr>)])\<rparr>)"

definition put_file :: "string \<Rightarrow> string \<Rightarrow> tx_dir \<Rightarrow> tx_dir" where
  "put_file f b x = x\<lparr>txd_files := AList.update f b (txd_files x)\<rparr>"

definition drop_file :: "string \<Rightarrow> tx_dir \<Rightarrow> tx_dir" where
  "drop_file f x = x\<lparr>txd_files := AList.delete f (txd_files x)\<rparr>"

definition sync_directory :: "rec_env \<Rightarrow> unit io" where
  "sync_directory e = fs_call e unharmed (\<lambda>d. (Inr (), d))"

definition fs_read :: "rec_env \<Rightarrow> string \<Rightarrow> string option io" where
  "fs_read e f = fs_call e unharmed (\<lambda>d. (Inr (files d f), d))"

definition fs_remove :: "rec_env \<Rightarrow> string \<Rightarrow> unit io" where
  "fs_remove e f = fs_call e unharmed (\<lambda>d. (Inr (), d\<lparr>rd_files := AList.delete f (rd_files d)\<rparr>))"

definition fs_write :: "rec_env \<Rightarrow> string \<Rightarrow> string \<Rightarrow> unit io" where
  "fs_write e f b =
     fs_call e (\<lambda>n d. case torn e n of None \<Rightarrow> d | Some s \<Rightarrow> d\<lparr>rd_files := AList.update f s (rd_files d)\<rparr>)
       (\<lambda>d. (Inr (), d\<lparr>rd_files := AList.update f b (rd_files d)\<rparr>))"

definition fs_rename :: "rec_env \<Rightarrow> string \<Rightarrow> string \<Rightarrow> unit io" where
  "fs_rename e f g =
     fs_call e unharmed (\<lambda>d. case files d f of
         None \<Rightarrow> (Inl IoFailed, d)
       | Some b \<Rightarrow> (Inr (), d\<lparr>rd_files := AList.update g b (AList.delete f (rd_files d))\<rparr>))"

definition tx_read :: "rec_env \<Rightarrow> string \<Rightarrow> string \<Rightarrow> string option io" where
  "tx_read e t f = fs_call e unharmed (\<lambda>d. (Inr (map_of (txd_files (tx_of d t)) f), d))"

definition tx_write :: "rec_env \<Rightarrow> string \<Rightarrow> string \<Rightarrow> string \<Rightarrow> unit io" where
  "tx_write e t f b =
     fs_call e (\<lambda>n d. case torn e n of None \<Rightarrow> d | Some s \<Rightarrow> on_tx t (put_file f s) d) (\<lambda>d. (Inr (), on_tx t (put_file f b) d))"

text \<open>\<open>atomic_replace\<close> from the transaction directory onto a record file.\<close>

definition tx_publish :: "rec_env \<Rightarrow> string \<Rightarrow> string \<Rightarrow> string \<Rightarrow> unit io" where
  "tx_publish e t f target =
     fs_call e unharmed (\<lambda>d. case map_of (txd_files (tx_of d t)) f of
         None \<Rightarrow> (Inl IoFailed, d)
       | Some b \<Rightarrow> (Inr (), (on_tx t (drop_file f) d)\<lparr>rd_files := AList.update target b (rd_files d)\<rparr>))"

definition tx_rename :: "rec_env \<Rightarrow> string \<Rightarrow> string \<Rightarrow> string \<Rightarrow> unit io" where
  "tx_rename e t f g =
     fs_call e unharmed (\<lambda>d. case map_of (txd_files (tx_of d t)) f of
         None \<Rightarrow> (Inl IoFailed, d)
       | Some b \<Rightarrow> (Inr (), on_tx t (\<lambda>x. put_file g b (drop_file f x)) d))"

definition create_transaction :: "rec_env \<Rightarrow> string \<Rightarrow> unit io" where
  "create_transaction e t =
     fs_call e (\<lambda>n d. if kept e n t then add_tx t d else if kept e n [] then d\<lparr>rd_txs := Some (txs d)\<rparr> else d)
       (\<lambda>d. (Inr (), add_tx t d))"

definition manifest_temporary :: string where
  "manifest_temporary = ROLLUP_TRANSACTION_MANIFEST @ ''.tmp''"

definition install_manifest :: "rec_env \<Rightarrow> string \<Rightarrow> unit io" where
  "install_manifest e t =
     fs_call e unharmed (\<lambda>d. case map_of (txd_files (tx_of d t)) manifest_temporary of
         None \<Rightarrow> (Inl IoFailed, d)
       | Some b \<Rightarrow> (Inr (), on_tx t (\<lambda>x. (drop_file manifest_temporary x)\<lparr>txd_manifest := Some b\<rparr>) d))"

definition write_manifest_atomic :: "store_codec \<Rightarrow> rec_env \<Rightarrow> string \<Rightarrow> tx_manifest \<Rightarrow> unit io" where
  "write_manifest_atomic c e t m =
     io_then (tx_write e t manifest_temporary (manifest_json c m))
    (io_then (install_manifest e t)
    (io_then (sync_directory e)
             (sync_directory e)))"

definition remove_manifest :: "rec_env \<Rightarrow> string \<Rightarrow> unit io" where
  "remove_manifest e t =
     fs_call e unharmed (\<lambda>d. if txd_manifest (tx_of d t) = None then (Inl IoFailed, d)
                             else (Inr (), on_tx t (\<lambda>x. x\<lparr>txd_manifest := None\<rparr>) d))"

definition remove_transaction :: "rec_env \<Rightarrow> string \<Rightarrow> unit io" where
  "remove_transaction e t =
     fs_call e
       (\<lambda>n. on_tx t (\<lambda>x. \<lparr>txd_manifest = (if kept e n ROLLUP_TRANSACTION_MANIFEST then txd_manifest x else None),
                          txd_files = filter (\<lambda>(f, b). kept e n f) (txd_files x)\<rparr>))
       (\<lambda>d. (Inr (), d\<lparr>rd_txs := map_option (filter (\<lambda>(n, x). n \<noteq> t)) (rd_txs d)\<rparr>))"

section \<open>Reading the records\<close>

definition json_name :: "string \<Rightarrow> bool" where
  "json_name f \<longleftrightarrow> ends_with f ''.json'' \<and> length f > 5"

definition record_names :: "rec_disk \<Rightarrow> string list" where
  "record_names d = filter json_name (sorted_list_of_set (fst ` set (rd_files d)))"

definition read_record :: "store_codec \<Rightarrow> string option \<Rightarrow> store_error + recommendation" where
  "read_record c b =
     (case b of
        None \<Rightarrow> Inl IoFailed
      | Some bytes \<Rightarrow>
          (if from_utf8 bytes \<noteq> Utf8_Ok then Inl IoFailed
           else (case rec_parse c bytes of
                   None \<Rightarrow> Inl JsonInvalid
                 | Some r \<Rightarrow> and_then (validate_recommendation (rec_part c) r) (\<lambda>_. Inr r))))"

definition read_path :: "store_codec \<Rightarrow> rec_env \<Rightarrow> string \<Rightarrow> recommendation io" where
  "read_path c e f = io_bind (fs_read e f) (\<lambda>b. io_lift (read_record c b))"

definition read_all :: "store_codec \<Rightarrow> rec_env \<Rightarrow> recommendation list io" where
  "read_all c e = io_bind (fs_call e unharmed (\<lambda>d. (Inr (record_names d), d))) (io_map (read_path c e))"

definition graph_checked :: "store_codec \<Rightarrow> recommendation list \<Rightarrow> store_error + unit" where
  "graph_checked c rs = (case validate_graph_records (rec_part c) rs of Inl g \<Rightarrow> Inl (GraphInvariant g) | Inr _ \<Rightarrow> Inr ())"

definition validate_graph :: "store_codec \<Rightarrow> rec_env \<Rightarrow> unit io" where
  "validate_graph c e = io_bind (read_all c e) (\<lambda>rs. io_lift (graph_checked c rs))"

section \<open>Publishing and undoing\<close>

definition publish_entry :: "store_codec \<Rightarrow> rec_env \<Rightarrow> string \<Rightarrow> tx_entry \<Rightarrow> unit io" where
  "publish_entry c e t en =
     (if \<not> en_new_exists en then fs_remove e (en_target en)
      else
        io_bind (io_attempt (fs_read e (en_target en))) (\<lambda>r.
          if (case r of Inr (Some bytes) \<Rightarrow> Some (hash_bytes c bytes) = en_new_sha256 en | _ \<Rightarrow> False) then io_return ()
          else (case en_staged en of
                  None \<Rightarrow> io_fail Recovery
                | Some staged \<Rightarrow>
                    io_bind (tx_read e t staged) (\<lambda>b.
                      case b of
                        None \<Rightarrow> io_fail IoFailed
                      | Some bytes \<Rightarrow>
                          (if Some (hash_bytes c bytes) \<noteq> en_new_sha256 en then io_fail Recovery
                           else tx_publish e t staged (en_target en))))))"

definition rollback_entry :: "store_codec \<Rightarrow> rec_env \<Rightarrow> string \<Rightarrow> tx_entry \<Rightarrow> unit io" where
  "rollback_entry c e t en =
     (if en_old_exists en
      then (case en_backup en of
              None \<Rightarrow> io_fail Recovery
            | Some backup \<Rightarrow>
                io_bind (tx_read e t backup) (\<lambda>b.
                  case b of
                    None \<Rightarrow> io_fail IoFailed
                  | Some bytes \<Rightarrow>
                      (if Some (hash_bytes c bytes) \<noteq> en_old_sha256 en then io_fail Recovery
                       else io_then (tx_write e t (transaction_restore_path (en_id en)) bytes)
                                    (tx_publish e t (transaction_restore_path (en_id en)) (en_target en)))))
      else fs_remove e (en_target en))"

definition rollback_transaction :: "store_codec \<Rightarrow> rec_env \<Rightarrow> string \<Rightarrow> tx_entry list \<Rightarrow> unit io" where
  "rollback_transaction c e t ens = io_then (io_each (rollback_entry c e t) ens) (sync_directory e)"

definition finish_transaction_cleanup :: "rec_env \<Rightarrow> string \<Rightarrow> unit io" where
  "finish_transaction_cleanup e t =
     io_then (remove_manifest e t)
    (io_then (sync_directory e)
    (io_then (remove_transaction e t)
             (sync_directory e)))"

section \<open>Committing\<close>

fun verify_hashes :: "store_codec \<Rightarrow> rec_env \<Rightarrow> (string \<times> string option) list \<Rightarrow> unit io" where
  "verify_hashes c e [] = io_return ()"
| "verify_hashes c e ((i, expected) # xs) =
     (if \<not> valid_id i then io_fail (StaleExpectedHash i)
      else io_bind (io_attempt (fs_read e (recommendation_filename i))) (\<lambda>r.
        let actual = (case r of Inr b \<Rightarrow> b | Inl _ \<Rightarrow> None) in
        if map_option (hash_bytes c) actual = expected then verify_hashes c e xs else io_fail (StaleExpectedHash i)))"

definition verify_expected ::
  "store_codec \<Rightarrow> rec_env \<Rightarrow> (string \<times> string option) list \<Rightarrow> recommendation list \<Rightarrow> unit io" where
  "verify_expected c e expected current =
     io_then (verify_hashes c e expected)
       (if list_ex (\<lambda>r. \<not> valid_id (rc_id r)) current then io_fail (GraphInvariant UnsafeId) else io_return ())"

definition check_unchanged :: "rec_env \<Rightarrow> replacement \<Rightarrow> unit io" where
  "check_unchanged e rp =
     io_bind (io_attempt (fs_read e (recommendation_filename (rp_id rp)))) (\<lambda>r.
       let actual = (case r of Inr b \<Rightarrow> b | Inl _ \<Rightarrow> None) in
       if actual \<noteq> rp_old rp then io_fail (StaleExpectedHash (rp_id rp)) else io_return ())"

definition stage_replacement :: "rec_env \<Rightarrow> string \<Rightarrow> replacement \<Rightarrow> unit io" where
  "stage_replacement e t rp =
     io_then (case rp_old rp of None \<Rightarrow> io_return () | Some old \<Rightarrow> tx_write e t (transaction_backup_path (rp_id rp)) old)
             (case rp_new rp of None \<Rightarrow> io_return () | Some new \<Rightarrow> tx_write e t (transaction_staged_path (rp_id rp)) new)"

definition entry_of :: "store_codec \<Rightarrow> replacement \<Rightarrow> tx_entry" where
  "entry_of c rp =
     \<lparr>en_id = rp_id rp, en_target = recommendation_filename (rp_id rp),
      en_staged = map_option (\<lambda>_. transaction_staged_path (rp_id rp)) (rp_new rp),
      en_backup = map_option (\<lambda>_. transaction_backup_path (rp_id rp)) (rp_old rp),
      en_old_sha256 = map_option (hash_bytes c) (rp_old rp), en_old_exists = (rp_old rp \<noteq> None),
      en_new_sha256 = map_option (hash_bytes c) (rp_new rp), en_new_exists = (rp_new rp \<noteq> None)\<rparr>"

definition manifest_of :: "store_codec \<Rightarrow> bool \<Rightarrow> replacement list \<Rightarrow> tx_manifest" where
  "manifest_of c committed rps =
     \<lparr>mf_version = ROLLUP_TRANSACTION_VERSION, mf_committed = committed, mf_entries = map (entry_of c) rps\<rparr>"

text \<open>When the published graph turns out invalid, the old one is restored and the error reported.\<close>

definition undo_invalid :: "store_codec \<Rightarrow> rec_env \<Rightarrow> string \<Rightarrow> tx_entry list \<Rightarrow> store_error \<Rightarrow> unit io" where
  "undo_invalid c e t ens err =
     io_bind (io_attempt (rollback_transaction c e t ens)) (\<lambda>r.
       case r of
         Inl _ \<Rightarrow> io_fail Recovery
       | Inr _ \<Rightarrow> io_bind (io_attempt (validate_graph c e)) (\<lambda>v. case v of Inl _ \<Rightarrow> io_fail Recovery | Inr _ \<Rightarrow> io_fail err))"

definition run_transaction :: "store_codec \<Rightarrow> rec_env \<Rightarrow> string \<Rightarrow> replacement list \<Rightarrow> unit io" where
  "run_transaction c e t rps =
     io_then (create_transaction e t)
    (io_then (create_transaction e t)
    (io_then (io_each (stage_replacement e t) rps)
    (io_then (write_manifest_atomic c e t (manifest_of c False rps))
    (io_then (sync_directory e)
    (io_then (write_manifest_atomic c e t (manifest_of c True rps))
    (io_then (sync_directory e)
    (io_then (sync_directory e)
    (io_then (io_each (publish_entry c e t) (map (entry_of c) rps))
    (io_then (sync_directory e)
    (io_bind (io_attempt (validate_graph c e)) (\<lambda>v.
       case v of
         Inl err \<Rightarrow> undo_invalid c e t (map (entry_of c) rps) err
       | Inr _ \<Rightarrow> finish_transaction_cleanup e t)))))))))))"

definition commit_replacements ::
  "store_codec \<Rightarrow> rec_env \<Rightarrow> (string \<times> string option) list \<Rightarrow> replacement list \<Rightarrow> unit io" where
  "commit_replacements c e expected rps =
     io_bind (read_all c e) (\<lambda>current.
       io_then (verify_expected c e expected current)
      (io_then (io_each (check_unchanged e) rps)
      (if rps = [] then io_return ()
       else (\<lambda>w. run_transaction c e (fresh e (w_step w)) rps w))))"

section \<open>Recovery\<close>

definition escapes :: "string \<Rightarrow> bool" where
  "escapes p \<longleftrightarrow> starts_with p ''/'' \<or> ''..'' \<in> set (split_on (CHR ''/'') p)"

fun validate_manifest_entries :: "tx_entry list \<Rightarrow> string set \<Rightarrow> store_error + unit" where
  "validate_manifest_entries [] seen = Inr ()"
| "validate_manifest_entries (en # ens) seen =
     (if \<not> valid_id (en_id en) \<or> en_target en \<noteq> recommendation_filename (en_id en) \<or> en_id en \<in> seen \<or>
         en_old_exists en \<noteq> (en_old_sha256 en \<noteq> None) \<or> en_old_exists en \<noteq> (en_backup en \<noteq> None) \<or>
         en_new_exists en \<noteq> (en_new_sha256 en \<noteq> None) \<or> en_new_exists en \<noteq> (en_staged en \<noteq> None)
      then Inl Recovery
      else if en_staged en \<noteq> (if en_new_exists en then Some (transaction_staged_path (en_id en)) else None) \<or>
              en_backup en \<noteq> (if en_old_exists en then Some (transaction_backup_path (en_id en)) else None)
      then Inl Recovery
      else if is_some_and escapes (en_staged en) \<or> is_some_and escapes (en_backup en) then Inl Recovery
      else validate_manifest_entries ens (insert (en_id en) seen))"

definition migrate_transaction_path :: "bool \<Rightarrow> bool io \<Rightarrow> bool io \<Rightarrow> unit io \<Rightarrow> unit io" where
  "migrate_transaction_path same source_exists destination_exists rename =
     (if same then io_return ()
      else io_bind source_exists (\<lambda>s.
        if \<not> s then io_return ()
        else io_bind destination_exists (\<lambda>d. if d then io_fail Recovery else rename)))"

definition migrate_optional_transaction_path ::
  "rec_env \<Rightarrow> string \<Rightarrow> string option \<Rightarrow> string \<Rightarrow> string \<Rightarrow> (string option \<times> bool) io" where
  "migrate_optional_transaction_path e t p legacy current =
     (if p \<noteq> Some legacy then io_return (p, False)
      else io_then
        (migrate_transaction_path (legacy = current)
           (fs_exists e (\<lambda>d. map_of (txd_files (tx_of d t)) legacy \<noteq> None))
           (fs_exists e (\<lambda>d. map_of (txd_files (tx_of d t)) current \<noteq> None))
           (tx_rename e t legacy current))
        (io_return (Some current, True)))"

definition migrate_entry :: "rec_env \<Rightarrow> string \<Rightarrow> tx_entry \<Rightarrow> (tx_entry \<times> bool) io" where
  "migrate_entry e t en =
     (if \<not> valid_id (en_id en) then io_return (en, False)
      else
        (let legacy = en_id en @ ''.json''; current = recommendation_filename (en_id en) in
         io_bind
           (if en_target en = legacy
            then io_then
              (migrate_transaction_path (legacy = current) (fs_exists e (\<lambda>d. files d legacy \<noteq> None))
                 (fs_exists e (\<lambda>d. files d current \<noteq> None)) (fs_rename e legacy current))
              (io_return (en\<lparr>en_target := current\<rparr>, True))
            else io_return (en, False)) (\<lambda>(en1, m1).
         io_bind (migrate_optional_transaction_path e t (en_staged en1) (''staged/'' @ legacy) (transaction_staged_path (en_id en))) (\<lambda>(s, m2).
         io_bind (migrate_optional_transaction_path e t (en_backup en1) (''backups/'' @ legacy) (transaction_backup_path (en_id en))) (\<lambda>(b, m3).
         io_return (en1\<lparr>en_staged := s, en_backup := b\<rparr>, m1 \<or> m2 \<or> m3))))))"

definition migrate_legacy_transaction_paths :: "rec_env \<Rightarrow> string \<Rightarrow> tx_entry list \<Rightarrow> tx_entry list io" where
  "migrate_legacy_transaction_paths e t ens =
     io_bind (io_map (migrate_entry e t) ens) (\<lambda>xs.
       io_then (if list_ex snd xs then io_then (sync_directory e) (sync_directory e) else io_return ())
               (io_return (map fst xs)))"

text \<open>A manifest that is not UTF-8 is one that does not parse: both are the same recovery error.\<close>

definition read_manifest :: "store_codec \<Rightarrow> rec_env \<Rightarrow> string \<Rightarrow> tx_manifest io" where
  "read_manifest c e t =
     io_bind (io_attempt (fs_call e unharmed (\<lambda>d. (Inr (txd_manifest (tx_of d t)), d)))) (\<lambda>r.
       case r of
         Inr (Some bytes) \<Rightarrow> (case manifest_parse c bytes of None \<Rightarrow> io_fail Recovery | Some m \<Rightarrow> io_return m)
       | _ \<Rightarrow> io_fail Recovery)"

text \<open>Whether a committed transaction could be published whole, with a valid graph as the result.\<close>

definition try_publish :: "store_codec \<Rightarrow> rec_env \<Rightarrow> string \<Rightarrow> tx_entry list \<Rightarrow> bool io" where
  "try_publish c e t ens =
     io_bind (io_attempt (io_each (publish_entry c e t) ens)) (\<lambda>r.
       case r of
         Inl _ \<Rightarrow> io_return False
       | Inr _ \<Rightarrow> io_then (sync_directory e)
           (io_bind (io_attempt (validate_graph c e)) (\<lambda>v. io_return (case v of Inl _ \<Rightarrow> False | Inr _ \<Rightarrow> True))))"

definition or_recovery :: "unit io \<Rightarrow> unit io" where
  "or_recovery m = io_bind (io_attempt m) (\<lambda>r. case r of Inl _ \<Rightarrow> io_fail Recovery | Inr _ \<Rightarrow> io_return ())"

definition recover_transaction :: "store_codec \<Rightarrow> rec_env \<Rightarrow> string \<Rightarrow> unit io" where
  "recover_transaction c e t =
     io_bind (read_manifest c e t) (\<lambda>m.
       if mf_version m \<notin> {LEGACY_ROLLUP_TRANSACTION_VERSION, ROLLUP_TRANSACTION_VERSION} then io_fail Recovery
       else
         io_bind (if mf_version m = LEGACY_ROLLUP_TRANSACTION_VERSION
                  then migrate_legacy_transaction_paths e t (mf_entries m) else io_return (mf_entries m)) (\<lambda>ens.
         io_then (io_lift (validate_manifest_entries ens {}))
        (io_bind (if mf_committed m then try_publish c e t ens else io_return False) (\<lambda>published.
           if published then finish_transaction_cleanup e t
           else io_then (rollback_transaction c e t ens)
               (io_then (or_recovery (validate_graph c e))
                        (finish_transaction_cleanup e t))))))"

definition recover_directory :: "store_codec \<Rightarrow> rec_env \<Rightarrow> string \<Rightarrow> unit io" where
  "recover_directory c e t =
     io_bind (fs_exists e (\<lambda>d. txd_manifest (tx_of d t) \<noteq> None)) (\<lambda>m.
       if \<not> m then remove_transaction e t else recover_transaction c e t)"

text \<open>An entry is taken for a directory when the file system says so; one it cannot tell about is passed over.\<close>

definition recover_one :: "store_codec \<Rightarrow> rec_env \<Rightarrow> string \<Rightarrow> unit io" where
  "recover_one c e t =
     io_bind (fs_exists e (\<lambda>_. True)) (\<lambda>is_dir. if \<not> is_dir then io_return () else recover_directory c e t)"

definition recover_transactions :: "store_codec \<Rightarrow> rec_env \<Rightarrow> unit io" where
  "recover_transactions c e =
     io_bind (fs_exists e (\<lambda>d. rd_txs d \<noteq> None)) (\<lambda>root.
       if \<not> root then io_return ()
       else
         io_bind (fs_call e unharmed (\<lambda>d. (Inr (map fst (txs d)), d))) (\<lambda>ts.
         io_then (io_each (recover_one c e) ts)
        (io_bind (fs_call e unharmed (\<lambda>d. (Inr (txs d = []), d))) (\<lambda>empty.
           if empty
           then io_then (fs_call e unharmed (\<lambda>d. (Inr (), d\<lparr>rd_txs := None\<rparr>))) (sync_directory e)
           else io_return ()))))"

end
