(* ===== verification/Recommendation_Atomic.thy ===== *)
theory Recommendation_Atomic
  imports Recommendation_Journal
begin

text \<open>
  The journal is atomic. Triples over the calls of the file system, with one condition for the
  normal outcome and one for the failure, carry the states a transaction goes through: staged, staged
  with an uncommitted manifest, committed with every file old or new, and finished. Whatever fails
  in between and however often recovery is interrupted, a recovery that is not disturbed ends with
  all of the old files or all of the new ones.
\<close>

section \<open>File names\<close>

lemma byte_less: "byte_val ch < 256"
  using of_char_of [of "byte_val ch"] by (metis char_of_char mod_less_divisor zero_less_numeral)

lemma percent_not_safe: "\<not> safe_byte (CHR ''%'')"
  by (simp add: safe_byte_def ascii_alphanumeric_def)

lemma upper_hex_inject: "j < 16 \<Longrightarrow> k < 16 \<Longrightarrow> upper_hex j = upper_hex k \<longleftrightarrow> j = k"
proof
  have code: "(of_char (upper_hex m) :: nat) = (if m < 10 then 48 + m else 55 + m)" if "m < 16" for m
    using that by (simp add: upper_hex_def)
  assume "j < 16" "k < 16" "upper_hex j = upper_hex k"
  then have "(if j < 10 then 48 + j else 55 + j) = (if k < 10 then 48 + k else 55 + k)"
    using code [of j] code [of k] by simp
  then show "j = k" by (simp split: if_split_asm)
qed simp

lemma encoded_byte_inject: "encoded_byte a @ x = encoded_byte b @ y \<longleftrightarrow> a = b \<and> x = y"
proof -
  have byte: "byte_val a = byte_val b" if "byte_val a div 16 = byte_val b div 16" "byte_val a mod 16 = byte_val b mod 16"
    using that by (metis div_mult_mod_eq)
  have "byte_val ch < 256" for ch :: char by (rule byte_less)
  then have "byte_val ch div 16 < 16" for ch :: char by (simp add: less_mult_imp_div_less)
  then show ?thesis
    using percent_not_safe byte by (auto simp: encoded_byte_def upper_hex_inject)
qed

lemma filename_component_inject [simp]: "filename_component a = filename_component b \<longleftrightarrow> a = b"
proof (induction a arbitrary: b)
  case Nil
  then show ?case by (cases b) (auto simp: filename_component_def encoded_byte_def)
next
  case (Cons x a)
  show ?case
  proof (cases b)
    case Nil
    then show ?thesis by (simp add: filename_component_def encoded_byte_def)
  next
    case (Cons y b1)
    then show ?thesis using Cons.IH [of b1] encoded_byte_inject [of x "filename_component a" y "filename_component b1"]
      by (simp add: filename_component_def)
  qed
qed

lemma path_inject [simp]:
  "recommendation_filename a = recommendation_filename b \<longleftrightarrow> a = b"
  "transaction_staged_path a = transaction_staged_path b \<longleftrightarrow> a = b"
  "transaction_backup_path a = transaction_backup_path b \<longleftrightarrow> a = b"
  "transaction_restore_path a = transaction_restore_path b \<longleftrightarrow> a = b"
  by (simp_all add: recommendation_filename_def transaction_staged_path_def transaction_backup_path_def transaction_restore_path_def)

lemma path_distinct [simp]:
  "transaction_staged_path a \<noteq> transaction_backup_path b" "transaction_backup_path b \<noteq> transaction_staged_path a"
  "transaction_restore_path a \<noteq> transaction_staged_path b" "transaction_restore_path a \<noteq> transaction_backup_path b"
  "transaction_staged_path b \<noteq> transaction_restore_path a" "transaction_backup_path b \<noteq> transaction_restore_path a"
  "manifest_temporary \<noteq> transaction_staged_path b" "manifest_temporary \<noteq> transaction_backup_path b"
  "transaction_staged_path b \<noteq> manifest_temporary" "transaction_backup_path b \<noteq> manifest_temporary"
  by (simp_all add: transaction_staged_path_def transaction_backup_path_def transaction_restore_path_def
      manifest_temporary_def ROLLUP_TRANSACTION_MANIFEST_def)

lemma component_bytes: "ch \<in> set (filename_component i) \<Longrightarrow> ch \<noteq> CHR ''/'' \<and> ch \<noteq> CHR ''.''"
proof -
  have hex: "upper_hex k \<noteq> CHR ''/'' \<and> upper_hex k \<noteq> CHR ''.''" if "k < 16" for k
  proof -
    have "(of_char (upper_hex k) :: nat) = (if k < 10 then 48 + k else 55 + k)" using that by (simp add: upper_hex_def)
    then have "(of_char (upper_hex k) :: nat) \<noteq> of_char (CHR ''/'')" "(of_char (upper_hex k) :: nat) \<noteq> of_char (CHR ''.'')"
      by simp_all
    then show ?thesis by metis
  qed
  have small: "byte_val x div 16 < 16" for x :: char
    using byte_less [of x] by (simp add: less_mult_imp_div_less)
  have one: "ch \<noteq> CHR ''/'' \<and> ch \<noteq> CHR ''.''" if "ch \<in> set (encoded_byte b)" for b
    using that hex [OF small [of b]] hex [of "byte_val b mod 16"]
    by (auto simp: encoded_byte_def safe_byte_def ascii_alphanumeric_def split: if_split_asm)
  assume "ch \<in> set (filename_component i)"
  then show ?thesis using one by (auto simp: filename_component_def)
qed

lemma journal_paths_inside: "\<not> escapes (transaction_staged_path i)" "\<not> escapes (transaction_backup_path i)"
proof -
  have "CHR ''/'' \<notin> set (filename_component i @ ''.json'')" using component_bytes [of "CHR ''/''" i] by auto
  then have pieces: "split_on (CHR ''/'') (p @ CHR ''/'' # filename_component i @ ''.json'') = [p, filename_component i @ ''.json'']"
    if "CHR ''/'' \<notin> set p" for p
    using that by (simp add: split_on_piece_more split_on_piece)
  have "filename_component i @ ''.json'' \<noteq> ''..''" by (cases "filename_component i") auto
  then show "\<not> escapes (transaction_staged_path i)" "\<not> escapes (transaction_backup_path i)"
    using pieces [of "''staged''"] pieces [of "''backups''"]
    by (simp_all add: escapes_def transaction_staged_path_def transaction_backup_path_def)
qed



section \<open>Triples\<close>

definition triple :: "(rec_disk \<Rightarrow> bool) \<Rightarrow> 'a io \<Rightarrow> ('a \<Rightarrow> rec_disk \<Rightarrow> bool) \<Rightarrow> (rec_disk \<Rightarrow> bool) \<Rightarrow> bool" where
  "triple P m Q E \<longleftrightarrow>
     (\<forall>w. P (w_disk w) \<longrightarrow> (case m w of (Inl err, w1) \<Rightarrow> E (w_disk w1) | (Inr x, w1) \<Rightarrow> Q x (w_disk w1)))"

definition calm :: "rec_env \<Rightarrow> bool" where
  "calm e \<longleftrightarrow> (\<forall>n. \<not> fault e n)"

definition steady :: "rec_env \<Rightarrow> bool" where
  "steady e \<longleftrightarrow> (\<forall>n. \<not> stat_fault e n)"

lemma triple_conseq:
  assumes "triple P m Q E" "\<And>d. P' d \<Longrightarrow> P d" "\<And>x d. Q x d \<Longrightarrow> Q' x d" "\<And>d. E d \<Longrightarrow> E' d"
  shows "triple P' m Q' E'"
  using assms unfolding triple_def by (fastforce split: sum.splits)

lemma triple_pre: "triple P m Q E \<Longrightarrow> (\<And>d. P' d \<Longrightarrow> P d) \<Longrightarrow> triple P' m Q E"
  by (rule triple_conseq)

lemma triple_disturbed: "triple P m Q (\<lambda>d. disturbed \<and> P d) \<Longrightarrow> triple P m Q P"
  by (erule triple_conseq) simp_all

lemma triple_return: "(\<And>d. P d \<Longrightarrow> Q x d) \<Longrightarrow> triple P (io_return x) Q E"
  by (simp add: triple_def io_return_def)

lemma triple_fail: "(\<And>d. P d \<Longrightarrow> E d) \<Longrightarrow> triple P (io_fail err) Q E"
  by (simp add: triple_def io_fail_def)

lemma triple_lift:
  "(\<And>d x. P d \<Longrightarrow> r = Inr x \<Longrightarrow> Q x d) \<Longrightarrow> (\<And>d err. P d \<Longrightarrow> r = Inl err \<Longrightarrow> E d) \<Longrightarrow> triple P (io_lift r) Q E"
  by (auto simp: triple_def io_lift_def split: sum.split)

lemma triple_bind: "triple P m Q E \<Longrightarrow> (\<And>x. triple (Q x) (f x) R E) \<Longrightarrow> triple P (io_bind m f) R E"
  unfolding triple_def io_bind_def by (fastforce split: prod.splits sum.splits)

lemma triple_then: "triple P m (\<lambda>_. Q) E \<Longrightarrow> triple Q k R E \<Longrightarrow> triple P (io_then m k) R E"
  unfolding io_then_def by (rule triple_bind)

lemma triple_attempt:
  "triple P m Q E \<Longrightarrow> triple P (io_attempt m) (\<lambda>r d. case r of Inl _ \<Rightarrow> E d | Inr x \<Rightarrow> Q x d) F"
  unfolding triple_def io_attempt_def by (auto simp: case_prod_beta split: sum.splits)

lemma triple_each:
  assumes "\<And>done x rest. xs = done @ x # rest \<Longrightarrow> triple (I done) (f x) (\<lambda>_. I (done @ [x])) E"
  shows "triple (I []) (io_each f xs) (\<lambda>_. I xs) E"
proof -
  have "triple (I done) (io_each f rest) (\<lambda>_. I xs) E" if "xs = done @ rest" for "done" rest
    using that
  proof (induction rest arbitrary: "done")
    case (Cons x rest)
    then have "triple (I (done @ [x])) (io_each f rest) (\<lambda>_. I xs) E" by simp
    then show ?case using assms [OF Cons.prems] by (simp add: triple_then)
  qed (simp add: triple_return)
  from this [of "[]" xs] show ?thesis by simp
qed

lemma triple_fs:
  assumes "\<And>d n. P d \<Longrightarrow> fault e n \<Longrightarrow> E (broken n d)"
    and "\<And>d. P d \<Longrightarrow> (case act d of (Inl err, d1) \<Rightarrow> E d1 | (Inr x, d1) \<Rightarrow> Q x d1)"
  shows "triple P (fs_call e broken act) Q E"
  unfolding triple_def
proof (intro allI impI)
  fix w :: rec_world assume P: "P (w_disk w)"
  obtain r d where act: "act (w_disk w) = (r, d)" by fastforce
  show "case fs_call e broken act w of (Inl err, w1) \<Rightarrow> E (w_disk w1) | (Inr x, w1) \<Rightarrow> Q x (w_disk w1)"
    using assms(1) [OF P] assms(2) [OF P] act by (cases r) (simp_all add: fs_call_def Let_def)
qed

text \<open>A call that only looks.\<close>

lemma triple_look:
  "triple P (fs_call e unharmed (\<lambda>d. (Inr (look d), d))) (\<lambda>x d. P d \<and> x = look d) (\<lambda>d. \<not> calm e \<and> P d)"
  by (rule triple_fs) (auto simp: unharmed_def calm_def)

lemma triple_exists: "steady e \<Longrightarrow> triple P (fs_exists e p) (\<lambda>x d. P d \<and> x = p d) E"
  by (simp add: triple_def fs_exists_def steady_def)

lemma triple_sync: "triple P (sync_directory e) (\<lambda>_. P) (\<lambda>d. \<not> calm e \<and> P d)"
  unfolding sync_directory_def by (rule triple_fs) (auto simp: unharmed_def calm_def)

section \<open>Reading\<close>

fun read_pure :: "store_codec \<Rightarrow> (string \<rightharpoonup> string) \<Rightarrow> string list \<Rightarrow> store_error + recommendation list" where
  "read_pure c F [] = Inr []"
| "read_pure c F (f # fs) = and_then (read_record c (F f)) (\<lambda>r. and_then (read_pure c F fs) (\<lambda>rs. Inr (r # rs)))"

definition names_of :: "(string \<rightharpoonup> string) \<Rightarrow> string list" where
  "names_of F = filter json_name (sorted_list_of_set (dom F))"

text \<open>Whether the files, read without disturbance, hold a valid graph.\<close>

definition graph_of :: "store_codec \<Rightarrow> (string \<rightharpoonup> string) \<Rightarrow> store_error + unit" where
  "graph_of c F = and_then (read_pure c F (names_of F)) (graph_checked c)"

lemma record_names_of: "record_names d = names_of (files d)"
  by (simp add: record_names_def names_of_def dom_map_of_conv_image_fst)

lemma triple_read_path:
  "triple P (read_path c e f) (\<lambda>r d. P d \<and> read_record c (files d f) = Inr r)
     (\<lambda>d. P d \<and> (calm e \<longrightarrow> (\<exists>err. read_record c (files d f) = Inl err)))"
  unfolding read_path_def fs_read_def
  by (rule triple_bind [OF triple_conseq [OF triple_look]], assumption, assumption, simp)
     (rule triple_lift; auto)

lemma triple_read_paths:
  "triple P (io_map (read_path c e) fs) (\<lambda>rs d. P d \<and> read_pure c (files d) fs = Inr rs)
     (\<lambda>d. P d \<and> (calm e \<longrightarrow> (\<exists>err. read_pure c (files d) fs = Inl err)))"
proof (induction fs arbitrary: P)
  case (Cons f fs)
  show ?case
    unfolding io_map.simps
  proof (rule triple_bind)
    show "triple P (read_path c e f) (\<lambda>r d. P d \<and> read_record c (files d f) = Inr r)
        (\<lambda>d. P d \<and> (calm e \<longrightarrow> (\<exists>err. read_pure c (files d) (f # fs) = Inl err)))"
      by (rule triple_conseq [OF triple_read_path]) auto
    show "triple (\<lambda>d. P d \<and> read_record c (files d f) = Inr r)
        (io_bind (io_map (read_path c e) fs) (\<lambda>rs. io_return (r # rs)))
        (\<lambda>rs d. P d \<and> read_pure c (files d) (f # fs) = Inr rs)
        (\<lambda>d. P d \<and> (calm e \<longrightarrow> (\<exists>err. read_pure c (files d) (f # fs) = Inl err)))" for r
    proof (rule triple_bind)
      show "triple (\<lambda>d. P d \<and> read_record c (files d f) = Inr r) (io_map (read_path c e) fs)
          (\<lambda>rs d. P d \<and> read_record c (files d f) = Inr r \<and> read_pure c (files d) fs = Inr rs)
          (\<lambda>d. P d \<and> (calm e \<longrightarrow> (\<exists>err. read_pure c (files d) (f # fs) = Inl err)))"
        by (rule triple_conseq [OF Cons.IH [of "\<lambda>d. P d \<and> read_record c (files d f) = Inr r"]]) auto
    qed (rule triple_return, simp)
  qed
qed (simp add: triple_return)

lemma triple_read_all:
  "triple P (read_all c e) (\<lambda>rs d. P d \<and> read_pure c (files d) (names_of (files d)) = Inr rs)
     (\<lambda>d. P d \<and> (calm e \<longrightarrow> (\<exists>err. read_pure c (files d) (names_of (files d)) = Inl err)))"
  unfolding read_all_def
proof (rule triple_bind)
  show "triple P (fs_call e unharmed (\<lambda>d. (Inr (record_names d), d))) (\<lambda>x d. P d \<and> x = names_of (files d))
      (\<lambda>d. P d \<and> (calm e \<longrightarrow> (\<exists>err. read_pure c (files d) (names_of (files d)) = Inl err)))"
    by (rule triple_conseq [OF triple_look]) (auto simp: record_names_of)
  show "triple (\<lambda>d. P d \<and> fs = names_of (files d)) (io_map (read_path c e) fs)
      (\<lambda>rs d. P d \<and> read_pure c (files d) (names_of (files d)) = Inr rs)
      (\<lambda>d. P d \<and> (calm e \<longrightarrow> (\<exists>err. read_pure c (files d) (names_of (files d)) = Inl err)))" for fs
    by (rule triple_conseq [OF triple_read_paths [of "\<lambda>d. P d \<and> fs = names_of (files d)"]]) auto
qed

lemma triple_validate_graph:
  "triple P (validate_graph c e) (\<lambda>_ d. P d \<and> graph_of c (files d) = Inr ())
     (\<lambda>d. P d \<and> (calm e \<longrightarrow> graph_of c (files d) \<noteq> Inr ()))"
  unfolding validate_graph_def
proof (rule triple_bind)
  show "triple P (read_all c e) (\<lambda>rs d. P d \<and> read_pure c (files d) (names_of (files d)) = Inr rs)
      (\<lambda>d. P d \<and> (calm e \<longrightarrow> graph_of c (files d) \<noteq> Inr ()))"
    by (rule triple_conseq [OF triple_read_all]) (auto simp: graph_of_def)
qed (rule triple_lift; auto simp: graph_of_def)

section \<open>The states of a transaction\<close>

abbreviation target_of :: "replacement \<Rightarrow> string" where
  "target_of rp \<equiv> recommendation_filename (rp_id rp)"

text \<open>The files once every replacement is in place.\<close>

definition updated :: "replacement list \<Rightarrow> (string \<rightharpoonup> string) \<Rightarrow> string \<rightharpoonup> string" where
  "updated rps F f = (case find (\<lambda>rp. target_of rp = f) rps of None \<Rightarrow> F f | Some rp \<Rightarrow> rp_new rp)"

text \<open>What a transaction starts from, and what it needs of the hash and of the encoding of manifests.\<close>

definition tx_setup :: "store_codec \<Rightarrow> replacement list \<Rightarrow> (string \<rightharpoonup> string) \<Rightarrow> bool" where
  "tx_setup c rps F0 \<longleftrightarrow>
     (\<forall>b. manifest_parse c (manifest_json c (manifest_of c b rps)) = Some (manifest_of c b rps)) \<and> distinct (map rp_id rps) \<and>
     (\<forall>rp \<in> set rps. valid_id (rp_id rp) \<and> F0 (target_of rp) = rp_old rp \<and>
        (\<forall>a b. rp_old rp = Some a \<longrightarrow> rp_new rp = Some b \<longrightarrow> hash_bytes c a = hash_bytes c b \<longrightarrow> a = b))"

lemma updated_target:
  assumes "distinct (map rp_id rps)" and "rp \<in> set rps"
  shows "updated rps F (target_of rp) = rp_new rp"
proof -
  obtain rq where rq: "find (\<lambda>rq. target_of rq = target_of rp) rps = Some rq"
    using assms(2) by (fastforce simp: find_None_iff intro: not_None_eq [THEN iffD1, THEN exE])
  then have "rq \<in> set rps" "rp_id rq = rp_id rp" by (auto simp: find_Some_iff)
  then have "rq = rp" using assms by (auto simp: distinct_map dest: inj_onD)
  then show ?thesis using rq by (simp add: updated_def)
qed

lemma updated_other: "(\<And>rp. rp \<in> set rps \<Longrightarrow> target_of rp \<noteq> f) \<Longrightarrow> updated rps F f = F f"
  using find_None_iff [of "\<lambda>rp. target_of rp = f" rps] by (auto simp: updated_def)

definition mixed :: "replacement list \<Rightarrow> (string \<rightharpoonup> string) \<Rightarrow> (string \<rightharpoonup> string) \<Rightarrow> bool" where
  "mixed rps F0 F \<longleftrightarrow> (\<forall>f. F f = F0 f \<or> F f = updated rps F0 f)"

lemma mixed_update:
  assumes "tx_setup c rps F0" "mixed rps F0 F" "rp \<in> set rps"
  shows "mixed rps F0 (F(target_of rp := rp_new rp))" "mixed rps F0 (F(target_of rp := rp_old rp))"
  using assms updated_target [of rps rp F0] by (auto simp: mixed_def tx_setup_def)

lemma mixed_end:
  assumes "tx_setup c rps F0" "mixed rps F0 F"
  shows "(\<And>rp. rp \<in> set rps \<Longrightarrow> F (target_of rp) = rp_new rp) \<Longrightarrow> F = updated rps F0"
    and "(\<And>rp. rp \<in> set rps \<Longrightarrow> F (target_of rp) = rp_old rp) \<Longrightarrow> F = F0"
proof -
  have outside: "updated rps F0 f = F0 f \<or> (\<exists>rp \<in> set rps. target_of rp = f)" for f
    using updated_other by blast
  have target: "updated rps F0 (target_of rp) = rp_new rp \<and> F0 (target_of rp) = rp_old rp" if "rp \<in> set rps" for rp
    using that assms(1) updated_target by (auto simp: tx_setup_def)
  show "F = updated rps F0" if "\<And>rp. rp \<in> set rps \<Longrightarrow> F (target_of rp) = rp_new rp"
    using that outside target assms(2) by (intro ext) (metis mixed_def)
  show "F = F0" if "\<And>rp. rp \<in> set rps \<Longrightarrow> F (target_of rp) = rp_old rp"
    using that outside target assms(2) by (intro ext) (metis mixed_def)
qed

definition tx_ok :: "replacement list \<Rightarrow> tx_dir \<Rightarrow> bool" where
  "tx_ok rps x \<longleftrightarrow>
     (\<forall>rp \<in> set rps.
        (\<forall>b. rp_old rp = Some b \<longrightarrow> map_of (txd_files x) (transaction_backup_path (rp_id rp)) = Some b) \<and>
        (\<forall>b s. rp_new rp = Some b \<longrightarrow> map_of (txd_files x) (transaction_staged_path (rp_id rp)) = Some s \<longrightarrow> s = b))"

text \<open>One transaction with its manifest, and a condition on its directory and on the files.\<close>

definition logged ::
  "store_codec \<Rightarrow> string \<Rightarrow> replacement list \<Rightarrow> bool \<Rightarrow> (tx_dir \<Rightarrow> (string \<rightharpoonup> string) \<Rightarrow> bool) \<Rightarrow> rec_disk \<Rightarrow> bool" where
  "logged c t rps committed H d \<longleftrightarrow>
     (\<exists>x. rd_txs d = Some [(t, x)] \<and> txd_manifest x = Some (manifest_json c (manifest_of c committed rps)) \<and>
        tx_ok rps x \<and> H x (files d))"

definition unlogged :: "string \<Rightarrow> (tx_dir \<Rightarrow> (string \<rightharpoonup> string) \<Rightarrow> bool) \<Rightarrow> rec_disk \<Rightarrow> bool" where
  "unlogged t H d \<longleftrightarrow> (\<exists>x. rd_txs d = Some [(t, x)] \<and> txd_manifest x = None \<and> H x (files d))"

definition settled_with :: "(string \<rightharpoonup> string) \<Rightarrow> rec_disk \<Rightarrow> bool" where
  "settled_with F d \<longleftrightarrow> txs d = [] \<and> files d = F"

definition journal :: "store_codec \<Rightarrow> string \<Rightarrow> replacement list \<Rightarrow> (string \<rightharpoonup> string) \<Rightarrow> rec_disk \<Rightarrow> bool" where
  "journal c t rps F0 d \<longleftrightarrow>
     settled_with F0 d \<or> settled_with (updated rps F0) d \<or>
     unlogged t (\<lambda>x F. F = F0 \<or> F = updated rps F0) d \<or>
     logged c t rps False (\<lambda>x F. F = F0) d \<or> logged c t rps True (\<lambda>x F. mixed rps F0 F) d"

lemma tx_single: "rd_txs d = Some [(t, x)] \<Longrightarrow> txs d = [(t, x)] \<and> tx_of d t = x \<and> on_tx t g d = d\<lparr>rd_txs := Some [(t, g x)]\<rparr>"
  by (simp add: txs_def tx_of_def on_tx_def)

lemma tx_file_ops [simp]:
  "map_of (txd_files (put_file f b x)) = (map_of (txd_files x))(f \<mapsto> b)"
  "map_of (txd_files (drop_file f x)) = (map_of (txd_files x))(f := None)"
  "txd_manifest (put_file f b x) = txd_manifest x" "txd_manifest (drop_file f x) = txd_manifest x"
  by (simp_all add: put_file_def drop_file_def update_conv' delete_conv')

lemma tx_ok_cong:
  assumes "tx_ok rps x" and "\<And>i. map_of (txd_files y) (transaction_backup_path i) = map_of (txd_files x) (transaction_backup_path i)"
    and "\<And>i. map_of (txd_files y) (transaction_staged_path i) \<in> {None, map_of (txd_files x) (transaction_staged_path i)}"
  shows "tx_ok rps y"
  unfolding tx_ok_def
proof (intro ballI conjI allI impI)
  fix rp b s assume rp: "rp \<in> set rps" and new: "rp_new rp = Some b" "map_of (txd_files y) (transaction_staged_path (rp_id rp)) = Some s"
  then have "map_of (txd_files x) (transaction_staged_path (rp_id rp)) = Some s" using assms(3) [of "rp_id rp"] by auto
  then show "s = b" using assms(1) rp new(1) by (auto simp: tx_ok_def)
qed (use assms(1,2) in \<open>simp add: tx_ok_def\<close>)

lemma tx_ok_put:
  assumes "tx_ok rps x" and "\<And>i. f \<noteq> transaction_backup_path i \<and> f \<noteq> transaction_staged_path i"
  shows "tx_ok rps (put_file f b x)"
  by (rule tx_ok_cong [OF assms(1)]) (use assms(2) in auto)

lemma tx_ok_drop:
  assumes "tx_ok rps x" and "\<And>i. f \<noteq> transaction_backup_path i"
  shows "tx_ok rps (drop_file f x)"
  by (rule tx_ok_cong [OF assms(1)]) (use assms(2) in auto)

section \<open>The steps of a transaction\<close>

lemma triple_remove:
  assumes "\<And>x F. H x F \<Longrightarrow> H' x (F(f := None))"
  shows "triple (logged c t rps b H) (fs_remove e f) (\<lambda>_. logged c t rps b H') (\<lambda>d. \<not> calm e \<and> logged c t rps b H d)"
  unfolding fs_remove_def
  by (rule triple_fs) (use assms in \<open>auto simp: logged_def unharmed_def calm_def delete_conv'\<close>)

lemma triple_tx_read:
  "triple (logged c t rps b H) (tx_read e t f) (\<lambda>r. logged c t rps b (\<lambda>x F. H x F \<and> map_of (txd_files x) f = r))
     (\<lambda>d. \<not> calm e \<and> logged c t rps b H d)"
  unfolding tx_read_def
  by (rule triple_conseq [OF triple_look [of "logged c t rps b H"]]) (auto simp: logged_def tx_single)

lemma triple_tx_write:
  assumes "\<And>i. f \<noteq> transaction_backup_path i \<and> f \<noteq> transaction_staged_path i" and "\<And>x F s. H x F \<Longrightarrow> H (put_file f s x) F"
  shows "triple (logged c t rps b H) (tx_write e t f s)
    (\<lambda>_. logged c t rps b (\<lambda>x F. H x F \<and> map_of (txd_files x) f = Some s)) (\<lambda>d. \<not> calm e \<and> logged c t rps b H d)"
  unfolding tx_write_def
  by (rule triple_fs)
     (use assms(2) tx_ok_put [OF _ assms(1)] in \<open>auto simp: logged_def calm_def tx_single split: option.split\<close>)

lemma triple_tx_publish:
  assumes "\<And>i. f \<noteq> transaction_backup_path i" and "\<And>x F. H x F \<Longrightarrow> map_of (txd_files x) f = Some s"
    and "\<And>x F. H x F \<Longrightarrow> H' (drop_file f x) (F(g \<mapsto> s))"
  shows "triple (logged c t rps b H) (tx_publish e t f g) (\<lambda>_. logged c t rps b H') (\<lambda>d. \<not> calm e \<and> logged c t rps b H d)"
  unfolding tx_publish_def
proof (rule triple_fs)
  fix d assume "logged c t rps b H d"
  then obtain x where x: "rd_txs d = Some [(t, x)]" "txd_manifest x = Some (manifest_json c (manifest_of c b rps))" "tx_ok rps x" "H x (files d)"
    by (auto simp: logged_def)
  then have "logged c t rps b H' ((on_tx t (drop_file f) d)\<lparr>rd_files := AList.update g s (rd_files d)\<rparr>)"
    using assms(3) [OF x(4)] tx_ok_drop [OF x(3) assms(1)] tx_single [OF x(1), of "drop_file f"]
    by (auto simp: logged_def update_conv')
  then show "case (case map_of (txd_files (tx_of d t)) f of None \<Rightarrow> (Inl IoFailed, d)
      | Some b \<Rightarrow> (Inr (), (on_tx t (drop_file f) d)\<lparr>rd_files := AList.update g b (rd_files d)\<rparr>)) of
      (Inl err, d1) \<Rightarrow> \<not> calm e \<and> logged c t rps b H d1 | (Inr u, d1) \<Rightarrow> logged c t rps b H' d1"
    using assms(2) [OF x(4)] tx_single [OF x(1)] by simp
qed (auto simp: unharmed_def calm_def)


lemma triple_fs_read:
  "triple P (io_attempt (fs_read e f)) (\<lambda>r d. P d \<and> (\<forall>b. r = Inr b \<longrightarrow> b = files d f)) E"
  unfolding fs_read_def
  by (rule triple_conseq [OF triple_attempt [OF triple_look [of P]]]) (auto split: sum.splits)

lemma logged_conseq:
  assumes "logged c t rps b H d" and "\<And>x. tx_ok rps x \<Longrightarrow> H x (files d) \<Longrightarrow> H' x (files d)"
  shows "logged c t rps b H' d"
  using assms unfolding logged_def by blast

lemma entry_fields [simp]:
  "en_id (entry_of c rp) = rp_id rp" "en_target (entry_of c rp) = target_of rp"
  "en_staged (entry_of c rp) = map_option (\<lambda>_. transaction_staged_path (rp_id rp)) (rp_new rp)"
  "en_backup (entry_of c rp) = map_option (\<lambda>_. transaction_backup_path (rp_id rp)) (rp_old rp)"
  "en_old_sha256 (entry_of c rp) = map_option (hash_bytes c) (rp_old rp)" "en_old_exists (entry_of c rp) \<longleftrightarrow> rp_old rp \<noteq> None"
  "en_new_sha256 (entry_of c rp) = map_option (hash_bytes c) (rp_new rp)" "en_new_exists (entry_of c rp) \<longleftrightarrow> rp_new rp \<noteq> None"
  by (simp_all add: entry_of_def)

text \<open>The files after one more entry is in place.\<close>

definition with_file :: "((string \<rightharpoonup> string) \<Rightarrow> bool) \<Rightarrow> string \<Rightarrow> string option \<Rightarrow> (string \<rightharpoonup> string) \<Rightarrow> bool" where
  "with_file G f v F \<longleftrightarrow> (\<exists>F1. G F1 \<and> F = F1(f := v))"

lemma with_fileI: "G F \<Longrightarrow> with_file G f v (F(f := v))"
  by (auto simp: with_file_def)

lemma with_file_same: "G F \<Longrightarrow> F f = v \<Longrightarrow> with_file G f v F"
  unfolding with_file_def by (metis fun_upd_triv)

lemma triple_publish_staged:
  assumes "rp \<in> set rps" and new: "rp_new rp = Some s"
  shows "triple (logged c t rps b (\<lambda>x. G))
    (io_bind (tx_read e t (transaction_staged_path (rp_id rp))) (\<lambda>v. case v of None \<Rightarrow> io_fail IoFailed
       | Some bytes \<Rightarrow> if Some (hash_bytes c bytes) \<noteq> Some (hash_bytes c s) then io_fail Recovery
                       else tx_publish e t (transaction_staged_path (rp_id rp)) (target_of rp)))
    (\<lambda>_. logged c t rps b (\<lambda>x. with_file G (target_of rp) (rp_new rp))) (logged c t rps b (\<lambda>x. G))"
proof (rule triple_bind)
  let ?H = "\<lambda>v x F. G F \<and> map_of (txd_files x) (transaction_staged_path (rp_id rp)) = v"
  show "triple (logged c t rps b (\<lambda>x. G)) (tx_read e t (transaction_staged_path (rp_id rp)))
      (\<lambda>v. logged c t rps b (?H v)) (logged c t rps b (\<lambda>x. G))"
    by (rule triple_disturbed [OF triple_tx_read])
  have unread: "logged c t rps b (?H v) d \<Longrightarrow> logged c t rps b (\<lambda>x. G) d" for v d
    by (erule logged_conseq) simp
  have publish: "triple (logged c t rps b (?H (Some s))) (tx_publish e t (transaction_staged_path (rp_id rp)) (target_of rp))
      (\<lambda>_. logged c t rps b (\<lambda>x. with_file G (target_of rp) (rp_new rp))) (logged c t rps b (\<lambda>x. G))"
    by (rule triple_conseq [OF triple_tx_publish [where s = s and H = "?H (Some s)"]])
       (simp_all add: with_fileI new, blast intro: unread)
  have read: "logged c t rps b (?H (Some s)) d" if "logged c t rps b (?H (Some u)) d" for u d
    by (rule logged_conseq [OF that]) (use assms in \<open>auto simp: tx_ok_def\<close>)
  show "triple (logged c t rps b (?H v)) (case v of None \<Rightarrow> io_fail IoFailed
       | Some bytes \<Rightarrow> if Some (hash_bytes c bytes) \<noteq> Some (hash_bytes c s) then io_fail Recovery
                       else tx_publish e t (transaction_staged_path (rp_id rp)) (target_of rp))
      (\<lambda>_. logged c t rps b (\<lambda>x. with_file G (target_of rp) (rp_new rp))) (logged c t rps b (\<lambda>x. G))" for v
    using triple_pre [OF publish read] by (cases v) (simp_all add: triple_fail unread)
qed

text \<open>
  Publishing one entry puts the new content in place or fails without a change: staged content is
  never partial, and a target that already has the new hash is the new file.
\<close>

lemma triple_publish_entry:
  assumes start: "tx_setup c rps F0" and rp: "rp \<in> set rps" and mixed: "\<And>F. G F \<Longrightarrow> mixed rps F0 F"
  shows "triple (logged c t rps b (\<lambda>x. G)) (publish_entry c e t (entry_of c rp))
    (\<lambda>_. logged c t rps b (\<lambda>x. with_file G (target_of rp) (rp_new rp))) (logged c t rps b (\<lambda>x. G))"
    (is "triple ?P _ ?Q ?P")
proof (cases "rp_new rp")
  case None
  then have "publish_entry c e t (entry_of c rp) = fs_remove e (target_of rp)"
    by (simp add: publish_entry_def entry_of_def)
  moreover have "triple ?P (fs_remove e (target_of rp)) ?Q ?P"
    by (rule triple_disturbed [OF triple_remove]) (simp add: None with_fileI)
  ultimately show ?thesis by simp
next
  case (Some s)
  have old: "F0 (target_of rp) = rp_old rp" and "distinct (map rp_id rps)"
    and hash: "\<And>a. rp_old rp = Some a \<Longrightarrow> hash_bytes c a = hash_bytes c s \<Longrightarrow> a = s"
    using start rp Some by (auto simp: tx_setup_def)
  have new: "v = s" if "mixed rps F0 F" "F (target_of rp) = Some v" "hash_bytes c v = hash_bytes c s" for F v
    using that(1) hash [of v] that(2,3) updated_target [OF \<open>distinct (map rp_id rps)\<close> rp, of F0] Some old
    unfolding mixed_def by (metis option.inject)
  have same: "?Q () d" if "?P d" "files d (target_of rp) = Some v" "hash_bytes c v = hash_bytes c s" for d v
    by (rule logged_conseq [OF that(1)]) (use new [of "files d" v] mixed that(3) that(2) Some in \<open>simp add: with_file_same\<close>)
  let ?there = "\<lambda>r :: store_error + string option. case r of Inr (Some bytes) \<Rightarrow> Some (hash_bytes c bytes) = Some (hash_bytes c s) | _ \<Rightarrow> False"
  have entry: "publish_entry c e t (entry_of c rp) =
      io_bind (io_attempt (fs_read e (target_of rp))) (\<lambda>r. if ?there r then io_return () else
        io_bind (tx_read e t (transaction_staged_path (rp_id rp))) (\<lambda>v. case v of None \<Rightarrow> io_fail IoFailed
         | Some bytes \<Rightarrow> if Some (hash_bytes c bytes) \<noteq> Some (hash_bytes c s) then io_fail Recovery
                         else tx_publish e t (transaction_staged_path (rp_id rp)) (target_of rp)))"
    unfolding publish_entry_def entry_fields Some option.map option.case by simp
  show ?thesis
    unfolding entry
  proof (rule triple_bind [OF triple_fs_read])
    fix r :: "store_error + string option"
    show "triple (\<lambda>d. ?P d \<and> (\<forall>v. r = Inr v \<longrightarrow> v = files d (target_of rp)))
      (if ?there r then io_return () else
        io_bind (tx_read e t (transaction_staged_path (rp_id rp))) (\<lambda>v. case v of None \<Rightarrow> io_fail IoFailed
         | Some bytes \<Rightarrow> if Some (hash_bytes c bytes) \<noteq> Some (hash_bytes c s) then io_fail Recovery
                         else tx_publish e t (transaction_staged_path (rp_id rp)) (target_of rp))) ?Q ?P"
    proof (cases "?there r")
      case True
      then obtain v where "r = Inr (Some v)" "hash_bytes c v = hash_bytes c s" by (auto split: sum.splits option.splits)
      then show ?thesis by (simp, rule_tac triple_return) (rule same [of _ v], simp_all)
    next
      case False
      then show ?thesis unfolding if_not_P [OF False]
        by (rule_tac triple_pre [OF triple_publish_staged [OF rp Some]]) simp
    qed
  qed
qed


text \<open>Undoing one entry fails only when the file system does.\<close>

lemma triple_rollback_entry:
  assumes rp: "rp \<in> set rps"
  shows "triple (logged c t rps b (\<lambda>x. G)) (rollback_entry c e t (entry_of c rp))
    (\<lambda>_. logged c t rps b (\<lambda>x. with_file G (target_of rp) (rp_old rp))) (\<lambda>d. \<not> calm e \<and> logged c t rps b (\<lambda>x. G) d)"
    (is "triple ?P _ ?Q ?E")
proof (cases "rp_old rp")
  case None
  have "triple ?P (fs_remove e (target_of rp)) ?Q ?E" by (rule triple_remove) (simp add: None with_fileI)
  then show ?thesis by (simp add: rollback_entry_def None)
next
  case (Some s)
  let ?restore = "transaction_restore_path (rp_id rp)"
  have entry: "rollback_entry c e t (entry_of c rp) = io_bind (tx_read e t (transaction_backup_path (rp_id rp))) (\<lambda>v. case v of
      None \<Rightarrow> io_fail IoFailed
    | Some bytes \<Rightarrow> if Some (hash_bytes c bytes) \<noteq> Some (hash_bytes c s) then io_fail Recovery
                    else io_then (tx_write e t ?restore bytes) (tx_publish e t ?restore (target_of rp)))"
    unfolding rollback_entry_def entry_fields Some option.map option.case by (simp only: option.distinct not_False_eq_True if_True)
  have restore: "triple ?P (io_then (tx_write e t ?restore s) (tx_publish e t ?restore (target_of rp))) ?Q ?E"
  proof (rule triple_then)
    show "triple ?P (tx_write e t ?restore s) (\<lambda>_. logged c t rps b (\<lambda>x F. G F \<and> map_of (txd_files x) ?restore = Some s)) ?E"
      by (rule triple_tx_write) simp_all
    show "triple (logged c t rps b (\<lambda>x F. G F \<and> map_of (txd_files x) ?restore = Some s)) (tx_publish e t ?restore (target_of rp)) ?Q ?E"
      by (rule triple_conseq [OF triple_tx_publish [where s = s and H = "\<lambda>x F. G F \<and> map_of (txd_files x) ?restore = Some s"]])
         (auto simp: with_fileI Some elim: logged_conseq)
  qed
  show ?thesis
    unfolding entry
  proof (rule triple_bind [OF triple_tx_read])
    fix v
    show "triple (logged c t rps b (\<lambda>x F. G F \<and> map_of (txd_files x) (transaction_backup_path (rp_id rp)) = v)) (case v of
        None \<Rightarrow> io_fail IoFailed
      | Some bytes \<Rightarrow> if Some (hash_bytes c bytes) \<noteq> Some (hash_bytes c s) then io_fail Recovery
                      else io_then (tx_write e t ?restore bytes) (tx_publish e t ?restore (target_of rp))) ?Q ?E"
    proof (cases "v = Some s")
      case True
      then show ?thesis by (simp, rule_tac triple_pre [OF restore]) (erule logged_conseq, simp)
    next
      case False
      then have none: "\<not> logged c t rps b (\<lambda>x F. G F \<and> map_of (txd_files x) (transaction_backup_path (rp_id rp)) = v) d" for d
        using rp Some by (auto simp: logged_def tx_ok_def)
      show ?thesis unfolding triple_def using none by blast
    qed
  qed
qed


lemma io_each_map: "io_each f (map g xs) = io_each (\<lambda>x. f (g x)) xs"
  by (induction xs) simp_all

text \<open>A loop over the replacements that gives each target its final content.\<close>

lemma triple_each_target:
  assumes "distinct (map rp_id rps)" and closed: "\<And>F rp. rp \<in> set rps \<Longrightarrow> G F \<Longrightarrow> G (F(target_of rp := final rp))"
    and step: "\<And>H rp. rp \<in> set rps \<Longrightarrow> (\<And>F. H F \<Longrightarrow> G F) \<Longrightarrow>
      triple (logged c t rps b (\<lambda>x. H)) (act rp) (\<lambda>_. logged c t rps b (\<lambda>x. with_file H (target_of rp) (final rp)))
        (\<lambda>d. E \<and> logged c t rps b (\<lambda>x. H) d)"
  shows "triple (logged c t rps b (\<lambda>x. G)) (io_each act rps)
    (\<lambda>_. logged c t rps b (\<lambda>x F. G F \<and> (\<forall>rp \<in> set rps. F (target_of rp) = final rp))) (\<lambda>d. E \<and> logged c t rps b (\<lambda>x. G) d)"
proof -
  define I where "I = (\<lambda>ys F. G F \<and> (\<forall>rp \<in> set ys. F (target_of rp) = final rp))"
  have "triple (logged c t rps b (\<lambda>x. I [])) (io_each act rps) (\<lambda>_. logged c t rps b (\<lambda>x. I rps)) (\<lambda>d. E \<and> logged c t rps b (\<lambda>x. G) d)"
  proof (rule triple_each [where I = "\<lambda>ys. logged c t rps b (\<lambda>x. I ys)"])
    fix ys rp rest assume split: "rps = ys @ rp # rest"
    then have "rp_id rp \<notin> rp_id ` set ys" using assms(1) by simp
    then have other: "target_of rq \<noteq> target_of rp" if "rq \<in> set ys" for rq
      using that by (metis image_eqI path_inject(1))
    have rp: "rp \<in> set rps" using split by simp
    have grow: "I (ys @ [rp]) F" if "with_file (I ys) (target_of rp) (final rp) F" for F
      using that closed [OF rp] other by (auto simp: with_file_def I_def)
    have "triple (logged c t rps b (\<lambda>x. I ys)) (act rp) (\<lambda>_. logged c t rps b (\<lambda>x. with_file (I ys) (target_of rp) (final rp)))
        (\<lambda>d. E \<and> logged c t rps b (\<lambda>x. I ys) d)"
      by (rule step [OF rp]) (simp add: I_def)
    then show "triple (logged c t rps b (\<lambda>x. I ys)) (act rp) (\<lambda>_. logged c t rps b (\<lambda>x. I (ys @ [rp]))) (\<lambda>d. E \<and> logged c t rps b (\<lambda>x. G) d)"
    proof (rule triple_conseq)
      show "E \<and> logged c t rps b (\<lambda>x. G) d" if "E \<and> logged c t rps b (\<lambda>x. I ys) d" for d
        using that by (auto simp: I_def elim!: logged_conseq)
      show "logged c t rps b (\<lambda>x. I (ys @ [rp])) d" if "logged c t rps b (\<lambda>x. with_file (I ys) (target_of rp) (final rp)) d" for d
        by (rule logged_conseq [OF that]) (rule grow)
    qed
  qed
  moreover have "I [] = G" "I rps = (\<lambda>F. G F \<and> (\<forall>rp \<in> set rps. F (target_of rp) = final rp))" by (auto simp: I_def)
  ultimately show ?thesis by simp
qed

lemma triple_publish_all:
  assumes "tx_setup c rps F0"
  shows "triple (logged c t rps b (\<lambda>x. mixed rps F0)) (io_each (publish_entry c e t) (map (entry_of c) rps))
    (\<lambda>_. logged c t rps b (\<lambda>x F. F = updated rps F0)) (logged c t rps b (\<lambda>x. mixed rps F0))"
proof -
  have "triple (logged c t rps b (\<lambda>x. mixed rps F0)) (io_each (\<lambda>rp. publish_entry c e t (entry_of c rp)) rps)
    (\<lambda>_. logged c t rps b (\<lambda>x F. mixed rps F0 F \<and> (\<forall>rp \<in> set rps. F (target_of rp) = rp_new rp)))
    (\<lambda>d. True \<and> logged c t rps b (\<lambda>x. mixed rps F0) d)"
  proof (rule triple_each_target)
    show "distinct (map rp_id rps)" using assms by (simp add: tx_setup_def)
    show "triple (logged c t rps b (\<lambda>x. H)) (publish_entry c e t (entry_of c rp))
        (\<lambda>_. logged c t rps b (\<lambda>x. with_file H (target_of rp) (rp_new rp))) (\<lambda>d. True \<and> logged c t rps b (\<lambda>x. H) d)"
      if "rp \<in> set rps" "\<And>F. H F \<Longrightarrow> mixed rps F0 F" for H rp
      using triple_publish_entry [OF assms that] by simp
  qed (rule mixed_update(1) [OF assms])
  then show ?thesis unfolding io_each_map
    by (rule triple_conseq) (auto elim!: logged_conseq intro: mixed_end(1) [OF assms])
qed

lemma triple_rollback:
  assumes "tx_setup c rps F0" and inside: "\<And>F. G F \<Longrightarrow> mixed rps F0 F"
    and closed: "\<And>F rp. rp \<in> set rps \<Longrightarrow> G F \<Longrightarrow> G (F(target_of rp := rp_old rp))"
  shows "triple (logged c t rps b (\<lambda>x. G)) (rollback_transaction c e t (map (entry_of c) rps))
    (\<lambda>_. logged c t rps b (\<lambda>x F. G F \<and> F = F0)) (\<lambda>d. \<not> calm e \<and> logged c t rps b (\<lambda>x. G) d)"
  unfolding rollback_transaction_def io_each_map
proof (rule triple_then)
  have "triple (logged c t rps b (\<lambda>x. G)) (io_each (\<lambda>rp. rollback_entry c e t (entry_of c rp)) rps)
    (\<lambda>_. logged c t rps b (\<lambda>x F. G F \<and> (\<forall>rp \<in> set rps. F (target_of rp) = rp_old rp))) (\<lambda>d. \<not> calm e \<and> logged c t rps b (\<lambda>x. G) d)"
    by (rule triple_each_target) (use assms(1) in \<open>auto simp: tx_setup_def closed intro: triple_rollback_entry\<close>)
  then show "triple (logged c t rps b (\<lambda>x. G)) (io_each (\<lambda>rp. rollback_entry c e t (entry_of c rp)) rps)
    (\<lambda>_. logged c t rps b (\<lambda>x F. G F \<and> F = F0)) (\<lambda>d. \<not> calm e \<and> logged c t rps b (\<lambda>x. G) d)"
    by (rule triple_conseq) (auto elim!: logged_conseq intro: mixed_end(2) [OF assms(1)] inside)
  show "triple (logged c t rps b (\<lambda>x F. G F \<and> F = F0)) (sync_directory e) (\<lambda>_. logged c t rps b (\<lambda>x F. G F \<and> F = F0))
    (\<lambda>d. \<not> calm e \<and> logged c t rps b (\<lambda>x. G) d)"
    by (rule triple_conseq [OF triple_sync [of "logged c t rps b (\<lambda>x F. G F \<and> F = F0)"]]) (auto elim!: logged_conseq)
qed

end
