(* ===== verification/Recommendation_Recovery.thy ===== *)
theory Recommendation_Recovery
  imports Recommendation_Atomic
begin

text \<open>
  Recovery and commit as wholes: every failure of a commit or of a recovery leaves a state from which
  recovery can go on, and a recovery that is not disturbed ends with all of the old files or all of
  the new ones.
\<close>

section \<open>Ending a transaction\<close>

lemma triple_disj: "triple P m Q E \<Longrightarrow> triple P' m Q E \<Longrightarrow> triple (\<lambda>d. P d \<or> P' d) m Q E"
  unfolding triple_def by (intro allI impI) (elim disjE; simp)

definition ended :: "replacement list \<Rightarrow> (string \<rightharpoonup> string) \<Rightarrow> rec_disk \<Rightarrow> bool" where
  "ended rps F0 d \<longleftrightarrow> settled_with F0 d \<or> settled_with (updated rps F0) d"

lemma triple_remove_manifest:
  "triple (logged c t rps b (\<lambda>x F. F = G)) (remove_manifest e t) (\<lambda>_. unlogged t (\<lambda>x F. F = G))
     (\<lambda>d. \<not> calm e \<and> logged c t rps b (\<lambda>x F. F = G) d)"
  unfolding remove_manifest_def
  by (rule triple_fs) (auto simp: logged_def unlogged_def unharmed_def calm_def tx_single)

lemma triple_remove_transaction:
  "triple (unlogged t (\<lambda>x F. F = G)) (remove_transaction e t) (\<lambda>_. settled_with G) (\<lambda>d. \<not> calm e \<and> unlogged t (\<lambda>x F. F = G) d)"
  unfolding remove_transaction_def
  by (rule triple_fs) (auto simp: unlogged_def settled_with_def calm_def tx_single txs_def)

lemma triple_cleanup:
  "triple (logged c t rps b (\<lambda>x F. F = G)) (finish_transaction_cleanup e t) (\<lambda>_. settled_with G)
     (\<lambda>d. \<not> calm e \<and> (logged c t rps b (\<lambda>x F. F = G) d \<or> unlogged t (\<lambda>x F. F = G) d \<or> settled_with G d))"
  (is "triple ?P _ ?Q ?E")
proof -
  have "triple ?P (remove_manifest e t) (\<lambda>_. unlogged t (\<lambda>x F. F = G)) ?E"
    by (rule triple_conseq [OF triple_remove_manifest]) auto
  moreover have "triple (unlogged t (\<lambda>x F. F = G)) (sync_directory e) (\<lambda>_. unlogged t (\<lambda>x F. F = G)) ?E"
    by (rule triple_conseq [OF triple_sync [of "unlogged t (\<lambda>x F. F = G)"]]) auto
  moreover have "triple (unlogged t (\<lambda>x F. F = G)) (remove_transaction e t) (\<lambda>_. settled_with G) ?E"
    by (rule triple_conseq [OF triple_remove_transaction]) auto
  moreover have "triple (settled_with G) (sync_directory e) ?Q ?E"
    by (rule triple_conseq [OF triple_sync [of "settled_with G"]]) auto
  ultimately show ?thesis unfolding finish_transaction_cleanup_def by (blast intro: triple_then)
qed

lemma mixed_ends: "mixed rps F0 F0" "mixed rps F0 (updated rps F0)"
  by (simp_all add: mixed_def)

lemma journal_cases:
  "settled_with F0 d \<Longrightarrow> journal c t rps F0 d" "settled_with (updated rps F0) d \<Longrightarrow> journal c t rps F0 d"
  "unlogged t (\<lambda>x F. F = F0) d \<Longrightarrow> journal c t rps F0 d" "unlogged t (\<lambda>x F. F = updated rps F0) d \<Longrightarrow> journal c t rps F0 d"
  "logged c t rps b (\<lambda>x F. F = F0) d \<Longrightarrow> journal c t rps F0 d" "logged c t rps True (\<lambda>x. mixed rps F0) d \<Longrightarrow> journal c t rps F0 d"
  "logged c t rps True (\<lambda>x F. F = updated rps F0) d \<Longrightarrow> journal c t rps F0 d"
  using mixed_ends [of rps F0] by (cases b; auto simp: journal_def logged_def unlogged_def)+

lemma triple_cleanup_old:
  "triple (logged c t rps b (\<lambda>x F. F = F0)) (finish_transaction_cleanup e t) (\<lambda>_. settled_with F0) (\<lambda>d. \<not> calm e \<and> journal c t rps F0 d)"
  by (rule triple_conseq [OF triple_cleanup [of c t rps b F0]]) (auto intro: journal_cases)

lemma triple_cleanup_new:
  "triple (logged c t rps True (\<lambda>x F. F = updated rps F0)) (finish_transaction_cleanup e t) (\<lambda>_. settled_with (updated rps F0))
     (\<lambda>d. \<not> calm e \<and> journal c t rps F0 d)"
  by (rule triple_conseq [OF triple_cleanup [of c t rps True "updated rps F0"]]) (auto intro: journal_cases)

section \<open>Recovering a transaction\<close>

lemma triple_read_manifest:
  assumes "tx_setup c rps F0"
  shows "triple (logged c t rps b H) (read_manifest c e t) (\<lambda>m d. logged c t rps b H d \<and> m = manifest_of c b rps)
    (\<lambda>d. \<not> calm e \<and> logged c t rps b H d)"
  unfolding read_manifest_def
proof (rule triple_bind)
  have look: "triple (logged c t rps b H) (fs_call e unharmed (\<lambda>d. (Inr (txd_manifest (tx_of d t)), d)))
     (\<lambda>r d. logged c t rps b H d \<and> r = Some (manifest_json c (manifest_of c b rps))) (\<lambda>d. \<not> calm e \<and> logged c t rps b H d)"
    by (rule triple_conseq [OF triple_look [of "logged c t rps b H"]]) (auto simp: logged_def tx_single)
  show "triple (logged c t rps b H) (io_attempt (fs_call e unharmed (\<lambda>d. (Inr (txd_manifest (tx_of d t)), d))))
     (\<lambda>r d. case r of Inl _ \<Rightarrow> \<not> calm e \<and> logged c t rps b H d
        | Inr v \<Rightarrow> logged c t rps b H d \<and> v = Some (manifest_json c (manifest_of c b rps))) (\<lambda>d. \<not> calm e \<and> logged c t rps b H d)"
    by (rule triple_attempt [OF look])
  have parse: "manifest_parse c (manifest_json c (manifest_of c b rps)) = Some (manifest_of c b rps)"
    using assms by (simp add: tx_setup_def)
  show "triple (\<lambda>d. case r of Inl _ \<Rightarrow> \<not> calm e \<and> logged c t rps b H d
        | Inr v \<Rightarrow> logged c t rps b H d \<and> v = Some (manifest_json c (manifest_of c b rps)))
     (case r of Inr (Some bytes) \<Rightarrow> (case manifest_parse c bytes of None \<Rightarrow> io_fail Recovery | Some m \<Rightarrow> io_return m) | _ \<Rightarrow> io_fail Recovery)
     (\<lambda>m d. logged c t rps b H d \<and> m = manifest_of c b rps) (\<lambda>d. \<not> calm e \<and> logged c t rps b H d)" for r
  proof (cases r)
    case (Inr v)
    show ?thesis
    proof (cases "v = Some (manifest_json c (manifest_of c b rps))")
      case True
      then show ?thesis by (simp add: Inr parse triple_return)
    qed (simp add: Inr triple_def)
  qed (simp add: triple_fail)
qed

lemma manifest_entries_valid:
  assumes "distinct (map rp_id rps)" "\<And>rp. rp \<in> set rps \<Longrightarrow> valid_id (rp_id rp)" "rp_id ` set rps \<inter> seen = {}"
  shows "validate_manifest_entries (map (entry_of c) rps) seen = Inr ()"
  using assms
proof (induction rps arbitrary: seen)
  case (Cons rp rps)
  have "validate_manifest_entries (map (entry_of c) rps) (insert (rp_id rp) seen) = Inr ()"
    using Cons.prems by (intro Cons.IH) auto
  moreover have "is_some_and escapes (en_staged (entry_of c rp)) = False" "is_some_and escapes (en_backup (entry_of c rp)) = False"
    using journal_paths_inside by (cases "rp_new rp"; cases "rp_old rp"; simp)+
  ultimately show ?case using Cons.prems by (cases "rp_old rp"; cases "rp_new rp") simp_all
qed simp

lemma triple_try_publish:
  assumes "tx_setup c rps F0"
  shows "triple (logged c t rps True (\<lambda>x. mixed rps F0)) (try_publish c e t (map (entry_of c) rps))
    (\<lambda>r. if r then logged c t rps True (\<lambda>x F. F = updated rps F0) else logged c t rps True (\<lambda>x. mixed rps F0))
    (\<lambda>d. \<not> calm e \<and> logged c t rps True (\<lambda>x. mixed rps F0) d)"
    (is "triple ?M _ ?R ?E")
proof -
  let ?N = "logged c t rps True (\<lambda>x F. F = updated rps F0)"
  have NM: "?N d \<Longrightarrow> ?M d" for d by (erule logged_conseq) (simp add: mixed_ends)
  have validate: "triple ?N (io_bind (io_attempt (validate_graph c e)) (\<lambda>v. io_return (case v of Inl _ \<Rightarrow> False | Inr _ \<Rightarrow> True))) ?R ?E"
  proof (rule triple_bind [OF triple_attempt [OF triple_validate_graph [of ?N c e]]])
    show "triple (\<lambda>d. case r of Inl _ \<Rightarrow> ?N d \<and> (calm e \<longrightarrow> graph_of c (files d) \<noteq> Inr ()) | Inr _ \<Rightarrow> ?N d \<and> graph_of c (files d) = Inr ())
       (io_return (case r of Inl _ \<Rightarrow> False | Inr _ \<Rightarrow> True)) ?R ?E" for r :: "store_error + unit"
      by (cases r) (auto intro!: triple_return NM)
  qed
  have sync: "triple ?N (sync_directory e) (\<lambda>_. ?N) ?E"
    by (rule triple_conseq [OF triple_sync [of ?N]]) (auto intro: NM)
  show ?thesis
    unfolding try_publish_def
  proof (rule triple_bind [OF triple_attempt [OF triple_publish_all [OF assms]]])
    show "triple (\<lambda>d. case r of Inl _ \<Rightarrow> ?M d | Inr _ \<Rightarrow> ?N d)
      (case r of Inl _ \<Rightarrow> io_return False | Inr _ \<Rightarrow> io_then (sync_directory e)
           (io_bind (io_attempt (validate_graph c e)) (\<lambda>v. io_return (case v of Inl _ \<Rightarrow> False | Inr _ \<Rightarrow> True)))) ?R ?E"
      for r :: "store_error + unit"
      using triple_then [OF sync validate] by (cases r) (auto intro: triple_return)
  qed
qed


lemma triple_undo:
  assumes "tx_setup c rps F0" and valid: "graph_of c F0 = Inr ()" and G: "(\<lambda>F. F = F0) = G \<or> (b \<and> mixed rps F0 = G)"
  shows "triple (logged c t rps b (\<lambda>x. G))
    (io_then (rollback_transaction c e t (map (entry_of c) rps)) (io_then (or_recovery (validate_graph c e)) (finish_transaction_cleanup e t)))
    (\<lambda>_. settled_with F0) (\<lambda>d. \<not> calm e \<and> journal c t rps F0 d)"
proof (intro triple_then)
  let ?O = "logged c t rps b (\<lambda>x F. F = F0)"
  have "triple (logged c t rps b (\<lambda>x. G)) (rollback_transaction c e t (map (entry_of c) rps)) (\<lambda>_. logged c t rps b (\<lambda>x F. G F \<and> F = F0))
      (\<lambda>d. \<not> calm e \<and> logged c t rps b (\<lambda>x. G) d)"
  proof (rule triple_rollback [OF assms(1)])
    show "mixed rps F0 F" if "G F" for F using that G by (auto simp: mixed_ends)
    show "G (F(target_of rp := rp_old rp))" if "rp \<in> set rps" "G F" for F rp
      using that G assms(1) mixed_update(2) [OF assms(1) _ that(1)] by (auto simp: tx_setup_def)
  qed
  then show "triple (logged c t rps b (\<lambda>x. G)) (rollback_transaction c e t (map (entry_of c) rps)) (\<lambda>_. ?O)
      (\<lambda>d. \<not> calm e \<and> journal c t rps F0 d)"
  proof (rule triple_conseq)
    show "\<not> calm e \<and> journal c t rps F0 d" if "\<not> calm e \<and> logged c t rps b (\<lambda>x. G) d" for d
      using that G journal_cases(5) [of c t rps b F0 d] journal_cases(6) [of c t rps F0 d] by auto
  qed (auto elim!: logged_conseq)
  show "triple ?O (or_recovery (validate_graph c e)) (\<lambda>_. ?O) (\<lambda>d. \<not> calm e \<and> journal c t rps F0 d)"
    unfolding or_recovery_def
  proof (rule triple_bind [OF triple_attempt [OF triple_validate_graph [of ?O c e]]])
    have disturbed: "\<not> calm e \<and> journal c t rps F0 d" if "?O d \<and> (calm e \<longrightarrow> graph_of c (files d) \<noteq> Inr ())" for d
      using that valid journal_cases(5) [of c t rps b F0 d] by (auto simp: logged_def)
    show "triple (\<lambda>d. case r of Inl _ \<Rightarrow> ?O d \<and> (calm e \<longrightarrow> graph_of c (files d) \<noteq> Inr ()) | Inr _ \<Rightarrow> ?O d \<and> graph_of c (files d) = Inr ())
       (case r of Inl _ \<Rightarrow> io_fail Recovery | Inr _ \<Rightarrow> io_return ()) (\<lambda>_. ?O) (\<lambda>d. \<not> calm e \<and> journal c t rps F0 d)" for r :: "store_error + unit"
    proof (cases r)
      case (Inl err)
      show ?thesis unfolding Inl sum.case by (rule triple_fail) (rule disturbed)
    qed (auto intro: triple_return)
  qed
qed (rule triple_cleanup_old)

lemma triple_recover_transaction:
  assumes "tx_setup c rps F0" and valid: "graph_of c F0 = Inr ()"
  shows "triple (logged c t rps b (\<lambda>x. if b then mixed rps F0 else (\<lambda>F. F = F0))) (recover_transaction c e t) (\<lambda>_. ended rps F0)
    (\<lambda>d. \<not> calm e \<and> journal c t rps F0 d)"
    (is "triple ?P _ ?Q ?E")
proof -
  let ?ens = "map (entry_of c) rps"
  let ?undo = "io_then (rollback_transaction c e t ?ens) (io_then (or_recovery (validate_graph c e)) (finish_transaction_cleanup e t))"
  have in_journal: "?P d \<Longrightarrow> journal c t rps F0 d" for d
    using journal_cases(5) [of c t rps b F0 d] journal_cases(6) [of c t rps F0 d] by (cases b) auto
  have undo: "triple ?P ?undo ?Q ?E"
    by (rule triple_conseq [OF triple_undo [OF assms, where G = "if b then mixed rps F0 else (\<lambda>F. F = F0)" and b = b]])
       (auto simp: ended_def)
  have entries: "validate_manifest_entries ?ens {} = Inr ()"
    using assms(1) by (intro manifest_entries_valid) (auto simp: tx_setup_def)
  have decide: "triple ?P (io_bind (if b then try_publish c e t ?ens else io_return False)
      (\<lambda>published. if published then finish_transaction_cleanup e t else ?undo)) ?Q ?E"
  proof (cases b)
    case True
    show ?thesis
      unfolding if_P [OF True]
    proof (rule triple_bind)
      show "triple (logged c t rps b (\<lambda>x. mixed rps F0)) (try_publish c e t ?ens)
        (\<lambda>r. if r then logged c t rps True (\<lambda>x F. F = updated rps F0) else logged c t rps True (\<lambda>x. mixed rps F0)) ?E"
        using True by (auto intro: triple_conseq [OF triple_try_publish [OF assms(1), of t e]] journal_cases)
      have "triple (logged c t rps True (\<lambda>x F. F = updated rps F0)) (finish_transaction_cleanup e t) ?Q ?E"
        by (rule triple_conseq [OF triple_cleanup_new]) (auto simp: ended_def)
      then show "triple (if published then logged c t rps True (\<lambda>x F. F = updated rps F0) else logged c t rps True (\<lambda>x. mixed rps F0))
        (if published then finish_transaction_cleanup e t else ?undo) ?Q ?E" for published
        using undo True by simp
    qed
  next
    case False
    have "triple ?P (io_return False) (\<lambda>r d. \<not> r \<and> ?P d) ?E" by (simp add: triple_return)
    moreover have "triple (\<lambda>d. \<not> r \<and> ?P d) (if r then finish_transaction_cleanup e t else ?undo) ?Q ?E" for r
      using undo by (cases r) (simp_all add: triple_def)
    ultimately show ?thesis unfolding if_not_P [OF False] by (rule triple_bind)
  qed
  have version: "mf_version (manifest_of c b rps) = 2" "mf_committed (manifest_of c b rps) = b" "mf_entries (manifest_of c b rps) = ?ens"
    by (simp_all add: manifest_of_def ROLLUP_TRANSACTION_VERSION_def)
  show ?thesis
    unfolding recover_transaction_def
  proof (rule triple_bind)
    show "triple ?P (read_manifest c e t) (\<lambda>m d. ?P d \<and> m = manifest_of c b rps) ?E"
      by (rule triple_conseq [OF triple_read_manifest [OF assms(1)]]) (auto intro: in_journal)
    fix m
    show "triple (\<lambda>d. ?P d \<and> m = manifest_of c b rps)
      (if mf_version m \<notin> {LEGACY_ROLLUP_TRANSACTION_VERSION, ROLLUP_TRANSACTION_VERSION} then io_fail Recovery
       else
         io_bind (if mf_version m = LEGACY_ROLLUP_TRANSACTION_VERSION
                  then migrate_legacy_transaction_paths e t (mf_entries m) else io_return (mf_entries m)) (\<lambda>ens.
         io_then (io_lift (validate_manifest_entries ens {}))
        (io_bind (if mf_committed m then try_publish c e t ens else io_return False) (\<lambda>published.
           if published then finish_transaction_cleanup e t
           else io_then (rollback_transaction c e t ens) (io_then (or_recovery (validate_graph c e)) (finish_transaction_cleanup e t)))))) ?Q ?E"
    proof (cases "m = manifest_of c b rps")
      case True
      have "triple ?P (io_bind (io_return ?ens) (\<lambda>ens. io_then (io_lift (validate_manifest_entries ens {}))
        (io_bind (if b then try_publish c e t ens else io_return False) (\<lambda>published.
           if published then finish_transaction_cleanup e t
           else io_then (rollback_transaction c e t ens) (io_then (or_recovery (validate_graph c e)) (finish_transaction_cleanup e t)))))) ?Q ?E"
        using decide by (simp add: triple_def io_bind_def io_then_def io_return_def io_lift_def entries)
      then show ?thesis using True
        by (simp add: version LEGACY_ROLLUP_TRANSACTION_VERSION_def ROLLUP_TRANSACTION_VERSION_def)
    qed (simp add: triple_def)
  qed
qed


definition pending :: "store_codec \<Rightarrow> string \<Rightarrow> replacement list \<Rightarrow> (string \<rightharpoonup> string) \<Rightarrow> rec_disk \<Rightarrow> bool" where
  "pending c t rps F0 d \<longleftrightarrow>
     unlogged t (\<lambda>x F. F = F0 \<or> F = updated rps F0) d \<or>
     logged c t rps False (\<lambda>x F. F = F0) d \<or> logged c t rps True (\<lambda>x. mixed rps F0) d"

lemma journal_split: "journal c t rps F0 d \<longleftrightarrow> ended rps F0 d \<or> pending c t rps F0 d"
  by (auto simp: journal_def ended_def pending_def)

lemma pending_name: "pending c t rps F0 d \<Longrightarrow> map fst (txs d) = [t] \<and> rd_txs d \<noteq> None"
  by (auto simp: pending_def logged_def unlogged_def txs_def)

lemma triple_recover_directory:
  assumes "tx_setup c rps F0" "graph_of c F0 = Inr ()" "steady e"
  shows "triple (pending c t rps F0) (recover_directory c e t) (\<lambda>_. ended rps F0) (\<lambda>d. \<not> calm e \<and> journal c t rps F0 d)"
    (is "triple _ _ ?Q ?E")
  unfolding recover_directory_def
proof (rule triple_bind [OF triple_exists [OF assms(3)]])
  fix m
  have manifest: "logged c t rps b H d \<Longrightarrow> txd_manifest (tx_of d t) \<noteq> None" "unlogged t H d \<Longrightarrow> txd_manifest (tx_of d t) = None" for b H d
    by (auto simp: logged_def unlogged_def tx_single)
  have "triple (logged c t rps False (\<lambda>x F. F = F0)) (recover_transaction c e t) ?Q ?E"
    "triple (logged c t rps True (\<lambda>x. mixed rps F0)) (recover_transaction c e t) ?Q ?E"
    using triple_recover_transaction [OF assms(1,2), of t False e] triple_recover_transaction [OF assms(1,2), of t True e] by simp_all
  then have found: "triple (\<lambda>d. logged c t rps False (\<lambda>x F. F = F0) d \<or> logged c t rps True (\<lambda>x. mixed rps F0) d) (recover_transaction c e t) ?Q ?E"
    by (rule triple_disj)
  have one: "triple (unlogged t (\<lambda>x F. F = G)) (remove_transaction e t) ?Q ?E" if "G = F0 \<or> G = updated rps F0" for G
    by (rule triple_conseq [OF triple_remove_transaction [of t G]]) (use that in \<open>auto simp: ended_def intro: journal_cases\<close>)
  have "triple (\<lambda>d. unlogged t (\<lambda>x F. F = F0) d \<or> unlogged t (\<lambda>x F. F = updated rps F0) d) (remove_transaction e t) ?Q ?E"
    by (rule triple_disj) (simp_all add: one)
  then have missing: "triple (unlogged t (\<lambda>x F. F = F0 \<or> F = updated rps F0)) (remove_transaction e t) ?Q ?E"
    by (rule triple_pre) (auto simp: unlogged_def)
  show "triple (\<lambda>d. pending c t rps F0 d \<and> m = (txd_manifest (tx_of d t) \<noteq> None))
      (if \<not> m then remove_transaction e t else recover_transaction c e t) ?Q ?E"
  proof (cases m)
    case True
    then show ?thesis by (simp, rule_tac triple_pre [OF found]) (auto simp: pending_def dest: manifest)
  next
    case False
    then show ?thesis by (simp, rule_tac triple_pre [OF missing]) (auto simp: pending_def dest: manifest)
  qed
qed

lemma triple_recover_one:
  assumes "tx_setup c rps F0" "graph_of c F0 = Inr ()" "steady e"
  shows "triple (pending c t rps F0) (recover_one c e t) (\<lambda>_. ended rps F0) (\<lambda>d. \<not> calm e \<and> journal c t rps F0 d)"
  unfolding recover_one_def
proof (rule triple_bind [OF triple_exists [OF assms(3)]])
  fix is_dir
  show "triple (\<lambda>d. pending c t rps F0 d \<and> is_dir = True) (if \<not> is_dir then io_return () else recover_directory c e t)
      (\<lambda>_. ended rps F0) (\<lambda>d. \<not> calm e \<and> journal c t rps F0 d)"
    using triple_recover_directory [OF assms, of t] by (cases is_dir) (simp_all add: triple_def)
qed

lemma triple_recover_listed:
  assumes "tx_setup c rps F0" "graph_of c F0 = Inr ()" "steady e"
  shows "triple (\<lambda>d. journal c t rps F0 d \<and> ts = map fst (txs d)) (io_each (recover_one c e) ts) (\<lambda>_. ended rps F0)
    (\<lambda>d. \<not> calm e \<and> journal c t rps F0 d)"
proof -
  have ended_empty: "ended rps F0 d \<Longrightarrow> txs d = []" for d by (auto simp: ended_def settled_with_def)
  show ?thesis
  proof (cases "ts = [t]")
    case True
    have "triple (ended rps F0) (io_return ()) (\<lambda>_. ended rps F0) (\<lambda>d. \<not> calm e \<and> journal c t rps F0 d)" by (simp add: triple_return)
    then have "triple (pending c t rps F0) (io_each (recover_one c e) [t]) (\<lambda>_. ended rps F0) (\<lambda>d. \<not> calm e \<and> journal c t rps F0 d)"
      unfolding io_each.simps by (rule triple_then [OF triple_recover_one [OF assms]])
    then show ?thesis unfolding True by (rule triple_pre) (auto simp: journal_split dest: ended_empty)
  next
    case False
    then have rest: "ended rps F0 d \<and> ts = []" if "journal c t rps F0 d \<and> ts = map fst (txs d)" for d
      using that by (auto simp: journal_split dest: ended_empty pending_name)
    show ?thesis
    proof (cases "ts = []")
      case True
      then show ?thesis by (simp, rule_tac triple_return) (use rest in simp)
    qed (use rest in \<open>auto simp: triple_def\<close>)
  qed
qed

text \<open>
  Recovery from any state a commit or an earlier recovery can leave: it ends the transaction, or it
  was disturbed and the state is one of those again.
\<close>

lemma triple_recover_transactions:
  assumes "tx_setup c rps F0" "graph_of c F0 = Inr ()" "steady e"
  shows "triple (journal c t rps F0) (recover_transactions c e) (\<lambda>_. ended rps F0) (\<lambda>d. \<not> calm e \<and> journal c t rps F0 d)"
    (is "triple ?J _ ?Q ?E")
  unfolding recover_transactions_def
proof (rule triple_bind [OF triple_exists [OF assms(3)]])
  fix root
  let ?drop = "fs_call e unharmed (\<lambda>d. (Inr (), d\<lparr>rd_txs := None\<rparr>))"
  have journal: "ended rps F0 d \<Longrightarrow> ?J d" for d by (simp add: journal_split)
  have drop: "triple (ended rps F0) (io_then ?drop (sync_directory e)) ?Q ?E"
  proof (rule triple_then)
    show "triple (ended rps F0) ?drop (\<lambda>_. ended rps F0) ?E"
      by (rule triple_fs) (auto simp: unharmed_def calm_def journal, auto simp: ended_def settled_with_def txs_def)
    show "triple (ended rps F0) (sync_directory e) ?Q ?E"
      by (rule triple_conseq [OF triple_sync [of "ended rps F0"]]) (auto intro: journal)
  qed
  have tail: "triple (ended rps F0) (io_bind (fs_call e unharmed (\<lambda>d. (Inr (txs d = []), d))) (\<lambda>empty.
      if empty then io_then ?drop (sync_directory e) else io_return ())) ?Q ?E"
  proof (rule triple_bind)
    show "triple (ended rps F0) (fs_call e unharmed (\<lambda>d. (Inr (txs d = []), d))) (\<lambda>_. ended rps F0) ?E"
      by (rule triple_conseq [OF triple_look [of "ended rps F0"]]) (auto intro: journal)
  qed (use drop in \<open>auto intro: triple_return\<close>)
  have all: "triple ?J (io_bind (fs_call e unharmed (\<lambda>d. (Inr (map fst (txs d)), d))) (\<lambda>ts. io_then (io_each (recover_one c e) ts)
        (io_bind (fs_call e unharmed (\<lambda>d. (Inr (txs d = []), d))) (\<lambda>empty.
           if empty then io_then ?drop (sync_directory e) else io_return ())))) ?Q ?E"
    by (rule triple_bind [OF triple_look [of ?J]]) (rule triple_then [OF triple_recover_listed [OF assms] tail])
  show "triple (\<lambda>d. ?J d \<and> root = (rd_txs d \<noteq> None)) (if \<not> root then io_return () else
      io_bind (fs_call e unharmed (\<lambda>d. (Inr (map fst (txs d)), d))) (\<lambda>ts. io_then (io_each (recover_one c e) ts)
        (io_bind (fs_call e unharmed (\<lambda>d. (Inr (txs d = []), d))) (\<lambda>empty.
           if empty then io_then ?drop (sync_directory e) else io_return ())))) ?Q ?E"
  proof (cases root)
    case True
    then show ?thesis by (simp, rule_tac triple_pre [OF all]) simp
  next
    case False
    then show ?thesis by (simp, rule_tac triple_return) (auto simp: journal_split dest: pending_name)
  qed
qed


section \<open>Committing\<close>

lemma triple_create:
  "triple (\<lambda>d. settled_with F0 d \<or> unlogged t (\<lambda>x F. F = F0) d) (create_transaction e t) (\<lambda>_. unlogged t (\<lambda>x F. F = F0))
     (\<lambda>d. settled_with F0 d \<or> unlogged t (\<lambda>x F. F = F0) d)"
  unfolding create_transaction_def
  by (rule triple_fs) (auto simp: settled_with_def unlogged_def add_tx_def txs_def split: option.splits)

lemma unlogged_conseq:
  assumes "unlogged t H d" and "\<And>x. H x (files d) \<Longrightarrow> H' x (files d)"
  shows "unlogged t H' d"
  using assms unfolding unlogged_def by blast

lemma triple_stage_file:
  assumes "\<And>x. S x \<Longrightarrow> S' (put_file f s x)"
  shows "triple (unlogged t (\<lambda>x F. F = F0 \<and> S x)) (tx_write e t f s) (\<lambda>_. unlogged t (\<lambda>x F. F = F0 \<and> S' x)) (unlogged t (\<lambda>x F. F = F0))"
  unfolding tx_write_def
  by (rule triple_fs) (use assms in \<open>auto simp: unlogged_def tx_single split: option.split\<close>)

text \<open>The content of a replacement as it must be staged.\<close>

definition staged :: "replacement \<Rightarrow> (string \<rightharpoonup> string) \<Rightarrow> bool" where
  "staged rp T \<longleftrightarrow> (\<forall>b. rp_old rp = Some b \<longrightarrow> T (transaction_backup_path (rp_id rp)) = Some b) \<and>
     (\<forall>b. rp_new rp = Some b \<longrightarrow> T (transaction_staged_path (rp_id rp)) = Some b)"

lemma triple_stage_replacement:
  assumes other: "\<And>rq. rq \<in> set ys \<Longrightarrow> rp_id rq \<noteq> rp_id rp"
  shows "triple (unlogged t (\<lambda>x F. F = F0 \<and> (\<forall>rq \<in> set ys. staged rq (map_of (txd_files x))))) (stage_replacement e t rp)
    (\<lambda>_. unlogged t (\<lambda>x F. F = F0 \<and> (\<forall>rq \<in> set (ys @ [rp]). staged rq (map_of (txd_files x))))) (unlogged t (\<lambda>x F. F = F0))"
  unfolding stage_replacement_def
proof (rule triple_then)
  let ?S = "\<lambda>x. \<forall>rq \<in> set ys. staged rq (map_of (txd_files x))"
  let ?B = "\<lambda>x. ?S x \<and> (\<forall>b. rp_old rp = Some b \<longrightarrow> map_of (txd_files x) (transaction_backup_path (rp_id rp)) = Some b)"
  show "triple (unlogged t (\<lambda>x F. F = F0 \<and> ?S x))
      (case rp_old rp of None \<Rightarrow> io_return () | Some old \<Rightarrow> tx_write e t (transaction_backup_path (rp_id rp)) old)
      (\<lambda>_. unlogged t (\<lambda>x F. F = F0 \<and> ?B x)) (unlogged t (\<lambda>x F. F = F0))"
    using other by (auto simp: staged_def intro!: triple_return triple_stage_file split: option.split)
  show "triple (unlogged t (\<lambda>x F. F = F0 \<and> ?B x))
      (case rp_new rp of None \<Rightarrow> io_return () | Some new \<Rightarrow> tx_write e t (transaction_staged_path (rp_id rp)) new)
      (\<lambda>_. unlogged t (\<lambda>x F. F = F0 \<and> (\<forall>rq \<in> set (ys @ [rp]). staged rq (map_of (txd_files x))))) (unlogged t (\<lambda>x F. F = F0))"
    using other by (auto simp: staged_def intro!: triple_return triple_stage_file elim!: unlogged_conseq split: option.split)
qed

lemma triple_stage_all:
  assumes "distinct (map rp_id rps)"
  shows "triple (unlogged t (\<lambda>x F. F = F0)) (io_each (stage_replacement e t) rps) (\<lambda>_. unlogged t (\<lambda>x F. F = F0 \<and> tx_ok rps x))
    (unlogged t (\<lambda>x F. F = F0))"
proof -
  define I where "I = (\<lambda>ys. unlogged t (\<lambda>x F. F = F0 \<and> (\<forall>rq \<in> set ys. staged rq (map_of (txd_files x)))))"
  have "triple (I []) (io_each (stage_replacement e t) rps) (\<lambda>_. I rps) (unlogged t (\<lambda>x F. F = F0))"
  proof (rule triple_each)
    fix ys rp rest assume "rps = ys @ rp # rest"
    then have "rp_id rp \<notin> rp_id ` set ys" using assms by simp
    then show "triple (I ys) (stage_replacement e t rp) (\<lambda>_. I (ys @ [rp])) (unlogged t (\<lambda>x F. F = F0))"
      unfolding I_def by (intro triple_stage_replacement) (metis image_eqI)
  qed
  then show ?thesis
    by (rule triple_conseq) (auto simp: I_def unlogged_def tx_ok_def staged_def)
qed

text \<open>The manifest is written aside and put in place by a rename.\<close>

lemma triple_install:
  assumes "\<And>x F. H x F \<Longrightarrow> tx_ok rps x \<and> map_of (txd_files x) manifest_temporary = Some (manifest_json c (manifest_of c b rps)) \<and> F = F0"
    and "P = (\<lambda>d. \<exists>x. rd_txs d = Some [(t, x)] \<and> H x (files d))"
  shows "triple P (install_manifest e t) (\<lambda>_. logged c t rps b (\<lambda>x F. F = F0)) P"
  unfolding install_manifest_def assms(2)
proof (rule triple_fs)
  fix d assume "\<exists>x. rd_txs d = Some [(t, x)] \<and> H x (files d)"
  then obtain x where x: "rd_txs d = Some [(t, x)]" "H x (files d)" by blast
  then have "tx_ok rps (drop_file manifest_temporary x)" using assms(1) by (auto intro: tx_ok_drop)
  then have "tx_ok rps ((drop_file manifest_temporary x)\<lparr>txd_manifest := Some s\<rparr>)" for s by (simp add: tx_ok_def)
  then show "case (case map_of (txd_files (tx_of d t)) manifest_temporary of None \<Rightarrow> (Inl IoFailed, d)
       | Some b \<Rightarrow> (Inr (), on_tx t (\<lambda>x. (drop_file manifest_temporary x)\<lparr>txd_manifest := Some b\<rparr>) d)) of
      (Inl err, d1) \<Rightarrow> \<exists>x. rd_txs d1 = Some [(t, x)] \<and> H x (files d1)
    | (Inr u, d1) \<Rightarrow> logged c t rps b (\<lambda>x F. F = F0) d1"
    using x assms(1) by (simp add: tx_single logged_def)
qed (simp add: unharmed_def)


lemma triple_write_manifest:
  assumes temporary: "triple P (tx_write e t manifest_temporary (manifest_json c (manifest_of c b rps)))
      (\<lambda>_ d. \<exists>x. rd_txs d = Some [(t, x)] \<and> H x (files d) \<and> tx_ok rps x \<and> files d = F0 \<and>
         map_of (txd_files x) manifest_temporary = Some (manifest_json c (manifest_of c b rps))) E"
    and E: "\<And>d x. rd_txs d = Some [(t, x)] \<Longrightarrow> H x (files d) \<Longrightarrow> tx_ok rps x \<Longrightarrow> files d = F0 \<Longrightarrow> E d"
    and written: "\<And>d. logged c t rps b (\<lambda>x F. F = F0) d \<Longrightarrow> E d"
  shows "triple P (write_manifest_atomic c e t (manifest_of c b rps)) (\<lambda>_. logged c t rps b (\<lambda>x F. F = F0)) E"
  unfolding write_manifest_atomic_def
proof (intro triple_then)
  let ?O = "logged c t rps b (\<lambda>x F. F = F0)"
  let ?M = "\<lambda>d. \<exists>x. rd_txs d = Some [(t, x)] \<and> H x (files d) \<and> tx_ok rps x \<and> files d = F0 \<and>
         map_of (txd_files x) manifest_temporary = Some (manifest_json c (manifest_of c b rps))"
  show "triple P (tx_write e t manifest_temporary (manifest_json c (manifest_of c b rps))) (\<lambda>_. ?M) E" by (rule temporary)
  have "triple ?M (install_manifest e t) (\<lambda>_. ?O) ?M"
    by (rule triple_install [where H = "\<lambda>x F. H x F \<and> tx_ok rps x \<and> F = F0 \<and>
         map_of (txd_files x) manifest_temporary = Some (manifest_json c (manifest_of c b rps))"]) auto
  then show "triple ?M (install_manifest e t) (\<lambda>_. ?O) E" by (rule triple_conseq) (use E in blast)+
  have "triple ?O (sync_directory e) (\<lambda>_. ?O) E"
    by (rule triple_conseq [OF triple_sync [of ?O]]) (auto intro: written)
  then show "triple ?O (sync_directory e) (\<lambda>_. ?O) E" "triple ?O (sync_directory e) (\<lambda>_. ?O) E" by assumption+
qed

lemma temporary_elsewhere: "manifest_temporary \<noteq> transaction_backup_path i \<and> manifest_temporary \<noteq> transaction_staged_path i"
  by simp

lemma triple_first_manifest:
  "triple (unlogged t (\<lambda>x F. F = F0 \<and> tx_ok rps x)) (write_manifest_atomic c e t (manifest_of c False rps))
     (\<lambda>_. logged c t rps False (\<lambda>x F. F = F0)) (journal c t rps F0)"
proof (rule triple_write_manifest [where H = "\<lambda>x F. txd_manifest x = None"])
  let ?json = "manifest_json c (manifest_of c False rps)"
  have "triple (unlogged t (\<lambda>x F. F = F0 \<and> tx_ok rps x)) (tx_write e t manifest_temporary ?json)
      (\<lambda>_. unlogged t (\<lambda>x F. F = F0 \<and> (tx_ok rps x \<and> map_of (txd_files x) manifest_temporary = Some ?json))) (unlogged t (\<lambda>x F. F = F0))"
    by (rule triple_stage_file) (simp add: tx_ok_put temporary_elsewhere)
  then show "triple (unlogged t (\<lambda>x F. F = F0 \<and> tx_ok rps x)) (tx_write e t manifest_temporary ?json)
      (\<lambda>_ d. \<exists>x. rd_txs d = Some [(t, x)] \<and> txd_manifest x = None \<and> tx_ok rps x \<and> files d = F0 \<and>
         map_of (txd_files x) manifest_temporary = Some ?json) (journal c t rps F0)"
    by (rule triple_conseq) (auto simp: unlogged_def journal_def)
qed (auto simp: journal_def unlogged_def)

lemma triple_second_manifest:
  "triple (logged c t rps False (\<lambda>x F. F = F0)) (write_manifest_atomic c e t (manifest_of c True rps))
     (\<lambda>_. logged c t rps True (\<lambda>x F. F = F0)) (journal c t rps F0)"
proof (rule triple_write_manifest [where H = "\<lambda>x F. txd_manifest x = Some (manifest_json c (manifest_of c False rps))"])
  let ?json = "manifest_json c (manifest_of c True rps)"
  have "triple (logged c t rps False (\<lambda>x F. F = F0)) (tx_write e t manifest_temporary ?json)
      (\<lambda>_. logged c t rps False (\<lambda>x F. F = F0 \<and> map_of (txd_files x) manifest_temporary = Some ?json))
      (\<lambda>d. \<not> calm e \<and> logged c t rps False (\<lambda>x F. F = F0) d)"
    by (rule triple_tx_write [OF temporary_elsewhere])
  then show "triple (logged c t rps False (\<lambda>x F. F = F0)) (tx_write e t manifest_temporary ?json)
      (\<lambda>_ d. \<exists>x. rd_txs d = Some [(t, x)] \<and> txd_manifest x = Some (manifest_json c (manifest_of c False rps)) \<and> tx_ok rps x \<and>
         files d = F0 \<and> map_of (txd_files x) manifest_temporary = Some ?json) (journal c t rps F0)"
    by (rule triple_conseq) (auto simp: logged_def journal_def)
qed (use journal_cases(5) in \<open>auto simp: journal_def logged_def\<close>)

lemma triple_keep_sync: "(\<And>d. P d \<Longrightarrow> E d) \<Longrightarrow> triple P (sync_directory e) (\<lambda>_. P) E"
  by (rule triple_conseq [OF triple_sync [of P]]) auto

lemma triple_undo_invalid:
  assumes "tx_setup c rps F0"
  shows "triple (logged c t rps True (\<lambda>x. mixed rps F0)) (undo_invalid c e t (map (entry_of c) rps) err) Q (journal c t rps F0)"
  unfolding undo_invalid_def
proof (rule triple_bind [OF triple_attempt [OF triple_rollback [OF assms]]])
  let ?O = "logged c t rps True (\<lambda>x F. mixed rps F0 F \<and> F = F0)" and ?M = "logged c t rps True (\<lambda>x. mixed rps F0)"
  have in_journal: "?O d \<Longrightarrow> journal c t rps F0 d" for d
    by (rule journal_cases(6), erule logged_conseq) (simp add: mixed_ends)
  have check: "triple ?O (io_bind (io_attempt (validate_graph c e)) (\<lambda>v. case v of Inl _ \<Rightarrow> io_fail Recovery | Inr _ \<Rightarrow> io_fail err)) Q
      (journal c t rps F0)"
  proof (rule triple_bind [OF triple_attempt [OF triple_validate_graph [of ?O c e]]])
    show "triple (\<lambda>d. case r of Inl _ \<Rightarrow> ?O d \<and> (calm e \<longrightarrow> graph_of c (files d) \<noteq> Inr ()) | Inr _ \<Rightarrow> ?O d \<and> graph_of c (files d) = Inr ())
       (case r of Inl _ \<Rightarrow> io_fail Recovery | Inr _ \<Rightarrow> io_fail err) Q (journal c t rps F0)" for r :: "store_error + unit"
      by (cases r) (auto intro!: triple_fail in_journal)
  qed
  show "triple (\<lambda>d. case r of Inl _ \<Rightarrow> \<not> calm e \<and> ?M d | Inr _ \<Rightarrow> ?O d)
     (case r of Inl _ \<Rightarrow> io_fail Recovery | Inr _ \<Rightarrow>
        io_bind (io_attempt (validate_graph c e)) (\<lambda>v. case v of Inl _ \<Rightarrow> io_fail Recovery | Inr _ \<Rightarrow> io_fail err)) Q (journal c t rps F0)"
    for r :: "store_error + unit"
    using check by (cases r) (auto intro!: triple_fail journal_cases(6))
qed (use mixed_update(2) [OF assms] in auto)


lemma triple_run_transaction:
  assumes "tx_setup c rps F0"
  shows "triple (settled_with F0) (run_transaction c e t rps)
    (\<lambda>_ d. settled_with (updated rps F0) d \<and> graph_of c (updated rps F0) = Inr ()) (journal c t rps F0)"
  unfolding run_transaction_def
proof (intro triple_then)
  let ?U = "unlogged t (\<lambda>x F. F = F0)" and ?E = "journal c t rps F0" and ?N = "logged c t rps True (\<lambda>x F. F = updated rps F0)"
  show "triple (settled_with F0) (create_transaction e t) (\<lambda>_. ?U) ?E" "triple ?U (create_transaction e t) (\<lambda>_. ?U) ?E"
    by (rule triple_conseq [OF triple_create [of F0 t e]]; auto intro: journal_cases)+
  show "triple ?U (io_each (stage_replacement e t) rps) (\<lambda>_. unlogged t (\<lambda>x F. F = F0 \<and> tx_ok rps x)) ?E"
    by (rule triple_conseq [OF triple_stage_all]) (use assms in \<open>auto simp: tx_setup_def intro: journal_cases\<close>)
  show "triple (unlogged t (\<lambda>x F. F = F0 \<and> tx_ok rps x)) (write_manifest_atomic c e t (manifest_of c False rps))
     (\<lambda>_. logged c t rps False (\<lambda>x F. F = F0)) ?E" by (rule triple_first_manifest)
  show "triple (logged c t rps False (\<lambda>x F. F = F0)) (write_manifest_atomic c e t (manifest_of c True rps))
     (\<lambda>_. logged c t rps True (\<lambda>x F. F = F0)) ?E" by (rule triple_second_manifest)
  show "triple (logged c t rps True (\<lambda>x F. F = F0)) (io_each (publish_entry c e t) (map (entry_of c) rps)) (\<lambda>_. ?N) ?E"
    by (rule triple_conseq [OF triple_publish_all [OF assms]]) (auto intro: journal_cases elim!: logged_conseq simp: mixed_ends)
  show "triple ?N (io_bind (io_attempt (validate_graph c e)) (\<lambda>v. case v of Inl err \<Rightarrow> undo_invalid c e t (map (entry_of c) rps) err
      | Inr _ \<Rightarrow> finish_transaction_cleanup e t)) (\<lambda>_ d. settled_with (updated rps F0) d \<and> graph_of c (updated rps F0) = Inr ()) ?E"
  proof (rule triple_bind [OF triple_attempt [OF triple_validate_graph [of ?N c e]]])
    fix r :: "store_error + unit"
    let ?Q = "\<lambda>_ d. settled_with (updated rps F0) d \<and> graph_of c (updated rps F0) = Inr ()"
    have "triple ?N (finish_transaction_cleanup e t) ?Q ?E" if "graph_of c (updated rps F0) = Inr ()"
      by (rule triple_conseq [OF triple_cleanup_new]) (use that in auto)
    then have clean: "triple (\<lambda>d. ?N d \<and> graph_of c (files d) = Inr ()) (finish_transaction_cleanup e t) ?Q ?E"
      by (cases "graph_of c (updated rps F0) = Inr ()") (auto simp: triple_def logged_def)
    have "triple ?N (undo_invalid c e t (map (entry_of c) rps) err) ?Q ?E" for err
      by (rule triple_pre [OF triple_undo_invalid [OF assms]], erule logged_conseq) (simp add: mixed_ends)
    then show "triple (\<lambda>d. case r of Inl _ \<Rightarrow> ?N d \<and> (calm e \<longrightarrow> graph_of c (files d) \<noteq> Inr ()) | Inr _ \<Rightarrow> ?N d \<and> graph_of c (files d) = Inr ())
       (case r of Inl err \<Rightarrow> undo_invalid c e t (map (entry_of c) rps) err | Inr _ \<Rightarrow> finish_transaction_cleanup e t) ?Q ?E"
      using clean by (cases r) (auto intro: triple_pre)
  qed
qed (rule triple_keep_sync, erule journal_cases)+

lemma triple_verify_hashes: "triple P (verify_hashes c e xs) (\<lambda>_. P) P"
proof (induction xs)
  case (Cons x xs)
  have more: "triple (\<lambda>d. P d \<and> R d) (verify_hashes c e xs) (\<lambda>_. P) P" for R
    by (rule triple_pre [OF Cons.IH]) simp
  show ?case
    by (cases x) (auto intro!: triple_fail triple_bind [OF triple_fs_read] simp: Let_def more)
qed (simp add: triple_return)

lemma triple_verify_expected: "triple P (verify_expected c e xs rs) (\<lambda>_. P) P"
  unfolding verify_expected_def by (rule triple_then [OF triple_verify_hashes]) (auto intro: triple_fail triple_return)

lemma triple_check_unchanged: "triple P (io_each (check_unchanged e) rps) (\<lambda>_. P) P"
  by (rule triple_each [where I = "\<lambda>_. P"])
     (auto simp: check_unchanged_def Let_def intro!: triple_bind [OF triple_fs_read] triple_fail triple_return)

lemma triple_run_fresh:
  assumes "tx_setup c rps F0"
  shows "triple (settled_with F0) (\<lambda>w. run_transaction c e (fresh e (w_step w)) rps w)
    (\<lambda>_ d. settled_with (updated rps F0) d \<and> graph_of c (updated rps F0) = Inr ()) (\<lambda>d. \<exists>t. journal c t rps F0 d)"
  using triple_run_transaction [OF assms] unfolding triple_def by (fastforce split: prod.splits sum.splits)

lemma triple_commit:
  assumes "tx_setup c rps F0"
  shows "triple (settled_with F0) (commit_replacements c e expected rps) (\<lambda>_. settled_with (updated rps F0))
    (\<lambda>d. \<exists>t. journal c t rps F0 d)"
  unfolding commit_replacements_def
proof (rule triple_bind)
  let ?E = "\<lambda>d. \<exists>t. journal c t rps F0 d"
  have E: "settled_with F0 d \<Longrightarrow> ?E d" for d by (blast intro: journal_cases)
  show "triple (settled_with F0) (read_all c e) (\<lambda>_. settled_with F0) ?E"
    by (rule triple_conseq [OF triple_read_all [of "settled_with F0"]]) (auto intro: E)
  have "triple (settled_with F0) (\<lambda>w. run_transaction c e (fresh e (w_step w)) rps w) (\<lambda>_. settled_with (updated rps F0)) ?E"
    by (rule triple_conseq [OF triple_run_fresh [OF assms]]) auto
  moreover have "triple (settled_with F0) (io_return ()) (\<lambda>_. settled_with (updated rps F0)) ?E" if "rps = []"
    by (rule triple_return) (auto simp: that updated_def settled_with_def)
  ultimately have run: "triple (settled_with F0) (if rps = [] then io_return () else (\<lambda>w. run_transaction c e (fresh e (w_step w)) rps w))
      (\<lambda>_. settled_with (updated rps F0)) ?E" by simp
  show "triple (settled_with F0) (io_then (verify_expected c e expected current) (io_then (io_each (check_unchanged e) rps)
      (if rps = [] then io_return () else (\<lambda>w. run_transaction c e (fresh e (w_step w)) rps w)))) (\<lambda>_. settled_with (updated rps F0)) ?E" for current
  proof (intro triple_then)
    show "triple (settled_with F0) (verify_expected c e expected current) (\<lambda>_. settled_with F0) ?E"
      by (rule triple_conseq [OF triple_verify_expected [of "settled_with F0"]]) (auto intro: E)
    show "triple (settled_with F0) (io_each (check_unchanged e) rps) (\<lambda>_. settled_with F0) ?E"
      by (rule triple_conseq [OF triple_check_unchanged [of "settled_with F0"]]) (auto intro: E)
  qed (rule run)
qed

section \<open>Atomicity\<close>

text \<open>Recoveries one after another, each as far as its file system lets it get.\<close>

fun recover_all :: "store_codec \<Rightarrow> rec_env list \<Rightarrow> rec_world \<Rightarrow> rec_world" where
  "recover_all c [] w = w"
| "recover_all c (e # es) w = recover_all c es (snd (recover_transactions c e w))"

lemma triple_run: "triple P m Q E \<Longrightarrow> P (w_disk w) \<Longrightarrow> (case m w of (Inl err, w1) \<Rightarrow> E (w_disk w1) | (Inr x, w1) \<Rightarrow> Q x (w_disk w1))"
  by (simp add: triple_def)

lemma recover_all_keeps:
  assumes "\<And>e. e \<in> set es \<Longrightarrow> triple P (recover_transactions c e) (\<lambda>_. P) P" "P (w_disk w)"
  shows "P (w_disk (recover_all c es w))"
  using assms
proof (induction es arbitrary: w)
  case (Cons e es)
  have "P (w_disk (snd (recover_transactions c e w)))"
    using triple_run [OF Cons.prems(1) [of e] Cons.prems(2)] by (auto split: prod.splits sum.splits)
  then show ?case using Cons.IH Cons.prems(1) by simp
qed simp

lemma triple_recover_settled:
  "triple (settled_with G) (recover_transactions c e) (\<lambda>_. settled_with G) (\<lambda>d. \<not> calm e \<and> settled_with G d)"
proof -
  have listed: "triple (\<lambda>d. settled_with G d \<and> ts = map fst (txs d)) (io_each (recover_one c e) ts) (\<lambda>_. settled_with G)
      (\<lambda>d. \<not> calm e \<and> settled_with G d)" for ts
    by (cases ts) (auto simp: settled_with_def intro!: triple_return, auto simp: triple_def)
  have drop: "triple (settled_with G) (io_then (fs_call e unharmed (\<lambda>d. (Inr (), d\<lparr>rd_txs := None\<rparr>))) (sync_directory e)) (\<lambda>_. settled_with G)
      (\<lambda>d. \<not> calm e \<and> settled_with G d)"
    by (rule triple_then [OF triple_fs triple_sync]) (auto simp: settled_with_def unharmed_def calm_def txs_def)
  show ?thesis
    unfolding recover_transactions_def
  proof (rule triple_bind)
    show "triple (settled_with G) (fs_exists e (\<lambda>d. rd_txs d \<noteq> None)) (\<lambda>_. settled_with G) (\<lambda>d. \<not> calm e \<and> settled_with G d)"
      by (simp add: triple_def fs_exists_def)
  qed (auto intro!: triple_return triple_then [OF listed] triple_bind [OF triple_look] drop intro: triple_pre [OF drop])
qed


text \<open>
  C2: A set of records is replaced as a whole. From a directory whose transactions are
  settled, take any commit, interrupted by a failing or crashing file system at any call, with torn
  writes, and then any number of recoveries that are interrupted in the same way. The next recovery
  that is not disturbed succeeds, no transaction is left, and the files are exactly the old ones or
  exactly the new ones; they are the new ones when the commit had reported success. Needed are the
  reading back of a manifest that was written, that the hash tells a file's old content from its new
  one, that the old records form a valid graph, and that looking whether a file exists is answered
  truthfully during recovery.
\<close>

theorem commit_crash_atomic:
  assumes "tx_setup c rps F0" "graph_of c F0 = Inr ()" "settled_with F0 (w_disk w)"
    and "commit_replacements c e expected rps w = (r, w1)"
    and "\<And>e1. e1 \<in> set es \<Longrightarrow> steady e1" "steady e2" "calm e2"
  shows "\<exists>w2. recover_transactions c e2 (recover_all c es w1) = (Inr (), w2) \<and> txs (w_disk w2) = [] \<and>
    files (w_disk w2) \<in> (if r = Inr () then {updated rps F0} else {F0, updated rps F0})"
proof -
  obtain r2 w2 where run: "recover_transactions c e2 (recover_all c es w1) = (r2, w2)" by fastforce
  have commit: "case (r, w1) of (Inl err, w1) \<Rightarrow> \<exists>t. journal c t rps F0 (w_disk w1) | (Inr x, w1) \<Rightarrow> settled_with (updated rps F0) (w_disk w1)"
    using triple_run [OF triple_commit [OF assms(1)] assms(3), of e expected] assms(4) by simp
  show ?thesis
  proof (cases r)
    case (Inr u)
    then have "settled_with (updated rps F0) (w_disk w1)" using commit by simp
    then have "settled_with (updated rps F0) (w_disk (recover_all c es w1))"
      by (rule recover_all_keeps [OF triple_disturbed [OF triple_recover_settled]])
    note triple_run [OF triple_recover_settled this, of e2 c, unfolded run]
    then have "r2 = Inr () \<and> settled_with (updated rps F0) (w_disk w2)"
      using assms(7) by (cases r2) simp_all
    then show ?thesis using run Inr by (simp add: settled_with_def)
  next
    case (Inl err)
    then obtain t where t: "journal c t rps F0 (w_disk w1)" using commit by auto
    have keep: "triple (journal c t rps F0) (recover_transactions c e1) (\<lambda>_. journal c t rps F0) (journal c t rps F0)" if "e1 \<in> set es" for e1
      by (rule triple_conseq [OF triple_recover_transactions [OF assms(1,2) assms(5) [OF that], of t]]) (simp_all add: journal_split)
    have "journal c t rps F0 (w_disk (recover_all c es w1))" by (rule recover_all_keeps [OF keep t])
    note triple_run [OF triple_recover_transactions [OF assms(1,2,6)] this, unfolded run]
    then have "r2 = Inr () \<and> ended rps F0 (w_disk w2)"
      using assms(7) by (cases r2) simp_all
    then show ?thesis using run Inl by (auto simp: ended_def settled_with_def)
  qed
qed

text \<open>A directory with one record, which a commit replaces.\<close>

definition one_entry :: "string option \<Rightarrow> string option \<Rightarrow> tx_manifest list" where
  "one_entry old new = map (\<lambda>b. \<lparr>mf_version = ROLLUP_TRANSACTION_VERSION, mf_committed = b, mf_entries =
     [\<lparr>en_id = ''a'', en_target = ''a.json'', en_staged = map_option (\<lambda>_. ''staged/a.json'') new,
       en_backup = map_option (\<lambda>_. ''backups/a.json'') old, en_old_sha256 = old, en_old_exists = (old \<noteq> None),
       en_new_sha256 = new, en_new_exists = (new \<noteq> None)\<rparr>]\<rparr>) [False, True]"

definition sample_store_codec :: store_codec where
  "sample_store_codec =
     \<lparr>rec_part = sample_rec_codec, rec_json = (\<lambda>r. ''r''), rec_parse = (\<lambda>s. Some (sample_recommendation ''a'')),
      manifest_json = (\<lambda>m. if mf_committed m then ''C'' else ''U''),
      manifest_parse = (\<lambda>s. if s = ''C'' then Some (one_entry (Some ''old'') (Some ''new'') ! 1)
                           else if s = ''U'' then Some (one_entry (Some ''old'') (Some ''new'') ! 0) else None),
      hash_bytes = (\<lambda>s. s)\<rparr>"

definition sample_replacement :: replacement where
  "sample_replacement = \<lparr>rp_id = ''a'', rp_old = Some ''old'', rp_new = Some ''new''\<rparr>"

definition calm_env :: rec_env where
  "calm_env = \<lparr>fault = (\<lambda>n. False), stat_fault = (\<lambda>n. False), torn = (\<lambda>n. None), kept = (\<lambda>n f. False), fresh = (\<lambda>n. ''tx'')\<rparr>"

text \<open>The file system stops for good at the given call.\<close>

definition crash_at :: "nat \<Rightarrow> rec_env" where
  "crash_at k = calm_env\<lparr>fault := (\<lambda>n. k \<le> n), torn := (\<lambda>n. Some ''ne'')\<rparr>"

definition sample_world :: rec_world where
  "sample_world = \<lparr>w_disk = \<lparr>rd_files = [(''a.json'', ''old'')], rd_txs = None\<rparr>, w_step = 0\<rparr>"

lemma sample_filename: "recommendation_filename ''a'' = ''a.json''" "transaction_staged_path ''a'' = ''staged/a.json''"
  "transaction_backup_path ''a'' = ''backups/a.json''" "valid_id ''a''"
  by (simp_all add: recommendation_filename_def transaction_staged_path_def transaction_backup_path_def filename_component_def
      encoded_byte_def valid_id_def safe_byte_def ascii_alphanumeric_def)

lemma sample_record_valid: "validate_recommendation sample_rec_codec (sample_recommendation i) = Inr ()"
  by (simp add: validate_recommendation_def check_packet_def approval_required_def)

lemma sample_files_valid: "graph_of sample_store_codec [''a.json'' \<mapsto> s] = Inr ()" if "s = ''old'' \<or> s = ''new''"
proof -
  have "names_of [''a.json'' \<mapsto> s] = [''a.json'']" by (simp add: names_of_def json_name_def ends_with_def)
  moreover have "read_record sample_store_codec (Some s) = Inr (sample_recommendation ''a'')"
    using that by (auto simp: read_record_def sample_store_codec_def sample_record_valid)
  moreover have "graph_checked sample_store_codec [sample_recommendation ''a''] = Inr ()"
  proof -
    have "validate_graph_records sample_rec_codec [sample_recommendation ''a''] = Inr ()"
      by (simp add: validate_graph_ok graph_ok_def record_ok_def member_keys_def active_parent_def)
    then show ?thesis by (simp add: graph_checked_def sample_store_codec_def)
  qed
  ultimately show ?thesis by (simp add: graph_of_def)
qed

theorem commit_crash_atomic_witness:
  "\<exists>w2. recover_transactions sample_store_codec calm_env
      (recover_all sample_store_codec [crash_at 3, crash_at 40]
        (snd (commit_replacements sample_store_codec (crash_at 12) [(''a'', Some ''old'')] [sample_replacement] sample_world))) = (Inr (), w2) \<and>
     txs (w_disk w2) = [] \<and> files (w_disk w2) \<in> {[''a.json'' \<mapsto> ''old''], [''a.json'' \<mapsto> ''new'']}"
proof -
  let ?F0 = "[''a.json'' \<mapsto> ''old'']"
  have start: "tx_setup sample_store_codec [sample_replacement] ?F0"
    by (simp add: tx_setup_def sample_replacement_def sample_filename manifest_of_def entry_of_def sample_store_codec_def one_entry_def)
  have settled: "settled_with ?F0 (w_disk sample_world)" by (auto simp: settled_with_def sample_world_def txs_def)
  have new: "updated [sample_replacement] ?F0 = [''a.json'' \<mapsto> ''new'']"
    by (auto simp: updated_def sample_replacement_def sample_filename)
  obtain r w1 where run: "commit_replacements sample_store_codec (crash_at 12) [(''a'', Some ''old'')] [sample_replacement] sample_world = (r, w1)"
    by fastforce
  have calm: "steady e1" if "e1 \<in> set [crash_at 3, crash_at 40]" for e1
    using that by (auto simp: steady_def crash_at_def calm_env_def)
  have "steady calm_env" "calm calm_env" by (simp_all add: steady_def calm_def calm_env_def)
  from commit_crash_atomic [OF start sample_files_valid settled run calm this, of "[crash_at 3, crash_at 40]"]
  show ?thesis unfolding run new by (auto split: if_split_asm)
qed

text \<open>
  The answers of \<open>Path::exists\<close> matter: it answers false also when it cannot look, and recovery
  then removes the directory of a transaction whose manifest is there. If this meets a committed transaction that
  was published in part, recovery reports success and the records stay half old and half new.
\<close>

theorem misread_manifest_loses_commit:
  fixes c :: store_codec
  defines "ra \<equiv> \<lparr>rp_id = ''a'', rp_old = Some ''old'', rp_new = Some ''new''\<rparr>"
    and "rb \<equiv> \<lparr>rp_id = ''b'', rp_old = Some ''old'', rp_new = Some ''new''\<rparr>"
  defines "d \<equiv> \<lparr>rd_files = [(recommendation_filename ''a'', ''new''), (recommendation_filename ''b'', ''old'')],
      rd_txs = Some [(''tx'', \<lparr>txd_manifest = Some (manifest_json c (manifest_of c True [ra, rb])),
        txd_files = [(transaction_backup_path ''a'', ''old''), (transaction_backup_path ''b'', ''old''), (transaction_staged_path ''b'', ''new'')]\<rparr>)]\<rparr>"
    and "F0 \<equiv> [recommendation_filename ''a'' \<mapsto> ''old'', recommendation_filename ''b'' \<mapsto> ''old'']"
  shows "journal c ''tx'' [ra, rb] F0 d \<and>
    (let (r, w2) = recover_transactions c (calm_env\<lparr>stat_fault := (\<lambda>n. n = 3)\<rparr>) \<lparr>w_disk = d, w_step = 0\<rparr> in
     r = Inr () \<and> txs (w_disk w2) = [] \<and> files (w_disk w2) \<noteq> F0 \<and> files (w_disk w2) \<noteq> updated [ra, rb] F0)"
proof -
  let ?F = "[recommendation_filename ''b'' \<mapsto> ''old'', recommendation_filename ''a'' \<mapsto> ''new'']"
  have new: "updated [ra, rb] F0 = [recommendation_filename ''a'' \<mapsto> ''new'', recommendation_filename ''b'' \<mapsto> ''new'']"
    by (auto simp: updated_def ra_def rb_def F0_def)
  have "files d = ?F" by (auto simp: d_def)
  moreover have "mixed [ra, rb] F0 ?F" by (simp add: mixed_def new) (simp add: F0_def)
  ultimately have pending: "logged c ''tx'' [ra, rb] True (\<lambda>x. mixed [ra, rb] F0) d"
    by (auto simp: logged_def d_def tx_ok_def ra_def rb_def)
  have "?F (recommendation_filename ''a'') = Some ''new''" "?F (recommendation_filename ''b'') = Some ''old''" by simp_all
  moreover have "F0 (recommendation_filename ''a'') = Some ''old''" by (simp add: F0_def)
  moreover have "updated [ra, rb] F0 (recommendation_filename ''b'') = Some ''new''" by (simp add: new)
  ultimately have "?F \<noteq> F0" "?F \<noteq> updated [ra, rb] F0" by force+
  moreover have "recover_transactions c (calm_env\<lparr>stat_fault := (\<lambda>n. n = 3)\<rparr>) \<lparr>w_disk = d, w_step = 0\<rparr> =
      (Inr (), \<lparr>w_disk = d\<lparr>rd_txs := None\<rparr>, w_step = 8\<rparr>)"
    by (simp add: recover_transactions_def recover_one_def recover_directory_def io_bind_def io_then_def io_return_def fs_exists_def fs_call_def calm_env_def
        remove_transaction_def sync_directory_def txs_def d_def)
  ultimately show ?thesis using \<open>files d = ?F\<close> pending by (simp add: journal_cases txs_def)
qed

end
