(* ===== verification/Store_Admission.thy ===== *)
theory Store_Admission
  imports Recommendation
begin

text \<open>
  Admission to a recommendation store, \<^verbatim>\<open>taskmaster/store/operation.rs\<close>: one owner for each root directory, kept in
  a registry that holds it weakly, and one operation at a time for each owner. Stores and
  operations are the strong references. An owner is named by the number of its allocation. What
  waits for a release is not modelled: a caller that was woken claims again like any other.
\<close>

section \<open>State and calls\<close>

record admission =
  ad_owners :: "string \<rightharpoonup> nat"
  ad_next :: nat
  ad_busy :: "nat \<Rightarrow> bool"
  ad_stores :: "(string \<times> nat) list"
  ad_operations :: "(string \<times> nat) list"

definition no_owners :: admission where
  "no_owners = \<lparr>ad_owners = Map.empty, ad_next = 0, ad_busy = (\<lambda>_. False), ad_stores = [], ad_operations = []\<rparr>"

definition strong_count :: "admission \<Rightarrow> nat \<Rightarrow> nat" where
  "strong_count a n = count_list (map snd (ad_stores a)) n + count_list (map snd (ad_operations a)) n"

definition retained :: "admission \<Rightarrow> string \<rightharpoonup> nat" where
  "retained a p = (case ad_owners a p of None \<Rightarrow> None | Some n \<Rightarrow> if strong_count a n > 0 then Some n else None)"

text \<open>A registry whose lock is poisoned is an error.\<close>

definition for_root :: "bool \<Rightarrow> string \<Rightarrow> admission \<Rightarrow> (store_error + nat) \<times> admission" where
  "for_root poisoned root a =
     (if poisoned then (Inl IoFailed, a)
      else case retained a root of
        Some n \<Rightarrow> (Inr n, a\<lparr>ad_owners := retained a\<rparr>)
      | None \<Rightarrow> (Inr (ad_next a), a\<lparr>ad_owners := (retained a)(root \<mapsto> ad_next a), ad_next := Suc (ad_next a),
                              ad_busy := (ad_busy a)(ad_next a := False)\<rparr>))"

definition open_store :: "bool \<Rightarrow> string \<Rightarrow> admission \<Rightarrow> (store_error + unit) \<times> admission" where
  "open_store poisoned root a =
     (case for_root poisoned root a of
        (Inl x, a1) \<Rightarrow> (Inl x, a1)
      | (Inr n, a1) \<Rightarrow> (Inr (), a1\<lparr>ad_stores := ad_stores a1 @ [(root, n)]\<rparr>))"

definition claim :: "string \<times> nat \<Rightarrow> admission \<Rightarrow> (store_error + unit) \<times> admission" where
  "claim st a =
     (if ad_busy a (snd st) then (Inl StoreBusy, a)
      else (Inr (), a\<lparr>ad_busy := (ad_busy a)(snd st := True), ad_operations := ad_operations a @ [st]\<rparr>))"

text \<open>Dropping an operation releases its owner.\<close>

definition drop_operation :: "string \<times> nat \<Rightarrow> admission \<Rightarrow> admission" where
  "drop_operation st a = a\<lparr>ad_busy := (ad_busy a)(snd st := False), ad_operations := remove1 st (ad_operations a)\<rparr>"

section \<open>Runs\<close>

text \<open>
  What the code can do: open a store at a root, clone or drop one it has, claim through one it
  has, and drop an operation it has. An index past the end does nothing.
\<close>

datatype admission_call = OpenStore bool string | CloneStore nat | DropStore nat | ClaimStore nat | DropOperation nat

definition without :: "nat \<Rightarrow> 'a list \<Rightarrow> 'a list" where
  "without i xs = take i xs @ drop (Suc i) xs"

fun admission_step :: "admission_call \<Rightarrow> admission \<Rightarrow> admission" where
  "admission_step (OpenStore poisoned root) a = snd (open_store poisoned root a)"
| "admission_step (CloneStore i) a = (if i < length (ad_stores a) then a\<lparr>ad_stores := ad_stores a @ [ad_stores a ! i]\<rparr> else a)"
| "admission_step (DropStore i) a = a\<lparr>ad_stores := without i (ad_stores a)\<rparr>"
| "admission_step (ClaimStore i) a = (if i < length (ad_stores a) then snd (claim (ad_stores a ! i) a) else a)"
| "admission_step (DropOperation i) a = (if i < length (ad_operations a) then drop_operation (ad_operations a ! i) a else a)"

definition admission_inv :: "admission \<Rightarrow> bool" where
  "admission_inv a \<longleftrightarrow>
     (\<forall>root n. (root, n) \<in> set (ad_stores a) \<union> set (ad_operations a) \<longrightarrow> ad_owners a root = Some n) \<and>
     (\<forall>p q n. ad_owners a p = Some n \<longrightarrow> ad_owners a q = Some n \<longrightarrow> p = q) \<and> (\<forall>p n. ad_owners a p = Some n \<longrightarrow> n < ad_next a) \<and>
     distinct (map snd (ad_operations a)) \<and> (\<forall>n. ad_busy a n \<longleftrightarrow> n \<in> snd ` set (ad_operations a))"

lemma admission_invD:
  assumes "admission_inv a"
  shows "(root, n) \<in> set (ad_stores a) \<union> set (ad_operations a) \<Longrightarrow> ad_owners a root = Some n"
    and "ad_owners a p = Some n \<Longrightarrow> ad_owners a q = Some n \<Longrightarrow> p = q" and "ad_owners a p = Some n \<Longrightarrow> n < ad_next a"
    and "distinct (map snd (ad_operations a))" and "ad_busy a n \<longleftrightarrow> n \<in> snd ` set (ad_operations a)"
proof -
  have parts: "\<forall>root n. (root, n) \<in> set (ad_stores a) \<union> set (ad_operations a) \<longrightarrow> ad_owners a root = Some n"
    "\<forall>p q n. ad_owners a p = Some n \<longrightarrow> ad_owners a q = Some n \<longrightarrow> p = q" "\<forall>p n. ad_owners a p = Some n \<longrightarrow> n < ad_next a"
    "distinct (map snd (ad_operations a))" "\<forall>n. ad_busy a n \<longleftrightarrow> n \<in> snd ` set (ad_operations a)"
    by (insert assms [unfolded admission_inv_def]) (elim conjE; assumption)+
  show "(root, n) \<in> set (ad_stores a) \<union> set (ad_operations a) \<Longrightarrow> ad_owners a root = Some n" using parts(1) by blast
  show "ad_owners a p = Some n \<Longrightarrow> ad_owners a q = Some n \<Longrightarrow> p = q" using parts(2) by blast
  show "ad_owners a p = Some n \<Longrightarrow> n < ad_next a" using parts(3) by blast
  show "distinct (map snd (ad_operations a))" by (rule parts(4))
  show "ad_busy a n \<longleftrightarrow> n \<in> snd ` set (ad_operations a)" using parts(5) by blast
qed

text \<open>A call that only changes who holds the references, with no new reference to an owner.\<close>

lemma admission_inv_refs:
  assumes inv: "admission_inv a" and "ad_owners a1 = ad_owners a" "ad_next a1 = ad_next a"
    and "set (ad_stores a1) \<union> set (ad_operations a1) \<subseteq> set (ad_stores a) \<union> set (ad_operations a)"
    and "distinct (map snd (ad_operations a1))" "\<And>n. ad_busy a1 n \<longleftrightarrow> n \<in> snd ` set (ad_operations a1)"
  shows "admission_inv a1"
  unfolding admission_inv_def
proof (intro conjI allI impI)
  fix root n assume "(root, n) \<in> set (ad_stores a1) \<union> set (ad_operations a1)"
  then show "ad_owners a1 root = Some n" using assms(2,4) admission_invD(1) [OF inv] by fastforce
next
  fix p q n assume "ad_owners a1 p = Some n" "ad_owners a1 q = Some n"
  then show "p = q" using assms(2) admission_invD(2) [OF inv] by simp
qed (use assms admission_invD(3) [OF inv] in auto)

lemma strong_live: "(root, n) \<in> set (ad_stores a) \<union> set (ad_operations a) \<Longrightarrow> strong_count a n > 0"
  by (force simp: strong_count_def count_list_0_iff)

lemma retained_live:
  assumes "admission_inv a" "(root, n) \<in> set (ad_stores a) \<union> set (ad_operations a)"
  shows "retained a root = Some n"
  using admission_invD(1) [OF assms] strong_live [OF assms(2)] by (simp add: retained_def)

lemma retained_sub: "retained a root = Some n \<Longrightarrow> ad_owners a root = Some n"
  by (simp add: retained_def split: option.splits if_splits)

lemma open_store_inv:
  assumes inv: "admission_inv a" shows "admission_inv (snd (open_store poisoned root a))"
proof (cases poisoned)
  case True
  then show ?thesis using inv by (simp add: open_store_def for_root_def)
next
  case False
  note live = retained_live [OF inv] and inj = admission_invD(2) [OF inv] and old = admission_invD(3) [OF inv]
  show ?thesis
  proof (cases "retained a root")
    case (Some n)
    then have a1: "snd (open_store poisoned root a) = a\<lparr>ad_owners := retained a, ad_stores := ad_stores a @ [(root, n)]\<rparr>"
      using False by (simp add: open_store_def for_root_def)
    show ?thesis unfolding admission_inv_def a1
      using Some live inj old retained_sub admission_invD(4,5) [OF inv] by simp blast
  next
    case None
    let ?n = "ad_next a"
    have a1: "snd (open_store poisoned root a) = a\<lparr>ad_owners := (retained a)(root \<mapsto> ?n), ad_next := Suc ?n,
        ad_busy := (ad_busy a)(?n := False), ad_stores := ad_stores a @ [(root, ?n)]\<rparr>"
      using None False by (simp add: open_store_def for_root_def)
    have small: "m < ?n" if "retained a p = Some m" for p m using that retained_sub old by blast
    have "?n \<notin> snd ` set (ad_operations a)" using live small by fastforce
    moreover have "p \<noteq> root" if "(p, m) \<in> set (ad_stores a) \<union> set (ad_operations a)" for p m using live [OF that] None by auto
    ultimately show ?thesis unfolding admission_inv_def a1
      using live inj retained_sub small admission_invD(4,5) [OF inv] by simp (metis less_SucI less_irrefl)
  qed
qed

lemma set_without: "set (without i xs) \<subseteq> set xs"
  by (auto simp: without_def dest: in_set_takeD in_set_dropD)

lemma distinct_remove1_snd:
  assumes "distinct (map snd xs)" "x \<in> set xs"
  shows "snd ` set (remove1 x xs) = snd ` set xs - {snd x}" "distinct (map snd (remove1 x xs))"
proof -
  have "distinct xs" using assms(1) by (simp add: distinct_map)
  then have set: "set (remove1 x xs) = set xs - {x}" by simp
  then show "snd ` set (remove1 x xs) = snd ` set xs - {snd x}" using assms by (auto simp: distinct_map inj_on_def)
  show "distinct (map snd (remove1 x xs))"
    using assms(1) \<open>distinct xs\<close> set by (auto simp: distinct_map intro: inj_on_subset)
qed

lemma admission_step_inv:
  assumes inv: "admission_inv a" shows "admission_inv (admission_step call a)"
proof (cases call)
  case (OpenStore poisoned root)
  then show ?thesis using open_store_inv [OF inv] by simp
next
  case (CloneStore i)
  then show ?thesis using inv nth_mem [of i "ad_stores a"] admission_invD(4,5) [OF inv]
    by (simp, intro impI admission_inv_refs [OF inv]) simp_all
next
  case (DropStore i)
  then show ?thesis using set_without [of i "ad_stores a"] admission_invD(4,5) [OF inv]
    by (simp, intro admission_inv_refs [OF inv]) auto
next
  case (ClaimStore i)
  show ?thesis
  proof (cases "i < length (ad_stores a) \<and> \<not> ad_busy a (snd (ad_stores a ! i))")
    case True
    then have "admission_inv (snd (claim (ad_stores a ! i) a))"
      using nth_mem [of i "ad_stores a"] admission_invD(4,5) [OF inv]
      by (intro admission_inv_refs [OF inv]) (auto simp: claim_def)
    then show ?thesis using ClaimStore True by simp
  qed (use inv ClaimStore in \<open>auto simp: claim_def\<close>)
next
  case (DropOperation i)
  show ?thesis
  proof (cases "i < length (ad_operations a)")
    case True
    note gone = distinct_remove1_snd [OF admission_invD(4) [OF inv] nth_mem [OF True]]
    have "admission_inv (drop_operation (ad_operations a ! i) a)"
      using gone admission_invD(5) [OF inv] set_remove1_subset [of "ad_operations a ! i" "ad_operations a"]
      by (intro admission_inv_refs [OF inv]) (auto simp: drop_operation_def)
    then show ?thesis using True DropOperation by simp
  qed (use inv DropOperation in simp)
qed

interpretation ad: machine "\<lambda>a. a = no_owners" admission_step admission_inv
  by unfold_locales (simp_all add: admission_step_inv, simp add: no_owners_def admission_inv_def)

text \<open>
  C21: However stores are opened, cloned and dropped and operations claimed and dropped, there is never
  more than one operation for a root directory: two stores for one root share one owner even when
  they were opened independently, and the registry forgets an owner only when nothing refers to it.
  A claim is refused exactly while an operation of that root is running.
\<close>

theorem one_operation_per_root:
  assumes "a = ad.run calls no_owners" and "st \<in> set (ad_stores a)"
  shows "distinct (map fst (ad_operations a)) \<and>
    (fst (claim st a) = Inl StoreBusy \<longleftrightarrow> fst st \<in> fst ` set (ad_operations a)) \<and>
    (\<forall>st1 \<in> set (ad_stores a). fst st1 = fst st \<longleftrightarrow> snd st1 = snd st)"
proof -
  have inv: "admission_inv a" using assms(1) ad.reachable_inv by simp
  note own = admission_invD(1) [OF inv] and inj = admission_invD(2) [OF inv]
  have key: "fst x = fst y \<longleftrightarrow> snd x = snd y"
    if "x \<in> set (ad_stores a) \<union> set (ad_operations a)" "y \<in> set (ad_stores a) \<union> set (ad_operations a)" for x y
    using that own [of "fst x" "snd x"] own [of "fst y" "snd y"] inj [of "fst x" "snd x" "fst y"] by auto
  have "distinct (map fst (ad_operations a))"
    using admission_invD(4) [OF inv] key by (auto simp: distinct_map inj_on_def prod_eq_iff)
  moreover have "ad_busy a (snd st) \<longleftrightarrow> fst st \<in> fst ` set (ad_operations a)"
    using admission_invD(5) [OF inv, of "snd st"] key assms(2) by (auto simp: image_iff)
  ultimately show ?thesis using key assms(2) by (auto simp: claim_def)
qed

definition sample_calls :: "admission_call list" where
  "sample_calls = [OpenStore False ''w'', OpenStore False ''v'', ClaimStore 0, DropStore 0, OpenStore False ''w'', CloneStore 0]"

lemma sample_stores: "ad_stores (ad.run sample_calls no_owners) = [(''v'', 1), (''w'', 0), (''v'', 1)] \<and>
    ad_operations (ad.run sample_calls no_owners) = [(''w'', 0)]"
  by (simp add: sample_calls_def no_owners_def open_store_def for_root_def retained_def strong_count_def claim_def without_def)

theorem one_operation_per_root_witness:
  "fst (claim (''w'', 0) (ad.run sample_calls no_owners)) = Inl StoreBusy \<and>
   fst (claim (''v'', 1) (ad.run sample_calls no_owners)) \<noteq> Inl StoreBusy"
  using one_operation_per_root [OF refl, of "(''w'', 0)" sample_calls] one_operation_per_root [OF refl, of "(''v'', 1)" sample_calls]
    sample_stores by simp

end
