(* ===== verification/Recommendation_Store.thy ===== *)
theory Recommendation_Store
  imports Recommendation_Recovery Recommendation_Lifecycle
begin

text \<open>
  The operations of the recommendation store, \<^verbatim>\<open>taskmaster/store.rs\<close>, as they run once admitted: recovery first,
  then reading, the step of the record or of the graph, and writing, of one record through a temporary
  file and of several through the journal.
\<close>

section \<open>Stored records\<close>

record stored_recommendation =
  sr_recommendation :: recommendation
  sr_bytes :: string
  sr_hash :: string

definition stored_record :: "store_codec \<Rightarrow> string option \<Rightarrow> store_error + stored_recommendation" where
  "stored_record c b =
     (case b of
        None \<Rightarrow> Inl IoFailed
      | Some bytes \<Rightarrow>
          (case rec_parse c bytes of
             None \<Rightarrow> Inl JsonInvalid
           | Some r \<Rightarrow> and_then (validate_recommendation (rec_part c) r)
               (\<lambda>_. Inr \<lparr>sr_recommendation = r, sr_bytes = bytes, sr_hash = hash_bytes c bytes\<rparr>)))"

definition read_stored_path :: "store_codec \<Rightarrow> rec_env \<Rightarrow> string \<Rightarrow> stored_recommendation io" where
  "read_stored_path c e f = io_bind (fs_read e f) (\<lambda>b. io_lift (stored_record c b))"

definition read_all_stored :: "store_codec \<Rightarrow> rec_env \<Rightarrow> stored_recommendation list io" where
  "read_all_stored c e = io_bind (fs_call e unharmed (\<lambda>d. (Inr (record_names d), d))) (io_map (read_stored_path c e))"

text \<open>A map by id, listed in the order of the ids. Of two records with one id the later one counts.\<close>

definition by_id :: "('a \<Rightarrow> string) \<Rightarrow> 'a list \<Rightarrow> (string \<times> 'a) list" where
  "by_id key xs = map (\<lambda>i. (i, the (find (\<lambda>x. key x = i) (rev xs)))) (sorted_list_of_set (key ` set xs))"

abbreviation stored_id :: "stored_recommendation \<Rightarrow> string" where
  "stored_id s \<equiv> rc_id (sr_recommendation s)"

definition read_all_stored_by_id :: "store_codec \<Rightarrow> rec_env \<Rightarrow> (string \<times> stored_recommendation) list io" where
  "read_all_stored_by_id c e = io_bind (read_all_stored c e) (\<lambda>ss. io_return (by_id stored_id ss))"

section \<open>One record\<close>

text \<open>\<open>path_for(id).with_extension("json.tmp")\<close>; a name that is only an extension has none.\<close>

definition temporary_path :: "string \<Rightarrow> string" where
  "temporary_path i = (if i = [] then ''.json.json.tmp'' else filename_component i @ ''.json.tmp'')"

definition get_current :: "store_codec \<Rightarrow> rec_env \<Rightarrow> string \<Rightarrow> recommendation option io" where
  "get_current c e i =
     io_then (recover_transactions c e)
    (io_then (validate_graph c e)
    (if \<not> valid_id i then io_return None
     else io_bind (fs_read e (recommendation_filename i)) (\<lambda>b.
       case b of
         None \<Rightarrow> io_return None
       | Some bytes \<Rightarrow> io_bind (io_lift (read_record c (Some bytes))) (\<lambda>r. io_return (Some r)))))"

definition put_current :: "store_codec \<Rightarrow> rec_env \<Rightarrow> recommendation \<Rightarrow> unit io" where
  "put_current c e r =
     io_then (recover_transactions c e)
    (io_then (io_lift (validate_recommendation (rec_part c) r))
    (io_then (fs_write e (temporary_path (rc_id r)) (rec_json c r))
    (io_then (fs_rename e (temporary_path (rc_id r)) (recommendation_filename (rc_id r)))
    (io_bind (io_attempt (sync_directory e)) (\<lambda>_. io_return ())))))"

text \<open>Reading a record, a step, and writing the result.\<close>

definition update_current ::
  "store_codec \<Rightarrow> rec_env \<Rightarrow> string \<Rightarrow> (recommendation \<Rightarrow> store_error + recommendation) \<Rightarrow> recommendation option io" where
  "update_current c e i f =
     io_bind (get_current c e i) (\<lambda>found.
       case found of
         None \<Rightarrow> io_return None
       | Some r \<Rightarrow> io_bind (io_lift (f r)) (\<lambda>r1. io_then (put_current c e r1) (io_return (Some r1))))"

definition dismiss :: "store_codec \<Rightarrow> rec_env \<Rightarrow> string \<Rightarrow> string \<Rightarrow> string option \<Rightarrow> recommendation option io" where
  "dismiss c e i at reason = update_current c e i (dismiss_step at reason)"

definition begin_execution :: "store_codec \<Rightarrow> rec_env \<Rightarrow> string \<Rightarrow> string \<Rightarrow> string \<Rightarrow> recommendation option io" where
  "begin_execution c e i target at = update_current c e i (begin_step target at)"

definition begin_execution_checked ::
  "store_codec \<Rightarrow> rec_env \<Rightarrow> string \<Rightarrow> string \<Rightarrow> string \<Rightarrow> mutation_request \<Rightarrow> string \<Rightarrow> recommendation option io" where
  "begin_execution_checked c e i target at q approver =
     io_then (io_lift (checked_request q)) (update_current c e i (begin_checked_step (rec_part c) i target at q approver))"

definition complete_execution :: "store_codec \<Rightarrow> rec_env \<Rightarrow> string \<Rightarrow> string \<Rightarrow> recommendation option io" where
  "complete_execution c e i at = update_current c e i (complete_execution_step at)"

definition complete_accepted :: "store_codec \<Rightarrow> rec_env \<Rightarrow> string \<Rightarrow> string \<Rightarrow> recommendation option io" where
  "complete_accepted c e i at = update_current c e i (complete_accepted_step at)"

definition complete_accepted_checked ::
  "store_codec \<Rightarrow> rec_env \<Rightarrow> string \<Rightarrow> string \<Rightarrow> mutation_request \<Rightarrow> recommendation option io" where
  "complete_accepted_checked c e i at q =
     io_then (io_lift (checked_request q))
       (io_bind (get_current c e i) (\<lambda>found.
          case found of
            None \<Rightarrow> io_return None
          | Some r \<Rightarrow> io_bind (io_lift (complete_checked_step i at q r)) (\<lambda>o1.
              case o1 of
                AlreadyDone \<Rightarrow> io_return (Some r)
              | Complete r1 \<Rightarrow> io_then (put_current c e r1) (io_return (Some r1)))))"

definition cancel_execution :: "store_codec \<Rightarrow> rec_env \<Rightarrow> string \<Rightarrow> string \<Rightarrow> recommendation option io" where
  "cancel_execution c e i at =
     io_bind (get_current c e i) (\<lambda>found.
       case found of
         None \<Rightarrow> io_return None
       | Some r \<Rightarrow> io_bind (io_lift (cancel_step at r)) (\<lambda>r1.
           io_then (put_current c e r1)
             (if redacted r then io_then (put_current c e (supersede r1)) (io_return (Some (supersede r1)))
              else io_return (Some r1))))"

section \<open>Several records\<close>

definition replace_completion_packet ::
  "store_codec \<Rightarrow> rec_env \<Rightarrow> string \<Rightarrow> u64 \<Rightarrow> completion_packet \<Rightarrow> string \<Rightarrow> recommendation option io" where
  "replace_completion_packet c e i expected new at =
     io_then (recover_transactions c e)
    (io_bind (read_all_stored_by_id c e) (\<lambda>stored.
       case map_of stored i of
         None \<Rightarrow> io_return None
       | Some s \<Rightarrow>
           io_bind (io_lift (replace_step (rec_part c) i expected new at (sr_recommendation s))) (\<lambda>r1.
           io_then (io_lift (graph_checked c (map (\<lambda>(k, s1). if k = i then r1 else sr_recommendation s1) stored)))
          (io_then (commit_replacements c e [(i, Some (sr_hash s))] [\<lparr>rp_id = i, rp_old = Some (sr_bytes s), rp_new = Some (rec_json c r1)\<rparr>])
          (io_return (Some r1))))))"

fun recovered_records ::
  "store_codec \<Rightarrow> string set \<Rightarrow> string set \<Rightarrow> string \<Rightarrow> (string \<times> stored_recommendation) list \<Rightarrow>
     store_error + (string \<times> stored_recommendation \<times> recommendation) list" where
  "recovered_records c live protected at [] = Inr []"
| "recovered_records c live protected at ((i, s) # ss) =
     (if \<not> orphaned live protected (sr_recommendation s) then recovered_records c live protected at ss
      else and_then (written (rec_part c) (recovered_record at (sr_recommendation s))) (\<lambda>r1.
        and_then (recovered_records c live protected at ss) (\<lambda>rest. Inr ((i, s, r1) # rest))))"

definition recover_orphaned_executions ::
  "store_codec \<Rightarrow> rec_env \<Rightarrow> string set \<Rightarrow> string set \<Rightarrow> string \<Rightarrow> string list io" where
  "recover_orphaned_executions c e live protected at =
     io_then (recover_transactions c e)
    (io_bind (read_all_stored_by_id c e) (\<lambda>stored.
     io_bind (io_lift (recovered_records c live protected at stored)) (\<lambda>changed.
       if changed = [] then io_return []
       else
         io_then (io_lift (graph_checked c (map (\<lambda>(k, s). case map_of changed k of None \<Rightarrow> sr_recommendation s | Some (_, r1) \<Rightarrow> r1) stored)))
        (io_then (commit_replacements c e (map (\<lambda>(i, s, r1). (i, Some (sr_hash s))) changed)
            (map (\<lambda>(i, s, r1). \<lparr>rp_id = i, rp_old = Some (sr_bytes s), rp_new = Some (rec_json c r1)\<rparr>) changed))
        (io_return (map fst changed))))))"

fun check_kept :: "(string \<times> recommendation) list \<Rightarrow> (string \<times> stored_recommendation) list \<Rightarrow> store_error + unit" where
  "check_kept new [] = Inr ()"
| "check_kept new ((i, s) # ss) =
     (if map_of new i = None then Inl (GraphInvariant CannotRemove)
      else if settled_status (rc_status (sr_recommendation s)) \<and> map_of new i \<noteq> Some (sr_recommendation s) then Inl InvalidTransition
      else check_kept new ss)"

definition changed_records :: "store_codec \<Rightarrow> (string \<times> stored_recommendation) list \<Rightarrow> (string \<times> recommendation) list \<Rightarrow> replacement list" where
  "changed_records c stored new =
     concat (map (\<lambda>(i, r). let old = map_option sr_bytes (map_of stored i) in
       if old \<noteq> Some (rec_json c r) then [\<lparr>rp_id = i, rp_old = old, rp_new = Some (rec_json c r)\<rparr>] else []) new)"

definition apply_recommendation_graph_transaction ::
  "store_codec \<Rightarrow> rec_env \<Rightarrow> (string \<times> string option) list \<Rightarrow> recommendation list \<Rightarrow> unit io" where
  "apply_recommendation_graph_transaction c e expected records =
     io_then (recover_transactions c e)
    (io_then (validate_graph c e)
    (io_bind (read_all_stored_by_id c e) (\<lambda>stored.
     io_then (verify_expected c e expected (map (\<lambda>(i, s). sr_recommendation s) stored))
    (let new = by_id rc_id records in
     if length new \<noteq> length records then io_fail (GraphInvariant DuplicateGraphIds)
     else
       io_then (io_lift (graph_checked c (map snd new)))
      (io_then (io_lift (check_kept new stored))
               (commit_replacements c e expected (changed_records c stored new)))))))"

definition delete_graph_records :: "store_codec \<Rightarrow> rec_env \<Rightarrow> recommendation list \<Rightarrow> string set \<Rightarrow> unit io" where
  "delete_graph_records c e rs ids =
     io_bind (read_all_stored_by_id c e) (\<lambda>stored.
       let gone = filter (\<lambda>(i, s). i \<in> deletion_graph_ids rs ids) stored in
       commit_replacements c e (map (\<lambda>(i, s). (i, Some (sr_hash s))) gone)
         (map (\<lambda>(i, s). \<lparr>rp_id = i, rp_old = Some (sr_bytes s), rp_new = None\<rparr>) gone))"

definition delete_referencing_session :: "store_codec \<Rightarrow> rec_env \<Rightarrow> string \<Rightarrow> unit io" where
  "delete_referencing_session c e session =
     io_then (recover_transactions c e)
    (io_bind (read_all c e) (\<lambda>rs.
     io_then (io_lift (graph_checked c rs))
             (delete_graph_records c e rs (rc_id ` {r \<in> set rs. references_session r session}))))"

definition scrub_orphans :: "store_codec \<Rightarrow> rec_env \<Rightarrow> string set \<Rightarrow> unit io" where
  "scrub_orphans c e retained =
     io_then (recover_transactions c e)
    (io_bind (read_all c e) (\<lambda>rs.
     io_then (io_lift (graph_checked c rs))
             (delete_graph_records c e rs (rc_id ` {r \<in> set rs. list_ex (\<lambda>s. s \<notin> retained) (referenced_sessions r)}))))"

section \<open>Listing and opening\<close>

definition older :: "recommendation \<Rightarrow> recommendation \<Rightarrow> bool" where
  "older a b \<longleftrightarrow> rc_created_at a < rc_created_at b \<or> (rc_created_at a = rc_created_at b \<and> rc_id a < rc_id b)"

definition list_records :: "store_codec \<Rightarrow> rec_env \<Rightarrow> recommendation list io" where
  "list_records c e =
     io_then (recover_transactions c e)
    (io_bind (read_all c e) (\<lambda>rs.
     io_then (io_lift (graph_checked c rs)) (io_return (sort_by older rs))))"

definition list_with_hashes :: "store_codec \<Rightarrow> rec_env \<Rightarrow> (recommendation list \<times> (string \<rightharpoonup> string)) io" where
  "list_with_hashes c e =
     io_then (recover_transactions c e)
    (io_bind (read_all_stored c e) (\<lambda>ss.
     io_then (io_lift (graph_checked c (map sr_recommendation ss)))
    (let sorted = sort_by (\<lambda>a b. older (sr_recommendation a) (sr_recommendation b)) ss in
     io_return (map sr_recommendation sorted, map_of (rev (map (\<lambda>s. (stored_id s, sr_hash s)) sorted))))))"

definition legacy_rollup_id :: "string \<Rightarrow> string option" where
  "legacy_rollup_id name =
     (case strip_prefix ''rollup:'' name of
        None \<Rightarrow> None
      | Some rest \<Rightarrow> if ends_with rest ''.json'' then Some (''rollup:'' @ take (length rest - 5) rest) else None)"

definition migrate_filename :: "rec_env \<Rightarrow> string \<Rightarrow> unit io" where
  "migrate_filename e name =
     (case legacy_rollup_id name of
        None \<Rightarrow> io_return ()
      | Some i \<Rightarrow>
          (if \<not> valid_id i then io_return ()
           else io_bind (fs_exists e (\<lambda>d. files d (recommendation_filename i) \<noteq> None)) (\<lambda>there.
             if there then io_fail Recovery else fs_rename e name (recommendation_filename i))))"

definition migrate_legacy_rollup_filenames :: "rec_env \<Rightarrow> unit io" where
  "migrate_legacy_rollup_filenames e =
     io_bind (fs_call e unharmed (\<lambda>d. (Inr (sorted_list_of_set (fst ` set (rd_files d))), d))) (io_each (migrate_filename e))"

definition open_directory :: "store_codec \<Rightarrow> rec_env \<Rightarrow> unit io" where
  "open_directory c e =
     io_then (migrate_legacy_rollup_filenames e) (io_then (recover_transactions c e) (validate_graph c e))"

end
