(* ===== verification/Recommendation_Refinement.thy ===== *)
theory Recommendation_Refinement
  imports Recommendation_Store
begin

text \<open>
  The store implements the lifecycle: on a file system that does not fail, every operation on one
  record answers what the lifecycle of that record says and leaves the directory with that record
  changed and no other.
\<close>

section \<open>Actions with their outcome\<close>

lemma attempt_bind:
  assumes "triple P m Q (\<lambda>_. False)" and "\<And>x. triple (Q x) (io_attempt (f x)) R E"
  shows "triple P (io_attempt (io_bind m f)) R E"
  unfolding triple_def
proof (intro allI impI)
  fix w :: rec_world assume P: "P (w_disk w)"
  obtain r w1 where m: "m w = (r, w1)" by fastforce
  obtain x where r: "r = Inr x" and Q: "Q x (w_disk w1)" using triple_run [OF assms(1) P] m by (cases r) auto
  have "io_attempt (io_bind m f) w = io_attempt (f x) w1" by (simp add: io_attempt_def io_bind_def m r)
  then show "case io_attempt (io_bind m f) w of (Inl err, w1) \<Rightarrow> E (w_disk w1) | (Inr y, w1) \<Rightarrow> R y (w_disk w1)"
    using triple_run [OF assms(2) Q] by simp
qed

lemma attempt_then:
  "triple P m (\<lambda>_. Q) (\<lambda>_. False) \<Longrightarrow> triple Q (io_attempt k) R E \<Longrightarrow> triple P (io_attempt (io_then m k)) R E"
  unfolding io_then_def by (rule attempt_bind)

lemma attempt_simps:
  "io_attempt (io_return x) = io_return (Inr x)" "io_attempt (io_fail err) = io_return (Inl err)"
  "io_attempt (io_bind (io_lift (Inl err)) f) = io_return (Inl err)" "io_attempt (io_bind (io_lift (Inr y)) f) = io_attempt (f y)"
  "io_attempt (io_then (io_lift (Inl err)) k) = io_return (Inl err)" "io_attempt (io_then (io_lift (Inr y)) k) = io_attempt k"
  by (auto simp: io_attempt_def io_return_def io_fail_def io_bind_def io_lift_def io_then_def fun_eq_iff)

text \<open>What follows an action that may fail goes on from its outcome.\<close>

lemma attempt_outcome:
  assumes "triple P (io_attempt m) (\<lambda>r d. r = v \<and> Q d) E"
    and "\<And>err. v = Inl err \<Longrightarrow> (\<And>d. Q d \<Longrightarrow> R (Inl err) d)" and "\<And>x. v = Inr x \<Longrightarrow> triple Q (io_attempt (f x)) R E"
  shows "triple P (io_attempt (io_bind m f)) R E"
  unfolding triple_def
proof (intro allI impI)
  fix w :: rec_world assume P: "P (w_disk w)"
  obtain r w1 where m: "m w = (r, w1)" by fastforce
  then have "r = v" "Q (w_disk w1)" using triple_run [OF assms(1) P] by (simp_all add: io_attempt_def)
  then show "case io_attempt (io_bind m f) w of (Inl err, w1) \<Rightarrow> E (w_disk w1) | (Inr y, w1) \<Rightarrow> R y (w_disk w1)"
    using assms(2) triple_run [OF assms(3)] m by (cases v) (simp_all add: io_attempt_def io_bind_def)
qed

section \<open>Reading and writing one record\<close>

text \<open>A record reads back as it was written.\<close>

definition codec_ok :: "store_codec \<Rightarrow> recommendation \<Rightarrow> bool" where
  "codec_ok c r \<longleftrightarrow> rec_parse c (rec_json c r) = Some r \<and> from_utf8 (rec_json c r) = Utf8_Ok"

definition put_files :: "store_codec \<Rightarrow> recommendation \<Rightarrow> (string \<rightharpoonup> string) \<Rightarrow> string \<rightharpoonup> string" where
  "put_files c r F = F(temporary_path (rc_id r) := None, recommendation_filename (rc_id r) \<mapsto> rec_json c r)"

lemma temporary_not_record: "temporary_path i \<noteq> recommendation_filename j" "\<not> json_name (temporary_path i)"
  by (auto simp: temporary_path_def recommendation_filename_def json_name_def ends_with_def dest!: arg_cong [of _ _ rev])

lemma triple_calm: "triple P m Q (\<lambda>d. \<not> calm e \<and> P' d) \<Longrightarrow> calm e \<Longrightarrow> triple P m Q (\<lambda>_. False)"
  by (erule triple_conseq) simp_all

lemma triple_fs_write:
  "triple (settled_with F) (fs_write e f b) (\<lambda>_. settled_with (F(f \<mapsto> b)))
     (\<lambda>d. \<not> calm e \<and> (\<exists>s. settled_with (F(f := s)) d))"
  unfolding fs_write_def
proof (rule triple_fs)
  fix d n assume "settled_with F d" "fault e n"
  moreover have "\<exists>s. (F :: string \<rightharpoonup> string) = F(f := s)" for F by (metis fun_upd_triv)
  ultimately show "\<not> calm e \<and> (\<exists>s. settled_with (F(f := s)) (case torn e n of None \<Rightarrow> d | Some s \<Rightarrow> d\<lparr>rd_files := AList.update f s (rd_files d)\<rparr>))"
    by (auto simp: calm_def settled_with_def txs_def update_conv' split: option.split)
qed (auto simp: settled_with_def txs_def update_conv')

lemma triple_fs_rename:
  assumes "F f = Some b"
  shows "triple (settled_with F) (fs_rename e f g) (\<lambda>_. settled_with (F(f := None, g \<mapsto> b))) (\<lambda>d. \<not> calm e \<and> settled_with F d)"
  unfolding fs_rename_def
  by (rule triple_fs) (use assms in \<open>auto simp: settled_with_def txs_def update_conv' delete_conv' unharmed_def calm_def\<close>)

lemma triple_best_effort: "triple P (io_bind (io_attempt (sync_directory e)) (\<lambda>_. io_return ())) (\<lambda>_. P) (\<lambda>_. False)"
  by (rule triple_bind [OF triple_attempt [OF triple_sync [of P]]]) (rule triple_return, auto split: sum.splits)

text \<open>Writing a record in a calm environment: its validation decides.\<close>

lemma triple_put:
  assumes "calm e"
  shows "triple (settled_with F) (io_attempt (put_current c e r))
    (\<lambda>x d. x = validate_recommendation (rec_part c) r \<and>
       settled_with (if validate_recommendation (rec_part c) r = Inr () then put_files c r F else F) d) E"
  unfolding put_current_def
proof (rule attempt_then)
  show "triple (settled_with F) (recover_transactions c e) (\<lambda>_. settled_with F) (\<lambda>_. False)"
    by (rule triple_calm [OF triple_recover_settled assms])
  let ?t = "temporary_path (rc_id r)" and ?f = "recommendation_filename (rc_id r)"
  have "triple (settled_with F) (io_attempt (io_then (fs_write e ?t (rec_json c r)) (io_then (fs_rename e ?t ?f)
      (io_bind (io_attempt (sync_directory e)) (\<lambda>_. io_return ())))))
      (\<lambda>x d. x = Inr () \<and> settled_with (put_files c r F) d) E"
  proof (intro attempt_then)
    show "triple (settled_with F) (fs_write e ?t (rec_json c r)) (\<lambda>_. settled_with (F(?t \<mapsto> rec_json c r))) (\<lambda>_. False)"
      by (rule triple_calm [OF triple_fs_write assms])
    have same: "(F(?t \<mapsto> rec_json c r))(?t := None, ?f \<mapsto> rec_json c r) = put_files c r F" by (simp add: put_files_def)
    show "triple (settled_with (F(?t \<mapsto> rec_json c r))) (fs_rename e ?t ?f) (\<lambda>_. settled_with (put_files c r F)) (\<lambda>_. False)"
      using triple_calm [OF triple_fs_rename assms, of "F(?t \<mapsto> rec_json c r)" ?t "rec_json c r" ?f] unfolding same by simp
    show "triple (settled_with (put_files c r F)) (io_attempt (io_bind (io_attempt (sync_directory e)) (\<lambda>_. io_return ())))
        (\<lambda>x d. x = Inr () \<and> settled_with (put_files c r F) d) E"
      by (rule triple_conseq [OF triple_attempt [OF triple_best_effort [of "settled_with (put_files c r F)" e]]])
         (auto split: sum.splits)
  qed
  then show "triple (settled_with F) (io_attempt (io_then (io_lift (validate_recommendation (rec_part c) r))
      (io_then (fs_write e ?t (rec_json c r)) (io_then (fs_rename e ?t ?f) (io_bind (io_attempt (sync_directory e)) (\<lambda>_. io_return ()))))))
    (\<lambda>x d. x = validate_recommendation (rec_part c) r \<and>
       settled_with (if validate_recommendation (rec_part c) r = Inr () then put_files c r F else F) d) E"
    by (cases "validate_recommendation (rec_part c) r") (auto simp: attempt_simps intro: triple_return)
qed


text \<open>Reading a record of a valid graph.\<close>

lemma read_pure_list: "read_pure c F fs = Inr rs \<longleftrightarrow> list_all2 (\<lambda>f r. read_record c (F f) = Inr r) fs rs"
  by (induction fs arbitrary: rs) (auto simp: and_then_ok list_all2_Cons1)

lemma graph_checked_ok: "graph_checked c rs = Inr () \<longleftrightarrow> validate_graph_records (rec_part c) rs = Inr ()"
  by (cases "validate_graph_records (rec_part c) rs") (simp_all add: graph_checked_def)

lemma graph_of_ok:
  "graph_of c F = Inr () \<longleftrightarrow>
     (\<exists>rs. list_all2 (\<lambda>f r. read_record c (F f) = Inr r) (names_of F) rs \<and> validate_graph_records (rec_part c) rs = Inr ())"
  by (auto simp: graph_of_def and_then_ok read_pure_list graph_checked_ok)

lemma names_of_set: "finite (dom F) \<Longrightarrow> set (names_of F) = {f \<in> dom F. json_name f}" "distinct (names_of F)"
  by (auto simp: names_of_def)

lemma settled_finite: "settled_with F d \<Longrightarrow> finite (dom F)"
  by (auto simp: settled_with_def finite_dom_map_of)

lemma record_json_name: "i \<noteq> [] \<Longrightarrow> json_name (recommendation_filename i)"
proof -
  assume "i \<noteq> []"
  then have "filename_component i \<noteq> []" by (cases i) (simp_all add: filename_component_def encoded_byte_def)
  then show ?thesis by (cases "filename_component i") (simp_all add: json_name_def recommendation_filename_def ends_with_def)
qed

lemma valid_id_nonempty: "valid_id i \<Longrightarrow> i \<noteq> []"
  by (auto simp: valid_id_def)

lemma graph_record:
  assumes "graph_of c F = Inr ()" "finite (dom F)" "valid_id i" "F (recommendation_filename i) = Some b"
  shows "\<exists>r. read_record c (Some b) = Inr r"
proof -
  obtain rs where rs: "list_all2 (\<lambda>f r. read_record c (F f) = Inr r) (names_of F) rs" using assms(1) graph_of_ok by blast
  have "recommendation_filename i \<in> set (names_of F)"
    using names_of_set(1) [OF assms(2)] record_json_name [OF valid_id_nonempty [OF assms(3)]] assms(4) by auto
  then obtain j where "j < length (names_of F)" "names_of F ! j = recommendation_filename i" by (auto simp: in_set_conv_nth)
  then show ?thesis using list_all2_nthD [OF rs, of j] assms(4) by auto
qed

lemma triple_get:
  assumes "calm e" "graph_of c F = Inr ()" "valid_id i" "F (recommendation_filename i) = Some b" "read_record c (Some b) = Inr r"
  shows "triple (settled_with F) (get_current c e i) (\<lambda>x d. settled_with F d \<and> x = Some r) (\<lambda>_. False)"
  unfolding get_current_def if_not_P [OF assms(3) [THEN not_not [THEN iffD2]]]
proof (intro triple_then)
  show "triple (settled_with F) (recover_transactions c e) (\<lambda>_. settled_with F) (\<lambda>_. False)"
    by (rule triple_calm [OF triple_recover_settled assms(1)])
  show "triple (settled_with F) (validate_graph c e) (\<lambda>_. settled_with F) (\<lambda>_. False)"
    by (rule triple_conseq [OF triple_validate_graph [of "settled_with F"]]) (use assms(1,2) in \<open>auto simp: settled_with_def\<close>)
  show "triple (settled_with F) (io_bind (fs_read e (recommendation_filename i)) (\<lambda>b. case b of None \<Rightarrow> io_return None
       | Some bytes \<Rightarrow> io_bind (io_lift (read_record c (Some bytes))) (\<lambda>r. io_return (Some r))))
      (\<lambda>x d. settled_with F d \<and> x = Some r) (\<lambda>_. False)"
  proof (rule triple_bind)
    show "triple (settled_with F) (fs_read e (recommendation_filename i)) (\<lambda>x d. settled_with F d \<and> x = Some b) (\<lambda>_. False)"
      unfolding fs_read_def
      by (rule triple_conseq [OF triple_look [of "settled_with F"]]) (use assms(1,4) in \<open>auto simp: settled_with_def\<close>)
    show "triple (\<lambda>d. settled_with F d \<and> x = Some b) (case x of None \<Rightarrow> io_return None
       | Some bytes \<Rightarrow> io_bind (io_lift (read_record c (Some bytes))) (\<lambda>r. io_return (Some r)))
      (\<lambda>x d. settled_with F d \<and> x = Some r) (\<lambda>_. False)" for x
      using assms(5) by (cases "x = Some b") (auto simp: triple_def io_bind_def io_lift_def io_return_def)
  qed
qed

text \<open>What a call leaves: the answer of the lifecycle, and the record of its answer.\<close>

definition refined :: "store_codec \<Rightarrow> (string \<rightharpoonup> string) \<Rightarrow> store_error + recommendation \<Rightarrow> store_error + recommendation option \<Rightarrow> rec_disk \<Rightarrow> bool" where
  "refined c F v x d \<longleftrightarrow>
     (case v of Inl err \<Rightarrow> x = Inl err \<and> settled_with F d | Inr r1 \<Rightarrow> x = Inr (Some r1) \<and> settled_with (put_files c r1 F) d)"

lemma triple_write_answer:
  assumes "calm e"
  shows "triple (settled_with F) (io_attempt (io_then (put_current c e r1) (io_return (Some r1)))) (refined c F (written (rec_part c) r1)) E"
  unfolding io_then_def
proof (rule attempt_outcome [OF triple_put [OF assms]])
  show "refined c F (written (rec_part c) r1) (Inl err) d" if "validate_recommendation (rec_part c) r1 = Inl err"
    "settled_with (if validate_recommendation (rec_part c) r1 = Inr () then put_files c r1 F else F) d" for err d
    using that by (simp add: refined_def written_def)
  show "triple (settled_with (if validate_recommendation (rec_part c) r1 = Inr () then put_files c r1 F else F))
      (io_attempt (io_return (Some r1))) (refined c F (written (rec_part c) r1)) E" if "validate_recommendation (rec_part c) r1 = Inr x" for x
    using that by (auto simp: attempt_simps refined_def written_def intro!: triple_return)
qed

lemma triple_found:
  assumes get: "triple (settled_with F) (get_current c e i) (\<lambda>x d. settled_with F d \<and> x = Some r) (\<lambda>_. False)"
    and step: "triple (settled_with F) (io_attempt (g r)) R E"
  shows "triple (settled_with F) (io_attempt (io_bind (get_current c e i) (\<lambda>found. case found of None \<Rightarrow> io_return None | Some r \<Rightarrow> g r))) R E"
proof (rule attempt_bind [OF get])
  show "triple (\<lambda>d. settled_with F d \<and> x = Some r) (io_attempt (case x of None \<Rightarrow> io_return None | Some r \<Rightarrow> g r)) R E" for x
    using step by (cases "x = Some r") (auto simp: triple_def)
qed

lemma triple_update:
  assumes "calm e" and get: "triple (settled_with F) (get_current c e i) (\<lambda>x d. settled_with F d \<and> x = Some r) (\<lambda>_. False)"
  shows "triple (settled_with F) (io_attempt (update_current c e i f)) (refined c F (and_then (f r) (written (rec_part c)))) E"
  unfolding update_current_def
proof (rule triple_found [OF get])
  show "triple (settled_with F) (io_attempt (io_bind (io_lift (f r)) (\<lambda>r1. io_then (put_current c e r1) (io_return (Some r1)))))
      (refined c F (and_then (f r) (written (rec_part c)))) E"
    using triple_write_answer [OF assms(1), of F c] by (cases "f r") (auto simp: attempt_simps refined_def intro!: triple_return)
qed


section \<open>The operations\<close>

text \<open>The operation of the store for a call of the lifecycle.\<close>

fun store_call :: "store_codec \<Rightarrow> rec_env \<Rightarrow> string \<Rightarrow> lifecycle_op \<Rightarrow> recommendation option io" where
  "store_call c e i (OpDismiss at reason) = dismiss c e i at reason"
| "store_call c e i (OpBegin target at) = begin_execution c e i target at"
| "store_call c e i (OpBeginChecked target at q approver) = begin_execution_checked c e i target at q approver"
| "store_call c e i (OpDelivered at) = complete_execution c e i at"
| "store_call c e i (OpComplete at) = complete_accepted c e i at"
| "store_call c e i (OpCompleteChecked at q) = complete_accepted_checked c e i at q"
| "store_call c e i (OpCancel at) = cancel_execution c e i at"
| "store_call c e i (OpReplace expected new at) = replace_completion_packet c e i expected new at"
| "store_call c e i (OpRecover live protected at) =
     io_bind (recover_orphaned_executions c e live protected at) (\<lambda>_. get_current c e i)"

definition answered ::
  "store_codec \<Rightarrow> (string \<rightharpoonup> string) \<Rightarrow> recommendation \<Rightarrow> store_error + recommendation \<Rightarrow> store_error + recommendation option \<Rightarrow> rec_disk \<Rightarrow> bool" where
  "answered c F r v x d \<longleftrightarrow>
     (case v of
        Inl err \<Rightarrow> x = Inl err \<and> settled_with F d
      | Inr r1 \<Rightarrow> x = Inr (Some r1) \<and> (settled_with (put_files c r1 F) d \<or> r1 = r \<and> settled_with F d))"

lemma refined_answered: "refined c F v x d \<Longrightarrow> answered c F r v x d"
  by (auto simp: refined_def answered_def split: sum.splits)

lemma put_files_again: "rc_id r2 = rc_id r1 \<Longrightarrow> put_files c r2 (put_files c r1 F) = put_files c r2 F"
  using temporary_not_record(1) [of "rc_id r1" "rc_id r1"] by (auto simp: put_files_def fun_eq_iff)

lemma supersede_validates:
  assumes "validate_recommendation c r = Inr ()" "rc_status r = Proposed"
  shows "validate_recommendation c (supersede r) = Inr ()"
proof -
  have "redacted (supersede r) = redacted r" by (simp add: redacted_def supersede_def)
  moreover from this have "packet_valid c (supersede r) = packet_valid c r" by (simp add: packet_valid_def supersede_def fun_eq_iff)
  moreover have "approval_required Superseded = approval_required Proposed" by (simp add: approval_required_def)
  ultimately have "check_packet c (supersede r) = check_packet c r"
    using assms(2) by (simp add: check_packet_def supersede_def fun_eq_iff)
  moreover have "rc_assessment (supersede r) = rc_assessment r" "rc_packet (supersede r) = rc_packet r" by (simp_all add: supersede_def)
  ultimately have "validate_recommendation c (supersede r) = validate_recommendation c r"
    by (simp only: validate_recommendation_def)
  then show ?thesis using assms(1) by simp
qed

lemma triple_cancel:
  assumes "calm e" and get: "triple (settled_with F) (get_current c e i) (\<lambda>x d. settled_with F d \<and> x = Some r) (\<lambda>_. False)"
  shows "triple (settled_with F) (io_attempt (cancel_execution c e i at)) (answered c F r (lifecycle_call (rec_part c) (OpCancel at) r)) E"
  unfolding cancel_execution_def
proof (rule triple_found [OF get])
  let ?R = "answered c F r (lifecycle_call (rec_part c) (OpCancel at) r)"
  show "triple (settled_with F) (io_attempt (io_bind (io_lift (cancel_step at r)) (\<lambda>r1. io_then (put_current c e r1)
      (if redacted r then io_then (put_current c e (supersede r1)) (io_return (Some (supersede r1))) else io_return (Some r1))))) ?R E"
  proof (cases "cancel_step at r")
    case (Inl err)
    then show ?thesis by (auto simp: attempt_simps answered_def intro!: triple_return)
  next
    case (Inr r1)
    then have status: "rc_status r1 = Proposed" by (simp add: cancel_ok)
    have "triple (settled_with F) (io_attempt (io_bind (put_current c e r1) (\<lambda>_.
      if redacted r then io_then (put_current c e (supersede r1)) (io_return (Some (supersede r1))) else io_return (Some r1)))) ?R E"
    proof (rule attempt_outcome [OF triple_put [OF assms(1)]])
      show "?R (Inl err) d" if "validate_recommendation (rec_part c) r1 = Inl err"
        "settled_with (if validate_recommendation (rec_part c) r1 = Inr () then put_files c r1 F else F) d" for err d
        using that Inr by (simp add: answered_def written_def)
      fix x assume "validate_recommendation (rec_part c) r1 = Inr x"
      then have ok: "validate_recommendation (rec_part c) r1 = Inr ()" by simp
      note again = supersede_validates [OF this status]
      have super: "rc_id (supersede r1) = rc_id r1" by (simp add: supersede_def)
      have twice: "triple (settled_with (put_files c r1 F)) (io_attempt (io_then (put_current c e (supersede r1)) (io_return (Some (supersede r1))))) ?R E"
        if "redacted r"
        by (rule triple_conseq [OF triple_write_answer [OF assms(1)]])
           (use that Inr ok in \<open>auto simp: refined_def answered_def written_def again put_files_again [OF super]\<close>)
      have once: "triple (settled_with (put_files c r1 F)) (io_return (Inr (Some r1))) ?R E" if "\<not> redacted r"
        by (rule triple_return) (use that Inr ok in \<open>simp add: answered_def written_def\<close>)
      show "triple (settled_with (if validate_recommendation (rec_part c) r1 = Inr () then put_files c r1 F else F))
          (io_attempt (if redacted r then io_then (put_current c e (supersede r1)) (io_return (Some (supersede r1))) else io_return (Some r1))) ?R E"
        using ok twice once by (cases "redacted r") (simp_all add: attempt_simps)
    qed
    then show ?thesis unfolding Inr attempt_simps io_then_def [of "put_current c e r1"] .
  qed
qed

lemma triple_complete_checked:
  assumes "calm e" and get: "triple (settled_with F) (get_current c e i) (\<lambda>x d. settled_with F d \<and> x = Some r) (\<lambda>_. False)"
    and "rc_id r = i"
  shows "triple (settled_with F) (io_attempt (complete_accepted_checked c e i at q))
    (answered c F r (lifecycle_call (rec_part c) (OpCompleteChecked at q) r)) E"
proof (cases "checked_request q")
  case (Inl err)
  then show ?thesis by (auto simp: complete_accepted_checked_def attempt_simps answered_def intro!: triple_return)
next
  case (Inr u)
  show ?thesis
    unfolding complete_accepted_checked_def Inr attempt_simps
  proof (rule triple_found [OF get], cases "complete_checked_step i at q r")
    case (Inl err)
    then show "triple (settled_with F) (io_attempt (io_bind (io_lift (complete_checked_step i at q r)) (\<lambda>o1. case o1 of
        AlreadyDone \<Rightarrow> io_return (Some r) | Complete r1 \<Rightarrow> io_then (put_current c e r1) (io_return (Some r1)))))
        (answered c F r (lifecycle_call (rec_part c) (OpCompleteChecked at q) r)) E"
      using Inr assms(3) by (auto simp: attempt_simps answered_def intro!: triple_return)
  next
    case step: (Inr o1)
    show "triple (settled_with F) (io_attempt (io_bind (io_lift (complete_checked_step i at q r)) (\<lambda>o1. case o1 of
        AlreadyDone \<Rightarrow> io_return (Some r) | Complete r1 \<Rightarrow> io_then (put_current c e r1) (io_return (Some r1)))))
        (answered c F r (lifecycle_call (rec_part c) (OpCompleteChecked at q) r)) E"
    proof (cases o1)
      case AlreadyDone
      then show ?thesis using step Inr assms(3) by (auto simp: attempt_simps answered_def intro!: triple_return)
    next
      case (Complete r1)
      have "triple (settled_with F) (io_attempt (io_then (put_current c e r1) (io_return (Some r1)))) (answered c F r (written (rec_part c) r1)) E"
        by (rule triple_conseq [OF triple_write_answer [OF assms(1)]]) (auto intro: refined_answered)
      then show ?thesis using step Inr Complete assms(3) by (simp add: attempt_simps)
    qed
  qed
qed

lemma triple_store_call:
  assumes "calm e" and get: "triple (settled_with F) (get_current c e i) (\<lambda>x d. settled_with F d \<and> x = Some r) (\<lambda>_. False)"
    and "rc_id r = i" and "\<not> rechecks_graph op"
  shows "triple (settled_with F) (io_attempt (store_call c e i op)) (answered c F r (lifecycle_call (rec_part c) op r)) E"
proof -
  have update: "triple (settled_with F) (io_attempt (update_current c e i f)) (answered c F r (and_then (f r) (written (rec_part c)))) E" for f
    by (rule triple_conseq [OF triple_update [OF assms(1) get]]) (auto intro: refined_answered)
  show ?thesis
  proof (cases op)
    case (OpBeginChecked target at q approver)
    show ?thesis
    proof (cases "checked_request q")
      case (Inl err)
      then show ?thesis using OpBeginChecked by (auto simp: begin_execution_checked_def attempt_simps answered_def intro!: triple_return)
    next
      case (Inr u)
      then show ?thesis using OpBeginChecked update assms(3) by (simp add: begin_execution_checked_def attempt_simps)
    qed
  next
    case (OpCompleteChecked at q)
    then show ?thesis using triple_complete_checked [OF assms(1) get assms(3)] by simp
  next
    case (OpCancel at)
    then show ?thesis using triple_cancel [OF assms(1) get] by simp
  qed (use update assms(4) in \<open>simp_all add: dismiss_def begin_execution_def complete_execution_def complete_accepted_def\<close>)
qed


section \<open>The graph after a call\<close>

lemma names_put:
  assumes "finite (dom F)" "F (recommendation_filename (rc_id r)) \<noteq> None"
  shows "names_of (put_files c r F) = names_of F"
proof -
  have "dom (put_files c r F) = dom F - {temporary_path (rc_id r)}"
    using assms(2) temporary_not_record(1) [of "rc_id r" "rc_id r"] by (auto simp: put_files_def split: if_split_asm)
  then have "sorted_list_of_set (dom (put_files c r F)) = remove1 (temporary_path (rc_id r)) (sorted_list_of_set (dom F))"
    using sorted_list_of_set_remove [OF assms(1)] by simp
  moreover have "temporary_path (rc_id r) \<notin> set (names_of F)" using temporary_not_record(2) by (simp add: names_of_def)
  ultimately show ?thesis by (simp add: names_of_def filter_remove1 remove1_idem)
qed

lemma read_written: "codec_ok c r \<Longrightarrow> validate_recommendation (rec_part c) r = Inr () \<Longrightarrow> read_record c (Some (rec_json c r)) = Inr r"
  by (simp add: codec_ok_def read_record_def)

lemma graph_put:
  assumes "graph_of c F = Inr ()" "finite (dom F)" "rc_id r \<noteq> []" "read_record c (F (recommendation_filename (rc_id r))) = Inr r"
    and "same_links r r1" and r1: "read_record c (Some (rec_json c r1)) = Inr r1"
  shows "graph_of c (put_files c r1 F) = Inr ()"
proof -
  let ?f = "recommendation_filename (rc_id r)"
  have idr: "rc_id r1 = rc_id r" using assms(5) by (simp add: same_links_def)
  have some: "F ?f \<noteq> None" using assms(4) by (cases "F ?f") (simp_all add: read_record_def)
  obtain rs where rs: "list_all2 (\<lambda>f r. read_record c (F f) = Inr r) (names_of F) rs" "graph_ok (rec_part c) rs"
    using assms(1) unfolding graph_of_ok validate_graph_ok by blast
  note len = list_all2_lengthD [OF rs(1)]
  have "?f \<in> set (names_of F)" using names_of_set(1) [OF assms(2)] record_json_name [OF assms(3)] some by auto
  then obtain k where k: "k < length (names_of F)" "names_of F ! k = ?f" by (auto simp: in_set_conv_nth)
  then have rk: "rs ! k = r" using list_all2_nthD [OF rs(1), of k] assms(4) by simp
  have ids: "distinct (map rc_id rs)" using rs(2) by (simp add: graph_ok_def)
  let ?g = "\<lambda>x. if rc_id x = rc_id r then r1 else x"
  have "list_all2 (\<lambda>f r. read_record c (put_files c r1 F f) = Inr r) (names_of F) (map ?g rs)"
  proof (rule list_all2_all_nthI)
    fix j assume j: "j < length (names_of F)"
    have other: "rc_id (rs ! j) \<noteq> rc_id r" if "j \<noteq> k"
      using that j k(1) len rk nth_eq_iff_index_eq [OF ids, of j k] by auto
    have "names_of F ! j \<noteq> temporary_path (rc_id r1)" using nth_mem [OF j] temporary_not_record(2) by (auto simp: names_of_def)
    moreover have "names_of F ! j \<noteq> ?f" if "j \<noteq> k" using that j k names_of_set(2) [of F] by (metis nth_eq_iff_index_eq)
    ultimately show "read_record c (put_files c r1 F (names_of F ! j)) = Inr (map ?g rs ! j)"
      using list_all2_nthD [OF rs(1) j] j k len rk r1 other idr by (cases "j = k") (simp_all add: put_files_def)
  qed (simp add: len)
  moreover have "x \<in> set rs \<Longrightarrow> same_links x (?g x)" for x
  proof -
    assume x: "x \<in> set rs"
    have "r \<in> set rs" using rk k(1) len by auto
    then show "same_links x (?g x)" using x ids assms(5) by (auto simp: distinct_map inj_on_def same_links_def)
  qed
  then have "graph_ok (rec_part c) (map ?g rs)" by (intro graph_with_same_links [OF rs(2)] ballI)
  ultimately show ?thesis unfolding graph_of_ok validate_graph_ok
    using names_put [OF assms(2), of r1 c] some idr by auto
qed

text \<open>
  C18: The store on disk implements the lifecycle of a record. On a file system
  that does not fail, from a directory whose records form a valid graph and whose transactions are
  settled: dismissing, reserving, approving, delivering, completing and cancelling answer exactly what the
  lifecycle of the stored record says. When it refuses, nothing changes. When it accepts, the
  answer is the new record, reading the file gives that record back, no other file is
  changed but the temporary one, the graph is valid, and the transactions stay settled.
\<close>

theorem store_refines_lifecycle:
  assumes "calm e" "\<And>r1. lifecycle_call (rec_part c) op r = Inr r1 \<Longrightarrow> codec_ok c r1" "settled_with F (w_disk w)" "graph_of c F = Inr ()" "valid_id i" "\<not> rechecks_graph op"
    and "F (recommendation_filename i) = Some b" "read_record c (Some b) = Inr r" "rc_id r = i"
    and "store_call c e i op w = (x, w1)"
  shows "case lifecycle_call (rec_part c) op r of
      Inl err \<Rightarrow> x = Inl err \<and> settled_with F (w_disk w1)
    | Inr r1 \<Rightarrow> x = Inr (Some r1) \<and> (\<exists>F1. settled_with F1 (w_disk w1) \<and> graph_of c F1 = Inr () \<and>
        read_record c (F1 (recommendation_filename i)) = Inr r1 \<and>
        (\<forall>f. f \<noteq> recommendation_filename i \<and> f \<noteq> temporary_path i \<longrightarrow> F1 f = F f))"
proof -
  have get: "triple (settled_with F) (get_current c e i) (\<lambda>x d. settled_with F d \<and> x = Some r) (\<lambda>_. False)"
    by (rule triple_get [OF assms(1,4,5,7,8)])
  have "answered c F r (lifecycle_call (rec_part c) op r) x (w_disk w1)"
    using triple_run [OF triple_store_call [OF assms(1) get assms(9,6)] assms(3)] assms(10) by (simp add: io_attempt_def)
  moreover have "settled_with F (w_disk w) \<Longrightarrow> finite (dom F)" by (rule settled_finite)
  moreover have "graph_of c (put_files c r1 F) = Inr () \<and> read_record c (put_files c r1 F (recommendation_filename i)) = Inr r1 \<and>
      (\<forall>f. f \<noteq> recommendation_filename i \<and> f \<noteq> temporary_path i \<longrightarrow> put_files c r1 F f = F f)"
    if call: "lifecycle_call (rec_part c) op r = Inr r1" and fin: "finite (dom F)" for r1
  proof -
    have links: "same_links r r1" using call_same_links [OF call assms(6)] .
    then have idr: "rc_id r1 = i" using assms(9) by (simp add: same_links_def)
    have "validate_recommendation (rec_part c) r = Inr ()"
      using assms(8) by (auto simp: read_record_def and_then_ok split: if_split_asm option.splits)
    then have "validate_recommendation (rec_part c) r1 = Inr ()" using call_validates [OF call] by auto
    then have r1: "read_record c (Some (rec_json c r1)) = Inr r1" by (rule read_written [OF assms(2) [OF call]])
    have "graph_of c (put_files c r1 F) = Inr ()"
      by (rule graph_put [OF assms(4) fin _ _ links r1]) (use assms(5,7,8,9) valid_id_nonempty in auto)
    then show ?thesis using r1 by (simp add: put_files_def idr)
  qed
  ultimately show ?thesis
    using assms(3,4,7,8) by (cases "lifecycle_call (rec_part c) op r") (auto simp: answered_def)
qed


definition reserving_codec :: store_codec where
  "reserving_codec = sample_store_codec
     \<lparr>rec_json := (\<lambda>r. if rc_status r = Proposed then ''old'' else ''new''),
      rec_parse := (\<lambda>s. if s = ''old'' then Some (sample_recommendation ''a'')
                        else if s = ''new'' then Some (reserve ''t'' ''now'' (sample_recommendation ''a'')) else None)\<rparr>"

lemma reserving_call: "lifecycle_call (rec_part reserving_codec) (OpBegin ''t'' ''now'') (sample_recommendation ''a'') =
    Inr (reserve ''t'' ''now'' (sample_recommendation ''a''))"
proof -
  let ?r = "reserve ''t'' ''now'' (sample_recommendation ''a'')"
  have "rc_packet ?r = None" "rc_assessment ?r = None" by (simp_all add: reserve_def)
  then have "validate_recommendation sample_rec_codec ?r = Inr ()" by (simp add: validate_recommendation_def)
  then show ?thesis
    by (simp add: reserving_codec_def sample_store_codec_def begin_step_def ensure_mutable_def redacted_def written_def)
qed

theorem store_refines_lifecycle_witness:
  "\<exists>w1 F1. store_call reserving_codec calm_env ''a'' (OpBegin ''t'' ''now'') sample_world =
       (Inr (Some (reserve ''t'' ''now'' (sample_recommendation ''a''))), w1) \<and>
     settled_with F1 (w_disk w1) \<and> read_record reserving_codec (F1 ''a.json'') = Inr (reserve ''t'' ''now'' (sample_recommendation ''a''))"
proof -
  let ?F = "[''a.json'' \<mapsto> ''old'']" and ?r = "sample_recommendation ''a''"
  obtain x w1 where run: "store_call reserving_codec calm_env ''a'' (OpBegin ''t'' ''now'') sample_world = (x, w1)" by fastforce
  have codec: "codec_ok reserving_codec r1" if "lifecycle_call (rec_part reserving_codec) (OpBegin ''t'' ''now'') ?r = Inr r1" for r1
    using that unfolding reserving_call by (auto simp: codec_ok_def reserving_codec_def reserve_def)
  have read: "read_record reserving_codec (Some ''old'') = Inr ?r"
    by (simp add: read_record_def reserving_codec_def sample_store_codec_def sample_record_valid)
  have "names_of ?F = [''a.json'']" by (simp add: names_of_def json_name_def ends_with_def)
  moreover have "validate_graph_records sample_rec_codec [?r] = Inr ()"
    by (simp add: validate_graph_ok graph_ok_def record_ok_def member_keys_def active_parent_def)
  ultimately have graph: "graph_of reserving_codec ?F = Inr ()"
    using read unfolding graph_of_ok by (auto simp: reserving_codec_def sample_store_codec_def intro!: exI [of _ "[?r]"])
  have "calm calm_env" "settled_with ?F (w_disk sample_world)"
    by (auto simp: calm_def calm_env_def settled_with_def sample_world_def txs_def)
  from store_refines_lifecycle [OF this(1) codec this(2) graph sample_filename(4) _ _ read _ run]
  show ?thesis using run unfolding reserving_call sample_filename by auto
qed

end
