(* ===== verification/Recommendation_Deletion.thy ===== *)
theory Recommendation_Deletion
  imports Recommendation_Refinement
begin

text \<open>
  Deleting the recommendations of a session: when the store reports success, whatever the file system did in
  between, no record that mentions the session is left.
\<close>

section \<open>Facts that reading establishes\<close>

lemma triple_assume: "(A \<Longrightarrow> triple P m Q E) \<Longrightarrow> triple (\<lambda>d. P d \<and> A) m Q E"
  by (cases A) (simp_all add: triple_def)

lemma triple_read_stored_path:
  "triple P (read_stored_path c e f) (\<lambda>s d. P d \<and> stored_record c (files d f) = Inr s) (\<lambda>_. True)"
  unfolding read_stored_path_def fs_read_def
  by (rule triple_bind [OF triple_conseq [OF triple_look [of P]]], assumption, assumption, simp) (rule triple_lift; auto)

lemma triple_read_stored_paths:
  "triple P (io_map (read_stored_path c e) fs) (\<lambda>ss d. P d \<and> list_all2 (\<lambda>f s. stored_record c (files d f) = Inr s) fs ss) (\<lambda>_. True)"
proof (induction fs arbitrary: P)
  case (Cons f fs)
  show ?case
    unfolding io_map.simps
  proof (rule triple_bind [OF triple_read_stored_path])
    show "triple (\<lambda>d. P d \<and> stored_record c (files d f) = Inr s) (io_bind (io_map (read_stored_path c e) fs) (\<lambda>ss. io_return (s # ss)))
        (\<lambda>ss d. P d \<and> list_all2 (\<lambda>f s. stored_record c (files d f) = Inr s) (f # fs) ss) (\<lambda>_. True)" for s
      by (rule triple_bind [OF Cons.IH]) (rule triple_return, simp)
  qed
qed (simp add: triple_return)

lemma triple_read_all_stored:
  "triple P (read_all_stored c e) (\<lambda>ss d. P d \<and> list_all2 (\<lambda>f s. stored_record c (files d f) = Inr s) (names_of (files d)) ss) (\<lambda>_. True)"
  unfolding read_all_stored_def
proof (rule triple_bind)
  show "triple P (fs_call e unharmed (\<lambda>d. (Inr (record_names d), d))) (\<lambda>x d. P d \<and> x = names_of (files d)) (\<lambda>_. True)"
    by (rule triple_conseq [OF triple_look [of P]]) (auto simp: record_names_of)
  show "triple (\<lambda>d. P d \<and> fs = names_of (files d)) (io_map (read_stored_path c e) fs)
      (\<lambda>ss d. P d \<and> list_all2 (\<lambda>f s. stored_record c (files d f) = Inr s) (names_of (files d)) ss) (\<lambda>_. True)" for fs
    by (rule triple_conseq [OF triple_read_stored_paths [of "\<lambda>d. P d \<and> fs = names_of (files d)"]]) auto
qed

lemma triple_hashes_valid: "triple P (verify_hashes c e xs) (\<lambda>_ d. P d \<and> (\<forall>i \<in> fst ` set xs. valid_id i)) (\<lambda>_. True)"
proof (induction xs)
  case (Cons x xs)
  obtain i h where x: "x = (i, h)" by fastforce
  have more: "triple (\<lambda>d. P d \<and> R d) (verify_hashes c e xs) (\<lambda>_ d. P d \<and> (\<forall>x \<in> set xs. valid_id (fst x))) (\<lambda>_. True)" for R
    by (rule triple_conseq [OF Cons.IH]) auto
  show ?case unfolding x
    by (cases "valid_id i") (auto intro!: triple_fail triple_bind [OF triple_fs_read] more simp: Let_def)
qed (simp add: triple_return)

lemma triple_unchanged:
  "triple P (io_each (check_unchanged e) rps) (\<lambda>_ d. P d \<and> (\<forall>rp \<in> set rps. rp_old rp \<noteq> None \<longrightarrow> files d (target_of rp) = rp_old rp)) (\<lambda>_. True)"
proof -
  define I where "I ys d \<longleftrightarrow> P d \<and> (\<forall>rp \<in> set ys. rp_old rp \<noteq> None \<longrightarrow> files d (target_of rp) = rp_old rp)" for ys and d :: rec_disk
  have "triple (I []) (io_each (check_unchanged e) rps) (\<lambda>_. I rps) (\<lambda>_. True)"
  proof (rule triple_each)
    show "triple (I ys) (check_unchanged e rp) (\<lambda>_. I (ys @ [rp])) (\<lambda>_. True)" for ys rp
      unfolding check_unchanged_def
    proof (rule triple_bind [OF triple_fs_read])
      show "triple (\<lambda>d. I ys d \<and> (\<forall>b. r = Inr b \<longrightarrow> b = files d (target_of rp)))
          (let actual = case r of Inl _ \<Rightarrow> None | Inr b \<Rightarrow> b in if actual \<noteq> rp_old rp then io_fail (StaleExpectedHash (rp_id rp)) else io_return ())
          (\<lambda>_. I (ys @ [rp])) (\<lambda>_. True)" for r
        by (cases r) (auto simp: Let_def I_def intro!: triple_fail triple_return)
    qed
  qed
  then show ?thesis by (rule triple_conseq) (simp_all add: I_def)
qed

text \<open>A commit that succeeds has checked what it replaced.\<close>

lemma triple_commit_checked:
  assumes manifest: "\<And>b. manifest_parse c (manifest_json c (manifest_of c b rps)) = Some (manifest_of c b rps)"
    and "distinct (map rp_id rps)" and known: "\<And>rp. rp \<in> set rps \<Longrightarrow> rp_old rp \<noteq> None \<and> rp_new rp = None \<and> rp_id rp \<in> fst ` set expected"
  shows "triple (settled_with F0) (commit_replacements c e expected rps)
    (\<lambda>_ d. settled_with (updated rps F0) d \<and> (rps = [] \<or> graph_of c (updated rps F0) = Inr ()) \<and>
       (\<forall>rp \<in> set rps. valid_id (rp_id rp) \<and> F0 (target_of rp) = rp_old rp)) (\<lambda>_. True)"
    (is "triple _ _ ?Q _")
  unfolding commit_replacements_def
proof (rule triple_bind)
  let ?valid = "\<forall>i \<in> fst ` set expected. valid_id i" and ?same = "\<forall>rp \<in> set rps. F0 (target_of rp) = rp_old rp"
  show "triple (settled_with F0) (read_all c e) (\<lambda>_. settled_with F0) (\<lambda>_. True)"
    by (rule triple_conseq [OF triple_read_all [of "settled_with F0"]]) auto
  have expected: "triple (settled_with F0) (verify_expected c e expected current) (\<lambda>_ d. settled_with F0 d \<and> ?valid) (\<lambda>_. True)" for current
    unfolding verify_expected_def by (rule triple_then [OF triple_hashes_valid]) (auto intro: triple_fail triple_return)
  have same: "triple (settled_with F0) (io_each (check_unchanged e) rps) (\<lambda>_ d. settled_with F0 d \<and> ?same) (\<lambda>_. True)"
    by (rule triple_conseq [OF triple_unchanged [of "settled_with F0"]]) (use known in \<open>auto simp: settled_with_def\<close>)
  have run: "triple (settled_with F0) (if rps = [] then io_return () else (\<lambda>w. run_transaction c e (fresh e (w_step w)) rps w)) ?Q (\<lambda>_. True)"
    if ?valid ?same
  proof (cases "rps = []")
    case True
    then show ?thesis by (auto simp: settled_with_def updated_def intro!: triple_return)
  next
    case False
    have valid: "valid_id (rp_id rp)" if "rp \<in> set rps" for rp using known [OF that] \<open>?valid\<close> by blast
    have "tx_setup c rps F0" unfolding tx_setup_def using assms(1,2) valid known \<open>?same\<close> by simp
    from triple_run_fresh [OF this] show ?thesis unfolding if_not_P [OF False]
      by (rule triple_conseq) (use that valid False in auto)
  qed
  show "triple (settled_with F0) (io_then (verify_expected c e expected current) (io_then (io_each (check_unchanged e) rps)
      (if rps = [] then io_return () else (\<lambda>w. run_transaction c e (fresh e (w_step w)) rps w)))) ?Q (\<lambda>_. True)" for current
    by (rule triple_then [OF expected], rule triple_assume, rule triple_then [OF same], rule triple_assume, rule run)
qed


section \<open>The records of a directory\<close>

text \<open>What a record file holds, read without disturbance.\<close>

definition holds :: "store_codec \<Rightarrow> (string \<rightharpoonup> string) \<Rightarrow> string \<Rightarrow> recommendation \<Rightarrow> bool" where
  "holds c F f r \<longleftrightarrow> json_name f \<and> read_record c (F f) = Inr r"

lemma holds_exists: "holds c F f r \<Longrightarrow> F f \<noteq> None"
  by (cases "F f") (auto simp: holds_def read_record_def)

lemma read_stored: "read_record c b = Inr r \<Longrightarrow> stored_record c b = Inr s \<Longrightarrow> sr_recommendation s = r \<and> b = Some (sr_bytes s)"
  by (cases b) (auto simp: read_record_def stored_record_def and_then_ok split: if_split_asm option.splits)

text \<open>A valid graph names each of its records by one id, and one file holds it.\<close>

lemma holds_listed:
  assumes "list_all2 (\<lambda>f r. read_record c (F f) = Inr r) (names_of F) rs" "finite (dom F)"
  shows "holds c F f r \<longleftrightarrow> (\<exists>j < length rs. names_of F ! j = f \<and> rs ! j = r)"
proof
  note len = list_all2_lengthD [OF assms(1)]
  assume h: "holds c F f r"
  then have "f \<in> set (names_of F)" using names_of_set(1) [OF assms(2)] holds_exists [OF h] by (auto simp: holds_def)
  then obtain j where j: "j < length rs" "names_of F ! j = f" using len by (auto simp: in_set_conv_nth)
  then show "\<exists>j < length rs. names_of F ! j = f \<and> rs ! j = r"
    using h list_all2_nthD [OF assms(1), of j] len by (auto simp: holds_def)
next
  note len = list_all2_lengthD [OF assms(1)]
  assume "\<exists>j < length rs. names_of F ! j = f \<and> rs ! j = r"
  then obtain j where j: "j < length rs" "names_of F ! j = f" "rs ! j = r" by blast
  then have "f \<in> set (names_of F)" using len by auto
  then show "holds c F f r" using names_of_set(1) [OF assms(2)] j list_all2_nthD [OF assms(1), of j] len by (simp add: holds_def)
qed

lemma holds_unique:
  assumes "list_all2 (\<lambda>f r. read_record c (F f) = Inr r) (names_of F) rs" "finite (dom F)" "distinct (map rc_id rs)"
    and "holds c F f r" "holds c F g q" "rc_id r = rc_id q"
  shows "f = g \<and> r = q"
proof -
  obtain j k where "j < length rs" "names_of F ! j = f" "rs ! j = r" "k < length rs" "names_of F ! k = g" "rs ! k = q"
    using assms(4,5) unfolding holds_listed [OF assms(1,2)] by blast
  moreover from this have "j = k" using assms(3,6) nth_eq_iff_index_eq [OF assms(3), of j k] by simp
  ultimately show ?thesis by simp
qed

lemma set_by_id: "(i, x) \<in> set (by_id key xs) \<Longrightarrow> x \<in> set xs \<and> key x = i"
proof -
  assume "(i, x) \<in> set (by_id key xs)"
  then have i: "i \<in> key ` set xs" and x: "x = the (find (\<lambda>x. key x = i) (rev xs))" by (auto simp: by_id_def)
  then obtain y where y: "find (\<lambda>x. key x = i) (rev xs) = Some y"
    by (cases "find (\<lambda>x. key x = i) (rev xs)") (auto simp: find_None_iff)
  then have "y \<in> set (rev xs) \<and> key y = i" by (metis (mono_tags, lifting) find_Some_iff nth_mem)
  then show ?thesis using x y by simp
qed

lemma in_by_id: "x \<in> set xs \<Longrightarrow> \<exists>y. (key x, y) \<in> set (by_id key xs)"
  by (auto simp: by_id_def)

lemma distinct_by_id: "distinct (map fst (by_id key xs))"
  by (simp add: by_id_def comp_def)


section \<open>Deletion\<close>

text \<open>
  What a deletion leaves: the files of the records whose ids are not in the given set, unchanged,
  and every file that is no record.
\<close>

definition remaining :: "store_codec \<Rightarrow> string set \<Rightarrow> (string \<rightharpoonup> string) \<Rightarrow> (string \<rightharpoonup> string) \<Rightarrow> bool" where
  "remaining c D F0 F1 \<longleftrightarrow>
     (\<forall>f r. holds c F1 f r \<longleftrightarrow> holds c F0 f r \<and> rc_id r \<notin> D) \<and> (\<forall>f. F1 f = F0 f \<or> F1 f = None \<and> (\<exists>r. holds c F0 f r \<and> rc_id r \<in> D))"

definition deletions :: "string set \<Rightarrow> (string \<times> stored_recommendation) list \<Rightarrow> replacement list" where
  "deletions D stored = map (\<lambda>(i, s). \<lparr>rp_id = i, rp_old = Some (sr_bytes s), rp_new = None\<rparr>) (filter (\<lambda>(i, s). i \<in> D) stored)"

lemma stored_holds:
  assumes rs: "list_all2 (\<lambda>f r. read_record c (F0 f) = Inr r) (names_of F0) rs" "finite (dom F0)"
    and ss: "list_all2 (\<lambda>f s. stored_record c (F0 f) = Inr s) (names_of F0) ss"
  shows "j < length rs \<Longrightarrow> sr_recommendation (ss ! j) = rs ! j \<and> F0 (names_of F0 ! j) = Some (sr_bytes (ss ! j)) \<and> j < length ss"
    and "s \<in> set ss \<Longrightarrow> \<exists>f. holds c F0 f (sr_recommendation s) \<and> F0 f = Some (sr_bytes s)"
proof -
  have len: "length ss = length (names_of F0)" "length rs = length (names_of F0)"
    using list_all2_lengthD [OF ss] list_all2_lengthD [OF rs(1)] by simp_all
  show nth: "sr_recommendation (ss ! j) = rs ! j \<and> F0 (names_of F0 ! j) = Some (sr_bytes (ss ! j)) \<and> j < length ss" if "j < length rs" for j
    using read_stored [of c "F0 (names_of F0 ! j)" "rs ! j" "ss ! j"] list_all2_nthD [OF ss, of j] list_all2_nthD [OF rs(1), of j] that len by simp
  assume "s \<in> set ss"
  then obtain j where "j < length ss" "ss ! j = s" by (auto simp: in_set_conv_nth)
  then show "\<exists>f. holds c F0 f (sr_recommendation s) \<and> F0 f = Some (sr_bytes s)"
    using nth [of j] len unfolding holds_listed [OF rs] by auto
qed

lemma deletion_target:
  assumes rs: "list_all2 (\<lambda>f r. read_record c (F0 f) = Inr r) (names_of F0) rs" "finite (dom F0)"
    and ss: "list_all2 (\<lambda>f s. stored_record c (F0 f) = Inr s) (names_of F0) ss"
    and rp: "rp \<in> set (deletions D (by_id stored_id ss))" and ok: "valid_id (rp_id rp)" "F0 (target_of rp) = rp_old rp"
  shows "rp_new rp = None \<and> rp_id rp \<in> D \<and> (\<exists>r. holds c F0 (target_of rp) r \<and> rc_id r = rp_id rp)"
proof -
  obtain s where s: "(rp_id rp, s) \<in> set (by_id stored_id ss)" "rp_id rp \<in> D" "rp_old rp = Some (sr_bytes s)" "rp_new rp = None"
    using rp by (auto simp: deletions_def)
  then have "s \<in> set ss" and ids: "stored_id s = rp_id rp" using set_by_id [OF s(1)] by simp_all
  then obtain f where "holds c F0 f (sr_recommendation s)" "F0 f = Some (sr_bytes s)" using stored_holds(2) [OF rs ss] by blast
  then have "holds c F0 (target_of rp) (sr_recommendation s)"
    using ok s(3) record_json_name [OF valid_id_nonempty [OF ok(1)]] by (simp add: holds_def)
  then show ?thesis using s(2,4) ids by blast
qed

lemma deletion_found:
  assumes rs: "list_all2 (\<lambda>f r. read_record c (F0 f) = Inr r) (names_of F0) rs" "finite (dom F0)"
    and ss: "list_all2 (\<lambda>f s. stored_record c (F0 f) = Inr s) (names_of F0) ss" and held: "holds c F0 f r" "rc_id r \<in> D"
  shows "\<exists>rp \<in> set (deletions D (by_id stored_id ss)). rp_id rp = rc_id r"
proof -
  obtain j where j: "j < length rs" "rs ! j = r" using held(1) unfolding holds_listed [OF rs] by blast
  have "ss ! j \<in> set ss" "stored_id (ss ! j) = rc_id r" using stored_holds(1) [OF rs ss j(1)] j(2) by simp_all
  then obtain s where s: "(rc_id r, s) \<in> set (by_id stored_id ss)" using in_by_id [of "ss ! j" ss stored_id] by auto
  have "\<lparr>rp_id = rc_id r, rp_old = Some (sr_bytes s), rp_new = None\<rparr> \<in> set (deletions D (by_id stored_id ss))"
    unfolding deletions_def using s held(2) by (auto intro!: image_eqI [of _ _ "(rc_id r, s)"])
  then show ?thesis by (metis replacement.select_convs(1))
qed

lemma deletions_distinct: "distinct (map rp_id (deletions D (by_id stored_id ss)))"
  using distinct_map_filter [OF distinct_by_id [of stored_id ss]] by (simp add: deletions_def comp_def case_prod_beta)

lemma deletions_remaining:
  assumes rs: "list_all2 (\<lambda>f r. read_record c (F0 f) = Inr r) (names_of F0) rs" "finite (dom F0)" "distinct (map rc_id rs)"
    and ss: "list_all2 (\<lambda>f s. stored_record c (F0 f) = Inr s) (names_of F0) ss"
    and checked: "\<forall>rp \<in> set (deletions D (by_id stored_id ss)). valid_id (rp_id rp) \<and> F0 (target_of rp) = rp_old rp"
  shows "remaining c D F0 (updated (deletions D (by_id stored_id ss)) F0)"
proof -
  define ds where "ds = deletions D (by_id stored_id ss)"
  have target: "rp_new rp = None \<and> rp_id rp \<in> D \<and> (\<exists>r. holds c F0 (target_of rp) r \<and> rc_id r = rp_id rp)" if "rp \<in> set ds" for rp
    using deletion_target [OF rs(1,2) ss] checked that unfolding ds_def by blast
  have one: "updated ds F0 f = (if \<exists>r. holds c F0 f r \<and> rc_id r \<in> D then None else F0 f)" for f
  proof (cases "\<exists>rp \<in> set ds. target_of rp = f")
    case True
    then obtain rp where rp: "rp \<in> set ds" "target_of rp = f" by blast
    then have "updated ds F0 f = None" using updated_target [of ds rp F0] target deletions_distinct unfolding ds_def by auto
    then show ?thesis using target [OF rp(1)] rp(2) by auto
  next
    case False
    have "\<not> (holds c F0 f r \<and> rc_id r \<in> D)" for r
    proof
      assume held: "holds c F0 f r \<and> rc_id r \<in> D"
      then obtain rp where rp: "rp \<in> set ds" "rp_id rp = rc_id r" using deletion_found [OF rs(1,2) ss] unfolding ds_def by blast
      then obtain q where "holds c F0 (target_of rp) q" "rc_id q = rc_id r" using target by metis
      then have "target_of rp = f" using holds_unique [OF rs] held by blast
      then show False using False rp(1) by blast
    qed
    then show ?thesis using updated_other [of ds f F0] False by auto
  qed
  have "holds c (updated ds F0) f r \<longleftrightarrow> holds c F0 f r \<and> rc_id r \<notin> D" for f r
    using one [of f] holds_exists [of c "updated ds F0" f r] by (auto simp: holds_def split: if_split_asm)
  then show ?thesis unfolding remaining_def ds_def [symmetric] using one by auto
qed


text \<open>What a directory is after the records with some ids were deleted with all that is linked to them.\<close>

definition deleted :: "store_codec \<Rightarrow> (recommendation \<Rightarrow> bool) \<Rightarrow> (string \<rightharpoonup> string) \<Rightarrow> (string \<rightharpoonup> string) \<Rightarrow> bool" where
  "deleted c chosen F0 F1 \<longleftrightarrow> graph_of c F1 = Inr () \<and>
     (\<exists>rs. set rs = {r. \<exists>f. holds c F0 f r} \<and> remaining c (deletion_graph_ids rs (rc_id ` {r \<in> set rs. chosen r})) F0 F1)"

lemma triple_delete_graph_records:
  assumes manifests: "\<And>m. manifest_parse c (manifest_json c m) = Some m"
    and rs: "list_all2 (\<lambda>f r. read_record c (F0 f) = Inr r) (names_of F0) rs" "finite (dom F0)" "validate_graph_records (rec_part c) rs = Inr ()"
  shows "triple (settled_with F0) (delete_graph_records c e rs (rc_id ` {r \<in> set rs. chosen r}))
    (\<lambda>_ d. \<exists>F1. settled_with F1 d \<and> deleted c chosen F0 F1) (\<lambda>_. True)"
  unfolding delete_graph_records_def read_all_stored_by_id_def
proof (rule triple_bind)
  let ?D = "deletion_graph_ids rs (rc_id ` {r \<in> set rs. chosen r})"
  let ?stored = "\<lambda>ss. list_all2 (\<lambda>f s. stored_record c (F0 f) = Inr s) (names_of F0) ss"
  show "triple (settled_with F0) (io_bind (read_all_stored c e) (\<lambda>ss. io_return (by_id stored_id ss)))
      (\<lambda>x d. settled_with F0 d \<and> (\<exists>ss. x = by_id stored_id ss \<and> ?stored ss)) (\<lambda>_. True)"
    by (rule triple_bind [OF triple_read_all_stored [of "settled_with F0"]]) (rule triple_return, auto simp: settled_with_def)
  fix stored
  have all: "set rs = {r. \<exists>f. holds c F0 f r}"
    unfolding holds_listed [OF rs(1,2)] using list_all2_lengthD [OF rs(1)] by (auto simp: in_set_conv_nth)
  have distinct: "distinct (map rc_id rs)" using rs(3) by (simp add: validate_graph_ok graph_ok_def)
  have graph: "graph_of c F0 = Inr ()" unfolding graph_of_ok using rs(1,3) by blast
  have commit: "triple (settled_with F0) (let gone = filter (\<lambda>(i, s). i \<in> ?D) stored in
        commit_replacements c e (map (\<lambda>(i, s). (i, Some (sr_hash s))) gone)
          (map (\<lambda>(i, s). \<lparr>rp_id = i, rp_old = Some (sr_bytes s), rp_new = None\<rparr>) gone))
      (\<lambda>_ d. \<exists>F1. settled_with F1 d \<and> deleted c chosen F0 F1) (\<lambda>_. True)"
    if ss: "stored = by_id stored_id ss" "?stored ss" for ss
    unfolding Let_def deletions_def [symmetric]
  proof (rule triple_conseq [OF triple_commit_checked [OF manifests]])
    show "distinct (map rp_id (deletions ?D stored))" unfolding ss(1) by (rule deletions_distinct)
    show "rp_old rp \<noteq> None \<and> rp_new rp = None \<and> rp_id rp \<in> fst ` set (map (\<lambda>(i, s). (i, Some (sr_hash s))) (filter (\<lambda>(i, s). i \<in> ?D) stored))"
      if "rp \<in> set (deletions ?D stored)" for rp
      using that by (force simp: deletions_def)
    fix x d
    assume ended: "settled_with (updated (deletions ?D stored) F0) d \<and>
      (deletions ?D stored = [] \<or> graph_of c (updated (deletions ?D stored) F0) = Inr ()) \<and>
      (\<forall>rp \<in> set (deletions ?D stored). valid_id (rp_id rp) \<and> F0 (target_of rp) = rp_old rp)"
    then have "remaining c ?D F0 (updated (deletions ?D stored) F0)"
      using deletions_remaining [OF rs(1,2) distinct ss(2)] unfolding ss(1) by blast
    moreover have "updated [] F0 = F0" by (simp add: updated_def fun_eq_iff)
    then have "graph_of c (updated (deletions ?D stored) F0) = Inr ()" using ended graph by (elim conjE disjE) simp_all
    ultimately have "deleted c chosen F0 (updated (deletions ?D stored) F0)" unfolding deleted_def using all by blast
    then show "\<exists>F1. settled_with F1 d \<and> deleted c chosen F0 F1" using ended by blast
  qed simp_all
  show "triple (\<lambda>d. settled_with F0 d \<and> (\<exists>ss. stored = by_id stored_id ss \<and> ?stored ss)) (let gone = filter (\<lambda>(i, s). i \<in> ?D) stored in
        commit_replacements c e (map (\<lambda>(i, s). (i, Some (sr_hash s))) gone)
          (map (\<lambda>(i, s). \<lparr>rp_id = i, rp_old = Some (sr_bytes s), rp_new = None\<rparr>) gone))
      (\<lambda>_ d. \<exists>F1. settled_with F1 d \<and> deleted c chosen F0 F1) (\<lambda>_. True)"
    by (rule triple_assume) (use commit in blast)
qed

lemma triple_delete_chosen:
  assumes manifests: "\<And>m. manifest_parse c (manifest_json c m) = Some m"
  shows "triple (settled_with F0) (io_then (recover_transactions c e) (io_bind (read_all c e) (\<lambda>rs.
      io_then (io_lift (graph_checked c rs)) (delete_graph_records c e rs (rc_id ` {r \<in> set rs. chosen r})))))
    (\<lambda>_ d. \<exists>F1. settled_with F1 d \<and> deleted c chosen F0 F1) (\<lambda>_. True)"
proof (intro triple_then)
  show "triple (settled_with F0) (recover_transactions c e) (\<lambda>_. settled_with F0) (\<lambda>_. True)"
    by (rule triple_conseq [OF triple_recover_settled]) simp_all
  let ?Q = "\<lambda>_ d. \<exists>F1. settled_with F1 d \<and> deleted c chosen F0 F1"
  show "triple (settled_with F0) (io_bind (read_all c e) (\<lambda>rs.
      io_then (io_lift (graph_checked c rs)) (delete_graph_records c e rs (rc_id ` {r \<in> set rs. chosen r})))) ?Q (\<lambda>_. True)"
  proof (rule triple_bind)
    show "triple (settled_with F0) (read_all c e) (\<lambda>rs d. settled_with F0 d \<and> (read_pure c F0 (names_of F0) = Inr rs \<and> finite (dom F0))) (\<lambda>_. True)"
      by (rule triple_conseq [OF triple_read_all [of "settled_with F0"]]) (use settled_finite in \<open>auto simp: settled_with_def\<close>)
    show "triple (\<lambda>d. settled_with F0 d \<and> (read_pure c F0 (names_of F0) = Inr rs \<and> finite (dom F0)))
      (io_then (io_lift (graph_checked c rs)) (delete_graph_records c e rs (rc_id ` {r \<in> set rs. chosen r}))) ?Q (\<lambda>_. True)" for rs
    proof (rule triple_assume, rule triple_then)
      assume rs: "read_pure c F0 (names_of F0) = Inr rs \<and> finite (dom F0)"
      show "triple (settled_with F0) (io_lift (graph_checked c rs)) (\<lambda>_ d. settled_with F0 d \<and> graph_checked c rs = Inr ()) (\<lambda>_. True)"
        by (rule triple_lift) auto
      show "triple (\<lambda>d. settled_with F0 d \<and> graph_checked c rs = Inr ()) (delete_graph_records c e rs (rc_id ` {r \<in> set rs. chosen r})) ?Q (\<lambda>_. True)"
        by (rule triple_assume, rule triple_delete_graph_records [OF manifests])
           (use rs in \<open>auto simp: read_pure_list graph_checked_ok\<close>)
    qed
  qed
qed

lemma deleted_not_chosen:
  assumes "deleted c chosen F0 F1" "holds c F1 f r"
  shows "\<not> chosen r"
proof
  assume "chosen r"
  obtain rs where rs: "set rs = {r. \<exists>f. holds c F0 f r}" "remaining c (deletion_graph_ids rs (rc_id ` {r \<in> set rs. chosen r})) F0 F1"
    using assms(1) by (auto simp: deleted_def)
  have "holds c F0 f r" "rc_id r \<notin> deletion_graph_ids rs (rc_id ` {r \<in> set rs. chosen r})"
    using rs(2) assms(2) by (auto simp: remaining_def)
  moreover have "rc_id ` {r \<in> set rs. chosen r} \<subseteq> deletion_graph_ids rs (rc_id ` {r \<in> set rs. chosen r})"
    by (rule deletion_closed [THEN conjunct2]) simp
  ultimately show False using \<open>chosen r\<close> rs(1) by auto
qed


text \<open>
  C19: When deleting a session's recommendations is reported as done, they are gone. Whatever the
  file system did during the deletion, failed reads and interrupted calls included: if the store reports success,
  no record is left that has the session among its sources, in its evidence, among its affected sessions or in its dismissal watermark; exactly the
  records that mention it, and the ones linked to those as parent or member, were removed; every
  other file is as it was; the graph of what is left is valid, and no transaction is pending.
\<close>

theorem deleted_session_is_gone:
  assumes "\<And>m. manifest_parse c (manifest_json c m) = Some m" and "settled_with F0 (w_disk w)"
    and "delete_referencing_session c e session w = (Inr (), w1)"
  shows "\<exists>F1. settled_with F1 (w_disk w1) \<and> deleted c (\<lambda>r. references_session r session) F0 F1 \<and>
    (\<forall>f r. holds c F1 f r \<longrightarrow> \<not> references_session r session)"
proof -
  have "\<exists>F1. settled_with F1 (w_disk w1) \<and> deleted c (\<lambda>r. references_session r session) F0 F1"
    using triple_run [OF triple_delete_chosen [OF assms(1)] assms(2), of "\<lambda>r. references_session r session" e] assms(3)
    by (simp add: delete_referencing_session_def)
  then show ?thesis using deleted_not_chosen by blast
qed

text \<open>Scrubbing keeps no record that names a session outside the retained ones.\<close>

theorem scrubbed_orphans_are_gone:
  assumes "\<And>m. manifest_parse c (manifest_json c m) = Some m" and "settled_with F0 (w_disk w)"
    and "scrub_orphans c e retained w = (Inr (), w1)"
  shows "\<exists>F1. settled_with F1 (w_disk w1) \<and> deleted c (\<lambda>r. list_ex (\<lambda>s. s \<notin> retained) (referenced_sessions r)) F0 F1 \<and>
    (\<forall>f r. holds c F1 f r \<longrightarrow> set (referenced_sessions r) \<subseteq> retained)"
proof -
  have "\<exists>F1. settled_with F1 (w_disk w1) \<and> deleted c (\<lambda>r. list_ex (\<lambda>s. s \<notin> retained) (referenced_sessions r)) F0 F1"
    using triple_run [OF triple_delete_chosen [OF assms(1)] assms(2), of "\<lambda>r. list_ex (\<lambda>s. s \<notin> retained) (referenced_sessions r)" e] assms(3)
    by (simp add: scrub_orphans_def)
  then show ?thesis using deleted_not_chosen by (fastforce simp: list_ex_iff)
qed

section \<open>A concrete deletion\<close>

text \<open>An encoding of manifests that reads back: every byte is marked, so that an end can be told.\<close>

fun put_text :: "string \<Rightarrow> string" where
  "put_text [] = ''.''"
| "put_text (b # s) = CHR '':'' # b # put_text s"

fun get_text :: "string \<Rightarrow> (string \<times> string) option" where
  "get_text (m # s) = (if m = CHR ''.'' then Some ([], s)
     else (case s of [] \<Rightarrow> None | b # s1 \<Rightarrow> map_option (\<lambda>(x, y). (b # x, y)) (get_text s1)))"
| "get_text [] = None"

lemma get_put_text [simp]: "get_text (put_text s @ t) = Some (s, t)"
  by (induction s) simp_all

definition put_bool :: "bool \<Rightarrow> string" where
  "put_bool b = (if b then ''1'' else ''0'')"

definition get_bool :: "string \<Rightarrow> (bool \<times> string) option" where
  "get_bool s = (case s of [] \<Rightarrow> None | m # s1 \<Rightarrow> Some (m = CHR ''1'', s1))"

lemma get_put_bool [simp]: "get_bool (put_bool b @ t) = Some (b, t)"
  by (simp add: put_bool_def get_bool_def)

definition put_optional :: "string option \<Rightarrow> string" where
  "put_optional x = put_bool (x \<noteq> None) @ put_text (case x of None \<Rightarrow> [] | Some s \<Rightarrow> s)"

definition get_optional :: "string \<Rightarrow> (string option \<times> string) option" where
  "get_optional s = Option.bind (get_bool s) (\<lambda>(b, s1). map_option (\<lambda>(x, t). (if b then Some x else None, t)) (get_text s1))"

lemma get_put_optional [simp]: "get_optional (put_optional x @ t) = Some (x, t)"
  by (cases x) (simp_all add: put_optional_def get_optional_def)

definition put_entry :: "tx_entry \<Rightarrow> string" where
  "put_entry en = put_text (en_id en) @ put_text (en_target en) @ put_optional (en_staged en) @ put_optional (en_backup en) @
     put_optional (en_old_sha256 en) @ put_bool (en_old_exists en) @ put_optional (en_new_sha256 en) @ put_bool (en_new_exists en)"

definition get_entry :: "string \<Rightarrow> (tx_entry \<times> string) option" where
  "get_entry s =
     Option.bind (get_text s) (\<lambda>(i, s). Option.bind (get_text s) (\<lambda>(t, s). Option.bind (get_optional s) (\<lambda>(st, s).
     Option.bind (get_optional s) (\<lambda>(bk, s). Option.bind (get_optional s) (\<lambda>(oh, s). Option.bind (get_bool s) (\<lambda>(oe, s).
     Option.bind (get_optional s) (\<lambda>(nh, s). map_option (\<lambda>(ne, s).
       (\<lparr>en_id = i, en_target = t, en_staged = st, en_backup = bk, en_old_sha256 = oh, en_old_exists = oe, en_new_sha256 = nh,
         en_new_exists = ne\<rparr>, s)) (get_bool s))))))))"

lemma get_put_entry [simp]: "get_entry (put_entry en @ t) = Some (en, t)"
  by (simp add: put_entry_def get_entry_def)

fun put_entries :: "tx_entry list \<Rightarrow> string" where
  "put_entries [] = []"
| "put_entries (en # ens) = put_text (put_entry en) @ put_entries ens"

function get_entries :: "string \<Rightarrow> tx_entry list option" where
  "get_entries s = (if s = [] then Some [] else
     (case get_text s of None \<Rightarrow> None
      | Some (x, t) \<Rightarrow> if length t < length s then Option.bind (get_entry x) (\<lambda>(en, u). map_option (\<lambda>ens. en # ens) (get_entries t)) else None))"
  by pat_completeness auto
termination by (relation "measure length") auto

declare get_entries.simps [simp del]

lemma get_put_entries: "get_entries (put_entries ens) = Some ens"
proof (induction ens)
  case (Cons en ens)
  have "put_text (put_entry en) \<noteq> []" by (cases "put_entry en") simp_all
  then show ?case using Cons get_put_entry [of en "[]"] by (subst get_entries.simps) simp
qed (simp add: get_entries.simps)

definition put_manifest :: "tx_manifest \<Rightarrow> string" where
  "put_manifest m = put_text (replicate (unat (mf_version m)) (CHR ''v'')) @ put_bool (mf_committed m) @ put_entries (mf_entries m)"

definition get_manifest :: "string \<Rightarrow> tx_manifest option" where
  "get_manifest s = Option.bind (get_text s) (\<lambda>(v, s). Option.bind (get_bool s) (\<lambda>(b, s). map_option (\<lambda>ens.
     \<lparr>mf_version = of_nat (length v), mf_committed = b, mf_entries = ens\<rparr>) (get_entries s)))"

lemma get_put_manifest: "get_manifest (put_manifest m) = Some m"
  by (simp add: put_manifest_def get_manifest_def get_put_entries)


definition deleting_codec :: store_codec where
  "deleting_codec = sample_store_codec\<lparr>manifest_json := put_manifest, manifest_parse := get_manifest\<rparr>"

lemma deleting_codec_sel: "rec_part deleting_codec = sample_rec_codec" "rec_parse deleting_codec s = Some (sample_recommendation ''a'')"
  "hash_bytes deleting_codec s = s" "manifest_json deleting_codec = put_manifest" "manifest_parse deleting_codec = get_manifest"
  by (simp_all add: deleting_codec_def sample_store_codec_def)

lemma sample_stored: "stored_record deleting_codec (Some s) = Inr \<lparr>sr_recommendation = sample_recommendation ''a'', sr_bytes = s, sr_hash = s\<rparr>"
  by (simp add: stored_record_def deleting_codec_sel sample_record_valid)

lemma sample_read: "read_record deleting_codec (Some ''old'') = Inr (sample_recommendation ''a'')"
  by (simp add: read_record_def deleting_codec_sel sample_record_valid)

lemma sample_graph_checked: "graph_checked deleting_codec [sample_recommendation ''a''] = Inr ()" "graph_checked deleting_codec [] = Inr ()"
  unfolding graph_checked_ok validate_graph_ok
  by (simp_all add: deleting_codec_sel graph_ok_def record_ok_def member_keys_def active_parent_def)

lemma sample_deletion_ids: "deletion_graph_ids [sample_recommendation ''a''] {''a''} = {''a''}"
  by (subst deletion_graph_ids.simps) (simp add: deletion_round_def add_linked_def add_parent_def linked_def lookup_id_def)

lemma sample_world_names: "record_names \<lparr>rd_files = [(''a.json'', ''old'')], rd_txs = t\<rparr> = [''a.json'']"
  by (simp add: record_names_def json_name_def ends_with_def)

lemma calm_env_sel: "fault calm_env n = False" "stat_fault calm_env n = False" "torn calm_env n = None" "fresh calm_env n = ''tx''"
  by (simp_all add: calm_env_def)

lemmas calm_run = io_bind_def io_then_def io_return_def io_lift_def io_attempt_def fs_exists_def fs_call_def fs_read_def sync_directory_def
  calm_env_sel Let_def

lemma sample_read_all: "read_all deleting_codec calm_env \<lparr>w_disk = \<lparr>rd_files = [(''a.json'', ''old'')], rd_txs = t\<rparr>, w_step = n\<rparr> =
   (Inr [sample_recommendation ''a''], \<lparr>w_disk = \<lparr>rd_files = [(''a.json'', ''old'')], rd_txs = t\<rparr>, w_step = Suc (Suc n)\<rparr>)"
  by (simp add: read_all_def read_path_def calm_run sample_world_names sample_read)

lemma sample_read_stored: "read_all_stored_by_id deleting_codec calm_env \<lparr>w_disk = \<lparr>rd_files = [(''a.json'', ''old'')], rd_txs = t\<rparr>, w_step = n\<rparr> =
   (Inr [(''a'', \<lparr>sr_recommendation = sample_recommendation ''a'', sr_bytes = ''old'', sr_hash = ''old''\<rparr>)],
    \<lparr>w_disk = \<lparr>rd_files = [(''a.json'', ''old'')], rd_txs = t\<rparr>, w_step = Suc (Suc n)\<rparr>)"
  by (simp add: read_all_stored_by_id_def read_all_stored_def read_stored_path_def calm_run sample_world_names sample_stored by_id_def)

lemma sample_no_records: "validate_graph deleting_codec calm_env \<lparr>w_disk = \<lparr>rd_files = [], rd_txs = t\<rparr>, w_step = n\<rparr> =
   (Inr (), \<lparr>w_disk = \<lparr>rd_files = [], rd_txs = t\<rparr>, w_step = Suc n\<rparr>)"
  by (simp add: validate_graph_def read_all_def calm_run record_names_def sample_graph_checked)

definition sample_deletion :: replacement where
  "sample_deletion = \<lparr>rp_id = ''a'', rp_old = Some ''old'', rp_new = None\<rparr>"

lemma sample_transaction:
  "\<exists>w1. run_transaction deleting_codec calm_env ''tx'' [sample_deletion]
     \<lparr>w_disk = \<lparr>rd_files = [(''a.json'', ''old'')], rd_txs = None\<rparr>, w_step = n\<rparr> = (Inr (), w1)"
  by (simp add: run_transaction_def create_transaction_def add_tx_def txs_def stage_replacement_def sample_deletion_def tx_write_def on_tx_def
      write_manifest_atomic_def install_manifest_def tx_of_def put_file_def drop_file_def sample_filename calm_run entry_of_def publish_entry_def
      fs_remove_def sample_no_records finish_transaction_cleanup_def remove_manifest_def remove_transaction_def manifest_temporary_def
      ROLLUP_TRANSACTION_MANIFEST_def)


lemma sample_commit:
  "\<exists>w1. commit_replacements deleting_codec calm_env [(''a'', Some ''old'')] [sample_deletion]
     \<lparr>w_disk = \<lparr>rd_files = [(''a.json'', ''old'')], rd_txs = None\<rparr>, w_step = n\<rparr> = (Inr (), w1)"
proof -
  have "\<exists>w1. run_transaction deleting_codec calm_env ''tx'' [\<lparr>rp_id = ''a'', rp_old = Some ''old'', rp_new = None\<rparr>]
     \<lparr>w_disk = \<lparr>rd_files = [(''a.json'', ''old'')], rd_txs = None\<rparr>, w_step = k\<rparr> = (Inr (), w1)" for k
    using sample_transaction [of k] by (simp add: sample_deletion_def)
  then show ?thesis
    by (simp add: commit_replacements_def sample_read_all verify_expected_def check_unchanged_def sample_deletion_def sample_filename
        deleting_codec_sel calm_run del: One_nat_def)
qed

theorem deleted_session_is_gone_witness:
  "\<exists>w1 F1. delete_referencing_session deleting_codec calm_env ''s'' sample_world = (Inr (), w1) \<and> settled_with F1 (w_disk w1) \<and>
     (\<forall>f r. \<not> holds deleting_codec F1 f r) \<and> holds deleting_codec [''a.json'' \<mapsto> ''old''] ''a.json'' (sample_recommendation ''a'')"
proof -
  have "{r. r = sample_recommendation ''a'' \<and> references_session r ''s''} = {sample_recommendation ''a''}"
    by (auto simp: references_session_def)
  then have "\<exists>w1. delete_referencing_session deleting_codec calm_env ''s'' sample_world = (Inr (), w1)"
    using sample_commit
    by (simp add: delete_referencing_session_def recover_transactions_def sample_world_def sample_read_all delete_graph_records_def
        sample_read_stored sample_graph_checked sample_deletion_ids sample_deletion_def calm_run)
  then obtain w1 where run: "delete_referencing_session deleting_codec calm_env ''s'' sample_world = (Inr (), w1)" by blast
  have manifests: "manifest_parse deleting_codec (manifest_json deleting_codec m) = Some m" for m
    by (simp add: deleting_codec_sel get_put_manifest)
  have settled: "settled_with [''a.json'' \<mapsto> ''old''] (w_disk sample_world)" by (auto simp: settled_with_def sample_world_def txs_def)
  obtain F1 where F1: "settled_with F1 (w_disk w1)" "\<And>f r. holds deleting_codec F1 f r \<Longrightarrow> \<not> references_session r ''s''"
    using deleted_session_is_gone [OF manifests settled run] by blast
  have "r = sample_recommendation ''a''" if "holds deleting_codec F1 f r" for f r
    using that by (auto simp: holds_def read_record_def deleting_codec_sel sample_record_valid and_then_ok split: option.splits if_split_asm)
  moreover have "references_session (sample_recommendation ''a'') ''s''" by (simp add: references_session_def)
  ultimately have "\<not> holds deleting_codec F1 f r" for f r using F1(2) by blast
  moreover have "holds deleting_codec [''a.json'' \<mapsto> ''old''] ''a.json'' (sample_recommendation ''a'')"
    using sample_read by (simp add: holds_def json_name_def ends_with_def)
  ultimately show ?thesis using run F1(1) by blast
qed

end
