(* ===== verification/Strict_Json.thy ===== *)
theory Strict_Json
  imports Utf8 Decimal
begin

text \<open>
  The strict JSON scanner of \<^verbatim>\<open>taskmaster/knowledge/strict_json.rs\<close>, which reads the signed knowledge
  before serde does: no byte order mark, no duplicate keys, at most 32 levels, whole numbers in the
  safe range, no lone surrogates. The index of the code is the text that is left; an error carries
  the text it stopped at. The decoding of a string token (serde) is a function argument. The
  grammar of the accepted texts is stated as mutually inductive predicates and the scanner is
  proved to accept exactly them.
\<close>

section \<open>The scanner\<close>

datatype json_error =
    JsonTooLong | JsonBom | JsonNotUtf8 | TrailingData | TypedJson string | InvalidValue | KeyNotString
  | DuplicateKey string | ColonExpected | FieldCommaExpected | ItemCommaExpected | InvalidString
  | UnescapedControl | UnpairedHigh | UnpairedLow | InvalidEscape | Unterminated | InvalidUnicode
  | NoncanonicalNumber | UnsafeInteger | InvalidLiteral | TooDeep | OutOfFuel

type_synonym 'a scan = "(json_error \<times> string) + 'a"

abbreviation quote :: byte where "quote \<equiv> CHR 0x22"
abbreviation backslash :: byte where "backslash \<equiv> CHR 0x5C"

definition MAX_DEPTH :: nat where "MAX_DEPTH = 32"

definition MAX_SAFE_INTEGER :: nat where "MAX_SAFE_INTEGER = 9007199254740991"

definition json_white :: "byte \<Rightarrow> bool" where
  "json_white c \<longleftrightarrow> byte_val c \<in> {9, 10, 13, 32}"

definition whitespace :: "string \<Rightarrow> string" where
  "whitespace s = dropWhile json_white s"

definition take_byte :: "byte \<Rightarrow> string \<Rightarrow> string option" where
  "take_byte b s = (case s of [] \<Rightarrow> None | c # r \<Rightarrow> if c = b then Some r else None)"

definition literal :: "string \<Rightarrow> string \<Rightarrow> string scan" where
  "literal w s = (if take (length w) s = w then Inr (drop (length w) s) else Inl (InvalidLiteral, s))"

definition hex_digit :: "byte \<Rightarrow> nat" where
  "hex_digit b = (if byte_val b \<le> 57 then byte_val b - 48 else if byte_val b \<le> 70 then byte_val b - 55 else byte_val b - 87)"

definition hex_value :: "string \<Rightarrow> nat" where
  "hex_value h = foldl (\<lambda>v d. v * 16 + hex_digit d) 0 h"

text \<open>The text begins at the \<open>u\<close> of the escape.\<close>

definition code_unit :: "string \<Rightarrow> (nat \<times> string) scan" where
  "code_unit s =
     (let r = tl s; h = take 4 r in
      if length r < 4 \<or> \<not> list_all ascii_hexdigit h then Inl (InvalidUnicode, r) else Inr (hex_value h, drop 4 r))"

definition high_surrogate :: "nat \<Rightarrow> bool" where
  "high_surrogate v \<longleftrightarrow> 0xd800 \<le> v \<and> v \<le> 0xdbff"

definition low_surrogate :: "nat \<Rightarrow> bool" where
  "low_surrogate v \<longleftrightarrow> 0xdc00 \<le> v \<and> v \<le> 0xdfff"

definition simple_escapes :: string where
  "simple_escapes = [quote, backslash, CHR ''/'', CHR ''b'', CHR ''f'', CHR ''n'', CHR ''r'', CHR ''t'']"

text \<open>What follows a backslash.\<close>

definition scan_escape :: "string \<Rightarrow> string scan" where
  "scan_escape s =
     (case s of
        [] \<Rightarrow> Inl (InvalidEscape, s)
      | c # r \<Rightarrow>
          if c \<in> set simple_escapes then Inr r
          else if c = CHR ''u'' then
            (case code_unit s of
               Inl e \<Rightarrow> Inl e
             | Inr (high, r1) \<Rightarrow>
                 if high_surrogate high then
                   (if take 2 r1 \<noteq> [backslash, CHR ''u''] then Inl (UnpairedHigh, r1)
                    else case code_unit (tl r1) of
                           Inl e \<Rightarrow> Inl e
                         | Inr (low, r2) \<Rightarrow> if \<not> low_surrogate low then Inl (UnpairedHigh, r2) else Inr r2)
                 else if low_surrogate high then Inl (UnpairedLow, r1)
                 else Inr r1)
          else Inl (InvalidEscape, s))"

lemma code_unit_shorter: "code_unit s = Inr (v, r) \<Longrightarrow> length r < length s"
  by (auto simp: code_unit_def Let_def split: if_splits)

lemma scan_escape_shorter: "scan_escape s = Inr r \<Longrightarrow> length r < length s"
proof (cases s)
  case (Cons c t)
  moreover assume "scan_escape s = Inr r"
  ultimately show ?thesis
    using code_unit_shorter [of s]
    by (auto simp: scan_escape_def split: if_splits sum.splits dest!: code_unit_shorter)
qed (simp add: scan_escape_def)

text \<open>The text after the opening quote; what is left after the closing one.\<close>

function scan_string :: "string \<Rightarrow> string scan" where
  "scan_string s =
     (case s of
        [] \<Rightarrow> Inl (Unterminated, s)
      | c # r \<Rightarrow>
          if c = quote then Inr r
          else if byte_val c < 32 then Inl (UnescapedControl, s)
          else if c \<noteq> backslash then scan_string r
          else (case scan_escape r of Inl e \<Rightarrow> Inl e | Inr r1 \<Rightarrow> scan_string r1))"
  by auto

termination by (relation "measure length") (auto dest: scan_escape_shorter)

declare scan_string.simps [simp del]

text \<open>A string at its opening quote: the token with both quotes, decoded by serde.\<close>

definition json_string :: "(string \<Rightarrow> string option) \<Rightarrow> string \<Rightarrow> (string \<times> string) scan" where
  "json_string un s =
     (case scan_string (tl s) of
        Inl e \<Rightarrow> Inl e
      | Inr r \<Rightarrow> (case un (take (length s - length r) s) of None \<Rightarrow> Inl (InvalidString, r) | Some k \<Rightarrow> Inr (k, r)))"

definition number_end :: "string \<Rightarrow> bool" where
  "number_end r \<longleftrightarrow> (case r of [] \<Rightarrow> True | c # _ \<Rightarrow> json_white c \<or> c \<in> set '',]}'')"

definition json_number :: "string \<Rightarrow> string scan" where
  "json_number s =
     (let r = (if hd s = CHR ''0'' then tl s else dropWhile is_digit s); t = take (length s - length r) s in
      if \<not> number_end r then Inl (NoncanonicalNumber, r)
      else if 1 < length t \<and> take 1 t = ''0'' then Inl (NoncanonicalNumber, r)
      else case parse_uint (2 ^ 64) t of
             None \<Rightarrow> Inl (UnsafeInteger, r)
           | Some v \<Rightarrow> if v > MAX_SAFE_INTEGER then Inl (UnsafeInteger, r) else Inr r)"

text \<open>
  The three mutually recursive readers. The loops over fields and items are recursive calls; the
  fuel never runs out when it is more than twice the length of the text.
\<close>

fun scan_value :: "(string \<Rightarrow> string option) \<Rightarrow> nat \<Rightarrow> nat \<Rightarrow> string \<Rightarrow> string scan"
  and scan_fields :: "(string \<Rightarrow> string option) \<Rightarrow> nat \<Rightarrow> nat \<Rightarrow> string list \<Rightarrow> string \<Rightarrow> string scan"
  and scan_items :: "(string \<Rightarrow> string option) \<Rightarrow> nat \<Rightarrow> nat \<Rightarrow> string \<Rightarrow> string scan" where
  "scan_value un 0 d s = Inl (OutOfFuel, s)"
| "scan_value un (Suc n) d s =
     (let t = whitespace s in
      case t of
        [] \<Rightarrow> Inl (InvalidValue, t)
      | c # r \<Rightarrow>
          if c = CHR ''{'' then
            (if MAX_DEPTH < Suc d then Inl (TooDeep, t)
             else case take_byte (CHR ''}'') (whitespace r) of
                    Some r1 \<Rightarrow> Inr r1
                  | None \<Rightarrow> scan_fields un n (Suc d) [] (whitespace r))
          else if c = CHR ''['' then
            (if MAX_DEPTH < Suc d then Inl (TooDeep, t)
             else case take_byte (CHR '']'') (whitespace r) of
                    Some r1 \<Rightarrow> Inr r1
                  | None \<Rightarrow> scan_items un n (Suc d) (whitespace r))
          else if c = quote then (case json_string un t of Inl e \<Rightarrow> Inl e | Inr (k, r1) \<Rightarrow> Inr r1)
          else if c = CHR ''t'' then literal ''true'' t
          else if c = CHR ''f'' then literal ''false'' t
          else if c = CHR ''n'' then literal ''null'' t
          else if is_digit c then json_number t
          else Inl (InvalidValue, t))"
| "scan_fields un 0 d keys s = Inl (OutOfFuel, s)"
| "scan_fields un (Suc n) d keys s =
     (let t = whitespace s in
      if take 1 t \<noteq> [quote] then Inl (KeyNotString, t)
      else case json_string un t of
             Inl e \<Rightarrow> Inl e
           | Inr (k, r) \<Rightarrow>
               if k \<in> set keys then Inl (DuplicateKey k, r)
               else case take_byte (CHR '':'') (whitespace r) of
                      None \<Rightarrow> Inl (ColonExpected, whitespace r)
                    | Some r1 \<Rightarrow>
                        (case scan_value un n d r1 of
                           Inl e \<Rightarrow> Inl e
                         | Inr r2 \<Rightarrow>
                             (case take_byte (CHR ''}'') (whitespace r2) of
                                Some r3 \<Rightarrow> Inr r3
                              | None \<Rightarrow>
                                  (case take_byte (CHR '','') (whitespace r2) of
                                     None \<Rightarrow> Inl (FieldCommaExpected, whitespace r2)
                                   | Some r3 \<Rightarrow> scan_fields un n d (k # keys) r3))))"
| "scan_items un 0 d s = Inl (OutOfFuel, s)"
| "scan_items un (Suc n) d s =
     (case scan_value un n d s of
        Inl e \<Rightarrow> Inl e
      | Inr r \<Rightarrow>
          (case take_byte (CHR '']'') (whitespace r) of
             Some r1 \<Rightarrow> Inr r1
           | None \<Rightarrow>
               (case take_byte (CHR '','') (whitespace r) of
                  None \<Rightarrow> Inl (ItemCommaExpected, whitespace r)
                | Some r1 \<Rightarrow> scan_items un n d r1)))"

text \<open>The whole document, and the typed reading that follows it.\<close>

definition scan_document :: "(string \<Rightarrow> string option) \<Rightarrow> string \<Rightarrow> json_error + unit" where
  "scan_document un s =
     (case scan_value un (Suc (2 * length s)) 0 (whitespace s) of
        Inl (e, _) \<Rightarrow> Inl e
      | Inr r \<Rightarrow> refuse_if (whitespace r \<noteq> []) TrailingData)"

definition strict_parse ::
  "(string \<Rightarrow> string option) \<Rightarrow> (string \<Rightarrow> string + 'a) \<Rightarrow> string \<Rightarrow> nat \<Rightarrow> json_error + 'a" where
  "strict_parse un typed bytes max_bytes =
     (if length bytes > max_bytes then Inl JsonTooLong
      else if starts_with bytes [CHR 0xEF, CHR 0xBB, CHR 0xBF] then Inl JsonBom
      else if from_utf8 bytes \<noteq> Utf8_Ok then Inl JsonNotUtf8
      else and_then (scan_document un bytes) (\<lambda>_.
             case typed bytes of Inl m \<Rightarrow> Inl (TypedJson m) | Inr v \<Rightarrow> Inr v))"

section \<open>The grammar\<close>

definition blank :: "string \<Rightarrow> bool" where
  "blank w = list_all json_white w"

definition hex4 :: "string \<Rightarrow> bool" where
  "hex4 h \<longleftrightarrow> length h = 4 \<and> list_all ascii_hexdigit h"

text \<open>An escape without its backslash, and the rest of a string after its opening quote.\<close>

inductive escape_text :: "string \<Rightarrow> bool" where
  simple: "c \<in> set simple_escapes \<Longrightarrow> escape_text [c]"
| unit: "hex4 h \<Longrightarrow> \<not> high_surrogate (hex_value h) \<Longrightarrow> \<not> low_surrogate (hex_value h) \<Longrightarrow> escape_text (CHR ''u'' # h)"
| pair: "hex4 h \<Longrightarrow> high_surrogate (hex_value h) \<Longrightarrow> hex4 l \<Longrightarrow> low_surrogate (hex_value l) \<Longrightarrow>
           escape_text (CHR ''u'' # h @ backslash # CHR ''u'' # l)"

inductive string_body :: "string \<Rightarrow> bool" where
  close: "string_body [quote]"
| plain: "c \<noteq> quote \<Longrightarrow> c \<noteq> backslash \<Longrightarrow> 32 \<le> byte_val c \<Longrightarrow> string_body b \<Longrightarrow> string_body (c # b)"
| escape: "escape_text e \<Longrightarrow> string_body b \<Longrightarrow> string_body (backslash # e @ b)"

definition number_token :: "string \<Rightarrow> bool" where
  "number_token t \<longleftrightarrow> t \<noteq> [] \<and> list_all is_digit t \<and> (hd t = CHR ''0'' \<longrightarrow> t = ''0'') \<and> digits_value t \<le> MAX_SAFE_INTEGER"

text \<open>
  A value at a nesting depth, the fields of an object whose keys so far are given, up to the closing
  brace, and the items of an array up to the closing bracket.
\<close>

inductive value_text :: "(string \<Rightarrow> string option) \<Rightarrow> nat \<Rightarrow> string \<Rightarrow> bool"
  and fields_text :: "(string \<Rightarrow> string option) \<Rightarrow> nat \<Rightarrow> string set \<Rightarrow> string \<Rightarrow> bool"
  and items_text :: "(string \<Rightarrow> string option) \<Rightarrow> nat \<Rightarrow> string \<Rightarrow> bool"
  for un :: "string \<Rightarrow> string option" where
  word: "blank w \<Longrightarrow> t \<in> {''true'', ''false'', ''null''} \<Longrightarrow> value_text un d (w @ t)"
| number: "blank w \<Longrightarrow> number_token t \<Longrightarrow> value_text un d (w @ t)"
| quoted: "blank w \<Longrightarrow> string_body b \<Longrightarrow> un (quote # b) = Some k \<Longrightarrow> value_text un d (w @ quote # b)"
| object0: "blank w \<Longrightarrow> blank v \<Longrightarrow> d < 32 \<Longrightarrow> value_text un d (w @ CHR ''{'' # v @ ''}'')"
| object: "blank w \<Longrightarrow> d < 32 \<Longrightarrow> fields_text un (Suc d) {} f \<Longrightarrow> value_text un d (w @ CHR ''{'' # f)"
| array0: "blank w \<Longrightarrow> blank v \<Longrightarrow> d < 32 \<Longrightarrow> value_text un d (w @ CHR ''['' # v @ '']'')"
| array: "blank w \<Longrightarrow> d < 32 \<Longrightarrow> items_text un (Suc d) f \<Longrightarrow> value_text un d (w @ CHR ''['' # f)"
| field: "blank w \<Longrightarrow> string_body b \<Longrightarrow> un (quote # b) = Some k \<Longrightarrow> k \<notin> K \<Longrightarrow> blank w1 \<Longrightarrow> value_text un d v \<Longrightarrow>
            blank w2 \<Longrightarrow> fields_text un d K (w @ quote # b @ w1 @ CHR '':'' # v @ w2 @ ''}'')"
| fields: "blank w \<Longrightarrow> string_body b \<Longrightarrow> un (quote # b) = Some k \<Longrightarrow> k \<notin> K \<Longrightarrow> blank w1 \<Longrightarrow> value_text un d v \<Longrightarrow>
            blank w2 \<Longrightarrow> fields_text un d (insert k K) f \<Longrightarrow>
            fields_text un d K (w @ quote # b @ w1 @ CHR '':'' # v @ w2 @ CHR '','' # f)"
| item: "value_text un d v \<Longrightarrow> blank w \<Longrightarrow> items_text un d (v @ w @ '']'')"
| items: "value_text un d v \<Longrightarrow> blank w \<Longrightarrow> items_text un d f \<Longrightarrow> items_text un d (v @ w @ CHR '','' # f)"

section \<open>Tokens\<close>

lemma take_byte_Some: "take_byte b s = Some r \<longleftrightarrow> s = b # r"
  by (auto simp: take_byte_def split: list.splits)

lemma take_byte_Cons [simp]: "take_byte b (c # r) = (if c = b then Some r else None)"
  by (simp add: take_byte_def)

lemma whitespace_split: "\<exists>w. blank w \<and> s = w @ whitespace s"
  by (rule exI [of _ "takeWhile json_white s"]) (auto simp: whitespace_def blank_def list_all_iff dest: set_takeWhileD)

lemma whitespace_blank [simp]: "blank w \<Longrightarrow> whitespace (w @ s) = whitespace s"
  by (induction w) (auto simp: whitespace_def blank_def)

lemma whitespace_Cons [simp]: "\<not> json_white c \<Longrightarrow> whitespace (c # s) = c # s"
  by (simp add: whitespace_def)

lemma whitespace_idem [simp]: "whitespace (whitespace s) = whitespace s"
  by (simp add: whitespace_def)

lemma whitespace_length: "length (whitespace s) \<le> length s"
  by (simp add: whitespace_def length_dropWhile_le)

lemma white_bytes [simp]:
  "\<not> json_white quote" "\<not> json_white (CHR ''{'')" "\<not> json_white (CHR ''}'')" "\<not> json_white (CHR ''['')"
  "\<not> json_white (CHR '']'')" "\<not> json_white (CHR '':'')" "\<not> json_white (CHR '','')" "\<not> json_white (CHR ''t'')"
  "\<not> json_white (CHR ''f'')" "\<not> json_white (CHR ''n'')"
  by (simp_all add: json_white_def)

lemma json_digit_not_white: "is_digit c \<Longrightarrow> \<not> json_white c"
  by (auto simp: is_digit_def json_white_def)

lemma code_unit_sound: "code_unit (c # t) = Inr (v, r) \<Longrightarrow> \<exists>h. t = h @ r \<and> hex4 h \<and> v = hex_value h"
  by (rule exI [of _ "take 4 t"]) (auto simp: code_unit_def hex4_def Let_def split: if_splits)

lemma code_unit_complete: "hex4 h \<Longrightarrow> code_unit (c # h @ r) = Inr (hex_value h, r)"
  by (simp add: code_unit_def hex4_def Let_def)

lemma scan_escape_complete: "escape_text e \<Longrightarrow> scan_escape (e @ r) = Inr r"
proof (induction rule: escape_text.induct)
  case (unit h)
  then show ?case by (simp add: scan_escape_def code_unit_complete simple_escapes_def)
next
  case (pair h l)
  then show ?case by (simp add: scan_escape_def code_unit_complete simple_escapes_def)
qed (simp add: scan_escape_def)

lemma scan_escape_sound: "scan_escape s = Inr r \<Longrightarrow> \<exists>e. s = e @ r \<and> escape_text e"
proof (cases s)
  case (Cons c t)
  assume ok: "scan_escape s = Inr r"
  show ?thesis
  proof (cases "c \<in> set simple_escapes")
    case True
    with ok Cons show ?thesis by (auto simp: scan_escape_def intro: escape_text.simple exI [of _ "[c]"])
  next
    case False
    with ok Cons obtain v r1 where u: "c = CHR ''u''" and cu: "code_unit s = Inr (v, r1)"
      by (auto simp: scan_escape_def split: if_splits sum.splits)
    from code_unit_sound cu Cons obtain h where h: "t = h @ r1" "hex4 h" "v = hex_value h" by blast
    show ?thesis
    proof (cases "high_surrogate v")
      case True
      with ok Cons False u cu obtain l r2 where t2: "take 2 r1 = [backslash, CHR ''u'']"
        and cl: "code_unit (tl r1) = Inr (l, r2)" and low: "low_surrogate l" and r: "r = r2"
        by (auto simp: scan_escape_def split: if_splits sum.splits)
      from t2 obtain r3 where r1: "r1 = backslash # CHR ''u'' # r3"
        by (metis append_Cons append_Nil append_take_drop_id)
      with cl code_unit_sound obtain g where "r3 = g @ r2" "hex4 g" "l = hex_value g" by fastforce
      with h True low r r1 u Cons show ?thesis
        by (intro exI [of _ "CHR ''u'' # h @ backslash # CHR ''u'' # g"]) (simp add: escape_text.pair)
    next
      case High: False
      with ok Cons False u cu have "\<not> low_surrogate v" "r = r1"
        by (auto simp: scan_escape_def split: if_splits)
      with h High u Cons show ?thesis
        by (intro exI [of _ "CHR ''u'' # h"]) (simp add: escape_text.unit)
    qed
  qed
qed (simp add: scan_escape_def)

lemma scan_string_complete: "string_body b \<Longrightarrow> scan_string (b @ r) = Inr r"
proof (induction rule: string_body.induct)
  case close
  show ?case by (simp add: scan_string.simps)
next
  case (plain c b)
  then show ?case by (subst scan_string.simps) simp
next
  case (escape e b)
  then show ?case by (subst scan_string.simps) (simp add: scan_escape_complete)
qed

lemma scan_string_sound: "scan_string s = Inr r \<Longrightarrow> \<exists>b. s = b @ r \<and> string_body b"
proof (induction s rule: scan_string.induct)
  case (1 s)
  from "1.prems" obtain c t where s: "s = c # t" by (subst (asm) scan_string.simps) (auto split: list.splits)
  consider "c = quote" "r = t"
    | "c \<noteq> quote" "c \<noteq> backslash" "32 \<le> byte_val c" "scan_string t = Inr r"
    | r1 where "c = backslash" "scan_escape t = Inr r1" "scan_string r1 = Inr r"
    using "1.prems" s by (subst (asm) scan_string.simps) (auto split: if_splits sum.splits)
  then show ?case
  proof cases
    case 1
    with s show ?thesis by (auto intro: string_body.close exI [of _ "[quote]"])
  next
    case 2
    with "1.IH"(1) [OF s] obtain b where "t = b @ r" "string_body b" by auto
    with 2 s show ?thesis by (intro exI [of _ "c # b"]) (simp add: string_body.plain)
  next
    case 3
    with "1.IH"(2) [OF s] obtain b where b: "r1 = b @ r" "string_body b" by auto
    from scan_escape_sound 3 obtain e where "t = e @ r1" "escape_text e" by blast
    with b 3 s show ?thesis by (intro exI [of _ "backslash # e @ b"]) (simp add: string_body.escape)
  qed
qed

lemma json_string_complete:
  "string_body b \<Longrightarrow> un (quote # b) = Some k \<Longrightarrow> json_string un (quote # b @ r) = Inr (k, r)"
  by (simp add: json_string_def scan_string_complete)

lemma json_string_sound:
  "json_string un (quote # t) = Inr (k, r) \<Longrightarrow> \<exists>b. t = b @ r \<and> string_body b \<and> un (quote # b) = Some k"
  using scan_string_sound [of t r]
  by (auto simp: json_string_def Suc_diff_le split: sum.splits option.splits dest!: scan_string_sound)

lemma number_end_not_digit: "number_end r \<Longrightarrow> dropWhile is_digit r = r"
  by (cases r) (auto simp: number_end_def is_digit_def json_white_def)

lemma parse_number: "t \<noteq> [] \<Longrightarrow> list_all is_digit t \<Longrightarrow> digits_value t < bound \<Longrightarrow> parse_uint bound t = Some (digits_value t)"
  by (cases t) (auto simp: parse_uint_def unsigned_digits_def is_digit_def)

lemma parse_number_Some: "parse_uint bound t = Some v \<Longrightarrow> list_all is_digit t \<Longrightarrow> t \<noteq> [] \<and> v = digits_value t"
  by (cases t) (auto simp: parse_uint_def unsigned_digits_def is_digit_def Let_def split: if_splits)

lemma number_span:
  assumes "number_token t" "number_end r"
  shows "(if hd (t @ r) = CHR ''0'' then tl (t @ r) else dropWhile is_digit (t @ r)) = r"
  using assms number_end_not_digit [of r]
  by (cases "hd t = CHR ''0''") (auto simp: number_token_def list_all_iff dropWhile_append2)

lemma json_number_complete:
  assumes "number_token t" "number_end r"
  shows "json_number (t @ r) = Inr r"
proof -
  have "parse_uint (2 ^ 64) t = Some (digits_value t)"
    using assms(1) by (intro parse_number) (auto simp: number_token_def MAX_SAFE_INTEGER_def)
  moreover have "\<not> (1 < length t \<and> take 1 t = ''0'')"
    using assms(1) by (cases t) (auto simp: number_token_def)
  ultimately show ?thesis
    unfolding json_number_def number_span [OF assms] using assms
    by (auto simp: Let_def number_token_def)
qed

lemma json_number_sound:
  assumes "json_number s = Inr r" "s = c # s1" "is_digit c"
  shows "\<exists>t. s = t @ r \<and> number_token t"
proof -
  define t where "t = take (length s - length r) s"
  have r: "r = (if hd s = CHR ''0'' then tl s else dropWhile is_digit s)"
    using assms(1) by (auto simp: json_number_def Let_def split: if_splits option.splits)
  have t: "t = (if hd s = CHR ''0'' then ''0'' else takeWhile is_digit s)" and sp: "s = t @ r"
  proof -
    have "take (length u - length (dropWhile is_digit u)) u = takeWhile is_digit u" for u
      by (metis add_diff_cancel_right' length_append takeWhile_dropWhile_id takeWhile_eq_take)
    from this [of s] show "t = (if hd s = CHR ''0'' then ''0'' else takeWhile is_digit s)"
      using r assms(2) by (cases "hd s = CHR ''0''") (simp_all add: t_def)
    then show "s = t @ r" using r assms(2) by auto
  qed
  have dig: "list_all is_digit t" and zero: "hd s = CHR ''0'' \<Longrightarrow> t = ''0''"
    using t by (auto simp: list_all_iff is_digit_def dest: set_takeWhileD)
  obtain v where v: "parse_uint (2 ^ 64) t = Some v" "v \<le> MAX_SAFE_INTEGER"
    using assms(1) unfolding json_number_def r [symmetric] t_def
    by (auto simp: Let_def not_less split: if_splits option.splits)
  from parse_number_Some [OF v(1) dig] v(2) zero dig sp
  have "number_token t" by (cases t) (auto simp: number_token_def)
  with sp show ?thesis by blast
qed

section \<open>The scanner accepts the grammar\<close>

lemma number_end_more [simp]: "number_end (CHR ''}'' # r)" "number_end (CHR '']'' # r)" "number_end (CHR '','' # r)"
  by (simp_all add: number_end_def)

lemma number_end_blank: "blank w \<Longrightarrow> number_end r \<Longrightarrow> number_end (w @ r)"
  by (cases w) (auto simp: number_end_def blank_def)

lemma number_token_head: "number_token t \<Longrightarrow> \<exists>c t1. t = c # t1 \<and> is_digit c"
  by (cases t) (auto simp: number_token_def)

lemma digit_starts [simp]:
  "\<not> is_digit (CHR ''{'')" "\<not> is_digit (CHR ''['')" "\<not> is_digit quote" "\<not> is_digit (CHR ''t'')"
  "\<not> is_digit (CHR ''f'')" "\<not> is_digit (CHR ''n'')"
  by (simp_all add: is_digit_def)

lemma digit_starts_neq:
  assumes "is_digit c"
  shows "c \<noteq> CHR ''{''" "c \<noteq> CHR ''[''" "c \<noteq> quote" "c \<noteq> CHR ''t''" "c \<noteq> CHR ''f''" "c \<noteq> CHR ''n''" "c \<noteq> CHR '']''"
  using assms by (auto simp: is_digit_def)

lemma fuel_Suc: "m < (n :: nat) \<Longrightarrow> \<exists>k. n = Suc k \<and> m \<le> k"
  by (cases n) auto

lemma scan_value_number:
  assumes "blank w" "number_token t" "number_end r"
  shows "scan_value un (Suc n) d (w @ t @ r) = Inr r"
proof -
  obtain c t1 where t: "t = c # t1" "is_digit c" using number_token_head [OF assms(2)] by blast
  have "scan_value un (Suc n) d (w @ t @ r) = json_number (t @ r)"
    using assms(1) t(1) digit_starts_neq [OF t(2)] by (simp add: json_digit_not_white t(2))
  then show ?thesis using json_number_complete [OF assms(2,3)] by simp
qed

lemma fields_head: "fields_text un d K f \<Longrightarrow> \<exists>w b. blank w \<and> f = w @ quote # b"
  by (cases rule: fields_text.cases) auto

definition opens_value :: "string \<Rightarrow> bool" where
  "opens_value v \<longleftrightarrow> (\<exists>w c b. blank w \<and> v = w @ c # b \<and> \<not> json_white c \<and> c \<noteq> CHR '']'')"

lemma opens_value_I: "blank w \<Longrightarrow> \<not> json_white c \<Longrightarrow> c \<noteq> CHR '']'' \<Longrightarrow> opens_value (w @ c # b)"
  by (auto simp: opens_value_def)

lemma opens_value_append: "opens_value v \<Longrightarrow> opens_value (v @ r)"
  by (auto simp: opens_value_def)

lemma value_head:
  assumes "value_text un d v"
  shows "opens_value v"
  using assms
proof (cases rule: value_text.cases)
  case (number w t)
  from number_token_head [OF number(3)] obtain c b where "t = c # b" "is_digit c" by blast
  then show ?thesis
    using number(1,2) opens_value_I [of w c b] json_digit_not_white [of c] digit_starts_neq(7) [of c] by simp
next
  case (word w t)
  from word(3) have "\<exists>c b. t = c # b \<and> \<not> json_white c \<and> c \<noteq> CHR '']''" by (elim insertE) simp_all
  then show ?thesis using word(1,2) opens_value_I by blast
qed (simp_all add: opens_value_I)

lemma items_head: "items_text un d f \<Longrightarrow> opens_value f"
  by (erule items_text.cases) (simp_all add: value_head opens_value_append)

lemma scan_value_opens:
  "opens_value f \<Longrightarrow> take_byte (CHR '']'') (whitespace (f @ r)) = None"
  by (auto simp: opens_value_def)

lemma accepted_object:
  assumes "blank w" "d < 32" "fields_text un (Suc d) {} f" "scan_fields un n (Suc d) [] (f @ r) = Inr r"
  shows "scan_value un (Suc n) d (w @ CHR ''{'' # f @ r) = Inr r"
proof -
  obtain v b where f: "blank v" "f = v @ quote # b" using fields_head [OF assms(3)] by blast
  have "scan_fields un n (Suc d) [] (whitespace (f @ r)) = Inr r"
    using assms(4) by (cases n) (simp_all del: whitespace_blank)
  with assms(1,2) f show ?thesis by (simp add: MAX_DEPTH_def Let_def)
qed

lemma accepted_array:
  assumes "blank w" "d < 32" "items_text un (Suc d) f" "scan_items un n (Suc d) (f @ r) = Inr r"
  shows "scan_value un (Suc n) d (w @ CHR ''['' # f @ r) = Inr r"
proof -
  have ws: "scan_value un k e (whitespace s) = scan_value un k e s" if "0 < k" for k e s
    using that by (cases k) simp_all
  obtain m where n: "n = Suc (Suc m)"
    using assms(4) by (cases n; cases "n - 1") auto
  have "scan_items un n (Suc d) (whitespace (f @ r)) = Inr r"
    using assms(4) unfolding n by (simp add: ws del: scan_value.simps)
  with assms(1,2) scan_value_opens [OF items_head [OF assms(3)], of r] show ?thesis
    by (simp add: MAX_DEPTH_def Let_def)
qed

lemma accepted_field:
  assumes "blank w" "string_body b" "un (quote # b) = Some k" "k \<notin> set keys" "blank w1" "blank w2"
    and "scan_value un n d (v @ w2 @ rest) = Inr (w2 @ rest)"
  shows "scan_fields un (Suc n) d keys (w @ quote # b @ w1 @ CHR '':'' # v @ w2 @ rest) =
    (case take_byte (CHR ''}'') (whitespace rest) of
       Some r3 \<Rightarrow> Inr r3
     | None \<Rightarrow> (case take_byte (CHR '','') (whitespace rest) of
                 None \<Rightarrow> Inl (FieldCommaExpected, whitespace rest) | Some r3 \<Rightarrow> scan_fields un n d (k # keys) r3))"
  using assms json_string_complete [of b un k "w1 @ CHR '':'' # v @ w2 @ rest"]
  by (simp add: Let_def split: option.split)

lemma accepted_item:
  assumes "blank w" "scan_value un n d (v @ w @ rest) = Inr (w @ rest)"
  shows "scan_items un (Suc n) d (v @ w @ rest) =
    (case take_byte (CHR '']'') (whitespace rest) of
       Some r1 \<Rightarrow> Inr r1
     | None \<Rightarrow> (case take_byte (CHR '','') (whitespace rest) of
                 None \<Rightarrow> Inl (ItemCommaExpected, whitespace rest) | Some r1 \<Rightarrow> scan_items un n d r1))"
  using assms by (simp split: option.split)

lemma scanner_complete:
  "value_text un d p \<Longrightarrow> number_end r \<Longrightarrow> 2 * length p < n \<Longrightarrow> scan_value un n d (p @ r) = Inr r"
  "fields_text un d K p \<Longrightarrow> set keys = K \<Longrightarrow> 2 * length p < n \<Longrightarrow> scan_fields un n d keys (p @ r) = Inr r"
  "items_text un d p \<Longrightarrow> Suc (2 * length p) < n \<Longrightarrow> scan_items un n d (p @ r) = Inr r"
proof (induction arbitrary: r n and r n keys and r n rule: value_text_fields_text_items_text.inducts)
  case (word w t d)
  then obtain k where "n = Suc k" using fuel_Suc by blast
  with word show ?case by (auto simp: literal_def)
next
  case (number w t d)
  then obtain k where "n = Suc k" using fuel_Suc by blast
  with number show ?case using scan_value_number by simp
next
  case (quoted w b k d)
  then obtain m where "n = Suc m" using fuel_Suc by blast
  with quoted show ?case using json_string_complete [of b un k r] by simp
next
  case (object0 w v d)
  then obtain k where "n = Suc k" using fuel_Suc by blast
  with object0 show ?case by (simp add: MAX_DEPTH_def)
next
  case (object w d f)
  then obtain k where n: "n = Suc k" "2 * length f < k" by (cases n) auto
  have "scan_fields un k (Suc d) [] (f @ r) = Inr r" using object.IH n(2) by simp
  from accepted_object [OF object(1,2,3) this] n show ?case by simp
next
  case (array0 w v d)
  then obtain k where "n = Suc k" using fuel_Suc by blast
  with array0 show ?case by (simp add: MAX_DEPTH_def)
next
  case (array w d f)
  then obtain k where n: "n = Suc k" "Suc (2 * length f) < k" by (cases n) auto
  have "scan_items un k (Suc d) (f @ r) = Inr r" using array.IH n(2) by simp
  from accepted_array [OF array(1,2,3) this] n show ?case by simp
next
  case (field w b k K w1 d v w2)
  then obtain m where n: "n = Suc m" "2 * length v < m" by (cases n) auto
  have "scan_value un m d (v @ w2 @ CHR ''}'' # r) = Inr (w2 @ CHR ''}'' # r)"
    using field n(2) by (simp add: number_end_blank)
  from accepted_field [of w b un k keys w1 w2 m d v "CHR ''}'' # r"] this field n(1) show ?case by simp
next
  case (fields w b k K w1 d v w2 f)
  then obtain m where n: "n = Suc m" "2 * length v < m" "2 * length f < m" by (cases n) auto
  have "scan_value un m d (v @ w2 @ CHR '','' # f @ r) = Inr (w2 @ CHR '','' # f @ r)"
    using fields n(2) by (simp add: number_end_blank)
  moreover have "scan_fields un m d (k # keys) (f @ r) = Inr r" using fields n(3) by simp
  ultimately show ?case
    using accepted_field [of w b un k keys w1 w2 m d v "CHR '','' # f @ r"] fields n(1) by simp
next
  case (item d v w)
  then obtain m where n: "n = Suc m" "2 * length v < m" by (cases n) auto
  have "scan_value un m d (v @ w @ CHR '']'' # r) = Inr (w @ CHR '']'' # r)"
    using item n(2) by (simp add: number_end_blank)
  from accepted_item [OF item.hyps(1) this] n(1) show ?case by simp
next
  case (items d v w f)
  then obtain m where n: "n = Suc m" "2 * length v < m" "Suc (2 * length f) < m" by (cases n) auto
  have "scan_value un m d (v @ w @ CHR '','' # f @ r) = Inr (w @ CHR '','' # f @ r)"
    using items n(2) by (simp add: number_end_blank)
  from accepted_item [OF items.hyps(1) this] items n(1,3) show ?case by simp
qed

section \<open>What the scanner accepts is in the grammar\<close>

lemma literal_sound: "literal w s = Inr r \<Longrightarrow> s = w @ r"
  by (auto simp: literal_def append_take_drop_id [symmetric] split: if_splits) (metis append_take_drop_id)

lemma in_object:
  assumes "blank w" "d < 32" "fields_text un (Suc d) {} p" "blank v"
  shows "value_text un d (w @ CHR ''{'' # v @ p)"
proof -
  have "fields_text un (Suc d) {} (v @ p)"
    using assms(3)
  proof (cases rule: fields_text.cases)
    case (field u b k w1 x w2)
    with assms(4) value_text_fields_text_items_text.field [of "v @ u" b un k "{}" w1 "Suc d" x w2]
    show ?thesis by (simp add: blank_def)
  next
    case (fields u b k w1 x w2 f)
    with assms(4) value_text_fields_text_items_text.fields [of "v @ u" b un k "{}" w1 "Suc d" x w2 f]
    show ?thesis by (simp add: blank_def)
  qed
  with assms show ?thesis by (simp add: value_text_fields_text_items_text.object)
qed

lemma blank_value:
  assumes "value_text un d p" "blank v"
  shows "value_text un d (v @ p)"
  using assms(1)
proof (cases rule: value_text.cases)
  case (word w t)
  with assms(2) value_text_fields_text_items_text.word [of "v @ w" t un d] show ?thesis by (simp add: blank_def)
next
  case (number w t)
  with assms(2) value_text_fields_text_items_text.number [of "v @ w" t un d] show ?thesis by (simp add: blank_def)
next
  case (quoted w b k)
  with assms(2) value_text_fields_text_items_text.quoted [of "v @ w" b un k d] show ?thesis by (simp add: blank_def)
next
  case (object0 w u)
  with assms(2) value_text_fields_text_items_text.object0 [of "v @ w" u d un] show ?thesis by (simp add: blank_def)
next
  case (object w f)
  with assms(2) value_text_fields_text_items_text.object [of "v @ w" d un f] show ?thesis by (simp add: blank_def)
next
  case (array0 w u)
  with assms(2) value_text_fields_text_items_text.array0 [of "v @ w" u d un] show ?thesis by (simp add: blank_def)
next
  case (array w f)
  with assms(2) value_text_fields_text_items_text.array [of "v @ w" d un f] show ?thesis by (simp add: blank_def)
qed

lemma blank_items: "items_text un d p \<Longrightarrow> blank v \<Longrightarrow> items_text un d (v @ p)"
  by (erule items_text.cases)
    (metis append.assoc blank_value value_text_fields_text_items_text.item,
     metis append.assoc blank_value value_text_fields_text_items_text.items)

lemma step_value:
  assumes ok: "scan_value un (Suc n) d s = Inr r"
    and fields: "\<And>f. scan_fields un n (Suc d) [] f = Inr r \<Longrightarrow> \<exists>p. f = p @ r \<and> fields_text un (Suc d) {} p"
    and items: "\<And>f. scan_items un n (Suc d) f = Inr r \<Longrightarrow> \<exists>p. f = p @ r \<and> items_text un (Suc d) p"
  shows "\<exists>p. s = p @ r \<and> value_text un d p"
proof -
  obtain w where w: "blank w" "s = w @ whitespace s" using whitespace_split by blast
  obtain c t where ct: "whitespace s = c # t" using ok by (cases "whitespace s") (simp_all add: Let_def)
  obtain v where v: "blank v" "t = v @ whitespace t" using whitespace_split by blast
  have depth: "d < 32" if "c = CHR ''{'' \<or> c = CHR ''[''"
    using ok ct that by (auto simp: Let_def MAX_DEPTH_def split: if_splits)
  have "\<exists>p. whitespace s = p @ r \<and> value_text un d p"
  proof -
    consider (o0) "c = CHR ''{''" "whitespace t = CHR ''}'' # r"
      | (o) "c = CHR ''{''" "scan_fields un n (Suc d) [] (whitespace t) = Inr r"
      | (a0) "c = CHR ''[''" "whitespace t = CHR '']'' # r"
      | (a) "c = CHR ''[''" "scan_items un n (Suc d) (whitespace t) = Inr r"
      | (q) k where "c = quote" "json_string un (c # t) = Inr (k, r)"
      | (l) u where "u \<in> {''true'', ''false'', ''null''}" "literal u (c # t) = Inr r"
      | (n) "is_digit c" "json_number (c # t) = Inr r"
      using ok ct by (auto simp: Let_def take_byte_Some split: if_splits option.splits sum.splits)
    then show ?thesis
    proof cases
      case o0
      then show ?thesis
        using ct v depth value_text_fields_text_items_text.object0 [of "[]" v d un] by (auto simp: blank_def)
    next
      case o
      with fields obtain p where p: "whitespace t = p @ r" "fields_text un (Suc d) {} p" by blast
      with o(1) ct v depth in_object [of "[]" d un p v] show ?thesis
        by (intro exI [of _ "CHR ''{'' # v @ p"]) (auto simp: blank_def)
    next
      case a0
      then show ?thesis
        using ct v depth value_text_fields_text_items_text.array0 [of "[]" v d un] by (auto simp: blank_def)
    next
      case a
      with items obtain p where p: "whitespace t = p @ r" "items_text un (Suc d) p" by blast
      with a(1) ct v depth blank_items [of un "Suc d" p v] value_text_fields_text_items_text.array [of "[]" d un "v @ p"]
      show ?thesis by (intro exI [of _ "CHR ''['' # v @ p"]) (auto simp: blank_def)
    next
      case q
      with json_string_sound obtain b where "t = b @ r" "string_body b" "un (quote # b) = Some k" by blast
      with q(1) ct value_text_fields_text_items_text.quoted [of "[]" b un k d] show ?thesis by (auto simp: blank_def)
    next
      case l
      with literal_sound have "c # t = u @ r" by blast
      with l(1) ct value_text_fields_text_items_text.word [of "[]" u un d] show ?thesis by (auto simp: blank_def)
    next
      case n
      with json_number_sound obtain u where "c # t = u @ r" "number_token u" by blast
      with ct value_text_fields_text_items_text.number [of "[]" u un d] show ?thesis by (auto simp: blank_def)
    qed
  qed
  with w blank_value show ?thesis by (metis append.assoc)
qed

lemma step_fields:
  assumes ok: "scan_fields un (Suc n) d keys s = Inr r"
    and val: "\<And>f r1. scan_value un n d f = Inr r1 \<Longrightarrow> \<exists>p. f = p @ r1 \<and> value_text un d p"
    and more: "\<And>k f. scan_fields un n d (k # keys) f = Inr r \<Longrightarrow> \<exists>p. f = p @ r \<and> fields_text un d (insert k (set keys)) p"
  shows "\<exists>p. s = p @ r \<and> fields_text un d (set keys) p"
proof -
  obtain w where w: "blank w" "s = w @ whitespace s" using whitespace_split by blast
  obtain t where t: "whitespace s = quote # t"
    using ok by (cases "whitespace s") (auto simp: Let_def split: if_splits)
  obtain k r0 r1 r2 where j: "json_string un (quote # t) = Inr (k, r0)" and k: "k \<notin> set keys"
    and r0: "whitespace r0 = CHR '':'' # r1" and v: "scan_value un n d r1 = Inr r2"
    and r: "whitespace r2 = CHR ''}'' # r \<or> (\<exists>r3. whitespace r2 = CHR '','' # r3 \<and> scan_fields un n d (k # keys) r3 = Inr r)"
    using ok t by (auto simp: Let_def take_byte_Some split: if_splits option.splits sum.splits prod.splits)
  from json_string_sound [OF j] obtain b where b: "t = b @ r0" "string_body b" "un (quote # b) = Some k" by blast
  obtain w1 where w1: "blank w1" "r0 = w1 @ CHR '':'' # r1" using whitespace_split [of r0] r0 by auto
  from val [OF v] obtain p where p: "r1 = p @ r2" "value_text un d p" by blast
  obtain w2 where w2: "blank w2" "r2 = w2 @ whitespace r2" using whitespace_split by blast
  from r show ?thesis
  proof
    assume "whitespace r2 = CHR ''}'' # r"
    with w t b w1 p w2 k value_text_fields_text_items_text.field [of w b un k "set keys" w1 d p w2]
    show ?thesis by (intro exI [of _ "w @ quote # b @ w1 @ CHR '':'' # p @ w2 @ ''}''"]) simp
  next
    assume "\<exists>r3. whitespace r2 = CHR '','' # r3 \<and> scan_fields un n d (k # keys) r3 = Inr r"
    then obtain r3 where r3: "whitespace r2 = CHR '','' # r3" "scan_fields un n d (k # keys) r3 = Inr r" by blast
    from more [OF r3(2)] obtain f where "r3 = f @ r" "fields_text un d (insert k (set keys)) f" by blast
    with r3(1) w t b w1 p w2 k value_text_fields_text_items_text.fields [of w b un k "set keys" w1 d p w2 f]
    show ?thesis by (intro exI [of _ "w @ quote # b @ w1 @ CHR '':'' # p @ w2 @ CHR '','' # f"]) simp
  qed
qed

lemma step_items:
  assumes ok: "scan_items un (Suc n) d s = Inr r"
    and val: "\<And>r1. scan_value un n d s = Inr r1 \<Longrightarrow> \<exists>p. s = p @ r1 \<and> value_text un d p"
    and more: "\<And>f. scan_items un n d f = Inr r \<Longrightarrow> \<exists>p. f = p @ r \<and> items_text un d p"
  shows "\<exists>p. s = p @ r \<and> items_text un d p"
proof -
  obtain r2 where v: "scan_value un n d s = Inr r2"
    and r: "whitespace r2 = CHR '']'' # r \<or> (\<exists>r3. whitespace r2 = CHR '','' # r3 \<and> scan_items un n d r3 = Inr r)"
    using ok by (auto simp: take_byte_Some split: option.splits sum.splits)
  from val [OF v] obtain p where p: "s = p @ r2" "value_text un d p" by blast
  obtain w where w: "blank w" "r2 = w @ whitespace r2" using whitespace_split by blast
  from r show ?thesis
  proof
    assume "whitespace r2 = CHR '']'' # r"
    with p w value_text_fields_text_items_text.item [of un d p w] show ?thesis
      by (intro exI [of _ "p @ w @ '']''"]) simp
  next
    assume "\<exists>r3. whitespace r2 = CHR '','' # r3 \<and> scan_items un n d r3 = Inr r"
    then obtain r3 where r3: "whitespace r2 = CHR '','' # r3" "scan_items un n d r3 = Inr r" by blast
    from more [OF r3(2)] obtain f where "r3 = f @ r" "items_text un d f" by blast
    with r3(1) p w value_text_fields_text_items_text.items [of un d p w f] show ?thesis
      by (intro exI [of _ "p @ w @ CHR '','' # f"]) simp
  qed
qed

lemma scanner_sound:
  "scan_value un n d s = Inr r \<Longrightarrow> \<exists>p. s = p @ r \<and> value_text un d p"
  "scan_fields un n d keys s = Inr r \<Longrightarrow> \<exists>p. s = p @ r \<and> fields_text un d (set keys) p"
  "scan_items un n d s = Inr r \<Longrightarrow> \<exists>p. s = p @ r \<and> items_text un d p"
proof (induction n arbitrary: d s r keys)
  case (Suc n)
  { case 1
    then show ?case by (rule step_value) (use Suc.IH in fastforce)+
  next
    case 2
    then show ?case by (rule step_fields) (use Suc.IH in fastforce)+
  next
    case 3
    then show ?case by (rule step_items) (use Suc.IH in fastforce)+ }
qed simp_all

lemma value_text_end: "value_text un d v \<Longrightarrow> blank w \<Longrightarrow> scan_value un n d (v @ w) = Inr w" if "2 * length v < n" for v w n
  using that scanner_complete(1) [of un d v w n] by (cases w) (auto simp: number_end_def blank_def)

text \<open>
  C12: The scanner accepts a document exactly when the whole text is one value of the strict
  grammar, followed by blanks: every object has distinct decoded keys, arrays and objects nest at
  most 32 deep, numbers are canonical whole numbers of at most 9007199254740991, strings have no raw
  control bytes and no lone surrogates. The fuel of the model cuts no document short.
\<close>

theorem scan_document_exact:
  "scan_document un s = Inr () \<longleftrightarrow> (\<exists>v w. s = v @ w \<and> value_text un 0 v \<and> blank w)"
proof
  assume "scan_document un s = Inr ()"
  then obtain r where r: "scan_value un (Suc (2 * length s)) 0 (whitespace s) = Inr r" "whitespace r = []"
    by (auto simp: scan_document_def split: sum.splits)
  obtain u where u: "blank u" "s = u @ whitespace s" using whitespace_split by blast
  from scanner_sound(1) [OF r(1)] obtain p where p: "whitespace s = p @ r" "value_text un 0 p" by blast
  have "blank r" using whitespace_split [of r] r(2) by auto
  with u p blank_value [of un 0 p u] show "\<exists>v w. s = v @ w \<and> value_text un 0 v \<and> blank w"
    by (intro exI [of _ "u @ p"] exI [of _ r]) simp
next
  assume "\<exists>v w. s = v @ w \<and> value_text un 0 v \<and> blank w"
  then obtain v w where vw: "s = v @ w" "value_text un 0 v" "blank w" by blast
  have "scan_value un (Suc (2 * length s)) 0 s = Inr w"
    using vw value_text_end [of v "Suc (2 * length s)" un 0 w] by simp
  then have "scan_value un (Suc (2 * length s)) 0 (whitespace s) = Inr w" by simp
  moreover have "whitespace w = []" using vw(3) whitespace_blank [of w "[]"] by (simp add: whitespace_def)
  ultimately show "scan_document un s = Inr ()" by (simp add: scan_document_def)
qed

section \<open>The fuel is enough\<close>

lemma code_unit_fuel: "code_unit s \<noteq> Inl (OutOfFuel, x)"
  by (simp add: code_unit_def Let_def)

lemma scan_escape_fuel: "scan_escape s \<noteq> Inl (OutOfFuel, x)"
  by (auto simp: scan_escape_def code_unit_fuel split: list.splits sum.splits if_splits)

lemma scan_string_fuel: "scan_string s \<noteq> Inl (OutOfFuel, x)"
proof (induction s rule: scan_string.induct)
  case (1 s)
  then show ?case
    by (subst scan_string.simps) (auto simp: scan_escape_fuel split: list.splits sum.splits)
qed

lemma token_fuel:
  "json_string un s \<noteq> Inl (OutOfFuel, x)" "json_number s \<noteq> Inl (OutOfFuel, x)" "literal w s \<noteq> Inl (OutOfFuel, x)"
  by (auto simp: json_string_def json_number_def literal_def scan_string_fuel Let_def split: sum.splits option.splits)

lemma json_string_shorter: "json_string un (c # s) = Inr (k, r) \<Longrightarrow> length r < Suc (length s)"
  using scan_string_sound by (fastforce simp: json_string_def split: sum.splits option.splits)

lemma scan_value_shorter: "scan_value un n d s = Inr r \<Longrightarrow> length r < length s"
proof -
  assume "scan_value un n d s = Inr r"
  then obtain p where "s = p @ r" "value_text un d p" using scanner_sound(1) by blast
  then show ?thesis by (auto dest!: value_head simp: opens_value_def)
qed

lemma scanner_fuel:
  "2 * length s < n \<Longrightarrow> scan_value un n d s \<noteq> Inl (OutOfFuel, x)"
  "2 * length s < n \<Longrightarrow> scan_fields un n d keys s \<noteq> Inl (OutOfFuel, x)"
  "Suc (2 * length s) < n \<Longrightarrow> scan_items un n d s \<noteq> Inl (OutOfFuel, x)"
proof (induction n arbitrary: d s x keys)
  case (Suc n)
  note ws = whitespace_length
  { case 1
    show ?case
    proof (cases "whitespace s")
      case (Cons c t)
      have "2 * length (whitespace t) < n" "Suc (2 * length (whitespace t)) < n"
        using 1 Cons ws [of s] ws [of t] by simp_all
      with Suc.IH Cons show ?thesis
        by (auto simp: Let_def token_fuel split: option.splits sum.splits)
    qed (simp add: Let_def)
  next
    case 2
    have "2 * length r1 < n" if "json_string un (whitespace s) = Inr (k, r)" "take 1 (whitespace s) = [quote]"
      "whitespace r = c # r1" for k r c r1
      using 2 that ws [of s] ws [of r] json_string_shorter [of un quote "tl (whitespace s)" k r]
      by (cases "whitespace s") auto
    moreover have "2 * length r3 < n" if "json_string un (whitespace s) = Inr (k, r)" "take 1 (whitespace s) = [quote]"
      "whitespace r = c # r1" "scan_value un n d r1 = Inr r2" "whitespace r2 = c2 # r3" for k r c r1 r2 c2 r3
      using calculation [OF that(1-3)] scan_value_shorter [OF that(4)] ws [of r2] that(5) by simp
    ultimately show ?case using Suc.IH(1,2)
      by (auto simp: Let_def token_fuel take_byte_Some split: option.splits sum.splits)
  next
    case 3
    have "Suc (2 * length r1) < n" if "scan_value un n d s = Inr r" "whitespace r = c # r1" for r c r1
      using 3 scan_value_shorter [OF that(1)] ws [of r] that(2) by simp
    with 3 Suc.IH(1,3) show ?case by (auto simp: take_byte_Some split: option.splits sum.splits) }
qed simp_all

lemma scan_document_fuel: "scan_document un s \<noteq> Inl OutOfFuel"
proof -
  have "2 * length (whitespace s) < Suc (2 * length s)" using whitespace_length [of s] by simp
  from scanner_fuel(1) [OF this, of un 0] show ?thesis
    by (auto simp: scan_document_def refuse_if_def split: sum.splits)
qed

end
