(* ===== verification/Knowledge.thy ===== *)
theory Knowledge
  imports Strict_Json Recommendation
begin

text \<open>
  Signed reference knowledge, \<^verbatim>\<open>taskmaster/knowledge.rs\<close> and the rubric check of
  \<^verbatim>\<open>taskmaster/readiness_rubric.rs\<close>: an activation names a bundle and a manifest in signed envelopes;
  both signatures, the shape of the bundle and the manifest entry that binds the bundle are checked
  before any of it is used. Base64, Ed25519, SHA-256, the URL parser and the typed reading of JSON
  are other crates and are function arguments; the strict scanner in front of the typed reading is
  the one of \<open>Strict_Json\<close>.
\<close>

section \<open>Data\<close>

type_synonym u8 = "8 word"

record knowledge_provenance =
  pv_title :: string
  pv_url :: string

record knowledge_page =
  kp_id :: string
  kp_title :: string
  kp_type :: string
  kp_status :: string
  kp_content :: string
  kp_sha256 :: string
  kp_related_ids :: "string list"
  kp_parent_id :: "string option"
  kp_applicability :: "string list option"
  kp_provenance :: "knowledge_provenance list option"

record rubric_concept =
  rx_concept_id :: string
  rx_page_id :: string
  rx_page_sha256 :: string
  rx_levels :: "string list"

record readiness_rubric =
  rb_id :: string
  rb_revision :: u64
  rb_concepts :: "rubric_concept list"

record knowledge_bundle =
  kb_format_version :: u8
  kb_version :: string
  kb_sequence :: u64
  kb_published_at :: string
  kb_privacy_version :: u8
  kb_capabilities :: "string list"
  kb_rubric :: "readiness_rubric option"
  kb_pages :: "knowledge_page list"

record knowledge_identity =
  ki_bundle_sha256 :: string
  ki_format_version :: u8
  ki_privacy_version :: u8
  ki_version :: string
  ki_sequence :: u64
  ki_key_sha256 :: string

record activation =
  av_format_version :: u8
  av_bundle_base64 :: string
  av_manifest_base64 :: string

record signed_envelope =
  se_payload :: string
  se_signature :: string

record manifest_entry =
  me_format_version :: u64
  me_privacy_version :: u64
  me_sequence :: u64
  me_version :: string
  me_sha256 :: string
  me_path :: string

record knowledge_manifest =
  mf_format_version :: u8
  mf_bundles :: "manifest_entry list"

record verified_knowledge =
  vk_bundle :: knowledge_bundle
  vk_identity :: knowledge_identity
  vk_bytes :: string

record parsed_url =
  pu_scheme :: string
  pu_username :: string
  pu_password :: "string option"
  pu_path :: string
  pu_query :: "string option"
  pu_fragment :: "string option"
  pu_text :: string

text \<open>What the code takes from other crates. A public key is named by its DER bytes.\<close>

record knowledge_crates =
  kv_unquote :: "string \<Rightarrow> string option"
  kv_activation :: "string \<Rightarrow> string + activation"
  kv_envelope :: "string \<Rightarrow> string + signed_envelope"
  kv_bundle :: "string \<Rightarrow> string + knowledge_bundle"
  kv_manifest :: "string \<Rightarrow> string + knowledge_manifest"
  kv_decode64 :: "string \<Rightarrow> string option"
  kv_encode64 :: "string \<Rightarrow> string"
  kv_is_key :: "string \<Rightarrow> bool"
  kv_weak_key :: "string \<Rightarrow> bool"
  kv_verify :: "string \<Rightarrow> string \<Rightarrow> string \<Rightarrow> bool"
  kv_sha256_hex :: "string \<Rightarrow> string"
  kv_url :: "string \<Rightarrow> parsed_url option"
  kv_rubric_bytes :: "readiness_rubric \<Rightarrow> string option"

datatype knowledge_error =
    ActivationTooLong | ActivationFormat | EnvelopesTooLong | EnvelopeTooLong | StrictJson json_error
  | NotCanonicalBase64 string | SignatureLength | SignatureInvalid | KeyPem | KeySpki | WeakKey
  | BundleFormat | UnsafeIdentifier string | SequenceUnsafe | TimestampNotCanonical | TooManyItems string
  | StringBounds string | NotUnique string | ReadinessFormat | ReadinessCapability | RubricMissing | RubricBounds
  | RubricEncoding | RubricMapping | PageCount | PageId | PageType | PageContent | PageDigest | ProvenanceCount
  | UrlBytes | UrlSyntax | UrlEscape | UrlHex | UrlParse | UrlNotCanonical | DuplicatePage | RelatedMissing
  | ParentInvalid | ParentCycle | ManifestFormat | ManifestCount | ManifestVersions | ManifestSequence
  | ManifestDigest | ManifestPath | ManifestDuplicate | ManifestVersionTwice | ManifestPathTwice | ManifestBinding

definition MAX_ACTIVATION_BYTES :: nat where "MAX_ACTIVATION_BYTES = 6291456"

definition MAX_ENVELOPE_BYTES :: nat where "MAX_ENVELOPE_BYTES = 2097152"

definition PAGE_TYPES :: "string list" where
  "PAGE_TYPES = [''concept'', ''principle'', ''practice'', ''playbook'', ''reference'', ''implementation-mapping'', ''index'']"

section \<open>Texts\<close>

definition bounded_string :: "string \<Rightarrow> string \<Rightarrow> nat \<Rightarrow> nat \<Rightarrow> knowledge_error + unit" where
  "bounded_string v label lo hi = refuse_if (length v < lo \<or> length v > hi) (StringBounds label)"

definition identifier_byte :: "byte \<Rightarrow> bool" where
  "identifier_byte c \<longleftrightarrow> ascii_alphanumeric c \<or> c \<in> set ''._-''"

definition safe_identifier :: "string \<Rightarrow> string \<Rightarrow> knowledge_error + unit" where
  "safe_identifier v label = refuse_if (v = [] \<or> length v > 128 \<or> \<not> list_all identifier_byte v) (UnsafeIdentifier label)"

definition validate_unique_strings ::
  "string list \<Rightarrow> string \<Rightarrow> nat \<Rightarrow> nat \<Rightarrow> bool \<Rightarrow> knowledge_error + unit" where
  "validate_unique_strings items label max_items max_bytes identifier =
     (if length items > max_items then Inl (TooManyItems label)
      else map_sum (\<lambda>e. e) (\<lambda>_. ())
        (try_each (\<lambda>item seen.
           and_then (bounded_string item label 1 max_bytes) (\<lambda>_.
             and_then (if identifier then safe_identifier item label else Inr ()) (\<lambda>_.
               if item \<in> set seen then Inl (NotUnique label) else Inr (item # seen)))) items []))"

definition page_segment_bad :: "string \<Rightarrow> bool" where
  "page_segment_bad g \<longleftrightarrow> g = [] \<or> g = ''.'' \<or> g = ''..'' \<or> starts_with g ''.'' \<or>
     (\<not> ascii_alphanumeric (hd g) \<and> hd g \<noteq> CHR ''_'') \<or> \<not> list_all identifier_byte g"

definition page_id :: "string \<Rightarrow> knowledge_error + unit" where
  "page_id v =
     (if length v > 256 \<or> \<not> ends_with v ''.md'' then Inl PageId
      else refuse_if (list_ex page_segment_bad (split_on (CHR ''/'') (take (length v - 3) v))) PageId)"

definition upper_hexdigit :: "byte \<Rightarrow> bool" where
  "upper_hexdigit b \<longleftrightarrow> is_digit b \<or> (65 \<le> byte_val b \<and> byte_val b \<le> 70)"

fun percent_escapes :: "string \<Rightarrow> knowledge_error + unit" where
  "percent_escapes [] = Inr ()"
| "percent_escapes (c # r) =
     (if c = CHR ''%'' then
        (case r of
           a # b # r1 \<Rightarrow> if upper_hexdigit a \<and> upper_hexdigit b then percent_escapes r1 else Inl UrlHex
         | _ \<Rightarrow> Inl UrlEscape)
      else percent_escapes r)"

definition validate_url :: "knowledge_crates \<Rightarrow> string \<Rightarrow> knowledge_error + unit" where
  "validate_url k v =
     (if v = [] \<or> length v > 2048 \<or> \<not> list_all (\<lambda>b. 0x21 \<le> byte_val b \<and> byte_val b \<le> 0x7e) v then Inl UrlBytes
      else if \<not> starts_with v ''https://'' \<or> backslash \<in> set v \<or> CHR ''#'' \<in> set v then Inl UrlSyntax
      else and_then (percent_escapes v) (\<lambda>_.
        case kv_url k v of
          None \<Rightarrow> Inl UrlParse
        | Some p \<Rightarrow>
            refuse_if (pu_scheme p \<noteq> ''https'' \<or> pu_username p \<noteq> [] \<or> pu_password p \<noteq> None \<or> pu_fragment p \<noteq> None \<or>
              CHR ''@'' \<in> set (takeWhile (\<lambda>b. b \<notin> set ''/?#'') (drop 8 v)) \<or> pu_text p \<noteq> v) UrlNotCanonical))"

definition slice :: "nat \<Rightarrow> nat \<Rightarrow> 'a list \<Rightarrow> 'a list" where
  "slice a b s = take (b - a) (drop a s)"

definition leap_year :: "nat \<Rightarrow> bool" where
  "leap_year y \<longleftrightarrow> y mod 4 = 0 \<and> (y mod 100 \<noteq> 0 \<or> y mod 400 = 0)"

definition days_in_month :: "nat \<Rightarrow> nat \<Rightarrow> nat" where
  "days_in_month y m = (if m = 2 then (if leap_year y then 29 else 28) else if m \<in> {4, 6, 9, 11} then 30 else 31)"

definition canonical_timestamp :: "string \<Rightarrow> bool" where
  "canonical_timestamp b \<longleftrightarrow>
     length b = 24 \<and> b ! 4 = CHR ''-'' \<and> b ! 7 = CHR ''-'' \<and> b ! 10 = CHR ''T'' \<and> b ! 13 = CHR '':'' \<and>
     b ! 16 = CHR '':'' \<and> b ! 19 = CHR ''.'' \<and> b ! 23 = CHR ''Z'' \<and>
     list_all (\<lambda>(i, j). list_all is_digit (slice i j b)) [(0, 4), (5, 7), (8, 10), (11, 13), (14, 16), (17, 19), (20, 23)] \<and>
     (let num = (\<lambda>i j. digits_value (slice i j b)); month = num 5 7; day = num 8 10 in
      month \<noteq> 0 \<and> month \<le> 12 \<and> num 11 13 \<le> 23 \<and> num 14 16 \<le> 59 \<and> num 17 19 \<le> 59 \<and>
      1 \<le> day \<and> day \<le> days_in_month (num 0 4) month)"

definition is_lower_sha256 :: "string \<Rightarrow> bool" where
  "is_lower_sha256 v \<longleftrightarrow> length v = 64 \<and> list_all (\<lambda>c. c \<in> set ''0123456789abcdef'') v"

section \<open>The bundle\<close>

definition concept_bad :: "knowledge_page list \<Rightarrow> rubric_concept \<times> string \<Rightarrow> bool" where
  "concept_bad pages ci \<longleftrightarrow> (case ci of (c, i) \<Rightarrow>
     rx_concept_id c \<noteq> i \<or> length (rx_levels c) \<noteq> 5 \<or>
     \<not> list_ex (\<lambda>p. kp_id p = rx_page_id c \<and> kp_sha256 p = rx_page_sha256 c) pages \<or>
     list_ex (\<lambda>t. trim t = [] \<or> length t > 500 \<or> has_control t) (rx_levels c))"

definition rubric_validate :: "knowledge_crates \<Rightarrow> readiness_rubric \<Rightarrow> knowledge_page list \<Rightarrow> knowledge_error + unit" where
  "rubric_validate k r pages =
     (if rb_id r \<noteq> ''brain-agent-readiness'' \<or> rb_revision r = 0 \<or> unat (rb_revision r) > MAX_SAFE_INTEGER \<or>
         length (rb_concepts r) \<noteq> 14 then Inl RubricBounds
      else case kv_rubric_bytes k r of
             None \<Rightarrow> Inl RubricEncoding
           | Some b \<Rightarrow>
               if length b > 40960 then Inl RubricBounds
               else refuse_if (list_ex (concept_bad pages) (zip (rb_concepts r) CONCEPT_IDS)) RubricMapping)"

definition check_provenance :: "knowledge_crates \<Rightarrow> knowledge_provenance \<Rightarrow> knowledge_error + unit" where
  "check_provenance k v =
     first_error [bounded_string (pv_title v) ''provenance.title'' 1 512, bounded_string (pv_url v) ''provenance.url'' 1 2048,
       validate_url k (pv_url v)]"

definition check_page :: "knowledge_crates \<Rightarrow> knowledge_page \<Rightarrow> knowledge_error + unit" where
  "check_page k p =
     first_error
       ([page_id (kp_id p), bounded_string (kp_title p) ''page.title'' 1 512, bounded_string (kp_type p) ''page.type'' 1 128,
         refuse_if (kp_type p \<notin> set PAGE_TYPES) PageType, bounded_string (kp_status p) ''page.status'' 1 128,
         refuse_if (length (kp_content p) > 65536) PageContent,
         refuse_if (\<not> is_lower_sha256 (kp_sha256 p) \<or> kp_sha256 p \<noteq> kv_sha256_hex k (kp_content p)) PageDigest,
         validate_unique_strings (kp_related_ids p) ''page.relatedIds'' 256 256 False]
        @ map page_id (kp_related_ids p)
        @ [case kp_parent_id p of None \<Rightarrow> Inr () | Some q \<Rightarrow> page_id q,
           case kp_applicability p of None \<Rightarrow> Inr () | Some a \<Rightarrow> validate_unique_strings a ''page.applicability'' 32 128 False]
        @ (case kp_provenance p of
             None \<Rightarrow> []
           | Some vs \<Rightarrow> refuse_if (length vs > 16) ProvenanceCount # map (check_provenance k) vs))"

definition page_of :: "knowledge_page list \<Rightarrow> string \<Rightarrow> knowledge_page option" where
  "page_of pages i = find (\<lambda>p. kp_id p = i) pages"

definition check_links :: "knowledge_page list \<Rightarrow> knowledge_page \<Rightarrow> knowledge_error + unit" where
  "check_links pages p =
     first_error
       (map (\<lambda>i. refuse_if (page_of pages i = None) RelatedMissing) (kp_related_ids p)
        @ [case kp_parent_id p of None \<Rightarrow> Inr () | Some q \<Rightarrow> refuse_if (q = kp_id p \<or> page_of pages q = None) ParentInvalid])"

lemma page_of_Some: "page_of pages i = Some p \<Longrightarrow> p \<in> set pages \<and> kp_id p = i"
  unfolding page_of_def by (auto simp: find_Some_iff)

text \<open>The walk up the parents of one page, with the ids it has seen.\<close>

function check_ancestors :: "knowledge_page list \<Rightarrow> string list \<Rightarrow> string option \<Rightarrow> knowledge_error + unit" where
  "check_ancestors pages visited None = Inr ()"
| "check_ancestors pages visited (Some i) =
     (if i \<in> set visited then Inl ParentCycle
      else case page_of pages i of
             None \<Rightarrow> Inr ()
           | Some p \<Rightarrow> check_ancestors pages (i # visited) (kp_parent_id p))"
  by pat_completeness auto

termination
proof (relation "measure (\<lambda>(pages, visited, _). card (kp_id ` set pages - set visited))", goal_cases)
  case (2 pages visited i p)
  then have "i \<in> kp_id ` set pages - set visited" using page_of_Some by blast
  then have "card (kp_id ` set pages - set visited - {i}) < card (kp_id ` set pages - set visited)"
    by (intro card_Diff1_less) auto
  moreover have "kp_id ` set pages - set visited - {i} = kp_id ` set pages - set (i # visited)" by auto
  ultimately show ?case by simp
qed simp

definition validate_bundle :: "knowledge_crates \<Rightarrow> knowledge_bundle \<Rightarrow> knowledge_error + unit" where
  "validate_bundle k b =
     (let readiness = ''taskmaster-readiness-v1'' \<in> set (kb_capabilities b); pages = kb_pages b in
      first_error
        [refuse_if (kb_format_version b \<notin> {1, 2} \<or> kb_privacy_version b \<noteq> 1) BundleFormat,
         safe_identifier (kb_version b) ''bundle.version'',
         refuse_if (unat (kb_sequence b) > MAX_SAFE_INTEGER) SequenceUnsafe,
         refuse_if (\<not> canonical_timestamp (kb_published_at b)) TimestampNotCanonical,
         validate_unique_strings (kb_capabilities b) ''bundle.capabilities'' 16 128 True,
         refuse_if (kb_format_version b = 1 \<and> (readiness \<or> kb_rubric b \<noteq> None)) ReadinessFormat,
         (if kb_format_version b = 2 then
            (if \<not> readiness then Inl ReadinessCapability
             else case kb_rubric b of None \<Rightarrow> Inl RubricMissing | Some r \<Rightarrow> rubric_validate k r pages)
          else Inr ()),
         refuse_if (pages = [] \<or> length pages > 256) PageCount,
         map_sum (\<lambda>e. e) (\<lambda>_. ())
           (try_each (\<lambda>p seen. and_then (check_page k p) (\<lambda>_.
              if kp_id p \<in> set seen then Inl DuplicatePage else Inr (kp_id p # seen))) pages []),
         first_error (map (check_links pages) pages),
         first_error (map (\<lambda>p. check_ancestors pages [] (kp_parent_id p)) pages)])"

section \<open>The manifest\<close>

definition expected_path :: "string \<Rightarrow> string" where
  "expected_path version = ''bundles/'' @ version @ ''.json''"

definition entry_key :: "manifest_entry \<Rightarrow> u64 \<times> u64 \<times> u64" where
  "entry_key m = (me_format_version m, me_privacy_version m, me_sequence m)"

definition check_entry :: "manifest_entry \<Rightarrow> manifest_entry list \<Rightarrow> knowledge_error + manifest_entry list" where
  "check_entry m seen =
     and_then
       (first_error
          [refuse_if (me_format_version m = 0 \<or> unat (me_format_version m) > MAX_SAFE_INTEGER \<or>
             me_privacy_version m = 0 \<or> unat (me_privacy_version m) > MAX_SAFE_INTEGER) ManifestVersions,
           refuse_if (unat (me_sequence m) > MAX_SAFE_INTEGER) ManifestSequence,
           safe_identifier (me_version m) ''manifest.version'',
           refuse_if (\<not> is_lower_sha256 (me_sha256 m)) ManifestDigest,
           refuse_if (me_path m \<noteq> expected_path (me_version m)) ManifestPath,
           refuse_if (entry_key m \<in> entry_key ` set seen) ManifestDuplicate,
           refuse_if (me_version m \<in> me_version ` set seen) ManifestVersionTwice,
           refuse_if (me_path m \<in> me_path ` set seen) ManifestPathTwice])
       (\<lambda>_. Inr (m # seen))"

definition validate_manifest :: "knowledge_manifest \<Rightarrow> knowledge_error + unit" where
  "validate_manifest f =
     (if mf_format_version f \<noteq> 1 then Inl ManifestFormat
      else if mf_bundles f = [] \<or> length (mf_bundles f) > 1000 then Inl ManifestCount
      else map_sum (\<lambda>e. e) (\<lambda>_. ()) (try_each check_entry (mf_bundles f) []))"

section \<open>Signatures and activation\<close>

definition canonical_base64 :: "knowledge_crates \<Rightarrow> string \<Rightarrow> string \<Rightarrow> knowledge_error + string" where
  "canonical_base64 k v label =
     (case kv_decode64 k v of
        None \<Rightarrow> Inl (NotCanonicalBase64 label)
      | Some d \<Rightarrow> if kv_encode64 k d \<noteq> v then Inl (NotCanonicalBase64 label) else Inr d)"

text \<open>\<open>str::lines\<close>: a line ends at a line feed, with the carriage return in front of it.\<close>

definition strip_cr :: "string \<Rightarrow> string" where
  "strip_cr l = (if l \<noteq> [] \<and> last l = CHR 0x0D then butlast l else l)"

definition str_lines :: "string \<Rightarrow> string list" where
  "str_lines s = (let ps = split_on (CHR 0x0A) s in map strip_cr (butlast ps) @ (if last ps = [] then [] else [last ps]))"

definition decode_public_key_pem :: "knowledge_crates \<Rightarrow> string \<Rightarrow> knowledge_error + string" where
  "decode_public_key_pem k pem =
     (let der = concat (filter (\<lambda>l. \<not> starts_with l ''-----'') (str_lines pem)) in
      if der = [] then Inl KeyPem
      else and_then (canonical_base64 k der ''trusted public key'') (\<lambda>d. if kv_is_key k d then Inr d else Inl KeySpki))"

definition public_key_sha256 :: "knowledge_crates \<Rightarrow> string \<Rightarrow> knowledge_error + string" where
  "public_key_sha256 k pem = and_then (decode_public_key_pem k pem) (\<lambda>d. Inr (kv_sha256_hex k d))"

definition parse_public_key :: "knowledge_crates \<Rightarrow> string \<Rightarrow> knowledge_error + string" where
  "parse_public_key k pem = and_then (decode_public_key_pem k pem) (\<lambda>d. if kv_weak_key k d then Inl WeakKey else Inr d)"

definition read_json_as :: "knowledge_crates \<Rightarrow> (string \<Rightarrow> string + 'a) \<Rightarrow> string \<Rightarrow> nat \<Rightarrow> knowledge_error + 'a" where
  "read_json_as k typed bytes limit = map_sum StrictJson (\<lambda>v. v) (strict_parse (kv_unquote k) typed bytes limit)"

definition verify_envelope :: "knowledge_crates \<Rightarrow> string \<Rightarrow> string \<Rightarrow> knowledge_error + string" where
  "verify_envelope k bytes key =
     (if length bytes > MAX_ENVELOPE_BYTES then Inl EnvelopeTooLong
      else and_then (read_json_as k (kv_envelope k) bytes MAX_ENVELOPE_BYTES) (\<lambda>v.
        and_then (canonical_base64 k (se_signature v) ''signature'') (\<lambda>sig.
          if length sig \<noteq> 64 then Inl SignatureLength
          else if kv_verify k key (se_payload v) sig then Inr (se_payload v) else Inl SignatureInvalid)))"

definition binds_bundle :: "knowledge_bundle \<Rightarrow> string \<Rightarrow> manifest_entry \<Rightarrow> bool" where
  "binds_bundle b digest m \<longleftrightarrow>
     me_format_version m = ucast (kb_format_version b) \<and> me_privacy_version m = ucast (kb_privacy_version b) \<and>
     me_sequence m = kb_sequence b \<and> me_version m = kb_version b \<and> me_sha256 m = digest \<and>
     me_path m = expected_path (kb_version b)"

definition bundle_identity :: "knowledge_crates \<Rightarrow> knowledge_bundle \<Rightarrow> string \<Rightarrow> string \<Rightarrow> knowledge_identity" where
  "bundle_identity k b digest der =
     \<lparr>ki_bundle_sha256 = digest, ki_format_version = kb_format_version b, ki_privacy_version = kb_privacy_version b,
      ki_version = kb_version b, ki_sequence = kb_sequence b, ki_key_sha256 = kv_sha256_hex k der\<rparr>"

definition verify_activation :: "knowledge_crates \<Rightarrow> string \<Rightarrow> string \<Rightarrow> knowledge_error + verified_knowledge" where
  "verify_activation k pem bytes =
     (if length bytes > MAX_ACTIVATION_BYTES then Inl ActivationTooLong
      else and_then (read_json_as k (kv_activation k) bytes MAX_ACTIVATION_BYTES) (\<lambda>a.
        if av_format_version a \<noteq> 1 then Inl ActivationFormat
        else and_then (canonical_base64 k (av_bundle_base64 a) ''bundle envelope'') (\<lambda>be.
          and_then (canonical_base64 k (av_manifest_base64 a) ''manifest envelope'') (\<lambda>me.
            if length be > MAX_ENVELOPE_BYTES \<or> length me > MAX_ENVELOPE_BYTES then Inl EnvelopesTooLong
            else and_then (parse_public_key k pem) (\<lambda>key.
              and_then (verify_envelope k be key) (\<lambda>bp.
                and_then (read_json_as k (kv_bundle k) bp MAX_ENVELOPE_BYTES) (\<lambda>b.
                  and_then (validate_bundle k b) (\<lambda>_.
                    and_then (verify_envelope k me key) (\<lambda>mp.
                      and_then (read_json_as k (kv_manifest k) mp MAX_ENVELOPE_BYTES) (\<lambda>f.
                        and_then (validate_manifest f) (\<lambda>_.
                          let digest = kv_sha256_hex k be in
                          if length (filter (binds_bundle b digest) (mf_bundles f)) \<noteq> 1 then Inl ManifestBinding
                          else and_then (decode_public_key_pem k pem) (\<lambda>der.
                            Inr \<lparr>vk_bundle = b, vk_identity = bundle_identity k b digest der, vk_bytes = bytes\<rparr>))))))))))))"

section \<open>What an accepted activation guarantees\<close>

text \<open>A page is rooted when the walk up its parents ends at a page that has none.\<close>

inductive rooted :: "knowledge_page list \<Rightarrow> string \<Rightarrow> bool" for pages :: "knowledge_page list" where
  root: "page_of pages i = Some p \<Longrightarrow> kp_parent_id p = None \<Longrightarrow> rooted pages i"
| under: "page_of pages i = Some p \<Longrightarrow> kp_parent_id p = Some q \<Longrightarrow> rooted pages q \<Longrightarrow> rooted pages i"

lemma page_of_None: "page_of pages i = None \<longleftrightarrow> i \<notin> kp_id ` set pages"
  by (auto simp: page_of_def find_None_iff)

lemma page_of_distinct: "distinct (map kp_id pages) \<Longrightarrow> p \<in> set pages \<Longrightarrow> page_of pages (kp_id p) = Some p"
  by (induction pages) (auto simp: page_of_def image_iff)

definition parents_resolve :: "knowledge_page list \<Rightarrow> bool" where
  "parents_resolve pages \<longleftrightarrow> (\<forall>p \<in> set pages. \<forall>q. kp_parent_id p = Some q \<longrightarrow> page_of pages q \<noteq> None)"

lemma ancestors_rooted:
  "check_ancestors pages visited parent = Inr () \<Longrightarrow> parents_resolve pages \<Longrightarrow> parent = Some i \<Longrightarrow>
     page_of pages i \<noteq> None \<Longrightarrow> rooted pages i"
proof (induction pages visited parent arbitrary: i rule: check_ancestors.induct)
  case (2 pages visited j)
  have ij: "i = j" using "2.prems"(3) by simp
  obtain p where p: "page_of pages j = Some p" using "2.prems"(4) ij by auto
  have new: "j \<notin> set visited" and up: "check_ancestors pages (j # visited) (kp_parent_id p) = Inr ()"
    using "2.prems"(1) p by (simp_all split: if_split_asm)
  show ?case
  proof (cases "kp_parent_id p")
    case None
    with p ij show ?thesis by (simp add: rooted.root)
  next
    case (Some q)
    then have q: "page_of pages q \<noteq> None"
      using "2.prems"(2) page_of_Some [OF p] by (auto simp: parents_resolve_def)
    from "2.IH" [OF new p up "2.prems"(2) Some q] show ?thesis using rooted.under [OF p Some] ij by simp
  qed
qed simp

lemma try_each_seen:
  assumes "try_each (\<lambda>p seen. and_then (c p) (\<lambda>_. if f p \<in> set seen then Inl e else Inr (f p # seen))) xs seen = Inr out"
  shows "distinct (map f xs) \<and> set (map f xs) \<inter> set seen = {} \<and> (\<forall>x \<in> set xs. c x = Inr ())"
  using assms
proof (induction xs arbitrary: seen)
  case (Cons x xs)
  then have "c x = Inr ()" "f x \<notin> set seen"
    and rest: "try_each (\<lambda>p seen. and_then (c p) (\<lambda>_. if f p \<in> set seen then Inl e else Inr (f p # seen))) xs (f x # seen) = Inr out"
    by (auto simp: and_then_def split: sum.splits if_splits)
  with Cons.IH [OF rest] show ?case by auto
qed simp

lemma map_sum_ok: "map_sum (\<lambda>e. e) (\<lambda>_. ()) r = Inr u \<longleftrightarrow> (\<exists>x. r = Inr x)"
  by (cases r) auto

lemma valid_bundle_pages:
  assumes "validate_bundle k b = Inr ()"
  shows "distinct (map kp_id (kb_pages b))" "\<And>p. p \<in> set (kb_pages b) \<Longrightarrow> check_page k p = Inr ()"
    "\<And>p. p \<in> set (kb_pages b) \<Longrightarrow> check_links (kb_pages b) p = Inr ()"
    "\<And>p. p \<in> set (kb_pages b) \<Longrightarrow> check_ancestors (kb_pages b) [] (kp_parent_id p) = Inr ()"
proof -
  let ?t = "try_each (\<lambda>p seen. and_then (check_page k p) (\<lambda>_.
      if kp_id p \<in> set seen then Inl DuplicatePage else Inr (kp_id p # seen))) (kb_pages b) []"
  have "map_sum (\<lambda>e. e) (\<lambda>_. ()) ?t = Inr ()"
    using assms unfolding validate_bundle_def Let_def first_error_ok by (elim bspec) simp
  then have "\<exists>out. ?t = Inr out" by (simp only: map_sum_ok)
  then obtain out where "?t = Inr out" by blast
  from try_each_seen [OF this]
  show "distinct (map kp_id (kb_pages b))" "\<And>p. p \<in> set (kb_pages b) \<Longrightarrow> check_page k p = Inr ()" by auto
  have "first_error (map (check_links (kb_pages b)) (kb_pages b)) = Inr ()"
    "first_error (map (\<lambda>p. check_ancestors (kb_pages b) [] (kp_parent_id p)) (kb_pages b)) = Inr ()"
    using assms unfolding validate_bundle_def Let_def first_error_ok [of "_ # _"] by ((elim bspec, simp)+)
  then show "\<And>p. p \<in> set (kb_pages b) \<Longrightarrow> check_links (kb_pages b) p = Inr ()"
    "\<And>p. p \<in> set (kb_pages b) \<Longrightarrow> check_ancestors (kb_pages b) [] (kp_parent_id p) = Inr ()"
    by (simp_all add: first_error_ok)
qed

lemma links_ok:
  assumes "check_links pages p = Inr ()"
  shows "\<forall>i \<in> set (kp_related_ids p). page_of pages i \<noteq> None" "kp_parent_id p = Some q \<Longrightarrow> page_of pages q \<noteq> None"
  using assms by (auto simp: check_links_def first_error_ok)

lemma valid_bundle_rooted:
  assumes "validate_bundle k b = Inr ()" "p \<in> set (kb_pages b)"
  shows "rooted (kb_pages b) (kp_id p)"
proof -
  note valid = valid_bundle_pages [OF assms(1)]
  have self: "page_of (kb_pages b) (kp_id p) = Some p" using page_of_distinct [OF valid(1) assms(2)] .
  have closed: "parents_resolve (kb_pages b)"
    unfolding parents_resolve_def using links_ok(2) [OF valid(3)] by blast
  show ?thesis
  proof (cases "kp_parent_id p")
    case None
    with self show ?thesis by (rule rooted.root)
  next
    case (Some q)
    have "rooted (kb_pages b) q"
      using ancestors_rooted [OF valid(4) [OF assms(2)] closed Some] closed assms(2) Some
      by (auto simp: parents_resolve_def)
    with self Some show ?thesis by (rule rooted.under)
  qed
qed

lemma verified_steps:
  assumes "verify_activation k pem bytes = Inr v"
  obtains a be me key bp mp f der where
    "read_json_as k (kv_activation k) bytes MAX_ACTIVATION_BYTES = Inr a" "length bytes \<le> MAX_ACTIVATION_BYTES"
    "canonical_base64 k (av_bundle_base64 a) ''bundle envelope'' = Inr be"
    "canonical_base64 k (av_manifest_base64 a) ''manifest envelope'' = Inr me"
    "parse_public_key k pem = Inr key" "verify_envelope k be key = Inr bp"
    "read_json_as k (kv_bundle k) bp MAX_ENVELOPE_BYTES = Inr (vk_bundle v)" "validate_bundle k (vk_bundle v) = Inr ()"
    "verify_envelope k me key = Inr mp" "read_json_as k (kv_manifest k) mp MAX_ENVELOPE_BYTES = Inr f"
    "validate_manifest f = Inr ()" "length (filter (binds_bundle (vk_bundle v) (kv_sha256_hex k be)) (mf_bundles f)) = 1"
    "decode_public_key_pem k pem = Inr der" "vk_identity v = bundle_identity k (vk_bundle v) (kv_sha256_hex k be) der"
    "vk_bytes v = bytes"
  using assms unfolding verify_activation_def Let_def
  by (auto simp: and_then_ok not_less split: if_split_asm)

lemma read_json_as_ok: "read_json_as k typed bytes limit = Inr x \<Longrightarrow> typed bytes = Inr x \<and> scan_document (kv_unquote k) bytes = Inr ()"
  by (auto simp: read_json_as_def strict_parse_def and_then_def map_sum_def split: sum.splits if_splits)

text \<open>An envelope that carries a payload with a signature of the key over it.\<close>

definition signed_payload :: "knowledge_crates \<Rightarrow> string \<Rightarrow> string \<Rightarrow> string \<Rightarrow> bool" where
  "signed_payload k key envelope payload \<longleftrightarrow>
     (\<exists>v sig. kv_envelope k envelope = Inr v \<and> se_payload v = payload \<and> kv_decode64 k (se_signature v) = Some sig \<and>
        length sig = 64 \<and> kv_verify k key payload sig)"

lemma canonical_base64_ok: "canonical_base64 k v label = Inr d \<Longrightarrow> kv_decode64 k v = Some d"
  by (auto simp: canonical_base64_def split: option.splits if_split_asm)

lemma verify_envelope_ok: "verify_envelope k bytes key = Inr payload \<Longrightarrow> signed_payload k key bytes payload"
  by (auto simp: verify_envelope_def signed_payload_def and_then_ok split: if_split_asm dest!: read_json_as_ok canonical_base64_ok)

lemma parse_public_key_ok: "parse_public_key k pem = Inr key \<Longrightarrow> decode_public_key_pem k pem = Inr key \<and> \<not> kv_weak_key k key"
  by (auto simp: parse_public_key_def and_then_ok split: if_split_asm)

text \<open>
  C13: The pages of an accepted bundle form a forest: their ids are distinct, every page reaches a
  page without a parent by following parents, every related page exists, and the digest of every
  page is the digest of its content.
\<close>

theorem verified_pages_rooted:
  assumes "verify_activation k pem bytes = Inr v"
  shows "distinct (map kp_id (kb_pages (vk_bundle v))) \<and>
    (\<forall>p \<in> set (kb_pages (vk_bundle v)).
       rooted (kb_pages (vk_bundle v)) (kp_id p) \<and> kp_sha256 p = kv_sha256_hex k (kp_content p) \<and>
       (\<forall>i \<in> set (kp_related_ids p). page_of (kb_pages (vk_bundle v)) i \<noteq> None))"
proof (intro conjI)
  have valid: "validate_bundle k (vk_bundle v) = Inr ()" by (rule verified_steps [OF assms])
  note pages = valid_bundle_pages [OF valid]
  show "distinct (map kp_id (kb_pages (vk_bundle v)))" by (rule pages(1))
  show "\<forall>p \<in> set (kb_pages (vk_bundle v)).
      rooted (kb_pages (vk_bundle v)) (kp_id p) \<and> kp_sha256 p = kv_sha256_hex k (kp_content p) \<and>
      (\<forall>i \<in> set (kp_related_ids p). page_of (kb_pages (vk_bundle v)) i \<noteq> None)"
  proof (intro ballI conjI)
    fix p assume p: "p \<in> set (kb_pages (vk_bundle v))"
    show "rooted (kb_pages (vk_bundle v)) (kp_id p)" by (rule valid_bundle_rooted [OF valid p])
    show "kp_sha256 p = kv_sha256_hex k (kp_content p)"
      using pages(2) [OF p] by (simp add: check_page_def first_error_append first_error_ok split: sum.splits)
    show "\<And>i. i \<in> set (kp_related_ids p) \<Longrightarrow> page_of (kb_pages (vk_bundle v)) i \<noteq> None"
      using links_ok(1) [OF pages(3) [OF p]] by blast
  qed
qed

text \<open>
  C14: Nothing is accepted that the trusted key did not sign. The key is the one that the trusted PEM
  text encodes, and it is not weak. The accepted bundle is the reading of a payload that this key
  signed, in the first envelope of the activation; the manifest is the reading of a payload that the
  same key signed, in the second. The identity of the accepted knowledge names the digest of the
  first envelope, the digest of the key, and the version, sequence and formats of the bundle, and
  exactly one entry of the manifest names all of these.
\<close>

theorem verified_knowledge_signed:
  assumes "verify_activation k pem bytes = Inr v"
  shows "\<exists>a be me key bp mp f.
    kv_activation k bytes = Inr a \<and> kv_decode64 k (av_bundle_base64 a) = Some be \<and> kv_decode64 k (av_manifest_base64 a) = Some me \<and>
    decode_public_key_pem k pem = Inr key \<and> \<not> kv_weak_key k key \<and>
    signed_payload k key be bp \<and> kv_bundle k bp = Inr (vk_bundle v) \<and>
    signed_payload k key me mp \<and> kv_manifest k mp = Inr f \<and>
    vk_identity v = \<lparr>ki_bundle_sha256 = kv_sha256_hex k be, ki_format_version = kb_format_version (vk_bundle v),
      ki_privacy_version = kb_privacy_version (vk_bundle v), ki_version = kb_version (vk_bundle v),
      ki_sequence = kb_sequence (vk_bundle v), ki_key_sha256 = kv_sha256_hex k key\<rparr> \<and>
    length (filter (\<lambda>m. me_format_version m = ucast (ki_format_version (vk_identity v)) \<and>
      me_privacy_version m = ucast (ki_privacy_version (vk_identity v)) \<and> me_sequence m = ki_sequence (vk_identity v) \<and>
      me_version m = ki_version (vk_identity v) \<and> me_sha256 m = ki_bundle_sha256 (vk_identity v) \<and>
      me_path m = expected_path (ki_version (vk_identity v))) (mf_bundles f)) = 1"
proof (rule verified_steps [OF assms], goal_cases)
  case (1 a be me key bp mp f der)
  note key = parse_public_key_ok [OF 1(5)]
  have same: "der = key" using key 1(13) by simp
  have reads: "kv_activation k bytes = Inr a" "kv_bundle k bp = Inr (vk_bundle v)" "kv_manifest k mp = Inr f"
    using read_json_as_ok [OF 1(1)] read_json_as_ok [OF 1(7)] read_json_as_ok [OF 1(10)] by simp_all
  show ?case
    using key reads canonical_base64_ok [OF 1(3)] canonical_base64_ok [OF 1(4)] verify_envelope_ok [OF 1(6)] verify_envelope_ok [OF 1(9)] 1(12)
    by (intro exI [of _ a] exI [of _ be] exI [of _ me] exI [of _ key] exI [of _ bp] exI [of _ mp] exI [of _ f])
      (simp add: 1(14) same bundle_identity_def binds_bundle_def [abs_def])
qed

section \<open>A sample\<close>

definition sample_digest :: string where
  "sample_digest = replicate 64 (CHR ''a'')"

definition sample_page :: "string \<Rightarrow> string list \<Rightarrow> string option \<Rightarrow> knowledge_page" where
  "sample_page i related parent =
     \<lparr>kp_id = i, kp_title = ''T'', kp_type = ''concept'', kp_status = ''active'', kp_content = ''text'', kp_sha256 = sample_digest,
      kp_related_ids = related, kp_parent_id = parent, kp_applicability = None, kp_provenance = None\<rparr>"

definition sample_bundle :: knowledge_bundle where
  "sample_bundle =
     \<lparr>kb_format_version = 1, kb_version = ''v7'', kb_sequence = 7, kb_published_at = ''2028-02-29T23:59:59.000Z'',
      kb_privacy_version = 1, kb_capabilities = [''taskmaster-assessment-v1''], kb_rubric = None,
      kb_pages = [sample_page ''guides/root.md'' [] None, sample_page ''guides/leaf.md'' [''guides/root.md''] (Some ''guides/root.md'')]\<rparr>"

definition sample_manifest :: knowledge_manifest where
  "sample_manifest = \<lparr>mf_format_version = 1, mf_bundles =
     [\<lparr>me_format_version = 1, me_privacy_version = 1, me_sequence = 7, me_version = ''v7'', me_sha256 = sample_digest,
       me_path = ''bundles/v7.json''\<rparr>]\<rparr>"

definition sample_crates :: knowledge_crates where
  "sample_crates =
     \<lparr>kv_unquote = Some, kv_activation = (\<lambda>_. Inr \<lparr>av_format_version = 1, av_bundle_base64 = ''{}'', av_manifest_base64 = ''{}''\<rparr>),
      kv_envelope = (\<lambda>_. Inr \<lparr>se_payload = ''{}'', se_signature = sample_digest\<rparr>), kv_bundle = (\<lambda>_. Inr sample_bundle),
      kv_manifest = (\<lambda>_. Inr sample_manifest),
      kv_decode64 = Some, kv_encode64 = (\<lambda>s. s), kv_is_key = (\<lambda>_. True), kv_weak_key = (\<lambda>_. False),
      kv_verify = (\<lambda>_ _ _. True), kv_sha256_hex = (\<lambda>_. sample_digest), kv_url = (\<lambda>_. None), kv_rubric_bytes = (\<lambda>_. None)\<rparr>"

definition sample_verified :: verified_knowledge where
  "sample_verified =
     \<lparr>vk_bundle = sample_bundle, vk_identity = bundle_identity sample_crates sample_bundle sample_digest ''key'', vk_bytes = ''[]''\<rparr>"

lemma sample_scan: "scan_document Some ''{}'' = Inr ()" "scan_document Some ''[]'' = Inr ()"
  by (simp_all add: scan_document_def whitespace_def json_white_def MAX_DEPTH_def numeral_eq_Suc)

lemma knowledge_read:
  "typed t = Inr x \<Longrightarrow> t = ''{}'' \<or> t = ''[]'' \<Longrightarrow> 10 \<le> limit \<Longrightarrow> scan_document Some t = Inr () \<Longrightarrow>
     read_json_as sample_crates typed t limit = Inr x"
  by (auto simp: read_json_as_def strict_parse_def sample_crates_def from_utf8_ascii)

lemma sample_time: "canonical_timestamp ''2028-02-29T23:59:59.000Z''"
  by (simp add: canonical_timestamp_def slice_def is_digit_def digits_value_def days_in_month_def leap_year_def Let_def)

lemmas sample_defs =
  sample_digest_def sample_page_def sample_bundle_def sample_crates_def sample_verified_def

lemma sample_text:
  "ends_with ''guides/root.md'' ''.md''" "ends_with ''guides/leaf.md'' ''.md''" "is_lower_sha256 sample_digest"
  "\<not> page_segment_bad ''guides''" "\<not> page_segment_bad ''root''" "\<not> page_segment_bad ''leaf''"
  by (simp_all add: ends_with_def is_lower_sha256_def sample_digest_def page_segment_bad_def identifier_byte_def
      ascii_alphanumeric_def list_all_iff)

lemma sample_pages: "check_page sample_crates (sample_page ''guides/root.md'' [] None) = Inr ()"
  "check_page sample_crates (sample_page ''guides/leaf.md'' [''guides/root.md''] (Some ''guides/root.md'')) = Inr ()"
  by (simp_all add: check_page_def page_id_def sample_text bounded_string_def PAGE_TYPES_def validate_unique_strings_def,
      simp_all add: sample_text sample_crates_def sample_page_def bounded_string_def PAGE_TYPES_def page_id_def validate_unique_strings_def)

lemma sample_bundle_valid: "validate_bundle sample_crates sample_bundle = Inr ()"
  by (simp add: validate_bundle_def sample_bundle_def sample_time sample_pages safe_identifier_def identifier_byte_def
      ascii_alphanumeric_def validate_unique_strings_def bounded_string_def MAX_SAFE_INTEGER_def Let_def)
    (simp add: sample_page_def check_links_def page_of_def)

lemma sample_manifest_valid: "validate_manifest sample_manifest = Inr ()"
  by (simp add: validate_manifest_def sample_manifest_def check_entry_def MAX_SAFE_INTEGER_def safe_identifier_def
      identifier_byte_def ascii_alphanumeric_def sample_text expected_path_def)

lemma sample_base: "canonical_base64 sample_crates t l = Inr t"
  by (simp add: canonical_base64_def sample_crates_def)

lemma sample_key: "decode_public_key_pem sample_crates ''key'' = Inr ''key''"
  by (simp add: decode_public_key_pem_def str_lines_def sample_base Let_def) (simp add: sample_crates_def)

lemma sample_envelope: "verify_envelope sample_crates ''{}'' ''key'' = Inr ''{}''"
proof -
  have "read_json_as sample_crates (kv_envelope sample_crates) ''{}'' MAX_ENVELOPE_BYTES =
      Inr \<lparr>se_payload = ''{}'', se_signature = sample_digest\<rparr>"
    by (rule knowledge_read) (simp_all add: sample_scan MAX_ENVELOPE_BYTES_def, simp add: sample_crates_def)
  then show ?thesis
    by (simp add: verify_envelope_def sample_base MAX_ENVELOPE_BYTES_def) (simp add: sample_crates_def sample_digest_def)
qed

lemma knowledge_reads:
  "read_json_as sample_crates (kv_activation sample_crates) ''[]'' MAX_ACTIVATION_BYTES =
     Inr \<lparr>av_format_version = 1, av_bundle_base64 = ''{}'', av_manifest_base64 = ''{}''\<rparr>"
  "read_json_as sample_crates (kv_bundle sample_crates) ''{}'' MAX_ENVELOPE_BYTES = Inr sample_bundle"
  "read_json_as sample_crates (kv_manifest sample_crates) ''{}'' MAX_ENVELOPE_BYTES = Inr sample_manifest"
  by (rule knowledge_read; (simp add: sample_scan MAX_ENVELOPE_BYTES_def MAX_ACTIVATION_BYTES_def; fail | simp add: sample_crates_def))+

lemma sample_binding: "filter (binds_bundle sample_bundle sample_digest) (mf_bundles sample_manifest) = mf_bundles sample_manifest"
  by (simp add: sample_manifest_def binds_bundle_def sample_bundle_def expected_path_def)

lemma sample_accepted: "verify_activation sample_crates ''key'' ''[]'' = Inr sample_verified"
proof -
  have key: "parse_public_key sample_crates ''key'' = Inr ''key''"
    by (simp add: parse_public_key_def sample_key) (simp add: sample_crates_def)
  have limit: "\<not> MAX_ACTIVATION_BYTES < length ''[]''" "\<not> MAX_ENVELOPE_BYTES < length ''{}''"
    by (simp_all add: MAX_ACTIVATION_BYTES_def MAX_ENVELOPE_BYTES_def)
  have digest: "kv_sha256_hex sample_crates t = sample_digest" for t by (simp add: sample_crates_def)
  have one: "length (mf_bundles sample_manifest) = 1" by (simp add: sample_manifest_def)
  show ?thesis
    unfolding verify_activation_def knowledge_reads and_then_simps
    by (simp only: activation.simps limit if_False sample_base and_then_simps key sample_envelope knowledge_reads
        sample_bundle_valid sample_manifest_valid digest sample_binding one sample_key Let_def sample_verified_def simp_thms)
qed

theorem verified_pages_rooted_witness:
  "rooted (kb_pages sample_bundle) ''guides/leaf.md'' \<and> \<not> rooted [sample_page ''a.md'' [] (Some ''a.md'')] ''a.md''"
proof
  have "sample_page ''guides/leaf.md'' [''guides/root.md''] (Some ''guides/root.md'') \<in> set (kb_pages (vk_bundle sample_verified))"
    by (simp add: sample_verified_def sample_bundle_def)
  with verified_pages_rooted [OF sample_accepted]
  show "rooted (kb_pages sample_bundle) ''guides/leaf.md''" by (auto simp: sample_verified_def sample_page_def)
  have "rooted [sample_page ''a.md'' [] (Some ''a.md'')] i \<Longrightarrow> i \<noteq> ''a.md''" for i
    by (induction rule: rooted.induct) (auto simp: page_of_def sample_page_def split: if_splits)
  then show "\<not> rooted [sample_page ''a.md'' [] (Some ''a.md'')] ''a.md''" by blast
qed

theorem verified_knowledge_signed_witness:
  "\<exists>envelope payload. signed_payload sample_crates ''key'' envelope payload \<and> kv_bundle sample_crates payload = Inr sample_bundle"
  using verified_knowledge_signed [OF sample_accepted] by (auto simp: sample_verified_def sample_key)

end
