(* ===== verification/Unix_Path.thy ===== *)
theory Unix_Path
  imports Utf8
begin

text \<open>
  The parts of \<open>std::path\<close> that the taskmaster uses, for Unix: the components of a path, its file
  name and extension, and the component-wise prefix test. Repeated and trailing separators and
  inner \<open>.\<close> segments are no components; a leading \<open>.\<close> of a relative path is one.
\<close>

datatype path_component = RootDir | CurDir | ParentDir | Normal string

definition segment_component :: "string \<Rightarrow> path_component" where
  "segment_component g = (if g = ''.'' then CurDir else if g = ''..'' then ParentDir else Normal g)"

definition is_absolute :: "string \<Rightarrow> bool" where
  "is_absolute p = starts_with p ''/''"

definition path_components :: "string \<Rightarrow> path_component list" where
  "path_components p =
     (let segs = split_on (CHR ''/'') p;
          lead = (if is_absolute p then [RootDir] else if hd segs = ''.'' then [CurDir] else [])
      in lead @ map segment_component (filter (\<lambda>g. g \<noteq> [] \<and> g \<noteq> ''.'') segs))"

definition file_name :: "string \<Rightarrow> string option" where
  "file_name p = (case path_components p of [] \<Rightarrow> None | cs \<Rightarrow> (case last cs of Normal n \<Rightarrow> Some n | _ \<Rightarrow> None))"

text \<open>The text after the last dot of the file name, if something comes before that dot.\<close>

definition path_extension :: "string \<Rightarrow> string option" where
  "path_extension p =
     Option.bind (file_name p) (\<lambda>n.
       let after = rev (takeWhile (\<lambda>c. c \<noteq> CHR ''.'') (rev n)) in
       if length after < length n \<and> Suc (length after) \<noteq> length n then Some after else None)"

definition path_starts_with :: "string \<Rightarrow> string \<Rightarrow> bool" where
  "path_starts_with p base = (take (length (path_components base)) (path_components p) = path_components base)"

text \<open>The text that collecting the components into a path gives.\<close>

fun component_text :: "path_component \<Rightarrow> string" where
  "component_text RootDir = []"
| "component_text CurDir = ''.''"
| "component_text ParentDir = ''..''"
| "component_text (Normal n) = n"

definition collected_path :: "path_component list \<Rightarrow> string" where
  "collected_path cs = (if cs = [RootDir] then ''/'' else join (CHR ''/'') (map component_text cs))"

end
