(* ===== verification/Taskmaster_Settings.thy ===== *)
theory Taskmaster_Settings
  imports Knowledge
begin

text \<open>
  The settings of the taskmaster and how they apply to one workspace, from \<^verbatim>\<open>taskmaster/runtime.rs\<close>: the
  records, their bounds, the overrides of a workspace and the bounded error text of a run. A map of
  overrides is the list of its entries in key order. Canonical paths and the URL parser are function
  arguments.
\<close>

section \<open>Data\<close>

record taskmaster_selection =
  sl_provider :: string
  sl_model :: string
  sl_reasoning_effort :: "string option"
  sl_ollama_base_url :: "string option"

datatype selection_override = Unchanged | ClearSelection | SetSelection taskmaster_selection

record workspace_override =
  wo_enabled :: "bool option"
  wo_selection :: selection_override
  wo_context_level :: "context_level option"
  wo_excluded_paths :: "string list option"
  wo_min_interval_minutes :: "u32 option"

record taskmaster_settings =
  ts_enabled :: bool
  ts_selection :: "taskmaster_selection option"
  ts_context_level :: context_level
  ts_excluded_paths :: "string list"
  ts_daily_limit :: u32
  ts_min_interval_minutes :: u32
  ts_automatic_updates :: bool
  ts_overrides :: "(string \<times> workspace_override) list"

definition default_settings :: taskmaster_settings where
  "default_settings =
     \<lparr>ts_enabled = True, ts_selection = None, ts_context_level = WorkflowContext, ts_excluded_paths = [], ts_daily_limit = 8,
      ts_min_interval_minutes = 60, ts_automatic_updates = True, ts_overrides = []\<rparr>"

definition MAX_EXCLUDED_PATHS :: nat where "MAX_EXCLUDED_PATHS = 64"
definition MAX_DAILY_EVALUATIONS :: u32 where "MAX_DAILY_EVALUATIONS = 64"
definition MAX_INTERVAL_MINUTES :: u32 where "MAX_INTERVAL_MINUTES = 1440"

text \<open>
  The errors of the runtime. \<open>RuntimeIo\<close> carries the text of a failed file operation.
\<close>

datatype runtime_error =
    RuntimeIo string | LedgerUnreadable | NoWorkspace | WorkspaceUnavailable | AttemptActive | SettingsOutOfBounds
  | OverrideInvalid | SelectionInvalid | OllamaUrl | OllamaScheme | OllamaOrigin | ReconcileFailed string
  | OlderBundle | EquivocalBundle | GenerationExhausted | KeyUnavailable | ActivationUnconfirmed
  | KnowledgeRefused knowledge_error | HarnessUnavailable | TrustFailed string | TrustConflict | TrustExhausted
  | CaptureChanged | CaptureUnavailable | GuidanceUnavailable | RubricUnavailable

section \<open>Validation\<close>

definition trim_end_slashes :: "string \<Rightarrow> string" where
  "trim_end_slashes s = rev (dropWhile (\<lambda>c. c = CHR ''/'') (rev s))"

text \<open>
  The origin that is returned on success is not used by the callers here, so only the refusal is.
\<close>

definition normalize_ollama_base_url :: "(string \<Rightarrow> parsed_url option) \<Rightarrow> string \<Rightarrow> runtime_error + unit" where
  "normalize_ollama_base_url url raw =
     (case url (trim_end_slashes (trim raw)) of
        None \<Rightarrow> Inl OllamaUrl
      | Some p \<Rightarrow>
          if pu_scheme p \<notin> {''http'', ''https''} then Inl OllamaScheme
          else refuse_if (pu_username p \<noteq> [] \<or> pu_password p \<noteq> None \<or> pu_path p \<noteq> ''/'' \<or> pu_query p \<noteq> None \<or>
                 pu_fragment p \<noteq> None) OllamaOrigin)"

definition valid_selection_value :: "string \<Rightarrow> bool" where
  "valid_selection_value v \<longleftrightarrow> v \<noteq> [] \<and> length v \<le> 256 \<and> \<not> has_control v"

definition validate_selection :: "(string \<Rightarrow> parsed_url option) \<Rightarrow> taskmaster_selection \<Rightarrow> runtime_error + unit" where
  "validate_selection url s =
     (if trim (sl_provider s) = [] \<or> \<not> valid_selection_value (sl_model s) \<or>
         is_some_and (\<lambda>e. \<not> valid_selection_value e) (sl_reasoning_effort s) then Inl SelectionInvalid
      else if sl_provider s = ''ollama'' then
        normalize_ollama_base_url url
          (case sl_ollama_base_url s of None \<Rightarrow> ''http://127.0.0.1:11434'' | Some u \<Rightarrow> u)
      else Inr ())"

definition override_bad :: "(string \<Rightarrow> string option) \<Rightarrow> string \<times> workspace_override \<Rightarrow> bool" where
  "override_bad canonical wo \<longleftrightarrow> (case wo of (workspace, o1) \<Rightarrow>
     canonical workspace \<noteq> Some workspace \<or>
     is_some_and (\<lambda>ps. length ps > MAX_EXCLUDED_PATHS) (wo_excluded_paths o1) \<or>
     is_some_and (\<lambda>m. m = 0 \<or> m > MAX_INTERVAL_MINUTES) (wo_min_interval_minutes o1))"

definition validate_settings ::
  "(string \<Rightarrow> string option) \<Rightarrow> (string \<Rightarrow> parsed_url option) \<Rightarrow> taskmaster_settings \<Rightarrow> runtime_error + unit" where
  "validate_settings canonical url s =
     first_error
       ([refuse_if (ts_daily_limit s = 0 \<or> ts_daily_limit s > MAX_DAILY_EVALUATIONS \<or> ts_min_interval_minutes s = 0 \<or>
           ts_min_interval_minutes s > MAX_INTERVAL_MINUTES \<or> length (ts_excluded_paths s) > MAX_EXCLUDED_PATHS)
           SettingsOutOfBounds,
         refuse_if (list_ex (override_bad canonical) (ts_overrides s)) OverrideInvalid,
         case ts_selection s of None \<Rightarrow> Inr () | Some x \<Rightarrow> validate_selection url x]
        @ map (\<lambda>(_, o1). case wo_selection o1 of SetSelection x \<Rightarrow> validate_selection url x | _ \<Rightarrow> Inr ()) (ts_overrides s))"

section \<open>The settings of one workspace\<close>

definition apply_override :: "workspace_override \<Rightarrow> taskmaster_settings \<Rightarrow> taskmaster_settings" where
  "apply_override o1 s =
     s\<lparr>ts_enabled := (case wo_enabled o1 of None \<Rightarrow> ts_enabled s | Some b \<Rightarrow> b),
       ts_selection := (case wo_selection o1 of Unchanged \<Rightarrow> ts_selection s | ClearSelection \<Rightarrow> None | SetSelection x \<Rightarrow> Some x),
       ts_context_level := (case wo_context_level o1 of None \<Rightarrow> ts_context_level s | Some l \<Rightarrow> l),
       ts_excluded_paths := (case wo_excluded_paths o1 of None \<Rightarrow> ts_excluded_paths s | Some ps \<Rightarrow> ps),
       ts_min_interval_minutes := (case wo_min_interval_minutes o1 of None \<Rightarrow> ts_min_interval_minutes s | Some m \<Rightarrow> m)\<rparr>"

definition effective_settings :: "taskmaster_settings \<Rightarrow> string \<Rightarrow> taskmaster_settings" where
  "effective_settings base workspace =
     (case map_of (ts_overrides base) workspace of None \<Rightarrow> base | Some o1 \<Rightarrow> apply_override o1 base)\<lparr>ts_overrides := []\<rparr>"

definition analysis_status :: "taskmaster_settings \<Rightarrow> string" where
  "analysis_status s =
     (if \<not> ts_enabled s then ''disabled'' else if ts_selection s = None then ''unconfigured'' else ''ready'')"

lemma effective_limit [simp]: "ts_daily_limit (effective_settings s w) = ts_daily_limit s"
  by (simp add: effective_settings_def apply_override_def split: option.splits)

lemma valid_settings_limit: "validate_settings c u s = Inr () \<Longrightarrow> ts_daily_limit s \<le> MAX_DAILY_EVALUATIONS"
  by (auto simp: validate_settings_def first_error_ok)

section \<open>The error text of a run\<close>

text \<open>Control characters become spaces: one byte below 128, or two bytes from 0xC2 0x80 to 0xC2 0x9F.\<close>

fun blank_controls :: "string \<Rightarrow> string" where
  "blank_controls [] = []"
| "blank_controls (c # cs) =
     (if byte_val c < 32 \<or> byte_val c = 127 then CHR '' '' # blank_controls cs
      else if byte_val c = 194 then
        (case cs of
           d # ds \<Rightarrow> if 128 \<le> byte_val d \<and> byte_val d < 160 then CHR '' '' # blank_controls ds else c # blank_controls cs
         | [] \<Rightarrow> [c])
      else c # blank_controls cs)"

text \<open>Characters are pushed until one does not fit in the bytes that are left.\<close>

function push_fitting :: "nat \<Rightarrow> string \<Rightarrow> string" where
  "push_fitting room s =
     (case s of
        [] \<Rightarrow> []
      | c # cs \<Rightarrow>
          let ch = c # takeWhile continuation cs in
          if length ch > room then [] else ch @ push_fitting (room - length ch) (dropWhile continuation cs))"
  by auto

termination
  by (relation "measure (\<lambda>(_, s). length s)") (auto simp: le_imp_less_Suc length_dropWhile_le)

declare push_fitting.simps [simp del]

definition bounded_run_error_summary :: "string \<Rightarrow> string" where
  "bounded_run_error_summary error = push_fitting 512 (trim (blank_controls error))"

lemma push_fitting_length: "length (push_fitting room s) \<le> room"
proof (induction room s rule: push_fitting.induct)
  case (1 room s)
  show ?case
  proof (cases s)
    case (Cons c cs)
    show ?thesis
    proof (cases "length (c # takeWhile continuation cs) > room")
      case False
      with 1 [OF Cons refl] show ?thesis by (subst push_fitting.simps) (simp add: Cons Let_def)
    qed (simp add: push_fitting.simps Cons Let_def)
  qed (simp add: push_fitting.simps)
qed

lemma push_fitting_prefix: "prefix (push_fitting room s) s"
proof (induction room s rule: push_fitting.induct)
  case (1 room s)
  show ?case
  proof (cases s)
    case (Cons c cs)
    have "prefix (takeWhile continuation cs @ t) cs" if "prefix t (dropWhile continuation cs)" for t
      using that by (metis same_prefix_prefix takeWhile_dropWhile_id)
    with 1 [OF Cons refl] show ?thesis
      by (subst push_fitting.simps) (simp add: Cons Let_def)
  qed (simp add: push_fitting.simps)
qed

end
