(* ===== verification/Taskmaster_Runtime.thy ===== *)
theory Taskmaster_Runtime
  imports Taskmaster_Settings
begin

text \<open>
  The taskmaster runtime, \<^verbatim>\<open>taskmaster/runtime.rs\<close>: views of a durable ledger of evaluation runs, of the
  settings and of the activated knowledge. A view holds what it read last; every operation takes the
  process and file locks, reads the files again, changes the view and writes. Operations are
  functions from the files and the view to a result, the files and the view. A file is absent, not
  readable as its type, or holds a value; a write replaces the value or fails and leaves it, by the
  atomic replacement the code uses. A read may fail on the way. Derived serialization is taken to be faithful, except for the
  legacy error that is never written. Poisoned mutexes, which panic, are not modelled.
\<close>

section \<open>Data\<close>

datatype 'a json_file = Absent | Unreadable | Stored 'a

datatype attempt_state = QueuedRun | RunningRun
datatype outcome_state = RunSucceeded | RunFailed | RunInterrupted
datatype run_trigger = ManualRun | BackgroundRun
datatype manual_disposition = CachedRequest | SkippedRequest
datatype manual_reason = UnchangedInputs | ContextWasChanged | RequestUnavailable
datatype reservation = Reserved | Cached | ContextChanged | Skipped

record run_attempt =
  ra_id :: u64
  ra_state :: attempt_state
  ra_queued_at :: string
  ra_started_at :: "string option"
  ra_trigger :: run_trigger
  ra_provider :: string
  ra_model :: string

record proposal_counts =
  pc_created :: u32
  pc_suppressed :: u32

record run_outcome =
  ro_state :: outcome_state
  ro_started_at :: string
  ro_completed_at :: string
  ro_trigger :: run_trigger
  ro_provider :: string
  ro_model :: string
  ro_error_summary :: "string option"
  ro_proposal_counts :: "proposal_counts option"

record manual_request =
  mr_id :: string
  mr_requested_at :: string
  mr_completed_at :: string
  mr_disposition :: manual_disposition
  mr_reason :: manual_reason

record workspace_run =
  wr_active :: "run_attempt option"
  wr_outcome :: "run_outcome option"
  wr_manual :: "manual_request option"

record ledger =
  lg_day :: string
  lg_reservations :: u32
  lg_last_evaluated :: "string \<rightharpoonup> string"
  lg_cache_keys :: "string \<rightharpoonup> string"
  lg_last_error :: "string option"
  lg_generation :: u64
  lg_runs :: "string \<rightharpoonup> workspace_run"
  lg_next_run_id :: u64

definition empty_ledger :: ledger where
  "empty_ledger =
     \<lparr>lg_day = [], lg_reservations = 0, lg_last_evaluated = Map.empty, lg_cache_keys = Map.empty, lg_last_error = None,
      lg_generation = 0, lg_runs = Map.empty, lg_next_run_id = 0\<rparr>"

definition empty_run :: workspace_run where
  "empty_run = \<lparr>wr_active = None, wr_outcome = None, wr_manual = None\<rparr>"

record runtime_data =
  rt_settings :: taskmaster_settings
  rt_verified :: "verified_knowledge option"
  rt_key :: "string option"
  rt_ledger :: ledger
  rt_readable :: bool

record trust_grant =
  tg_digest :: string
  tg_resolved_path :: string

record trust_document =
  td_version :: nat
  td_generation :: u64
  td_grants :: "(string \<times> trust_grant) list"

text \<open>The files under the root: the proof file is named by the digest of the trusted key.\<close>

record runtime_disk =
  dk_settings :: "taskmaster_settings json_file"
  dk_ledger :: "ledger json_file"
  dk_proof :: "string \<rightharpoonup> string"
  dk_trust :: "trust_document json_file"

text \<open>
  What is fixed for a program: the crates and the trusted key. What an operation meets: canonical
  paths, the clock and its calendar day, the reading of RFC 3339 texts in nanoseconds, the failure of
  the file lock and of each read and write, if any. A ledger that cannot be read is asked for with
  \<open>Path::exists\<close>, which also answers no when the query itself fails; an activation reads the proof twice.
\<close>

record runtime_program =
  pr_crates :: knowledge_crates
  pr_pem :: string

datatype read_outcome = ReadWorks | ReadFails | StatFails

record runtime_env =
  en_canonical :: "string \<Rightarrow> string option"
  en_now :: string
  en_day :: string
  en_instant :: "string \<Rightarrow> int option"
  en_lock :: "string option"
  en_settings_read :: bool
  en_ledger_read :: read_outcome
  en_proof_read :: bool
  en_proof_confirm :: bool
  en_trust_read :: "string option"
  en_ledger_write :: "string option"
  en_settings_write :: "string option"
  en_proof_write :: "string option"
  en_trust_write :: "string option"

type_synonym 'a runtime_result = "(runtime_error + 'a) \<times> runtime_disk \<times> runtime_data"

section \<open>Files\<close>

definition read_json :: "'a json_file \<Rightarrow> 'a option" where
  "read_json f = (case f of Stored x \<Rightarrow> Some x | _ \<Rightarrow> None)"

definition write_ledger :: "runtime_env \<Rightarrow> ledger \<Rightarrow> runtime_disk \<Rightarrow> runtime_error + runtime_disk" where
  "write_ledger e l d =
     (case en_ledger_write e of
        Some m \<Rightarrow> Inl (RuntimeIo m)
      | None \<Rightarrow> Inr (d\<lparr>dk_ledger := Stored (l\<lparr>lg_last_error := None\<rparr>)\<rparr>))"

definition write_settings :: "runtime_env \<Rightarrow> taskmaster_settings \<Rightarrow> runtime_disk \<Rightarrow> runtime_error + runtime_disk" where
  "write_settings e s d =
     (case en_settings_write e of Some m \<Rightarrow> Inl (RuntimeIo m) | None \<Rightarrow> Inr (d\<lparr>dk_settings := Stored s\<rparr>))"

definition write_proof :: "runtime_env \<Rightarrow> string \<Rightarrow> string \<Rightarrow> runtime_disk \<Rightarrow> runtime_error + runtime_disk" where
  "write_proof e key bytes d =
     (case en_proof_write e of Some m \<Rightarrow> Inl (RuntimeIo m) | None \<Rightarrow> Inr (d\<lparr>dk_proof := (dk_proof d)(key \<mapsto> bytes)\<rparr>))"

text \<open>
  What a read and the query after it find: a file that cannot be read is there all the same, one that
  cannot be queried either looks absent.
\<close>

fun seen_file :: "read_outcome \<Rightarrow> 'a json_file \<Rightarrow> 'a json_file" where
  "seen_file ReadWorks f = f"
| "seen_file ReadFails f = (case f of Absent \<Rightarrow> Absent | _ \<Rightarrow> Unreadable)"
| "seen_file StatFails f = Absent"

definition read_settings :: "runtime_env \<Rightarrow> runtime_disk \<Rightarrow> taskmaster_settings option" where
  "read_settings e d = (if en_settings_read e then read_json (dk_settings d) else None)"

definition read_ledger :: "runtime_env \<Rightarrow> runtime_disk \<Rightarrow> ledger option \<times> bool" where
  "read_ledger e d =
     (let f = seen_file (en_ledger_read e) (dk_ledger d) in (read_json f, read_json f \<noteq> None \<or> f = Absent))"

definition reload_knowledge :: "runtime_program \<Rightarrow> bool \<Rightarrow> runtime_disk \<Rightarrow> runtime_data \<Rightarrow> runtime_data" where
  "reload_knowledge g readable d m =
     m\<lparr>rt_verified := Option.bind (rt_key m) (\<lambda>key. Option.bind (if readable then dk_proof d key else None) (\<lambda>bytes.
         case verify_activation (pr_crates g) (pr_pem g) (take (MAX_ACTIVATION_BYTES + 1) bytes) of
           Inl _ \<Rightarrow> None | Inr v \<Rightarrow> Some v))\<rparr>"

definition reload_durable :: "runtime_program \<Rightarrow> runtime_env \<Rightarrow> runtime_disk \<Rightarrow> runtime_data \<Rightarrow> runtime_data" where
  "reload_durable g e d m =
     (case read_ledger e d of (stored, readable) \<Rightarrow>
        reload_knowledge g (en_proof_read e) d
          (m\<lparr>rt_settings := (case read_settings e d of Some s \<Rightarrow> s | None \<Rightarrow> rt_settings m), rt_readable := readable,
             rt_ledger := (case stored of Some l \<Rightarrow> l | None \<Rightarrow> rt_ledger m)\<rparr>))"

definition open_inner :: "runtime_program \<Rightarrow> runtime_env \<Rightarrow> runtime_disk \<Rightarrow> runtime_data" where
  "open_inner g e d =
     (case read_ledger e d of (stored, readable) \<Rightarrow>
        reload_knowledge g (en_proof_read e) d
          \<lparr>rt_settings = (case read_settings e d of Some s \<Rightarrow> s | None \<Rightarrow> default_settings), rt_verified = None,
           rt_key = (case public_key_sha256 (pr_crates g) (pr_pem g) of Inl _ \<Rightarrow> None | Inr key \<Rightarrow> Some key),
           rt_ledger = (case stored of Some l \<Rightarrow> l | None \<Rightarrow> empty_ledger),
           rt_readable = (en_lock e = None \<and> readable)\<rparr>)"

section \<open>Runs in the ledger\<close>

type_synonym 'a ledger_change = "ledger \<Rightarrow> (runtime_error + 'a) \<times> ledger"

definition active_of :: "ledger \<Rightarrow> string \<Rightarrow> run_attempt option" where
  "active_of l key = Option.bind (lg_runs l key) wr_active"

definition queue_change :: "runtime_env \<Rightarrow> string \<Rightarrow> run_trigger \<Rightarrow> string \<Rightarrow> string \<Rightarrow> u64 ledger_change" where
  "queue_change e key trigger provider model l =
     (if active_of l key \<noteq> None then (Inl AttemptActive, l)
      else
        let next_id = saturating_add (lg_next_run_id l) 1;
            record = (case lg_runs l key of None \<Rightarrow> empty_run | Some r \<Rightarrow> r);
            cleared = (if trigger = ManualRun then record\<lparr>wr_manual := None\<rparr> else record);
            attempt = \<lparr>ra_id = next_id, ra_state = QueuedRun, ra_queued_at = en_now e, ra_started_at = None,
                       ra_trigger = trigger, ra_provider = provider, ra_model = model\<rparr>
        in (Inr next_id,
            l\<lparr>lg_next_run_id := next_id, lg_runs := (lg_runs l)(key \<mapsto> cleared\<lparr>wr_active := Some attempt\<rparr>)\<rparr>))"

definition mark_change :: "runtime_env \<Rightarrow> string \<Rightarrow> u64 \<Rightarrow> string \<Rightarrow> string \<Rightarrow> bool ledger_change" where
  "mark_change e key run_id provider model l =
     (case lg_runs l key of
        None \<Rightarrow> (Inr False, l)
      | Some r \<Rightarrow>
          (case opt_filter (\<lambda>a. ra_id a = run_id) (wr_active r) of
             None \<Rightarrow> (Inr False, l)
           | Some a \<Rightarrow>
               (Inr True,
                l\<lparr>lg_runs := (lg_runs l)(key \<mapsto> r\<lparr>wr_active := Some (a\<lparr>ra_state := RunningRun,
                     ra_started_at := Some (en_now e), ra_provider := provider, ra_model := model\<rparr>)\<rparr>)\<rparr>)))"

definition outcome_of ::
  "runtime_env \<Rightarrow> outcome_state \<Rightarrow> string option \<Rightarrow> proposal_counts option \<Rightarrow> run_attempt \<Rightarrow> run_outcome" where
  "outcome_of e st summary counts a =
     \<lparr>ro_state = st, ro_started_at = (case ra_started_at a of Some t \<Rightarrow> t | None \<Rightarrow> ra_queued_at a), ro_completed_at = en_now e,
      ro_trigger = ra_trigger a, ro_provider = ra_provider a, ro_model = ra_model a, ro_error_summary = summary,
      ro_proposal_counts = counts\<rparr>"

definition finish_change ::
  "runtime_env \<Rightarrow> string \<Rightarrow> u64 \<Rightarrow> outcome_state \<Rightarrow> string option \<Rightarrow> proposal_counts option \<Rightarrow> bool ledger_change" where
  "finish_change e key run_id st error_summary counts l =
     (case lg_runs l key of
        None \<Rightarrow> (Inr False, l)
      | Some r \<Rightarrow>
          (case wr_active r of
             None \<Rightarrow> (Inr False, l)
           | Some a \<Rightarrow>
               if ra_id a \<noteq> run_id then (Inr False, l)
               else
                 (Inr True,
                  l\<lparr>lg_runs := (lg_runs l)(key \<mapsto> r\<lparr>wr_active := None, wr_outcome := Some (outcome_of e st
                       (map_option bounded_run_error_summary error_summary)
                       (if st = RunSucceeded then counts else None) a)\<rparr>)\<rparr>)))"

definition manual_change ::
  "runtime_env \<Rightarrow> string \<Rightarrow> u64 \<Rightarrow> manual_disposition \<Rightarrow> manual_reason \<Rightarrow> bool ledger_change" where
  "manual_change e key run_id disposition reason l =
     (case lg_runs l key of
        None \<Rightarrow> (Inr False, l)
      | Some r \<Rightarrow>
          (case opt_filter (\<lambda>a. ra_id a = run_id \<and> ra_trigger a = ManualRun) (wr_active r) of
             None \<Rightarrow> (Inr False, l)
           | Some a \<Rightarrow>
               (Inr True,
                l\<lparr>lg_runs := (lg_runs l)(key \<mapsto> r\<lparr>wr_active := None, wr_manual := Some
                     \<lparr>mr_id = show_nat (unat (ra_id a)), mr_requested_at = ra_queued_at a, mr_completed_at = en_now e,
                      mr_disposition = disposition, mr_reason = reason\<rparr>\<rparr>)\<rparr>)))"

definition drop_if_bare :: "string \<Rightarrow> workspace_run \<Rightarrow> ledger \<Rightarrow> ledger" where
  "drop_if_bare key r l =
     (if wr_outcome r = None \<and> wr_manual r = None then l\<lparr>lg_runs := (lg_runs l)(key := None)\<rparr>
      else l\<lparr>lg_runs := (lg_runs l)(key \<mapsto> r)\<rparr>)"

definition clear_change :: "string \<Rightarrow> u64 \<Rightarrow> bool ledger_change" where
  "clear_change key run_id l =
     (case lg_runs l key of
        None \<Rightarrow> (Inr False, l)
      | Some r \<Rightarrow>
          if map_option ra_id (wr_active r) \<noteq> Some run_id then (Inr False, l)
          else (Inr True, drop_if_bare key (r\<lparr>wr_active := None\<rparr>) l))"

definition recover_change :: "runtime_env \<Rightarrow> string \<Rightarrow> bool ledger_change" where
  "recover_change e key l =
     (case lg_runs l key of
        None \<Rightarrow> (Inr False, l)
      | Some r \<Rightarrow>
          (case wr_active r of
             None \<Rightarrow> (Inr False, l)
           | Some a \<Rightarrow>
               let taken = r\<lparr>wr_active := None\<rparr>;
                   closed = (if ra_state a = RunningRun
                             then taken\<lparr>wr_outcome := Some (outcome_of e RunInterrupted None None a)\<rparr> else taken)
               in (Inr True, drop_if_bare key closed l)))"

section \<open>Operations on the ledger\<close>

definition mutate_ledger ::
  "runtime_program \<Rightarrow> runtime_env \<Rightarrow> 'a ledger_change \<Rightarrow> runtime_disk \<Rightarrow> runtime_data \<Rightarrow> 'a runtime_result" where
  "mutate_ledger g e f d m =
     (case en_lock e of
        Some x \<Rightarrow> (Inl (RuntimeIo x), d, m)
      | None \<Rightarrow>
          let m1 = reload_durable g e d m in
          if \<not> rt_readable m1 then (Inl LedgerUnreadable, d, m1)
          else case f (rt_ledger m1) of
                 (Inl x, l) \<Rightarrow> (Inl x, d, m1\<lparr>rt_ledger := l\<rparr>)
               | (Inr a, l) \<Rightarrow>
                   (case write_ledger e l d of
                      Inl x \<Rightarrow> (Inl x, d, m1\<lparr>rt_ledger := l\<rparr>)
                    | Inr d1 \<Rightarrow> (Inr a, d1, m1\<lparr>rt_ledger := l\<rparr>)))"

definition with_workspace ::
  "runtime_env \<Rightarrow> string \<Rightarrow> (string \<Rightarrow> 'a runtime_result) \<Rightarrow> runtime_disk \<Rightarrow> runtime_data \<Rightarrow> 'a runtime_result" where
  "with_workspace e workspace f d m =
     (case en_canonical e workspace of None \<Rightarrow> (Inl WorkspaceUnavailable, d, m) | Some key \<Rightarrow> f key)"

definition queue_run ::
  "runtime_program \<Rightarrow> runtime_env \<Rightarrow> string \<Rightarrow> run_trigger \<Rightarrow> string \<Rightarrow> string \<Rightarrow> runtime_disk \<Rightarrow> runtime_data \<Rightarrow>
     u64 runtime_result" where
  "queue_run g e workspace trigger provider model d m =
     with_workspace e workspace (\<lambda>key. mutate_ledger g e (queue_change e key trigger provider model) d m) d m"

definition mark_run_running ::
  "runtime_program \<Rightarrow> runtime_env \<Rightarrow> string \<Rightarrow> u64 \<Rightarrow> string \<Rightarrow> string \<Rightarrow> runtime_disk \<Rightarrow> runtime_data \<Rightarrow>
     bool runtime_result" where
  "mark_run_running g e workspace run_id provider model d m =
     with_workspace e workspace (\<lambda>key. mutate_ledger g e (mark_change e key run_id provider model) d m) d m"

definition finish_run_with_counts ::
  "runtime_program \<Rightarrow> runtime_env \<Rightarrow> string \<Rightarrow> u64 \<Rightarrow> outcome_state \<Rightarrow> string option \<Rightarrow> proposal_counts option \<Rightarrow>
     runtime_disk \<Rightarrow> runtime_data \<Rightarrow> bool runtime_result" where
  "finish_run_with_counts g e workspace run_id st error_summary counts d m =
     with_workspace e workspace (\<lambda>key. mutate_ledger g e (finish_change e key run_id st error_summary counts) d m) d m"

definition finish_run ::
  "runtime_program \<Rightarrow> runtime_env \<Rightarrow> string \<Rightarrow> u64 \<Rightarrow> outcome_state \<Rightarrow> string option \<Rightarrow> runtime_disk \<Rightarrow> runtime_data \<Rightarrow>
     bool runtime_result" where
  "finish_run g e workspace run_id st error_summary d m =
     finish_run_with_counts g e workspace run_id st error_summary None d m"

definition finish_manual_request_without_outcome ::
  "runtime_program \<Rightarrow> runtime_env \<Rightarrow> string \<Rightarrow> u64 \<Rightarrow> manual_disposition \<Rightarrow> manual_reason \<Rightarrow> runtime_disk \<Rightarrow> runtime_data \<Rightarrow>
     bool runtime_result" where
  "finish_manual_request_without_outcome g e workspace run_id disposition reason d m =
     with_workspace e workspace (\<lambda>key. mutate_ledger g e (manual_change e key run_id disposition reason) d m) d m"

definition clear_run ::
  "runtime_program \<Rightarrow> runtime_env \<Rightarrow> string \<Rightarrow> u64 \<Rightarrow> runtime_disk \<Rightarrow> runtime_data \<Rightarrow> bool runtime_result" where
  "clear_run g e workspace run_id d m =
     with_workspace e workspace (\<lambda>key. mutate_ledger g e (clear_change key run_id) d m) d m"

definition recover_workspace_run ::
  "runtime_program \<Rightarrow> runtime_env \<Rightarrow> string \<Rightarrow> runtime_disk \<Rightarrow> runtime_data \<Rightarrow> bool runtime_result" where
  "recover_workspace_run g e workspace d m =
     with_workspace e workspace (\<lambda>key. mutate_ledger g e (recover_change e key) d m) d m"

record run_status =
  rs_workspace_path :: string
  rs_active :: "run_attempt option"
  rs_outcome :: "run_outcome option"
  rs_manual :: "manual_request option"

definition run_status ::
  "runtime_program \<Rightarrow> runtime_env \<Rightarrow> string option \<Rightarrow> runtime_disk \<Rightarrow> runtime_data \<Rightarrow> run_status runtime_result" where
  "run_status g e workspace d m =
     (case workspace of
        None \<Rightarrow> (Inl NoWorkspace, d, m)
      | Some w \<Rightarrow> with_workspace e w (\<lambda>key.
          case en_lock e of
            Some x \<Rightarrow> (Inl (RuntimeIo x), d, m)
          | None \<Rightarrow>
              let m1 = reload_durable g e d m; r = lg_runs (rt_ledger m1) key in
              if \<not> rt_readable m1 then (Inl LedgerUnreadable, d, m1)
              else (Inr \<lparr>rs_workspace_path = key, rs_active = Option.bind r wr_active, rs_outcome = Option.bind r wr_outcome,
                         rs_manual = Option.bind r wr_manual\<rparr>, d, m1)) d m)"

section \<open>Settings and knowledge\<close>

definition replace_settings_with_reconcile ::
  "runtime_program \<Rightarrow> runtime_env \<Rightarrow> taskmaster_settings \<Rightarrow> (taskmaster_settings \<Rightarrow> taskmaster_settings \<Rightarrow> string option) \<Rightarrow>
     runtime_disk \<Rightarrow> runtime_data \<Rightarrow> unit runtime_result" where
  "replace_settings_with_reconcile g e s reconcile d m =
     (case en_lock e of
        Some x \<Rightarrow> (Inl (RuntimeIo x), d, m)
      | None \<Rightarrow>
          (case validate_settings (en_canonical e) (kv_url (pr_crates g)) s of
             Inl x \<Rightarrow> (Inl x, d, m)
           | Inr _ \<Rightarrow>
               let m1 = reload_durable g e d m in
               if \<not> rt_readable m1 then (Inl LedgerUnreadable, d, m1)
               else case reconcile (rt_settings m1) s of
                      Some x \<Rightarrow> (Inl (ReconcileFailed x), d, m1)
                    | None \<Rightarrow>
                        let l = (rt_ledger m1)\<lparr>lg_generation := saturating_add (lg_generation (rt_ledger m1)) 1,
                                  lg_cache_keys := Map.empty\<rparr>;
                            m2 = m1\<lparr>rt_ledger := l\<rparr>
                        in case write_ledger e l d of
                             Inl x \<Rightarrow> (Inl x, d, m2)
                           | Inr d1 \<Rightarrow>
                               (case write_settings e s d1 of
                                  Inl x \<Rightarrow> (Inl x, d1, m2)
                                | Inr d2 \<Rightarrow> (Inr (), d2, m2\<lparr>rt_settings := s\<rparr>))))"

definition knowledge_conflict :: "verified_knowledge option \<Rightarrow> knowledge_identity \<Rightarrow> runtime_error option" where
  "knowledge_conflict current new =
     (case current of
        None \<Rightarrow> None
      | Some c \<Rightarrow>
          if ki_sequence new < ki_sequence (vk_identity c) then Some OlderBundle
          else if ki_sequence new = ki_sequence (vk_identity c) then Some EquivocalBundle else None)"

text \<open>An activation past its checks: the generation moves on, then the proof is written.\<close>

definition install_proof ::
  "runtime_program \<Rightarrow> runtime_env \<Rightarrow> verified_knowledge \<Rightarrow> u64 \<Rightarrow> runtime_disk \<Rightarrow> runtime_data \<Rightarrow> unit runtime_result" where
  "install_proof g e v n d m1 =
     (let l = (rt_ledger m1)\<lparr>lg_generation := n, lg_cache_keys := Map.empty\<rparr>;
          m2 = m1\<lparr>rt_ledger := l\<rparr>
      in case write_ledger e l d of
           Inl x \<Rightarrow> (Inl x, d, m2)
         | Inr d1 \<Rightarrow>
             (case rt_key m2 of
                None \<Rightarrow> (Inl KeyUnavailable, d1, m2)
              | Some key \<Rightarrow>
                  (case write_proof e key (vk_bytes v) d1 of
                     Inl x \<Rightarrow> (Inl x, d1, m2)
                   | Inr d2 \<Rightarrow>
                       let m3 = reload_knowledge g (en_proof_confirm e) d2 m2 in
                       if map_option vk_identity (rt_verified m3) \<noteq> Some (vk_identity v)
                       then (Inl ActivationUnconfirmed, d2, m3) else (Inr (), d2, m3))))"

definition activate_knowledge ::
  "runtime_program \<Rightarrow> runtime_env \<Rightarrow> string \<Rightarrow> runtime_disk \<Rightarrow> runtime_data \<Rightarrow> unit runtime_result" where
  "activate_knowledge g e bytes d m =
     (case en_lock e of
        Some x \<Rightarrow> (Inl (RuntimeIo x), d, m)
      | None \<Rightarrow>
          (case verify_activation (pr_crates g) (pr_pem g) bytes of
             Inl x \<Rightarrow> (Inl (KnowledgeRefused x), d, m)
           | Inr v \<Rightarrow>
               let m1 = reload_durable g e d m in
               if \<not> rt_readable m1 then (Inl LedgerUnreadable, d, m1)
               else if map_option vk_identity (rt_verified m1) = Some (vk_identity v) then (Inr (), d, m1)
               else case knowledge_conflict (rt_verified m1) (vk_identity v) of
                      Some x \<Rightarrow> (Inl x, d, m1)
                    | None \<Rightarrow>
                        (case checked_add (lg_generation (rt_ledger m1)) 1 of
                           None \<Rightarrow> (Inl GenerationExhausted, d, m1)
                         | Some n \<Rightarrow> install_proof g e v n d m1)))"

definition brain_knowledge_availability ::
  "runtime_program \<Rightarrow> runtime_env \<Rightarrow> runtime_disk \<Rightarrow> runtime_data \<Rightarrow> bool \<times> runtime_data" where
  "brain_knowledge_availability g e d m =
     (case en_lock e of
        Some _ \<Rightarrow> (False, m)
      | None \<Rightarrow> let m1 = reload_durable g e d m in (rt_readable m1 \<and> rt_verified m1 \<noteq> None, m1))"

section \<open>Status\<close>

record taskmaster_status =
  st_workspace_path :: "string option"
  st_settings :: taskmaster_settings
  st_effective_settings :: taskmaster_settings
  st_remaining_evaluations :: u32
  st_analysis_status :: string
  st_knowledge_version :: "string option"
  st_last_error :: "string option"
  st_last_evaluated_at :: "string option"

definition status :: "runtime_env \<Rightarrow> string option \<Rightarrow> runtime_data \<Rightarrow> taskmaster_status" where
  "status e workspace m =
     (let key = Option.bind workspace (en_canonical e);
          effective = (case key of None \<Rightarrow> rt_settings m | Some w \<Rightarrow> effective_settings (rt_settings m) w);
          used = (if lg_day (rt_ledger m) = en_day e then lg_reservations (rt_ledger m) else 0)
      in \<lparr>st_workspace_path = key, st_settings = rt_settings m, st_effective_settings = effective,
          st_remaining_evaluations = (if rt_readable m then saturating_sub (ts_daily_limit effective) used else 0),
          st_analysis_status = (if rt_readable m then analysis_status effective else ''ledger_unavailable''),
          st_knowledge_version = map_option (\<lambda>v. kb_version (vk_bundle v)) (rt_verified m),
          st_last_error = lg_last_error (rt_ledger m),
          st_last_evaluated_at = Option.bind key (lg_last_evaluated (rt_ledger m))\<rparr>)"

section \<open>Reservations\<close>

definition day_of :: "runtime_env \<Rightarrow> string \<Rightarrow> string" where
  "day_of e now = (if 10 \<le> length now \<and> is_char_boundary now 10 then take 10 now else en_day e)"

text \<open>Whole minutes between two instants, rounded towards zero as chrono does.\<close>

definition trunc_div :: "int \<Rightarrow> int \<Rightarrow> int" where
  "trunc_div a b = (if 0 \<le> a then a div b else - ((- a) div b))"

definition whole_minutes :: "int \<Rightarrow> int" where
  "whole_minutes ns = trunc_div (trunc_div ns 1000000000) 60"

definition too_soon :: "runtime_env \<Rightarrow> ledger \<Rightarrow> string \<Rightarrow> string \<Rightarrow> u32 \<Rightarrow> bool" where
  "too_soon e l key now minutes \<longleftrightarrow>
     (case lg_last_evaluated l key of
        None \<Rightarrow> False
      | Some previous \<Rightarrow>
          (case (en_instant e previous, en_instant e now) of
             (Some a, Some b) \<Rightarrow> whole_minutes (b - a) < int (unat minutes)
           | _ \<Rightarrow> False))"

definition roll_day :: "string \<Rightarrow> ledger \<Rightarrow> ledger" where
  "roll_day day l = (if lg_day l \<noteq> day then l\<lparr>lg_day := day, lg_reservations := 0\<rparr> else l)"

text \<open>The view has been read again by the caller, who holds the locks.\<close>

definition reserve_loaded ::
  "runtime_env \<Rightarrow> string \<Rightarrow> string \<Rightarrow> string option \<Rightarrow> u64 option \<Rightarrow> bool \<Rightarrow> bool \<Rightarrow> bool \<Rightarrow> runtime_disk \<Rightarrow> runtime_data \<Rightarrow>
     reservation runtime_result" where
  "reserve_loaded e workspace now cache_key generation bypass_min_interval allow_disabled manual d m =
     (case en_canonical e workspace of
        None \<Rightarrow> (Inr Skipped, d, m)
      | Some key \<Rightarrow>
          if \<not> rt_readable m then (Inl LedgerUnreadable, d, m)
          else if is_some_and (\<lambda>x. x \<noteq> lg_generation (rt_ledger m)) generation then (Inr ContextChanged, d, m)
          else
            let effective = effective_settings (rt_settings m) key in
            if (\<not> allow_disabled \<and> \<not> ts_enabled effective) \<or> ts_selection effective = None then (Inr Skipped, d, m)
            else
              let l = roll_day (day_of e now) (rt_ledger m); m1 = m\<lparr>rt_ledger := l\<rparr> in
              if \<not> manual \<and> lg_reservations l \<ge> ts_daily_limit effective then (Inr Skipped, d, m1)
              else if is_some_and (\<lambda>c. lg_cache_keys l key = Some c) cache_key
                then (Inr (if manual then Cached else Skipped), d, m1)
              else if \<not> bypass_min_interval \<and> too_soon e l key now (ts_min_interval_minutes effective) then (Inr Skipped, d, m1)
              else
                let l1 = (if manual then l else l\<lparr>lg_reservations := saturating_add (lg_reservations l) 1\<rparr>);
                    l2 = l1\<lparr>lg_last_evaluated := (lg_last_evaluated l1)(key \<mapsto> now)\<rparr>;
                    m2 = m\<lparr>rt_ledger := l2\<rparr>
                in case write_ledger e l2 d of Inl x \<Rightarrow> (Inl x, d, m2) | Inr d1 \<Rightarrow> (Inr Reserved, d1, m2))"

section \<open>Evaluation snapshots\<close>

record adapter_identity =
  ad_harness_id :: string
  ad_digest :: string
  ad_resolved_path :: string

text \<open>The capability of a captured inference, which only the transport reads, is left out.\<close>

record captured_inference =
  ci_root :: string
  ci_workspace :: string
  ci_generation :: u64
  ci_settings :: taskmaster_settings
  ci_identity :: "knowledge_identity option"
  ci_adapter :: adapter_identity
  ci_trust_generation :: u64

record native_revision =
  nr_profile_id :: string
  nr_document_revision :: "string option"

record evaluation_snapshot =
  es_rubric :: "readiness_rubric option"
  es_settings :: taskmaster_settings
  es_knowledge :: "knowledge_bundle option"
  es_identity :: "knowledge_identity option"
  es_generation :: u64
  es_custom :: "captured_inference option"
  es_native :: "native_revision option"

definition evaluation_snapshot_with_disabled ::
  "runtime_program \<Rightarrow> runtime_env \<Rightarrow> string \<Rightarrow> bool \<Rightarrow> runtime_disk \<Rightarrow> runtime_data \<Rightarrow>
     evaluation_snapshot option \<times> runtime_data" where
  "evaluation_snapshot_with_disabled g e workspace allow_disabled d m =
     (case (en_canonical e workspace, en_lock e) of
        (Some key, None) \<Rightarrow>
          let m1 = reload_durable g e d m; s = effective_settings (rt_settings m1) key in
          (if rt_readable m1 \<and> (allow_disabled \<or> ts_enabled s) \<and> ts_selection s \<noteq> None then
             Some \<lparr>es_rubric = None, es_settings = s, es_knowledge = map_option vk_bundle (rt_verified m1),
                   es_identity = map_option vk_identity (rt_verified m1), es_generation = lg_generation (rt_ledger m1),
                   es_custom = None, es_native = None\<rparr>
           else None, m1)
      | _ \<Rightarrow> (None, m))"

definition evaluation_snapshot ::
  "runtime_program \<Rightarrow> runtime_env \<Rightarrow> string \<Rightarrow> runtime_disk \<Rightarrow> runtime_data \<Rightarrow> evaluation_snapshot option \<times> runtime_data" where
  "evaluation_snapshot g e workspace d m = evaluation_snapshot_with_disabled g e workspace False d m"

definition manual_evaluation_snapshot ::
  "runtime_program \<Rightarrow> runtime_env \<Rightarrow> string \<Rightarrow> runtime_disk \<Rightarrow> runtime_data \<Rightarrow> evaluation_snapshot option \<times> runtime_data" where
  "manual_evaluation_snapshot g e workspace d m = evaluation_snapshot_with_disabled g e workspace True d m"

definition proof_matches :: "runtime_data \<Rightarrow> knowledge_identity option \<Rightarrow> bool" where
  "proof_matches m i \<longleftrightarrow> i \<noteq> None \<and> map_option vk_identity (rt_verified m) = i"

section \<open>Assessments and readiness\<close>

text \<open>
  A snapshot for an assessment is captured in separate sections under the locks; \<open>between\<close> is what other
  calls do to the files and to the view meanwhile, and each section has its own clock and failures.
\<close>

type_synonym interlude = "runtime_disk \<Rightarrow> runtime_data \<Rightarrow> runtime_disk \<times> runtime_data"

definition has_capability :: "verified_knowledge \<Rightarrow> string \<Rightarrow> bool" where
  "has_capability v c = (c \<in> set (kb_capabilities (vk_bundle v)))"

definition bind_readiness_evaluation ::
  "runtime_program \<Rightarrow> runtime_env \<Rightarrow> evaluation_snapshot \<Rightarrow> runtime_disk \<Rightarrow> runtime_data \<Rightarrow>
     (evaluation_snapshot \<times> readiness_rubric) runtime_result" where
  "bind_readiness_evaluation g e s d m =
     (case en_lock e of
        Some x \<Rightarrow> (Inl (RuntimeIo x), d, m)
      | None \<Rightarrow>
          let m1 = reload_durable g e d m in
          if \<not> rt_readable m1 \<or> lg_generation (rt_ledger m1) \<noteq> es_generation s \<or> \<not> proof_matches m1 (es_identity s)
          then (Inl CaptureChanged, d, m1)
          else case rt_verified m1 of
                 None \<Rightarrow> (Inl GuidanceUnavailable, d, m1)
               | Some v \<Rightarrow>
                   if kb_format_version (vk_bundle v) \<noteq> 2 \<or> \<not> has_capability v ''taskmaster-readiness-v1''
                   then (Inl GuidanceUnavailable, d, m1)
                   else (case kb_rubric (vk_bundle v) of
                           None \<Rightarrow> (Inl RubricUnavailable, d, m1)
                         | Some r \<Rightarrow> (Inr (s\<lparr>es_rubric := Some r\<rparr>, r), d, m1)))"

definition readiness_evaluation_snapshot ::
  "runtime_program \<Rightarrow> runtime_env \<Rightarrow> runtime_env \<Rightarrow> interlude \<Rightarrow> string \<Rightarrow> runtime_disk \<Rightarrow> runtime_data \<Rightarrow>
     (evaluation_snapshot \<times> readiness_rubric) runtime_result" where
  "readiness_evaluation_snapshot g e e1 between workspace d m =
     (case manual_evaluation_snapshot g e workspace d m of
        (None, m1) \<Rightarrow> (Inl CaptureUnavailable, d, m1)
      | (Some s, m1) \<Rightarrow> (case between d m1 of (d1, m2) \<Rightarrow> bind_readiness_evaluation g e1 s d1 m2))"

definition assessment_knowledge_availability ::
  "runtime_program \<Rightarrow> runtime_env \<Rightarrow> runtime_disk \<Rightarrow> runtime_data \<Rightarrow> bool \<times> runtime_data" where
  "assessment_knowledge_availability g e d m =
     (case en_lock e of
        Some _ \<Rightarrow> (False, m)
      | None \<Rightarrow>
          let m1 = reload_durable g e d m in
          (case rt_verified m1 of
             None \<Rightarrow> (False, m1)
           | Some v \<Rightarrow> (rt_readable m1 \<and> has_capability v ''taskmaster-assessment-v1'', m1)))"

definition assessment_evaluation_snapshot ::
  "runtime_program \<Rightarrow> runtime_env \<Rightarrow> runtime_env \<Rightarrow> runtime_env \<Rightarrow> interlude \<Rightarrow> interlude \<Rightarrow> string \<Rightarrow> runtime_disk \<Rightarrow> runtime_data \<Rightarrow> evaluation_snapshot runtime_result" where
  "assessment_evaluation_snapshot g e e1 e2 between between1 workspace d m =
     (case assessment_knowledge_availability g e d m of
        (False, m1) \<Rightarrow> (Inl GuidanceUnavailable, d, m1)
      | (True, m1) \<Rightarrow>
          let (d1, m1) = between d m1 in
          (case manual_evaluation_snapshot g e1 workspace d1 m1 of
             (None, m2) \<Rightarrow> (Inl CaptureUnavailable, d1, m2)
           | (Some s, m2) \<Rightarrow>
               let (d2, m2) = between1 d1 m2 in
               (case en_lock e2 of
                  Some x \<Rightarrow> (Inl CaptureUnavailable, d2, m2)
                | None \<Rightarrow>
                    let m3 = reload_durable g e2 d2 m2 in
                    if \<not> rt_readable m3 \<or> lg_generation (rt_ledger m3) \<noteq> es_generation s \<or>
                       \<not> proof_matches m3 (es_identity s) \<or> en_canonical e2 workspace = None
                    then (Inl CaptureChanged, d2, m3)
                    else (Inr (s\<lparr>es_rubric := Option.bind (rt_verified m3) (\<lambda>v. kb_rubric (vk_bundle v))\<rparr>), d2, m3))))"

definition with_workspace_settings ::
  "runtime_program \<Rightarrow> runtime_env \<Rightarrow> string \<Rightarrow> (taskmaster_settings \<Rightarrow> 'a) \<Rightarrow> runtime_disk \<Rightarrow> runtime_data \<Rightarrow> 'a runtime_result" where
  "with_workspace_settings g e workspace use_settings d m =
     with_workspace e workspace (\<lambda>key.
       case en_lock e of
         Some x \<Rightarrow> (Inl (RuntimeIo x), d, m)
       | None \<Rightarrow>
           let m1 = reload_durable g e d m in
           if \<not> rt_readable m1 then (Inl LedgerUnreadable, d, m1)
           else (Inr (use_settings (effective_settings (rt_settings m1) key)), d, m1)) d m"

lemma rubric_bound:
  assumes "bind_readiness_evaluation g e s d m = (Inr (s1, r), d1, m1)"
  obtains v where "rt_verified (reload_durable g e d m) = Some v" "es_identity s = Some (vk_identity v)"
    "kb_rubric (vk_bundle v) = Some r" "s1 = s\<lparr>es_rubric := Some r\<rparr>" "d1 = d"
  using assms
  by (auto simp: bind_readiness_evaluation_def proof_matches_def Let_def split: option.splits if_split_asm)

end
