(* ===== verification/Taskmaster_Inference.thy ===== *)
theory Taskmaster_Inference
  imports Taskmaster_Runtime Unix_Path "HOL-Library.AList"
begin

text \<open>
  Trust in custom inference commands, \<^verbatim>\<open>taskmaster/inference_trust.rs\<close>, and the guards of
  \<^verbatim>\<open>taskmaster/runtime/inference.rs\<close> that check a captured evaluation again before it has an effect:
  the reservation of a run, the start of a provider, the commit of a result. The harness registry is
  a component of its own; what the guards read of it under its lock is a record, or nothing when the
  lock or the registry fails.
\<close>

section \<open>Trust\<close>

definition MAX_TRUST_BYTES :: nat where "MAX_TRUST_BYTES = 1048576"
definition MAX_GRANTS :: nat where "MAX_GRANTS = 1024"

definition no_trust :: trust_document where
  "no_trust = \<lparr>td_version = 1, td_generation = 0, td_grants = []\<rparr>"

definition normalized_absolute_path :: "string \<Rightarrow> bool" where
  "normalized_absolute_path p \<longleftrightarrow>
     is_absolute p \<and> \<not> has_control p \<and> \<not> list_ex (\<lambda>c. c = CurDir \<or> c = ParentDir) (path_components p) \<and>
     collected_path (path_components p) = p"

definition grant_bad :: "string \<times> trust_grant \<Rightarrow> bool" where
  "grant_bad ig \<longleftrightarrow> (case ig of (i, t) \<Rightarrow>
     i = [] \<or> length i > 256 \<or> has_control i \<or> length (tg_digest t) \<noteq> 64 \<or> \<not> list_all lower_hexdigit (tg_digest t) \<or>
     \<not> normalized_absolute_path (tg_resolved_path t))"

definition validate_document :: "trust_document \<Rightarrow> runtime_error + unit" where
  "validate_document t =
     refuse_if (td_version t \<noteq> 1 \<or> length (td_grants t) > MAX_GRANTS \<or> list_ex grant_bad (td_grants t)) (TrustFailed ''invalid'')"

definition stored_trust :: "runtime_disk \<Rightarrow> runtime_error + trust_document" where
  "stored_trust d =
     (case dk_trust d of
        Absent \<Rightarrow> Inr no_trust
      | Unreadable \<Rightarrow> Inl (TrustFailed ''unreadable'')
      | Stored t \<Rightarrow> and_then (validate_document t) (\<lambda>_. Inr t))"

definition read_trust :: "runtime_env \<Rightarrow> runtime_disk \<Rightarrow> runtime_error + trust_document" where
  "read_trust e d = (case en_trust_read e of Some x \<Rightarrow> Inl (TrustFailed x) | None \<Rightarrow> stored_trust d)"

record trust_revision =
  tr_generation :: u64
  tr_digest :: string

record trust_status =
  tu_revision :: trust_revision
  tu_approved :: bool

definition grants :: "trust_document \<Rightarrow> adapter_identity \<Rightarrow> bool" where
  "grants t a = is_some_and (\<lambda>x. tg_digest x = ad_digest a \<and> tg_resolved_path x = ad_resolved_path a)
     (map_of (td_grants t) (ad_harness_id a))"

definition inspect_guarded :: "runtime_env \<Rightarrow> runtime_disk \<Rightarrow> adapter_identity \<Rightarrow> runtime_error + trust_status" where
  "inspect_guarded e d a =
     and_then (read_trust e d) (\<lambda>t.
       Inr \<lparr>tu_revision = \<lparr>tr_generation = td_generation t, tr_digest = ad_digest a\<rparr>, tu_approved = grants t a\<rparr>)"

text \<open>The size of the encoded document comes from serde.\<close>

definition persist_next :: "(trust_document \<Rightarrow> nat) \<Rightarrow> runtime_env \<Rightarrow> trust_document \<Rightarrow> runtime_disk \<Rightarrow> (runtime_error + unit) \<times> runtime_disk" where
  "persist_next size_of e t d =
     (case checked_add (td_generation t) 1 of
        None \<Rightarrow> (Inl TrustExhausted, d)
      | Some n \<Rightarrow>
          let t1 = t\<lparr>td_generation := n\<rparr> in
          (case validate_document t1 of
             Inl x \<Rightarrow> (Inl x, d)
           | Inr _ \<Rightarrow>
               if size_of t1 > MAX_TRUST_BYTES then (Inl (TrustFailed ''size''), d)
               else case en_trust_write e of
                      Some x \<Rightarrow> (Inl (TrustFailed x), d)
                    | None \<Rightarrow> (Inr (), d\<lparr>dk_trust := Stored t1\<rparr>)))"

definition approve ::
  "(trust_document \<Rightarrow> nat) \<Rightarrow> runtime_env \<Rightarrow> adapter_identity \<Rightarrow> trust_revision \<Rightarrow> runtime_disk \<Rightarrow>
     (runtime_error + unit) \<times> runtime_disk" where
  "approve size_of e a expected d =
     (case en_lock e of
        Some x \<Rightarrow> (Inl (RuntimeIo x), d)
      | None \<Rightarrow>
          (case read_trust e d of
             Inl x \<Rightarrow> (Inl x, d)
           | Inr t \<Rightarrow>
               if tr_digest expected \<noteq> ad_digest a \<or> tr_generation expected \<noteq> td_generation t then (Inl TrustConflict, d)
               else persist_next size_of e (t\<lparr>td_grants := AList.update (ad_harness_id a)
                      \<lparr>tg_digest = ad_digest a, tg_resolved_path = ad_resolved_path a\<rparr> (td_grants t)\<rparr>) d))"

definition revoke ::
  "(trust_document \<Rightarrow> nat) \<Rightarrow> runtime_env \<Rightarrow> string \<Rightarrow> u64 \<Rightarrow> runtime_disk \<Rightarrow> (runtime_error + unit) \<times> runtime_disk" where
  "revoke size_of e harness generation d =
     (case en_lock e of
        Some x \<Rightarrow> (Inl (RuntimeIo x), d)
      | None \<Rightarrow>
          (case read_trust e d of
             Inl x \<Rightarrow> (Inl x, d)
           | Inr t \<Rightarrow>
               if generation \<noteq> td_generation t then (Inl TrustConflict, d)
               else persist_next size_of e (t\<lparr>td_grants := AList.delete harness (td_grants t)\<rparr>) d))"

definition trust_generation :: "runtime_env \<Rightarrow> runtime_disk \<Rightarrow> runtime_error + u64" where
  "trust_generation e d =
     (case en_lock e of Some x \<Rightarrow> Inl (RuntimeIo x) | None \<Rightarrow> and_then (read_trust e d) (\<lambda>t. Inr (td_generation t)))"

definition inspect :: "runtime_env \<Rightarrow> runtime_disk \<Rightarrow> adapter_identity \<Rightarrow> runtime_error + trust_status" where
  "inspect e d a = (case en_lock e of Some x \<Rightarrow> Inl (RuntimeIo x) | None \<Rightarrow> inspect_guarded e d a)"

section \<open>Guards\<close>

record harness_view =
  hv_revision :: "string option"
  hv_resolve :: "string \<Rightarrow> adapter_identity option"
  hv_effort_args :: "string \<Rightarrow> bool"

definition matches_snapshot :: "runtime_env \<Rightarrow> string \<Rightarrow> evaluation_snapshot \<Rightarrow> captured_inference \<Rightarrow> bool" where
  "matches_snapshot e workspace s c \<longleftrightarrow>
     ci_identity c = es_identity s \<and> ci_generation c = es_generation s \<and> ci_settings c = es_settings s \<and>
     en_canonical e workspace = Some (ci_workspace c)"

text \<open>What the view must still show after it was read again.\<close>

definition still_current :: "runtime_data \<Rightarrow> string \<Rightarrow> u64 \<Rightarrow> taskmaster_settings \<Rightarrow> knowledge_identity option \<Rightarrow> bool" where
  "still_current m key generation settings i \<longleftrightarrow>
     rt_readable m \<and> lg_generation (rt_ledger m) = generation \<and> effective_settings (rt_settings m) key = settings \<and>
     proof_matches m i"

text \<open>
  The action runs on the view that was read again, under all locks; its result is the value of the
  guard, or nothing when the guard refuses.
\<close>

definition with_current_native_data ::
  "runtime_program \<Rightarrow> runtime_env \<Rightarrow> harness_view option \<Rightarrow> string \<Rightarrow> evaluation_snapshot \<Rightarrow>
     (runtime_disk \<Rightarrow> runtime_data \<Rightarrow> 'a \<times> runtime_disk \<times> runtime_data) \<Rightarrow>
     runtime_disk \<Rightarrow> runtime_data \<Rightarrow> 'a option runtime_result" where
  "with_current_native_data g e h workspace s act d m =
     (case (es_native s, ts_selection (es_settings s), en_canonical e workspace) of
        (Some nr, Some sel, Some key) \<Rightarrow>
          if nr_profile_id nr \<noteq> sl_provider sel then (Inr None, d, m)
          else (case h of
                  None \<Rightarrow> (Inl HarnessUnavailable, d, m)
                | Some v \<Rightarrow>
                    if hv_revision v \<noteq> nr_document_revision nr then (Inr None, d, m)
                    else case en_lock e of
                           Some x \<Rightarrow> (Inl (RuntimeIo x), d, m)
                         | None \<Rightarrow>
                             let m1 = reload_durable g e d m in
                             if \<not> still_current m1 key (es_generation s) (es_settings s) (es_identity s)
                             then (Inr None, d, m1)
                             else (case act d m1 of (a, d1, m2) \<Rightarrow> (Inr (Some a), d1, m2)))
      | _ \<Rightarrow> (Inr None, d, m))"

definition with_current_custom_data ::
  "runtime_program \<Rightarrow> runtime_env \<Rightarrow> string \<Rightarrow> harness_view option \<Rightarrow> captured_inference \<Rightarrow>
     (runtime_disk \<Rightarrow> runtime_data \<Rightarrow> 'a \<times> runtime_disk \<times> runtime_data) \<Rightarrow>
     runtime_disk \<Rightarrow> runtime_data \<Rightarrow> 'a option runtime_result" where
  "with_current_custom_data g e root h c act d m =
     (if root \<noteq> ci_root c then (Inr None, d, m)
      else case h of
        None \<Rightarrow> (Inl HarnessUnavailable, d, m)
      | Some v \<Rightarrow>
          (case en_lock e of
             Some x \<Rightarrow> (Inl (RuntimeIo x), d, m)
           | None \<Rightarrow>
               (case hv_resolve v (ad_harness_id (ci_adapter c)) of
                  None \<Rightarrow> (Inr None, d, m)
                | Some a \<Rightarrow>
                    if a \<noteq> ci_adapter c then (Inr None, d, m)
                    else case inspect_guarded e d a of
                           Inl x \<Rightarrow> (Inl x, d, m)
                         | Inr t \<Rightarrow>
                             if \<not> tu_approved t \<or> tr_generation (tu_revision t) \<noteq> ci_trust_generation c then (Inr None, d, m)
                             else
                               let m1 = reload_durable g e d m in
                               if \<not> still_current m1 (ci_workspace c) (ci_generation c) (ci_settings c) (ci_identity c)
                               then (Inr None, d, m1)
                               else (case act d m1 of (x, d1, m2) \<Rightarrow> (Inr (Some x), d1, m2)))))"

definition capture_custom_inference_with_disabled ::
  "runtime_program \<Rightarrow> runtime_env \<Rightarrow> string \<Rightarrow> harness_view option \<Rightarrow> string \<Rightarrow> evaluation_snapshot \<Rightarrow> bool \<Rightarrow>
     runtime_disk \<Rightarrow> runtime_data \<Rightarrow> captured_inference option runtime_result" where
  "capture_custom_inference_with_disabled g e root h workspace s allow_disabled d m =
     (case (en_canonical e workspace, ts_selection (es_settings s)) of
        (Some key, Some sel) \<Rightarrow>
          (case validate_selection (kv_url (pr_crates g)) sel of
             Inl x \<Rightarrow> (Inl x, d, m)
           | Inr _ \<Rightarrow>
               (case h of
                  None \<Rightarrow> (Inl HarnessUnavailable, d, m)
                | Some v \<Rightarrow>
                    (case en_lock e of
                       Some x \<Rightarrow> (Inl (RuntimeIo x), d, m)
                     | None \<Rightarrow>
                         (case hv_resolve v (sl_provider sel) of
                            None \<Rightarrow> (Inr None, d, m)
                          | Some a \<Rightarrow>
                              if sl_reasoning_effort sel \<noteq> None \<and> \<not> hv_effort_args v (sl_provider sel) then (Inr None, d, m)
                              else case inspect_guarded e d a of
                                     Inl x \<Rightarrow> (Inl x, d, m)
                                   | Inr t \<Rightarrow>
                                       if \<not> tu_approved t then (Inr None, d, m)
                                       else
                                         let m1 = reload_durable g e d m in
                                         if \<not> still_current m1 key (es_generation s) (es_settings s) (es_identity s) \<or>
                                            (\<not> allow_disabled \<and> \<not> ts_enabled (es_settings s))
                                         then (Inr None, d, m1)
                                         else (Inr (Some \<lparr>ci_root = root, ci_workspace = key, ci_generation = es_generation s,
                                                 ci_settings = es_settings s, ci_identity = es_identity s, ci_adapter = a,
                                                 ci_trust_generation = tr_generation (tu_revision t)\<rparr>), d, m1)))))
      | _ \<Rightarrow> (Inr None, d, m))"

section \<open>Guarded effects\<close>

definition with_current_evaluation ::
  "runtime_program \<Rightarrow> runtime_env \<Rightarrow> string \<Rightarrow> harness_view option \<Rightarrow> string \<Rightarrow> evaluation_snapshot \<Rightarrow>
     (runtime_disk \<Rightarrow> runtime_data \<Rightarrow> 'a \<times> runtime_disk \<times> runtime_data) \<Rightarrow>
     runtime_disk \<Rightarrow> runtime_data \<Rightarrow> 'a option runtime_result" where
  "with_current_evaluation g e root h workspace s act d m =
     (case es_custom s of
        Some c \<Rightarrow>
          if \<not> matches_snapshot e workspace s c then (Inr None, d, m)
          else with_current_custom_data g e root h c act d m
      | None \<Rightarrow> with_current_native_data g e h workspace s act d m)"

text \<open>An admission that runs the reservation it is given, or answers without it.\<close>

type_synonym admission_of = "(runtime_error + reservation) option"

definition reserve_snapshot_with_interval ::
  "runtime_program \<Rightarrow> runtime_env \<Rightarrow> string \<Rightarrow> harness_view option \<Rightarrow> string \<Rightarrow> string \<Rightarrow> string \<Rightarrow> evaluation_snapshot \<Rightarrow>
     bool \<Rightarrow> admission_of \<Rightarrow> runtime_disk \<Rightarrow> runtime_data \<Rightarrow> reservation runtime_result" where
  "reserve_snapshot_with_interval g e root h workspace now cache_key s manual refusal d m =
     (let act = (\<lambda>d1 m1. case refusal of
                  Some r \<Rightarrow> (r, d1, m1)
                | None \<Rightarrow> reserve_loaded e workspace now (Some cache_key) (Some (es_generation s)) manual manual manual d1 m1)
      in case with_current_evaluation g e root h workspace s act d m of
           (Inl x, d1, m1) \<Rightarrow> (Inl x, d1, m1)
         | (Inr None, d1, m1) \<Rightarrow> (Inr ContextChanged, d1, m1)
         | (Inr (Some r), d1, m1) \<Rightarrow> (r, d1, m1))"

definition reserve_snapshot ::
  "runtime_program \<Rightarrow> runtime_env \<Rightarrow> string \<Rightarrow> harness_view option \<Rightarrow> string \<Rightarrow> string \<Rightarrow> string \<Rightarrow> evaluation_snapshot \<Rightarrow>
     runtime_disk \<Rightarrow> runtime_data \<Rightarrow> bool runtime_result" where
  "reserve_snapshot g e root h workspace now cache_key s d m =
     (case reserve_snapshot_with_interval g e root h workspace now cache_key s False None d m of
        (r, d1, m1) \<Rightarrow> (map_sum (\<lambda>x. x) (\<lambda>v. v = Reserved) r, d1, m1))"

definition reserve_manual_snapshot_with_admission ::
  "runtime_program \<Rightarrow> runtime_env \<Rightarrow> string \<Rightarrow> harness_view option \<Rightarrow> string \<Rightarrow> string \<Rightarrow> string \<Rightarrow> evaluation_snapshot \<Rightarrow>
     admission_of \<Rightarrow> runtime_disk \<Rightarrow> runtime_data \<Rightarrow> reservation runtime_result" where
  "reserve_manual_snapshot_with_admission g e root h workspace now cache_key s refusal d m =
     reserve_snapshot_with_interval g e root h workspace now cache_key s True refusal d m"

definition record_evaluation_success ::
  "runtime_program \<Rightarrow> runtime_env \<Rightarrow> string \<Rightarrow> harness_view option \<Rightarrow> string \<Rightarrow> evaluation_snapshot \<Rightarrow> string \<Rightarrow>
     runtime_disk \<Rightarrow> runtime_data \<Rightarrow> bool runtime_result" where
  "record_evaluation_success g e root h workspace s cache_key d m =
     (case en_canonical e workspace of
        None \<Rightarrow> (Inr False, d, m)
      | Some key \<Rightarrow>
          let act = (\<lambda>d1 m1.
                let l = (rt_ledger m1)\<lparr>lg_cache_keys := (lg_cache_keys (rt_ledger m1))(key \<mapsto> cache_key)\<rparr> in
                case write_ledger e l d1 of
                  Inl x \<Rightarrow> (Inl x, d1, m1\<lparr>rt_ledger := l\<rparr>)
                | Inr d2 \<Rightarrow> (Inr True, d2, m1\<lparr>rt_ledger := l\<rparr>))
          in case with_current_evaluation g e root h workspace s act d m of
               (Inl x, d1, m1) \<Rightarrow> (Inl x, d1, m1)
             | (Inr None, d1, m1) \<Rightarrow> (Inr False, d1, m1)
             | (Inr (Some r), d1, m1) \<Rightarrow> (r, d1, m1))"

text \<open>A failed evaluation is only checked: the error field of older ledgers is not written any more.\<close>

definition record_evaluation_error ::
  "runtime_program \<Rightarrow> runtime_env \<Rightarrow> string \<Rightarrow> harness_view option \<Rightarrow> string \<Rightarrow> evaluation_snapshot \<Rightarrow>
     runtime_disk \<Rightarrow> runtime_data \<Rightarrow> bool runtime_result" where
  "record_evaluation_error g e root h workspace s d m =
     (case with_current_evaluation g e root h workspace s (\<lambda>d1 m1. (if es_custom s = None then True else rt_readable m1, d1, m1)) d m of
        (Inl x, d1, m1) \<Rightarrow> (Inl x, d1, m1)
      | (Inr None, d1, m1) \<Rightarrow> (Inr False, d1, m1)
      | (Inr (Some b), d1, m1) \<Rightarrow> (Inr b, d1, m1))"

definition capture_custom_inference ::
  "runtime_program \<Rightarrow> runtime_env \<Rightarrow> string \<Rightarrow> harness_view option \<Rightarrow> string \<Rightarrow> evaluation_snapshot \<Rightarrow>
     runtime_disk \<Rightarrow> runtime_data \<Rightarrow> captured_inference option runtime_result" where
  "capture_custom_inference g e root h workspace s d m = capture_custom_inference_with_disabled g e root h workspace s False d m"

definition capture_manual_custom_inference ::
  "runtime_program \<Rightarrow> runtime_env \<Rightarrow> string \<Rightarrow> harness_view option \<Rightarrow> string \<Rightarrow> evaluation_snapshot \<Rightarrow>
     runtime_disk \<Rightarrow> runtime_data \<Rightarrow> captured_inference option runtime_result" where
  "capture_manual_custom_inference g e root h workspace s d m = capture_custom_inference_with_disabled g e root h workspace s True d m"

text \<open>The rollup guard: the token that was issued must name this evaluation.\<close>

record rollup_token =
  rk_workspace_instance :: u64
  rk_generation :: u64
  rk_provider :: string
  rk_model :: string
  rk_prompt_version :: string
  rk_family_hash :: string

definition with_current_rollup_evaluation ::
  "runtime_program \<Rightarrow> runtime_env \<Rightarrow> string \<Rightarrow> harness_view option \<Rightarrow> string \<Rightarrow> evaluation_snapshot \<Rightarrow> rollup_token \<Rightarrow>
     (runtime_disk \<Rightarrow> runtime_data \<Rightarrow> 'a \<times> runtime_disk \<times> runtime_data) \<Rightarrow>
     runtime_disk \<Rightarrow> runtime_data \<Rightarrow> 'a option runtime_result" where
  "with_current_rollup_evaluation g e root h workspace s token act d m =
     (case ts_selection (es_settings s) of
        None \<Rightarrow> (Inr None, d, m)
      | Some sel \<Rightarrow>
          if es_generation s \<noteq> rk_generation token \<or> sl_provider sel \<noteq> rk_provider token \<or> sl_model sel \<noteq> rk_model token
          then (Inr None, d, m)
          else with_current_evaluation g e root h workspace s act d m)"

end
