(* ===== verification/Taskmaster_Runs.thy ===== *)
theory Taskmaster_Runs
  imports Taskmaster_Inference
begin

text \<open>
  The runtime as the program uses it: any number of views over the same files, and any interleaving
  of their operations, each with its own clock and its own failures. A call on a view is one step;
  the locks make it one. What the calls do to the ledger is summed up once, as a relation between the
  ledger a call reads and the one it writes, and the properties of runs, budgets and generations are
  properties of that relation.
\<close>

section \<open>The world and its calls\<close>

record runtime_world =
  wd_program :: runtime_program
  wd_root :: string
  wd_size :: "trust_document \<Rightarrow> nat"
  wd_disk :: runtime_disk
  wd_views :: "nat \<Rightarrow> runtime_data"

datatype runtime_call =
    CallOpen
  | CallQueue string run_trigger string string
  | CallMark string u64 string string
  | CallFinish string u64 outcome_state "string option" "proposal_counts option"
  | CallManual string u64 manual_disposition manual_reason
  | CallClear string u64
  | CallRecover string
  | CallRunStatus "string option"
  | CallReplace taskmaster_settings "taskmaster_settings \<Rightarrow> taskmaster_settings \<Rightarrow> string option"
  | CallActivate string
  | CallAvailability
  | CallSnapshot string bool
  | CallCapture "harness_view option" string evaluation_snapshot bool
  | CallReserve "harness_view option" string string string evaluation_snapshot
  | CallReserveManual "harness_view option" string string string evaluation_snapshot admission_of
  | CallSuccess "harness_view option" string evaluation_snapshot string
  | CallCommit "harness_view option" string evaluation_snapshot
  | CallApprove adapter_identity trust_revision
  | CallRevoke string u64

datatype runtime_reply =
    NoReply
  | RunReply "runtime_error + u64"
  | BoolReply "runtime_error + bool"
  | UnitReply "runtime_error + unit"
  | StatusReply "runtime_error + run_status"
  | ReservationReply "runtime_error + reservation"
  | SnapshotReply "evaluation_snapshot option"
  | CaptureReply "runtime_error + captured_inference option"
  | CommitReply "runtime_error + unit option"

definition reply_with :: "('a \<Rightarrow> runtime_reply) \<Rightarrow> 'a \<times> runtime_disk \<times> runtime_data \<Rightarrow> runtime_reply \<times> runtime_disk \<times> runtime_data" where
  "reply_with f r = (case r of (a, d, m) \<Rightarrow> (f a, d, m))"

fun runtime_answer ::
  "runtime_program \<Rightarrow> string \<Rightarrow> (trust_document \<Rightarrow> nat) \<Rightarrow> runtime_env \<Rightarrow> runtime_call \<Rightarrow> runtime_disk \<Rightarrow> runtime_data \<Rightarrow>
     runtime_reply \<times> runtime_disk \<times> runtime_data" where
  "runtime_answer g root size_of e CallOpen d m = (NoReply, d, open_inner g e d)"
| "runtime_answer g root size_of e (CallQueue w t p x) d m = reply_with RunReply (queue_run g e w t p x d m)"
| "runtime_answer g root size_of e (CallMark w i p x) d m = reply_with BoolReply (mark_run_running g e w i p x d m)"
| "runtime_answer g root size_of e (CallFinish w i st err c) d m =
     reply_with BoolReply (finish_run_with_counts g e w i st err c d m)"
| "runtime_answer g root size_of e (CallManual w i disp reason) d m =
     reply_with BoolReply (finish_manual_request_without_outcome g e w i disp reason d m)"
| "runtime_answer g root size_of e (CallClear w i) d m = reply_with BoolReply (clear_run g e w i d m)"
| "runtime_answer g root size_of e (CallRecover w) d m = reply_with BoolReply (recover_workspace_run g e w d m)"
| "runtime_answer g root size_of e (CallRunStatus w) d m = reply_with StatusReply (run_status g e w d m)"
| "runtime_answer g root size_of e (CallReplace s rec) d m =
     reply_with UnitReply (replace_settings_with_reconcile g e s rec d m)"
| "runtime_answer g root size_of e (CallActivate bytes) d m = reply_with UnitReply (activate_knowledge g e bytes d m)"
| "runtime_answer g root size_of e CallAvailability d m =
     (case brain_knowledge_availability g e d m of (b, m1) \<Rightarrow> (BoolReply (Inr b), d, m1))"
| "runtime_answer g root size_of e (CallSnapshot w allow) d m =
     (case evaluation_snapshot_with_disabled g e w allow d m of (s, m1) \<Rightarrow> (SnapshotReply s, d, m1))"
| "runtime_answer g root size_of e (CallCapture h w s allow) d m =
     reply_with CaptureReply (capture_custom_inference_with_disabled g e root h w s allow d m)"
| "runtime_answer g root size_of e (CallReserve h w now key s) d m =
     reply_with BoolReply (reserve_snapshot g e root h w now key s d m)"
| "runtime_answer g root size_of e (CallReserveManual h w now key s refusal) d m =
     reply_with ReservationReply (reserve_manual_snapshot_with_admission g e root h w now key s refusal d m)"
| "runtime_answer g root size_of e (CallSuccess h w s key) d m =
     reply_with BoolReply (record_evaluation_success g e root h w s key d m)"
| "runtime_answer g root size_of e (CallCommit h w s) d m =
     reply_with CommitReply (with_current_evaluation g e root h w s (\<lambda>d1 m1. ((), d1, m1)) d m)"
| "runtime_answer g root size_of e (CallApprove a expected) d m =
     (case approve size_of e a expected d of (r, d1) \<Rightarrow> (UnitReply r, d1, m))"
| "runtime_answer g root size_of e (CallRevoke i n) d m =
     (case revoke size_of e i n d of (r, d1) \<Rightarrow> (UnitReply r, d1, m))"

type_synonym runtime_input = "nat \<times> runtime_env \<times> runtime_call"

definition runtime_step :: "runtime_input \<Rightarrow> runtime_world \<Rightarrow> runtime_reply \<times> runtime_world" where
  "runtime_step i w =
     (case i of (v, e, c) \<Rightarrow>
        (case runtime_answer (wd_program w) (wd_root w) (wd_size w) e c (wd_disk w) (wd_views w v) of
           (r, d, m) \<Rightarrow> (r, w\<lparr>wd_disk := d, wd_views := (wd_views w)(v := m)\<rparr>)))"

definition runtime_next :: "runtime_input \<Rightarrow> runtime_world \<Rightarrow> runtime_world" where
  "runtime_next i w = snd (runtime_step i w)"

definition no_files :: runtime_disk where
  "no_files = \<lparr>dk_settings = Absent, dk_ledger = Absent, dk_proof = Map.empty, dk_trust = Absent\<rparr>"

text \<open>A first start: no files, and views that were opened on that.\<close>

definition first_start :: "runtime_world \<Rightarrow> bool" where
  "first_start w \<longleftrightarrow> wd_disk w = no_files \<and> (\<forall>v. \<exists>e. wd_views w v = open_inner (wd_program w) e no_files)"

section \<open>What a call does to the ledger\<close>

text \<open>The ledger a call on a view works on: the stored one, or that of the view while none is found.\<close>

definition seen_ledger :: "runtime_env \<Rightarrow> runtime_disk \<Rightarrow> runtime_data \<Rightarrow> ledger option" where
  "seen_ledger e d m =
     (case seen_file (en_ledger_read e) (dk_ledger d) of Stored l \<Rightarrow> Some l | Absent \<Rightarrow> Some (rt_ledger m) | Unreadable \<Rightarrow> None)"

text \<open>A call whose query for the ledger does not fail, so that a stored ledger never looks absent.\<close>

definition ledger_found :: "runtime_input \<Rightarrow> bool" where
  "ledger_found i \<longleftrightarrow> en_ledger_read (fst (snd i)) \<noteq> StatFails"

lemma seen_file_Stored: "seen_file k f = Stored x \<Longrightarrow> f = Stored x"
  by (cases k) (auto split: json_file.splits)

lemma seen_file_Absent [simp]: "seen_file k Absent = Absent"
  by (cases k) simp_all

lemma seen_either: "seen_ledger e d m = Some b \<Longrightarrow> dk_ledger d = Stored b \<or> b = rt_ledger m"
  by (auto simp: seen_ledger_def dest: seen_file_Stored split: json_file.splits)

lemma seen_found:
  "seen_ledger e d m = Some b \<Longrightarrow> ledger_found (v, e, c) \<Longrightarrow> dk_ledger d = Stored b \<or> (dk_ledger d = Absent \<and> b = rt_ledger m)"
  by (cases "en_ledger_read e") (auto simp: seen_ledger_def ledger_found_def split: json_file.splits)

definition unmarked :: "ledger \<Rightarrow> ledger" where
  "unmarked l = l\<lparr>lg_last_error := None\<rparr>"

inductive ledger_move :: "ledger \<Rightarrow> ledger \<Rightarrow> bool" where
  kept: "ledger_move b b"
| queued: "queue_change e key t p x b = (r, l) \<Longrightarrow> ledger_move b l"
| marked: "mark_change e key i p x b = (r, l) \<Longrightarrow> ledger_move b l"
| finished: "finish_change e key i st err c b = (r, l) \<Longrightarrow> ledger_move b l"
| answered: "manual_change e key i disp reason b = (r, l) \<Longrightarrow> ledger_move b l"
| cleared: "clear_change key i b = (r, l) \<Longrightarrow> ledger_move b l"
| recovered: "recover_change e key b = (r, l) \<Longrightarrow> ledger_move b l"
| replaced: "ledger_move b (b\<lparr>lg_generation := saturating_add (lg_generation b) 1, lg_cache_keys := Map.empty\<rparr>)"
| activated: "checked_add (lg_generation b) 1 = Some n \<Longrightarrow> ledger_move b (b\<lparr>lg_generation := n, lg_cache_keys := Map.empty\<rparr>)"
| rolled: "ledger_move b (roll_day day b)"
| reserved: "ledger_move b (roll_day day b\<lparr>lg_reservations := n, lg_last_evaluated := f\<rparr>)"
| accepted: "ledger_move b (b\<lparr>lg_cache_keys := f\<rparr>)"

text \<open>
  A call leaves the stored ledger alone, or stores a move of the ledger it saw. The view ends with
  the ledger it had, with the one it saw, or with a move of that one; a stored move is the one the
  view ends with.
\<close>

definition ledger_effect :: "runtime_env \<Rightarrow> runtime_disk \<Rightarrow> runtime_data \<Rightarrow> runtime_disk \<Rightarrow> runtime_data \<Rightarrow> bool" where
  "ledger_effect e d m d1 m1 \<longleftrightarrow>
     (dk_ledger d1 = dk_ledger d \<and>
        (rt_ledger m1 = rt_ledger m \<or> (\<exists>b. seen_ledger e d m = Some b \<and> ledger_move b (rt_ledger m1)))) \<or>
     (\<exists>b. seen_ledger e d m = Some b \<and> ledger_move b (rt_ledger m1) \<and> dk_ledger d1 = Stored (unmarked (rt_ledger m1)))"

lemma reload_ledger:
  "rt_readable (reload_durable g e d m) \<longleftrightarrow> seen_ledger e d m \<noteq> None"
  "seen_ledger e d m = Some b \<Longrightarrow> rt_ledger (reload_durable g e d m) = b"
  "seen_ledger e d m = None \<Longrightarrow> rt_ledger (reload_durable g e d m) = rt_ledger m"
  "rt_key (reload_durable g e d m) = rt_key m"
  by (auto simp: reload_durable_def reload_knowledge_def seen_ledger_def read_ledger_def read_json_def Let_def split: json_file.splits)

lemma reload_seen [simp]: "seen_ledger e d (reload_durable g e d m) = seen_ledger e d m"
  by (auto simp: reload_durable_def reload_knowledge_def seen_ledger_def read_ledger_def read_json_def Let_def split: json_file.splits)

lemma effect_same: "ledger_effect e d m d m"
  by (simp add: ledger_effect_def)

lemma effect_reload: "ledger_effect e d m d (reload_durable g e d m)"
  by (cases "seen_ledger e d m") (auto simp: ledger_effect_def reload_ledger intro: ledger_move.kept)

lemma effect_view:
  "seen_ledger e d m = Some b \<Longrightarrow> ledger_move b (rt_ledger m1) \<Longrightarrow> dk_ledger d1 = dk_ledger d \<Longrightarrow> ledger_effect e d m d1 m1"
  by (simp add: ledger_effect_def)

lemma effect_stored:
  "seen_ledger e d m = Some b \<Longrightarrow> ledger_move b (rt_ledger m1) \<Longrightarrow> dk_ledger d1 = Stored (unmarked (rt_ledger m1)) \<Longrightarrow>
     ledger_effect e d m d1 m1"
  by (auto simp: ledger_effect_def)

lemma write_ledger_cases:
  obtains x where "write_ledger e l d = Inl x" | "write_ledger e l d = Inr (d\<lparr>dk_ledger := Stored (unmarked l)\<rparr>)"
  by (cases "en_ledger_write e") (auto simp: write_ledger_def unmarked_def)

lemma mutate_effect:
  assumes "mutate_ledger g e f d m = (r, d1, m1)" "\<And>b x l. f b = (x, l) \<Longrightarrow> ledger_move b l"
  shows "ledger_effect e d m d1 m1"
proof (cases "en_lock e")
  case (Some x)
  with assms(1) show ?thesis by (simp add: mutate_ledger_def effect_same)
next
  case None
  show ?thesis
  proof (cases "seen_ledger e d m")
    case None
    with assms(1) \<open>en_lock e = None\<close> have "d1 = d" "m1 = reload_durable g e d m"
      by (auto simp: mutate_ledger_def reload_ledger(1) Let_def)
    then show ?thesis using effect_reload by simp
  next
    case (Some b)
    obtain x l where f: "f b = (x, l)" by (cases "f b")
    have m1: "m1 = (reload_durable g e d m)\<lparr>rt_ledger := l\<rparr>" and d1: "d1 = d \<or> d1 = d\<lparr>dk_ledger := Stored (unmarked l)\<rparr>"
      using assms(1) \<open>en_lock e = None\<close> Some f
      by (auto simp: mutate_ledger_def reload_ledger Let_def write_ledger_def unmarked_def split: sum.splits option.splits)
    from d1 show ?thesis
      using effect_view [OF Some, of m1 d1] effect_stored [OF Some, of m1 d1] assms(2) [OF f] m1 by auto
  qed
qed

lemma workspace_effect:
  assumes "with_workspace e w (\<lambda>key. mutate_ledger g e (f key) d m) d m = (r, d1, m1)"
    and "\<And>key b x l. f key b = (x, l) \<Longrightarrow> ledger_move b l"
  shows "ledger_effect e d m d1 m1"
  using assms mutate_effect [of g e _ d m r d1 m1] by (auto simp: with_workspace_def effect_same split: option.splits)

lemma replace_effect:
  assumes "replace_settings_with_reconcile g e s rec d m = (r, d1, m1)"
  shows "ledger_effect e d m d1 m1"
proof (cases "d1 = d \<and> (m1 = m \<or> m1 = reload_durable g e d m)")
  case True
  then show ?thesis using effect_same effect_reload by auto
next
  case False
  define b where "b = rt_ledger (reload_durable g e d m)"
  define l where "l = b\<lparr>lg_generation := saturating_add (lg_generation b) 1, lg_cache_keys := Map.empty\<rparr>"
  have seen: "seen_ledger e d m = Some b" and m1: "rt_ledger m1 = l"
    and d1: "dk_ledger d1 = dk_ledger d \<or> dk_ledger d1 = Stored (unmarked l)"
    using assms False
    by (auto simp: replace_settings_with_reconcile_def b_def l_def Let_def reload_ledger write_ledger_def write_settings_def
        unmarked_def split: option.splits sum.splits if_splits)
  show ?thesis
    using d1 effect_view [OF seen] effect_stored [OF seen] ledger_move.replaced [of b] m1 l_def by auto
qed

lemma activate_cases:
  assumes "activate_knowledge g e bytes d m = (r, d1, m1)"
  obtains "d1 = d" "m1 = m \<or> m1 = reload_durable g e d m"
  | v n where "verify_activation (pr_crates g) (pr_pem g) bytes = Inr v" "rt_readable (reload_durable g e d m)"
      "map_option vk_identity (rt_verified (reload_durable g e d m)) \<noteq> Some (vk_identity v)"
      "knowledge_conflict (rt_verified (reload_durable g e d m)) (vk_identity v) = None"
      "checked_add (lg_generation (rt_ledger (reload_durable g e d m))) 1 = Some n"
      "install_proof g e v n d (reload_durable g e d m) = (r, d1, m1)"
proof (cases "en_lock e")
  case (Some x)
  then show ?thesis using that(1) assms by (simp add: activate_knowledge_def)
next
  case None
  show ?thesis
  proof (cases "verify_activation (pr_crates g) (pr_pem g) bytes")
    case (Inl x)
    then show ?thesis using that(1) assms None by (simp add: activate_knowledge_def)
  next
    case (Inr v)
    let ?m = "reload_durable g e d m"
    show ?thesis
    proof (cases "rt_readable ?m \<and> map_option vk_identity (rt_verified ?m) \<noteq> Some (vk_identity v) \<and>
        knowledge_conflict (rt_verified ?m) (vk_identity v) = None \<and> checked_add (lg_generation (rt_ledger ?m)) 1 \<noteq> None")
      case True
      then show ?thesis using that(2) [OF Inr] assms None Inr by (auto simp: activate_knowledge_def Let_def simp del: map_option_eq_Some)
    next
      case False
      then show ?thesis using that(1) assms None Inr by (auto simp: activate_knowledge_def Let_def split: if_splits option.splits)
    qed
  qed
qed

lemma install_effect:
  assumes "install_proof g e v n d m = (r, d1, m1)"
  shows "rt_ledger m1 = (rt_ledger m)\<lparr>lg_generation := n, lg_cache_keys := Map.empty\<rparr>"
    "dk_ledger d1 = dk_ledger d \<and> d1 = d \<or> dk_ledger d1 = Stored (unmarked (rt_ledger m1))"
  using assms
  by (cases rule: write_ledger_cases [of e "(rt_ledger m)\<lparr>lg_generation := n, lg_cache_keys := Map.empty\<rparr>" d];
      auto simp: install_proof_def Let_def write_proof_def reload_knowledge_def split: option.splits if_splits)+

lemma activate_effect:
  assumes "activate_knowledge g e bytes d m = (r, d1, m1)"
  shows "ledger_effect e d m d1 m1"
  using assms
proof (cases rule: activate_cases)
  case 1
  then show ?thesis using effect_same effect_reload by auto
next
  case (2 v n)
  then obtain b where seen: "seen_ledger e d m = Some b" using reload_ledger(1) by blast
  note e = install_effect [OF 2(6)]
  have "ledger_move b (rt_ledger m1)"
    using e(1) 2(5) reload_ledger(2) [OF seen] ledger_move.activated by simp
  with e(2) show ?thesis using effect_view [OF seen] effect_stored [OF seen] by auto
qed

lemma reserve_effect:
  assumes "reserve_loaded e w now key gen bypass allow manual d m = (r, d1, m1)" "seen_ledger e d m = Some (rt_ledger m)"
  shows "ledger_effect e d m d1 m1"
proof (cases "d1 = d \<and> (m1 = m \<or> m1 = m\<lparr>rt_ledger := roll_day (day_of e now) (rt_ledger m)\<rparr>)")
  case True
  then show ?thesis
    using effect_same effect_view [OF assms(2), of m1 d1] ledger_move.rolled by auto
next
  case False
  obtain n f where m1: "rt_ledger m1 = roll_day (day_of e now) (rt_ledger m)\<lparr>lg_reservations := n, lg_last_evaluated := f\<rparr>"
    and d1: "dk_ledger d1 = dk_ledger d \<or> dk_ledger d1 = Stored (unmarked (rt_ledger m1))"
  proof -
    define l where "l = roll_day (day_of e now) (rt_ledger m)"
    obtain k l2 where k: "en_canonical e w = Some k"
      and l2: "l2 = (if manual then l else l\<lparr>lg_reservations := saturating_add (lg_reservations l) 1\<rparr>)
                \<lparr>lg_last_evaluated := (lg_last_evaluated (if manual then l else l\<lparr>lg_reservations := saturating_add (lg_reservations l) 1\<rparr>))(k \<mapsto> now)\<rparr>"
      and w: "(case write_ledger e l2 d of Inl x \<Rightarrow> (Inl x, d, m\<lparr>rt_ledger := l2\<rparr>) | Inr d1 \<Rightarrow> (Inr Reserved, d1, m\<lparr>rt_ledger := l2\<rparr>)) = (r, d1, m1)"
      using assms(1) False unfolding reserve_loaded_def Let_def l_def [symmetric]
      by (auto split: option.splits if_split_asm)
    have "rt_ledger m1 = l2" "dk_ledger d1 = dk_ledger d \<or> dk_ledger d1 = Stored (unmarked l2)"
      using w by (auto simp: write_ledger_def unmarked_def split: option.splits)
    moreover have "l2 = l\<lparr>lg_reservations := lg_reservations l2, lg_last_evaluated := lg_last_evaluated l2\<rparr>"
      using l2 by simp
    ultimately show thesis using that l_def by metis
  qed
  show ?thesis
    using d1 effect_view [OF assms(2)] effect_stored [OF assms(2)] ledger_move.reserved m1 by auto
qed

lemma guard_effect:
  assumes "with_current_evaluation g e root h w s act d m = (r, d1, m1)"
    and "\<And>d m a d1 m1. act d m = (a, d1, m1) \<Longrightarrow> seen_ledger e d m = Some (rt_ledger m) \<Longrightarrow> ledger_effect e d m d1 m1"
  shows "ledger_effect e d m d1 m1"
proof -
  have after: "ledger_effect e d m d2 m2"
    if acts: "act d (reload_durable g e d m) = (a, d2, m2)" and readable: "rt_readable (reload_durable g e d m)" for a d2 m2
  proof -
    obtain b where b: "seen_ledger e d m = Some b" using readable reload_ledger(1) by blast
    have "ledger_effect e d (reload_durable g e d m) d2 m2"
      using assms(2) [OF acts] b reload_ledger(2) [OF b] by simp
    then show ?thesis using b reload_ledger(2) [OF b] ledger_move.kept by (auto simp: ledger_effect_def)
  qed
  show ?thesis
    using assms(1) after effect_same effect_reload [of e d m g]
    by (auto simp: with_current_evaluation_def with_current_native_data_def with_current_custom_data_def still_current_def
        Let_def split: option.splits if_split_asm prod.splits sum.splits)
qed

lemma reserve_snapshot_effect:
  assumes "reserve_snapshot_with_interval g e root h w now key s manual refusal d m = (r, d1, m1)"
  shows "ledger_effect e d m d1 m1"
proof -
  define act where "act = (\<lambda>d1 m1. case refusal of
      Some r \<Rightarrow> (r, d1, m1)
    | None \<Rightarrow> reserve_loaded e w now (Some key) (Some (es_generation s)) manual manual manual d1 m1)"
  obtain x where x: "with_current_evaluation g e root h w s act d m = (x, d1, m1)"
    using assms
    by (cases "with_current_evaluation g e root h w s act d m")
      (auto simp: reserve_snapshot_with_interval_def act_def [symmetric] Let_def split: sum.splits option.splits)
  have "ledger_effect e d2 m2 d3 m3" if "act d2 m2 = (a, d3, m3)" "seen_ledger e d2 m2 = Some (rt_ledger m2)" for a d2 m2 d3 m3
    using that reserve_effect effect_same by (cases refusal) (auto simp: act_def)
  with guard_effect [OF x] show ?thesis by blast
qed

lemma success_effect:
  assumes "record_evaluation_success g e root h w s key d m = (r, d1, m1)"
  shows "ledger_effect e d m d1 m1"
proof (cases "en_canonical e w")
  case None
  with assms show ?thesis by (simp add: record_evaluation_success_def effect_same)
next
  case (Some k)
  define act where "act = (\<lambda>d1 (m1 :: runtime_data).
    let l = (rt_ledger m1)\<lparr>lg_cache_keys := (lg_cache_keys (rt_ledger m1))(k \<mapsto> key)\<rparr> in
    case write_ledger e l d1 of
      Inl x \<Rightarrow> (Inl x, d1, m1\<lparr>rt_ledger := l\<rparr>)
    | Inr d2 \<Rightarrow> (Inr True, d2, m1\<lparr>rt_ledger := l\<rparr>))"
  obtain x where x: "with_current_evaluation g e root h w s act d m = (x, d1, m1)"
    using assms Some
    by (cases "with_current_evaluation g e root h w s act d m")
      (auto simp: record_evaluation_success_def act_def [symmetric] split: sum.splits option.splits)
  have "ledger_effect e d2 m2 d3 m3" if "act d2 m2 = (a, d3, m3)" "seen_ledger e d2 m2 = Some (rt_ledger m2)" for a d2 m2 d3 m3
    using that effect_view [OF that(2), of m3 d3] effect_stored [OF that(2), of m3 d3] ledger_move.accepted [of "rt_ledger m2"]
    by (auto simp: act_def Let_def write_ledger_def unmarked_def split: option.splits)
  with guard_effect [OF x] show ?thesis by blast
qed

lemma trust_keeps_ledger:
  "dk_ledger (snd (approve size_of e a expected d)) = dk_ledger d" "dk_ledger (snd (revoke size_of e i n d)) = dk_ledger d"
  by (auto simp: approve_def revoke_def persist_next_def Let_def split: option.splits sum.splits)

lemma capture_effect:
  "capture_custom_inference_with_disabled g e root h w s allow d m = (r, d1, m1) \<Longrightarrow> ledger_effect e d m d1 m1"
  using effect_same [of e d m] effect_reload [of e d m g]
  by (auto simp: capture_custom_inference_with_disabled_def Let_def split: option.splits sum.splits if_split_asm)

lemma run_status_effect: "run_status g e w d m = (r, d1, m1) \<Longrightarrow> ledger_effect e d m d1 m1"
  using effect_same [of e d m] effect_reload [of e d m g]
  by (auto simp: run_status_def with_workspace_def Let_def split: option.splits if_split_asm)

lemma reply_with_eq: "reply_with f x = (r, d, m) \<longleftrightarrow> (\<exists>a. x = (a, d, m) \<and> r = f a)"
  by (cases x) (auto simp: reply_with_def)

lemma run_effects:
  "queue_run g e w t p x d m = (r1, d1, m1) \<Longrightarrow> ledger_effect e d m d1 m1"
  "mark_run_running g e w i p x d m = (r2, d1, m1) \<Longrightarrow> ledger_effect e d m d1 m1"
  "finish_run_with_counts g e w i st err c d m = (r2, d1, m1) \<Longrightarrow> ledger_effect e d m d1 m1"
  "finish_manual_request_without_outcome g e w i disp reason d m = (r2, d1, m1) \<Longrightarrow> ledger_effect e d m d1 m1"
  "clear_run g e w i d m = (r2, d1, m1) \<Longrightarrow> ledger_effect e d m d1 m1"
  "recover_workspace_run g e w d m = (r2, d1, m1) \<Longrightarrow> ledger_effect e d m d1 m1"
  unfolding queue_run_def mark_run_running_def finish_run_with_counts_def finish_manual_request_without_outcome_def
    clear_run_def recover_workspace_run_def
  by (erule workspace_effect, erule ledger_move.queued ledger_move.marked ledger_move.finished ledger_move.answered
      ledger_move.cleared ledger_move.recovered)+

lemma answer_effect:
  assumes "runtime_answer g root size_of e c d m = (r, d1, m1)" "c \<noteq> CallOpen"
  shows "ledger_effect e d m d1 m1"
proof (cases c)
  case CallAvailability
  then show ?thesis using assms(1) effect_same [of e d m] effect_reload [of e d m g]
    by (auto simp: brain_knowledge_availability_def Let_def split: option.splits)
next
  case (CallSnapshot w allow)
  then show ?thesis using assms(1) effect_same [of e d m] effect_reload [of e d m g]
    by (auto simp: evaluation_snapshot_with_disabled_def Let_def split: option.splits)
next
  case (CallApprove a expected)
  then show ?thesis using assms(1) trust_keeps_ledger(1) [of size_of e a expected d]
    by (auto simp: ledger_effect_def split: prod.splits)
next
  case (CallRevoke i n)
  then show ?thesis using assms(1) trust_keeps_ledger(2) [of size_of e i n d]
    by (auto simp: ledger_effect_def split: prod.splits)
next
  case (CallReserve h w now key s)
  then show ?thesis using assms(1) reserve_snapshot_effect
    by (auto simp: reply_with_eq reserve_snapshot_def split: prod.splits)
next
  case (CallCommit h w s)
  then obtain x where x: "with_current_evaluation g e root h w s (\<lambda>d1 m1. ((), d1, m1)) d m = (x, d1, m1)"
    using assms(1) by (auto simp: reply_with_eq)
  show ?thesis by (rule guard_effect [OF x]) (simp add: effect_same)
qed (use assms in \<open>auto simp: reply_with_eq reserve_manual_snapshot_with_admission_def
       dest: run_effects replace_effect activate_effect reserve_snapshot_effect success_effect capture_effect run_status_effect\<close>)

section \<open>Runs\<close>

abbreviation last_id :: u64 where "last_id \<equiv> - 1"

lemma saturating_Suc: "n < saturating_add n 1 \<or> saturating_add n 1 = (last_id :: u64)"
proof (cases "unat n + 1 < 2 ^ 64")
  case True
  then have "checked_add n 1 = Some (n + 1)" by (simp add: checked_add_def)
  from checked_add_one_less [OF this] True show ?thesis by (simp add: saturating_add_def)
qed (simp add: saturating_add_def)

definition runs_step :: "ledger \<Rightarrow> ledger \<Rightarrow> bool" where
  "runs_step b l \<longleftrightarrow>
     (lg_next_run_id l = lg_next_run_id b \<and>
        (\<forall>k a. active_of l k = Some a \<longrightarrow> (\<exists>a0. active_of b k = Some a0 \<and> ra_id a0 = ra_id a))) \<or>
     (\<exists>k a. lg_next_run_id l = saturating_add (lg_next_run_id b) 1 \<and> active_of b k = None \<and>
        active_of l k = Some a \<and> ra_id a = lg_next_run_id l \<and> (\<forall>k1. k1 \<noteq> k \<longrightarrow> active_of l k1 = active_of b k1))"

lemma runs_step_same: "lg_runs l = lg_runs b \<Longrightarrow> lg_next_run_id l = lg_next_run_id b \<Longrightarrow> runs_step b l"
  unfolding runs_step_def by (rule disjI1) (simp add: active_of_def)

lemma runs_step_queue:
  assumes "queue_change e key t p x b = (r, l)"
  shows "runs_step b l"
proof (cases "active_of b key")
  case (Some a)
  with assms show ?thesis by (auto simp: queue_change_def intro: runs_step_same)
next
  case None
  have n: "lg_next_run_id l = saturating_add (lg_next_run_id b) 1"
    and a: "\<exists>a. active_of l key = Some a \<and> ra_id a = lg_next_run_id l"
    and same: "\<forall>k1. k1 \<noteq> key \<longrightarrow> active_of l k1 = active_of b k1"
    using assms None by (auto simp: queue_change_def Let_def active_of_def)
  from n a same None show ?thesis unfolding runs_step_def by blast
qed

lemma runs_step_at:
  assumes "lg_next_run_id l = lg_next_run_id b" "\<And>k. k \<noteq> key \<Longrightarrow> lg_runs l k = lg_runs b k"
    and "\<And>a. active_of l key = Some a \<Longrightarrow> \<exists>a0. active_of b key = Some a0 \<and> ra_id a0 = ra_id a"
  shows "runs_step b l"
proof -
  have "\<exists>a0. active_of b k = Some a0 \<and> ra_id a0 = ra_id a" if "active_of l k = Some a" for k a
    using that assms(2) [of k] assms(3) [of a] by (cases "k = key") (auto simp: active_of_def)
  with assms(1) show ?thesis by (simp add: runs_step_def)
qed

lemma runs_step_mark: "mark_change e key i p x b = (r, l) \<Longrightarrow> runs_step b l"
  by (rule runs_step_at [where key = key])
    (auto simp: mark_change_def active_of_def opt_filter_Some_iff split: option.splits if_split_asm)

lemma runs_step_finish: "finish_change e key i st err c b = (r, l) \<Longrightarrow> runs_step b l"
  by (rule runs_step_at [where key = key])
    (auto simp: finish_change_def active_of_def split: option.splits if_split_asm)

lemma runs_step_manual: "manual_change e key i disp reason b = (r, l) \<Longrightarrow> runs_step b l"
  by (rule runs_step_at [where key = key])
    (auto simp: manual_change_def active_of_def opt_filter_Some_iff split: option.splits if_split_asm)

lemma runs_step_clear: "clear_change key i b = (r, l) \<Longrightarrow> runs_step b l"
  by (rule runs_step_at [where key = key])
    (auto simp: clear_change_def drop_if_bare_def active_of_def split: option.splits if_split_asm)

lemma runs_step_recover: "recover_change e key b = (r, l) \<Longrightarrow> runs_step b l"
  by (rule runs_step_at [where key = key])
    (auto simp: recover_change_def drop_if_bare_def active_of_def Let_def split: option.splits if_split_asm)

lemmas runs_step_others = runs_step_mark runs_step_finish runs_step_manual runs_step_clear runs_step_recover

lemma move_runs: "ledger_move b l \<Longrightarrow> runs_step b l"
  by (induction rule: ledger_move.induct)
    (auto simp: roll_day_def intro: runs_step_same runs_step_queue runs_step_others)

text \<open>Ids of active runs were issued, and below the last one no two workspaces share one.\<close>

definition runs_ok :: "ledger \<Rightarrow> bool" where
  "runs_ok l \<longleftrightarrow>
     (\<forall>k a. active_of l k = Some a \<longrightarrow> ra_id a \<le> lg_next_run_id l) \<and>
     (\<forall>k k1 a a1. active_of l k = Some a \<and> active_of l k1 = Some a1 \<and> ra_id a = ra_id a1 \<and> ra_id a \<noteq> last_id \<longrightarrow> k = k1)"

lemma runs_ok_step:
  assumes "runs_ok b" "runs_step b l"
  shows "runs_ok l"
  using assms(2) unfolding runs_step_def
proof (elim disjE conjE exE)
  assume n: "lg_next_run_id l = lg_next_run_id b"
    and old: "\<forall>k a. active_of l k = Some a \<longrightarrow> (\<exists>a0. active_of b k = Some a0 \<and> ra_id a0 = ra_id a)"
  show ?thesis unfolding runs_ok_def
  proof (intro conjI allI impI)
    show "ra_id a \<le> lg_next_run_id l" if "active_of l k = Some a" for k a
      using old that assms(1) n by (fastforce simp: runs_ok_def)
    show "k = k1" if two: "active_of l k = Some a \<and> active_of l k1 = Some a1 \<and> ra_id a = ra_id a1 \<and> ra_id a \<noteq> last_id" for k k1 a a1
    proof -
      obtain b0 b1 where "active_of b k = Some b0" "ra_id b0 = ra_id a" "active_of b k1 = Some b1" "ra_id b1 = ra_id a1"
        using old two by blast
      with two assms(1) show ?thesis unfolding runs_ok_def by metis
    qed
  qed
next
  fix k a
  assume n: "lg_next_run_id l = saturating_add (lg_next_run_id b) 1" and "active_of b k = None"
    and a: "active_of l k = Some a" "ra_id a = lg_next_run_id l"
    and same: "\<forall>k1. k1 \<noteq> k \<longrightarrow> active_of l k1 = active_of b k1"
  have old: "ra_id a1 \<le> lg_next_run_id b \<and> (lg_next_run_id l \<noteq> last_id \<longrightarrow> ra_id a1 < lg_next_run_id l) \<and> ra_id a1 \<le> lg_next_run_id l"
    if "active_of l k1 = Some a1" "k1 \<noteq> k" for k1 a1
  proof -
    have "ra_id a1 \<le> lg_next_run_id b" using that same assms(1) by (auto simp: runs_ok_def)
    then show ?thesis using saturating_Suc [of "lg_next_run_id b"] n saturating_add_mono [of "lg_next_run_id b" 1] by auto
  qed
  show ?thesis unfolding runs_ok_def
  proof (intro conjI allI impI)
    show "ra_id a1 \<le> lg_next_run_id l" if "active_of l k1 = Some a1" for k1 a1
      using old [OF that] a that by (cases "k1 = k") auto
    show "k1 = k2" if "active_of l k1 = Some a1 \<and> active_of l k2 = Some a2 \<and> ra_id a1 = ra_id a2 \<and> ra_id a1 \<noteq> last_id" for k1 k2 a1 a2
    proof (cases "k1 = k \<or> k2 = k")
      case True
      then show ?thesis using that old [of k1 a1] old [of k2 a2] a by (cases "k1 = k"; cases "k2 = k") auto
    next
      case False
      then show ?thesis using that same assms(1) by (auto simp: runs_ok_def)
    qed
  qed
qed

text \<open>An id that was issued and is no longer active.\<close>

definition retired :: "u64 \<Rightarrow> ledger \<Rightarrow> bool" where
  "retired i l \<longleftrightarrow> i \<le> lg_next_run_id l \<and> (\<forall>k a. active_of l k = Some a \<longrightarrow> ra_id a \<noteq> i)"

lemma retired_step:
  assumes "retired i b" "runs_step b l" "i \<noteq> last_id"
  shows "retired i l"
  using assms(2) unfolding runs_step_def
proof (elim disjE conjE exE)
  assume "lg_next_run_id l = lg_next_run_id b"
    "\<forall>k a. active_of l k = Some a \<longrightarrow> (\<exists>a0. active_of b k = Some a0 \<and> ra_id a0 = ra_id a)"
  with assms(1) show ?thesis unfolding retired_def by metis
next
  fix k a
  assume n: "lg_next_run_id l = saturating_add (lg_next_run_id b) 1"
    and a: "active_of l k = Some a" "ra_id a = lg_next_run_id l"
    and same: "\<forall>k1. k1 \<noteq> k \<longrightarrow> active_of l k1 = active_of b k1"
  have "i < lg_next_run_id l \<or> lg_next_run_id l = last_id" "i \<le> lg_next_run_id l"
    using assms(1) n saturating_Suc [of "lg_next_run_id b"] saturating_add_mono [of "lg_next_run_id b" 1]
    by (auto simp: retired_def)
  then have "ra_id a1 \<noteq> i" if "active_of l k1 = Some a1" for k1 a1
    using that same a assms(1,3) by (cases "k1 = k") (auto simp: retired_def)
  with \<open>i \<le> lg_next_run_id l\<close> show ?thesis by (auto simp: retired_def)
qed

section \<open>From moves to runs of the world\<close>

text \<open>A law of single ledgers that moves keep holds of every ledger in the world.\<close>

definition all_ledgers :: "(ledger \<Rightarrow> bool) \<Rightarrow> runtime_world \<Rightarrow> bool" where
  "all_ledgers P w \<longleftrightarrow> (\<forall>v. P (rt_ledger (wd_views w v))) \<and> (\<forall>l. dk_ledger (wd_disk w) = Stored l \<longrightarrow> P l)"

lemma next_cases:
  obtains d m where "runtime_answer (wd_program w) (wd_root w) (wd_size w) e c (wd_disk w) (wd_views w v) =
      (fst (runtime_step (v, e, c) w), d, m)"
    "runtime_next (v, e, c) w = w\<lparr>wd_disk := d, wd_views := (wd_views w)(v := m)\<rparr>"
  by (cases "runtime_answer (wd_program w) (wd_root w) (wd_size w) e c (wd_disk w) (wd_views w v)")
    (auto simp: runtime_next_def runtime_step_def)

lemma step_answer:
  assumes "fst (runtime_step (v, e, c) w) = r"
  obtains d m where "runtime_answer (wd_program w) (wd_root w) (wd_size w) e c (wd_disk w) (wd_views w v) = (r, d, m)"
    "wd_disk (runtime_next (v, e, c) w) = d" "wd_views (runtime_next (v, e, c) w) = (wd_views w)(v := m)"
  by (rule next_cases [of w e c v]) (use assms that in auto)

lemma open_ledger: "rt_ledger (open_inner g e d) = empty_ledger \<or> dk_ledger d = Stored (rt_ledger (open_inner g e d))"
  by (auto simp: open_inner_def reload_knowledge_def read_ledger_def read_json_def Let_def dest: seen_file_Stored
      split: json_file.splits)

locale ledger_law =
  fixes law :: "ledger \<Rightarrow> bool"
  assumes law_empty: "law empty_ledger"
    and law_move: "law b \<Longrightarrow> ledger_move b l \<Longrightarrow> law l"
    and law_unmarked: "law l \<Longrightarrow> law (unmarked l)"
begin

lemma law_effect:
  assumes "ledger_effect e d m d1 m1" "law (rt_ledger m)" "\<And>l. dk_ledger d = Stored l \<Longrightarrow> law l"
  shows "law (rt_ledger m1) \<and> (\<forall>l. dk_ledger d1 = Stored l \<longrightarrow> law l)"
proof -
  have seen: "law b" if "seen_ledger e d m = Some b" for b
    using seen_either [OF that] assms(2,3) by auto
  show ?thesis
    using assms seen law_move law_unmarked unfolding ledger_effect_def by (elim disjE conjE exE) auto
qed

lemma law_next:
  assumes "all_ledgers law w"
  shows "all_ledgers law (runtime_next i w)"
proof (cases i)
  case (fields v e c)
  obtain d m where a: "runtime_answer (wd_program w) (wd_root w) (wd_size w) e c (wd_disk w) (wd_views w v) =
      (fst (runtime_step (v, e, c) w), d, m)"
    and n: "runtime_next (v, e, c) w = w\<lparr>wd_disk := d, wd_views := (wd_views w)(v := m)\<rparr>"
    by (rule next_cases)
  have "law (rt_ledger m) \<and> (\<forall>l. dk_ledger d = Stored l \<longrightarrow> law l)"
  proof (cases "c = CallOpen")
    case True
    then have "d = wd_disk w" "m = open_inner (wd_program w) e (wd_disk w)" using a by auto
    with open_ledger [of "wd_program w" e "wd_disk w"] assms law_empty show ?thesis by (auto simp: all_ledgers_def)
  next
    case False
    from law_effect [OF answer_effect [OF a False]] assms show ?thesis by (auto simp: all_ledgers_def)
  qed
  with assms n fields show ?thesis by (auto simp: all_ledgers_def)
qed

lemma law_first:
  assumes "first_start w"
  shows "all_ledgers law w"
proof -
  have "rt_ledger (wd_views w v) = empty_ledger" for v
  proof -
    obtain e where "wd_views w v = open_inner (wd_program w) e no_files" using assms unfolding first_start_def by blast
    then show ?thesis using open_ledger [of "wd_program w" e no_files] by (auto simp: no_files_def)
  qed
  with assms law_empty show ?thesis by (simp add: all_ledgers_def first_start_def no_files_def)
qed

end

sublocale ledger_law \<subseteq> machine first_start runtime_next "all_ledgers law"
  by unfold_locales (auto intro: law_first law_next)

text \<open>
  A reflexive and transitive relation that every move stays in relates the stored ledger to every
  later one.
\<close>

locale ledger_order =
  fixes before :: "ledger \<Rightarrow> ledger \<Rightarrow> bool"
  assumes before_refl: "before l l"
    and before_trans: "before a b \<Longrightarrow> before b c \<Longrightarrow> before a c"
    and before_move: "ledger_move b l \<Longrightarrow> before b (unmarked l)"
begin

lemma stored_next:
  assumes "dk_ledger (wd_disk w) = Stored l" "ledger_found i"
  shows "\<exists>l1. dk_ledger (wd_disk (runtime_next i w)) = Stored l1 \<and> before l l1"
proof (cases i)
  case (fields v e c)
  obtain d m where a: "runtime_answer (wd_program w) (wd_root w) (wd_size w) e c (wd_disk w) (wd_views w v) =
      (fst (runtime_step (v, e, c) w), d, m)"
    and n: "runtime_next (v, e, c) w = w\<lparr>wd_disk := d, wd_views := (wd_views w)(v := m)\<rparr>"
    by (rule next_cases)
  show ?thesis
  proof (cases "c = CallOpen")
    case True
    with a n fields assms before_refl show ?thesis by auto
  next
    case False
    have "b = l" if "seen_ledger e (wd_disk w) (wd_views w v) = Some b" for b
      using seen_found [OF that] assms fields by auto
    with answer_effect [OF a False] assms(1) before_refl before_move n fields show ?thesis
      by (auto simp: ledger_effect_def)
  qed
qed

lemma stored_run:
  "dk_ledger (wd_disk w) = Stored l \<Longrightarrow> list_all ledger_found is \<Longrightarrow>
     \<exists>l1. dk_ledger (wd_disk (fold runtime_next is w)) = Stored l1 \<and> before l l1"
proof (induction "is" arbitrary: w l)
  case Nil
  then show ?case using before_refl by auto
next
  case (Cons i "is")
  then have found: "ledger_found i" "list_all ledger_found is" by simp_all
  obtain l1 where "dk_ledger (wd_disk (runtime_next i w)) = Stored l1" "before l l1"
    using stored_next [OF Cons.prems(1) found(1)] by blast
  with Cons.IH [OF _ found(2)] before_trans show ?case by fastforce
qed

end

section \<open>A run is closed once\<close>

lemma active_of_unmarked [simp]: "active_of (unmarked l) = active_of l"
  by (simp add: active_of_def unmarked_def fun_eq_iff)

lemma unmarked_sel [simp]:
  "lg_next_run_id (unmarked l) = lg_next_run_id l" "lg_generation (unmarked l) = lg_generation l"
  "lg_day (unmarked l) = lg_day l" "lg_reservations (unmarked l) = lg_reservations l"
  by (simp_all add: unmarked_def)

interpretation lr: ledger_law runs_ok
proof unfold_locales
  show "runs_ok empty_ledger" by (simp add: runs_ok_def active_of_def empty_ledger_def)
  show "runs_ok b \<Longrightarrow> ledger_move b l \<Longrightarrow> runs_ok l" for b l using runs_ok_step move_runs by blast
  show "runs_ok l \<Longrightarrow> runs_ok (unmarked l)" for l by (simp add: runs_ok_def)
qed

definition keeps_retired :: "ledger \<Rightarrow> ledger \<Rightarrow> bool" where
  "keeps_retired b l \<longleftrightarrow> (\<forall>i. i \<noteq> last_id \<and> retired i b \<longrightarrow> retired i l)"

interpretation rt: ledger_order keeps_retired
proof unfold_locales
  show "keeps_retired b (unmarked l)" if "ledger_move b l" for b l
    unfolding keeps_retired_def
  proof (intro allI impI)
    fix i
    assume "i \<noteq> last_id \<and> retired i b"
    with retired_step [OF _ move_runs [OF that]] have "retired i l" by blast
    then show "retired i (unmarked l)" by (simp add: retired_def)
  qed
qed (auto simp: keeps_retired_def)

text \<open>The calls that name a run, and those of them that close it.\<close>

fun names_run :: "runtime_call \<Rightarrow> u64 option" where
  "names_run (CallMark w i p x) = Some i"
| "names_run (CallFinish w i st err c) = Some i"
| "names_run (CallManual w i disp reason) = Some i"
| "names_run (CallClear w i) = Some i"
| "names_run _ = None"

definition closes_run :: "runtime_call \<Rightarrow> u64 \<Rightarrow> bool" where
  "closes_run c i \<longleftrightarrow> names_run c = Some i \<and> (\<forall>w p x. c \<noteq> CallMark w i p x)"

lemma mutate_success:
  assumes "mutate_ledger g e f d m = (Inr a, d1, m1)"
  obtains b l where "seen_ledger e d m = Some b" "f b = (Inr a, l)" "dk_ledger d1 = Stored (unmarked l)"
  using assms
  by (cases "seen_ledger e d m")
    (auto simp: mutate_ledger_def reload_ledger Let_def write_ledger_def unmarked_def split: option.splits prod.splits sum.splits if_split_asm)

lemma workspace_success:
  assumes "with_workspace e w (\<lambda>key. mutate_ledger g e (f key) d m) d m = (Inr a, d1, m1)"
  obtains key b l where "seen_ledger e d m = Some b" "f key b = (Inr a, l)" "dk_ledger d1 = Stored (unmarked l)"
proof (cases "en_canonical e w")
  case None
  with assms show ?thesis by (simp add: with_workspace_def)
next
  case (Some key)
  with assms have "mutate_ledger g e (f key) d m = (Inr a, d1, m1)" by (simp add: with_workspace_def)
  from mutate_success [OF this] that show ?thesis by blast
qed

definition run_change :: "(string \<Rightarrow> bool ledger_change) \<Rightarrow> u64 \<Rightarrow> bool" where
  "run_change f i \<longleftrightarrow> (\<forall>key b l. f key b = (Inr True, l) \<longrightarrow> (\<exists>a. active_of b key = Some a \<and> ra_id a = i))"

definition closing_change :: "(string \<Rightarrow> bool ledger_change) \<Rightarrow> bool" where
  "closing_change f \<longleftrightarrow> (\<forall>key b l. f key b = (Inr True, l) \<longrightarrow>
     active_of l key = None \<and> lg_next_run_id l = lg_next_run_id b \<and> (\<forall>k. k \<noteq> key \<longrightarrow> active_of l k = active_of b k))"

lemma run_changes:
  "run_change (\<lambda>key. mark_change e key i p x) i" "run_change (\<lambda>key. finish_change e key i st err c) i"
  "run_change (\<lambda>key. manual_change e key i disp reason) i" "run_change (\<lambda>key. clear_change key i) i"
  unfolding run_change_def
  by (auto simp: mark_change_def finish_change_def manual_change_def clear_change_def active_of_def opt_filter_Some_iff
      split: option.splits if_split_asm)

lemma closing_changes:
  "closing_change (\<lambda>key. finish_change e key i st err c)"
  "closing_change (\<lambda>key. manual_change e key i disp reason)" "closing_change (\<lambda>key. clear_change key i)"
  unfolding closing_change_def
  by (auto simp: finish_change_def manual_change_def clear_change_def drop_if_bare_def active_of_def opt_filter_Some_iff
      split: option.splits if_split_asm)

lemma naming_call:
  assumes "runtime_answer g root size_of e c d m = (BoolReply (Inr True), d1, m1)" "names_run c = Some i"
  shows "\<exists>f key b l. run_change f i \<and> (closes_run c i \<longrightarrow> closing_change f) \<and> seen_ledger e d m = Some b \<and>
    f key b = (Inr True, l) \<and> dk_ledger d1 = Stored (unmarked l)"
proof -
  have "\<exists>w f. run_change f i \<and> (closes_run c i \<longrightarrow> closing_change f) \<and>
    with_workspace e w (\<lambda>key. mutate_ledger g e (f key) d m) d m = (Inr True, d1, m1)"
  proof (cases c)
    case (CallMark w j p x)
    then show ?thesis
      using assms run_changes(1) [of e i p x]
      by (intro exI [of _ w] exI [of _ "\<lambda>key. mark_change e key i p x"])
        (auto simp: reply_with_eq closes_run_def mark_run_running_def)
  next
    case (CallFinish w j st err cs)
    then show ?thesis
      using assms run_changes(2) [of e i st err cs] closing_changes(1) [of e i st err cs]
      by (intro exI [of _ w] exI [of _ "\<lambda>key. finish_change e key i st err cs"])
        (auto simp: reply_with_eq finish_run_with_counts_def)
  next
    case (CallManual w j disp reason)
    then show ?thesis
      using assms run_changes(3) [of e i disp reason] closing_changes(2) [of e i disp reason]
      by (intro exI [of _ w] exI [of _ "\<lambda>key. manual_change e key i disp reason"])
        (auto simp: reply_with_eq finish_manual_request_without_outcome_def)
  next
    case (CallClear w j)
    then show ?thesis
      using assms run_changes(4) [of i] closing_changes(3) [of i]
      by (intro exI [of _ w] exI [of _ "\<lambda>key. clear_change key i"]) (auto simp: reply_with_eq clear_run_def)
  qed (use assms(2) in simp_all)
  then obtain w f where f: "run_change f i" "closes_run c i \<Longrightarrow> closing_change f"
    "with_workspace e w (\<lambda>key. mutate_ledger g e (f key) d m) d m = (Inr True, d1, m1)" by blast
  obtain key b l where "seen_ledger e d m = Some b" "f key b = (Inr True, l)" "dk_ledger d1 = Stored (unmarked l)"
    by (rule workspace_success [OF f(3)])
  with f(1,2) show ?thesis by blast
qed

lemma closed_is_retired:
  assumes "runs_ok b" "run_change f i" "closing_change f" "f key b = (Inr True, l)" "i \<noteq> last_id"
  shows "retired i l"
proof -
  obtain a where a: "active_of b key = Some a" "ra_id a = i" using assms(2,4) by (auto simp: run_change_def)
  have l: "active_of l key = None" "lg_next_run_id l = lg_next_run_id b" "\<And>k. k \<noteq> key \<Longrightarrow> active_of l k = active_of b k"
    using assms(3,4) by (auto simp: closing_change_def)
  have "i \<le> lg_next_run_id b" using assms(1) a by (auto simp: runs_ok_def)
  moreover have "ra_id a1 \<noteq> i" if "active_of l k = Some a1" for k a1
  proof
    assume "ra_id a1 = i"
    moreover have "k \<noteq> key" using that l(1) by auto
    ultimately show False using that l(3) [of k] a assms(1,5) unfolding runs_ok_def by metis
  qed
  ultimately show ?thesis using l(2) by (auto simp: retired_def)
qed

text \<open>
  C8: Whatever the views do, and whichever writes fail: once a call has closed a run (finished it,
  answered its request or cleared it), no later call that names the run succeeds. Ids are never
  given out again, so a late worker cannot finish or restart the run of another. The exception is
  the largest 64-bit id, where the counter stops. Reads may fail too; only the query whether the
  ledger exists is taken to be answered truly after the run was closed, because a stored ledger that
  looks absent would be overwritten with what the view remembers.
\<close>

theorem run_closes_once:
  assumes "first_start w0" and "i \<noteq> last_id"
    and "closes_run c i" and "fst (runtime_step (v, e, c) (lr.run pre w0)) = BoolReply (Inr True)"
    and "names_run c1 = Some i" and "list_all ledger_found (post @ [(v1, e1, c1)])"
  shows "fst (runtime_step (v1, e1, c1) (lr.run post (runtime_next (v, e, c) (lr.run pre w0)))) \<noteq> BoolReply (Inr True)"
proof
  let ?w = "lr.run pre w0"
  let ?w1 = "runtime_next (v, e, c) ?w"
  let ?w2 = "lr.run post ?w1"
  assume again: "fst (runtime_step (v1, e1, c1) ?w2) = BoolReply (Inr True)"
  have ok: "all_ledgers runs_ok ?w" using lr.reachable_inv [OF assms(1)] .
  obtain d m where a: "runtime_answer (wd_program ?w) (wd_root ?w) (wd_size ?w) e c (wd_disk ?w) (wd_views ?w v) =
      (BoolReply (Inr True), d, m)" and n: "wd_disk ?w1 = d"
    by (rule step_answer [OF assms(4)])
  have named: "names_run c = Some i" using assms(3) by (simp add: closes_run_def)
  from naming_call [OF a named] obtain f key b l where f: "run_change f i" "closing_change f"
    "seen_ledger e (wd_disk ?w) (wd_views ?w v) = Some b" "f key b = (Inr True, l)" and dl: "dk_ledger d = Stored (unmarked l)"
    using assms(3) by blast
  have "runs_ok b" using ok seen_either [OF f(3)] by (auto simp: all_ledgers_def)
  from closed_is_retired [OF this f(1,2,4) assms(2)] have "retired i (unmarked l)" by (simp add: retired_def)
  moreover obtain l2 where l2: "dk_ledger (wd_disk ?w2) = Stored l2" "keeps_retired (unmarked l) l2"
    using rt.stored_run [of ?w1 "unmarked l" post] n dl assms(6) by (auto simp: lr.run_def)
  ultimately have late: "retired i l2" using assms(2) by (auto simp: keeps_retired_def)
  obtain d1 m1 where a1: "runtime_answer (wd_program ?w2) (wd_root ?w2) (wd_size ?w2) e1 c1 (wd_disk ?w2) (wd_views ?w2 v1) =
      (BoolReply (Inr True), d1, m1)"
    by (rule step_answer [OF again])
  from naming_call [OF a1 assms(5)] obtain f1 key1 b1 l1 where "run_change f1 i"
    and b1: "seen_ledger e1 (wd_disk ?w2) (wd_views ?w2 v1) = Some b1" "f1 key1 b1 = (Inr True, l1)" by blast
  moreover have "b1 = l2" using seen_found [OF b1(1), of v1 c1] assms(6) l2(1) by simp
  ultimately show False using late by (auto simp: run_change_def retired_def)
qed

text \<open>
  Why the query matters: when it fails, a call overwrites whatever ledger is stored with a change of the
  one its view remembers.
\<close>

lemma unfound_ledger_overwritten:
  assumes "en_ledger_read e = StatFails" "en_lock e = None" "en_ledger_write e = None" "f (rt_ledger m) = (Inr a, l)"
  shows "dk_ledger (fst (snd (mutate_ledger g e f d m))) = Stored (unmarked l)"
proof -
  have "seen_ledger e d m = Some (rt_ledger m)" using assms(1) by (simp add: seen_ledger_def)
  then show ?thesis using assms(2-4) by (simp add: mutate_ledger_def reload_ledger write_ledger_def unmarked_def Let_def)
qed

section \<open>A sample\<close>

definition sample_env :: runtime_env where
  "sample_env =
     \<lparr>en_canonical = Some, en_now = ''t'', en_day = ''2026-01-01'', en_instant = (\<lambda>_. None), en_lock = None,
      en_settings_read = True, en_ledger_read = ReadWorks, en_proof_read = True, en_proof_confirm = True, en_trust_read = None, en_ledger_write = None,
      en_settings_write = None, en_proof_write = None, en_trust_write = None\<rparr>"

definition sample_program :: runtime_program where
  "sample_program = \<lparr>pr_crates = sample_crates, pr_pem = ''key''\<rparr>"

definition sample_start :: runtime_world where
  "sample_start =
     \<lparr>wd_program = sample_program, wd_root = ''/r'', wd_size = (\<lambda>_. 0), wd_disk = no_files,
      wd_views = (\<lambda>_. open_inner sample_program sample_env no_files)\<rparr>"

lemma sample_first: "first_start sample_start"
  by (auto simp: first_start_def sample_start_def)

lemma sample_env_sel [simp]:
  "en_canonical sample_env = Some" "en_now sample_env = ''t''" "en_lock sample_env = None"
  "en_ledger_write sample_env = None" "en_settings_write sample_env = None" "en_proof_write sample_env = None"
  "en_trust_write sample_env = None" "en_day sample_env = ''2026-01-01''" "en_instant sample_env = (\<lambda>_. None)"
  "en_settings_read sample_env" "en_ledger_read sample_env = ReadWorks" "en_proof_read sample_env" "en_proof_confirm sample_env"
  "en_trust_read sample_env = None"
  by (simp_all add: sample_env_def)

definition sample_queue :: runtime_input where
  "sample_queue = (0, sample_env, CallQueue ''/w'' ManualRun ''p'' ''m'')"

lemma sample_key_sha: "public_key_sha256 sample_crates ''key'' = Inr sample_digest"
  by (simp add: public_key_sha256_def sample_key) (simp add: sample_crates_def)

lemma sample_view: "open_inner sample_program sample_env no_files =
    \<lparr>rt_settings = default_settings, rt_verified = None, rt_key = Some sample_digest, rt_ledger = empty_ledger, rt_readable = True\<rparr>"
  by (simp add: open_inner_def no_files_def read_ledger_def read_settings_def read_json_def reload_knowledge_def sample_program_def
      sample_key_sha)

lemma reload_no_proof:
  "dk_proof d = Map.empty \<Longrightarrow> dk_settings d = Absent \<Longrightarrow>
     reload_durable g sample_env d m = m\<lparr>rt_readable := (dk_ledger d \<noteq> Unreadable), rt_verified := None,
       rt_ledger := (case dk_ledger d of Stored l \<Rightarrow> l | _ \<Rightarrow> rt_ledger m)\<rparr>"
  by (cases "rt_key m") (auto simp: reload_durable_def reload_knowledge_def read_ledger_def read_settings_def read_json_def split: json_file.splits)

lemma sample_queued:
  "runtime_next sample_queue sample_start =
     sample_start\<lparr>wd_disk := no_files\<lparr>dk_ledger := Stored (snd (queue_change sample_env ''/w'' ManualRun ''p'' ''m'' empty_ledger))\<rparr>,
       wd_views := (wd_views sample_start)(0 := (open_inner sample_program sample_env no_files)
         \<lparr>rt_ledger := snd (queue_change sample_env ''/w'' ManualRun ''p'' ''m'' empty_ledger)\<rparr>)\<rparr>"
  by (simp add: runtime_next_def runtime_step_def sample_queue_def sample_start_def reply_with_def queue_run_def
      with_workspace_def mutate_ledger_def reload_no_proof no_files_def sample_view [unfolded no_files_def] queue_change_def
      active_of_def empty_ledger_def write_ledger_def saturating_add_def Let_def)

theorem run_closes_once_witness:
  "fst (runtime_step (1, sample_env, CallFinish ''/w'' 1 RunFailed None None)
     (lr.run [] (runtime_next (0, sample_env, CallFinish ''/w'' 1 RunSucceeded None None) (lr.run [sample_queue] sample_start))))
   \<noteq> BoolReply (Inr True)"
proof (rule run_closes_once [OF sample_first, of 1])
  show "closes_run (CallFinish ''/w'' 1 RunSucceeded None None) 1" by (simp add: closes_run_def)
  show "fst (runtime_step (0, sample_env, CallFinish ''/w'' 1 RunSucceeded None None) (lr.run [sample_queue] sample_start)) =
      BoolReply (Inr True)"
    by (simp add: sample_queued) (simp add: runtime_step_def sample_start_def reply_with_def finish_run_with_counts_def with_workspace_def
      mutate_ledger_def reload_no_proof no_files_def queue_change_def active_of_def empty_ledger_def finish_change_def
      write_ledger_def saturating_add_def Let_def)
qed (simp_all add: ledger_found_def)

end
