(* ===== verification/Taskmaster_Fences.thy ===== *)
theory Taskmaster_Fences
  imports Taskmaster_Runs
begin

text \<open>
  What the guards of the taskmaster runtime keep out: evaluations captured before the settings or the
  trust changed, evaluations over the daily budget, and knowledge older than what was activated.
\<close>

section \<open>Evaluations of an older generation\<close>

text \<open>The calls that carry a snapshot, and the replies that say it took effect.\<close>

fun call_snapshot :: "runtime_call \<Rightarrow> evaluation_snapshot option" where
  "call_snapshot (CallReserve h w now key s) = Some s"
| "call_snapshot (CallReserveManual h w now key s refusal) = Some s"
| "call_snapshot (CallSuccess h w s key) = Some s"
| "call_snapshot (CallCommit h w s) = Some s"
| "call_snapshot _ = None"

definition took_effect :: "runtime_reply \<Rightarrow> bool" where
  "took_effect r \<longleftrightarrow> r \<in> {BoolReply (Inr True), ReservationReply (Inr Reserved), CommitReply (Inr (Some ()))}"

lemma native_passed:
  assumes "with_current_native_data g e h w s act d m = (Inr (Some a), d1, m1)"
  shows "\<exists>key. still_current (reload_durable g e d m) key (es_generation s) (es_settings s) (es_identity s)"
  using assms
  by (auto simp: with_current_native_data_def Let_def split: option.splits if_split_asm prod.splits)

lemma custom_passed:
  assumes "with_current_custom_data g e root h c act d m = (Inr (Some a), d1, m1)"
  shows "still_current (reload_durable g e d m) (ci_workspace c) (ci_generation c) (ci_settings c) (ci_identity c) \<and>
    (\<exists>t. stored_trust d = Inr t \<and> grants t (ci_adapter c) \<and> td_generation t = ci_trust_generation c)"
  using assms
  by (auto simp: with_current_custom_data_def inspect_guarded_def read_trust_def and_then_def Let_def split: option.splits if_split_asm
      prod.splits sum.splits)

text \<open>What a snapshot that takes effect was checked against.\<close>

definition admitted :: "runtime_env \<Rightarrow> runtime_disk \<Rightarrow> runtime_data \<Rightarrow> evaluation_snapshot \<Rightarrow> bool" where
  "admitted e d m s \<longleftrightarrow>
     (\<exists>b. seen_ledger e d m = Some b \<and> lg_generation b = es_generation s) \<and>
     (\<forall>c. es_custom s = Some c \<longrightarrow>
        (\<exists>t. stored_trust d = Inr t \<and> grants t (ci_adapter c) \<and> td_generation t = ci_trust_generation c))"

lemma still_current_ledger:
  "still_current (reload_durable g e d m) key n st i \<Longrightarrow> \<exists>b. seen_ledger e d m = Some b \<and> lg_generation b = n"
  by (auto simp: still_current_def reload_ledger)

lemma guard_passed:
  assumes "with_current_evaluation g e root h w s act d m = (Inr (Some a), d1, m1)"
  shows "admitted e d m s"
proof (cases "es_custom s")
  case None
  with assms have "with_current_native_data g e h w s act d m = (Inr (Some a), d1, m1)"
    by (simp add: with_current_evaluation_def)
  from native_passed [OF this] obtain key where "still_current (reload_durable g e d m) key (es_generation s) (es_settings s) (es_identity s)" ..
  from still_current_ledger [OF this] None show ?thesis by (simp add: admitted_def)
next
  case (Some c)
  with assms have c: "with_current_custom_data g e root h c act d m = (Inr (Some a), d1, m1)" "ci_generation c = es_generation s"
    by (auto simp: with_current_evaluation_def matches_snapshot_def split: if_split_asm)
  from custom_passed [OF c(1)]
  have "still_current (reload_durable g e d m) (ci_workspace c) (ci_generation c) (ci_settings c) (ci_identity c)" ..
  from still_current_ledger [OF this] custom_passed [OF c(1)] c(2) Some show ?thesis by (simp add: admitted_def)
qed

lemma guarded_reply:
  assumes "(case with_current_evaluation g e root h w s act d m of
      (Inl x, d1, m1) \<Rightarrow> (Inl x, d1, m1) | (Inr None, d1, m1) \<Rightarrow> (Inr no, d1, m1) | (Inr (Some r), d1, m1) \<Rightarrow> (r, d1, m1)) = (Inr y, d1, m1)"
    "y \<noteq> no"
  shows "admitted e d m s"
  using assms guard_passed [of g e root h w s act d m]
  by (cases "with_current_evaluation g e root h w s act d m") (auto split: sum.splits option.splits)

lemma reserve_admitted:
  "reserve_snapshot_with_interval g e root h w now key s manual refusal d m = (Inr Reserved, d1, m1) \<Longrightarrow> admitted e d m s"
  unfolding reserve_snapshot_with_interval_def Let_def by (erule guarded_reply) simp

lemma success_admitted:
  "record_evaluation_success g e root h w s key d m = (Inr True, d1, m1) \<Longrightarrow> admitted e d m s"
  unfolding record_evaluation_success_def Let_def by (cases "en_canonical e w") (simp, simp, erule guarded_reply, simp)

lemma effect_admitted:
  assumes "runtime_answer g root size_of e c d m = (r, d1, m1)" "call_snapshot c = Some s" "took_effect r"
  shows "admitted e d m s"
proof (cases c)
  case (CallReserve h w now key s1)
  then obtain x where "reserve_snapshot_with_interval g e root h w now key s False None d m = (x, d1, m1)"
    "r = BoolReply (map_sum (\<lambda>x. x) (\<lambda>v. v = Reserved) x)"
    using assms(1,2) by (auto simp: reply_with_eq reserve_snapshot_def split: prod.splits)
  with assms(3) show ?thesis using reserve_admitted by (cases x) (auto simp: took_effect_def)
next
  case (CallReserveManual h w now key s1 refusal)
  then show ?thesis using assms reserve_admitted
    by (auto simp: reply_with_eq reserve_manual_snapshot_with_admission_def took_effect_def)
next
  case (CallSuccess h w s1 key)
  then show ?thesis using assms success_admitted by (auto simp: reply_with_eq took_effect_def)
next
  case (CallCommit h w s1)
  then show ?thesis using assms guard_passed by (auto simp: reply_with_eq took_effect_def)
qed (use assms(2) in simp_all)

definition generation_before :: "ledger \<Rightarrow> ledger \<Rightarrow> bool" where
  "generation_before b l \<longleftrightarrow> lg_generation b \<le> lg_generation l"

lemma move_generation: "ledger_move b l \<Longrightarrow> lg_generation b \<le> lg_generation l"
proof (induction rule: ledger_move.induct)
  case (replaced b)
  then show ?case by (simp add: saturating_add_mono)
next
  case (activated b n)
  then show ?case using checked_add_one_less by fastforce
qed (auto simp: queue_change_def mark_change_def finish_change_def manual_change_def clear_change_def recover_change_def
       drop_if_bare_def roll_day_def Let_def split: option.splits if_split_asm)

interpretation gb: ledger_order generation_before
  by unfold_locales (auto simp: generation_before_def dest: move_generation)

lemma replace_success:
  assumes "replace_settings_with_reconcile g e st rec d m = (Inr (), d1, m1)"
  obtains b l where "seen_ledger e d m = Some b" "dk_ledger d1 = Stored l" "lg_generation l = saturating_add (lg_generation b) 1"
  using assms
  by (cases "seen_ledger e d m")
    (auto simp: replace_settings_with_reconcile_def Let_def reload_ledger write_ledger_def write_settings_def
      split: option.splits sum.splits if_split_asm)

lemma snapshot_generation:
  assumes "evaluation_snapshot_with_disabled g e w allow d m = (Some s, m1)" "dk_ledger d = Stored l" "ledger_found (v, e, c)"
  shows "es_generation s = lg_generation l"
proof -
  have "rt_readable (reload_durable g e d m)" "es_generation s = lg_generation (rt_ledger (reload_durable g e d m))"
    using assms(1) by (auto simp: evaluation_snapshot_with_disabled_def Let_def split: option.splits if_split_asm)
  then obtain b where b: "seen_ledger e d m = Some b" "es_generation s = lg_generation b"
    by (auto simp: reload_ledger)
  with seen_found [OF b(1) assms(3)] assms(2) show ?thesis by simp
qed

text \<open>
  C9: An evaluation captured before the settings were replaced never takes effect afterwards: it
  reserves no budget, starts no provider, commits nothing and is not remembered as a result,
  whatever the views do in between. The generation of the snapshot must not be the largest 64-bit
  number, where the counter stops, and the ledger must have been stored when it was captured. Reads
  and writes may fail; only the query whether the ledger exists is taken to be answered truly.
\<close>

theorem settings_change_fences_evaluations:
  assumes "dk_ledger (wd_disk w) = Stored l"
    and "fst (runtime_step (v, e, CallSnapshot ws allow) w) = SnapshotReply (Some s)" and "es_generation s \<noteq> last_id"
    and "w1 = lr.run mid (runtime_next (v, e, CallSnapshot ws allow) w)"
    and "fst (runtime_step (v1, e1, CallReplace st rec) w1) = UnitReply (Inr ())"
    and "call_snapshot c = Some s1" and "es_generation s1 = es_generation s"
    and "list_all ledger_found ((v, e, CallSnapshot ws allow) # mid @ (v1, e1, CallReplace st rec) # post @ [(v2, e2, c)])"
  shows "\<not> took_effect (fst (runtime_step (v2, e2, c) (lr.run post (runtime_next (v1, e1, CallReplace st rec) w1))))"
proof
  let ?c1 = "(v1, e1, CallReplace st rec)"
  let ?w2 = "lr.run post (runtime_next ?c1 w1)"
  assume acts: "took_effect (fst (runtime_step (v2, e2, c) ?w2))"
  have gen: "es_generation s = lg_generation l"
    using assms(1,2,8) snapshot_generation by (fastforce simp: runtime_step_def split: prod.splits)
  obtain l0 where "dk_ledger (wd_disk (runtime_next (v, e, CallSnapshot ws allow) w)) = Stored l0" "generation_before l l0"
    using gb.stored_next [OF assms(1), of "(v, e, CallSnapshot ws allow)"] assms(8) by auto
  moreover obtain l1 where l1: "dk_ledger (wd_disk w1) = Stored l1" "generation_before l0 l1"
    using gb.stored_run [OF calculation(1), of mid] assms(4,8) by (auto simp: lr.run_def)
  ultimately have "es_generation s \<le> lg_generation l1" using gen by (auto simp: generation_before_def)
  obtain d m where a: "runtime_answer (wd_program w1) (wd_root w1) (wd_size w1) e1 (CallReplace st rec) (wd_disk w1) (wd_views w1 v1) =
      (UnitReply (Inr ()), d, m)" and d: "wd_disk (runtime_next ?c1 w1) = d"
    by (rule step_answer [OF assms(5)])
  then have "replace_settings_with_reconcile (wd_program w1) e1 st rec (wd_disk w1) (wd_views w1 v1) = (Inr (), d, m)"
    by (auto simp: reply_with_eq)
  then obtain l2 where l2: "dk_ledger d = Stored l2" "lg_generation l2 = saturating_add (lg_generation l1) 1"
    by (rule replace_success) (use l1(1) seen_found [of e1 "wd_disk w1" "wd_views w1 v1" _ v1] assms(8) in fastforce)
  have less: "es_generation s < lg_generation l2"
    using saturating_Suc [of "lg_generation l1"] l2(2) \<open>es_generation s \<le> lg_generation l1\<close> assms(3)
      word_order.extremum [of "es_generation s"] by (auto simp: order_le_less)
  obtain l3 where l3: "dk_ledger (wd_disk ?w2) = Stored l3" "generation_before l2 l3"
    using gb.stored_run [of "runtime_next ?c1 w1" l2 post] d l2(1) assms(8) by (auto simp: lr.run_def)
  obtain d3 m3 where "runtime_answer (wd_program ?w2) (wd_root ?w2) (wd_size ?w2) e2 c (wd_disk ?w2) (wd_views ?w2 v2) =
      (fst (runtime_step (v2, e2, c) ?w2), d3, m3)"
    by (rule step_answer [OF refl])
  from effect_admitted [OF this assms(6) acts] l3(1) have "lg_generation l3 = es_generation s1"
    using seen_found [of e2 "wd_disk ?w2" "wd_views ?w2 v2" _ v2 c] assms(8) by (auto simp: admitted_def)
  with less l3(2) assms(7) show False by (auto simp: generation_before_def)
qed

section \<open>What a call leaves alone\<close>

definition reloaded_settings :: "runtime_env \<Rightarrow> runtime_disk \<Rightarrow> runtime_data \<Rightarrow> taskmaster_settings" where
  "reloaded_settings e d m = (case read_settings e d of Some s \<Rightarrow> s | None \<Rightarrow> rt_settings m)"

text \<open>Only the ledger of the files changes, and the view at most reads its settings again.\<close>

definition ledger_only :: "runtime_env \<Rightarrow> runtime_disk \<Rightarrow> runtime_data \<Rightarrow> runtime_disk \<Rightarrow> runtime_data \<Rightarrow> bool" where
  "ledger_only e d m d1 m1 \<longleftrightarrow>
     d1 = d\<lparr>dk_ledger := dk_ledger d1\<rparr> \<and> rt_key m1 = rt_key m \<and> rt_settings m1 \<in> {rt_settings m, reloaded_settings e d m}"

lemma ledger_onlyD:
  assumes "ledger_only e d m d1 m1"
  shows "dk_trust d1 = dk_trust d" "dk_proof d1 = dk_proof d" "dk_settings d1 = dk_settings d" "rt_key m1 = rt_key m"
    "rt_settings m1 = rt_settings m \<or> rt_settings m1 = reloaded_settings e d m"
proof -
  have same: "d1 = d\<lparr>dk_ledger := dk_ledger d1\<rparr>" using assms unfolding ledger_only_def by (elim conjE)
  show "dk_trust d1 = dk_trust d" using arg_cong [OF same, of dk_trust] by simp
  show "dk_proof d1 = dk_proof d" using arg_cong [OF same, of dk_proof] by simp
  show "dk_settings d1 = dk_settings d" using arg_cong [OF same, of dk_settings] by simp
qed (use assms in \<open>unfold ledger_only_def, elim conjE, blast+\<close>)

lemma reload_only: "ledger_only e d m d (reload_durable g e d m)"
  by (auto simp: ledger_only_def reload_durable_def reload_knowledge_def reloaded_settings_def split: prod.splits)

lemma only_same: "ledger_only e d m d m"
  by (simp add: ledger_only_def)

lemma only_written:
  "ledger_only e d m d m1 \<Longrightarrow> ledger_only e d m (d\<lparr>dk_ledger := x\<rparr>) (m1\<lparr>rt_ledger := l\<rparr>)" "ledger_only e d m d m1 \<Longrightarrow> ledger_only e d m d (m1\<lparr>rt_ledger := l\<rparr>)"
  by (simp_all add: ledger_only_def)

lemma write_ledger_Inr: "write_ledger e l d = Inr d1 \<Longrightarrow> d1 = d\<lparr>dk_ledger := Stored (unmarked l)\<rparr>"
  by (simp add: write_ledger_def unmarked_def split: option.splits)

lemma mutate_only: "mutate_ledger g e f d m = (r, d1, m1) \<Longrightarrow> ledger_only e d m d1 m1"
  using only_written [OF reload_only [of e d m g]] reload_only [of e d m g] only_same [of e d m]
  by (auto simp: mutate_ledger_def Let_def dest!: write_ledger_Inr split: option.splits if_split_asm prod.splits sum.splits)

lemma workspace_only:
  "with_workspace e w (\<lambda>key. mutate_ledger g e (f key) d m) d m = (r, d1, m1) \<Longrightarrow> ledger_only e d m d1 m1"
  using mutate_only only_same by (auto simp: with_workspace_def split: option.splits)

lemma reserve_only: "reserve_loaded e w now key gen bypass allow manual d m = (r, d1, m1) \<Longrightarrow> ledger_only e d m d1 m1"
  using only_written [OF only_same [of e d m]] only_same [of e d m]
  by (auto simp: reserve_loaded_def Let_def dest!: write_ledger_Inr split: option.splits if_split_asm sum.splits)

lemma only_after_reload: "ledger_only e d (reload_durable g e d m) d1 m1 \<Longrightarrow> ledger_only e d m d1 m1"
  using reload_only [of e d m g] by (auto simp: ledger_only_def reloaded_settings_def split: option.splits)

lemma guard_only:
  assumes "with_current_evaluation g e root h w s act d m = (r, d1, m1)"
    and act: "\<And>d m a d1 m1. act d m = (a, d1, m1) \<Longrightarrow> ledger_only e d m d1 m1"
  shows "ledger_only e d m d1 m1"
  using assms(1) only_after_reload [OF act] only_same reload_only [of e d m g]
  by (auto simp: with_current_evaluation_def with_current_native_data_def with_current_custom_data_def Let_def
      split: option.splits if_split_asm prod.splits sum.splits)

lemma reserve_snapshot_only:
  assumes "reserve_snapshot_with_interval g e root h w now key s manual refusal d m = (r, d1, m1)"
  shows "ledger_only e d m d1 m1"
proof -
  define act where "act = (\<lambda>d1 m1. case refusal of
      Some r \<Rightarrow> (r, d1, m1)
    | None \<Rightarrow> reserve_loaded e w now (Some key) (Some (es_generation s)) manual manual manual d1 m1)"
  obtain x where x: "with_current_evaluation g e root h w s act d m = (x, d1, m1)"
    using assms
    by (cases "with_current_evaluation g e root h w s act d m")
      (auto simp: reserve_snapshot_with_interval_def act_def [symmetric] Let_def split: sum.splits option.splits)
  show ?thesis
    by (rule guard_only [OF x]) (use reserve_only only_same in \<open>auto simp: act_def split: option.splits\<close>)
qed

lemma success_only:
  assumes "record_evaluation_success g e root h w s key d m = (r, d1, m1)"
  shows "ledger_only e d m d1 m1"
proof (cases "en_canonical e w")
  case None
  with assms show ?thesis by (simp add: record_evaluation_success_def only_same)
next
  case (Some k)
  define act where "act = (\<lambda>d1 (m1 :: runtime_data).
    let l = (rt_ledger m1)\<lparr>lg_cache_keys := (lg_cache_keys (rt_ledger m1))(k \<mapsto> key)\<rparr> in
    case write_ledger e l d1 of
      Inl x \<Rightarrow> (Inl x, d1, m1\<lparr>rt_ledger := l\<rparr>)
    | Inr d2 \<Rightarrow> (Inr True, d2, m1\<lparr>rt_ledger := l\<rparr>))"
  obtain x where x: "with_current_evaluation g e root h w s act d m = (x, d1, m1)"
    using assms Some
    by (cases "with_current_evaluation g e root h w s act d m")
      (auto simp: record_evaluation_success_def act_def [symmetric] split: sum.splits option.splits)
  show ?thesis
    by (rule guard_only [OF x])
      (use only_written [OF only_same] in \<open>auto simp: act_def Let_def dest!: write_ledger_Inr split: sum.splits\<close>)
qed

lemma capture_only:
  "capture_custom_inference_with_disabled g e root h w s allow d m = (r, d1, m1) \<Longrightarrow> ledger_only e d m d1 m1"
  using only_same [of e d m] reload_only [of e d m g]
  by (auto simp: capture_custom_inference_with_disabled_def Let_def split: option.splits sum.splits if_split_asm)

lemma run_status_only: "run_status g e w d m = (r, d1, m1) \<Longrightarrow> ledger_only e d m d1 m1"
  using only_same [of e d m] reload_only [of e d m g]
  by (auto simp: run_status_def with_workspace_def Let_def split: option.splits if_split_asm)

lemma runs_only:
  "queue_run g e w t p x d m = (r1, d1, m1) \<Longrightarrow> ledger_only e d m d1 m1"
  "mark_run_running g e w i p x d m = (r2, d1, m1) \<Longrightarrow> ledger_only e d m d1 m1"
  "finish_run_with_counts g e w i st err c d m = (r2, d1, m1) \<Longrightarrow> ledger_only e d m d1 m1"
  "finish_manual_request_without_outcome g e w i disp reason d m = (r2, d1, m1) \<Longrightarrow> ledger_only e d m d1 m1"
  "clear_run g e w i d m = (r2, d1, m1) \<Longrightarrow> ledger_only e d m d1 m1"
  "recover_workspace_run g e w d m = (r2, d1, m1) \<Longrightarrow> ledger_only e d m d1 m1"
  unfolding queue_run_def mark_run_running_def finish_run_with_counts_def finish_manual_request_without_outcome_def
    clear_run_def recover_workspace_run_def
  by (erule workspace_only)+

text \<open>The calls that write another file, or start a view anew.\<close>

fun writes_more :: "runtime_call \<Rightarrow> bool" where
  "writes_more CallOpen = True"
| "writes_more (CallReplace s rec) = True"
| "writes_more (CallActivate bytes) = True"
| "writes_more (CallApprove a expected) = True"
| "writes_more (CallRevoke i n) = True"
| "writes_more _ = False"

lemma answer_only:
  assumes "runtime_answer g root size_of e c d m = (r, d1, m1)" "\<not> writes_more c"
  shows "ledger_only e d m d1 m1"
proof (cases c)
  case CallAvailability
  then show ?thesis using assms(1) only_same [of e d m] reload_only [of e d m g]
    by (auto simp: brain_knowledge_availability_def Let_def split: option.splits)
next
  case (CallSnapshot w allow)
  then show ?thesis using assms(1) only_same [of e d m] reload_only [of e d m g]
    by (auto simp: evaluation_snapshot_with_disabled_def Let_def split: option.splits)
next
  case (CallReserve h w now key s)
  then show ?thesis using assms(1) reserve_snapshot_only
    by (auto simp: reply_with_eq reserve_snapshot_def split: prod.splits)
next
  case (CallCommit h w s)
  then obtain x where x: "with_current_evaluation g e root h w s (\<lambda>d1 m1. ((), d1, m1)) d m = (x, d1, m1)"
    using assms(1) by (auto simp: reply_with_eq)
  show ?thesis by (rule guard_only [OF x]) (simp add: only_same)
qed (use assms in \<open>auto simp: reply_with_eq reserve_manual_snapshot_with_admission_def
       dest: runs_only reserve_snapshot_only success_only capture_only run_status_only\<close>)

section \<open>Trust that was given before it changed\<close>

lemma replace_disk:
  "replace_settings_with_reconcile g e st rec d m = (r, d1, m1) \<Longrightarrow>
     dk_trust d1 = dk_trust d \<and> dk_proof d1 = dk_proof d \<and> rt_key m1 = rt_key m"
  by (auto simp: replace_settings_with_reconcile_def Let_def write_settings_def reload_ledger(4) dest!: write_ledger_Inr
      split: option.splits sum.splits if_split_asm)

lemma install_disk:
  "install_proof g e v n d m = (r, d1, m1) \<Longrightarrow>
     dk_trust d1 = dk_trust d \<and> dk_settings d1 = dk_settings d \<and> rt_key m1 = rt_key m \<and> rt_settings m1 = rt_settings m \<and>
     (dk_proof d1 = dk_proof d \<or> (\<exists>key. rt_key m = Some key \<and> dk_proof d1 = (dk_proof d)(key \<mapsto> vk_bytes v)))"
  by (auto simp: install_proof_def Let_def write_proof_def reload_knowledge_def dest!: write_ledger_Inr
      split: option.splits sum.splits if_split_asm)

lemma activate_disk:
  assumes "activate_knowledge g e bytes d m = (r, d1, m1)"
  shows "dk_trust d1 = dk_trust d" "dk_settings d1 = dk_settings d" "rt_key m1 = rt_key m"
    "rt_settings m1 = rt_settings m \<or> rt_settings m1 = reloaded_settings e d m"
  using assms
  by (cases rule: activate_cases;
      use ledger_onlyD(4,5) [OF reload_only [of e d m g]] in \<open>auto dest!: install_disk\<close>)+

lemma persist_cases:
  assumes "persist_next size_of e t d = (r, d1)"
  shows "(d1 = d \<and> r \<noteq> Inr ()) \<or>
    (r = Inr () \<and> (\<exists>t1. dk_trust d1 = Stored t1 \<and> stored_trust d1 = Inr t1 \<and> td_generation t < td_generation t1 \<and>
       dk_ledger d1 = dk_ledger d \<and> dk_proof d1 = dk_proof d \<and> dk_settings d1 = dk_settings d))"
  using assms
  by (auto simp: persist_next_def Let_def stored_trust_def and_then_def dest: checked_add_one_less
      split: option.splits sum.splits if_split_asm)

text \<open>The calls that change trust.\<close>

fun changes_trust :: "runtime_call \<Rightarrow> bool" where
  "changes_trust (CallApprove a expected) = True"
| "changes_trust (CallRevoke i n) = True"
| "changes_trust _ = False"

lemma trust_change_cases:
  assumes "runtime_answer g root size_of e c d m = (r, d1, m1)" "changes_trust c"
  shows "m1 = m \<and> ((d1 = d \<and> r \<noteq> UnitReply (Inr ())) \<or>
    (\<exists>t t1. stored_trust d = Inr t \<and> stored_trust d1 = Inr t1 \<and> td_generation t < td_generation t1 \<and>
       dk_ledger d1 = dk_ledger d \<and> dk_proof d1 = dk_proof d \<and> dk_settings d1 = dk_settings d))"
proof (cases c)
  case (CallApprove a expected)
  then show ?thesis using assms(1)
    by (auto simp: approve_def read_trust_def split: option.splits sum.splits if_split_asm prod.splits dest!: persist_cases)
next
  case (CallRevoke i n)
  then show ?thesis using assms(1)
    by (auto simp: revoke_def read_trust_def split: option.splits sum.splits if_split_asm prod.splits dest!: persist_cases)
qed (use assms(2) in simp_all)

lemma answer_trust:
  assumes "runtime_answer g root size_of e c d m = (r, d1, m1)"
  shows "dk_trust d1 = dk_trust d \<or> (\<exists>t t1. stored_trust d = Inr t \<and> stored_trust d1 = Inr t1 \<and> td_generation t < td_generation t1)"
proof (cases "changes_trust c")
  case True
  from trust_change_cases [OF assms this] show ?thesis by auto
next
  case False
  show ?thesis
  proof (cases "writes_more c")
    case True
    with False assms show ?thesis
      by (cases c) (auto simp: reply_with_eq dest: replace_disk activate_disk)
  next
    case False
    from ledger_onlyD(1) [OF answer_only [OF assms False]] show ?thesis ..
  qed
qed

lemma trust_step_back:
  assumes "stored_trust (wd_disk (runtime_next i w)) = Inr t1"
  shows "\<exists>t. stored_trust (wd_disk w) = Inr t \<and> td_generation t \<le> td_generation t1"
proof (cases i)
  case (fields v e c)
  obtain d m where a: "runtime_answer (wd_program w) (wd_root w) (wd_size w) e c (wd_disk w) (wd_views w v) =
      (fst (runtime_step (v, e, c) w), d, m)" and d: "wd_disk (runtime_next (v, e, c) w) = d"
    by (rule step_answer [OF refl])
  have "stored_trust d = Inr t1" using assms d fields by simp
  with answer_trust [OF a] show ?thesis by (auto simp: stored_trust_def order_le_less)
qed

lemma trust_run_back:
  "stored_trust (wd_disk (fold runtime_next is w)) = Inr t1 \<Longrightarrow> \<exists>t. stored_trust (wd_disk w) = Inr t \<and> td_generation t \<le> td_generation t1"
proof (induction "is" arbitrary: w)
  case (Cons i "is")
  then obtain t0 where "stored_trust (wd_disk (runtime_next i w)) = Inr t0" "td_generation t0 \<le> td_generation t1" by fastforce
  with trust_step_back show ?case by fastforce
qed simp

lemma capture_generation:
  "capture_custom_inference_with_disabled g e root h w s allow d m = (Inr (Some ci), d1, m1) \<Longrightarrow>
     \<exists>t. stored_trust d = Inr t \<and> td_generation t = ci_trust_generation ci"
  by (auto simp: capture_custom_inference_with_disabled_def inspect_guarded_def read_trust_def and_then_def Let_def
      split: option.splits sum.splits if_split_asm)

text \<open>
  C10: A custom inference command captured before trust changed never takes effect afterwards. After any
  approval or revocation, of this command or of another, the captured evaluation reserves nothing,
  starts nothing and commits nothing, even when the same command is approved again.
\<close>

theorem trust_change_fences_inference:
  assumes "fst (runtime_step (v, e, CallCapture h ws s allow) w) = CaptureReply (Inr (Some ci))"
    and "w1 = lr.run mid (runtime_next (v, e, CallCapture h ws s allow) w)"
    and "changes_trust c1" and "fst (runtime_step (v1, e1, c1) w1) = UnitReply (Inr ())"
    and "call_snapshot c = Some s1" and "es_custom s1 = Some ci"
  shows "\<not> took_effect (fst (runtime_step (v2, e2, c) (lr.run post (runtime_next (v1, e1, c1) w1))))"
proof
  let ?w2 = "lr.run post (runtime_next (v1, e1, c1) w1)"
  assume acts: "took_effect (fst (runtime_step (v2, e2, c) ?w2))"
  obtain d m where "runtime_answer (wd_program w) (wd_root w) (wd_size w) e (CallCapture h ws s allow) (wd_disk w) (wd_views w v) =
      (CaptureReply (Inr (Some ci)), d, m)"
    by (rule step_answer [OF assms(1)])
  then obtain t where t: "stored_trust (wd_disk w) = Inr t" "td_generation t = ci_trust_generation ci"
    by (auto simp: reply_with_eq dest: capture_generation)
  obtain d1 m1 where a1: "runtime_answer (wd_program w1) (wd_root w1) (wd_size w1) e1 c1 (wd_disk w1) (wd_views w1 v1) =
      (UnitReply (Inr ()), d1, m1)" and d1: "wd_disk (runtime_next (v1, e1, c1) w1) = d1"
    by (rule step_answer [OF assms(4)])
  from trust_change_cases [OF a1 assms(3)] obtain t1 t2 where
    t12: "stored_trust (wd_disk w1) = Inr t1" "stored_trust d1 = Inr t2" "td_generation t1 < td_generation t2" by auto
  have "\<exists>t0. stored_trust (wd_disk (runtime_next (v, e, CallCapture h ws s allow) w)) = Inr t0 \<and> td_generation t0 \<le> td_generation t1"
    using trust_run_back [of mid] t12(1) assms(2) by (simp add: lr.run_def)
  then have "td_generation t \<le> td_generation t1" using trust_step_back t(1) by fastforce
  obtain d3 m3 where "runtime_answer (wd_program ?w2) (wd_root ?w2) (wd_size ?w2) e2 c (wd_disk ?w2) (wd_views ?w2 v2) =
      (fst (runtime_step (v2, e2, c) ?w2), d3, m3)"
    by (rule step_answer [OF refl])
  from effect_admitted [OF this assms(5) acts] assms(6)
  obtain t3 where t3: "stored_trust (wd_disk ?w2) = Inr t3" "td_generation t3 = ci_trust_generation ci" by (auto simp: admitted_def)
  then have "td_generation t2 \<le> td_generation t3"
    using trust_run_back [of post "runtime_next (v1, e1, c1) w1" t3] d1 t12(2) by (simp add: lr.run_def)
  with \<open>td_generation t \<le> td_generation t1\<close> t(2) t3(2) t12(3) show False by simp
qed

section \<open>Knowledge does not roll back\<close>

definition trusted_key :: "runtime_program \<Rightarrow> string option" where
  "trusted_key g = (case public_key_sha256 (pr_crates g) (pr_pem g) of Inl _ \<Rightarrow> None | Inr key \<Rightarrow> Some key)"

text \<open>The knowledge any view finds when it reads the files again.\<close>

definition active_knowledge :: "runtime_program \<Rightarrow> runtime_disk \<Rightarrow> verified_knowledge option" where
  "active_knowledge g d = Option.bind (trusted_key g) (\<lambda>key. Option.bind (dk_proof d key) (\<lambda>bytes.
     case verify_activation (pr_crates g) (pr_pem g) (take (MAX_ACTIVATION_BYTES + 1) bytes) of Inl _ \<Rightarrow> None | Inr v \<Rightarrow> Some v))"

definition succeeds :: "verified_knowledge \<Rightarrow> verified_knowledge \<Rightarrow> bool" where
  "succeeds x y \<longleftrightarrow> ki_sequence (vk_identity x) < ki_sequence (vk_identity y) \<or> vk_identity y = vk_identity x"

lemma succeeds_refl: "succeeds x x"
  by (simp add: succeeds_def)

lemma succeeds_trans: "succeeds x y \<Longrightarrow> succeeds y z \<Longrightarrow> succeeds x z"
  by (auto simp: succeeds_def)

lemma active_same: "dk_proof d1 = dk_proof d \<Longrightarrow> active_knowledge g d1 = active_knowledge g d"
  by (simp add: active_knowledge_def)

lemma active_written:
  assumes "verify_activation (pr_crates g) (pr_pem g) bytes = Inr v" "trusted_key g = Some key" "dk_proof d key = Some (vk_bytes v)"
  shows "active_knowledge g d = Some v"
proof -
  obtain n: "length bytes \<le> MAX_ACTIVATION_BYTES" and "vk_bytes v = bytes" by (rule verified_steps [OF assms(1)])
  then show ?thesis using assms by (simp add: active_knowledge_def)
qed

lemma reload_active:
  "rt_key m = trusted_key g \<Longrightarrow> en_proof_read e \<Longrightarrow> rt_verified (reload_durable g e d m) = active_knowledge g d"
  by (simp add: reload_durable_def reload_knowledge_def active_knowledge_def split: prod.splits)

text \<open>An activation that can read the proof of the knowledge that is active.\<close>

fun proof_found :: "runtime_input \<Rightarrow> bool" where
  "proof_found (v, e, CallActivate bytes) \<longleftrightarrow> en_proof_read e"
| "proof_found _ \<longleftrightarrow> True"

definition moves_on :: "runtime_program \<Rightarrow> runtime_disk \<Rightarrow> runtime_disk \<Rightarrow> bool" where
  "moves_on g d d1 \<longleftrightarrow> (\<forall>x. active_knowledge g d = Some x \<longrightarrow> (\<exists>y. active_knowledge g d1 = Some y \<and> succeeds x y))"

lemma moves_on_same:
  assumes "dk_proof d1 = dk_proof d"
  shows "moves_on g d d1"
  unfolding moves_on_def active_same [OF assms] using succeeds_refl by blast

lemma activate_moves_on:
  assumes "activate_knowledge g e bytes d m = (r, d1, m1)" "rt_key m = trusted_key g" "en_proof_read e"
  shows "moves_on g d d1"
  using assms(1)
proof (cases rule: activate_cases)
  case 1
  then show ?thesis using moves_on_same [of d d] by simp
next
  case (2 v n)
  have reloaded: "rt_verified (reload_durable g e d m) = active_knowledge g d" by (rule reload_active [OF assms(2,3)])
  have newer: "succeeds x v" if "active_knowledge g d = Some x" for x
    using 2(4) that reloaded by (auto simp: knowledge_conflict_def succeeds_def split: if_split_asm)
  have key: "rt_key (reload_durable g e d m) = trusted_key g" using assms(2) by (simp add: reload_ledger(4))
  from install_disk [OF 2(6)] show ?thesis
  proof (elim conjE disjE exE)
    assume "dk_proof d1 = dk_proof d"
    then show ?thesis by (rule moves_on_same)
  next
    fix k
    assume "rt_key (reload_durable g e d m) = Some k" "dk_proof d1 = (dk_proof d)(k \<mapsto> vk_bytes v)"
    then have "active_knowledge g d1 = Some v" using active_written [OF 2(1), of k d1] key by simp
    with newer show ?thesis by (simp add: moves_on_def)
  qed
qed

text \<open>
  Without that, whatever was active: an activation that cannot read its proof installs any other
  verified bundle, an older one too.
\<close>

lemma unread_proof_rolls_back:
  assumes "\<not> en_proof_read e" and "verify_activation (pr_crates g) (pr_pem g) bytes = Inr v" and "seen_ledger e d m = Some b"
    and "checked_add (lg_generation b) 1 = Some n" and "rt_key m = Some key" and "trusted_key g = Some key"
    and "en_lock e = None" "en_ledger_write e = None" "en_proof_write e = None"
  shows "active_knowledge g (fst (snd (activate_knowledge g e bytes d m))) = Some v"
proof -
  have none: "rt_verified (reload_durable g e d m) = None"
    using assms(1) by (simp add: reload_durable_def reload_knowledge_def Option.bind_eq_None_conv split: prod.splits)
  have "dk_proof (fst (snd (activate_knowledge g e bytes d m))) key = Some (vk_bytes v)"
    using assms none
    by (simp add: activate_knowledge_def knowledge_conflict_def install_proof_def write_ledger_def write_proof_def Let_def
        reload_ledger)
  from active_written [OF assms(2,6) this] show ?thesis .
qed

lemma open_key: "rt_key (open_inner g e d) = trusted_key g"
  by (simp add: open_inner_def reload_knowledge_def trusted_key_def split: prod.splits)

lemma trust_keeps_proof:
  assumes "runtime_answer g root size_of e c d m = (r, d1, m1)" "changes_trust c"
  shows "m1 = m" "dk_proof d1 = dk_proof d"
proof -
  note cases = trust_change_cases [OF assms]
  show "m1 = m" using cases by (rule conjunct1)
  from conjunct2 [OF cases] show "dk_proof d1 = dk_proof d" by (elim disjE exE conjE) simp_all
qed

lemma answer_knowledge:
  assumes "runtime_answer g root size_of e c d m = (r, d1, m1)" "rt_key m = trusted_key g"
  shows "rt_key m1 = trusted_key g \<and> (proof_found (v, e, c) \<longrightarrow> moves_on g d d1)"
proof (cases "writes_more c")
  case False
  note only = ledger_onlyD [OF answer_only [OF assms(1) False]]
  show ?thesis using moves_on_same [OF only(2)] only(4) assms(2) by simp
next
  case True
  then show ?thesis
  proof (cases c)
    case CallOpen
    then have "d1 = d" "m1 = open_inner g e d" using assms(1) by auto
    then show ?thesis using open_key moves_on_same [of d d] by simp
  next
    case (CallReplace s rec)
    then obtain x where "replace_settings_with_reconcile g e s rec d m = (x, d1, m1)"
      using assms(1) by (auto simp: reply_with_eq)
    note kept = replace_disk [OF this]
    from kept have "dk_proof d1 = dk_proof d" by simp
    from moves_on_same [OF this] kept assms(2) show ?thesis by simp
  next
    case (CallActivate bytes)
    then obtain x where x: "activate_knowledge g e bytes d m = (x, d1, m1)"
      using assms(1) by (auto simp: reply_with_eq)
    show ?thesis
      using activate_moves_on [OF x assms(2)] activate_disk(3) [OF x] assms(2) CallActivate by simp
  next
    case (CallApprove a expected)
    then have "changes_trust c" by simp
    note kept = trust_keeps_proof [OF assms(1) this]
    show ?thesis using moves_on_same [OF kept(2)] kept(1) assms(2) by simp
  next
    case (CallRevoke i n)
    then have "changes_trust c" by simp
    note kept = trust_keeps_proof [OF assms(1) this]
    show ?thesis using moves_on_same [OF kept(2)] kept(1) assms(2) by simp
  qed simp_all
qed

definition keyed :: "runtime_world \<Rightarrow> bool" where
  "keyed w \<longleftrightarrow> (\<forall>v. rt_key (wd_views w v) = trusted_key (wd_program w))"

lemma program_next [simp]: "wd_program (runtime_next i w) = wd_program w"
  by (cases i) (simp add: runtime_next_def runtime_step_def split: prod.splits)

lemma knowledge_next:
  assumes "keyed w"
  shows "keyed (runtime_next i w)" "proof_found i \<Longrightarrow> moves_on (wd_program w) (wd_disk w) (wd_disk (runtime_next i w))"
proof -
  obtain v e c where i: "i = (v, e, c)" by (cases i)
  obtain d m where a: "runtime_answer (wd_program w) (wd_root w) (wd_size w) e c (wd_disk w) (wd_views w v) =
      (fst (runtime_step (v, e, c) w), d, m)"
    and n: "wd_disk (runtime_next (v, e, c) w) = d" "wd_views (runtime_next (v, e, c) w) = (wd_views w)(v := m)"
    by (rule step_answer [OF refl])
  have k: "rt_key (wd_views w u) = trusted_key (wd_program w)" for u using assms by (simp add: keyed_def)
  note new = answer_knowledge [OF a k, of v]
  show "keyed (runtime_next i w)" using new by (simp add: keyed_def i n k)
  show "moves_on (wd_program w) (wd_disk w) (wd_disk (runtime_next i w))" if "proof_found i" using new that by (simp add: i n)
qed

lemma first_keyed:
  assumes "first_start w"
  shows "keyed w"
  unfolding keyed_def
proof
  fix v
  from assms obtain e where "wd_views w v = open_inner (wd_program w) e no_files" unfolding first_start_def by blast
  then show "rt_key (wd_views w v) = trusted_key (wd_program w)" by (simp add: open_key)
qed

interpretation kn: machine first_start runtime_next keyed
  by unfold_locales (rule first_keyed, assumption, rule knowledge_next(1), assumption)

lemma knowledge_run:
  "keyed w \<Longrightarrow> active_knowledge (wd_program w) (wd_disk w) = Some x \<Longrightarrow> list_all proof_found is \<Longrightarrow>
     \<exists>y. active_knowledge (wd_program w) (wd_disk (kn.run is w)) = Some y \<and> succeeds x y"
proof (induction "is" arbitrary: w x)
  case (Cons i "is")
  then have found: "proof_found i" "list_all proof_found is" by simp_all
  obtain y where y: "active_knowledge (wd_program w) (wd_disk (runtime_next i w)) = Some y" "succeeds x y"
    using knowledge_next(2) [OF Cons.prems(1) found(1)] Cons.prems(2) unfolding moves_on_def by blast
  with Cons.IH [of "runtime_next i w" y] found(2) knowledge_next(1) [OF Cons.prems(1)] succeeds_trans show ?case by fastforce
qed (auto simp: succeeds_refl)

text \<open>
  C11: From a first start on, activated knowledge only moves forward: whatever is activated, by any view,
  and whatever else fails, later knowledge has a larger sequence number or is the same knowledge, as
  long as every activation after it can read the proof that is active. A replayed older bundle or a
  second bundle with the same number is then never installed. The condition is needed: an activation
  takes a proof it cannot read for no proof and skips the comparison.
\<close>

theorem knowledge_never_rolls_back:
  assumes "first_start w0" and "active_knowledge (wd_program w0) (wd_disk (kn.run pre w0)) = Some x"
    and "list_all proof_found post"
  shows "\<exists>y. active_knowledge (wd_program w0) (wd_disk (kn.run (pre @ post) w0)) = Some y \<and>
    (ki_sequence (vk_identity x) < ki_sequence (vk_identity y) \<or> vk_identity y = vk_identity x)"
proof -
  have "wd_program (kn.run is w) = wd_program w" for "is" w
    by (induction "is" arbitrary: w) simp_all
  then show ?thesis
    using knowledge_run [OF kn.reachable_inv [OF assms(1)], of pre x post] assms(2,3) by (simp add: kn.run_append succeeds_def)
qed

section \<open>A sample\<close>

definition sample_settings :: taskmaster_settings where
  "sample_settings = default_settings\<lparr>ts_selection := Some
     \<lparr>sl_provider = ''p'', sl_model = ''m'', sl_reasoning_effort = None, sl_ollama_base_url = None\<rparr>\<rparr>"

definition sample_adapter :: adapter_identity where
  "sample_adapter = \<lparr>ad_harness_id = ''p'', ad_digest = sample_digest, ad_resolved_path = ''/b''\<rparr>"

definition sample_trust :: trust_document where
  "sample_trust = \<lparr>td_version = 1, td_generation = 3, td_grants = [(''p'', \<lparr>tg_digest = sample_digest, tg_resolved_path = ''/b''\<rparr>)]\<rparr>"

definition sample_disk :: runtime_disk where
  "sample_disk = \<lparr>dk_settings = Stored sample_settings, dk_ledger = Stored empty_ledger, dk_proof = [sample_digest \<mapsto> ''[]''],
     dk_trust = Stored sample_trust\<rparr>"

definition sample_data :: runtime_data where
  "sample_data = \<lparr>rt_settings = sample_settings, rt_verified = Some sample_verified, rt_key = Some sample_digest,
     rt_ledger = empty_ledger, rt_readable = True\<rparr>"

definition sample_ready :: runtime_world where
  "sample_ready = \<lparr>wd_program = sample_program, wd_root = ''/r'', wd_size = (\<lambda>_. 0), wd_disk = sample_disk, wd_views = (\<lambda>_. sample_data)\<rparr>"

definition sample_snapshot :: evaluation_snapshot where
  "sample_snapshot = \<lparr>es_rubric = None, es_settings = sample_settings, es_knowledge = Some sample_bundle, es_identity = Some (vk_identity sample_verified),
     es_generation = 0, es_custom = None, es_native = None\<rparr>"

definition sample_captured :: captured_inference where
  "sample_captured = \<lparr>ci_root = ''/r'', ci_workspace = ''/w'', ci_generation = 0, ci_settings = sample_settings,
     ci_identity = Some (vk_identity sample_verified), ci_adapter = sample_adapter, ci_trust_generation = 3\<rparr>"

definition sample_harness :: harness_view where
  "sample_harness = \<lparr>hv_revision = None, hv_resolve = (\<lambda>_. Some sample_adapter), hv_effort_args = (\<lambda>_. True)\<rparr>"

lemma sample_program_sel [simp]: "pr_crates sample_program = sample_crates" "pr_pem sample_program = ''key''"
  by (simp_all add: sample_program_def)

lemma sample_verify: "verify_activation sample_crates ''key'' (take (MAX_ACTIVATION_BYTES + 1) ''[]'') = Inr sample_verified"
  by (simp add: MAX_ACTIVATION_BYTES_def sample_accepted)

lemma sample_reload: "dk_settings d = Stored sample_settings \<Longrightarrow> dk_ledger d = Stored empty_ledger \<Longrightarrow>
    dk_proof d = [sample_digest \<mapsto> ''[]''] \<Longrightarrow> reload_durable sample_program sample_env d sample_data = sample_data"
  using sample_verify
  by (simp add: reload_durable_def reload_knowledge_def read_ledger_def read_settings_def sample_data_def read_json_def)

lemma sample_reload_disk: "reload_durable sample_program sample_env sample_disk sample_data = sample_data"
  by (rule sample_reload) (simp_all add: sample_disk_def)

lemma sample_data_sel [simp]:
  "rt_settings sample_data = sample_settings" "rt_verified sample_data = Some sample_verified" "rt_key sample_data = Some sample_digest"
  "rt_ledger sample_data = empty_ledger" "rt_readable sample_data"
  by (simp_all add: sample_data_def)

lemma sample_settings_sel [simp]:
  "ts_enabled sample_settings" "ts_selection sample_settings = Some
     \<lparr>sl_provider = ''p'', sl_model = ''m'', sl_reasoning_effort = None, sl_ollama_base_url = None\<rparr>"
  by (simp_all add: sample_settings_def default_settings_def)

lemma sample_effective [simp]: "effective_settings sample_settings w = sample_settings"
  by (simp add: effective_settings_def sample_settings_def default_settings_def)

lemma sample_snapshot_step:
  "runtime_step (0, sample_env, CallSnapshot ''/w'' False) sample_ready = (SnapshotReply (Some sample_snapshot), sample_ready)"
  by (simp add: runtime_step_def sample_ready_def evaluation_snapshot_with_disabled_def sample_reload_disk fun_upd_idem
      Let_def)
    (simp add: sample_snapshot_def empty_ledger_def sample_verified_def)

lemma sample_settings_valid: "validate_settings Some u sample_settings = Inr ()"
  by (simp add: validate_settings_def sample_settings_def default_settings_def validate_selection_def valid_selection_value_def
      MAX_DAILY_EVALUATIONS_def MAX_INTERVAL_MINUTES_def trim_def white1_def white2_def white3_def)

theorem settings_change_fences_evaluations_witness:
  "\<not> took_effect (fst (runtime_step (1, sample_env, CallCommit (Some sample_harness) ''/w'' sample_snapshot)
     (lr.run [] (runtime_next (1, sample_env, CallReplace sample_settings (\<lambda>_ _. None)) sample_ready))))"
proof (rule settings_change_fences_evaluations [where s = sample_snapshot and ?s1.0 = sample_snapshot and w = sample_ready and mid = "[]"])
  show "fst (runtime_step (0, sample_env, CallSnapshot ''/w'' False) sample_ready) = SnapshotReply (Some sample_snapshot)"
    by (simp add: sample_snapshot_step)
  show "sample_ready = lr.run [] (runtime_next (0, sample_env, CallSnapshot ''/w'' False) sample_ready)"
    by (simp add: runtime_next_def sample_snapshot_step)
  show "fst (runtime_step (1, sample_env, CallReplace sample_settings (\<lambda>_ _. None)) sample_ready) = UnitReply (Inr ())"
    by (simp add: runtime_step_def sample_ready_def reply_with_def replace_settings_with_reconcile_def sample_settings_valid
        sample_reload_disk write_ledger_def write_settings_def Let_def)
  show "dk_ledger (wd_disk sample_ready) = Stored empty_ledger" by (simp add: sample_ready_def sample_disk_def)
qed (simp_all add: sample_snapshot_def ledger_found_def)

definition sample_capture_call :: runtime_call where
  "sample_capture_call = CallCapture (Some sample_harness) ''/w'' sample_snapshot False"

lemma sample_trust_valid: "validate_document (sample_trust\<lparr>td_generation := n\<rparr>) = Inr ()"
  by (simp add: validate_document_def sample_trust_def MAX_GRANTS_def grant_bad_def sample_digest_def lower_hexdigit_def
      normalized_absolute_path_def is_absolute_def path_components_def segment_component_def collected_path_def list_all_iff)

lemma sample_trust_read: "stored_trust sample_disk = Inr sample_trust"
  using sample_trust_valid [of 3] by (simp add: stored_trust_def sample_disk_def) (simp add: sample_trust_def)

lemma sample_capture_step:
  "runtime_step (0, sample_env, sample_capture_call) sample_ready = (CaptureReply (Inr (Some sample_captured)), sample_ready)"
  by (simp add: runtime_step_def sample_ready_def sample_capture_call_def reply_with_def capture_custom_inference_with_disabled_def
      sample_reload_disk fun_upd_idem Let_def sample_snapshot_def sample_harness_def inspect_guarded_def read_trust_def sample_trust_read
      still_current_def proof_matches_def empty_ledger_def validate_selection_def valid_selection_value_def trim_def
      white1_def white2_def white3_def)
    (simp add: grants_def sample_trust_def sample_adapter_def sample_captured_def)

theorem trust_change_fences_inference_witness:
  "\<not> took_effect (fst (runtime_step (1, sample_env, CallCommit (Some sample_harness) ''/w'' (sample_snapshot\<lparr>es_custom := Some sample_captured\<rparr>))
     (lr.run [] (runtime_next (1, sample_env, CallRevoke ''other'' 3) sample_ready))))"
proof (rule trust_change_fences_inference [where ci = sample_captured and w = sample_ready and mid = "[]"])
  show "fst (runtime_step (0, sample_env, CallCapture (Some sample_harness) ''/w'' sample_snapshot False) sample_ready) =
      CaptureReply (Inr (Some sample_captured))"
    using sample_capture_step by (simp add: sample_capture_call_def)
  show "sample_ready = lr.run [] (runtime_next (0, sample_env, CallCapture (Some sample_harness) ''/w'' sample_snapshot False) sample_ready)"
    using sample_capture_step by (simp add: runtime_next_def sample_capture_call_def)
  show "fst (runtime_step (1, sample_env, CallRevoke ''other'' 3) sample_ready) = UnitReply (Inr ())"
    using sample_trust_valid [of 4]
    by (simp add: runtime_step_def sample_ready_def revoke_def read_trust_def sample_trust_read)
      (simp add: sample_trust_def persist_next_def checked_add_def)
  show "call_snapshot (CallCommit (Some sample_harness) ''/w'' (sample_snapshot\<lparr>es_custom := Some sample_captured\<rparr>)) =
      Some (sample_snapshot\<lparr>es_custom := Some sample_captured\<rparr>)" by simp
qed simp_all

definition sample_activate :: runtime_input where
  "sample_activate = (0, sample_env, CallActivate ''[]'')"

lemma sample_activated: "active_knowledge sample_program (wd_disk (runtime_next sample_activate sample_start)) = Some sample_verified"
proof -
  have "trusted_key sample_program = Some sample_digest" by (simp add: trusted_key_def sample_key_sha)
  moreover have "dk_proof (wd_disk (runtime_next sample_activate sample_start)) sample_digest = Some (vk_bytes sample_verified)"
    by (simp add: runtime_next_def runtime_step_def sample_activate_def sample_start_def reply_with_def activate_knowledge_def
        sample_accepted sample_view reload_no_proof no_files_def sample_view [unfolded no_files_def] knowledge_conflict_def
        install_proof_def write_ledger_def write_proof_def Let_def checked_add_def empty_ledger_def)
  ultimately show ?thesis using active_written [OF sample_accepted [folded sample_program_sel]] by simp
qed

theorem knowledge_never_rolls_back_witness:
  "\<exists>y. active_knowledge sample_program (wd_disk (kn.run ([sample_activate] @ [sample_activate]) sample_start)) = Some y \<and>
     (ki_sequence (vk_identity sample_verified) < ki_sequence (vk_identity y) \<or> vk_identity y = vk_identity sample_verified)"
proof -
  have "wd_program sample_start = sample_program" by (simp add: sample_start_def)
  with knowledge_never_rolls_back [OF sample_first, of "[sample_activate]" sample_verified "[sample_activate]"] sample_activated
  show ?thesis by (simp add: sample_activate_def)
qed

end
