(* ===== verification/Taskmaster_Budget.thy ===== *)
theory Taskmaster_Budget
  imports Taskmaster_Fences
begin

text \<open>
  The daily budget of background evaluations: whenever one is reserved, the views together have reserved
  no more on that day, this one included, than the daily limit of the settings in force at that moment.
\<close>

section \<open>What reservations count\<close>

fun on_day :: "string \<Rightarrow> runtime_input \<Rightarrow> bool" where
  "on_day D (v, e, CallReserve h w now key s) \<longleftrightarrow> day_of e now = D"
| "on_day D (v, e, CallReserveManual h w now key s refusal) \<longleftrightarrow> day_of e now = D"
| "on_day D _ \<longleftrightarrow> True"

fun is_background :: "runtime_call \<Rightarrow> bool" where
  "is_background (CallReserve h w now key s) \<longleftrightarrow> True"
| "is_background _ \<longleftrightarrow> False"

definition counted :: "runtime_input \<Rightarrow> runtime_world \<Rightarrow> nat" where
  "counted i w = (if is_background (snd (snd i)) \<and> fst (runtime_step i w) = BoolReply (Inr True) then 1 else 0)"

fun reservations_in :: "runtime_input list \<Rightarrow> runtime_world \<Rightarrow> nat" where
  "reservations_in [] w = 0"
| "reservations_in (i # is) w = counted i w + reservations_in is (runtime_next i w)"

section \<open>What a call does to the count of the day\<close>

definition tally :: "ledger \<Rightarrow> string \<times> u32" where
  "tally l = (lg_day l, lg_reservations l)"

lemma tally_unmarked [simp]: "tally (unmarked l) = tally l"
  by (simp add: tally_def)

text \<open>The stored ledger is left alone, or replaced by one with the tally of a change of the seen one.\<close>

definition retallied :: "runtime_env \<Rightarrow> (ledger \<Rightarrow> string \<times> u32) \<Rightarrow> runtime_disk \<Rightarrow> runtime_data \<Rightarrow> runtime_disk \<Rightarrow> bool" where
  "retallied e f d m d1 \<longleftrightarrow>
     dk_ledger d1 = dk_ledger d \<or> (\<exists>b l. seen_ledger e d m = Some b \<and> dk_ledger d1 = Stored l \<and> tally l = f b)"

lemma retallied_same: "dk_ledger d1 = dk_ledger d \<Longrightarrow> retallied e f d m d1"
  by (simp add: retallied_def)

lemma mutate_tally:
  assumes "mutate_ledger g e f d m = (r, d1, m1)" "\<And>b x l. f b = (x, l) \<Longrightarrow> tally l = tally b"
  shows "retallied e tally d m d1"
proof (cases "d1 = d")
  case False
  with assms(1) obtain a where a: "r = Inr a"
    by (auto simp: mutate_ledger_def Let_def split: option.splits if_split_asm prod.splits sum.splits)
  obtain b l where "seen_ledger e d m = Some b" "f b = (Inr a, l)" "dk_ledger d1 = Stored (unmarked l)"
    by (rule mutate_success [OF assms(1) [unfolded a]])
  with assms(2) show ?thesis by (auto simp: retallied_def)
qed (simp add: retallied_same)

lemma workspace_tally:
  assumes "with_workspace e w (\<lambda>key. mutate_ledger g e (f key) d m) d m = (r, d1, m1)"
    and "\<And>key b x l. f key b = (x, l) \<Longrightarrow> tally l = tally b"
  shows "retallied e tally d m d1"
  using assms mutate_tally [of g e _ d m r d1 m1] by (auto simp: with_workspace_def retallied_same split: option.splits)

lemma change_tally:
  "queue_change e key t p x b = (r1, l) \<Longrightarrow> tally l = tally b"
  "mark_change e key i p x b = (r2, l) \<Longrightarrow> tally l = tally b"
  "finish_change e key i st err c b = (r2, l) \<Longrightarrow> tally l = tally b"
  "manual_change e key i disp reason b = (r2, l) \<Longrightarrow> tally l = tally b"
  "clear_change key i b = (r2, l) \<Longrightarrow> tally l = tally b"
  "recover_change e key b = (r2, l) \<Longrightarrow> tally l = tally b"
  by (auto simp: tally_def queue_change_def mark_change_def finish_change_def manual_change_def clear_change_def recover_change_def
      drop_if_bare_def Let_def split: option.splits if_split_asm)

lemma runs_tally:
  "queue_run g e w t p x d m = (r1, d1, m1) \<Longrightarrow> retallied e tally d m d1"
  "mark_run_running g e w i p x d m = (r2, d1, m1) \<Longrightarrow> retallied e tally d m d1"
  "finish_run_with_counts g e w i st err c d m = (r2, d1, m1) \<Longrightarrow> retallied e tally d m d1"
  "finish_manual_request_without_outcome g e w i disp reason d m = (r2, d1, m1) \<Longrightarrow> retallied e tally d m d1"
  "clear_run g e w i d m = (r2, d1, m1) \<Longrightarrow> retallied e tally d m d1"
  "recover_workspace_run g e w d m = (r2, d1, m1) \<Longrightarrow> retallied e tally d m d1"
  unfolding queue_run_def mark_run_running_def finish_run_with_counts_def finish_manual_request_without_outcome_def
    clear_run_def recover_workspace_run_def
  by (erule workspace_tally, erule change_tally)+

lemma replace_tally:
  "replace_settings_with_reconcile g e st rec d m = (r, d1, m1) \<Longrightarrow> retallied e tally d m d1"
  by (cases "seen_ledger e d m")
    (auto simp: replace_settings_with_reconcile_def Let_def reload_ledger write_settings_def retallied_def tally_def
      dest!: write_ledger_Inr split: option.splits sum.splits if_split_asm)

lemma activate_tally:
  assumes "activate_knowledge g e bytes d m = (r, d1, m1)"
  shows "retallied e tally d m d1"
  using assms
proof (cases rule: activate_cases)
  case (2 v n)
  then obtain b where seen: "seen_ledger e d m = Some b" using reload_ledger(1) by blast
  have "tally (rt_ledger m1) = tally b"
    using install_effect(1) [OF 2(6)] reload_ledger(2) [OF seen] by (simp add: tally_def)
  with install_effect(2) [OF 2(6)] seen show ?thesis by (auto simp: retallied_def)
qed (simp add: retallied_same)

text \<open>A guard does nothing, or acts on the view that was read again.\<close>

lemma guard_acts:
  assumes "with_current_evaluation g e root h w s act d m = (x, d1, m1)"
  shows "(d1 = d \<and> (\<forall>a. x \<noteq> Inr (Some a))) \<or>
    (\<exists>a. x = Inr (Some a) \<and> act d (reload_durable g e d m) = (a, d1, m1) \<and> rt_readable (reload_durable g e d m))"
  using assms
  by (auto simp: with_current_evaluation_def with_current_native_data_def with_current_custom_data_def still_current_def
      Let_def split: option.splits if_split_asm prod.splits sum.splits)

lemma reloaded_view:
  assumes "rt_readable (reload_durable g e d m)"
  shows "seen_ledger e d m = Some (rt_ledger (reload_durable g e d m))"
  using assms reload_ledger(1,2) by (metis option.exhaust)

lemma success_tally:
  assumes "record_evaluation_success g e root h w s key d m = (r, d1, m1)"
  shows "retallied e tally d m d1"
proof (cases "en_canonical e w")
  case None
  with assms show ?thesis by (simp add: record_evaluation_success_def retallied_same)
next
  case (Some k)
  define act where "act = (\<lambda>d1 (m1 :: runtime_data).
    let l = (rt_ledger m1)\<lparr>lg_cache_keys := (lg_cache_keys (rt_ledger m1))(k \<mapsto> key)\<rparr> in
    case write_ledger e l d1 of
      Inl x \<Rightarrow> (Inl x, d1, m1\<lparr>rt_ledger := l\<rparr>)
    | Inr d2 \<Rightarrow> (Inr True, d2, m1\<lparr>rt_ledger := l\<rparr>))"
  obtain x where x: "with_current_evaluation g e root h w s act d m = (x, d1, m1)"
    using assms Some
    by (cases "with_current_evaluation g e root h w s act d m")
      (auto simp: record_evaluation_success_def act_def [symmetric] split: sum.splits option.splits)
  from guard_acts [OF x] show ?thesis
  proof (elim disjE exE conjE)
    fix a
    assume a: "act d (reload_durable g e d m) = (a, d1, m1)" and "rt_readable (reload_durable g e d m)"
    from reloaded_view [OF this(2)] a show ?thesis
      by (auto simp: act_def Let_def retallied_def tally_def dest!: write_ledger_Inr split: sum.splits)
  qed (simp add: retallied_same)
qed

section \<open>Reservations\<close>

definition day_tally :: "string \<Rightarrow> bool \<Rightarrow> ledger \<Rightarrow> string \<times> u32" where
  "day_tally D manual b = (D, if manual then lg_reservations (roll_day D b) else saturating_add (lg_reservations (roll_day D b)) 1)"

lemma reserve_tally:
  assumes "reserve_loaded e w now key gen bypass allow manual d m = (r, d1, m1)"
  shows "(r \<noteq> Inr Reserved \<and> d1 = d) \<or>
    (r = Inr Reserved \<and> (\<exists>l. dk_ledger d1 = Stored l \<and> tally l = day_tally (day_of e now) manual (rt_ledger m)) \<and>
     (\<not> manual \<longrightarrow> lg_reservations (roll_day (day_of e now) (rt_ledger m)) < ts_daily_limit (rt_settings m)))"
proof -
  have day: "lg_day (roll_day D b) = D" for D b by (simp add: roll_day_def)
  show ?thesis
    using assms
    by (auto simp: reserve_loaded_def Let_def day tally_def day_tally_def not_le dest!: write_ledger_Inr
        split: option.splits if_split_asm sum.splits)
qed

lemma reload_settings: "rt_settings (reload_durable g e d m) = reloaded_settings e d m"
  by (simp add: reload_durable_def reload_knowledge_def reloaded_settings_def split: prod.splits)

lemma snapshot_tally:
  assumes "reserve_snapshot_with_interval g e root h w now key s manual None d m = (r, d1, m1)"
  shows "(r \<noteq> Inr Reserved \<and> d1 = d) \<or>
    (r = Inr Reserved \<and> (\<exists>b l. seen_ledger e d m = Some b \<and> dk_ledger d1 = Stored l \<and> tally l = day_tally (day_of e now) manual b \<and>
     (\<not> manual \<longrightarrow> lg_reservations (roll_day (day_of e now) b) < ts_daily_limit (reloaded_settings e d m))))"
proof -
  define act where "act = reserve_loaded e w now (Some key) (Some (es_generation s)) manual manual manual"
  obtain x where x: "with_current_evaluation g e root h w s act d m = (x, d1, m1)"
    and r: "r = (case x of Inl y \<Rightarrow> Inl y | Inr None \<Rightarrow> Inr ContextChanged | Inr (Some y) \<Rightarrow> y)"
    using assms
    by (cases "with_current_evaluation g e root h w s act d m")
      (auto simp: reserve_snapshot_with_interval_def act_def [symmetric] Let_def split: sum.splits option.splits)
  from guard_acts [OF x] show ?thesis
  proof (elim disjE exE conjE)
    assume "d1 = d" "\<forall>a. x \<noteq> Inr (Some a)"
    then show ?thesis using r by (auto split: sum.splits option.splits)
  next
    fix a
    assume a: "x = Inr (Some a)" "act d (reload_durable g e d m) = (a, d1, m1)" and "rt_readable (reload_durable g e d m)"
    note seen = reloaded_view [OF this(3)]
    have ra: "r = a" using r a(1) by simp
    note t = reserve_tally [OF a(2) [unfolded act_def], unfolded reload_settings]
    then show ?thesis using seen ra by auto
  qed
qed

lemma manual_tally:
  assumes "reserve_snapshot_with_interval g e root h w now key s True refusal d m = (r, d1, m1)"
  shows "retallied e (day_tally (day_of e now) True) d m d1"
proof (cases refusal)
  case None
  from snapshot_tally [OF assms [unfolded None]] show ?thesis by (auto simp: retallied_def)
next
  case (Some x)
  obtain y where "with_current_evaluation g e root h w s (\<lambda>d1 m1. (x, d1, m1)) d m = (y, d1, m1)"
    using assms Some
    by (cases "with_current_evaluation g e root h w s (\<lambda>d1 m1. (x, d1, m1)) d m")
      (auto simp: reserve_snapshot_with_interval_def Let_def split: sum.splits option.splits)
  from guard_acts [OF this] show ?thesis by (auto simp: retallied_def)
qed

text \<open>The calls that may count.\<close>

fun reserves :: "runtime_call \<Rightarrow> bool" where
  "reserves (CallReserve h w now key s) \<longleftrightarrow> True"
| "reserves (CallReserveManual h w now key s refusal) \<longleftrightarrow> True"
| "reserves _ \<longleftrightarrow> False"

lemma quiet_tally:
  assumes "runtime_answer g root size_of e c d m = (r, d1, m1)" "\<not> reserves c"
  shows "retallied e tally d m d1"
proof (cases c)
  case CallOpen
  then show ?thesis using assms(1) by (auto simp: retallied_def)
next
  case CallAvailability
  then show ?thesis using assms(1)
    by (auto simp: brain_knowledge_availability_def Let_def retallied_def split: option.splits)
next
  case (CallSnapshot w allow)
  then show ?thesis using assms(1)
    by (auto simp: evaluation_snapshot_with_disabled_def Let_def retallied_def split: option.splits)
next
  case (CallCapture h w s allow)
  then show ?thesis using assms(1)
    by (auto simp: reply_with_eq capture_custom_inference_with_disabled_def Let_def retallied_def
        split: option.splits sum.splits if_split_asm)
next
  case (CallRunStatus w)
  then show ?thesis using assms(1)
    by (auto simp: reply_with_eq run_status_def with_workspace_def Let_def retallied_def split: option.splits if_split_asm)
next
  case (CallApprove a expected)
  then show ?thesis using assms(1) trust_keeps_ledger(1) [of size_of e a expected d] by (auto simp: retallied_def split: prod.splits)
next
  case (CallRevoke i n)
  then show ?thesis using assms(1) trust_keeps_ledger(2) [of size_of e i n d] by (auto simp: retallied_def split: prod.splits)
next
  case (CallCommit h w s)
  then obtain x where x: "with_current_evaluation g e root h w s (\<lambda>d1 m1. ((), d1, m1)) d m = (x, d1, m1)"
    using assms(1) by (auto simp: reply_with_eq)
  from guard_acts [OF x] show ?thesis by (auto simp: retallied_def)
qed (use assms in \<open>auto simp: reply_with_eq dest: runs_tally replace_tally activate_tally success_tally\<close>)

section \<open>The budget\<close>

definition covers :: "string \<Rightarrow> nat \<Rightarrow> string \<times> u32 \<Rightarrow> bool" where
  "covers D n t \<longleftrightarrow> n = 0 \<or> (fst t = D \<and> n \<le> unat (snd t))"

text \<open>A count of reservations that the stored ledger accounts for.\<close>

definition accounted :: "string \<Rightarrow> nat \<Rightarrow> runtime_disk \<Rightarrow> bool" where
  "accounted D n d \<longleftrightarrow> (case dk_ledger d of Stored l \<Rightarrow> covers D n (tally l) | Absent \<Rightarrow> n = 0 | Unreadable \<Rightarrow> True)"

lemma accounted_seen: "accounted D n d \<Longrightarrow> ledger_found (v, e, c) \<Longrightarrow> seen_ledger e d m = Some b \<Longrightarrow> covers D n (tally b)"
  using seen_found [of e d m b v c] by (auto simp: accounted_def covers_def)

lemma accounted_retallied:
  assumes "accounted D n d" "ledger_found (v, e, c)" "retallied e f d m d1" "\<And>b. covers D n (tally b) \<Longrightarrow> covers D n (f b)"
  shows "accounted D n d1"
  using assms(3) unfolding retallied_def
proof (elim disjE exE conjE)
  assume "dk_ledger d1 = dk_ledger d"
  then show ?thesis using assms(1) by (simp add: accounted_def)
next
  fix b l
  assume "seen_ledger e d m = Some b" "dk_ledger d1 = Stored l" "tally l = f b"
  with accounted_seen [OF assms(1,2)] assms(4) show ?thesis by (simp add: accounted_def)
qed

lemma rolled_covers: "covers D n (tally b) \<Longrightarrow> n \<le> unat (lg_reservations (roll_day D b))"
  by (auto simp: covers_def tally_def roll_day_def)

lemma saturating_below: "n < L \<Longrightarrow> unat (saturating_add n 1) = unat n + 1 \<and> unat n + 1 \<le> unat (L :: u32)"
proof -
  assume "n < L"
  then have "unat n < unat L" by (simp add: word_less_nat_alt)
  moreover have "unat L < 2 ^ 32" using unsigned_less [of L] by simp
  ultimately show ?thesis by (simp add: saturating_add_def unat_word_ariths)
qed

text \<open>A background reservation counts, and it was checked against the settings the call read.\<close>

lemma background_step:
  assumes "runtime_answer g root size_of e (CallReserve h w now key s) d m = (BoolReply (Inr True), d1, m1)"
    and "accounted (day_of e now) n d" "ledger_found (v, e, CallReserve h w now key s)"
  shows "accounted (day_of e now) (n + 1) d1" "n + 1 \<le> unat (ts_daily_limit (reloaded_settings e d m))"
proof -
  let ?D = "day_of e now" and ?L = "ts_daily_limit (reloaded_settings e d m)"
  obtain x where x: "reserve_snapshot_with_interval g e root h w now key s False None d m = (x, d1, m1)"
    and "map_sum (\<lambda>x. x) (\<lambda>v. v = Reserved) x = Inr True"
    using assms(1) by (auto simp: reply_with_eq reserve_snapshot_def split: prod.splits)
  then have "x = Inr Reserved" by (cases x) auto
  with snapshot_tally [OF x] obtain b l where b: "seen_ledger e d m = Some b"
    and l: "dk_ledger d1 = Stored l" "tally l = day_tally ?D False b" and below: "lg_reservations (roll_day ?D b) < ?L" by auto
  have "n \<le> unat (lg_reservations (roll_day ?D b))" using rolled_covers [OF accounted_seen [OF assms(2,3) b]] .
  with saturating_below [OF below] l show "accounted ?D (n + 1) d1" "n + 1 \<le> unat ?L"
    by (simp_all add: accounted_def covers_def day_tally_def)
qed

lemma budget_step:
  assumes "runtime_answer g root size_of e c d m = (r, d1, m1)" "accounted D n d" "on_day D (v, e, c)" "ledger_found (v, e, c)"
  shows "accounted D (n + (if is_background c \<and> r = BoolReply (Inr True) then 1 else 0)) d1"
proof (cases "reserves c")
  case False
  then have "\<not> is_background c" by (cases c) simp_all
  with accounted_retallied [OF assms(2,4) quiet_tally [OF assms(1) False]] show ?thesis by simp
next
  case True
  then show ?thesis
  proof (cases c)
    case (CallReserve h w now key s)
    then have day: "D = day_of e now" using assms(3) by simp
    show ?thesis
    proof (cases "r = BoolReply (Inr True)")
      case True
      with background_step(1) [of g root size_of e h w now key s d m d1 m1 n v] assms CallReserve day show ?thesis by simp
    next
      case False
      obtain x where x: "reserve_snapshot_with_interval g e root h w now key s False None d m = (x, d1, m1)"
        and r: "r = BoolReply (map_sum (\<lambda>x. x) (\<lambda>v. v = Reserved) x)"
        using assms(1) CallReserve by (auto simp: reply_with_eq reserve_snapshot_def split: prod.splits)
      with snapshot_tally [OF x] False have "d1 = d" by auto
      with False assms(2) show ?thesis by simp
    qed
  next
    case (CallReserveManual h w now key s refusal)
    then have day: "day_of e now = D" using assms(3) by simp
    obtain x where "reserve_snapshot_with_interval g e root h w now key s True refusal d m = (x, d1, m1)"
      using assms(1) CallReserveManual by (auto simp: reply_with_eq reserve_manual_snapshot_with_admission_def)
    note t = manual_tally [OF this, unfolded day]
    have "covers D n (day_tally D True b)" if "covers D n (tally b)" for b
      using rolled_covers [OF that] by (simp add: covers_def day_tally_def)
    from accounted_retallied [OF assms(2,4) t this] CallReserveManual show ?thesis by simp
  qed simp_all
qed

lemma budget_run:
  "list_all (on_day D) is \<Longrightarrow> list_all ledger_found is \<Longrightarrow> accounted D n (wd_disk w) \<Longrightarrow>
     accounted D (n + reservations_in is w) (wd_disk (lr.run is w))"
proof (induction "is" arbitrary: w n)
  case (Cons i "is")
  obtain v e c where i: "i = (v, e, c)" by (cases i)
  obtain d m where a: "runtime_answer (wd_program w) (wd_root w) (wd_size w) e c (wd_disk w) (wd_views w v) =
      (fst (runtime_step (v, e, c) w), d, m)" and d: "wd_disk (runtime_next (v, e, c) w) = d"
    by (rule step_answer [OF refl])
  have "on_day D (v, e, c)" "ledger_found (v, e, c)" using Cons.prems(1,2) i by simp_all
  from budget_step [OF a Cons.prems(3) this]
  have "accounted D (n + counted i w) (wd_disk (runtime_next i w))" by (simp add: counted_def i d)
  from Cons.IH [OF _ _ this] Cons.prems(1,2) show ?case by (simp add: add.assoc)
qed simp

text \<open>
  C7: However many views there are, and however their calls interleave, fail or reopen the files: whenever
  a background evaluation is reserved, the background evaluations reserved since any earlier moment,
  this one included, are within the daily limit of the settings that the reserving call found, if the
  reservations in between are for the same day. The settings it found are the stored ones, or those its
  view had when they cannot be read. Manual evaluations, settings changes and restarts never give
  budget back. Reads and writes may fail; only the query whether the ledger exists is taken to be
  answered truly.
\<close>

theorem daily_budget_holds:
  assumes "w = lr.run is w0" and "fst (runtime_step (v, e, CallReserve h ws now key s) w) = BoolReply (Inr True)"
    and "list_all (on_day (day_of e now)) is" and "list_all ledger_found (is @ [(v, e, CallReserve h ws now key s)])"
  shows "reservations_in is w0 + 1 \<le> unat (ts_daily_limit (reloaded_settings e (wd_disk w) (wd_views w v)))"
proof -
  obtain d m where a: "runtime_answer (wd_program w) (wd_root w) (wd_size w) e (CallReserve h ws now key s) (wd_disk w) (wd_views w v) =
      (BoolReply (Inr True), d, m)"
    by (rule step_answer [OF assms(2)])
  have "accounted (day_of e now) 0 (wd_disk w0)" by (simp add: accounted_def covers_def split: json_file.splits)
  from budget_run [OF assms(3) _ this] assms(1,4) have "accounted (day_of e now) (reservations_in is w0) (wd_disk w)" by simp
  from background_step(2) [OF a this, of v] assms(4) show ?thesis by simp
qed

definition sample_reserve :: runtime_input where
  "sample_reserve = (1, sample_env, CallReserve (Some sample_harness) ''/w'' ''2026-01-01T00:00:00Z'' ''k''
     (sample_snapshot\<lparr>es_custom := Some sample_captured\<rparr>))"

text \<open>Reservations do happen: a captured evaluation reserves on a ready runtime, while the budget lasts.\<close>

definition sample_on :: "ledger \<Rightarrow> runtime_disk" where
  "sample_on l = sample_disk\<lparr>dk_ledger := Stored l\<rparr>"

lemma sample_reload_on:
  "reload_durable sample_program sample_env (sample_on l) (sample_data\<lparr>rt_ledger := x\<rparr>) = sample_data\<lparr>rt_ledger := l\<rparr>"
  using sample_verify
  by (simp add: sample_on_def sample_disk_def reload_durable_def reload_knowledge_def read_ledger_def read_settings_def sample_data_def
      read_json_def)

lemma sample_trust_on: "read_trust sample_env (sample_on l) = Inr sample_trust"
  using sample_trust_read by (simp add: read_trust_def sample_on_def stored_trust_def)

definition one_more :: "ledger \<Rightarrow> ledger" where
  "one_more l = (let l1 = roll_day ''2026-01-01'' l in
     l1\<lparr>lg_reservations := saturating_add (lg_reservations l1) 1,
        lg_last_evaluated := (lg_last_evaluated l1)(''/w'' \<mapsto> ''2026-01-01T00:00:00Z'')\<rparr>)"

lemma sample_day: "day_of sample_env ''2026-01-01T00:00:00Z'' = ''2026-01-01''"
  by (simp add: day_of_def is_char_boundary_def continuation_def)

lemma sample_admits:
  assumes "lg_generation l = 0" "lg_cache_keys l = Map.empty" "lg_reservations (roll_day ''2026-01-01'' l) < 8"
  shows "reserve_loaded sample_env ''/w'' ''2026-01-01T00:00:00Z'' (Some ''k'') (Some 0) False False False (sample_on l)
    (sample_data\<lparr>rt_ledger := l\<rparr>) = (Inr Reserved, sample_on (unmarked (one_more l)), sample_data\<lparr>rt_ledger := one_more l\<rparr>)"
proof -
  have "ts_daily_limit sample_settings = 8" by (simp add: sample_settings_def default_settings_def)
  moreover have "lg_cache_keys (roll_day D l) = Map.empty" for D using assms(2) by (simp add: roll_day_def)
  ultimately show ?thesis using assms(1,3)
    by (simp add: reserve_loaded_def sample_day too_soon_def write_ledger_def one_more_def unmarked_def sample_on_def Let_def
        linorder_not_le split: option.splits)
qed

lemma sample_reserves:
  assumes "lg_generation l = 0" "lg_cache_keys l = Map.empty" "lg_reservations (roll_day ''2026-01-01'' l) < 8"
  shows "runtime_step sample_reserve (sample_ready\<lparr>wd_disk := sample_on l, wd_views := (\<lambda>_. sample_data)(1 := sample_data\<lparr>rt_ledger := x\<rparr>)\<rparr>) =
    (BoolReply (Inr True), sample_ready\<lparr>wd_disk := sample_on (unmarked (one_more l)),
       wd_views := (\<lambda>_. sample_data)(1 := sample_data\<lparr>rt_ledger := one_more l\<rparr>)\<rparr>)"
proof -
  have "grants sample_trust sample_adapter" "td_generation sample_trust = 3"
    by (simp_all add: grants_def sample_trust_def sample_adapter_def)
  then show ?thesis
    using sample_admits [OF assms] assms(1)
    by (simp add: sample_reserve_def runtime_step_def sample_ready_def reply_with_def reserve_snapshot_def
        reserve_snapshot_with_interval_def with_current_evaluation_def matches_snapshot_def with_current_custom_data_def
        sample_snapshot_def sample_captured_def sample_harness_def inspect_guarded_def sample_trust_on sample_reload_on Let_def
        still_current_def proof_matches_def)
qed

lemma sample_ready_on:
  "sample_ready = sample_ready\<lparr>wd_disk := sample_on empty_ledger, wd_views := (\<lambda>_. sample_data)(1 := sample_data\<lparr>rt_ledger := empty_ledger\<rparr>)\<rparr>"
  by (simp add: sample_ready_def sample_on_def sample_disk_def sample_data_def fun_upd_idem)

lemma sample_first_reserved:
  "runtime_step sample_reserve sample_ready = (BoolReply (Inr True), sample_ready\<lparr>wd_disk := sample_on (unmarked (one_more empty_ledger)),
     wd_views := (\<lambda>_. sample_data)(1 := sample_data\<lparr>rt_ledger := one_more empty_ledger\<rparr>)\<rparr>)"
  by (subst sample_ready_on, rule sample_reserves) (simp_all add: empty_ledger_def roll_day_def)

lemma sample_second_reserved: "fst (runtime_step sample_reserve (runtime_next sample_reserve sample_ready)) = BoolReply (Inr True)"
  unfolding runtime_next_def sample_first_reserved snd_conv
  by (subst sample_reserves) (simp_all add: empty_ledger_def roll_day_def one_more_def unmarked_def saturating_add_def)

theorem daily_budget_holds_witness:
  "reservations_in [sample_reserve] sample_ready = 1 \<and>
   reservations_in [sample_reserve] sample_ready + 1 \<le> unat (ts_daily_limit sample_settings)"
proof
  show "reservations_in [sample_reserve] sample_ready = 1"
    by (simp add: counted_def sample_first_reserved) (simp add: sample_reserve_def)
  let ?w = "lr.run [sample_reserve] sample_ready"
  have "reservations_in [sample_reserve] sample_ready + 1 \<le> unat (ts_daily_limit (reloaded_settings sample_env (wd_disk ?w) (wd_views ?w 1)))"
  proof (rule daily_budget_holds [OF refl])
    show "fst (runtime_step (1, sample_env, CallReserve (Some sample_harness) ''/w'' ''2026-01-01T00:00:00Z'' ''k''
        (sample_snapshot\<lparr>es_custom := Some sample_captured\<rparr>)) ?w) = BoolReply (Inr True)"
      using sample_second_reserved by (simp add: sample_reserve_def)
  qed (simp_all add: sample_reserve_def ledger_found_def)
  moreover have "reloaded_settings sample_env (wd_disk ?w) (wd_views ?w 1) = sample_settings"
    by (simp add: runtime_next_def sample_first_reserved reloaded_settings_def read_settings_def read_json_def sample_on_def
        sample_disk_def)
  ultimately show "reservations_in [sample_reserve] sample_ready + 1 \<le> unat (ts_daily_limit sample_settings)" by simp
qed

end
