(* ===== verification/Evidence_Policy.thy ===== *)
theory Evidence_Policy
  imports Taskmaster_Settings Unix_Path
begin

text \<open>
  Which repository files an assessment may show, and what happens to saved evidence when the settings
  change: the path policy of \<^verbatim>\<open>taskmaster/context.rs\<close>, the input manifest of
  \<^verbatim>\<open>taskmaster/assessment_context.rs\<close>, the records of \<^verbatim>\<open>taskmaster/assessment_report.rs\<close> and the redaction
  of \<^verbatim>\<open>taskmaster/assessment_access.rs\<close>. Paths are those of Unix.
\<close>

section \<open>The path policy\<close>

definition slash :: byte where "slash = CHR ''/''"

definition trim_slashes :: "string \<Rightarrow> string" where
  "trim_slashes s = rev (dropWhile (\<lambda>c. c = slash) (rev (dropWhile (\<lambda>c. c = slash) s)))"

definition backslash_to_slash :: "byte \<Rightarrow> byte" where
  "backslash_to_slash c = (if byte_val c = 92 then slash else c)"

definition normalize_exclusion :: "string \<Rightarrow> string" where
  "normalize_exclusion configured = trim_slashes (trim (map backslash_to_slash configured))"

definition path_is_excluded :: "string \<Rightarrow> string \<Rightarrow> bool" where
  "path_is_excluded relative configured =
     (let c = normalize_exclusion configured in c \<noteq> [] \<and> (relative = c \<or> starts_with relative (c @ [slash])))"

definition BUILTIN_NAMES :: "string list" where
  "BUILTIN_NAMES =
     [''.git'', ''.orkworks'', ''node_modules'', ''target'', ''dist'', ''build'', ''.ssh'', ''.aws'', ''.azure'', ''.gcloud'',
      ''.codex'', ''.claude'']"

text \<open>The name of a component as an operating-system string.\<close>

fun component_os_str :: "path_component \<Rightarrow> string" where
  "component_os_str RootDir = ''/''"
| "component_os_str CurDir = ''.''"
| "component_os_str ParentDir = ''..''"
| "component_os_str (Normal n) = n"

definition builtin_excluded :: "string \<Rightarrow> bool" where
  "builtin_excluded relative =
     (list_ex (\<lambda>part. to_ascii_lowercase (component_os_str part) \<in> set BUILTIN_NAMES) (path_components relative) \<or>
      (let name = to_ascii_lowercase (case file_name relative of None \<Rightarrow> [] | Some n \<Rightarrow> n) in
       name = ''.env'' \<or> starts_with name ''.env.'' \<or> contains name ''credential'' \<or> contains name ''secret'' \<or>
       ends_with name ''.pem'' \<or> ends_with name ''.key'' \<or> ends_with name ''.p12''))"

definition ALWAYS_ALLOWED :: "string list" where
  "ALWAYS_ALLOWED =
     [''AGENTS.md'', ''CLAUDE.md'', ''README.md'', ''Cargo.toml'', ''package.json'', ''pyproject.toml'', ''go.mod'', ''.gitignore'']"

definition SOURCE_EXTENSIONS :: "string list" where
  "SOURCE_EXTENSIONS = [''rs'', ''ts'', ''tsx'', ''js'', ''jsx'', ''py'', ''go'', ''java'', ''kt'', ''cs'']"

definition allowed_file :: "string \<Rightarrow> context_level \<Rightarrow> bool" where
  "allowed_file p level =
     (let name = (case file_name p of None \<Rightarrow> [] | Some n \<Rightarrow> n);
          extension = (case path_extension p of None \<Rightarrow> [] | Some x \<Rightarrow> x)
      in name \<in> set ALWAYS_ALLOWED \<or> extension = ''md'' \<or>
         (path_starts_with p ''.github/workflows'' \<and> extension \<in> {''yml'', ''yaml''}) \<or>
         (level = SourceCode \<and> extension \<in> set SOURCE_EXTENSIONS))"

definition fact_is_permitted :: "string \<Rightarrow> context_level \<Rightarrow> string list \<Rightarrow> bool" where
  "fact_is_permitted p level excluded \<longleftrightarrow>
     level \<noteq> SessionObservations \<and> \<not> is_absolute p \<and> \<not> list_ex (\<lambda>c. c = ParentDir) (path_components p) \<and>
     \<not> list_ex (path_is_excluded p) excluded \<and> \<not> builtin_excluded p \<and> allowed_file p level"

section \<open>Narrowed access\<close>

fun context_rank :: "context_level \<Rightarrow> nat" where
  "context_rank SessionObservations = 0"
| "context_rank WorkflowContext = 1"
| "context_rank SourceCode = 2"

definition access_narrowed :: "context_level \<Rightarrow> string list \<Rightarrow> taskmaster_settings \<Rightarrow> bool" where
  "access_narrowed previous excluded current \<longleftrightarrow>
     context_rank (ts_context_level current) < context_rank previous \<or>
     list_ex (\<lambda>new. \<not> list_ex (path_is_excluded new) excluded) (ts_excluded_paths current)"

section \<open>The input manifest\<close>

datatype omission_reason = EvidenceLimit

record selection_omission =
  so_id :: nat
  so_reason :: omission_reason

record manifest_file =
  fl_path :: string
  fl_sha256 :: string
  fl_bytes :: nat
  fl_seed :: bool
  fl_excerpt_start :: nat
  fl_excerpt_end :: nat
  fl_excerpt_digest :: string

record input_manifest =
  im_purpose :: "string option"
  im_context_level :: context_level
  im_excluded_paths :: "string list"
  im_collector_version :: u8
  im_prompt_version :: string
  im_catalog_digest :: string
  im_catalog_complete :: bool
  im_instruction_coverage :: bool
  im_files :: "manifest_file list"
  im_requested_ids :: "nat list"
  im_preferred_ids :: "nat list"
  im_omissions :: "selection_omission list"
  im_discovery_digest :: "string option"
  im_redacted :: bool

definition COLLECTOR_VERSION :: u8 where "COLLECTOR_VERSION = 3"
definition READINESS_COLLECTOR_VERSION :: u8 where "READINESS_COLLECTOR_VERSION = 4"
definition ASSESSMENT_PROMPT_VERSION :: string where "ASSESSMENT_PROMPT_VERSION = ''taskmaster-assessment-v2''"
definition READINESS_PROMPT_VERSION :: string where "READINESS_PROMPT_VERSION = ''taskmaster-readiness-v5''"
definition MAX_PREFIX :: nat where "MAX_PREFIX = 8192"
definition MAX_TOTAL :: nat where "MAX_TOTAL = 65536"

definition valid_digest :: "string \<Rightarrow> bool" where
  "valid_digest t \<longleftrightarrow> length t = 64 \<and> list_all ascii_hexdigit t"

definition canonical_relative_path :: "string \<Rightarrow> string option" where
  "canonical_relative_path p =
     (let cs = path_components p in
      if list_all (\<lambda>c. case c of Normal _ \<Rightarrow> True | _ \<Rightarrow> False) cs then Some (join (CHR ''/'') (map component_text cs)) else None)"

definition readiness_prompts :: "string list" where
  "readiness_prompts = [''taskmaster-readiness-v3'', ''taskmaster-readiness-v4'', READINESS_PROMPT_VERSION]"

definition prompt_mismatch :: "input_manifest \<Rightarrow> bool" where
  "prompt_mismatch i =
     (case im_purpose i of
        None \<Rightarrow> im_collector_version i = READINESS_COLLECTOR_VERSION \<or> im_prompt_version i \<noteq> ASSESSMENT_PROMPT_VERSION
      | Some p \<Rightarrow>
          if p \<noteq> ''readiness'' then True
          else if im_collector_version i = READINESS_COLLECTOR_VERSION then im_prompt_version i \<notin> set readiness_prompts
          else im_prompt_version i \<notin> {''taskmaster-readiness-v1'', ''taskmaster-readiness-v2''})"

definition preference_bad :: "input_manifest \<Rightarrow> bool" where
  "preference_bad i \<longleftrightarrow>
     im_purpose i \<noteq> Some ''readiness'' \<or> im_prompt_version i \<notin> set readiness_prompts \<or> length (im_preferred_ids i) > 8 \<or>
     \<not> distinct (im_preferred_ids i) \<or> list_ex (\<lambda>x. x \<ge> 512) (im_preferred_ids i) \<or>
     \<not> distinct (map so_id (im_omissions i)) \<or> \<not> set (map so_id (im_omissions i)) \<subseteq> set (im_preferred_ids i) \<or>
     filter (\<lambda>x. x \<notin> set (map so_id (im_omissions i))) (im_preferred_ids i) \<noteq> im_requested_ids i"

datatype assessment_error =
    ManifestInvalid | PreferenceInvalid | PreferenceUnexpected | RedactionIncomplete | ManifestDigest | ManifestFileInvalid
  | ManifestLimits | ReferenceFormat | CompletedInvalid | PendingInvalid | RunningInvalid | InstructionsMissing
  | PolicyInconsistent | ManifestMissing | DiscoveryMissing | VersionInvalid | ReportMissing | IdentityInvalid
  | ProvenanceMissing | PendingIdentity | RecommendationMissing | PublicationState | ReportTooLarge | LegacyFields
  | SaveFailed | ReportUnreadable | LifecycleChanged | UpsertFailed | WorkspaceChanged | ContextLost | NotCommitted

definition file_bad :: "bool \<Rightarrow> string list \<Rightarrow> manifest_file \<Rightarrow> bool" where
  "file_bad followup_seen paths f \<longleftrightarrow>
     \<not> fact_is_permitted (fl_path f) SourceCode [] \<or> canonical_relative_path (fl_path f) \<noteq> Some (fl_path f) \<or>
     length (fl_path f) > 512 \<or> has_control (fl_path f) \<or> fl_path f \<in> set paths \<or> \<not> valid_digest (fl_sha256 f) \<or>
     \<not> valid_digest (fl_excerpt_digest f) \<or> fl_bytes f > MAX_PREFIX \<or> fl_excerpt_start f > fl_excerpt_end f \<or>
     fl_excerpt_end f > fl_bytes f \<or> (fl_seed f \<and> followup_seen)"

text \<open>The files in order: a file is checked against the paths before it, and seeds come first.\<close>

fun files_ok :: "bool \<Rightarrow> string list \<Rightarrow> manifest_file list \<Rightarrow> bool" where
  "files_ok followup_seen paths [] = True"
| "files_ok followup_seen paths (f # fs) =
     (\<not> file_bad followup_seen paths f \<and> files_ok (followup_seen \<or> \<not> fl_seed f) (fl_path f # paths) fs)"

definition manifest_validate :: "input_manifest \<Rightarrow> assessment_error + unit" where
  "manifest_validate i =
     (if im_collector_version i \<notin> {2, COLLECTOR_VERSION, READINESS_COLLECTOR_VERSION} \<or> prompt_mismatch i \<or>
         length (im_files i) > 32 \<or> length (im_requested_ids i) > 8 \<or> list_ex (\<lambda>x. x \<ge> 512) (im_requested_ids i) \<or>
         \<not> distinct (im_requested_ids i) then Inl ManifestInvalid
      else if im_collector_version i = READINESS_COLLECTOR_VERSION \<and> preference_bad i then Inl PreferenceInvalid
      else if im_collector_version i \<noteq> READINESS_COLLECTOR_VERSION \<and> (im_preferred_ids i \<noteq> [] \<or> im_omissions i \<noteq> [])
      then Inl PreferenceUnexpected
      else if im_redacted i then
        refuse_if (im_files i \<noteq> [] \<or> im_catalog_digest i \<noteq> [] \<or> im_discovery_digest i \<noteq> None \<or> im_requested_ids i \<noteq> [] \<or>
          im_preferred_ids i \<noteq> [] \<or> im_omissions i \<noteq> []) RedactionIncomplete
      else if \<not> valid_digest (im_catalog_digest i) \<or> is_some_and (\<lambda>d. \<not> valid_digest d) (im_discovery_digest i)
      then Inl ManifestDigest
      else if \<not> files_ok False [] (im_files i) then Inl ManifestFileInvalid
      else refuse_if (sum_list (map fl_bytes (im_files i)) > MAX_TOTAL \<or>
             sum_list (map fl_bytes (filter fl_seed (im_files i))) > 24576 \<or> length (filter fl_seed (im_files i)) > 16)
             ManifestLimits)"

definition manifest_redact :: "input_manifest \<Rightarrow> input_manifest" where
  "manifest_redact i = i\<lparr>im_redacted := True, im_files := [], im_catalog_digest := [], im_requested_ids := [],
     im_preferred_ids := [], im_omissions := [], im_discovery_digest := None\<rparr>"

section \<open>Assessment records\<close>

datatype assessment_state =
  QueuedAssessment | RunningAssessment | SucceededAssessment | FailedAssessment | InterruptedAssessment | PendingRecommendation

datatype assessment_phase = Discovering | ReadingEvidence | Assessing

record assessment_proposal =
  op_target_surface :: target_surface
  op_title :: string
  op_summary :: string

record assessment_report =
  ar_id :: string
  ar_workspace_path :: string
  ar_workspace_instance :: u64
  ar_observed_at :: string
  ar_provider :: string
  ar_model :: string
  ar_bundle_version :: string
  ar_knowledge_identity :: string
  ar_input_fingerprint :: string
  ar_context_level :: context_level
  ar_excluded_paths :: "string list"
  ar_outcome :: string
  ar_summary :: string
  ar_proposal :: "assessment_proposal option"
  ar_no_proposal_reason :: "string option"
  ar_unverified_checks :: "string list"
  ar_repository_evidence :: "repository_evidence list"
  ar_knowledge_evidence :: "knowledge_evidence list"
  ar_recommendation_id :: "string option"

record reference_source =
  sr_snapshot_id :: string
  sr_rubric_digest :: string

record assessment_record =
  ax_readiness_reference :: "reference_source option"
  ax_input_manifest :: "input_manifest option"
  ax_phase :: "assessment_phase option"
  ax_format_version :: u8
  ax_id :: string
  ax_state :: assessment_state
  ax_started_at :: string
  ax_completed_at :: "string option"
  ax_report :: "assessment_report option"
  ax_pending :: "recommendation option"
  ax_error_summary :: "string option"
  ax_reused :: bool

text \<open>UUID syntax comes from a crate.\<close>

definition source_ok :: "(string \<Rightarrow> bool) \<Rightarrow> reference_source \<Rightarrow> bool" where
  "source_ok uuid r \<longleftrightarrow> uuid (sr_snapshot_id r) \<and> length (sr_rubric_digest r) = 64 \<and> list_all lower_hexdigit (sr_rubric_digest r)"

definition state_check :: "assessment_record \<Rightarrow> assessment_error + unit" where
  "state_check x =
     (case ax_state x of
        SucceededAssessment \<Rightarrow> refuse_if (ax_report x = None \<or> ax_pending x \<noteq> None) CompletedInvalid
      | PendingRecommendation \<Rightarrow> refuse_if (ax_report x = None \<or> ax_pending x = None) PendingInvalid
      | QueuedAssessment \<Rightarrow> refuse_if (ax_report x \<noteq> None \<or> ax_pending x \<noteq> None) RunningInvalid
      | RunningAssessment \<Rightarrow> refuse_if (ax_report x \<noteq> None \<or> ax_pending x \<noteq> None) RunningInvalid
      | _ \<Rightarrow> Inr ())"

definition policy_check :: "assessment_record \<Rightarrow> assessment_error + unit" where
  "policy_check x =
     (case (ax_report x, ax_input_manifest x) of
        (Some r, Some i) \<Rightarrow>
          if ar_outcome r = ''proposed'' \<and> \<not> im_instruction_coverage i then Inl InstructionsMissing
          else refuse_if (ar_context_level r \<noteq> im_context_level i \<or> ar_excluded_paths r \<noteq> im_excluded_paths i) PolicyInconsistent
      | _ \<Rightarrow> Inr ())"

definition reference_check :: "(string \<Rightarrow> bool) \<Rightarrow> assessment_record \<Rightarrow> assessment_error + unit" where
  "reference_check uuid x =
     (case ax_readiness_reference x of
        Some r \<Rightarrow> refuse_if (ax_format_version x \<noteq> 3 \<or> \<not> source_ok uuid r) ReferenceFormat
      | None \<Rightarrow> refuse_if (ax_format_version x \<noteq> 1 \<and> ax_format_version x \<noteq> 2) ReferenceFormat)"

definition manifest_check :: "assessment_record \<Rightarrow> assessment_error + unit" where
  "manifest_check x = (case ax_input_manifest x of None \<Rightarrow> Inr () | Some i \<Rightarrow> manifest_validate i)"

definition undiscovered :: "assessment_record \<Rightarrow> bool" where
  "undiscovered x = is_some_and (\<lambda>i. \<not> im_redacted i \<and> im_discovery_digest i = None) (ax_input_manifest x)"

definition validate_format :: "(string \<Rightarrow> bool) \<Rightarrow> assessment_record \<Rightarrow> assessment_error + unit" where
  "validate_format uuid x =
     and_then (reference_check uuid x) (\<lambda>_.
       if ax_format_version x = 1 then refuse_if (ax_input_manifest x \<noteq> None \<or> ax_phase x \<noteq> None) VersionInvalid
       else if ax_format_version x \<noteq> 2 \<and> ax_format_version x \<noteq> 3 then Inl VersionInvalid
       else
         first_error
           [state_check x, policy_check x, manifest_check x,
            refuse_if (ax_report x \<noteq> None \<and> ax_input_manifest x = None) ManifestMissing,
            refuse_if (ax_report x \<noteq> None \<and> undiscovered x) DiscoveryMissing])"

section \<open>Redaction\<close>

definition permitted_by :: "taskmaster_settings \<Rightarrow> string \<Rightarrow> bool" where
  "permitted_by s p = fact_is_permitted p (ts_context_level s) (ts_excluded_paths s)"

definition redact_issue :: "evidence_issue \<Rightarrow> evidence_issue" where
  "redact_issue i = i\<lparr>is_detail := REDACTED_SUMMARY\<rparr>"

definition redact_packet :: "taskmaster_settings \<Rightarrow> completion_packet \<Rightarrow> completion_packet" where
  "redact_packet s p =
     p\<lparr>cp_action := (cp_action p)\<lparr>ac_prompt := REDACTED_SUMMARY, ac_scope := REDACTED_SUMMARY\<rparr>,
       cp_subject := (cp_subject p)\<lparr>sj_scope := REDACTED_SUMMARY,
         sj_changed_paths := filter (permitted_by s) (sj_changed_paths (cp_subject p))\<rparr>,
       cp_verification := map_option (\<lambda>v. v\<lparr>vf_command := REDACTED_SUMMARY\<rparr>) (cp_verification p),
       cp_missing_evidence := map redact_issue (cp_missing_evidence p),
       cp_conflicting_evidence := map redact_issue (cp_conflicting_evidence p)\<rparr>"

definition redact_recommendation :: "taskmaster_settings \<Rightarrow> recommendation \<Rightarrow> recommendation" where
  "redact_recommendation s r =
     (case rc_assessment r of
        None \<Rightarrow> r
      | Some a \<Rightarrow>
          if \<not> access_narrowed (as_context_level a) (as_excluded_paths a) s then r
          else r\<lparr>rc_repository_evidence := filter (\<lambda>f. permitted_by s (re_path f)) (rc_repository_evidence r),
                 rc_title := ''Assessment evidence access changed'', rc_summary := REDACTED_SUMMARY, rc_reason := [],
                 rc_evidence := [], rc_suggested_prompt := None,
                 rc_improvement := (rc_improvement r)\<lparr>wi_proposed_improvement := [], wi_expected_benefit := []\<rparr>,
                 rc_proposed_change := None,
                 rc_assessment := Some (a\<lparr>as_access_redacted := True, as_readiness_reference := None\<rparr>),
                 rc_packet := map_option (redact_packet s) (rc_packet r)\<rparr>)"

definition redact_report :: "taskmaster_settings \<Rightarrow> assessment_report \<Rightarrow> assessment_report" where
  "redact_report s r =
     r\<lparr>ar_repository_evidence := filter (\<lambda>f. permitted_by s (re_path f)) (ar_repository_evidence r),
       ar_summary := REDACTED_SUMMARY, ar_proposal := None, ar_no_proposal_reason := None, ar_unverified_checks := []\<rparr>"

definition report_narrowed :: "taskmaster_settings \<Rightarrow> assessment_record \<Rightarrow> bool" where
  "report_narrowed s x = is_some_and (\<lambda>r. access_narrowed (ar_context_level r) (ar_excluded_paths r) s) (ax_report x)"

definition redact_record :: "taskmaster_settings \<Rightarrow> assessment_record \<Rightarrow> assessment_record" where
  "redact_record s x =
     x\<lparr>ax_input_manifest := map_option (\<lambda>i.
         if access_narrowed (im_context_level i) (im_excluded_paths i) s \<or> report_narrowed s x then manifest_redact i else i)
         (ax_input_manifest x),
       ax_report := map_option (\<lambda>r. if report_narrowed s x then redact_report s r else r) (ax_report x),
       ax_pending := map_option (redact_recommendation s) (ax_pending x)\<rparr>"

section \<open>The fence\<close>

definition fence_pending :: "recommendation \<Rightarrow> assessment_provenance \<Rightarrow> assessment_record option \<Rightarrow> bool" where
  "fence_pending r a record = is_some_and (\<lambda>x. ax_state x = PendingRecommendation \<and>
     (ax_id x = as_id a \<or> is_some_and (\<lambda>q. rc_id q = rc_id r) (ax_pending x))) record"

definition fence_fresh :: "recommendation \<Rightarrow> assessment_provenance \<Rightarrow> assessment_record option \<Rightarrow> string option \<Rightarrow> bool" where
  "fence_fresh r a record current_fingerprint \<longleftrightarrow> \<not> as_access_redacted a \<and>
     is_some_and (\<lambda>x. ax_format_version x \<in> {2, 3} \<and> ax_state x = SucceededAssessment \<and> ax_pending x = None \<and> ax_id x = as_id a \<and>
       is_some_and (\<lambda>p. ar_id p = as_id a \<and> ar_recommendation_id p = Some (rc_id r) \<and>
         ar_input_fingerprint p = as_input_fingerprint a \<and> current_fingerprint = Some (ar_input_fingerprint p)) (ax_report x)) record"

definition fence_recommendation ::
  "string \<Rightarrow> assessment_record option \<Rightarrow> string option \<Rightarrow> bool \<Rightarrow> recommendation \<Rightarrow> bool \<times> recommendation" where
  "fence_recommendation now record current_fingerprint mutating r =
     (case rc_assessment r of
        None \<Rightarrow> (True, r)
      | Some a \<Rightarrow>
          if fence_pending r a record then (False, r)
          else if rc_status r \<notin> {Proposed, Accepted, Executing} then (True, r)
          else
            let fresh = fence_fresh r a record current_fingerprint in
            (fresh, if \<not> fresh \<and> mutating \<and> rc_status r = Proposed then r\<lparr>rc_status := Superseded, rc_updated_at := now\<rparr> else r))"

section \<open>Redaction keeps a record valid\<close>

lemma manifest_redact_valid: "manifest_validate i = Inr () \<Longrightarrow> manifest_validate (manifest_redact i) = Inr ()"
  by (auto simp: manifest_validate_def manifest_redact_def prompt_mismatch_def preference_bad_def split: if_split_asm option.splits)

lemma redact_manifest_sel [simp]:
  "im_context_level (manifest_redact i) = im_context_level i" "im_excluded_paths (manifest_redact i) = im_excluded_paths i"
  "im_instruction_coverage (manifest_redact i) = im_instruction_coverage i" "im_redacted (manifest_redact i)"
  by (simp_all add: manifest_redact_def)

lemma redact_report_sel [simp]:
  "ar_context_level (redact_report s r) = ar_context_level r" "ar_excluded_paths (redact_report s r) = ar_excluded_paths r"
  "ar_outcome (redact_report s r) = ar_outcome r" "ar_recommendation_id (redact_report s r) = ar_recommendation_id r"
  "ar_id (redact_report s r) = ar_id r"
  by (simp_all add: redact_report_def)

lemma redact_record_sel [simp]:
  "ax_readiness_reference (redact_record s x) = ax_readiness_reference x" "ax_phase (redact_record s x) = ax_phase x"
  "ax_format_version (redact_record s x) = ax_format_version x" "ax_id (redact_record s x) = ax_id x"
  "ax_state (redact_record s x) = ax_state x"
  "ax_report (redact_record s x) = None \<longleftrightarrow> ax_report x = None" "ax_pending (redact_record s x) = None \<longleftrightarrow> ax_pending x = None"
  "ax_input_manifest (redact_record s x) = None \<longleftrightarrow> ax_input_manifest x = None"
  by (simp_all add: redact_record_def)

lemma redact_state_check: "state_check (redact_record s x) = state_check x"
  by (simp add: state_check_def split: assessment_state.splits)

lemma redact_policy_check: "policy_check (redact_record s x) = policy_check x"
  by (cases "ax_report x"; cases "ax_input_manifest x") (auto simp: policy_check_def redact_record_def)

lemma redact_reference_check: "reference_check uuid (redact_record s x) = reference_check uuid x"
  by (simp add: reference_check_def split: option.splits)

lemma redact_manifest_check: "manifest_check x = Inr () \<Longrightarrow> manifest_check (redact_record s x) = Inr ()"
  by (cases "ax_input_manifest x") (auto simp: manifest_check_def redact_record_def manifest_redact_valid)

lemma redact_undiscovered: "undiscovered (redact_record s x) \<Longrightarrow> undiscovered x"
  by (cases "ax_input_manifest x") (auto simp: undiscovered_def redact_record_def split: if_split_asm)

lemma redact_record_valid:
  "validate_format uuid x = Inr () \<Longrightarrow> validate_format uuid (redact_record s x) = Inr ()"
  using redact_manifest_check [of x s] redact_undiscovered [of s x]
  by (auto simp: validate_format_def and_then_ok first_error_ok redact_reference_check redact_state_check redact_policy_check
      split: if_split_asm)

section \<open>Access that is not narrowed\<close>

text \<open>An exclusion whose normal form has no white space at its ends.\<close>

definition tidy :: "string \<Rightarrow> bool" where
  "tidy configured \<longleftrightarrow> trim (normalize_exclusion configured) = normalize_exclusion configured"

lemma slash_not_white:
  "\<not> white1 slash" "slash \<in> set s \<Longrightarrow> \<not> white2 s" "slash \<in> set s \<Longrightarrow> \<not> white3 s"
proof -
  have b: "byte_val slash = 47" by (simp add: slash_def)
  show "\<not> white1 slash" by (simp add: white1_def b)
  show "\<not> white2 s" if "slash \<in> set s"
  proof
    assume "white2 s"
    moreover have "47 \<in> set (map byte_val s)" using that b by force
    ultimately show False by (auto simp: white2_def)
  qed
  show "\<not> white3 s" if "slash \<in> set s"
  proof
    assume w: "white3 s"
    have m: "47 \<in> set (map byte_val s)" using that b by force
    from w show False unfolding white3_def
    proof
      assume "length s = 3 \<and> byte_val (s ! 0) = 226 \<and> byte_val (s ! 1) = 128 \<and> 128 \<le> byte_val (s ! 2) \<and> byte_val (s ! 2) \<le> 138"
      moreover obtain j where "j < length s" "byte_val (s ! j) = 47" using m by (auto simp: in_set_conv_nth)
      ultimately show False by (auto simp: less_Suc_eq numeral_eq_Suc)
    qed (use m in auto)
  qed
qed

lemma trim_back_slash: "\<exists>x1. trim_back (x @ slash # y) = x1 @ slash # y"
proof (induction x rule: trim_back.induct)
  case 1
  have "slash \<in> set (rev (slash # take 1 y))" "slash \<in> set (rev (slash # take 2 y))" by simp_all
  then have "trim_back (slash # y) = slash # y" using slash_not_white by simp
  then show ?case by (intro exI [of _ "[]"]) simp
next
  case (2 c cs)
  show ?case
  proof (cases "white1 c")
    case True
    with 2(1) show ?thesis by simp
  next
    case False
    note n1 = this
    show ?thesis
    proof (cases "white2 (rev (c # take 1 (cs @ slash # y)))")
      case True
      then have "slash \<notin> set (rev (c # take 1 (cs @ slash # y)))" using slash_not_white(2) by blast
      then obtain d ds where cs: "cs = d # ds" by (cases cs) auto
      with True n1 2(2) show ?thesis by simp
    next
      case False
      note n2 = this
      show ?thesis
      proof (cases "white3 (rev (c # take 2 (cs @ slash # y)))")
        case True
        then have "slash \<notin> set (rev (c # take 2 (cs @ slash # y)))" using slash_not_white(3) by blast
        then obtain d ds where "cs = d # ds" by (cases cs) auto
        moreover from this \<open>slash \<notin> _\<close> obtain f fs where "ds = f # fs" by (cases ds) (auto simp: numeral_2_eq_2)
        ultimately show ?thesis using True n1 n2 2(3) by (simp add: numeral_2_eq_2)
      next
        case False
        with n1 n2 have "trim_back ((c # cs) @ slash # y) = (c # cs) @ slash # y" by simp
        then show ?thesis by blast
      qed
    qed
  qed
qed

lemma trim_start_fixed:
  assumes "trim_start (c # cs) = c # cs"
  shows "\<not> white1 c" "\<not> white2 (c # take 1 cs)" "\<not> white3 (c # take 2 cs)"
proof -
  have shorter: "trim_start (drop n cs) \<noteq> c # cs" for n
    using suffix_length_le [OF trim_start_suffix [of "drop n cs"]] by auto
  show "\<not> white1 c" using assms shorter [of 0] by (auto split: if_split_asm)
  show "\<not> white2 (c # take 1 cs)" using assms shorter [of 0] shorter [of 1] by (auto split: if_split_asm)
  show "\<not> white3 (c # take 2 cs)" using assms shorter [of 0] shorter [of 1] shorter [of 2] by (auto split: if_split_asm)
qed

lemma trim_fixed_start:
  assumes "trim t = t"
  shows "trim_start t = t"
proof -
  have "length (trim t) \<le> length (trim_start t)"
    using suffix_length_le [OF trim_back_suffix [of "rev (trim_start t)"]] by (simp add: trim_def)
  with assms trim_start_suffix [of t] show ?thesis by (metis suffix_length_le le_antisym suffix_order.eq_iff suffix_def append_eq_append_conv)
qed

lemma trim_before_slash:
  assumes "trim t = t" "t \<noteq> []"
  shows "\<exists>r1. trim (t @ slash # r) = t @ slash # r1"
proof -
  obtain c cs where t: "t = c # cs" using assms(2) by (cases t) auto
  note fixed = trim_start_fixed [OF trim_fixed_start [OF assms(1), unfolded t]]
  have "\<not> white2 (c # take 1 (cs @ slash # r))"
    using fixed(2) slash_not_white(2) by (cases cs) auto
  moreover have "\<not> white3 (c # take 2 (cs @ slash # r))"
  proof (cases "length cs \<ge> 2")
    case False
    then have "slash \<in> set (take 2 (cs @ slash # r))" by (cases cs; cases "tl cs") (auto simp: numeral_2_eq_2)
    then show ?thesis using slash_not_white(3) [of "c # take 2 (cs @ slash # r)"] by simp
  qed (use fixed(3) in simp)
  ultimately have "trim_start (t @ slash # r) = t @ slash # r" using fixed(1) t by simp
  moreover obtain x where "trim_back (rev r @ slash # rev t) = x @ slash # rev t" using trim_back_slash by blast
  ultimately show ?thesis by (intro exI [of _ "rev x"]) (simp add: trim_def)
qed

lemma trim_slashes_ends:
  assumes "trim_slashes t \<noteq> []"
  shows "hd (trim_slashes t) \<noteq> slash" "last (trim_slashes t) \<noteq> slash"
proof -
  define u where "u = dropWhile (\<lambda>c. c = slash) t"
  have v: "trim_slashes t = rev (dropWhile (\<lambda>c. c = slash) (rev u))" by (simp add: trim_slashes_def u_def)
  have ne: "dropWhile (\<lambda>c. c = slash) (rev u) \<noteq> []" using assms v by auto
  show "last (trim_slashes t) \<noteq> slash" using hd_dropWhile [OF ne] v ne by (simp add: last_rev)
  have "u \<noteq> []" using ne by auto
  then have "hd u \<noteq> slash" unfolding u_def by (rule hd_dropWhile)
  moreover have "prefix (trim_slashes t) u" using v suffix_dropWhile [of _ "rev u"] by (simp add: suffix_to_prefix)
  ultimately show "hd (trim_slashes t) \<noteq> slash" using assms by (auto simp: prefix_def)
qed

lemma trim_slashes_inner:
  assumes "t \<noteq> []" "hd t \<noteq> slash" "last t \<noteq> slash"
  shows "trim_slashes t = t" "trim_slashes (t @ slash # r) = t \<or> (\<exists>r1. trim_slashes (t @ slash # r) = t @ slash # r1)"
proof -
  have start: "dropWhile (\<lambda>c. c = slash) (t @ x) = t @ x" for x using assms(1,2) by (cases t) auto
  have rear: "dropWhile (\<lambda>c. c = slash) (rev t) = rev t"
    using assms(1,3) by (cases t rule: rev_cases) auto
  show "trim_slashes t = t" using start [of "[]"] rear by (simp add: trim_slashes_def)
  have "dropWhile (\<lambda>c. c = slash) (x @ slash # rev t) = rev t \<or>
      (\<exists>x1. dropWhile (\<lambda>c. c = slash) (x @ slash # rev t) = x1 @ slash # rev t)" for x
    by (induction x) (auto simp: rear)
  from this [of "rev r"] show "trim_slashes (t @ slash # r) = t \<or> (\<exists>r1. trim_slashes (t @ slash # r) = t @ slash # r1)"
  proof
    assume "\<exists>x1. dropWhile (\<lambda>c. c = slash) (rev r @ slash # rev t) = x1 @ slash # rev t"
    then obtain x1 where "dropWhile (\<lambda>c. c = slash) (rev r @ slash # rev t) = x1 @ slash # rev t" ..
    then have "trim_slashes (t @ slash # r) = t @ slash # rev x1" using start [of "slash # r"] by (simp add: trim_slashes_def)
    then show ?thesis by blast
  qed (use start [of "slash # r"] in \<open>simp add: trim_slashes_def\<close>)
qed

lemma backslashes_gone: "map backslash_to_slash (normalize_exclusion c) = normalize_exclusion c"
proof -
  have "set (trim_slashes t) \<subseteq> set t" for t
    by (auto simp: trim_slashes_def dest!: set_dropWhileD)
  moreover have "set (trim t) \<subseteq> set t" for t using trim_sublist set_mono_sublist by metis
  ultimately have "set (normalize_exclusion c) \<subseteq> set (map backslash_to_slash c)" unfolding normalize_exclusion_def by blast
  then have "backslash_to_slash b = b" if "b \<in> set (normalize_exclusion c)" for b
    using that by (auto simp: backslash_to_slash_def slash_def split: if_split_asm)
  then show ?thesis by (simp add: map_idI)
qed

lemma starts_with_prefix: "starts_with s p \<longleftrightarrow> prefix p s"
  by (induction s p rule: starts_with.induct) auto

lemma starts_with_slash: "starts_with p (t @ [slash]) \<longleftrightarrow> (\<exists>r. p = t @ slash # r)"
  by (auto simp: starts_with_prefix prefix_def)

lemma excluded_iff:
  "path_is_excluded p c \<longleftrightarrow> normalize_exclusion c \<noteq> [] \<and>
     (p = normalize_exclusion c \<or> (\<exists>r. p = normalize_exclusion c @ slash # r))"
  by (simp add: path_is_excluded_def Let_def starts_with_slash)

lemma exclusion_covered:
  assumes "path_is_excluded new old" "tidy old" "path_is_excluded p new"
  shows "path_is_excluded p old"
proof -
  define t where "t = normalize_exclusion old"
  have ne: "t \<noteq> []" and new: "new = t \<or> (\<exists>r. new = t @ slash # r)" using assms(1) by (auto simp: excluded_iff t_def)
  have fixed: "trim t = t" using assms(2) by (simp add: tidy_def t_def)
  have ends: "hd t \<noteq> slash" "last t \<noteq> slash"
    using trim_slashes_ends ne by (simp_all add: t_def normalize_exclusion_def)
  note inner = trim_slashes_inner [OF ne ends]
  have same: "map backslash_to_slash t = t" "backslash_to_slash slash = slash"
    using backslashes_gone by (simp_all add: t_def backslash_to_slash_def)
  have "normalize_exclusion new = t \<or> (\<exists>r. normalize_exclusion new = t @ slash # r)"
    using new
  proof (elim disjE exE)
    assume "new = t"
    then show ?thesis using fixed inner(1) same(1) by (simp add: normalize_exclusion_def)
  next
    fix r
    assume r: "new = t @ slash # r"
    obtain r1 where "trim (t @ slash # map backslash_to_slash r) = t @ slash # r1" using trim_before_slash [OF fixed ne] by blast
    then have "normalize_exclusion new = trim_slashes (t @ slash # r1)" using r same by (simp add: normalize_exclusion_def)
    with inner(2) [of r1] show ?thesis by auto
  qed
  with assms(3) ne show ?thesis by (auto simp: excluded_iff t_def [symmetric])
qed

lemma allowed_mono: "allowed_file p l \<Longrightarrow> context_rank l \<le> context_rank l1 \<Longrightarrow> allowed_file p l1"
  by (cases l; cases l1) (auto simp: allowed_file_def Let_def)

lemma permitted_unless_narrowed:
  assumes "fact_is_permitted p level excluded" "\<not> access_narrowed level excluded s" "list_all tidy excluded"
  shows "permitted_by s p"
proof -
  have "\<not> list_ex (path_is_excluded p) (ts_excluded_paths s)"
  proof
    assume "list_ex (path_is_excluded p) (ts_excluded_paths s)"
    then obtain new where new: "new \<in> set (ts_excluded_paths s)" "path_is_excluded p new" by (auto simp: list_ex_iff)
    then obtain old where "old \<in> set excluded" "path_is_excluded new old"
      using assms(2) by (auto simp: access_narrowed_def list_ex_iff)
    with exclusion_covered new(2) assms(1,3) show False by (auto simp: fact_is_permitted_def list_ex_iff list_all_iff)
  qed
  moreover have "context_rank level \<le> context_rank (ts_context_level s)" using assms(2) by (simp add: access_narrowed_def)
  moreover from this have "ts_context_level s \<noteq> SessionObservations"
    using assms(1) by (cases level; cases "ts_context_level s") (auto simp: fact_is_permitted_def)
  ultimately show ?thesis using assms(1) allowed_mono by (auto simp: fact_is_permitted_def permitted_by_def)
qed

section \<open>What redaction leaves\<close>

text \<open>The paths a record shows: the files of its manifest, the evidence of its report and of its pending recommendation.\<close>

definition manifest_paths :: "assessment_record \<Rightarrow> string list" where
  "manifest_paths x = (case ax_input_manifest x of None \<Rightarrow> [] | Some i \<Rightarrow> map fl_path (im_files i))"

definition report_paths :: "assessment_record \<Rightarrow> string list" where
  "report_paths x = (case ax_report x of None \<Rightarrow> [] | Some r \<Rightarrow> map re_path (ar_repository_evidence r))"

definition recommendation_paths :: "recommendation \<Rightarrow> string list" where
  "recommendation_paths r = map re_path (rc_repository_evidence r)"

definition pending_paths :: "assessment_record \<Rightarrow> string list" where
  "pending_paths x = (case ax_pending x of None \<Rightarrow> [] | Some r \<Rightarrow> recommendation_paths r)"

text \<open>Evidence that was collected under the policy saved with it, by a policy without blank ends.\<close>

definition collected_under :: "context_level \<Rightarrow> string list \<Rightarrow> string list \<Rightarrow> bool" where
  "collected_under level excluded ps \<longleftrightarrow> list_all tidy excluded \<and> list_all (\<lambda>p. fact_is_permitted p level excluded) ps"

definition recommendation_collected :: "recommendation \<Rightarrow> bool" where
  "recommendation_collected r =
     (case rc_assessment r of
        None \<Rightarrow> False
      | Some a \<Rightarrow> collected_under (as_context_level a) (as_excluded_paths a) (recommendation_paths r))"

definition record_collected :: "assessment_record \<Rightarrow> bool" where
  "record_collected x \<longleftrightarrow>
     (\<forall>i. ax_input_manifest x = Some i \<longrightarrow> collected_under (im_context_level i) (im_excluded_paths i) (manifest_paths x)) \<and>
     (\<forall>r. ax_report x = Some r \<longrightarrow> collected_under (ar_context_level r) (ar_excluded_paths r) (report_paths x)) \<and>
     (\<forall>r. ax_pending x = Some r \<longrightarrow> recommendation_collected r)"

lemma collected_permitted:
  "collected_under level excluded ps \<Longrightarrow> \<not> access_narrowed level excluded s \<Longrightarrow> list_all (permitted_by s) ps"
  using permitted_unless_narrowed by (auto simp: collected_under_def list_all_iff)

lemma recommendation_permitted:
  assumes "recommendation_collected r"
  shows "list_all (permitted_by s) (recommendation_paths (redact_recommendation s r))"
proof -
  obtain a where a: "rc_assessment r = Some a" "collected_under (as_context_level a) (as_excluded_paths a) (recommendation_paths r)"
    using assms by (auto simp: recommendation_collected_def split: option.splits)
  show ?thesis
  proof (cases "access_narrowed (as_context_level a) (as_excluded_paths a) s")
    case True
    then show ?thesis using a(1) by (auto simp: redact_recommendation_def recommendation_paths_def list_all_iff)
  next
    case False
    with collected_permitted [OF a(2)] a(1) show ?thesis by (simp add: redact_recommendation_def)
  qed
qed

text \<open>A completion packet of a recommendation names the paths of its change.\<close>

definition packet_paths :: "recommendation \<Rightarrow> string list" where
  "packet_paths r = (case rc_packet r of None \<Rightarrow> [] | Some p \<Rightarrow> sj_changed_paths (cp_subject p))"

definition packet_collected :: "recommendation \<Rightarrow> bool" where
  "packet_collected r =
     (case rc_assessment r of
        None \<Rightarrow> False
      | Some a \<Rightarrow> collected_under (as_context_level a) (as_excluded_paths a) (packet_paths r))"

lemma packet_permitted:
  assumes "packet_collected r"
  shows "list_all (permitted_by s) (packet_paths (redact_recommendation s r))"
proof -
  obtain a where a: "rc_assessment r = Some a" "collected_under (as_context_level a) (as_excluded_paths a) (packet_paths r)"
    using assms by (auto simp: packet_collected_def split: option.splits)
  show ?thesis
  proof (cases "access_narrowed (as_context_level a) (as_excluded_paths a) s")
    case True
    then show ?thesis using a(1)
      by (auto simp: redact_recommendation_def redact_packet_def packet_paths_def list_all_iff split: option.splits)
  next
    case False
    with collected_permitted [OF a(2)] a(1) show ?thesis by (simp add: redact_recommendation_def)
  qed
qed

text \<open>
  C17: After the settings changed and a record was redacted for them, it shows nothing they forbid: every
  file of its manifest and every piece of repository evidence in its report and in its pending
  recommendation is permitted by the new settings, whether the change counted as narrowing access
  or not, and so is every path in the completion packet of that recommendation. The evidence, and the
  paths of the packet, must have been collected under the policy saved with them, and no saved
  exclusion may begin or end with white space inside its slashes.
\<close>

theorem redaction_respects_settings:
  assumes "record_collected x"
  shows "list_all (permitted_by s) (manifest_paths (redact_record s x) @ report_paths (redact_record s x) @ pending_paths (redact_record s x)) \<and>
    (\<forall>r. ax_pending x = Some r \<and> packet_collected r \<longrightarrow>
       (\<exists>r1. ax_pending (redact_record s x) = Some r1 \<and> list_all (permitted_by s) (packet_paths r1)))"
proof -
  have "list_all (permitted_by s) (manifest_paths (redact_record s x))"
  proof (cases "ax_input_manifest x")
    case (Some i)
    then have "collected_under (im_context_level i) (im_excluded_paths i) (manifest_paths x)" using assms by (simp add: record_collected_def)
    from collected_permitted [OF this, of s] Some show ?thesis
      by (auto simp: manifest_paths_def redact_record_def manifest_redact_def)
  qed (simp add: manifest_paths_def redact_record_def)
  moreover have "list_all (permitted_by s) (report_paths (redact_record s x))"
  proof (cases "ax_report x")
    case (Some r)
    then have c: "collected_under (ar_context_level r) (ar_excluded_paths r) (report_paths x)" using assms by (simp add: record_collected_def)
    show ?thesis
    proof (cases "report_narrowed s x")
      case True
      then show ?thesis using Some by (auto simp: report_paths_def redact_record_def redact_report_def list_all_iff)
    next
      case False
      with collected_permitted [OF c, of s] Some show ?thesis by (simp add: report_paths_def redact_record_def report_narrowed_def)
    qed
  qed (simp add: report_paths_def redact_record_def)
  moreover have "list_all (permitted_by s) (pending_paths (redact_record s x))"
  proof (cases "ax_pending x")
    case (Some r)
    then have "recommendation_collected r" using assms by (simp add: record_collected_def)
    from recommendation_permitted [OF this, of s] Some show ?thesis by (simp add: pending_paths_def redact_record_def)
  qed (simp add: pending_paths_def redact_record_def)
  ultimately show ?thesis using packet_permitted by (simp add: redact_record_def)
qed

text \<open>A recommendation that lost evidence is not acted on: the fence stops it, and the store refuses every change.\<close>

lemma redacted_not_actionable:
  assumes "rc_assessment r = Some a" "access_narrowed (as_context_level a) (as_excluded_paths a) s"
    and "rc_status r \<in> {Proposed, Accepted, Executing}"
  shows "\<not> fst (fence_recommendation now record fingerprint mutating (redact_recommendation s r))"
    "ensure_mutable (redact_recommendation s r) \<noteq> Inr ()"
  using assms
  by (auto simp: fence_recommendation_def redact_recommendation_def fence_fresh_def ensure_mutable_def redacted_def Let_def)

text \<open>
  With white space inside the slashes of a saved exclusion the test for narrowed access is too weak:
  \<^verbatim>\<open>/ a\<close> was saved, \<^verbatim>\<open> a\<close> is configured now, and a file below \<^verbatim>\<open>a\<close> stays visible although it is excluded.
\<close>

lemma blank_ends_hide_narrowing:
  fixes s :: taskmaster_settings
  defines "s \<equiv> default_settings\<lparr>ts_excluded_paths := ['' a'']\<rparr>"
  shows "\<not> access_narrowed WorkflowContext [''/ a''] s \<and> fact_is_permitted ''a/x.md'' WorkflowContext [''/ a''] \<and> \<not> permitted_by s ''a/x.md''"
  by (simp add: s_def access_narrowed_def default_settings_def path_is_excluded_def normalize_exclusion_def trim_slashes_def
      backslash_to_slash_def slash_def trim_def white1_def white2_def white3_def permitted_by_def fact_is_permitted_def is_absolute_def
      path_components_def segment_component_def builtin_excluded_def BUILTIN_NAMES_def to_ascii_lowercase_def ascii_lower_def
      file_name_def ends_with_def allowed_file_def path_extension_def Let_def)

section \<open>A sample\<close>

definition sample_evidence :: "string \<Rightarrow> repository_evidence" where
  "sample_evidence p = \<lparr>re_path = p, re_sha256 = ''d'', re_excerpt = ''e'', re_observed_at = ''t''\<rparr>"

definition sample_report :: assessment_report where
  "sample_report =
     \<lparr>ar_id = ''i'', ar_workspace_path = ''/w'', ar_workspace_instance = 1, ar_observed_at = ''t'', ar_provider = ''p'', ar_model = ''m'',
      ar_bundle_version = ''b'', ar_knowledge_identity = ''{}'', ar_input_fingerprint = ''f'', ar_context_level = WorkflowContext,
      ar_excluded_paths = [], ar_outcome = ''no_proposal'', ar_summary = ''s'', ar_proposal = None, ar_no_proposal_reason = Some ''n'',
      ar_unverified_checks = [], ar_repository_evidence = [sample_evidence ''a/x.md'', sample_evidence ''b.md''],
      ar_knowledge_evidence = [], ar_recommendation_id = None\<rparr>"

definition sample_assessed :: assessment_record where
  "sample_assessed =
     \<lparr>ax_readiness_reference = None, ax_input_manifest = None, ax_phase = None, ax_format_version = 1, ax_id = ''i'',
      ax_state = SucceededAssessment, ax_started_at = ''t'', ax_completed_at = Some ''t'', ax_report = Some sample_report,
      ax_pending = None, ax_error_summary = None, ax_reused = False\<rparr>"

lemma sample_permitted: "fact_is_permitted ''a/x.md'' WorkflowContext []" "fact_is_permitted ''b.md'' WorkflowContext []"
  by (simp_all add: fact_is_permitted_def is_absolute_def path_components_def segment_component_def builtin_excluded_def
      BUILTIN_NAMES_def to_ascii_lowercase_def ascii_lower_def file_name_def ends_with_def allowed_file_def path_extension_def Let_def)

theorem redaction_respects_settings_witness:
  "list_all (permitted_by (default_settings\<lparr>ts_excluded_paths := [''a'']\<rparr>))
     (report_paths (redact_record (default_settings\<lparr>ts_excluded_paths := [''a'']\<rparr>) sample_assessed))"
proof -
  have "record_collected sample_assessed"
    by (simp add: record_collected_def sample_assessed_def collected_under_def report_paths_def sample_report_def sample_evidence_def
        sample_permitted)
  from redaction_respects_settings [OF this] show ?thesis by simp
qed

end
