(* ===== verification/Assessment_Publication.thy ===== *)
theory Assessment_Publication
  imports Evidence_Policy
begin

text \<open>
  The publication of an assessment, \<^verbatim>\<open>taskmaster/assessment_report.rs\<close>, with the file that holds the latest
  record, \<^verbatim>\<open>taskmaster/assessment_store.rs\<close>, and its callers in \<^verbatim>\<open>taskmaster/assessment.rs\<close>: the end of a run
  and the recovery after a restart. A record that carries a recommendation is first saved as pending,
  then the recommendation is stored, then the record is saved as succeeded; any of these may fail,
  and a failed write may still have replaced the file. The checks that the workspace and the inputs
  are still the same belong to other components and are inputs here.
\<close>

section \<open>The file of the latest record\<close>

definition MAX_ASSESSMENT_BYTES :: nat where "MAX_ASSESSMENT_BYTES = 65536"

text \<open>The size of the encoded record comes from serde, UUID syntax from the codec of recommendations.\<close>

record assessment_codec =
  ac_size :: "assessment_record \<Rightarrow> nat"
  ac_codec :: rec_codec

definition validate_bytes :: "assessment_codec \<Rightarrow> assessment_record \<Rightarrow> assessment_error + unit" where
  "validate_bytes io x =
     (if ac_size io x > MAX_ASSESSMENT_BYTES then Inl ReportTooLarge
      else if ax_format_version x = 1 then refuse_if (ax_input_manifest x \<noteq> None \<or> ax_phase x \<noteq> None) LegacyFields
      else if ax_format_version x = 2 \<or> ax_format_version x = 3 then validate_format (uuid_ok (ac_codec io)) x
      else Inl VersionInvalid)"

text \<open>A save fails before the file is replaced, or in the final synchronization of the directory.\<close>

datatype save_outcome = SaveOk | SaveLost | SaveUnsynced

type_synonym record_file = "assessment_record option"

definition save_record :: "assessment_codec \<Rightarrow> save_outcome \<Rightarrow> assessment_record \<Rightarrow> record_file \<Rightarrow> (assessment_error + unit) \<times> record_file" where
  "save_record io oc x f =
     (case validate_bytes io x of
        Inl e \<Rightarrow> (Inl e, f)
      | Inr _ \<Rightarrow>
          (case oc of SaveOk \<Rightarrow> (Inr (), Some x) | SaveLost \<Rightarrow> (Inl SaveFailed, f) | SaveUnsynced \<Rightarrow> (Inl SaveFailed, Some x)))"

definition load_record :: "assessment_codec \<Rightarrow> record_file \<Rightarrow> assessment_error + assessment_record option" where
  "load_record io f =
     (case f of None \<Rightarrow> Inr None | Some x \<Rightarrow> and_then (validate_bytes io x) (\<lambda>_. Inr (Some x)))"

section \<open>Publication\<close>

type_synonym recommendation_files = "string \<rightharpoonup> recommendation"

datatype put_outcome = PutOk | PutLost | PutUnconfirmed | PutUnreadable

definition upsert_assessment_recommendation ::
  "put_outcome \<Rightarrow> recommendation \<Rightarrow> recommendation_files \<Rightarrow> (assessment_error + unit) \<times> recommendation_files" where
  "upsert_assessment_recommendation oc r st =
     (if oc = PutUnreadable then (Inl UpsertFailed, st)
      else case st (rc_id r) of
        Some existing \<Rightarrow> (if existing = r then Inr () else Inl LifecycleChanged, st)
      | None \<Rightarrow>
          (case oc of
             PutOk \<Rightarrow> (Inr (), st(rc_id r \<mapsto> r))
           | PutUnconfirmed \<Rightarrow> (Inl UpsertFailed, st(rc_id r \<mapsto> r))
           | _ \<Rightarrow> (Inl UpsertFailed, st)))"

definition source_of :: "readiness_reference \<Rightarrow> reference_source" where
  "source_of r = \<lparr>sr_snapshot_id = rr_snapshot_id r, sr_rubric_digest = rr_rubric_digest r\<rparr>"

definition pending_identity_bad ::
  "rec_codec \<Rightarrow> assessment_record \<Rightarrow> assessment_report \<Rightarrow> recommendation \<Rightarrow> assessment_provenance \<Rightarrow> bool" where
  "pending_identity_bad c x r q a \<longleftrightarrow>
     ar_outcome r \<noteq> ''proposed'' \<or> ar_proposal r = None \<or> ar_recommendation_id r \<noteq> Some (rc_id q) \<or>
     map_option source_of (as_readiness_reference a) \<noteq> ax_readiness_reference x \<or>
     is_some_and (\<lambda>y. \<not> reference_ok c y) (as_readiness_reference a) \<or> as_id a \<noteq> ax_id x \<or>
     as_input_fingerprint a \<noteq> ar_input_fingerprint r \<or> as_context_level a \<noteq> ar_context_level r \<or>
     as_excluded_paths a \<noteq> ar_excluded_paths r \<or> rc_type q \<noteq> ImproveWorkflow \<or> rc_status q \<noteq> Proposed \<or>
     \<not> starts_with (rc_dedupe_key q) ''proactive:v1:''"

definition validate_publication :: "rec_codec \<Rightarrow> assessment_record \<Rightarrow> assessment_error + unit" where
  "validate_publication c x =
     (case ax_report x of
        None \<Rightarrow> Inl ReportMissing
      | Some r \<Rightarrow>
          and_then (case ax_input_manifest x of None \<Rightarrow> Inr () | Some i \<Rightarrow> manifest_validate i) (\<lambda>_.
            if ax_format_version x \<notin> {1, 2, 3} \<or> ax_id x \<noteq> ar_id r \<or> is_some_and im_redacted (ax_input_manifest x)
            then Inl IdentityInvalid
            else case ax_pending x of
                   None \<Rightarrow> refuse_if (ar_recommendation_id r \<noteq> None) RecommendationMissing
                 | Some q \<Rightarrow>
                     (case rc_assessment q of
                        None \<Rightarrow> Inl ProvenanceMissing
                      | Some a \<Rightarrow> refuse_if (pending_identity_bad c x r q a) PendingIdentity)))"

record assessment_world =
  aw_file :: record_file
  aw_store :: recommendation_files

type_synonym publication = "(assessment_error + unit) \<times> assessment_record \<times> assessment_world"

definition recover_with ::
  "assessment_codec \<Rightarrow> put_outcome \<Rightarrow> save_outcome \<Rightarrow> assessment_record \<Rightarrow> assessment_world \<Rightarrow> publication" where
  "recover_with io u oc x w =
     (if ax_state x \<noteq> PendingRecommendation
      then (if ax_pending x \<noteq> None then Inl PublicationState else Inr (), x, w)
      else case validate_publication (ac_codec io) x of
             Inl e \<Rightarrow> (Inl e, x, w)
           | Inr _ \<Rightarrow>
               (case ax_pending x of
                  None \<Rightarrow> (Inl PendingInvalid, x, w)
                | Some q \<Rightarrow>
                    (case upsert_assessment_recommendation u q (aw_store w) of
                       (Inl e, st) \<Rightarrow> (Inl e, x, w\<lparr>aw_store := st\<rparr>)
                     | (Inr _, st) \<Rightarrow>
                         let c = x\<lparr>ax_pending := None, ax_state := SucceededAssessment\<rparr> in
                         (case save_record io oc c (aw_file w) of
                            (Inl e, f) \<Rightarrow> (Inl e, x, w\<lparr>aw_store := st, aw_file := f\<rparr>)
                          | (Inr _, f) \<Rightarrow> (Inr (), c, w\<lparr>aw_store := st, aw_file := f\<rparr>)))))"

definition publish_with ::
  "assessment_codec \<Rightarrow> save_outcome \<Rightarrow> put_outcome \<Rightarrow> save_outcome \<Rightarrow> assessment_record \<Rightarrow> assessment_world \<Rightarrow> publication" where
  "publish_with io o1 u o2 x w =
     (case validate_publication (ac_codec io) x of
        Inl e \<Rightarrow> (Inl e, x, w)
      | Inr _ \<Rightarrow>
          if ax_pending x \<noteq> None then
            let p = x\<lparr>ax_state := PendingRecommendation\<rparr> in
            (case save_record io o1 p (aw_file w) of
               (Inl e, f) \<Rightarrow> (Inl e, x, w\<lparr>aw_file := f\<rparr>)
             | (Inr _, f) \<Rightarrow> recover_with io u o2 p (w\<lparr>aw_file := f\<rparr>))
          else
            let c = x\<lparr>ax_state := SucceededAssessment\<rparr> in
            (case save_record io o1 c (aw_file w) of
               (Inl e, f) \<Rightarrow> (Inl e, x, w\<lparr>aw_file := f\<rparr>)
             | (Inr _, f) \<Rightarrow> (Inr (), c, w\<lparr>aw_file := f\<rparr>)))"

section \<open>The end of a run\<close>

definition unsuccessful :: "assessment_state \<Rightarrow> string \<Rightarrow> string \<Rightarrow> assessment_record \<Rightarrow> assessment_record" where
  "unsuccessful st now reason x = x\<lparr>ax_state := st, ax_completed_at := Some now, ax_error_summary := Some reason, ax_report := None,
     ax_input_manifest := None, ax_phase := None, ax_pending := None\<rparr>"

definition finish_unsuccessful_assessment ::
  "assessment_codec \<Rightarrow> save_outcome \<Rightarrow> assessment_state \<Rightarrow> string \<Rightarrow> string \<Rightarrow> assessment_record \<Rightarrow> assessment_world \<Rightarrow> assessment_world" where
  "finish_unsuccessful_assessment io oc st now reason x w =
     w\<lparr>aw_file := snd (save_record io oc (unsuccessful st now reason x) (aw_file w))\<rparr>"

text \<open>
  What the checks of a run find: the evaluation is no longer current, it is but the workspace or the
  inputs changed, or all is as it was. The first save, the upsert and the second save have outcomes,
  and so have the retry and the save of a failure.
\<close>

datatype run_context = EvaluationStale | InputsStale | InputsCurrent

definition attempt_publication ::
  "assessment_codec \<Rightarrow> save_outcome \<times> put_outcome \<times> save_outcome \<Rightarrow> put_outcome \<times> save_outcome \<Rightarrow>
     assessment_record \<Rightarrow> assessment_world \<Rightarrow> assessment_record \<times> assessment_world" where
  "attempt_publication io first retry x w =
     (case publish_with io (fst first) (fst (snd first)) (snd (snd first)) x w of
        (r, x1, w1) \<Rightarrow>
          if r \<noteq> Inr () \<and> ax_state x1 = PendingRecommendation then snd (recover_with io (fst retry) (snd retry) x1 w1)
          else (x1, w1))"

definition conclude_assessment ::
  "assessment_codec \<Rightarrow> run_context \<Rightarrow> save_outcome \<times> put_outcome \<times> save_outcome \<Rightarrow> put_outcome \<times> save_outcome \<Rightarrow> save_outcome \<Rightarrow>
     string \<Rightarrow> assessment_record \<Rightarrow> assessment_world \<Rightarrow> assessment_world" where
  "conclude_assessment io ctx first retry failing now x w =
     (case (if ctx = InputsCurrent then attempt_publication io first retry x w else (x, w)) of
        (x1, w1) \<Rightarrow>
          if (ctx = EvaluationStale \<or> ax_state x1 \<noteq> SucceededAssessment) \<and> ax_state x1 \<noteq> PendingRecommendation
          then finish_unsuccessful_assessment io failing FailedAssessment now ''Assessment inputs changed before publication'' x1 w1
          else w1)"

section \<open>Reconciliation and recovery\<close>

text \<open>The redactions of the store that are done when the reconciliation ends, all of them if it succeeds.\<close>

definition reconcile_store :: "(string \<Rightarrow> bool) \<Rightarrow> taskmaster_settings \<Rightarrow> recommendation_files \<Rightarrow> recommendation_files" where
  "reconcile_store done_ids s st = (\<lambda>i. map_option (\<lambda>r. if done_ids i then redact_recommendation s r else r) (st i))"

definition reconcile_metadata ::
  "assessment_codec \<Rightarrow> bool \<Rightarrow> save_outcome \<Rightarrow> (string \<Rightarrow> bool) \<Rightarrow> bool \<Rightarrow> taskmaster_settings \<Rightarrow> assessment_world \<Rightarrow>
     (assessment_error + unit) \<times> assessment_world" where
  "reconcile_metadata io history_ok oc done_ids all_done s w =
     (if \<not> history_ok then (Inl ReportUnreadable, w)
      else case load_record io (aw_file w) of
        Inl e \<Rightarrow> (Inl e, w)
      | Inr loaded \<Rightarrow>
          (case (case loaded of
                   None \<Rightarrow> (Inr (), aw_file w)
                 | Some x \<Rightarrow>
                     let y = redact_record s x in if y \<noteq> x then save_record io oc y (aw_file w) else (Inr (), aw_file w)) of
             (Inl e, f) \<Rightarrow> (Inl e, w\<lparr>aw_file := f\<rparr>)
           | (Inr _, f) \<Rightarrow>
               (if all_done then Inr () else Inl UpsertFailed,
                w\<lparr>aw_file := f, aw_store := reconcile_store (\<lambda>i. all_done \<or> done_ids i) s (aw_store w)\<rparr>)))"

text \<open>What recovery finds after the reconciliation of the workspace.\<close>

datatype recovery_context =
  CaptureFailed | ReportStale | GuardRefused | WorkspaceStale | CaptureLost | ContextCurrent

record recovery_input =
  ri_history_ok :: bool
  ri_workspace_ok :: bool
  ri_settings :: taskmaster_settings
  ri_reconcile_history_ok :: bool
  ri_reconcile_save :: save_outcome
  ri_reconcile_ids :: "string \<Rightarrow> bool"
  ri_reconcile_all :: bool
  ri_context :: recovery_context
  ri_put :: put_outcome
  ri_save :: save_outcome
  ri_now :: string

definition recover_pending ::
  "assessment_codec \<Rightarrow> recovery_input \<Rightarrow> assessment_record \<Rightarrow> assessment_world \<Rightarrow> (assessment_error + unit) \<times> assessment_world" where
  "recover_pending io i x w =
     (let interrupt = (\<lambda>reason. case save_record io (ri_save i) (unsuccessful InterruptedAssessment (ri_now i) reason x) (aw_file w) of
                         (r, f) \<Rightarrow> (r, w\<lparr>aw_file := f\<rparr>))
      in case ri_context i of
           CaptureFailed \<Rightarrow> (Inl ContextLost, w)
         | ReportStale \<Rightarrow> (if ax_report x = None then (Inl ReportMissing, w) else interrupt ''Assessment inputs changed before recovery'')
         | GuardRefused \<Rightarrow> (if ax_report x = None then Inl ReportMissing else Inl ContextLost, w)
         | CaptureLost \<Rightarrow> (if ax_report x = None then Inl ReportMissing else Inl ContextLost, w)
         | WorkspaceStale \<Rightarrow> (if ax_report x = None then (Inl ReportMissing, w) else interrupt ''Assessment recovery could not be completed'')
         | ContextCurrent \<Rightarrow>
             if ax_report x = None then (Inl ReportMissing, w)
             else (case recover_with io (ri_put i) (ri_save i) x w of
                     (r, _, w1) \<Rightarrow> (if r = Inr () then Inr () else Inl NotCommitted, w1)))"

definition recover_children ::
  "assessment_codec \<Rightarrow> recovery_input \<Rightarrow> assessment_world \<Rightarrow> (assessment_error + unit) \<times> assessment_world" where
  "recover_children io i w =
     (if \<not> ri_history_ok i then (Inl ReportUnreadable, w)
      else case load_record io (aw_file w) of
        Inl e \<Rightarrow> (Inl e, w)
      | Inr None \<Rightarrow> (Inr (), w)
      | Inr (Some x) \<Rightarrow>
          if ax_state x = QueuedAssessment \<or> ax_state x = RunningAssessment then
            (case save_record io (ri_save i) (x\<lparr>ax_state := InterruptedAssessment, ax_input_manifest := None, ax_phase := None,
                    ax_completed_at := Some (ri_now i), ax_error_summary := Some ''Assessment was interrupted before completion''\<rparr>)
                    (aw_file w) of
               (r, f) \<Rightarrow> (r, w\<lparr>aw_file := f\<rparr>))
          else if ax_state x \<noteq> PendingRecommendation then (Inr (), w)
          else if ax_pending x = None then (Inl PendingInvalid, w)
          else if \<not> ri_workspace_ok i then (Inl WorkspaceChanged, w)
          else (case reconcile_metadata io (ri_reconcile_history_ok i) (ri_reconcile_save i) (ri_reconcile_ids i) (ri_reconcile_all i)
                       (ri_settings i) w of
                  (Inl e, w1) \<Rightarrow> (Inl e, w1)
                | (Inr _, w1) \<Rightarrow> recover_pending io i x w1))"

section \<open>What may happen to a workspace\<close>

datatype assessment_input =
    SaveProgress save_outcome assessment_record
  | MarkReused save_outcome "assessment_record option"
  | FailRun save_outcome assessment_state string string assessment_record
  | Conclude run_context "save_outcome \<times> put_outcome \<times> save_outcome" "put_outcome \<times> save_outcome" save_outcome string assessment_record
  | Recover recovery_input
  | Reconcile bool save_outcome "string \<Rightarrow> bool" bool taskmaster_settings
  | ChangeStore recommendation_files

text \<open>The record of a run that has no report yet.\<close>

definition in_progress :: "assessment_record \<Rightarrow> assessment_record" where
  "in_progress x = x\<lparr>ax_report := None, ax_pending := None\<rparr>"

text \<open>Marking the latest report as reused, unless it changed since it was found: whether the save failed, and whether it was done.\<close>

definition mark_reused ::
  "assessment_codec \<Rightarrow> save_outcome \<Rightarrow> assessment_record option \<Rightarrow> record_file \<Rightarrow> bool \<times> bool \<times> record_file" where
  "mark_reused io oc previous f =
     (case load_record io f of
        Inl _ \<Rightarrow> (True, False, f)
      | Inr current \<Rightarrow>
          if current \<noteq> previous then (False, False, f)
          else case current of
                 None \<Rightarrow> (False, False, f)
               | Some x \<Rightarrow>
                   (case save_record io oc (x\<lparr>ax_reused := True\<rparr>) f of
                      (Inl _, f1) \<Rightarrow> (True, False, f1)
                    | (Inr _, f1) \<Rightarrow> (False, True, f1)))"

fun assessment_next :: "assessment_codec \<Rightarrow> assessment_input \<Rightarrow> assessment_world \<Rightarrow> assessment_world" where
  "assessment_next io (SaveProgress oc x) w = w\<lparr>aw_file := snd (save_record io oc (in_progress x) (aw_file w))\<rparr>"
| "assessment_next io (MarkReused oc previous) w = w\<lparr>aw_file := snd (snd (mark_reused io oc previous (aw_file w)))\<rparr>"
| "assessment_next io (FailRun oc st now reason x) w = finish_unsuccessful_assessment io oc st now reason x w"
| "assessment_next io (Conclude ctx first retry failing now x) w = conclude_assessment io ctx first retry failing now x w"
| "assessment_next io (Recover i) w = snd (recover_children io i w)"
| "assessment_next io (Reconcile history_ok oc done_ids all_done s) w = snd (reconcile_metadata io history_ok oc done_ids all_done s w)"
| "assessment_next io (ChangeStore st) w = w\<lparr>aw_store := st\<rparr>"

section \<open>A published report names a stored recommendation\<close>

definition announces :: "record_file \<Rightarrow> string \<Rightarrow> bool" where
  "announces f i \<longleftrightarrow> (\<exists>x r. f = Some x \<and> ax_state x = SucceededAssessment \<and> ax_report x = Some r \<and> ar_recommendation_id r = Some i)"

lemma save_file: "snd (save_record io oc x f) = f \<or> snd (save_record io oc x f) = Some x"
  by (simp add: save_record_def split: sum.splits save_outcome.splits)

lemma save_announces: "announces (snd (save_record io oc x f)) i \<Longrightarrow> announces f i \<or> announces (Some x) i"
  using save_file [of io oc x f] by auto

lemma quiet_records [simp]:
  "\<not> announces (Some (in_progress x)) i" "\<not> announces (Some (unsuccessful st now reason x)) i"
  "\<not> announces (Some (x\<lparr>ax_state := PendingRecommendation\<rparr>)) i"
  by (simp_all add: announces_def in_progress_def unsuccessful_def)

lemma redact_announces [simp]: "announces (Some (redact_record s x)) i \<longleftrightarrow> announces (Some x) i"
  by (cases "ax_report x") (auto simp: announces_def redact_record_def)

text \<open>Storing a recommendation only adds to the store.\<close>

lemma upsert_store:
  "upsert_assessment_recommendation u q st = (r, st1) \<Longrightarrow> (r = Inr () \<longrightarrow> st1 (rc_id q) \<noteq> None) \<and> (\<forall>i. st i \<noteq> None \<longrightarrow> st1 i \<noteq> None)"
  by (auto simp: upsert_assessment_recommendation_def split: option.splits put_outcome.splits if_split_asm)

lemma published_id:
  "validate_publication c x = Inr () \<Longrightarrow> ax_report x = Some r \<Longrightarrow>
     ar_recommendation_id r = map_option rc_id (ax_pending x)"
  by (auto simp: validate_publication_def and_then_ok pending_identity_bad_def split: option.splits if_split_asm)

definition backed :: "assessment_world \<Rightarrow> assessment_world \<Rightarrow> bool" where
  "backed w w1 \<longleftrightarrow> (\<forall>i. announces (aw_file w1) i \<longrightarrow> announces (aw_file w) i \<or> aw_store w1 i \<noteq> None)"

definition store_grows :: "assessment_world \<Rightarrow> assessment_world \<Rightarrow> bool" where
  "store_grows w w1 \<longleftrightarrow> (\<forall>i. aw_store w i \<noteq> None \<longrightarrow> aw_store w1 i \<noteq> None)"

lemma backed_refl: "backed w w" "store_grows w w"
  by (simp_all add: backed_def store_grows_def)

lemma backed_trans: "backed w w1 \<Longrightarrow> backed w1 w2 \<Longrightarrow> store_grows w1 w2 \<Longrightarrow> backed w w2"
  unfolding backed_def store_grows_def by blast

lemma grows_trans: "store_grows w w1 \<Longrightarrow> store_grows w1 w2 \<Longrightarrow> store_grows w w2"
  unfolding store_grows_def by blast

lemma backed_file: "(\<And>i. announces f i \<Longrightarrow> announces (aw_file w) i) \<Longrightarrow> backed w (w\<lparr>aw_file := f\<rparr>) \<and> store_grows w (w\<lparr>aw_file := f\<rparr>)"
  by (auto simp: backed_def store_grows_def)

lemma backed_save:
  "(\<And>i. \<not> announces (Some x) i) \<Longrightarrow>
     backed w (w\<lparr>aw_file := snd (save_record io oc x (aw_file w))\<rparr>) \<and> store_grows w (w\<lparr>aw_file := snd (save_record io oc x (aw_file w))\<rparr>)"
  by (rule backed_file) (use save_announces in blast)

lemma recover_with_backed:
  assumes "recover_with io u oc x w = (r, x1, w1)"
  shows "backed w w1 \<and> store_grows w w1"
proof (cases "ax_state x = PendingRecommendation \<and> validate_publication (ac_codec io) x = Inr () \<and> ax_pending x \<noteq> None")
  case False
  then have "w1 = w" using assms
    by (auto simp: recover_with_def split: sum.splits option.splits if_split_asm)
  then show ?thesis using backed_refl by simp
next
  case True
  then obtain q where q: "ax_pending x = Some q" by auto
  obtain ur st where up: "upsert_assessment_recommendation u q (aw_store w) = (ur, st)" by (cases "upsert_assessment_recommendation u q (aw_store w)")
  note grows = upsert_store [OF up]
  define c where "c = x\<lparr>ax_pending := None, ax_state := SucceededAssessment\<rparr>"
  have w1: "w1 = w\<lparr>aw_store := st\<rparr> \<or> (ur = Inr () \<and> w1 = w\<lparr>aw_store := st, aw_file := snd (save_record io oc c (aw_file w))\<rparr>)"
    using assms True q up by (auto simp: recover_with_def c_def [symmetric] Let_def split: sum.splits prod.splits)
  have "aw_store w1 i \<noteq> None" if says: "announces (Some c) i" and ok: "ur = Inr ()" for i
  proof -
    obtain rp where "ax_report x = Some rp" "ar_recommendation_id rp = Some i" using says by (auto simp: announces_def c_def)
    then have "i = rc_id q" using published_id [of "ac_codec io" x rp] True q by simp
    then show ?thesis using grows ok w1 by auto
  qed
  then show ?thesis using w1 grows save_announces [of io oc c "aw_file w"] unfolding backed_def store_grows_def
    by (elim disjE conjE) (simp, fastforce)
qed

lemma publish_with_backed:
  assumes "publish_with io o1 u o2 x w = (r, x1, w1)"
  shows "backed w w1 \<and> store_grows w w1"
proof (cases "validate_publication (ac_codec io) x")
  case (Inl e)
  with assms show ?thesis using backed_refl by (simp add: publish_with_def)
next
  case (Inr v)
  show ?thesis
  proof (cases "ax_pending x")
    case None
    define c where "c = x\<lparr>ax_state := SucceededAssessment\<rparr>"
    have w1: "w1 = w\<lparr>aw_file := snd (save_record io o1 c (aw_file w))\<rparr>"
      using assms Inr None by (auto simp: publish_with_def c_def [symmetric] Let_def split: prod.splits sum.splits)
    have "\<not> announces (Some c) i" for i using published_id [of "ac_codec io" x] Inr None by (auto simp: announces_def c_def)
    with w1 backed_save [of c w io o1] show ?thesis by simp
  next
    case (Some q)
    define p where "p = x\<lparr>ax_state := PendingRecommendation\<rparr>"
    define w2 where "w2 = w\<lparr>aw_file := snd (save_record io o1 p (aw_file w))\<rparr>"
    have staged: "backed w w2 \<and> store_grows w w2" using backed_save [of p w io o1] by (simp add: w2_def p_def)
    have "w1 = w2 \<or> recover_with io u o2 p w2 = (r, x1, w1)"
      using assms Inr Some by (auto simp: publish_with_def p_def [symmetric] w2_def Let_def split: prod.splits sum.splits)
    with staged recover_with_backed backed_trans grows_trans show ?thesis by blast
  qed
qed

lemma finish_backed:
  "backed w (finish_unsuccessful_assessment io oc st now reason x w) \<and> store_grows w (finish_unsuccessful_assessment io oc st now reason x w)"
  unfolding finish_unsuccessful_assessment_def by (rule backed_save) simp

lemma attempt_backed:
  assumes "attempt_publication io first retry x w = (x1, w1)"
  shows "backed w w1"
proof -
  obtain r y v where p: "publish_with io (fst first) (fst (snd first)) (snd (snd first)) x w = (r, y, v)"
    by (cases "publish_with io (fst first) (fst (snd first)) (snd (snd first)) x w")
  note v = publish_with_backed [OF p]
  show ?thesis
  proof (cases "r \<noteq> Inr () \<and> ax_state y = PendingRecommendation")
    case True
    obtain r1 where "recover_with io (fst retry) (snd retry) y v = (r1, x1, w1)"
      using assms p True by (cases "recover_with io (fst retry) (snd retry) y v") (simp add: attempt_publication_def)
    from recover_with_backed [OF this] v backed_trans show ?thesis by blast
  next
    case False
    then have "(y, v) = (x1, w1)" using assms p by (simp only: attempt_publication_def split if_False)
    then show ?thesis using v by simp
  qed
qed

lemma conclude_backed: "backed w (conclude_assessment io ctx first retry failing now x w)"
proof -
  obtain x1 w1 where a: "(if ctx = InputsCurrent then attempt_publication io first retry x w else (x, w)) = (x1, w1)"
    by (cases "if ctx = InputsCurrent then attempt_publication io first retry x w else (x, w)")
  then have "backed w w1" using attempt_backed backed_refl(1) by (auto split: if_split_asm)
  moreover have "backed w1 (finish_unsuccessful_assessment io failing FailedAssessment now ''Assessment inputs changed before publication'' x1 w1) \<and>
      store_grows w1 (finish_unsuccessful_assessment io failing FailedAssessment now ''Assessment inputs changed before publication'' x1 w1)"
    by (rule finish_backed)
  ultimately show ?thesis unfolding conclude_assessment_def a using backed_trans by (simp split: if_split)
qed

lemma reconcile_backed:
  assumes "reconcile_metadata io history_ok oc done_ids all_done s w = (r, w1)"
  shows "backed w w1 \<and> store_grows w w1"
proof (cases "history_ok \<and> (\<exists>l. load_record io (aw_file w) = Inr l)")
  case False
  with assms have "w1 = w" by (auto simp: reconcile_metadata_def split: sum.splits if_split_asm)
  then show ?thesis using backed_refl by simp
next
  case True
  then obtain l where l: "load_record io (aw_file w) = Inr l" "history_ok" by blast
  define saved where "saved = (case l of
      None \<Rightarrow> (Inr (), aw_file w)
    | Some x \<Rightarrow> let y = redact_record s x in if y \<noteq> x then save_record io oc y (aw_file w) else (Inr (), aw_file w))"
  have "announces (snd saved) i \<Longrightarrow> announces (aw_file w) i" for i
  proof (cases l)
    case (Some x)
    then have "aw_file w = Some x" using l(1) by (auto simp: load_record_def and_then_ok split: option.splits)
    then show "announces (snd saved) i \<Longrightarrow> announces (aw_file w) i"
      using Some save_announces [of io oc "redact_record s x" "aw_file w" i] by (auto simp: saved_def Let_def split: if_split_asm)
  qed (simp add: saved_def)
  moreover have "w1 = w\<lparr>aw_file := snd saved\<rparr> \<or>
      w1 = w\<lparr>aw_file := snd saved, aw_store := reconcile_store (\<lambda>i. all_done \<or> done_ids i) s (aw_store w)\<rparr>"
    using assms l by (auto simp: reconcile_metadata_def saved_def [symmetric] split: prod.splits sum.splits)
  ultimately show ?thesis by (auto simp: backed_def store_grows_def reconcile_store_def)
qed

lemma recover_pending_backed:
  assumes "recover_pending io i x w = (r, w1)"
  shows "backed w w1 \<and> store_grows w w1"
proof -
  have interrupted: "backed w w1 \<and> store_grows w w1"
    if "(case save_record io (ri_save i) (unsuccessful InterruptedAssessment (ri_now i) reason x) (aw_file w) of
        (r, f) \<Rightarrow> (r, w\<lparr>aw_file := f\<rparr>)) = (r, w1)" for reason
    using backed_save [of "unsuccessful InterruptedAssessment (ri_now i) reason x" w io "ri_save i"] that
    by (auto split: prod.splits)
  have current: "backed w w1 \<and> store_grows w w1"
    if "(case recover_with io (ri_put i) (ri_save i) x w of
        (r, _, w1) \<Rightarrow> (if r = Inr () then Inr () else Inl NotCommitted, w1)) = (r, w1)"
    using recover_with_backed [of io "ri_put i" "ri_save i" x w] that by (auto split: prod.splits)
  show ?thesis
    using assms interrupted current backed_refl [of w]
    by (cases "ri_context i"; cases "ax_report x") (auto simp: recover_pending_def Let_def)
qed

lemma recover_children_backed:
  assumes "recover_children io i w = (r, w1)"
  shows "backed w w1"
proof (cases "\<exists>x. load_record io (aw_file w) = Inr (Some x)")
  case False
  with assms have "w1 = w" by (auto simp: recover_children_def split: sum.splits option.splits if_split_asm)
  then show ?thesis using backed_refl by simp
next
  case True
  then obtain x where x: "load_record io (aw_file w) = Inr (Some x)" by blast
  define y where "y = x\<lparr>ax_state := InterruptedAssessment, ax_input_manifest := None, ax_phase := None,
    ax_completed_at := Some (ri_now i), ax_error_summary := Some ''Assessment was interrupted before completion''\<rparr>"
  obtain rr w2 where rec: "reconcile_metadata io (ri_reconcile_history_ok i) (ri_reconcile_save i) (ri_reconcile_ids i)
      (ri_reconcile_all i) (ri_settings i) w = (rr, w2)"
    by (cases "reconcile_metadata io (ri_reconcile_history_ok i) (ri_reconcile_save i) (ri_reconcile_ids i)
      (ri_reconcile_all i) (ri_settings i) w")
  have "w1 = w \<or> w1 = w\<lparr>aw_file := snd (save_record io (ri_save i) y (aw_file w))\<rparr> \<or> w1 = w2 \<or> recover_pending io i x w2 = (r, w1)"
    using assms x rec by (auto simp: recover_children_def y_def [symmetric] split: sum.splits prod.splits if_split_asm)
  moreover have "backed w (w\<lparr>aw_file := snd (save_record io (ri_save i) y (aw_file w))\<rparr>)"
    using backed_save [of y w io "ri_save i"] by (simp add: announces_def y_def)
  ultimately show ?thesis
    using backed_refl(1) [of w] reconcile_backed [OF rec] recover_pending_backed [of io i x w2 r w1] backed_trans by metis
qed

lemma mark_reused_file: "announces (snd (snd (mark_reused io oc previous f))) i \<Longrightarrow> announces f i"
proof (cases "\<exists>x. load_record io f = Inr (Some x) \<and> previous = Some x")
  case True
  then obtain x where x: "load_record io f = Inr (Some x)" "previous = Some x" by blast
  then have "f = Some x" by (auto simp: load_record_def and_then_ok split: option.splits)
  moreover have "announces (Some (x\<lparr>ax_reused := True\<rparr>)) i \<longleftrightarrow> announces (Some x) i" by (simp add: announces_def)
  ultimately show "announces (snd (snd (mark_reused io oc previous f))) i \<Longrightarrow> announces f i"
    using x save_announces [of io oc "x\<lparr>ax_reused := True\<rparr>" f i] by (auto simp: mark_reused_def split: prod.splits sum.splits)
qed (auto simp: mark_reused_def split: sum.splits option.splits if_split_asm)

lemma next_backed: "announces (aw_file (assessment_next io a w)) i \<Longrightarrow> announces (aw_file w) i \<or> aw_store (assessment_next io a w) i \<noteq> None"
proof (cases a)
  case (SaveProgress oc x)
  then show "announces (aw_file (assessment_next io a w)) i \<Longrightarrow> ?thesis" using save_announces [of io oc "in_progress x" "aw_file w" i] by auto
next
  case (MarkReused oc previous)
  then show "announces (aw_file (assessment_next io a w)) i \<Longrightarrow> ?thesis"
    using mark_reused_file [of io oc previous "aw_file w" i] by simp
next
  case (FailRun oc st now reason x)
  then show "announces (aw_file (assessment_next io a w)) i \<Longrightarrow> ?thesis"
    using finish_backed [of w io oc st now reason x] by (simp add: backed_def)
next
  case (Conclude ctx first retry failing now x)
  then show "announces (aw_file (assessment_next io a w)) i \<Longrightarrow> ?thesis"
    using conclude_backed [of w io ctx first retry failing now x] by (simp add: backed_def)
next
  case (Recover ri)
  then show "announces (aw_file (assessment_next io a w)) i \<Longrightarrow> ?thesis"
    using recover_children_backed [of io ri w] by (cases "recover_children io ri w") (simp add: backed_def)
next
  case (Reconcile history_ok oc done_ids all_done s)
  then show "announces (aw_file (assessment_next io a w)) i \<Longrightarrow> ?thesis"
    using reconcile_backed [of io history_ok oc done_ids all_done s w]
    by (cases "reconcile_metadata io history_ok oc done_ids all_done s w") (simp add: backed_def)
qed simp

text \<open>
  C15: Whatever fails and is retried, and whatever else changes the store of recommendations: a report
  that is saved as succeeded and names a recommendation was preceded, or accompanied, by a moment at
  which that recommendation was in the store. No crash between the writes leaves a published report
  whose recommendation never existed.
\<close>

theorem report_names_stored_recommendation:
  assumes "aw_file w0 = None" and "announces (aw_file (fold (assessment_next io) inputs w0)) i"
  shows "\<exists>before after. inputs = before @ after \<and> aw_store (fold (assessment_next io) before w0) i \<noteq> None"
  using assms(2)
proof (induction inputs rule: rev_induct)
  case Nil
  then show ?case using assms(1) by (simp add: announces_def)
next
  case (snoc a inputs)
  let ?w = "fold (assessment_next io) inputs w0"
  have "announces (aw_file ?w) i \<or> aw_store (assessment_next io a ?w) i \<noteq> None" using next_backed snoc.prems by simp
  then show ?case
  proof
    assume "announces (aw_file ?w) i"
    then obtain before after where "inputs = before @ after" "aw_store (fold (assessment_next io) before w0) i \<noteq> None" using snoc.IH by blast
    then show ?case by (intro exI [of _ before] exI [of _ "after @ [a]"]) simp
  next
    assume "aw_store (assessment_next io a ?w) i \<noteq> None"
    then show ?case by (intro exI [of _ "inputs @ [a]"] exI [of _ "[]"]) simp
  qed
qed

section \<open>A pending publication is completed\<close>

definition committed :: "assessment_record \<Rightarrow> assessment_record" where
  "committed x = x\<lparr>ax_pending := None, ax_state := SucceededAssessment\<rparr>"

lemma commit_valid:
  assumes "validate_bytes io x = Inr ()" "ax_report x \<noteq> None" "ac_size io (committed x) \<le> MAX_ASSESSMENT_BYTES"
  shows "validate_bytes io (committed x) = Inr ()"
proof -
  have same: "reference_check u (committed x) = reference_check u x" "policy_check (committed x) = policy_check x"
    "manifest_check (committed x) = manifest_check x" "undiscovered (committed x) = undiscovered x" for u
    by (simp_all add: reference_check_def policy_check_def manifest_check_def undiscovered_def committed_def split: option.splits)
  have "state_check (committed x) = Inr ()" using assms(2) by (simp add: state_check_def committed_def)
  then have "validate_format u x = Inr () \<Longrightarrow> validate_format u (committed x) = Inr ()" for u
    by (auto simp: validate_format_def and_then_ok first_error_ok same) (auto simp: committed_def first_error_ok split: if_split_asm)
  then show ?thesis using assms(1,3) by (auto simp: validate_bytes_def split: if_split_asm) (auto simp: committed_def)
qed

text \<open>An undisturbed recovery: everything it reads is readable, nothing changed, and every write succeeds.\<close>

definition undisturbed :: "recovery_input \<Rightarrow> bool" where
  "undisturbed i \<longleftrightarrow> ri_history_ok i \<and> ri_workspace_ok i \<and> ri_reconcile_history_ok i \<and> ri_reconcile_all i \<and>
     ri_context i = ContextCurrent \<and> ri_put i = PutOk \<and> ri_save i = SaveOk"

text \<open>
  C16: A publication that stopped half way is completed by the next undisturbed recovery: the file then
  holds the same report as succeeded, and its recommendation is stored, whether or not the earlier
  attempt had stored it already. The settings must not have taken away the evidence, another
  recommendation must not use the id, and the smaller committed record must fit the size limit.
\<close>

theorem pending_publication_completes:
  assumes "aw_file w = Some x" and "validate_bytes io x = Inr ()" and "ax_state x = PendingRecommendation"
    and "validate_publication (ac_codec io) x = Inr ()" and "ax_pending x = Some q"
    and "undisturbed i" and "redact_record (ri_settings i) x = x"
    and "aw_store w (rc_id q) = None \<or> aw_store w (rc_id q) = Some q"
    and "ac_size io (committed x) \<le> MAX_ASSESSMENT_BYTES"
  shows "fst (recover_children io i w) = Inr () \<and> aw_file (snd (recover_children io i w)) = Some (committed x) \<and>
    aw_store (snd (recover_children io i w)) (rc_id q) = Some q"
proof -
  have load: "load_record io (aw_file w) = Inr (Some x)" using assms(1,2) by (simp add: load_record_def)
  have report: "ax_report x \<noteq> None" using assms(4) by (auto simp: validate_publication_def split: option.splits)
  have kept: "redact_recommendation (ri_settings i) q = q" using arg_cong [OF assms(7), of ax_pending] assms(5) by (simp add: redact_record_def)
  define w1 where "w1 = w\<lparr>aw_store := reconcile_store (\<lambda>_. True) (ri_settings i) (aw_store w)\<rparr>"
  have rec: "reconcile_metadata io (ri_reconcile_history_ok i) (ri_reconcile_save i) (ri_reconcile_ids i) (ri_reconcile_all i)
      (ri_settings i) w = (Inr (), w1)"
    using assms(6,7) load by (simp add: reconcile_metadata_def undisturbed_def w1_def)
  have "aw_store w1 (rc_id q) = None \<or> aw_store w1 (rc_id q) = Some q"
    using assms(8) kept by (auto simp: w1_def reconcile_store_def)
  then obtain st where up: "upsert_assessment_recommendation PutOk q (aw_store w1) = (Inr (), st)" "st (rc_id q) = Some q"
    by (auto simp: upsert_assessment_recommendation_def)
  have "save_record io SaveOk (committed x) f = (Inr (), Some (committed x))" for f
    using commit_valid [OF assms(2) report assms(9)] by (simp add: save_record_def)
  then have "recover_with io PutOk SaveOk x w1 = (Inr (), committed x, w1\<lparr>aw_store := st, aw_file := Some (committed x)\<rparr>)"
    using assms(3-5) up(1) by (simp add: recover_with_def committed_def [symmetric] Let_def)
  then have "recover_pending io i x w1 = (Inr (), w1\<lparr>aw_store := st, aw_file := Some (committed x)\<rparr>)"
    using assms(6) report by (simp add: recover_pending_def undisturbed_def)
  then have "recover_children io i w = (Inr (), w1\<lparr>aw_store := st, aw_file := Some (committed x)\<rparr>)"
    using assms(3,5,6) load rec by (simp add: recover_children_def undisturbed_def)
  then show ?thesis using up(2) by simp
qed

section \<open>A concrete publication\<close>

definition sample_proposed :: recommendation where
  "sample_proposed = sample_recommendation ''r''\<lparr>rc_dedupe_key := ''proactive:v1:k'', rc_assessment :=
     Some \<lparr>as_readiness_reference = None, as_access_redacted = False, as_id = ''i'', as_input_fingerprint = ''f'',
       as_context_level = WorkflowContext, as_excluded_paths = []\<rparr>\<rparr>"

definition sample_pending :: assessment_record where
  "sample_pending = sample_assessed\<lparr>ax_state := PendingRecommendation, ax_pending := Some sample_proposed,
     ax_report := Some (sample_report\<lparr>ar_outcome := ''proposed'', ar_no_proposal_reason := None, ar_recommendation_id := Some ''r'',
       ar_proposal := Some \<lparr>op_target_surface = Tooling, op_title = ''t'', op_summary = ''s''\<rparr>\<rparr>)\<rparr>"

definition sample_assessment_codec :: assessment_codec where
  "sample_assessment_codec = \<lparr>ac_size = (\<lambda>_. 900), ac_codec = sample_rec_codec\<rparr>"

definition sample_recovery :: recovery_input where
  "sample_recovery = \<lparr>ri_history_ok = True, ri_workspace_ok = True, ri_settings = default_settings, ri_reconcile_history_ok = True,
     ri_reconcile_save = SaveOk, ri_reconcile_ids = (\<lambda>_. False), ri_reconcile_all = True, ri_context = ContextCurrent,
     ri_put = PutOk, ri_save = SaveOk, ri_now = ''t''\<rparr>"

lemma sample_pending_sel:
  "ax_state sample_pending = PendingRecommendation" "ax_pending sample_pending = Some sample_proposed" "rc_id sample_proposed = ''r''"
  by (simp_all add: sample_pending_def sample_proposed_def)

lemma sample_pending_valid:
  "validate_bytes sample_assessment_codec sample_pending = Inr ()"
  "validate_publication (ac_codec sample_assessment_codec) sample_pending = Inr ()"
  "validate_publication (ac_codec sample_assessment_codec) (sample_pending\<lparr>ax_state := RunningAssessment\<rparr>) = Inr ()"
  by (simp_all add: validate_bytes_def validate_publication_def sample_assessment_codec_def MAX_ASSESSMENT_BYTES_def sample_pending_def
      sample_assessed_def sample_report_def sample_proposed_def pending_identity_bad_def refuse_if_def)

theorem pending_publication_completes_witness:
  "aw_store (snd (recover_children sample_assessment_codec sample_recovery
     \<lparr>aw_file = Some sample_pending, aw_store = Map.empty\<rparr>)) ''r'' = Some sample_proposed"
proof -
  have "redact_record (ri_settings sample_recovery) sample_pending = sample_pending"
    by (simp add: redact_record_def report_narrowed_def redact_recommendation_def sample_recovery_def sample_pending_def sample_proposed_def
        sample_assessed_def sample_report_def access_narrowed_def default_settings_def)
  moreover have "undisturbed sample_recovery" by (simp add: undisturbed_def sample_recovery_def)
  moreover have "ac_size sample_assessment_codec (committed sample_pending) \<le> MAX_ASSESSMENT_BYTES"
    by (simp add: sample_assessment_codec_def MAX_ASSESSMENT_BYTES_def)
  ultimately show ?thesis
    using pending_publication_completes [of "\<lparr>aw_file = Some sample_pending, aw_store = Map.empty\<rparr>" sample_pending
        sample_assessment_codec sample_proposed sample_recovery] sample_pending_valid
    by (simp add: sample_pending_sel)
qed

definition sample_conclude :: assessment_input where
  "sample_conclude = Conclude InputsCurrent (SaveOk, PutUnconfirmed, SaveOk) (PutOk, SaveOk) SaveOk ''t''
     (sample_pending\<lparr>ax_state := RunningAssessment\<rparr>)"

theorem report_names_stored_recommendation_witness:
  "\<exists>before after. [sample_conclude] = before @ after \<and>
     aw_store (fold (assessment_next sample_assessment_codec) before \<lparr>aw_file = None, aw_store = Map.empty\<rparr>) ''r'' \<noteq> None"
proof -
  have pending: "sample_pending\<lparr>ax_state := PendingRecommendation\<rparr> = sample_pending" by (simp add: sample_pending_def)
  have report: "ax_report sample_pending \<noteq> None" by (simp add: sample_pending_def)
  have saved: "save_record sample_assessment_codec SaveOk x f = (Inr (), Some x)"
    if "validate_bytes sample_assessment_codec x = Inr ()" for x f using that by (simp add: save_record_def)
  have whole: "validate_bytes sample_assessment_codec (committed sample_pending) = Inr ()"
    by (rule commit_valid [OF sample_pending_valid(1) report]) (simp add: sample_assessment_codec_def MAX_ASSESSMENT_BYTES_def)
  have published: "publish_with sample_assessment_codec SaveOk PutUnconfirmed SaveOk (sample_pending\<lparr>ax_state := RunningAssessment\<rparr>)
      \<lparr>aw_file = None, aw_store = Map.empty\<rparr> =
      (Inl UpsertFailed, sample_pending, \<lparr>aw_file = Some sample_pending, aw_store = [''r'' \<mapsto> sample_proposed]\<rparr>)"
    using sample_pending_valid by (simp add: publish_with_def pending saved recover_with_def sample_pending_sel
        upsert_assessment_recommendation_def Let_def)
  have "recover_with sample_assessment_codec PutOk SaveOk sample_pending
      \<lparr>aw_file = Some sample_pending, aw_store = [''r'' \<mapsto> sample_proposed]\<rparr> =
      (Inr (), committed sample_pending, \<lparr>aw_file = Some (committed sample_pending), aw_store = [''r'' \<mapsto> sample_proposed]\<rparr>)"
    using sample_pending_valid(2) whole by (simp add: recover_with_def sample_pending_sel upsert_assessment_recommendation_def
        committed_def [symmetric] saved Let_def)
  then have "aw_file (fold (assessment_next sample_assessment_codec) [sample_conclude] \<lparr>aw_file = None, aw_store = Map.empty\<rparr>) =
      Some (committed sample_pending)"
    using published by (simp add: sample_conclude_def conclude_assessment_def attempt_publication_def sample_pending_sel) (simp add: committed_def)
  moreover have "announces (Some (committed sample_pending)) ''r''"
    by (simp add: announces_def committed_def sample_pending_def)
  ultimately show ?thesis
    using report_names_stored_recommendation [of "\<lparr>aw_file = None, aw_store = Map.empty\<rparr>" sample_assessment_codec "[sample_conclude]" "''r''"]
    by simp
qed

end
